(* ===== verification/Fleet_Prelude.thy ===== *)
theory Fleet_Prelude
  imports
    Main
    "HOL-Library.AList"
    "HOL-Library.Multiset"
    "HOL-Library.Word"
begin

text \<open>
  Shared vocabulary of the development.

  \<^item> Machine integers: Rust's \<open>u8\<close> ... \<open>u64\<close> are words; the saturating and
    checked operations of the standard library are written over \<open>unat\<close>.
  \<^item> Time: an instant (\<open>DateTime<Utc>\<close>) and a signed duration are counts of
    nanoseconds. Every read of the clock in the source (\<open>Utc::now()\<close>,
    \<open>Instant::now()\<close>) is an explicit argument of the model.
  \<^item> Hash maps: a \<open>HashMap\<close> (and a \<open>DashMap\<close>, whose operations are atomic per key)
    is an association list with distinct keys; a \<open>HashSet\<close> is a list without
    repetitions. The order of such a list carries no meaning: wherever the source
    iterates over a hash container, the model iterates over the list permuted by an
    arbitrary function \<open>it\<close> with \<open>hash_iter it\<close>.
  \<^item> A panic of the source is the value \<open>Panics\<close> of the type \<open>outcome\<close>.
  \<^item> Locales: \<open>map_interface\<close> (what a client may rely on from a map),
    \<open>invariant_machine\<close> and \<open>terminating_machine\<close> (what a step relation gives
    once one step keeps an invariant and decreases a measure).
\<close>

section \<open>Machine integers, time\<close>

type_synonym u8 = "8 word"
type_synonym u16 = "16 word"
type_synonym u32 = "32 word"
type_synonym u64 = "64 word"
type_synonym uuid = "128 word"

type_synonym datetime = int
type_synonym duration = int

abbreviation nanos_per_sec :: int where
  "nanos_per_sec \<equiv> 1000000000"

abbreviation secs :: "int \<Rightarrow> duration" where
  "secs n \<equiv> n * nanos_per_sec"

text \<open>Truncating division, as Rust divides; \<open>TimeDelta::num_seconds\<close> truncates too.\<close>

definition trunc_div :: "int \<Rightarrow> int \<Rightarrow> int" where
  "trunc_div a b = sgn a * sgn b * (\<bar>a\<bar> div \<bar>b\<bar>)"

definition num_seconds :: "duration \<Rightarrow> int" where
  "num_seconds d = trunc_div d nanos_per_sec"

definition saturating_add :: "('n::len) word \<Rightarrow> 'n word \<Rightarrow> 'n word" where
  "saturating_add a b = (if unat a + unat b < 2 ^ LENGTH('n) then a + b else - 1)"

lemma unat_saturating_add:
  "unat (saturating_add a (b :: ('n::len) word)) = min (unat a + unat b) (2 ^ LENGTH('n) - 1)"
  by (auto simp: saturating_add_def unat_word_ariths unsigned_minus_1_eq_mask mask_eq_exp_minus_1)

lemma unat_plus_one_no_wrap:
  "(a :: ('n::len) word) \<noteq> - 1 \<Longrightarrow> unat (a + 1) = unat a + 1"
proof -
  assume "a \<noteq> - 1"
  then have "unat a \<noteq> unat (- 1 :: 'n word)"
    by (simp add: word_unat_eq_iff)
  moreover have "unat a < 2 ^ LENGTH('n)"
    by (rule unsigned_less)
  ultimately have "unat a + 1 < 2 ^ LENGTH('n)"
    by (simp only: unsigned_minus_1_eq_mask mask_eq_exp_minus_1)
  then show ?thesis
    by (simp add: unat_word_ariths)
qed

lemma unat_le_max: "unat (a :: ('n::len) word) \<le> unat (- 1 :: 'n word)"
  using word_order.extremum [of a] by (simp only: word_le_nat_alt)

text \<open>A counter below a threshold of the same width can be incremented without wrapping.\<close>

lemma unat_inc_below:
  "unat (a :: ('n::len) word) < unat (b :: 'n word) \<Longrightarrow> unat (a + 1) = unat a + 1"
  by (rule unat_plus_one_no_wrap) (use unat_le_max [of b] in auto)

text \<open>A sum of words that does not wrap.\<close>

lemma unat_sum_list:
  "sum_list (map (\<lambda>x. unat (f x)) xs) < 2 ^ LENGTH('n) \<Longrightarrow>
   unat (sum_list (map f xs) :: ('n::len) word) = sum_list (map (\<lambda>x. unat (f x)) xs)"
proof (induction xs)
  case (Cons x xs)
  then have "unat (sum_list (map f xs)) = sum_list (map (\<lambda>x. unat (f x)) xs)" by simp
  with Cons.prems show ?case by (simp add: unat_word_ariths)
qed simp

lemma mem_map_filter: "y \<in> set (List.map_filter f xs) \<longleftrightarrow> (\<exists>x \<in> set xs. f x = Some y)"
  by (induction xs) (auto simp: List.map_filter_simps split: option.split)

lemma num_seconds_nonneg: "0 \<le> d \<Longrightarrow> num_seconds d = d div nanos_per_sec"
  by (cases "d = 0") (simp_all add: num_seconds_def trunc_div_def)

section \<open>Panics and results\<close>

datatype 'a outcome = Panics | Returns 'a

primrec returns :: "'a outcome \<Rightarrow> bool" where
  "returns Panics = False"
| "returns (Returns x) = True"

type_synonym ('a, 'e) result = "'e + 'a"

text \<open>\<open>Iterator::position\<close>\<close>

fun position :: "('a \<Rightarrow> bool) \<Rightarrow> 'a list \<Rightarrow> nat option" where
  "position p [] = None"
| "position p (x # xs) = (if p x then Some 0 else map_option Suc (position p xs))"

lemma position_Some:
  "position p xs = Some i \<Longrightarrow> i < length xs \<and> p (xs ! i)"
  by (induction xs arbitrary: i) (auto split: if_splits)

lemma position_None: "position p xs = None \<longleftrightarrow> (\<forall>x \<in> set xs. \<not> p x)"
  by (induction xs) auto

section \<open>Chrono durations\<close>

text \<open>
  \<open>TimeDelta::seconds\<close> panics beyond \<open>i64::MAX / 1000\<close> seconds either way, \<open>TimeDelta::from_std\<close>
  fails beyond \<open>i64::MAX\<close> milliseconds, and adding a duration to an instant, or subtracting
  it, panics outside the range of \<open>DateTime<Utc>\<close>. A \<open>std::time::Duration\<close> is a natural
  number of nanoseconds.
\<close>

type_synonym std_duration = nat

definition duration_seconds :: "int \<Rightarrow> duration outcome" where
  "duration_seconds n =
     (if \<bar>n\<bar> \<le> (2 ^ 63 - 1) div 1000 then Returns (secs n) else Panics)"

definition duration_from_std :: "std_duration \<Rightarrow> duration option" where
  "duration_from_std d = (if int d \<le> (2 ^ 63 - 1) * 1000000 then Some (int d) else None)"

definition datetime_in_range :: "datetime \<Rightarrow> bool" where
  "datetime_in_range t \<longleftrightarrow> secs (- 8334601228800) \<le> t \<and> t < secs 8210266876800"

definition datetime_minus :: "datetime \<Rightarrow> duration \<Rightarrow> datetime outcome" where
  "datetime_minus t d = (if datetime_in_range (t - d) then Returns (t - d) else Panics)"

definition datetime_plus :: "datetime \<Rightarrow> duration \<Rightarrow> datetime outcome" where
  "datetime_plus t d = (if datetime_in_range (t + d) then Returns (t + d) else Panics)"

section \<open>Printing numbers\<close>

definition digit_char :: "nat \<Rightarrow> char" where
  "digit_char d = ''0123456789'' ! (d mod 10)"

fun show_nat :: "nat \<Rightarrow> string" where
  "show_nat n =
     (if n < 10 then [digit_char n] else show_nat (n div 10) @ [digit_char (n mod 10)])"

declare show_nat.simps [simp del]

definition show_int :: "int \<Rightarrow> string" where
  "show_int i = (if i < 0 then ''-'' @ show_nat (nat (- i)) else show_nat (nat i))"

text \<open>The \<open>Debug\<close> form \<open>{:?}\<close> of an optional integer.\<close>

definition debug_int_option :: "int option \<Rightarrow> string" where
  "debug_int_option x = (case x of None \<Rightarrow> ''None'' | Some i \<Rightarrow> ''Some('' @ show_int i @ '')'')"

section \<open>Reading numbers\<close>

text \<open>\<open>str::trim\<close> for ASCII white space, and \<open>parse::<i64>()\<close>.\<close>

definition is_ws :: "char \<Rightarrow> bool" where
  "is_ws c \<longleftrightarrow> c \<in> {CHR '' '', CHR 0x09, CHR 0x0A, CHR 0x0B, CHR 0x0C, CHR 0x0D}"

definition trim_ws :: "string \<Rightarrow> string" where
  "trim_ws s = rev (dropWhile is_ws (rev (dropWhile is_ws s)))"

definition digit_value :: "char \<Rightarrow> nat option" where
  "digit_value c = (let n = of_char c in if 48 \<le> n \<and> n \<le> 57 then Some (n - 48) else None)"

fun read_digits :: "nat \<Rightarrow> string \<Rightarrow> nat option" where
  "read_digits acc [] = Some acc"
| "read_digits acc (c # cs) =
     (case digit_value c of None \<Rightarrow> None | Some d \<Rightarrow> read_digits (10 * acc + d) cs)"

definition parse_nat :: "string \<Rightarrow> nat option" where
  "parse_nat s = (if s = [] then None else read_digits 0 s)"

definition parse_i64 :: "string \<Rightarrow> int option" where
  "parse_i64 s =
     (if s = [] then None
      else if hd s = CHR ''-''
      then (case parse_nat (tl s) of None \<Rightarrow> None | Some n \<Rightarrow> if n \<le> 2 ^ 63 then Some (- int n) else None)
      else (case parse_nat (if hd s = CHR ''+'' then tl s else s) of
              None \<Rightarrow> None | Some n \<Rightarrow> if n < 2 ^ 63 then Some (int n) else None))"

section \<open>Hash containers\<close>

type_synonym ('k, 'v) hmap = "('k \<times> 'v) list"
type_synonym 'a hset = "'a list"

definition hm_get :: "('k, 'v) hmap \<Rightarrow> 'k \<Rightarrow> 'v option" where
  "hm_get m k = map_of m k"

definition hm_contains :: "('k, 'v) hmap \<Rightarrow> 'k \<Rightarrow> bool" where
  "hm_contains m k \<longleftrightarrow> hm_get m k \<noteq> None"

definition hm_insert :: "'k \<Rightarrow> 'v \<Rightarrow> ('k, 'v) hmap \<Rightarrow> ('k, 'v) hmap" where
  "hm_insert k v m = AList.update k v m"

definition hm_remove :: "'k \<Rightarrow> ('k, 'v) hmap \<Rightarrow> ('k, 'v) hmap" where
  "hm_remove k m = AList.delete k m"

text \<open>\<open>entry(k).or_insert(v)\<close>: the entry is created only where the key is absent.\<close>

definition hm_or_insert :: "'k \<Rightarrow> 'v \<Rightarrow> ('k, 'v) hmap \<Rightarrow> ('k, 'v) hmap" where
  "hm_or_insert k v m = (if hm_contains m k then m else hm_insert k v m)"

text \<open>\<open>if let Some(x) = m.get_mut(k) { *x = f(x) }\<close>: an absent key is left absent.\<close>

definition hm_modify :: "'k \<Rightarrow> ('v \<Rightarrow> 'v) \<Rightarrow> ('k, 'v) hmap \<Rightarrow> ('k, 'v) hmap" where
  "hm_modify k f m = (case hm_get m k of None \<Rightarrow> m | Some v \<Rightarrow> hm_insert k (f v) m)"

definition hm_keys :: "('k, 'v) hmap \<Rightarrow> 'k list" where
  "hm_keys m = map fst m"

definition hm_values :: "('k, 'v) hmap \<Rightarrow> 'v list" where
  "hm_values m = map snd m"

definition hm_wf :: "('k, 'v) hmap \<Rightarrow> bool" where
  "hm_wf m \<longleftrightarrow> distinct (hm_keys m)"

definition hs_insert :: "'a \<Rightarrow> 'a hset \<Rightarrow> 'a hset" where
  "hs_insert x s = (if x \<in> set s then s else s @ [x])"

definition hs_remove :: "'a \<Rightarrow> 'a hset \<Rightarrow> 'a hset" where
  "hs_remove x s = filter (\<lambda>y. y \<noteq> x) s"

text \<open>An iteration order of a hash container: any permutation of its elements.\<close>

definition hash_iter :: "('a list \<Rightarrow> 'a list) \<Rightarrow> bool" where
  "hash_iter it \<longleftrightarrow> (\<forall>xs. mset (it xs) = mset xs)"

subsection \<open>Laws of the hash containers\<close>

lemma hm_get_Nil [simp]: "hm_get [] k = None"
  by (simp add: hm_get_def)

lemma hm_get_insert [simp]: "hm_get (hm_insert k v m) = (hm_get m)(k \<mapsto> v)"
  by (rule ext) (simp add: hm_get_def hm_insert_def update_conv')

lemma hm_insert_same: "hm_get m k = Some v \<Longrightarrow> hm_insert k v m = m"
  by (induction m) (auto simp: hm_get_def hm_insert_def split: if_splits)

lemma hm_insert_insert: "hm_insert k v (hm_insert k w m) = hm_insert k v m"
  by (induction m) (auto simp: hm_insert_def)

lemma hm_get_remove [simp]: "hm_get (hm_remove k m) = (hm_get m)(k := None)"
  by (rule ext) (simp add: hm_get_def hm_remove_def delete_conv')

lemma hm_get_modify:
  "hm_get (hm_modify k f m) k' = (if k' = k then map_option f (hm_get m k) else hm_get m k')"
  by (auto simp: hm_modify_def split: option.splits)

lemma hm_get_or_insert:
  "hm_get (hm_or_insert k v m) k' =
     (if k' = k \<and> hm_get m k = None then Some v else hm_get m k')"
  by (auto simp: hm_or_insert_def hm_contains_def)

lemma hm_wf_Nil [simp]: "hm_wf []"
  by (simp add: hm_wf_def hm_keys_def)

lemma hm_wf_insert [simp]: "hm_wf m \<Longrightarrow> hm_wf (hm_insert k v m)"
  by (simp add: hm_wf_def hm_keys_def hm_insert_def distinct_update)

lemma hm_wf_remove [simp]: "hm_wf m \<Longrightarrow> hm_wf (hm_remove k m)"
  by (simp add: hm_wf_def hm_keys_def hm_remove_def distinct_delete)

lemma hm_wf_or_insert [simp]: "hm_wf m \<Longrightarrow> hm_wf (hm_or_insert k v m)"
  by (simp add: hm_or_insert_def)

lemma hm_wf_modify [simp]: "hm_wf m \<Longrightarrow> hm_wf (hm_modify k f m)"
  by (simp add: hm_modify_def split: option.splits)

lemma hm_keys_Nil [simp]: "hm_keys [] = []"
  by (simp add: hm_keys_def)

lemma set_hm_keys: "set (hm_keys m) = {k. hm_get m k \<noteq> None}"
  by (auto simp: hm_keys_def hm_get_def map_of_eq_None_iff)

lemma hm_keys_iff: "k \<in> set (hm_keys m) \<longleftrightarrow> hm_contains m k"
  by (simp add: set_hm_keys hm_contains_def)

lemma hm_keys_insert:
  "hm_keys (hm_insert k v m) = (if hm_contains m k then hm_keys m else hm_keys m @ [k])"
  by (simp add: hm_keys_def hm_insert_def update_keys hm_contains_def hm_get_def
      map_of_eq_None_iff)

lemma hm_keys_modify [simp]: "hm_keys (hm_modify k f m) = hm_keys m"
  by (simp add: hm_modify_def hm_keys_insert hm_contains_def split: option.splits)

lemma hm_keys_remove: "hm_keys (hm_remove k m) = filter (\<lambda>x. x \<noteq> k) (hm_keys m)"
  by (induction m) (auto simp: hm_keys_def hm_remove_def AList.delete_eq)

lemma hm_mem_iff: "hm_wf m \<Longrightarrow> (k, v) \<in> set m \<longleftrightarrow> hm_get m k = Some v"
  by (auto simp: hm_wf_def hm_keys_def hm_get_def)

lemma set_hm_values: "hm_wf m \<Longrightarrow> set (hm_values m) = {v. \<exists>k. hm_get m k = Some v}"
  by (force simp: hm_values_def image_iff simp flip: hm_mem_iff)

lemma set_hs_insert [simp]: "set (hs_insert x s) = insert x (set s)"
  by (auto simp: hs_insert_def)

lemma distinct_hs_insert [simp]: "distinct s \<Longrightarrow> distinct (hs_insert x s)"
  by (simp add: hs_insert_def)

lemma set_hs_remove [simp]: "set (hs_remove x s) = set s - {x}"
  by (auto simp: hs_remove_def)

lemma distinct_hs_remove [simp]: "distinct s \<Longrightarrow> distinct (hs_remove x s)"
  by (simp add: hs_remove_def)

lemma hs_remove_insert: "x \<notin> set s \<Longrightarrow> hs_remove x (hs_insert x s) = s"
  by (induction s) (auto simp: hs_remove_def hs_insert_def)

lemma hash_iter_mset: "hash_iter it \<Longrightarrow> mset (it xs) = mset xs"
  by (simp add: hash_iter_def)

lemma hash_iter_set: "hash_iter it \<Longrightarrow> set (it xs) = set xs"
  by (metis hash_iter_mset set_mset_mset)

lemma hash_iter_distinct: "hash_iter it \<Longrightarrow> distinct (it xs) = distinct xs"
  by (metis hash_iter_mset mset_eq_imp_distinct_iff)

lemma hash_iter_keys: "hash_iter it \<Longrightarrow> hm_wf m \<Longrightarrow> distinct (map fst (it m))"
  by (metis hash_iter_mset hm_keys_def hm_wf_def mset_eq_imp_distinct_iff mset_map)

lemma hash_iter_get: "hash_iter it \<Longrightarrow> hm_wf m \<Longrightarrow> map_of (it m) k = hm_get m k"
  unfolding hm_get_def
  by (rule fun_cong [OF map_of_inject_set [THEN iffD2]]) (simp_all add: hash_iter_keys hash_iter_set hm_wf_def hm_keys_def)

text \<open>A loop \<open>for (k, v) in m.iter_mut()\<close> that rewrites the entries that satisfy a test.\<close>

definition hm_iter_mut :: "('k \<Rightarrow> 'v \<Rightarrow> bool) \<Rightarrow> ('k \<Rightarrow> 'v \<Rightarrow> 'v) \<Rightarrow> ('k \<times> 'v) list \<Rightarrow> ('k, 'v) hmap \<Rightarrow> ('k, 'v) hmap" where
  "hm_iter_mut P f l m = fold (\<lambda>e m. if P (fst e) (snd e) then hm_insert (fst e) (f (fst e) (snd e)) m else m) l m"

lemma hm_wf_iter_mut: "hm_wf m \<Longrightarrow> hm_wf (hm_iter_mut P f l m)"
  unfolding hm_iter_mut_def by (induction l arbitrary: m) auto

lemma hm_get_iter_mut_list:
  "distinct (map fst l) \<Longrightarrow>
   hm_get (hm_iter_mut P f l m) k =
     (case map_of l k of Some v \<Rightarrow> if P k v then Some (f k v) else hm_get m k | None \<Rightarrow> hm_get m k)"
  unfolding hm_iter_mut_def
  by (induction l arbitrary: m) (auto split: option.splits dest: map_of_SomeD simp: rev_image_eqI)

lemma hm_get_iter_mut:
  "hash_iter it \<Longrightarrow> hm_wf m \<Longrightarrow>
   hm_get (hm_iter_mut P f (it m) m) k = map_option (\<lambda>v. if P k v then f k v else v) (hm_get m k)"
  by (simp add: hm_get_iter_mut_list hash_iter_keys hash_iter_get split: option.split)

lemma hash_iter_length: "hash_iter it \<Longrightarrow> length (it xs) = length xs"
  by (metis hash_iter_mset size_mset)

lemma hash_iter_id: "hash_iter id"
  by (simp add: hash_iter_def)

lemma hash_iter_rev: "hash_iter rev"
  by (simp add: hash_iter_def)

text \<open>The definitions a concrete container is evaluated with.\<close>

lemmas hash_eval =
  hm_get_def hm_contains_def hm_insert_def hm_remove_def hm_or_insert_def hm_modify_def
  hm_keys_def hm_values_def hs_insert_def hs_remove_def AList.delete_eq

section \<open>The map interface\<close>

text \<open>
  What the components rely on from their maps. The client lemmas are proved here once:
  what a lookup returns after a run of insertions, after a run of removals and after an
  update of the value in place.
\<close>

locale map_interface =
  fixes empty :: "'m"
    and get :: "'m \<Rightarrow> 'k \<Rightarrow> 'v option"
    and ins :: "'k \<Rightarrow> 'v \<Rightarrow> 'm \<Rightarrow> 'm"
    and del :: "'k \<Rightarrow> 'm \<Rightarrow> 'm"
    and invar :: "'m \<Rightarrow> bool"
  assumes get_empty: "get empty k = None"
    and get_ins: "invar m \<Longrightarrow> get (ins k v m) = (get m)(k \<mapsto> v)"
    and get_del: "invar m \<Longrightarrow> get (del k m) = (get m)(k := None)"
    and invar_empty: "invar empty"
    and invar_ins: "invar m \<Longrightarrow> invar (ins k v m)"
    and invar_del: "invar m \<Longrightarrow> invar (del k m)"
begin

lemma invar_ins_all: "invar m \<Longrightarrow> invar (fold (\<lambda>k. ins k (f k)) ks m)"
  by (induction ks arbitrary: m) (simp_all add: invar_ins)

lemma get_ins_all:
  "invar m \<Longrightarrow> get (fold (\<lambda>k. ins k (f k)) ks m) k =
     (if k \<in> set ks then Some (f k) else get m k)"
  by (induction ks arbitrary: m) (simp_all add: invar_ins get_ins)

lemma invar_del_all: "invar m \<Longrightarrow> invar (fold del ks m)"
  by (induction ks arbitrary: m) (simp_all add: invar_del)

lemma get_del_all:
  "invar m \<Longrightarrow> get (fold del ks m) k = (if k \<in> set ks then None else get m k)"
  by (induction ks arbitrary: m) (simp_all add: invar_del get_del)

lemma ins_del_get: "invar m \<Longrightarrow> get m k = None \<Longrightarrow> get (del k (ins k v m)) = get m"
  by (rule ext) (simp add: get_ins get_del invar_ins)

end

interpretation hm: map_interface "[]" hm_get hm_insert hm_remove hm_wf
  by unfold_locales simp_all

section \<open>Ordered maps\<close>

text \<open>A \<open>BTreeMap\<close>: an association list in strictly ascending order of its keys.\<close>

type_synonym ('k, 'v) btree = "('k \<times> 'v) list"

fun bt_insert :: "'k::linorder \<Rightarrow> 'v \<Rightarrow> ('k, 'v) btree \<Rightarrow> ('k, 'v) btree" where
  "bt_insert k v [] = [(k, v)]"
| "bt_insert k v ((k', v') # m) =
     (if k < k' then (k, v) # (k', v') # m
      else if k = k' then (k, v) # m
      else (k', v') # bt_insert k v m)"

definition bt_remove :: "'k \<Rightarrow> ('k, 'v) btree \<Rightarrow> ('k, 'v) btree" where
  "bt_remove k m = filter (\<lambda>e. fst e \<noteq> k) m"

definition bt_get :: "('k, 'v) btree \<Rightarrow> 'k \<Rightarrow> 'v option" where
  "bt_get m k = map_of m k"

definition bt_wf :: "('k::linorder, 'v) btree \<Rightarrow> bool" where
  "bt_wf m \<longleftrightarrow> sorted_wrt (<) (map fst m)"

lemma bt_get_Nil [simp]: "bt_get [] k = None"
  by (simp add: bt_get_def)

lemma bt_get_Cons: "bt_get ((k, v) # m) k' = (if k' = k then Some v else bt_get m k')"
  by (simp add: bt_get_def)

lemma bt_wf_Cons: "bt_wf ((k, v) # m) \<longleftrightarrow> (\<forall>e \<in> set m. k < fst e) \<and> bt_wf m"
  by (auto simp: bt_wf_def)

lemma bt_get_above: "\<forall>e \<in> set m. (k :: 'k::linorder) < fst e \<Longrightarrow> bt_get m k = None"
  by (force simp: bt_get_def map_of_eq_None_iff)

lemma set_bt_insert: "set (map fst (bt_insert k v m)) = insert k (set (map fst m))"
  by (induction m rule: bt_insert.induct) auto

lemma bt_wf_insert [simp]: "bt_wf m \<Longrightarrow> bt_wf (bt_insert k v m)"
proof (induction k v m rule: bt_insert.induct)
  case (2 k v k' v' m)
  have "set (map fst (bt_insert k v m)) = insert k (set (map fst m))" by (rule set_bt_insert)
  then have "\<forall>e \<in> set (bt_insert k v m). fst e \<in> insert k (fst ` set m)" by auto
  with 2 show ?case by (fastforce simp: bt_wf_Cons)
qed (simp add: bt_wf_def)

lemma bt_get_insert: "bt_wf m \<Longrightarrow> bt_get (bt_insert k v m) = (bt_get m)(k \<mapsto> v)"
  by (induction k v m rule: bt_insert.induct) (auto simp: bt_get_Cons bt_wf_Cons fun_eq_iff)

lemma bt_wf_remove [simp]: "bt_wf m \<Longrightarrow> bt_wf (bt_remove k m)"
  by (induction m) (auto simp: bt_wf_Cons bt_remove_def bt_wf_def)

lemma bt_get_remove: "bt_get (bt_remove k m) = (bt_get m)(k := None)"
  by (induction m) (auto simp: bt_get_Cons bt_remove_def fun_eq_iff)

lemma bt_get_mem: "bt_wf m \<Longrightarrow> bt_get m k = Some v \<longleftrightarrow> (k, v) \<in> set m"
proof -
  assume "bt_wf m"
  then have "distinct (map fst m)" by (auto simp: bt_wf_def strict_sorted_iff)
  then show ?thesis by (simp add: bt_get_def)
qed

interpretation bt: map_interface "[]" bt_get bt_insert bt_remove bt_wf
  by unfold_locales (simp_all add: bt_get_insert bt_get_remove, simp add: bt_wf_def)

section \<open>Step relations with an invariant and a measure\<close>

locale invariant_machine =
  fixes step :: "'s \<Rightarrow> 's \<Rightarrow> bool"
    and inv :: "'s \<Rightarrow> bool"
  assumes step_inv: "step s t \<Longrightarrow> inv s \<Longrightarrow> inv t"
begin

lemma star_inv: "step\<^sup>*\<^sup>* s t \<Longrightarrow> inv s \<Longrightarrow> inv t"
  by (induction rule: rtranclp_induct) (auto intro: step_inv)

end

locale terminating_machine = invariant_machine +
  fixes rank :: "'a \<Rightarrow> nat"
  assumes step_rank: "step s t \<Longrightarrow> inv s \<Longrightarrow> rank t < rank s"
begin

lemma steps_bounded: "(step ^^ n) s t \<Longrightarrow> inv s \<Longrightarrow> n + rank t \<le> rank s"
proof (induction n arbitrary: t)
  case 0
  then show ?case by simp
next
  case (Suc n)
  from Suc.prems(1) obtain u where u: "(step ^^ n) s u" "step u t"
    by auto
  from u(1) Suc.prems(2) have "inv u"
    by (meson relpowp_imp_rtranclp star_inv)
  with u(2) have "rank t < rank u" by (rule step_rank)
  with Suc.IH [OF u(1) Suc.prems(2)] show ?case by simp
qed

lemma normal_form_exists: "inv s \<Longrightarrow> \<exists>t. step\<^sup>*\<^sup>* s t \<and> (\<nexists>u. step t u)"
proof (induction "rank s" arbitrary: s rule: less_induct)
  case less
  show ?case
  proof (cases "\<exists>u. step s u")
    case True
    then obtain u where u: "step s u" by blast
    with less.prems have "inv u" "rank u < rank s"
      by (auto intro: step_inv step_rank)
    then obtain t where "step\<^sup>*\<^sup>* u t" "\<nexists>v. step t v"
      using less.hyps by blast
    with u show ?thesis by (meson converse_rtranclp_into_rtranclp)
  qed blast
qed

end

end
