(* ===== verification/Pipeline_Step.thy ===== *)
theory Pipeline_Step
  imports Fleet_Prelude
begin

text \<open>
  Steps of a pipeline: \<^verbatim>\<open>crates/ff-pipeline/src/step.rs\<close> and the error type of
  \<^verbatim>\<open>crates/ff-pipeline/src/error.rs\<close>. A \<open>std::time::Duration\<close> is a count of
  nanoseconds (\<open>nat\<close>); the instants that the constructors of \<open>StepResult\<close> read from the
  clock are their first argument.
\<close>

section \<open>Identity, kind, configuration\<close>

datatype step_id = StepId (step_id_str: string)

datatype step_kind =
    Shell (sk_command: string) (sk_cwd: "string option") (sk_env: "(string \<times> string) list")
  | RustFn (sk_name: string) (sk_args: "string option")
  | LlmPrompt (sk_prompt: string) (sk_model: "string option") (sk_max_tokens: "u32 option")
  | HttpCall (sk_method: string) (sk_url: string)
      (sk_headers: "(string \<times> string) list option") (sk_body: "string option")
  | Noop

type_synonym std_duration = nat

definition from_secs :: "nat \<Rightarrow> std_duration" where
  "from_secs n = n * 1000000000"

definition as_secs :: "std_duration \<Rightarrow> nat" where
  "as_secs d = d div 1000000000"

record step_config =
  sc_timeout :: std_duration
  sc_retries :: u32
  sc_retry_delay :: std_duration
  sc_allow_failure :: bool

definition step_config_default :: step_config where
  "step_config_default =
     \<lparr>sc_timeout = from_secs 300, sc_retries = 0, sc_retry_delay = from_secs 5,
      sc_allow_failure = False\<rparr>"

text \<open>The serde helper \<open>duration_secs\<close>: a duration is stored as whole seconds.\<close>

definition serialize_duration :: "std_duration \<Rightarrow> nat" where
  "serialize_duration dur = as_secs dur"

definition deserialize_duration :: "nat \<Rightarrow> std_duration" where
  "deserialize_duration n = from_secs n"

section \<open>Steps and their builders\<close>

record step =
  st_id :: step_id
  st_name :: string
  st_kind :: step_kind
  st_config :: step_config

definition step_new :: "step_id \<Rightarrow> string \<Rightarrow> step_kind \<Rightarrow> step" where
  "step_new i n k = \<lparr>st_id = i, st_name = n, st_kind = k, st_config = step_config_default\<rparr>"

definition with_timeout :: "std_duration \<Rightarrow> step \<Rightarrow> step" where
  "with_timeout t s = s\<lparr>st_config := (st_config s)\<lparr>sc_timeout := t\<rparr>\<rparr>"

definition with_retries :: "u32 \<Rightarrow> std_duration \<Rightarrow> step \<Rightarrow> step" where
  "with_retries r d s =
     s\<lparr>st_config := (st_config s)\<lparr>sc_retries := r, sc_retry_delay := d\<rparr>\<rparr>"

definition allow_failure :: "step \<Rightarrow> step" where
  "allow_failure s = s\<lparr>st_config := (st_config s)\<lparr>sc_allow_failure := True\<rparr>\<rparr>"

definition step_shell :: "step_id \<Rightarrow> string \<Rightarrow> string \<Rightarrow> step" where
  "step_shell i n command = step_new i n (Shell command None [])"

definition step_noop :: "step_id \<Rightarrow> string \<Rightarrow> step" where
  "step_noop i n = step_new i n Noop"

section \<open>Status and result\<close>

datatype step_status = Pending | Running | Succeeded | Failed | Skipped | TimedOut

fun is_terminal :: "step_status \<Rightarrow> bool" where
  "is_terminal Succeeded = True"
| "is_terminal Failed = True"
| "is_terminal Skipped = True"
| "is_terminal TimedOut = True"
| "is_terminal Pending = False"
| "is_terminal Running = False"

definition is_success :: "step_status \<Rightarrow> bool" where
  "is_success st \<longleftrightarrow> st = Succeeded"

record step_result =
  sr_step_id :: step_id
  sr_status :: step_status
  sr_output :: string
  sr_error :: "string option"
  sr_attempts :: u32
  sr_started_at :: "datetime option"
  sr_completed_at :: "datetime option"
  sr_duration_ms :: "u64 option"

definition result_success :: "datetime \<Rightarrow> step_id \<Rightarrow> string \<Rightarrow> u32 \<Rightarrow> u64 \<Rightarrow> step_result" where
  "result_success now i output attempts duration_ms =
     \<lparr>sr_step_id = i, sr_status = Succeeded, sr_output = output, sr_error = None,
      sr_attempts = attempts, sr_started_at = None, sr_completed_at = Some now,
      sr_duration_ms = Some duration_ms\<rparr>"

definition result_failure ::
  "datetime \<Rightarrow> step_id \<Rightarrow> string \<Rightarrow> string \<Rightarrow> u32 \<Rightarrow> u64 \<Rightarrow> step_result" where
  "result_failure now i err output attempts duration_ms =
     \<lparr>sr_step_id = i, sr_status = Failed, sr_output = output, sr_error = Some err,
      sr_attempts = attempts, sr_started_at = None, sr_completed_at = Some now,
      sr_duration_ms = Some duration_ms\<rparr>"

definition result_skipped :: "datetime \<Rightarrow> step_id \<Rightarrow> string \<Rightarrow> step_result" where
  "result_skipped now i reason =
     \<lparr>sr_step_id = i, sr_status = Skipped, sr_output = [], sr_error = Some reason,
      sr_attempts = 0, sr_started_at = None, sr_completed_at = Some now,
      sr_duration_ms = None\<rparr>"

definition result_timed_out :: "datetime \<Rightarrow> step_id \<Rightarrow> u32 \<Rightarrow> u64 \<Rightarrow> step_result" where
  "result_timed_out now i attempts duration_ms =
     \<lparr>sr_step_id = i, sr_status = TimedOut, sr_output = [],
      sr_error = Some ''step timed out'', sr_attempts = attempts, sr_started_at = None,
      sr_completed_at = Some now, sr_duration_ms = Some duration_ms\<rparr>"

lemmas step_result_defs =
  result_success_def result_failure_def result_skipped_def result_timed_out_def

section \<open>Errors\<close>

datatype pipeline_error =
    DuplicateStep step_id
  | StepNotFound step_id
  | CycleDetected
  | ExecutionFailed string
  | StepExecution string
  | RustFnRegistryMissing
  | RustFnNotFound string
  | RustFnExecution string
  | HttpRequest string
  | HttpStatus u16 string
  | LlmRequest string
  | LlmResponse string
  | StepTimeout step_id
  | EmptyPipeline
  | Io string

text \<open>The \<open>Display\<close> text that the \<open>#[error(...)]\<close> attributes give each error.\<close>

fun pipeline_error_to_string :: "pipeline_error \<Rightarrow> string" where
  "pipeline_error_to_string (DuplicateStep i) = ''duplicate step: '' @ step_id_str i"
| "pipeline_error_to_string (StepNotFound i) = ''step not found: '' @ step_id_str i"
| "pipeline_error_to_string CycleDetected = ''cycle detected in pipeline graph''"
| "pipeline_error_to_string (ExecutionFailed m) = ''pipeline execution failed: '' @ m"
| "pipeline_error_to_string (StepExecution m) = ''step execution error: '' @ m"
| "pipeline_error_to_string RustFnRegistryMissing = ''rust function registry not configured''"
| "pipeline_error_to_string (RustFnNotFound n) = ''rust function not found in registry: '' @ n"
| "pipeline_error_to_string (RustFnExecution m) = ''rust function execution failed: '' @ m"
| "pipeline_error_to_string (HttpRequest m) = ''http request failed: '' @ m"
| "pipeline_error_to_string (HttpStatus status body) =
     ''http request returned status '' @ show_nat (unat status) @ '': '' @ body"
| "pipeline_error_to_string (LlmRequest m) = ''llm request failed: '' @ m"
| "pipeline_error_to_string (LlmResponse m) = ''llm response parse failed: '' @ m"
| "pipeline_error_to_string (StepTimeout i) = ''step timed out: '' @ step_id_str i"
| "pipeline_error_to_string EmptyPipeline =
     ''empty pipeline '' @ [CHR 0xE2, CHR 0x80, CHR 0x94] @ '' nothing to execute''"
| "pipeline_error_to_string (Io m) = ''IO error: '' @ m"

section \<open>Facts about statuses and durations\<close>

lemma is_terminal_iff: "is_terminal st \<longleftrightarrow> st \<noteq> Pending \<and> st \<noteq> Running"
  by (cases st) simp_all

lemma terminal_cases:
  "is_terminal st \<Longrightarrow> st = Succeeded \<or> st = Failed \<or> st = Skipped \<or> st = TimedOut"
  by (cases st) simp_all

lemma deserialize_serialize_le: "deserialize_duration (serialize_duration d) \<le> d"
  by (simp add: deserialize_duration_def serialize_duration_def from_secs_def as_secs_def)

lemma serialize_deserialize: "serialize_duration (deserialize_duration n) = n"
  by (simp add: deserialize_duration_def serialize_duration_def from_secs_def as_secs_def)

end
