(* ===== verification/Pipeline_Graph.thy ===== *)
theory Pipeline_Graph
  imports Pipeline_Step
begin

text \<open>
  The dependency graph of a pipeline: \<^verbatim>\<open>crates/ff-pipeline/src/graph.rs\<close>.

  The state is the four fields of \<open>PipelineGraph\<close>. Methods that take \<open>&mut self\<close>
  return the new graph beside their \<open>Result\<close>, so that what an error leaves behind is
  visible. The depth-first search of \<open>has_cycle\<close> and the loop of Kahn's algorithm keep
  their shape; the iteration order of hash sets is the parameter \<open>it\<close>.
\<close>

section \<open>State and mutation\<close>

record pipeline_graph =
  pg_steps :: "(step_id, step) hmap"
  pg_order :: "step_id list"
  pg_dependents :: "(step_id, step_id hset) hmap"
  pg_dependencies :: "(step_id, step_id hset) hmap"

definition graph_new :: pipeline_graph where
  "graph_new = \<lparr>pg_steps = [], pg_order = [], pg_dependents = [], pg_dependencies = []\<rparr>"

definition add_step ::
  "pipeline_graph \<Rightarrow> step \<Rightarrow> pipeline_graph \<times> (unit, pipeline_error) result" where
  "add_step g s =
     (if hm_contains (pg_steps g) (st_id s) then (g, Inl (DuplicateStep (st_id s)))
      else (let i = st_id s in
        (g\<lparr>pg_steps := hm_insert i s (pg_steps g),
           pg_order := pg_order g @ [i],
           pg_dependents := hm_or_insert i [] (pg_dependents g),
           pg_dependencies := hm_or_insert i [] (pg_dependencies g)\<rparr>, Inr ())))"

text \<open>
  \<open>for x in xs { if let Some(s) = m.get_mut(x) { s.remove(id); } }\<close>: every iteration
  touches another key, so the order of the iteration is not observable.
\<close>

definition remove_from_all ::
  "step_id \<Rightarrow> step_id hset \<Rightarrow> (step_id, step_id hset) hmap \<Rightarrow> (step_id, step_id hset) hmap" where
  "remove_from_all i xs m = fold (\<lambda>x. hm_modify x (hs_remove i)) xs m"

definition remove_step ::
  "pipeline_graph \<Rightarrow> step_id \<Rightarrow> pipeline_graph \<times> (step, pipeline_error) result" where
  "remove_step g i =
     (case hm_get (pg_steps g) i of
        None \<Rightarrow> (g, Inl (StepNotFound i))
      | Some s \<Rightarrow>
          (let deps = hm_get (pg_dependencies g) i;
               dependencies1 = hm_remove i (pg_dependencies g);
               dependents1 = (case deps of None \<Rightarrow> pg_dependents g
                              | Some ds \<Rightarrow> remove_from_all i ds (pg_dependents g));
               fwd = hm_get dependents1 i;
               dependents2 = hm_remove i dependents1;
               dependencies2 = (case fwd of None \<Rightarrow> dependencies1
                                | Some fs \<Rightarrow> remove_from_all i fs dependencies1)
           in (g\<lparr>pg_steps := hm_remove i (pg_steps g),
                 pg_order := filter (\<lambda>x. x \<noteq> i) (pg_order g),
                 pg_dependents := dependents2,
                 pg_dependencies := dependencies2\<rparr>, Inr s)))"

section \<open>Cycle detection\<close>

datatype color = White | Gray | Black

type_synonym coloring = "(step_id, color) hmap"

definition whites :: "coloring \<Rightarrow> nat" where
  "whites col = length (filter (\<lambda>c. c = White) (hm_values col))"

function dfs ::
    "(step_id hset \<Rightarrow> step_id list) \<Rightarrow> (step_id, step_id hset) hmap \<Rightarrow> step_id \<Rightarrow> coloring
       \<Rightarrow> bool \<times> coloring"
  and dfs_neighbours ::
    "(step_id hset \<Rightarrow> step_id list) \<Rightarrow> (step_id, step_id hset) hmap \<Rightarrow> step_id list \<Rightarrow> coloring
       \<Rightarrow> bool \<times> coloring"
where
  "dfs it dependents node col =
     (let col1 = hm_insert node Gray col in
      case hm_get dependents node of
        None \<Rightarrow> (False, hm_insert node Black col1)
      | Some neighbours \<Rightarrow>
          (case dfs_neighbours it dependents (it neighbours) col1 of
             (True, col2) \<Rightarrow> (True, col2)
           | (False, col2) \<Rightarrow> (False, hm_insert node Black col2)))"
| "dfs_neighbours it dependents [] col = (False, col)"
| "dfs_neighbours it dependents (n # ns) col =
     (case hm_get col n of
        Some Gray \<Rightarrow> (True, col)
      | Some White \<Rightarrow>
          (case dfs it dependents n col of
             (True, col1) \<Rightarrow> (True, col1)
           | (False, col1) \<Rightarrow> dfs_neighbours it dependents ns col1)
      | _ \<Rightarrow> dfs_neighbours it dependents ns col)"
  by pat_completeness auto

lemma whites_insert_nonwhite:
  "c \<noteq> White \<Longrightarrow> whites (hm_insert k c col) \<le> whites col"
  by (induction col) (auto simp: whites_def hm_values_def hm_insert_def)

lemma whites_insert_white:
  "hm_get col k = Some White \<Longrightarrow> c \<noteq> White \<Longrightarrow> whites (hm_insert k c col) < whites col"
  by (induction col) (auto simp: whites_def hm_values_def hm_insert_def hm_get_def split: if_splits)

lemma dfs_whites:
  "dfs_dfs_neighbours_dom (Inl (it, dependents, node, col)) \<Longrightarrow>
     whites (snd (dfs it dependents node col)) \<le> whites (hm_insert node Gray col)"
  "dfs_dfs_neighbours_dom (Inr (it, dependents, ns, col)) \<Longrightarrow>
     whites (snd (dfs_neighbours it dependents ns col)) \<le> whites col"
proof (induction it dependents node col and it dependents ns col rule: dfs_dfs_neighbours.pinduct)
  case (1 it dependents node col)
  let ?c1 = "hm_insert node Gray col"
  have b: "whites (hm_insert node Black c) \<le> whites c" for c
    by (rule whites_insert_nonwhite) simp
  show ?case
    using 1 b[of ?c1] b order_trans
    by (fastforce simp: dfs.psimps Let_def split: option.splits prod.splits bool.splits)
next
  case (2 it dependents col)
  then show ?case by (simp add: dfs_neighbours.psimps)
next
  case (3 it dependents n ns col)
  have g: "whites (hm_insert n Gray col) \<le> whites col"
    by (rule whites_insert_nonwhite) simp
  show ?case
    using 3 g
    by (fastforce simp: dfs_neighbours.psimps split: option.splits prod.splits bool.splits color.splits)
qed

termination dfs
proof (relation "measures [
     (\<lambda>x. case x of Inl (it, dependents, node, col) \<Rightarrow> whites (hm_insert node Gray col)
                 | Inr (it, dependents, ns, col) \<Rightarrow> whites col),
     (\<lambda>x. case x of Inl _ \<Rightarrow> 1 | Inr _ \<Rightarrow> 0),
     (\<lambda>x. case x of Inl _ \<Rightarrow> 0 | Inr (it, dependents, ns, col) \<Rightarrow> length ns)]", goal_cases)
  case 1
  show ?case by simp
next
  case 2
  then show ?case by simp
next
  case 3
  then show ?case by simp
next
  case (4 it dependents n ns col)
  then show ?case by (simp add: whites_insert_white)
next
  case (5 it dependents n ns col)
  then show ?case
    using dfs_whites(1)[of it dependents n col] whites_insert_white[of col n Gray]
    by (auto dest: sym)
qed simp_all

declare dfs.simps [simp del] dfs_neighbours.simps [simp del]

text \<open>The outer loop of \<open>has_cycle\<close>, over the keys of the step map.\<close>

fun has_cycle_loop ::
  "(step_id hset \<Rightarrow> step_id list) \<Rightarrow> (step_id, step_id hset) hmap \<Rightarrow> step_id list \<Rightarrow> coloring
     \<Rightarrow> bool" where
  "has_cycle_loop it dependents [] col = False"
| "has_cycle_loop it dependents (i # is) col =
     (if hm_get col i = Some White
      then (case dfs it dependents i col of
              (True, col1) \<Rightarrow> True
            | (False, col1) \<Rightarrow> has_cycle_loop it dependents is col1)
      else has_cycle_loop it dependents is col)"

definition has_cycle :: "(step_id list \<Rightarrow> step_id list) \<Rightarrow> pipeline_graph \<Rightarrow> bool" where
  "has_cycle it g =
     (let ids = it (hm_keys (pg_steps g));
          col = fold (\<lambda>i. hm_insert i White) ids []
      in has_cycle_loop it (pg_dependents g) ids col)"

definition add_dependency ::
  "(step_id list \<Rightarrow> step_id list) \<Rightarrow> pipeline_graph \<Rightarrow> step_id \<Rightarrow> step_id
     \<Rightarrow> pipeline_graph \<times> (unit, pipeline_error) result" where
  "add_dependency it g dependent dependency =
     (if \<not> hm_contains (pg_steps g) dependent then (g, Inl (StepNotFound dependent))
      else if \<not> hm_contains (pg_steps g) dependency then (g, Inl (StepNotFound dependency))
      else if dependent = dependency then (g, Inl CycleDetected)
      else (let
          g1 = g\<lparr>pg_dependencies := hm_modify dependent (hs_insert dependency)
                                     (hm_or_insert dependent [] (pg_dependencies g)),
                 pg_dependents := hm_modify dependency (hs_insert dependent)
                                     (hm_or_insert dependency [] (pg_dependents g))\<rparr>
        in if has_cycle it g1
           then (g1\<lparr>pg_dependencies := hm_modify dependent (hs_remove dependency) (pg_dependencies g1),
                    pg_dependents := hm_modify dependency (hs_remove dependent) (pg_dependents g1)\<rparr>,
                 Inl CycleDetected)
           else (g1, Inr ())))"

section \<open>Queries\<close>

definition get_step :: "pipeline_graph \<Rightarrow> step_id \<Rightarrow> step option" where
  "get_step g i = hm_get (pg_steps g) i"

definition step_ids :: "pipeline_graph \<Rightarrow> step_id list" where
  "step_ids g = pg_order g"

definition graph_len :: "pipeline_graph \<Rightarrow> nat" where
  "graph_len g = length (pg_steps g)"

definition graph_is_empty :: "pipeline_graph \<Rightarrow> bool" where
  "graph_is_empty g \<longleftrightarrow> pg_steps g = []"

definition dependencies_of :: "pipeline_graph \<Rightarrow> step_id \<Rightarrow> step_id hset" where
  "dependencies_of g i = (case hm_get (pg_dependencies g) i of None \<Rightarrow> [] | Some s \<Rightarrow> s)"

definition dependents_of :: "pipeline_graph \<Rightarrow> step_id \<Rightarrow> step_id hset" where
  "dependents_of g i = (case hm_get (pg_dependents g) i of None \<Rightarrow> [] | Some s \<Rightarrow> s)"

type_synonym statuses = "(step_id, step_status) hmap"

text \<open>\<open>statuses.get(id).copied().unwrap_or(StepStatus::Pending)\<close>\<close>

definition status_of :: "statuses \<Rightarrow> step_id \<Rightarrow> step_status" where
  "status_of sts i = (case hm_get sts i of None \<Rightarrow> Pending | Some s \<Rightarrow> s)"

definition allows_failure :: "pipeline_graph \<Rightarrow> step_id \<Rightarrow> bool" where
  "allows_failure g i =
     (case hm_get (pg_steps g) i of None \<Rightarrow> False | Some s \<Rightarrow> sc_allow_failure (st_config s))"

definition dep_satisfied :: "pipeline_graph \<Rightarrow> statuses \<Rightarrow> step_id \<Rightarrow> bool" where
  "dep_satisfied g sts d =
     (let dep_status = status_of sts d in
      if dep_status = Succeeded then True
      else if allows_failure g d \<and> is_terminal dep_status then True
      else False)"

definition ready_steps :: "pipeline_graph \<Rightarrow> statuses \<Rightarrow> step_id list" where
  "ready_steps g sts =
     filter (\<lambda>i. status_of sts i = Pending \<and> list_all (dep_satisfied g sts) (dependencies_of g i))
       (pg_order g)"

definition dep_hard_failed :: "pipeline_graph \<Rightarrow> statuses \<Rightarrow> step_id \<Rightarrow> bool" where
  "dep_hard_failed g sts d =
     (let dep_status = status_of sts d in
      if \<not> (dep_status = Failed \<or> dep_status = TimedOut \<or> dep_status = Skipped) then False
      else (case hm_get (pg_steps g) d of
              Some s \<Rightarrow> \<not> sc_allow_failure (st_config s)
            | None \<Rightarrow> True))"

definition skippable_steps :: "pipeline_graph \<Rightarrow> statuses \<Rightarrow> step_id list" where
  "skippable_steps g sts =
     filter (\<lambda>i. status_of sts i = Pending \<and> list_ex (dep_hard_failed g sts) (dependencies_of g i))
       (pg_order g)"

section \<open>Topological sort\<close>

type_synonym degrees = "(step_id, nat) hmap"

definition in_degree_init :: "pipeline_graph \<Rightarrow> degrees" where
  "in_degree_init g =
     fold (\<lambda>i. hm_insert i (case hm_get (pg_dependencies g) i of None \<Rightarrow> 0 | Some s \<Rightarrow> length s))
       (pg_order g) []"

text \<open>
  The inner loop over the dependents of a sorted step. \<open>*deg -= 1\<close> on a degree of 0
  would overflow; the model stops there (\<open>None\<close>).
\<close>

fun relax :: "step_id list \<Rightarrow> degrees \<Rightarrow> step_id list \<Rightarrow> (degrees \<times> step_id list) option" where
  "relax [] deg queue = Some (deg, queue)"
| "relax (d # ds) deg queue =
     (case hm_get deg d of
        None \<Rightarrow> relax ds deg queue
      | Some 0 \<Rightarrow> None
      | Some (Suc n) \<Rightarrow>
          relax ds (hm_insert d n deg) (if n = 0 then queue @ [d] else queue))"

definition total_degree :: "degrees \<Rightarrow> nat" where
  "total_degree deg = sum_list (hm_values deg)"

lemma total_degree_insert:
  "hm_get deg d = Some v \<Longrightarrow> total_degree (hm_insert d w deg) + v = total_degree deg + w"
  by (induction deg)
    (auto simp: total_degree_def hm_values_def hm_insert_def hm_get_def split: if_splits)

lemma relax_total:
  "relax ds deg queue = Some (deg', queue') \<Longrightarrow>
     total_degree deg' + length queue' \<le> total_degree deg + length queue"
proof (induction ds deg queue rule: relax.induct)
  case (2 d ds deg queue)
  show ?case
  proof (cases "hm_get deg d")
    case None
    with 2 show ?thesis by simp
  next
    case (Some v)
    with "2.prems" obtain n where v: "v = Suc n"
      by (cases v) simp_all
    have "total_degree (hm_insert d n deg) + Suc n = total_degree deg + n"
      using Some v by (metis total_degree_insert)
    with 2 Some v show ?thesis by (fastforce split: if_splits)
  qed
qed simp

function kahn_loop ::
  "(step_id hset \<Rightarrow> step_id list) \<Rightarrow> (step_id, step_id hset) hmap \<Rightarrow> step_id list \<Rightarrow> degrees
     \<Rightarrow> step_id list \<Rightarrow> step_id list outcome" where
  "kahn_loop it dependents [] deg sorted_ids = Returns sorted_ids"
| "kahn_loop it dependents (i # queue) deg sorted_ids =
     (case hm_get dependents i of
        None \<Rightarrow> kahn_loop it dependents queue deg (sorted_ids @ [i])
      | Some fwd \<Rightarrow>
          (case relax (it fwd) deg queue of
             None \<Rightarrow> Panics
           | Some (deg1, queue1) \<Rightarrow> kahn_loop it dependents queue1 deg1 (sorted_ids @ [i])))"
  by pat_completeness auto
termination
proof (relation "measure (\<lambda>(it, dependents, queue, deg, sorted_ids).
         total_degree deg + length queue)", goal_cases)
  case (3 it dependents i queue deg sorted_ids fwd p deg1 queue1)
  then show ?case using relax_total[of "it fwd" deg queue deg1 queue1] by auto
qed auto

declare kahn_loop.simps [simp del]

definition topological_sort ::
  "(step_id list \<Rightarrow> step_id list) \<Rightarrow> pipeline_graph \<Rightarrow> (step_id list, pipeline_error) result outcome" where
  "topological_sort it g =
     (let deg = in_degree_init g;
          queue = filter (\<lambda>i. hm_get deg i = Some 0) (it (hm_keys deg))
      in case kahn_loop it (pg_dependents g) queue deg [] of
           Panics \<Rightarrow> Panics
         | Returns sorted_ids \<Rightarrow>
             (if length sorted_ids \<noteq> length (pg_order g) then Returns (Inl CycleDetected)
              else Returns (Inr sorted_ids)))"

section \<open>Transitive dependents\<close>

text \<open>The inner loop: a dependent seen for the first time is queued.\<close>

fun enqueue_new :: "step_id list \<Rightarrow> step_id hset \<Rightarrow> step_id list \<Rightarrow> step_id hset \<times> step_id list" where
  "enqueue_new [] visited queue = (visited, queue)"
| "enqueue_new (d # ds) visited queue =
     (if d \<in> set visited then enqueue_new ds visited queue
      else enqueue_new ds (hs_insert d visited) (queue @ [d]))"

definition unvisited :: "(step_id, step_id hset) hmap \<Rightarrow> step_id hset \<Rightarrow> nat" where
  "unvisited dependents visited = card ((\<Union>s \<in> set (hm_values dependents). set s) - set visited)"

lemma enqueue_new_budget:
  assumes "finite U" and "set ds \<subseteq> U" and "enqueue_new ds visited queue = (visited', queue')"
  shows "card (U - set visited') + length queue' = card (U - set visited) + length queue"
  using assms(2,3)
proof (induction ds visited queue rule: enqueue_new.induct)
  case (2 d ds visited queue)
  have "card (U - set visited) = Suc (card (U - insert d (set visited)))" if "d \<notin> set visited"
  proof -
    have "U - set visited = insert d (U - insert d (set visited))"
      using "2.prems"(1) that by auto
    then show ?thesis using assms(1) by (metis Diff_iff card_insert_disjoint finite_Diff insertI1)
  qed
  with 2 show ?case by (auto split: if_splits)
qed simp

lemma hm_get_values: "hm_get m k = Some v \<Longrightarrow> v \<in> set (hm_values m)"
  by (force simp: hm_get_def hm_values_def dest: map_of_SomeD)

function all_dependents_loop ::
  "(step_id, step_id hset) hmap \<Rightarrow> step_id list \<Rightarrow> step_id hset \<Rightarrow> step_id hset" where
  "all_dependents_loop dependents [] visited = visited"
| "all_dependents_loop dependents (current # queue) visited =
     (case hm_get dependents current of
        None \<Rightarrow> all_dependents_loop dependents queue visited
      | Some deps \<Rightarrow>
          (case enqueue_new deps visited queue of
             (visited1, queue1) \<Rightarrow> all_dependents_loop dependents queue1 visited1))"
  by pat_completeness auto
termination
proof (relation "measure (\<lambda>(dependents, queue, visited).
         unvisited dependents visited + length queue)", goal_cases)
  case (3 dependents current queue visited deps visited1 queue1)
  let ?U = "\<Union>s \<in> set (hm_values dependents). set s"
  have "finite ?U" by simp
  moreover have "set deps \<subseteq> ?U" using 3 by (auto dest: hm_get_values)
  ultimately show ?case
    using enqueue_new_budget[of ?U deps visited queue visited1 queue1] 3
    by (simp add: unvisited_def)
qed auto

declare all_dependents_loop.simps [simp del]

definition all_dependents :: "pipeline_graph \<Rightarrow> step_id \<Rightarrow> step_id hset" where
  "all_dependents g i = all_dependents_loop (pg_dependents g) [i] []"

section \<open>Well-formed graphs\<close>

text \<open>
  The edge relation: \<open>(a, b)\<close> when \<open>b\<close> depends on \<open>a\<close>. A graph is well formed when its
  four fields describe the same steps and the two edge maps are converses of each other,
  and \<open>dag\<close> adds that it has no cycle.
\<close>

definition edges :: "pipeline_graph \<Rightarrow> (step_id \<times> step_id) set" where
  "edges g = {(a, b). b \<in> set (dependents_of g a)}"

definition nodes :: "pipeline_graph \<Rightarrow> step_id set" where
  "nodes g = set (pg_order g)"

definition graph_wf :: "pipeline_graph \<Rightarrow> bool" where
  "graph_wf g \<longleftrightarrow>
     hm_wf (pg_steps g) \<and> hm_wf (pg_dependents g) \<and> hm_wf (pg_dependencies g)
     \<and> distinct (pg_order g)
     \<and> set (hm_keys (pg_steps g)) = nodes g
     \<and> set (hm_keys (pg_dependents g)) = nodes g
     \<and> set (hm_keys (pg_dependencies g)) = nodes g
     \<and> (\<forall>i s. hm_get (pg_steps g) i = Some s \<longrightarrow> st_id s = i)
     \<and> (\<forall>a. distinct (dependents_of g a) \<and> distinct (dependencies_of g a))
     \<and> (\<forall>a b. b \<in> set (dependents_of g a) \<longleftrightarrow> a \<in> set (dependencies_of g b))
     \<and> (\<forall>a b. b \<in> set (dependents_of g a) \<longrightarrow> a \<in> nodes g \<and> b \<in> nodes g)"

definition dag :: "pipeline_graph \<Rightarrow> bool" where
  "dag g \<longleftrightarrow> graph_wf g \<and> acyclic (edges g)"

end
