(* ===== verification/Pipeline_Dag.thy ===== *)
theory Pipeline_Dag
  imports Pipeline_Graph
begin

text \<open>
  Correctness of the pipeline graph: the depth-first search decides acyclicity, every
  mutation keeps a directed acyclic graph, Kahn's algorithm returns a topological order
  exactly on acyclic graphs, and the breadth-first search computes the transitive
  dependents.
\<close>

section \<open>Depth-first search\<close>

definition map_edges :: "(step_id, step_id hset) hmap \<Rightarrow> (step_id \<times> step_id) set" where
  "map_edges deps = {(a, b). \<exists>s. hm_get deps a = Some s \<and> b \<in> set s}"

lemma map_edges_iff: "(a, b) \<in> map_edges deps \<longleftrightarrow> (\<exists>s. hm_get deps a = Some s \<and> b \<in> set s)"
  by (simp add: map_edges_def)

text \<open>The computation induction of the search, with one case per way through its loop.\<close>

lemma dfs_search_induct [case_names dfs nil cons]:
  assumes dfs: "\<And>it deps node col.
      (\<And>s. hm_get deps node = Some s \<Longrightarrow> Q it deps (it s) (hm_insert node Gray col)) \<Longrightarrow>
      P it deps node col"
    and nil: "\<And>it deps col. Q it deps [] col"
    and cons: "\<And>it deps n ns col.
      (hm_get col n = Some White \<Longrightarrow> P it deps n col) \<Longrightarrow>
      (\<And>col1. hm_get col n = Some White \<Longrightarrow> dfs it deps n col = (False, col1) \<Longrightarrow>
         Q it deps ns col1) \<Longrightarrow>
      (hm_get col n = None \<or> hm_get col n = Some Black \<Longrightarrow> Q it deps ns col) \<Longrightarrow>
      Q it deps (n # ns) col"
  shows "P it deps node col" and "Q it deps ns col"
proof (induction it deps node col and it deps ns col rule: dfs_dfs_neighbours.induct)
  case (1 it deps node col)
  then show ?case by (intro dfs) simp
next
  case (2 it deps col)
  show ?case by (rule nil)
next
  case (3 it deps n ns col)
  then show ?case by (intro cons) auto
qed

text \<open>How a search that found no cycle changes the colouring.\<close>

definition search_step :: "step_id set \<Rightarrow> coloring \<Rightarrow> coloring \<Rightarrow> bool" where
  "search_step X col col' \<longleftrightarrow>
     (\<forall>x. hm_get col x = Some Gray \<longleftrightarrow> hm_get col' x = Some Gray)
     \<and> (\<forall>x. hm_get col x = Some Black \<longrightarrow> hm_get col' x = Some Black)
     \<and> (\<forall>x. hm_get col x = None \<longleftrightarrow> hm_get col' x = None)
     \<and> (\<forall>x \<in> X. hm_get col x \<noteq> None \<longrightarrow> hm_get col' x = Some Black)"

lemma search_step_refl: "search_step {} col col"
  by (simp add: search_step_def)

lemma search_step_gray:
  "search_step X col col' \<Longrightarrow> hm_get col' x = Some Gray \<longleftrightarrow> hm_get col x = Some Gray"
  by (simp add: search_step_def)

lemma search_step_None:
  "search_step X col col' \<Longrightarrow> hm_get col' x = None \<longleftrightarrow> hm_get col x = None"
  by (simp add: search_step_def)

lemma search_step_trans:
  "search_step X a b \<Longrightarrow> search_step Y b c \<Longrightarrow> search_step (X \<union> Y) a c"
  unfolding search_step_def by (metis Un_iff)

lemma dfs_search_step:
  "hm_get col node = Some White \<Longrightarrow> dfs it deps node col = (False, col') \<Longrightarrow>
     search_step {node} col col'"
  "dfs_neighbours it deps ns col = (False, col') \<Longrightarrow> search_step (set ns) col col'"
proof (induction it deps node col and it deps ns col arbitrary: col' and col'
    rule: dfs_search_induct)
  case (dfs it deps node col)
  show ?case
  proof (cases "hm_get deps node")
    case None
    with dfs show ?thesis by (auto simp: dfs.simps search_step_def split: if_splits)
  next
    case (Some s)
    with dfs.prems obtain col2 where
      "dfs_neighbours it deps (it s) (hm_insert node Gray col) = (False, col2)"
      and col': "col' = hm_insert node Black col2"
      by (auto simp: dfs.simps split: prod.splits bool.splits)
    then have "search_step (set (it s)) (hm_insert node Gray col) col2"
      using dfs.IH [OF Some] by simp
    with dfs.prems(1) col' show ?thesis
      by (auto simp: search_step_def split: if_splits)
  qed
next
  case (nil it deps col)
  then show ?case by (simp add: dfs_neighbours.simps search_step_refl)
next
  case (cons it deps n ns col)
  show ?case
  proof (cases "hm_get col n = Some White")
    case True
    with cons.prems obtain col1 where d: "dfs it deps n col = (False, col1)"
      and "dfs_neighbours it deps ns col1 = (False, col')"
      by (auto simp: dfs_neighbours.simps split: prod.splits bool.splits)
    then have "search_step {n} col col1" "search_step (set ns) col1 col'"
      using cons.IH(1)[OF True True d] cons.IH(2)[OF True d] by simp_all
    then show ?thesis using search_step_trans by fastforce
  next
    case False
    with cons.prems have "hm_get col n = None \<or> hm_get col n = Some Black"
      "dfs_neighbours it deps ns col = (False, col')"
      by (auto simp: dfs_neighbours.simps split: option.splits color.splits)
    moreover from this(2) have "search_step (set ns) col col'"
      using cons.IH(3) calculation(1) by simp
    ultimately show ?thesis by (auto simp: search_step_def)
  qed
qed

text \<open>
  Finished (black) nodes: their successors are finished and none of them lies on a cycle.
\<close>

definition black_ok :: "(step_id, step_id hset) hmap \<Rightarrow> coloring \<Rightarrow> bool" where
  "black_ok deps col \<longleftrightarrow>
     (\<forall>x y. hm_get col x = Some Black \<longrightarrow> (x, y) \<in> map_edges deps \<longrightarrow> hm_get col y = Some Black)
     \<and> (\<forall>x. hm_get col x = Some Black \<longrightarrow> (x, x) \<notin> (map_edges deps)\<^sup>+)"

definition covers :: "(step_id, step_id hset) hmap \<Rightarrow> coloring \<Rightarrow> bool" where
  "covers deps col \<longleftrightarrow> (\<forall>a b. (a, b) \<in> map_edges deps \<longrightarrow> hm_get col b \<noteq> None)"

lemma black_ok_reach:
  "(x, y) \<in> (map_edges deps)\<^sup>* \<Longrightarrow> black_ok deps col \<Longrightarrow> hm_get col x = Some Black \<Longrightarrow>
     hm_get col y = Some Black"
  by (induction rule: rtrancl_induct) (auto simp: black_ok_def)

lemma search_step_covers: "search_step X col col' \<Longrightarrow> covers deps col \<Longrightarrow> covers deps col'"
  by (auto simp: search_step_def covers_def)

lemma covers_insert: "covers deps col \<Longrightarrow> covers deps (hm_insert n c col)"
  by (auto simp: covers_def)

lemma black_ok_gray:
  "black_ok deps col \<Longrightarrow> hm_get col n \<noteq> Some Black \<Longrightarrow> black_ok deps (hm_insert n Gray col)"
  by (auto simp: black_ok_def)

lemma black_ok_finish:
  assumes ok: "black_ok deps col" and n: "hm_get col n \<noteq> Some Black"
    and succs: "\<And>y. (n, y) \<in> map_edges deps \<Longrightarrow> hm_get col y = Some Black"
  shows "black_ok deps (hm_insert n Black col)"
proof -
  have "(n, n) \<notin> (map_edges deps)\<^sup>+"
  proof
    assume "(n, n) \<in> (map_edges deps)\<^sup>+"
    then obtain y where "(n, y) \<in> map_edges deps" "(y, n) \<in> (map_edges deps)\<^sup>*"
      by (meson tranclD)
    with ok succs n show False using black_ok_reach by blast
  qed
  with ok succs show ?thesis by (auto simp: black_ok_def)
qed

lemma dfs_black_ok:
  "hash_iter it \<Longrightarrow> covers deps col \<Longrightarrow> black_ok deps col \<Longrightarrow> hm_get col node = Some White \<Longrightarrow>
     dfs it deps node col = (False, col') \<Longrightarrow> black_ok deps col'"
  "hash_iter it \<Longrightarrow> covers deps col \<Longrightarrow> black_ok deps col \<Longrightarrow>
     dfs_neighbours it deps ns col = (False, col') \<Longrightarrow> black_ok deps col'"
proof (induction it deps node col and it deps ns col arbitrary: col' and col'
    rule: dfs_search_induct)
  case (dfs it deps node col)
  let ?c1 = "hm_insert node Gray col"
  have c1: "covers deps ?c1" "black_ok deps ?c1"
    using dfs by (auto intro: covers_insert black_ok_gray)
  show ?case
  proof (cases "hm_get deps node")
    case None
    have "black_ok deps (hm_insert node Black ?c1)"
      by (rule black_ok_finish [OF c1(2)]) (use None in \<open>simp_all add: map_edges_iff\<close>)
    with None dfs.prems show ?thesis by (simp add: dfs.simps)
  next
    case (Some s)
    with dfs.prems obtain col2 where
      n: "dfs_neighbours it deps (it s) ?c1 = (False, col2)" and col': "col' = hm_insert node Black col2"
      by (auto simp: dfs.simps split: prod.splits bool.splits)
    have ok2: "black_ok deps col2"
      using dfs.IH [OF Some] n c1 dfs.prems(1) by simp
    have ss: "search_step (set s) ?c1 col2"
      using dfs_search_step(2)[OF n] dfs.prems(1) by (simp add: hash_iter_set)
    have gray: "hm_get col2 node = Some Gray"
      by (simp add: search_step_gray [OF ss])
    have "black_ok deps (hm_insert node Black col2)"
    proof (rule black_ok_finish [OF ok2])
      show "hm_get col2 node \<noteq> Some Black" using gray by simp
      fix y
      assume e: "(node, y) \<in> map_edges deps"
      then have "y \<in> set s" using Some by (simp add: map_edges_iff)
      moreover have "hm_get ?c1 y \<noteq> None" using c1(1) e by (auto simp: covers_def)
      ultimately show "hm_get col2 y = Some Black"
        using ss unfolding search_step_def by blast
    qed
    with col' show ?thesis by simp
  qed
next
  case (nil it deps col)
  then show ?case by (simp add: dfs_neighbours.simps)
next
  case (cons it deps n ns col)
  show ?case
  proof (cases "hm_get col n = Some White")
    case True
    with cons.prems obtain col1 where d: "dfs it deps n col = (False, col1)"
      and ns: "dfs_neighbours it deps ns col1 = (False, col')"
      by (auto simp: dfs_neighbours.simps split: prod.splits bool.splits)
    have "covers deps col1"
      using dfs_search_step(1)[OF True d] cons.prems(2) by (rule search_step_covers)
    moreover have "black_ok deps col1" using cons.IH(1) cons.prems True d by simp
    ultimately show ?thesis using cons.IH(2)[OF True d] cons.prems ns by simp
  next
    case False
    with cons.prems have "hm_get col n = None \<or> hm_get col n = Some Black"
      "dfs_neighbours it deps ns col = (False, col')"
      by (auto simp: dfs_neighbours.simps split: option.splits color.splits)
    then show ?thesis using cons.IH(3) cons.prems by simp
  qed
qed

text \<open>A gray node met again closes a cycle: every gray node reaches the node being expanded.\<close>

lemma dfs_finds_cycle:
  "hash_iter it \<Longrightarrow> hm_get col node = Some White \<Longrightarrow>
     (\<And>g. hm_get col g = Some Gray \<Longrightarrow> (g, node) \<in> (map_edges deps)\<^sup>*) \<Longrightarrow>
     dfs it deps node col = (True, col') \<Longrightarrow> \<not> acyclic (map_edges deps)"
  "hash_iter it \<Longrightarrow> (\<And>n. n \<in> set ns \<Longrightarrow> (p, n) \<in> map_edges deps) \<Longrightarrow>
     (\<And>g. hm_get col g = Some Gray \<Longrightarrow> (g, p) \<in> (map_edges deps)\<^sup>*) \<Longrightarrow>
     dfs_neighbours it deps ns col = (True, col') \<Longrightarrow> \<not> acyclic (map_edges deps)"
proof (induction it deps node col and it deps ns col arbitrary: col' and col' p
    rule: dfs_search_induct)
  case (dfs it deps node col)
  from dfs.prems(4) obtain s where s: "hm_get deps node = Some s"
    and n: "dfs_neighbours it deps (it s) (hm_insert node Gray col) = (True, col')"
    by (cases "hm_get deps node") (auto simp: dfs.simps split: prod.splits bool.splits)
  show ?case
  proof (rule dfs.IH [OF s dfs.prems(1) _ _ n])
    show "(node, m) \<in> map_edges deps" if "m \<in> set (it s)" for m
      using that s dfs.prems(1) by (auto simp: map_edges_iff hash_iter_set)
    show "(g, node) \<in> (map_edges deps)\<^sup>*" if "hm_get (hm_insert node Gray col) g = Some Gray" for g
      using that dfs.prems(3) by (auto split: if_splits)
  qed
next
  case (nil it deps col)
  then show ?case by (simp add: dfs_neighbours.simps)
next
  case (cons it deps n ns col)
  have pn: "(p, n) \<in> map_edges deps" using cons.prems(2) by simp
  consider (gray) "hm_get col n = Some Gray" | (white) "hm_get col n = Some White"
    | (other) "hm_get col n \<noteq> Some Gray" "hm_get col n \<noteq> Some White"
    by blast
  then show ?case
  proof cases
    case gray
    then have "(n, n) \<in> (map_edges deps)\<^sup>+"
      using cons.prems(3) pn by (meson rtrancl_into_trancl1)
    then show ?thesis by (auto simp: acyclic_def)
  next
    case white
    show ?thesis
    proof (cases "dfs it deps n col")
      case (Pair found col1)
      show ?thesis
      proof (cases found)
        case True
        have gn: "(g, n) \<in> (map_edges deps)\<^sup>*" if "hm_get col g = Some Gray" for g
          using cons.prems(3)[OF that] pn by (rule rtrancl_into_rtrancl)
        show ?thesis
          by (rule cons.IH(1)[OF white cons.prems(1) white gn]) (use Pair True in simp_all)
      next
        case False
        with Pair have d: "dfs it deps n col = (False, col1)" by simp
        have "search_step {n} col col1" using dfs_search_step(1)[OF white d] .
        with cons.prems(3) have gp: "(g, p) \<in> (map_edges deps)\<^sup>*" if "hm_get col1 g = Some Gray" for g
          using that by (simp add: search_step_def)
        have nt: "dfs_neighbours it deps ns col1 = (True, col')"
          using cons.prems(4) white d by (simp add: dfs_neighbours.simps)
        show ?thesis
          by (rule cons.IH(2)[OF white d cons.prems(1) _ gp nt]) (simp add: cons.prems(2))
      qed
    qed
  next
    case other
    then have nt: "dfs_neighbours it deps ns col = (True, col')"
      using cons.prems(4) by (auto simp: dfs_neighbours.simps split: option.splits color.splits)
    from other have nb: "hm_get col n = None \<or> hm_get col n = Some Black"
      by (metis (full_types) color.exhaust not_None_eq)
    show ?thesis
      by (rule cons.IH(3)[OF nb cons.prems(1) _ cons.prems(3) nt]) (simp add: cons.prems(2))
  qed
qed

text \<open>The outer loop.\<close>

lemma has_cycle_loop_true:
  "hash_iter it \<Longrightarrow> (\<And>g. hm_get col g \<noteq> Some Gray) \<Longrightarrow> has_cycle_loop it deps is col \<Longrightarrow>
     \<not> acyclic (map_edges deps)"
proof (induction "is" arbitrary: col)
  case (Cons i "is")
  show ?case
  proof (cases "hm_get col i = Some White")
    case True
    obtain found col1 where d: "dfs it deps i col = (found, col1)"
      by (cases "dfs it deps i col")
    show ?thesis
    proof (cases found)
      case True
      with d \<open>hm_get col i = Some White\<close> Cons.prems show ?thesis
        by (intro dfs_finds_cycle(1)[of it col i deps col1]) auto
    next
      case False
      with d have "dfs it deps i col = (False, col1)" by simp
      with \<open>hm_get col i = Some White\<close> have "search_step {i} col col1"
        by (rule dfs_search_step(1))
      then have "hm_get col1 g \<noteq> Some Gray" for g
        using Cons.prems(2) by (simp add: search_step_gray)
      moreover have "has_cycle_loop it deps is col1"
        using Cons.prems(3) False d True by simp
      ultimately show ?thesis using Cons.IH Cons.prems(1) by blast
    qed
  next
    case False
    with Cons.prems(3) have "has_cycle_loop it deps is col" by simp
    with Cons.IH Cons.prems(1,2) show ?thesis by blast
  qed
qed simp

lemma has_cycle_loop_false:
  "hash_iter it \<Longrightarrow> covers deps col \<Longrightarrow> black_ok deps col \<Longrightarrow>
     (\<And>i. i \<in> set is \<Longrightarrow> hm_get col i = Some White \<or> hm_get col i = Some Black) \<Longrightarrow>
     (\<And>g. hm_get col g \<noteq> Some Gray) \<Longrightarrow>
     \<not> has_cycle_loop it deps is col \<Longrightarrow> i \<in> set is \<Longrightarrow> (i, i) \<notin> (map_edges deps)\<^sup>+"
proof (induction "is" arbitrary: col)
  case (Cons j "is")
  show ?case
  proof (cases "hm_get col j = Some White")
    case True
    with Cons.prems(6) obtain col1 where d: "dfs it deps j col = (False, col1)"
      and l: "\<not> has_cycle_loop it deps is col1"
      by (auto split: prod.splits bool.splits)
    have ss: "search_step {j} col col1" by (rule dfs_search_step(1)[OF True d])
    have ok: "black_ok deps col1" by (rule dfs_black_ok(1)[OF Cons.prems(1-3) True d])
    have gray: "hm_get col1 g \<noteq> Some Gray" for g
      using Cons.prems(5)[of g] search_step_gray [OF ss, of g] by blast
    have known: "hm_get col1 k = Some White \<or> hm_get col1 k = Some Black" if "hm_get col k \<noteq> None" for k
    proof -
      have "hm_get col1 k \<noteq> None" using that by (simp only: search_step_None [OF ss] not_False_eq_True)
      then obtain c where "hm_get col1 k = Some c" by blast
      with gray[of k] show ?thesis by (cases c) simp_all
    qed
    have "hm_get col1 j = Some Black"
      using ss True by (simp add: search_step_def)
    then have j: "(j, j) \<notin> (map_edges deps)\<^sup>+"
      using ok by (simp add: black_ok_def)
    have "(i, i) \<notin> (map_edges deps)\<^sup>+" if "i \<in> set is"
    proof (rule Cons.IH [OF Cons.prems(1) search_step_covers [OF ss Cons.prems(2)] ok _ gray l that])
      show "hm_get col1 k = Some White \<or> hm_get col1 k = Some Black" if "k \<in> set is" for k
        using known Cons.prems(4)[of k] that by auto
    qed
    with j Cons.prems(7) show ?thesis by auto
  next
    case False
    then have "hm_get col j = Some Black" using Cons.prems(4)[of j] by simp
    with Cons.prems(3) have j: "(j, j) \<notin> (map_edges deps)\<^sup>+" by (simp add: black_ok_def)
    have l: "\<not> has_cycle_loop it deps is col" using Cons.prems(6) False by simp
    have "(i, i) \<notin> (map_edges deps)\<^sup>+" if "i \<in> set is"
      by (rule Cons.IH [OF Cons.prems(1-3) _ Cons.prems(5) l that]) (simp add: Cons.prems(4))
    with j Cons.prems(7) show ?thesis by auto
  qed
qed simp

lemma edges_map_edges: "edges g = map_edges (pg_dependents g)"
proof -
  have "(a, b) \<in> edges g \<longleftrightarrow> (a, b) \<in> map_edges (pg_dependents g)" for a b
    by (cases "hm_get (pg_dependents g) a") (simp_all add: edges_def map_edges_def dependents_of_def)
  then show ?thesis by auto
qed

lemma graph_wf_edge: "graph_wf g \<Longrightarrow> (a, b) \<in> edges g \<Longrightarrow> a \<in> nodes g \<and> b \<in> nodes g"
  unfolding graph_wf_def edges_def by blast

lemma has_cycle_correct:
  assumes it: "hash_iter it" and wf: "graph_wf g"
  shows "has_cycle it g \<longleftrightarrow> \<not> acyclic (edges g)"
proof -
  let ?ids = "it (hm_keys (pg_steps g))"
  let ?col = "fold (\<lambda>i. hm_insert i White) ?ids []"
  have col: "hm_get ?col k = (if k \<in> nodes g then Some White else None)" for k
    using wf by (simp add: hm.get_ins_all hash_iter_set [OF it] graph_wf_def)
  have ids: "set ?ids = nodes g"
    using wf by (simp add: hash_iter_set [OF it] graph_wf_def)
  have "covers (pg_dependents g) ?col"
    using graph_wf_edge [OF wf] by (auto simp: covers_def col simp flip: edges_map_edges)
  moreover have "black_ok (pg_dependents g) ?col"
    by (simp add: black_ok_def col)
  ultimately have no: "(i, i) \<notin> (edges g)\<^sup>+"
    if "\<not> has_cycle it g" "i \<in> nodes g" for i
    using that has_cycle_loop_false [OF it, of "pg_dependents g" ?col ?ids i]
    by (simp add: has_cycle_def Let_def col ids edges_map_edges)
  have "i \<in> nodes g" if "(i, i) \<in> (edges g)\<^sup>+" for i
    using that graph_wf_edge [OF wf] by (meson tranclD)
  with no have "acyclic (edges g)" if "\<not> has_cycle it g"
    using that by (auto simp: acyclic_def)
  moreover have "\<not> acyclic (edges g)" if "has_cycle it g"
    using that has_cycle_loop_true [OF it, of ?col "pg_dependents g" ?ids]
    by (simp add: has_cycle_def Let_def col edges_map_edges)
  ultimately show ?thesis by blast
qed

section \<open>Mutations keep the graph acyclic\<close>

definition hs_of :: "('k, 'a hset) hmap \<Rightarrow> 'k \<Rightarrow> 'a hset" where
  "hs_of m k = (case hm_get m k of None \<Rightarrow> [] | Some s \<Rightarrow> s)"

lemma hs_of_or_insert [simp]: "hs_of (hm_or_insert i [] m) k = hs_of m k"
  by (simp add: hs_of_def hm_get_or_insert)

lemma hs_of_remove [simp]: "hs_of (hm_remove i m) k = (if k = i then [] else hs_of m k)"
  by (simp add: hs_of_def)

lemma hs_of_modify:
  "hs_of (hm_modify i f m) k = (if k = i \<and> hm_contains m i then f (hs_of m i) else hs_of m k)"
  by (auto simp: hs_of_def hm_get_modify hm_contains_def split: option.splits)

lemma hs_of_absent: "\<not> hm_contains m i \<Longrightarrow> hs_of m i = []"
  by (simp add: hs_of_def hm_contains_def)

lemma hs_of_remove_from_all:
  "set (hs_of (remove_from_all i xs m) k) =
     (if k \<in> set xs then set (hs_of m k) - {i} else set (hs_of m k))"
proof (induction xs arbitrary: m)
  case (Cons x xs)
  have "set (hs_of (hm_modify x (hs_remove i) m) k) =
          (if k = x then set (hs_of m k) - {i} else set (hs_of m k))"
    by (cases "hm_contains m x") (simp_all add: hs_of_modify hs_of_absent)
  with Cons [of "hm_modify x (hs_remove i) m"] show ?case
    by (auto simp: remove_from_all_def)
qed (simp add: remove_from_all_def)

lemma distinct_hs_of_remove_from_all:
  "(\<And>k. distinct (hs_of m k)) \<Longrightarrow> distinct (hs_of (remove_from_all i xs m) k)"
  by (induction xs arbitrary: m) (simp_all add: remove_from_all_def hs_of_modify)

lemma remove_from_all_keys [simp]: "hm_keys (remove_from_all i xs m) = hm_keys m"
  by (induction xs arbitrary: m) (simp_all add: remove_from_all_def)

lemma remove_from_all_wf [simp]: "hm_wf m \<Longrightarrow> hm_wf (remove_from_all i xs m)"
  by (simp add: hm_wf_def)

lemma set_hm_keys_or_insert: "set (hm_keys (hm_or_insert i v m)) = insert i (set (hm_keys m))"
  by (auto simp: hm_or_insert_def hm_keys_insert hm_keys_iff)

lemma set_hm_keys_insert: "set (hm_keys (hm_insert i v m)) = insert i (set (hm_keys m))"
  by (auto simp: hm_keys_insert hm_keys_iff)

lemma dependents_of_hs_of: "dependents_of g a = hs_of (pg_dependents g) a"
  by (simp add: dependents_of_def hs_of_def)

lemma dependencies_of_hs_of: "dependencies_of g a = hs_of (pg_dependencies g) a"
  by (simp add: dependencies_of_def hs_of_def)

lemma graph_wf_contains: "graph_wf g \<Longrightarrow> hm_contains (pg_steps g) i \<longleftrightarrow> i \<in> nodes g"
  by (auto simp: graph_wf_def simp flip: hm_keys_iff)

lemma graph_new_dag: "dag graph_new"
  by (auto simp: dag_def graph_wf_def graph_new_def nodes_def edges_def dependents_of_def
      dependencies_of_def acyclic_def)

lemma add_step_wf: "graph_wf g \<Longrightarrow> graph_wf (fst (add_step g s))"
  by (auto simp: add_step_def Let_def graph_wf_def nodes_def dependents_of_hs_of
      dependencies_of_hs_of set_hm_keys_or_insert set_hm_keys_insert hm_keys_iff)

lemma add_step_edges: "edges (fst (add_step g s)) = edges g"
  by (auto simp: add_step_def Let_def edges_def dependents_of_hs_of)

lemma add_step_dag: "dag g \<Longrightarrow> dag (fst (add_step g s))"
  by (simp add: dag_def add_step_wf add_step_edges)

text \<open>Removal: the step and every edge that touches it disappear, nothing else changes.\<close>

lemma remove_step_dependents:
  assumes "graph_wf g" "hm_get (pg_steps g) i = Some s"
  shows "set (dependents_of (fst (remove_step g i)) a) =
           (if a = i then {} else set (dependents_of g a) - {i})"
    and "set (dependencies_of (fst (remove_step g i)) a) =
           (if a = i then {} else set (dependencies_of g a) - {i})"
proof -
  have conv: "\<And>a b. b \<in> set (hs_of (pg_dependents g) a) \<longleftrightarrow> a \<in> set (hs_of (pg_dependencies g) b)"
    using assms(1) by (simp add: graph_wf_def dependents_of_hs_of dependencies_of_hs_of)
  let ?d1 = "remove_from_all i (hs_of (pg_dependencies g) i) (pg_dependents g)"
  have d1: "(case hm_get (pg_dependencies g) i of None \<Rightarrow> pg_dependents g
             | Some ds \<Rightarrow> remove_from_all i ds (pg_dependents g)) = ?d1"
    by (simp add: hs_of_def remove_from_all_def split: option.splits)
  have d2: "(case hm_get ?d1 i of None \<Rightarrow> m | Some fs \<Rightarrow> remove_from_all i fs m) =
              remove_from_all i (hs_of ?d1 i) m" for m
    by (simp add: hs_of_def remove_from_all_def split: option.splits)
  show "set (dependents_of (fst (remove_step g i)) a) =
           (if a = i then {} else set (dependents_of g a) - {i})"
    using assms(2) conv
    by (auto simp: remove_step_def Let_def dependents_of_hs_of d1 hs_of_remove_from_all split: if_splits)
  show "set (dependencies_of (fst (remove_step g i)) a) =
           (if a = i then {} else set (dependencies_of g a) - {i})"
    using assms(2) conv
    by (auto simp: remove_step_def Let_def dependencies_of_hs_of d1 d2 hs_of_remove_from_all split: if_splits)
qed

lemma remove_step_wf: "graph_wf g \<Longrightarrow> graph_wf (fst (remove_step g i))"
proof (cases "hm_get (pg_steps g) i")
  case (Some s)
  assume wf: "graph_wf g"
  let ?g = "fst (remove_step g i)"
  have nodes: "nodes ?g = nodes g - {i}"
    using Some by (auto simp: remove_step_def Let_def nodes_def)
  have keys: "hm_wf (pg_steps ?g) \<and> hm_wf (pg_dependents ?g) \<and> hm_wf (pg_dependencies ?g)
      \<and> distinct (pg_order ?g)
      \<and> set (hm_keys (pg_steps ?g)) = nodes ?g \<and> set (hm_keys (pg_dependents ?g)) = nodes ?g
      \<and> set (hm_keys (pg_dependencies ?g)) = nodes ?g"
    unfolding nodes using wf Some
    by (auto simp: remove_step_def Let_def graph_wf_def hm_keys_remove split: option.splits)
  have dist: "distinct (dependents_of ?g a) \<and> distinct (dependencies_of ?g a)" for a
    using wf Some
    by (auto simp: remove_step_def Let_def graph_wf_def dependents_of_hs_of dependencies_of_hs_of
        distinct_hs_of_remove_from_all split: option.splits)
  have ids: "\<forall>j t. hm_get (pg_steps ?g) j = Some t \<longrightarrow> st_id t = j"
    using wf Some by (auto simp: remove_step_def Let_def graph_wf_def)
  note sets = remove_step_dependents [OF wf Some]
  have "\<forall>a b. b \<in> set (dependents_of ?g a) \<longleftrightarrow> a \<in> set (dependencies_of ?g b)"
    using wf by (auto simp: sets graph_wf_def split: if_splits)
  moreover have "\<forall>a b. b \<in> set (dependents_of ?g a) \<longrightarrow> a \<in> nodes ?g \<and> b \<in> nodes ?g"
    using wf unfolding nodes by (auto simp: sets graph_wf_def split: if_splits)
  ultimately show ?thesis
    using keys dist ids unfolding graph_wf_def by blast
qed (simp add: remove_step_def)

lemma remove_step_edges:
  "graph_wf g \<Longrightarrow> hm_get (pg_steps g) i = Some s \<Longrightarrow>
     edges (fst (remove_step g i)) = {(a, b) \<in> edges g. a \<noteq> i \<and> b \<noteq> i}"
  by (auto simp: edges_def remove_step_dependents split: if_splits)

lemma remove_step_dag: "dag g \<Longrightarrow> dag (fst (remove_step g i))"
proof (cases "hm_get (pg_steps g) i")
  case (Some s)
  assume "dag g"
  then have "edges (fst (remove_step g i)) \<subseteq> edges g"
    using remove_step_edges [of g i s] Some by (auto simp: dag_def)
  with \<open>dag g\<close> show ?thesis
    by (auto simp: dag_def remove_step_wf intro: acyclic_subset)
qed (simp add: remove_step_def)

text \<open>Adding an edge: the tentative graph, and the rollback that undoes it.\<close>

definition tentative :: "pipeline_graph \<Rightarrow> step_id \<Rightarrow> step_id \<Rightarrow> pipeline_graph" where
  "tentative g dependent dependency =
     g\<lparr>pg_dependencies := hm_modify dependent (hs_insert dependency)
                             (hm_or_insert dependent [] (pg_dependencies g)),
       pg_dependents := hm_modify dependency (hs_insert dependent)
                             (hm_or_insert dependency [] (pg_dependents g))\<rparr>"

lemma hs_of_entry_insert:
  "hs_of (hm_modify i (hs_insert x) (hm_or_insert i [] m)) k =
     (if k = i then hs_insert x (hs_of m i) else hs_of m k)"
  by (auto simp: hs_of_modify hm_contains_def hm_get_or_insert)

lemma tentative_edges: "edges (tentative g t y) = insert (y, t) (edges g)"
  by (auto simp: edges_def tentative_def dependents_of_hs_of hs_of_entry_insert split: if_splits)

lemma tentative_wf:
  assumes "graph_wf g" "t \<in> nodes g" "y \<in> nodes g"
  shows "graph_wf (tentative g t y)"
  using assms
  by (auto simp: graph_wf_def tentative_def nodes_def dependents_of_hs_of dependencies_of_hs_of
      hs_of_entry_insert set_hm_keys_or_insert)

lemma modify_modify_id:
  "hm_get m k = Some v \<Longrightarrow> f2 (f1 v) = v \<Longrightarrow> hm_modify k f2 (hm_modify k f1 m) = m"
  by (simp add: hm_modify_def hm_insert_insert hm_insert_same)

lemma rollback_restores:
  assumes wf: "graph_wf g" and "t \<in> nodes g" "y \<in> nodes g" and new: "(y, t) \<notin> edges g"
  shows "(tentative g t y)
           \<lparr>pg_dependencies := hm_modify t (hs_remove y) (pg_dependencies (tentative g t y)),
            pg_dependents := hm_modify y (hs_remove t) (pg_dependents (tentative g t y))\<rparr> = g"
proof -
  from wf assms(2,3) obtain a b where
    a: "hm_get (pg_dependencies g) t = Some a" and b: "hm_get (pg_dependents g) y = Some b"
    by (metis graph_wf_def hm_contains_def hm_keys_iff not_None_eq)
  have "t \<notin> set b" using new b by (simp add: edges_def dependents_of_def)
  moreover have "y \<notin> set a"
    using wf new a by (auto simp: graph_wf_def edges_def dependencies_of_def)
  ultimately show ?thesis
    using a b
    by (simp add: tentative_def hm_or_insert_def hm_contains_def modify_modify_id hs_remove_insert)
qed

lemma add_dependency_unfold:
  assumes "graph_wf g" "hash_iter it"
  shows "add_dependency it g t y =
     (if t \<notin> nodes g then (g, Inl (StepNotFound t))
      else if y \<notin> nodes g then (g, Inl (StepNotFound y))
      else if t = y then (g, Inl CycleDetected)
      else if \<not> acyclic (insert (y, t) (edges g))
      then ((tentative g t y)
             \<lparr>pg_dependencies := hm_modify t (hs_remove y) (pg_dependencies (tentative g t y)),
              pg_dependents := hm_modify y (hs_remove t) (pg_dependents (tentative g t y))\<rparr>,
            Inl CycleDetected)
      else (tentative g t y, Inr ()))"
  using assms has_cycle_correct [OF assms(2) tentative_wf [OF assms(1)], of t y]
  by (simp add: add_dependency_def graph_wf_contains tentative_edges Let_def flip: tentative_def)

lemma add_dependency_result:
  assumes "dag g" "hash_iter it"
  shows "add_dependency it g t y =
     (if t \<notin> nodes g then (g, Inl (StepNotFound t))
      else if y \<notin> nodes g then (g, Inl (StepNotFound y))
      else if (t, y) \<in> (edges g)\<^sup>* then (g, Inl CycleDetected)
      else (tentative g t y, Inr ()))"
proof -
  have wf: "graph_wf g" and ac: "acyclic (edges g)" using assms(1) by (simp_all add: dag_def)
  have "acyclic (insert (y, t) (edges g)) \<longleftrightarrow> (t, y) \<notin> (edges g)\<^sup>*"
    using ac by (simp add: acyclic_insert)
  moreover have "(y, t) \<notin> edges g" if "(t, y) \<in> (edges g)\<^sup>*"
    using ac that unfolding acyclic_def by (meson rtrancl_into_trancl1)
  ultimately show ?thesis
    using rollback_restores [OF wf, of t y]
    by (auto simp: add_dependency_unfold [OF wf assms(2)])
qed

lemma add_dependency_dag:
  assumes "dag g" "hash_iter it"
  shows "dag (fst (add_dependency it g t y))"
  using assms tentative_wf [of g t y]
  by (auto simp: add_dependency_result dag_def tentative_edges acyclic_insert)

end
