(* ===== verification/Pipeline_Topo.thy ===== *)
theory Pipeline_Topo
  imports Pipeline_Dag
begin

text \<open>
  Kahn's algorithm and the transitive dependents: on a well-formed graph the degree
  counters never overflow, the loop returns a topological order exactly when the graph is
  acyclic, and the breadth-first search returns the image of the transitive closure.
\<close>

section \<open>One round of Kahn's algorithm\<close>

lemma relax_spec:
  assumes "distinct ds" and "\<And>d. d \<in> set ds \<Longrightarrow> hm_get deg d \<noteq> Some 0"
  shows "\<exists>deg'. relax ds deg queue = Some (deg', queue @ filter (\<lambda>d. hm_get deg d = Some 1) ds)
     \<and> (\<forall>d. hm_get deg' d = (if d \<in> set ds then map_option (\<lambda>n. n - 1) (hm_get deg d) else hm_get deg d))"
  using assms
proof (induction ds arbitrary: deg queue)
  case (Cons d ds)
  show ?case
  proof (cases "hm_get deg d")
    case None
    with Cons.IH [of deg queue] Cons.prems show ?thesis by auto
  next
    case (Some v)
    with Cons.prems(2)[of d] obtain n where v: "v = Suc n" by (cases v) auto
    let ?deg = "hm_insert d n deg"
    let ?queue = "if n = 0 then queue @ [d] else queue"
    have same: "hm_get ?deg e = hm_get deg e" if "e \<in> set ds" for e
      using that Cons.prems(1) by auto
    then have "filter (\<lambda>e. hm_get ?deg e = Some 1) ds = filter (\<lambda>e. hm_get deg e = Some 1) ds"
      by (intro filter_cong) simp_all
    with Cons.IH [of ?deg ?queue] Cons.prems same Some v show ?thesis by auto
  qed
qed simp

text \<open>The invariant of the loop over the queue.\<close>

definition missing :: "pipeline_graph \<Rightarrow> step_id set \<Rightarrow> step_id \<Rightarrow> nat" where
  "missing g S b = card (set (dependencies_of g b) - S)"

definition kahn_inv :: "pipeline_graph \<Rightarrow> step_id list \<Rightarrow> degrees \<Rightarrow> step_id list \<Rightarrow> bool" where
  "kahn_inv g queue deg sorted_ids \<longleftrightarrow>
     distinct (sorted_ids @ queue) \<and> set (sorted_ids @ queue) \<subseteq> nodes g
     \<and> (\<forall>b. hm_get deg b = (if b \<in> nodes g then Some (missing g (set sorted_ids) b) else None))
     \<and> (\<forall>b \<in> nodes g. missing g (set sorted_ids) b = 0 \<longleftrightarrow> b \<in> set (sorted_ids @ queue))
     \<and> (\<forall>k < length sorted_ids. set (dependencies_of g (sorted_ids ! k)) \<subseteq> set (take k sorted_ids))"

lemma missing_zero: "missing g S b = 0 \<longleftrightarrow> set (dependencies_of g b) \<subseteq> S"
  by (auto simp: missing_def)

lemma missing_insert:
  assumes "i \<notin> S"
  shows "missing g (insert i S) b =
    (if i \<in> set (dependencies_of g b) then missing g S b - 1 else missing g S b)"
proof -
  have "set (dependencies_of g b) - insert i S = set (dependencies_of g b) - S - {i}" by auto
  then show ?thesis using assms by (simp add: missing_def)
qed

lemma missing_pos: "i \<in> set (dependencies_of g b) \<Longrightarrow> i \<notin> S \<Longrightarrow> missing g S b \<noteq> 0"
  by (auto simp: missing_zero)

lemma graph_wf_converse:
  "graph_wf g \<Longrightarrow> b \<in> set (dependents_of g a) \<longleftrightarrow> a \<in> set (dependencies_of g b)"
  unfolding graph_wf_def by blast

lemma graph_wf_distinct: "graph_wf g \<Longrightarrow> distinct (dependents_of g a)"
  by (simp add: graph_wf_def)

lemma kahn_step:
  assumes wf: "graph_wf g" and it: "hash_iter it"
    and inv: "kahn_inv g (i # queue) deg sorted_ids"
  shows "\<exists>fwd deg' new. hm_get (pg_dependents g) i = Some fwd
     \<and> relax (it fwd) deg queue = Some (deg', queue @ new)
     \<and> kahn_inv g (queue @ new) deg' (sorted_ids @ [i])"
proof -
  let ?S = "set sorted_ids"
  from inv have i: "i \<in> nodes g" "i \<notin> ?S" "i \<notin> set queue"
    and deg: "\<And>b. hm_get deg b = (if b \<in> nodes g then Some (missing g ?S b) else None)"
    and zero: "\<And>b. b \<in> nodes g \<Longrightarrow> missing g ?S b = 0 \<longleftrightarrow> b \<in> set (sorted_ids @ i # queue)"
    by (auto simp: kahn_inv_def)
  from wf i(1) obtain fwd where fwd: "hm_get (pg_dependents g) i = Some fwd"
    by (metis graph_wf_def hm_contains_def hm_keys_iff not_None_eq)
  then have fwd_of: "dependents_of g i = fwd" by (simp add: dependents_of_def)
  have dist: "distinct (it fwd)"
    using wf fwd_of by (metis graph_wf_distinct hash_iter_distinct it)
  have fwd_dep: "b \<in> set (it fwd) \<longleftrightarrow> i \<in> set (dependencies_of g b)" for b
    using wf fwd_of by (metis graph_wf_converse hash_iter_set it)
  have fwd_nodes: "b \<in> nodes g" if "b \<in> set (it fwd)" for b
    using that wf fwd_of it by (auto simp: graph_wf_def hash_iter_set)
  have pos: "hm_get deg b \<noteq> Some 0" if "b \<in> set (it fwd)" for b
    using that fwd_dep i(2) by (simp add: deg missing_pos)
  obtain deg' where rel: "relax (it fwd) deg queue = Some (deg', queue @ filter (\<lambda>d. hm_get deg d = Some 1) (it fwd))"
    and deg': "\<And>d. hm_get deg' d = (if d \<in> set (it fwd) then map_option (\<lambda>n. n - 1) (hm_get deg d) else hm_get deg d)"
    using relax_spec [OF dist pos] by blast
  let ?new = "filter (\<lambda>d. hm_get deg d = Some 1) (it fwd)"
  have new: "b \<in> set ?new \<longleftrightarrow> b \<in> nodes g \<and> i \<in> set (dependencies_of g b) \<and> missing g ?S b = 1" for b
    using fwd_nodes fwd_dep by (auto simp: deg)
  have m: "missing g (set (sorted_ids @ [i])) b =
      (if i \<in> set (dependencies_of g b) then missing g ?S b - 1 else missing g ?S b)" for b
    using missing_insert [OF i(2)] by simp
  have new_fresh: "b \<notin> set (sorted_ids @ i # queue)" if "b \<in> set ?new" for b
    using that zero new by fastforce
  have "kahn_inv g (queue @ ?new) deg' (sorted_ids @ [i])"
    unfolding kahn_inv_def
  proof (intro conjI allI ballI impI)
    show "distinct ((sorted_ids @ [i]) @ queue @ ?new)"
      using inv new_fresh dist by (auto simp: kahn_inv_def)
    show "set ((sorted_ids @ [i]) @ queue @ ?new) \<subseteq> nodes g"
      using inv new by (auto simp: kahn_inv_def)
    show "hm_get deg' b = (if b \<in> nodes g then Some (missing g (set (sorted_ids @ [i])) b) else None)" for b
      using fwd_dep fwd_nodes unfolding m by (auto simp: deg' deg)
    show "missing g (set (sorted_ids @ [i])) b = 0 \<longleftrightarrow> b \<in> set ((sorted_ids @ [i]) @ queue @ ?new)"
      if b: "b \<in> nodes g" for b
    proof (cases "i \<in> set (dependencies_of g b)")
      case True
      then have "missing g ?S b \<noteq> 0" using i(2) by (rule missing_pos)
      then have "b \<notin> set (sorted_ids @ i # queue)" using zero [OF b] by simp
      with True \<open>missing g ?S b \<noteq> 0\<close> b show ?thesis unfolding m using new [of b] by auto
    next
      case False
      then have "b \<notin> set ?new" using new by simp
      with False zero [OF b] show ?thesis unfolding m by auto
    qed
    show "set (dependencies_of g ((sorted_ids @ [i]) ! k)) \<subseteq> set (take k (sorted_ids @ [i]))"
      if "k < length (sorted_ids @ [i])" for k
    proof (cases "k < length sorted_ids")
      case True
      with inv show ?thesis by (simp add: kahn_inv_def nth_append)
    next
      case False
      with that have "k = length sorted_ids" by simp
      moreover have "missing g ?S i = 0" using zero [OF i(1)] by simp
      ultimately show ?thesis by (simp add: missing_zero)
    qed
  qed
  with fwd rel show ?thesis by blast
qed

lemma kahn_loop_correct:
  assumes wf: "graph_wf g"
  shows "hash_iter it \<Longrightarrow> kahn_inv g queue deg sorted_ids \<Longrightarrow>
     \<exists>xs deg'. kahn_loop it (pg_dependents g) queue deg sorted_ids = Returns xs \<and> kahn_inv g [] deg' xs"
proof (induction it "pg_dependents g" queue deg sorted_ids rule: kahn_loop.induct)
  case (1 it deg sorted_ids)
  then show ?case by (auto simp: kahn_loop.simps)
next
  case (2 it i queue deg sorted_ids)
  from kahn_step [OF wf "2.prems"] obtain fwd deg' new where
    step: "hm_get (pg_dependents g) i = Some fwd" "relax (it fwd) deg queue = Some (deg', queue @ new)"
    and inv: "kahn_inv g (queue @ new) deg' (sorted_ids @ [i])"
    by blast
  from "2.hyps"(2)[OF step refl "2.prems"(1) inv] step show ?case
    by (simp add: kahn_loop.simps)
qed

lemma in_degree_init_get:
  assumes "graph_wf g"
  shows "hm_get (in_degree_init g) b = (if b \<in> nodes g then Some (missing g {} b) else None)"
proof -
  have "length (hs_of (pg_dependencies g) b) = card (set (dependencies_of g b))"
    using assms by (simp add: graph_wf_def dependencies_of_hs_of distinct_card)
  then have "(case hm_get (pg_dependencies g) b of None \<Rightarrow> 0 | Some s \<Rightarrow> length s) = missing g {} b"
    by (simp add: hs_of_def missing_def split: option.splits)
  then show ?thesis
    by (simp add: in_degree_init_def hm.get_ins_all nodes_def)
qed

lemma kahn_inv_init:
  assumes wf: "graph_wf g" and it: "hash_iter it"
  shows "kahn_inv g (filter (\<lambda>i. hm_get (in_degree_init g) i = Some 0) (it (hm_keys (in_degree_init g))))
           (in_degree_init g) []"
proof -
  have "hm_wf (in_degree_init g)"
    unfolding in_degree_init_def by (rule hm.invar_ins_all) simp
  then have "distinct (it (hm_keys (in_degree_init g)))"
    by (simp add: hash_iter_distinct [OF it] hm_wf_def)
  moreover have "set (it (hm_keys (in_degree_init g))) = nodes g"
    by (auto simp: hash_iter_set [OF it] set_hm_keys in_degree_init_get [OF wf])
  ultimately show ?thesis
    by (auto simp: kahn_inv_def in_degree_init_get [OF wf])
qed

section \<open>Topological orders\<close>

definition topological_order :: "pipeline_graph \<Rightarrow> step_id list \<Rightarrow> bool" where
  "topological_order g xs \<longleftrightarrow> distinct xs \<and> set xs = nodes g
     \<and> (\<forall>i < length xs. \<forall>j < length xs. (xs ! i, xs ! j) \<in> edges g \<longrightarrow> i < j)"

lemma edges_dependencies: "graph_wf g \<Longrightarrow> (a, b) \<in> edges g \<longleftrightarrow> a \<in> set (dependencies_of g b)"
  by (simp add: edges_def graph_wf_converse)

lemma kahn_done_order:
  assumes wf: "graph_wf g" and inv: "kahn_inv g [] deg xs" and all: "set xs = nodes g"
  shows "topological_order g xs"
proof -
  have dist: "distinct xs"
    and deps: "\<And>k. k < length xs \<Longrightarrow> set (dependencies_of g (xs ! k)) \<subseteq> set (take k xs)"
    using inv by (auto simp: kahn_inv_def)
  have "i < j" if "i < length xs" "j < length xs" "(xs ! i, xs ! j) \<in> edges g" for i j
  proof -
    have "xs ! i \<in> set (take j xs)"
      using that deps [of j] edges_dependencies [OF wf] by blast
    then obtain k where "k < j" "k < length xs" "xs ! k = xs ! i"
      by (auto simp: in_set_conv_nth)
    with dist that show ?thesis by (metis nth_eq_iff_index_eq)
  qed
  with dist all show ?thesis by (simp add: topological_order_def)
qed

lemma topological_order_acyclic:
  assumes wf: "graph_wf g" and ord: "topological_order g xs"
  shows "acyclic (edges g)"
proof -
  define pos where "pos x = length (takeWhile (\<lambda>y. y \<noteq> x) xs)" for x
  have pos_nth: "pos x < length xs \<and> xs ! pos x = x" if "x \<in> set xs" for x
  proof -
    have "pos x < length xs"
      using that unfolding pos_def by (induction xs) auto
    then show ?thesis using nth_length_takeWhile [of "\<lambda>y. y \<noteq> x" xs] by (simp add: pos_def)
  qed
  have "edges g \<subseteq> measure pos"
  proof (rule subrelI)
    fix a b
    assume e: "(a, b) \<in> edges g"
    with graph_wf_edge [OF wf] ord have "a \<in> set xs" "b \<in> set xs"
      by (auto simp: topological_order_def)
    with pos_nth ord e show "(a, b) \<in> measure pos"
      by (auto simp: topological_order_def)
  qed
  then show ?thesis by (meson acyclic_subset wf_acyclic wf_measure)
qed

lemma kahn_done_all:
  assumes wf: "graph_wf g" and ac: "acyclic (edges g)" and inv: "kahn_inv g [] deg xs"
  shows "set xs = nodes g"
proof -
  have "edges g \<subseteq> nodes g \<times> nodes g"
    using graph_wf_edge [OF wf] by auto
  then have "finite (edges g)"
    by (rule finite_subset) (simp add: nodes_def)
  then have wfe: "wf (edges g)" using ac by (rule finite_acyclic_wf)
  have "b \<in> nodes g \<longrightarrow> b \<in> set xs" for b
    using wfe
  proof (induction b rule: wf_induct_rule)
    case (less b)
    show ?case
    proof
      assume b: "b \<in> nodes g"
      have "a \<in> set xs" if "a \<in> set (dependencies_of g b)" for a
        using less [of a] that edges_dependencies [OF wf] graph_wf_edge [OF wf] by blast
      then have "missing g (set xs) b = 0" by (auto simp: missing_zero)
      with inv b show "b \<in> set xs" by (simp add: kahn_inv_def)
    qed
  qed
  moreover have "set xs \<subseteq> nodes g" using inv by (simp add: kahn_inv_def)
  ultimately show ?thesis by auto
qed

lemma topological_sort_result:
  assumes wf: "graph_wf g" and it: "hash_iter it"
  shows "if acyclic (edges g)
         then \<exists>xs. topological_sort it g = Returns (Inr xs) \<and> topological_order g xs
         else topological_sort it g = Returns (Inl CycleDetected)"
proof -
  obtain xs deg' where
    ret: "kahn_loop it (pg_dependents g)
       (filter (\<lambda>i. hm_get (in_degree_init g) i = Some 0) (it (hm_keys (in_degree_init g))))
       (in_degree_init g) [] = Returns xs"
    and inv: "kahn_inv g [] deg' xs"
    using kahn_loop_correct [OF wf it kahn_inv_init [OF wf it]] by blast
  have len: "length xs = length (pg_order g) \<longleftrightarrow> set xs = nodes g"
  proof -
    have "distinct xs" "set xs \<subseteq> nodes g" "distinct (pg_order g)"
      using inv wf by (simp_all add: kahn_inv_def graph_wf_def)
    then show ?thesis
      by (metis List.finite_set card_subset_eq distinct_card nodes_def)
  qed
  show ?thesis
  proof (cases "acyclic (edges g)")
    case True
    then have "set xs = nodes g" by (rule kahn_done_all [OF wf _ inv])
    with len kahn_done_order [OF wf inv] ret True show ?thesis
      by (simp add: topological_sort_def)
  next
    case False
    then have "set xs \<noteq> nodes g"
      using kahn_done_order [OF wf inv] topological_order_acyclic [OF wf] by blast
    with len ret False show ?thesis
      by (simp add: topological_sort_def)
  qed
qed

section \<open>Transitive dependents\<close>

lemma enqueue_new_set:
  "enqueue_new ds visited queue = (visited', queue') \<Longrightarrow>
     set visited' = set visited \<union> set ds \<and> set queue' = set queue \<union> (set ds - set visited)
     \<and> (distinct visited \<longrightarrow> distinct visited')"
  by (induction ds visited queue rule: enqueue_new.induct) (auto split: if_splits)

text \<open>Every visited node but the queued ones has had its successors visited.\<close>

lemma all_dependents_loop_correct:
  "(\<And>a b. a \<in> set visited \<union> {i} \<Longrightarrow> a \<notin> set queue \<Longrightarrow> (a, b) \<in> map_edges deps \<Longrightarrow> b \<in> set visited) \<Longrightarrow>
     set visited \<subseteq> (map_edges deps)\<^sup>+ `` {i} \<Longrightarrow> set queue \<subseteq> insert i (set visited) \<Longrightarrow>
     distinct visited \<Longrightarrow>
     set (all_dependents_loop deps queue visited) = (map_edges deps)\<^sup>+ `` {i}
     \<and> distinct (all_dependents_loop deps queue visited)"
proof (induction deps queue visited rule: all_dependents_loop.induct)
  case (1 deps visited)
  have "b \<in> set visited" if "(i, b) \<in> (map_edges deps)\<^sup>+" for b
    using that by (induction rule: trancl_induct) (use "1.prems"(1) in auto)
  with "1.prems"(2,4) show ?case by (auto simp: all_dependents_loop.simps)
next
  case (2 deps current queue visited)
  show ?case
  proof (cases "hm_get deps current")
    case None
    then have "(current, b) \<notin> map_edges deps" for b by (simp add: map_edges_iff)
    then have "set (all_dependents_loop deps queue visited) = (map_edges deps)\<^sup>+ `` {i}
        \<and> distinct (all_dependents_loop deps queue visited)"
    proof (intro "2.IH"(1)[OF None])
      show "b \<in> set visited" if "a \<in> set visited \<union> {i}" "a \<notin> set queue" "(a, b) \<in> map_edges deps"
        for a b
        using "2.prems"(1)[of a b] that \<open>\<And>b. (current, b) \<notin> map_edges deps\<close> by (cases "a = current") simp_all
    qed (use "2.prems" in simp_all)
    with None show ?thesis by (simp add: all_dependents_loop.simps)
  next
    case (Some ds)
    obtain v q where e: "enqueue_new ds visited queue = (v, q)"
      by (cases "enqueue_new ds visited queue")
    note sets = enqueue_new_set [OF e]
    have succ: "(current, b) \<in> map_edges deps \<longleftrightarrow> b \<in> set ds" for b
      using Some by (simp add: map_edges_iff)
    have "current = i \<or> (i, current) \<in> (map_edges deps)\<^sup>+"
      using "2.prems"(2,3) by auto
    then have "b \<in> (map_edges deps)\<^sup>+ `` {i}" if "b \<in> set ds" for b
      using that succ by (auto intro: trancl_into_trancl)
    then have "set (all_dependents_loop deps q v) = (map_edges deps)\<^sup>+ `` {i}
        \<and> distinct (all_dependents_loop deps q v)"
    proof (intro "2.IH"(2)[OF Some e[symmetric]])
      show "b \<in> set v" if "a \<in> set v \<union> {i}" "a \<notin> set q" "(a, b) \<in> map_edges deps" for a b
      proof (cases "a = current")
        case True
        with that sets succ show ?thesis by simp
      next
        case False
        with that sets have "a \<in> set visited \<union> {i}" "a \<notin> set (current # queue)" by auto
        with "2.prems"(1) that(3) sets show ?thesis by blast
      qed
    qed (use "2.prems" sets in auto)
    with Some e show ?thesis by (simp add: all_dependents_loop.simps)
  qed
qed

lemma all_dependents_set: "set (all_dependents g i) = (edges g)\<^sup>+ `` {i}"
  unfolding all_dependents_def edges_map_edges
  by (rule all_dependents_loop_correct [THEN conjunct1]) simp_all

section \<open>Graphs built with the public operations\<close>

text \<open>
  One call of a mutating method, whatever it returns: the graph it leaves behind.
\<close>

inductive graph_step :: "pipeline_graph \<Rightarrow> pipeline_graph \<Rightarrow> bool" where
  add: "graph_step g (fst (add_step g s))"
| remove: "graph_step g (fst (remove_step g i))"
| depend: "hash_iter it \<Longrightarrow> graph_step g (fst (add_dependency it g t y))"

lemma graph_step_dag: "graph_step g h \<Longrightarrow> dag g \<Longrightarrow> dag h"
  by (induction rule: graph_step.induct) (auto intro: add_step_dag remove_step_dag add_dependency_dag)

interpretation graph: invariant_machine graph_step dag
  by unfold_locales (rule graph_step_dag)

text \<open>The chain \<open>a, b, c\<close> of three steps, the last two of them no-ops, built with the public operations.\<close>

definition chain_step :: "step_kind \<Rightarrow> char \<Rightarrow> step" where
  "chain_step k c = step_new (StepId [c]) [c] k"

definition chain_nodes :: "step_kind \<Rightarrow> pipeline_graph" where
  "chain_nodes k = fst (add_step (fst (add_step (fst (add_step graph_new
     (chain_step k CHR ''a''))) (chain_step Noop CHR ''b''))) (chain_step Noop CHR ''c''))"

definition chain :: "step_kind \<Rightarrow> pipeline_graph" where
  "chain k = fst (add_dependency id (fst (add_dependency id (chain_nodes k)
     (StepId ''b'') (StepId ''a''))) (StepId ''c'') (StepId ''b''))"

lemma chain_reachable: "graph_step\<^sup>*\<^sup>* graph_new (chain k)"
proof -
  have "graph_step\<^sup>*\<^sup>* graph_new (chain_nodes k)"
    unfolding chain_nodes_def
    by (rule rtranclp.rtrancl_into_rtrancl, rule rtranclp.rtrancl_into_rtrancl,
        rule rtranclp.rtrancl_into_rtrancl, rule rtranclp.rtrancl_refl) (rule graph_step.add)+
  moreover have "graph_step (chain_nodes k) (fst (add_dependency id (chain_nodes k) (StepId ''b'') (StepId ''a'')))"
    "graph_step (fst (add_dependency id (chain_nodes k) (StepId ''b'') (StepId ''a''))) (chain k)"
    unfolding chain_def by (rule graph_step.depend, simp add: hash_iter_def)+
  ultimately show ?thesis by (meson rtranclp.rtrancl_into_rtrancl)
qed

lemma chain_dag: "dag (chain k)"
  using graph.star_inv [OF chain_reachable graph_new_dag] .

lemma chain_nodes_eval:
  "chain_nodes k = \<lparr>pg_steps = [(StepId ''a'', chain_step k CHR ''a''), (StepId ''b'', chain_step Noop CHR ''b''),
                             (StepId ''c'', chain_step Noop CHR ''c'')],
     pg_order = [StepId ''a'', StepId ''b'', StepId ''c''],
     pg_dependents = [(StepId ''a'', []), (StepId ''b'', []), (StepId ''c'', [])],
     pg_dependencies = [(StepId ''a'', []), (StepId ''b'', []), (StepId ''c'', [])]\<rparr>"
  by (simp add: chain_nodes_def add_step_def graph_new_def chain_step_def step_new_def
      hash_eval Let_def del: hm_get_insert)

lemma chain_eval:
  "chain k = \<lparr>pg_steps = [(StepId ''a'', chain_step k CHR ''a''), (StepId ''b'', chain_step Noop CHR ''b''),
                       (StepId ''c'', chain_step Noop CHR ''c'')],
     pg_order = [StepId ''a'', StepId ''b'', StepId ''c''],
     pg_dependents = [(StepId ''a'', [StepId ''b'']), (StepId ''b'', [StepId ''c'']), (StepId ''c'', [])],
     pg_dependencies = [(StepId ''a'', []), (StepId ''b'', [StepId ''a'']), (StepId ''c'', [StepId ''b''])]\<rparr>"
  by (simp add: chain_def chain_nodes_eval add_dependency_def has_cycle_def dfs.simps
      dfs_neighbours.simps hash_eval Let_def del: hm_get_insert)

lemma chain_edges: "edges (chain k) = {(StepId ''a'', StepId ''b''), (StepId ''b'', StepId ''c'')}"
  by (auto simp: edges_def dependents_of_def chain_eval hash_eval split: if_splits)

section \<open>Properties of the graph\<close>

text \<open>
  C5: every graph that calls of \<open>add_step\<close>, \<open>remove_step\<close> and \<open>add_dependency\<close> build from
  the empty graph, failed calls included and whatever order hash sets are iterated in, is
  well formed (the four fields agree) and has no cycle.
\<close>

theorem reachable_graph_dag: "graph_step\<^sup>*\<^sup>* graph_new g \<Longrightarrow> dag g"
  using graph.star_inv graph_new_dag by blast

theorem reachable_graph_dag_witness: "graph_step\<^sup>*\<^sup>* graph_new (chain Noop) \<and> dag (chain Noop)"
  using reachable_graph_dag [OF chain_reachable] chain_reachable by simp

text \<open>
  C2: \<open>add_dependency\<close> on a DAG, on every branch: an unknown step is reported, an edge that
  would close a cycle (\<open>dependency\<close> is reachable from \<open>dependent\<close>) is refused and the graph
  is left exactly as it was, and any other edge is added and nothing else changes.
\<close>

theorem add_dependency_exact:
  assumes "dag g" "hash_iter it"
  shows "add_dependency it g t y =
     (if t \<notin> nodes g then (g, Inl (StepNotFound t))
      else if y \<notin> nodes g then (g, Inl (StepNotFound y))
      else if (t, y) \<in> (edges g)\<^sup>* then (g, Inl CycleDetected)
      else (tentative g t y, Inr ()))
   \<and> edges (tentative g t y) = insert (y, t) (edges g)
   \<and> pg_steps (tentative g t y) = pg_steps g \<and> pg_order (tentative g t y) = pg_order g"
  using add_dependency_result [OF assms] by (simp add: tentative_edges) (simp add: tentative_def)

theorem add_dependency_exact_witness:
  "add_dependency rev (chain Noop) (StepId ''a'') (StepId ''c'') = ((chain Noop), Inl CycleDetected)"
proof -
  have "(StepId ''a'', StepId ''c'') \<in> (edges (chain Noop))\<^sup>*"
    unfolding chain_edges by (meson insertCI r_into_rtrancl rtrancl_trans)
  then show ?thesis
    using add_dependency_exact [OF chain_dag hash_iter_rev, of Noop "StepId ''a''" "StepId ''c''"]
    by (simp add: nodes_def chain_eval)
qed

text \<open>
  C4: \<open>topological_sort\<close> on a well-formed graph never panics (no in-degree underflows). When
  the graph has no cycle it returns every step exactly once with each dependency before its
  dependents; otherwise it returns \<open>CycleDetected\<close>.
\<close>

theorem topological_sort_correct:
  assumes "graph_wf g" "hash_iter it"
  shows "if acyclic (edges g)
         then \<exists>xs. topological_sort it g = Returns (Inr xs) \<and> topological_order g xs
         else topological_sort it g = Returns (Inl CycleDetected)"
  using assms by (rule topological_sort_result)

theorem topological_sort_correct_witness:
  "\<exists>xs. topological_sort rev (chain Noop) = Returns (Inr xs) \<and> topological_order (chain Noop) xs"
  using topological_sort_correct [of "chain Noop" rev] chain_dag hash_iter_rev by (simp add: dag_def)

text \<open>
  \<open>all_dependents\<close> returns exactly the steps that depend on a step directly or through
  others, on any graph, cyclic ones included.
\<close>

theorem all_dependents_exact: "set (all_dependents g i) = (edges g)\<^sup>+ `` {i}"
  by (rule all_dependents_set)

text \<open>
  \<open>remove_step\<close> of a present step returns it and removes from a DAG exactly that step and
  the edges at it; of an absent step it reports \<open>StepNotFound\<close> and changes nothing.
\<close>

theorem remove_step_exact:
  assumes "dag g"
  shows "case hm_get (pg_steps g) i of
           None \<Rightarrow> remove_step g i = (g, Inl (StepNotFound i))
         | Some s \<Rightarrow> snd (remove_step g i) = Inr s \<and> dag (fst (remove_step g i))
             \<and> nodes (fst (remove_step g i)) = nodes g - {i}
             \<and> edges (fst (remove_step g i)) = {(a, b) \<in> edges g. a \<noteq> i \<and> b \<noteq> i}"
proof (cases "hm_get (pg_steps g) i")
  case None
  then show ?thesis by (simp add: remove_step_def)
next
  case (Some s)
  have "graph_wf g" using assms by (simp add: dag_def)
  moreover have "snd (remove_step g i) = Inr s" "nodes (fst (remove_step g i)) = nodes g - {i}"
    using Some by (auto simp: remove_step_def Let_def nodes_def)
  ultimately show ?thesis
    using Some remove_step_edges remove_step_dag [OF assms] by simp
qed

theorem remove_step_exact_witness:
  "edges (fst (remove_step (chain Noop) (StepId ''b''))) = {}"
  using remove_step_exact [OF chain_dag, of Noop "StepId ''b''"] chain_edges
  by (auto simp: chain_eval hm_get_def)

end
