(* ===== verification/Fleet_Text.thy ===== *)
theory Fleet_Text
  imports Fleet_Prelude "HOL-Library.Sublist" Complex_Main
begin

text \<open>
  Text and JSON, as the components use them from the standard library and from
  \<open>serde_json\<close>: splitting, trimming, lower-casing and reading numbers, the JSON value type
  and its accessors. White space and letter case are those of ASCII; a JSON number is an
  integer or a fraction, as \<open>serde_json\<close> keeps the two apart.
\<close>

section \<open>Splitting and reading\<close>

text \<open>\<open>str::split\<close>, \<open>str::split_once\<close>, \<open>str::split_whitespace\<close>, \<open>parse::<u32>\<close>.\<close>

fun split_char :: "char \<Rightarrow> string \<Rightarrow> string list" where
  "split_char c [] = [[]]"
| "split_char c (x # xs) =
     (if x = c then [] # split_char c xs
      else (case split_char c xs of [] \<Rightarrow> [[x]] | p # ps \<Rightarrow> (x # p) # ps))"

definition split_once :: "char \<Rightarrow> string \<Rightarrow> (string \<times> string) option" where
  "split_once c s =
     (if c \<in> set s then Some (takeWhile (\<lambda>x. x \<noteq> c) s, tl (dropWhile (\<lambda>x. x \<noteq> c) s)) else None)"

fun split_whitespace :: "string \<Rightarrow> string list" where
  "split_whitespace [] = []"
| "split_whitespace (x # xs) =
     (if is_ws x then split_whitespace xs
      else (case xs of
              [] \<Rightarrow> [[x]]
            | y # _ \<Rightarrow> (if is_ws y then [x] # split_whitespace xs
                        else (case split_whitespace xs of [] \<Rightarrow> [[x]] | w # ws \<Rightarrow> (x # w) # ws))))"

definition parse_u32 :: "string \<Rightarrow> nat option" where
  "parse_u32 s =
     (case parse_nat (if s \<noteq> [] \<and> hd s = CHR ''+'' then tl s else s) of
        None \<Rightarrow> None | Some n \<Rightarrow> if n < 2 ^ 32 then Some n else None)"

definition to_ascii_lowercase :: "string \<Rightarrow> string" where
  "to_ascii_lowercase s =
     map (\<lambda>c. let n = of_char c :: nat in if 65 \<le> n \<and> n \<le> 90 then char_of (n + 32) else c) s"

text \<open>\<open>str::lines\<close> (a final line end opens no line, a carriage return before one is dropped) and \<open>join\<close>.\<close>

definition strip_cr :: "string \<Rightarrow> string" where
  "strip_cr s = (if s \<noteq> [] \<and> last s = CHR 0x0D then butlast s else s)"

definition str_lines :: "string \<Rightarrow> string list" where
  "str_lines s =
     (let ps = split_char (CHR 0x0A) s
      in map strip_cr (butlast ps) @ (if last ps = [] then [] else [last ps]))"

fun str_join :: "string \<Rightarrow> string list \<Rightarrow> string" where
  "str_join sep [] = []"
| "str_join sep [x] = x"
| "str_join sep (x # y # ys) = x @ sep @ str_join sep (y # ys)"

lemma split_char_Nil_iff [simp]: "split_char c s \<noteq> []"
  by (induction s) (auto split: list.splits)

lemma split_char_append: "c \<notin> set a \<Longrightarrow> split_char c (a @ c # b) = a # split_char c b"
  by (induction a) auto

lemma split_char_plain: "c \<notin> set a \<Longrightarrow> split_char c a = [a]"
  by (induction a) auto

lemma split_once_append: "c \<notin> set a \<Longrightarrow> split_once c (a @ c # b) = Some (a, b)"
  by (simp add: split_once_def takeWhile_tail dropWhile_append)

lemma str_join_split: "str_join [c] (split_char c s) = s"
proof (induction s)
  case (Cons x s)
  obtain p ps where "split_char c s = p # ps" by (cases "split_char c s") auto
  then show ?case using Cons by (cases ps) auto
qed simp

subsection \<open>Words and lines\<close>

lemma trim_ws_plain: "s \<noteq> [] \<Longrightarrow> \<not> is_ws (hd s) \<Longrightarrow> \<not> is_ws (last s) \<Longrightarrow> trim_ws s = s"
proof -
  assume s: "s \<noteq> []" "\<not> is_ws (hd s)" "\<not> is_ws (last s)"
  have id: "dropWhile is_ws t = t" if "t \<noteq> []" "\<not> is_ws (hd t)" for t using that by (cases t) auto
  show ?thesis using s by (simp add: trim_ws_def id hd_rev)
qed

lemma trim_ws_end: "is_ws c \<Longrightarrow> trim_ws (s @ [c]) = trim_ws s"
proof (cases "dropWhile is_ws s = []")
  case True
  then have all: "\<forall>x \<in> set s. is_ws x" by (simp add: dropWhile_eq_Nil_conv)
  moreover assume "is_ws c"
  ultimately have "dropWhile is_ws (s @ [c]) = []" by (simp add: dropWhile_eq_Nil_conv)
  then show ?thesis by (simp only: trim_ws_def True)
next
  case False
  then obtain x where "x \<in> set s" "\<not> is_ws x" by (auto simp: dropWhile_eq_Nil_conv)
  then have "dropWhile is_ws (s @ [c]) = dropWhile is_ws s @ [c]" by (rule dropWhile_append1)
  moreover assume "is_ws c"
  ultimately show ?thesis by (simp add: trim_ws_def)
qed

lemma split_whitespace_word: "\<forall>x \<in> set w. \<not> is_ws x \<Longrightarrow> w \<noteq> [] \<Longrightarrow> split_whitespace w = [w]"
proof (induction w)
  case (Cons x w)
  then show ?case by (cases w) auto
qed simp

lemma split_whitespace_append:
  "\<forall>x \<in> set w. \<not> is_ws x \<Longrightarrow> w \<noteq> [] \<Longrightarrow> is_ws c \<Longrightarrow>
   split_whitespace (w @ c # rest) = w # split_whitespace rest"
proof (induction w)
  case (Cons x w)
  then show ?case by (cases w) auto
qed simp

lemma split_whitespace_join:
  "\<forall>w \<in> set ws. w \<noteq> [] \<and> (\<forall>x \<in> set w. \<not> is_ws x) \<Longrightarrow> split_whitespace (str_join '' '' ws) = ws"
proof (induction "'' ''" ws rule: str_join.induct)
  case (3 x y ys)
  then show ?case using split_whitespace_append [of x "CHR '' ''"] by (simp add: is_ws_def)
qed (simp_all add: split_whitespace_word)

lemma set_str_join: "set (str_join sep ws) \<subseteq> set sep \<union> (\<Union>w \<in> set ws. set w)"
  by (induction sep ws rule: str_join.induct) auto

lemma set_split_char: "p \<in> set (split_char c s) \<Longrightarrow> set p \<subseteq> set s"
  by (induction s arbitrary: p) (fastforce split: if_splits list.splits)+

lemma str_lines_first:
  assumes "CHR 0x0A \<notin> set h" "CHR 0x0D \<notin> set h"
  shows "str_lines (h @ CHR 0x0A # b) = h # str_lines b"
proof -
  have "strip_cr h = h" using assms(2) last_in_set by (force simp: strip_cr_def)
  then show ?thesis by (simp add: str_lines_def split_char_append [OF assms(1)] Let_def)
qed

lemma str_join_snoc: "xs \<noteq> [] \<Longrightarrow> str_join sep (xs @ [x]) = str_join sep xs @ sep @ x"
  by (induction sep xs rule: str_join.induct) auto

lemma str_join_lines:
  assumes "CHR 0x0D \<notin> set b"
  shows "trim_ws (str_join [CHR 0x0A] (str_lines b)) = trim_ws b"
proof -
  let ?ps = "split_char (CHR 0x0A) b"
  have "strip_cr p = p" if "p \<in> set ?ps" for p
    using set_split_char [OF that] assms last_in_set by (force simp: strip_cr_def)
  then have "map strip_cr (butlast ?ps) = butlast ?ps" by (meson in_set_butlastD map_idI)
  then have lines: "str_lines b = butlast ?ps @ (if last ?ps = [] then [] else [last ?ps])"
    by (simp add: str_lines_def)
  have ps: "butlast ?ps @ [last ?ps] = ?ps" by (rule append_butlast_last_id) simp
  show ?thesis
  proof (cases "last ?ps = []")
    case False
    then show ?thesis using ps by (simp add: lines str_join_split)
  next
    case True
    note last = this
    show ?thesis
    proof (cases "butlast ?ps = []")
      case True
      then have "?ps = [[]]" using ps last by simp
      then have "b = []" using str_join_split [of "CHR 0x0A" b] by simp
      then show ?thesis by (simp add: str_lines_def)
    next
      case False
      have "b = str_join [CHR 0x0A] (butlast ?ps @ [[]])" using ps last str_join_split [of "CHR 0x0A" b] by simp
      then have "b = str_join [CHR 0x0A] (butlast ?ps) @ [CHR 0x0A]" using False by (simp add: str_join_snoc)
      then show ?thesis using trim_ws_end [of "CHR 0x0A" "str_join [CHR 0x0A] (butlast ?ps)"] last
        by (simp add: lines is_ws_def)
    qed
  qed
qed

subsection \<open>Numbers in text\<close>

lemma digit_cases: "P 0 \<Longrightarrow> P 1 \<Longrightarrow> P 2 \<Longrightarrow> P 3 \<Longrightarrow> P 4 \<Longrightarrow> P 5 \<Longrightarrow> P 6 \<Longrightarrow> P 7 \<Longrightarrow> P 8 \<Longrightarrow> P 9 \<Longrightarrow> P (d mod 10 :: nat)"
proof -
  assume P: "P 0" "P 1" "P 2" "P 3" "P 4" "P 5" "P 6" "P 7" "P 8" "P 9"
  have "e < 10 \<Longrightarrow> P e" for e using P by (auto simp: numeral_eq_Suc less_Suc_eq)
  then show ?thesis by simp
qed

lemma digit_value_char: "digit_value (digit_char d) = Some (d mod 10)"
  unfolding digit_char_def by (rule digit_cases [where d = d]) (simp_all add: digit_value_def)

lemma digit_char_cases: "digit_char d \<in> set ''0123456789''"
  unfolding digit_char_def by (rule digit_cases [where d = d]) simp_all

lemma read_digits_append:
  "read_digits acc (xs @ ys) = Option.bind (read_digits acc xs) (\<lambda>a. read_digits a ys)"
  by (induction xs arbitrary: acc) (auto split: option.splits)

lemma show_nat_not_Nil [simp]: "show_nat n \<noteq> []"
  by (subst show_nat.simps) simp

lemma read_digits_show: "read_digits 0 (show_nat n) = Some n"
proof (induction n rule: less_induct)
  case (less n)
  show ?case
  proof (cases "n < 10")
    case False
    then have "n div 10 < n" by simp
    from less [OF this] False show ?thesis
      by (subst show_nat.simps) (simp add: read_digits_append digit_value_char)
  qed (subst show_nat.simps, simp add: digit_value_char)
qed

lemma parse_nat_show: "parse_nat (show_nat n) = Some n"
  by (simp add: parse_nat_def read_digits_show)

lemma set_show_nat: "set (show_nat n) \<subseteq> set ''0123456789''"
proof (induction n rule: less_induct)
  case (less n)
  show ?case
  proof (cases "n < 10")
    case True
    then show ?thesis using digit_char_cases [of n] by (subst show_nat.simps) simp
  next
    case False
    then have "set (show_nat (n div 10)) \<subseteq> set ''0123456789''" by (intro less) simp
    then show ?thesis using False digit_char_cases [of "n mod 10"] by (subst show_nat.simps) simp
  qed
qed

lemma show_nat_no_ws: "x \<in> set (show_nat n) \<Longrightarrow> \<not> is_ws x"
  using set_show_nat [of n] by (auto simp: is_ws_def)

lemma parse_u32_show: "n < 2 ^ 32 \<Longrightarrow> parse_u32 (show_nat n) = Some n"
proof -
  assume n: "n < 2 ^ 32"
  have "hd (show_nat n) \<in> set (show_nat n)" by (rule hd_in_set) simp
  then have "hd (show_nat n) \<in> set ''0123456789''" using set_show_nat [of n] by (rule rev_subsetD)
  then have "hd (show_nat n) \<noteq> CHR ''+''" by auto
  then show ?thesis using n by (simp add: parse_u32_def parse_nat_show)
qed

section \<open>Searching\<close>

text \<open>\<open>str::find\<close>: the first position where a part occurs.\<close>

fun str_find :: "string \<Rightarrow> string \<Rightarrow> nat option" where
  "str_find part [] = (if part = [] then Some 0 else None)"
| "str_find part (c # s) = (if prefix part (c # s) then Some 0 else map_option Suc (str_find part s))"

lemma str_find_sound: "str_find p v = Some n \<Longrightarrow> \<exists>x. v = x @ p @ drop (n + length p) v"
proof (induction p v arbitrary: n rule: str_find.induct)
  case (2 p c s)
  show ?case
  proof (cases "prefix p (c # s)")
    case True
    then have "n = 0" using 2(2) by simp
    moreover obtain w where "c # s = p @ w" using True by (auto simp: prefix_def)
    ultimately have "c # s = [] @ p @ drop (n + length p) (c # s)" by simp
    then show ?thesis by blast
  next
    case False
    then obtain m where m: "str_find p s = Some m" "n = Suc m" using 2(2) by auto
    then obtain x where "s = x @ p @ drop (m + length p) s" using 2(1) False by blast
    then have "c # s = (c # x) @ p @ drop (n + length p) (c # s)" using m(2) by simp
    then show ?thesis by blast
  qed
qed (auto split: if_splits)

lemma str_find_leftmost: "\<exists>n. str_find p (x @ p @ w) = Some n \<and> n \<le> length x"
proof (induction x)
  case Nil
  have "prefix p (p @ w)" by simp
  then show ?case by (cases "p @ w") (auto simp del: prefixI)
next
  case (Cons c x)
  then obtain n where "str_find p (x @ p @ w) = Some n" "n \<le> length x" by blast
  then show ?case by auto
qed

section \<open>JSON values\<close>

datatype json =
    JNull
  | JBool bool
  | JNumber int
  | JFloat rat
  | JString string
  | JArray "json list"
  | JObject "(string \<times> json) list"

fun json_as_str :: "json \<Rightarrow> string option" where
  "json_as_str (JString s) = Some s"
| "json_as_str _ = None"

fun json_get :: "string \<Rightarrow> json \<Rightarrow> json option" where
  "json_get k (JObject kvs) = map_of kvs k"
| "json_get k _ = None"

definition json_as_u64 :: "json \<Rightarrow> u64 option" where
  "json_as_u64 v = (case v of JNumber n \<Rightarrow> if 0 \<le> n \<and> n < 2 ^ 64 then Some (word_of_int n) else None | _ \<Rightarrow> None)"

section \<open>Numbers in messages\<close>

text \<open>The formats \<open>{:.0}\<close> and \<open>{:.1}\<close>: rounded to the nearest decimal, ties to even.\<close>

definition round_ties_even :: "rat \<Rightarrow> nat" where
  "round_ties_even x =
     (let f = \<lfloor>x\<rfloor>; r = x - of_int f
      in nat (if r < 1 / 2 then f else if r > 1 / 2 then f + 1 else if even f then f else f + 1))"

definition fmt_fixed0 :: "rat \<Rightarrow> string" where
  "fmt_fixed0 x = (if x < 0 then ''-'' else []) @ show_nat (round_ties_even \<bar>x\<bar>)"

definition fmt_fixed1 :: "rat \<Rightarrow> string" where
  "fmt_fixed1 x =
     (let n = round_ties_even (\<bar>x\<bar> * 10)
      in (if x < 0 then ''-'' else []) @ show_nat (n div 10) @ ''.'' @ show_nat (n mod 10))"

definition fmt_fixed4 :: "rat \<Rightarrow> string" where
  "fmt_fixed4 x =
     (let n = round_ties_even (\<bar>x\<bar> * 10000); digits = show_nat (n mod 10000)
      in (if x < 0 then ''-'' else []) @ show_nat (n div 10000) @ ''.'' @
         replicate (4 - length digits) (CHR ''0'') @ digits)"

end
