(* ===== verification/Pipeline_Runtime.thy ===== *)
theory Pipeline_Runtime
  imports Pipeline_Step Fleet_Text "HOL-Library.Sublist"
begin

text \<open>
  What one step does when it runs: the function registry of
  \<^verbatim>\<open>crates/ff-pipeline/src/registry.rs\<close> and the configuration, \<open>execute_step_kind\<close>
  and the attempt loop of \<^verbatim>\<open>crates/ff-pipeline/src/executor.rs\<close>.

  Processes, HTTP and the JSON parser are outside the repository: they are the fields of
  \<open>step_env\<close>, arbitrary functions the definitions take as an argument. A registered
  handler is a function from its argument to its result.
\<close>

section \<open>The function registry\<close>

type_synonym rust_fn_handler = "string option \<Rightarrow> (string, pipeline_error) result"
type_synonym rust_fn_registry = "(string, rust_fn_handler) hmap"

definition registry_new :: rust_fn_registry where
  "registry_new = []"

definition register :: "string \<Rightarrow> rust_fn_handler \<Rightarrow> rust_fn_registry \<Rightarrow> rust_fn_registry" where
  "register name handler reg = hm_insert name handler reg"

definition unregister :: "string \<Rightarrow> rust_fn_registry \<Rightarrow> rust_fn_registry \<times> bool" where
  "unregister name reg = (hm_remove name reg, hm_contains reg name)"

definition registry_clear :: "rust_fn_registry \<Rightarrow> rust_fn_registry" where
  "registry_clear reg = []"

definition registry_call ::
  "rust_fn_registry \<Rightarrow> string \<Rightarrow> string option \<Rightarrow> (string, pipeline_error) result" where
  "registry_call reg name args =
     (case hm_get reg name of None \<Rightarrow> Inl (RustFnNotFound name) | Some handler \<Rightarrow> handler args)"

section \<open>Configuration\<close>

record executor_config =
  ec_max_parallelism :: nat
  ec_rust_fn_registry :: "rust_fn_registry option"
  ec_llm_base_url :: "string option"
  ec_llm_api_key :: "string option"
  ec_llm_model :: "string option"

definition executor_config_default :: executor_config where
  "executor_config_default =
     \<lparr>ec_max_parallelism = 4, ec_rust_fn_registry = None, ec_llm_base_url = None,
      ec_llm_api_key = None, ec_llm_model = None\<rparr>"

definition with_rust_fn_registry :: "rust_fn_registry \<Rightarrow> executor_config \<Rightarrow> executor_config" where
  "with_rust_fn_registry reg c = c\<lparr>ec_rust_fn_registry := Some reg\<rparr>"

definition with_llm_base_url :: "string \<Rightarrow> executor_config \<Rightarrow> executor_config" where
  "with_llm_base_url url c = c\<lparr>ec_llm_base_url := Some url\<rparr>"

definition with_llm_model :: "string \<Rightarrow> executor_config \<Rightarrow> executor_config" where
  "with_llm_model m c = c\<lparr>ec_llm_model := Some m\<rparr>"

definition with_llm_api_key :: "string \<Rightarrow> executor_config \<Rightarrow> executor_config" where
  "with_llm_api_key k c = c\<lparr>ec_llm_api_key := Some k\<rparr>"

record step_runtime =
  rt_rust_fn_registry :: "rust_fn_registry option"
  rt_llm_chat_completions_url :: string
  rt_llm_api_key :: "string option"
  rt_llm_model :: "string option"

definition trim_end_slashes :: "string \<Rightarrow> string" where
  "trim_end_slashes s = rev (dropWhile (\<lambda>c. c = CHR ''/'') (rev s))"

definition normalize_chat_completions_url :: "string \<Rightarrow> string" where
  "normalize_chat_completions_url raw =
     (let base = trim_end_slashes raw in
      if suffix ''/v1/chat/completions'' base then base
      else if suffix ''/v1'' base then base @ ''/chat/completions''
      else base @ ''/v1/chat/completions'')"

text \<open>\<open>Option::or_else\<close>\<close>

definition or_else :: "'a option \<Rightarrow> 'a option \<Rightarrow> 'a option" where
  "or_else a b = (case a of None \<Rightarrow> b | Some x \<Rightarrow> Some x)"

definition from_config :: "(string \<Rightarrow> string option) \<Rightarrow> executor_config \<Rightarrow> step_runtime" where
  "from_config env_var c =
     (let base = (case or_else (ec_llm_base_url c) (env_var ''FF_PIPELINE_LLM_BASE_URL'') of
                    None \<Rightarrow> ''http://127.0.0.1:51002'' | Some u \<Rightarrow> u)
      in \<lparr>rt_rust_fn_registry = ec_rust_fn_registry c,
          rt_llm_chat_completions_url = normalize_chat_completions_url base,
          rt_llm_api_key = or_else (ec_llm_api_key c) (env_var ''FF_PIPELINE_LLM_API_KEY''),
          rt_llm_model = or_else (ec_llm_model c) (env_var ''FF_PIPELINE_LLM_MODEL'')\<rparr>)"

section \<open>Replies of the language model\<close>

text \<open>One token of a JSON pointer: a key of an object, or an index of an array.\<close>

definition pointer_key :: "string \<Rightarrow> json \<Rightarrow> json option" where
  "pointer_key k v = json_get k v"

fun pointer_zero :: "json \<Rightarrow> json option" where
  "pointer_zero (JObject kvs) = map_of kvs ''0''"
| "pointer_zero (JArray (x # xs)) = Some x"
| "pointer_zero _ = None"

definition extract_item_text :: "json \<Rightarrow> string" where
  "extract_item_text item =
     (case json_as_str item of Some s \<Rightarrow> s
      | None \<Rightarrow>
        (case Option.bind (json_get ''text'' item) json_as_str of Some t \<Rightarrow> t
         | None \<Rightarrow>
           (case Option.bind (json_get ''content'' item) json_as_str of Some t \<Rightarrow> t | None \<Rightarrow> [])))"

definition extract_content_value :: "json \<Rightarrow> string option" where
  "extract_content_value content =
     (case json_as_str content of Some s \<Rightarrow> Some s
      | None \<Rightarrow>
        (case Option.bind (json_get ''text'' content) json_as_str of Some t \<Rightarrow> Some t
         | None \<Rightarrow>
           (case content of
              JArray items \<Rightarrow>
                (let joined = concat (map extract_item_text items)
                 in if joined \<noteq> [] then Some joined else None)
            | _ \<Rightarrow> None)))"

definition extract_llm_text :: "json \<Rightarrow> string option" where
  "extract_llm_text response =
     (let choice = Option.bind (pointer_key ''choices'' response) pointer_zero in
      case Option.bind (Option.bind choice (pointer_key ''message'')) (pointer_key ''content'') of
        Some content \<Rightarrow> extract_content_value content
      | None \<Rightarrow> Option.bind (Option.bind choice (pointer_key ''text'')) json_as_str)"

section \<open>Executing one step kind\<close>

text \<open>
  The outside world of one attempt. A process gives its exit code, standard output and
  standard error, or an I/O error; a request gives a status and the text of the body (or
  the error of reading it), or the error of sending it.
\<close>

record step_env =
  env_shell :: "string \<Rightarrow> string option \<Rightarrow> (string \<times> string) list \<Rightarrow> (int option \<times> string \<times> string, string) result"
  env_parse_method :: "string \<Rightarrow> (string, string) result"
  env_header_name :: "string \<Rightarrow> (string, string) result"
  env_header_value :: "string \<Rightarrow> (string, string) result"
  env_http :: "string \<Rightarrow> string \<Rightarrow> (string \<times> string) list \<Rightarrow> string option \<Rightarrow> (u16 \<times> (string, string) result, string) result"
  env_llm :: "string \<Rightarrow> string option \<Rightarrow> json \<Rightarrow> (u16 \<times> (string, string) result, string) result"
  env_parse_json :: "string \<Rightarrow> (json, string) result"

definition http_status_is_success :: "u16 \<Rightarrow> bool" where
  "http_status_is_success st \<longleftrightarrow> 200 \<le> unat st \<and> unat st < 300"

definition ascii_upper :: "char \<Rightarrow> char" where
  "ascii_upper c = (if of_char c \<in> {97..122::nat} then char_of (of_char c - 32 :: nat) else c)"

definition execute_shell :: "step_env \<Rightarrow> string \<Rightarrow> string option \<Rightarrow> (string \<times> string) list \<Rightarrow> (string, pipeline_error) result" where
  "execute_shell env command cwd vars =
     (case env_shell env command cwd vars of
        Inl e \<Rightarrow> Inl (Io e)
      | Inr (code, out, err) \<Rightarrow>
          (if code = Some 0 then Inr out
           else Inl (StepExecution (if err = [] then ''exit code: '' @ debug_int_option code else err))))"

fun check_headers :: "step_env \<Rightarrow> (string \<times> string) list \<Rightarrow> ((string \<times> string) list, pipeline_error) result" where
  "check_headers env [] = Inr []"
| "check_headers env ((n, v) # hs) =
     (case env_header_name env n of
        Inl e \<Rightarrow> Inl (StepExecution (''invalid header name '' @ [CHR 0x27] @ n @ [CHR 0x27] @ '': '' @ e))
      | Inr n' \<Rightarrow>
          (case env_header_value env v of
             Inl e \<Rightarrow> Inl (StepExecution (''invalid header value for '' @ [CHR 0x27] @ n @ [CHR 0x27] @ '': '' @ e))
           | Inr v' \<Rightarrow>
               (case check_headers env hs of Inl e \<Rightarrow> Inl e | Inr hs' \<Rightarrow> Inr ((n', v') # hs'))))"

definition execute_http ::
  "step_env \<Rightarrow> string \<Rightarrow> string \<Rightarrow> (string \<times> string) list option \<Rightarrow> string option \<Rightarrow> (string, pipeline_error) result" where
  "execute_http env meth url headers body =
     (case env_parse_method env (map ascii_upper meth) of
        Inl e \<Rightarrow> Inl (StepExecution (''invalid HTTP method '' @ [CHR 0x27] @ meth @ [CHR 0x27] @ '': '' @ e))
      | Inr m \<Rightarrow>
          (case check_headers env (case headers of None \<Rightarrow> [] | Some hs \<Rightarrow> hs) of
             Inl e \<Rightarrow> Inl e
           | Inr hs \<Rightarrow>
               (case env_http env m url hs body of
                  Inl e \<Rightarrow> Inl (HttpRequest e)
                | Inr (st, Inl e) \<Rightarrow> Inl (HttpRequest e)
                | Inr (st, Inr text) \<Rightarrow>
                    (if http_status_is_success st then Inr text else Inl (HttpStatus st text)))))"

definition llm_payload :: "string \<Rightarrow> string \<Rightarrow> u32 option \<Rightarrow> json" where
  "llm_payload model prompt max_tokens =
     JObject ([(''model'', JString model),
               (''messages'', JArray [JObject [(''role'', JString ''user''), (''content'', JString prompt)]]),
               (''stream'', JBool False)]
              @ (case max_tokens of None \<Rightarrow> [] | Some n \<Rightarrow> [(''max_tokens'', JNumber (uint n))]))"

definition execute_llm ::
  "step_env \<Rightarrow> step_runtime \<Rightarrow> string \<Rightarrow> string option \<Rightarrow> u32 option \<Rightarrow> (string, pipeline_error) result" where
  "execute_llm env rt prompt model max_tokens =
     (let selected = (case or_else model (rt_llm_model rt) of None \<Rightarrow> ''default'' | Some m \<Rightarrow> m) in
      case env_llm env (rt_llm_chat_completions_url rt) (rt_llm_api_key rt)
             (llm_payload selected prompt max_tokens) of
        Inl e \<Rightarrow> Inl (LlmRequest e)
      | Inr (st, Inl e) \<Rightarrow> Inl (LlmRequest e)
      | Inr (st, Inr body) \<Rightarrow>
          (if \<not> http_status_is_success st
           then Inl (LlmRequest (''status '' @ show_nat (unat st) @ '': '' @ body))
           else (case env_parse_json env body of
                   Inl e \<Rightarrow> Inl (LlmResponse (''invalid JSON response: '' @ e @ ''; body: '' @ body))
                 | Inr v \<Rightarrow>
                     (case extract_llm_text v of
                        Some text \<Rightarrow> Inr text
                      | None \<Rightarrow> Inl (LlmResponse (''missing assistant content in response: '' @ body))))))"

fun execute_step_kind :: "step_env \<Rightarrow> step_runtime \<Rightarrow> step_kind \<Rightarrow> (string, pipeline_error) result" where
  "execute_step_kind env rt (Shell command cwd vars) = execute_shell env command cwd vars"
| "execute_step_kind env rt (RustFn name args) =
     (case rt_rust_fn_registry rt of
        None \<Rightarrow> Inl RustFnRegistryMissing
      | Some reg \<Rightarrow> registry_call reg name args)"
| "execute_step_kind env rt (HttpCall meth url headers body) = execute_http env meth url headers body"
| "execute_step_kind env rt (LlmPrompt prompt model max_tokens) =
     execute_llm env rt prompt model max_tokens"
| "execute_step_kind env rt Noop = Inr ''noop''"

section \<open>The attempt loop of a spawned task\<close>

text \<open>
  One attempt as the task sees it: the world it runs in, whether the timeout fired first,
  the measured milliseconds and the clock when the result is built.
\<close>

record attempt_run =
  ar_env :: step_env
  ar_elapsed :: bool
  ar_elapsed_ms :: u64
  ar_now :: datetime

fun attempt_loop ::
  "step_runtime \<Rightarrow> step \<Rightarrow> (nat \<Rightarrow> attempt_run) \<Rightarrow> nat list \<Rightarrow> step_result option \<Rightarrow> step_result option" where
  "attempt_loop rt s world [] last_result = last_result"
| "attempt_loop rt s world (attempt # attempts) last_result =
     (let w = world attempt in
      if ar_elapsed w
      then Some (result_timed_out (ar_now w) (st_id s) (of_nat attempt) (ar_elapsed_ms w))
      else (case execute_step_kind (ar_env w) rt (st_kind s) of
              Inr output \<Rightarrow>
                Some (result_success (ar_now w) (st_id s) output (of_nat attempt) (ar_elapsed_ms w))
            | Inl err \<Rightarrow>
                attempt_loop rt s world attempts
                  (Some (result_failure (ar_now w) (st_id s) (pipeline_error_to_string err) []
                           (of_nat attempt) (ar_elapsed_ms w)))))"

text \<open>
  \<open>max_attempts = retries + 1\<close> is computed at 32 bits, and the loop runs over
  \<open>1..=max_attempts\<close>; \<open>expect\<close> panics where the range was empty.
\<close>

definition max_attempts :: "step \<Rightarrow> u32" where
  "max_attempts s = sc_retries (st_config s) + 1"

definition run_task :: "step_runtime \<Rightarrow> step \<Rightarrow> (nat \<Rightarrow> attempt_run) \<Rightarrow> step_result outcome" where
  "run_task rt s world =
     (case attempt_loop rt s world [1..<Suc (unat (max_attempts s))] None of
        None \<Rightarrow> Panics
      | Some r \<Rightarrow> Returns r)"

section \<open>The endpoint of LLM steps\<close>

lemma normalize_suffix: "suffix ''/v1/chat/completions'' (normalize_chat_completions_url u)"
proof -
  have "suffix ''/v1/chat/completions'' (base @ ''/chat/completions'')" if "suffix ''/v1'' base" for base
    using that by (auto simp: suffix_def)
  then show ?thesis by (simp add: normalize_chat_completions_url_def Let_def suffix_def)
qed

lemma normalize_suffixed: "suffix ''/v1/chat/completions'' u \<Longrightarrow> normalize_chat_completions_url u = u"
proof -
  assume s: "suffix ''/v1/chat/completions'' u"
  then have "trim_end_slashes u = u" by (auto simp: suffix_def trim_end_slashes_def)
  with s show ?thesis by (simp add: normalize_chat_completions_url_def)
qed

text \<open>
  whatever base URL is configured, the endpoint ends in \<open>/v1/chat/completions\<close>, and
  normalizing an endpoint again does not change it.
\<close>

theorem normalize_url_idempotent:
  "suffix ''/v1/chat/completions'' (normalize_chat_completions_url u)
   \<and> normalize_chat_completions_url (normalize_chat_completions_url u) = normalize_chat_completions_url u"
  using normalize_suffix normalize_suffixed by blast

end
