(* ===== verification/Pipeline_Executor.thy ===== *)
theory Pipeline_Executor
  imports Pipeline_Topo Pipeline_Runtime
begin

text \<open>
  The executor of a pipeline: \<open>execute\<close> of \<^verbatim>\<open>crates/ff-pipeline/src/executor.rs\<close>.

  The main loop and the tasks it spawns run concurrently, so \<open>execute\<close> is a step
  relation. A task is in one of four places: waiting for a permit of the semaphore, holding
  a permit, sending its result (the permit is dropped before the send) and in the bounded
  channel \<open>done\<close>; a task that panicked is kept in \<open>ex_crashed\<close>. Which task moves next,
  what its attempts see and what the clock shows are not determined. The main loop moves
  between \<open>AtTop\<close> (steps 1 to 3 of the loop body) and \<open>AtRecv\<close> (step 4).

  The log \<open>ex_events\<close> holds the events the main loop sends with \<open>send\<close>; the best-effort
  \<open>StepStarted\<close> events that tasks offer with \<open>try_send\<close> are not logged.
\<close>

section \<open>Events, state and the operations of the main loop\<close>

datatype pipeline_event =
    StepStarted step_id u32
  | StepCompleted step_result
  | StepSkipped step_id string
  | PipelineFinished bool nat nat nat nat

record pipeline_run_result =
  pr_success :: bool
  pr_results :: "(step_id, step_result) hmap"
  pr_total_duration_ms :: u64

datatype exec_pc = AtTop | AtRecv | AtEnd | MainPanicked

record exec_state =
  ex_statuses :: statuses
  ex_results :: "(step_id, step_result) hmap"
  ex_in_flight :: nat
  ex_waiting :: "step list"
  ex_active :: "step list"
  ex_sending :: "step_result list"
  ex_channel :: "step_result list"
  ex_crashed :: "step list"
  ex_pc :: exec_pc
  ex_events :: "pipeline_event list"

definition exec_init :: exec_state where
  "exec_init = \<lparr>ex_statuses = [], ex_results = [], ex_in_flight = 0, ex_waiting = [],
     ex_active = [], ex_sending = [], ex_channel = [], ex_crashed = [], ex_pc = AtTop,
     ex_events = []\<rparr>"

text \<open>\<open>config.max_parallelism.saturating_mul(4).max(16)\<close>\<close>

definition done_cap :: "executor_config \<Rightarrow> nat" where
  "done_cap cfg = max (min (ec_max_parallelism cfg * 4) (2 ^ 64 - 1)) 16"

definition skip_reason :: "step_id \<Rightarrow> string" where
  "skip_reason i = ''dependency of '' @ [CHR 0x27] @ step_id_str i @ [CHR 0x27] @ '' failed''"

definition skip_one :: "(step_id \<Rightarrow> datetime) \<Rightarrow> step_id \<Rightarrow> exec_state \<Rightarrow> exec_state" where
  "skip_one clock i st =
     st\<lparr>ex_statuses := hm_insert i Skipped (ex_statuses st),
        ex_results := hm_insert i (result_skipped (clock i) i (skip_reason i)) (ex_results st),
        ex_events := ex_events st @ [StepSkipped i (skip_reason i)]\<rparr>"

definition mark_skippable :: "pipeline_graph \<Rightarrow> (step_id \<Rightarrow> datetime) \<Rightarrow> exec_state \<Rightarrow> exec_state" where
  "mark_skippable g clock st = fold (skip_one clock) (skippable_steps g (ex_statuses st)) st"

fun launch_all :: "pipeline_graph \<Rightarrow> step_id list \<Rightarrow> exec_state \<Rightarrow> exec_state outcome" where
  "launch_all g [] st = Returns st"
| "launch_all g (i # is) st =
     (case get_step g i of
        None \<Rightarrow> Panics
      | Some s \<Rightarrow>
          launch_all g is
            (st\<lparr>ex_statuses := hm_insert i Running (ex_statuses st),
                ex_in_flight := ex_in_flight st + 1,
                ex_waiting := ex_waiting st @ [s]\<rparr>))"

text \<open>Steps 1 to 3 of the loop body.\<close>

definition loop_top :: "pipeline_graph \<Rightarrow> (step_id \<Rightarrow> datetime) \<Rightarrow> exec_state \<Rightarrow> exec_state" where
  "loop_top g clock st =
     (let st1 = mark_skippable g clock st in
      case launch_all g (ready_steps g (ex_statuses st1)) st1 of
        Panics \<Rightarrow> st1\<lparr>ex_pc := MainPanicked\<rparr>
      | Returns st2 \<Rightarrow>
          (if ex_in_flight st2 = 0 then st2\<lparr>ex_pc := AtEnd\<rparr> else st2\<lparr>ex_pc := AtRecv\<rparr>))"

text \<open>Step 4, for the result at the head of the channel.\<close>

definition receive :: "step_result \<Rightarrow> step_result list \<Rightarrow> exec_state \<Rightarrow> exec_state" where
  "receive r rs st =
     st\<lparr>ex_channel := rs,
        ex_in_flight := ex_in_flight st - 1,
        ex_statuses := hm_insert (sr_step_id r) (sr_status r) (ex_statuses st),
        ex_events := ex_events st @ [StepCompleted r],
        ex_results := hm_insert (sr_step_id r) r (ex_results st),
        ex_pc := AtTop\<rparr>"

section \<open>The step relation\<close>

inductive exec_step ::
  "pipeline_graph \<Rightarrow> executor_config \<Rightarrow> step_runtime \<Rightarrow> exec_state \<Rightarrow> exec_state \<Rightarrow> bool"
  for g cfg rt where
  top: "ex_pc st = AtTop \<Longrightarrow> exec_step g cfg rt st (loop_top g clock st)"
| acquire: "ex_waiting st = ws @ s # ws' \<Longrightarrow> length (ex_active st) < ec_max_parallelism cfg \<Longrightarrow>
     exec_step g cfg rt st (st\<lparr>ex_waiting := ws @ ws', ex_active := ex_active st @ [s]\<rparr>)"
| finish: "ex_active st = xs @ s # xs' \<Longrightarrow> run_task rt s world = Returns r \<Longrightarrow>
     exec_step g cfg rt st (st\<lparr>ex_active := xs @ xs', ex_sending := ex_sending st @ [r]\<rparr>)"
| crash: "ex_active st = xs @ s # xs' \<Longrightarrow> run_task rt s world = Panics \<Longrightarrow>
     exec_step g cfg rt st (st\<lparr>ex_active := xs @ xs', ex_crashed := ex_crashed st @ [s]\<rparr>)"
| send: "ex_sending st = xs @ r # xs' \<Longrightarrow> length (ex_channel st) < done_cap cfg \<Longrightarrow>
     exec_step g cfg rt st (st\<lparr>ex_sending := xs @ xs', ex_channel := ex_channel st @ [r]\<rparr>)"
| recv: "ex_pc st = AtRecv \<Longrightarrow> ex_channel st = r # rs \<Longrightarrow>
     exec_step g cfg rt st (receive r rs st)"

section \<open>The result of a run\<close>

definition count_status :: "(step_status \<Rightarrow> bool) \<Rightarrow> statuses \<Rightarrow> nat" where
  "count_status p sts = length (filter p (hm_values sts))"

definition summary :: "pipeline_graph \<Rightarrow> exec_state \<Rightarrow> pipeline_event" where
  "summary g st =
     (let sts = ex_statuses st;
          succeeded = count_status (\<lambda>s. s = Succeeded) sts;
          failed = count_status (\<lambda>s. s = Failed \<or> s = TimedOut) sts;
          skipped = count_status (\<lambda>s. s = Skipped) sts
      in PipelineFinished (failed = 0) (graph_len g) succeeded failed skipped)"

definition run_result :: "u64 \<Rightarrow> exec_state \<Rightarrow> pipeline_run_result" where
  "run_result elapsed st =
     \<lparr>pr_success = (count_status (\<lambda>s. s = Failed \<or> s = TimedOut) (ex_statuses st) = 0),
      pr_results = ex_results st, pr_total_duration_ms = elapsed\<rparr>"

text \<open>
  The calls of \<open>execute\<close> that return, with the value returned and the events the main loop
  sent. \<open>it\<close> is the hash iteration order of the topological sort and \<open>envvars\<close> the process
  environment read by \<open>StepRuntime::from_config\<close>.
\<close>

inductive execute ::
  "(step_id list \<Rightarrow> step_id list) \<Rightarrow> (string \<Rightarrow> string option) \<Rightarrow> pipeline_graph \<Rightarrow> executor_config
   \<Rightarrow> (pipeline_run_result, pipeline_error) result \<Rightarrow> pipeline_event list \<Rightarrow> bool"
  for it envvars g cfg where
  empty: "graph_is_empty g \<Longrightarrow> execute it envvars g cfg (Inl EmptyPipeline) []"
| invalid: "\<not> graph_is_empty g \<Longrightarrow> topological_sort it g = Returns (Inl e) \<Longrightarrow>
     execute it envvars g cfg (Inl e) []"
| completed: "\<not> graph_is_empty g \<Longrightarrow> topological_sort it g = Returns (Inr topo) \<Longrightarrow>
     (exec_step g cfg (from_config envvars cfg))\<^sup>*\<^sup>* exec_init st \<Longrightarrow> ex_pc st = AtEnd \<Longrightarrow>
     execute it envvars g cfg (Inr (run_result elapsed st)) (ex_events st @ [summary g st])"

inductive_cases execute_InrE: "execute it envvars g cfg (Inr r) evs"
inductive_cases execute_InlE: "execute it envvars g cfg (Inl e) evs"

section \<open>The attempt loop\<close>

text \<open>An attempt that ends in an error before the timeout: the only kind that is retried.\<close>

definition attempt_failed :: "step_runtime \<Rightarrow> step \<Rightarrow> attempt_run \<Rightarrow> bool" where
  "attempt_failed rt s w \<longleftrightarrow> \<not> ar_elapsed w \<and> isl (execute_step_kind (ar_env w) rt (st_kind s))"

definition attempt_decides :: "step_runtime \<Rightarrow> step \<Rightarrow> attempt_run \<Rightarrow> bool \<Rightarrow> step_result \<Rightarrow> bool" where
  "attempt_decides rt s w final r =
     (case sr_status r of
        Succeeded \<Rightarrow> \<not> ar_elapsed w \<and> execute_step_kind (ar_env w) rt (st_kind s) = Inr (sr_output r)
      | TimedOut \<Rightarrow> ar_elapsed w
      | Failed \<Rightarrow> final \<and> attempt_failed rt s w
      | _ \<Rightarrow> False)"

lemma attempt_loop_trace:
  assumes "attempt_loop rt s world as lst = Some r" "as \<noteq> []"
  shows "\<exists>pre a post. as = pre @ a # post \<and> (\<forall>x \<in> set pre. attempt_failed rt s (world x))
     \<and> sr_attempts r = of_nat a \<and> sr_step_id r = st_id s
     \<and> attempt_decides rt s (world a) (post = []) r"
  using assms
proof (induction "as" arbitrary: lst)
  case (Cons a as0)
  show ?case
  proof (cases "ar_elapsed (world a)")
    case True
    with Cons.prems show ?thesis
      by (intro exI [of _ "[]"] exI [of _ a] exI [of _ as0])
        (auto simp: Let_def result_timed_out_def attempt_decides_def)
  next
    case noel: False
    show ?thesis
    proof (cases "execute_step_kind (ar_env (world a)) rt (st_kind s)")
      case (Inr out)
      with noel Cons.prems show ?thesis
        by (intro exI [of _ "[]"] exI [of _ a] exI [of _ as0])
          (auto simp: Let_def result_success_def attempt_decides_def)
    next
      case (Inl err)
      let ?f = "result_failure (ar_now (world a)) (st_id s) (pipeline_error_to_string err) []
             (of_nat a) (ar_elapsed_ms (world a))"
      have fa: "attempt_failed rt s (world a)" using noel Inl by (simp add: attempt_failed_def)
      have loop: "attempt_loop rt s world as0 (Some ?f) = Some r"
        using Cons.prems(1) noel Inl by (simp add: Let_def)
      show ?thesis
      proof (cases "as0 = []")
        case True
        with loop fa show ?thesis
          by (intro exI [of _ "[]"] exI [of _ a] exI [of _ "[]"])
            (auto simp: result_failure_def attempt_decides_def)
      next
        case False
        obtain pre b post where h: "as0 = pre @ b # post" "\<forall>x \<in> set pre. attempt_failed rt s (world x)"
            "sr_attempts r = of_nat b" "sr_step_id r = st_id s"
            "attempt_decides rt s (world b) (post = []) r"
          using Cons.IH [OF loop False] by blast
        show ?thesis
          by (rule exI [of _ "a # pre"], rule exI [of _ b], rule exI [of _ post]) (use h fa in simp)
      qed
    qed
  qed
qed simp

lemma attempt_loop_some: "attempt_loop rt s world as (Some r) = None \<longleftrightarrow> False"
  by (induction "as" arbitrary: r) (auto simp: Let_def split: sum.splits)

lemma attempt_loop_None: "attempt_loop rt s world as None = None \<longleftrightarrow> as = []"
  by (cases "as") (simp_all add: Let_def attempt_loop_some split: sum.split del: not_None_eq)

lemma run_task_Panics: "run_task rt s world = Panics \<longleftrightarrow> max_attempts s = 0"
proof -
  have "run_task rt s world = Panics \<longleftrightarrow> [1..<Suc (unat (max_attempts s))] = []"
    by (auto simp: run_task_def split: option.split
        simp flip: attempt_loop_None [of rt s world] simp del: upt_Suc)
  then show ?thesis by (simp add: unat_eq_0 del: upt_Suc)
qed

lemma run_task_trace:
  assumes "run_task rt s world = Returns r"
  defines "k \<equiv> unat (sr_attempts r)"
  shows "sr_step_id r = st_id s" "1 \<le> k" "k \<le> unat (max_attempts s)"
    "\<forall>a. 1 \<le> a \<and> a < k \<longrightarrow> attempt_failed rt s (world a)"
    "attempt_decides rt s (world k) (k = unat (max_attempts s)) r"
proof -
  let ?n = "unat (max_attempts s)"
  have loop: "attempt_loop rt s world [1..<Suc ?n] None = Some r"
    using assms by (auto simp: run_task_def split: option.splits simp del: upt_Suc)
  then have ne: "[1..<Suc ?n] \<noteq> []"
    using attempt_loop_None [of rt s world "[1..<Suc ?n]"] by (metis option.distinct(1))
  obtain pre a post where h: "[1..<Suc ?n] = pre @ a # post" "\<forall>x \<in> set pre. attempt_failed rt s (world x)"
      "sr_attempts r = of_nat a" "sr_step_id r = st_id s" "attempt_decides rt s (world a) (post = []) r"
    using attempt_loop_trace [OF loop ne] by blast
  have a: "a \<in> set [1..<Suc ?n]" unfolding h(1) by simp
  then have "a < 2 ^ LENGTH(32)" using unsigned_less [of "max_attempts s"] by auto
  then have k: "k = a" using h(3) by (simp add: k_def unat_of_nat take_bit_nat_eq_self)
  have len: "length pre < ?n" using arg_cong [OF h(1), of length] by (simp del: upt_Suc)
  then have idx: "a = 1 + length pre" using arg_cong [OF h(1), of "\<lambda>xs. xs ! length pre"] 
    by (simp del: upt_Suc)
  moreover have "post = [] \<longleftrightarrow> a = ?n"
    using arg_cong [OF h(1), of length] idx by (cases post) (simp_all del: upt_Suc)
  moreover have "pre = [1..<a]"
    using arg_cong [OF h(1), of "take (length pre)"] idx len by (simp add: take_upt del: upt_Suc)
  ultimately show "sr_step_id r = st_id s" "1 \<le> k" "k \<le> ?n"
    "\<forall>a. 1 \<le> a \<and> a < k \<longrightarrow> attempt_failed rt s (world a)"
    "attempt_decides rt s (world k) (k = ?n) r"
    using h(2,4,5) k a by (auto simp del: upt_Suc)
qed

lemma run_task_Returns:
  assumes "run_task rt s world = Returns r"
  shows "sr_step_id r = st_id s" "sr_status r \<in> {Succeeded, Failed, TimedOut}"
  using run_task_trace(1,5) [OF assms]
  by (auto simp: attempt_decides_def split: step_status.splits)

end
