(* ===== verification/Pipeline_Run.thy ===== *)
theory Pipeline_Run
  imports Pipeline_Executor
begin

text \<open>
  Runs of the executor: the invariant \<open>exec_inv\<close> that every step of the main loop and of
  the tasks keeps, the rank that bounds the number of steps, and what the final state of
  a run says about every step of the graph.
\<close>

section \<open>Statuses\<close>

lemma status_of_Nil [simp]: "status_of [] i = Pending"
  by (simp add: status_of_def)

lemma status_of_insert [simp]:
  "status_of (hm_insert i s sts) j = (if j = i then s else status_of sts j)"
  by (simp add: status_of_def)

definition grows :: "statuses \<Rightarrow> statuses \<Rightarrow> bool" where
  "grows sts sts' \<longleftrightarrow> (\<forall>i. is_terminal (status_of sts i) \<longrightarrow> status_of sts' i = status_of sts i)"

lemma growsI: "(\<And>i. is_terminal (status_of sts i) \<Longrightarrow> status_of sts' i = status_of sts i) \<Longrightarrow> grows sts sts'"
  by (simp add: grows_def)

lemma dep_satisfied_iff:
  "dep_satisfied g sts d \<longleftrightarrow>
     status_of sts d = Succeeded \<or> allows_failure g d \<and> is_terminal (status_of sts d)"
  by (auto simp: dep_satisfied_def Let_def)

lemma dep_satisfied_grows: "grows sts sts' \<Longrightarrow> dep_satisfied g sts d \<Longrightarrow> dep_satisfied g sts' d"
  unfolding dep_satisfied_iff grows_def by (metis is_terminal.simps(1))

lemma dep_hard_failed_iff:
  "dep_hard_failed g sts d \<longleftrightarrow>
     status_of sts d \<in> {Failed, TimedOut, Skipped} \<and> \<not> allows_failure g d"
  by (auto simp: dep_hard_failed_def allows_failure_def Let_def split: option.splits)

lemma dep_hard_failed_grows: "grows sts sts' \<Longrightarrow> dep_hard_failed g sts d \<Longrightarrow> dep_hard_failed g sts' d"
  by (auto simp: dep_hard_failed_iff grows_def is_terminal_iff)

section \<open>The invariant\<close>

text \<open>The steps whose task has been spawned and whose result has not been received.\<close>

definition owned :: "exec_state \<Rightarrow> step_id list" where
  "owned st = map st_id (ex_waiting st) @ map st_id (ex_active st)
     @ map sr_step_id (ex_sending st) @ map sr_step_id (ex_channel st)
     @ map st_id (ex_crashed st)"

definition tasks_ok :: "pipeline_graph \<Rightarrow> executor_config \<Rightarrow> exec_state \<Rightarrow> bool" where
  "tasks_ok g cfg st \<longleftrightarrow>
     distinct (owned st) \<and> length (owned st) = ex_in_flight st
     \<and> set (owned st) = {i. status_of (ex_statuses st) i = Running}
     \<and> (\<forall>s \<in> set (ex_waiting st @ ex_active st @ ex_crashed st). get_step g (st_id s) = Some s)
     \<and> (\<forall>r \<in> set (ex_sending st @ ex_channel st). sr_status r \<in> {Succeeded, Failed, TimedOut})
     \<and> (\<forall>s \<in> set (ex_crashed st). max_attempts s = 0)
     \<and> length (ex_active st) \<le> ec_max_parallelism cfg"

definition statuses_ok :: "pipeline_graph \<Rightarrow> statuses \<Rightarrow> bool" where
  "statuses_ok g sts \<longleftrightarrow> hm_wf sts
     \<and> (\<forall>i s. hm_get sts i = Some s \<longrightarrow> i \<in> nodes g \<and> s \<noteq> Pending)
     \<and> (\<forall>i. status_of sts i \<notin> {Pending, Skipped} \<longrightarrow>
           (\<forall>d \<in> set (dependencies_of g i). dep_satisfied g sts d))
     \<and> (\<forall>i. status_of sts i = Skipped \<longrightarrow>
           (\<exists>d \<in> set (dependencies_of g i). dep_hard_failed g sts d))"

definition result_matches :: "step_result option \<Rightarrow> step_status \<Rightarrow> step_id \<Rightarrow> bool" where
  "result_matches res s i \<longleftrightarrow>
     (case res of
        None \<Rightarrow> \<not> is_terminal s
      | Some r \<Rightarrow> sr_step_id r = i \<and> sr_status r = s \<and> is_terminal s)"

definition results_ok :: "exec_state \<Rightarrow> bool" where
  "results_ok st \<longleftrightarrow> hm_wf (ex_results st) \<and>
     (\<forall>i. result_matches (hm_get (ex_results st) i) (status_of (ex_statuses st) i) i)"

definition pc_ok :: "pipeline_graph \<Rightarrow> exec_state \<Rightarrow> bool" where
  "pc_ok g st \<longleftrightarrow> ex_pc st \<noteq> MainPanicked
     \<and> (ex_pc st = AtRecv \<longrightarrow> ex_in_flight st > 0)
     \<and> (ex_pc st = AtEnd \<longrightarrow> ex_in_flight st = 0 \<and> ready_steps g (ex_statuses st) = [])"

definition exec_inv :: "pipeline_graph \<Rightarrow> executor_config \<Rightarrow> exec_state \<Rightarrow> bool" where
  "exec_inv g cfg st \<longleftrightarrow>
     tasks_ok g cfg st \<and> statuses_ok g (ex_statuses st) \<and> results_ok st \<and> pc_ok g st"

lemma exec_inv_init: "exec_inv g cfg exec_init"
  by (simp add: exec_inv_def tasks_ok_def statuses_ok_def results_ok_def pc_ok_def exec_init_def owned_def
      result_matches_def)

subsection \<open>One status changes\<close>

lemma statuses_ok_update:
  assumes ok: "statuses_ok g sts" and i: "i \<in> nodes g" "s \<noteq> Pending"
    and old: "\<not> is_terminal (status_of sts i)"
    and run: "s \<noteq> Skipped \<Longrightarrow> \<forall>d \<in> set (dependencies_of g i). dep_satisfied g sts d"
    and skip: "s = Skipped \<Longrightarrow> \<exists>d \<in> set (dependencies_of g i). dep_hard_failed g sts d"
  shows "statuses_ok g (hm_insert i s sts)"
proof -
  have gr: "grows sts (hm_insert i s sts)"
    using old by (auto intro!: growsI)
  show ?thesis
    unfolding statuses_ok_def
  proof (intro conjI allI impI)
    show "hm_wf (hm_insert i s sts)" using ok by (simp add: statuses_ok_def)
  next
    fix j t assume "hm_get (hm_insert i s sts) j = Some t"
    then show "j \<in> nodes g" "t \<noteq> Pending"
      using ok i by (auto simp: statuses_ok_def split: if_splits)
  next
    fix j assume "status_of (hm_insert i s sts) j \<notin> {Pending, Skipped}"
    then have "\<forall>d \<in> set (dependencies_of g j). dep_satisfied g sts d"
      using ok run by (auto simp: statuses_ok_def split: if_splits)
    then show "\<forall>d \<in> set (dependencies_of g j). dep_satisfied g (hm_insert i s sts) d"
      using dep_satisfied_grows [OF gr] by blast
  next
    fix j assume "status_of (hm_insert i s sts) j = Skipped"
    then have "\<exists>d \<in> set (dependencies_of g j). dep_hard_failed g sts d"
      using ok skip by (auto simp: statuses_ok_def split: if_splits)
    then show "\<exists>d \<in> set (dependencies_of g j). dep_hard_failed g (hm_insert i s sts) d"
      using dep_hard_failed_grows [OF gr] by blast
  qed
qed

lemma results_ok_update:
  assumes "results_ok st" "sr_step_id r = i" "is_terminal (sr_status r)"
    "ex_statuses st' = hm_insert i (sr_status r) (ex_statuses st)"
    "ex_results st' = hm_insert i r (ex_results st)"
  shows "results_ok st'"
proof -
  have "result_matches (Some r) (sr_status r) i" using assms by (simp add: result_matches_def)
  then show ?thesis using assms by (simp add: results_ok_def)
qed

lemma results_ok_running:
  assumes "results_ok st" "\<not> is_terminal (status_of (ex_statuses st) i)"
    "ex_statuses st' = hm_insert i Running (ex_statuses st)" "ex_results st' = ex_results st"
  shows "results_ok st'"
proof -
  have "result_matches (hm_get (ex_results st) i) Running i"
    using assms(1,2) by (auto simp: results_ok_def result_matches_def split: option.splits)
  then show ?thesis using assms by (simp add: results_ok_def)
qed

subsection \<open>The main loop\<close>

definition core_inv :: "pipeline_graph \<Rightarrow> executor_config \<Rightarrow> exec_state \<Rightarrow> bool" where
  "core_inv g cfg st \<longleftrightarrow> tasks_ok g cfg st \<and> statuses_ok g (ex_statuses st) \<and> results_ok st"

definition to_skip :: "pipeline_graph \<Rightarrow> statuses \<Rightarrow> step_id \<Rightarrow> bool" where
  "to_skip g sts i \<longleftrightarrow> i \<in> nodes g \<and> status_of sts i = Pending
     \<and> (\<exists>d \<in> set (dependencies_of g i). dep_hard_failed g sts d)"

definition to_launch :: "pipeline_graph \<Rightarrow> statuses \<Rightarrow> step_id \<Rightarrow> bool" where
  "to_launch g sts i \<longleftrightarrow> i \<in> nodes g \<and> status_of sts i = Pending
     \<and> (\<forall>d \<in> set (dependencies_of g i). dep_satisfied g sts d)"

lemma skippable_steps_iff: "i \<in> set (skippable_steps g sts) \<longleftrightarrow> to_skip g sts i"
  by (auto simp: skippable_steps_def to_skip_def nodes_def list_ex_iff)

lemma ready_steps_iff: "i \<in> set (ready_steps g sts) \<longleftrightarrow> to_launch g sts i"
  by (auto simp: ready_steps_def to_launch_def nodes_def list_all_iff)

lemma distinct_ready_skippable:
  "graph_wf g \<Longrightarrow> distinct (ready_steps g sts)" "graph_wf g \<Longrightarrow> distinct (skippable_steps g sts)"
  by (simp_all add: graph_wf_def ready_steps_def skippable_steps_def)

lemma grows_pending: "status_of sts i = Pending \<Longrightarrow> grows sts (hm_insert i s sts)"
  by (auto intro!: growsI)

lemma to_skip_other: "status_of sts j = Pending \<Longrightarrow> i \<noteq> j \<Longrightarrow> to_skip g sts i \<Longrightarrow> to_skip g (hm_insert j s sts) i"
  using dep_hard_failed_grows [OF grows_pending] by (fastforce simp: to_skip_def)

lemma to_launch_other: "status_of sts j = Pending \<Longrightarrow> i \<noteq> j \<Longrightarrow> to_launch g sts i \<Longrightarrow> to_launch g (hm_insert j s sts) i"
  using dep_satisfied_grows [OF grows_pending] by (fastforce simp: to_launch_def)

lemma tasks_ok_skip:
  assumes "tasks_ok g cfg st" "status_of (ex_statuses st) i = Pending"
  shows "tasks_ok g cfg (skip_one clock i st)"
proof -
  have "{j. status_of (hm_insert i Skipped (ex_statuses st)) j = Running}
      = {j. status_of (ex_statuses st) j = Running}"
    using assms(2) by auto
  then show ?thesis using assms(1) by (simp add: tasks_ok_def skip_one_def owned_def)
qed

lemma skip_one_core:
  assumes "core_inv g cfg st" "to_skip g (ex_statuses st) i"
  shows "core_inv g cfg (skip_one clock i st)"
proof -
  have "statuses_ok g (ex_statuses (skip_one clock i st))"
    using assms statuses_ok_update [of g "ex_statuses st" i Skipped]
    by (simp add: core_inv_def skip_one_def to_skip_def)
  moreover have "results_ok (skip_one clock i st)"
    by (rule results_ok_update [of st "result_skipped (clock i) i (skip_reason i)" i])
      (use assms in \<open>simp_all add: core_inv_def skip_one_def result_skipped_def\<close>)
  ultimately show ?thesis
    using assms tasks_ok_skip by (simp add: core_inv_def to_skip_def)
qed

lemma fold_skip:
  "core_inv g cfg st \<Longrightarrow> distinct xs \<Longrightarrow> \<forall>i \<in> set xs. to_skip g (ex_statuses st) i \<Longrightarrow>
     core_inv g cfg (fold (skip_one clock) xs st)
     \<and> (\<forall>i. status_of (ex_statuses (fold (skip_one clock) xs st)) i =
            (if i \<in> set xs then Skipped else status_of (ex_statuses st) i))"
proof (induction xs arbitrary: st)
  case (Cons j xs)
  have "\<forall>i \<in> set xs. to_skip g (ex_statuses (skip_one clock j st)) i"
    using Cons.prems to_skip_other [of "ex_statuses st" j]
    by (auto simp: skip_one_def) (metis to_skip_def)
  then show ?case
    using Cons.IH [of "skip_one clock j st"] Cons.prems skip_one_core [of g cfg st j clock]
    by (auto simp: skip_one_def)
qed simp

lemma fold_skip_frame:
  "ex_in_flight (fold (skip_one clock) xs st) = ex_in_flight st
   \<and> ex_pc (fold (skip_one clock) xs st) = ex_pc st
   \<and> ex_waiting (fold (skip_one clock) xs st) = ex_waiting st
   \<and> ex_active (fold (skip_one clock) xs st) = ex_active st
   \<and> ex_sending (fold (skip_one clock) xs st) = ex_sending st
   \<and> ex_channel (fold (skip_one clock) xs st) = ex_channel st"
  by (induction xs arbitrary: st) (simp_all add: skip_one_def)

definition launched :: "step_id \<Rightarrow> step \<Rightarrow> exec_state \<Rightarrow> exec_state" where
  "launched i s st = st\<lparr>ex_statuses := hm_insert i Running (ex_statuses st),
     ex_in_flight := ex_in_flight st + 1, ex_waiting := ex_waiting st @ [s]\<rparr>"

lemma launched_core:
  assumes "core_inv g cfg st" "to_launch g (ex_statuses st) i" "get_step g i = Some s" "st_id s = i"
  shows "core_inv g cfg (launched i s st)"
proof -
  have ok: "tasks_ok g cfg st" using assms(1) by (simp add: core_inv_def)
  have ow: "set (owned (launched i s st)) = insert i (set (owned st))"
    "length (owned (launched i s st)) = length (owned st) + 1"
    "distinct (owned (launched i s st)) \<longleftrightarrow> i \<notin> set (owned st) \<and> distinct (owned st)"
    using assms(4) by (auto simp: owned_def launched_def)
  have run: "{j. status_of (ex_statuses (launched i s st)) j = Running}
      = insert i {j. status_of (ex_statuses st) j = Running}"
    by (auto simp: launched_def)
  have "i \<notin> set (owned st)"
    using assms(2) ok by (simp add: to_launch_def tasks_ok_def)
  then have "tasks_ok g cfg (launched i s st)"
    using ok ow assms(3,4) unfolding tasks_ok_def run
    by (simp add: launched_def)
  moreover have "statuses_ok g (ex_statuses (launched i s st))"
    using assms statuses_ok_update [of g "ex_statuses st" i Running]
    by (simp add: core_inv_def launched_def to_launch_def)
  moreover have "results_ok (launched i s st)"
    by (rule results_ok_running [of st i])
      (use assms in \<open>simp_all add: core_inv_def launched_def to_launch_def\<close>)
  ultimately show ?thesis by (simp add: core_inv_def)
qed

lemma get_step_node:
  assumes "graph_wf g" "i \<in> nodes g"
  obtains s where "get_step g i = Some s" "st_id s = i"
proof -
  have "hm_contains (pg_steps g) i" using assms by (simp add: graph_wf_contains)
  then obtain s where s: "hm_get (pg_steps g) i = Some s" by (auto simp: hm_contains_def)
  moreover have "st_id s = i" using assms(1) s by (simp add: graph_wf_def)
  ultimately show thesis by (auto simp: get_step_def intro: that)
qed

lemma launch_all_core:
  assumes "graph_wf g"
  shows "core_inv g cfg st \<Longrightarrow> distinct xs \<Longrightarrow> \<forall>i \<in> set xs. to_launch g (ex_statuses st) i \<Longrightarrow>
     \<exists>st'. launch_all g xs st = Returns st' \<and> core_inv g cfg st'
       \<and> ex_in_flight st' = ex_in_flight st + length xs
       \<and> length (ex_waiting st') = length (ex_waiting st) + length xs
       \<and> ex_active st' = ex_active st \<and> ex_sending st' = ex_sending st
       \<and> ex_channel st' = ex_channel st
       \<and> (\<forall>i. status_of (ex_statuses st') i =
            (if i \<in> set xs then Running else status_of (ex_statuses st) i))"
proof (induction xs arbitrary: st)
  case (Cons j xs)
  have "j \<in> nodes g" using Cons.prems(3) by (simp add: to_launch_def)
  then obtain s where s: "get_step g j = Some s" "st_id s = j"
    using get_step_node [OF assms] by blast
  have j: "to_launch g (ex_statuses st) j" "status_of (ex_statuses st) j = Pending"
    using Cons.prems(3) by (simp_all add: to_launch_def)
  have "\<forall>i \<in> set xs. to_launch g (ex_statuses (launched j s st)) i"
  proof
    fix i assume i: "i \<in> set xs"
    with Cons.prems(2) have "i \<noteq> j" by auto
    then show "to_launch g (ex_statuses (launched j s st)) i"
      using to_launch_other [OF j(2)] Cons.prems(3) i by (simp add: launched_def)
  qed
  then obtain st' where "launch_all g xs (launched j s st) = Returns st'" "core_inv g cfg st'"
     "ex_in_flight st' = ex_in_flight (launched j s st) + length xs"
     "length (ex_waiting st') = length (ex_waiting (launched j s st)) + length xs"
     "ex_active st' = ex_active (launched j s st)" "ex_sending st' = ex_sending (launched j s st)"
     "ex_channel st' = ex_channel (launched j s st)"
     "\<forall>i. status_of (ex_statuses st') i =
        (if i \<in> set xs then Running else status_of (ex_statuses (launched j s st)) i)"
    using Cons.IH [of "launched j s st"] launched_core [OF Cons.prems(1) j(1) s] Cons.prems(2)
    by auto
  then show ?case using s(1) by (auto simp: launched_def)
qed simp

text \<open>
  What steps 1 to 3 of the loop do: the skippable steps become \<open>Skipped\<close>, then the ready ones
  \<open>Running\<close>, each with a task that waits for a permit.
\<close>

lemma loop_top_core:
  fixes clock :: "step_id \<Rightarrow> datetime"
  assumes wf: "graph_wf g" and inv: "core_inv g cfg st"
  defines "st' \<equiv> loop_top g clock st"
  defines "skip \<equiv> skippable_steps g (ex_statuses st)"
  shows "\<exists>ready. core_inv g cfg st' \<and> distinct ready \<and> set ready \<inter> set skip = {}
       \<and> (\<forall>i \<in> set ready. i \<in> nodes g \<and> status_of (ex_statuses st) i = Pending)
       \<and> ex_in_flight st' = ex_in_flight st + length ready
       \<and> length (ex_waiting st') = length (ex_waiting st) + length ready
       \<and> ex_active st' = ex_active st \<and> ex_sending st' = ex_sending st
       \<and> ex_channel st' = ex_channel st
       \<and> (\<forall>i. status_of (ex_statuses st') i = (if i \<in> set ready then Running
            else if i \<in> set skip then Skipped else status_of (ex_statuses st) i))
       \<and> ex_pc st' = (if ex_in_flight st' = 0 then AtEnd else AtRecv)
       \<and> (ready = [] \<longrightarrow> ready_steps g (ex_statuses st') = [])"
proof -
  define st1 where "st1 = mark_skippable g clock st"
  define ready where "ready = ready_steps g (ex_statuses st1)"
  have "\<forall>i \<in> set skip. to_skip g (ex_statuses st) i"
    by (simp add: skip_def skippable_steps_iff)
  then have st1: "core_inv g cfg st1"
      "\<forall>i. status_of (ex_statuses st1) i = (if i \<in> set skip then Skipped else status_of (ex_statuses st) i)"
    using fold_skip [OF inv distinct_ready_skippable(2) [OF wf], of "ex_statuses st" clock]
    by (simp_all add: st1_def mark_skippable_def skip_def)
  have frame: "ex_in_flight st1 = ex_in_flight st" "ex_waiting st1 = ex_waiting st"
      "ex_active st1 = ex_active st" "ex_sending st1 = ex_sending st" "ex_channel st1 = ex_channel st"
    by (simp_all add: st1_def mark_skippable_def fold_skip_frame)
  have launch: "\<forall>i \<in> set ready. to_launch g (ex_statuses st1) i"
    by (simp add: ready_def ready_steps_iff)
  have dist: "distinct ready" by (simp add: ready_def distinct_ready_skippable(1) wf)
  obtain st2 where st2: "launch_all g ready st1 = Returns st2" "core_inv g cfg st2"
       "ex_in_flight st2 = ex_in_flight st1 + length ready"
       "length (ex_waiting st2) = length (ex_waiting st1) + length ready"
       "ex_active st2 = ex_active st1" "ex_sending st2 = ex_sending st1"
       "ex_channel st2 = ex_channel st1"
       "\<forall>i. status_of (ex_statuses st2) i =
            (if i \<in> set ready then Running else status_of (ex_statuses st1) i)"
    using launch_all_core [OF wf st1(1) dist launch] by blast
  have st': "st' = st2\<lparr>ex_pc := (if ex_in_flight st2 = 0 then AtEnd else AtRecv)\<rparr>"
    using st2(1) by (simp add: st'_def loop_top_def Let_def st1_def ready_def)
  have pend: "status_of (ex_statuses st1) i = Pending \<and> i \<in> nodes g" if "i \<in> set ready" for i
    using launch that by (simp add: to_launch_def)
  have "core_inv g cfg st'"
    using st2(2) by (simp add: st' core_inv_def tasks_ok_def results_ok_def owned_def)
  moreover have "ready = [] \<Longrightarrow> ready_steps g (ex_statuses st') = []"
    using st2(1) by (simp add: st' ready_def)
  moreover have "\<forall>i \<in> set ready. i \<in> nodes g \<and> status_of (ex_statuses st) i = Pending \<and> i \<notin> set skip"
    using pend st1(2) by (metis step_status.distinct(7))
  ultimately show ?thesis
    using st2 st1(2) frame dist by (intro exI [of _ ready]) (auto simp: st')
qed

subsection \<open>Every step keeps the invariant\<close>

lemma statuses_okD:
  "statuses_ok g sts \<Longrightarrow> hm_get sts i = Some s \<Longrightarrow> i \<in> nodes g \<and> s \<noteq> Pending"
  "statuses_ok g sts \<Longrightarrow> status_of sts i \<notin> {Pending, Skipped} \<Longrightarrow>
     d \<in> set (dependencies_of g i) \<Longrightarrow> dep_satisfied g sts d"
  "statuses_ok g sts \<Longrightarrow> status_of sts i = Skipped \<Longrightarrow>
     \<exists>d \<in> set (dependencies_of g i). dep_hard_failed g sts d"
  by (simp_all add: statuses_ok_def)

lemma receive_simps [simp]:
  "ex_in_flight (receive r rs st) = ex_in_flight st - 1"
  "ex_waiting (receive r rs st) = ex_waiting st" "ex_active (receive r rs st) = ex_active st"
  "ex_sending (receive r rs st) = ex_sending st" "ex_channel (receive r rs st) = rs"
  "ex_crashed (receive r rs st) = ex_crashed st" "ex_pc (receive r rs st) = AtTop"
  by (simp_all add: receive_def)

lemma core_inv_running:
  assumes "core_inv g cfg st" "i \<in> set (owned st)"
  shows "i \<in> nodes g" "status_of (ex_statuses st) i = Running"
    "\<forall>d \<in> set (dependencies_of g i). dep_satisfied g (ex_statuses st) d"
proof -
  show run: "status_of (ex_statuses st) i = Running"
    using assms by (simp add: core_inv_def tasks_ok_def)
  then have "hm_get (ex_statuses st) i = Some Running"
    by (simp add: status_of_def split: option.splits)
  then show "i \<in> nodes g" using assms(1) by (simp add: core_inv_def statuses_ok_def)
  show "\<forall>d \<in> set (dependencies_of g i). dep_satisfied g (ex_statuses st) d"
    using assms(1) run statuses_okD(2) [of g "ex_statuses st" i] by (simp add: core_inv_def)
qed

lemma receive_core:
  assumes inv: "core_inv g cfg st" and ch: "ex_channel st = r # rs"
  shows "core_inv g cfg (receive r rs st)"
proof -
  have ok: "tasks_ok g cfg st" using inv by (simp add: core_inv_def)
  have r: "sr_status r \<in> {Succeeded, Failed, TimedOut}" using ok ch by (simp add: tasks_ok_def)
  have mem: "sr_step_id r \<in> set (owned st)" using ch by (simp add: owned_def)
  note run = core_inv_running [OF inv mem]
  have ow: "mset (owned st) = add_mset (sr_step_id r) (mset (owned (receive r rs st)))"
    using ch by (simp add: owned_def receive_def)
  then have len: "length (owned st) = length (owned (receive r rs st)) + 1"
    by (metis Suc_eq_plus1 size_add_mset size_mset)
  have dist: "distinct (owned (receive r rs st)) \<and> sr_step_id r \<notin> set (owned (receive r rs st))"
    using ok ch by (auto simp: tasks_ok_def owned_def receive_def)
  have set_ow: "set (owned st) = insert (sr_step_id r) (set (owned (receive r rs st)))"
    using arg_cong [OF ow, of set_mset] by simp
  have "{j. status_of (ex_statuses (receive r rs st)) j = Running}
      = {j. status_of (ex_statuses st) j = Running} - {sr_step_id r}"
    using r by (auto simp: receive_def)
  also have "{j. status_of (ex_statuses st) j = Running} = set (owned st)"
    using ok by (simp add: tasks_ok_def)
  finally have set': "set (owned (receive r rs st)) = {j. status_of (ex_statuses (receive r rs st)) j = Running}"
    using set_ow dist by auto
  have "tasks_ok g cfg (receive r rs st)"
    using ok dist len set' ch unfolding tasks_ok_def by auto
  moreover have "statuses_ok g (ex_statuses (receive r rs st))"
    using statuses_ok_update [of g "ex_statuses st" "sr_step_id r" "sr_status r"] run r inv
    by (auto simp: receive_def core_inv_def)
  moreover have "results_ok (receive r rs st)"
    by (rule results_ok_update [of st r "sr_step_id r"])
      (use inv r in \<open>auto simp: receive_def core_inv_def\<close>)
  ultimately show ?thesis by (simp add: core_inv_def)
qed

text \<open>A task moves from one place to the next: the steps that are owned stay the same.\<close>

lemma tasks_ok_move:
  assumes "tasks_ok g cfg st" "mset (owned st') = mset (owned st)"
    "ex_in_flight st' = ex_in_flight st" "ex_statuses st' = ex_statuses st"
    "set (ex_waiting st' @ ex_active st' @ ex_crashed st') \<subseteq> set (ex_waiting st @ ex_active st @ ex_crashed st)"
    "\<forall>r \<in> set (ex_sending st' @ ex_channel st') - set (ex_sending st @ ex_channel st).
       sr_status r \<in> {Succeeded, Failed, TimedOut}"
    "\<forall>s \<in> set (ex_crashed st') - set (ex_crashed st). max_attempts s = 0"
    "length (ex_active st') \<le> ec_max_parallelism cfg"
  shows "tasks_ok g cfg st'"
proof -
  have "length (owned st') = length (owned st)" "set (owned st') = set (owned st)"
      "distinct (owned st') = distinct (owned st)"
    using assms(2) by (metis size_mset, metis set_mset_mset, metis mset_eq_imp_distinct_iff)
  moreover have "\<forall>s \<in> set (ex_waiting st' @ ex_active st' @ ex_crashed st'). get_step g (st_id s) = Some s"
    using assms(1,5) unfolding tasks_ok_def by blast
  moreover have "\<forall>r \<in> set (ex_sending st' @ ex_channel st'). sr_status r \<in> {Succeeded, Failed, TimedOut}"
    using assms(1,6) unfolding tasks_ok_def by blast
  moreover have "\<forall>s \<in> set (ex_crashed st'). max_attempts s = 0"
    using assms(1,7) unfolding tasks_ok_def by blast
  ultimately show ?thesis
    using assms(1,3,4,8) by (simp add: tasks_ok_def)
qed

lemma exec_inv_core: "exec_inv g cfg st \<longleftrightarrow> core_inv g cfg st \<and> pc_ok g st"
  by (auto simp: exec_inv_def core_inv_def)

lemma exec_inv_move:
  assumes "exec_inv g cfg st" "tasks_ok g cfg st \<Longrightarrow> tasks_ok g cfg st'"
    "ex_in_flight st' = ex_in_flight st" "ex_statuses st' = ex_statuses st"
    "ex_results st' = ex_results st" "ex_pc st' = ex_pc st"
  shows "exec_inv g cfg st'"
  using assms by (simp add: exec_inv_def results_ok_def pc_ok_def)

lemma exec_step_inv:
  assumes "exec_step g cfg rt st st'" "graph_wf g" "exec_inv g cfg st"
  shows "exec_inv g cfg st'"
  using assms(1)
proof cases
  case (top clock)
  have "core_inv g cfg st" "pc_ok g st" using assms(3) by (simp_all add: exec_inv_core)
  then show ?thesis
    using loop_top_core [OF assms(2), of cfg st clock] top
    by (auto simp: exec_inv_core pc_ok_def split: if_splits)
next
  case (recv r rs)
  then show ?thesis
    using receive_core [of g cfg st r rs] assms(3)
    by (auto simp: exec_inv_core pc_ok_def receive_def)
next
  case (acquire ws s ws')
  show ?thesis
    by (rule exec_inv_move [OF assms(3)], erule tasks_ok_move) (use acquire in \<open>auto simp: owned_def\<close>)
next
  case (finish xs s xs' world r)
  have "length (ex_active st) \<le> ec_max_parallelism cfg"
    using assms(3) by (simp add: exec_inv_def tasks_ok_def)
  note finish_facts = this finish run_task_Returns [OF finish(3)]
  show ?thesis
    by (rule exec_inv_move [OF assms(3)], erule tasks_ok_move) (use finish_facts in \<open>auto simp: owned_def\<close>)
next
  case (crash xs s xs' world)
  have "length (ex_active st) \<le> ec_max_parallelism cfg"
    using assms(3) by (simp add: exec_inv_def tasks_ok_def)
  note crash_facts = this crash
  show ?thesis
    by (rule exec_inv_move [OF assms(3)], erule tasks_ok_move) (use crash_facts in \<open>auto simp: owned_def run_task_Panics\<close>)
next
  case (send xs r xs')
  have "length (ex_active st) \<le> ec_max_parallelism cfg"
    using assms(3) by (simp add: exec_inv_def tasks_ok_def)
  note send_facts = this send
  show ?thesis
    by (rule exec_inv_move [OF assms(3)], erule tasks_ok_move) (use send_facts in \<open>auto simp: owned_def\<close>)
qed

section \<open>Termination\<close>

definition pending_set :: "pipeline_graph \<Rightarrow> statuses \<Rightarrow> step_id set" where
  "pending_set g sts = {i \<in> nodes g. status_of sts i = Pending}"

definition exec_rank :: "pipeline_graph \<Rightarrow> exec_state \<Rightarrow> nat" where
  "exec_rank g st = 6 * card (pending_set g (ex_statuses st)) + 5 * length (ex_waiting st)
     + 4 * length (ex_active st) + 3 * length (ex_sending st) + 2 * length (ex_channel st)
     + (if ex_pc st = AtTop then 1 else 0)"

lemma finite_pending_set: "finite (pending_set g sts)"
  by (simp add: pending_set_def nodes_def)

lemma loop_top_rank:
  assumes "graph_wf g" "core_inv g cfg st" "ex_pc st = AtTop"
  shows "exec_rank g (loop_top g clock st) < exec_rank g st"
proof -
  obtain ready where r: "distinct ready"
       "\<forall>i \<in> set ready. i \<in> nodes g \<and> status_of (ex_statuses st) i = Pending"
       "length (ex_waiting (loop_top g clock st)) = length (ex_waiting st) + length ready"
       "ex_active (loop_top g clock st) = ex_active st" "ex_sending (loop_top g clock st) = ex_sending st"
       "ex_channel (loop_top g clock st) = ex_channel st"
       "\<forall>i. status_of (ex_statuses (loop_top g clock st)) i = (if i \<in> set ready then Running
            else if i \<in> set (skippable_steps g (ex_statuses st)) then Skipped else status_of (ex_statuses st) i)"
       "ex_pc (loop_top g clock st) = (if ex_in_flight (loop_top g clock st) = 0 then AtEnd else AtRecv)"
    using loop_top_core [OF assms(1,2), of clock] by blast
  let ?P = "pending_set g (ex_statuses st)" and ?P' = "pending_set g (ex_statuses (loop_top g clock st))"
  have "?P' \<union> set ready \<subseteq> ?P" "?P' \<inter> set ready = {}"
    using r(2,7) by (auto simp: pending_set_def split: if_splits)
  then have "card ?P' + card (set ready) \<le> card ?P"
    by (metis card_Un_disjoint card_mono finite_Un finite_pending_set finite_set)
  then have "card ?P' + length ready \<le> card ?P" by (simp add: distinct_card r(1))
  then show ?thesis using r(3-6,8) assms(3) by (auto simp: exec_rank_def split: if_splits)
qed

lemma exec_step_rank:
  assumes "exec_step g cfg rt st st'" "graph_wf g" "exec_inv g cfg st"
  shows "exec_rank g st' < exec_rank g st"
  using assms(1)
proof cases
  case (top clock)
  then show ?thesis using loop_top_rank [OF assms(2)] assms(3) by (auto simp: exec_inv_core)
next
  case (recv r rs)
  have "sr_step_id r \<in> set (owned st)" using recv by (simp add: owned_def)
  then have "status_of (ex_statuses st) (sr_step_id r) = Running" "sr_status r \<noteq> Pending"
    using assms(3) recv by (auto simp: exec_inv_def tasks_ok_def)
  then have "pending_set g (ex_statuses (receive r rs st)) = pending_set g (ex_statuses st)"
    by (auto simp: pending_set_def receive_def)
  then show ?thesis using recv by (simp add: exec_rank_def receive_def)
qed (simp_all add: exec_rank_def)

interpretation exec: terminating_machine "exec_step g cfg rt"
  "\<lambda>st. graph_wf g \<and> exec_inv g cfg st" "exec_rank g" for g cfg rt
  by unfold_locales (auto intro: exec_step_inv exec_step_rank)

lemma exec_step_crashed:
  "exec_step g cfg rt st st' \<Longrightarrow> ex_crashed st \<noteq> [] \<Longrightarrow> ex_crashed st' \<noteq> []"
proof (induction rule: exec_step.induct)
  case (top st clock)
  have launch: "launch_all g xs s = Returns s' \<Longrightarrow> ex_crashed s' = ex_crashed s" for xs s s'
    by (induction xs arbitrary: s) (auto split: option.splits)
  have "ex_crashed (fold (skip_one clock) xs s) = ex_crashed s" for xs s
    by (induction xs arbitrary: s) (simp_all add: skip_one_def)
  then show ?case
    using top launch by (auto simp: loop_top_def mark_skippable_def Let_def split: outcome.split)
qed simp_all

interpretation crash_star: invariant_machine "exec_step g cfg rt" "\<lambda>st. ex_crashed st \<noteq> []" for g cfg rt
  by unfold_locales (rule exec_step_crashed)

section \<open>Progress\<close>


section \<open>The final state\<close>

lemma finite_edges: "graph_wf g \<Longrightarrow> finite (edges g)"
  by (rule finite_subset [of _ "nodes g \<times> nodes g"]) (auto simp: nodes_def dest: graph_wf_edge)

lemma exec_end:
  assumes "exec_inv g cfg st" "ex_pc st = AtEnd"
  shows "statuses_ok g (ex_statuses st)" "ready_steps g (ex_statuses st) = []" "results_ok st"
    "status_of (ex_statuses st) i \<noteq> Running" "ex_in_flight st = 0"
proof -
  have e: "ex_in_flight st = 0" "tasks_ok g cfg st" using assms by (simp_all add: exec_inv_def pc_ok_def)
  then have "owned st = []" by (simp add: tasks_ok_def)
  then show "status_of (ex_statuses st) i \<noteq> Running" using e(2) by (auto simp: tasks_ok_def)
qed (use assms in \<open>simp_all add: exec_inv_def pc_ok_def\<close>)

text \<open>A step that did not run has a strict ancestor that failed and may not fail.\<close>

lemma final_blame:
  assumes wf: "graph_wf g" and ac: "acyclic (edges g)" and sts: "statuses_ok g sts"
    and run: "\<And>i. status_of sts i \<noteq> Running" and rdy: "ready_steps g sts = []"
  shows "i \<in> nodes g \<Longrightarrow> status_of sts i \<in> {Pending, Skipped} \<Longrightarrow>
    \<exists>d. (d, i) \<in> (edges g)\<^sup>+ \<and> status_of sts d \<in> {Failed, TimedOut} \<and> \<not> allows_failure g d"
proof (induction i rule: wf_induct_rule [OF finite_acyclic_wf [OF finite_edges [OF wf] ac]])
  case (1 i)
  have "\<exists>d \<in> set (dependencies_of g i). \<not> dep_satisfied g sts d"
  proof (cases "status_of sts i = Skipped")
    case True
    from statuses_okD(3) [OF sts True] show ?thesis
      by (rule bexE) (rule bexI, auto simp: dep_satisfied_iff dep_hard_failed_iff)
  next
    case False
    with 1(3) rdy ready_steps_iff [of i g sts] 1(2) show ?thesis by (auto simp: to_launch_def)
  qed
  then obtain d where d: "d \<in> set (dependencies_of g i)" "\<not> dep_satisfied g sts d" by blast
  have e: "(d, i) \<in> edges g" using d(1) by (simp add: edges_dependencies [OF wf])
  have dn: "d \<in> nodes g" using graph_wf_edge [OF wf e] by simp
  show ?case
  proof (cases "status_of sts d \<in> {Pending, Skipped}")
    case True
    from 1(1) [OF e dn True] e show ?thesis by (blast intro: trancl_into_trancl)
  next
    case False
    then have "status_of sts d \<in> {Failed, TimedOut}" "\<not> allows_failure g d"
      using d(2) run [of d] by (cases "status_of sts d"; auto simp: dep_satisfied_iff)+
    with e show ?thesis by blast
  qed
qed

lemma count_status_zero:
  assumes "statuses_ok g sts" "\<not> p Pending"
  shows "count_status p sts = 0 \<longleftrightarrow> (\<forall>i. \<not> p (status_of sts i))"
proof -
  have wf: "hm_wf sts" using assms(1) by (simp add: statuses_ok_def)
  have "count_status p sts = 0 \<longleftrightarrow> (\<forall>v \<in> set (hm_values sts). \<not> p v)"
    by (simp add: count_status_def filter_empty_conv)
  also have "\<dots> \<longleftrightarrow> (\<forall>i s. hm_get sts i = Some s \<longrightarrow> \<not> p s)"
    by (auto simp: set_hm_values [OF wf])
  also have "\<dots> \<longleftrightarrow> (\<forall>i. \<not> p (status_of sts i))"
    using assms(2) by (auto simp: status_of_def split: option.splits)
  finally show ?thesis .
qed

lemma result_at:
  "results_ok st \<Longrightarrow> hm_get (ex_results st) i = Some r \<Longrightarrow>
     sr_step_id r = i \<and> sr_status r = status_of (ex_statuses st) i \<and> is_terminal (sr_status r)"
  "results_ok st \<Longrightarrow> is_terminal (status_of (ex_statuses st) i) \<Longrightarrow>
     \<exists>r. hm_get (ex_results st) i = Some r"
proof -
  assume ok: "results_ok st"
  then have m: "result_matches (hm_get (ex_results st) i) (status_of (ex_statuses st) i) i"
    by (simp add: results_ok_def)
  show "hm_get (ex_results st) i = Some r \<Longrightarrow>
     sr_step_id r = i \<and> sr_status r = status_of (ex_statuses st) i \<and> is_terminal (sr_status r)"
    using m by (simp add: result_matches_def)
  show "is_terminal (status_of (ex_statuses st) i) \<Longrightarrow> \<exists>r. hm_get (ex_results st) i = Some r"
    using m by (cases "hm_get (ex_results st) i") (simp_all add: result_matches_def)
qed

lemma execute_run:
  assumes "execute it envvars g cfg (Inr res) evs" "dag g"
  obtains st elapsed where "exec_inv g cfg st" "ex_pc st = AtEnd" "res = run_result elapsed st"
    "evs = ex_events st @ [summary g st]"
    "(exec_step g cfg (from_config envvars cfg))\<^sup>*\<^sup>* exec_init st"
proof -
  have wf: "graph_wf g" using assms(2) by (simp add: dag_def)
  from assms(1) show thesis
  proof (rule execute_InrE)
    fix topo st elapsed
    assume a: "res = run_result elapsed st" "evs = ex_events st @ [summary g st]"
      "(exec_step g cfg (from_config envvars cfg))\<^sup>*\<^sup>* exec_init st" "ex_pc st = AtEnd"
    then have "exec_inv g cfg st"
      using exec.star_inv [OF a(3)] exec_inv_init wf by blast
    then show thesis using that a by blast
  qed
qed

section \<open>A run with a failure\<close>

text \<open>
  The chain whose first step calls a Rust function while no registry is configured: the run
  that launches \<open>a\<close>, receives its failure and goes once more through the loop.
\<close>

definition failing_chain :: pipeline_graph where
  "failing_chain = chain (RustFn ''f'' None)"

definition no_env :: "string \<Rightarrow> string option" where
  "no_env v = None"

definition failure_a :: step_result where
  "failure_a = result_failure 0 (StepId ''a'') (pipeline_error_to_string RustFnRegistryMissing) [] 1 0"

definition failed_run_end :: exec_state where
  "failed_run_end = loop_top failing_chain (\<lambda>_. 0)
     (receive failure_a []
       ((loop_top failing_chain (\<lambda>_. 0) exec_init)\<lparr>ex_waiting := [], ex_channel := [failure_a]\<rparr>))"

lemma failing_chain_eval:
  "failing_chain = \<lparr>pg_steps = [(StepId ''a'', chain_step (RustFn ''f'' None) CHR ''a''),
       (StepId ''b'', chain_step Noop CHR ''b''), (StepId ''c'', chain_step Noop CHR ''c'')],
     pg_order = [StepId ''a'', StepId ''b'', StepId ''c''],
     pg_dependents = [(StepId ''a'', [StepId ''b'']), (StepId ''b'', [StepId ''c'']), (StepId ''c'', [])],
     pg_dependencies = [(StepId ''a'', []), (StepId ''b'', [StepId ''a'']), (StepId ''c'', [StepId ''b''])]\<rparr>"
  by (simp add: failing_chain_def chain_eval)

lemmas run_eval = loop_top_def mark_skippable_def skip_one_def skippable_steps_def ready_steps_def
  dep_satisfied_def dep_hard_failed_def status_of_def allows_failure_def dependencies_of_def
  get_step_def receive_def chain_step_def step_new_def step_config_default_def step_result_defs
  failure_a_def hash_eval Let_def

lemma failing_chain_top:
  "loop_top failing_chain (\<lambda>_. 0) exec_init = exec_init
     \<lparr>ex_statuses := [(StepId ''a'', Running)], ex_in_flight := 1,
      ex_waiting := [chain_step (RustFn ''f'' None) CHR ''a''], ex_pc := AtRecv\<rparr>"
  by (simp add: run_eval failing_chain_eval exec_init_def del: hm_get_insert)

lemma failed_run_end_eval:
  "ex_pc failed_run_end = AtEnd"
  "ex_statuses failed_run_end = [(StepId ''a'', Failed), (StepId ''b'', Skipped)]"
  "map fst (ex_results failed_run_end) = [StepId ''a'', StepId ''b'']"
  unfolding failed_run_end_def failing_chain_top
  by (simp_all add: run_eval failing_chain_eval exec_init_def del: hm_get_insert)

lemma failed_run_end_no_c: "hm_get (ex_results failed_run_end) (StepId ''c'') = None"
proof -
  have "StepId ''c'' \<notin> set (map fst (ex_results failed_run_end))"
    by (simp add: failed_run_end_eval(3))
  then show ?thesis by (simp add: hm_get_def map_of_eq_None_iff)
qed

lemma failing_task:
  assumes "rt_rust_fn_registry rt = None"
  shows "run_task rt (chain_step (RustFn ''f'' None) CHR ''a'')
     (\<lambda>_. \<lparr>ar_env = env, ar_elapsed = False, ar_elapsed_ms = 0, ar_now = 0\<rparr>) = Returns failure_a"
  using assms by (simp add: run_task_def max_attempts_def run_eval)

lemma failed_run:
  assumes "rt_rust_fn_registry rt = None" "0 < ec_max_parallelism cfg"
  shows "(exec_step failing_chain cfg rt)\<^sup>*\<^sup>* exec_init failed_run_end"
proof -
  let ?a = "chain_step (RustFn ''f'' None) CHR ''a''"
  let ?R = "exec_step failing_chain cfg rt"
  define s1 where "s1 = loop_top failing_chain (\<lambda>_. 0) exec_init"
  have w: "ex_waiting s1 = [] @ ?a # []" "ex_active s1 = []" "ex_sending s1 = []"
      "ex_channel s1 = []" "ex_pc s1 = AtRecv"
    unfolding s1_def failing_chain_top by (simp_all add: exec_init_def)
  define s2 where "s2 = s1\<lparr>ex_waiting := [] @ [], ex_active := ex_active s1 @ [?a]\<rparr>"
  define s3 where "s3 = s2\<lparr>ex_active := [] @ [], ex_sending := ex_sending s2 @ [failure_a]\<rparr>"
  define s4 where "s4 = s3\<lparr>ex_sending := [] @ [], ex_channel := ex_channel s3 @ [failure_a]\<rparr>"
  note sel = s2_def s3_def s4_def w
  have "?R\<^sup>*\<^sup>* exec_init s1"
    unfolding s1_def by (rule r_into_rtranclp, rule exec_step.top) (simp add: exec_init_def)
  moreover have "?R s1 s2"
    unfolding s2_def by (rule exec_step.acquire [OF w(1)]) (simp add: w assms(2))
  moreover have "?R s2 s3"
    unfolding s3_def
    by (rule exec_step.finish [OF _ failing_task [OF assms(1), of undefined]]) (simp add: sel)
  moreover have "?R s3 s4"
    unfolding s4_def by (rule exec_step.send) (simp_all add: sel done_cap_def)
  moreover have "?R s4 (receive failure_a [] s4)"
    by (rule exec_step.recv) (simp_all add: sel)
  moreover have "?R (receive failure_a [] s4) (loop_top failing_chain (\<lambda>_. 0) (receive failure_a [] s4))"
    by (rule exec_step.top) simp
  ultimately have "?R\<^sup>*\<^sup>* exec_init (loop_top failing_chain (\<lambda>_. 0) (receive failure_a [] s4))"
    by (meson rtranclp.rtrancl_into_rtrancl)
  moreover have "s4 = s1\<lparr>ex_waiting := [], ex_channel := [failure_a]\<rparr>"
    unfolding s4_def s3_def s2_def s1_def failing_chain_top by (simp add: exec_init_def)
  ultimately show ?thesis by (simp add: failed_run_end_def s1_def)
qed

section \<open>Properties of the executor\<close>

abbreviation default_runtime :: step_runtime where
  "default_runtime \<equiv> from_config no_env executor_config_default"

lemma default_runtime_registry: "rt_rust_fn_registry default_runtime = None"
  by (simp add: from_config_def executor_config_default_def)

lemma failed_run_default:
  "(exec_step failing_chain executor_config_default default_runtime)\<^sup>*\<^sup>* exec_init failed_run_end"
  by (rule failed_run) (simp_all add: default_runtime_registry, simp add: executor_config_default_def)

lemma failing_chain_dag: "dag failing_chain"
  by (simp add: failing_chain_def chain_dag)


lemma failing_chain_execute:
  "execute id no_env failing_chain executor_config_default (Inr (run_result 0 failed_run_end))
     (ex_events failed_run_end @ [summary failing_chain failed_run_end])"
proof -
  obtain topo where "topological_sort id failing_chain = Returns (Inr topo)"
    using topological_sort_result [of failing_chain id] failing_chain_dag hash_iter_id
    by (auto simp: dag_def)
  then show ?thesis
    by (rule execute.completed [rotated, OF _ failed_run_default failed_run_end_eval(1)])
      (simp add: graph_is_empty_def failing_chain_eval)
qed

text \<open>
  C1: in every reachable state of a run of a DAG, however the tasks interleave: a step that
  was launched has only dependencies that succeeded, or that may fail and are finished; no
  more than \<open>max_parallelism\<close> tasks hold a permit; \<open>in_flight\<close> counts exactly the spawned
  tasks whose result has not been received, one per running step; and the
  \<open>expect("ready step must exist")\<close> of the main loop does not fail.
\<close>

theorem exec_safety:
  assumes "dag g" "(exec_step g cfg rt)\<^sup>*\<^sup>* exec_init st"
  shows "(\<forall>i d. status_of (ex_statuses st) i \<notin> {Pending, Skipped} \<and> (d, i) \<in> edges g \<longrightarrow>
            status_of (ex_statuses st) d = Succeeded
            \<or> allows_failure g d \<and> is_terminal (status_of (ex_statuses st) d))
    \<and> length (ex_active st) \<le> ec_max_parallelism cfg
    \<and> distinct (owned st) \<and> ex_in_flight st = length (owned st)
    \<and> set (owned st) = {i. status_of (ex_statuses st) i = Running}
    \<and> ex_pc st \<noteq> MainPanicked"
proof -
  have wf: "graph_wf g" using assms(1) by (simp add: dag_def)
  have inv: "exec_inv g cfg st"
    using exec.star_inv [OF assms(2)] exec_inv_init wf by blast
  then have "statuses_ok g (ex_statuses st)" by (simp add: exec_inv_def)
  then have "\<forall>i d. status_of (ex_statuses st) i \<notin> {Pending, Skipped} \<and> (d, i) \<in> edges g \<longrightarrow>
      dep_satisfied g (ex_statuses st) d"
    using statuses_okD(2) by (metis edges_dependencies [OF wf])
  moreover have "tasks_ok g cfg st" "ex_pc st \<noteq> MainPanicked"
    using inv by (simp_all add: exec_inv_def pc_ok_def)
  ultimately show ?thesis by (simp add: dep_satisfied_iff tasks_ok_def)
qed

theorem exec_safety_witness:
  "status_of (ex_statuses failed_run_end) (StepId ''a'') = Failed \<and> owned failed_run_end = []"
  using exec_safety [OF failing_chain_dag failed_run_default] failed_run_end_eval
  by (auto simp: status_of_def hm_get_def split: if_splits)

text \<open>
  every run of the executor on a well-formed graph ends, whatever the scheduling: a
  graph of \<open>n\<close> steps allows at most \<open>6 n + 1\<close> steps of the main loop and the tasks together.
\<close>

theorem exec_terminates:
  assumes "graph_wf g" "(exec_step g cfg rt ^^ n) exec_init st"
  shows "n \<le> 6 * card (nodes g) + 1"
proof -
  have "n + exec_rank g st \<le> exec_rank g exec_init"
    using exec.steps_bounded [OF assms(2)] assms(1) exec_inv_init by blast
  moreover have "pending_set g (ex_statuses exec_init) = nodes g"
    by (simp add: pending_set_def exec_init_def)
  ultimately show ?thesis by (simp add: exec_rank_def exec_init_def)
qed

theorem exec_terminates_witness:
  "\<exists>n. (exec_step failing_chain executor_config_default default_runtime ^^ n) exec_init failed_run_end
       \<and> n \<le> 6 * card (nodes failing_chain) + 1"
proof -
  obtain n where n: "(exec_step failing_chain executor_config_default default_runtime ^^ n) exec_init failed_run_end"
    using failed_run_default by (meson rtranclp_imp_relpowp)
  from exec_terminates [OF _ n] failing_chain_dag n show ?thesis by (auto simp: dag_def)
qed



text \<open>
  C6: what \<open>execute\<close> returns for a DAG. Every recorded result belongs to its step and is
  final. A step that ran has a result. A step that did not run (no result, or a result
  \<open>Skipped\<close>) is to blame on a failure: one of the steps it transitively depends on failed or
  timed out and is not marked \<open>allow_failure\<close>.
\<close>

theorem execute_results:
  assumes "execute it envvars g cfg (Inr res) evs" "dag g" "i \<in> nodes g"
  shows "case hm_get (pr_results res) i of
      Some r \<Rightarrow> sr_step_id r = i \<and> is_terminal (sr_status r)
        \<and> (sr_status r = Skipped \<longrightarrow> (\<exists>d q. (d, i) \<in> (edges g)\<^sup>+ \<and> hm_get (pr_results res) d = Some q
              \<and> sr_status q \<in> {Failed, TimedOut} \<and> \<not> allows_failure g d))
    | None \<Rightarrow> (\<exists>d q. (d, i) \<in> (edges g)\<^sup>+ \<and> hm_get (pr_results res) d = Some q
              \<and> sr_status q \<in> {Failed, TimedOut} \<and> \<not> allows_failure g d)"
proof -
  have wf: "graph_wf g" and ac: "acyclic (edges g)" using assms(2) by (simp_all add: dag_def)
  obtain st elapsed where st: "exec_inv g cfg st" "ex_pc st = AtEnd" "res = run_result elapsed st"
    using execute_run [OF assms(1,2)] by blast
  note e = exec_end [OF st(1,2)]
  have blame: "\<exists>d q. (d, i) \<in> (edges g)\<^sup>+ \<and> hm_get (ex_results st) d = Some q
      \<and> sr_status q \<in> {Failed, TimedOut} \<and> \<not> allows_failure g d"
    if ps: "status_of (ex_statuses st) i \<in> {Pending, Skipped}"
  proof -
    obtain d where d: "(d, i) \<in> (edges g)\<^sup>+" "status_of (ex_statuses st) d \<in> {Failed, TimedOut}"
        "\<not> allows_failure g d"
      using final_blame [OF wf ac e(1) e(4) e(2) assms(3) ps] by blast
    then have "is_terminal (status_of (ex_statuses st) d)" by auto
    then obtain q where "hm_get (ex_results st) d = Some q" using result_at(2) [OF e(3)] by blast
    with d result_at(1) [OF e(3) this] show ?thesis by metis
  qed
  show ?thesis
  proof (cases "hm_get (ex_results st) i")
    case None
    then have "\<not> is_terminal (status_of (ex_statuses st) i)" using result_at(2) [OF e(3)] by fastforce
    then have "status_of (ex_statuses st) i = Pending" using e(4) by (simp add: is_terminal_iff)
    then show ?thesis using blame None by (simp add: st(3) run_result_def)
  next
    case (Some r)
    have "sr_step_id r = i" "status_of (ex_statuses st) i = sr_status r" "is_terminal (sr_status r)"
      using result_at(1) [OF e(3) Some] by metis+
    with Some blame show ?thesis by (simp add: st(3) run_result_def)
  qed
qed

theorem execute_results_witness:
  "\<exists>d q. (d, StepId ''c'') \<in> (edges failing_chain)\<^sup>+
      \<and> hm_get (pr_results (run_result 0 failed_run_end)) d = Some q
      \<and> sr_status q \<in> {Failed, TimedOut} \<and> \<not> allows_failure failing_chain d"
proof -
  show ?thesis
    using execute_results [OF failing_chain_execute failing_chain_dag, of "StepId ''c''"]
      failed_run_end_no_c
    by (simp add: nodes_def failing_chain_eval run_result_def)
qed

text \<open>
  \<open>success\<close> of a completed run of a DAG is true exactly when every step of the graph has
  the result \<open>Succeeded\<close>, and the final event carries the same flag and the number of steps.
\<close>

theorem execute_success_iff:
  assumes "execute it envvars g cfg (Inr res) evs" "dag g"
  shows "(pr_success res \<longleftrightarrow>
            (\<forall>i \<in> nodes g. \<exists>r. hm_get (pr_results res) i = Some r \<and> sr_status r = Succeeded))
    \<and> (\<exists>succeeded failed skipped.
          last evs = PipelineFinished (pr_success res) (graph_len g) succeeded failed skipped)"
proof -
  have wf: "graph_wf g" and ac: "acyclic (edges g)" using assms(2) by (simp_all add: dag_def)
  obtain st elapsed where st: "exec_inv g cfg st" "ex_pc st = AtEnd" "res = run_result elapsed st"
      "evs = ex_events st @ [summary g st]"
    using execute_run [OF assms(1,2)] by blast
  note e = exec_end [OF st(1,2)]
  let ?s = "status_of (ex_statuses st)"
  have succ: "pr_success res \<longleftrightarrow> (\<forall>i. ?s i \<notin> {Failed, TimedOut})"
    using count_status_zero [OF e(1), of "\<lambda>s. s = Failed \<or> s = TimedOut"]
    by (simp add: st(3) run_result_def)
  have got: "(\<exists>r. hm_get (pr_results res) i = Some r \<and> sr_status r = Succeeded) \<longleftrightarrow> ?s i = Succeeded" for i
    using result_at [OF e(3), of i] by (auto simp: st(3) run_result_def)
  have all: "?s i = Succeeded" if "i \<in> nodes g" "\<forall>i. ?s i \<notin> {Failed, TimedOut}" for i
    using final_blame [OF wf ac e(1) e(4) e(2) that(1)] that(2) e(4) [of i] by (cases "?s i") auto
  have bad: "i \<in> nodes g \<and> ?s i \<noteq> Succeeded" if "?s i \<in> {Failed, TimedOut}" for i
    using that statuses_okD(1) [OF e(1), of i] by (auto simp: status_of_def split: option.splits)
  have "pr_success res \<longleftrightarrow> (\<forall>i \<in> nodes g. ?s i = Succeeded)"
    unfolding succ
  proof (intro iffI ballI allI notI)
    show "?s i = Succeeded" if "\<forall>i. ?s i \<notin> {Failed, TimedOut}" "i \<in> nodes g" for i
      by (rule all [OF that(2,1)])
    show False if "\<forall>i \<in> nodes g. ?s i = Succeeded" "?s i \<in> {Failed, TimedOut}" for i
      using bad [OF that(2)] that(1) by blast
  qed
  moreover have "last evs = PipelineFinished (pr_success res) (graph_len g)
      (count_status (\<lambda>s. s = Succeeded) (ex_statuses st))
      (count_status (\<lambda>s. s = Failed \<or> s = TimedOut) (ex_statuses st))
      (count_status (\<lambda>s. s = Skipped) (ex_statuses st))"
    by (simp add: st(3,4) summary_def run_result_def Let_def)
  ultimately show ?thesis unfolding got by blast
qed

theorem execute_success_iff_witness: "\<not> pr_success (run_result 0 failed_run_end)"
proof -
  have "hm_get (ex_results failed_run_end) (StepId ''c'') = None"
    by (rule failed_run_end_no_c)
  moreover have "StepId ''c'' \<in> nodes failing_chain" by (simp add: nodes_def failing_chain_eval)
  ultimately show ?thesis
    using execute_success_iff [OF failing_chain_execute failing_chain_dag]
    by (auto simp: run_result_def)
qed

text \<open>
  skips do not cascade to the end. On the chain \<open>a, b, c\<close> whose first step fails the
  executor can return with \<open>b\<close> skipped and no result at all for \<open>c\<close>: step 1 of the loop marks
  the steps whose direct dependency has failed, and the loop ends because nothing is in
  flight before \<open>c\<close> is looked at again. The summary then counts one failed and one skipped
  step out of three.
\<close>

theorem cascading_skip_incomplete:
  "\<exists>res evs. execute id no_env failing_chain executor_config_default (Inr res) evs
     \<and> nodes failing_chain = {StepId ''a'', StepId ''b'', StepId ''c''}
     \<and> map fst (pr_results res) = [StepId ''a'', StepId ''b'']
     \<and> last evs = PipelineFinished False 3 0 1 1"
proof (intro exI conjI)
  show "execute id no_env failing_chain executor_config_default (Inr (run_result 0 failed_run_end))
     (ex_events failed_run_end @ [summary failing_chain failed_run_end])"
    by (rule failing_chain_execute)
  show "map fst (pr_results (run_result 0 failed_run_end)) = [StepId ''a'', StepId ''b'']"
    by (simp add: run_result_def failed_run_end_eval)
  show "last (ex_events failed_run_end @ [summary failing_chain failed_run_end])
      = PipelineFinished False 3 0 1 1"
    by (simp add: summary_def failed_run_end_eval count_status_def hm_values_def graph_len_def
        failing_chain_eval)
  show "nodes failing_chain = {StepId ''a'', StepId ''b'', StepId ''c''}"
    by (simp add: nodes_def failing_chain_eval)
qed

text \<open>
  what a task reports. It panics (the \<open>expect\<close> after the attempt loop) exactly when
  \<open>retries\<close> is \<open>u32::MAX\<close>, because \<open>retries + 1\<close> wraps to 0 at 32 bits. Otherwise its result
  has its own step id and a number \<open>k\<close> of attempts between 1 and \<open>retries + 1\<close>: attempts
  1 to \<open>k - 1\<close> failed without timing out, and attempt \<open>k\<close> decided: it succeeded with the
  reported output, or timed out (a timeout is never retried), or was the last one allowed and
  failed.
\<close>

theorem run_task_spec:
  "case run_task rt s world of
     Panics \<Rightarrow> sc_retries (st_config s) = - 1
   | Returns r \<Rightarrow> sc_retries (st_config s) \<noteq> - 1 \<and> sr_step_id r = st_id s
       \<and> (let k = unat (sr_attempts r); n = unat (sc_retries (st_config s)) + 1 in
            1 \<le> k \<and> k \<le> n \<and> (\<forall>a. 1 \<le> a \<and> a < k \<longrightarrow> attempt_failed rt s (world a))
            \<and> attempt_decides rt s (world k) (k = n) r)"
proof (cases "run_task rt s world")
  case Panics
  then have "sc_retries (st_config s) + 1 = 0" by (simp add: run_task_Panics max_attempts_def)
  then show ?thesis using Panics by (simp add: eq_neg_iff_add_eq_0)
next
  case (Returns r)
  then have "max_attempts s \<noteq> 0" using run_task_Panics [of rt s world] by auto
  then have ne: "sc_retries (st_config s) \<noteq> - 1" by (auto simp: max_attempts_def)
  then have "unat (max_attempts s) = unat (sc_retries (st_config s)) + 1"
    by (simp add: max_attempts_def unat_plus_one_no_wrap)
  with run_task_trace [OF Returns] ne Returns show ?thesis by (simp add: Let_def)
qed

theorem run_task_spec_witness:
  "unat (sr_attempts failure_a) = 1
   \<and> attempt_failed default_runtime (chain_step (RustFn ''f'' None) CHR ''a'')
       \<lparr>ar_env = undefined, ar_elapsed = False, ar_elapsed_ms = 0, ar_now = 0\<rparr>"
  using run_task_spec [where rt = default_runtime and s = "chain_step (RustFn ''f'' None) CHR ''a''" and world =
      "\<lambda>_. \<lparr>ar_env = undefined, ar_elapsed = False, ar_elapsed_ms = 0, ar_now = 0\<rparr>"]
  unfolding failing_task [OF default_runtime_registry]
  by (simp add: attempt_decides_def failure_a_def result_failure_def)

text \<open>
  a run in which a task has panicked never ends: the main loop keeps a sender of the
  channel itself, so \<open>recv\<close> waits for a result that nobody will send.
\<close>

theorem crashed_task_hangs:
  assumes "dag g" "(exec_step g cfg rt)\<^sup>*\<^sup>* exec_init st" "ex_crashed st \<noteq> []"
    "(exec_step g cfg rt)\<^sup>*\<^sup>* st st'"
  shows "ex_pc st' \<noteq> AtEnd"
proof -
  have wf: "graph_wf g" using assms(1) by (simp add: dag_def)
  have "exec_inv g cfg st'"
    using exec.star_inv [OF rtranclp_trans [OF assms(2,4)]] exec_inv_init wf by blast
  moreover have "ex_crashed st' \<noteq> []"
    using assms(4,3) by (rule crash_star.star_inv)
  ultimately show ?thesis
    by (auto simp: exec_inv_def pc_ok_def tasks_ok_def owned_def)
qed

definition endless_retries :: pipeline_graph where
  "endless_retries = fst (add_step graph_new (with_retries (- 1) 0 (chain_step Noop CHR ''a'')))"

theorem crashed_task_hangs_witness:
  "\<exists>st. (exec_step endless_retries executor_config_default default_runtime)\<^sup>*\<^sup>* exec_init st
     \<and> ex_crashed st \<noteq> [] \<and> ex_pc st \<noteq> AtEnd"
proof -
  let ?s = "with_retries (- 1) 0 (chain_step Noop CHR ''a'')"
  let ?R = "exec_step endless_retries executor_config_default default_runtime"
  let ?s1 = "exec_init\<lparr>ex_statuses := [(StepId ''a'', Running)], ex_in_flight := 1,
     ex_waiting := [] @ ?s # [], ex_pc := AtRecv\<rparr>"
  let ?s2 = "?s1\<lparr>ex_waiting := [] @ [], ex_active := ex_active ?s1 @ [?s]\<rparr>"
  let ?s3 = "?s2\<lparr>ex_active := [] @ [], ex_crashed := ex_crashed ?s2 @ [?s]\<rparr>"
  have top: "?s1 = loop_top endless_retries (\<lambda>_. 0) exec_init"
    by (simp add: run_eval endless_retries_def add_step_def graph_new_def with_retries_def
        exec_init_def del: hm_get_insert)
  have "?R exec_init ?s1" unfolding top by (rule exec_step.top) (simp add: exec_init_def)
  moreover have "?R ?s1 ?s2"
    by (rule exec_step.acquire [of _ "[]" _ "[]"]) (simp_all add: exec_init_def executor_config_default_def)
  moreover have "?R ?s2 ?s3"
    by (rule exec_step.crash [of _ "[]" _ "[]" _ undefined])
      (simp_all add: exec_init_def run_task_Panics max_attempts_def with_retries_def)
  ultimately have r: "?R\<^sup>*\<^sup>* exec_init ?s3" by (meson converse_rtranclp_into_rtranclp rtranclp.rtrancl_refl)
  have "dag endless_retries" by (simp add: endless_retries_def add_step_dag graph_new_dag)
  then have "ex_pc ?s3 \<noteq> AtEnd" using crashed_task_hangs [OF _ r] by simp
  then show ?thesis using r by (intro exI [of _ ?s3]) simp
qed

end
