(* ===== verification/Scheduler_Types.thy ===== *)
theory Scheduler_Types
  imports Complex_Main Fleet_Prelude
begin

text \<open>
  Priorities, resource requirements, node capacities and scheduled tasks: the data types of
  \<^verbatim>\<open>crates/ff-orchestrator/src/scheduler.rs\<close> and the bookkeeping of one node.

  Cores and memory are words of the width of the source; \<open>f64\<close> ratios and scores are exact
  rationals, so that what the model says of a score is what the code computes up to rounding.
  Each call of \<open>Utc::now()\<close> is an argument.
\<close>

section \<open>Priorities\<close>

datatype task_priority = Critical | High | Normal | Low | Background

primrec discriminant :: "task_priority \<Rightarrow> nat" where
  "discriminant Critical = 0"
| "discriminant High = 1"
| "discriminant Normal = 2"
| "discriminant Low = 3"
| "discriminant Background = 4"

text \<open>The derived \<open>Ord\<close> compares discriminants, so \<open>Critical\<close> is the least.\<close>

instantiation task_priority :: linorder
begin

definition less_eq_task_priority :: "task_priority \<Rightarrow> task_priority \<Rightarrow> bool" where
  "p \<le> q \<longleftrightarrow> discriminant p \<le> discriminant q"

definition less_task_priority :: "task_priority \<Rightarrow> task_priority \<Rightarrow> bool" where
  "p < q \<longleftrightarrow> discriminant p < discriminant q"

instance
proof
  fix p q :: task_priority
  show "p \<le> q \<Longrightarrow> q \<le> p \<Longrightarrow> p = q"
    by (cases p; cases q) (simp_all add: less_eq_task_priority_def)
qed (auto simp: less_eq_task_priority_def less_task_priority_def)

end

definition can_preempt :: "task_priority \<Rightarrow> task_priority \<Rightarrow> bool" where
  "can_preempt p q \<longleftrightarrow> p = Critical \<and> q = Background"

definition priority_all :: "task_priority list" where
  "priority_all = [Critical, High, Normal, Low, Background]"

primrec priority_to_string :: "task_priority \<Rightarrow> string" where
  "priority_to_string Critical = ''Critical''"
| "priority_to_string High = ''High''"
| "priority_to_string Normal = ''Normal''"
| "priority_to_string Low = ''Low''"
| "priority_to_string Background = ''Background''"

section \<open>Requirements and node capacities\<close>

record resource_requirements =
  rq_cpu_cores :: u32
  rq_memory_gib :: u64
  rq_gpu_required :: bool
  rq_estimated_duration :: nat

definition requirements_default :: resource_requirements where
  "requirements_default = \<lparr>rq_cpu_cores = 1, rq_memory_gib = 1, rq_gpu_required = False,
     rq_estimated_duration = 60 * 10 ^ 9\<rparr>"

text \<open>\<open>FORGEFLEET_DISPATCH_TICK_STALE_SECS\<close>, read as a positive \<open>i64\<close>, else 180.\<close>

definition parse_dispatch_tick_stale_secs :: "string option \<Rightarrow> int" where
  "parse_dispatch_tick_stale_secs raw =
     (case raw of
        None \<Rightarrow> 180
      | Some s \<Rightarrow> (case parse_i64 (trim_ws s) of
                     None \<Rightarrow> 180
                   | Some n \<Rightarrow> if 0 < n then n else 180))"

record running_task =
  rt_task_id :: uuid
  rt_priority :: task_priority
  rt_cpu_cores :: u32
  rt_memory_gib :: u64
  rt_started_at :: datetime

record node_capacity =
  nc_worker_name :: string
  nc_total_cpu_cores :: u32
  nc_available_cpu_cores :: u32
  nc_total_memory_gib :: u64
  nc_available_memory_gib :: u64
  nc_has_gpu :: bool
  nc_online :: bool
  nc_dispatch_tick_at :: "datetime option"
  nc_running_tasks :: "running_task list"

definition node_from_config :: "datetime \<Rightarrow> string \<Rightarrow> u32 \<Rightarrow> u64 \<Rightarrow> bool \<Rightarrow> node_capacity" where
  "node_from_config now name cpu mem gpu =
     \<lparr>nc_worker_name = name, nc_total_cpu_cores = cpu, nc_available_cpu_cores = cpu,
      nc_total_memory_gib = mem, nc_available_memory_gib = mem, nc_has_gpu = gpu,
      nc_online = True, nc_dispatch_tick_at = Some now, nc_running_tasks = []\<rparr>"

definition dispatch_tick_is_stale :: "int \<Rightarrow> datetime \<Rightarrow> node_capacity \<Rightarrow> bool" where
  "dispatch_tick_is_stale stale_secs now n =
     (case nc_dispatch_tick_at n of None \<Rightarrow> True | Some tick \<Rightarrow> tick < now - secs stale_secs)"

definition can_fit :: "int \<Rightarrow> datetime \<Rightarrow> node_capacity \<Rightarrow> resource_requirements \<Rightarrow> bool" where
  "can_fit stale_secs now n req =
     (if \<not> nc_online n then False
      else if dispatch_tick_is_stale stale_secs now n then False
      else if rq_gpu_required req \<and> \<not> nc_has_gpu n then False
      else rq_cpu_cores req \<le> nc_available_cpu_cores n \<and> rq_memory_gib req \<le> nc_available_memory_gib n)"

definition allocate ::
  "int \<Rightarrow> datetime \<Rightarrow> uuid \<Rightarrow> resource_requirements \<Rightarrow> task_priority \<Rightarrow> node_capacity \<Rightarrow> node_capacity \<times> bool" where
  "allocate stale_secs now task_id req priority n =
     (if \<not> can_fit stale_secs now n req then (n, False)
      else (n\<lparr>nc_available_cpu_cores := nc_available_cpu_cores n - rq_cpu_cores req,
              nc_available_memory_gib := nc_available_memory_gib n - rq_memory_gib req,
              nc_running_tasks := nc_running_tasks n @
                [\<lparr>rt_task_id = task_id, rt_priority = priority, rt_cpu_cores = rq_cpu_cores req,
                  rt_memory_gib = rq_memory_gib req, rt_started_at = now\<rparr>]\<rparr>, True))"

text \<open>\<open>position\<close> followed by \<open>remove(pos)\<close>: the first element that satisfies \<open>p\<close>, and the rest.\<close>

fun take_first :: "('a \<Rightarrow> bool) \<Rightarrow> 'a list \<Rightarrow> ('a \<times> 'a list) option" where
  "take_first p [] = None"
| "take_first p (x # xs) =
     (if p x then Some (x, xs) else map_option (\<lambda>(y, ys). (y, x # ys)) (take_first p xs))"

definition release_node :: "uuid \<Rightarrow> node_capacity \<Rightarrow> node_capacity \<times> running_task option" where
  "release_node task_id n =
     (case take_first (\<lambda>t. rt_task_id t = task_id) (nc_running_tasks n) of
        None \<Rightarrow> (n, None)
      | Some (t, rest) \<Rightarrow>
          (n\<lparr>nc_running_tasks := rest,
             nc_available_cpu_cores := nc_available_cpu_cores n + rt_cpu_cores t,
             nc_available_memory_gib := nc_available_memory_gib n + rt_memory_gib t\<rparr>, Some t))"

definition free_ratio :: "node_capacity \<Rightarrow> rat" where
  "free_ratio n =
     (if nc_total_cpu_cores n = 0 \<and> nc_total_memory_gib n = 0 then 0
      else (let cpu_ratio = (if 0 < nc_total_cpu_cores n
                   then of_nat (unat (nc_available_cpu_cores n)) / of_nat (unat (nc_total_cpu_cores n)) else 1);
                mem_ratio = (if 0 < nc_total_memory_gib n
                   then of_nat (unat (nc_available_memory_gib n)) / of_nat (unat (nc_total_memory_gib n)) else 1)
            in (cpu_ratio + mem_ratio) / 2))"

text \<open>\<open>max_by_key\<close> returns the last of several maximal elements.\<close>

fun last_max_by :: "('a \<Rightarrow> 'k::linorder) \<Rightarrow> 'a list \<Rightarrow> 'a option" where
  "last_max_by f [] = None"
| "last_max_by f (x # xs) =
     (case last_max_by f xs of None \<Rightarrow> Some x | Some y \<Rightarrow> if f x \<le> f y then Some y else Some x)"

definition lowest_priority_task :: "node_capacity \<Rightarrow> running_task option" where
  "lowest_priority_task n = last_max_by rt_priority (nc_running_tasks n)"

section \<open>Scheduled tasks and decisions\<close>

datatype schedule_decision =
    Assign string rat
  | Queue string
  | Preempt string uuid rat

fun is_assigned :: "schedule_decision \<Rightarrow> bool" where
  "is_assigned (Assign w s) = True"
| "is_assigned (Preempt w t s) = True"
| "is_assigned (Queue r) = False"

fun target_node :: "schedule_decision \<Rightarrow> string option" where
  "target_node (Assign w s) = Some w"
| "target_node (Preempt w t s) = Some w"
| "target_node (Queue r) = None"

record scheduled_task =
  sk_id :: uuid
  sk_description :: string
  sk_project :: "string option"
  sk_requirements :: resource_requirements
  sk_priority :: task_priority
  sk_submitted_at :: datetime
  sk_preferred_nodes :: "string list"
  sk_workload_type :: "string option"

definition task_new :: "uuid \<Rightarrow> datetime \<Rightarrow> string \<Rightarrow> scheduled_task" where
  "task_new i now desc = \<lparr>sk_id = i, sk_description = desc, sk_project = None,
     sk_requirements = requirements_default, sk_priority = Normal, sk_submitted_at = now,
     sk_preferred_nodes = [], sk_workload_type = None\<rparr>"

definition task_with_priority :: "task_priority \<Rightarrow> scheduled_task \<Rightarrow> scheduled_task" where
  "task_with_priority p t = t\<lparr>sk_priority := p\<rparr>"

definition task_with_project :: "string \<Rightarrow> scheduled_task \<Rightarrow> scheduled_task" where
  "task_with_project p t = t\<lparr>sk_project := Some p\<rparr>"

definition task_with_requirements :: "resource_requirements \<Rightarrow> scheduled_task \<Rightarrow> scheduled_task" where
  "task_with_requirements r t = t\<lparr>sk_requirements := r\<rparr>"

definition task_with_workload_type :: "string \<Rightarrow> scheduled_task \<Rightarrow> scheduled_task" where
  "task_with_workload_type w t = t\<lparr>sk_workload_type := Some w\<rparr>"

section \<open>Conservation of resources on one node\<close>

lemma take_first_mset: "take_first p xs = Some (x, ys) \<Longrightarrow> mset xs = add_mset x (mset ys) \<and> p x"
  by (induction xs arbitrary: x ys) (auto split: if_splits)

lemma take_first_None: "take_first p xs = None \<longleftrightarrow> (\<forall>x \<in> set xs. \<not> p x)"
  by (induction xs) auto

lemma take_first_split:
  "take_first p xs = Some (x, ys) \<Longrightarrow>
     \<exists>as bs. xs = as @ x # bs \<and> ys = as @ bs \<and> p x \<and> (\<forall>a \<in> set as. \<not> p a)"
proof (induction xs arbitrary: ys)
  case (Cons z zs)
  show ?case
  proof (cases "p z")
    case True
    then show ?thesis using Cons.prems by (intro exI [of _ "[]"] exI [of _ ys]) auto
  next
    case False
    then obtain ws where ws: "ys = z # ws" "take_first p zs = Some (x, ws)"
      using Cons.prems by auto
    obtain as bs where "zs = as @ x # bs" "ws = as @ bs" "p x" "\<forall>a \<in> set as. \<not> p a"
      using Cons.IH [OF ws(2)] by blast
    then show ?thesis using ws(1) False by (intro exI [of _ "z # as"] exI [of _ bs]) auto
  qed
qed simp

definition node_ok :: "node_capacity \<Rightarrow> bool" where
  "node_ok n \<longleftrightarrow>
     unat (nc_available_cpu_cores n) + (\<Sum>t \<leftarrow> nc_running_tasks n. unat (rt_cpu_cores t))
       = unat (nc_total_cpu_cores n)
     \<and> unat (nc_available_memory_gib n) + (\<Sum>t \<leftarrow> nc_running_tasks n. unat (rt_memory_gib t))
       = unat (nc_total_memory_gib n)"

lemma node_from_config_ok: "node_ok (node_from_config now name cpu mem gpu)"
  by (simp add: node_ok_def node_from_config_def)

lemma unat_add_no_overflow:
  "unat (a :: ('n::len) word) + unat b \<le> unat (c :: 'n word) \<Longrightarrow> unat (a + b) = unat a + unat b"
proof -
  assume "unat a + unat b \<le> unat c"
  also have "unat c < 2 ^ LENGTH('n)" by (rule unsigned_less)
  finally show ?thesis by (simp add: unat_word_ariths)
qed

lemma sum_list_take_first:
  "take_first p xs = Some (x, ys) \<Longrightarrow> (\<Sum>t \<leftarrow> xs. f t) = (f x :: nat) + (\<Sum>t \<leftarrow> ys. f t)"
  by (induction xs arbitrary: x ys) (auto split: if_splits)

lemma allocate_ok: "node_ok n \<Longrightarrow> node_ok (fst (allocate stale now i req p n))"
  by (auto simp: allocate_def node_ok_def can_fit_def word_le_nat_alt unat_sub split: if_splits)

lemma release_ok: "node_ok n \<Longrightarrow> node_ok (fst (release_node i n))"
proof -
  assume ok: "node_ok n"
  show ?thesis
  proof (cases "take_first (\<lambda>t. rt_task_id t = i) (nc_running_tasks n)")
    case None
    then show ?thesis using ok by (simp add: release_node_def)
  next
    case (Some tr)
    obtain t rest where tr: "tr = (t, rest)" by (cases tr)
    note sums = sum_list_take_first [OF Some [unfolded tr], of "\<lambda>t. unat (rt_cpu_cores t)"]
      sum_list_take_first [OF Some [unfolded tr], of "\<lambda>t. unat (rt_memory_gib t)"]
    have cpu: "unat (nc_available_cpu_cores n + rt_cpu_cores t) = unat (nc_available_cpu_cores n) + unat (rt_cpu_cores t)"
      and mem: "unat (nc_available_memory_gib n + rt_memory_gib t) = unat (nc_available_memory_gib n) + unat (rt_memory_gib t)"
      using ok sums unat_add_no_overflow [of "nc_available_cpu_cores n" "rt_cpu_cores t" "nc_total_cpu_cores n"]
        unat_add_no_overflow [of "nc_available_memory_gib n" "rt_memory_gib t" "nc_total_memory_gib n"]
      by (simp_all add: node_ok_def)
    show ?thesis using ok sums cpu mem by (simp add: node_ok_def release_node_def Some tr)
  qed
qed

end
