(* ===== verification/Placement.thy ===== *)
theory Placement
  imports Scheduler_Types
begin

text \<open>
  The placement engine: \<^verbatim>\<open>crates/ff-orchestrator/src/placement.rs\<close>. Scores are rationals.
\<close>

datatype placement_policy = BinPack | Spread | Affinity

record anti_affinity_rule =
  aa_project :: string
  aa_occupied_nodes :: "string hset"

definition rule_new :: "string \<Rightarrow> anti_affinity_rule" where
  "rule_new project = \<lparr>aa_project = project, aa_occupied_nodes = []\<rparr>"

definition mark_node :: "string \<Rightarrow> anti_affinity_rule \<Rightarrow> anti_affinity_rule" where
  "mark_node w r = r\<lparr>aa_occupied_nodes := hs_insert w (aa_occupied_nodes r)\<rparr>"

definition is_occupied :: "string \<Rightarrow> anti_affinity_rule \<Rightarrow> bool" where
  "is_occupied w r \<longleftrightarrow> w \<in> set (aa_occupied_nodes r)"

definition ascii_lower :: "char \<Rightarrow> char" where
  "ascii_lower c = (if of_char c \<in> {65..90::nat} then char_of (of_char c + 32 :: nat) else c)"

definition eq_ignore_ascii_case :: "string \<Rightarrow> string \<Rightarrow> bool" where
  "eq_ignore_ascii_case a b \<longleftrightarrow> map ascii_lower a = map ascii_lower b"

record node_workload_preference =
  wp_worker_name :: string
  wp_preferred_workloads :: "string list"

definition prefers :: "string \<Rightarrow> node_workload_preference \<Rightarrow> bool" where
  "prefers wt p \<longleftrightarrow> list_ex (\<lambda>w. eq_ignore_ascii_case w wt) (wp_preferred_workloads p)"

record placement_engine =
  pe_policy :: placement_policy
  pe_anti_affinity :: "anti_affinity_rule list"
  pe_node_preferences :: "node_workload_preference list"

definition engine_new :: "placement_policy \<Rightarrow> placement_engine" where
  "engine_new p = \<lparr>pe_policy = p, pe_anti_affinity = [], pe_node_preferences = []\<rparr>"

definition set_policy :: "placement_policy \<Rightarrow> placement_engine \<Rightarrow> placement_engine" where
  "set_policy p e = e\<lparr>pe_policy := p\<rparr>"

definition add_anti_affinity :: "anti_affinity_rule \<Rightarrow> placement_engine \<Rightarrow> placement_engine" where
  "add_anti_affinity r e = e\<lparr>pe_anti_affinity := pe_anti_affinity e @ [r]\<rparr>"

text \<open>\<open>iter_mut().find(p)\<close> with an update of the element found.\<close>

fun modify_first :: "('a \<Rightarrow> bool) \<Rightarrow> ('a \<Rightarrow> 'a) \<Rightarrow> 'a list \<Rightarrow> 'a list" where
  "modify_first p f [] = []"
| "modify_first p f (x # xs) = (if p x then f x # xs else x # modify_first p f xs)"

definition mark_project_on_node :: "string \<Rightarrow> string \<Rightarrow> placement_engine \<Rightarrow> placement_engine" where
  "mark_project_on_node project w e =
     (if list_ex (\<lambda>r. aa_project r = project) (pe_anti_affinity e)
      then e\<lparr>pe_anti_affinity := modify_first (\<lambda>r. aa_project r = project) (mark_node w) (pe_anti_affinity e)\<rparr>
      else e\<lparr>pe_anti_affinity := pe_anti_affinity e @ [mark_node w (rule_new project)]\<rparr>)"

definition clear_project_on_node :: "string \<Rightarrow> string \<Rightarrow> placement_engine \<Rightarrow> placement_engine" where
  "clear_project_on_node project w e =
     e\<lparr>pe_anti_affinity := modify_first (\<lambda>r. aa_project r = project)
         (\<lambda>r. r\<lparr>aa_occupied_nodes := hs_remove w (aa_occupied_nodes r)\<rparr>) (pe_anti_affinity e)\<rparr>"

definition set_node_preferences :: "node_workload_preference list \<Rightarrow> placement_engine \<Rightarrow> placement_engine" where
  "set_node_preferences ps e = e\<lparr>pe_node_preferences := ps\<rparr>"

definition add_node_preference :: "node_workload_preference \<Rightarrow> placement_engine \<Rightarrow> placement_engine" where
  "add_node_preference p e = e\<lparr>pe_node_preferences := pe_node_preferences e @ [p]\<rparr>"

definition is_project_on_node :: "placement_engine \<Rightarrow> string \<Rightarrow> string \<Rightarrow> bool" where
  "is_project_on_node e project w \<longleftrightarrow>
     list_ex (\<lambda>r. aa_project r = project \<and> is_occupied w r) (pe_anti_affinity e)"

definition score_bin_pack :: "node_capacity \<Rightarrow> rat" where
  "score_bin_pack n = 1 - free_ratio n"

definition score_spread :: "node_capacity \<Rightarrow> rat" where
  "score_spread n = free_ratio n"

definition score_affinity :: "placement_engine \<Rightarrow> scheduled_task \<Rightarrow> node_capacity \<Rightarrow> rat" where
  "score_affinity e task n =
     (let spread_score = score_spread n in
      case sk_workload_type task of
        None \<Rightarrow> spread_score
      | Some wt \<Rightarrow>
          (case find (\<lambda>p. wp_worker_name p = nc_worker_name n) (pe_node_preferences e) of
             None \<Rightarrow> spread_score
           | Some pref \<Rightarrow> if prefers wt pref then spread_score * (3 / 2) else spread_score))"

definition score_node :: "placement_engine \<Rightarrow> int \<Rightarrow> datetime \<Rightarrow> scheduled_task \<Rightarrow> node_capacity \<Rightarrow> rat" where
  "score_node e stale_secs now task n =
     (if \<not> nc_online n \<or> \<not> can_fit stale_secs now n (sk_requirements task) then 0
      else (let base_score = (case pe_policy e of
                    BinPack \<Rightarrow> score_bin_pack n
                  | Spread \<Rightarrow> score_spread n
                  | Affinity \<Rightarrow> score_affinity e task n);
                anti_affinity_factor = (case sk_project task of
                    Some project \<Rightarrow> if is_project_on_node e project (nc_worker_name n) then 1 / 2 else 1
                  | None \<Rightarrow> 1);
                preferred_bonus = (if nc_worker_name n \<in> set (sk_preferred_nodes task) then 6 / 5 else 1)
            in base_score * anti_affinity_factor * preferred_bonus))"

section \<open>Facts about the engine\<close>

lemma list_ex_modify_first:
  assumes "list_ex p xs" "\<And>x. p x \<Longrightarrow> p (f x) \<and> q (f x)"
  shows "list_ex (\<lambda>x. p x \<and> q x) (modify_first p f xs)"
  using assms by (induction xs) auto

lemma mark_project_occupies: "is_project_on_node (mark_project_on_node project w e) project w"
proof -
  have "list_ex (\<lambda>r. aa_project r = project \<and> is_occupied w r)
      (modify_first (\<lambda>r. aa_project r = project) (mark_node w) (pe_anti_affinity e))"
    if "list_ex (\<lambda>r. aa_project r = project) (pe_anti_affinity e)"
    by (rule list_ex_modify_first [OF that]) (simp add: mark_node_def is_occupied_def)
  then show ?thesis
    by (simp add: is_project_on_node_def mark_project_on_node_def mark_node_def rule_new_def is_occupied_def)
qed

lemma ratio_bounds: "a \<le> b \<Longrightarrow> 0 \<le> (of_nat a / of_nat b :: rat)" "a \<le> b \<Longrightarrow> of_nat a / of_nat b \<le> (1::rat)"
  by (auto simp: divide_le_eq_1)

lemma free_ratio_bounds:
  assumes "node_ok n"
  shows "0 \<le> free_ratio n" "free_ratio n \<le> 1"
proof -
  have cpu: "unat (nc_available_cpu_cores n) \<le> unat (nc_total_cpu_cores n)"
    and mem: "unat (nc_available_memory_gib n) \<le> unat (nc_total_memory_gib n)"
    using assms by (simp_all add: node_ok_def)
  let ?c = "(of_nat (unat (nc_available_cpu_cores n)) / of_nat (unat (nc_total_cpu_cores n))) :: rat"
  let ?m = "(of_nat (unat (nc_available_memory_gib n)) / of_nat (unat (nc_total_memory_gib n))) :: rat"
  have "0 \<le> ?c" "?c \<le> 1" "0 \<le> ?m" "?m \<le> 1"
    by (rule ratio_bounds [OF cpu] ratio_bounds [OF mem])+
  then show "0 \<le> free_ratio n" "free_ratio n \<le> 1"
    by (auto simp: free_ratio_def Let_def)
qed

lemma scale_bounds:
  fixes x f b c :: rat
  assumes "0 \<le> x" "x \<le> b" "0 \<le> f" "f \<le> c"
  shows "0 \<le> x * f" "x * f \<le> b * c"
  using assms by (auto intro: mult_mono order_trans)

lemma score_node_bounds:
  assumes ok: "node_ok n"
  shows "0 \<le> score_node e stale now task n" "score_node e stale now task n \<le> 9 / 5"
proof -
  note fr = free_ratio_bounds [OF ok]
  define base where "base = (case pe_policy e of BinPack \<Rightarrow> score_bin_pack n
    | Spread \<Rightarrow> score_spread n | Affinity \<Rightarrow> score_affinity e task n)"
  define anti :: rat where "anti = (case sk_project task of
      Some project \<Rightarrow> if is_project_on_node e project (nc_worker_name n) then 1 / 2 else 1 | None \<Rightarrow> 1)"
  define bonus :: rat where "bonus = (if nc_worker_name n \<in> set (sk_preferred_nodes task) then 6 / 5 else 1)"
  have base: "0 \<le> base" "base \<le> 3 / 2"
    using fr by (auto simp: base_def score_bin_pack_def score_spread_def score_affinity_def Let_def
        split: placement_policy.splits option.splits)
  have anti: "0 \<le> anti" "anti \<le> 1" by (auto simp: anti_def split: option.splits)
  have bonus: "0 \<le> bonus" "bonus \<le> 6 / 5" by (auto simp: bonus_def)
  have eq: "score_node e stale now task n =
      (if \<not> nc_online n \<or> \<not> can_fit stale now n (sk_requirements task) then 0 else base * anti * bonus)"
    unfolding score_node_def base_def anti_def bonus_def Let_def ..
  note bounds = scale_bounds [OF scale_bounds [OF base anti] bonus]
  then show "0 \<le> score_node e stale now task n" "score_node e stale now task n \<le> 9 / 5"
    by (simp_all add: eq)
qed

end
