(* ===== verification/Scheduler.thy ===== *)
theory Scheduler
  imports Placement
begin

text \<open>
  The cluster scheduler: \<open>Scheduler\<close> of \<^verbatim>\<open>crates/ff-orchestrator/src/scheduler.rs\<close>.

  \<open>it\<close> is the iteration order of the node map. Every read of the clock inside one call is
  named by \<open>clock_read\<close>, so that what depends on two reads agreeing is visible.
\<close>

section \<open>State and operations\<close>

record scheduler =
  sd_nodes :: "(string, node_capacity) hmap"
  sd_placement :: placement_engine
  sd_round_robin_index :: "(task_priority, u64) hmap"

definition scheduler_new :: "placement_policy \<Rightarrow> scheduler" where
  "scheduler_new policy = \<lparr>sd_nodes = [], sd_placement = engine_new policy, sd_round_robin_index = []\<rparr>"

definition add_node :: "node_capacity \<Rightarrow> scheduler \<Rightarrow> scheduler" where
  "add_node cap sd = sd\<lparr>sd_nodes := hm_insert (nc_worker_name cap) cap (sd_nodes sd)\<rparr>"

definition remove_node :: "string \<Rightarrow> scheduler \<Rightarrow> scheduler \<times> node_capacity option" where
  "remove_node w sd = (sd\<lparr>sd_nodes := hm_remove w (sd_nodes sd)\<rparr>, hm_get (sd_nodes sd) w)"

definition get_node :: "string \<Rightarrow> scheduler \<Rightarrow> node_capacity option" where
  "get_node w sd = hm_get (sd_nodes sd) w"

definition set_node_online :: "string \<Rightarrow> bool \<Rightarrow> scheduler \<Rightarrow> scheduler" where
  "set_node_online w online sd =
     sd\<lparr>sd_nodes := hm_modify w (\<lambda>n. n\<lparr>nc_online := online\<rparr>) (sd_nodes sd)\<rparr>"

definition update_dispatch_tick :: "string \<Rightarrow> datetime option \<Rightarrow> scheduler \<Rightarrow> scheduler" where
  "update_dispatch_tick w tick sd =
     sd\<lparr>sd_nodes := hm_modify w (\<lambda>n. n\<lparr>nc_dispatch_tick_at := tick\<rparr>) (sd_nodes sd)\<rparr>"

definition release_task :: "string \<Rightarrow> uuid \<Rightarrow> scheduler \<Rightarrow> scheduler \<times> running_task option" where
  "release_task w task_id sd =
     (case hm_get (sd_nodes sd) w of
        None \<Rightarrow> (sd, None)
      | Some n \<Rightarrow> (sd\<lparr>sd_nodes := hm_insert w (fst (release_node task_id n)) (sd_nodes sd)\<rparr>,
                   snd (release_node task_id n)))"

definition node_count :: "scheduler \<Rightarrow> nat" where
  "node_count sd = length (sd_nodes sd)"

definition node_names :: "scheduler \<Rightarrow> string list" where
  "node_names sd = hm_keys (sd_nodes sd)"

datatype clock_read =
    FitRead string | ScoreRead string | AllocRead
  | EvictRead string | EvictScoreRead string uuid | EvictAllocRead

type_synonym candidate = "string \<times> rat"

definition apply_fairness_tiebreak ::
  "candidate list \<Rightarrow> scheduled_task \<Rightarrow> scheduler \<Rightarrow> scheduler \<times> candidate list" where
  "apply_fairness_tiebreak cands task sd =
     (if cands = [] then (sd, cands)
      else (let top_score = snd (hd cands);
                threshold = top_score * (95 / 100);
                tied_count = length (filter (\<lambda>c. snd c \<ge> threshold) cands)
            in if tied_count \<le> 1 then (sd, cands)
               else (let idx = (case hm_get (sd_round_robin_index sd) (sk_priority task) of
                                  None \<Rightarrow> 0 | Some i \<Rightarrow> i);
                         pick = unat idx mod tied_count;
                         sd' = sd\<lparr>sd_round_robin_index :=
                                    hm_insert (sk_priority task) (idx + 1) (sd_round_robin_index sd)\<rparr>
                     in if 0 < pick \<and> pick < length cands
                        then (sd', cands[0 := cands ! pick, pick := cands ! 0])
                        else (sd', cands))))"

definition fitting_candidates ::
  "((string \<times> node_capacity) list \<Rightarrow> (string \<times> node_capacity) list) \<Rightarrow> int \<Rightarrow> (clock_read \<Rightarrow> datetime)
   \<Rightarrow> string hset \<Rightarrow> scheduled_task \<Rightarrow> scheduler \<Rightarrow> candidate list" where
  "fitting_candidates it stale clk excluded task sd =
     map (\<lambda>(name, cap). (name, score_node (sd_placement sd) stale (clk (ScoreRead name)) task cap))
       (filter (\<lambda>(name, cap). name \<notin> set excluded
                  \<and> can_fit stale (clk (FitRead name)) cap (sk_requirements task))
          (it (sd_nodes sd)))"

text \<open>\<open>sort_by\<close> on the score, descending; Rust's sort is stable.\<close>

definition by_score :: "('a \<Rightarrow> rat) \<Rightarrow> 'a list \<Rightarrow> 'a list" where
  "by_score f xs = sort_key (\<lambda>x. - f x) xs"

definition preempt_candidates ::
  "((string \<times> node_capacity) list \<Rightarrow> (string \<times> node_capacity) list) \<Rightarrow> int \<Rightarrow> (clock_read \<Rightarrow> datetime)
   \<Rightarrow> string hset \<Rightarrow> scheduled_task \<Rightarrow> scheduler \<Rightarrow> (string \<times> uuid \<times> rat) list" where
  "preempt_candidates it stale clk excluded task sd =
     (let req = sk_requirements task in
      concat (map (\<lambda>(name, cap).
        if name \<in> set excluded \<or> \<not> nc_online cap \<or> dispatch_tick_is_stale stale (clk (EvictRead name)) cap
        then []
        else if rq_gpu_required req \<and> \<not> nc_has_gpu cap then []
        else map (\<lambda>r. (name, rt_task_id r,
                   score_node (sd_placement sd) stale (clk (EvictScoreRead name (rt_task_id r))) task cap))
               (filter (\<lambda>r. can_preempt (sk_priority task) (rt_priority r)
                   \<and> rq_cpu_cores req \<le> nc_available_cpu_cores cap + rt_cpu_cores r
                   \<and> rq_memory_gib req \<le> nc_available_memory_gib cap + rt_memory_gib r)
                  (nc_running_tasks cap)))
        (it (sd_nodes sd))))"

definition try_preemption ::
  "((string \<times> node_capacity) list \<Rightarrow> (string \<times> node_capacity) list) \<Rightarrow> int \<Rightarrow> (clock_read \<Rightarrow> datetime)
   \<Rightarrow> string hset \<Rightarrow> scheduled_task \<Rightarrow> scheduler \<Rightarrow> scheduler \<times> schedule_decision option" where
  "try_preemption it stale clk excluded task sd =
     (case by_score (\<lambda>c. snd (snd c)) (preempt_candidates it stale clk excluded task sd) of
        [] \<Rightarrow> (sd, None)
      | (w, evict, score) # _ \<Rightarrow>
          (sd\<lparr>sd_nodes := hm_modify w
                (\<lambda>cap. fst (allocate stale (clk EvictAllocRead) (sk_id task) (sk_requirements task)
                         (sk_priority task) (fst (release_node evict cap))))
                (sd_nodes sd)\<rparr>,
           Some (Preempt w evict score)))"

definition queue_reason :: "scheduled_task \<Rightarrow> scheduler \<Rightarrow> string" where
  "queue_reason task sd =
     (let req = sk_requirements task;
          online_count = length (filter nc_online (hm_values (sd_nodes sd)))
      in if online_count = 0 then ''no nodes online''
         else ''insufficient resources on '' @ show_nat online_count @ '' online node(s) ''
              @ [CHR 0xE2, CHR 0x80, CHR 0x94] @ '' need '' @ show_nat (unat (rq_cpu_cores req)) @ ''cpu/''
              @ show_nat (unat (rq_memory_gib req)) @ ''GiB''
              @ (if rq_gpu_required req then '' +GPU'' else ''''))"

definition schedule_task_excluding ::
  "((string \<times> node_capacity) list \<Rightarrow> (string \<times> node_capacity) list) \<Rightarrow> int \<Rightarrow> (clock_read \<Rightarrow> datetime)
   \<Rightarrow> scheduled_task \<Rightarrow> string hset \<Rightarrow> scheduler \<Rightarrow> scheduler \<times> schedule_decision" where
  "schedule_task_excluding it stale clk task excluded sd =
     (let cands = by_score snd (fitting_candidates it stale clk excluded task sd);
          (sd1, cands1) = (if 1 < length cands then apply_fairness_tiebreak cands task sd else (sd, cands))
      in case cands1 of
           (w, score) # _ \<Rightarrow>
             (sd1\<lparr>sd_nodes := hm_modify w
                    (\<lambda>cap. fst (allocate stale (clk AllocRead) (sk_id task) (sk_requirements task)
                             (sk_priority task) cap)) (sd_nodes sd1)\<rparr>,
              Assign w score)
         | [] \<Rightarrow>
             (case (if sk_priority task = Critical then try_preemption it stale clk excluded task sd1
                    else (sd1, None)) of
                (sd2, Some decision) \<Rightarrow> (sd2, decision)
              | (sd2, None) \<Rightarrow> (sd2, Queue (queue_reason task sd2))))"

definition schedule_task ::
  "((string \<times> node_capacity) list \<Rightarrow> (string \<times> node_capacity) list) \<Rightarrow> int \<Rightarrow> (clock_read \<Rightarrow> datetime)
   \<Rightarrow> scheduled_task \<Rightarrow> scheduler \<Rightarrow> scheduler \<times> schedule_decision" where
  "schedule_task it stale clk task sd = schedule_task_excluding it stale clk task [] sd"

section \<open>Fairness\<close>

lemma set_by_score [simp]: "set (by_score f xs) = set xs"
  by (simp add: by_score_def)

lemma length_by_score [simp]: "length (by_score f xs) = length xs"
  by (simp add: by_score_def)

lemma by_score_Nil [simp]: "by_score f xs = [] \<longleftrightarrow> xs = []"
  by (metis length_0_conv length_by_score)

lemma by_score_empty [simp]: "by_score f [] = []"
  by (simp add: by_score_def)

lemma by_score_sorted: "i \<le> j \<Longrightarrow> j < length xs \<Longrightarrow> f (by_score f xs ! j) \<le> f (by_score f xs ! i)"
proof -
  assume ij: "i \<le> j" "j < length xs"
  have "sorted (map (\<lambda>x. - f x) (by_score f xs))" by (simp add: by_score_def)
  then have "map (\<lambda>x. - f x) (by_score f xs) ! i \<le> map (\<lambda>x. - f x) (by_score f xs) ! j"
    using ij by (intro sorted_nth_mono) simp_all
  with ij show ?thesis by simp
qed

text \<open>
  In a list sorted by descending score, the candidates at or above a threshold form a prefix.
\<close>

lemma tied_prefix:
  assumes sorted: "\<And>i j. i \<le> j \<Longrightarrow> j < length xs \<Longrightarrow> f (xs ! j) \<le> (f (xs ! i) :: rat)"
    and k: "k < length (filter (\<lambda>x. t \<le> f x) xs)"
  shows "t \<le> f (xs ! k)"
proof (rule ccontr)
  assume neg: "\<not> t \<le> f (xs ! k)"
  have len: "k < length xs" using k by (meson length_filter_le less_le_trans)
  have "{i. i < length xs \<and> t \<le> f (xs ! i)} \<subseteq> {..<k}"
  proof
    fix i assume i: "i \<in> {i. i < length xs \<and> t \<le> f (xs ! i)}"
    show "i \<in> {..<k}"
    proof (rule ccontr)
      assume "i \<notin> {..<k}"
      then have "f (xs ! i) \<le> f (xs ! k)" using sorted [of k i] i by simp
      then show False using neg i by simp
    qed
  qed
  then have "card {i. i < length xs \<and> t \<le> f (xs ! i)} \<le> k"
    by (metis card_lessThan card_mono finite_lessThan)
  then show False using k by (simp add: length_filter_conv_card)
qed

lemma tiebreak_frame:
  "apply_fairness_tiebreak cands task sd = (sd', cands') \<Longrightarrow>
     sd_nodes sd' = sd_nodes sd \<and> sd_placement sd' = sd_placement sd \<and> mset cands' = mset cands"
  by (auto simp: apply_fairness_tiebreak_def Let_def mset_swap split: if_splits)

text \<open>The candidate that ends up first is within five percent of the best one.\<close>

lemma tiebreak_top:
  assumes run: "apply_fairness_tiebreak cands task sd = (sd', cands')" and ne: "cands \<noteq> []"
    and sorted: "\<And>i j. i \<le> j \<Longrightarrow> j < length cands \<Longrightarrow> snd (cands ! j) \<le> snd (cands ! i)"
    and pos: "0 \<le> snd (hd cands)"
  shows "snd (hd cands) * (95 / 100) \<le> snd (hd cands')"
proof -
  let ?t = "snd (hd cands) * (95 / 100)"
  let ?n = "length (filter (\<lambda>c. snd c \<ge> ?t) cands)"
  have top: "?t \<le> snd (hd cands)" using pos by simp
  have pre: "?t \<le> snd (cands ! k)" if "k < ?n" for k
    by (rule tied_prefix [OF sorted that])
  show ?thesis
  proof (cases "?n \<le> 1")
    case True
    then show ?thesis using run ne top by (simp add: apply_fairness_tiebreak_def Let_def)
  next
    case False
    define pick where "pick = unat (case hm_get (sd_round_robin_index sd) (sk_priority task) of
      None \<Rightarrow> 0 | Some i \<Rightarrow> i) mod ?n"
    have lt: "pick < ?n" unfolding pick_def using False by (intro mod_less_divisor) linarith
    have "cands' = (if 0 < pick \<and> pick < length cands then cands[0 := cands ! pick, pick := cands ! 0] else cands)"
      using run ne False by (auto simp: apply_fairness_tiebreak_def Let_def pick_def)
    moreover have "hd (cands[0 := cands ! pick, pick := cands ! 0]) = cands ! pick" if "0 < pick"
      using ne that by (cases cands) (auto split: nat.split)
    ultimately show ?thesis using pre [OF lt] top by auto
  qed
qed

section \<open>The invariant\<close>

definition sched_ok :: "scheduler \<Rightarrow> bool" where
  "sched_ok sd \<longleftrightarrow> hm_wf (sd_nodes sd)
     \<and> (\<forall>w n. hm_get (sd_nodes sd) w = Some n \<longrightarrow> node_ok n \<and> nc_worker_name n = w)"

lemma sched_okD: "sched_ok sd \<Longrightarrow> hm_get (sd_nodes sd) w = Some n \<Longrightarrow> node_ok n \<and> nc_worker_name n = w"
  by (simp add: sched_ok_def)

lemma sched_ok_modify:
  assumes "sched_ok sd" "sd_nodes sd' = hm_modify w f (sd_nodes sd)"
    "\<And>n. node_ok n \<Longrightarrow> node_ok (f n) \<and> nc_worker_name (f n) = nc_worker_name n"
  shows "sched_ok sd'"
  using assms by (auto simp: sched_ok_def hm_get_modify split: if_splits)

lemma allocate_name [simp]: "nc_worker_name (fst (allocate stale now i req p n)) = nc_worker_name n"
  by (simp add: allocate_def)

lemma release_name [simp]: "nc_worker_name (fst (release_node i n)) = nc_worker_name n"
  by (simp add: release_node_def split: option.splits)

lemma try_preemption_ok: "sched_ok sd \<Longrightarrow> sched_ok (fst (try_preemption it stale clk ex task sd))"
  by (auto simp: try_preemption_def allocate_ok release_ok split: list.splits
      intro: sched_ok_modify)

lemma schedule_ok:
  assumes "sched_ok sd"
  shows "sched_ok (fst (schedule_task_excluding it stale clk task ex sd))"
proof -
  let ?cands = "by_score snd (fitting_candidates it stale clk ex task sd)"
  obtain sd1 cands1 where run:
    "(if 1 < length ?cands then apply_fairness_tiebreak ?cands task sd else (sd, ?cands)) = (sd1, cands1)"
    by force
  then have "sd_nodes sd1 = sd_nodes sd" by (auto split: if_splits dest: tiebreak_frame)
  then have ok1: "sched_ok sd1" using assms by (simp add: sched_ok_def)
  have "sched_ok (fst (try_preemption it stale clk ex task sd1))" by (rule try_preemption_ok [OF ok1])
  moreover have "sched_ok (sd1\<lparr>sd_nodes := hm_modify w (\<lambda>cap. fst (allocate stale (clk AllocRead) (sk_id task)
      (sk_requirements task) (sk_priority task) cap)) (sd_nodes sd1)\<rparr>)" for w
    by (rule sched_ok_modify [OF ok1, where w = w and f = "\<lambda>cap. fst (allocate stale (clk AllocRead) (sk_id task)
      (sk_requirements task) (sk_priority task) cap)"]) (simp_all add: allocate_ok)
  ultimately show ?thesis
    using ok1 run by (auto simp: schedule_task_excluding_def Let_def split: list.split option.split prod.split)
qed

section \<open>Decisions\<close>

lemma fitting_candidates_iff:
  assumes "sched_ok sd" "hash_iter it"
  shows "(w, s) \<in> set (fitting_candidates it stale clk ex task sd) \<longleftrightarrow>
     (\<exists>n. hm_get (sd_nodes sd) w = Some n \<and> w \<notin> set ex
        \<and> can_fit stale (clk (FitRead w)) n (sk_requirements task)
        \<and> s = score_node (sd_placement sd) stale (clk (ScoreRead w)) task n)"
proof -
  have wf: "hm_wf (sd_nodes sd)" using assms(1) by (simp add: sched_ok_def)
  have "set (it (sd_nodes sd)) = set (sd_nodes sd)" by (rule hash_iter_set [OF assms(2)])
  then show ?thesis
    by (auto simp: fitting_candidates_def image_iff hm_mem_iff [OF wf] Bex_def)
qed

definition within_five_percent :: "rat \<Rightarrow> rat \<Rightarrow> bool" where
  "within_five_percent best s \<longleftrightarrow> best * (95 / 100) \<le> s"

lemma schedule_assign:
  assumes ok: "sched_ok sd" and it: "hash_iter it"
    and ne: "fitting_candidates it stale clk ex task sd \<noteq> []"
  obtains w s sd' where
    "schedule_task_excluding it stale clk task ex sd = (sd', Assign w s)"
    "(w, s) \<in> set (fitting_candidates it stale clk ex task sd)"
    "sd_nodes sd' = hm_modify w (\<lambda>cap. fst (allocate stale (clk AllocRead) (sk_id task)
        (sk_requirements task) (sk_priority task) cap)) (sd_nodes sd)"
    "\<forall>(v, r) \<in> set (fitting_candidates it stale clk ex task sd). within_five_percent r s"
proof -
  let ?c = "fitting_candidates it stale clk ex task sd"
  let ?s = "by_score snd ?c"
  obtain sd1 cands1 where run:
    "(if 1 < length ?s then apply_fairness_tiebreak ?s task sd else (sd, ?s)) = (sd1, cands1)"
    by force
  have frame: "sd_nodes sd1 = sd_nodes sd" "mset cands1 = mset ?s"
    using run tiebreak_frame by (fastforce split: if_splits)+
  have sne: "?s \<noteq> []" using ne by simp
  then have c1ne: "cands1 \<noteq> []" using frame(2) by (metis mset_zero_iff)
  then obtain w s rest where c1: "cands1 = (w, s) # rest" by (cases cands1) auto
  have mem: "(w, s) \<in> set ?c"
  proof -
    have "(w, s) \<in> set_mset (mset cands1)" using c1 by simp
    then show ?thesis unfolding frame(2) by simp
  qed
  have sorted: "snd (?s ! j) \<le> snd (?s ! i)" if "i \<le> j" "j < length ?s" for i j
    using by_score_sorted [OF that(1), of ?c snd] that(2) by simp
  have best: "r \<le> snd (hd ?s)" if "(v, r) \<in> set ?c" for v r
  proof -
    have "(v, r) \<in> set ?s" using that by simp
    then obtain j where "j < length ?s" "?s ! j = (v, r)" by (metis in_set_conv_nth)
    then show ?thesis using sorted [of 0 j] sne by (simp add: hd_conv_nth)
  qed
  have pos: "0 \<le> r" if "(v, r) \<in> set ?c" for v r
    using that sched_okD [OF ok] score_node_bounds(1)
    by (auto simp: fitting_candidates_iff [OF ok it])
  have hd_mem: "hd ?s \<in> set ?c" using sne by (metis hd_in_set set_by_score)
  then have top: "0 \<le> snd (hd ?s)" using pos by (metis prod.collapse)
  have "snd (hd ?s) * (95 / 100) \<le> s"
  proof (cases "1 < length ?s")
    case True
    then have "apply_fairness_tiebreak ?s task sd = (sd1, cands1)" using run by simp
    from tiebreak_top [OF this sne sorted top] show ?thesis by (simp add: c1)
  next
    case False
    then have "?s = cands1" using run by (metis prod.inject)
    then have "snd (hd ?s) = s" using c1 by (metis list.sel(1) snd_conv)
    then show ?thesis using top by linarith
  qed
  then have five: "\<forall>(v, r) \<in> set ?c. within_five_percent r s"
    using best by (fastforce simp: within_five_percent_def)
  have "schedule_task_excluding it stale clk task ex sd =
      (sd1\<lparr>sd_nodes := hm_modify w (\<lambda>cap. fst (allocate stale (clk AllocRead) (sk_id task)
        (sk_requirements task) (sk_priority task) cap)) (sd_nodes sd1)\<rparr>, Assign w s)"
    unfolding schedule_task_excluding_def Let_def run by (simp add: c1)
  then show thesis using that mem five frame(1) by simp
qed

lemma preempt_candidates_iff:
  assumes "sched_ok sd" "hash_iter it"
  shows "(w, e, s) \<in> set (preempt_candidates it stale clk ex task sd) \<longleftrightarrow>
     (\<exists>n r. hm_get (sd_nodes sd) w = Some n \<and> w \<notin> set ex \<and> nc_online n
        \<and> \<not> dispatch_tick_is_stale stale (clk (EvictRead w)) n
        \<and> (rq_gpu_required (sk_requirements task) \<longrightarrow> nc_has_gpu n)
        \<and> r \<in> set (nc_running_tasks n) \<and> rt_task_id r = e
        \<and> can_preempt (sk_priority task) (rt_priority r)
        \<and> rq_cpu_cores (sk_requirements task) \<le> nc_available_cpu_cores n + rt_cpu_cores r
        \<and> rq_memory_gib (sk_requirements task) \<le> nc_available_memory_gib n + rt_memory_gib r
        \<and> s = score_node (sd_placement sd) stale (clk (EvictScoreRead w e)) task n)"
proof -
  have wf: "hm_wf (sd_nodes sd)" using assms(1) by (simp add: sched_ok_def)
  have "set (it (sd_nodes sd)) = set (sd_nodes sd)" by (rule hash_iter_set [OF assms(2)])
  then have it_mem: "(v, n) \<in> set (it (sd_nodes sd)) \<longleftrightarrow> hm_get (sd_nodes sd) v = Some n" for v n
    by (simp add: hm_mem_iff [OF wf])
  show ?thesis
    unfolding preempt_candidates_def Let_def set_concat set_map UN_iff image_iff bex_simps
    by (auto simp: it_mem Bex_def split: if_splits)
qed

lemma schedule_no_fit:
  assumes "fitting_candidates it stale clk ex task sd = []"
  shows "schedule_task_excluding it stale clk task ex sd =
     (case (if sk_priority task = Critical then try_preemption it stale clk ex task sd else (sd, None)) of
        (sd2, Some decision) \<Rightarrow> (sd2, decision)
      | (sd2, None) \<Rightarrow> (sd2, Queue (queue_reason task sd2)))"
  using assms by (simp add: schedule_task_excluding_def by_score_def Let_def)

lemma try_preemption_cases:
  assumes "try_preemption it stale clk ex task sd = (sd', res)"
  obtains "res = None" "sd' = sd" "preempt_candidates it stale clk ex task sd = []"
  | w e s where "res = Some (Preempt w e s)" "(w, e, s) \<in> set (preempt_candidates it stale clk ex task sd)"
      "sd' = sd\<lparr>sd_nodes := hm_modify w (\<lambda>cap. fst (allocate stale (clk EvictAllocRead) (sk_id task)
         (sk_requirements task) (sk_priority task) (fst (release_node e cap)))) (sd_nodes sd)\<rparr>"
proof (cases "by_score (\<lambda>c. snd (snd c)) (preempt_candidates it stale clk ex task sd)")
  case Nil
  then show thesis using assms that(1) by (simp add: try_preemption_def)
next
  case (Cons c rest)
  obtain w e s where c: "c = (w, e, s)" by (cases c)
  have "c \<in> set (by_score (\<lambda>c. snd (snd c)) (preempt_candidates it stale clk ex task sd))"
    unfolding Cons by simp
  then have mem: "(w, e, s) \<in> set (preempt_candidates it stale clk ex task sd)"
    by (simp add: c)
  have "res = Some (Preempt w e s)"
      "sd' = sd\<lparr>sd_nodes := hm_modify w (\<lambda>cap. fst (allocate stale (clk EvictAllocRead) (sk_id task)
         (sk_requirements task) (sk_priority task) (fst (release_node e cap)))) (sd_nodes sd)\<rparr>"
    using assms by (auto simp: try_preemption_def Cons c)
  then show thesis using that(2) mem by blast
qed

lemma release_member:
  assumes "r \<in> set (nc_running_tasks n)" "distinct (map rt_task_id (nc_running_tasks n))"
  shows "\<exists>rest. release_node (rt_task_id r) n =
     (n\<lparr>nc_running_tasks := rest,
        nc_available_cpu_cores := nc_available_cpu_cores n + rt_cpu_cores r,
        nc_available_memory_gib := nc_available_memory_gib n + rt_memory_gib r\<rparr>, Some r)
     \<and> mset (nc_running_tasks n) = add_mset r (mset rest)"
proof -
  let ?f = "take_first (\<lambda>t. rt_task_id t = rt_task_id r) (nc_running_tasks n)"
  have "?f \<noteq> None" using assms(1) by (auto simp: take_first_None)
  then obtain t rest where f: "?f = Some (t, rest)" by auto
  note m = take_first_mset [OF f]
  have "t \<in> set (nc_running_tasks n)" using m by (metis set_mset_mset union_single_eq_member)
  then have "t = r" using m assms by (auto simp: distinct_map inj_on_def)
  then show ?thesis using f m by (auto simp: release_node_def)
qed

lemma schedule_preempt:
  assumes run: "schedule_task_excluding it stale clk task ex sd = (sd', Preempt w e s)"
    and ok: "sched_ok sd" and it: "hash_iter it"
  shows "fitting_candidates it stale clk ex task sd = []" "sk_priority task = Critical"
    "(w, e, s) \<in> set (preempt_candidates it stale clk ex task sd)"
    "sd' = sd\<lparr>sd_nodes := hm_modify w (\<lambda>cap. fst (allocate stale (clk EvictAllocRead) (sk_id task)
         (sk_requirements task) (sk_priority task) (fst (release_node e cap)))) (sd_nodes sd)\<rparr>"
proof -
  show none: "fitting_candidates it stale clk ex task sd = []"
    by (rule ccontr) (rule schedule_assign [OF ok it], assumption, use run in simp)
  note r = run [unfolded schedule_no_fit [OF none]]
  then show crit: "sk_priority task = Critical" by (auto split: if_splits)
  obtain sd2 res where p: "try_preemption it stale clk ex task sd = (sd2, res)" by force
  then show "(w, e, s) \<in> set (preempt_candidates it stale clk ex task sd)"
    "sd' = sd\<lparr>sd_nodes := hm_modify w (\<lambda>cap. fst (allocate stale (clk EvictAllocRead) (sk_id task)
         (sk_requirements task) (sk_priority task) (fst (release_node e cap)))) (sd_nodes sd)\<rparr>"
    using r crit by (auto elim!: try_preemption_cases)
qed

section \<open>A fleet of two nodes\<close>

definition small_fleet :: scheduler where
  "small_fleet = add_node (node_from_config 0 ''beta'' 4 16 True)
     (add_node (node_from_config 0 ''alpha'' 2 8 False) (scheduler_new Spread))"

definition gpu_task :: "task_priority \<Rightarrow> uuid \<Rightarrow> scheduled_task" where
  "gpu_task p i = task_with_priority p (task_with_requirements
     \<lparr>rq_cpu_cores = 3, rq_memory_gib = 8, rq_gpu_required = True, rq_estimated_duration = 0\<rparr>
     (task_new i 0 ''gpu work''))"

text \<open>The same fleet once a background task holds three of the four cores of \<open>beta\<close>.\<close>

definition busy_fleet :: scheduler where
  "busy_fleet = fst (schedule_task id 180 (\<lambda>_. 0) (gpu_task Background 1) small_fleet)"

section \<open>Reachable schedulers\<close>

inductive sched_step :: "scheduler \<Rightarrow> scheduler \<Rightarrow> bool" where
  add: "node_ok cap \<Longrightarrow> sched_step sd (add_node cap sd)"
| remove: "sched_step sd (fst (remove_node w sd))"
| online: "sched_step sd (set_node_online w b sd)"
| tick: "sched_step sd (update_dispatch_tick w tick sd)"
| release: "sched_step sd (fst (release_task w i sd))"
| schedule: "sched_step sd (fst (schedule_task_excluding it stale clk task ex sd))"

lemma sched_step_ok: "sched_step sd sd' \<Longrightarrow> sched_ok sd \<Longrightarrow> sched_ok sd'"
proof (induction rule: sched_step.induct)
  case (release sd w i)
  then show ?case
    by (auto simp: sched_ok_def release_task_def release_ok split: option.splits if_splits)
next
  case (schedule sd it stale clk task ex)
  then show ?case by (rule schedule_ok)
next
  case (online sd w b)
  show ?case
    by (rule sched_ok_modify [OF online, where w = w and f = "\<lambda>n. n\<lparr>nc_online := b\<rparr>"])
      (simp_all add: set_node_online_def node_ok_def)
next
  case (tick sd w tick)
  show ?case
    by (rule sched_ok_modify [OF tick, where w = w and f = "\<lambda>n. n\<lparr>nc_dispatch_tick_at := tick\<rparr>"])
      (simp_all add: update_dispatch_tick_def node_ok_def)
qed (auto simp: sched_ok_def add_node_def remove_node_def split: if_splits)

interpretation sched: invariant_machine sched_step sched_ok
  by unfold_locales (rule sched_step_ok)

lemma scheduler_new_ok: "sched_ok (scheduler_new policy)"
  by (simp add: sched_ok_def scheduler_new_def)

lemma busy_fleet_reachable: "sched_step\<^sup>*\<^sup>* (scheduler_new Spread) busy_fleet"
  unfolding busy_fleet_def small_fleet_def schedule_task_def
  by (rule rtranclp.rtrancl_into_rtrancl, rule rtranclp.rtrancl_into_rtrancl,
      rule rtranclp.rtrancl_into_rtrancl, rule rtranclp.rtrancl_refl)
    (rule sched_step.intros node_from_config_ok)+


lemmas sched_eval = schedule_task_def schedule_task_excluding_def fitting_candidates_def by_score_def
  can_fit_def dispatch_tick_is_stale_def score_node_def score_spread_def free_ratio_def
  allocate_def release_node_def add_node_def node_from_config_def scheduler_new_def engine_new_def
  gpu_task_def task_with_priority_def task_with_requirements_def task_new_def hash_eval Let_def

lemma busy_fleet_nodes:
  "sd_nodes busy_fleet =
     [(''alpha'', node_from_config 0 ''alpha'' 2 8 False),
      (''beta'', (node_from_config 0 ''beta'' 4 16 True)
         \<lparr>nc_available_cpu_cores := 1, nc_available_memory_gib := 8,
          nc_running_tasks := [\<lparr>rt_task_id = 1, rt_priority = Background, rt_cpu_cores = 3,
             rt_memory_gib = 8, rt_started_at = 0\<rparr>]\<rparr>)]"
  "sd_placement busy_fleet = engine_new Spread"
  by (simp_all add: busy_fleet_def small_fleet_def sched_eval del: hm_get_insert)



section \<open>Properties of the scheduler\<close>

text \<open>
  C7: resources are conserved. In every scheduler reachable from the empty one by adding
  consistent nodes, removing them, changing their liveness, scheduling (with preemption) and
  releasing tasks, each node satisfies: free cores plus the cores of its running tasks equal
  its total, and likewise for memory. So no subtraction underflows and no addition wraps.
\<close>

theorem scheduler_conserves_resources:
  assumes "sched_step\<^sup>*\<^sup>* (scheduler_new policy) sd" "hm_get (sd_nodes sd) w = Some n"
  shows "unat (nc_available_cpu_cores n) + (\<Sum>t \<leftarrow> nc_running_tasks n. unat (rt_cpu_cores t))
           = unat (nc_total_cpu_cores n)
       \<and> unat (nc_available_memory_gib n) + (\<Sum>t \<leftarrow> nc_running_tasks n. unat (rt_memory_gib t))
           = unat (nc_total_memory_gib n)
       \<and> nc_worker_name n = w"
  using sched_okD [OF sched.star_inv [OF assms(1) scheduler_new_ok] assms(2)]
  by (simp add: node_ok_def)

theorem scheduler_conserves_resources_witness:
  "\<exists>n. hm_get (sd_nodes busy_fleet) ''beta'' = Some n
     \<and> unat (nc_available_cpu_cores n) + (\<Sum>t \<leftarrow> nc_running_tasks n. unat (rt_cpu_cores t)) = 4"
  using scheduler_conserves_resources [OF busy_fleet_reachable, of "''beta''"]
  by (simp add: busy_fleet_nodes(1) hm_get_def node_from_config_def)



text \<open>
  preemption. A task preempts only when it is \<open>Critical\<close> and no node fits it. The evicted
  task is a \<open>Background\<close> task running on the chosen node. If the ids on that node are
  distinct and the node is still live at the booking, the evicted task is gone from the
  node's running tasks and the new one is there. With a clock that does not advance during
  the call the score of the decision is 0 (every node that could be preempted fails
  \<open>can_fit\<close>, for which \<open>score_node\<close> returns 0), so the sort by score never discriminates.
\<close>

theorem schedule_preempts_background:
  assumes run: "schedule_task_excluding it stale clk task ex sd = (sd', Preempt w e s)"
    and ok: "sched_ok sd" and it: "hash_iter it" and clk: "\<forall>r. clk r = now"
  shows "sk_priority task = Critical
     \<and> (\<forall>u k. hm_get (sd_nodes sd) u = Some k \<and> u \<notin> set ex \<longrightarrow> \<not> can_fit stale now k (sk_requirements task))
     \<and> s = 0
     \<and> (\<exists>n r. hm_get (sd_nodes sd) w = Some n \<and> w \<notin> set ex \<and> r \<in> set (nc_running_tasks n)
         \<and> rt_task_id r = e \<and> rt_priority r = Background
         \<and> (distinct (map rt_task_id (nc_running_tasks n)) \<longrightarrow>
              (\<exists>n' t. hm_get (sd_nodes sd') w = Some n' \<and> rt_task_id t = sk_id task
                 \<and> rt_priority t = Critical
                 \<and> add_mset r (mset (nc_running_tasks n')) = add_mset t (mset (nc_running_tasks n)))))"
proof -
  note p = schedule_preempt [OF run ok it]
  obtain n r where n: "hm_get (sd_nodes sd) w = Some n" "w \<notin> set ex" "nc_online n"
        "\<not> dispatch_tick_is_stale stale now n" "rq_gpu_required (sk_requirements task) \<longrightarrow> nc_has_gpu n"
        "r \<in> set (nc_running_tasks n)" "rt_task_id r = e" "rt_priority r = Background"
        "rq_cpu_cores (sk_requirements task) \<le> nc_available_cpu_cores n + rt_cpu_cores r"
        "rq_memory_gib (sk_requirements task) \<le> nc_available_memory_gib n + rt_memory_gib r"
        "s = score_node (sd_placement sd) stale now task n"
    using p(3) clk by (auto simp: preempt_candidates_iff [OF ok it] can_preempt_def)
  have nofit: "\<not> can_fit stale now k (sk_requirements task)"
    if "hm_get (sd_nodes sd) u = Some k" "u \<notin> set ex" for u k
    using that p(1) fitting_candidates_iff [OF ok it, of u _ stale clk ex task] clk by auto
  have "\<exists>n' t. hm_get (sd_nodes sd') w = Some n' \<and> rt_task_id t = sk_id task \<and> rt_priority t = Critical
      \<and> add_mset r (mset (nc_running_tasks n')) = add_mset t (mset (nc_running_tasks n))"
    if dist: "distinct (map rt_task_id (nc_running_tasks n))"
  proof -
    obtain rest where rel: "release_node e n = (n\<lparr>nc_running_tasks := rest,
        nc_available_cpu_cores := nc_available_cpu_cores n + rt_cpu_cores r,
        nc_available_memory_gib := nc_available_memory_gib n + rt_memory_gib r\<rparr>, Some r)"
        "mset (nc_running_tasks n) = add_mset r (mset rest)"
      using release_member [OF n(6) dist] n(7) by auto
    have "can_fit stale now (fst (release_node e n)) (sk_requirements task)"
      using n(3-5,9,10) by (simp add: rel(1) can_fit_def dispatch_tick_is_stale_def)
    then show ?thesis
      using n(1) p(2) rel clk by (auto simp: p(4) hm_get_modify allocate_def)
  qed
  moreover have "s = 0" using nofit [OF n(1,2)] n(11) by (simp add: score_node_def)
  ultimately show ?thesis using p(2) nofit n by blast
qed

lemma gpu_task_priority: "sk_priority (gpu_task p i) = p"
  by (simp add: gpu_task_def task_with_priority_def)

lemma busy_fleet_no_fit: "fitting_candidates id 180 (\<lambda>_. 0) [] (gpu_task p i) busy_fleet = []"
  by (simp add: sched_eval busy_fleet_nodes word_le_nat_alt del: hm_get_insert)

lemma busy_fleet_evictable:
  "preempt_candidates id 180 (\<lambda>_. 0) [] (gpu_task Critical 2) busy_fleet = [(''beta'', 1, 0)]"
  by (simp add: preempt_candidates_def can_preempt_def sched_eval busy_fleet_nodes word_le_nat_alt
      del: hm_get_insert)

lemma busy_fleet_preempts:
  "\<exists>sd'. schedule_task_excluding id 180 (\<lambda>_. 0) (gpu_task Critical 2) [] busy_fleet = (sd', Preempt ''beta'' 1 0)"
  by (simp add: schedule_no_fit [OF busy_fleet_no_fit] try_preemption_def busy_fleet_evictable
      by_score_def) (simp add: gpu_task_def task_with_priority_def)

theorem schedule_preempts_background_witness:
  "\<exists>n r. hm_get (sd_nodes busy_fleet) ''beta'' = Some n \<and> r \<in> set (nc_running_tasks n)
     \<and> rt_task_id r = 1 \<and> rt_priority r = Background"
proof -
  obtain sd' where "schedule_task_excluding id 180 (\<lambda>_. 0) (gpu_task Critical 2) [] busy_fleet
      = (sd', Preempt ''beta'' 1 0)"
    using busy_fleet_preempts by blast
  from schedule_preempts_background [OF this, of 0] sched.star_inv [OF busy_fleet_reachable scheduler_new_ok]
    hash_iter_id show ?thesis by blast
qed

text \<open>
  a task is queued only when no node that is not excluded fits it, and then the scheduler
  is unchanged; a \<open>Critical\<close> task is queued only if, moreover, no live node has a \<open>Background\<close>
  task whose eviction would make room.
\<close>

theorem schedule_queues_only_if_full:
  assumes run: "schedule_task_excluding it stale clk task ex sd = (sd', Queue reason)"
    and ok: "sched_ok sd" and it: "hash_iter it"
  shows "sd' = sd
     \<and> (\<forall>u k. hm_get (sd_nodes sd) u = Some k \<and> u \<notin> set ex \<longrightarrow>
          \<not> can_fit stale (clk (FitRead u)) k (sk_requirements task)
          \<and> (sk_priority task = Critical \<and> nc_online k \<and> \<not> dispatch_tick_is_stale stale (clk (EvictRead u)) k
             \<and> (rq_gpu_required (sk_requirements task) \<longrightarrow> nc_has_gpu k) \<longrightarrow>
               (\<forall>r \<in> set (nc_running_tasks k). rt_priority r = Background \<longrightarrow>
                  \<not> (rq_cpu_cores (sk_requirements task) \<le> nc_available_cpu_cores k + rt_cpu_cores r
                     \<and> rq_memory_gib (sk_requirements task) \<le> nc_available_memory_gib k + rt_memory_gib r))))"
proof -
  have none: "fitting_candidates it stale clk ex task sd = []"
    by (rule ccontr) (rule schedule_assign [OF ok it], assumption, use run in simp)
  note r = run [unfolded schedule_no_fit [OF none]]
  obtain sd2 res where p: "try_preemption it stale clk ex task sd = (sd2, res)" by force
  have nop: "sd' = sd \<and> (sk_priority task = Critical \<longrightarrow> preempt_candidates it stale clk ex task sd = [])"
    using p by (cases rule: try_preemption_cases) (use r p in \<open>auto split: if_splits\<close>)
  have "\<not> can_fit stale (clk (FitRead u)) k (sk_requirements task)"
    if "hm_get (sd_nodes sd) u = Some k" "u \<notin> set ex" for u k
    using that none fitting_candidates_iff [OF ok it, of u _ stale clk ex task] by auto
  moreover have "\<not> (rq_cpu_cores (sk_requirements task) \<le> nc_available_cpu_cores k + rt_cpu_cores r
                     \<and> rq_memory_gib (sk_requirements task) \<le> nc_available_memory_gib k + rt_memory_gib r)"
    if "hm_get (sd_nodes sd) u = Some k" "u \<notin> set ex" "sk_priority task = Critical" "nc_online k"
      "\<not> dispatch_tick_is_stale stale (clk (EvictRead u)) k"
      "rq_gpu_required (sk_requirements task) \<longrightarrow> nc_has_gpu k"
      "r \<in> set (nc_running_tasks k)" "rt_priority r = Background" for u k r
    using that nop preempt_candidates_iff [OF ok it, of u "rt_task_id r" _ stale clk ex task]
    by (auto simp: can_preempt_def)
  ultimately show ?thesis using nop by blast
qed

theorem schedule_queues_only_if_full_witness:
  "\<exists>sd' reason. schedule_task_excluding id 180 (\<lambda>_. 0) (gpu_task Low 2) [] busy_fleet = (sd', Queue reason)
     \<and> sd' = busy_fleet"
proof -
  obtain sd' reason where r: "schedule_task_excluding id 180 (\<lambda>_. 0) (gpu_task Low 2) [] busy_fleet = (sd', Queue reason)"
    using schedule_no_fit [OF busy_fleet_no_fit, of Low 2] by (simp add: gpu_task_priority)
  from schedule_queues_only_if_full [OF this] sched.star_inv [OF busy_fleet_reachable scheduler_new_ok]
    hash_iter_id r show ?thesis by blast
qed

text \<open>
  on a node whose books balance every score lies between 0 and 1.8, the product of the
  largest affinity factor 1.5 and the preferred-node bonus 1.2.
\<close>

theorem score_node_range:
  assumes "node_ok n"
  shows "0 \<le> score_node e stale now task n \<and> score_node e stale now task n \<le> 9 / 5"
  using score_node_bounds [OF assms] by simp

theorem score_node_range_witness:
  "score_node (engine_new BinPack) 180 0 (gpu_task Low 3) (node_from_config 0 ''beta'' 4 16 True) \<le> 9 / 5"
  using score_node_range [OF node_from_config_ok] by blast

end
