(* ===== verification/Task_Queue.thy ===== *)
theory Task_Queue
  imports Scheduler_Types
begin

text \<open>
  The priority queue of tasks: \<^verbatim>\<open>crates/ff-orchestrator/src/queue.rs\<close>.

  Every method takes the queue's mutex for its whole body, so methods are atomic functions on
  the guarded state. \<open>buckets\<close> is an ordered map from priorities to FIFO lists, \<open>index\<close> a hash
  map from task ids to priorities.
\<close>

section \<open>State and operations\<close>

record queued_task =
  qt_id :: uuid
  qt_description :: string
  qt_project :: "string option"
  qt_requirements :: resource_requirements
  qt_original_priority :: task_priority
  qt_effective_priority :: task_priority
  qt_enqueued_at :: datetime
  qt_workload_type :: "string option"
  qt_reserved :: bool
  qt_reserved_node :: "string option"

definition queued_task_new :: "uuid \<Rightarrow> datetime \<Rightarrow> string \<Rightarrow> resource_requirements \<Rightarrow> task_priority \<Rightarrow> queued_task" where
  "queued_task_new i now desc req p = \<lparr>qt_id = i, qt_description = desc, qt_project = None,
     qt_requirements = req, qt_original_priority = p, qt_effective_priority = p,
     qt_enqueued_at = now, qt_workload_type = None, qt_reserved = False, qt_reserved_node = None\<rparr>"

definition queued_with_project :: "string \<Rightarrow> queued_task \<Rightarrow> queued_task" where
  "queued_with_project p t = t\<lparr>qt_project := Some p\<rparr>"

definition queued_with_workload_type :: "string \<Rightarrow> queued_task \<Rightarrow> queued_task" where
  "queued_with_workload_type w t = t\<lparr>qt_workload_type := Some w\<rparr>"

definition wait_duration :: "datetime \<Rightarrow> queued_task \<Rightarrow> duration" where
  "wait_duration now t = now - qt_enqueued_at t"

type_synonym buckets = "(task_priority, queued_task list) btree"

record priority_queue =
  pq_buckets :: buckets
  pq_index :: "(uuid, task_priority) hmap"
  pq_boost_timeout :: nat

definition queue_new :: "nat \<Rightarrow> priority_queue" where
  "queue_new boost_timeout = \<lparr>pq_buckets = [], pq_index = [], pq_boost_timeout = boost_timeout\<rparr>"

definition with_default_timeout :: priority_queue where
  "with_default_timeout = queue_new (600 * 10 ^ 9)"

text \<open>\<open>buckets.entry(p).or_default().push_back(task)\<close>\<close>

definition push_back :: "queued_task \<Rightarrow> task_priority \<Rightarrow> buckets \<Rightarrow> buckets" where
  "push_back t p b = bt_insert p ((case bt_get b p of None \<Rightarrow> [] | Some d \<Rightarrow> d) @ [t]) b"

definition enqueue :: "queued_task \<Rightarrow> task_priority \<Rightarrow> priority_queue \<Rightarrow> priority_queue" where
  "enqueue t p q = q\<lparr>pq_buckets := push_back t p (pq_buckets q),
     pq_index := hm_insert (qt_id t) p (pq_index q)\<rparr>"

text \<open>
  The pattern shared by \<open>dequeue\<close>, \<open>confirm_reservation\<close>, \<open>remove\<close> and the boosts: remove the
  first task of a bucket that satisfies a predicate, and the bucket when it becomes empty.
\<close>

definition take_from :: "task_priority \<Rightarrow> (queued_task \<Rightarrow> bool) \<Rightarrow> buckets \<Rightarrow> (queued_task \<times> buckets) option" where
  "take_from p pred b =
     (case bt_get b p of
        None \<Rightarrow> None
      | Some d \<Rightarrow>
          (case take_first pred d of
             None \<Rightarrow> None
           | Some (t, rest) \<Rightarrow> Some (t, if rest = [] then bt_remove p b else bt_insert p rest b)))"

fun dequeue_loop :: "task_priority list \<Rightarrow> priority_queue \<Rightarrow> priority_queue \<times> queued_task option" where
  "dequeue_loop [] q = (q, None)"
| "dequeue_loop (p # ps) q =
     (case take_from p (\<lambda>t. \<not> qt_reserved t) (pq_buckets q) of
        Some (t, b) \<Rightarrow> (q\<lparr>pq_buckets := b, pq_index := hm_remove (qt_id t) (pq_index q)\<rparr>, Some t)
      | None \<Rightarrow> dequeue_loop ps q)"

definition dequeue :: "priority_queue \<Rightarrow> priority_queue \<times> queued_task option" where
  "dequeue q = dequeue_loop (map fst (pq_buckets q)) q"

fun peek_loop :: "queued_task list list \<Rightarrow> queued_task option" where
  "peek_loop [] = None"
| "peek_loop (d # ds) =
     (case find (\<lambda>t. \<not> qt_reserved t) d of Some t \<Rightarrow> Some t | None \<Rightarrow> peek_loop ds)"

definition peek :: "priority_queue \<Rightarrow> queued_task option" where
  "peek q = peek_loop (map snd (pq_buckets q))"

definition queue_len :: "priority_queue \<Rightarrow> nat" where
  "queue_len q = sum_list (map (\<lambda>e. length (snd e)) (pq_buckets q))"

definition queue_iter :: "priority_queue \<Rightarrow> queued_task list" where
  "queue_iter q = concat (map snd (pq_buckets q))"

definition unreserved_count :: "priority_queue \<Rightarrow> nat" where
  "unreserved_count q = length (filter (\<lambda>t. \<not> qt_reserved t) (concat (map snd (pq_buckets q))))"

definition queue_is_empty :: "priority_queue \<Rightarrow> bool" where
  "queue_is_empty q \<longleftrightarrow> pq_buckets q = []"

definition drain_by_priority :: "task_priority \<Rightarrow> priority_queue \<Rightarrow> priority_queue \<times> queued_task list" where
  "drain_by_priority p q =
     (case bt_get (pq_buckets q) p of
        None \<Rightarrow> (q, [])
      | Some d \<Rightarrow> (q\<lparr>pq_buckets := bt_remove p (pq_buckets q),
                     pq_index := fold (\<lambda>t. hm_remove (qt_id t)) d (pq_index q)\<rparr>, d))"

text \<open>\<open>iter_mut().find(p)\<close> with an update of the task found; \<open>None\<close> when there is none.\<close>

fun update_first :: "('a \<Rightarrow> bool) \<Rightarrow> ('a \<Rightarrow> 'a) \<Rightarrow> 'a list \<Rightarrow> 'a list option" where
  "update_first p f [] = None"
| "update_first p f (x # xs) =
     (if p x then Some (f x # xs) else map_option (\<lambda>ys. x # ys) (update_first p f xs))"

definition update_task :: "uuid \<Rightarrow> (queued_task \<Rightarrow> queued_task) \<Rightarrow> priority_queue \<Rightarrow> priority_queue \<times> bool" where
  "update_task i f q =
     (case hm_get (pq_index q) i of
        None \<Rightarrow> (q, False)
      | Some p \<Rightarrow>
          (case bt_get (pq_buckets q) p of
             None \<Rightarrow> (q, False)
           | Some d \<Rightarrow>
               (case update_first (\<lambda>t. qt_id t = i) f d of
                  None \<Rightarrow> (q, False)
                | Some d' \<Rightarrow> (q\<lparr>pq_buckets := bt_insert p d' (pq_buckets q)\<rparr>, True))))"

definition reserve :: "uuid \<Rightarrow> string \<Rightarrow> priority_queue \<Rightarrow> priority_queue \<times> bool" where
  "reserve i node q = update_task i (\<lambda>t. t\<lparr>qt_reserved := True, qt_reserved_node := Some node\<rparr>) q"

definition cancel_reservation :: "uuid \<Rightarrow> priority_queue \<Rightarrow> priority_queue \<times> bool" where
  "cancel_reservation i q = update_task i (\<lambda>t. t\<lparr>qt_reserved := False, qt_reserved_node := None\<rparr>) q"

definition take_task :: "uuid \<Rightarrow> (queued_task \<Rightarrow> bool) \<Rightarrow> priority_queue \<Rightarrow> priority_queue \<times> queued_task option" where
  "take_task i pred q =
     (case hm_get (pq_index q) i of
        None \<Rightarrow> (q, None)
      | Some p \<Rightarrow>
          (case take_from p pred (pq_buckets q) of
             None \<Rightarrow> (q, None)
           | Some (t, b) \<Rightarrow> (q\<lparr>pq_buckets := b, pq_index := hm_remove i (pq_index q)\<rparr>, Some t)))"

definition confirm_reservation :: "uuid \<Rightarrow> priority_queue \<Rightarrow> priority_queue \<times> queued_task option" where
  "confirm_reservation i q = take_task i (\<lambda>t. qt_id t = i \<and> qt_reserved t) q"

definition remove_task :: "uuid \<Rightarrow> priority_queue \<Rightarrow> priority_queue \<times> queued_task option" where
  "remove_task i q = take_task i (\<lambda>t. qt_id t = i) q"

fun boost_priority :: "task_priority \<Rightarrow> task_priority option" where
  "boost_priority Background = Some Low"
| "boost_priority Low = Some Normal"
| "boost_priority Normal = Some High"
| "boost_priority High = Some Critical"
| "boost_priority Critical = None"

definition boost_due :: "datetime \<Rightarrow> int \<Rightarrow> queued_task \<Rightarrow> bool" where
  "boost_due now timeout_secs t \<longleftrightarrow>
     \<not> qt_reserved t \<and> num_seconds (now - qt_enqueued_at t) \<ge> timeout_secs"

definition boosts_of_bucket ::
  "datetime \<Rightarrow> int \<Rightarrow> task_priority \<times> queued_task list \<Rightarrow> (uuid \<times> task_priority \<times> task_priority) list" where
  "boosts_of_bucket now timeout_secs e =
     (case boost_priority (fst e) of
        None \<Rightarrow> []
      | Some new \<Rightarrow> map (\<lambda>t. (qt_id t, fst e, new)) (filter (boost_due now timeout_secs) (snd e)))"

definition boost_one ::
  "datetime \<Rightarrow> uuid \<times> task_priority \<times> task_priority \<Rightarrow> priority_queue \<Rightarrow> priority_queue" where
  "boost_one now entry q =
     (case entry of (i, old, new) \<Rightarrow>
        (case take_from old (\<lambda>t. qt_id t = i) (pq_buckets q) of
           None \<Rightarrow> q
         | Some (t, b) \<Rightarrow>
             q\<lparr>pq_index := hm_insert i new (pq_index q),
               pq_buckets := push_back (t\<lparr>qt_effective_priority := new, qt_enqueued_at := now\<rparr>) new b\<rparr>))"

definition to_boost :: "datetime \<Rightarrow> priority_queue \<Rightarrow> (uuid \<times> task_priority \<times> task_priority) list" where
  "to_boost now q =
     concat (map (boosts_of_bucket now (sint (of_nat (pq_boost_timeout q div 10 ^ 9) :: u64))) (pq_buckets q))"

definition apply_timeout_boosts :: "datetime \<Rightarrow> priority_queue \<Rightarrow> priority_queue \<times> nat" where
  "apply_timeout_boosts now q = (fold (boost_one now) (to_boost now q) q, length (to_boost now q))"

definition counts_by_priority :: "priority_queue \<Rightarrow> (task_priority, nat) btree" where
  "counts_by_priority q = map (\<lambda>(p, d). (p, length d)) (pq_buckets q)"

section \<open>Levels\<close>

text \<open>The abstract state: the FIFO list of every priority.\<close>

definition level :: "buckets \<Rightarrow> task_priority \<Rightarrow> queued_task list" where
  "level b p = (case bt_get b p of None \<Rightarrow> [] | Some d \<Rightarrow> d)"

definition buckets_ok :: "buckets \<Rightarrow> bool" where
  "buckets_ok b \<longleftrightarrow> bt_wf b \<and> (\<forall>p. bt_get b p \<noteq> Some [])"

lemma level_Nil [simp]: "level [] p = []"
  by (simp add: level_def)

lemma buckets_ok_Nil [simp]: "buckets_ok []"
  by (simp add: buckets_ok_def bt_wf_def)

lemma bt_get_level: "buckets_ok b \<Longrightarrow> bt_get b p = (if level b p = [] then None else Some (level b p))"
  by (auto simp: level_def buckets_ok_def split: option.splits)

lemma level_insert: "bt_wf b \<Longrightarrow> level (bt_insert p d b) = (level b)(p := d)"
  by (rule ext) (simp add: level_def bt_get_insert)

lemma level_remove: "level (bt_remove p b) = (level b)(p := [])"
  by (rule ext) (simp add: level_def bt_get_remove)

lemma level_push_back: "buckets_ok b \<Longrightarrow> level (push_back t p b) = (level b)(p := level b p @ [t])"
  unfolding push_back_def by (subst level_insert) (auto simp: buckets_ok_def level_def)

lemma buckets_ok_insert: "buckets_ok b \<Longrightarrow> d \<noteq> [] \<Longrightarrow> buckets_ok (bt_insert p d b)"
  by (simp add: buckets_ok_def bt_get_insert)

lemma buckets_ok_remove: "buckets_ok b \<Longrightarrow> buckets_ok (bt_remove p b)"
  by (simp add: buckets_ok_def bt_get_remove)

lemma buckets_ok_push_back: "buckets_ok b \<Longrightarrow> buckets_ok (push_back t p b)"
  unfolding push_back_def by (rule buckets_ok_insert) simp_all

lemma take_from_None: "take_from p pred b = None \<longleftrightarrow> (\<forall>t \<in> set (level b p). \<not> pred t)"
  by (auto simp: take_from_def level_def take_first_None split: option.splits)
    (metis option.distinct(1) take_first_None)+

lemma take_from_Some:
  assumes "take_from p pred b = Some (t, b')" "buckets_ok b"
  shows "\<exists>rest. take_first pred (level b p) = Some (t, rest) \<and> level b' = (level b)(p := rest) \<and> buckets_ok b'"
proof -
  obtain d rest where d: "bt_get b p = Some d" "take_first pred d = Some (t, rest)"
      "b' = (if rest = [] then bt_remove p b else bt_insert p rest b)"
    using assms(1) by (auto simp: take_from_def split: option.splits)
  have wf: "bt_wf b" using assms(2) by (simp add: buckets_ok_def)
  show ?thesis
    using d assms(2)
    by (auto simp: level_def [of b p] level_remove level_insert [OF wf] buckets_ok_remove buckets_ok_insert)
qed

section \<open>Invariant\<close>

text \<open>
  The index points at the level of every task, and no id occurs twice.
\<close>

definition queue_ok :: "priority_queue \<Rightarrow> bool" where
  "queue_ok q \<longleftrightarrow> buckets_ok (pq_buckets q)
     \<and> (\<forall>i p. hm_get (pq_index q) i = Some p \<longleftrightarrow> i \<in> qt_id ` set (level (pq_buckets q) p))
     \<and> (\<forall>p. distinct (map qt_id (level (pq_buckets q) p)))"

abbreviation lvl :: "priority_queue \<Rightarrow> task_priority \<Rightarrow> queued_task list" where
  "lvl q \<equiv> level (pq_buckets q)"

lemma queue_okD:
  "queue_ok q \<Longrightarrow> buckets_ok (pq_buckets q)"
  "queue_ok q \<Longrightarrow> hm_get (pq_index q) i = Some p \<longleftrightarrow> i \<in> qt_id ` set (lvl q p)"
  "queue_ok q \<Longrightarrow> distinct (map qt_id (lvl q p))"
  by (simp_all add: queue_ok_def)

lemma queue_new_ok: "queue_ok (queue_new timeout)"
  by (simp add: queue_ok_def queue_new_def)

text \<open>The level of an id is unique.\<close>

lemma level_unique:
  "queue_ok q \<Longrightarrow> t \<in> set (lvl q p) \<Longrightarrow> u \<in> set (lvl q p') \<Longrightarrow> qt_id t = qt_id u \<Longrightarrow> p = p' \<and> t = u"
proof -
  assume ok: "queue_ok q" and t: "t \<in> set (lvl q p)" and u: "u \<in> set (lvl q p')" and eq: "qt_id t = qt_id u"
  have "hm_get (pq_index q) (qt_id t) = Some p" "hm_get (pq_index q) (qt_id t) = Some p'"
    using queue_okD(2) [OF ok] imageI [OF t, of qt_id] imageI [OF u, of qt_id] eq by simp_all
  then have p: "p = p'" by simp
  moreover have "t = u"
    using queue_okD(3) [OF ok, of p] t u eq p by (auto simp: distinct_map inj_on_def)
  ultimately show ?thesis by simp
qed

lemma enqueue_levels: "queue_ok q \<Longrightarrow> lvl (enqueue t p q) = (lvl q)(p := lvl q p @ [t])"
  by (simp add: enqueue_def level_push_back queue_okD(1))

lemma enqueue_ok:
  assumes ok: "queue_ok q" and fresh: "hm_get (pq_index q) (qt_id t) = None"
  shows "queue_ok (enqueue t p q)"
proof -
  have "qt_id t \<notin> qt_id ` set (lvl q p')" for p'
    using queue_okD(2) [OF ok, of "qt_id t" p'] fresh by auto
  moreover have "buckets_ok (pq_buckets (enqueue t p q))"
    using ok by (simp add: enqueue_def buckets_ok_push_back queue_okD(1))
  ultimately show ?thesis
    using ok unfolding queue_ok_def enqueue_levels [OF ok]
    by (auto simp: enqueue_def)
qed

text \<open>Taking one task out of a level and its id out of the index.\<close>

lemma queue_ok_take:
  assumes ok: "queue_ok q" and tf: "take_first pred (lvl q p) = Some (t, rest)"
    and b: "buckets_ok b'" "level b' = (lvl q)(p := rest)"
  shows "queue_ok (q\<lparr>pq_buckets := b', pq_index := hm_remove (qt_id t) (pq_index q)\<rparr>)"
proof -
  have m: "mset (lvl q p) = add_mset t (mset rest)" using take_first_mset [OF tf] by simp
  have dist: "distinct (map qt_id (lvl q p))" by (rule queue_okD(3) [OF ok])
  have "mset (map qt_id (lvl q p)) = mset (qt_id t # map qt_id rest)" using m by simp
  with dist have dr: "distinct (qt_id t # map qt_id rest)" by (metis mset_eq_imp_distinct_iff)
  have set_eq: "set (lvl q p) = insert t (set rest)" using arg_cong [OF m, of set_mset] by simp
  have other: "qt_id t \<notin> qt_id ` set (lvl q p')" if "p' \<noteq> p" for p'
    using level_unique [OF ok, of t p _ p'] that set_eq by auto
  have idx: "hm_get (pq_index q) i = Some p' \<longleftrightarrow> i \<in> qt_id ` set (lvl q p')" for i p'
    by (rule queue_okD(2) [OF ok])
  have "hm_get (hm_remove (qt_id t) (pq_index q)) i = Some p' \<longleftrightarrow> i \<in> qt_id ` set (level b' p')" for i p'
    using dr set_eq other by (auto simp: b(2) idx)
  then show ?thesis
    using ok b dr by (simp add: queue_ok_def)
qed

section \<open>Dequeue\<close>

text \<open>
  What \<open>dequeue\<close> returns: the first unreserved task of the first level that has one.
\<close>

definition dequeues :: "priority_queue \<Rightarrow> task_priority \<Rightarrow> queued_task \<Rightarrow> priority_queue \<Rightarrow> bool" where
  "dequeues q p t q' \<longleftrightarrow>
     (\<exists>rest. take_first (\<lambda>t. \<not> qt_reserved t) (lvl q p) = Some (t, rest) \<and> lvl q' = (lvl q)(p := rest))
     \<and> (\<forall>p' < p. \<forall>u \<in> set (lvl q p'). qt_reserved u)"

lemma dequeue_loop_result:
  assumes ok: "queue_ok q" and sorted: "sorted_wrt (<) ps"
    and rest: "\<And>p. p \<notin> set ps \<Longrightarrow> (\<forall>p' \<in> set ps. p < p') \<Longrightarrow> \<forall>u \<in> set (lvl q p). qt_reserved u"
    and all: "\<And>p. lvl q p \<noteq> [] \<Longrightarrow> p \<in> set ps \<or> (\<forall>p' \<in> set ps. p < p')"
  shows "case dequeue_loop ps q of
     (q', None) \<Rightarrow> q' = q \<and> (\<forall>p. \<forall>u \<in> set (lvl q p). qt_reserved u)
   | (q', Some t) \<Rightarrow> (\<exists>p. dequeues q p t q') \<and> queue_ok q'"
  using sorted rest all
proof (induction ps)
  case Nil
  then show ?case by simp
next
  case (Cons p ps)
  let ?pred = "\<lambda>t. \<not> qt_reserved t"
  show ?case
  proof (cases "take_from p ?pred (pq_buckets q)")
    case None
    then have none: "\<forall>u \<in> set (lvl q p). qt_reserved u" by (simp add: take_from_None)
    have "case dequeue_loop ps q of
       (q', None) \<Rightarrow> q' = q \<and> (\<forall>p. \<forall>u \<in> set (lvl q p). qt_reserved u)
     | (q', Some t) \<Rightarrow> (\<exists>p. dequeues q p t q') \<and> queue_ok q'"
    proof (rule Cons.IH)
      show "sorted_wrt (<) ps" using Cons.prems(1) by simp
      show "\<forall>u \<in> set (lvl q p'). qt_reserved u" if "p' \<notin> set ps" "\<forall>r \<in> set ps. p' < r" for p'
        using that none Cons.prems(2) [of p'] Cons.prems(3) [of p'] by (cases "p' = p"; cases "lvl q p'") auto
      show "p' \<in> set ps \<or> (\<forall>r \<in> set ps. p' < r)" if "lvl q p' \<noteq> []" for p'
        using Cons.prems(1,3) that by fastforce
    qed
    then show ?thesis using None by simp
  next
    case (Some tb)
    obtain t b where tb: "tb = (t, b)" by (cases tb)
    obtain rest where r: "take_first ?pred (lvl q p) = Some (t, rest)" "level b = (lvl q)(p := rest)" "buckets_ok b"
      using take_from_Some [OF Some [unfolded tb] queue_okD(1) [OF ok]] by blast
    have below: "\<forall>u \<in> set (lvl q p'). qt_reserved u" if "p' < p" for p'
    proof (rule Cons.prems(2))
      show "p' \<notin> set (p # ps)" using that Cons.prems(1) by auto
      show "\<forall>r \<in> set (p # ps). p' < r" using that Cons.prems(1) by auto
    qed
    have "queue_ok (q\<lparr>pq_buckets := b, pq_index := hm_remove (qt_id t) (pq_index q)\<rparr>)"
      by (rule queue_ok_take [OF ok r(1) r(3) r(2)])
    moreover have "dequeues q p t (q\<lparr>pq_buckets := b, pq_index := hm_remove (qt_id t) (pq_index q)\<rparr>)"
      using r below by (auto simp: dequeues_def)
    ultimately show ?thesis by (auto simp: Some tb)
  qed
qed

lemma dequeue_result:
  assumes "queue_ok q"
  shows "case dequeue q of
     (q', None) \<Rightarrow> q' = q \<and> (\<forall>p. \<forall>u \<in> set (lvl q p). qt_reserved u)
   | (q', Some t) \<Rightarrow> (\<exists>p. dequeues q p t q') \<and> queue_ok q'"
  unfolding dequeue_def
proof (rule dequeue_loop_result [OF assms])
  have ok: "buckets_ok (pq_buckets q)" by (rule queue_okD(1) [OF assms])
  show "sorted_wrt (<) (map fst (pq_buckets q))" using ok by (simp add: buckets_ok_def bt_wf_def)
  have mem: "p \<in> set (map fst (pq_buckets q))" if "lvl q p \<noteq> []" for p
    using that bt_get_level [OF ok, of p] by (simp add: bt_get_def) (metis fst_conv image_eqI map_of_SomeD)
  then show "p \<in> set (map fst (pq_buckets q)) \<or> (\<forall>p' \<in> set (map fst (pq_buckets q)). p < p')"
    if "lvl q p \<noteq> []" for p
    using that by blast
  show "\<forall>u \<in> set (lvl q p). qt_reserved u" if "p \<notin> set (map fst (pq_buckets q))" for p
    using that mem by (metis empty_iff list.set(1))
qed

section \<open>Operations on one task\<close>

lemma update_first_None: "update_first p f xs = None \<longleftrightarrow> (\<forall>x \<in> set xs. \<not> p x)"
  by (induction xs) auto

lemma update_first_ids:
  "update_first (\<lambda>t. qt_id t = i) f xs = Some ys \<Longrightarrow> distinct (map qt_id xs) \<Longrightarrow>
     ys = map (\<lambda>t. if qt_id t = i then f t else t) xs"
proof (induction xs arbitrary: ys)
  case (Cons x xs)
  show ?case
  proof (cases "qt_id x = i")
    case True
    have "\<forall>t \<in> set xs. qt_id t \<noteq> i" using Cons.prems(2) True by (metis distinct.simps(2) image_eqI list.set_map list.simps(9))
    then have "map (\<lambda>t. if qt_id t = i then f t else t) xs = xs" by (simp add: map_idI)
    then show ?thesis using True Cons.prems(1) by simp
  next
    case False
    then show ?thesis using Cons by auto
  qed
qed simp

lemma update_task_result:
  assumes ok: "queue_ok q" and f: "\<And>t. qt_id (f t) = qt_id t"
  shows "(case hm_get (pq_index q) i of
      None \<Rightarrow> update_task i f q = (q, False)
    | Some p \<Rightarrow> \<exists>q'. update_task i f q = (q', True) \<and> queue_ok q' \<and> pq_index q' = pq_index q
        \<and> lvl q' = (lvl q)(p := map (\<lambda>t. if qt_id t = i then f t else t) (lvl q p)))"
proof (cases "hm_get (pq_index q) i")
  case None
  then show ?thesis by (simp add: update_task_def)
next
  case (Some p)
  have bok: "buckets_ok (pq_buckets q)" by (rule queue_okD(1) [OF ok])
  then have wf: "bt_wf (pq_buckets q)" by (simp add: buckets_ok_def)
  have i: "i \<in> qt_id ` set (lvl q p)" using queue_okD(2) [OF ok] Some by blast
  then have ne: "lvl q p \<noteq> []" by auto
  have get: "bt_get (pq_buckets q) p = Some (lvl q p)" using bt_get_level [OF bok] ne by simp
  let ?ys = "map (\<lambda>t. if qt_id t = i then f t else t) (lvl q p)"
  have "update_first (\<lambda>t. qt_id t = i) f (lvl q p) \<noteq> None"
    using i by (auto simp: update_first_None)
  then have upd: "update_first (\<lambda>t. qt_id t = i) f (lvl q p) = Some ?ys"
    using update_first_ids [OF _ queue_okD(3) [OF ok]] by blast
  let ?q = "q\<lparr>pq_buckets := bt_insert p ?ys (pq_buckets q)\<rparr>"
  have lv: "lvl ?q = (lvl q)(p := ?ys)" by (simp add: level_insert [OF wf])
  have ids: "map qt_id ?ys = map qt_id (lvl q p)" using f by simp
  then have ids': "map qt_id (lvl ?q r) = map qt_id (lvl q r)" for r unfolding lv by simp
  have img: "qt_id ` set (lvl ?q r) = qt_id ` set (lvl q r)" for r
    using arg_cong [OF ids', of set r] by simp
  have "buckets_ok (pq_buckets ?q)" using buckets_ok_insert [OF bok] ne by simp
  then have qok: "queue_ok ?q"
    using ok unfolding queue_ok_def ids' img by simp
  have run: "update_task i f q = (?q, True)" by (simp add: update_task_def Some get upd)
  show ?thesis
    unfolding Some option.case
    by (rule exI [of _ ?q], intro conjI) (fact run, fact qok, simp, fact lv)
qed

lemma take_task_result:
  assumes ok: "queue_ok q" and pred: "\<And>t. pred t \<Longrightarrow> qt_id t = i"
  shows "case take_task i pred q of
      (q', None) \<Rightarrow> q' = q \<and> (\<forall>p. \<forall>t \<in> set (lvl q p). \<not> pred t)
    | (q', Some t) \<Rightarrow> pred t \<and> queue_ok q'
        \<and> (\<exists>p rest. take_first pred (lvl q p) = Some (t, rest) \<and> lvl q' = (lvl q)(p := rest))"
proof (cases "hm_get (pq_index q) i")
  case None
  have "\<not> pred t" if "t \<in> set (lvl q p)" for p t
    using that pred [of t] queue_okD(2) [OF ok, of i p] None by auto
  then show ?thesis using None by (auto simp: take_task_def)
next
  case (Some p)
  show ?thesis
  proof (cases "take_from p pred (pq_buckets q)")
    case none: None
    have "\<not> pred t" if t: "t \<in> set (lvl q r)" for r t
    proof
      assume "pred t"
      then have "hm_get (pq_index q) i = Some r" using queue_okD(2) [OF ok, of i r] t pred by auto
      then have "r = p" using Some by simp
      then show False using none t \<open>pred t\<close> by (simp add: take_from_None)
    qed
    then show ?thesis using Some none by (auto simp: take_task_def)
  next
    case some: (Some tb)
    obtain t b where tb: "tb = (t, b)" by (cases tb)
    obtain rest where r: "take_first pred (lvl q p) = Some (t, rest)" "level b = (lvl q)(p := rest)" "buckets_ok b"
      using take_from_Some [OF some [unfolded tb] queue_okD(1) [OF ok]] by blast
    have "pred t" using take_first_mset [OF r(1)] by simp
    then have "qt_id t = i" by (rule pred)
    then show ?thesis
      using queue_ok_take [OF ok r(1) r(3) r(2)] r \<open>pred t\<close> Some some tb by (auto simp: take_task_def)
  qed
qed

section \<open>Timeout boosts\<close>

definition boosted :: "datetime \<Rightarrow> task_priority \<Rightarrow> queued_task \<Rightarrow> queued_task" where
  "boosted now p t = t\<lparr>qt_effective_priority := p, qt_enqueued_at := now\<rparr>"

lemma filter_neq_id: "x \<notin> set xs \<Longrightarrow> filter (\<lambda>v. v \<noteq> x) xs = xs"
  by (induction xs) auto

lemma take_first_id:
  "t \<in> set xs \<Longrightarrow> distinct (map qt_id xs) \<Longrightarrow>
     take_first (\<lambda>u. qt_id u = qt_id t) xs = Some (t, filter (\<lambda>u. u \<noteq> t) xs)"
proof (induction xs)
  case (Cons x xs)
  show ?case
  proof (cases "x = t")
    case True
    then have "\<forall>u \<in> set xs. u \<noteq> t" using Cons.prems by auto
    then show ?thesis using True by simp
  next
    case False
    then have "t \<in> set xs" using Cons.prems by simp
    then have "qt_id x \<noteq> qt_id t" using Cons.prems(2) by (auto dest: imageI)
    then show ?thesis using Cons \<open>t \<in> set xs\<close> False by simp
  qed
qed simp

lemma queue_ok_cong:
  "queue_ok q \<Longrightarrow> pq_buckets q' = pq_buckets q \<Longrightarrow> hm_get (pq_index q') = hm_get (pq_index q) \<Longrightarrow> queue_ok q'"
  by (simp add: queue_ok_def)

lemma boost_one_result:
  assumes ok: "queue_ok q" and t: "t \<in> set (lvl q p)" and new: "new \<noteq> p"
  shows "queue_ok (boost_one now (qt_id t, p, new) q)"
    "lvl (boost_one now (qt_id t, p, new) q) =
       (lvl q)(p := filter (\<lambda>u. u \<noteq> t) (lvl q p), new := lvl q new @ [boosted now new t])"
proof -
  let ?pred = "\<lambda>u. qt_id u = qt_id t"
  have tf: "take_first ?pred (lvl q p) = Some (t, filter (\<lambda>u. u \<noteq> t) (lvl q p))"
    by (rule take_first_id [OF t queue_okD(3) [OF ok]])
  then have "take_from p ?pred (pq_buckets q) \<noteq> None"
    using t by (auto simp: take_from_None)
  then obtain u b where ub: "take_from p ?pred (pq_buckets q) = Some (u, b)" by auto
  from take_from_Some [OF this queue_okD(1) [OF ok]] tf
  have b: "u = t" "level b = (lvl q)(p := filter (\<lambda>u. u \<noteq> t) (lvl q p))" "buckets_ok b" by auto
  let ?q1 = "q\<lparr>pq_buckets := b, pq_index := hm_remove (qt_id t) (pq_index q)\<rparr>"
  have ok1: "queue_ok ?q1" by (rule queue_ok_take [OF ok tf b(3,2)])
  have run: "boost_one now (qt_id t, p, new) q = q\<lparr>pq_index := hm_insert (qt_id t) new (pq_index q),
      pq_buckets := push_back (boosted now new t) new b\<rparr>"
    by (simp add: boost_one_def ub b(1) boosted_def)
  have eq: "pq_buckets (boost_one now (qt_id t, p, new) q) = pq_buckets (enqueue (boosted now new t) new ?q1)"
    by (simp add: run enqueue_def)
  show "queue_ok (boost_one now (qt_id t, p, new) q)"
  proof (rule queue_ok_cong [OF enqueue_ok [OF ok1] eq])
    show "hm_get (pq_index ?q1) (qt_id (boosted now new t)) = None" by (simp add: boosted_def)
    show "hm_get (pq_index (boost_one now (qt_id t, p, new) q))
        = hm_get (pq_index (enqueue (boosted now new t) new ?q1))"
      by (rule ext) (simp add: run enqueue_def boosted_def)
  qed
  show "lvl (boost_one now (qt_id t, p, new) q) =
       (lvl q)(p := filter (\<lambda>u. u \<noteq> t) (lvl q p), new := lvl q new @ [boosted now new t])"
    unfolding eq enqueue_levels [OF ok1] using b(2) new by (auto simp: fun_eq_iff)
qed

lemma boost_bucket_result:
  assumes "queue_ok q" "set ts \<subseteq> set (lvl q p)" "distinct ts" "new \<noteq> p"
  shows "queue_ok (fold (boost_one now) (map (\<lambda>t. (qt_id t, p, new)) ts) q)
     \<and> lvl (fold (boost_one now) (map (\<lambda>t. (qt_id t, p, new)) ts) q) =
       (lvl q)(p := filter (\<lambda>u. u \<notin> set ts) (lvl q p), new := lvl q new @ map (boosted now new) ts)"
  using assms
proof (induction ts arbitrary: q)
  case Nil
  then show ?case by simp
next
  case (Cons t ts)
  have t: "t \<in> set (lvl q p)" using Cons.prems(2) by simp
  let ?q1 = "boost_one now (qt_id t, p, new) q"
  note r = boost_one_result [OF Cons.prems(1) t Cons.prems(4), of now]
  have sub: "set ts \<subseteq> set (lvl ?q1 p)"
    unfolding r(2) using Cons.prems by auto
  have IH: "queue_ok (fold (boost_one now) (map (\<lambda>t. (qt_id t, p, new)) ts) ?q1)"
    "lvl (fold (boost_one now) (map (\<lambda>t. (qt_id t, p, new)) ts) ?q1) =
       (lvl ?q1)(p := filter (\<lambda>u. u \<notin> set ts) (lvl ?q1 p), new := lvl ?q1 new @ map (boosted now new) ts)"
    using Cons.IH [OF r(1) sub _ Cons.prems(4)] Cons.prems(3) by auto
  have fold_eq: "fold (boost_one now) (map (\<lambda>t. (qt_id t, p, new)) (t # ts)) q
      = fold (boost_one now) (map (\<lambda>t. (qt_id t, p, new)) ts) ?q1" by simp
  show ?case
    unfolding fold_eq using IH(1) unfolding IH(2) r(2)
    using Cons.prems(4) by (auto simp: fun_eq_iff filter_filter intro: filter_cong)
qed

lemma concat_over_levels:
  assumes "bt_wf b" "sorted_wrt (<) ps" "fst ` set b \<subseteq> set ps" "\<And>p. g (p, []) = []"
  shows "concat (map g b) = concat (map (\<lambda>p. g (p, level b p)) ps)"
  using assms(1-3)
proof (induction ps arbitrary: b)
  case (Cons p ps)
  have lev_ps: "map (\<lambda>r. g (r, level ((p, d) # b') r)) ps = map (\<lambda>r. g (r, level b' r)) ps" for d b'
    using Cons.prems(2) by (auto simp: level_def bt_get_Cons)
  show ?case
  proof (cases "b \<noteq> [] \<and> fst (hd b) = p")
    case True
    then obtain d b' where b: "b = (p, d) # b'" by (cases b) auto
    have "fst ` set b' \<subseteq> set ps"
      using Cons.prems(1,3) by (auto simp: b bt_wf_Cons)
    then have "concat (map g b') = concat (map (\<lambda>p. g (p, level b' p)) ps)"
      using Cons.IH Cons.prems(1,2) by (simp add: b bt_wf_Cons)
    moreover have "level b p = d" by (simp add: b level_def bt_get_Cons)
    ultimately show ?thesis unfolding list.map concat.simps b by (simp add: lev_ps [of d b', symmetric])
  next
    case False
    have notin: "p \<notin> fst ` set b"
    proof
      assume p: "p \<in> fst ` set b"
      then obtain e b' where b: "b = e # b'" by (cases b) auto
      have "fst e \<noteq> p" using False b by simp
      then have "fst e < p" using p Cons.prems(1) by (cases e) (auto simp: b bt_wf_Cons)
      moreover have "fst e \<in> set (p # ps)" using Cons.prems(3) b by auto
      ultimately show False using Cons.prems(2) by auto
    qed
    then have "map_of b p = None" by (simp add: map_of_eq_None_iff)
    then have "level b p = []" by (simp add: level_def bt_get_def)
    moreover have "fst ` set b \<subseteq> set ps" using Cons.prems(3) notin by auto
    ultimately show ?thesis using Cons.IH Cons.prems(1,2) assms(4) by simp
  qed
qed simp

fun demote_priority :: "task_priority \<Rightarrow> task_priority option" where
  "demote_priority Critical = Some High"
| "demote_priority High = Some Normal"
| "demote_priority Normal = Some Low"
| "demote_priority Low = Some Background"
| "demote_priority Background = None"

lemma demote_boost: "demote_priority p = Some p' \<longleftrightarrow> boost_priority p' = Some p"
  by (cases p; cases p') simp_all

text \<open>
  The levels after a round of boosts: the tasks that are due leave their level and join the
  end of the next one, in order, with their timer restarted.
\<close>

definition after_boosts ::
  "datetime \<Rightarrow> int \<Rightarrow> (task_priority \<Rightarrow> queued_task list) \<Rightarrow> task_priority \<Rightarrow> queued_task list" where
  "after_boosts now timeout_secs L p =
     filter (\<lambda>t. p = Critical \<or> \<not> boost_due now timeout_secs t) (L p)
     @ (case demote_priority p of
          None \<Rightarrow> []
        | Some p' \<Rightarrow> map (boosted now p) (filter (boost_due now timeout_secs) (L p')))"

definition timeout_secs :: "priority_queue \<Rightarrow> int" where
  "timeout_secs q = sint (of_nat (pq_boost_timeout q div 10 ^ 9) :: u64)"

lemma to_boost_levels:
  assumes "queue_ok q"
  shows "to_boost now q =
     concat (map (\<lambda>p. boosts_of_bucket now (timeout_secs q) (p, lvl q p)) priority_all)"
  unfolding to_boost_def timeout_secs_def [symmetric]
proof (rule concat_over_levels)
  show "bt_wf (pq_buckets q)" using queue_okD(1) [OF assms] by (simp add: buckets_ok_def)
  show "sorted_wrt (<) priority_all" by (simp add: priority_all_def less_task_priority_def)
  have "set priority_all = UNIV"
  proof
    show "UNIV \<subseteq> set priority_all" using task_priority.exhaust by (auto simp: priority_all_def)
  qed simp
  then show "fst ` set (pq_buckets q) \<subseteq> set priority_all" by simp
qed (simp add: boosts_of_bucket_def split: option.splits)

lemma boost_level_result:
  assumes ok: "queue_ok q" and new: "boost_priority p = Some new"
  shows "queue_ok (fold (boost_one now) (boosts_of_bucket now T (p, lvl q p)) q)
    \<and> lvl (fold (boost_one now) (boosts_of_bucket now T (p, lvl q p)) q) =
      (lvl q)(p := filter (\<lambda>u. \<not> boost_due now T u) (lvl q p),
              new := lvl q new @ map (boosted now new) (filter (boost_due now T) (lvl q p)))"
proof -
  let ?ts = "filter (boost_due now T) (lvl q p)"
  have "new \<noteq> p" using new by (cases p) auto
  moreover have "distinct ?ts" using queue_okD(3) [OF ok, of p] by (simp add: distinct_map)
  moreover have "filter (\<lambda>u. u \<notin> set ?ts) (lvl q p) = filter (\<lambda>u. \<not> boost_due now T u) (lvl q p)"
    by (rule filter_cong) auto
  ultimately show ?thesis
    using boost_bucket_result [OF ok, of ?ts p new now] new by (simp add: boosts_of_bucket_def)
qed

lemma apply_timeout_boosts_result:
  assumes ok: "queue_ok q"
  shows "queue_ok (fst (apply_timeout_boosts now q))
    \<and> lvl (fst (apply_timeout_boosts now q)) = after_boosts now (timeout_secs q) (lvl q)"
proof -
  let ?T = "timeout_secs q" and ?B = "boost_one now"
  define L where "L = lvl q"
  define q1 where "q1 = fold ?B (boosts_of_bucket now ?T (High, L High)) q"
  define q2 where "q2 = fold ?B (boosts_of_bucket now ?T (Normal, L Normal)) q1"
  define q3 where "q3 = fold ?B (boosts_of_bucket now ?T (Low, L Low)) q2"
  define q4 where "q4 = fold ?B (boosts_of_bucket now ?T (Background, L Background)) q3"
  have "fst (apply_timeout_boosts now q) = q4"
    unfolding apply_timeout_boosts_def to_boost_levels [OF ok] q4_def q3_def q2_def q1_def L_def
    by (simp add: priority_all_def boosts_of_bucket_def)
  moreover have r1: "queue_ok q1 \<and> lvl q1 = L(High := filter (\<lambda>u. \<not> boost_due now ?T u) (L High),
      Critical := L Critical @ map (boosted now Critical) (filter (boost_due now ?T) (L High)))"
    using boost_level_result [OF ok, of High Critical now ?T] by (simp add: q1_def L_def)
  then have n1: "lvl q1 Normal = L Normal" "lvl q1 Low = L Low" "lvl q1 Background = L Background" by simp_all
  have r2: "queue_ok q2 \<and> lvl q2 = (lvl q1)(Normal := filter (\<lambda>u. \<not> boost_due now ?T u) (L Normal),
      High := lvl q1 High @ map (boosted now High) (filter (boost_due now ?T) (L Normal)))"
    using boost_level_result [of q1 Normal High now ?T] r1 n1 by (simp add: q2_def)
  then have n2: "lvl q2 Low = L Low" "lvl q2 Background = L Background" using n1 by simp_all
  have r3: "queue_ok q3 \<and> lvl q3 = (lvl q2)(Low := filter (\<lambda>u. \<not> boost_due now ?T u) (L Low),
      Normal := lvl q2 Normal @ map (boosted now Normal) (filter (boost_due now ?T) (L Low)))"
    using boost_level_result [of q2 Low Normal now ?T] r2 n2 by (simp add: q3_def)
  then have n3: "lvl q3 Background = L Background" using n2 by simp
  have r4: "queue_ok q4 \<and> lvl q4 = (lvl q3)(Background := filter (\<lambda>u. \<not> boost_due now ?T u) (L Background),
      Low := lvl q3 Low @ map (boosted now Low) (filter (boost_due now ?T) (L Background)))"
    using boost_level_result [of q3 Background Low now ?T] r3 n3 by (simp add: q4_def)
  have "lvl q4 p = after_boosts now ?T L p" for p
    using r1 r2 r3 r4 by (cases p) (simp_all add: after_boosts_def)
  then show ?thesis using calculation r4 by (auto simp: L_def fun_eq_iff)
qed

section \<open>The contract of the queue\<close>

text \<open>
  What a client of the queue relies on, stated over the levels. \<open>free\<close> says that a task may be
  handed out, \<open>fresh\<close> that a task may be put in.
\<close>

locale leveled_queue =
  fixes lev :: "'q \<Rightarrow> 'p::linorder \<Rightarrow> 't list"
    and enq :: "'t \<Rightarrow> 'p \<Rightarrow> 'q \<Rightarrow> 'q"
    and deq :: "'q \<Rightarrow> 'q \<times> 't option"
    and free :: "'t \<Rightarrow> bool"
    and fresh :: "'t \<Rightarrow> 'q \<Rightarrow> bool"
    and invar :: "'q \<Rightarrow> bool"
  assumes enq_lev: "invar q \<Longrightarrow> lev (enq t p q) = (lev q)(p := lev q p @ [t])"
    and enq_invar: "invar q \<Longrightarrow> fresh t q \<Longrightarrow> invar (enq t p q)"
    and deq_none: "invar q \<Longrightarrow> deq q = (q', None) \<Longrightarrow> q' = q \<and> (\<forall>p. \<forall>u \<in> set (lev q p). \<not> free u)"
    and deq_some: "invar q \<Longrightarrow> deq q = (q', Some t) \<Longrightarrow> invar q' \<and>
      (\<exists>p rest. take_first free (lev q p) = Some (t, rest) \<and> lev q' = (lev q)(p := rest)
         \<and> (\<forall>p' < p. \<forall>u \<in> set (lev q p'). \<not> free u))"
begin

lemma deq_available: "invar q \<Longrightarrow> t \<in> set (lev q p) \<Longrightarrow> free t \<Longrightarrow> \<exists>q' u. deq q = (q', Some u)"
  using deq_none by (metis option.exhaust prod.exhaust)

lemma deq_priority:
  assumes "invar q" "deq q = (q', Some t)"
  shows "free t \<and> (\<exists>p. t \<in> set (lev q p) \<and> (\<forall>p' u. u \<in> set (lev q p') \<and> free u \<longrightarrow> p \<le> p'))"
proof -
  obtain p rest where p: "take_first free (lev q p) = Some (t, rest)"
      "\<forall>p' < p. \<forall>u \<in> set (lev q p'). \<not> free u"
    using deq_some [OF assms] by blast
  have "free t" "t \<in> set (lev q p)"
    using take_first_mset [OF p(1)] by (auto dest: arg_cong [of _ _ set_mset])
  moreover have "p \<le> p'" if "u \<in> set (lev q p') \<and> free u" for p' u
    using p(2) that by (meson not_le)
  ultimately show ?thesis by blast
qed

lemma enq_deq:
  assumes inv: "invar q" and t: "free t" "fresh t q" and none: "\<forall>p. \<forall>u \<in> set (lev q p). \<not> free u"
  shows "\<exists>q'. deq (enq t p q) = (q', Some t) \<and> lev q' = lev q"
proof -
  let ?q = "enq t p q"
  have inv': "invar ?q" by (rule enq_invar [OF inv t(2)])
  have lv: "lev ?q = (lev q)(p := lev q p @ [t])" by (rule enq_lev [OF inv])
  obtain q' u where d: "deq ?q = (q', Some u)"
    using deq_available [OF inv', of t p] lv t(1) by auto
  obtain r rest where r: "take_first free (lev ?q r) = Some (u, rest)" "lev q' = (lev ?q)(r := rest)"
    using deq_some [OF inv' d] by blast
  obtain as bs where s: "lev ?q r = as @ u # bs" "rest = as @ bs" "free u"
    using take_first_split [OF r(1)] by blast
  have "r = p"
  proof (rule ccontr)
    assume "r \<noteq> p"
    then have "u \<in> set (lev q r)" using s(1) lv by simp
    then show False using none s(3) by blast
  qed
  then have eq: "lev q p @ [t] = as @ u # bs" using s(1) lv by simp
  have "bs = []"
  proof (rule ccontr)
    assume "bs \<noteq> []"
    then have "u \<in> set (butlast (as @ u # bs))" by (simp add: butlast_append)
    then have "u \<in> set (lev q p)" unfolding eq [symmetric] by simp
    then show False using none s(3) by blast
  qed
  then have "u = t" "rest = lev q p" using eq s(2) by simp_all
  then show ?thesis using d r(2) lv \<open>r = p\<close> by (auto simp: fun_eq_iff)
qed

end

interpretation pq: leveled_queue lvl enqueue dequeue "\<lambda>t. \<not> qt_reserved t"
  "\<lambda>t q. hm_get (pq_index q) (qt_id t) = None" queue_ok
proof
  fix q q' :: priority_queue and t p
  assume ok: "queue_ok q"
  show "lvl (enqueue t p q) = (lvl q)(p := lvl q p @ [t])" by (rule enqueue_levels [OF ok])
  show "hm_get (pq_index q) (qt_id t) = None \<Longrightarrow> queue_ok (enqueue t p q)" by (rule enqueue_ok [OF ok])
  show "dequeue q = (q', None) \<Longrightarrow> q' = q \<and> (\<forall>p. \<forall>u \<in> set (lvl q p). \<not> \<not> qt_reserved u)"
    using dequeue_result [OF ok] by simp
  show "dequeue q = (q', Some t) \<Longrightarrow> queue_ok q' \<and>
      (\<exists>p rest. take_first (\<lambda>t. \<not> qt_reserved t) (lvl q p) = Some (t, rest) \<and> lvl q' = (lvl q)(p := rest)
         \<and> (\<forall>p' < p. \<forall>u \<in> set (lvl q p'). \<not> \<not> qt_reserved u))"
    using dequeue_result [OF ok] by (auto simp: dequeues_def)
qed

section \<open>Reachable queues\<close>

inductive queue_step :: "priority_queue \<Rightarrow> priority_queue \<Rightarrow> bool" where
  enqueue: "hm_get (pq_index q) (qt_id t) = None \<Longrightarrow> queue_step q (enqueue t p q)"
| dequeue: "queue_step q (fst (dequeue q))"
| drain: "queue_step q (fst (drain_by_priority p q))"
| reserve: "queue_step q (fst (reserve i node q))"
| confirm: "queue_step q (fst (confirm_reservation i q))"
| cancel: "queue_step q (fst (cancel_reservation i q))"
| remove: "queue_step q (fst (remove_task i q))"
| boost: "queue_step q (fst (apply_timeout_boosts now q))"

lemma update_task_ok:
  assumes "queue_ok q" "\<And>t. qt_id (f t) = qt_id t"
  shows "queue_ok (fst (update_task i f q))"
  using update_task_result [OF assms, of i] assms(1) by (cases "hm_get (pq_index q) i") auto

lemma take_task_ok:
  assumes "queue_ok q" "\<And>t. pred t \<Longrightarrow> qt_id t = i"
  shows "queue_ok (fst (take_task i pred q))"
  using take_task_result [of q pred i, OF assms] assms(1) by (auto split: prod.splits option.splits)

lemma fold_remove_get: "hm_get (fold (\<lambda>t. hm_remove (qt_id t)) d m) i =
    (if i \<in> qt_id ` set d then None else hm_get m i)"
  by (induction d arbitrary: m) auto

lemma drain_result:
  assumes ok: "queue_ok q"
  shows "snd (drain_by_priority p q) = lvl q p \<and> lvl (fst (drain_by_priority p q)) = (lvl q)(p := [])
    \<and> queue_ok (fst (drain_by_priority p q))"
proof (cases "lvl q p = []")
  case True
  then have "bt_get (pq_buckets q) p = None" using bt_get_level [OF queue_okD(1) [OF ok]] by simp
  then show ?thesis using True ok by (auto simp: drain_by_priority_def)
next
  case False
  then have get: "bt_get (pq_buckets q) p = Some (lvl q p)"
    using bt_get_level [OF queue_okD(1) [OF ok]] by simp
  let ?q = "fst (drain_by_priority p q)"
  have q: "?q = q\<lparr>pq_buckets := bt_remove p (pq_buckets q),
      pq_index := fold (\<lambda>t. hm_remove (qt_id t)) (lvl q p) (pq_index q)\<rparr>"
    and d: "snd (drain_by_priority p q) = lvl q p"
    by (simp_all add: drain_by_priority_def get)
  have lv: "lvl ?q = (lvl q)(p := [])" by (simp add: q level_remove)
  have disj: "i \<notin> qt_id ` set (lvl q p)" if "i \<in> qt_id ` set (lvl q p')" "p' \<noteq> p" for i p'
    using that level_unique [OF ok] by blast
  have "hm_get (pq_index ?q) i = Some p' \<longleftrightarrow> i \<in> qt_id ` set (lvl ?q p')" for i p'
    using disj [of i p'] queue_okD(2) [OF ok, of i p'] by (auto simp: q fold_remove_get level_remove)
  moreover have "buckets_ok (pq_buckets ?q)" by (simp add: q buckets_ok_remove queue_okD(1) [OF ok])
  ultimately have "queue_ok ?q"
    using queue_okD(3) [OF ok] by (simp add: queue_ok_def lv)
  then show ?thesis using d lv by simp
qed

lemma queue_step_ok: "queue_step q q' \<Longrightarrow> queue_ok q \<Longrightarrow> queue_ok q'"
proof (induction rule: queue_step.induct)
  case (dequeue q)
  then show ?case using dequeue_result [OF dequeue] by (auto split: prod.splits option.splits)
next
  case (drain q p)
  then show ?case using drain_result by blast
next
  case (boost q now)
  then show ?case using apply_timeout_boosts_result by blast
qed (auto simp: enqueue_ok reserve_def cancel_reservation_def confirm_reservation_def remove_task_def
    intro!: update_task_ok take_task_ok)

interpretation queue: invariant_machine queue_step queue_ok
  by unfold_locales (rule queue_step_ok)

section \<open>Properties of the queue\<close>

abbreviation sample_task :: "uuid \<Rightarrow> queued_task" where
  "sample_task i \<equiv> queued_task_new i 0 ''work'' requirements_default Low"

definition sample_queue :: priority_queue where
  "sample_queue = enqueue (sample_task 2) High (enqueue (sample_task 1) Low with_default_timeout)"

lemma sample_queue_reachable: "queue_step\<^sup>*\<^sup>* with_default_timeout sample_queue"
  unfolding sample_queue_def
  by (rule rtranclp.rtrancl_into_rtrancl, rule rtranclp.rtrancl_into_rtrancl, rule rtranclp.rtrancl_refl)
    (rule queue_step.enqueue, simp add: with_default_timeout_def queue_new_def queued_task_new_def enqueue_def)+

lemma sample_queue_ok: "queue_ok sample_queue"
  using queue.star_inv [OF sample_queue_reachable] queue_new_ok by (simp add: with_default_timeout_def)

lemma sample_queue_levels:
  "lvl sample_queue p = (if p = Low then [sample_task 1] else if p = High then [sample_task 2] else [])"
  by (simp add: sample_queue_def with_default_timeout_def queue_new_def enqueue_def push_back_def
      bt_get_def level_def less_task_priority_def)

text \<open>
  C9: \<open>dequeue\<close> hands out an unreserved task whenever there is one: the first one, in FIFO
  order, of the highest priority that has any. That task leaves its level, everything else
  stays where it is, and the index stays in step with the buckets. It returns \<open>None\<close> only
  when every task is reserved, and then changes nothing.
\<close>

theorem dequeue_highest_first:
  assumes "queue_ok q"
  shows "case dequeue q of
     (q', None) \<Rightarrow> q' = q \<and> (\<forall>p. \<forall>u \<in> set (level (pq_buckets q) p). qt_reserved u)
   | (q', Some t) \<Rightarrow> queue_ok q'
       \<and> (\<exists>p before after. level (pq_buckets q) p = before @ t # after \<and> \<not> qt_reserved t
            \<and> (\<forall>u \<in> set before. qt_reserved u)
            \<and> level (pq_buckets q') = (level (pq_buckets q))(p := before @ after)
            \<and> (\<forall>p' u. u \<in> set (level (pq_buckets q) p') \<and> \<not> qt_reserved u \<longrightarrow> p \<le> p'))"
proof -
  obtain q' res where d: "dequeue q = (q', res)" by force
  show ?thesis
  proof (cases res)
    case None
    then show ?thesis using pq.deq_none [OF assms] d by simp
  next
    case (Some t)
    obtain p rest where p: "take_first (\<lambda>t. \<not> qt_reserved t) (lvl q p) = Some (t, rest)"
        "lvl q' = (lvl q)(p := rest)" "\<forall>p' < p. \<forall>u \<in> set (lvl q p'). \<not> \<not> qt_reserved u" "queue_ok q'"
      using pq.deq_some [OF assms] d Some by blast
    obtain as bs where s: "lvl q p = as @ t # bs" "rest = as @ bs" "\<not> qt_reserved t"
        "\<forall>a \<in> set as. \<not> \<not> qt_reserved a"
      using take_first_split [OF p(1)] by blast
    have "p \<le> p'" if "u \<in> set (lvl q p') \<and> \<not> qt_reserved u" for p' u
      using p(3) that by (meson not_le)
    then have "\<exists>p before after. lvl q p = before @ t # after \<and> \<not> qt_reserved t
        \<and> (\<forall>u \<in> set before. qt_reserved u) \<and> lvl q' = (lvl q)(p := before @ after)
        \<and> (\<forall>p' u. u \<in> set (lvl q p') \<and> \<not> qt_reserved u \<longrightarrow> p \<le> p')"
      using s p(2) by (intro exI [of _ p] exI [of _ as] exI [of _ bs]) auto
    then show ?thesis using d Some p(4) by simp
  qed
qed

theorem dequeue_highest_first_witness: "snd (dequeue sample_queue) = Some (sample_task 2)"
proof -
  note r = dequeue_highest_first [OF sample_queue_ok]
  obtain q' res where d: "dequeue sample_queue = (q', res)" by force
  show ?thesis
  proof (cases res)
    case None
    then have "\<forall>u \<in> set (lvl sample_queue High). qt_reserved u" using r d by simp
    then show ?thesis by (simp add: sample_queue_levels queued_task_new_def)
  next
    case (Some t)
    obtain p before after where p: "lvl sample_queue p = before @ t # after"
        "\<forall>p' u. u \<in> set (lvl sample_queue p') \<and> \<not> qt_reserved u \<longrightarrow> p \<le> p'"
      using r d Some by auto
    have "p \<le> High" using p(2) by (auto simp: sample_queue_levels queued_task_new_def)
    then have "p = High" using p(1)
      by (cases p) (auto simp: sample_queue_levels less_eq_task_priority_def split: if_splits)
    then have "t = sample_task 2" using p(1) by (auto simp: sample_queue_levels Cons_eq_append_conv)
    then show ?thesis using d Some by simp
  qed
qed

text \<open>
  C10: in every queue reachable from an empty one by calls of the public methods (a task is
  enqueued only under an id that is not queued) the index maps exactly the queued ids, each to
  the bucket that holds it; ids are unique; and no bucket is empty, so \<open>is_empty\<close> agrees with
  \<open>len() == 0\<close>.
\<close>

theorem reachable_queue_consistent:
  assumes "queue_step\<^sup>*\<^sup>* (queue_new timeout) q"
  shows "(\<forall>i p. hm_get (pq_index q) i = Some p \<longleftrightarrow> (\<exists>t \<in> set (level (pq_buckets q) p). qt_id t = i))
     \<and> (\<forall>p. distinct (map qt_id (level (pq_buckets q) p)))
     \<and> (queue_is_empty q \<longleftrightarrow> queue_len q = 0)"
proof -
  have ok: "queue_ok q" using queue.star_inv [OF assms queue_new_ok] .
  have "hm_get (pq_index q) i = Some p \<longleftrightarrow> (\<exists>t \<in> set (lvl q p). qt_id t = i)" for i p
    using queue_okD(2) [OF ok, of i p] by auto
  moreover have "queue_is_empty q" if len: "queue_len q = 0"
  proof (rule ccontr)
    assume "\<not> queue_is_empty q"
    then obtain p d b where b: "pq_buckets q = (p, d) # b" by (cases "pq_buckets q") (auto simp: queue_is_empty_def)
    then have "bt_get (pq_buckets q) p = Some d" by (simp add: bt_get_Cons)
    then have "d \<noteq> []" using queue_okD(1) [OF ok] by (auto simp: buckets_ok_def)
    then show False using len b by (simp add: queue_len_def)
  qed
  moreover have "queue_len q = 0" if "queue_is_empty q"
    using that by (simp add: queue_is_empty_def queue_len_def)
  ultimately show ?thesis using queue_okD(3) [OF ok] by blast
qed

theorem reachable_queue_consistent_witness:
  "queue_step\<^sup>*\<^sup>* (queue_new (600 * 10 ^ 9)) sample_queue \<and> hm_get (pq_index sample_queue) 1 = Some Low"
proof -
  have r: "queue_step\<^sup>*\<^sup>* (queue_new (600 * 10 ^ 9)) sample_queue"
    using sample_queue_reachable by (simp add: with_default_timeout_def)
  from reachable_queue_consistent [OF r] have "hm_get (pq_index sample_queue) 1 = Some Low"
    by (simp add: sample_queue_levels queued_task_new_def)
  with r show ?thesis by simp
qed

text \<open>
  one round of timeout boosts. Every task that is due (unreserved and waiting at least the
  timeout, in whole seconds) and not already \<open>Critical\<close> moves up exactly one level, to the end
  of that level and in order, with its new effective priority and its timer restarted; every
  other task stays in place. The number returned is the number of tasks moved.
\<close>

theorem timeout_boosts_exact:
  assumes "queue_ok q"
  shows "queue_ok (fst (apply_timeout_boosts now q))
     \<and> (\<forall>p. level (pq_buckets (fst (apply_timeout_boosts now q))) p =
          filter (\<lambda>t. p = Critical \<or> \<not> boost_due now (timeout_secs q) t) (level (pq_buckets q) p)
          @ (case demote_priority p of
               None \<Rightarrow> []
             | Some p' \<Rightarrow> map (\<lambda>t. t\<lparr>qt_effective_priority := p, qt_enqueued_at := now\<rparr>)
                 (filter (boost_due now (timeout_secs q)) (level (pq_buckets q) p'))))
     \<and> snd (apply_timeout_boosts now q) =
          (\<Sum>p \<leftarrow> [High, Normal, Low, Background].
             length (filter (boost_due now (timeout_secs q)) (level (pq_buckets q) p)))"
proof -
  note r = apply_timeout_boosts_result [OF assms, of now]
  have "boosted now p = (\<lambda>t. t\<lparr>qt_effective_priority := p, qt_enqueued_at := now\<rparr>)" for p
    by (simp add: boosted_def fun_eq_iff)
  then have lv: "lvl (fst (apply_timeout_boosts now q)) p =
      filter (\<lambda>t. p = Critical \<or> \<not> boost_due now (timeout_secs q) t) (lvl q p)
          @ (case demote_priority p of
               None \<Rightarrow> []
             | Some p' \<Rightarrow> map (\<lambda>t. t\<lparr>qt_effective_priority := p, qt_enqueued_at := now\<rparr>)
                 (filter (boost_due now (timeout_secs q)) (lvl q p')))" for p
    using r by (simp add: after_boosts_def cong: option.case_cong)
  have "snd (apply_timeout_boosts now q) = (\<Sum>p \<leftarrow> [High, Normal, Low, Background].
             length (filter (boost_due now (timeout_secs q)) (lvl q p)))"
    by (simp add: apply_timeout_boosts_def to_boost_levels [OF assms] priority_all_def boosts_of_bucket_def)
  then show ?thesis using r lv by blast
qed

lemma sample_queue_timeout: "timeout_secs sample_queue = 600"
  by (simp add: timeout_secs_def sample_queue_def with_default_timeout_def queue_new_def enqueue_def)

theorem timeout_boosts_exact_witness:
  "level (pq_buckets (fst (apply_timeout_boosts (secs 600) sample_queue))) Normal
     = [(sample_task 1)\<lparr>qt_effective_priority := Normal, qt_enqueued_at := secs 600\<rparr>]"
  using timeout_boosts_exact [OF sample_queue_ok, of "secs 600"]
  by (simp add: sample_queue_levels boost_due_def num_seconds_def trunc_div_def sample_queue_timeout
      queued_task_new_def)

text \<open>
  reservations. Reserving a queued task succeeds exactly when its id is queued; afterwards
  \<open>dequeue\<close> does not return it. Cancelling brings every level back as it was, when the task
  was not reserved before, and confirming takes exactly this task out of the queue.
\<close>

theorem reservation_lifecycle:
  assumes ok: "queue_ok q" and t: "t \<in> set (level (pq_buckets q) p)"
    and free: "\<not> qt_reserved t" "qt_reserved_node t = None"
  shows "\<exists>q1. reserve (qt_id t) node q = (q1, True) \<and> queue_ok q1
     \<and> (\<forall>q2 u. dequeue q1 = (q2, Some u) \<longrightarrow> qt_id u \<noteq> qt_id t)
     \<and> (\<exists>q2. cancel_reservation (qt_id t) q1 = (q2, True) \<and> level (pq_buckets q2) = level (pq_buckets q))
     \<and> (\<exists>q2. confirm_reservation (qt_id t) q1 = (q2, Some (t\<lparr>qt_reserved := True, qt_reserved_node := Some node\<rparr>))
          \<and> level (pq_buckets q2) = (level (pq_buckets q))(p := filter (\<lambda>u. u \<noteq> t) (level (pq_buckets q) p)))"
proof -
  let ?f = "\<lambda>t. t\<lparr>qt_reserved := True, qt_reserved_node := Some node\<rparr>"
  let ?m = "\<lambda>f. map (\<lambda>u. if qt_id u = qt_id t then f u else u) (lvl q p)"
  have idx: "hm_get (pq_index q) (qt_id t) = Some p" using queue_okD(2) [OF ok] t by blast
  obtain q1 where q1: "reserve (qt_id t) node q = (q1, True)" "queue_ok q1" "pq_index q1 = pq_index q"
      "lvl q1 = (lvl q)(p := ?m ?f)"
    using update_task_result [OF ok, of ?f "qt_id t"] idx by (auto simp: reserve_def)
  have same: "u = t" "r = p" if "u \<in> set (lvl q r)" "qt_id u = qt_id t" for u r
    using level_unique [OF ok that(1) t that(2)] by simp_all
  have held: "qt_reserved u" if "u \<in> set (lvl q1 r)" "qt_id u = qt_id t" for u r
    using that same(2) [of u r] by (cases "r = p") (auto simp: q1(4))
  have deq: "qt_id u \<noteq> qt_id t" if "dequeue q1 = (q2, Some u)" for q2 u
    using pq.deq_priority [OF q1(2) that] held by blast
  have "map (\<lambda>u. if qt_id u = qt_id t then u\<lparr>qt_reserved := False, qt_reserved_node := None\<rparr> else u) (?m ?f) = lvl q p"
    unfolding map_map
  proof (rule map_idI)
    fix x assume x: "x \<in> set (lvl q p)"
    have "t\<lparr>qt_reserved := False, qt_reserved_node := None\<rparr> = t" using free by (cases t) simp
    then show "((\<lambda>u. if qt_id u = qt_id t then u\<lparr>qt_reserved := False, qt_reserved_node := None\<rparr> else u)
        \<circ> (\<lambda>u. if qt_id u = qt_id t then ?f u else u)) x = x"
      using same(1) [OF x] by (cases "qt_id x = qt_id t") auto
  qed
  then obtain q2 where q2: "cancel_reservation (qt_id t) q1 = (q2, True)" "lvl q2 = lvl q"
    using update_task_result [OF q1(2), of "\<lambda>t. t\<lparr>qt_reserved := False, qt_reserved_node := None\<rparr>" "qt_id t"] idx
    by (auto simp: cancel_reservation_def q1(3,4))
  have mem: "?f t \<in> set (lvl q1 p)" using t by (auto simp: q1(4))
  have filt: "filter (\<lambda>u. u \<noteq> ?f t) (map (\<lambda>u. if qt_id u = qt_id t then ?f u else u) xs) = filter (\<lambda>u. u \<noteq> t) xs"
    if "set xs \<subseteq> set (lvl q p)" for xs
    using that same(1) by (induction xs) auto
  let ?pred = "\<lambda>u. qt_id u = qt_id t \<and> qt_reserved u"
  obtain q3 res where c: "confirm_reservation (qt_id t) q1 = (q3, res)" by force
  note tk = take_task_result [OF q1(2), of ?pred "qt_id t", folded confirm_reservation_def, unfolded c]
  have "res \<noteq> None" using tk mem by (cases res) force+
  then obtain u where u: "res = Some u" by auto
  obtain r rest where r: "take_first ?pred (lvl q1 r) = Some (u, rest)" "lvl q3 = (lvl q1)(r := rest)" "?pred u"
    using tk by (auto simp: u)
  obtain as bs where s: "lvl q1 r = as @ u # bs" "rest = as @ bs"
    using take_first_split [OF r(1)] by blast
  have ru: "r = p" "u = ?f t"
    using level_unique [OF q1(2), of u r "?f t" p] mem s(1) r(3) by auto
  have "distinct (lvl q1 p)" using queue_okD(3) [OF q1(2)] by (simp add: distinct_map)
  then have "rest = filter (\<lambda>v. v \<noteq> u) (lvl q1 p)"
    unfolding s(1) [unfolded ru(1)] s(2) by (auto simp: filter_neq_id)
  then have "rest = filter (\<lambda>v. v \<noteq> t) (lvl q p)"
    using filt [of "lvl q p"] by (simp add: q1(4) ru(2))
  then have conf: "lvl q3 = (lvl q)(p := filter (\<lambda>u. u \<noteq> t) (lvl q p))"
    using r(2) ru(1) by (simp add: q1(4))
  show ?thesis
    using q1(1,2) deq q2 c u ru(2) conf by blast
qed

theorem reservation_lifecycle_witness:
  "snd (reserve 1 ''node-a'' sample_queue) = True"
  using reservation_lifecycle [OF sample_queue_ok, of "sample_task 1" Low "''node-a''"]
  by (auto simp: sample_queue_levels queued_task_new_def)

end
