(* ===== verification/Circuit_Breaker.thy ===== *)
theory Circuit_Breaker
  imports Fleet_Prelude
begin

text \<open>
  Circuit breakers and their registry: \<^verbatim>\<open>crates/ff-core/src/circuit_breaker.rs\<close>.

  Counters are words that wrap as in a release build. Operations that read the clock twice
  take two instants, in the order of the reads. The registry holds its lock for the whole of
  each method, so its methods are atomic.
\<close>

section \<open>One breaker\<close>

record circuit_breaker_config =
  cc_failure_threshold :: u32
  cc_recovery_timeout :: nat
  cc_success_threshold_for_close :: u32

definition breaker_config_default :: circuit_breaker_config where
  "breaker_config_default = \<lparr>cc_failure_threshold = 5, cc_recovery_timeout = 60 * 10 ^ 9,
     cc_success_threshold_for_close = 3\<rparr>"

datatype circuit_state = Closed | Open | HalfOpen

fun circuit_state_to_string :: "circuit_state \<Rightarrow> string" where
  "circuit_state_to_string Closed = ''Closed''"
| "circuit_state_to_string Open = ''Open''"
| "circuit_state_to_string HalfOpen = ''HalfOpen''"

record circuit_breaker =
  cb_config :: circuit_breaker_config
  cb_state :: circuit_state
  cb_consecutive_failures :: u32
  cb_half_open_successes :: u32
  cb_opened_at :: "datetime option"
  cb_last_transition :: datetime
  cb_total_failures :: u64
  cb_total_successes :: u64

record circuit_breaker_snapshot =
  cs_state :: circuit_state
  cs_consecutive_failures :: u32
  cs_half_open_successes :: u32
  cs_opened_at :: "datetime option"
  cs_last_transition :: datetime
  cs_total_failures :: u64
  cs_total_successes :: u64

definition breaker_new :: "datetime \<Rightarrow> circuit_breaker_config \<Rightarrow> circuit_breaker" where
  "breaker_new now cfg = \<lparr>cb_config = cfg, cb_state = Closed, cb_consecutive_failures = 0,
     cb_half_open_successes = 0, cb_opened_at = None, cb_last_transition = now,
     cb_total_failures = 0, cb_total_successes = 0\<rparr>"

definition transition :: "datetime \<Rightarrow> circuit_state \<Rightarrow> circuit_breaker \<Rightarrow> circuit_breaker" where
  "transition now to cb = (if cb_state cb \<noteq> to then cb\<lparr>cb_state := to, cb_last_transition := now\<rparr> else cb)"

text \<open>
  \<open>chrono::Duration::from_std\<close> fails beyond \<open>i64::MAX\<close> milliseconds, and the code falls back
  to 60 seconds.
\<close>

definition recovery_window :: "circuit_breaker_config \<Rightarrow> duration" where
  "recovery_window cfg =
     (if int (cc_recovery_timeout cfg) \<le> (2 ^ 63 - 1) * 10 ^ 6 then int (cc_recovery_timeout cfg) else secs 60)"

definition recovery_timeout_elapsed :: "datetime \<Rightarrow> circuit_breaker \<Rightarrow> bool" where
  "recovery_timeout_elapsed now cb =
     (case cb_opened_at cb of
        Some opened \<Rightarrow> now - opened \<ge> recovery_window (cb_config cb)
      | None \<Rightarrow> True)"

definition is_allowed :: "datetime \<Rightarrow> datetime \<Rightarrow> circuit_breaker \<Rightarrow> circuit_breaker \<times> bool" where
  "is_allowed now1 now2 cb =
     (case cb_state cb of
        Closed \<Rightarrow> (cb, True)
      | Open \<Rightarrow> (if recovery_timeout_elapsed now1 cb then (transition now2 HalfOpen cb, True) else (cb, False))
      | HalfOpen \<Rightarrow> (cb, True))"

definition record_success :: "datetime \<Rightarrow> circuit_breaker \<Rightarrow> circuit_breaker" where
  "record_success now cb0 =
     (let cb = cb0\<lparr>cb_total_successes := cb_total_successes cb0 + 1\<rparr> in
      case cb_state cb of
        HalfOpen \<Rightarrow>
          (let cb1 = cb\<lparr>cb_half_open_successes := cb_half_open_successes cb + 1\<rparr> in
           if cc_success_threshold_for_close (cb_config cb1) \<le> cb_half_open_successes cb1
           then (transition now Closed cb1)\<lparr>cb_consecutive_failures := 0, cb_half_open_successes := 0\<rparr>
           else cb1)
      | Closed \<Rightarrow> cb\<lparr>cb_consecutive_failures := 0\<rparr>
      | Open \<Rightarrow> cb)"

definition record_failure :: "datetime \<Rightarrow> datetime \<Rightarrow> circuit_breaker \<Rightarrow> circuit_breaker" where
  "record_failure now1 now2 cb0 =
     (let cb = cb0\<lparr>cb_total_failures := cb_total_failures cb0 + 1,
                    cb_consecutive_failures := cb_consecutive_failures cb0 + 1\<rparr> in
      case cb_state cb of
        Closed \<Rightarrow>
          (if cc_failure_threshold (cb_config cb) \<le> cb_consecutive_failures cb
           then (transition now1 Open cb)\<lparr>cb_opened_at := Some now2\<rparr> else cb)
      | HalfOpen \<Rightarrow> (transition now1 Open cb)\<lparr>cb_opened_at := Some now2, cb_half_open_successes := 0\<rparr>
      | Open \<Rightarrow> cb)"

definition breaker_reset :: "datetime \<Rightarrow> circuit_breaker \<Rightarrow> circuit_breaker" where
  "breaker_reset now cb = (transition now Closed cb)
     \<lparr>cb_consecutive_failures := 0, cb_half_open_successes := 0, cb_opened_at := None\<rparr>"

definition breaker_snapshot :: "circuit_breaker \<Rightarrow> circuit_breaker_snapshot" where
  "breaker_snapshot cb = \<lparr>cs_state = cb_state cb, cs_consecutive_failures = cb_consecutive_failures cb,
     cs_half_open_successes = cb_half_open_successes cb, cs_opened_at = cb_opened_at cb,
     cs_last_transition = cb_last_transition cb, cs_total_failures = cb_total_failures cb,
     cs_total_successes = cb_total_successes cb\<rparr>"

section \<open>The registry\<close>

record breaker_registry =
  br_default_config :: circuit_breaker_config
  br_breakers :: "(string, circuit_breaker) hmap"

definition breaker_registry_new :: "circuit_breaker_config \<Rightarrow> breaker_registry" where
  "breaker_registry_new cfg = \<lparr>br_default_config = cfg, br_breakers = []\<rparr>"

text \<open>\<open>entry(backend).or_insert_with(|| CircuitBreaker::new(default_config))\<close>\<close>

definition breaker_entry :: "datetime \<Rightarrow> string \<Rightarrow> breaker_registry \<Rightarrow> circuit_breaker" where
  "breaker_entry now b r =
     (case hm_get (br_breakers r) b of None \<Rightarrow> breaker_new now (br_default_config r) | Some cb \<Rightarrow> cb)"

definition registry_is_allowed ::
  "datetime \<Rightarrow> datetime \<Rightarrow> datetime \<Rightarrow> string \<Rightarrow> breaker_registry \<Rightarrow> breaker_registry \<times> bool" where
  "registry_is_allowed now0 now1 now2 b r =
     (let (cb, ok) = is_allowed now1 now2 (breaker_entry now0 b r)
      in (r\<lparr>br_breakers := hm_insert b cb (br_breakers r)\<rparr>, ok))"

definition registry_record_success :: "datetime \<Rightarrow> string \<Rightarrow> breaker_registry \<Rightarrow> breaker_registry" where
  "registry_record_success now b r = r\<lparr>br_breakers := hm_modify b (record_success now) (br_breakers r)\<rparr>"

definition registry_record_failure ::
  "datetime \<Rightarrow> datetime \<Rightarrow> datetime \<Rightarrow> string \<Rightarrow> breaker_registry \<Rightarrow> breaker_registry" where
  "registry_record_failure now0 now1 now2 b r =
     r\<lparr>br_breakers := hm_insert b (record_failure now1 now2 (breaker_entry now0 b r)) (br_breakers r)\<rparr>"

definition registry_reset :: "datetime \<Rightarrow> string \<Rightarrow> breaker_registry \<Rightarrow> breaker_registry" where
  "registry_reset now b r = r\<lparr>br_breakers := hm_modify b (breaker_reset now) (br_breakers r)\<rparr>"

definition registry_snapshot_all :: "breaker_registry \<Rightarrow> (string, circuit_breaker_snapshot) hmap" where
  "registry_snapshot_all r = map (\<lambda>(b, cb). (b, breaker_snapshot cb)) (br_breakers r)"

definition registry_snapshot :: "string \<Rightarrow> breaker_registry \<Rightarrow> circuit_breaker_snapshot option" where
  "registry_snapshot b r = map_option breaker_snapshot (hm_get (br_breakers r) b)"

definition registry_remove :: "string \<Rightarrow> breaker_registry \<Rightarrow> breaker_registry" where
  "registry_remove b r = r\<lparr>br_breakers := hm_remove b (br_breakers r)\<rparr>"

definition tracked_backends :: "breaker_registry \<Rightarrow> string list" where
  "tracked_backends r = hm_keys (br_breakers r)"

definition open_backends :: "breaker_registry \<Rightarrow> string list" where
  "open_backends r = map fst (filter (\<lambda>(b, cb). cb_state cb = Open) (br_breakers r))"

section \<open>Steps of a breaker\<close>

inductive breaker_step :: "circuit_breaker \<Rightarrow> circuit_breaker \<Rightarrow> bool" where
  allow: "breaker_step cb (fst (is_allowed now1 now2 cb))"
| success: "breaker_step cb (record_success now cb)"
| failure: "breaker_step cb (record_failure now1 now2 cb)"
| reset: "breaker_step cb (breaker_reset now cb)"

lemmas breaker_defs = is_allowed_def record_success_def record_failure_def breaker_reset_def transition_def Let_def

text \<open>
  The invariant: below the threshold while closed, an opening time while open, and a success
  count that is zero outside \<open>HalfOpen\<close> and below the threshold inside it.
\<close>

definition breaker_ok :: "circuit_breaker \<Rightarrow> bool" where
  "breaker_ok cb \<longleftrightarrow>
     (case cb_state cb of
        Closed \<Rightarrow> cb_half_open_successes cb = 0
          \<and> (cb_consecutive_failures cb = 0
             \<or> unat (cb_consecutive_failures cb) < unat (cc_failure_threshold (cb_config cb)))
      | Open \<Rightarrow> cb_opened_at cb \<noteq> None \<and> cb_half_open_successes cb = 0
      | HalfOpen \<Rightarrow> cb_half_open_successes cb = 0
          \<or> unat (cb_half_open_successes cb) < unat (cc_success_threshold_for_close (cb_config cb)))"

lemma breaker_new_ok: "breaker_ok (breaker_new now cfg)"
  by (simp add: breaker_ok_def breaker_new_def)

lemma breaker_step_ok: "breaker_step cb cb' \<Longrightarrow> breaker_ok cb \<Longrightarrow> breaker_ok cb'"
  by (induction rule: breaker_step.induct)
    (auto simp: breaker_ok_def breaker_defs word_le_nat_alt split: circuit_state.splits if_splits)

lemma breaker_step_config: "breaker_step cb cb' \<Longrightarrow> cb_config cb' = cb_config cb"
  by (induction rule: breaker_step.induct)
    (auto simp: breaker_defs split: circuit_state.splits if_splits)

interpretation breaker: invariant_machine breaker_step breaker_ok
  by unfold_locales (rule breaker_step_ok)

lemma breaker_star_config: "breaker_step\<^sup>*\<^sup>* cb cb' \<Longrightarrow> cb_config cb' = cb_config cb"
  by (induction rule: rtranclp_induct) (auto dest: breaker_step_config)

section \<open>Runs of failures and successes\<close>

definition failures :: "(datetime \<times> datetime) list \<Rightarrow> circuit_breaker \<Rightarrow> circuit_breaker" where
  "failures ts cb = fold (\<lambda>(t1, t2). record_failure t1 t2) ts cb"


lemma failures_open: "cb_state cb = Open \<Longrightarrow> cb_state (failures ts cb) = Open"
  by (induction ts arbitrary: cb) (auto simp: failures_def record_failure_def Let_def)

lemma failures_closed:
  assumes "cb_state cb = Closed"
    and "unat (cb_consecutive_failures cb) < max 1 (unat (cc_failure_threshold (cb_config cb)))"
  shows "cb_state (failures ts cb) =
     (if unat (cb_consecutive_failures cb) + length ts < max 1 (unat (cc_failure_threshold (cb_config cb)))
      then Closed else Open)"
  using assms
proof (induction ts arbitrary: cb)
  case Nil
  then show ?case by (simp add: failures_def)
next
  case (Cons t ts)
  obtain t1 t2 where t: "t = (t1, t2)" by (cases t)
  let ?cb = "record_failure t1 t2 cb"
  let ?thr = "unat (cc_failure_threshold (cb_config cb))"
  have inc: "unat (cb_consecutive_failures cb + 1) = unat (cb_consecutive_failures cb) + 1"
  proof (cases "?thr \<le> 1")
    case True
    then have "cb_consecutive_failures cb = 0" using Cons.prems(2) by (simp add: unat_eq_0)
    then show ?thesis by simp
  next
    case False
    then have "unat (cb_consecutive_failures cb) < ?thr" using Cons.prems(2) by simp
    then show ?thesis by (rule unat_inc_below)
  qed
  show ?case
  proof (cases "?thr \<le> unat (cb_consecutive_failures cb) + 1")
    case True
    then have "cb_state ?cb = Open"
      using Cons.prems(1) inc by (simp add: record_failure_def Let_def word_le_nat_alt transition_def)
    then have "cb_state (failures (t # ts) cb) = Open"
      using failures_open [of ?cb ts] by (simp add: failures_def t)
    then show ?thesis using True by simp
  next
    case False
    then have c: "cb_state ?cb = Closed" "cb_config ?cb = cb_config cb"
        "unat (cb_consecutive_failures ?cb) = unat (cb_consecutive_failures cb) + 1"
      using Cons.prems(1) inc by (simp_all add: record_failure_def Let_def word_le_nat_alt)
    then show ?thesis
      using Cons.IH [of ?cb] False by (simp add: failures_def t)
  qed
qed


section \<open>Properties of the breaker\<close>

text \<open>
  the breaker refuses a request exactly when it is open and the recovery time since it
  opened has not passed; a refusal changes nothing. Once the time has passed an open breaker
  admits the request and becomes \<open>HalfOpen\<close>. In every other state the request is admitted and
  nothing changes, so in \<open>HalfOpen\<close> the number of admitted requests is not limited.
\<close>

theorem breaker_admission:
  assumes "breaker_step\<^sup>*\<^sup>* (breaker_new t0 cfg) cb"
  shows "\<exists>opened. (snd (is_allowed now1 now2 cb) \<longleftrightarrow>
            \<not> (cb_state cb = Open \<and> now1 < opened + recovery_window cfg))
       \<and> (cb_state cb = Open \<longrightarrow> cb_opened_at cb = Some opened)
       \<and> fst (is_allowed now1 now2 cb) =
            (if cb_state cb = Open \<and> opened + recovery_window cfg \<le> now1
             then cb\<lparr>cb_state := HalfOpen, cb_last_transition := now2\<rparr> else cb)"
proof -
  have cfg: "cb_config cb = cfg" using breaker_star_config [OF assms] by (simp add: breaker_new_def)
  have ok: "breaker_ok cb" using breaker.star_inv [OF assms breaker_new_ok] .
  show ?thesis
  proof (cases "cb_state cb")
    case Open
    then obtain opened where "cb_opened_at cb = Some opened" using ok by (auto simp: breaker_ok_def)
    then show ?thesis
      using Open cfg by (intro exI [of _ opened]) (auto simp: is_allowed_def recovery_timeout_elapsed_def transition_def)
  qed (simp_all add: is_allowed_def)
qed

lemma default_breaker_opens:
  "breaker_step\<^sup>*\<^sup>* (breaker_new 0 breaker_config_default)
     (failures (replicate 5 (0, 0)) (breaker_new 0 breaker_config_default))"
proof -
  have "breaker_step\<^sup>*\<^sup>* cb (failures ts cb)" for ts cb
  proof (induction ts arbitrary: cb)
    case (Cons t ts)
    have "breaker_step cb ((\<lambda>(t1, t2). record_failure t1 t2) t cb)" by (cases t) (auto intro: breaker_step.failure)
    then show ?case using Cons [of "(\<lambda>(t1, t2). record_failure t1 t2) t cb"]
      by (auto simp: failures_def intro: converse_rtranclp_into_rtranclp)
  qed (simp add: failures_def)
  then show ?thesis .
qed

lemma default_breaker_open_state:
  "cb_state (failures (replicate 5 (0, 0)) (breaker_new 0 breaker_config_default)) = Open"
  by (subst failures_closed) (simp_all add: breaker_new_def breaker_config_default_def)

theorem breaker_admission_witness:
  "\<exists>cb. breaker_step\<^sup>*\<^sup>* (breaker_new 0 breaker_config_default) cb \<and> cb_state cb = Open
     \<and> (\<exists>opened. snd (is_allowed (opened + secs 59) (secs 70) cb) = False)"
proof -
  let ?cb = "failures (replicate 5 (0, 0)) (breaker_new 0 breaker_config_default)"
  obtain opened where o: "cb_opened_at ?cb = Some opened"
    using breaker_admission [OF default_breaker_opens, of 0 0] default_breaker_open_state by auto
  have "snd (is_allowed (opened + secs 59) (secs 70) ?cb) = False"
    using breaker_admission [OF default_breaker_opens, of "opened + secs 59" "secs 70"]
      default_breaker_open_state o
    by (auto simp: recovery_window_def breaker_config_default_def)
  then show ?thesis using default_breaker_opens default_breaker_open_state by blast
qed



text \<open>
  the registry keeps backends apart. An operation on one backend leaves the breaker of
  every other backend as it is, and acts on its own backend as the operation on a single
  breaker does, creating it on first use; \<open>record_success\<close> and \<open>reset\<close> ignore a backend that
  has no breaker.
\<close>

theorem registry_isolation:
  "hm_get (br_breakers (fst (registry_is_allowed n0 n1 n2 b r))) =
       (hm_get (br_breakers r))(b \<mapsto> fst (is_allowed n1 n2 (breaker_entry n0 b r)))
   \<and> snd (registry_is_allowed n0 n1 n2 b r) = snd (is_allowed n1 n2 (breaker_entry n0 b r))
   \<and> hm_get (br_breakers (registry_record_failure n0 n1 n2 b r)) =
       (hm_get (br_breakers r))(b \<mapsto> record_failure n1 n2 (breaker_entry n0 b r))
   \<and> hm_get (br_breakers (registry_record_success n1 b r)) =
       (hm_get (br_breakers r))(b := map_option (record_success n1) (hm_get (br_breakers r) b))
   \<and> hm_get (br_breakers (registry_reset n1 b r)) =
       (hm_get (br_breakers r))(b := map_option (breaker_reset n1) (hm_get (br_breakers r) b))
   \<and> hm_get (br_breakers (registry_remove b r)) = (hm_get (br_breakers r))(b := None)"
  by (intro conjI ext)
    (simp_all add: registry_is_allowed_def registry_record_failure_def registry_record_success_def
      registry_reset_def registry_remove_def hm_get_modify split: prod.split)

end
