(* ===== verification/Rate_Limit.thy ===== *)
theory Rate_Limit
  imports Fleet_Prelude
begin

text \<open>
  The fixed-window rate limiter: \<^verbatim>\<open>crates/ff-security/src/rate_limit.rs\<close>.

  \<open>check_and_record_at\<close> is a function on the three counter maps. Since the limiter is shared by
  reference and only the single \<open>DashMap\<close> accesses are atomic, the second part of the theory
  gives the same code as a step relation, one access per step.
\<close>

section \<open>Data\<close>

record limit_spec =
  ls_max_requests :: u32
  ls_window_secs :: int

text \<open>\<open>Duration::seconds\<close> panics beyond \<open>i64::MAX\<close> milliseconds.\<close>

definition limit_window :: "limit_spec \<Rightarrow> duration outcome" where
  "limit_window s =
     (if \<bar>ls_window_secs s\<bar> \<le> (2 ^ 63 - 1) div 1000 then Returns (secs (ls_window_secs s)) else Panics)"

record rate_limit_config =
  rl_per_user :: limit_spec
  rl_per_session :: limit_spec
  rl_per_tool :: limit_spec

record rate_limit_context =
  cx_user_id :: string
  cx_session_id :: string
  cx_tool :: string

datatype rate_limit_scope = User | Session | Tool

record rate_limit_decision =
  rd_allowed :: bool
  rd_exceeded_scope :: "rate_limit_scope option"
  rd_retry_after_secs :: "int option"

record window_counter =
  wc_start :: datetime
  wc_count :: u32

type_synonym counters = "(string, window_counter) hmap"

record rate_limiter =
  lim_config :: rate_limit_config
  lim_user_counters :: counters
  lim_session_counters :: counters
  lim_tool_counters :: counters

definition limiter_new :: "rate_limit_config \<Rightarrow> rate_limiter" where
  "limiter_new cfg = \<lparr>lim_config = cfg, lim_user_counters = [], lim_session_counters = [], lim_tool_counters = []\<rparr>"

section \<open>The operations\<close>

definition would_exceed :: "counters \<Rightarrow> string \<Rightarrow> limit_spec \<Rightarrow> datetime \<Rightarrow> int option outcome" where
  "would_exceed m key spec now =
     (if ls_max_requests spec = 0 then Returns (Some (max (ls_window_secs spec) 0))
      else (case limit_window spec of
              Panics \<Rightarrow> Panics
            | Returns window \<Rightarrow>
                (case hm_get m key of
                   None \<Rightarrow> Returns None
                 | Some counter \<Rightarrow>
                     (let elapsed = now - wc_start counter in
                      if elapsed < window \<and> ls_max_requests spec \<le> wc_count counter
                      then Returns (Some (max (num_seconds (window - elapsed)) 1))
                      else Returns None))))"

definition bump :: "duration \<Rightarrow> datetime \<Rightarrow> window_counter \<Rightarrow> window_counter" where
  "bump window now c =
     (if now - wc_start c \<ge> window then \<lparr>wc_start = now, wc_count = 1\<rparr> else c\<lparr>wc_count := wc_count c + 1\<rparr>)"

definition increment_counter :: "counters \<Rightarrow> string \<Rightarrow> limit_spec \<Rightarrow> datetime \<Rightarrow> counters outcome" where
  "increment_counter m key spec now =
     (case limit_window spec of
        Panics \<Rightarrow> Panics
      | Returns window \<Rightarrow>
          (case hm_get m key of
             Some c \<Rightarrow> Returns (hm_insert key (bump window now c) m)
           | None \<Rightarrow> Returns (hm_insert key \<lparr>wc_start = now, wc_count = 1\<rparr> m)))"

definition denied :: "rate_limit_scope \<Rightarrow> int \<Rightarrow> rate_limit_decision" where
  "denied scope retry_after =
     \<lparr>rd_allowed = False, rd_exceeded_scope = Some scope, rd_retry_after_secs = Some retry_after\<rparr>"

definition admitted :: rate_limit_decision where
  "admitted = \<lparr>rd_allowed = True, rd_exceeded_scope = None, rd_retry_after_secs = None\<rparr>"

definition check_and_record_at ::
  "rate_limit_context \<Rightarrow> datetime \<Rightarrow> rate_limiter \<Rightarrow> (rate_limiter \<times> rate_limit_decision) outcome" where
  "check_and_record_at ctx now lim =
     (let cfg = lim_config lim in
      case would_exceed (lim_user_counters lim) (cx_user_id ctx) (rl_per_user cfg) now of
        Panics \<Rightarrow> Panics
      | Returns (Some retry) \<Rightarrow> Returns (lim, denied User retry)
      | Returns None \<Rightarrow>
      (case would_exceed (lim_session_counters lim) (cx_session_id ctx) (rl_per_session cfg) now of
        Panics \<Rightarrow> Panics
      | Returns (Some retry) \<Rightarrow> Returns (lim, denied Session retry)
      | Returns None \<Rightarrow>
      (case would_exceed (lim_tool_counters lim) (cx_tool ctx) (rl_per_tool cfg) now of
        Panics \<Rightarrow> Panics
      | Returns (Some retry) \<Rightarrow> Returns (lim, denied Tool retry)
      | Returns None \<Rightarrow>
      (case increment_counter (lim_user_counters lim) (cx_user_id ctx) (rl_per_user cfg) now of
        Panics \<Rightarrow> Panics
      | Returns users \<Rightarrow>
      (case increment_counter (lim_session_counters lim) (cx_session_id ctx) (rl_per_session cfg) now of
        Panics \<Rightarrow> Panics
      | Returns sessions \<Rightarrow>
      (case increment_counter (lim_tool_counters lim) (cx_tool ctx) (rl_per_tool cfg) now of
        Panics \<Rightarrow> Panics
      | Returns tools \<Rightarrow>
          Returns (lim\<lparr>lim_user_counters := users, lim_session_counters := sessions,
                       lim_tool_counters := tools\<rparr>, admitted)))))))"

section \<open>The limiter shared between threads\<close>

text \<open>
  A call in progress. \<open>Checking\<close> is about to read the counter of a scope, \<open>Bumping\<close> to look the
  counter up for an increment, \<open>Inserting\<close> to insert a first counter after the lookup found none.
\<close>

datatype call_pc = Checking rate_limit_scope | Bumping rate_limit_scope | Inserting rate_limit_scope
  | Finished rate_limit_decision | Crashed

record limiter_call =
  lc_ctx :: rate_limit_context
  lc_now :: datetime
  lc_pc :: call_pc

fun scope_counters :: "rate_limit_scope \<Rightarrow> rate_limiter \<Rightarrow> counters" where
  "scope_counters User lim = lim_user_counters lim"
| "scope_counters Session lim = lim_session_counters lim"
| "scope_counters Tool lim = lim_tool_counters lim"

fun set_scope_counters :: "rate_limit_scope \<Rightarrow> counters \<Rightarrow> rate_limiter \<Rightarrow> rate_limiter" where
  "set_scope_counters User m lim = lim\<lparr>lim_user_counters := m\<rparr>"
| "set_scope_counters Session m lim = lim\<lparr>lim_session_counters := m\<rparr>"
| "set_scope_counters Tool m lim = lim\<lparr>lim_tool_counters := m\<rparr>"

fun scope_key :: "rate_limit_scope \<Rightarrow> rate_limit_context \<Rightarrow> string" where
  "scope_key User ctx = cx_user_id ctx"
| "scope_key Session ctx = cx_session_id ctx"
| "scope_key Tool ctx = cx_tool ctx"

fun scope_spec :: "rate_limit_scope \<Rightarrow> rate_limit_config \<Rightarrow> limit_spec" where
  "scope_spec User cfg = rl_per_user cfg"
| "scope_spec Session cfg = rl_per_session cfg"
| "scope_spec Tool cfg = rl_per_tool cfg"

fun after_check :: "rate_limit_scope \<Rightarrow> call_pc" where
  "after_check User = Checking Session"
| "after_check Session = Checking Tool"
| "after_check Tool = Bumping User"

fun after_bump :: "rate_limit_scope \<Rightarrow> call_pc" where
  "after_bump User = Bumping Session"
| "after_bump Session = Bumping Tool"
| "after_bump Tool = Finished admitted"

definition call_step :: "rate_limiter \<Rightarrow> limiter_call \<Rightarrow> rate_limiter \<times> limiter_call" where
  "call_step lim c =
     (case lc_pc c of
        Checking s \<Rightarrow>
          (case would_exceed (scope_counters s lim) (scope_key s (lc_ctx c)) (scope_spec s (lim_config lim)) (lc_now c) of
             Panics \<Rightarrow> (lim, c\<lparr>lc_pc := Crashed\<rparr>)
           | Returns (Some retry) \<Rightarrow> (lim, c\<lparr>lc_pc := Finished (denied s retry)\<rparr>)
           | Returns None \<Rightarrow> (lim, c\<lparr>lc_pc := after_check s\<rparr>))
      | Bumping s \<Rightarrow>
          (case limit_window (scope_spec s (lim_config lim)) of
             Panics \<Rightarrow> (lim, c\<lparr>lc_pc := Crashed\<rparr>)
           | Returns window \<Rightarrow>
               (case hm_get (scope_counters s lim) (scope_key s (lc_ctx c)) of
                  Some k \<Rightarrow> (set_scope_counters s (hm_insert (scope_key s (lc_ctx c)) (bump window (lc_now c) k)
                                (scope_counters s lim)) lim, c\<lparr>lc_pc := after_bump s\<rparr>)
                | None \<Rightarrow> (lim, c\<lparr>lc_pc := Inserting s\<rparr>)))
      | Inserting s \<Rightarrow>
          (set_scope_counters s (hm_insert (scope_key s (lc_ctx c)) \<lparr>wc_start = lc_now c, wc_count = 1\<rparr>
             (scope_counters s lim)) lim, c\<lparr>lc_pc := after_bump s\<rparr>)
      | Finished d \<Rightarrow> (lim, c)
      | Crashed \<Rightarrow> (lim, c))"

text \<open>One step of one of several concurrent calls.\<close>

inductive limiter_step :: "rate_limiter \<times> limiter_call list \<Rightarrow> rate_limiter \<times> limiter_call list \<Rightarrow> bool" where
  "i < length cs \<Longrightarrow> call_step lim (cs ! i) = (lim', c') \<Longrightarrow> limiter_step (lim, cs) (lim', cs[i := c'])"

definition new_call :: "rate_limit_context \<Rightarrow> datetime \<Rightarrow> limiter_call" where
  "new_call ctx now = \<lparr>lc_ctx = ctx, lc_now = now, lc_pc = Checking User\<rparr>"

text \<open>A call that runs alone: \<open>n\<close> steps.\<close>

definition run_call :: "nat \<Rightarrow> rate_limiter \<times> limiter_call \<Rightarrow> rate_limiter \<times> limiter_call" where
  "run_call n = (\<lambda>(lim, c). call_step lim c) ^^ n"

section \<open>One call\<close>

definition spec_ok :: "limit_spec \<Rightarrow> bool" where
  "spec_ok s \<longleftrightarrow> \<bar>ls_window_secs s\<bar> \<le> (2 ^ 63 - 1) div 1000"

definition config_ok :: "rate_limit_config \<Rightarrow> bool" where
  "config_ok cfg \<longleftrightarrow> spec_ok (rl_per_user cfg) \<and> spec_ok (rl_per_session cfg) \<and> spec_ok (rl_per_tool cfg)"

lemma config_ok_scope: "config_ok cfg \<Longrightarrow> spec_ok (scope_spec s cfg)"
  by (cases s) (simp_all add: config_ok_def)

lemma limit_window_ok: "spec_ok s \<Longrightarrow> limit_window s = Returns (secs (ls_window_secs s))"
  by (simp add: limit_window_def spec_ok_def)

text \<open>A counter blocks when its window is running and its count has reached the limit.\<close>

definition blocks :: "limit_spec \<Rightarrow> datetime \<Rightarrow> window_counter option \<Rightarrow> bool" where
  "blocks spec now k \<longleftrightarrow> ls_max_requests spec = 0
     \<or> (case k of None \<Rightarrow> False
        | Some c \<Rightarrow> now < wc_start c + secs (ls_window_secs spec) \<and> ls_max_requests spec \<le> wc_count c)"

lemma would_exceed_iff:
  assumes "spec_ok spec"
  shows "\<exists>r. would_exceed m key spec now = Returns r \<and> (r \<noteq> None \<longleftrightarrow> blocks spec now (hm_get m key))"
  using limit_window_ok [OF assms]
  by (auto simp: would_exceed_def blocks_def Let_def less_diff_eq algebra_simps split: option.split)

definition counted :: "limit_spec \<Rightarrow> datetime \<Rightarrow> window_counter option \<Rightarrow> window_counter" where
  "counted spec now k =
     (case k of
        None \<Rightarrow> \<lparr>wc_start = now, wc_count = 1\<rparr>
      | Some c \<Rightarrow> bump (secs (ls_window_secs spec)) now c)"

lemma increment_counter_ok:
  assumes "spec_ok spec"
  shows "increment_counter m key spec now = Returns (hm_insert key (counted spec now (hm_get m key)) m)"
  by (simp add: increment_counter_def limit_window_ok [OF assms] counted_def split: option.split)

lemma scope_cases: "(\<forall>s. P s) \<longleftrightarrow> P User \<and> P Session \<and> P Tool"
  by (metis rate_limit_scope.exhaust)

abbreviation counter_of :: "rate_limiter \<Rightarrow> rate_limit_scope \<Rightarrow> string \<Rightarrow> window_counter option" where
  "counter_of lim s k \<equiv> hm_get (scope_counters s lim) k"

abbreviation spec_of :: "rate_limiter \<Rightarrow> rate_limit_scope \<Rightarrow> limit_spec" where
  "spec_of lim s \<equiv> scope_spec s (lim_config lim)"

abbreviation scope_blocks :: "rate_limiter \<Rightarrow> rate_limit_context \<Rightarrow> datetime \<Rightarrow> rate_limit_scope \<Rightarrow> bool" where
  "scope_blocks lim ctx now s \<equiv> blocks (spec_of lim s) now (counter_of lim s (scope_key s ctx))"

fun earlier :: "rate_limit_scope \<Rightarrow> rate_limit_scope list" where
  "earlier User = []"
| "earlier Session = [User]"
| "earlier Tool = [User, Session]"

lemma check_denied:
  assumes cfg: "config_ok (lim_config lim)" and s: "scope_blocks lim ctx now s"
    and e: "\<forall>s' \<in> set (earlier s). \<not> scope_blocks lim ctx now s'"
  shows "\<exists>retry. check_and_record_at ctx now lim = Returns (lim, denied s retry)"
proof -
  have ok: "spec_ok (spec_of lim s)" for s by (rule config_ok_scope [OF cfg])
  obtain u v w where
    "would_exceed (lim_user_counters lim) (cx_user_id ctx) (rl_per_user (lim_config lim)) now = Returns u"
    "u \<noteq> None \<longleftrightarrow> scope_blocks lim ctx now User"
    "would_exceed (lim_session_counters lim) (cx_session_id ctx) (rl_per_session (lim_config lim)) now = Returns v"
    "v \<noteq> None \<longleftrightarrow> scope_blocks lim ctx now Session"
    "would_exceed (lim_tool_counters lim) (cx_tool ctx) (rl_per_tool (lim_config lim)) now = Returns w"
    "w \<noteq> None \<longleftrightarrow> scope_blocks lim ctx now Tool"
    using would_exceed_iff [OF ok [of User]] would_exceed_iff [OF ok [of Session]] would_exceed_iff [OF ok [of Tool]]
    by (metis scope_counters.simps scope_key.simps scope_spec.simps)
  then show ?thesis
    using s e by (cases s) (auto simp: check_and_record_at_def Let_def)
qed

lemma check_admitted:
  assumes cfg: "config_ok (lim_config lim)" and nb: "\<forall>s. \<not> scope_blocks lim ctx now s"
  shows "\<exists>lim'. check_and_record_at ctx now lim = Returns (lim', admitted) \<and> lim_config lim' = lim_config lim
    \<and> (\<forall>s. scope_counters s lim' = hm_insert (scope_key s ctx)
          (counted (spec_of lim s) now (counter_of lim s (scope_key s ctx))) (scope_counters s lim))"
proof -
  have ok: "spec_ok (spec_of lim s)" for s by (rule config_ok_scope [OF cfg])
  have we: "would_exceed (scope_counters s lim) (scope_key s ctx) (spec_of lim s) now = Returns None" for s
    using would_exceed_iff [OF ok, of "scope_counters s lim" "scope_key s ctx" s now] nb by auto
  have inc: "increment_counter (scope_counters s lim) (scope_key s ctx) (spec_of lim s) now
      = Returns (hm_insert (scope_key s ctx) (counted (spec_of lim s) now (counter_of lim s (scope_key s ctx)))
          (scope_counters s lim))" for s
    by (rule increment_counter_ok [OF ok])
  show ?thesis
    using we [of User] we [of Session] we [of Tool] inc [of User] inc [of Session] inc [of Tool]
    by (simp add: check_and_record_at_def Let_def scope_cases)
qed

text \<open>The first scope that blocks, if any.\<close>

lemma first_blocking:
  "(\<forall>s. \<not> P s) \<or> (\<exists>s. P s \<and> (\<forall>s' \<in> set (earlier s). \<not> P s'))"
proof -
  have "P s \<Longrightarrow> \<exists>s. P s \<and> (\<forall>s' \<in> set (earlier s). \<not> P s')" for s
    by (cases "P User"; cases "P Session"; cases s)
      (force intro: exI [of _ User] exI [of _ Session] exI [of _ Tool])+
  then show ?thesis by blast
qed

section \<open>Sequences of calls\<close>

fun admitted_count ::
  "rate_limit_scope \<Rightarrow> string \<Rightarrow> (rate_limit_context \<times> datetime) list \<Rightarrow> rate_limiter \<Rightarrow> nat" where
  "admitted_count s key [] lim = 0"
| "admitted_count s key ((ctx, now) # rs) lim =
     (case check_and_record_at ctx now lim of
        Panics \<Rightarrow> 0
      | Returns (lim', d) \<Rightarrow>
          (if rd_allowed d \<and> scope_key s ctx = key then 1 else 0) + admitted_count s key rs lim')"

lemma check_config:
  assumes "config_ok (lim_config lim)"
  obtains lim' d where "check_and_record_at ctx now lim = Returns (lim', d)" "lim_config lim' = lim_config lim"
    "rd_allowed d \<longleftrightarrow> (\<forall>s. \<not> scope_blocks lim ctx now s)"
    "\<not> rd_allowed d \<Longrightarrow> lim' = lim"
    "rd_allowed d \<Longrightarrow> \<forall>s k. counter_of lim' s k =
       (if k = scope_key s ctx then Some (counted (spec_of lim s) now (counter_of lim s k)) else counter_of lim s k)"
proof -
  consider "\<forall>s. \<not> scope_blocks lim ctx now s"
    | s where "scope_blocks lim ctx now s" "\<forall>s' \<in> set (earlier s). \<not> scope_blocks lim ctx now s'"
    using first_blocking [of "scope_blocks lim ctx now"] by blast
  then show thesis
  proof cases
    case 1
    then obtain lim' where l: "check_and_record_at ctx now lim = Returns (lim', admitted)"
        "lim_config lim' = lim_config lim"
        "\<forall>s. scope_counters s lim' = hm_insert (scope_key s ctx)
          (counted (spec_of lim s) now (counter_of lim s (scope_key s ctx))) (scope_counters s lim)"
      using check_admitted [OF assms] by blast
    show thesis
      by (rule that [OF l(1,2)]) (use 1 in \<open>simp_all add: admitted_def l(3)\<close>)
  next
    case 2
    then obtain retry where "check_and_record_at ctx now lim = Returns (lim, denied s retry)"
      using check_denied [OF assms] by blast
    then show thesis by (rule that) (use 2(1) in \<open>auto simp: denied_def\<close>)
  qed
qed

text \<open>While the window of a counter is running it admits no more than what is left of its limit.\<close>

lemma admitted_in_window:
  assumes "config_ok (lim_config lim)" "counter_of lim s key = Some c"
    and "unat (wc_count c) \<le> unat (ls_max_requests (spec_of lim s))"
    and "\<forall>(ctx, now) \<in> set rs. now < wc_start c + secs (ls_window_secs (spec_of lim s))"
  shows "unat (wc_count c) + admitted_count s key rs lim \<le> unat (ls_max_requests (spec_of lim s))"
  using assms
proof (induction rs arbitrary: lim c)
  case (Cons r rs)
  obtain ctx now where r: "r = (ctx, now)" by (cases r)
  have now: "now < wc_start c + secs (ls_window_secs (spec_of lim s))" using Cons.prems(4) r by simp
  obtain lim' d where ch: "check_and_record_at ctx now lim = Returns (lim', d)" "lim_config lim' = lim_config lim"
      "rd_allowed d \<longleftrightarrow> (\<forall>s. \<not> scope_blocks lim ctx now s)" "\<not> rd_allowed d \<Longrightarrow> lim' = lim"
      "rd_allowed d \<Longrightarrow> \<forall>s k. counter_of lim' s k =
       (if k = scope_key s ctx then Some (counted (spec_of lim s) now (counter_of lim s k)) else counter_of lim s k)"
    using check_config [OF Cons.prems(1)] by blast
  show ?case
  proof (cases "rd_allowed d \<and> scope_key s ctx = key")
    case False
    then have "counter_of lim' s key = Some c"
      using ch(4,5) Cons.prems(2) by (cases "rd_allowed d") auto
    with Cons.IH [of lim' c] Cons.prems ch(1,2) False show ?thesis by (auto simp: r)
  next
    case True
    then have "\<not> blocks (spec_of lim s) now (Some c)" using ch(3) Cons.prems(2) by metis
    then have lt: "unat (wc_count c) < unat (ls_max_requests (spec_of lim s))"
      using now by (auto simp: blocks_def word_le_nat_alt)
    let ?c = "c\<lparr>wc_count := wc_count c + 1\<rparr>"
    have "counter_of lim' s key = Some ?c"
      using True ch(5) Cons.prems(2) now by (auto simp: counted_def bump_def)
    moreover have "unat (wc_count ?c) = unat (wc_count c) + 1" using unat_inc_below [OF lt] by simp
    ultimately show ?thesis
      using Cons.IH [of lim' ?c] Cons.prems(1,4) ch(1,2) True lt by (simp add: r)
  qed
qed simp

text \<open>
  A counter that is absent or whose window has passed starts a new window with the first request
  it admits.
\<close>

lemma admitted_fresh_window:
  assumes "config_ok (lim_config lim)"
    and "\<forall>c. counter_of lim s key = Some c \<longrightarrow> wc_start c + secs (ls_window_secs (spec_of lim s)) \<le> t0"
    and "\<forall>(ctx, now) \<in> set rs. t0 \<le> now \<and> now < t0 + secs (ls_window_secs (spec_of lim s))"
  shows "admitted_count s key rs lim \<le> unat (ls_max_requests (spec_of lim s))"
  using assms
proof (induction rs arbitrary: lim)
  case (Cons r rs)
  obtain ctx now where r: "r = (ctx, now)" by (cases r)
  have now: "t0 \<le> now" "now < t0 + secs (ls_window_secs (spec_of lim s))" using Cons.prems(3) r by simp_all
  obtain lim' d where ch: "check_and_record_at ctx now lim = Returns (lim', d)" "lim_config lim' = lim_config lim"
      "rd_allowed d \<longleftrightarrow> (\<forall>s. \<not> scope_blocks lim ctx now s)" "\<not> rd_allowed d \<Longrightarrow> lim' = lim"
      "rd_allowed d \<Longrightarrow> \<forall>s k. counter_of lim' s k =
       (if k = scope_key s ctx then Some (counted (spec_of lim s) now (counter_of lim s k)) else counter_of lim s k)"
    using check_config [OF Cons.prems(1)] by blast
  show ?case
  proof (cases "rd_allowed d \<and> scope_key s ctx = key")
    case False
    then have "counter_of lim' s key = counter_of lim s key"
      using ch(4,5) by (cases "rd_allowed d") auto
    with Cons.IH [of lim'] Cons.prems ch(1,2) False show ?thesis by (auto simp: r)
  next
    case True
    let ?c = "\<lparr>wc_start = now, wc_count = 1\<rparr>"
    have "\<not> blocks (spec_of lim s) now (counter_of lim s key)" using ch(3) True by metis
    then have pos: "1 \<le> unat (ls_max_requests (spec_of lim s))"
      by (simp add: blocks_def) (metis One_nat_def Suc_leI unat_eq_0 neq0_conv)
    have c: "counter_of lim' s key = Some ?c"
      using True ch(5) Cons.prems(2) now(1) by (auto simp: counted_def bump_def split: option.splits)
    have "\<forall>(ctx, t) \<in> set rs. t < wc_start ?c + secs (ls_window_secs (spec_of lim' s))"
      using Cons.prems(3) now(1) ch(2) r by fastforce
    then have "unat (wc_count ?c) + admitted_count s key rs lim' \<le> unat (ls_max_requests (spec_of lim' s))"
      using admitted_in_window [OF _ c] Cons.prems(1) ch(2) pos by simp
    then show ?thesis using ch(1,2) True by (simp add: r)
  qed
qed simp

lemma admitted_two_windows:
  assumes "config_ok (lim_config lim)" "counter_of lim s key = Some c"
    and "unat (wc_count c) \<le> unat (ls_max_requests (spec_of lim s))"
    and "\<forall>(ctx, now) \<in> set rs. t0 \<le> now \<and> now < t0 + secs (ls_window_secs (spec_of lim s))"
  shows "unat (wc_count c) + admitted_count s key rs lim \<le> 2 * unat (ls_max_requests (spec_of lim s))"
  using assms
proof (induction rs arbitrary: lim c)
  case (Cons r rs)
  obtain ctx now where r: "r = (ctx, now)" by (cases r)
  have now: "t0 \<le> now" "now < t0 + secs (ls_window_secs (spec_of lim s))" using Cons.prems(4) r by simp_all
  obtain lim' d where ch: "check_and_record_at ctx now lim = Returns (lim', d)" "lim_config lim' = lim_config lim"
      "rd_allowed d \<longleftrightarrow> (\<forall>s. \<not> scope_blocks lim ctx now s)" "\<not> rd_allowed d \<Longrightarrow> lim' = lim"
      "rd_allowed d \<Longrightarrow> \<forall>s k. counter_of lim' s k =
       (if k = scope_key s ctx then Some (counted (spec_of lim s) now (counter_of lim s k)) else counter_of lim s k)"
    using check_config [OF Cons.prems(1)] by blast
  show ?case
  proof (cases "rd_allowed d \<and> scope_key s ctx = key")
    case False
    then have "counter_of lim' s key = Some c"
      using ch(4,5) Cons.prems(2) by (cases "rd_allowed d") auto
    with Cons.IH [of lim' c] Cons.prems ch(1,2) False show ?thesis by (auto simp: r)
  next
    case True
    have nb: "\<not> blocks (spec_of lim s) now (Some c)" using ch(3) Cons.prems(2) True by metis
    then have pos: "1 \<le> unat (ls_max_requests (spec_of lim s))"
      by (simp add: blocks_def) (metis One_nat_def Suc_leI unat_eq_0 neq0_conv)
    show ?thesis
    proof (cases "now < wc_start c + secs (ls_window_secs (spec_of lim s))")
      case inside: True
      have lt: "unat (wc_count c) < unat (ls_max_requests (spec_of lim s))"
        using nb inside by (auto simp: blocks_def word_le_nat_alt)
      have "counter_of lim' s key = Some (c\<lparr>wc_count := wc_count c + 1\<rparr>)"
        using True ch(5) Cons.prems(2) inside by (auto simp: counted_def bump_def)
      then show ?thesis
        using Cons.IH [of lim' "c\<lparr>wc_count := wc_count c + 1\<rparr>"] Cons.prems(1,4) ch(1,2) True lt
          unat_inc_below [OF lt] by (simp add: r)
    next
      case False
      let ?c = "\<lparr>wc_start = now, wc_count = 1\<rparr>"
      have c: "counter_of lim' s key = Some ?c"
        using True ch(5) Cons.prems(2) False by (auto simp: counted_def bump_def)
      have "\<forall>(ctx, t) \<in> set rs. t < wc_start ?c + secs (ls_window_secs (spec_of lim' s))"
        using Cons.prems(4) now(1) ch(2) r by fastforce
      then have "unat (wc_count ?c) + admitted_count s key rs lim' \<le> unat (ls_max_requests (spec_of lim' s))"
        using admitted_in_window [OF _ c] Cons.prems(1) ch(2) pos by simp
      then show ?thesis using ch(1,2) True Cons.prems(3) by (simp add: r)
    qed
  qed
qed simp

section \<open>Calls that run alone, and calls that race\<close>

lemma run_call_Suc: "run_call (Suc n) (lim, c) = run_call n (call_step lim c)"
  by (simp add: run_call_def funpow_swap1)

lemma run_call_numeral: "run_call (numeral k) (lim, c) = run_call (pred_numeral k) (call_step lim c)"
  by (simp add: numeral_eq_Suc run_call_Suc)

lemma run_call_0: "run_call 0 x = x"
  by (simp add: run_call_def)

lemma run_call_done: "lc_pc c = Finished d \<Longrightarrow> run_call n (lim, c) = (lim, c)"
  by (induction n) (simp_all add: run_call_0 run_call_Suc call_step_def)

lemma run_check:
  assumes "lc_pc c = Checking s"
    "would_exceed (scope_counters s lim) (scope_key s (lc_ctx c)) (spec_of lim s) (lc_now c) = Returns None"
  shows "run_call (Suc n) (lim, c) = run_call n (lim, c\<lparr>lc_pc := after_check s\<rparr>)"
  using assms by (simp add: run_call_Suc call_step_def)

definition run_schedule :: "nat list \<Rightarrow> rate_limiter \<times> limiter_call list \<Rightarrow> rate_limiter \<times> limiter_call list" where
  "run_schedule is st = fold (\<lambda>i (lim, cs). let (lim', c') = call_step lim (cs ! i) in (lim', cs[i := c'])) is st"

lemma run_schedule_length: "length (snd (run_schedule is st)) = length (snd st)"
  by (induction "is" arbitrary: st) (auto simp: run_schedule_def split: prod.splits)

lemma run_schedule_steps:
  "\<forall>i \<in> set is. i < length (snd st) \<Longrightarrow> limiter_step\<^sup>*\<^sup>* st (run_schedule is st)"
proof (induction "is" arbitrary: st)
  case (Cons i "is")
  obtain lim cs where st: "st = (lim, cs)" by (cases st)
  obtain lim' c' where c: "call_step lim (cs ! i) = (lim', c')" by force
  have "limiter_step st (lim', cs[i := c'])"
    unfolding st by (rule limiter_step.intros [OF _ c]) (use Cons.prems st in simp)
  moreover have "limiter_step\<^sup>*\<^sup>* (lim', cs[i := c']) (run_schedule is (lim', cs[i := c']))"
    by (rule Cons.IH) (use Cons.prems st in simp)
  ultimately show ?case by (simp add: run_schedule_def st c converse_rtranclp_into_rtranclp)
qed (simp add: run_schedule_def)

lemma run_bump:
  assumes "lc_pc c = Bumping s" "spec_ok (spec_of lim s)"
  obtains k where "run_call (2 + n) (lim, c) =
     run_call (n + k) (set_scope_counters s (hm_insert (scope_key s (lc_ctx c))
        (counted (spec_of lim s) (lc_now c) (counter_of lim s (scope_key s (lc_ctx c)))) (scope_counters s lim)) lim,
        c\<lparr>lc_pc := after_bump s\<rparr>)"
proof (cases "counter_of lim s (scope_key s (lc_ctx c))")
  case None
  then show thesis
    using assms that [of 0] by (simp add: run_call_Suc call_step_def limit_window_ok counted_def)
next
  case (Some k)
  then show thesis
    using assms that [of 1] by (simp add: run_call_Suc call_step_def limit_window_ok counted_def)
qed

lemma run_call_alone:
  assumes cfg: "config_ok (lim_config lim)"
  shows "\<exists>lim' d. check_and_record_at ctx now lim = Returns (lim', d)
     \<and> run_call 9 (lim, new_call ctx now) = (lim', (new_call ctx now)\<lparr>lc_pc := Finished d\<rparr>)"
proof -
  have ok: "spec_ok (spec_of lim s)" for s by (rule config_ok_scope [OF cfg])
  have we: "\<exists>r. would_exceed (scope_counters s lim) (scope_key s ctx) (spec_of lim s) now = Returns r" for s
    using would_exceed_iff [OF ok] by blast
  obtain u v w where e:
      "would_exceed (lim_user_counters lim) (cx_user_id ctx) (rl_per_user (lim_config lim)) now = Returns u"
      "would_exceed (lim_session_counters lim) (cx_session_id ctx) (rl_per_session (lim_config lim)) now = Returns v"
      "would_exceed (lim_tool_counters lim) (cx_tool ctx) (rl_per_tool (lim_config lim)) now = Returns w"
    using we [of User] we [of Session] we [of Tool] by auto
  let ?c = "new_call ctx now"
  have nine: "(9::nat) = Suc (Suc (Suc 6))" by simp
  note stop = run_call_done [of "?c\<lparr>lc_pc := Finished d\<rparr>" d for d]
  show ?thesis
  proof (cases "u = None \<and> v = None \<and> w = None")
    case False
    then show ?thesis
      using e
      by (cases u; cases v; cases w)
        (simp_all add: check_and_record_at_def Let_def new_call_def call_step_def run_call_numeral run_call_done)
  next
    case True
    let ?ins = "\<lambda>s l. set_scope_counters s (hm_insert (scope_key s ctx)
        (counted (spec_of l s) now (counter_of l s (scope_key s ctx))) (scope_counters s l)) l"
    have "run_call 9 (lim, ?c) = run_call 6 (lim, ?c\<lparr>lc_pc := Bumping User\<rparr>)"
      using e True unfolding nine run_call_Suc by (simp add: new_call_def call_step_def run_call_numeral)
    moreover obtain a where a: "run_call (2 + 4) (lim, ?c\<lparr>lc_pc := Bumping User\<rparr>)
        = run_call (4 + a) (?ins User lim, ?c\<lparr>lc_pc := after_bump User\<rparr>)"
      by (rule run_bump [of "?c\<lparr>lc_pc := Bumping User\<rparr>" User lim 4])
        (use ok [of User] in \<open>simp_all add: new_call_def\<close>)
    moreover obtain b where b: "run_call (2 + (2 + a)) (?ins User lim, ?c\<lparr>lc_pc := Bumping Session\<rparr>)
        = run_call (2 + a + b) (?ins Session (?ins User lim), ?c\<lparr>lc_pc := after_bump Session\<rparr>)"
      by (rule run_bump [of "?c\<lparr>lc_pc := Bumping Session\<rparr>" Session "?ins User lim" "2 + a"])
        (use ok [of Session] in \<open>simp_all add: new_call_def\<close>)
    moreover obtain c where c: "run_call (2 + (a + b)) (?ins Session (?ins User lim), ?c\<lparr>lc_pc := Bumping Tool\<rparr>)
        = run_call (a + b + c) (?ins Tool (?ins Session (?ins User lim)), ?c\<lparr>lc_pc := after_bump Tool\<rparr>)"
      by (rule run_bump [of "?c\<lparr>lc_pc := Bumping Tool\<rparr>" Tool "?ins Session (?ins User lim)" "a + b"])
        (use ok [of Tool] in \<open>simp_all add: new_call_def\<close>)
    moreover have "4 + a = 2 + (2 + a)" "2 + a + b = 2 + (a + b)" "2 + 4 = (6::nat)" by simp_all
    ultimately have "run_call 9 (lim, ?c) = (?ins Tool (?ins Session (?ins User lim)), ?c\<lparr>lc_pc := Finished admitted\<rparr>)"
      using stop [of admitted "a + b + c"] by (simp only: after_bump.simps) simp
    moreover have "check_and_record_at ctx now lim = Returns (?ins Tool (?ins Session (?ins User lim)), admitted)"
      using e True increment_counter_ok [OF ok [of User]] increment_counter_ok [OF ok [of Session]]
        increment_counter_ok [OF ok [of Tool]]
      by (simp add: check_and_record_at_def Let_def)
    ultimately show ?thesis by blast
  qed
qed

section \<open>Properties of the limiter\<close>

definition one_per_minute :: rate_limit_config where
  "one_per_minute = \<lparr>rl_per_user = \<lparr>ls_max_requests = 1, ls_window_secs = 60\<rparr>,
     rl_per_session = \<lparr>ls_max_requests = 10, ls_window_secs = 60\<rparr>,
     rl_per_tool = \<lparr>ls_max_requests = 10, ls_window_secs = 60\<rparr>\<rparr>"

definition alice :: rate_limit_context where
  "alice = \<lparr>cx_user_id = ''alice'', cx_session_id = ''s1'', cx_tool = ''shell''\<rparr>"

lemma one_per_minute_ok: "config_ok (lim_config (limiter_new one_per_minute))"
  by (simp add: config_ok_def spec_ok_def one_per_minute_def limiter_new_def)

text \<open>
  the decision of one call, for windows within the range of \<open>chrono\<close>. The call is admitted
  exactly when no scope blocks; then exactly its own counter of each scope is updated, and
  a new window is started where none is running. Otherwise the first blocking scope in the order
  user, session, tool is reported and no counter changes, so that a refused request
  does not count against any limit.
\<close>

theorem rate_limit_decision_exact:
  assumes "config_ok (lim_config lim)"
  shows "if \<forall>s. \<not> blocks (scope_spec s (lim_config lim)) now (hm_get (scope_counters s lim) (scope_key s ctx))
     then \<exists>lim'. check_and_record_at ctx now lim = Returns (lim', admitted)
        \<and> (\<forall>s. scope_counters s lim' = hm_insert (scope_key s ctx)
             (counted (scope_spec s (lim_config lim)) now (hm_get (scope_counters s lim) (scope_key s ctx)))
             (scope_counters s lim))
     else \<exists>s retry. check_and_record_at ctx now lim = Returns (lim, denied s retry)
        \<and> blocks (scope_spec s (lim_config lim)) now (hm_get (scope_counters s lim) (scope_key s ctx))
        \<and> (\<forall>s' \<in> set (earlier s).
             \<not> blocks (scope_spec s' (lim_config lim)) now (hm_get (scope_counters s' lim) (scope_key s' ctx)))"
proof (cases "\<forall>s. \<not> scope_blocks lim ctx now s")
  case True
  with check_admitted [OF assms this] show ?thesis by auto
next
  case False
  then obtain s where s: "scope_blocks lim ctx now s" "\<forall>s' \<in> set (earlier s). \<not> scope_blocks lim ctx now s'"
    using first_blocking [of "scope_blocks lim ctx now"] by blast
  obtain retry where "check_and_record_at ctx now lim = Returns (lim, denied s retry)"
    using check_denied [OF assms s] by blast
  then show ?thesis using s False by auto
qed

theorem rate_limit_decision_exact_witness:
  "\<exists>lim'. check_and_record_at alice 0 (limiter_new one_per_minute) = Returns (lim', admitted)"
proof -
  have nb: "\<forall>s. \<not> scope_blocks (limiter_new one_per_minute) alice 0 s"
    by (simp add: scope_cases blocks_def limiter_new_def one_per_minute_def)
  show ?thesis
    using rate_limit_decision_exact [OF one_per_minute_ok, of 0 alice] unfolding if_P [OF nb] by blast
qed

text \<open>
  C12: calls made one after the other. Over requests that all fall within one window length, a
  key of a scope is admitted at most twice its limit, and at most its limit when it
  has no counter or an expired one at the start; requests of other keys may interleave freely.
\<close>

theorem rate_limit_bound:
  assumes cfg: "config_ok (lim_config lim)"
    and times: "\<forall>(ctx, now) \<in> set rs. t0 \<le> now \<and> now < t0 + secs (ls_window_secs (scope_spec s (lim_config lim)))"
    and within: "\<forall>c. hm_get (scope_counters s lim) key = Some c \<longrightarrow>
       wc_count c \<le> ls_max_requests (scope_spec s (lim_config lim))"
  shows "admitted_count s key rs lim \<le> 2 * unat (ls_max_requests (scope_spec s (lim_config lim)))
     \<and> ((\<forall>c. hm_get (scope_counters s lim) key = Some c \<longrightarrow>
            wc_start c + secs (ls_window_secs (scope_spec s (lim_config lim))) \<le> t0) \<longrightarrow>
          admitted_count s key rs lim \<le> unat (ls_max_requests (scope_spec s (lim_config lim))))"
proof -
  have fresh: "admitted_count s key rs lim \<le> unat (ls_max_requests (spec_of lim s))"
    if "\<forall>c. counter_of lim s key = Some c \<longrightarrow> wc_start c + secs (ls_window_secs (spec_of lim s)) \<le> t0"
    by (rule admitted_fresh_window [OF cfg that times])
  show ?thesis
  proof (cases "counter_of lim s key")
    case None
    then show ?thesis using fresh by simp
  next
    case (Some c)
    then have "unat (wc_count c) \<le> unat (ls_max_requests (spec_of lim s))"
      using within by (simp add: word_le_nat_alt)
    from admitted_two_windows [OF cfg Some this times] fresh show ?thesis by simp
  qed
qed

theorem rate_limit_bound_witness:
  "admitted_count User ''alice'' [(alice, 0), (alice, 1), (alice, 2)] (limiter_new one_per_minute) \<le> 1"
  using rate_limit_bound [OF one_per_minute_ok, of "[(alice, 0), (alice, 1), (alice, 2)]" 0 User "''alice''"]
  by (simp add: limiter_new_def one_per_minute_def)

text \<open>
  a call whose map accesses are not interleaved with others behaves like
  \<open>check_and_record_at\<close>: after at most nine accesses it is finished with the same
  decision and the same counters.
\<close>

theorem uninterrupted_call_refines:
  assumes "config_ok (lim_config lim)"
  shows "\<exists>lim' d. check_and_record_at ctx now lim = Returns (lim', d)
     \<and> run_call 9 (lim, new_call ctx now) = (lim', (new_call ctx now)\<lparr>lc_pc := Finished d\<rparr>)"
  by (rule run_call_alone [OF assms])

theorem uninterrupted_call_refines_witness:
  "\<exists>lim' d. run_call 9 (limiter_new one_per_minute, new_call alice 5) = (lim', (new_call alice 5)\<lparr>lc_pc := Finished d\<rparr>)"
  using uninterrupted_call_refines [OF one_per_minute_ok] by blast

text \<open>
  the check and the increments of a call are separate accesses, so two concurrent calls can
  both pass the checks before either counts. With a limit of one request per minute for a
  user, two requests of that user at the same instant can both be admitted, and because the
  first counter is inserted by both, only one of them is counted.
\<close>

theorem concurrent_calls_exceed_limit:
  "\<exists>lim' cs'. limiter_step\<^sup>*\<^sup>* (limiter_new one_per_minute, [new_call alice 0, new_call alice 0]) (lim', cs')
     \<and> map lc_pc cs' = [Finished admitted, Finished admitted]
     \<and> hm_get (lim_user_counters lim') ''alice'' = Some \<lparr>wc_start = 0, wc_count = 1\<rparr>"
proof -
  let ?st = "(limiter_new one_per_minute, [new_call alice 0, new_call alice 0])"
  let ?is = "[0, 1, 0, 1, 0, 1, 0, 1, 0, 1, 0, 0, 0, 0, 1, 1]"
  have "limiter_step\<^sup>*\<^sup>* ?st (run_schedule ?is ?st)"
    by (rule run_schedule_steps) simp
  moreover have "map lc_pc (snd (run_schedule ?is ?st)) = [Finished admitted, Finished admitted]
      \<and> hm_get (lim_user_counters (fst (run_schedule ?is ?st))) ''alice'' = Some \<lparr>wc_start = 0, wc_count = 1\<rparr>"
    by (simp add: run_schedule_def call_step_def new_call_def would_exceed_def limit_window_def
        limiter_new_def one_per_minute_def alice_def bump_def Let_def)
  ultimately show ?thesis by (metis prod.collapse)
qed

end
