(* ===== verification/Canary.thy ===== *)
theory Canary
  imports Complex_Main Fleet_Prelude "HOL-Library.Sublist"
begin

text \<open>
  The canary phase of a fleet update: \<^verbatim>\<open>crates/ff-updater/src/canary.rs\<close>.

  The orchestrator chooses which nodes receive an update first, follows them through the
  stages of the canary and evaluates health gates. An HTTP request and a shell command are
  the outside world: their answers are arguments, one answer per request, and so is each
  read of the clock. The percentage of the policy (an \<open>f64\<close>) is a rational number. Strings
  are the bytes of the source's UTF-8 strings; the dash of one message is written as its
  three bytes.
\<close>

section \<open>Data\<close>

datatype canary_stage =
  CanaryNotStarted | CanaryDeploying | CanaryMonitoring | CanaryPassed | RollingOut
| CanaryComplete | CanaryRolledBack

fun canary_stage_to_string :: "canary_stage \<Rightarrow> string" where
  "canary_stage_to_string CanaryNotStarted = ''not_started''"
| "canary_stage_to_string CanaryDeploying = ''canary_deploying''"
| "canary_stage_to_string CanaryMonitoring = ''canary_monitoring''"
| "canary_stage_to_string CanaryPassed = ''canary_passed''"
| "canary_stage_to_string RollingOut = ''rolling_out''"
| "canary_stage_to_string CanaryComplete = ''complete''"
| "canary_stage_to_string CanaryRolledBack = ''rolled_back''"

record fleet_computer =
  fc_name :: string
  fc_priority :: u32
  fc_is_leader :: bool
  fc_health_url :: string
  fc_current_version :: "string option"

datatype node_update_status =
  NodePending | NodeUpdating | NodeUpdated | NodeHealthCheckPassed | NodeHealthCheckFailed
| NodeRolledBack | NodeSkipped

fun node_update_status_to_string :: "node_update_status \<Rightarrow> string" where
  "node_update_status_to_string NodePending = ''pending''"
| "node_update_status_to_string NodeUpdating = ''updating''"
| "node_update_status_to_string NodeUpdated = ''updated''"
| "node_update_status_to_string NodeHealthCheckPassed = ''health_check_passed''"
| "node_update_status_to_string NodeHealthCheckFailed = ''health_check_failed''"
| "node_update_status_to_string NodeRolledBack = ''rolled_back''"
| "node_update_status_to_string NodeSkipped = ''skipped''"

record node_progress =
  np_worker_name :: string
  np_status :: node_update_status
  np_updated_at :: "datetime option"
  np_health_checked_at :: "datetime option"
  np_error :: "string option"

datatype health_gate_kind =
  HttpStatus (gate_url: string)
| VersionMatch (gate_url: string) (gate_expected_version: string)
| GateCommand (gate_command: string)

record health_gate =
  hg_name :: string
  hg_kind :: health_gate_kind

record health_gate_result =
  gr_gate_name :: string
  gr_passed :: bool
  gr_detail :: string
  gr_checked_at :: datetime

record canary_policy =
  cp_canary_count :: nat
  cp_canary_percentage :: rat
  cp_bake_time_secs :: u64
  cp_check_interval_secs :: u64
  cp_health_gates :: "health_gate list"
  cp_health_timeout_secs :: u64
  cp_failure_threshold :: u32

definition canary_policy_default :: canary_policy where
  "canary_policy_default = \<lparr>cp_canary_count = 1, cp_canary_percentage = 0, cp_bake_time_secs = 300,
     cp_check_interval_secs = 15, cp_health_gates = [], cp_health_timeout_secs = 10,
     cp_failure_threshold = 3\<rparr>"

record rollout_progress =
  rp_stage :: canary_stage
  rp_canary_nodes :: "string list"
  rp_remaining_nodes :: "string list"
  rp_node_statuses :: "(string, node_progress) hmap"
  rp_started_at :: "datetime option"
  rp_completed_at :: "datetime option"
  rp_target_version :: string
  rp_gate_results :: "health_gate_result list"

text \<open>The predicates of the \<open>matches!\<close> in the counting and completion code.\<close>

definition node_succeeded :: "node_update_status \<Rightarrow> bool" where
  "node_succeeded s \<longleftrightarrow> s \<in> {NodeUpdated, NodeHealthCheckPassed}"

definition node_failed :: "node_update_status \<Rightarrow> bool" where
  "node_failed s \<longleftrightarrow> s \<in> {NodeHealthCheckFailed, NodeRolledBack}"

definition count_nodes :: "(node_update_status \<Rightarrow> bool) \<Rightarrow> (string, node_progress) hmap \<Rightarrow> nat" where
  "count_nodes P m = length (filter (\<lambda>np. P (np_status np)) (hm_values m))"

definition updated_count :: "rollout_progress \<Rightarrow> nat" where
  "updated_count p = count_nodes node_succeeded (rp_node_statuses p)"

definition pending_count :: "rollout_progress \<Rightarrow> nat" where
  "pending_count p = count_nodes (\<lambda>s. s = NodePending) (rp_node_statuses p)"

definition progress_failed_count :: "rollout_progress \<Rightarrow> nat" where
  "progress_failed_count p = count_nodes node_failed (rp_node_statuses p)"

text \<open>\<open>UpdateError\<close>; an \<open>io::Error\<close> and a \<open>reqwest::Error\<close> are represented by their text.\<close>

datatype update_error =
  CheckFailed string
| GitCommand string string
| GitPullFailed string
| BuildFailed "32 word" string
| TestFailed "32 word" string
| BinaryNotFound string
| BinaryTooSmall u64 u64
| VersionCheckFailed string
| SmokeTestFailed string string
| BackupFailed string
| CopyFailed string
| PermissionFailed string
| NoBackup string
| RollbackFailed string
| HealthCheckFailed string
| AlreadyInProgress string
| FleetCoordination string
| UpdateIo string
| UpdateHttp string
| UpdateOther string

section \<open>The orchestrator\<close>

record canary_orchestrator =
  co_policy :: canary_policy
  co_progress :: rollout_progress

definition canary_new :: "canary_policy \<Rightarrow> string \<Rightarrow> canary_orchestrator" where
  "canary_new policy v = \<lparr>co_policy = policy, co_progress =
     \<lparr>rp_stage = CanaryNotStarted, rp_canary_nodes = [], rp_remaining_nodes = [],
      rp_node_statuses = [], rp_started_at = None, rp_completed_at = None,
      rp_target_version = v, rp_gate_results = []\<rparr>\<rparr>"

definition pending_progress :: "string \<Rightarrow> node_progress" where
  "pending_progress name = \<lparr>np_worker_name = name, np_status = NodePending, np_updated_at = None,
     np_health_checked_at = None, np_error = None\<rparr>"

text \<open>\<open>(fleet.len() as f64 * pct.clamp(0, 1)).ceil().max(1.0) as usize\<close>\<close>

definition canary_wanted :: "canary_policy \<Rightarrow> nat \<Rightarrow> nat" where
  "canary_wanted pol n =
     (if cp_canary_count pol > 0 then cp_canary_count pol
      else nat (max 1 \<lceil>of_nat n * max 0 (min 1 (cp_canary_percentage pol))\<rceil>))"

definition select_canary_nodes ::
  "datetime \<Rightarrow> fleet_computer list \<Rightarrow> canary_orchestrator
   \<Rightarrow> canary_orchestrator \<times> (string list, update_error) result" where
  "select_canary_nodes now fleet co =
     (if fleet = [] then (co, Inl (FleetCoordination ''no fleet nodes provided''))
      else
        let candidates = sort_key fc_priority (filter (\<lambda>n. \<not> fc_is_leader n) fleet) in
        if candidates = [] then (co, Inl (FleetCoordination ''no non-leader nodes available for canary''))
        else
          let count = min (canary_wanted (co_policy co) (length fleet)) (length candidates);
              canary_names = map fc_name (take count candidates);
              remaining_names = map fc_name (filter (\<lambda>n. fc_name n \<notin> set canary_names) fleet);
              p = co_progress co
          in (co\<lparr>co_progress := p\<lparr>
                rp_node_statuses :=
                  fold (\<lambda>n. hm_insert (fc_name n) (pending_progress (fc_name n))) fleet (rp_node_statuses p),
                rp_canary_nodes := canary_names, rp_remaining_nodes := remaining_names,
                rp_started_at := Some now, rp_stage := CanaryNotStarted\<rparr>\<rparr>,
              Inr canary_names))"

definition set_status :: "node_update_status \<Rightarrow> string \<Rightarrow> (string, node_progress) hmap
  \<Rightarrow> (string, node_progress) hmap" where
  "set_status s name m = hm_modify name (\<lambda>np. np\<lparr>np_status := s\<rparr>) m"

definition begin_canary_deploy :: "canary_orchestrator \<Rightarrow> canary_orchestrator" where
  "begin_canary_deploy co =
     (let p = co_progress co in
      co\<lparr>co_progress := p\<lparr>rp_stage := CanaryDeploying,
        rp_node_statuses := fold (set_status NodeUpdating) (rp_canary_nodes p) (rp_node_statuses p)\<rparr>\<rparr>)"

definition canary_mark_node_updated :: "datetime \<Rightarrow> string \<Rightarrow> canary_orchestrator \<Rightarrow> canary_orchestrator" where
  "canary_mark_node_updated now name co =
     (let p = (co_progress co)\<lparr>rp_node_statuses :=
            hm_modify name (\<lambda>np. np\<lparr>np_status := NodeUpdated, np_updated_at := Some now\<rparr>)
              (rp_node_statuses (co_progress co))\<rparr>;
          all_canary_updated = (\<forall>n \<in> set (rp_canary_nodes p).
            case hm_get (rp_node_statuses p) n of None \<Rightarrow> False | Some np \<Rightarrow> node_succeeded (np_status np))
      in co\<lparr>co_progress :=
           (if all_canary_updated \<and> rp_stage p = CanaryDeploying
            then p\<lparr>rp_stage := CanaryMonitoring\<rparr> else p)\<rparr>)"

definition promote_canary :: "canary_orchestrator \<Rightarrow> canary_orchestrator" where
  "promote_canary co =
     (if rp_stage (co_progress co) = CanaryMonitoring
      then co\<lparr>co_progress := (co_progress co)\<lparr>rp_stage := CanaryPassed\<rparr>\<rparr> else co)"

definition begin_rollout :: "canary_orchestrator \<Rightarrow> canary_orchestrator" where
  "begin_rollout co =
     (if rp_stage (co_progress co) = CanaryPassed
      then co\<lparr>co_progress := (co_progress co)\<lparr>rp_stage := RollingOut\<rparr>\<rparr> else co)"

definition mark_complete :: "datetime \<Rightarrow> canary_orchestrator \<Rightarrow> canary_orchestrator" where
  "mark_complete now co =
     co\<lparr>co_progress := (co_progress co)\<lparr>rp_stage := CanaryComplete, rp_completed_at := Some now\<rparr>\<rparr>"

definition mark_rolled_back :: "datetime \<Rightarrow> string list \<Rightarrow> canary_orchestrator \<Rightarrow> canary_orchestrator" where
  "mark_rolled_back now failed co =
     (let p = co_progress co in
      co\<lparr>co_progress := p\<lparr>rp_stage := CanaryRolledBack, rp_completed_at := Some now,
        rp_node_statuses := fold (set_status NodeRolledBack) failed (rp_node_statuses p)\<rparr>\<rparr>)"

section \<open>Health gates\<close>

text \<open>
  The answer to an HTTP GET: the printed status, whether it is a success status and the body
  (empty when it cannot be read); or the text of the error. The outcome of a shell command:
  its exit code (none when a signal ended it) and its standard error; or the text of the
  error of starting it.
\<close>

record http_reply =
  hr_status :: string
  hr_success :: bool
  hr_body :: string

type_synonym http_outcome = "string + http_reply"
type_synonym command_outcome = "string + (int option \<times> string)"

definition check_http_health :: "datetime \<Rightarrow> string \<Rightarrow> http_outcome \<Rightarrow> health_gate_result" where
  "check_http_health now url resp =
     (case resp of
        Inr r \<Rightarrow> \<lparr>gr_gate_name = ''http_health'', gr_passed = hr_success r,
                   gr_detail = ''HTTP '' @ hr_status r @ '' from '' @ url, gr_checked_at = now\<rparr>
      | Inl e \<Rightarrow> \<lparr>gr_gate_name = ''http_health'', gr_passed = False,
                   gr_detail = ''request failed: '' @ e, gr_checked_at = now\<rparr>)"

definition utf8_em_dash :: string where
  "utf8_em_dash = [CHR 0xE2, CHR 0x80, CHR 0x94]"

definition check_version_match ::
  "datetime \<Rightarrow> string \<Rightarrow> string \<Rightarrow> http_outcome \<Rightarrow> health_gate_result" where
  "check_version_match now url expected resp =
     (case resp of
        Inr r \<Rightarrow>
          (if hr_success r
           then let matched = sublist expected (hr_body r) in
                \<lparr>gr_gate_name = ''version_match'', gr_passed = matched,
                 gr_detail = (if matched then ''version '' @ expected @ '' found in response''
                              else ''expected '' @ expected @ '', got: '' @ take 200 (hr_body r)),
                 gr_checked_at = now\<rparr>
           else \<lparr>gr_gate_name = ''version_match'', gr_passed = False,
                 gr_detail = ''HTTP '' @ hr_status r @ '' '' @ utf8_em_dash @ '' cannot check version'',
                 gr_checked_at = now\<rparr>)
      | Inl e \<Rightarrow> \<lparr>gr_gate_name = ''version_match'', gr_passed = False,
                   gr_detail = ''request failed: '' @ e, gr_checked_at = now\<rparr>)"

definition check_command :: "datetime \<Rightarrow> string \<Rightarrow> command_outcome \<Rightarrow> health_gate_result" where
  "check_command now command out =
     (case out of
        Inr (code, stderr) \<Rightarrow>
          (if code = Some 0
           then \<lparr>gr_gate_name = ''command'', gr_passed = True,
                 gr_detail = ''command succeeded: '' @ command, gr_checked_at = now\<rparr>
           else \<lparr>gr_gate_name = ''command'', gr_passed = False,
                 gr_detail = ''exit code '' @ show_int (case code of None \<Rightarrow> -1 | Some c \<Rightarrow> c)
                   @ '': '' @ stderr, gr_checked_at = now\<rparr>)
      | Inl e \<Rightarrow> \<lparr>gr_gate_name = ''command'', gr_passed = False,
                   gr_detail = ''failed to run command: '' @ e, gr_checked_at = now\<rparr>)"

text \<open>
  The outside world during one evaluation: what the \<open>i\<close>-th request, command and clock read
  of the evaluation give.
\<close>

record gate_env =
  ge_get :: "nat \<Rightarrow> string \<Rightarrow> http_outcome"
  ge_sh :: "nat \<Rightarrow> string \<Rightarrow> command_outcome"
  ge_now :: "nat \<Rightarrow> datetime"

definition run_gate :: "gate_env \<Rightarrow> nat \<Rightarrow> health_gate \<Rightarrow> health_gate_result" where
  "run_gate env i gate =
     (case hg_kind gate of
        HttpStatus url \<Rightarrow> check_http_health (ge_now env i) url (ge_get env i url)
      | VersionMatch url ver \<Rightarrow> check_version_match (ge_now env i) url ver (ge_get env i url)
      | GateCommand c \<Rightarrow> check_command (ge_now env i) c (ge_sh env i c))
     \<lparr>gr_gate_name := hg_name gate\<rparr>"

fun run_gates :: "gate_env \<Rightarrow> nat \<Rightarrow> health_gate list \<Rightarrow> health_gate_result list" where
  "run_gates env i [] = []"
| "run_gates env i (g # gs) = run_gate env i g # run_gates env (Suc i) gs"

definition evaluate_health_gates ::
  "gate_env \<Rightarrow> canary_policy \<Rightarrow> fleet_computer \<Rightarrow> string \<Rightarrow> health_gate_result list" where
  "evaluate_health_gates env pol node expected =
     (let url = fc_health_url node in
      if cp_health_gates pol = []
      then [check_http_health (ge_now env 0) url (ge_get env 0 url),
            check_version_match (ge_now env 1) url expected (ge_get env 1 url)]
      else run_gates env 0 (cp_health_gates pol))"

fun join_strings :: "string \<Rightarrow> string list \<Rightarrow> string" where
  "join_strings sep [] = []"
| "join_strings sep [s] = s"
| "join_strings sep (s # t # ss) = s @ sep @ join_strings sep (t # ss)"

definition gate_failures :: "health_gate_result list \<Rightarrow> string" where
  "gate_failures rs = join_strings ''; ''
     (map (\<lambda>r. gr_gate_name r @ '': '' @ gr_detail r) (filter (\<lambda>r. \<not> gr_passed r) rs))"

definition health_checked :: "datetime \<Rightarrow> health_gate_result list \<Rightarrow> node_progress \<Rightarrow> node_progress" where
  "health_checked now rs np =
     (let np1 = np\<lparr>np_health_checked_at := Some now\<rparr> in
      if list_all gr_passed rs then np1\<lparr>np_status := NodeHealthCheckPassed\<rparr>
      else np1\<lparr>np_status := NodeHealthCheckFailed, np_error := Some (gate_failures rs)\<rparr>)"

text \<open>The loop over the canary names; the \<open>i\<close>-th canary is evaluated in the world \<open>env i\<close>.\<close>

fun check_canaries ::
  "(nat \<Rightarrow> gate_env) \<Rightarrow> (nat \<Rightarrow> datetime) \<Rightarrow> canary_policy \<Rightarrow> fleet_computer list \<Rightarrow> nat \<Rightarrow> string list
   \<Rightarrow> rollout_progress \<times> bool \<Rightarrow> rollout_progress \<times> bool" where
  "check_canaries env now pol fleet i [] (p, ok) = (p, ok)"
| "check_canaries env now pol fleet i (name # names) (p, ok) =
     (case find (\<lambda>n. fc_name n = name) fleet of
        None \<Rightarrow> check_canaries env now pol fleet (Suc i) names (p, False)
      | Some node \<Rightarrow>
          (let rs = evaluate_health_gates (env i) pol node (rp_target_version p);
               known = hm_contains (rp_node_statuses p) name
           in check_canaries env now pol fleet (Suc i) names
                (p\<lparr>rp_node_statuses := hm_modify name (health_checked (now i) rs) (rp_node_statuses p),
                   rp_gate_results := rp_gate_results p @ rs\<rparr>,
                 if known \<and> \<not> list_all gr_passed rs then False else ok)))"

definition check_canary_health ::
  "(nat \<Rightarrow> gate_env) \<Rightarrow> (nat \<Rightarrow> datetime) \<Rightarrow> fleet_computer list \<Rightarrow> canary_orchestrator
   \<Rightarrow> canary_orchestrator \<times> bool" where
  "check_canary_health env now fleet co =
     (let (p, ok) = check_canaries env now (co_policy co) fleet 0 (rp_canary_nodes (co_progress co))
                      (co_progress co, True)
      in (co\<lparr>co_progress := p\<rparr>, ok))"

section \<open>Steps of the orchestrator\<close>

inductive canary_step :: "canary_orchestrator \<Rightarrow> canary_orchestrator \<Rightarrow> bool" where
  canary_select: "canary_step co (fst (select_canary_nodes now fleet co))"
| canary_deploy: "canary_step co (begin_canary_deploy co)"
| canary_updated: "canary_step co (canary_mark_node_updated now name co)"
| canary_check: "canary_step co (fst (check_canary_health env nows fleet co))"
| canary_promote: "canary_step co (promote_canary co)"
| canary_rollout: "canary_step co (begin_rollout co)"
| canary_complete: "canary_step co (mark_complete now co)"
| canary_roll_back: "canary_step co (mark_rolled_back now failed co)"

definition node_attempted :: "node_update_status \<Rightarrow> bool" where
  "node_attempted s \<longleftrightarrow> s \<in> {NodeUpdated, NodeHealthCheckPassed, NodeHealthCheckFailed}"

definition canary_known :: "rollout_progress \<Rightarrow> bool" where
  "canary_known p \<longleftrightarrow> (\<forall>n \<in> set (rp_canary_nodes p). hm_get (rp_node_statuses p) n \<noteq> None)"

definition canary_attempted :: "rollout_progress \<Rightarrow> bool" where
  "canary_attempted p \<longleftrightarrow> (\<forall>n \<in> set (rp_canary_nodes p).
     \<exists>np. hm_get (rp_node_statuses p) n = Some np \<and> node_attempted (np_status np))"

definition canary_past_deploy :: "canary_stage \<Rightarrow> bool" where
  "canary_past_deploy s \<longleftrightarrow> s \<in> {CanaryMonitoring, CanaryPassed, RollingOut}"

definition canary_inv :: "canary_orchestrator \<Rightarrow> bool" where
  "canary_inv co \<longleftrightarrow> canary_known (co_progress co) \<and>
     (canary_past_deploy (rp_stage (co_progress co)) \<longrightarrow> canary_attempted (co_progress co))"

lemmas canary_defs = canary_inv_def canary_known_def canary_attempted_def canary_past_deploy_def

lemma canary_attempted_known: "canary_attempted p \<Longrightarrow> canary_known p"
  by (auto simp: canary_defs)

lemma hm_get_fold_modify_None:
  "hm_get (fold (\<lambda>n. hm_modify n f) ns m) k = None \<longleftrightarrow> hm_get m k = None"
  by (induction ns arbitrary: m) (simp_all add: hm_get_modify)

lemma hm_get_set_statuses_None [simp]:
  "hm_get (fold (set_status s) ns m) k = None \<longleftrightarrow> hm_get m k = None"
  using hm_get_fold_modify_None [of "\<lambda>np. np\<lparr>np_status := s\<rparr>" ns m k]
  by (simp add: set_status_def [abs_def])

lemma hm_get_insert_names:
  "hm_get (fold (\<lambda>n. hm_insert (fc_name n) (pending_progress (fc_name n))) fleet m) k =
     (if k \<in> fc_name ` set fleet then Some (pending_progress k) else hm_get m k)"
  by (induction fleet arbitrary: m) auto

subsection \<open>The health check loop\<close>

definition canary_healthy ::
  "(nat \<Rightarrow> gate_env) \<Rightarrow> canary_policy \<Rightarrow> fleet_computer list \<Rightarrow> string \<Rightarrow> nat \<Rightarrow> string \<Rightarrow> bool" where
  "canary_healthy env pol fleet v i name =
     (case find (\<lambda>n. fc_name n = name) fleet of
        None \<Rightarrow> False
      | Some node \<Rightarrow> list_all gr_passed (evaluate_health_gates (env i) pol node v))"

lemma check_canaries_ok:
  "\<forall>n \<in> set names. hm_get (rp_node_statuses p) n \<noteq> None \<Longrightarrow>
   snd (check_canaries env now pol fleet i names (p, ok)) \<longleftrightarrow>
     ok \<and> (\<forall>j < length names. canary_healthy env pol fleet (rp_target_version p) (i + j) (names ! j))"
proof (induction names arbitrary: i p ok)
  case (Cons name names)
  have split: "(\<forall>j < length (name # names). P (i + j) ((name # names) ! j)) \<longleftrightarrow>
      P i name \<and> (\<forall>j < length names. P (Suc i + j) (names ! j))" for P
    by (auto simp: less_Suc_eq_0_disj)
  from Cons.prems have known: "hm_contains (rp_node_statuses p) name"
    by (simp add: hm_contains_def)
  show ?case
  proof (cases "find (\<lambda>n. fc_name n = name) fleet")
    case None
    then show ?thesis using Cons by (simp add: canary_healthy_def split del: if_split) auto
  next
    case (Some node)
    let ?rs = "evaluate_health_gates (env i) pol node (rp_target_version p)"
    let ?p = "p\<lparr>rp_node_statuses := hm_modify name (health_checked (now i) ?rs) (rp_node_statuses p),
                rp_gate_results := rp_gate_results p @ ?rs\<rparr>"
    have prem: "\<forall>n \<in> set names. hm_get (rp_node_statuses ?p) n \<noteq> None"
      using Cons.prems by (auto simp: hm_get_modify)
    have head: "canary_healthy env pol fleet (rp_target_version p) i name \<longleftrightarrow> list_all gr_passed ?rs"
      using Some by (simp add: canary_healthy_def)
    have "snd (check_canaries env now pol fleet i (name # names) (p, ok)) \<longleftrightarrow>
        snd (check_canaries env now pol fleet (Suc i) names (?p, ok \<and> list_all gr_passed ?rs))"
      using Some known by (simp add: Let_def)
    also have "\<dots> \<longleftrightarrow> (ok \<and> list_all gr_passed ?rs) \<and>
        (\<forall>j < length names. canary_healthy env pol fleet (rp_target_version p) (Suc i + j) (names ! j))"
      using Cons.IH [OF prem] by simp
    finally show ?thesis unfolding split head by blast
  qed
qed simp

lemma check_canaries_keeps:
  "rp_stage (fst (check_canaries env now pol fleet i names (p, ok))) = rp_stage p \<and>
   rp_canary_nodes (fst (check_canaries env now pol fleet i names (p, ok))) = rp_canary_nodes p \<and>
   rp_target_version (fst (check_canaries env now pol fleet i names (p, ok))) = rp_target_version p"
  by (induction names arbitrary: i p ok) (simp_all add: Let_def split: option.split)

lemma check_canaries_status:
  "hm_get (rp_node_statuses p) n = Some np \<Longrightarrow>
   \<exists>np'. hm_get (rp_node_statuses (fst (check_canaries env now pol fleet i names (p, ok)))) n = Some np' \<and>
     (np_status np' = np_status np \<or> node_attempted (np_status np'))"
proof (induction names arbitrary: i p ok np)
  case (Cons name names)
  show ?case
  proof (cases "find (\<lambda>n. fc_name n = name) fleet")
    case None
    with Cons show ?thesis by simp
  next
    case (Some node)
    let ?rs = "evaluate_health_gates (env i) pol node (rp_target_version p)"
    let ?p = "p\<lparr>rp_node_statuses := hm_modify name (health_checked (now i) ?rs) (rp_node_statuses p),
                rp_gate_results := rp_gate_results p @ ?rs\<rparr>"
    let ?np = "if n = name then health_checked (now i) ?rs np else np"
    have "hm_get (rp_node_statuses ?p) n = Some ?np"
      using Cons.prems by (auto simp: hm_get_modify)
    from Cons.IH [OF this] obtain np' where np':
      "hm_get (rp_node_statuses (fst (check_canaries env now pol fleet (Suc i) names
         (?p, if hm_contains (rp_node_statuses p) name \<and> \<not> list_all gr_passed ?rs then False else ok)))) n = Some np'"
      "np_status np' = np_status ?np \<or> node_attempted (np_status np')"
      by meson
    have "np_status ?np = np_status np \<or> node_attempted (np_status ?np)"
      by (simp add: health_checked_def node_attempted_def Let_def)
    with np' Some show ?thesis by (auto simp: Let_def)
  qed
qed simp

lemma check_canary_health_fst:
  "co_progress (fst (check_canary_health env now fleet co)) =
     fst (check_canaries env now (co_policy co) fleet 0 (rp_canary_nodes (co_progress co)) (co_progress co, True))"
  by (simp add: check_canary_health_def case_prod_beta)

subsection \<open>The invariant\<close>

lemma canary_inv_new: "canary_inv (canary_new pol v)"
  by (simp add: canary_defs canary_new_def)

lemma canary_candidates_subset:
  "set (map fc_name (take k (sort_key fc_priority (filter P fleet)))) \<subseteq> fc_name ` set fleet"
  by (auto dest: in_set_takeD)

lemma canary_inv_select: "canary_inv co \<Longrightarrow> canary_inv (fst (select_canary_nodes now fleet co))"
  using canary_candidates_subset
  by (auto simp: select_canary_nodes_def Let_def canary_defs hm_get_insert_names dest: in_set_takeD)

lemma canary_inv_check: "canary_inv co \<Longrightarrow> canary_inv (fst (check_canary_health env now fleet co))"
proof -
  assume inv: "canary_inv co"
  let ?p = "co_progress co" and ?q = "co_progress (fst (check_canary_health env now fleet co))"
  have keeps: "rp_stage ?q = rp_stage ?p" "rp_canary_nodes ?q = rp_canary_nodes ?p"
    by (simp_all add: check_canary_health_fst check_canaries_keeps)
  have status: "\<exists>np'. hm_get (rp_node_statuses ?q) n = Some np' \<and>
      (np_status np' = np_status np \<or> node_attempted (np_status np'))"
    if "hm_get (rp_node_statuses ?p) n = Some np" for n np
    using check_canaries_status [OF that] by (simp add: check_canary_health_fst)
  have "canary_known ?q"
    using inv status by (fastforce simp: canary_inv_def canary_known_def keeps)
  moreover have "canary_attempted ?q" if "canary_attempted ?p"
    using that status by (fastforce simp: canary_attempted_def keeps)
  ultimately show ?thesis using inv by (simp add: canary_inv_def keeps)
qed

lemma canary_inv_updated: "canary_inv co \<Longrightarrow> canary_inv (canary_mark_node_updated now name co)"
proof -
  assume inv: "canary_inv co"
  let ?p = "co_progress co"
  let ?m = "hm_modify name (\<lambda>np. np\<lparr>np_status := NodeUpdated, np_updated_at := Some now\<rparr>) (rp_node_statuses ?p)"
  have known: "canary_known (?p\<lparr>rp_node_statuses := ?m\<rparr>)"
    using inv by (auto simp: canary_inv_def canary_known_def hm_get_modify)
  have kept: "canary_attempted (?p\<lparr>rp_node_statuses := ?m\<rparr>)" if "canary_attempted ?p"
    using that by (fastforce simp: canary_attempted_def hm_get_modify node_attempted_def)
  have entered: "canary_attempted (?p\<lparr>rp_node_statuses := ?m\<rparr>)"
    if "\<forall>n \<in> set (rp_canary_nodes ?p). case hm_get ?m n of None \<Rightarrow> False | Some np \<Rightarrow> node_succeeded (np_status np)"
    using that by (fastforce simp: canary_attempted_def node_attempted_def node_succeeded_def split: option.splits)
  from inv known kept entered show ?thesis
    by (simp add: canary_mark_node_updated_def Let_def canary_inv_def canary_known_def canary_attempted_def
        canary_past_deploy_def)
qed

lemma canary_step_inv: "canary_step co co' \<Longrightarrow> canary_inv co \<Longrightarrow> canary_inv co'"
proof (induction rule: canary_step.induct)
  case (canary_deploy co)
  then show ?case by (simp add: begin_canary_deploy_def Let_def canary_defs)
next
  case (canary_promote co)
  then show ?case by (auto simp: promote_canary_def canary_defs)
next
  case (canary_rollout co)
  then show ?case by (auto simp: begin_rollout_def canary_defs)
next
  case (canary_roll_back co now failed)
  then show ?case by (simp add: mark_rolled_back_def Let_def canary_defs)
qed (simp_all add: canary_inv_select canary_inv_check canary_inv_updated, simp add: mark_complete_def canary_defs)

interpretation canary: invariant_machine canary_step canary_inv
  by unfold_locales (rule canary_step_inv)

section \<open>The canary gate\<close>

lemma check_canary_health_ok:
  "canary_inv co \<Longrightarrow> snd (check_canary_health env now fleet co) \<longleftrightarrow>
     (\<forall>j < length (rp_canary_nodes (co_progress co)).
        canary_healthy env (co_policy co) fleet (rp_target_version (co_progress co)) j
          (rp_canary_nodes (co_progress co) ! j))"
  by (simp add: check_canary_health_def case_prod_beta check_canaries_ok canary_inv_def canary_known_def)

text \<open>
  However the methods of the orchestrator are called, the deployment is in its
  monitoring, passed or rolling-out stage only when every canary node has been updated
  (possibly with a health check since), and the health check reports success exactly when
  every canary node is in the fleet list and passes all its health gates.
\<close>

theorem canary_rollout_gate:
  assumes "canary_step\<^sup>*\<^sup>* (canary_new pol v) co"
  shows "(canary_past_deploy (rp_stage (co_progress co)) \<longrightarrow> canary_attempted (co_progress co)) \<and>
    (snd (check_canary_health env now fleet co) \<longleftrightarrow>
     (\<forall>j < length (rp_canary_nodes (co_progress co)).
        canary_healthy env (co_policy co) fleet (rp_target_version (co_progress co)) j
          (rp_canary_nodes (co_progress co) ! j)))"
proof -
  have "canary_inv co"
    using assms canary_inv_new by (rule canary.star_inv)
  then show ?thesis
    using check_canary_health_ok by (simp add: canary_inv_def)
qed

text \<open>A fleet of a worker and a leader: the worker is the canary, is updated and promoted.\<close>

definition example_fleet :: "fleet_computer list" where
  "example_fleet =
     [\<lparr>fc_name = ''taylor'', fc_priority = 100, fc_is_leader = True, fc_health_url = ''t'', fc_current_version = None\<rparr>,
      \<lparr>fc_name = ''marcus'', fc_priority = 20, fc_is_leader = False, fc_health_url = ''m'', fc_current_version = None\<rparr>,
      \<lparr>fc_name = ''james'', fc_priority = 10, fc_is_leader = False, fc_health_url = ''j'', fc_current_version = None\<rparr>]"

definition example_env :: gate_env where
  "example_env = \<lparr>ge_get = (\<lambda>i url. Inr \<lparr>hr_status = ''200 OK'', hr_success = True, hr_body = ''v2''\<rparr>),
     ge_sh = (\<lambda>i c. Inr (Some 0, [])), ge_now = int\<rparr>"

definition example_canary :: canary_orchestrator where
  "example_canary = begin_rollout (promote_canary (canary_mark_node_updated 5 ''james''
     (begin_canary_deploy (fst (select_canary_nodes 0 example_fleet (canary_new canary_policy_default ''v2''))))))"

lemma example_canary_star: "canary_step\<^sup>*\<^sup>* (canary_new canary_policy_default ''v2'') example_canary"
  unfolding example_canary_def
  by (meson canary_step.intros rtranclp.rtrancl_into_rtrancl rtranclp.rtrancl_refl)

lemmas canary_eval =
  example_canary_def example_fleet_def canary_new_def canary_policy_default_def select_canary_nodes_def
  canary_wanted_def begin_canary_deploy_def canary_mark_node_updated_def promote_canary_def begin_rollout_def
  set_status_def pending_progress_def node_succeeded_def

lemma example_canary_value:
  "rp_stage (co_progress example_canary) = RollingOut"
  "rp_canary_nodes (co_progress example_canary) = [''james'']"
  "rp_target_version (co_progress example_canary) = ''v2''"
  "co_policy example_canary = canary_policy_default"
  by (simp_all add: canary_eval hm_get_modify Let_def)

lemma example_canary_gates:
  "canary_healthy (\<lambda>i. example_env) canary_policy_default example_fleet ''v2'' 0 ''james''"
  by (simp add: canary_healthy_def example_fleet_def evaluate_health_gates_def canary_policy_default_def
      example_env_def check_http_health_def check_version_match_def Let_def)

theorem canary_rollout_gate_witness:
  "canary_attempted (co_progress example_canary) \<and>
   snd (check_canary_health (\<lambda>i. example_env) int example_fleet example_canary)"
  using canary_rollout_gate [OF example_canary_star, of "\<lambda>i. example_env" int example_fleet]
  by (simp add: example_canary_value example_canary_gates canary_past_deploy_def)

end
