(* ===== verification/Rollout.thy ===== *)
theory Rollout
  imports Canary "HOL-Library.Product_Lexorder"
begin

text \<open>
  The rollout of an update to the nodes that remain after the canary:
  \<^verbatim>\<open>crates/ff-updater/src/rollout.rs\<close>.

  The controller says which nodes to update next and is told what became of them; every
  method is a function on its status, and \<open>rollout_run\<close> is any sequence of calls, with the
  nodes handed out on the way. \<open>usize\<close> counts are natural numbers.
\<close>

section \<open>Data\<close>

datatype rollout_command = CmdResume | CmdPause | CmdAbort

datatype rollout_state = RsPlanned | RsInProgress | RsPaused | RsComplete | RsAborted

fun rollout_state_to_string :: "rollout_state \<Rightarrow> string" where
  "rollout_state_to_string RsPlanned = ''planned''"
| "rollout_state_to_string RsInProgress = ''in_progress''"
| "rollout_state_to_string RsPaused = ''paused''"
| "rollout_state_to_string RsComplete = ''complete''"
| "rollout_state_to_string RsAborted = ''aborted''"

record rollout_plan =
  pl_node_order :: "string list"
  pl_pause_after_canary :: bool
  pl_max_unavailable :: nat
  pl_abort_on_failure :: bool
  pl_target_version :: string

text \<open>
  The comparison given to the stable \<open>sort_by\<close>, and the key it is the order of: workers
  before leaders, then ascending priority.
\<close>

datatype cmp_ordering = Less | Equal | Greater

definition rollout_cmp :: "fleet_computer \<Rightarrow> fleet_computer \<Rightarrow> cmp_ordering" where
  "rollout_cmp a b =
     (case (fc_is_leader a, fc_is_leader b) of
        (False, True) \<Rightarrow> Less
      | (True, False) \<Rightarrow> Greater
      | _ \<Rightarrow> (if fc_priority a < fc_priority b then Less
              else if fc_priority a = fc_priority b then Equal else Greater))"

definition rollout_key :: "fleet_computer \<Rightarrow> bool \<times> u32" where
  "rollout_key n = (fc_is_leader n, fc_priority n)"

lemma rollout_cmp_key:
  "rollout_cmp a b = Less \<longleftrightarrow> rollout_key a < rollout_key b"
  "rollout_cmp a b = Equal \<longleftrightarrow> rollout_key a = rollout_key b"
  by (auto simp: rollout_cmp_def rollout_key_def less_prod_def split: bool.splits)

definition rollout_sorted :: "fleet_computer list \<Rightarrow> fleet_computer list" where
  "rollout_sorted = sort_key rollout_key"

definition plan_from_fleet :: "fleet_computer list \<Rightarrow> string list \<Rightarrow> string \<Rightarrow> rollout_plan" where
  "plan_from_fleet nodes canaries v =
     \<lparr>pl_node_order = map fc_name (rollout_sorted (filter (\<lambda>n. fc_name n \<notin> set canaries) nodes)),
      pl_pause_after_canary = False, pl_max_unavailable = 1, pl_abort_on_failure = True,
      pl_target_version = v\<rparr>"

record rollout_status =
  rs_state :: rollout_state
  rs_plan :: rollout_plan
  rs_node_statuses :: "(string, node_progress) hmap"
  rs_started_at :: "datetime option"
  rs_completed_at :: "datetime option"
  rs_current_batch :: "string list"
  rs_abort_reason :: "string option"

definition completed_count :: "rollout_status \<Rightarrow> nat" where
  "completed_count c = count_nodes node_succeeded (rs_node_statuses c)"

definition failed_count :: "rollout_status \<Rightarrow> nat" where
  "failed_count c = count_nodes node_failed (rs_node_statuses c)"

definition total_count :: "rollout_status \<Rightarrow> nat" where
  "total_count c = length (pl_node_order (rs_plan c))"

section \<open>The controller\<close>

definition controller_new :: "rollout_plan \<Rightarrow> rollout_status" where
  "controller_new plan = \<lparr>rs_state = RsPlanned, rs_plan = plan,
     rs_node_statuses = fold (\<lambda>n. hm_insert n (pending_progress n)) (pl_node_order plan) [],
     rs_started_at = None, rs_completed_at = None, rs_current_batch = [], rs_abort_reason = None\<rparr>"

definition in_flight :: "rollout_status \<Rightarrow> nat" where
  "in_flight c = count_nodes (\<lambda>s. s = NodeUpdating) (rs_node_statuses c)"

definition node_status_is :: "(node_update_status \<Rightarrow> bool) \<Rightarrow> rollout_status \<Rightarrow> string \<Rightarrow> bool" where
  "node_status_is P c n = (case hm_get (rs_node_statuses c) n of None \<Rightarrow> False | Some np \<Rightarrow> P (np_status np))"

definition next_batch :: "rollout_status \<Rightarrow> rollout_status \<times> string list" where
  "next_batch c =
     (if rs_state c \<noteq> RsInProgress then (c, [])
      else
        let available_slots = pl_max_unavailable (rs_plan c) - in_flight c in
        if available_slots = 0 then (c, [])
        else
          let batch = take available_slots
                (filter (node_status_is (\<lambda>s. s = NodePending) c) (pl_node_order (rs_plan c)))
          in (c\<lparr>rs_node_statuses := fold (set_status NodeUpdating) batch (rs_node_statuses c),
                rs_current_batch := batch\<rparr>, batch))"

definition cannot :: "string \<Rightarrow> rollout_status \<Rightarrow> update_error" where
  "cannot verb c = FleetCoordination
     (''cannot '' @ verb @ '' rollout in state '' @ rollout_state_to_string (rs_state c))"

definition start :: "datetime \<Rightarrow> rollout_status \<Rightarrow> rollout_status \<times> (string list, update_error) result" where
  "start now c =
     (if rs_state c \<noteq> RsPlanned then (c, Inl (cannot ''start'' c))
      else let (c1, batch) = next_batch (c\<lparr>rs_state := RsInProgress, rs_started_at := Some now\<rparr>)
           in (c1, Inr batch))"

definition skip_pending :: "node_progress \<Rightarrow> node_progress" where
  "skip_pending np = (if np_status np = NodePending then np\<lparr>np_status := NodeSkipped\<rparr> else np)"

definition abort_internal :: "datetime \<Rightarrow> string \<Rightarrow> rollout_status \<Rightarrow> rollout_status" where
  "abort_internal now reason c =
     c\<lparr>rs_state := RsAborted, rs_abort_reason := Some reason, rs_completed_at := Some now,
       rs_node_statuses := map (\<lambda>(k, np). (k, skip_pending np)) (rs_node_statuses c)\<rparr>"

definition node_finished :: "node_update_status \<Rightarrow> bool" where
  "node_finished s \<longleftrightarrow>
     s \<in> {NodeUpdated, NodeHealthCheckPassed, NodeSkipped, NodeHealthCheckFailed, NodeRolledBack}"

definition all_done :: "rollout_status \<Rightarrow> bool" where
  "all_done c \<longleftrightarrow> (\<forall>n \<in> set (pl_node_order (rs_plan c)). node_status_is node_finished c n)"

definition check_completion :: "datetime \<Rightarrow> rollout_status \<Rightarrow> rollout_status" where
  "check_completion now c =
     (if rs_state c \<noteq> RsInProgress then c
      else if all_done c
      then (if failed_count c > 0 then abort_internal now ''one or more nodes failed'' c
            else c\<lparr>rs_state := RsComplete, rs_completed_at := Some now\<rparr>)
      else c)"

definition mark_node_updated :: "datetime \<Rightarrow> datetime \<Rightarrow> string \<Rightarrow> rollout_status \<Rightarrow> rollout_status" where
  "mark_node_updated now1 now2 name c =
     check_completion now2 (c\<lparr>rs_node_statuses :=
       hm_modify name (\<lambda>np. np\<lparr>np_status := NodeUpdated, np_updated_at := Some now1\<rparr>) (rs_node_statuses c)\<rparr>)"

definition mark_node_healthy :: "datetime \<Rightarrow> datetime \<Rightarrow> string \<Rightarrow> rollout_status \<Rightarrow> rollout_status" where
  "mark_node_healthy now1 now2 name c =
     check_completion now2 (c\<lparr>rs_node_statuses :=
       hm_modify name (\<lambda>np. np\<lparr>np_status := NodeHealthCheckPassed, np_health_checked_at := Some now1\<rparr>)
         (rs_node_statuses c)\<rparr>)"

definition mark_node_failed :: "datetime \<Rightarrow> string \<Rightarrow> string \<Rightarrow> rollout_status \<Rightarrow> rollout_status" where
  "mark_node_failed now name err c0 =
     (let c = c0\<lparr>rs_node_statuses :=
            hm_modify name (\<lambda>np. np\<lparr>np_status := NodeHealthCheckFailed, np_error := Some err\<rparr>)
              (rs_node_statuses c0)\<rparr>
      in if pl_abort_on_failure (rs_plan c)
         then abort_internal now (''node '' @ name @ '' failed: '' @ err) c else c)"

definition resume :: "rollout_status \<Rightarrow> rollout_status \<times> (string list, update_error) result" where
  "resume c =
     (if rs_state c = RsPaused
      then let (c1, batch) = next_batch (c\<lparr>rs_state := RsInProgress\<rparr>) in (c1, Inr batch)
      else (c, Inl (cannot ''resume'' c)))"

definition pause :: "rollout_status \<Rightarrow> rollout_status \<times> (unit, update_error) result" where
  "pause c =
     (if rs_state c = RsInProgress then (c\<lparr>rs_state := RsPaused\<rparr>, Inr ())
      else (c, Inl (cannot ''pause'' c)))"

definition abort :: "datetime \<Rightarrow> rollout_status \<Rightarrow> rollout_status \<times> (unit, update_error) result" where
  "abort now c =
     (if rs_state c \<in> {RsInProgress, RsPaused}
      then (abort_internal now ''operator requested abort'' c, Inr ())
      else (c, Inl (cannot ''abort'' c)))"

text \<open>
  The version skew check; \<open>it1\<close> and \<open>it2\<close> are the iteration orders of the map of versions
  and of the map of nodes by version, which only the message depends on.
\<close>

definition nodes_by_version :: "(string \<times> string) list \<Rightarrow> (string, string list) hmap" where
  "nodes_by_version vs =
     fold (\<lambda>(node, ver) m. hm_modify ver (\<lambda>ns. ns @ [node]) (hm_or_insert ver [] m)) vs []"

definition version_skew_check ::
  "((string \<times> string) list \<Rightarrow> (string \<times> string) list)
   \<Rightarrow> ((string \<times> string list) list \<Rightarrow> (string \<times> string list) list)
   \<Rightarrow> (string, string) hmap \<Rightarrow> (unit, update_error) result" where
  "version_skew_check it1 it2 versions =
     (if versions = [] then Inr ()
      else
        let unique_versions = fold hs_insert (hm_values versions) [] in
        if length unique_versions \<le> 2 then Inr ()
        else Inl (FleetCoordination (''version skew detected ('' @ show_nat (length unique_versions)
               @ '' distinct versions, max allowed is 2): ''
               @ join_strings ''; '' (map (\<lambda>(ver, nodes). ver @ '': ['' @ join_strings '', '' nodes @ '']'')
                   (it2 (nodes_by_version (it1 versions)))))))"

section \<open>Runs\<close>

inductive rollout_step :: "rollout_status \<Rightarrow> string list \<Rightarrow> rollout_status \<Rightarrow> bool" where
  ro_start: "start now c = (c', Inr batch) \<Longrightarrow> rollout_step c batch c'"
| ro_next: "next_batch c = (c', batch) \<Longrightarrow> rollout_step c batch c'"
| ro_updated: "rollout_step c [] (mark_node_updated now1 now2 name c)"
| ro_healthy: "rollout_step c [] (mark_node_healthy now1 now2 name c)"
| ro_failed: "rollout_step c [] (mark_node_failed now name err c)"
| ro_resume: "resume c = (c', Inr batch) \<Longrightarrow> rollout_step c batch c'"
| ro_pause: "pause c = (c', Inr ()) \<Longrightarrow> rollout_step c [] c'"
| ro_abort: "abort now c = (c', Inr ()) \<Longrightarrow> rollout_step c [] c'"

text \<open>A run from a controller, with all nodes it has handed out so far, in order.\<close>

inductive rollout_run :: "rollout_status \<Rightarrow> string list \<Rightarrow> rollout_status \<Rightarrow> bool" where
  run_refl: "rollout_run c [] c"
| run_step: "rollout_run c handed c' \<Longrightarrow> rollout_step c' batch c'' \<Longrightarrow> rollout_run c (handed @ batch) c''"

section \<open>Node statuses\<close>

lemma count_nodes_insert_le:
  "count_nodes P (hm_insert k np m) \<le> count_nodes P m + (if P (np_status np) then 1 else 0)"
  by (induction m) (auto simp: count_nodes_def hm_insert_def hm_values_def)

lemma count_nodes_modify_le:
  "count_nodes P (hm_modify k f m) \<le> count_nodes P m + (if \<exists>np. P (np_status (f np)) then 1 else 0)"
proof (cases "hm_get m k")
  case (Some np)
  then show ?thesis
    using count_nodes_insert_le [of P k "f np" m] by (auto simp: hm_modify_def split: if_splits)
qed (simp add: hm_modify_def)

lemma count_nodes_modify_not:
  "(\<And>np. \<not> P (np_status (f np))) \<Longrightarrow> count_nodes P (hm_modify k f m) \<le> count_nodes P m"
  using count_nodes_modify_le [of P k f m] by simp

lemma count_nodes_set_statuses:
  "count_nodes P (fold (set_status s) ns m) \<le> count_nodes P m + length ns"
proof (induction ns arbitrary: m)
  case (Cons n ns)
  have "count_nodes P (set_status s n m) \<le> count_nodes P m + 1"
    using count_nodes_modify_le [of P n "\<lambda>np. np\<lparr>np_status := s\<rparr>" m]
    by (auto simp: set_status_def split: if_splits)
  with Cons [of "set_status s n m"] show ?case by simp
qed simp

lemma hm_get_set_statuses:
  "hm_get (fold (set_status s) ns m) k =
     (if k \<in> set ns then map_option (\<lambda>np. np\<lparr>np_status := s\<rparr>) (hm_get m k) else hm_get m k)"
proof (induction ns arbitrary: m)
  case (Cons n ns)
  have "hm_get (set_status s n m) k =
      (if k = n then map_option (\<lambda>np. np\<lparr>np_status := s\<rparr>) (hm_get m k) else hm_get m k)"
    by (simp add: set_status_def hm_get_modify)
  with Cons [of "set_status s n m"] show ?case by (cases "hm_get m k") auto
qed simp

lemma hm_keys_set_statuses [simp]: "hm_keys (fold (set_status s) ns m) = hm_keys m"
  by (induction ns arbitrary: m) (simp_all add: set_status_def)

lemma hm_get_skip: "hm_get (map (\<lambda>(k, np). (k, skip_pending np)) m) k = map_option skip_pending (hm_get m k)"
  by (simp add: hm_get_def map_of_map)

lemma hm_keys_skip [simp]: "hm_keys (map (\<lambda>(k, np). (k, skip_pending np)) m) = hm_keys m"
  by (induction m) (auto simp: hm_keys_def)

lemma count_updating_skip:
  "count_nodes (\<lambda>s. s = NodeUpdating) (map (\<lambda>(k, np). (k, skip_pending np)) m) =
     count_nodes (\<lambda>s. s = NodeUpdating) m"
  by (induction m) (auto simp: count_nodes_def hm_values_def skip_pending_def split: if_splits)

lemma count_nodes_pos:
  "hm_wf m \<Longrightarrow> 0 < count_nodes P m \<longleftrightarrow> (\<exists>k np. hm_get m k = Some np \<and> P (np_status np))"
proof -
  assume wf: "hm_wf m"
  have "0 < count_nodes P m \<longleftrightarrow> (\<exists>np \<in> set (hm_values m). P (np_status np))"
    by (auto simp: count_nodes_def filter_empty_conv)
  also have "\<dots> \<longleftrightarrow> (\<exists>k np. hm_get m k = Some np \<and> P (np_status np))"
    using set_hm_values [OF wf] by auto
  finally show ?thesis .
qed

section \<open>The invariant of a run\<close>

abbreviation is_pending :: "rollout_status \<Rightarrow> string \<Rightarrow> bool" where
  "is_pending \<equiv> node_status_is (\<lambda>s. s = NodePending)"

abbreviation is_skipped :: "rollout_status \<Rightarrow> string \<Rightarrow> bool" where
  "is_skipped \<equiv> node_status_is (\<lambda>s. s = NodeSkipped)"

abbreviation not_pending :: "rollout_status \<Rightarrow> string \<Rightarrow> bool" where
  "not_pending \<equiv> node_status_is (\<lambda>s. s \<noteq> NodePending)"

definition rollout_shape :: "rollout_plan \<Rightarrow> rollout_status \<Rightarrow> bool" where
  "rollout_shape plan c \<longleftrightarrow> rs_plan c = plan \<and> hm_wf (rs_node_statuses c) \<and>
     set (hm_keys (rs_node_statuses c)) = set (pl_node_order plan)"

definition rollout_inv :: "rollout_plan \<Rightarrow> string list \<Rightarrow> rollout_status \<Rightarrow> bool" where
  "rollout_inv plan handed c \<longleftrightarrow> rollout_shape plan c \<and> in_flight c \<le> pl_max_unavailable plan \<and>
     list_all (not_pending c) handed \<and> distinct handed \<and>
     (if rs_state c = RsAborted then (\<forall>n. \<not> is_pending c n) else (\<forall>n. \<not> is_skipped c n))"

lemma rollout_invI:
  assumes "rollout_shape plan c" "in_flight c \<le> pl_max_unavailable plan"
    and "\<And>n. n \<in> set handed \<Longrightarrow> not_pending c n" "distinct handed"
    and "rs_state c = RsAborted \<Longrightarrow> \<forall>n. \<not> is_pending c n"
    and "rs_state c \<noteq> RsAborted \<Longrightarrow> \<forall>n. \<not> is_skipped c n"
  shows "rollout_inv plan handed c"
  using assms by (simp add: rollout_inv_def list_all_iff)

lemma rollout_invD:
  assumes "rollout_inv plan handed c"
  shows "rollout_shape plan c" "in_flight c \<le> pl_max_unavailable plan"
    and "\<And>n. n \<in> set handed \<Longrightarrow> not_pending c n" "distinct handed"
    and "rs_state c = RsAborted \<Longrightarrow> \<not> is_pending c n"
    and "rs_state c \<noteq> RsAborted \<Longrightarrow> \<not> is_skipped c n"
  using assms by (simp_all add: rollout_inv_def list_all_iff)

lemma node_status_cong: "rs_node_statuses c = rs_node_statuses c' \<Longrightarrow> node_status_is P c = node_status_is P c'"
  by (rule ext) (simp add: node_status_is_def)

lemma keys_insert_names:
  "set (hm_keys (fold (\<lambda>n. hm_insert n (pending_progress n)) ns m)) = set ns \<union> set (hm_keys m)"
  by (induction ns arbitrary: m) (auto simp: hm_keys_insert hm_keys_iff)

lemma controller_new_get:
  "hm_get (rs_node_statuses (controller_new plan)) n =
     (if n \<in> set (pl_node_order plan) then Some (pending_progress n) else None)"
  unfolding controller_new_def by (simp add: hm.get_ins_all)

lemma rollout_inv_new: "rollout_inv plan [] (controller_new plan)"
proof (rule rollout_invI)
  have wf: "hm_wf (rs_node_statuses (controller_new plan))"
    unfolding controller_new_def by (simp add: hm.invar_ins_all)
  then show "rollout_shape plan (controller_new plan)"
    by (auto simp: rollout_shape_def set_hm_keys controller_new_get) (simp add: controller_new_def)
  have "\<not> 0 < count_nodes (\<lambda>s. s = NodeUpdating) (rs_node_statuses (controller_new plan))"
    using count_nodes_pos [OF wf] by (auto simp: controller_new_get pending_progress_def split: if_splits)
  then show "in_flight (controller_new plan) \<le> pl_max_unavailable plan" by (simp add: in_flight_def)
  show "\<forall>n. \<not> is_skipped (controller_new plan) n"
    by (simp add: node_status_is_def controller_new_get pending_progress_def)
qed (simp_all add: controller_new_def)

lemma rollout_inv_state:
  assumes "rollout_inv plan handed c" "rs_state c \<noteq> RsAborted" "rs_state c' \<noteq> RsAborted"
    and "rs_plan c' = rs_plan c" "rs_node_statuses c' = rs_node_statuses c"
  shows "rollout_inv plan handed c'"
  using assms node_status_cong [OF assms(5)]
  by (simp add: rollout_inv_def rollout_shape_def in_flight_def)

lemma rollout_inv_report:
  assumes inv: "rollout_inv plan handed c"
    and f: "\<And>np. np_status (f np) \<notin> {NodePending, NodeUpdating, NodeSkipped}"
  shows "rollout_inv plan handed (c\<lparr>rs_node_statuses := hm_modify name f (rs_node_statuses c)\<rparr>)"
    (is "rollout_inv _ _ ?c")
proof (rule rollout_invI)
  note D = rollout_invD [OF inv]
  have status: "node_status_is P ?c n \<longleftrightarrow>
      (if n = name then (\<exists>np. hm_get (rs_node_statuses c) n = Some np \<and> P (np_status (f np)))
       else node_status_is P c n)" for P n
    by (auto simp: node_status_is_def hm_get_modify split: option.splits)
  show "rollout_shape plan ?c" using D(1) by (simp add: rollout_shape_def)
  show "in_flight ?c \<le> pl_max_unavailable plan"
    using D(2) count_nodes_modify_not [of "\<lambda>s. s = NodeUpdating" f name "rs_node_statuses c"] f
    by (force simp: in_flight_def)
  show "not_pending ?c n" if "n \<in> set handed" for n
    using D(3) [OF that] f by (auto simp: status) (auto simp: node_status_is_def split: option.splits)
  show "\<forall>n. \<not> is_pending ?c n" if "rs_state ?c = RsAborted"
    using D(5) that f by (auto simp: status)
  show "\<forall>n. \<not> is_skipped ?c n" if "rs_state ?c \<noteq> RsAborted"
    using D(6) that f by (auto simp: status)
qed (rule rollout_invD(4) [OF inv])

lemma rollout_inv_abort:
  assumes inv: "rollout_inv plan handed c"
  shows "rollout_inv plan handed (abort_internal now reason c)" (is "rollout_inv _ _ ?c")
proof (rule rollout_invI)
  note D = rollout_invD [OF inv]
  have status: "node_status_is P ?c n \<longleftrightarrow>
      (\<exists>np. hm_get (rs_node_statuses c) n = Some np \<and> P (np_status (skip_pending np)))" for P n
    by (simp add: node_status_is_def abort_internal_def hm_get_skip split: option.split)
  show "rollout_shape plan ?c"
    using D(1) by (simp add: rollout_shape_def abort_internal_def hm_wf_def)
  show "in_flight ?c \<le> pl_max_unavailable plan"
    using D(2) by (simp add: in_flight_def abort_internal_def count_updating_skip)
  show "not_pending ?c n" if "n \<in> set handed" for n
    using D(3) [OF that] unfolding status
    by (auto simp: node_status_is_def skip_pending_def split: option.splits)
  show "\<forall>n. \<not> is_pending ?c n"
    unfolding status by (auto simp: skip_pending_def split: if_splits)
  show "rs_state ?c \<noteq> RsAborted \<Longrightarrow> \<forall>n. \<not> is_skipped ?c n"
    by (simp add: abort_internal_def)
qed (rule rollout_invD(4) [OF inv])

lemma next_batch_pending:
  "next_batch c = (c', batch) \<Longrightarrow> set batch \<subseteq> {n \<in> set (pl_node_order (rs_plan c)). is_pending c n}"
  by (auto simp: next_batch_def Let_def split: if_splits dest: in_set_takeD)

lemma rollout_inv_next:
  assumes inv: "rollout_inv plan handed c" and nb: "next_batch c = (c', batch)"
    and dist: "distinct (pl_node_order plan)"
  shows "rollout_inv plan (handed @ batch) c'"
proof (cases "rs_state c \<noteq> RsInProgress \<or> pl_max_unavailable (rs_plan c) - in_flight c = 0")
  case True
  with nb have "c' = c" "batch = []" by (auto simp: next_batch_def Let_def split: if_splits)
  with inv show ?thesis by simp
next
  case False
  note D = rollout_invD [OF inv]
  let ?slots = "pl_max_unavailable (rs_plan c) - in_flight c"
  from nb False have batch: "batch = take ?slots (filter (is_pending c) (pl_node_order (rs_plan c)))"
    and c': "c' = c\<lparr>rs_node_statuses := fold (set_status NodeUpdating) batch (rs_node_statuses c),
                 rs_current_batch := batch\<rparr>"
    by (auto simp: next_batch_def Let_def)
  have pend: "is_pending c n" if "n \<in> set batch" for n
    using next_batch_pending [OF nb] that by blast
  have status: "node_status_is P c' n \<longleftrightarrow> (if n \<in> set batch then P NodeUpdating else node_status_is P c n)" for P n
    using pend [of n] unfolding c'
    by (auto simp: node_status_is_def hm_get_set_statuses split: option.splits)
  have plan: "rs_plan c = plan" using D(1) by (simp add: rollout_shape_def)
  show ?thesis
  proof (rule rollout_invI)
    show "rollout_shape plan c'" using D(1) by (simp add: rollout_shape_def c' hm_wf_def)
    have "in_flight c' \<le> in_flight c + length batch"
      using count_nodes_set_statuses [of _ NodeUpdating batch "rs_node_statuses c"]
      by (simp add: in_flight_def c')
    also have "length batch \<le> ?slots" by (simp add: batch)
    finally show "in_flight c' \<le> pl_max_unavailable plan" using False plan by simp
    show "not_pending c' n" if "n \<in> set (handed @ batch)" for n
      using that D(3) by (auto simp: status)
    have "distinct batch" using dist by (simp add: batch plan)
    moreover have "set handed \<inter> set batch = {}"
      using D(3) pend by (fastforce simp: node_status_is_def split: option.splits)
    ultimately show "distinct (handed @ batch)" using D(4) by simp
    show "\<forall>n. \<not> is_skipped c' n" if "rs_state c' \<noteq> RsAborted"
    proof -
      have "rs_state c \<noteq> RsAborted" using that by (simp add: c')
      then show ?thesis using D(6) unfolding status by simp
    qed
    show "\<forall>n. \<not> is_pending c' n" if "rs_state c' = RsAborted"
      using that False by (simp add: c')
  qed
qed

lemma rollout_inv_completion: "rollout_inv plan handed c \<Longrightarrow> rollout_inv plan handed (check_completion now c)"
  by (auto simp: check_completion_def intro: rollout_inv_abort rollout_inv_state)

lemma rollout_inv_begin:
  assumes "rollout_inv plan handed c" "rs_state c \<in> {RsPlanned, RsPaused}"
    and "next_batch (c\<lparr>rs_state := RsInProgress, rs_started_at := x\<rparr>) = (c', batch)"
    and "distinct (pl_node_order plan)"
  shows "rollout_inv plan (handed @ batch) c'"
  by (rule rollout_inv_next [OF rollout_inv_state [OF assms(1)] assms(3, 4)]) (use assms(2) in auto)

lemma rollout_step_inv:
  assumes "rollout_step c batch c'" "rollout_inv plan handed c" "distinct (pl_node_order plan)"
  shows "rollout_inv plan (handed @ batch) c'"
  using assms
proof (induction rule: rollout_step.induct)
  case (ro_start now c c' batch)
  then show ?case
    by (auto simp: start_def split: if_splits prod.splits elim!: rollout_inv_begin)
next
  case (ro_next c c' batch)
  then show ?case by (blast intro: rollout_inv_next)
next
  case (ro_updated c now1 now2 name)
  then show ?case by (simp add: mark_node_updated_def rollout_inv_completion rollout_inv_report)
next
  case (ro_healthy c now1 now2 name)
  then show ?case by (simp add: mark_node_healthy_def rollout_inv_completion rollout_inv_report)
next
  case (ro_failed c now name err)
  then show ?case by (simp add: mark_node_failed_def Let_def rollout_inv_abort rollout_inv_report)
next
  case (ro_resume c c' batch)
  from ro_resume.hyps have st: "rs_state c = RsPaused"
    and nb: "next_batch (c\<lparr>rs_state := RsInProgress, rs_started_at := rs_started_at c\<rparr>) = (c', batch)"
    by (auto simp: resume_def split: if_splits prod.splits)
  show ?case
    by (rule rollout_inv_begin [OF ro_resume.prems(1) _ nb ro_resume.prems(2)]) (simp add: st)
next
  case (ro_pause c c')
  then show ?case by (auto simp: pause_def split: if_splits intro: rollout_inv_state)
next
  case (ro_abort now c c')
  then show ?case by (auto simp: abort_def split: if_splits intro: rollout_inv_abort)
qed

lemma rollout_run_inv:
  "rollout_run c0 handed c \<Longrightarrow> c0 = controller_new plan \<Longrightarrow> distinct (pl_node_order plan) \<Longrightarrow>
   rollout_inv plan handed c"
  by (induction rule: rollout_run.induct) (simp_all add: rollout_inv_new rollout_step_inv)

section \<open>Aborted rollouts\<close>

lemma next_batch_idle: "rs_state c \<noteq> RsInProgress \<Longrightarrow> next_batch c = (c, [])"
  by (simp add: next_batch_def)

lemma rollout_step_aborted:
  "rollout_step c batch c' \<Longrightarrow> rs_state c = RsAborted \<Longrightarrow> batch = [] \<and> rs_state c' = RsAborted"
  by (induction rule: rollout_step.induct)
    (auto simp: start_def resume_def pause_def abort_def next_batch_idle mark_node_updated_def
      mark_node_healthy_def mark_node_failed_def check_completion_def abort_internal_def Let_def)

lemma rollout_run_aborted:
  "rollout_run c handed c' \<Longrightarrow> rs_state c = RsAborted \<Longrightarrow> handed = [] \<and> rs_state c' = RsAborted"
  by (induction rule: rollout_run.induct) (auto dest: rollout_step_aborted)

section \<open>Completion\<close>

lemma shape_known: "rollout_shape plan c \<Longrightarrow> hm_get (rs_node_statuses c) n \<noteq> None \<longleftrightarrow> n \<in> set (pl_node_order plan)"
  by (auto simp: rollout_shape_def set_hm_keys)

lemma failed_count_pos:
  assumes "rollout_shape plan c"
  shows "0 < failed_count c \<longleftrightarrow> (\<exists>n \<in> set (pl_node_order plan). node_status_is node_failed c n)"
proof -
  have "0 < failed_count c \<longleftrightarrow> (\<exists>n np. hm_get (rs_node_statuses c) n = Some np \<and> node_failed (np_status np))"
    using assms by (simp add: failed_count_def count_nodes_pos rollout_shape_def)
  then show ?thesis
    using shape_known [OF assms] by (force simp: node_status_is_def split: option.splits)
qed

lemma finished_split:
  "node_finished s \<longleftrightarrow> node_succeeded s \<or> node_failed s \<or> s = NodeSkipped"
  "\<not> (node_succeeded s \<and> node_failed s)"
  by (auto simp: node_finished_def node_succeeded_def node_failed_def)

text \<open>What the completion check makes of a rollout in progress in which no node is skipped.\<close>

definition nodes_all :: "(node_update_status \<Rightarrow> bool) \<Rightarrow> rollout_status \<Rightarrow> bool" where
  "nodes_all P c \<longleftrightarrow> (\<forall>n \<in> set (pl_node_order (rs_plan c)). node_status_is P c n)"

lemma node_status_mono: "(\<And>s. P s \<Longrightarrow> Q s) \<Longrightarrow> node_status_is P c n \<Longrightarrow> node_status_is Q c n"
  by (auto simp: node_status_is_def split: option.splits)

lemma node_status_conj:
  "node_status_is (\<lambda>s. P s \<and> Q s) c n \<longleftrightarrow> node_status_is P c n \<and> node_status_is Q c n"
  by (auto simp: node_status_is_def split: option.splits)

lemma node_status_disj:
  "node_status_is (\<lambda>s. P s \<or> Q s) c n \<longleftrightarrow> node_status_is P c n \<or> node_status_is Q c n"
  by (auto simp: node_status_is_def split: option.splits)

lemma check_completion_state:
  assumes inv: "rollout_inv plan handed c" and st: "rs_state c = RsInProgress"
  shows "rs_state (check_completion now c) =
    (if nodes_all node_succeeded c then RsComplete
     else if nodes_all (\<lambda>s. node_succeeded s \<or> node_failed s) c then RsAborted
     else RsInProgress)"
proof -
  note D = rollout_invD [OF inv]
  have noskip: "\<not> is_skipped c n" for n using D(6) st by simp
  have "node_status_is node_finished c n \<longleftrightarrow> node_status_is (\<lambda>s. node_succeeded s \<or> node_failed s) c n" for n
    using noskip [of n] by (auto simp: node_status_is_def finished_split split: option.splits)
  then have done_iff: "all_done c \<longleftrightarrow> nodes_all (\<lambda>s. node_succeeded s \<or> node_failed s) c"
    by (simp add: all_done_def nodes_all_def)
  have plan: "rs_plan c = plan" using D(1) by (simp add: rollout_shape_def)
  have excl: "\<not> (node_status_is node_succeeded c n \<and> node_status_is node_failed c n)" for n
    using finished_split(2) by (auto simp: node_status_is_def split: option.splits)
  have "nodes_all node_succeeded c \<longleftrightarrow>
      nodes_all (\<lambda>s. node_succeeded s \<or> node_failed s) c \<and> \<not> 0 < failed_count c"
    unfolding failed_count_pos [OF D(1)] nodes_all_def node_status_disj plan using excl by blast
  then show ?thesis
    using st by (simp add: check_completion_def done_iff abort_internal_def)
qed

definition rollout_verdict :: "rollout_status \<Rightarrow> rollout_state" where
  "rollout_verdict c =
    (if nodes_all node_succeeded c then RsComplete
     else if nodes_all (\<lambda>s. node_succeeded s \<or> node_failed s) c then RsAborted
     else RsInProgress)"

lemmas check_completion_verdict = check_completion_state [folded rollout_verdict_def]

lemma check_completion_status:
  "rs_state (check_completion now c) \<noteq> RsAborted \<Longrightarrow> node_status_is P (check_completion now c) = node_status_is P c"
  by (auto simp: check_completion_def abort_internal_def intro: node_status_cong)

section \<open>A cooperating caller\<close>

text \<open>
  The caller the controller is written for: it updates every node of a batch, reports each
  as updated and asks for the next batch, \<open>k\<close> times.
\<close>

fun drive :: "datetime \<Rightarrow> nat \<Rightarrow> string list \<Rightarrow> rollout_status \<Rightarrow> rollout_status" where
  "drive now 0 batch c = c"
| "drive now (Suc k) batch c =
     (let (c', batch') = next_batch (fold (mark_node_updated now now) batch c) in drive now k batch' c')"

abbreviation is_updating :: "rollout_status \<Rightarrow> string \<Rightarrow> bool" where
  "is_updating \<equiv> node_status_is (\<lambda>s. s = NodeUpdating)"

abbreviation is_updated :: "rollout_status \<Rightarrow> string \<Rightarrow> bool" where
  "is_updated \<equiv> node_status_is (\<lambda>s. s = NodeUpdated)"

text \<open>The plan's order splits into the nodes that are updated, in flight and pending.\<close>

definition rollout_phase ::
  "rollout_plan \<Rightarrow> string list \<Rightarrow> string list \<Rightarrow> string list \<Rightarrow> rollout_status \<Rightarrow> bool" where
  "rollout_phase plan d b r c \<longleftrightarrow> rollout_shape plan c \<and> rs_state c = RsInProgress \<and>
     distinct (pl_node_order plan) \<and> pl_node_order plan = d @ b @ r \<and>
     (\<forall>n \<in> set d. is_updated c n) \<and> (\<forall>n \<in> set b. is_updating c n) \<and> (\<forall>n \<in> set r. is_pending c n)"

definition set_updated :: "datetime \<Rightarrow> string \<Rightarrow> rollout_status \<Rightarrow> rollout_status" where
  "set_updated now name c = c\<lparr>rs_node_statuses :=
     hm_modify name (\<lambda>np. np\<lparr>np_status := NodeUpdated, np_updated_at := Some now\<rparr>) (rs_node_statuses c)\<rparr>"

lemma mark_node_updated_alt: "mark_node_updated now1 now2 name c = check_completion now2 (set_updated now1 name c)"
  by (simp add: mark_node_updated_def set_updated_def)

definition set_healthy :: "datetime \<Rightarrow> string \<Rightarrow> rollout_status \<Rightarrow> rollout_status" where
  "set_healthy now name c = c\<lparr>rs_node_statuses :=
     hm_modify name (\<lambda>np. np\<lparr>np_status := NodeHealthCheckPassed, np_health_checked_at := Some now\<rparr>)
       (rs_node_statuses c)\<rparr>"

lemma mark_node_healthy_alt: "mark_node_healthy now1 now2 name c = check_completion now2 (set_healthy now1 name c)"
  by (simp add: mark_node_healthy_def set_healthy_def)

lemma set_updated_status:
  "node_status_is P (set_updated now name c) n \<longleftrightarrow>
     (if n = name then hm_get (rs_node_statuses c) n \<noteq> None \<and> P NodeUpdated else node_status_is P c n)"
  by (auto simp: set_updated_def node_status_is_def hm_get_modify split: option.splits)

lemma set_updated_phase:
  assumes "rollout_phase plan d (x # b) r c"
  shows "rollout_phase plan (d @ [x]) b r (set_updated now x c)"
proof -
  have "hm_get (rs_node_statuses c) x \<noteq> None"
    using assms by (auto simp: rollout_phase_def node_status_is_def split: option.splits)
  moreover have "rollout_shape plan (set_updated now x c)"
    using assms by (simp add: rollout_phase_def rollout_shape_def set_updated_def)
  moreover have "rs_state (set_updated now x c) = rs_state c"
    by (simp add: set_updated_def)
  ultimately show ?thesis
    using assms by (auto simp: rollout_phase_def set_updated_status)
qed

lemma phase_all_done:
  assumes ph: "rollout_phase plan d b r c"
  shows "all_done c \<longleftrightarrow> b @ r = []"
proof -
  have plan: "rs_plan c = plan" "pl_node_order plan = d @ b @ r"
    using ph by (auto simp: rollout_phase_def rollout_shape_def)
  have "\<not> node_status_is node_finished c n" if "n \<in> set (b @ r)" for n
  proof -
    have "is_updating c n \<or> is_pending c n" using ph that by (auto simp: rollout_phase_def)
    then show ?thesis by (auto simp: node_status_is_def node_finished_def split: option.splits)
  qed
  moreover have "node_status_is node_finished c n" if "n \<in> set d" for n
  proof (rule node_status_mono)
    show "is_updated c n" using ph that by (simp add: rollout_phase_def)
  qed (simp add: node_finished_def)
  ultimately show ?thesis by (cases "b @ r") (auto simp: all_done_def plan)
qed

lemma mark_updated_phase:
  "rollout_phase plan d (x # b) r c \<Longrightarrow> b @ r \<noteq> [] \<Longrightarrow>
   rollout_phase plan (d @ [x]) b r (mark_node_updated now1 now2 x c)"
  using set_updated_phase [of plan d x b r c now1] phase_all_done [of plan "d @ [x]" b r "set_updated now1 x c"]
  by (cases b) (auto simp: mark_node_updated_alt check_completion_def)

lemma mark_updated_last:
  assumes "rollout_phase plan d [x] [] c"
  shows "rs_state (mark_node_updated now1 now2 x c) = RsComplete \<and>
    nodes_all (\<lambda>s. s = NodeUpdated) (mark_node_updated now1 now2 x c)"
proof -
  let ?c = "set_updated now1 x c"
  have ph: "rollout_phase plan (d @ [x]) [] [] ?c"
    using assms by (rule set_updated_phase)
  then have d: "all_done ?c" using phase_all_done by fastforce
  have sh: "rollout_shape plan ?c" and st: "rs_state ?c = RsInProgress"
    and upd: "\<forall>n \<in> set (pl_node_order plan). is_updated ?c n"
    using ph by (simp_all add: rollout_phase_def)
  have "\<not> node_status_is node_failed ?c n" if "is_updated ?c n" for n
    using that by (auto simp: node_status_is_def node_failed_def split: option.splits)
  with upd have nf: "\<not> 0 < failed_count ?c" unfolding failed_count_pos [OF sh] by blast
  have c': "mark_node_updated now1 now2 x c = ?c\<lparr>rs_state := RsComplete, rs_completed_at := Some now2\<rparr>"
    using d st nf by (simp add: mark_node_updated_alt check_completion_def)
  have "rs_plan ?c = plan" using sh by (simp add: rollout_shape_def)
  with upd show ?thesis unfolding c' nodes_all_def by (simp add: node_status_is_def)
qed

lemma fold_mark_updated:
  "rollout_phase plan d b r c \<Longrightarrow> b \<noteq> [] \<Longrightarrow>
   (if r = [] then rs_state (fold (mark_node_updated now now) b c) = RsComplete \<and>
                   nodes_all (\<lambda>s. s = NodeUpdated) (fold (mark_node_updated now now) b c)
    else rollout_phase plan (d @ b) [] r (fold (mark_node_updated now now) b c))"
proof (induction b arbitrary: d c)
  case (Cons x b)
  show ?case
  proof (cases "b = []")
    case True
    with Cons.prems mark_updated_last [of plan d x c now now] mark_updated_phase [of plan d x "[]" r c now now]
    show ?thesis by (cases "r = []") simp_all
  next
    case False
    then have "rollout_phase plan (d @ [x]) b r (mark_node_updated now now x c)"
      using Cons.prems(1) by (simp add: mark_updated_phase)
    from Cons.IH [OF this False] show ?thesis by (simp split: if_splits)
  qed
qed simp

lemma next_batch_phase:
  assumes ph: "rollout_phase plan d [] r c" and pos: "0 < pl_max_unavailable plan"
  shows "\<exists>c'. next_batch c = (c', take (pl_max_unavailable plan) r) \<and>
    rollout_phase plan d (take (pl_max_unavailable plan) r) (drop (pl_max_unavailable plan) r) c'"
proof -
  let ?k = "pl_max_unavailable plan"
  have sh: "rollout_shape plan c" and st: "rs_state c = RsInProgress"
    and ord: "pl_node_order plan = d @ r" and upd: "\<forall>n \<in> set d. is_updated c n"
    and pen: "\<forall>n \<in> set r. is_pending c n" and dist: "distinct (pl_node_order plan)"
    using ph unfolding rollout_phase_def append_Nil by blast+
  have plan: "rs_plan c = plan" using sh by (simp add: rollout_shape_def)
  have no_pend: "\<not> is_pending c n" if "n \<in> set d" for n
    using upd that by (auto simp: node_status_is_def split: option.splits)
  have no_updating: "\<not> is_updating c n" for n
  proof (cases "n \<in> set (d @ r)")
    case True
    then have "is_updated c n \<or> is_pending c n" using upd pen by auto
    then show ?thesis by (auto simp: node_status_is_def split: option.splits)
  next
    case False
    then show ?thesis using shape_known [OF sh, of n] ord by (simp add: node_status_is_def)
  qed
  have "\<not> 0 < in_flight c"
    unfolding in_flight_def using sh no_updating
    by (subst count_nodes_pos) (force simp: rollout_shape_def node_status_is_def split: option.splits)+
  then have idle: "in_flight c = 0" by simp
  have pend: "filter (is_pending c) (pl_node_order plan) = r"
    using pen no_pend by (simp add: ord filter_id_conv)
  let ?c = "c\<lparr>rs_node_statuses := fold (set_status NodeUpdating) (take ?k r) (rs_node_statuses c),
             rs_current_batch := take ?k r\<rparr>"
  have nb: "next_batch c = (?c, take ?k r)"
    using st pos by (simp add: next_batch_def idle plan pend Let_def)
  have disj: "set d \<inter> set (take ?k r) = {}" "set (take ?k r) \<inter> set (drop ?k r) = {}"
    using dist ord by (auto dest: in_set_takeD simp: set_take_disj_set_drop_if_distinct)
  have status: "node_status_is P ?c n \<longleftrightarrow>
      (if n \<in> set (take ?k r) then P NodeUpdating else node_status_is P c n)" for P n
  proof (cases "n \<in> set (take ?k r)")
    case True
    then have "is_pending c n" using pen by (blast dest: in_set_takeD)
    with True show ?thesis by (auto simp: node_status_is_def hm_get_set_statuses split: option.splits)
  qed (simp add: node_status_is_def hm_get_set_statuses)
  have "rollout_phase plan d (take ?k r) (drop ?k r) ?c"
    using sh st dist ord upd pen disj
    by (auto simp: rollout_phase_def status dest: in_set_dropD) (simp add: rollout_shape_def hm_wf_def)
  with nb show ?thesis by blast
qed

lemma drive_idle: "rs_state c \<noteq> RsInProgress \<Longrightarrow> drive now k [] c = c"
  by (induction k) (simp_all add: next_batch_idle)

lemma drive_completes:
  "rollout_phase plan d b r c \<Longrightarrow> b \<noteq> [] \<Longrightarrow> length r < k \<Longrightarrow> 0 < pl_max_unavailable plan \<Longrightarrow>
   rs_state (drive now k b c) = RsComplete \<and> nodes_all (\<lambda>s. s = NodeUpdated) (drive now k b c)"
proof (induction k arbitrary: d b r c)
  case (Suc k)
  let ?c = "fold (mark_node_updated now now) b c"
  note marked = fold_mark_updated [OF Suc.prems(1, 2), of now]
  show ?case
  proof (cases "r = []")
    case True
    with marked have st: "rs_state ?c = RsComplete" "nodes_all (\<lambda>s. s = NodeUpdated) ?c" by simp_all
    then show ?thesis by (simp add: next_batch_idle drive_idle)
  next
    case False
    with marked have "rollout_phase plan (d @ b) [] r ?c" by simp
    from next_batch_phase [OF this Suc.prems(4)] obtain c' where
      nb: "next_batch ?c = (c', take (pl_max_unavailable plan) r)" and
      ph: "rollout_phase plan (d @ b) (take (pl_max_unavailable plan) r) (drop (pl_max_unavailable plan) r) c'"
      by blast
    have "take (pl_max_unavailable plan) r \<noteq> []" "length (drop (pl_max_unavailable plan) r) < k"
      using False Suc.prems(3, 4) by (cases r, auto)+
    from Suc.IH [OF ph this Suc.prems(4)] show ?thesis by (simp add: nb)
  qed
qed simp

lemma start_phase:
  assumes "distinct (pl_node_order plan)" "0 < pl_max_unavailable plan"
  shows "\<exists>c. start now (controller_new plan) = (c, Inr (take (pl_max_unavailable plan) (pl_node_order plan))) \<and>
    rollout_phase plan [] (take (pl_max_unavailable plan) (pl_node_order plan))
      (drop (pl_max_unavailable plan) (pl_node_order plan)) c"
proof -
  let ?c = "(controller_new plan)\<lparr>rs_state := RsInProgress, rs_started_at := Some now\<rparr>"
  have "rollout_shape plan ?c"
    using rollout_invD(1) [OF rollout_inv_new [of plan]] by (simp add: rollout_shape_def)
  then have "rollout_phase plan [] [] (pl_node_order plan) ?c"
    using assms(1) by (simp add: rollout_phase_def node_status_is_def controller_new_get pending_progress_def)
  from next_batch_phase [OF this assms(2)] show ?thesis
    by (auto simp: start_def) (simp add: controller_new_def)
qed

section \<open>Canary selection and the plan\<close>

lemma sort_key_take_drop:
  assumes "x \<in> set (take k (sort_key f xs))" "y \<in> set (drop k (sort_key f xs))"
  shows "f x \<le> f y"
proof -
  have "sorted (map f (take k (sort_key f xs)) @ map f (drop k (sort_key f xs)))"
    by (metis append_take_drop_id map_append sorted_sort_key)
  then show ?thesis using assms by (auto simp: sorted_append)
qed

lemma select_canary_Inr:
  assumes "select_canary_nodes now fleet co = (co', Inr cs)"
  shows "cs = map fc_name (take (min (canary_wanted (co_policy co) (length fleet))
      (length (filter (\<lambda>n. \<not> fc_is_leader n) fleet)))
    (sort_key fc_priority (filter (\<lambda>n. \<not> fc_is_leader n) fleet)))"
  using assms by (auto simp: select_canary_nodes_def Let_def split: if_splits)

lemma plan_order: "pl_node_order (plan_from_fleet fleet cs v) =
    map fc_name (sort_key rollout_key (filter (\<lambda>n. fc_name n \<notin> set cs) fleet))"
  by (simp add: plan_from_fleet_def rollout_sorted_def)

lemma distinct_names_inj:
  "distinct (map fc_name fleet) \<Longrightarrow> inj_on fc_name (set fleet)"
  by (simp add: distinct_map)

text \<open>
  For a fleet whose nodes have distinct names, a successful canary selection followed by
  the plan for the rest deals every node of the fleet exactly once, to the canaries or to the
  plan. No canary is a leader; there are as many as the policy asks for, capped by the number
  of workers; no worker left to the plan has a lower priority number than a canary. In the
  plan workers come before leaders, in ascending order of priority, and nodes of equal rank
  keep the order of the fleet list.
\<close>

theorem update_plan_partition:
  assumes sel: "select_canary_nodes now fleet co = (co', Inr cs)"
    and names: "distinct (map fc_name fleet)"
  defines "rest \<equiv> rollout_sorted (filter (\<lambda>n. fc_name n \<notin> set cs) fleet)"
  shows "pl_node_order (plan_from_fleet fleet cs v) = map fc_name rest \<and>
    distinct (cs @ map fc_name rest) \<and> set (cs @ map fc_name rest) = fc_name ` set fleet \<and>
    length cs = min (canary_wanted (co_policy co) (length fleet)) (length (filter (\<lambda>n. \<not> fc_is_leader n) fleet)) \<and>
    (\<forall>n \<in> set fleet. fc_name n \<in> set cs \<longrightarrow> \<not> fc_is_leader n) \<and>
    (\<forall>n \<in> set fleet. \<forall>m \<in> set rest. fc_name n \<in> set cs \<longrightarrow> \<not> fc_is_leader m \<longrightarrow> fc_priority n \<le> fc_priority m) \<and>
    sorted (map rollout_key rest) \<and>
    (\<forall>k. filter (\<lambda>n. rollout_key n = k) rest =
         filter (\<lambda>n. fc_name n \<notin> set cs \<and> rollout_key n = k) fleet)"
proof -
  define ws where "ws = sort_key fc_priority (filter (\<lambda>n. \<not> fc_is_leader n) fleet)"
  define k where "k = min (canary_wanted (co_policy co) (length fleet)) (length (filter (\<lambda>n. \<not> fc_is_leader n) fleet))"
  have cs: "cs = map fc_name (take k ws)"
    using select_canary_Inr [OF sel] by (simp add: ws_def k_def)
  have len: "length ws = length (filter (\<lambda>n. \<not> fc_is_leader n) fleet)" by (simp add: ws_def)
  have ws: "set ws = {n \<in> set fleet. \<not> fc_is_leader n}" by (simp add: ws_def)
  have inj: "inj_on fc_name (set fleet)" using names by (rule distinct_names_inj)
  have dws: "distinct (map fc_name ws)"
    using names unfolding ws_def by (simp add: distinct_map inj_on_def)
  have rest: "set rest = {n \<in> set fleet. fc_name n \<notin> set cs}"
    by (simp add: rest_def rollout_sorted_def)
  have drest: "distinct (map fc_name rest)"
    using names unfolding rest_def rollout_sorted_def by (simp add: distinct_map inj_on_def)
  have canary: "n \<in> set (take k ws)" if n: "n \<in> set fleet" "fc_name n \<in> set cs" for n
  proof -
    from n(2) obtain m where m: "m \<in> set (take k ws)" "fc_name m = fc_name n" by (auto simp: cs)
    then have "m \<in> set fleet" using ws by (auto dest: in_set_takeD)
    with inj n(1) m show ?thesis by (metis inj_onD)
  qed
  have wsub: "set (take k ws) \<subseteq> set fleet" using ws by (auto dest: in_set_takeD)
  have dcs: "distinct cs" using dws by (simp add: cs take_map [symmetric])
  have p1: "distinct (cs @ map fc_name rest)"
    using dcs drest rest by auto
  have p2: "set (cs @ map fc_name rest) = fc_name ` set fleet"
    using wsub rest by (auto simp: cs)
  have p3: "fc_priority n \<le> fc_priority m"
    if "n \<in> set fleet" "m \<in> set rest" "fc_name n \<in> set cs" "\<not> fc_is_leader m" for n m
  proof -
    have "m \<in> set ws" "m \<notin> set (take k ws)" using that rest ws by (auto simp: cs)
    then have "m \<in> set (drop k ws)"
      by (metis append_take_drop_id Un_iff set_append)
    with canary [OF that(1, 3)] show ?thesis unfolding ws_def by (rule sort_key_take_drop)
  qed
  have p4: "filter (\<lambda>n. rollout_key n = k) rest =
      filter (\<lambda>n. fc_name n \<notin> set cs \<and> rollout_key n = k) fleet" for k
    by (simp add: rest_def rollout_sorted_def sort_key_stable)
  have p5: "\<not> fc_is_leader n" if "n \<in> set fleet" "fc_name n \<in> set cs" for n
    using canary [OF that] ws by (auto dest: in_set_takeD)
  have p6: "sorted (map rollout_key rest)" by (simp add: rest_def rollout_sorted_def)
  have p7: "length cs = k" by (simp add: cs len) (simp add: k_def)
  have p8: "pl_node_order (plan_from_fleet fleet cs v) = map fc_name rest"
    by (simp add: plan_order rest_def rollout_sorted_def)
  show ?thesis using p1 p2 p3 p4 p5 p6 p7 p8 unfolding k_def by blast
qed

theorem update_plan_partition_witness:
  "\<exists>co' rest. select_canary_nodes 0 example_fleet (canary_new canary_policy_default ''v2'') = (co', Inr [''james'']) \<and>
     pl_node_order (plan_from_fleet example_fleet [''james''] ''v2'') = map fc_name rest \<and>
     set ([''james''] @ map fc_name rest) = fc_name ` set example_fleet \<and> sorted (map rollout_key rest)"
proof -
  have sel: "select_canary_nodes 0 example_fleet (canary_new canary_policy_default ''v2'') =
      (fst (select_canary_nodes 0 example_fleet (canary_new canary_policy_default ''v2'')), Inr [''james''])"
    by (simp add: canary_eval Let_def)
  have "distinct (map fc_name example_fleet)" by (simp add: example_fleet_def)
  from update_plan_partition [OF sel this, of "''v2''"] sel show ?thesis by blast
qed

section \<open>Properties of the controller\<close>

text \<open>
  C13: In any sequence of calls on a fresh controller whose plan names no node twice, the
  number of nodes in flight never exceeds \<open>max_unavailable\<close>, a node is handed out at most
  once, and only nodes of the plan are. Once the rollout is aborted no node is pending any
  more, nothing is handed out again and it stays aborted.
\<close>

theorem rollout_safe:
  assumes "rollout_run (controller_new plan) handed c" "distinct (pl_node_order plan)"
  shows "in_flight c \<le> pl_max_unavailable plan \<and> distinct handed \<and>
    set handed \<subseteq> set (pl_node_order plan) \<and>
    (rs_state c = RsAborted \<longrightarrow> (\<forall>n. \<not> is_pending c n) \<and>
       (\<forall>handed' c'. rollout_run c handed' c' \<longrightarrow> handed' = [] \<and> rs_state c' = RsAborted))"
proof -
  have inv: "rollout_inv plan handed c" by (rule rollout_run_inv [OF assms(1) refl assms(2)])
  note D = rollout_invD [OF inv]
  have "n \<in> set (pl_node_order plan)" if "n \<in> set handed" for n
    using D(3) [OF that] shape_known [OF D(1), of n] by (auto simp: node_status_is_def split: option.splits)
  then have sub: "set handed \<subseteq> set (pl_node_order plan)" by blast
  show ?thesis using D(2, 4, 5) sub rollout_run_aborted by blast
qed

definition example_plan :: rollout_plan where
  "example_plan = \<lparr>pl_node_order = [''a'', ''b'', ''c''], pl_pause_after_canary = False,
     pl_max_unavailable = 2, pl_abort_on_failure = True, pl_target_version = ''v2''\<rparr>"

text \<open>Evaluation of the controller on a concrete plan.\<close>

lemmas rollout_eval =
  controller_new_def start_def next_batch_def in_flight_def count_nodes_def node_status_is_def set_status_def
  pending_progress_def hash_eval mark_node_updated_def mark_node_failed_def check_completion_def
  abort_internal_def skip_pending_def all_done_def node_finished_def failed_count_def node_failed_def
  pause_def resume_def Let_def

definition example_started :: rollout_status where
  "example_started = fst (start 0 (controller_new example_plan))"

definition example_aborted :: rollout_status where
  "example_aborted = mark_node_failed 1 ''a'' ''boom'' example_started"

lemma example_started_value: "start 0 (controller_new example_plan) = (example_started, Inr [''a'', ''b''])"
  by (simp add: example_started_def example_plan_def rollout_eval del: hm_get_insert)

lemma example_aborted_value: "rs_state example_aborted = RsAborted"
  by (simp add: example_aborted_def example_started_def example_plan_def rollout_eval del: hm_get_insert)

lemma example_aborted_run: "rollout_run (controller_new example_plan) [''a'', ''b''] example_aborted"
proof -
  have "rollout_run (controller_new example_plan) ([] @ [''a'', ''b'']) example_started"
    by (rule run_step [OF run_refl ro_start [OF example_started_value]])
  from run_step [OF this ro_failed [of example_started 1 "''a''" "''boom''"]]
  show ?thesis by (simp add: example_aborted_def)
qed

theorem rollout_safe_witness:
  "in_flight example_aborted \<le> 2 \<and> \<not> is_pending example_aborted ''c'' \<and>
   rs_state (mark_node_updated 5 6 ''b'' example_aborted) = RsAborted"
proof -
  have "distinct (pl_node_order example_plan)" by (simp add: example_plan_def)
  note safe = rollout_safe [OF example_aborted_run this]
  have "rollout_run example_aborted ([] @ []) (mark_node_updated 5 6 ''b'' example_aborted)"
    by (rule run_step [OF run_refl ro_updated])
  then show ?thesis using safe example_aborted_value by (simp add: example_plan_def)
qed

text \<open>
  A report of a successful update, or of a passed health check, ends a rollout in progress
  exactly when it leaves no node pending or in flight: the rollout is then complete when
  every node of the plan succeeded, and aborted when one failed. Otherwise it stays in
  progress.
\<close>

theorem rollout_completion_exact:
  assumes "rollout_run (controller_new plan) handed c" "distinct (pl_node_order plan)"
    and "rs_state c = RsInProgress"
  shows "rs_state (mark_node_updated now1 now2 name c) = rollout_verdict (set_updated now1 name c) \<and>
    rs_state (mark_node_healthy now1 now2 name c) = rollout_verdict (set_healthy now1 name c)"
proof -
  have inv: "rollout_inv plan handed c" by (rule rollout_run_inv [OF assms(1) refl assms(2)])
  have "rollout_inv plan handed (set_updated now1 name c)" "rollout_inv plan handed (set_healthy now1 name c)"
    unfolding set_updated_def set_healthy_def by (rule rollout_inv_report [OF inv]; simp)+
  moreover have "rs_state (set_updated now1 name c) = RsInProgress" "rs_state (set_healthy now1 name c) = RsInProgress"
    using assms(3) by (simp_all add: set_updated_def set_healthy_def)
  ultimately show ?thesis
    by (simp add: mark_node_updated_alt mark_node_healthy_alt check_completion_verdict)
qed

lemma example_started_run: "rollout_run (controller_new example_plan) [''a'', ''b''] example_started"
  using run_step [OF run_refl ro_start [OF example_started_value]] by simp

theorem rollout_completion_exact_witness:
  "rs_state (mark_node_updated 1 2 ''a'' example_started) = RsInProgress"
proof -
  have "distinct (pl_node_order example_plan)" by (simp add: example_plan_def)
  moreover have "rs_state example_started = RsInProgress"
    by (simp add: example_started_def example_plan_def rollout_eval del: hm_get_insert)
  moreover have "rollout_verdict (set_updated 1 ''a'' example_started) = RsInProgress"
    by (simp add: rollout_verdict_def nodes_all_def set_updated_def node_succeeded_def
        example_started_def example_plan_def rollout_eval del: hm_get_insert)
  ultimately show ?thesis
    using rollout_completion_exact [OF example_started_run, of 1 2 "''a''"] by simp
qed

text \<open>
  When the plan names at least one node, none twice, and allows at least one node in
  flight, the rollout completes for a caller that updates each batch, reports every node of
  it and asks for the next: after as many rounds as the plan has nodes, at the latest, the
  rollout is complete and every node is updated.
\<close>

theorem rollout_completes:
  assumes "distinct (pl_node_order plan)" "pl_node_order plan \<noteq> []" "0 < pl_max_unavailable plan"
  shows "\<exists>c batch. start now (controller_new plan) = (c, Inr batch) \<and>
    rs_state (drive now (length (pl_node_order plan)) batch c) = RsComplete \<and>
    nodes_all (\<lambda>s. s = NodeUpdated) (drive now (length (pl_node_order plan)) batch c)"
proof -
  let ?k = "pl_max_unavailable plan" and ?o = "pl_node_order plan"
  obtain c where st: "start now (controller_new plan) = (c, Inr (take ?k ?o))"
    and ph: "rollout_phase plan [] (take ?k ?o) (drop ?k ?o) c"
    using start_phase [OF assms(1, 3)] by blast
  have "take ?k ?o \<noteq> []" "length (drop ?k ?o) < length ?o" using assms(2, 3) by auto
  from drive_completes [OF ph this assms(3)] st show ?thesis by blast
qed

theorem rollout_completes_witness:
  "\<exists>c batch. start 0 (controller_new example_plan) = (c, Inr batch) \<and>
    rs_state (drive 0 (length (pl_node_order example_plan)) batch c) = RsComplete"
proof -
  have "distinct (pl_node_order example_plan)" "pl_node_order example_plan \<noteq> []"
    "0 < pl_max_unavailable example_plan"
    by (simp_all add: example_plan_def)
  from rollout_completes [OF this, of 0] show ?thesis by blast
qed

definition one_node_plan :: rollout_plan where
  "one_node_plan = \<lparr>pl_node_order = [''a''], pl_pause_after_canary = False, pl_max_unavailable = 1,
     pl_abort_on_failure = False, pl_target_version = ''v2''\<rparr>"

definition empty_plan :: rollout_plan where
  "empty_plan = one_node_plan\<lparr>pl_node_order := []\<rparr>"

definition failed_rollout :: rollout_status where
  "failed_rollout = mark_node_failed 1 ''a'' ''boom'' (fst (start 0 (controller_new one_node_plan)))"

definition paused_rollout :: rollout_status where
  "paused_rollout =
     fst (resume (mark_node_updated 1 2 ''a'' (fst (pause (fst (start 0 (controller_new one_node_plan)))))))"

definition idle_forever :: "rollout_status \<Rightarrow> bool" where
  "idle_forever c \<longleftrightarrow> rs_state c = RsInProgress \<and> all_done c \<and> snd (next_batch c) = [] \<and>
     rs_state (fst (next_batch c)) = RsInProgress"

text \<open>
  Three rollouts that have nothing left to do and never finish. A plan that does not abort
  on failure whose only node fails, a plan whose only node is reported while the rollout is
  paused, and a plan without nodes all stay in progress, with every node finished and no
  batch to hand out.
\<close>

theorem rollout_never_finishes:
  "idle_forever failed_rollout \<and> idle_forever paused_rollout \<and>
   idle_forever (fst (start 0 (controller_new empty_plan)))"
  by (intro conjI)
    (simp_all add: idle_forever_def failed_rollout_def paused_rollout_def empty_plan_def one_node_plan_def
      rollout_eval del: hm_get_insert)

section \<open>Version skew\<close>

lemma length_dedup: "length (fold hs_insert xs []) = card (set xs)"
proof -
  have "distinct (fold hs_insert xs ys) \<and> set (fold hs_insert xs ys) = set ys \<union> set xs" if "distinct ys" for ys
    using that by (induction xs arbitrary: ys) auto
  from this [of "[]"] show ?thesis by (metis distinct.simps(1) distinct_card empty_set sup_bot_left)
qed

lemma version_skew_ok:
  "version_skew_check it1 it2 versions = Inr () \<longleftrightarrow> card (set (hm_values versions)) \<le> 2"
  by (auto simp: version_skew_check_def Let_def length_dedup hm_values_def)

end
