(* ===== verification/Leader_Election.thy ===== *)
theory Leader_Election
  imports Fleet_Prelude
begin

text \<open>
  Leader election and failover: \<^verbatim>\<open>crates/ff-core/src/leader.rs\<close>.

  Of the fleet configuration the election reads the map of nodes and each node's optional
  election priority (\<open>NodeConfig::priority\<close> in \<^verbatim>\<open>crates/ff-core/src/config.rs\<close>);
  \<open>it\<close> is the iteration order of that map. The clock read of an election is an argument.
\<close>

section \<open>Data\<close>

datatype election_state =
  Stable (es_leader: string) (es_stable_since: datetime)
| Electing (es_triggered_at: datetime)
| NoLeader (es_no_leader_since: datetime)

fun election_leader :: "election_state \<Rightarrow> string option" where
  "election_leader (Stable l _) = Some l"
| "election_leader _ = None"

fun election_is_stable :: "election_state \<Rightarrow> bool" where
  "election_is_stable (Stable _ _) = True"
| "election_is_stable _ = False"

record election_candidate =
  ec_name :: string
  ec_priority :: u32
  ec_is_healthy :: bool
  ec_is_yielding :: bool
  ec_last_heartbeat :: "datetime option"

definition is_eligible :: "election_candidate \<Rightarrow> bool" where
  "is_eligible c \<longleftrightarrow> ec_is_healthy c \<and> \<not> ec_is_yielding c"

record election_result =
  er_elected :: "string option"
  er_candidates :: "election_candidate list"
  er_timestamp :: datetime
  er_reason :: string

record election_node =
  en_election_priority :: "u32 option"

definition node_priority :: "election_node \<Rightarrow> u32" where
  "node_priority n = (case en_election_priority n of None \<Rightarrow> 100 | Some p \<Rightarrow> p)"

type_synonym fleet_nodes = "(string, election_node) hmap"
type_synonym health_report = "(string \<times> bool \<times> bool) list"
type_synonym node_iter = "(string \<times> election_node) list \<Rightarrow> (string \<times> election_node) list"

section \<open>Operations\<close>

definition health_map :: "health_report \<Rightarrow> (string, bool \<times> bool) hmap" where
  "health_map hs = fold (\<lambda>(name, hy). hm_insert name hy) hs []"

definition health_of :: "health_report \<Rightarrow> string \<Rightarrow> bool \<times> bool" where
  "health_of hs name = (case hm_get (health_map hs) name of None \<Rightarrow> (False, False) | Some hy \<Rightarrow> hy)"

definition candidate_of :: "health_report \<Rightarrow> string \<times> election_node \<Rightarrow> election_candidate" where
  "candidate_of hs e =
     (case health_of hs (fst e) of (healthy, yielding) \<Rightarrow>
       \<lparr>ec_name = fst e, ec_priority = node_priority (snd e), ec_is_healthy = healthy,
        ec_is_yielding = yielding, ec_last_heartbeat = None\<rparr>)"

definition build_candidate_list :: "node_iter \<Rightarrow> fleet_nodes \<Rightarrow> health_report \<Rightarrow> election_candidate list" where
  "build_candidate_list it nodes hs = sort_key ec_priority (map (candidate_of hs) (it nodes))"

text \<open>The message of the second pass has a dash outside ASCII; it is written as its UTF-8 bytes.\<close>

definition elected_message :: "election_candidate \<Rightarrow> string \<Rightarrow> string" where
  "elected_message c how =
     ec_name c @ '' elected (priority '' @ show_nat (unat (ec_priority c)) @ '', '' @ how @ '')''"

definition yielding_reason :: string where
  "yielding_reason = ''healthy but yielding '' @ [CHR 0xE2, CHR 0x80, CHR 0x94] @ '' no better option''"

definition elect_leader :: "datetime \<Rightarrow> node_iter \<Rightarrow> fleet_nodes \<Rightarrow> health_report \<Rightarrow> election_result" where
  "elect_leader now it nodes hs =
     (let candidates = build_candidate_list it nodes hs in
      case find is_eligible candidates of
        Some c \<Rightarrow> \<lparr>er_elected = Some (ec_name c), er_candidates = candidates, er_timestamp = now,
                    er_reason = elected_message c ''healthy, not yielding''\<rparr>
      | None \<Rightarrow>
         (case find ec_is_healthy candidates of
            Some c \<Rightarrow> \<lparr>er_elected = Some (ec_name c), er_candidates = candidates, er_timestamp = now,
                        er_reason = elected_message c yielding_reason\<rparr>
          | None \<Rightarrow> \<lparr>er_elected = None, er_candidates = candidates, er_timestamp = now,
                     er_reason = ''no healthy candidates available''\<rparr>))"



section \<open>The candidate list\<close>

lemma hm_get_health_map: "hm_get (health_map hs) n = map_of (rev hs) n"
proof -
  have "hm_get (fold (\<lambda>(name, hy). hm_insert name hy) hs m) n =
      (case map_of (rev hs) n of None \<Rightarrow> hm_get m n | Some hy \<Rightarrow> Some hy)" for m
    by (induction hs arbitrary: m) (auto simp: map_add_def split: option.splits)
  then show ?thesis by (simp add: health_map_def split: option.splits)
qed

definition healthy_node :: "fleet_nodes \<Rightarrow> health_report \<Rightarrow> string \<Rightarrow> bool" where
  "healthy_node nodes hs n \<longleftrightarrow> hm_contains nodes n \<and> fst (health_of hs n)"

definition eligible_node :: "fleet_nodes \<Rightarrow> health_report \<Rightarrow> string \<Rightarrow> bool" where
  "eligible_node nodes hs n \<longleftrightarrow> healthy_node nodes hs n \<and> \<not> snd (health_of hs n)"

definition prio :: "fleet_nodes \<Rightarrow> string \<Rightarrow> u32" where
  "prio nodes n = (case hm_get nodes n of None \<Rightarrow> - 1 | Some e \<Rightarrow> node_priority e)"

lemma candidate_of_simps [simp]:
  "ec_name (candidate_of hs e) = fst e"
  "ec_priority (candidate_of hs e) = node_priority (snd e)"
  "ec_is_healthy (candidate_of hs e) = fst (health_of hs (fst e))"
  "ec_is_yielding (candidate_of hs e) = snd (health_of hs (fst e))"
  by (simp_all add: candidate_of_def case_prod_beta)

lemma set_candidates:
  "hash_iter it \<Longrightarrow> set (build_candidate_list it nodes hs) = candidate_of hs ` set nodes"
  by (simp add: build_candidate_list_def hash_iter_set)

lemma sorted_candidates: "sorted (map ec_priority (build_candidate_list it nodes hs))"
  by (simp add: build_candidate_list_def)

lemma candidate_iff:
  assumes "hash_iter it" "hm_wf nodes"
  shows "c \<in> set (build_candidate_list it nodes hs) \<longleftrightarrow>
    (\<exists>e. hm_get nodes (ec_name c) = Some e \<and> c = candidate_of hs (ec_name c, e))"
  using assms by (force simp: set_candidates simp flip: hm_mem_iff)

lemma candidate_facts:
  assumes "hash_iter it" "hm_wf nodes" "c \<in> set (build_candidate_list it nodes hs)"
  shows "hm_contains nodes (ec_name c)" "ec_priority c = prio nodes (ec_name c)"
    "ec_is_healthy c \<longleftrightarrow> healthy_node nodes hs (ec_name c)"
    "is_eligible c \<longleftrightarrow> eligible_node nodes hs (ec_name c)"
proof -
  obtain e where e: "hm_get nodes (ec_name c) = Some e" "c = candidate_of hs (ec_name c, e)"
    using assms candidate_iff by blast
  note c = arg_cong [OF e(2), of ec_priority] arg_cong [OF e(2), of ec_is_healthy]
    arg_cong [OF e(2), of ec_is_yielding]
  show "hm_contains nodes (ec_name c)" "ec_priority c = prio nodes (ec_name c)"
    "ec_is_healthy c \<longleftrightarrow> healthy_node nodes hs (ec_name c)"
    "is_eligible c \<longleftrightarrow> eligible_node nodes hs (ec_name c)"
    using e(1) c by (simp_all add: hm_contains_def prio_def healthy_node_def is_eligible_def eligible_node_def)
qed

lemma candidate_exists:
  assumes "hash_iter it" "hm_wf nodes" "hm_contains nodes n"
  obtains c where "c \<in> set (build_candidate_list it nodes hs)" "ec_name c = n"
proof -
  obtain e where "hm_get nodes n = Some e" using assms(3) by (auto simp: hm_contains_def)
  then have "candidate_of hs (n, e) \<in> set (build_candidate_list it nodes hs)"
    using assms by (simp add: candidate_iff)
  with that show thesis by fastforce
qed

text \<open>The first match in a list sorted by a key has the least key of all matches.\<close>

lemma find_sorted_least:
  "sorted (map f xs) \<Longrightarrow> find P xs = Some x \<Longrightarrow> x \<in> set xs \<and> P x \<and> (\<forall>y \<in> set xs. P y \<longrightarrow> f x \<le> f y)"
  by (induction xs) (auto split: if_splits)

text \<open>The best node of those that satisfy \<open>Q\<close>: least priority number.\<close>

definition best_node :: "fleet_nodes \<Rightarrow> (string \<Rightarrow> bool) \<Rightarrow> string \<Rightarrow> bool" where
  "best_node nodes Q n \<longleftrightarrow> Q n \<and> (\<forall>m. Q m \<longrightarrow> prio nodes n \<le> prio nodes m)"

lemma find_candidate:
  assumes it: "hash_iter it" and wf: "hm_wf nodes"
    and P: "\<And>c. c \<in> set (build_candidate_list it nodes hs) \<Longrightarrow> P c \<longleftrightarrow> Q (ec_name c)"
    and Q: "\<And>n. Q n \<Longrightarrow> hm_contains nodes n"
  shows "case find P (build_candidate_list it nodes hs) of
      None \<Rightarrow> (\<forall>n. \<not> Q n) | Some c \<Rightarrow> c \<in> set (build_candidate_list it nodes hs) \<and> best_node nodes Q (ec_name c)"
proof (cases "find P (build_candidate_list it nodes hs)")
  case None
  then have "\<forall>c \<in> set (build_candidate_list it nodes hs). \<not> P c" by (simp add: find_None_iff)
  with P Q have "\<not> Q n" for n
    by (metis candidate_exists [OF it wf])
  with None show ?thesis by simp
next
  case (Some c)
  from find_sorted_least [OF sorted_candidates Some]
  have c: "c \<in> set (build_candidate_list it nodes hs)" "P c"
    and least: "\<And>d. d \<in> set (build_candidate_list it nodes hs) \<Longrightarrow> P d \<Longrightarrow> ec_priority c \<le> ec_priority d"
    by auto
  have "prio nodes (ec_name c) \<le> prio nodes n" if "Q n" for n
  proof -
    have "hm_contains nodes n" using that by (rule Q)
    with candidate_exists [OF it wf] obtain d
      where d: "d \<in> set (build_candidate_list it nodes hs)" "ec_name d = n"
      by metis
    then have "ec_priority c \<le> ec_priority d" using least P that by blast
    then show ?thesis using candidate_facts(2) [OF it wf c(1)] candidate_facts(2) [OF it wf d(1)] d(2) by simp
  qed
  with c P Some show ?thesis by (simp add: best_node_def)
qed

section \<open>Election and failover\<close>

lemma find_eligible:
  assumes "hash_iter it" "hm_wf nodes"
  shows "case find is_eligible (build_candidate_list it nodes hs) of
      None \<Rightarrow> (\<forall>n. \<not> eligible_node nodes hs n)
    | Some c \<Rightarrow> c \<in> set (build_candidate_list it nodes hs) \<and> best_node nodes (eligible_node nodes hs) (ec_name c)"
  by (rule find_candidate [OF assms])
    (simp_all add: candidate_facts [OF assms] eligible_node_def healthy_node_def)

lemma find_healthy:
  assumes "hash_iter it" "hm_wf nodes"
  shows "case find ec_is_healthy (build_candidate_list it nodes hs) of
      None \<Rightarrow> (\<forall>n. \<not> healthy_node nodes hs n)
    | Some c \<Rightarrow> c \<in> set (build_candidate_list it nodes hs) \<and> best_node nodes (healthy_node nodes hs) (ec_name c)"
  by (rule find_candidate [OF assms]) (simp_all add: candidate_facts [OF assms] healthy_node_def)

lemma elect_leader_cases:
  assumes "hash_iter it" "hm_wf nodes"
  shows "case er_elected (elect_leader now it nodes hs) of
      None \<Rightarrow> (\<forall>n. \<not> healthy_node nodes hs n)
    | Some n \<Rightarrow> (if \<exists>m. eligible_node nodes hs m then best_node nodes (eligible_node nodes hs) n
                 else best_node nodes (healthy_node nodes hs) n)"
proof (cases "find is_eligible (build_candidate_list it nodes hs)")
  case None
  then have "\<forall>n. \<not> eligible_node nodes hs n" using find_eligible [OF assms, of hs] by simp
  with None find_healthy [OF assms, of hs] show ?thesis
    by (simp add: elect_leader_def Let_def split: option.splits)
next
  case (Some c)
  then have "best_node nodes (eligible_node nodes hs) (ec_name c)" using find_eligible [OF assms, of hs] by simp
  moreover from this have "eligible_node nodes hs (ec_name c)" by (simp add: best_node_def)
  ultimately show ?thesis using Some by (auto simp: elect_leader_def Let_def)
qed

lemma elected_healthy:
  assumes "hash_iter it" "hm_wf nodes" "er_elected (elect_leader now it nodes hs) = Some n"
  shows "healthy_node nodes hs n" "eligible_node nodes hs m \<Longrightarrow> eligible_node nodes hs n \<and> prio nodes n \<le> prio nodes m"
  using elect_leader_cases [OF assms(1, 2), where now = now and hs = hs] assms(3)
  by (auto simp: best_node_def eligible_node_def split: if_splits)



text \<open>
  C14: An election chooses, among the configured nodes that are healthy and not yielding, one
  of least priority number; when every healthy node is yielding, a healthy node of least
  priority number; and nobody exactly when no configured node is healthy. The iteration
  order of the node map only decides between nodes of equal priority.
\<close>

theorem elect_leader_exact:
  assumes "hash_iter it" "hm_wf nodes"
  shows "(er_elected (elect_leader now it nodes hs) = None \<longleftrightarrow> (\<forall>n. \<not> healthy_node nodes hs n)) \<and>
    (\<forall>n. er_elected (elect_leader now it nodes hs) = Some n \<longrightarrow>
       (if \<exists>m. eligible_node nodes hs m then best_node nodes (eligible_node nodes hs) n
        else best_node nodes (healthy_node nodes hs) n)) \<and>
    sorted (map ec_priority (er_candidates (elect_leader now it nodes hs))) \<and>
    mset (map ec_name (er_candidates (elect_leader now it nodes hs))) = mset (hm_keys nodes)"
proof (intro conjI allI impI iffI)
  note cases = elect_leader_cases [OF assms, where now = now and hs = hs]
  have cand: "er_candidates (elect_leader now it nodes hs) = build_candidate_list it nodes hs"
    by (simp add: elect_leader_def Let_def split: option.split)
  show "\<not> healthy_node nodes hs n" if "er_elected (elect_leader now it nodes hs) = None" for n
    using cases that by simp
  show "er_elected (elect_leader now it nodes hs) = None" if "\<forall>n. \<not> healthy_node nodes hs n"
    using elected_healthy(1) [OF assms] that by (metis not_None_eq)
  show "if \<exists>m. eligible_node nodes hs m then best_node nodes (eligible_node nodes hs) n
      else best_node nodes (healthy_node nodes hs) n"
    if "er_elected (elect_leader now it nodes hs) = Some n" for n
    using cases that by simp
  show "sorted (map ec_priority (er_candidates (elect_leader now it nodes hs)))"
    by (simp add: cand sorted_candidates)
  have "map ec_name (map (candidate_of hs) (it nodes)) = map fst (it nodes)" by simp
  then have "mset (map ec_name (map (candidate_of hs) (it nodes))) = image_mset fst (mset (it nodes))"
    by (simp only: mset_map)
  also have "\<dots> = mset (map fst nodes)" by (simp add: hash_iter_mset [OF assms(1)])
  finally have "mset (map ec_name (map (candidate_of hs) (it nodes))) = mset (map fst nodes)" .
  then show "mset (map ec_name (er_candidates (elect_leader now it nodes hs))) = mset (hm_keys nodes)"
    by (simp add: cand build_candidate_list_def hm_keys_def multiset.map_comp)
qed

definition example_nodes :: fleet_nodes where
  "example_nodes = [(''vinny'', \<lparr>en_election_priority = Some 1\<rparr>), (''taylor'', \<lparr>en_election_priority = Some 5\<rparr>),
     (''marcus'', \<lparr>en_election_priority = None\<rparr>)]"

definition example_health :: health_report where
  "example_health = [(''vinny'', True, True), (''taylor'', True, True), (''marcus'', False, False)]"

lemma example_nodes_wf: "hm_wf example_nodes"
  by (simp add: hm_wf_def hm_keys_def example_nodes_def)

lemma example_elected: "er_elected (elect_leader 0 id example_nodes example_health) = Some ''vinny''"
  by (simp add: elect_leader_def build_candidate_list_def candidate_of_def example_nodes_def example_health_def
      health_of_def hm_get_health_map node_priority_def is_eligible_def Let_def)

theorem elect_leader_exact_witness:
  "if \<exists>m. eligible_node example_nodes example_health m
   then best_node example_nodes (eligible_node example_nodes example_health) ''vinny''
   else best_node example_nodes (healthy_node example_nodes example_health) ''vinny''"
  using elect_leader_exact [OF hash_iter_id example_nodes_wf, where now = 0 and hs = example_health] example_elected by blast






end
