(* ===== verification/Ha_Coordinator.thy ===== *)
theory Ha_Coordinator
  imports Fleet_Prelude
begin

text \<open>
  Coordination with a Patroni database cluster:
  \<^verbatim>\<open>crates/ff-control/src/ha_coordinator.rs\<close>.

  The coordinator compares consecutive snapshots of the cluster, emits events and maps them
  to actions. The abstract view is a leader and a set of members, and whether writes run:
  the event stream determines the first, the actions the second.
\<close>

section \<open>Data\<close>

datatype aggregate_health_status = AggHealthy | AggDegraded | AggUnhealthy

definition default_max_replication_lag_bytes :: u64 where
  "default_max_replication_lag_bytes = 1048576"

datatype patroni_member_role = PmLeader | PmReplica | PmSyncStandby | PmStandbyLeader | PmUnknown

definition role_is_leader :: "patroni_member_role \<Rightarrow> bool" where
  "role_is_leader r \<longleftrightarrow> r \<in> {PmLeader, PmStandbyLeader}"

record patroni_cluster_member =
  pm_name :: string
  pm_role :: patroni_member_role
  pm_state :: string
  pm_host :: "string option"
  pm_port :: "u16 option"
  pm_api_url :: "string option"
  pm_timeline :: "u64 option"
  pm_lag :: "u64 option"

definition is_operational :: "patroni_cluster_member \<Rightarrow> bool" where
  "is_operational m \<longleftrightarrow> pm_state m \<in> {''running'', ''streaming''}"

record patroni_cluster_state =
  ps_scope :: "string option"
  ps_members :: "patroni_cluster_member list"
  ps_pause :: bool

definition cluster_leader :: "patroni_cluster_state \<Rightarrow> patroni_cluster_member option" where
  "cluster_leader s = find (\<lambda>m. role_is_leader (pm_role m)) (ps_members s)"

text \<open>
  The field \<open>lag\<close> of the payload: absent or null, an unsigned number, a text, or anything
  else, which the untagged enumeration refuses.
\<close>

datatype raw_lag = LagNull | LagBytes u64 | LagText string | LagOther

fun deserialize_lag :: "raw_lag \<Rightarrow> (u64 option, string) result" where
  "deserialize_lag LagNull = Inr None"
| "deserialize_lag (LagBytes b) = Inr (Some b)"
| "deserialize_lag (LagText _) = Inr None"
| "deserialize_lag LagOther = Inl ''data did not match any variant of untagged enum RawLag''"

datatype ha_cluster_event =
  LeaderElected string
| LeaderChanged string string
| LeaderLost string
| MemberJoined string patroni_member_role
| MemberLeft string
| MemberStateChanged string string string
| ReplicationLagExceeded string u64 u64

fun is_failover_event :: "ha_cluster_event \<Rightarrow> bool" where
  "is_failover_event (LeaderElected _) = True"
| "is_failover_event (LeaderChanged _ _) = True"
| "is_failover_event (LeaderLost _) = True"
| "is_failover_event _ = False"

datatype ha_action =
  UpdatePrimaryEndpoint string u16
| SuspendWrites string
| ResumeWrites
| NotifyOperator aggregate_health_status string

record ha_coordinator =
  hc_last_state :: "patroni_cluster_state option"
  hc_max_replication_lag_bytes :: u64

definition ha_new :: ha_coordinator where
  "ha_new = \<lparr>hc_last_state = None, hc_max_replication_lag_bytes = default_max_replication_lag_bytes\<rparr>"

definition with_max_replication_lag_bytes :: "u64 \<Rightarrow> ha_coordinator \<Rightarrow> ha_coordinator" where
  "with_max_replication_lag_bytes n hc = hc\<lparr>hc_max_replication_lag_bytes := n\<rparr>"

section \<open>Observing a snapshot\<close>

definition leader_name :: "patroni_cluster_state option \<Rightarrow> string option" where
  "leader_name s = (case s of None \<Rightarrow> None | Some st \<Rightarrow> map_option pm_name (cluster_leader st))"

definition leader_events :: "string option \<Rightarrow> string option \<Rightarrow> ha_cluster_event list" where
  "leader_events previous current =
     (case (previous, current) of
        (None, Some l) \<Rightarrow> [LeaderElected l]
      | (Some p, Some c) \<Rightarrow> (if p \<noteq> c then [LeaderChanged p c] else [])
      | (Some p, None) \<Rightarrow> [LeaderLost p]
      | (None, None) \<Rightarrow> [])"

definition member_event ::
  "patroni_cluster_member list \<Rightarrow> patroni_cluster_member \<Rightarrow> ha_cluster_event list" where
  "member_event previous m =
     (case find (\<lambda>p. pm_name p = pm_name m) previous of
        None \<Rightarrow> [MemberJoined (pm_name m) (pm_role m)]
      | Some before \<Rightarrow>
          (if pm_state before \<noteq> pm_state m
           then [MemberStateChanged (pm_name m) (pm_state before) (pm_state m)] else []))"

definition left_events ::
  "patroni_cluster_member list \<Rightarrow> patroni_cluster_member list \<Rightarrow> ha_cluster_event list" where
  "left_events previous current =
     map (\<lambda>p. MemberLeft (pm_name p))
       (filter (\<lambda>p. \<not> list_ex (\<lambda>m. pm_name m = pm_name p) current) previous)"

definition lag_event :: "u64 \<Rightarrow> patroni_cluster_member \<Rightarrow> ha_cluster_event list" where
  "lag_event max_lag m =
     (if role_is_leader (pm_role m) then []
      else (case pm_lag m of
              None \<Rightarrow> []
            | Some lag \<Rightarrow> (if lag > max_lag then [ReplicationLagExceeded (pm_name m) lag max_lag] else [])))"

definition observe_cluster_state ::
  "patroni_cluster_state \<Rightarrow> ha_coordinator \<Rightarrow> ha_coordinator \<times> ha_cluster_event list" where
  "observe_cluster_state state hc =
     (let previous = hc_last_state hc;
          previous_members = (case previous of None \<Rightarrow> [] | Some s \<Rightarrow> ps_members s)
      in (hc\<lparr>hc_last_state := Some state\<rparr>,
          leader_events (leader_name previous) (leader_name (Some state))
          @ concat (map (member_event previous_members) (ps_members state))
          @ left_events previous_members (ps_members state)
          @ concat (map (lag_event (hc_max_replication_lag_bytes hc)) (ps_members state))))"

section \<open>Reacting to an event\<close>

definition leader_endpoint :: "string \<Rightarrow> ha_coordinator \<Rightarrow> ha_action option" where
  "leader_endpoint leader hc =
     (case hc_last_state hc of
        None \<Rightarrow> None
      | Some s \<Rightarrow>
         (case find (\<lambda>m. pm_name m = leader) (ps_members s) of
            None \<Rightarrow> None
          | Some m \<Rightarrow>
             (case pm_host m of
                None \<Rightarrow> None
              | Some host \<Rightarrow>
                 (case pm_port m of None \<Rightarrow> None | Some port \<Rightarrow> Some (UpdatePrimaryEndpoint host port)))))"

definition quoted :: "string \<Rightarrow> string" where
  "quoted s = [CHR 0x27] @ s @ [CHR 0x27]"

definition new_leader_actions :: "string \<Rightarrow> ha_coordinator \<Rightarrow> ha_action list" where
  "new_leader_actions leader hc =
     (case leader_endpoint leader hc of None \<Rightarrow> [] | Some a \<Rightarrow> [a])
     @ [ResumeWrites, NotifyOperator AggDegraded (''Patroni leadership moved to '' @ quoted leader)]"

fun handle_failover_event :: "ha_coordinator \<Rightarrow> ha_cluster_event \<Rightarrow> ha_action list" where
  "handle_failover_event hc (LeaderElected leader) = new_leader_actions leader hc"
| "handle_failover_event hc (LeaderChanged _ leader) = new_leader_actions leader hc"
| "handle_failover_event hc (LeaderLost previous) =
     [SuspendWrites (''Patroni leader '' @ quoted previous @ '' lost with no successor''),
      NotifyOperator AggUnhealthy (''Patroni cluster has no leader (previous: '' @ quoted previous
        @ ''); writes suspended'')]"
| "handle_failover_event hc (ReplicationLagExceeded member lag max_lag) =
     [NotifyOperator AggDegraded (''replica '' @ quoted member @ '' lag '' @ show_nat (unat lag)
        @ ''B exceeds max '' @ show_nat (unat max_lag) @ ''B; it is not a viable failover target'')]"
| "handle_failover_event hc (MemberLeft member) =
     [NotifyOperator AggDegraded (''Patroni member '' @ quoted member @ '' left the cluster'')]"
| "handle_failover_event hc (MemberJoined _ _) = []"
| "handle_failover_event hc (MemberStateChanged _ _ _) = []"

definition cluster_health :: "ha_coordinator \<Rightarrow> aggregate_health_status" where
  "cluster_health hc =
     (case hc_last_state hc of
        None \<Rightarrow> AggUnhealthy
      | Some s \<Rightarrow>
         (case cluster_leader s of
            None \<Rightarrow> AggUnhealthy
          | Some leader \<Rightarrow>
             (if \<not> is_operational leader then AggUnhealthy
              else if ps_pause s \<or> list_ex (\<lambda>m. \<not> is_operational m \<or> \<not> role_is_leader (pm_role m) \<and>
                     (case pm_lag m of None \<Rightarrow> False | Some lag \<Rightarrow> lag > hc_max_replication_lag_bytes hc))
                   (ps_members s)
              then AggDegraded else AggHealthy)))"

section \<open>The abstract view\<close>

record cluster_view =
  cv_leader :: "string option"
  cv_members :: "string set"

fun apply_event :: "ha_cluster_event \<Rightarrow> cluster_view \<Rightarrow> cluster_view" where
  "apply_event (LeaderElected l) v = v\<lparr>cv_leader := Some l\<rparr>"
| "apply_event (LeaderChanged _ l) v = v\<lparr>cv_leader := Some l\<rparr>"
| "apply_event (LeaderLost _) v = v\<lparr>cv_leader := None\<rparr>"
| "apply_event (MemberJoined m _) v = v\<lparr>cv_members := insert m (cv_members v)\<rparr>"
| "apply_event (MemberLeft m) v = v\<lparr>cv_members := cv_members v - {m}\<rparr>"
| "apply_event _ v = v"

definition view_of :: "patroni_cluster_state option \<Rightarrow> cluster_view" where
  "view_of s = \<lparr>cv_leader = leader_name s,
     cv_members = (case s of None \<Rightarrow> {} | Some st \<Rightarrow> pm_name ` set (ps_members st))\<rparr>"

text \<open>Writes run after an action list: the last suspension or resumption decides.\<close>

fun apply_action :: "ha_action \<Rightarrow> bool \<Rightarrow> bool" where
  "apply_action (SuspendWrites _) w = False"
| "apply_action ResumeWrites w = True"
| "apply_action _ w = w"

text \<open>Observing a sequence of snapshots: all events, and all actions in response.\<close>

fun observe_all ::
  "patroni_cluster_state list \<Rightarrow> ha_coordinator \<Rightarrow> ha_coordinator \<times> ha_cluster_event list \<times> ha_action list" where
  "observe_all [] hc = (hc, [], [])"
| "observe_all (s # ss) hc =
     (let (hc1, evs) = observe_cluster_state s hc;
          (hc2, evs', acts') = observe_all ss hc1
      in (hc2, evs @ evs', concat (map (handle_failover_event hc1) evs) @ acts'))"

section \<open>Lemmas\<close>

lemma apply_leader_events:
  "fold apply_event (leader_events p c) v = (if p = c then v else v\<lparr>cv_leader := c\<rparr>)"
  by (auto simp: leader_events_def split: option.splits)

lemma find_name_None: "find (\<lambda>p. pm_name p = n) ms = None \<longleftrightarrow> n \<notin> pm_name ` set ms"
  by (auto simp: find_None_iff)

lemma apply_member_event:
  "fold apply_event (member_event prev m) v =
     (if pm_name m \<in> pm_name ` set prev then v else v\<lparr>cv_members := insert (pm_name m) (cv_members v)\<rparr>)"
proof (cases "find (\<lambda>p. pm_name p = pm_name m) prev")
  case None
  then show ?thesis using find_name_None [of "pm_name m" prev] by (simp add: member_event_def)
next
  case (Some before)
  then have "pm_name m \<in> pm_name ` set prev" using find_name_None [of "pm_name m" prev] by simp
  with Some show ?thesis by (simp add: member_event_def)
qed

lemma apply_member_events:
  "fold apply_event (concat (map (member_event prev) ms)) v =
     v\<lparr>cv_members := cv_members v \<union> (pm_name ` set ms - pm_name ` set prev)\<rparr>"
proof (induction ms arbitrary: v)
  case (Cons m ms)
  show ?case
    by (cases "pm_name m \<in> pm_name ` set prev") (simp_all add: Cons apply_member_event insert_Diff_if)
qed simp

lemma apply_left_events:
  "fold apply_event (left_events prev cur) v =
     v\<lparr>cv_members := cv_members v - (pm_name ` set prev - pm_name ` set cur)\<rparr>"
proof (induction prev arbitrary: v)
  case (Cons p prev)
  have "list_ex (\<lambda>m. pm_name m = pm_name p) cur \<longleftrightarrow> pm_name p \<in> pm_name ` set cur"
    unfolding list_ex_iff image_iff by metis
  with Cons [unfolded left_events_def] show ?case
    by (cases "pm_name p \<in> pm_name ` set cur")
      (simp_all add: left_events_def insert_Diff_if Diff_insert [symmetric] Diff_insert2 [symmetric])
qed (simp add: left_events_def)

lemma apply_lag_events: "fold apply_event (concat (map (lag_event n) ms)) v = v"
  by (induction ms arbitrary: v) (auto simp: lag_event_def split: option.splits)

lemma observe_last_state: "hc_last_state (fst (observe_cluster_state s hc)) = Some s"
  by (simp add: observe_cluster_state_def Let_def)

lemma observe_view:
  "fold apply_event (snd (observe_cluster_state s hc)) (view_of (hc_last_state hc)) = view_of (Some s)"
proof -
  let ?prev = "case hc_last_state hc of None \<Rightarrow> [] | Some st \<Rightarrow> ps_members st"
  have v: "view_of (hc_last_state hc) = \<lparr>cv_leader = leader_name (hc_last_state hc), cv_members = pm_name ` set ?prev\<rparr>"
    by (simp add: view_of_def split: option.split)
  show ?thesis
    unfolding v
    by (auto simp: observe_cluster_state_def Let_def apply_leader_events apply_member_events apply_left_events
        apply_lag_events view_of_def)
qed

lemma observe_all_view:
  "case observe_all ss hc of (hc', evs, acts) \<Rightarrow>
     fold apply_event evs (view_of (hc_last_state hc)) = view_of (hc_last_state hc') \<and>
     hc_last_state hc' = (if ss = [] then hc_last_state hc else Some (last ss))"
proof (induction ss arbitrary: hc)
  case (Cons s ss)
  obtain hc1 evs where o: "observe_cluster_state s hc = (hc1, evs)" by fastforce
  obtain hc2 evs' acts' where r: "observe_all ss hc1 = (hc2, evs', acts')" by (metis prod_cases3)
  have "fold apply_event evs (view_of (hc_last_state hc)) = view_of (hc_last_state hc1)"
    and "hc_last_state hc1 = Some s"
    using observe_view [of s hc] observe_last_state [of s hc] by (simp_all add: o)
  with Cons [of hc1] show ?case by (simp add: o r)
qed simp

text \<open>What the actions in response to one snapshot do to writes.\<close>

lemma apply_actions_quiet:
  "(\<And>e. e \<in> set evs \<Longrightarrow> \<not> is_failover_event e) \<Longrightarrow>
   fold apply_action (concat (map (handle_failover_event hc) evs)) w = w"
proof (induction evs arbitrary: w)
  case (Cons e evs)
  have "fold apply_action (handle_failover_event hc e) w = w"
    using Cons.prems [of e] by (cases e) simp_all
  with Cons show ?case by simp
qed simp

lemma observe_events_split:
  "\<exists>rest. snd (observe_cluster_state s hc) =
     leader_events (leader_name (hc_last_state hc)) (leader_name (Some s)) @ rest \<and>
     (\<forall>e \<in> set rest. \<not> is_failover_event e)"
proof -
  let ?prev = "case hc_last_state hc of None \<Rightarrow> [] | Some st \<Rightarrow> ps_members st"
  have "\<not> is_failover_event e" if "e \<in> set (member_event ?prev m)" for e m
    using that by (auto simp: member_event_def split: option.splits if_splits)
  moreover have "\<not> is_failover_event e" if "e \<in> set (left_events ?prev cur)" for e cur
    using that by (auto simp: left_events_def)
  moreover have "\<not> is_failover_event e" if "e \<in> set (lag_event n m)" for e n m
    using that by (auto simp: lag_event_def split: option.splits if_splits)
  ultimately have "\<forall>e \<in> set (concat (map (member_event ?prev) (ps_members s)) @ left_events ?prev (ps_members s)
      @ concat (map (lag_event (hc_max_replication_lag_bytes hc)) (ps_members s))). \<not> is_failover_event e"
    by auto
  then show ?thesis
    unfolding observe_cluster_state_def Let_def snd_conv by blast
qed

lemma apply_leader_actions:
  "fold apply_action (concat (map (handle_failover_event hc) (leader_events p c))) w =
     (if p = c then w else c \<noteq> None)"
  by (auto simp: leader_events_def new_leader_actions_def leader_endpoint_def split: option.splits)

lemma observe_writes:
  assumes "observe_cluster_state s hc = (hc1, evs)"
  shows "fold apply_action (concat (map (handle_failover_event hc1) evs)) w =
    (if leader_name (hc_last_state hc) = leader_name (Some s) then w else leader_name (Some s) \<noteq> None)"
proof -
  obtain rest where rest: "evs = leader_events (leader_name (hc_last_state hc)) (leader_name (Some s)) @ rest"
      "\<forall>e \<in> set rest. \<not> is_failover_event e"
    using observe_events_split [of s hc] assms by auto
  then show ?thesis
    by (simp add: apply_leader_actions apply_actions_quiet)
qed

lemma observe_all_writes:
  "(leader_name (hc_last_state hc) \<noteq> None \<Longrightarrow> w) \<Longrightarrow>
   case observe_all ss hc of (hc', evs, acts) \<Rightarrow>
     fold apply_action acts w =
       (if leader_name (hc_last_state hc') \<noteq> None then True
        else if leader_name (hc_last_state hc) \<noteq> None \<or> (\<exists>s \<in> set ss. leader_name (Some s) \<noteq> None) then False
        else w)"
proof (induction ss arbitrary: hc w)
  case (Cons s ss)
  obtain hc1 evs where o: "observe_cluster_state s hc = (hc1, evs)" by fastforce
  obtain hc2 evs' acts' where r: "observe_all ss hc1 = (hc2, evs', acts')" by (metis prod_cases3)
  let ?w1 = "fold apply_action (concat (map (handle_failover_event hc1) evs)) w"
  have last1: "hc_last_state hc1 = Some s" using observe_last_state [of s hc] by (simp add: o)
  note w1 = observe_writes [OF o, of w]
  have "leader_name (hc_last_state hc1) \<noteq> None \<Longrightarrow> ?w1"
    using Cons.prems by (simp add: w1 last1)
  then have "case observe_all ss hc1 of (hc', evs, acts) \<Rightarrow> fold apply_action acts ?w1 =
      (if leader_name (hc_last_state hc') \<noteq> None then True
       else if leader_name (hc_last_state hc1) \<noteq> None \<or> (\<exists>s \<in> set ss. leader_name (Some s) \<noteq> None) then False
       else ?w1)"
    by (rule Cons.IH)
  then have
    "fold apply_action acts' ?w1 =
      (if leader_name (hc_last_state hc2) \<noteq> None then True
       else if leader_name (Some s) \<noteq> None \<or> (\<exists>s \<in> set ss. leader_name (Some s) \<noteq> None) then False
       else ?w1)"
    by (simp add: r last1)
  then have "fold apply_action acts' ?w1 =
      (if leader_name (hc_last_state hc2) \<noteq> None then True
       else if leader_name (hc_last_state hc) \<noteq> None \<or> (\<exists>s \<in> set (s # ss). leader_name (Some s) \<noteq> None) then False
       else w)"
    unfolding w1 using Cons.prems by (cases "leader_name (Some s)") auto
  then show ?case by (simp add: o r)
qed auto

text \<open>
  The events of a coordinator are a faithful log of the cluster. Replaying, on an empty
  view, every event emitted for a sequence of snapshots gives the leader and the members of
  the last snapshot. A snapshot equal to the one before (with distinct member names) emits
  nothing but its replication lag breaches.
\<close>

theorem ha_events_faithful:
  "(\<forall>ss. ss \<noteq> [] \<longrightarrow> (case observe_all ss ha_new of (hc, evs, acts) \<Rightarrow>
      fold apply_event evs \<lparr>cv_leader = None, cv_members = {}\<rparr> = view_of (Some (last ss)))) \<and>
   (distinct (map pm_name (ps_members s)) \<longrightarrow>
      snd (observe_cluster_state s (fst (observe_cluster_state s hc))) =
      concat (map (lag_event (hc_max_replication_lag_bytes hc)) (ps_members s)))"
proof (intro conjI allI impI)
  fix ss :: "patroni_cluster_state list" assume "ss \<noteq> []"
  then show "case observe_all ss ha_new of (hc, evs, acts) \<Rightarrow>
      fold apply_event evs \<lparr>cv_leader = None, cv_members = {}\<rparr> = view_of (Some (last ss))"
    using observe_all_view [where ss = ss and hc = ha_new]
    by (auto simp: ha_new_def view_of_def [of None] leader_name_def [of None] split: prod.splits)
next
  assume dist: "distinct (map pm_name (ps_members s))"
  have same: "member_event (ps_members s) m = []" if "m \<in> set (ps_members s)" for m
  proof (cases "find (\<lambda>p. pm_name p = pm_name m) (ps_members s)")
    case None
    with that find_name_None show ?thesis by fastforce
  next
    case (Some p)
    then have "p \<in> set (ps_members s)" "pm_name p = pm_name m" by (auto simp: find_Some_iff)
    with dist that have "p = m" by (simp add: distinct_map inj_on_def)
    with Some show ?thesis by (simp add: member_event_def)
  qed
  have "left_events (ps_members s) (ps_members s) = []"
    by (auto simp: left_events_def filter_empty_conv list_ex_iff)
  with same show "snd (observe_cluster_state s (fst (observe_cluster_state s hc))) =
      concat (map (lag_event (hc_max_replication_lag_bytes hc)) (ps_members s))"
    by (simp add: observe_cluster_state_def Let_def leader_events_def split: option.split)
qed

definition pg_member :: "string \<Rightarrow> patroni_member_role \<Rightarrow> u64 option \<Rightarrow> patroni_cluster_member" where
  "pg_member n r lag = \<lparr>pm_name = n, pm_role = r, pm_state = ''running'', pm_host = Some ''10.0.0.1'',
     pm_port = Some 5432, pm_api_url = None, pm_timeline = Some 1, pm_lag = lag\<rparr>"

definition pg_cluster :: "patroni_cluster_member list \<Rightarrow> patroni_cluster_state" where
  "pg_cluster ms = \<lparr>ps_scope = None, ps_members = ms, ps_pause = False\<rparr>"

definition pg_lagging :: patroni_cluster_state where
  "pg_lagging = pg_cluster [pg_member ''a'' PmLeader None, pg_member ''b'' PmReplica (Some 2000000)]"

theorem ha_events_faithful_witness:
  "snd (observe_cluster_state pg_lagging (fst (observe_cluster_state pg_lagging ha_new))) =
     [ReplicationLagExceeded ''b'' 2000000 1048576]"
proof -
  have "distinct (map pm_name (ps_members pg_lagging))"
    by (simp add: pg_lagging_def pg_cluster_def pg_member_def)
  moreover have "concat (map (lag_event (hc_max_replication_lag_bytes ha_new)) (ps_members pg_lagging)) =
      [ReplicationLagExceeded ''b'' 2000000 1048576]"
    by (simp add: pg_lagging_def pg_cluster_def pg_member_def lag_event_def role_is_leader_def ha_new_def
        default_max_replication_lag_bytes_def)
  ultimately show ?thesis using ha_events_faithful [of pg_lagging ha_new] by simp
qed

text \<open>
  Writes follow the leader. After the actions for any sequence of snapshots, writes run
  if the last snapshot has a leader, are suspended if it has none and an earlier one had, and
  are as they were if no snapshot ever had a leader.
\<close>

theorem ha_writes_follow_leader:
  "case observe_all ss ha_new of (hc, evs, acts) \<Rightarrow>
     fold apply_action acts w =
       (if leader_name (hc_last_state hc) \<noteq> None then True
        else if \<exists>s \<in> set ss. leader_name (Some s) \<noteq> None then False
        else w)"
proof -
  have "leader_name (hc_last_state ha_new) = None" by (simp add: ha_new_def leader_name_def)
  with observe_all_writes [of ha_new w ss] show ?thesis by (simp split: prod.splits)
qed

end
