(* ===== verification/Civil_Calendar.thy ===== *)
theory Civil_Calendar
  imports Fleet_Prelude
begin

text \<open>
  Dates and times of day, as the scheduler uses them from \<open>chrono\<close>.

  An instant is a count of nanoseconds since the epoch, so its UTC day, hour and minute are
  divisions. How days are named by year, month and day is the library's: the record
  \<open>calendar\<close> is a parameter of the definitions that use it, and the locale
  \<open>civil_calendar\<close> states what they rely on: days and valid dates correspond one to one, the
  order of days is the order of dates, every month has a first day, and the representable
  years are those between two bounds. The proleptic Gregorian calendar, which the library
  documents as its own, is defined below and satisfies the interface.
\<close>

section \<open>Instants\<close>

abbreviation minute_ns :: int where
  "minute_ns \<equiv> 60000000000"

abbreviation hour_ns :: int where
  "hour_ns \<equiv> 3600000000000"

abbreviation day_ns :: int where
  "day_ns \<equiv> 86400000000000"

definition day_of :: "datetime \<Rightarrow> int" where
  "day_of t = t div day_ns"

definition hour_of :: "datetime \<Rightarrow> nat" where
  "hour_of t = nat (t div hour_ns mod 24)"

definition minute_of :: "datetime \<Rightarrow> nat" where
  "minute_of t = nat (t div minute_ns mod 60)"

definition at_time :: "int \<Rightarrow> nat \<Rightarrow> nat \<Rightarrow> datetime" where
  "at_time D h m = D * day_ns + int h * hour_ns + int m * minute_ns"

lemma at_time_day: "h < 24 \<Longrightarrow> m < 60 \<Longrightarrow> day_of (at_time D h m) = D"
  unfolding day_of_def at_time_def
  by (rule int_div_pos_eq [where r = "int h * hour_ns + int m * minute_ns"]) simp_all

lemma at_time_hour:
  assumes "h < 24" "m < 60"
  shows "hour_of (at_time D h m) = h"
proof -
  have "at_time D h m div hour_ns = D * 24 + int h"
    unfolding at_time_def using assms
    by (intro int_div_pos_eq [where r = "int m * minute_ns"]) simp_all
  then show ?thesis using assms by (simp add: hour_of_def)
qed

lemma at_time_minute:
  assumes "m < 60"
  shows "minute_of (at_time D h m) = m"
proof -
  have eq: "at_time D h m div minute_ns = (D * 24 + int h) * 60 + int m"
    unfolding at_time_def by (intro int_div_pos_eq [where r = 0]) simp_all
  show ?thesis unfolding minute_of_def eq mod_mult_self3 using assms by simp
qed

lemma hour_of_less [simp]: "hour_of t < 24"
  unfolding hour_of_def by (simp add: nat_less_iff)

lemma minute_of_less [simp]: "minute_of t < 60"
  unfolding minute_of_def by (simp add: nat_less_iff)

text \<open>A full minute is determined by its day, hour and minute.\<close>

lemma full_minute:
  assumes "minute_ns dvd t"
  shows "t = at_time (day_of t) (hour_of t) (minute_of t)"
proof -
  obtain k where k: "t = minute_ns * k" using assms by (rule dvdE)
  have d: "day_of t = k div 1440" unfolding day_of_def k by (simp add: zdiv_zmult2_eq)
  have h: "hour_of t = nat (k div 60 mod 24)" unfolding hour_of_def k by (simp add: zdiv_zmult2_eq)
  have m: "minute_of t = nat (k mod 60)" unfolding minute_of_def k by simp
  have "k = k div 60 * 60 + k mod 60" by simp
  also have "k div 60 = k div 60 div 24 * 24 + k div 60 mod 24" by simp
  also have "k div 60 div 24 = k div 1440" by (simp add: zdiv_zmult2_eq [symmetric])
  finally have "k = (k div 1440 * 24 + k div 60 mod 24) * 60 + k mod 60" .
  then show ?thesis unfolding at_time_def d h m by (simp add: k)
qed

lemma at_time_full [simp]: "minute_ns dvd at_time D h m"
  unfolding at_time_def by (auto intro!: dvd_add dvd_mult2)

lemma at_time_less_iff:
  assumes "h < 24" "m < 60" "h' < 24" "m' < 60"
  shows "at_time D h m < at_time D' h' m' \<longleftrightarrow> D < D' \<or> D = D' \<and> (h < h' \<or> h = h' \<and> m < m')"
proof -
  have eq: "at_time D h m = ((D * 24 + int h) * 60 + int m) * minute_ns" for D h m
    by (simp add: at_time_def algebra_simps)
  have "at_time D h m < at_time D' h' m' \<longleftrightarrow>
      (D * 24 + int h) * 60 + int m < (D' * 24 + int h') * 60 + int m'"
    unfolding eq by (rule mult_less_cancel_right_pos) simp
  also have "\<dots> \<longleftrightarrow> D < D' \<or> D = D' \<and> (h < h' \<or> h = h' \<and> m < m')"
  proof (cases D D' rule: linorder_cases)
    case less
    then have "D * 1440 + 1440 \<le> D' * 1440" by simp
    moreover have "int h \<le> 23" "int m \<le> 59" "0 \<le> int h'" "0 \<le> int m'" using assms by auto
    ultimately have "(D * 24 + int h) * 60 + int m < (D' * 24 + int h') * 60 + int m'"
      by (simp add: algebra_simps)
    with less show ?thesis by simp
  next
    case equal
    then show ?thesis using assms by (cases h h' rule: linorder_cases) auto
  next
    case greater
    then have "D' * 1440 + 1440 \<le> D * 1440" by simp
    moreover have "int h' \<le> 23" "int m' \<le> 59" "0 \<le> int h" "0 \<le> int m" using assms by auto
    ultimately have "\<not> (D * 24 + int h) * 60 + int m < (D' * 24 + int h') * 60 + int m'"
      by (simp add: algebra_simps)
    with greater show ?thesis by simp
  qed
  finally show ?thesis .
qed

text \<open>Instants before a full hour.\<close>

lemma before_hour_iff:
  assumes "h < 24"
  shows "t < at_time D h 0 \<longleftrightarrow> day_of t < D \<or> day_of t = D \<and> hour_of t < h"
proof -
  define k where "k = t div hour_ns"
  have d: "day_of t = k div 24" by (simp add: day_of_def k_def zdiv_zmult2_eq [symmetric])
  have h: "int (hour_of t) = k mod 24" by (simp add: hour_of_def k_def)
  have "t < at_time D h 0 \<longleftrightarrow> t < (D * 24 + int h) * hour_ns" by (simp add: at_time_def algebra_simps)
  also have "\<dots> \<longleftrightarrow> k < D * 24 + int h" unfolding k_def by (simp add: algebra_simps) linarith
  also have "\<dots> \<longleftrightarrow> k div 24 < D \<or> k div 24 = D \<and> k mod 24 < int h"
    using assms div_mult_mod_eq [of k 24] pos_mod_bound [of 24 k] pos_mod_sign [of 24 k]
    by (cases "k div 24" D rule: linorder_cases) linarith+
  finally show ?thesis unfolding d h [symmetric] by simp
qed

lemma hour_mono:
  assumes "t \<le> u"
  shows "day_of t < day_of u \<or> day_of t = day_of u \<and> hour_of t \<le> hour_of u"
proof -
  have "\<not> t < at_time (day_of t) (hour_of t) 0" by (simp add: before_hour_iff)
  then have "\<not> u < at_time (day_of t) (hour_of t) 0" using assms by linarith
  then show ?thesis by (auto simp: before_hour_iff)
qed

section \<open>The calendar interface\<close>

type_synonym ymd = "int \<times> nat \<times> nat"

record calendar =
  cal_ymd :: "int \<Rightarrow> ymd"
  cal_day :: "int \<Rightarrow> nat \<Rightarrow> nat \<Rightarrow> int option"
  cal_weekday :: "int \<Rightarrow> nat"

definition date_less :: "ymd \<Rightarrow> ymd \<Rightarrow> bool" where
  "date_less a b \<longleftrightarrow> fst a < fst b \<or> fst a = fst b \<and>
     (fst (snd a) < fst (snd b) \<or> fst (snd a) = fst (snd b) \<and> snd (snd a) < snd (snd b))"

lemma date_less_simp:
  "date_less (y, m, d) (y', m', d') \<longleftrightarrow> y < y' \<or> y = y' \<and> (m < m' \<or> m = m' \<and> d < d')"
  by (simp add: date_less_def)

lemma date_less_asym: "date_less a b \<Longrightarrow> \<not> date_less b a"
  by (auto simp: date_less_def)

definition year_of :: "calendar \<Rightarrow> datetime \<Rightarrow> int" where
  "year_of cal t = fst (cal_ymd cal (day_of t))"

definition month_of :: "calendar \<Rightarrow> datetime \<Rightarrow> nat" where
  "month_of cal t = fst (snd (cal_ymd cal (day_of t)))"

definition day_of_month_of :: "calendar \<Rightarrow> datetime \<Rightarrow> nat" where
  "day_of_month_of cal t = snd (snd (cal_ymd cal (day_of t)))"

locale civil_calendar =
  fixes cal :: calendar and min_year max_year :: int
  assumes day_iff: "cal_day cal y m d = Some D \<longleftrightarrow> cal_ymd cal D = (y, m, d) \<and> min_year \<le> y \<and> y \<le> max_year"
    and month_range: "cal_ymd cal D = (y, m, d) \<Longrightarrow> 1 \<le> m \<and> m \<le> 12 \<and> 1 \<le> d"
    and month_start: "1 \<le> m \<Longrightarrow> m \<le> 12 \<Longrightarrow> \<exists>D. cal_ymd cal D = (y, m, 1)"
    and day_order: "D < D' \<Longrightarrow> date_less (cal_ymd cal D) (cal_ymd cal D')"
    and weekday_range: "cal_weekday cal D < 7"
    and weekday_next: "cal_weekday cal (D + 1) = (cal_weekday cal D + 1) mod 7"
begin

lemma date_order: "date_less (cal_ymd cal D) (cal_ymd cal D') \<longleftrightarrow> D < D'"
  using day_order date_less_asym by (metis linorder_cases date_less_def less_irrefl)

lemma ymd_inject: "cal_ymd cal D = cal_ymd cal D' \<longleftrightarrow> D = D'"
  by (metis date_order date_less_def less_irrefl linorder_neqE)

lemma month_first:
  assumes "1 \<le> m" "m \<le> 12" "min_year \<le> y" "y \<le> max_year"
  obtains D where "cal_day cal y m 1 = Some D" "cal_ymd cal D = (y, m, 1)"
  using assms month_start [OF assms(1, 2)] day_iff by metis

lemma first_le: "cal_ymd cal D = (y, m, 1) \<Longrightarrow> cal_ymd cal D' = (y, m, d) \<Longrightarrow> D \<le> D'"
proof -
  assume D: "cal_ymd cal D = (y, m, 1)" "cal_ymd cal D' = (y, m, d)"
  have "\<not> D' < D"
  proof
    assume "D' < D"
    then have "date_less (y, m, d) (y, m, 1)" using day_order D by metis
    then show False using month_range [OF D(2)] by (simp add: date_less_simp)
  qed
  then show ?thesis by simp
qed

lemma year_mono: "D \<le> D' \<Longrightarrow> fst (cal_ymd cal D) \<le> fst (cal_ymd cal D')"
  using day_order by (metis date_less_def le_less order.order_iff_strict)

end

section \<open>The proleptic Gregorian calendar\<close>

definition leap_year :: "int \<Rightarrow> bool" where
  "leap_year y \<longleftrightarrow> 4 dvd y \<and> (\<not> 100 dvd y \<or> 400 dvd y)"

text \<open>The day number, counted from the first of January 1970, on which a year starts.\<close>

definition year_start :: "int \<Rightarrow> int" where
  "year_start y = (let n = y - 1 in 365 * n + n div 4 - n div 100 + n div 400 - 719162)"

definition month_starts :: "int list" where
  "month_starts = [0, 31, 59, 90, 120, 151, 181, 212, 243, 273, 304, 334]"

definition month_offset :: "bool \<Rightarrow> nat \<Rightarrow> int" where
  "month_offset leap m = month_starts ! (m - 1) + (if leap \<and> 2 < m then 1 else 0)"

definition greg_number :: "int \<Rightarrow> nat \<Rightarrow> nat \<Rightarrow> int" where
  "greg_number y m d = year_start y + month_offset (leap_year y) m + int d - 1"

definition greg_year :: "int \<Rightarrow> int" where
  "greg_year D =
     (let y = (D + 719162) * 400 div 146097 + 1 in
      if D < year_start y then y - 1 else if year_start (y + 1) \<le> D then y + 1 else y)"

definition greg_month :: "bool \<Rightarrow> int \<Rightarrow> nat" where
  "greg_month leap doy = length (filter (\<lambda>m. month_offset leap m \<le> doy) [1..<13])"

definition greg_ymd :: "int \<Rightarrow> ymd" where
  "greg_ymd D =
     (let y = greg_year D; doy = D - year_start y; m = greg_month (leap_year y) doy
      in (y, m, nat (doy - month_offset (leap_year y) m) + 1))"

definition greg_day :: "int \<Rightarrow> nat \<Rightarrow> nat \<Rightarrow> int option" where
  "greg_day y m d =
     (if 1 \<le> m \<and> m \<le> 12 \<and> - 262143 \<le> y \<and> y \<le> 262142 \<and> greg_ymd (greg_number y m d) = (y, m, d)
      then Some (greg_number y m d) else None)"

definition gregorian :: calendar where
  "gregorian = \<lparr>cal_ymd = greg_ymd, cal_day = greg_day, cal_weekday = (\<lambda>D. nat ((D + 4) mod 7))\<rparr>"

lemma div_step:
  assumes "0 < (k :: int)"
  shows "(n + 1) div k = n div k + (if k dvd n + 1 then 1 else 0)"
proof -
  have n: "n = k * (n div k) + n mod k" by simp
  have r: "0 \<le> n mod k" "n mod k < k" using assms by simp_all
  show ?thesis
  proof (cases "n mod k + 1 = k")
    case True
    then have "n + 1 = k * (n div k) + k" using n by linarith
    then have "n + 1 = k * (n div k + 1)" by (simp only: distrib_left mult_1_right)
    then show ?thesis using assms by simp
  next
    case False
    then have r': "0 \<le> n mod k + 1" "n mod k + 1 < k" using r by simp_all
    have eq: "n + 1 = k * (n div k) + (n mod k + 1)" by simp
    have "(n + 1) div k = n div k" by (rule int_div_pos_eq [OF eq r'])
    moreover have "(n + 1) mod k = n mod k + 1" by (rule int_mod_pos_eq [OF eq r'])
    then have "\<not> k dvd n + 1" using r by (simp add: dvd_eq_mod_eq_0)
    ultimately show ?thesis by simp
  qed
qed

lemma nested_indicator:
  "(c \<Longrightarrow> b) \<Longrightarrow> (b \<Longrightarrow> a) \<Longrightarrow>
   (if a \<and> (\<not> b \<or> c) then 1 else 0) =
     (if a then 1 else 0) - (if b then 1 else 0) + (if c then 1 else (0 :: int))"
  by (cases a; cases b; cases c) simp_all

lemma leap_year_cases:
  "(if leap_year y then 1 else 0) =
     (if 4 dvd y then 1 else 0) - (if 100 dvd y then 1 else 0) + (if 400 dvd y then 1 else (0 :: int))"
  unfolding leap_year_def
proof (rule nested_indicator)
  have "(100 :: int) dvd 400" "(4 :: int) dvd 100" by simp_all
  note trans = this [THEN dvd_trans]
  show "400 dvd y \<Longrightarrow> 100 dvd y" by (rule trans(1))
  show "100 dvd y \<Longrightarrow> 4 dvd y" by (rule trans(2))
qed

lemma year_start_next: "year_start (y + 1) = year_start y + (if leap_year y then 366 else 365)"
proof -
  have step: "y div k = (y - 1) div k + (if k dvd y then 1 else 0)" if "0 < k" for k
    using div_step [OF that, of "y - 1"] unfolding diff_add_cancel .
  have "year_start (y + 1) = year_start y + 365 + (if leap_year y then 1 else 0)"
    unfolding leap_year_cases year_start_def Let_def add_diff_cancel_right'
    unfolding step [of 4, simplified] step [of 100, simplified] step [of 400, simplified]
    by (simp only: right_diff_distrib)
  then show ?thesis by simp
qed

lemma year_start_step: "year_start y + 365 \<le> year_start (y + 1)"
  by (simp add: year_start_next)

lemma year_start_mono: "y < y' \<Longrightarrow> year_start (y + 1) \<le> year_start y'"
proof -
  assume "y < y'"
  then have "y + 1 \<le> y'" by simp
  then show ?thesis
  proof (induction rule: int_ge_induct)
    case (step i)
    then show ?case using year_start_step [of i] by simp
  qed simp
qed

lemma year_start_bounds:
  "146097 * (y - 1) - 699 \<le> 400 * (year_start y + 719162)"
  "400 * (year_start y + 719162) \<le> 146097 * (y - 1) + 396"
proof -
  define n where "n = y - 1"
  have eq: "400 * (365 * n + a - b + c) = 146097 * n - 100 * r + 4 * s - u"
    if "n = a * 4 + r" "n = b * 100 + s" "n = c * 400 + u" for a b c r s u
    using that by (simp add: algebra_simps)
  have "400 * (365 * n + n div 4 - n div 100 + n div 400) =
      146097 * n - 100 * (n mod 4) + 4 * (n mod 100) - n mod 400"
    by (rule eq) simp_all
  moreover have "year_start y + 719162 = 365 * n + n div 4 - n div 100 + n div 400"
    by (simp add: year_start_def n_def Let_def)
  moreover have "0 \<le> n mod 4" "n mod 4 < 4" "0 \<le> n mod 100" "n mod 100 < 100" "0 \<le> n mod 400" "n mod 400 < 400"
    by simp_all
  moreover have "146097 * n - 699 \<le> 146097 * n - 100 * r + 4 * s - u" "146097 * n - 100 * r + 4 * s - u \<le> 146097 * n + 396"
    if "0 \<le> r" "r < 4" "0 \<le> s" "s < 100" "0 \<le> u" "u < 400" for r s u :: int
    using that by linarith+
  ultimately have "146097 * n - 699 \<le> 400 * (year_start y + 719162) \<and>
      400 * (year_start y + 719162) \<le> 146097 * n + 396"
    by presburger
  then show "146097 * (y - 1) - 699 \<le> 400 * (year_start y + 719162)"
    "400 * (year_start y + 719162) \<le> 146097 * (y - 1) + 396"
    by (simp_all add: n_def)
qed

lemma greg_year_bounds: "year_start (greg_year D) \<le> D \<and> D < year_start (greg_year D + 1)"
proof -
  define q where "q = (D + 719162) * 400 div 146097"
  have "(D + 719162) * 400 = q * 146097 + (D + 719162) * 400 mod 146097" by (simp add: q_def)
  moreover have "0 \<le> (D + 719162) * 400 mod 146097" "(D + 719162) * 400 mod 146097 < 146097" by simp_all
  ultimately have q: "146097 * q \<le> 400 * (D + 719162)" "400 * (D + 719162) < 146097 * (q + 1)"
    by (simp_all add: algebra_simps)
  have "400 * (year_start q + 719162) \<le> 146097 * (q - 1) + 396" by (rule year_start_bounds(2))
  with q(1) have lo: "year_start q \<le> D" unfolding distrib_left right_diff_distrib by linarith
  have "146097 * (q + 2) - 699 \<le> 400 * (year_start (q + 3) + 719162)"
    using year_start_bounds(1) [of "q + 3"] by simp
  with q(2) have hi: "D < year_start (q + 3)" unfolding distrib_left right_diff_distrib by linarith
  have "greg_year D = (if D < year_start (q + 1) then q else if year_start (q + 2) \<le> D then q + 2 else q + 1)"
    unfolding greg_year_def q_def [symmetric] Let_def by (simp add: add.assoc)
  with lo hi show ?thesis by (simp add: add.assoc)
qed

lemma greg_year_unique: "year_start y \<le> D \<Longrightarrow> D < year_start (y + 1) \<Longrightarrow> greg_year D = y"
  using greg_year_bounds [of D] year_start_mono [of y "greg_year D"] year_start_mono [of "greg_year D" y]
  by (cases y "greg_year D" rule: linorder_cases) auto

lemma length_filter_le_filter:
  "(\<And>x. x \<in> set xs \<Longrightarrow> P x \<Longrightarrow> Q x) \<Longrightarrow> length (filter P xs) \<le> length (filter Q xs)"
  by (induction xs) (auto intro: le_SucI)

lemma greg_month_mono: "doy \<le> doy' \<Longrightarrow> greg_month l doy \<le> greg_month l doy'"
  unfolding greg_month_def by (rule length_filter_le_filter) simp

lemma upt_months: "[1..<13] = [1, 2, 3, 4, 5, 6, 7, 8, 9, 10, 11, 12]"
  by (simp add: upt_rec)

lemma greg_month_range: "0 \<le> doy \<Longrightarrow> 1 \<le> greg_month l doy \<and> greg_month l doy \<le> 12"
proof -
  assume "0 \<le> doy"
  then have "length (filter (\<lambda>m. month_offset l m \<le> doy) [1]) \<ge> 1"
    by (simp add: month_offset_def month_starts_def)
  moreover have "length (filter P [1]) \<le> length (filter P [1..<13])" for P :: "nat \<Rightarrow> bool"
    unfolding upt_months by simp
  moreover have "length (filter P [1..<13]) \<le> 12" for P :: "nat \<Rightarrow> bool"
    using length_filter_le [of P "[1..<13]"] by simp
  ultimately show ?thesis unfolding greg_month_def by (meson order_trans)
qed

lemma month_offset_step:
  assumes "1 \<le> m" "m < 12"
  shows "month_offset l m < month_offset l (Suc m)"
proof -
  have "m \<in> set [1..<13]" "m \<noteq> 12" using assms by auto
  then show ?thesis unfolding upt_months month_offset_def month_starts_def by (cases l) auto
qed

lemma month_offset_strict: "1 \<le> m \<Longrightarrow> m < m' \<Longrightarrow> m' \<le> 12 \<Longrightarrow> month_offset l m < month_offset l m'"
proof (induction m')
  case (Suc k)
  then show ?case using month_offset_step [of k l] by (cases "m = k") force+
qed simp

lemma greg_month_offset:
  assumes "0 \<le> doy"
  shows "month_offset l (greg_month l doy) \<le> doy"
proof (rule ccontr)
  let ?m = "greg_month l doy"
  assume above: "\<not> month_offset l ?m \<le> doy"
  have range: "1 \<le> ?m" "?m \<le> 12" using greg_month_range [OF assms] by auto
  have "set (filter (\<lambda>m. month_offset l m \<le> doy) [1..<13]) \<subseteq> {1..<?m}"
  proof
    fix m assume "m \<in> set (filter (\<lambda>m. month_offset l m \<le> doy) [1..<13])"
    then have m: "1 \<le> m" "m \<le> 12" "month_offset l m \<le> doy" by auto
    have "\<not> ?m < m" using month_offset_strict [of ?m m l] range m above by auto
    moreover have "m \<noteq> ?m" using m(3) above by metis
    ultimately show "m \<in> {1..<?m}" using m(1) by simp
  qed
  then have "card (set (filter (\<lambda>m. month_offset l m \<le> doy) [1..<13])) \<le> card {1..<?m}"
    by (rule card_mono [rotated]) simp
  moreover have "card (set (filter (\<lambda>m. month_offset l m \<le> doy) [1..<13])) = ?m"
    unfolding greg_month_def by (rule distinct_card) simp
  ultimately show False using range by simp
qed

lemma greg_month_at_offset:
  assumes "1 \<le> m" "m \<le> 12"
  shows "greg_month l (month_offset l m) = m"
proof -
  have le: "month_offset l k \<le> month_offset l m \<longleftrightarrow> k \<le> m" if "1 \<le> k" "k \<le> 12" for k
    using month_offset_strict [of k m l] month_offset_strict [of m k l] assms that
    by (cases k m rule: linorder_cases) auto
  have f: "filter (\<lambda>k. month_offset l k \<le> month_offset l m) [1..<13] = filter (\<lambda>k. k \<le> m) [1..<13]"
    by (rule filter_cong) (auto simp: le)
  have s: "set (filter (\<lambda>k. k \<le> m) [1..<13]) = {1..m}" using assms by auto
  have "length (filter (\<lambda>k. k \<le> m) [1..<13]) = card (set (filter (\<lambda>k. k \<le> m) [1..<13]))"
    by (rule distinct_card [symmetric]) simp
  then show ?thesis unfolding greg_month_def f s by simp
qed

lemma greg_ymd_number:
  assumes "greg_ymd D = (y, m, d)"
  shows "1 \<le> m" "m \<le> 12" "1 \<le> d" "greg_number y m d = D" "greg_year D = y"
proof -
  have y: "greg_year D = y" and m: "greg_month (leap_year y) (D - year_start y) = m"
    and d: "d = nat (D - year_start y - month_offset (leap_year y) m) + 1"
    using assms by (auto simp: greg_ymd_def Let_def)
  have doy: "0 \<le> D - year_start y" using greg_year_bounds [of D] y by simp
  have off: "month_offset (leap_year y) m \<le> D - year_start y" using greg_month_offset [OF doy] m by metis
  show "1 \<le> m" "m \<le> 12" using greg_month_range [OF doy] m by metis+
  show "1 \<le> d" by (simp add: d)
  show "greg_number y m d = D" using off by (simp add: greg_number_def d)
  show "greg_year D = y" by (rule y)
qed

lemma month_offset_bounds:
  assumes "1 \<le> m" "m \<le> 12"
  shows "0 \<le> month_offset l m \<and> month_offset l m < 365"
proof -
  have "m \<in> set [1..<13]" using assms by auto
  then show ?thesis unfolding upt_months month_offset_def month_starts_def by auto
qed

lemma greg_month_first:
  assumes "1 \<le> m" "m \<le> 12"
  shows "greg_ymd (greg_number y m 1) = (y, m, 1)"
proof -
  let ?D = "greg_number y m 1"
  have D: "?D = year_start y + month_offset (leap_year y) m" by (simp add: greg_number_def)
  have "greg_year ?D = y"
    using month_offset_bounds [OF assms, of "leap_year y"] year_start_step [of y]
    unfolding D by (intro greg_year_unique) simp_all
  then show ?thesis using greg_month_at_offset [OF assms] unfolding greg_ymd_def Let_def by (simp add: greg_number_def)
qed

lemma greg_order:
  assumes "D < D'"
  shows "date_less (greg_ymd D) (greg_ymd D')"
proof -
  obtain y m d where ymd: "greg_ymd D = (y, m, d)" by (metis prod_cases3)
  obtain y' m' d' where ymd': "greg_ymd D' = (y', m', d')" by (metis prod_cases3)
  note g = greg_ymd_number [OF ymd] and g' = greg_ymd_number [OF ymd']
  have "\<not> y' < y"
    using year_start_mono [of y' y] greg_year_bounds [of D] greg_year_bounds [of D'] g(5) g'(5) assms by auto
  moreover have "m \<le> m'" if "y = y'"
    using greg_month_mono [of "D - year_start y" "D' - year_start y" "leap_year y"] assms that ymd ymd'
    by (auto simp: greg_ymd_def Let_def)
  moreover have "d < d'" if "y = y'" "m = m'"
    using g(4) g'(4) that assms by (auto simp: greg_number_def)
  ultimately show ?thesis by (force simp: ymd ymd' date_less_simp)
qed

interpretation greg: civil_calendar gregorian "- 262143" 262142
proof
  show "cal_day gregorian y m d = Some D \<longleftrightarrow> cal_ymd gregorian D = (y, m, d) \<and> - 262143 \<le> y \<and> y \<le> 262142"
    for y m d D
    using greg_ymd_number [of D y m d] by (auto simp: gregorian_def greg_day_def)
  show "1 \<le> m \<and> m \<le> 12 \<and> 1 \<le> d" if "cal_ymd gregorian D = (y, m, d)" for D y m d
    using greg_ymd_number(1, 2, 3) [of D y m d] that by (simp add: gregorian_def)
  show "\<exists>D. cal_ymd gregorian D = (y, m, 1)" if "1 \<le> m" "m \<le> 12" for y m
    using greg_month_first [OF that] by (auto simp: gregorian_def)
  show "date_less (cal_ymd gregorian D) (cal_ymd gregorian D')" if "D < D'" for D D'
    using greg_order [OF that] by (simp add: gregorian_def)
  show "cal_weekday gregorian D < 7" for D
    by (simp add: gregorian_def nat_less_iff)
  show "cal_weekday gregorian (D + 1) = (cal_weekday gregorian D + 1) mod 7" for D
  proof -
    have "nat ((D + 5) mod 7) = nat (((D + 4) mod 7 + 1) mod 7)" by (simp add: mod_simps add.assoc)
    also have "\<dots> = (nat ((D + 4) mod 7) + 1) mod 7"
      by (simp add: nat_mod_distrib nat_add_distrib)
    finally show ?thesis by (simp add: gregorian_def add.assoc)
  qed
qed

end
