(* ===== verification/Cron_Schedule.thy ===== *)
theory Cron_Schedule
  imports Civil_Calendar Fleet_Text
begin

text \<open>
  Cron expressions and the time of the next run:
  \<^verbatim>\<open>crates/ff-cron/src/schedule.rs\<close>.

  A field of an expression is the sorted list of its values (a \<open>BTreeSet<u32>\<close>). White space
  is ASCII white space. The search for the next run is a loop that the source leaves with
  \<open>return\<close> or with \<open>?\<close>; it is a partial function, and that it ends is a theorem.
\<close>

section \<open>Fields\<close>

datatype schedule_error =
  InvalidFieldCount string
| InvalidField string string
| InvalidValue string string
| EmptyField

record cron_field =
  cf_values :: "nat list"
  cf_min :: nat

definition cron_field_new :: "nat list \<Rightarrow> nat \<Rightarrow> (cron_field, schedule_error) result" where
  "cron_field_new values mn = (if values = [] then Inl EmptyField else Inr \<lparr>cf_values = values, cf_min = mn\<rparr>)"

definition field_contains :: "cron_field \<Rightarrow> nat \<Rightarrow> bool" where
  "field_contains f v \<longleftrightarrow> v \<in> set (cf_values f)"

definition field_first :: "cron_field \<Rightarrow> nat" where
  "field_first f = (case cf_values f of [] \<Rightarrow> cf_min f | v # _ \<Rightarrow> v)"

definition next_or_first :: "cron_field \<Rightarrow> nat \<Rightarrow> nat \<times> bool" where
  "next_or_first f current =
     (case find (\<lambda>v. current \<le> v) (cf_values f) of Some v \<Rightarrow> (v, False) | None \<Rightarrow> (field_first f, True))"

record cron_schedule =
  cs_expression :: string
  cs_minute :: cron_field
  cs_hour :: cron_field
  cs_day_of_month :: cron_field
  cs_month :: cron_field
  cs_day_of_week :: cron_field
  cs_dom_any :: bool
  cs_dow_any :: bool

section \<open>Parsing\<close>

definition month_aliases :: "(string, nat) hmap" where
  "month_aliases = [(''jan'', 1), (''feb'', 2), (''mar'', 3), (''apr'', 4), (''may'', 5), (''jun'', 6),
     (''jul'', 7), (''aug'', 8), (''sep'', 9), (''oct'', 10), (''nov'', 11), (''dec'', 12)]"

definition weekday_aliases :: "(string, nat) hmap" where
  "weekday_aliases = [(''sun'', 0), (''mon'', 1), (''tue'', 2), (''wed'', 3), (''thu'', 4), (''fri'', 5), (''sat'', 6)]"

text \<open>What every call of the field parser is told of the field.\<close>

record field_spec =
  fs_name :: string
  fs_min :: nat
  fs_max :: nat
  fs_aliases :: "(string, nat) hmap"
  fs_weekday :: bool

definition parse_value :: "field_spec \<Rightarrow> string \<Rightarrow> (nat, schedule_error) result" where
  "parse_value fs token =
     (let lowered = to_ascii_lowercase token;
          value = (case hm_get (fs_aliases fs) lowered of Some a \<Rightarrow> Some a | None \<Rightarrow> parse_u32 lowered);
          valid_upper = (if fs_weekday fs then 7 else fs_max fs)
      in case value of
           None \<Rightarrow> Inl (InvalidValue (fs_name fs) token)
         | Some v \<Rightarrow>
             (if fs_min fs \<le> v \<and> v \<le> valid_upper then Inr v
              else Inl (InvalidField (fs_name fs) (''value '' @ show_nat v @ '' outside '' @ show_nat (fs_min fs)
                     @ ''..='' @ show_nat valid_upper))))"

definition parse_step :: "field_spec \<Rightarrow> string \<Rightarrow> (string \<times> nat, schedule_error) result" where
  "parse_step fs token =
     (case split_once (CHR ''/'') token of
        None \<Rightarrow> Inr (token, 1)
      | Some (lhs, rhs) \<Rightarrow>
         (case parse_u32 (trim_ws rhs) of
            None \<Rightarrow> Inl (InvalidValue (fs_name fs) (trim_ws rhs))
          | Some step \<Rightarrow>
             (if step = 0 then Inl (InvalidField (fs_name fs) ''step must be >= 1'')
              else Inr (trim_ws lhs, step))))"

definition parse_range :: "field_spec \<Rightarrow> string \<Rightarrow> string \<Rightarrow> (nat \<times> nat, schedule_error) result" where
  "parse_range fs token base =
     (if base = ''*'' then Inr (fs_min fs, fs_max fs)
      else (case split_once (CHR ''-'') base of
              Some (lhs, rhs) \<Rightarrow>
                (case parse_value fs (trim_ws lhs) of
                   Inl e \<Rightarrow> Inl e
                 | Inr s \<Rightarrow>
                    (case parse_value fs (trim_ws rhs) of
                       Inl e \<Rightarrow> Inl e
                     | Inr t \<Rightarrow>
                        (if s > t then Inl (InvalidField (fs_name fs)
                               (''range start '' @ show_nat s @ '' > end '' @ show_nat t))
                         else Inr (s, t))))
            | None \<Rightarrow>
                (case parse_value fs base of
                   Inl e \<Rightarrow> Inl e
                 | Inr s \<Rightarrow> Inr (s, if CHR ''/'' \<in> set token then fs_max fs else s))))"

function insert_range :: "bool \<Rightarrow> nat \<Rightarrow> nat \<Rightarrow> nat \<Rightarrow> nat list \<Rightarrow> nat list" where
  "insert_range weekday step end' value values =
     (if value \<le> end'
      then let values1 = insort_insert (if weekday \<and> value = 7 then 0 else value) values in
           if value + step < 2 ^ 32 \<and> value + step > value
           then insert_range weekday step end' (value + step) values1
           else values1
      else values)"
  by pat_completeness auto
termination by (relation "measure (\<lambda>(w, step, e, v, vs). Suc e - v)") auto

declare insert_range.simps [simp del]

fun parse_tokens :: "field_spec \<Rightarrow> string list \<Rightarrow> nat list \<Rightarrow> (nat list, schedule_error) result" where
  "parse_tokens fs [] values = Inr values"
| "parse_tokens fs (t # ts) values =
     (let token = trim_ws t in
      if token = [] then Inl (InvalidField (fs_name fs) ''empty token in list'')
      else (case parse_step fs token of
              Inl e \<Rightarrow> Inl e
            | Inr (base, step) \<Rightarrow>
               (case parse_range fs token base of
                  Inl e \<Rightarrow> Inl e
                | Inr (s, e) \<Rightarrow> parse_tokens fs ts (insert_range (fs_weekday fs) step e s values))))"

definition parse_field :: "field_spec \<Rightarrow> string \<Rightarrow> (cron_field \<times> bool, schedule_error) result" where
  "parse_field fs raw =
     (if trim_ws raw = [] then Inl (InvalidField (fs_name fs) ''field cannot be empty'')
      else (case parse_tokens fs (split_char (CHR '','') raw) [] of
              Inl e \<Rightarrow> Inl e
            | Inr values \<Rightarrow>
               (case cron_field_new values (fs_min fs) of
                  Inl e \<Rightarrow> Inl e
                | Inr f \<Rightarrow> Inr (f, trim_ws raw = ''*''))))"

definition minute_spec :: field_spec where
  "minute_spec = \<lparr>fs_name = ''minute'', fs_min = 0, fs_max = 59, fs_aliases = [], fs_weekday = False\<rparr>"

definition hour_spec :: field_spec where
  "hour_spec = \<lparr>fs_name = ''hour'', fs_min = 0, fs_max = 23, fs_aliases = [], fs_weekday = False\<rparr>"

definition dom_spec :: field_spec where
  "dom_spec = \<lparr>fs_name = ''day_of_month'', fs_min = 1, fs_max = 31, fs_aliases = [], fs_weekday = False\<rparr>"

definition month_spec :: field_spec where
  "month_spec = \<lparr>fs_name = ''month'', fs_min = 1, fs_max = 12, fs_aliases = month_aliases, fs_weekday = False\<rparr>"

definition dow_spec :: field_spec where
  "dow_spec = \<lparr>fs_name = ''day_of_week'', fs_min = 0, fs_max = 6, fs_aliases = weekday_aliases, fs_weekday = True\<rparr>"

definition cron_parse :: "string \<Rightarrow> (cron_schedule, schedule_error) result" where
  "cron_parse expr =
     (case split_whitespace (trim_ws expr) of
        [p0, p1, p2, p3, p4] \<Rightarrow>
          (case parse_field minute_spec p0 of Inl e \<Rightarrow> Inl e | Inr (minute, _) \<Rightarrow>
          (case parse_field hour_spec p1 of Inl e \<Rightarrow> Inl e | Inr (hour, _) \<Rightarrow>
          (case parse_field dom_spec p2 of Inl e \<Rightarrow> Inl e | Inr (days, dom_any) \<Rightarrow>
          (case parse_field month_spec p3 of Inl e \<Rightarrow> Inl e | Inr (month, _) \<Rightarrow>
          (case parse_field dow_spec p4 of Inl e \<Rightarrow> Inl e | Inr (dow, dow_any) \<Rightarrow>
             Inr \<lparr>cs_expression = trim_ws expr, cs_minute = minute, cs_hour = hour, cs_day_of_month = days,
                  cs_month = month, cs_day_of_week = dow, cs_dom_any = dom_any, cs_dow_any = dow_any\<rparr>)))))
      | _ \<Rightarrow> Inl (InvalidFieldCount expr))"

section \<open>The next run\<close>

definition make_utc :: "calendar \<Rightarrow> int \<Rightarrow> nat \<Rightarrow> nat \<Rightarrow> nat \<Rightarrow> nat \<Rightarrow> datetime option" where
  "make_utc cal y m d h mi =
     (case cal_day cal y m d of
        None \<Rightarrow> None
      | Some D \<Rightarrow> if h < 24 \<and> mi < 60 then Some (at_time D h mi) else None)"

definition set_time :: "calendar \<Rightarrow> datetime \<Rightarrow> nat \<Rightarrow> nat \<Rightarrow> datetime option" where
  "set_time cal t h mi = make_utc cal (year_of cal t) (month_of cal t) (day_of_month_of cal t) h mi"

definition day_start :: "calendar \<Rightarrow> datetime \<Rightarrow> datetime option" where
  "day_start cal t = make_utc cal (year_of cal t) (month_of cal t) (day_of_month_of cal t) 0 0"

definition round_up_to_next_minute :: "datetime \<Rightarrow> datetime" where
  "round_up_to_next_minute t = t div minute_ns * minute_ns + minute_ns"

definition day_matches :: "calendar \<Rightarrow> cron_schedule \<Rightarrow> datetime \<Rightarrow> bool" where
  "day_matches cal s t =
     (let dom_match = field_contains (cs_day_of_month s) (day_of_month_of cal t);
          dow_match = field_contains (cs_day_of_week s) (cal_weekday cal (day_of t))
      in case (cs_dom_any s, cs_dow_any s) of
           (True, True) \<Rightarrow> True
         | (True, False) \<Rightarrow> dow_match
         | (False, True) \<Rightarrow> dom_match
         | (False, False) \<Rightarrow> dom_match \<or> dow_match)"

text \<open>One pass through the body of the loop: the next candidate, or the value returned.\<close>

datatype loop_exit = Continue datetime | Return "datetime option"

definition try_time :: "datetime option \<Rightarrow> (datetime \<Rightarrow> loop_exit) \<Rightarrow> loop_exit" where
  "try_time x k = (case x of None \<Rightarrow> Return None | Some t \<Rightarrow> k t)"

definition next_step :: "calendar \<Rightarrow> cron_schedule \<Rightarrow> datetime \<Rightarrow> loop_exit" where
  "next_step cal s c =
     (if \<not> field_contains (cs_month s) (month_of cal c)
      then (let (next_month, rolled) = next_or_first (cs_month s) (month_of cal c);
                year = (if rolled then year_of cal c + 1 else year_of cal c)
            in try_time (make_utc cal year next_month 1 0 0) Continue)
      else if \<not> day_matches cal s c
      then try_time (day_start cal c) (\<lambda>t. Continue (t + day_ns))
      else if \<not> field_contains (cs_hour s) (hour_of c)
      then (let (next_hour, rolled) = next_or_first (cs_hour s) (hour_of c) in
            if rolled
            then try_time (day_start cal c) (\<lambda>t. try_time (set_time cal (t + day_ns) next_hour 0) Continue)
            else try_time (set_time cal c next_hour 0) Continue)
      else if \<not> field_contains (cs_minute s) (minute_of c)
      then (let (next_minute, rolled) = next_or_first (cs_minute s) (minute_of c) in
            if rolled
            then try_time (set_time cal c (hour_of c) 0) (\<lambda>t.
                   try_time (set_time cal (t + hour_ns) (hour_of (t + hour_ns)) next_minute) Continue)
            else try_time (set_time cal c (hour_of c) next_minute) Continue)
      else if \<not> day_matches cal s c
      then try_time (day_start cal c) (\<lambda>t. Continue (t + day_ns))
      else Return (Some c))"

partial_function (option) next_loop ::
  "calendar \<Rightarrow> cron_schedule \<Rightarrow> int \<Rightarrow> datetime \<Rightarrow> datetime option option" where
  "next_loop cal s max_year c =
     (if year_of cal c \<le> max_year
      then (case next_step cal s c of
              Continue c' \<Rightarrow> next_loop cal s max_year c'
            | Return r \<Rightarrow> Some r)
      else Some None)"

declare next_loop.simps [code]

definition next_after :: "calendar \<Rightarrow> cron_schedule \<Rightarrow> datetime \<Rightarrow> datetime option option" where
  "next_after cal s from = next_loop cal s (year_of cal from + 10) (round_up_to_next_minute from)"

section \<open>What parsing guarantees\<close>

definition field_ok :: "nat \<Rightarrow> nat \<Rightarrow> cron_field \<Rightarrow> bool" where
  "field_ok lo hi f \<longleftrightarrow> cf_values f \<noteq> [] \<and> sorted_wrt (<) (cf_values f) \<and> (\<forall>v \<in> set (cf_values f). lo \<le> v \<and> v \<le> hi)"

definition schedule_ok :: "cron_schedule \<Rightarrow> bool" where
  "schedule_ok s \<longleftrightarrow> field_ok 0 59 (cs_minute s) \<and> field_ok 0 23 (cs_hour s) \<and>
     field_ok 1 31 (cs_day_of_month s) \<and> field_ok 1 12 (cs_month s) \<and> field_ok 0 6 (cs_day_of_week s)"

definition spec_wf :: "field_spec \<Rightarrow> bool" where
  "spec_wf fs \<longleftrightarrow> fs_min fs \<le> fs_max fs \<and> fs_max fs < 60 \<and> (fs_weekday fs \<longrightarrow> fs_min fs = 0 \<and> fs_max fs = 6)"

text \<open>The values a token stands for: every \<open>step\<close>-th value of its range, with 7 read as Sunday.\<close>

definition sunday :: "bool \<Rightarrow> nat \<Rightarrow> nat" where
  "sunday weekday v = (if weekday \<and> v = 7 then 0 else v)"

definition steps_in :: "nat \<Rightarrow> nat \<Rightarrow> nat \<Rightarrow> nat set" where
  "steps_in step s e = {v. \<exists>k. v = s + k * step \<and> v \<le> e}"

definition token_values :: "field_spec \<Rightarrow> string \<Rightarrow> nat set" where
  "token_values fs t =
     (case parse_step fs (trim_ws t) of
        Inl _ \<Rightarrow> {}
      | Inr (base, step) \<Rightarrow>
         (case parse_range fs (trim_ws t) base of
            Inl _ \<Rightarrow> {}
          | Inr (s, e) \<Rightarrow> sunday (fs_weekday fs) ` steps_in step s e))"

lemma steps_in_empty: "e < s \<Longrightarrow> steps_in step s e = {}"
  by (auto simp: steps_in_def)

lemma steps_in_unfold: "s \<le> e \<Longrightarrow> steps_in step s e = insert s (steps_in step (s + step) e)"
proof (intro equalityI subsetI)
  fix v assume s: "s \<le> e" and v: "v \<in> steps_in step s e"
  then obtain k where k: "v = s + k * step" "v \<le> e" by (auto simp: steps_in_def)
  show "v \<in> insert s (steps_in step (s + step) e)"
  proof (cases k)
    case (Suc j)
    then have "v = (s + step) + j * step" using k(1) by simp
    then show ?thesis using k(2) by (auto simp: steps_in_def)
  qed (simp add: k(1))
next
  fix v assume s: "s \<le> e" and v: "v \<in> insert s (steps_in step (s + step) e)"
  have "\<exists>k. v = s + Suc k * step \<and> v \<le> e" if "v \<in> steps_in step (s + step) e"
    using that unfolding steps_in_def by (force simp: add.assoc)
  with v consider "v = s" | k where "v = s + Suc k * step" "v \<le> e" by blast
  then show "v \<in> steps_in step s e"
  proof cases
    case 1
    then have "v = s + 0 * step" by simp
    with s 1 show ?thesis unfolding steps_in_def by blast
  next
    case 2
    then show ?thesis unfolding steps_in_def by blast
  qed
qed

lemma insert_range_set:
  "1 \<le> step \<Longrightarrow> e < 2 ^ 32 \<Longrightarrow>
   set (insert_range w step e v vs) = set vs \<union> sunday w ` steps_in step v e"
proof (induction w step e v vs rule: insert_range.induct)
  case (1 w step e v vs)
  show ?case
  proof (cases "v \<le> e")
    case True
    note unfold = steps_in_unfold [OF True, of step]
    show ?thesis
    proof (cases "v + step < 2 ^ 32")
      case False
      then have "steps_in step (v + step) e = {}" using "1.prems" by (simp add: steps_in_empty)
      with False True show ?thesis
        by (subst insert_range.simps) (auto simp: unfold sunday_def set_insort_insert Let_def)
    next
      case no_overflow: True
      then show ?thesis
        using 1 True "1.prems" by (subst insert_range.simps) (auto simp: unfold sunday_def set_insort_insert Let_def)
    qed
  next
    case False
    then show ?thesis by (subst insert_range.simps) (simp add: steps_in_empty)
  qed
qed

lemma strict_sorted_insert: "sorted_wrt (<) xs \<Longrightarrow> sorted_wrt (<) (insort_insert (x :: nat) xs)"
  by (auto simp: strict_sorted_iff sorted_insort_insert distinct_insort_insert)

lemma insert_range_sorted: "sorted_wrt (<) vs \<Longrightarrow> sorted_wrt (<) (insert_range w step e v vs)"
proof (induction w step e v vs rule: insert_range.induct)
  case (1 w step e v vs)
  then show ?case by (subst insert_range.simps) (simp add: strict_sorted_insert Let_def)
qed

lemma parse_value_range:
  "parse_value fs t = Inr v \<Longrightarrow> fs_min fs \<le> v \<and> v \<le> (if fs_weekday fs then 7 else fs_max fs)"
  by (auto simp: parse_value_def Let_def split: option.splits if_splits)

lemma parse_step_pos: "parse_step fs t = Inr (b, step) \<Longrightarrow> 1 \<le> step"
  by (auto simp: parse_step_def split: option.splits if_splits prod.splits)

lemma parse_range_bounds:
  assumes "spec_wf fs" "parse_range fs t b = Inr (s, e)"
  shows "fs_min fs \<le> s" "e \<le> (if fs_weekday fs then 7 else fs_max fs)"
  using assms parse_value_range [of fs]
  by (force simp: parse_range_def spec_wf_def split: if_splits option.splits prod.splits sum.splits)+

lemma token_values_bounds:
  assumes "spec_wf fs" "v \<in> token_values fs t"
  shows "fs_min fs \<le> v \<and> v \<le> fs_max fs"
proof -
  obtain base step s e u where
    t: "parse_step fs (trim_ws t) = Inr (base, step)" "parse_range fs (trim_ws t) base = Inr (s, e)"
    and u: "u \<in> steps_in step s e" "v = sunday (fs_weekday fs) u"
    using assms(2) by (auto simp: token_values_def split: sum.splits prod.splits)
  have "s \<le> u" "u \<le> e" using u(1) by (auto simp: steps_in_def)
  with parse_range_bounds [OF assms(1) t(2)] u(2) assms(1) show ?thesis
    by (auto simp: sunday_def spec_wf_def split: if_splits)
qed

lemma parse_tokens_values:
  assumes wf: "spec_wf fs"
  shows "parse_tokens fs ts vs = Inr values \<Longrightarrow> sorted_wrt (<) vs \<Longrightarrow>
    sorted_wrt (<) values \<and> set values = set vs \<union> (\<Union>t \<in> set ts. token_values fs t)"
proof (induction ts arbitrary: vs)
  case (Cons t ts)
  obtain base step where st: "parse_step fs (trim_ws t) = Inr (base, step)"
    using Cons.prems(1) by (auto simp: Let_def split: if_splits sum.splits prod.splits)
  obtain s e where r: "parse_range fs (trim_ws t) base = Inr (s, e)"
    using Cons.prems(1) st by (auto simp: Let_def split: if_splits sum.splits prod.splits)
  let ?vs = "insert_range (fs_weekday fs) step e s vs"
  have rest: "parse_tokens fs ts ?vs = Inr values"
    using Cons.prems(1) st r by (auto simp: Let_def split: if_splits)
  have "e < 2 ^ 32"
    using parse_range_bounds(2) [OF wf r] wf by (auto simp: spec_wf_def split: if_splits)
  then have "set ?vs = set vs \<union> token_values fs t"
    using insert_range_set [OF parse_step_pos [OF st]] by (simp add: token_values_def st r)
  moreover have "sorted_wrt (<) ?vs" using Cons.prems(2) by (rule insert_range_sorted)
  ultimately show ?case using Cons.IH [OF rest] by auto
qed simp

lemma parse_field_ok:
  assumes wf: "spec_wf fs" and ok: "parse_field fs raw = Inr (f, any)"
  shows "field_ok (fs_min fs) (fs_max fs) f"
    and "set (cf_values f) = (\<Union>t \<in> set (split_char (CHR '','') raw). token_values fs t)"
proof -
  obtain vals where v: "parse_tokens fs (split_char (CHR '','') raw) [] = Inr vals"
    and f: "vals \<noteq> []" "cf_values f = vals"
    using ok by (auto simp: parse_field_def cron_field_new_def split: if_splits sum.splits)
  note tokens = parse_tokens_values [OF wf v]
  show "set (cf_values f) = (\<Union>t \<in> set (split_char (CHR '','') raw). token_values fs t)"
    using tokens by (simp add: f)
  then show "field_ok (fs_min fs) (fs_max fs) f"
    using tokens f token_values_bounds [OF wf] by (auto simp: field_ok_def)
qed

lemma specs_wf: "spec_wf minute_spec" "spec_wf hour_spec" "spec_wf dom_spec" "spec_wf month_spec" "spec_wf dow_spec"
  by (simp_all add: spec_wf_def minute_spec_def hour_spec_def dom_spec_def month_spec_def dow_spec_def)

lemma spec_bounds:
  "fs_min minute_spec = 0" "fs_max minute_spec = 59" "fs_min hour_spec = 0" "fs_max hour_spec = 23"
  "fs_min dom_spec = 1" "fs_max dom_spec = 31" "fs_min month_spec = 1" "fs_max month_spec = 12"
  "fs_min dow_spec = 0" "fs_max dow_spec = 6"
  by (simp_all add: minute_spec_def hour_spec_def dom_spec_def month_spec_def dow_spec_def)

text \<open>A parsed expression, field by field.\<close>

lemma cron_parse_fields:
  assumes "cron_parse expr = Inr s"
  obtains p0 p1 p2 p3 p4 a0 a1 a3 where
    "split_whitespace (trim_ws expr) = [p0, p1, p2, p3, p4]"
    "parse_field minute_spec p0 = Inr (cs_minute s, a0)" "parse_field hour_spec p1 = Inr (cs_hour s, a1)"
    "parse_field dom_spec p2 = Inr (cs_day_of_month s, cs_dom_any s)"
    "parse_field month_spec p3 = Inr (cs_month s, a3)"
    "parse_field dow_spec p4 = Inr (cs_day_of_week s, cs_dow_any s)"
  using assms that unfolding cron_parse_def
  by (auto split: list.splits sum.splits prod.splits)

lemma cron_parse_ok:
  assumes "cron_parse expr = Inr s"
  shows "schedule_ok s"
proof -
  from assms obtain p0 p1 p2 p3 p4 a0 a1 a3 where p:
    "parse_field minute_spec p0 = Inr (cs_minute s, a0)" "parse_field hour_spec p1 = Inr (cs_hour s, a1)"
    "parse_field dom_spec p2 = Inr (cs_day_of_month s, cs_dom_any s)"
    "parse_field month_spec p3 = Inr (cs_month s, a3)"
    "parse_field dow_spec p4 = Inr (cs_day_of_week s, cs_dow_any s)"
    by (rule cron_parse_fields)
  show ?thesis
    unfolding schedule_ok_def
    using parse_field_ok(1) [OF specs_wf(1) p(1)] parse_field_ok(1) [OF specs_wf(2) p(2)]
      parse_field_ok(1) [OF specs_wf(3) p(3)] parse_field_ok(1) [OF specs_wf(4) p(4)]
      parse_field_ok(1) [OF specs_wf(5) p(5)]
    by (simp add: spec_bounds)
qed

end
