(* ===== verification/Cron_Next.thy ===== *)
theory Cron_Next
  imports Cron_Schedule
begin

text \<open>
  The next run of a cron schedule is right: the search of \<open>CronSchedule::next_after\<close>
  (\<^verbatim>\<open>crates/ff-cron/src/schedule.rs\<close>) ends and finds the first full minute after a given
  instant that matches the schedule. The proof is done once, over any calendar with the laws
  of \<open>civil_calendar\<close>: each pass through the loop moves the candidate forward over minutes
  that do not match.
\<close>

section \<open>Matching minutes\<close>

definition cron_matches :: "calendar \<Rightarrow> cron_schedule \<Rightarrow> datetime \<Rightarrow> bool" where
  "cron_matches cal s t \<longleftrightarrow> minute_ns dvd t \<and> field_contains (cs_month s) (month_of cal t) \<and>
     day_matches cal s t \<and> field_contains (cs_hour s) (hour_of t) \<and> field_contains (cs_minute s) (minute_of t)"

text \<open>No minute from \<open>c\<close> up to (and without) \<open>c'\<close> matches.\<close>

definition no_match :: "calendar \<Rightarrow> cron_schedule \<Rightarrow> datetime \<Rightarrow> datetime \<Rightarrow> bool" where
  "no_match cal s c c' \<longleftrightarrow> (\<forall>u. c \<le> u \<and> u < c' \<longrightarrow> \<not> cron_matches cal s u)"

lemma no_match_trans: "no_match cal s a b \<Longrightarrow> no_match cal s b c \<Longrightarrow> no_match cal s a c"
  by (meson no_match_def not_le)

lemma no_matchI:
  assumes "minute_ns dvd c"
    and "\<And>D h m. h < 24 \<Longrightarrow> m < 60 \<Longrightarrow> c \<le> at_time D h m \<Longrightarrow> at_time D h m < c' \<Longrightarrow>
           \<not> cron_matches cal s (at_time D h m)"
  shows "no_match cal s c c'"
  unfolding no_match_def
proof (intro allI impI notI)
  fix u assume u: "c \<le> u \<and> u < c'" "cron_matches cal s u"
  then have "u = at_time (day_of u) (hour_of u) (minute_of u)"
    by (intro full_minute) (simp add: cron_matches_def)
  then show False using assms(2) [of "hour_of u" "minute_of u" "day_of u"] u by simp
qed

section \<open>Fields\<close>

lemma next_or_first_Some:
  assumes "field_ok lo hi f" "next_or_first f v = (w, False)"
  shows "w \<in> set (cf_values f)" "v \<le> w" "\<And>u. v \<le> u \<Longrightarrow> u < w \<Longrightarrow> \<not> field_contains f u"
proof -
  have f: "find (\<lambda>x. v \<le> x) (cf_values f) = Some w"
    using assms(2) by (auto simp: next_or_first_def split: option.splits)
  have sorted: "sorted (map (\<lambda>x. x) (cf_values f))"
    using assms(1) by (simp add: field_ok_def strict_sorted_imp_sorted)
  have least: "sorted (map (\<lambda>x. x) xs) \<Longrightarrow> find P xs = Some x \<Longrightarrow> x \<in> set xs \<and> P x \<and> (\<forall>y \<in> set xs. P y \<longrightarrow> x \<le> y)"
    for xs P and x :: nat
    by (induction xs) (auto split: if_splits)
  from least [OF sorted f] show "w \<in> set (cf_values f)" "v \<le> w" "\<And>u. v \<le> u \<Longrightarrow> u < w \<Longrightarrow> \<not> field_contains f u"
    by (auto simp: field_contains_def)
qed

lemma next_or_first_rolled:
  assumes "field_ok lo hi f" "next_or_first f v = (w, True)"
  shows "w \<in> set (cf_values f)" "\<And>u. v \<le> u \<Longrightarrow> \<not> field_contains f u" "\<And>u. u < w \<Longrightarrow> \<not> field_contains f u"
proof -
  have f: "find (\<lambda>x. v \<le> x) (cf_values f) = None" "w = field_first f"
    using assms(2) by (auto simp: next_or_first_def split: option.splits)
  then show "\<And>u. v \<le> u \<Longrightarrow> \<not> field_contains f u" by (auto simp: find_None_iff field_contains_def)
  obtain x xs where x: "cf_values f = x # xs" using assms(1) by (cases "cf_values f") (auto simp: field_ok_def)
  then show "w \<in> set (cf_values f)" using f(2) by (simp add: field_first_def)
  show "\<And>u. u < w \<Longrightarrow> \<not> field_contains f u"
    using assms(1) f(2) x by (auto simp: field_first_def field_contains_def field_ok_def)
qed

lemma field_ok_bounds: "field_ok lo hi f \<Longrightarrow> v \<in> set (cf_values f) \<Longrightarrow> lo \<le> v \<and> v \<le> hi"
  by (auto simp: field_ok_def)

section \<open>One pass through the loop\<close>

context civil_calendar
begin

lemma at_time_fields:
  assumes "h < 24" "m < 60"
  shows "year_of cal (at_time D h m) = fst (cal_ymd cal D)"
    "month_of cal (at_time D h m) = fst (snd (cal_ymd cal D))"
    "day_of_month_of cal (at_time D h m) = snd (snd (cal_ymd cal D))"
  using assms by (simp_all add: year_of_def month_of_def day_of_month_of_def at_time_day)

lemma day_matches_same_day:
  "day_of t = day_of u \<Longrightarrow> day_matches cal s t = day_matches cal s u"
  by (simp add: day_matches_def day_of_month_of_def)

lemma make_utc_day:
  assumes "min_year \<le> fst (cal_ymd cal D)" "fst (cal_ymd cal D) \<le> max_year" "h < 24" "m < 60"
  shows "make_utc cal (fst (cal_ymd cal D)) (fst (snd (cal_ymd cal D))) (snd (snd (cal_ymd cal D))) h m =
    Some (at_time D h m)"
proof -
  have "cal_day cal (fst (cal_ymd cal D)) (fst (snd (cal_ymd cal D))) (snd (snd (cal_ymd cal D))) = Some D"
    using assms(1, 2) by (simp add: day_iff)
  then show ?thesis using assms(3, 4) by (simp add: make_utc_def)
qed

lemma set_time_at:
  assumes "min_year \<le> fst (cal_ymd cal D)" "fst (cal_ymd cal D) \<le> max_year" "h < 24" "m < 60" "h' < 24" "m' < 60"
  shows "set_time cal (at_time D h m) h' m' = Some (at_time D h' m')"
  using make_utc_day [OF assms(1, 2, 5, 6)] by (simp add: set_time_def at_time_fields assms)

lemma day_start_at:
  assumes "min_year \<le> fst (cal_ymd cal D)" "fst (cal_ymd cal D) \<le> max_year" "h < 24" "m < 60"
  shows "day_start cal (at_time D h m) = Some (at_time D 0 0)"
  using make_utc_day [OF assms(1, 2)] by (simp add: day_start_def at_time_fields assms)

lemma next_day_year: "fst (cal_ymd cal (D + 1)) \<le> fst (cal_ymd cal D) + 1"
proof -
  obtain y m d where ymd: "cal_ymd cal D = (y, m, d)" by (metis prod_cases3)
  obtain E where E: "cal_ymd cal E = (y + 1, 1, 1)" using month_start [of 1 "y + 1"] by auto
  have "date_less (cal_ymd cal D) (cal_ymd cal E)" by (simp add: ymd E date_less_simp)
  then have "D + 1 \<le> E" by (simp add: date_order)
  then show ?thesis using year_mono [of "D + 1" E] by (simp add: E ymd)
qed

lemma at_time_next_day: "at_time D 0 0 + day_ns = at_time (D + 1) 0 0"
  by (simp add: at_time_def algebra_simps)

lemma at_time_next_hour:
  "at_time D h 0 + hour_ns = (if h = 23 then at_time (D + 1) 0 0 else at_time D (h + 1) 0)"
  by (simp add: at_time_def algebra_simps)

definition year_in_range :: "datetime \<Rightarrow> bool" where
  "year_in_range t \<longleftrightarrow> min_year \<le> year_of cal t \<and> year_of cal t < max_year"

text \<open>What a pass through the loop has to establish for a candidate it moves to.\<close>

definition moves :: "cron_schedule \<Rightarrow> datetime \<Rightarrow> datetime \<Rightarrow> bool" where
  "moves s c c' \<longleftrightarrow> c < c' \<and> minute_ns dvd c' \<and> no_match cal s c c' \<and> year_of cal c' \<le> year_of cal c + 1"

lemma month_skip:
  assumes ok: "field_ok 1 12 f" and nf: "next_or_first f mo = (nm, rolled)" and out: "\<not> field_contains f mo"
    and D: "cal_ymd cal D = (y, mo, d)" and D': "cal_ymd cal D' = (if rolled then y + 1 else y, nm, 1)"
  shows "D < D'" "D \<le> E \<Longrightarrow> E < D' \<Longrightarrow> \<not> field_contains f (fst (snd (cal_ymd cal E)))"
proof -
  have nm: "nm \<in> set (cf_values f)"
    using nf next_or_first_Some(1) [OF ok, of mo nm] next_or_first_rolled(1) [OF ok, of mo nm] by (cases rolled) auto
  have "mo < nm" if "\<not> rolled"
  proof -
    have "mo \<le> nm" using nf that next_or_first_Some(2) [OF ok, of mo nm] by simp
    moreover have "mo \<noteq> nm" using out nm by (auto simp: field_contains_def)
    ultimately show ?thesis by simp
  qed
  then have "date_less (cal_ymd cal D) (cal_ymd cal D')" by (simp add: D D' date_less_simp)
  then show "D < D'" by (simp add: date_order)
  obtain ye me de where E: "cal_ymd cal E = (ye, me, de)" by (metis prod_cases3)
  assume le: "D \<le> E" and less: "E < D'"
  have from': "\<not> date_less (ye, me, de) (y, mo, d)" using le date_order [of E D] by (simp add: E D)
  have to': "date_less (ye, me, de) (if rolled then y + 1 else y, nm, 1)"
    using less date_order [of E D'] by (simp add: E D')
  have de: "1 \<le> de" using month_range [OF E] by simp
  show "\<not> field_contains f (fst (snd (cal_ymd cal E)))"
  proof (cases rolled)
    case True
    note r = next_or_first_rolled [OF ok, of mo nm]
    from True to' de have "ye < y + 1 \<or> ye = y + 1 \<and> me < nm" by (auto simp: date_less_simp)
    moreover have "mo \<le> me" if "ye < y + 1" using from' that by (auto simp: date_less_simp)
    ultimately show ?thesis using r nf True by (auto simp: E)
  next
    case False
    note r = next_or_first_Some [OF ok, of mo nm]
    from False to' from' de have "me < nm" "mo \<le> me" by (auto simp: date_less_simp)
    then show ?thesis using r(3) nf False by (simp add: E)
  qed
qed

lemma at_time_le_iff:
  assumes "h < 24" "m < 60" "h' < 24" "m' < 60"
  shows "at_time D h m \<le> at_time D' h' m' \<longleftrightarrow> D < D' \<or> D = D' \<and> (h < h' \<or> h = h' \<and> m \<le> m')"
  using at_time_less_iff [OF assms(3, 4, 1, 2), of D' D] by (auto simp: not_less [symmetric])

text \<open>
  In every branch the candidate is \<open>at_time D h m\<close>, of a year whose successor is
  representable.
\<close>

lemma step_month:
  assumes ok: "schedule_ok s" and hm: "h < 24" "m < 60" and yr: "year_in_range (at_time D h m)"
    and out: "\<not> field_contains (cs_month s) (month_of cal (at_time D h m))"
  shows "\<exists>c'. next_step cal s (at_time D h m) = Continue c' \<and> moves s (at_time D h m) c'"
proof -
  obtain y mo d where D: "cal_ymd cal D = (y, mo, d)" by (metis prod_cases3)
  obtain nm rolled where nf: "next_or_first (cs_month s) mo = (nm, rolled)" by fastforce
  have f: "field_ok 1 12 (cs_month s)" using ok by (simp add: schedule_ok_def)
  have out': "\<not> field_contains (cs_month s) mo" using out hm by (simp add: at_time_fields D)
  have "nm \<in> set (cf_values (cs_month s))"
    using nf next_or_first_Some(1) [OF f, of mo nm] next_or_first_rolled(1) [OF f, of mo nm] by (cases rolled) auto
  then have nm: "1 \<le> nm" "nm \<le> 12" using field_ok_bounds [OF f] by auto
  have y: "min_year \<le> y" "y < max_year" using yr hm by (simp_all add: year_in_range_def at_time_fields D)
  obtain D' where D': "cal_day cal (if rolled then y + 1 else y) nm 1 = Some D'"
    "cal_ymd cal D' = (if rolled then y + 1 else y, nm, 1)"
    by (rule month_first [OF nm, of "if rolled then y + 1 else y"]) (use y in auto)
  note skip = month_skip [OF f nf out' D D'(2)]
  have "next_step cal s (at_time D h m) = Continue (at_time D' 0 0)"
    using out hm nf D'(1) by (cases rolled) (simp_all add: next_step_def at_time_fields D try_time_def make_utc_def)
  moreover have "no_match cal s (at_time D h m) (at_time D' 0 0)"
  proof (rule no_matchI)
    fix E h' m' assume e: "h' < 24" "m' < 60" "at_time D h m \<le> at_time E h' m'" "at_time E h' m' < at_time D' 0 0"
    then have "D \<le> E" "E < D'" using hm by (auto simp: at_time_le_iff at_time_less_iff)
    from skip(2) [OF this] show "\<not> cron_matches cal s (at_time E h' m')"
      using e by (simp add: cron_matches_def at_time_fields)
  qed simp
  moreover have "year_of cal (at_time D' 0 0) \<le> year_of cal (at_time D h m) + 1"
    using hm by (simp add: at_time_fields D D'(2))
  ultimately show ?thesis using skip(1) hm by (auto simp: moves_def at_time_less_iff)
qed

lemma skip_day:
  assumes hm: "h < 24" "m < 60" and out: "\<not> day_matches cal s (at_time D h m)"
  shows "moves s (at_time D h m) (at_time (D + 1) 0 0)"
proof -
  have "no_match cal s (at_time D h m) (at_time (D + 1) 0 0)"
  proof (rule no_matchI)
    fix E h' m' assume e: "h' < 24" "m' < 60" "at_time D h m \<le> at_time E h' m'"
      "at_time E h' m' < at_time (D + 1) 0 0"
    then have "E = D" using hm by (auto simp: at_time_le_iff at_time_less_iff)
    then have "day_matches cal s (at_time E h' m') = day_matches cal s (at_time D h m)"
      using e hm by (intro day_matches_same_day) (simp add: at_time_day)
    with out show "\<not> cron_matches cal s (at_time E h' m')" by (simp add: cron_matches_def)
  qed simp
  then show ?thesis
    using hm next_day_year [of D] by (simp add: moves_def at_time_less_iff at_time_fields)
qed

lemma step_day:
  assumes hm: "h < 24" "m < 60" and yr: "year_in_range (at_time D h m)"
    and mon: "field_contains (cs_month s) (month_of cal (at_time D h m))"
    and out: "\<not> day_matches cal s (at_time D h m)"
  shows "\<exists>c'. next_step cal s (at_time D h m) = Continue c' \<and> moves s (at_time D h m) c'"
proof -
  have "day_start cal (at_time D h m) = Some (at_time D 0 0)"
    using yr hm by (intro day_start_at) (simp_all add: year_in_range_def at_time_fields)
  then have "next_step cal s (at_time D h m) = Continue (at_time (D + 1) 0 0)"
    using mon out by (simp add: next_step_def try_time_def at_time_next_day)
  then show ?thesis using skip_day [OF hm out] by blast
qed

text \<open>Advancing to the next matching hour, today or tomorrow.\<close>

lemma step_hour:
  assumes ok: "schedule_ok s" and hm: "h < 24" "m < 60" and yr: "year_in_range (at_time D h m)"
    and mon: "field_contains (cs_month s) (month_of cal (at_time D h m))"
    and day: "day_matches cal s (at_time D h m)"
    and out: "\<not> field_contains (cs_hour s) h"
  shows "\<exists>c'. next_step cal s (at_time D h m) = Continue c' \<and> moves s (at_time D h m) c'"
proof -
  obtain nh rolled where nf: "next_or_first (cs_hour s) h = (nh, rolled)" by fastforce
  have f: "field_ok 0 23 (cs_hour s)" using ok by (simp add: schedule_ok_def)
  have nh_in: "nh \<in> set (cf_values (cs_hour s))"
    using nf next_or_first_Some(1) [OF f, of h nh] next_or_first_rolled(1) [OF f, of h nh] by (cases rolled) auto
  then have nh: "nh < 24" using field_ok_bounds [OF f, of nh] by simp
  have y: "min_year \<le> fst (cal_ymd cal D)" "fst (cal_ymd cal D) \<le> max_year"
    using yr hm by (simp_all add: year_in_range_def at_time_fields)
  have y1: "min_year \<le> fst (cal_ymd cal (D + 1))" "fst (cal_ymd cal (D + 1)) \<le> max_year"
    using year_mono [of D "D + 1"] next_day_year [of D] yr hm by (simp_all add: year_in_range_def at_time_fields)
  have hour: "hour_of (at_time D h m) = h" using hm by (simp add: at_time_hour)
  let ?D = "if rolled then D + 1 else D"
  have step: "next_step cal s (at_time D h m) = Continue (at_time ?D nh 0)"
    using mon day out nf hm nh day_start_at [OF y hm] set_time_at [OF y1, of 0 0 nh 0] set_time_at [OF y hm nh, of 0]
    by (simp add: next_step_def hour try_time_def at_time_next_day)
  have less: "\<not> rolled \<Longrightarrow> h < nh"
  proof -
    assume "\<not> rolled"
    then have "h \<le> nh" using nf next_or_first_Some(2) [OF f, of h nh] by simp
    moreover have "h \<noteq> nh" using out nh_in by (auto simp: field_contains_def)
    ultimately show "h < nh" by simp
  qed
  have "no_match cal s (at_time D h m) (at_time ?D nh 0)"
  proof (rule no_matchI)
    fix E h' m' assume e: "h' < 24" "m' < 60" "at_time D h m \<le> at_time E h' m'" "at_time E h' m' < at_time ?D nh 0"
    have "\<not> field_contains (cs_hour s) h'"
    proof (cases rolled)
      case True
      then have "E = D \<and> h \<le> h' \<or> E = D + 1 \<and> h' < nh"
        using e hm nh by (auto simp: at_time_le_iff at_time_less_iff)
      then show ?thesis using next_or_first_rolled [OF f, of h nh] nf True by auto
    next
      case False
      then have "h \<le> h'" "h' < nh" using e hm nh by (auto simp: at_time_le_iff at_time_less_iff)
      then show ?thesis using next_or_first_Some(3) [OF f, of h nh] nf False by simp
    qed
    then show "\<not> cron_matches cal s (at_time E h' m')" using e by (simp add: cron_matches_def at_time_hour)
  qed simp
  then have "moves s (at_time D h m) (at_time ?D nh 0)"
    using hm nh less next_day_year [of D] by (simp add: moves_def at_time_less_iff at_time_fields)
  with step show ?thesis by blast
qed

lemma step_minute:
  assumes ok: "schedule_ok s" and hm: "h < 24" "m < 60" and yr: "year_in_range (at_time D h m)"
    and mon: "field_contains (cs_month s) (month_of cal (at_time D h m))"
    and day: "day_matches cal s (at_time D h m)"
    and hour: "field_contains (cs_hour s) h" and out: "\<not> field_contains (cs_minute s) m"
  shows "\<exists>c'. next_step cal s (at_time D h m) = Continue c' \<and> moves s (at_time D h m) c'"
proof -
  obtain nm rolled where nf: "next_or_first (cs_minute s) m = (nm, rolled)" by fastforce
  have f: "field_ok 0 59 (cs_minute s)" using ok by (simp add: schedule_ok_def)
  have nm_in: "nm \<in> set (cf_values (cs_minute s))"
    using nf next_or_first_Some(1) [OF f, of m nm] next_or_first_rolled(1) [OF f, of m nm] by (cases rolled) auto
  then have nm: "nm < 60" using field_ok_bounds [OF f, of nm] by simp
  have y: "min_year \<le> fst (cal_ymd cal D)" "fst (cal_ymd cal D) \<le> max_year"
    using yr hm by (simp_all add: year_in_range_def at_time_fields)
  have y1: "min_year \<le> fst (cal_ymd cal (D + 1))" "fst (cal_ymd cal (D + 1)) \<le> max_year"
    using year_mono [of D "D + 1"] next_day_year [of D] yr hm by (simp_all add: year_in_range_def at_time_fields)
  let ?D = "if rolled \<and> h = 23 then D + 1 else D"
  let ?h = "if rolled then (if h = 23 then 0 else h + 1) else h"
  have h: "?h < 24" using hm by simp
  have succ: "at_time D h 0 + hour_ns = at_time ?D ?h 0" if rolled
    using that at_time_next_hour [of D h] by simp
  have yD: "min_year \<le> fst (cal_ymd cal ?D)" "fst (cal_ymd cal ?D) \<le> max_year" using y y1 by simp_all
  have set1: "set_time cal (at_time D h m) h 0 = Some (at_time D h 0)"
    by (rule set_time_at [OF y hm]) (use hm in simp_all)
  have set2: "set_time cal (at_time ?D ?h 0) ?h nm = Some (at_time ?D ?h nm)"
    by (rule set_time_at [OF yD h]) (use h nm in simp_all)
  have set3: "set_time cal (at_time D h m) h nm = Some (at_time D h nm)"
    by (rule set_time_at [OF y hm]) (use hm nm in simp_all)
  have hour_t: "hour_of (at_time D h m) = h" "minute_of (at_time D h m) = m" "hour_of (at_time ?D ?h 0) = ?h"
    using hm h by (simp_all add: at_time_hour at_time_minute)
  have guards: "next_step cal s (at_time D h m) =
      (if rolled then try_time (set_time cal (at_time D h m) h 0) (\<lambda>t.
           try_time (set_time cal (t + hour_ns) (hour_of (t + hour_ns)) nm) Continue)
       else try_time (set_time cal (at_time D h m) h nm) Continue)"
    using mon day hour out nf by (simp add: next_step_def hour_t)
  have step: "next_step cal s (at_time D h m) = Continue (at_time ?D ?h nm)"
  proof (cases rolled)
    case True
    have "next_step cal s (at_time D h m) = try_time (set_time cal (at_time ?D ?h 0) ?h nm) Continue"
      unfolding guards set1 using True succ [OF True] hour_t(3) by (simp only: try_time_def if_True option.case)
    also have "\<dots> = Continue (at_time ?D ?h nm)" unfolding set2 by (simp add: try_time_def)
    finally show ?thesis .
  next
    case False
    then show ?thesis unfolding guards set3 by (simp add: try_time_def)
  qed
  have less: "\<not> rolled \<Longrightarrow> m < nm"
  proof -
    assume "\<not> rolled"
    then have "m \<le> nm" using nf next_or_first_Some(2) [OF f, of m nm] by simp
    moreover have "m \<noteq> nm" using out nm_in by (auto simp: field_contains_def)
    ultimately show "m < nm" by simp
  qed
  have "no_match cal s (at_time D h m) (at_time ?D ?h nm)"
  proof (rule no_matchI)
    fix E h' m' assume e: "h' < 24" "m' < 60" "at_time D h m \<le> at_time E h' m'" "at_time E h' m' < at_time ?D ?h nm"
    have "\<not> field_contains (cs_minute s) m'"
    proof (cases rolled)
      case True
      then have "m \<le> m' \<or> m' < nm"
        using e hm nm h by (auto simp: at_time_le_iff at_time_less_iff split: if_splits)
      then show ?thesis using next_or_first_rolled [OF f, of m nm] nf True by auto
    next
      case False
      then have "m \<le> m'" "m' < nm" using e hm nm by (auto simp: at_time_le_iff at_time_less_iff)
      then show ?thesis using next_or_first_Some(3) [OF f, of m nm] nf False by simp
    qed
    then show "\<not> cron_matches cal s (at_time E h' m')" using e by (simp add: cron_matches_def at_time_minute)
  qed simp
  then have "moves s (at_time D h m) (at_time ?D ?h nm)"
    using hm nm h less next_day_year [of D]
    by (auto simp: moves_def at_time_less_iff at_time_fields)
  with step show ?thesis by blast
qed

lemma step_cases:
  assumes ok: "schedule_ok s" and full: "minute_ns dvd c" and yr: "year_in_range c"
  shows "next_step cal s c = Return (Some c) \<and> cron_matches cal s c \<or>
    (\<exists>c'. next_step cal s c = Continue c' \<and> moves s c c')"
proof -
  define D h m where "D = day_of c" and "h = hour_of c" and "m = minute_of c"
  have c: "c = at_time D h m" unfolding D_def h_def m_def by (rule full_minute [OF full])
  have hm: "h < 24" "m < 60" by (simp_all add: h_def m_def)
  have hour: "hour_of c = h" "minute_of c = m" by (simp_all add: h_def m_def)
  note yr' = yr [unfolded c]
  consider "\<not> field_contains (cs_month s) (month_of cal c)"
    | "field_contains (cs_month s) (month_of cal c)" "\<not> day_matches cal s c"
    | "field_contains (cs_month s) (month_of cal c)" "day_matches cal s c" "\<not> field_contains (cs_hour s) h"
    | "field_contains (cs_month s) (month_of cal c)" "day_matches cal s c" "field_contains (cs_hour s) h"
      "\<not> field_contains (cs_minute s) m"
    | "field_contains (cs_month s) (month_of cal c)" "day_matches cal s c" "field_contains (cs_hour s) h"
      "field_contains (cs_minute s) m"
    by blast
  then show ?thesis
  proof cases
    case 1
    then show ?thesis using step_month [OF ok hm yr'] by (simp add: c)
  next
    case 2
    then show ?thesis using step_day [OF hm yr'] by (simp add: c)
  next
    case 3
    then show ?thesis using step_hour [OF ok hm yr'] by (simp add: c)
  next
    case 4
    then show ?thesis using step_minute [OF ok hm yr'] by (simp add: c)
  next
    case 5
    then have "next_step cal s c = Return (Some c)" "cron_matches cal s c"
      using full by (simp_all add: next_step_def cron_matches_def hour)
    then show ?thesis by blast
  qed
qed

text \<open>The loop ends, with the first match from the candidate on, or none up to the last year.\<close>

definition first_match :: "cron_schedule \<Rightarrow> int \<Rightarrow> datetime \<Rightarrow> datetime option \<Rightarrow> bool" where
  "first_match s last_year c r =
     (case r of
        Some t \<Rightarrow> c \<le> t \<and> cron_matches cal s t \<and> year_of cal t \<le> last_year \<and> no_match cal s c t
      | None \<Rightarrow> (\<forall>u \<ge> c. year_of cal u \<le> last_year \<longrightarrow> \<not> cron_matches cal s u))"

lemma year_of_mono: "t \<le> u \<Longrightarrow> year_of cal t \<le> year_of cal u"
  unfolding year_of_def by (rule year_mono) (simp add: day_of_def zdiv_mono1)

lemma first_match_moves:
  assumes "moves s c c'" "first_match s ly c' r"
  shows "first_match s ly c r"
proof (cases r)
  case None
  with assms show ?thesis
    unfolding first_match_def moves_def no_match_def by (force simp: not_le)
next
  case (Some t)
  with assms show ?thesis
    unfolding first_match_def moves_def by (auto intro: no_match_trans)
qed

lemma next_loop_first:
  assumes ok: "schedule_ok s" and ly: "last_year < max_year"
  shows "minute_ns dvd c \<Longrightarrow> min_year \<le> year_of cal c \<Longrightarrow>
    \<exists>r. next_loop cal s last_year c = Some r \<and> first_match s last_year c r"
proof -
  obtain E where E: "cal_ymd cal E = (last_year + 1, 1, 1)" using month_start [of 1] by auto
  let ?stop = "at_time E 0 0"
  have year_end: "year_of cal ?stop = last_year + 1" by (simp add: at_time_fields E)
  have before_end: "t < ?stop" if "year_of cal t \<le> last_year" for t
    using year_of_mono [of ?stop t] that year_end by linarith
  show "minute_ns dvd c \<Longrightarrow> min_year \<le> year_of cal c \<Longrightarrow>
      \<exists>r. next_loop cal s last_year c = Some r \<and> first_match s last_year c r"
  proof (induction "nat (?stop - c)" arbitrary: c rule: less_induct)
    case less
    show ?case
    proof (cases "year_of cal c \<le> last_year")
      case False
      then have "next_loop cal s last_year c = Some None" by (subst next_loop.simps) simp
      moreover have "first_match s last_year c None"
        unfolding first_match_def using False year_of_mono [of c] by force
      ultimately show ?thesis by blast
    next
      case True
      then have yr: "year_in_range c" using less.prems ly by (simp add: year_in_range_def)
      from step_cases [OF ok less.prems(1) yr] show ?thesis
      proof (elim disjE exE conjE)
        assume "next_step cal s c = Return (Some c)" "cron_matches cal s c"
        then show ?thesis
          using True by (subst next_loop.simps) (auto simp: first_match_def no_match_def)
      next
        fix c' assume step: "next_step cal s c = Continue c'" and mv: "moves s c c'"
        have "c < c'" "minute_ns dvd c'" using mv by (simp_all add: moves_def)
        moreover have "min_year \<le> year_of cal c'" using less.prems(2) year_of_mono [of c c'] \<open>c < c'\<close> by simp
        moreover have "nat (?stop - c') < nat (?stop - c)" using before_end [OF True] \<open>c < c'\<close> by simp
        ultimately obtain r where "next_loop cal s last_year c' = Some r" "first_match s last_year c' r"
          using less.hyps by blast
        then show ?thesis
          using True step first_match_moves [OF mv] by (subst next_loop.simps) simp
      qed
    qed
  qed
qed

end

section \<open>The search for the next run\<close>

lemma round_up_next:
  "t0 < round_up_to_next_minute t0" "minute_ns dvd round_up_to_next_minute t0"
  "minute_ns dvd u \<Longrightarrow> t0 < u \<Longrightarrow> round_up_to_next_minute t0 \<le> u"
proof -
  have eq: "round_up_to_next_minute t0 = (t0 div minute_ns + 1) * minute_ns"
    by (simp add: round_up_to_next_minute_def)
  have t0_eq: "t0 = t0 div minute_ns * minute_ns + t0 mod minute_ns" by simp
  have "t0 mod minute_ns < minute_ns" "0 \<le> t0 mod minute_ns" by simp_all
  then show "t0 < round_up_to_next_minute t0"
    using t0_eq unfolding round_up_to_next_minute_def by linarith
  show "minute_ns dvd round_up_to_next_minute t0" unfolding eq by simp
  assume "minute_ns dvd u" "t0 < u"
  then obtain k where k: "u = minute_ns * k" by (auto elim: dvdE)
  have "t0 div minute_ns * minute_ns < minute_ns * k"
    using \<open>t0 < u\<close> t0_eq \<open>0 \<le> t0 mod minute_ns\<close> unfolding k by linarith
  then have "t0 div minute_ns + 1 \<le> k" by simp
  then show "round_up_to_next_minute t0 \<le> u" unfolding eq k by simp
qed

lemma next_after_search:
  assumes "civil_calendar cal min_year max_year" "cron_parse expr = Inr s"
    and "min_year \<le> year_of cal t0" "year_of cal t0 + 10 < max_year"
  shows "\<exists>r. next_after cal s t0 = Some r \<and>
    (case r of
       Some t \<Rightarrow> t0 < t \<and> cron_matches cal s t \<and> year_of cal t \<le> year_of cal t0 + 10 \<and>
                 (\<forall>u. t0 < u \<and> u < t \<longrightarrow> \<not> cron_matches cal s u)
     | None \<Rightarrow> (\<forall>u. t0 < u \<and> year_of cal u \<le> year_of cal t0 + 10 \<longrightarrow> \<not> cron_matches cal s u))"
proof -
  let ?c = "round_up_to_next_minute t0"
  note rnd = round_up_next [where ?t0.0 = t0]
  have year: "min_year \<le> year_of cal ?c"
    using civil_calendar.year_of_mono [OF assms(1), of t0 ?c] rnd(1) assms(3) by simp
  obtain r where r: "next_after cal s t0 = Some r"
    "civil_calendar.first_match cal s (year_of cal t0 + 10) ?c r"
    using civil_calendar.next_loop_first [OF assms(1) cron_parse_ok [OF assms(2)] assms(4) rnd(2) year]
    unfolding next_after_def by blast
  have first: "?c \<le> u" if "cron_matches cal s u" "t0 < u" for u
    using that rnd(3) by (simp add: cron_matches_def)
  show ?thesis
  proof (cases r)
    case None
    with r first show ?thesis
      unfolding civil_calendar.first_match_def [OF assms(1)] by fastforce
  next
    case (Some t)
    with r(2) have "?c \<le> t" "cron_matches cal s t" "year_of cal t \<le> year_of cal t0 + 10" "no_match cal s ?c t"
      unfolding civil_calendar.first_match_def [OF assms(1)] by simp_all
    then show ?thesis using r(1) Some first rnd(1) unfolding no_match_def by (auto intro: less_le_trans)
  qed
qed

text \<open>
  C17: For an expression that parses, and years well inside the range of the calendar, the
  search for the next run returns. It returns the first full minute strictly after the given
  instant that matches the month, the day rule, the hour and the minute of the expression, or
  nothing exactly when no minute up to the end of the tenth year after it matches.
\<close>

theorem next_after_first:
  assumes "civil_calendar cal min_year max_year" "cron_parse expr = Inr s"
    and "min_year \<le> year_of cal t0" "year_of cal t0 + 10 < max_year"
  shows "\<exists>r. next_after cal s t0 = Some r \<and>
    (case r of
       Some t \<Rightarrow> t0 < t \<and> cron_matches cal s t \<and> year_of cal t \<le> year_of cal t0 + 10 \<and>
                 (\<forall>u. t0 < u \<and> u < t \<longrightarrow> \<not> cron_matches cal s u)
     | None \<Rightarrow> (\<forall>u. t0 < u \<and> year_of cal u \<le> year_of cal t0 + 10 \<longrightarrow> \<not> cron_matches cal s u))"
  using assms by (rule next_after_search)

lemmas parse_eval =
  cron_parse_def parse_field_def minute_spec_def hour_spec_def dom_spec_def month_spec_def dow_spec_def
  trim_ws_def is_ws_def parse_step_def split_once_def parse_range_def parse_value_def to_ascii_lowercase_def
  parse_u32_def parse_nat_def digit_value_def insert_range.simps cron_field_new_def hm_get_def
  month_aliases_def weekday_aliases_def insort_insert_key_def Let_def

definition new_year_schedule :: cron_schedule where
  "new_year_schedule = \<lparr>cs_expression = ''5 9 1 1 1'', cs_minute = \<lparr>cf_values = [5], cf_min = 0\<rparr>,
     cs_hour = \<lparr>cf_values = [9], cf_min = 0\<rparr>, cs_day_of_month = \<lparr>cf_values = [1], cf_min = 1\<rparr>,
     cs_month = \<lparr>cf_values = [1], cf_min = 1\<rparr>, cs_day_of_week = \<lparr>cf_values = [1], cf_min = 0\<rparr>,
     cs_dom_any = False, cs_dow_any = False\<rparr>"

lemma new_year_parse: "cron_parse ''5 9 1 1 1'' = Inr new_year_schedule"
  by (simp add: parse_eval new_year_schedule_def)

theorem next_after_first_witness:
  "\<exists>r. next_after gregorian new_year_schedule 0 = Some r \<and>
    (case r of
       Some t \<Rightarrow> 0 < t \<and> cron_matches gregorian new_year_schedule t \<and>
                 (\<forall>u. 0 < u \<and> u < t \<longrightarrow> \<not> cron_matches gregorian new_year_schedule u)
     | None \<Rightarrow> True)"
proof -
  have "year_of gregorian 0 = 1970"
    by (simp add: year_of_def day_of_def gregorian_def greg_ymd_def greg_year_def year_start_def Let_def)
  then have "- 262143 \<le> year_of gregorian 0" "year_of gregorian 0 + 10 < 262142" by simp_all
  from next_after_first [OF greg.civil_calendar_axioms new_year_parse this] show ?thesis
    by (auto split: option.splits)
qed



end
