(* ===== verification/Cron_Policy.thy ===== *)
theory Cron_Policy
  imports Cron_Schedule
begin

text \<open>
  When a due job may run: quiet hours, priorities and the retry backoff of
  \<^verbatim>\<open>crates/ff-cron/src/policy.rs\<close>.

  The backoff multiplier (an \<open>f64\<close>) is a rational number. A timezone offset is an \<open>i32\<close>
  word, multiplied by 60 with wrap-around as in a release build.
\<close>

section \<open>Priorities and backoff\<close>

datatype job_priority = JobLow | JobNormal | JobHigh | JobCritical

fun job_rank :: "job_priority \<Rightarrow> nat" where
  "job_rank JobLow = 0"
| "job_rank JobNormal = 1"
| "job_rank JobHigh = 2"
| "job_rank JobCritical = 3"

fun job_priority_as_str :: "job_priority \<Rightarrow> string" where
  "job_priority_as_str JobLow = ''low''"
| "job_priority_as_str JobNormal = ''normal''"
| "job_priority_as_str JobHigh = ''high''"
| "job_priority_as_str JobCritical = ''critical''"

definition job_priority_parse :: "string \<Rightarrow> job_priority option" where
  "job_priority_parse v =
     (let s = to_ascii_lowercase (trim_ws v) in
      if s = ''low'' then Some JobLow
      else if s = ''normal'' then Some JobNormal
      else if s = ''high'' then Some JobHigh
      else if s = ''critical'' then Some JobCritical
      else None)"

record backoff_policy =
  bp_initial_delay_secs :: u64
  bp_max_delay_secs :: u64
  bp_multiplier :: rat

definition backoff_default :: backoff_policy where
  "backoff_default = \<lparr>bp_initial_delay_secs = 30, bp_max_delay_secs = 60 * 30, bp_multiplier = 2\<rparr>"

text \<open>
  The delay in seconds. The exponent is \<open>(attempt - 1) as i32\<close>; \<open>f64::round\<close> rounds half away
  from zero, which for the non-negative delays is the floor of the delay plus a half.
\<close>

definition delay_for_attempt :: "backoff_policy \<Rightarrow> u32 \<Rightarrow> nat" where
  "delay_for_attempt bp attempt =
     (if attempt = 0 then 0
      else
        let exponent = sint (attempt - 1);
            base = of_nat (unat (bp_initial_delay_secs bp));
            raw = base * (if 0 \<le> exponent then bp_multiplier bp ^ nat exponent
                          else inverse (bp_multiplier bp) ^ nat (- exponent));
            clamped = min (max raw base) (of_nat (unat (bp_max_delay_secs bp)))
        in nat \<lfloor>clamped + 1 / 2\<rfloor>)"

section \<open>Quiet hours\<close>

record quiet_hours_policy =
  qh_start_hour :: u8
  qh_end_hour :: u8
  qh_timezone_offset_minutes :: "32 word"

definition east_opt :: "quiet_hours_policy \<Rightarrow> int option" where
  "east_opt q =
     (let s = sint (qh_timezone_offset_minutes q * 60) in if - 86400 < s \<and> s < 86400 then Some s else None)"

definition is_quiet :: "quiet_hours_policy \<Rightarrow> datetime \<Rightarrow> bool" where
  "is_quiet q now =
     (case east_opt q of
        None \<Rightarrow> False
      | Some off \<Rightarrow>
         (let hour = hour_of (now + secs off); s = unat (qh_start_hour q); e = unat (qh_end_hour q) in
          if s < e then s \<le> hour \<and> hour < e
          else if s > e then s \<le> hour \<or> hour < e
          else True))"

definition quiet_ends_at :: "calendar \<Rightarrow> quiet_hours_policy \<Rightarrow> datetime \<Rightarrow> datetime option" where
  "quiet_ends_at cal q now =
     (if \<not> is_quiet q now then None
      else (case east_opt q of
              None \<Rightarrow> None
            | Some off \<Rightarrow>
               (let loc = now + secs off;
                    target = (if qh_start_hour q < qh_end_hour q then day_of loc
                              else if unat (qh_start_hour q) \<le> hour_of loc then day_of loc + 1
                              else day_of loc);
                    (y, m, d) = cal_ymd cal target
                in map_option (\<lambda>t. t - secs off) (make_utc cal y m d (unat (qh_end_hour q)) 0))))"

section \<open>The scheduling policy\<close>

record scheduling_policy =
  sp_quiet_hours :: "quiet_hours_policy option"
  sp_min_priority_during_quiet :: job_priority
  sp_backoff :: backoff_policy

definition scheduling_policy_default :: scheduling_policy where
  "scheduling_policy_default = \<lparr>sp_quiet_hours = None, sp_min_priority_during_quiet = JobCritical,
     sp_backoff = backoff_default\<rparr>"

definition held_back :: "scheduling_policy \<Rightarrow> job_priority \<Rightarrow> quiet_hours_policy \<Rightarrow> datetime \<Rightarrow> bool" where
  "held_back p pr q now \<longleftrightarrow> is_quiet q now \<and> job_rank pr < job_rank (sp_min_priority_during_quiet p)"

definition policy_should_run :: "scheduling_policy \<Rightarrow> job_priority \<Rightarrow> datetime \<Rightarrow> bool" where
  "policy_should_run p pr now =
     (case sp_quiet_hours p of None \<Rightarrow> True | Some q \<Rightarrow> \<not> held_back p pr q now)"

definition defer_until :: "calendar \<Rightarrow> scheduling_policy \<Rightarrow> job_priority \<Rightarrow> datetime \<Rightarrow> datetime option" where
  "defer_until cal p pr now =
     (case sp_quiet_hours p of
        None \<Rightarrow> None
      | Some q \<Rightarrow> (if held_back p pr q now then quiet_ends_at cal q now else None))"

definition retry_delay :: "scheduling_policy \<Rightarrow> u32 \<Rightarrow> nat" where
  "retry_delay p attempt = delay_for_attempt (sp_backoff p) attempt"

section \<open>Backoff\<close>

lemma delay_rational:
  assumes "attempt \<noteq> 0" "unat attempt \<le> 2 ^ 31"
  shows "delay_for_attempt bp attempt =
    nat \<lfloor>min (max (of_nat (unat (bp_initial_delay_secs bp)) * bp_multiplier bp ^ (unat attempt - 1))
      (of_nat (unat (bp_initial_delay_secs bp)))) (of_nat (unat (bp_max_delay_secs bp))) + 1 / 2\<rfloor>"
proof -
  have u: "unat (attempt - 1) = unat attempt - 1" using assms(1) by (simp add: unat_minus_one)
  moreover have "0 < unat attempt" using assms(1) by (simp add: unat_gt_0)
  ultimately have "unat (attempt - 1) < 2 ^ 31" using assms(2) by simp
  then have "int (unat (attempt - 1)) < int (2 ^ 31)" by (simp only: of_nat_less_iff)
  then have "uint (attempt - 1) < 2 ^ 31" by simp
  moreover have "- (2 ^ 31) \<le> uint (attempt - 1)" by (rule order_trans [OF _ uint_ge_0]) simp
  ultimately have "sint (attempt - 1) = int (unat (attempt - 1))"
    by (simp add: sint_uint signed_take_bit_int_eq_self)
  then show ?thesis using assms(1) by (simp add: delay_for_attempt_def Let_def u)
qed

lemma round_of_nat: "\<lfloor>of_nat n + 1 / 2 :: rat\<rfloor> = int n"
  by (rule floor_unique) simp_all

lemma delay_bounds:
  "delay_for_attempt bp a \<le> unat (bp_max_delay_secs bp)"
  "a \<noteq> 0 \<Longrightarrow> unat (bp_initial_delay_secs bp) \<le> unat (bp_max_delay_secs bp) \<Longrightarrow>
   unat (bp_initial_delay_secs bp) \<le> delay_for_attempt bp a"
proof -
  define i where "i = unat (bp_initial_delay_secs bp)"
  define M where "M = unat (bp_max_delay_secs bp)"
  obtain raw :: rat where d: "a \<noteq> 0 \<Longrightarrow> delay_for_attempt bp a = nat \<lfloor>min (max raw (of_nat i)) (of_nat M) + 1 / 2\<rfloor>"
    by (metis delay_for_attempt_def i_def M_def)
  have "\<lfloor>min (max raw (of_nat i)) (of_nat M) + 1 / 2\<rfloor> \<le> \<lfloor>of_nat M + 1 / 2 :: rat\<rfloor>" by (intro floor_mono) simp
  then show "delay_for_attempt bp a \<le> unat (bp_max_delay_secs bp)"
    using d unfolding round_of_nat M_def [symmetric] by (cases "a = 0") (auto simp: delay_for_attempt_def)
  assume "a \<noteq> 0" "unat (bp_initial_delay_secs bp) \<le> unat (bp_max_delay_secs bp)"
  then have "i \<le> M" by (simp only: i_def M_def)
  then have "\<lfloor>of_nat i + 1 / 2 :: rat\<rfloor> \<le> \<lfloor>min (max raw (of_nat i)) (of_nat M) + 1 / 2\<rfloor>"
    by (intro floor_mono) simp
  then show "unat (bp_initial_delay_secs bp) \<le> delay_for_attempt bp a"
    using d [OF \<open>a \<noteq> 0\<close>] unfolding round_of_nat i_def [symmetric] by linarith
qed

text \<open>
  With a multiplier of at least one and an initial delay within the maximum, the delay
  before each retry lies between the initial and the maximal delay, the first is the initial
  delay, and delays never shrink from one attempt to a later one.
\<close>

theorem backoff_bounds:
  assumes "unat (bp_initial_delay_secs bp) \<le> unat (bp_max_delay_secs bp)" "1 \<le> bp_multiplier bp"
    and "a \<noteq> 0" "a \<le> b" "unat b \<le> 2 ^ 31"
  shows "delay_for_attempt bp 1 = unat (bp_initial_delay_secs bp) \<and>
    unat (bp_initial_delay_secs bp) \<le> delay_for_attempt bp a \<and>
    delay_for_attempt bp a \<le> delay_for_attempt bp b \<and>
    delay_for_attempt bp b \<le> unat (bp_max_delay_secs bp)"
proof -
  define i where "i = unat (bp_initial_delay_secs bp)"
  define M where "M = unat (bp_max_delay_secs bp)"
  define c where "c k = min (max (of_nat i * bp_multiplier bp ^ k) (of_nat i)) (of_nat M)" for k
  have le: "i \<le> M" using assms(1) by (simp add: i_def M_def)
  have eq: "delay_for_attempt bp x = nat \<lfloor>c (unat x - 1) + 1 / 2\<rfloor>" if "x \<noteq> 0" "unat x \<le> 2 ^ 31" for x
    using delay_rational [OF that] by (simp only: c_def i_def M_def)
  have mono: "c k \<le> c l" if "k \<le> l" for k l
    unfolding c_def using power_increasing [OF that assms(2)]
    by (intro min.mono max.mono mult_left_mono) simp_all
  have ends: "of_nat i \<le> c k" "c k \<le> of_nat M" for k using le by (simp_all add: c_def)
  have c0: "c 0 = of_nat i" using le by (simp add: c_def min_absorb1)
  have ab: "unat a \<le> unat b" using assms(4) by (simp add: word_le_nat_alt)
  have "b \<noteq> 0" using assms(3, 4) by (auto simp: word_le_nat_alt unat_eq_0)
  note e = eq [OF assms(3) order_trans [OF ab assms(5)]] eq [OF this assms(5)]
  have "delay_for_attempt bp 1 = i" using eq [of 1] round_of_nat [of i] by (simp add: c0)
  moreover have "\<lfloor>of_nat i + 1 / 2 :: rat\<rfloor> \<le> \<lfloor>c (unat a - 1) + 1 / 2\<rfloor>" using ends by (intro floor_mono) simp
  moreover have "\<lfloor>c (unat b - 1) + 1 / 2\<rfloor> \<le> \<lfloor>of_nat M + 1 / 2 :: rat\<rfloor>" using ends by (intro floor_mono) simp
  moreover have "\<lfloor>c (unat a - 1) + 1 / 2\<rfloor> \<le> \<lfloor>c (unat b - 1) + 1 / 2\<rfloor>"
    using mono [OF diff_le_mono [OF ab]] by (intro floor_mono) simp
  ultimately show ?thesis unfolding e round_of_nat i_def [symmetric] M_def [symmetric] by linarith
qed

theorem backoff_bounds_witness:
  "30 \<le> delay_for_attempt backoff_default 3 \<and> delay_for_attempt backoff_default 9 \<le> 1800"
  using backoff_bounds [of backoff_default 3 9] by (simp add: backoff_default_def)

section \<open>Deferral\<close>

lemma quiet_end_day:
  assumes "civil_calendar cal lo hi" "quiet_ends_at cal q now = Some T"
  obtains off D where "east_opt q = Some off" "is_quiet q now" "unat (qh_end_hour q) < 24"
    "T = at_time D (unat (qh_end_hour q)) 0 - secs off"
    "D = (if qh_start_hour q < qh_end_hour q then day_of (now + secs off)
          else if unat (qh_start_hour q) \<le> hour_of (now + secs off) then day_of (now + secs off) + 1
          else day_of (now + secs off))"
proof -
  obtain off where off: "east_opt q = Some off" "is_quiet q now"
    using assms(2) by (auto simp: quiet_ends_at_def split: if_splits option.splits)
  define D where "D = (if qh_start_hour q < qh_end_hour q then day_of (now + secs off)
          else if unat (qh_start_hour q) \<le> hour_of (now + secs off) then day_of (now + secs off) + 1
          else day_of (now + secs off))"
  obtain y m d where ymd: "cal_ymd cal D = (y, m, d)" by (metis prod_cases3)
  have "map_option (\<lambda>t. t - secs off) (make_utc cal y m d (unat (qh_end_hour q)) 0) = Some T"
    using assms(2) off ymd by (simp add: quiet_ends_at_def D_def [symmetric] Let_def)
  then obtain D' where D': "cal_day cal y m d = Some D'" "unat (qh_end_hour q) < 24"
    "T = at_time D' (unat (qh_end_hour q)) 0 - secs off"
    by (auto simp: make_utc_def split: option.splits if_splits)
  then have "cal_ymd cal D' = cal_ymd cal D"
    using civil_calendar.day_iff [OF assms(1)] ymd by simp
  then have "D' = D" using civil_calendar.ymd_inject [OF assms(1)] by simp
  then show thesis using that off D' D_def by blast
qed

lemma quiet_ends_search:
  assumes cal: "civil_calendar cal lo hi" and se: "qh_start_hour q \<noteq> qh_end_hour q"
    and T: "quiet_ends_at cal q now = Some T"
  shows "now < T \<and> \<not> is_quiet q T \<and> (\<forall>u. now \<le> u \<and> u < T \<longrightarrow> is_quiet q u)"
proof -
  obtain off D where *: "east_opt q = Some off" "is_quiet q now" "unat (qh_end_hour q) < 24"
    "T = at_time D (unat (qh_end_hour q)) 0 - secs off" and
    D: "D = (if qh_start_hour q < qh_end_hour q then day_of (now + secs off)
          else if unat (qh_start_hour q) \<le> hour_of (now + secs off) then day_of (now + secs off) + 1
          else day_of (now + secs off))"
    using cal T by (rule quiet_end_day)
  define s e where "s = unat (qh_start_hour q)" and "e = unat (qh_end_hour q)"
  have ne: "s \<noteq> e" using se by (simp add: s_def e_def word_unat_eq_iff)
  have quiet: "is_quiet q u = (let h = hour_of (u + secs off) in if s < e then s \<le> h \<and> h < e else s \<le> h \<or> h < e)" for u
    using ne by (simp add: is_quiet_def *(1) Let_def s_def [symmetric] e_def [symmetric])
  have D': "D = (if s < e then day_of (now + secs off)
      else if s \<le> hour_of (now + secs off) then day_of (now + secs off) + 1 else day_of (now + secs off))"
    unfolding D s_def e_def by (simp add: word_less_nat_alt)
  have before: "u < T \<longleftrightarrow> day_of (u + secs off) < D \<or> day_of (u + secs off) = D \<and> hour_of (u + secs off) < e" for u
    using before_hour_iff [OF *(3), of "u + secs off" D] unfolding *(4) e_def by linarith
  have now: "now < T" unfolding before using *(2) unfolding quiet D' Let_def by (auto split: if_splits)
  moreover have "\<not> is_quiet q T"
    using ne at_time_hour [OF *(3), of 0 D] unfolding quiet *(4) e_def [symmetric] by (auto simp: Let_def)
  moreover have "is_quiet q u" if u: "now \<le> u" "u < T" for u
  proof -
    have "now + secs off \<le> u + secs off" using u(1) by simp
    from hour_mono [OF this] show ?thesis
      using u(2) *(2) unfolding before quiet D' Let_def by (auto split: if_splits)
  qed
  ultimately show ?thesis by blast
qed

text \<open>
  A job held back by quiet hours is deferred to their exact end: the deferral time lies
  after now, it is not quiet then, and every instant from now until it is quiet. This holds
  for windows within a day and across midnight, in any time zone.
\<close>

theorem quiet_ends_exact:
  assumes cal: "civil_calendar cal lo hi" and se: "qh_start_hour q \<noteq> qh_end_hour q"
    and T: "quiet_ends_at cal q now = Some T"
  shows "now < T \<and> \<not> is_quiet q T \<and> (\<forall>u. now \<le> u \<and> u < T \<longrightarrow> is_quiet q u)"
  using cal se T by (rule quiet_ends_search)

definition night_hours :: quiet_hours_policy where
  "night_hours = \<lparr>qh_start_hour = 22, qh_end_hour = 7, qh_timezone_offset_minutes = 60\<rparr>"

lemma night_ends:
  "quiet_ends_at gregorian night_hours (at_time 20547 23 15) = Some (at_time 20548 6 0)"
  by code_simp

theorem quiet_ends_exact_witness:
  "at_time 20547 23 15 < at_time 20548 6 0 \<and> \<not> is_quiet night_hours (at_time 20548 6 0)"
  using quiet_ends_exact [OF greg.civil_calendar_axioms _ night_ends] by (simp add: night_hours_def)

end
