(* ===== verification/Cron_Job.thy ===== *)
theory Cron_Job
  imports Cron_Next Cron_Policy
begin

text \<open>
  Jobs and their runs: \<^verbatim>\<open>crates/ff-cron/src/job.rs\<close>.

  Clock reads and fresh identifiers are arguments. The search for the next run is partial, so
  an operation that computes one returns an option whose \<open>None\<close> stands for a call that does
  not return; the theorems show that it returns for every expression that parses.
\<close>

section \<open>Jobs\<close>

datatype job_task =
  LocalCommand string "u64 option"
| FleetTask string json "string option"

record job_metadata =
  jm_description :: "string option"
  jm_created_by :: "string option"
  jm_tags :: "string list"
  jm_labels :: "(string, string) hmap"

record job_ownership =
  jo_owner_node :: "string option"
  jo_lease_expires_at :: "datetime option"
  jo_claimed_by_run :: "uuid option"

record retry_policy =
  rp_max_attempts :: u32
  rp_backoff :: backoff_policy

definition retry_policy_default :: retry_policy where
  "retry_policy_default = \<lparr>rp_max_attempts = 3, rp_backoff = backoff_default\<rparr>"

record job_definition =
  jd_id :: uuid
  jd_name :: string
  jd_schedule_expression :: string
  jd_enabled :: bool
  jd_priority :: job_priority
  jd_task :: job_task
  jd_metadata :: job_metadata
  jd_retry :: retry_policy
  jd_ownership :: job_ownership
  jd_created_at :: datetime
  jd_updated_at :: datetime
  jd_last_run_at :: "datetime option"
  jd_next_run_at :: "datetime option"
  jd_consecutive_failures :: u32

definition job_new ::
  "calendar \<Rightarrow> uuid \<Rightarrow> datetime \<Rightarrow> string \<Rightarrow> string \<Rightarrow> job_task \<Rightarrow> job_priority
   \<Rightarrow> (job_definition, schedule_error) result option" where
  "job_new cal uid now nm expr task pr =
     (case cron_parse expr of
        Inl e \<Rightarrow> Some (Inl e)
      | Inr schedule \<Rightarrow>
         map_option (\<lambda>nr. Inr \<lparr>jd_id = uid, jd_name = nm, jd_schedule_expression = expr,
             jd_enabled = True, jd_priority = pr, jd_task = task,
             jd_metadata = \<lparr>jm_description = None, jm_created_by = None, jm_tags = [], jm_labels = []\<rparr>,
             jd_retry = retry_policy_default,
             jd_ownership = \<lparr>jo_owner_node = None, jo_lease_expires_at = None, jo_claimed_by_run = None\<rparr>,
             jd_created_at = now, jd_updated_at = now, jd_last_run_at = None,
             jd_next_run_at = nr, jd_consecutive_failures = 0\<rparr>)
           (next_after cal schedule now))"

definition validate_schedule :: "job_definition \<Rightarrow> (cron_schedule, schedule_error) result" where
  "validate_schedule job = cron_parse (jd_schedule_expression job)"

definition recompute_next_run ::
  "calendar \<Rightarrow> datetime \<Rightarrow> datetime \<Rightarrow> job_definition \<Rightarrow> (job_definition, schedule_error) result option" where
  "recompute_next_run cal now start job =
     (case validate_schedule job of
        Inl e \<Rightarrow> Some (Inl e)
      | Inr schedule \<Rightarrow>
         map_option (\<lambda>nr. Inr (job\<lparr>jd_next_run_at := nr, jd_updated_at := now\<rparr>)) (next_after cal schedule start))"

definition job_should_run_at :: "job_definition \<Rightarrow> datetime \<Rightarrow> bool" where
  "job_should_run_at job now \<longleftrightarrow>
     jd_enabled job \<and> (case jd_next_run_at job of None \<Rightarrow> False | Some ts \<Rightarrow> ts \<le> now)"

definition note_success ::
  "calendar \<Rightarrow> datetime \<Rightarrow> datetime \<Rightarrow> job_definition \<Rightarrow> (job_definition, schedule_error) result option" where
  "note_success cal now finished_at job =
     recompute_next_run cal now finished_at
       (job\<lparr>jd_last_run_at := Some finished_at, jd_consecutive_failures := 0\<rparr>)"

definition note_failure_with_retry ::
  "datetime \<Rightarrow> datetime \<Rightarrow> datetime \<Rightarrow> job_definition \<Rightarrow> job_definition" where
  "note_failure_with_retry now failed_at next_retry_at job =
     job\<lparr>jd_last_run_at := Some failed_at,
         jd_consecutive_failures := saturating_add (jd_consecutive_failures job) 1,
         jd_next_run_at := Some next_retry_at, jd_updated_at := now\<rparr>"

definition can_retry :: "job_definition \<Rightarrow> bool" where
  "can_retry job \<longleftrightarrow> saturating_add (jd_consecutive_failures job) 1 < rp_max_attempts (jd_retry job)"

section \<open>Runs\<close>

datatype run_status = RunPending | RunRunning | RunDispatched | RunSucceeded | RunFailed | RunSkipped

fun run_status_as_str :: "run_status \<Rightarrow> string" where
  "run_status_as_str RunPending = ''pending''"
| "run_status_as_str RunRunning = ''running''"
| "run_status_as_str RunDispatched = ''dispatched''"
| "run_status_as_str RunSucceeded = ''succeeded''"
| "run_status_as_str RunFailed = ''failed''"
| "run_status_as_str RunSkipped = ''skipped''"

definition run_status_parse :: "string \<Rightarrow> run_status option" where
  "run_status_parse v =
     (let s = to_ascii_lowercase (trim_ws v) in
      if s = ''pending'' then Some RunPending
      else if s = ''running'' then Some RunRunning
      else if s = ''dispatched'' then Some RunDispatched
      else if s = ''succeeded'' then Some RunSucceeded
      else if s = ''failed'' then Some RunFailed
      else if s = ''skipped'' then Some RunSkipped
      else None)"

record job_run =
  jr_id :: uuid
  jr_job_id :: uuid
  jr_status :: run_status
  jr_scheduled_for :: datetime
  jr_attempt :: u32
  jr_worker :: "string option"
  jr_started_at :: "datetime option"
  jr_finished_at :: "datetime option"
  jr_output :: "string option"
  jr_error :: "string option"
  jr_created_at :: datetime

definition run_pending :: "uuid \<Rightarrow> datetime \<Rightarrow> uuid \<Rightarrow> datetime \<Rightarrow> u32 \<Rightarrow> job_run" where
  "run_pending uid now job_id scheduled_for attempt =
     \<lparr>jr_id = uid, jr_job_id = job_id, jr_status = RunPending, jr_scheduled_for = scheduled_for,
      jr_attempt = attempt, jr_worker = None, jr_started_at = None, jr_finished_at = None,
      jr_output = None, jr_error = None, jr_created_at = now\<rparr>"

definition mark_running :: "datetime \<Rightarrow> string option \<Rightarrow> job_run \<Rightarrow> job_run" where
  "mark_running now worker run = run\<lparr>jr_status := RunRunning, jr_worker := worker, jr_started_at := Some now\<rparr>"

definition start_if_unset :: "datetime \<Rightarrow> job_run \<Rightarrow> job_run" where
  "start_if_unset now run = (if jr_started_at run = None then run\<lparr>jr_started_at := Some now\<rparr> else run)"

definition mark_dispatched :: "datetime \<Rightarrow> string option \<Rightarrow> string \<Rightarrow> job_run \<Rightarrow> job_run" where
  "mark_dispatched now worker details run =
     (start_if_unset now (run\<lparr>jr_status := RunDispatched, jr_worker := worker\<rparr>))\<lparr>jr_output := Some details\<rparr>"

definition mark_success :: "datetime \<Rightarrow> string \<Rightarrow> job_run \<Rightarrow> job_run" where
  "mark_success now output run =
     (start_if_unset now (run\<lparr>jr_status := RunSucceeded, jr_output := Some output\<rparr>))\<lparr>jr_finished_at := Some now\<rparr>"

definition mark_failure :: "datetime \<Rightarrow> string \<Rightarrow> job_run \<Rightarrow> job_run" where
  "mark_failure now message run =
     (start_if_unset now (run\<lparr>jr_status := RunFailed, jr_error := Some message\<rparr>))\<lparr>jr_finished_at := Some now\<rparr>"

definition mark_skipped :: "datetime \<Rightarrow> string \<Rightarrow> job_run \<Rightarrow> job_run" where
  "mark_skipped now reason run =
     run\<lparr>jr_status := RunSkipped, jr_output := Some reason, jr_finished_at := Some now\<rparr>"

section \<open>Lemmas\<close>

lemmas mark_defs = run_pending_def mark_running_def start_if_unset_def mark_dispatched_def mark_success_def
  mark_failure_def mark_skipped_def

lemma start_if_unset_fields [simp]:
  "jr_finished_at (start_if_unset t run) = jr_finished_at run" "jr_status (start_if_unset t run) = jr_status run"
  "jr_id (start_if_unset t run) = jr_id run" "jr_job_id (start_if_unset t run) = jr_job_id run"
  "jr_attempt (start_if_unset t run) = jr_attempt run" "jr_scheduled_for (start_if_unset t run) = jr_scheduled_for run"
  "jr_error (start_if_unset t run) = jr_error run"
  by (simp_all add: start_if_unset_def)

text \<open>A finished run carries a finishing time, an unfinished one does not.\<close>

definition run_ok :: "job_run \<Rightarrow> bool" where
  "run_ok run \<longleftrightarrow>
     (jr_finished_at run = None \<longleftrightarrow> jr_status run \<in> {RunPending, RunRunning, RunDispatched}) \<and>
     (jr_status run = RunFailed \<longrightarrow> jr_error run \<noteq> None)"

lemma run_ok_marks:
  "run_ok (run_pending uid now j t a)"
  "jr_finished_at run = None \<Longrightarrow> run_ok (mark_running now w run)"
  "jr_finished_at run = None \<Longrightarrow> run_ok (mark_dispatched now w d run)"
  "run_ok (mark_success now out run)" "run_ok (mark_failure now msg run)" "run_ok (mark_skipped now r run)"
  by (simp_all add: run_ok_def mark_defs)

lemma status_words:
  "run_status_parse (run_status_as_str s) = Some s"
  by (cases s) (simp_all add: run_status_parse_def to_ascii_lowercase_def trim_ws_def is_ws_def)

lemma priority_words:
  "job_priority_parse (job_priority_as_str p) = Some p"
  by (cases p) (simp_all add: job_priority_parse_def to_ascii_lowercase_def trim_ws_def is_ws_def)

lemma max_attempts_less: "unat (rp_max_attempts (jd_retry job)) < 2 ^ 32"
  using unsigned_less [where 'a = nat, of "rp_max_attempts (jd_retry job)"] by simp

lemma can_retry_iff:
  "can_retry job \<longleftrightarrow> unat (jd_consecutive_failures job) + 1 < unat (rp_max_attempts (jd_retry job))"
  using max_attempts_less [of job] by (auto simp: can_retry_def word_less_nat_alt unat_saturating_add)

lemma note_failure_count:
  "can_retry job \<Longrightarrow>
   unat (jd_consecutive_failures (note_failure_with_retry now f r job)) = unat (jd_consecutive_failures job) + 1"
  using max_attempts_less [of job]
  by (auto simp: can_retry_iff note_failure_with_retry_def unat_saturating_add)

end
