(* ===== verification/Cron_Store.thy ===== *)
theory Cron_Store
  imports Cron_Job
begin

text \<open>
  The durable store of jobs and runs: \<^verbatim>\<open>crates/ff-cron/src/persistence.rs\<close>.

  The two tables are lists of rows; the list of runs is in the order of the table's serial
  ids. What the store needs from other libraries is the record \<open>codec\<close>: printing and
  reading UUIDs and timestamps, and the JSON form of a job. A statement that the database
  refuses is the argument \<open>fault\<close>.
\<close>

section \<open>Rows\<close>

record codec =
  co_uuid :: "uuid \<Rightarrow> string"
  co_parse_uuid :: "string \<Rightarrow> string + uuid"
  co_time :: "datetime \<Rightarrow> string"
  co_parse_time :: "string \<Rightarrow> string + datetime"
  co_job :: "job_definition \<Rightarrow> string + string"
  co_parse_job :: "string \<Rightarrow> string + job_definition"

datatype persistence_error = DbError string | SqlxError string | SerdeError string | DecodeError string

record job_row =
  jw_id :: string
  jw_name :: string
  jw_schedule :: string
  jw_task_kind :: string
  jw_payload_json :: string
  jw_enabled :: bool
  jw_node_affinity :: "string option"
  jw_created_at :: string
  jw_updated_at :: string

record run_row =
  rw_cron_job_id :: string
  rw_started_at :: string
  rw_completed_at :: "string option"
  rw_success :: "bool option"
  rw_output :: string
  rw_duration_ms :: "int option"

record cron_db =
  db_jobs :: "job_row list"
  db_runs :: "run_row list"

section \<open>Jobs\<close>

fun task_kind_label :: "job_task \<Rightarrow> string" where
  "task_kind_label (LocalCommand _ _) = ''local_command''"
| "task_kind_label (FleetTask _ _ _) = ''fleet_task''"

definition job_row_of :: "codec \<Rightarrow> job_definition \<Rightarrow> string \<Rightarrow> job_row" where
  "job_row_of c job payload =
     \<lparr>jw_id = co_uuid c (jd_id job), jw_name = jd_name job, jw_schedule = jd_schedule_expression job,
      jw_task_kind = task_kind_label (jd_task job), jw_payload_json = payload, jw_enabled = jd_enabled job,
      jw_node_affinity = jo_owner_node (jd_ownership job), jw_created_at = co_time c (jd_created_at job),
      jw_updated_at = co_time c (jd_updated_at job)\<rparr>"

text \<open>On a conflict of ids the row keeps its \<open>created_at\<close>.\<close>

definition store_job_row :: "job_row \<Rightarrow> job_row list \<Rightarrow> job_row list" where
  "store_job_row w ws =
     (if jw_id w \<in> jw_id ` set ws
      then map (\<lambda>v. if jw_id v = jw_id w then w\<lparr>jw_created_at := jw_created_at v\<rparr> else v) ws
      else ws @ [w])"

definition upsert_job ::
  "codec \<Rightarrow> string option \<Rightarrow> job_definition \<Rightarrow> cron_db \<Rightarrow> (cron_db, persistence_error) result" where
  "upsert_job c fault job db =
     (case co_job c job of
        Inl e \<Rightarrow> Inl (SerdeError e)
      | Inr payload \<Rightarrow>
         (case fault of
            Some e \<Rightarrow> Inl (SqlxError e)
          | None \<Rightarrow> Inr (db\<lparr>db_jobs := store_job_row (job_row_of c job payload) (db_jobs db)\<rparr>)))"

definition parse_rfc3339 :: "codec \<Rightarrow> string \<Rightarrow> (datetime, persistence_error) result" where
  "parse_rfc3339 c v =
     (case co_parse_time c v of
        Inl e \<Rightarrow> Inl (DecodeError (''invalid timestamp '' @ [CHR 0x27] @ v @ [CHR 0x27] @ '': '' @ e))
      | Inr t \<Rightarrow> Inr t)"

definition decode_job_row :: "codec \<Rightarrow> job_row \<Rightarrow> (job_definition, persistence_error) result" where
  "decode_job_row c w =
     (case co_parse_job c (jw_payload_json w) of
        Inl e \<Rightarrow> Inl (SerdeError e)
      | Inr job \<Rightarrow>
         (case co_parse_uuid c (jw_id w) of
            Inl e \<Rightarrow> Inl (DecodeError (''invalid cron_jobs.id '' @ [CHR 0x27] @ jw_id w @ [CHR 0x27] @ '': '' @ e))
          | Inr uid \<Rightarrow>
             (case parse_rfc3339 c (jw_created_at w) of
                Inl e \<Rightarrow> Inl e
              | Inr created \<Rightarrow>
                 (case parse_rfc3339 c (jw_updated_at w) of
                    Inl e \<Rightarrow> Inl e
                  | Inr updated \<Rightarrow>
                     Inr (job\<lparr>jd_id := uid, jd_name := jw_name w, jd_schedule_expression := jw_schedule w,
                              jd_enabled := jw_enabled w,
                              jd_ownership := (jd_ownership job)\<lparr>jo_owner_node := jw_node_affinity w\<rparr>,
                              jd_created_at := created, jd_updated_at := updated\<rparr>)))))"

fun decode_all :: "('a \<Rightarrow> ('b, 'e) result) \<Rightarrow> 'a list \<Rightarrow> ('b list, 'e) result" where
  "decode_all f [] = Inr []"
| "decode_all f (x # xs) =
     (case f x of Inl e \<Rightarrow> Inl e | Inr y \<Rightarrow> (case decode_all f xs of Inl e \<Rightarrow> Inl e | Inr ys \<Rightarrow> Inr (y # ys)))"

definition db_get_job :: "codec \<Rightarrow> string option \<Rightarrow> uuid \<Rightarrow> cron_db \<Rightarrow> (job_definition option, persistence_error) result" where
  "db_get_job c fault uid db =
     (case fault of
        Some e \<Rightarrow> Inl (SqlxError e)
      | None \<Rightarrow>
         (case find (\<lambda>w. jw_id w = co_uuid c uid) (db_jobs db) of
            None \<Rightarrow> Inr None
          | Some w \<Rightarrow> (case decode_job_row c w of Inl e \<Rightarrow> Inl e | Inr job \<Rightarrow> Inr (Some job))))"

text \<open>The rows newest update first; rows of equal timestamps come in any order \<open>sorter\<close> gives.\<close>

definition db_list_jobs ::
  "codec \<Rightarrow> string option \<Rightarrow> (job_row list \<Rightarrow> job_row list) \<Rightarrow> bool \<Rightarrow> cron_db
   \<Rightarrow> (job_definition list, persistence_error) result" where
  "db_list_jobs c fault sorter active_only db =
     (case fault of
        Some e \<Rightarrow> Inl (SqlxError e)
      | None \<Rightarrow> decode_all (decode_job_row c) (sorter (filter (\<lambda>w. \<not> active_only \<or> jw_enabled w) (db_jobs db))))"

definition delete_job :: "codec \<Rightarrow> string option \<Rightarrow> uuid \<Rightarrow> cron_db \<Rightarrow> (cron_db \<times> bool, persistence_error) result" where
  "delete_job c fault uid db =
     (case fault of
        Some e \<Rightarrow> Inl (SqlxError e)
      | None \<Rightarrow>
         Inr (db\<lparr>db_jobs := filter (\<lambda>w. jw_id w \<noteq> co_uuid c uid) (db_jobs db)\<rparr>,
              co_uuid c uid \<in> jw_id ` set (db_jobs db)))"

section \<open>Runs\<close>

fun run_status_to_success :: "run_status \<Rightarrow> bool option" where
  "run_status_to_success RunPending = None"
| "run_status_to_success RunRunning = None"
| "run_status_to_success RunDispatched = None"
| "run_status_to_success RunSucceeded = Some True"
| "run_status_to_success RunSkipped = Some True"
| "run_status_to_success RunFailed = Some False"

fun infer_status :: "bool option \<Rightarrow> bool \<Rightarrow> run_status option" where
  "infer_status (Some True) _ = Some RunSucceeded"
| "infer_status (Some False) _ = Some RunFailed"
| "infer_status None True = Some RunSkipped"
| "infer_status None False = Some RunRunning"

definition run_meta_prefix :: string where
  "run_meta_prefix = ''__ffcron_meta__''"

definition run_body :: "job_run \<Rightarrow> string" where
  "run_body run =
     (let body = (case jr_output run of Some out \<Rightarrow> trim_ws out | None \<Rightarrow> '''')
      in case jr_error run of
           None \<Rightarrow> body
         | Some e \<Rightarrow> body @ (if body = '''' then '''' else [CHR 0x0A]) @ ''error: '' @ trim_ws e)"

definition encode_run_output :: "codec \<Rightarrow> job_run \<Rightarrow> string" where
  "encode_run_output c run =
     run_meta_prefix @ '' run_id='' @ co_uuid c (jr_id run) @ '' attempt='' @ show_nat (unat (jr_attempt run))
     @ '' status='' @ run_status_as_str (jr_status run) @ [CHR 0x0A] @ run_body run"

text \<open>The last row of the job that is not completed is updated in place, if there is one.\<close>

fun update_first_row :: "('a \<Rightarrow> bool) \<Rightarrow> ('a \<Rightarrow> 'a) \<Rightarrow> 'a list \<Rightarrow> 'a list" where
  "update_first_row P f [] = []"
| "update_first_row P f (x # xs) = (if P x then f x # xs else x # update_first_row P f xs)"

definition open_row :: "string \<Rightarrow> run_row \<Rightarrow> bool" where
  "open_row job_id w \<longleftrightarrow> rw_cron_job_id w = job_id \<and> rw_completed_at w = None"

definition run_row_of :: "codec \<Rightarrow> job_run \<Rightarrow> run_row" where
  "run_row_of c run =
     \<lparr>rw_cron_job_id = co_uuid c (jr_job_id run),
      rw_started_at = co_time c (case jr_started_at run of Some t \<Rightarrow> t | None \<Rightarrow> jr_scheduled_for run),
      rw_completed_at = map_option (co_time c) (jr_finished_at run),
      rw_success = run_status_to_success (jr_status run),
      rw_output = encode_run_output c run,
      rw_duration_ms = (case (jr_started_at run, jr_finished_at run) of
         (Some s, Some e) \<Rightarrow> Some (max (trunc_div (e - s) 1000000) 0) | _ \<Rightarrow> None)\<rparr>"

definition store_run_row :: "run_row \<Rightarrow> run_row list \<Rightarrow> run_row list" where
  "store_run_row w ws =
     (if \<exists>v \<in> set ws. open_row (rw_cron_job_id w) v
      then rev (update_first_row (open_row (rw_cron_job_id w)) (\<lambda>v. w\<lparr>rw_started_at := rw_started_at v\<rparr>) (rev ws))
      else ws @ [w])"

definition upsert_run ::
  "codec \<Rightarrow> string option \<Rightarrow> job_run \<Rightarrow> cron_db \<Rightarrow> (cron_db, persistence_error) result" where
  "upsert_run c fault run db =
     (case fault of
        Some e \<Rightarrow> Inl (SqlxError e)
      | None \<Rightarrow> Inr (db\<lparr>db_runs := store_run_row (run_row_of c run) (db_runs db)\<rparr>))"

subsection \<open>Reading runs back\<close>

record parsed_run_meta =
  pm_run_id :: "uuid option"
  pm_attempt :: nat
  pm_status :: string
  pm_body :: string

definition meta_token :: "codec \<Rightarrow> string \<Rightarrow> parsed_run_meta \<Rightarrow> parsed_run_meta" where
  "meta_token c token pm =
     (case split_once (CHR ''='') token of
        None \<Rightarrow> pm
      | Some (key, v) \<Rightarrow>
         (if key = ''run_id'' then pm\<lparr>pm_run_id := (case co_parse_uuid c v of Inl _ \<Rightarrow> None | Inr u \<Rightarrow> Some u)\<rparr>
          else if key = ''attempt''
          then (case parse_u32 v of None \<Rightarrow> pm | Some n \<Rightarrow> pm\<lparr>pm_attempt := max n 1\<rparr>)
          else if key = ''status'' then pm\<lparr>pm_status := v\<rparr>
          else pm))"

definition parse_run_meta :: "codec \<Rightarrow> string \<Rightarrow> parsed_run_meta option" where
  "parse_run_meta c raw =
     (case str_lines raw of
        [] \<Rightarrow> None
      | first # rest \<Rightarrow>
         (let header = trim_ws first in
          if take (length run_meta_prefix) header \<noteq> run_meta_prefix then None
          else Some ((fold (meta_token c) (drop 1 (split_whitespace header))
                 \<lparr>pm_run_id = None, pm_attempt = 1, pm_status = ''pending'', pm_body = []\<rparr>)
               \<lparr>pm_body := str_join [CHR 0x0A] rest\<rparr>)))"

definition decode_run_row :: "codec \<Rightarrow> uuid \<Rightarrow> run_row \<Rightarrow> (job_run, persistence_error) result" where
  "decode_run_row c fresh w =
     (case co_parse_uuid c (rw_cron_job_id w) of
        Inl e \<Rightarrow> Inl (DecodeError (''invalid cron_runs.cron_job_id '' @ [CHR 0x27] @ rw_cron_job_id w @ [CHR 0x27] @ '': '' @ e))
      | Inr job_id \<Rightarrow>
         (case parse_rfc3339 c (rw_started_at w) of
            Inl e \<Rightarrow> Inl e
          | Inr started_at \<Rightarrow>
             (case (case rw_completed_at w of None \<Rightarrow> Inr None
                    | Some v \<Rightarrow> (case parse_rfc3339 c v of Inl e \<Rightarrow> Inl e | Inr t \<Rightarrow> Inr (Some t))) of
                Inl e \<Rightarrow> Inl e
              | Inr finished_at \<Rightarrow>
                 (let meta = parse_run_meta c (rw_output w);
                      uid = (case Option.bind meta pm_run_id of Some u \<Rightarrow> u | None \<Rightarrow> fresh);
                      attempt = (case meta of Some pm \<Rightarrow> pm_attempt pm | None \<Rightarrow> 1);
                      status = (case Option.bind meta (\<lambda>pm. run_status_parse (pm_status pm)) of
                                  Some s \<Rightarrow> s
                                | None \<Rightarrow> (case infer_status (rw_success w) (finished_at \<noteq> None) of
                                             Some s \<Rightarrow> s | None \<Rightarrow> RunPending));
                      body = (case meta of Some pm \<Rightarrow> trim_ws (pm_body pm) | None \<Rightarrow> trim_ws (rw_output w));
                      text = (if body = [] then None else Some body)
                  in Inr \<lparr>jr_id = uid, jr_job_id = job_id, jr_status = status, jr_scheduled_for = started_at,
                          jr_attempt = word_of_nat attempt, jr_worker = None, jr_started_at = Some started_at,
                          jr_finished_at = finished_at,
                          jr_output = (if status = RunFailed then None else text),
                          jr_error = (if status = RunFailed then text else None),
                          jr_created_at = started_at\<rparr>))))"

definition db_list_runs ::
  "codec \<Rightarrow> string option \<Rightarrow> (nat \<Rightarrow> uuid) \<Rightarrow> uuid option \<Rightarrow> nat \<Rightarrow> cron_db
   \<Rightarrow> (job_run list, persistence_error) result" where
  "db_list_runs c fault fresh job_id limit db =
     (case fault of
        Some e \<Rightarrow> Inl (SqlxError e)
      | None \<Rightarrow>
         (let lim = max 1 (min limit 1000);
              rows = take lim (rev (filter (\<lambda>w. case job_id of None \<Rightarrow> True
                                   | Some j \<Rightarrow> rw_cron_job_id w = co_uuid c j) (db_runs db)))
          in decode_all (\<lambda>(i, w). decode_run_row c (fresh i) w) (enumerate 0 rows)))"

section \<open>Reading back what was written\<close>

text \<open>
  What the store relies on from the libraries: UUIDs and timestamps print and read back, and
  a printed UUID is one word.
\<close>

definition header_words :: "codec \<Rightarrow> job_run \<Rightarrow> string list" where
  "header_words c run =
     [run_meta_prefix, ''run_id='' @ co_uuid c (jr_id run), ''attempt='' @ show_nat (unat (jr_attempt run)),
      ''status='' @ run_status_as_str (jr_status run)]"

lemma encode_header: "encode_run_output c run = str_join '' '' (header_words c run) @ CHR 0x0A # run_body run"
  by (simp add: encode_run_output_def header_words_def)

lemma status_word: "x \<in> set (run_status_as_str st) \<Longrightarrow> \<not> is_ws x"
  by (cases st) (auto simp: is_ws_def)

lemma meta_prefix_word: "x \<in> set run_meta_prefix \<Longrightarrow> \<not> is_ws x"
  by (auto simp: run_meta_prefix_def is_ws_def)

lemma meta_tokens:
  "meta_token c (''run_id='' @ v) pm = pm\<lparr>pm_run_id := (case co_parse_uuid c v of Inl _ \<Rightarrow> None | Inr u \<Rightarrow> Some u)\<rparr>"
  "meta_token c (''attempt='' @ v) pm = (case parse_u32 v of None \<Rightarrow> pm | Some n \<Rightarrow> pm\<lparr>pm_attempt := max n 1\<rparr>)"
  "meta_token c (''status='' @ v) pm = pm\<lparr>pm_status := v\<rparr>"
  using split_once_append [of "CHR ''=''" "''run_id''" v] split_once_append [of "CHR ''=''" "''attempt''" v]
    split_once_append [of "CHR ''=''" "''status''" v] by (simp_all add: meta_token_def)

locale run_codec =
  fixes c :: codec
  assumes uuid_trip: "co_parse_uuid c (co_uuid c u) = Inr u"
    and time_trip: "co_parse_time c (co_time c t) = Inr t"
    and uuid_word: "co_uuid c u \<noteq> [] \<and> (\<forall>x \<in> set (co_uuid c u). \<not> is_ws x)"
begin

lemma header_words_plain: "\<forall>w \<in> set (header_words c run). w \<noteq> [] \<and> (\<forall>x \<in> set w. \<not> is_ws x)"
proof -
  have key: "\<forall>x \<in> set k. \<not> is_ws x" if "k \<in> {''run_id='', ''attempt='', ''status=''}" for k
    using that by (auto simp: is_ws_def)
  have "run_meta_prefix \<noteq> []" by (simp add: run_meta_prefix_def)
  moreover have "\<forall>x \<in> set (''run_id='' @ co_uuid c (jr_id run)). \<not> is_ws x"
    using key [of "''run_id=''"] uuid_word unfolding set_append by blast
  moreover have "\<forall>x \<in> set (''attempt='' @ show_nat (unat (jr_attempt run))). \<not> is_ws x"
    using key [of "''attempt=''"] show_nat_no_ws unfolding set_append by blast
  moreover have "\<forall>x \<in> set (''status='' @ run_status_as_str (jr_status run)). \<not> is_ws x"
    using key [of "''status=''"] status_word unfolding set_append by blast
  ultimately show ?thesis using meta_prefix_word by (simp add: header_words_def)
qed

lemma header_no_break: "x \<in> set (str_join '' '' (header_words c run)) \<Longrightarrow> x = CHR '' '' \<or> \<not> is_ws x"
  using set_str_join [of "'' ''" "header_words c run"] header_words_plain [of run] by auto

lemma header_trim: "trim_ws (str_join '' '' (header_words c run)) = str_join '' '' (header_words c run)"
proof (rule trim_ws_plain)
  have "run_status_as_str (jr_status run) \<noteq> []" by (cases "jr_status run") simp_all
  then have "last (str_join '' '' (header_words c run)) \<in> set (run_status_as_str (jr_status run))"
    by (simp add: header_words_def)
  then show "\<not> is_ws (last (str_join '' '' (header_words c run)))" by (rule status_word)
qed (simp_all add: header_words_def run_meta_prefix_def is_ws_def)

lemma parse_encoded:
  "parse_run_meta c (encode_run_output c run) =
     Some \<lparr>pm_run_id = Some (jr_id run), pm_attempt = max (unat (jr_attempt run)) 1,
           pm_status = run_status_as_str (jr_status run),
           pm_body = str_join [CHR 0x0A] (str_lines (run_body run))\<rparr>"
proof -
  let ?h = "str_join '' '' (header_words c run)"
  have "CHR 0x0A \<notin> set ?h" "CHR 0x0D \<notin> set ?h" using header_no_break [of _ run] by (auto simp: is_ws_def)
  then have lines: "str_lines (encode_run_output c run) = ?h # str_lines (run_body run)"
    unfolding encode_header by (rule str_lines_first)
  have "take (length run_meta_prefix) ?h = run_meta_prefix" by (simp add: header_words_def)
  moreover have "unat (jr_attempt run) < 2 ^ 32"
    using unsigned_less [where 'a = nat, of "jr_attempt run"] by simp
  moreover have "drop 1 (split_whitespace ?h) = tl (header_words c run)"
    using split_whitespace_join [OF header_words_plain] by (simp add: drop_Suc)
  moreover have "fold (meta_token c) (tl (header_words c run)) pm =
      pm\<lparr>pm_run_id := Some (jr_id run), pm_attempt := max (unat (jr_attempt run)) 1,
          pm_status := run_status_as_str (jr_status run)\<rparr>" for pm
    using \<open>unat (jr_attempt run) < 2 ^ 32\<close>
    by (simp only: header_words_def list.sel fold_simps meta_tokens uuid_trip parse_u32_show sum.case option.case
        parsed_run_meta.update_convs parsed_run_meta.select_convs)
  ultimately show ?thesis
    unfolding parse_run_meta_def lines by (simp only: list.case Let_def header_trim simp_thms if_False) simp
qed

end

text \<open>A codec that prints both in decimal.\<close>

definition read_int :: "string \<Rightarrow> string + int" where
  "read_int s =
     (if s \<noteq> [] \<and> hd s = CHR ''-'' then (case parse_nat (tl s) of None \<Rightarrow> Inl s | Some n \<Rightarrow> Inr (- int n))
      else (case parse_nat s of None \<Rightarrow> Inl s | Some n \<Rightarrow> Inr (int n)))"

definition dec_codec :: codec where
  "dec_codec = \<lparr>co_uuid = \<lambda>u. show_nat (unat u),
     co_parse_uuid = \<lambda>s. (case parse_nat s of None \<Rightarrow> Inl s | Some n \<Rightarrow> if n < 2 ^ 128 then Inr (word_of_nat n) else Inl s),
     co_time = show_int, co_parse_time = read_int,
     co_job = \<lambda>job. Inr (jd_name job), co_parse_job = Inl\<rparr>"

lemma read_int_show: "read_int (show_int i) = Inr i"
proof -
  have "hd (show_nat n) \<noteq> CHR ''-''" for n
    using subsetD [OF set_show_nat hd_in_set [OF show_nat_not_Nil [of n]]] by auto
  then show ?thesis by (simp add: read_int_def show_int_def parse_nat_show)
qed

interpretation dec: run_codec dec_codec
proof
  show "co_parse_uuid dec_codec (co_uuid dec_codec u) = Inr u" for u
    using unsigned_less [where 'a = nat, of u] by (simp add: dec_codec_def parse_nat_show)
  show "co_parse_time dec_codec (co_time dec_codec t) = Inr t" for t
    by (simp add: dec_codec_def read_int_show)
  show "co_uuid dec_codec u \<noteq> [] \<and> (\<forall>x \<in> set (co_uuid dec_codec u). \<not> is_ws x)" for u
    using show_nat_no_ws by (auto simp: dec_codec_def)
qed

definition sample_run :: job_run where
  "sample_run = mark_failure 20 ''boom'' (mark_running 10 None (run_pending 7 5 3 4 2))"

text \<open>
  A run read back from the store has the identity, job, status, attempt (at least 1) and
  times it was written with. Its text is the trimmed output followed by the error marked
  \<open>error:\<close>; a failed run has it all as its error, any other run as its output. The worker
  and the scheduled time are not kept: the latter becomes the start of the run.
\<close>

theorem run_roundtrip:
  assumes "run_codec c" "CHR 0x0D \<notin> set (run_body run)"
  shows "decode_run_row c fresh (run_row_of c run) =
    (let started = (case jr_started_at run of Some t \<Rightarrow> t | None \<Rightarrow> jr_scheduled_for run);
         body = (if trim_ws (run_body run) = [] then None else Some (trim_ws (run_body run)))
     in Inr (run\<lparr>jr_attempt := word_of_nat (max (unat (jr_attempt run)) 1), jr_worker := None,
          jr_scheduled_for := started, jr_started_at := Some started, jr_created_at := started,
          jr_output := (if jr_status run = RunFailed then None else body),
          jr_error := (if jr_status run = RunFailed then body else None)\<rparr>))"
  using run_codec.uuid_trip [OF assms(1)] run_codec.time_trip [OF assms(1)]
    run_codec.parse_encoded [OF assms(1), of run] str_join_lines [OF assms(2)]
  by (simp add: decode_run_row_def run_row_of_def parse_rfc3339_def status_words Let_def option.case_eq_if
      option.map_sel)

theorem run_roundtrip_witness:
  "decode_run_row dec_codec 0 (run_row_of dec_codec sample_run) =
     Inr (sample_run\<lparr>jr_scheduled_for := 10, jr_created_at := 10, jr_error := Some ''error: boom''\<rparr>)"
  using run_roundtrip [OF dec.run_codec_axioms, of sample_run 0]
  by (simp add: sample_run_def mark_defs run_body_def trim_ws_def is_ws_def)

section \<open>The table of runs\<close>

lemma update_first_row_split:
  "\<exists>x \<in> set xs. P x \<Longrightarrow>
   \<exists>as x bs. xs = as @ x # bs \<and> P x \<and> (\<forall>y \<in> set as. \<not> P y) \<and> update_first_row P f xs = as @ f x # bs"
proof (induction xs)
  case (Cons y ys)
  show ?case
  proof (cases "P y")
    case True
    then have "y # ys = [] @ y # ys \<and> P y \<and> (\<forall>z \<in> set []. \<not> P z) \<and> update_first_row P f (y # ys) = [] @ f y # ys" by simp
    then show ?thesis by blast
  next
    case False
    then obtain as x bs where "ys = as @ x # bs" "P x" "\<forall>z \<in> set as. \<not> P z" "update_first_row P f ys = as @ f x # bs"
      using Cons by auto
    then have "y # ys = (y # as) @ x # bs \<and> P x \<and> (\<forall>z \<in> set (y # as). \<not> P z) \<and>
        update_first_row P f (y # ys) = (y # as) @ f x # bs"
      using False by simp
    then show ?thesis by blast
  qed
qed simp

lemma store_run_cases:
  obtains (insert) "\<forall>v \<in> set ws. \<not> open_row (rw_cron_job_id w) v" "store_run_row w ws = ws @ [w]"
  | (update) as v bs where "ws = as @ v # bs" "open_row (rw_cron_job_id w) v"
      "\<forall>x \<in> set bs. \<not> open_row (rw_cron_job_id w) x"
      "store_run_row w ws = as @ w\<lparr>rw_started_at := rw_started_at v\<rparr> # bs"
proof (cases "\<exists>v \<in> set ws. open_row (rw_cron_job_id w) v")
  case True
  let ?f = "\<lambda>v. w\<lparr>rw_started_at := rw_started_at v\<rparr>"
  have "\<exists>v \<in> set (rev ws). open_row (rw_cron_job_id w) v" using True by simp
  from update_first_row_split [OF this, where f = ?f] obtain as v bs where *: "rev ws = as @ v # bs"
    "open_row (rw_cron_job_id w) v" "\<forall>y \<in> set as. \<not> open_row (rw_cron_job_id w) y"
    "update_first_row (open_row (rw_cron_job_id w)) ?f (rev ws) = as @ ?f v # bs" by blast
  have "ws = rev bs @ v # rev as" using arg_cong [OF *(1), of rev] by simp
  moreover have "store_run_row w ws = rev bs @ ?f v # rev as" using True *(4) by (simp add: store_run_row_def)
  ultimately show thesis using update [of "rev bs" v "rev as"] *(2, 3) by simp
next
  case False
  then show thesis using insert by (simp add: store_run_row_def)
qed

definition one_open :: "run_row list \<Rightarrow> bool" where
  "one_open ws \<longleftrightarrow> (\<forall>j. length (filter (open_row j) ws) \<le> 1)"

text \<open>
  The table of runs never holds two unfinished rows of one job, whatever runs are stored
  in it and in whichever order.
\<close>

theorem one_open_row:
  assumes "one_open (db_runs db)" "upsert_run c fault run db = Inr db'"
  shows "one_open (db_runs db')"
proof -
  let ?w = "run_row_of c run"
  have db': "db_runs db' = store_run_row ?w (db_runs db)"
    using assms(2) by (auto simp: upsert_run_def split: option.splits)
  have le: "length (filter (open_row j) (db_runs db)) \<le> 1" for j using assms(1) by (simp add: one_open_def)
  have "length (filter (open_row j) (db_runs db')) \<le> 1" for j
  proof (cases rule: store_run_cases [where w = ?w and ws = "db_runs db"])
    case insert
    show ?thesis
    proof (cases "j = rw_cron_job_id ?w")
      case True
      then have "filter (open_row j) (db_runs db) = []" using insert(1) by (simp add: filter_empty_conv)
      then show ?thesis by (simp add: db' insert(2))
    next
      case False
      then show ?thesis using le [of j] by (simp add: db' insert(2) open_row_def)
    qed
  next
    case (update as v bs)
    have "open_row j (?w\<lparr>rw_started_at := s\<rparr>) \<Longrightarrow> open_row j v" for s
      using update(2) by (auto simp: open_row_def)
    moreover have "db_runs db' = as @ ?w\<lparr>rw_started_at := rw_started_at v\<rparr> # bs" using db' update(4) by simp
    ultimately show ?thesis using le [of j] by (auto simp: update(1) split: if_splits)
  qed
  then show ?thesis by (simp add: one_open_def)
qed

theorem one_open_row_witness:
  "one_open (db_runs \<lparr>db_jobs = [], db_runs = store_run_row (run_row_of dec_codec sample_run) []\<rparr>)"
  using one_open_row [of "\<lparr>db_jobs = [], db_runs = []\<rparr>" dec_codec None sample_run]
  by (simp add: upsert_run_def one_open_def)

text \<open>
  A run that is still open when the next run of its job is stored loses its row. The
  later run is written over it: the table has as many rows as before, the row carries the
  later run's status and output, and the start of the earlier one. A run dispatched to a
  remote worker stays open past its recurrence, so its history is lost this way.
\<close>

theorem open_run_overwritten:
  assumes "jr_finished_at r1 = None" "jr_job_id r2 = jr_job_id r1"
    and "upsert_run c None r1 db = Inr db1" "upsert_run c None r2 db1 = Inr db2"
  shows "length (db_runs db2) = length (db_runs db1) \<and>
    (\<exists>as bs s. db_runs db1 = as @ (run_row_of c r1)\<lparr>rw_started_at := s\<rparr> # bs \<and>
               db_runs db2 = as @ (run_row_of c r2)\<lparr>rw_started_at := s\<rparr> # bs)"
proof -
  let ?w1 = "run_row_of c r1" and ?w2 = "run_row_of c r2"
  have db: "db_runs db1 = store_run_row ?w1 (db_runs db)" "db_runs db2 = store_run_row ?w2 (db_runs db1)"
    using assms(3, 4) by (auto simp: upsert_run_def)
  have j: "rw_cron_job_id ?w1 = rw_cron_job_id ?w2" using assms(2) by (simp add: run_row_of_def)
  have open1: "open_row (rw_cron_job_id ?w2) (?w1\<lparr>rw_started_at := s\<rparr>)" for s
    using assms(1, 2) by (simp add: open_row_def run_row_of_def)
  obtain as bs s where 1: "db_runs db1 = as @ ?w1\<lparr>rw_started_at := s\<rparr> # bs" "\<forall>x \<in> set bs. \<not> open_row (rw_cron_job_id ?w2) x"
  proof (cases rule: store_run_cases [where w = ?w1 and ws = "db_runs db"])
    case insert
    have "?w1 = ?w1\<lparr>rw_started_at := rw_started_at ?w1\<rparr>" by simp
    then show thesis using that [of "db_runs db" "rw_started_at ?w1" "[]"] insert(2) db(1) by simp
  next
    case (update as v bs)
    then show thesis using that [of as "rw_started_at v" bs] db(1) j by simp
  qed
  show ?thesis
  proof (cases rule: store_run_cases [where w = ?w2 and ws = "db_runs db1"])
    case insert
    then show ?thesis using open1 [of s] 1(1) by auto
  next
    case (update as' v bs')
    have "v = ?w1\<lparr>rw_started_at := s\<rparr> \<and> as' = as \<and> bs' = bs"
      using update(1-3) 1 open1 [of s] by (auto simp: append_eq_append_conv2 append_eq_Cons_conv Cons_eq_append_conv)
    then show ?thesis using update(4) db(2) 1(1) by auto
  qed
qed

theorem open_run_overwritten_witness:
  "\<exists>db :: cron_db. length (db_runs db) = 1 \<and>
     map rw_output (db_runs db) = [encode_run_output dec_codec (mark_running 70 None (run_pending 8 70 3 64 1))]"
proof -
  let ?r1 = "mark_dispatched 10 None ''queued'' (run_pending 7 5 3 4 1)"
  let ?r2 = "mark_running 70 None (run_pending 8 70 3 64 1)"
  let ?db = "\<lparr>db_jobs = [], db_runs = []\<rparr>"
  obtain db1 db2 where db: "upsert_run dec_codec None ?r1 ?db = Inr db1" "upsert_run dec_codec None ?r2 db1 = Inr db2"
    by (simp add: upsert_run_def)
  have "jr_finished_at ?r1 = None" "jr_job_id ?r2 = jr_job_id ?r1" by (simp_all add: mark_defs)
  from open_run_overwritten [OF this db] obtain as bs s where *:
    "length (db_runs db2) = length (db_runs db1)"
    "db_runs db1 = as @ (run_row_of dec_codec ?r1)\<lparr>rw_started_at := s\<rparr> # bs"
    "db_runs db2 = as @ (run_row_of dec_codec ?r2)\<lparr>rw_started_at := s\<rparr> # bs" by blast
  have "length (db_runs db1) = 1" using db(1) by (auto simp: upsert_run_def store_run_row_def)
  then have "as = [] \<and> bs = []" using *(2) by simp
  then have "length (db_runs db2) = 1 \<and> map rw_output (db_runs db2) = [encode_run_output dec_codec ?r2]"
    using *(3) by (simp add: run_row_of_def)
  then show ?thesis by (rule exI)
qed

end
