(* ===== verification/Cron_Engine.thy ===== *)
theory Cron_Engine
  imports Cron_Store
begin

text \<open>
  Dispatching and the engine: \<^verbatim>\<open>crates/ff-cron/src/dispatcher.rs\<close> and
  \<^verbatim>\<open>crates/ff-cron/src/engine.rs\<close>.

  Processes, the remote submitter, clock reads, fresh identifiers and the failures of the
  database are fields of the environment of one call. An operation that searches for the next
  run returns an option; \<open>None\<close> stands for a call that does not return: a search that does
  not end, or the panic of a time that leaves the calendar.
\<close>

section \<open>The dispatcher\<close>

datatype agent_task_kind =
  ShellTask string "u64 option"
| ModelInference "string option" string "u32 option"

record agent_task =
  ak_id :: uuid
  ak_created_at :: datetime
  ak_kind :: agent_task_kind

record dispatch_request =
  dr_job_id :: uuid
  dr_run_id :: uuid
  dr_task :: job_task
  dr_attempt :: u32

datatype dispatch_outcome =
  LocalCompleted string u64
| RemoteQueued uuid "string option"

record remote_dispatch_record =
  rd_task_id :: uuid
  rd_job_id :: uuid
  rd_run_id :: uuid
  rd_worker_hint :: "string option"
  rd_queued_at :: datetime

datatype dispatch_error =
  LocalExecution string
| RemoteDispatch string
| MissingRemoteSubmitter
| UnsupportedFleetTask string

fun dispatch_error_to_string :: "dispatch_error \<Rightarrow> string" where
  "dispatch_error_to_string (LocalExecution e) = ''local executor failed: '' @ e"
| "dispatch_error_to_string (RemoteDispatch e) = ''remote dispatcher failed: '' @ e"
| "dispatch_error_to_string MissingRemoteSubmitter = ''remote submitter not configured''"
| "dispatch_error_to_string (UnsupportedFleetTask e) = ''unsupported fleet task kind: '' @ e"

type_synonym in_flight = "(uuid, remote_dispatch_record) hmap"

record dispatch_env =
  dv_local_executor :: "string \<Rightarrow> u64 option \<Rightarrow> string + string"
  dv_remote_submitter :: "(agent_task \<Rightarrow> string option \<Rightarrow> string + uuid) option"
  dv_duration_ms :: u64
  dv_agent_task_id :: uuid
  dv_agent_task_now :: datetime
  dv_queued_at :: datetime

definition fleet_task_to_agent_task :: "uuid \<Rightarrow> datetime \<Rightarrow> string \<Rightarrow> json \<Rightarrow> (agent_task, string) result" where
  "fleet_task_to_agent_task uid now kind payload =
     (let k = to_ascii_lowercase (trim_ws kind);
          task_kind =
            (if k = ''shell_command''
             then (case Option.bind (json_get ''command'' payload) json_as_str of
                     None \<Rightarrow> Inl ''payload.command is required for shell_command''
                   | Some command \<Rightarrow> Inr (ShellTask command (Option.bind (json_get ''timeout_secs'' payload) json_as_u64)))
             else if k = ''model_inference''
             then (case Option.bind (json_get ''prompt'' payload) json_as_str of
                     None \<Rightarrow> Inl ''payload.prompt is required for model_inference''
                   | Some prompt \<Rightarrow>
                      Inr (ModelInference (Option.bind (json_get ''model'' payload) json_as_str) prompt
                             (map_option ucast (Option.bind (json_get ''max_tokens'' payload) json_as_u64))))
             else Inl (''unsupported fleet task kind '' @ [CHR 0x27] @ k @ [CHR 0x27] @
                       ''; expected shell_command or model_inference''))
      in case task_kind of Inl e \<Rightarrow> Inl e | Inr tk \<Rightarrow> Inr \<lparr>ak_id = uid, ak_created_at = now, ak_kind = tk\<rparr>)"

definition dispatch ::
  "dispatch_env \<Rightarrow> dispatch_request \<Rightarrow> in_flight \<Rightarrow> in_flight \<times> (dispatch_outcome, dispatch_error) result" where
  "dispatch env req fl =
     (case dr_task req of
        LocalCommand command timeout_secs \<Rightarrow>
          (case dv_local_executor env command timeout_secs of
             Inl e \<Rightarrow> (fl, Inl (LocalExecution e))
           | Inr output \<Rightarrow> (fl, Inr (LocalCompleted output (dv_duration_ms env))))
      | FleetTask kind payload worker_hint \<Rightarrow>
          (case dv_remote_submitter env of
             None \<Rightarrow> (fl, Inl MissingRemoteSubmitter)
           | Some submit \<Rightarrow>
              (case fleet_task_to_agent_task (dv_agent_task_id env) (dv_agent_task_now env) kind payload of
                 Inl e \<Rightarrow> (fl, Inl (UnsupportedFleetTask e))
               | Inr task \<Rightarrow>
                  (case submit task worker_hint of
                     Inl e \<Rightarrow> (fl, Inl (RemoteDispatch e))
                   | Inr task_id \<Rightarrow>
                      (hm_insert task_id \<lparr>rd_task_id = task_id, rd_job_id = dr_job_id req, rd_run_id = dr_run_id req,
                         rd_worker_hint = worker_hint, rd_queued_at = dv_queued_at env\<rparr> fl,
                       Inr (RemoteQueued task_id worker_hint))))))"

definition complete_remote_dispatch :: "uuid \<Rightarrow> in_flight \<Rightarrow> in_flight \<times> remote_dispatch_record option" where
  "complete_remote_dispatch task_id fl = (hm_remove task_id fl, hm_get fl task_id)"

definition list_remote_in_flight ::
  "(remote_dispatch_record list \<Rightarrow> remote_dispatch_record list) \<Rightarrow> in_flight \<Rightarrow> remote_dispatch_record list" where
  "list_remote_in_flight it fl = it (hm_values fl)"

text \<open>
  The default executor: \<open>proc\<close> is what \<open>sh -c\<close> does with the command (it cannot be started,
  or it exits with a code, its output and its error output), \<open>in_time\<close> whether it ends
  within a time limit.
\<close>

definition default_local_executor ::
  "(string \<Rightarrow> string + int option \<times> string \<times> string) \<Rightarrow> (u64 \<Rightarrow> bool) \<Rightarrow> string \<Rightarrow> u64 option \<Rightarrow> string + string" where
  "default_local_executor proc in_time command timeout_secs =
     (let finished =
        (case proc command of
           Inl e \<Rightarrow> Inl e
         | Inr (code, stdout, stderr) \<Rightarrow>
            (let combined = trim_ws (stdout @ stderr) in
             if code = Some 0 then Inr combined
             else Inl (''command failed with status '' @ debug_int_option code @ '': '' @ combined)))
      in case timeout_secs of
           Some t \<Rightarrow> (if in_time t then finished else Inl (''command timed out after '' @ show_nat (unat t) @ ''s''))
         | None \<Rightarrow> finished)"

section \<open>The engine\<close>

datatype engine_error =
  JobNotFound uuid
| ScheduleFailed schedule_error
| DispatchFailed dispatch_error
| PersistenceFailed persistence_error

record cron_engine =
  ce_jobs :: "(uuid, job_definition) hmap"
  ce_runs :: "(uuid, job_run) hmap"
  ce_in_flight :: in_flight
  ce_persistence :: "cron_db option"
  ce_policy :: scheduling_policy

definition cron_engine_new :: "in_flight \<Rightarrow> cron_db option \<Rightarrow> scheduling_policy \<Rightarrow> cron_engine" where
  "cron_engine_new fl db policy =
     \<lparr>ce_jobs = [], ce_runs = [], ce_in_flight = fl, ce_persistence = db, ce_policy = policy\<rparr>"

record job_env =
  je_dispatch :: dispatch_env
  je_run_id :: uuid
  je_created :: datetime
  je_started :: datetime
  je_finished :: datetime
  je_updated :: datetime
  je_fault :: "nat \<Rightarrow> string option"

definition get_job :: "uuid \<Rightarrow> cron_engine \<Rightarrow> job_definition option" where
  "get_job job_id e = hm_get (ce_jobs e) job_id"

definition list_jobs :: "(job_definition list \<Rightarrow> job_definition list) \<Rightarrow> cron_engine \<Rightarrow> job_definition list" where
  "list_jobs it e = it (hm_values (ce_jobs e))"

definition list_runs :: "(job_run list \<Rightarrow> job_run list) \<Rightarrow> cron_engine \<Rightarrow> job_run list" where
  "list_runs it e = it (hm_values (ce_runs e))"

definition load_from_persistence ::
  "codec \<Rightarrow> string option \<Rightarrow> (job_row list \<Rightarrow> job_row list) \<Rightarrow> cron_engine \<Rightarrow> cron_engine \<times> (nat, engine_error) result" where
  "load_from_persistence c fault sorter e =
     (case ce_persistence e of
        None \<Rightarrow> (e, Inr 0)
      | Some db \<Rightarrow>
         (case db_list_jobs c fault sorter True db of
            Inl err \<Rightarrow> (e, Inl (PersistenceFailed err))
          | Inr jobs \<Rightarrow>
             (e\<lparr>ce_jobs := fold (\<lambda>job. hm_insert (jd_id job) job) jobs (ce_jobs e)\<rparr>, Inr (length jobs))))"

definition store_job ::
  "codec \<Rightarrow> string option \<Rightarrow> job_definition \<Rightarrow> cron_engine \<Rightarrow> cron_engine \<times> (unit, engine_error) result" where
  "store_job c fault job e =
     (case ce_persistence e of
        None \<Rightarrow> (e, Inr ())
      | Some db \<Rightarrow>
         (case upsert_job c fault job db of
            Inl err \<Rightarrow> (e, Inl (PersistenceFailed err))
          | Inr db' \<Rightarrow> (e\<lparr>ce_persistence := Some db'\<rparr>, Inr ())))"

definition persist_and_replace_job ::
  "codec \<Rightarrow> string option \<Rightarrow> job_definition \<Rightarrow> cron_engine \<Rightarrow> cron_engine \<times> (unit, engine_error) result" where
  "persist_and_replace_job c fault job e =
     store_job c fault job (e\<lparr>ce_jobs := hm_insert (jd_id job) job (ce_jobs e)\<rparr>)"

definition persist_run ::
  "codec \<Rightarrow> string option \<Rightarrow> job_run \<Rightarrow> cron_engine \<Rightarrow> cron_engine \<times> (unit, engine_error) result" where
  "persist_run c fault run e =
     (case ce_persistence e of
        None \<Rightarrow> (e, Inr ())
      | Some db \<Rightarrow>
         (case upsert_run c fault run db of
            Inl err \<Rightarrow> (e, Inl (PersistenceFailed err))
          | Inr db' \<Rightarrow> (e\<lparr>ce_persistence := Some db'\<rparr>, Inr ())))"

definition add_job ::
  "calendar \<Rightarrow> codec \<Rightarrow> string option \<Rightarrow> datetime \<Rightarrow> datetime \<Rightarrow> job_definition \<Rightarrow> cron_engine
   \<Rightarrow> (cron_engine \<times> (uuid, engine_error) result) option" where
  "add_job cal c fault now updated job e =
     (case (if jd_next_run_at job = None then recompute_next_run cal updated now job else Some (Inr job)) of
        None \<Rightarrow> None
      | Some (Inl err) \<Rightarrow> Some (e, Inl (ScheduleFailed err))
      | Some (Inr job') \<Rightarrow>
         Some (case store_job c fault job' (e\<lparr>ce_jobs := hm_insert (jd_id job') job' (ce_jobs e)\<rparr>) of
                 (e', Inl err) \<Rightarrow> (e', Inl err)
               | (e', Inr _) \<Rightarrow> (e', Inr (jd_id job'))))"

definition remove_job ::
  "codec \<Rightarrow> string option \<Rightarrow> uuid \<Rightarrow> cron_engine \<Rightarrow> cron_engine \<times> (bool, engine_error) result" where
  "remove_job c fault job_id e =
     (let removed = hm_contains (ce_jobs e) job_id;
          e1 = e\<lparr>ce_jobs := hm_remove job_id (ce_jobs e)\<rparr>
      in case (removed, ce_persistence e1) of
           (True, Some db) \<Rightarrow>
             (case delete_job c fault job_id db of
                Inl err \<Rightarrow> (e1, Inl (PersistenceFailed err))
              | Inr (db', _) \<Rightarrow> (e1\<lparr>ce_persistence := Some db'\<rparr>, Inr removed))
         | _ \<Rightarrow> (e1, Inr removed))"

text \<open>
  \<open>DateTime + Duration\<close>, which panics outside the calendar, and \<open>Duration::from_std\<close>, which
  refuses more than \<open>i64::MAX\<close> milliseconds.
\<close>

definition checked_time :: "calendar \<Rightarrow> datetime \<Rightarrow> datetime option" where
  "checked_time cal t =
     (let (y, m, d) = cal_ymd cal (day_of t) in case cal_day cal y m d of None \<Rightarrow> None | Some _ \<Rightarrow> Some t)"

definition from_std_or_default :: "nat \<Rightarrow> duration" where
  "from_std_or_default d = (if d \<le> 9223372036854775 then secs (int d) else 0)"

text \<open>What a finished dispatch does to the run and to the job.\<close>

definition settle_failure ::
  "calendar \<Rightarrow> scheduling_policy \<Rightarrow> datetime \<Rightarrow> datetime \<Rightarrow> job_definition
   \<Rightarrow> (job_definition, schedule_error) result option" where
  "settle_failure cal policy updated now job =
     (if can_retry job
      then (let retry_attempt = saturating_add (jd_consecutive_failures job) 1;
                delay = retry_delay policy retry_attempt
            in map_option (\<lambda>retry_at. Inr (note_failure_with_retry updated now retry_at job))
                 (checked_time cal (now + from_std_or_default delay)))
      else recompute_next_run cal updated now job)"

definition settle ::
  "calendar \<Rightarrow> codec \<Rightarrow> scheduling_policy \<Rightarrow> job_env \<Rightarrow> datetime \<Rightarrow> (dispatch_outcome, dispatch_error) result
   \<Rightarrow> job_run \<Rightarrow> job_definition \<Rightarrow> job_run \<times> (job_definition, schedule_error) result option" where
  "settle cal c policy env now res run job =
     (case res of
        Inr (LocalCompleted output duration_ms) \<Rightarrow>
          ((mark_success (je_finished env) output run)\<lparr>jr_output :=
              Some (output @ [CHR 0x0A] @ ''(duration_ms='' @ show_nat (unat duration_ms) @ '')'')\<rparr>,
           note_success cal (je_updated env) now job)
      | Inr (RemoteQueued task_id worker_hint) \<Rightarrow>
          (mark_dispatched (je_finished env) worker_hint (''queued to ff-mesh task_id='' @ co_uuid c task_id) run,
           note_success cal (je_updated env) now job)
      | Inl err \<Rightarrow>
          (mark_failure (je_finished env) (dispatch_error_to_string err) run,
           settle_failure cal policy (je_updated env) now job))"

definition finish_run ::
  "codec \<Rightarrow> job_env \<Rightarrow> job_run \<Rightarrow> job_definition \<Rightarrow> cron_engine \<Rightarrow> cron_engine \<times> (job_run option, engine_error) result" where
  "finish_run c env run job e =
     (case persist_and_replace_job c (je_fault env 1) job e of
        (e1, Inl err) \<Rightarrow> (e1, Inl err)
      | (e1, Inr _) \<Rightarrow>
         (case persist_run c (je_fault env 2) run e1 of
            (e2, Inl err) \<Rightarrow> (e2, Inl err)
          | (e2, Inr _) \<Rightarrow> (e2\<lparr>ce_runs := hm_insert (jr_id run) run (ce_runs e2)\<rparr>, Inr (Some run))))"

definition started_run :: "job_env \<Rightarrow> datetime \<Rightarrow> job_definition \<Rightarrow> job_run" where
  "started_run env now job =
     mark_running (je_started env) (jo_owner_node (jd_ownership job))
       (run_pending (je_run_id env) (je_created env) (jd_id job)
          (case jd_next_run_at job of Some t \<Rightarrow> t | None \<Rightarrow> now) (saturating_add (jd_consecutive_failures job) 1))"

definition run_job ::
  "calendar \<Rightarrow> codec \<Rightarrow> job_env \<Rightarrow> datetime \<Rightarrow> job_definition \<Rightarrow> cron_engine
   \<Rightarrow> (cron_engine \<times> (job_run option, engine_error) result) option" where
  "run_job cal c env now job e =
     (let run = started_run env now job
      in case persist_run c (je_fault env 0) run e of
           (e1, Inl err) \<Rightarrow> Some (e1, Inl err)
         | (e1, Inr _) \<Rightarrow>
            (let (fl, res) = dispatch (je_dispatch env)
                   \<lparr>dr_job_id = jd_id job, dr_run_id = jr_id run, dr_task = jd_task job, dr_attempt = jr_attempt run\<rparr>
                   (ce_in_flight e1);
                 e2 = e1\<lparr>ce_in_flight := fl\<rparr>;
                 (run', next) = settle cal c (ce_policy e2) env now res run job
             in case next of
                  None \<Rightarrow> None
                | Some (Inl err) \<Rightarrow> Some (e2, Inl (ScheduleFailed err))
                | Some (Inr job') \<Rightarrow> Some (finish_run c env run' job' e2)))"

definition execute_job ::
  "calendar \<Rightarrow> codec \<Rightarrow> job_env \<Rightarrow> uuid \<Rightarrow> datetime \<Rightarrow> cron_engine
   \<Rightarrow> (cron_engine \<times> (job_run option, engine_error) result) option" where
  "execute_job cal c env job_id now e =
     (case get_job job_id e of
        None \<Rightarrow> Some (e, Inl (JobNotFound job_id))
      | Some job \<Rightarrow>
         (if \<not> policy_should_run (ce_policy e) (jd_priority job) now
          then Some (case defer_until cal (ce_policy e) (jd_priority job) now of
                       None \<Rightarrow> (e, Inr None)
                     | Some deferred_until \<Rightarrow>
                        (case persist_and_replace_job c (je_fault env 0)
                                (job\<lparr>jd_next_run_at := Some deferred_until, jd_updated_at := je_updated env\<rparr>) e of
                           (e1, Inl err) \<Rightarrow> (e1, Inl err)
                         | (e1, Inr _) \<Rightarrow> (e1, Inr None)))
          else run_job cal c env now job e))"

text \<open>A tick: the due jobs are collected first and then executed one after another.\<close>

definition due_job_ids ::
  "((uuid \<times> job_definition) list \<Rightarrow> (uuid \<times> job_definition) list) \<Rightarrow> datetime \<Rightarrow> cron_engine \<Rightarrow> uuid list" where
  "due_job_ids it now e = map fst (filter (\<lambda>(k, job). job_should_run_at job now) (it (ce_jobs e)))"

fun execute_all ::
  "calendar \<Rightarrow> codec \<Rightarrow> (uuid \<Rightarrow> job_env) \<Rightarrow> datetime \<Rightarrow> uuid list \<Rightarrow> job_run list \<Rightarrow> cron_engine
   \<Rightarrow> (cron_engine \<times> (job_run list, engine_error) result) option" where
  "execute_all cal c envs now [] executed e = Some (e, Inr executed)"
| "execute_all cal c envs now (job_id # ids) executed e =
     (case execute_job cal c (envs job_id) job_id now e of
        None \<Rightarrow> None
      | Some (e1, Inl err) \<Rightarrow> Some (e1, Inl err)
      | Some (e1, Inr None) \<Rightarrow> execute_all cal c envs now ids executed e1
      | Some (e1, Inr (Some run)) \<Rightarrow> execute_all cal c envs now ids (executed @ [run]) e1)"

definition execute_due_jobs ::
  "calendar \<Rightarrow> codec \<Rightarrow> ((uuid \<times> job_definition) list \<Rightarrow> (uuid \<times> job_definition) list) \<Rightarrow> (uuid \<Rightarrow> job_env)
   \<Rightarrow> datetime \<Rightarrow> cron_engine \<Rightarrow> (cron_engine \<times> (job_run list, engine_error) result) option" where
  "execute_due_jobs cal c it envs now e = execute_all cal c envs now (due_job_ids it now e) [] e"

definition cleanup_in_memory_runs ::
  "((uuid \<times> job_run) list \<Rightarrow> (uuid \<times> job_run) list) \<Rightarrow> nat \<Rightarrow> cron_engine \<Rightarrow> cron_engine \<times> nat" where
  "cleanup_in_memory_runs it keep_last e =
     (let runs = sort_key jr_created_at (map snd (it (ce_runs e)))
      in if length runs \<le> keep_last then (e, 0)
         else (let remove_count = length runs - keep_last
               in (e\<lparr>ce_runs := fold (\<lambda>run. hm_remove (jr_id run)) (take remove_count runs) (ce_runs e)\<rparr>, remove_count)))"

text \<open>The result is stored by a task of its own, whose failure is only logged.\<close>

definition mark_remote_result ::
  "codec \<Rightarrow> string option \<Rightarrow> datetime \<Rightarrow> uuid \<Rightarrow> run_status \<Rightarrow> string option \<Rightarrow> string option \<Rightarrow> cron_engine \<Rightarrow> cron_engine" where
  "mark_remote_result c fault now task_id status output error e =
     (case complete_remote_dispatch task_id (ce_in_flight e) of
        (fl, None) \<Rightarrow> e\<lparr>ce_in_flight := fl\<rparr>
      | (fl, Some record) \<Rightarrow>
         (case hm_get (ce_runs e) (rd_run_id record) of
            None \<Rightarrow> e\<lparr>ce_in_flight := fl\<rparr>
          | Some run \<Rightarrow>
             (let run' = run\<lparr>jr_status := status, jr_finished_at := Some now, jr_output := output, jr_error := error\<rparr>;
                  e1 = e\<lparr>ce_in_flight := fl, ce_runs := hm_insert (rd_run_id record) run' (ce_runs e)\<rparr>
              in fst (persist_run c fault run' e1))))"

end
