(* ===== verification/Cron_Tick.thy ===== *)
theory Cron_Tick
  imports Cron_Engine
begin

text \<open>
  What a tick of the engine of \<open>Cron_Engine\<close> does: a job that can be scheduled runs once,
  is not due any more afterwards and leaves the other jobs alone; which jobs break that.
\<close>

section \<open>Computing the next run\<close>

definition schedulable :: "job_definition \<Rightarrow> bool" where
  "schedulable job \<longleftrightarrow> (\<exists>s. cron_parse (jd_schedule_expression job) = Inr s)"

lemma recompute_returns:
  assumes "civil_calendar cal lo hi" "schedulable job" "lo \<le> year_of cal start" "year_of cal start + 10 < hi"
  obtains nr where "recompute_next_run cal upd start job = Some (Inr (job\<lparr>jd_next_run_at := nr, jd_updated_at := upd\<rparr>))"
    "\<And>t. nr = Some t \<Longrightarrow> start < t"
proof -
  obtain s where s: "cron_parse (jd_schedule_expression job) = Inr s" using assms(2) by (auto simp: schedulable_def)
  from next_after_search [OF assms(1) s assms(3, 4)] obtain nr where
    "next_after cal s start = Some nr" "\<And>t. nr = Some t \<Longrightarrow> start < t" by (auto split: option.splits)
  then show thesis using that [of nr] s by (simp add: recompute_next_run_def validate_schedule_def)
qed

lemma checked_time_iff:
  assumes "civil_calendar cal lo hi"
  shows "checked_time cal t = (if lo \<le> year_of cal t \<and> year_of cal t \<le> hi then Some t else None)"
proof -
  obtain y m d where ymd: "cal_ymd cal (day_of t) = (y, m, d)" by (metis prod_cases3)
  have "cal_day cal y m d = (if lo \<le> y \<and> y \<le> hi then Some (day_of t) else None)"
    using civil_calendar.day_iff [OF assms, of y m d] civil_calendar.ymd_inject [OF assms] ymd
    by (cases "cal_day cal y m d") auto
  then show ?thesis by (simp add: checked_time_def ymd year_of_def)
qed

lemma quiet_ends_some:
  assumes cal: "civil_calendar cal lo hi" and q: "is_quiet q now" "east_opt q \<noteq> None" "unat (qh_end_hour q) < 24"
    and year: "lo < year_of cal now" "year_of cal now + 2 \<le> hi"
  obtains T where "quiet_ends_at cal q now = Some T"
proof -
  obtain off where off: "east_opt q = Some off" using q(2) by blast
  then have r: "- 86400 < off" "off < 86400" by (auto simp: east_opt_def Let_def split: if_splits)
  define D where "D = day_of (now + secs off)"
  have D: "day_of now - 1 \<le> D" "D \<le> day_of now + 1" unfolding D_def day_of_def using r by linarith+
  have y: "lo \<le> fst (cal_ymd cal E)" "fst (cal_ymd cal E) \<le> hi" if "E = D \<or> E = D + 1" for E
    using civil_calendar.year_mono [OF cal, of "day_of now - 1" E] civil_calendar.year_mono [OF cal, of E "day_of now + 1 + 1"]
      civil_calendar.next_day_year [OF cal, of "day_of now - 1"] civil_calendar.next_day_year [OF cal, of "day_of now"]
      civil_calendar.next_day_year [OF cal, of "day_of now + 1"] year that D
    by (auto simp: year_of_def)
  define E where "E = (if qh_start_hour q < qh_end_hour q then D
    else if unat (qh_start_hour q) \<le> hour_of (now + secs off) then D + 1 else D)"
  have "E = D \<or> E = D + 1" by (simp add: E_def)
  from civil_calendar.make_utc_day [OF cal y [OF this] q(3), of 0]
  have "quiet_ends_at cal q now = Some (at_time E (unat (qh_end_hour q)) 0 - secs off)"
    using q(1) off by (auto simp: quiet_ends_at_def Let_def case_prod_beta D_def [symmetric] E_def split: if_splits)
  then show thesis by (rule that)
qed

section \<open>One job\<close>

text \<open>
  What a tick needs to know of the engine: its jobs can be scheduled and are kept under
  their ids, the retry delays are positive and stay within the calendar, and the quiet hours,
  if any, are a proper window.
\<close>

definition quiet_ready :: "quiet_hours_policy \<Rightarrow> bool" where
  "quiet_ready q \<longleftrightarrow> qh_start_hour q \<noteq> qh_end_hour q \<and> unat (qh_end_hour q) < 24"

definition policy_ready :: "calendar \<Rightarrow> scheduling_policy \<Rightarrow> datetime \<Rightarrow> bool" where
  "policy_ready cal p now \<longleftrightarrow>
     (case sp_quiet_hours p of None \<Rightarrow> True | Some q \<Rightarrow> quiet_ready q) \<and>
     0 < unat (bp_initial_delay_secs (sp_backoff p)) \<and>
     unat (bp_initial_delay_secs (sp_backoff p)) \<le> unat (bp_max_delay_secs (sp_backoff p)) \<and>
     unat (bp_max_delay_secs (sp_backoff p)) \<le> 9223372036854775 \<and>
     checked_time cal (now + secs (int (unat (bp_max_delay_secs (sp_backoff p))))) \<noteq> None"

definition jobs_ready :: "(uuid, job_definition) hmap \<Rightarrow> bool" where
  "jobs_ready jobs \<longleftrightarrow> hm_wf jobs \<and> (\<forall>k job. hm_get jobs k = Some job \<longrightarrow> jd_id job = k \<and> schedulable job)"

definition years_ready :: "calendar \<Rightarrow> int \<Rightarrow> int \<Rightarrow> datetime \<Rightarrow> bool" where
  "years_ready cal lo hi now \<longleftrightarrow> lo < year_of cal now \<and> year_of cal now + 10 < hi"

text \<open>A job as a tick leaves it: the same job, not due at the time of the tick.\<close>

definition settled :: "datetime \<Rightarrow> job_definition \<Rightarrow> job_definition \<Rightarrow> bool" where
  "settled now job job' \<longleftrightarrow> \<not> job_should_run_at job' now \<and> jd_id job' = jd_id job \<and>
     jd_schedule_expression job' = jd_schedule_expression job \<and> jd_priority job' = jd_priority job \<and>
     jd_retry job' = jd_retry job \<and> jd_task job' = jd_task job \<and> jd_enabled job' = jd_enabled job"

lemma settle_failure_ready:
  assumes cal: "civil_calendar cal lo hi" and job: "schedulable job" and p: "policy_ready cal p now"
    and y: "years_ready cal lo hi now"
  obtains job' where "settle_failure cal p upd now job = Some (Inr job')" "settled now job job'"
    "can_retry job \<Longrightarrow> jd_next_run_at job' = Some (now + secs (int (retry_delay p (saturating_add (jd_consecutive_failures job) 1)))) \<and>
       unat (jd_consecutive_failures job') = unat (jd_consecutive_failures job) + 1 \<and> jd_last_run_at job' = Some now"
    "\<not> can_retry job \<Longrightarrow> jd_consecutive_failures job' = jd_consecutive_failures job \<and> jd_last_run_at job' = jd_last_run_at job"
proof (cases "can_retry job")
  case True
  let ?a = "saturating_add (jd_consecutive_failures job) 1"
  let ?d = "retry_delay p ?a" and ?M = "unat (bp_max_delay_secs (sp_backoff p))"
  have a: "?a \<noteq> 0" using unat_saturating_add [of "jd_consecutive_failures job" 1] by (auto simp: unat_eq_0 [symmetric])
  have M: "0 < unat (bp_initial_delay_secs (sp_backoff p))" "unat (bp_initial_delay_secs (sp_backoff p)) \<le> ?M"
    "?M \<le> 9223372036854775" "checked_time cal (now + secs (int ?M)) \<noteq> None"
    using p by (simp_all add: policy_ready_def)
  have d: "0 < ?d" "?d \<le> ?M"
    using delay_bounds(2) [OF a M(2)] delay_bounds(1) [of "sp_backoff p" ?a] M(1) by (simp_all add: retry_delay_def)
  then have std: "from_std_or_default ?d = secs (int ?d)" using M(3) by (simp add: from_std_or_default_def)
  have "year_of cal (now + secs (int ?d)) \<le> year_of cal (now + secs (int ?M))"
    using d(2) by (intro civil_calendar.year_of_mono [OF cal] add_left_mono mult_right_mono) (simp_all only: of_nat_le_iff)
  moreover have "year_of cal now \<le> year_of cal (now + secs (int ?d))"
    by (intro civil_calendar.year_of_mono [OF cal]) simp
  ultimately have "checked_time cal (now + secs (int ?d)) = Some (now + secs (int ?d))"
    using M(4) y unfolding checked_time_iff [OF cal] years_ready_def by (auto split: if_splits)
  then have s: "settle_failure cal p upd now job =
      Some (Inr (note_failure_with_retry upd now (now + secs (int ?d)) job))"
    using True by (simp add: settle_failure_def Let_def std)
  have "settled now job (note_failure_with_retry upd now (now + secs (int ?d)) job)"
    using d(1) by (simp add: settled_def job_should_run_at_def note_failure_with_retry_def)
  then show thesis using that [OF s] True note_failure_count [OF True]
    by (simp add: note_failure_with_retry_def)
next
  case False
  obtain nr where nr: "recompute_next_run cal upd now job = Some (Inr (job\<lparr>jd_next_run_at := nr, jd_updated_at := upd\<rparr>))"
    "\<And>t. nr = Some t \<Longrightarrow> now < t"
    using recompute_returns [OF cal job, of now upd] y by (auto simp: years_ready_def)
  have "settled now job (job\<lparr>jd_next_run_at := nr, jd_updated_at := upd\<rparr>)"
    using nr(2) by (auto simp: settled_def job_should_run_at_def split: option.splits)
  then show thesis using that [of "job\<lparr>jd_next_run_at := nr, jd_updated_at := upd\<rparr>"] nr(1) False
    by (simp add: settle_failure_def)
qed

lemma note_success_ready:
  assumes cal: "civil_calendar cal lo hi" and job: "schedulable job" and y: "years_ready cal lo hi now"
  obtains job' where "note_success cal upd now job = Some (Inr job')" "settled now job job'"
    "jd_consecutive_failures job' = 0" "jd_last_run_at job' = Some now"
proof -
  let ?job = "job\<lparr>jd_last_run_at := Some now, jd_consecutive_failures := 0\<rparr>"
  have "schedulable ?job" using job by (simp add: schedulable_def)
  then obtain nr where nr: "recompute_next_run cal upd now ?job = Some (Inr (?job\<lparr>jd_next_run_at := nr, jd_updated_at := upd\<rparr>))"
    "\<And>t. nr = Some t \<Longrightarrow> now < t"
    using recompute_returns [OF cal, of ?job now upd] y by (auto simp: years_ready_def)
  have "settled now job (?job\<lparr>jd_next_run_at := nr, jd_updated_at := upd\<rparr>)"
    using nr(2) by (auto simp: settled_def job_should_run_at_def split: option.splits)
  then show thesis using that [of "?job\<lparr>jd_next_run_at := nr, jd_updated_at := upd\<rparr>"] nr(1)
    by (simp add: note_success_def)
qed

text \<open>The job after a dispatch, as the source promises it for each result.\<close>

definition dispatch_effect ::
  "scheduling_policy \<Rightarrow> datetime \<Rightarrow> (dispatch_outcome, dispatch_error) result \<Rightarrow> job_definition \<Rightarrow> job_definition \<Rightarrow> bool" where
  "dispatch_effect p now res job job' \<longleftrightarrow>
     (case res of
        Inr _ \<Rightarrow> jd_consecutive_failures job' = 0 \<and> jd_last_run_at job' = Some now
      | Inl _ \<Rightarrow>
         if can_retry job
         then jd_next_run_at job' = Some (now + secs (int (retry_delay p (saturating_add (jd_consecutive_failures job) 1)))) \<and>
              unat (jd_consecutive_failures job') = unat (jd_consecutive_failures job) + 1 \<and> jd_last_run_at job' = Some now
         else jd_consecutive_failures job' = jd_consecutive_failures job \<and> jd_last_run_at job' = jd_last_run_at job)"

definition outcome_status :: "(dispatch_outcome, dispatch_error) result \<Rightarrow> run_status" where
  "outcome_status res = (case res of Inr (LocalCompleted _ _) \<Rightarrow> RunSucceeded | Inr (RemoteQueued _ _) \<Rightarrow> RunDispatched | Inl _ \<Rightarrow> RunFailed)"

definition run_kept :: "job_run \<Rightarrow> job_run \<Rightarrow> bool" where
  "run_kept run run' \<longleftrightarrow> jr_id run' = jr_id run \<and> jr_job_id run' = jr_job_id run \<and> jr_attempt run' = jr_attempt run \<and>
     jr_scheduled_for run' = jr_scheduled_for run"

lemma settle_ready:
  assumes cal: "civil_calendar cal lo hi" and job: "schedulable job" and p: "policy_ready cal p now"
    and y: "years_ready cal lo hi now" and run: "jr_finished_at run = None"
  obtains run' job' where "settle cal c p env now res run job = (run', Some (Inr job'))" "settled now job job'"
    "dispatch_effect p now res job job'" "jr_status run' = outcome_status res" "run_kept run run'" "run_ok run'"
proof (cases res)
  case (Inl err)
  obtain job' where *: "settle_failure cal p (je_updated env) now job = Some (Inr job')" "settled now job job'"
    "dispatch_effect p now res job job'"
    by (rule settle_failure_ready [OF cal job p y, of "je_updated env"]) (simp add: Inl dispatch_effect_def)
  show thesis
    using that [of "mark_failure (je_finished env) (dispatch_error_to_string err) run" job'] * run_ok_marks(5)
    by (simp add: settle_def Inl outcome_status_def run_kept_def mark_failure_def start_if_unset_def)
next
  case (Inr out)
  obtain job' where *: "note_success cal (je_updated env) now job = Some (Inr job')" "settled now job job'"
    "dispatch_effect p now res job job'"
    by (rule note_success_ready [OF cal job y, of "je_updated env"]) (simp add: Inr dispatch_effect_def)
  show thesis
  proof (cases out)
    case (LocalCompleted s ms)
    then show thesis
      using that [of "fst (settle cal c p env now res run job)" job'] *
      by (simp add: settle_def Inr outcome_status_def run_kept_def mark_success_def start_if_unset_def run_ok_def)
  next
    case (RemoteQueued tid hint)
    then show thesis
      using that [of "fst (settle cal c p env now res run job)" job'] * run
      by (simp add: settle_def Inr outcome_status_def run_kept_def mark_dispatched_def start_if_unset_def run_ok_def)
  qed
qed

text \<open>The result of the dispatch that executing a job makes.\<close>

definition job_dispatch ::
  "job_env \<Rightarrow> datetime \<Rightarrow> job_definition \<Rightarrow> in_flight \<Rightarrow> in_flight \<times> (dispatch_outcome, dispatch_error) result" where
  "job_dispatch env now job fl =
     (let run = started_run env now job in
      dispatch (je_dispatch env)
        \<lparr>dr_job_id = jd_id job, dr_run_id = jr_id run, dr_task = jd_task job, dr_attempt = jr_attempt run\<rparr> fl)"

lemma started_run_fields:
  "jr_id (started_run env now job) = je_run_id env" "jr_job_id (started_run env now job) = jd_id job"
  "jr_finished_at (started_run env now job) = None"
  "jr_attempt (started_run env now job) = saturating_add (jd_consecutive_failures job) 1"
  by (simp_all add: started_run_def mark_defs)

lemma run_job_ready:
  assumes cal: "civil_calendar cal lo hi" and job: "schedulable job" "jd_id job = k" and p: "policy_ready cal (ce_policy e) now"
    and y: "years_ready cal lo hi now" and e: "ce_persistence e = None"
  obtains run job' where
    "run_job cal c env now job e =
       Some (e\<lparr>ce_jobs := hm_insert k job' (ce_jobs e), ce_runs := hm_insert (je_run_id env) run (ce_runs e),
               ce_in_flight := fst (job_dispatch env now job (ce_in_flight e))\<rparr>, Inr (Some run))"
    "settled now job job'" "dispatch_effect (ce_policy e) now (snd (job_dispatch env now job (ce_in_flight e))) job job'"
    "jr_status run = outcome_status (snd (job_dispatch env now job (ce_in_flight e)))"
    "run_kept (started_run env now job) run" "run_ok run"
proof -
  obtain fl res where fr: "job_dispatch env now job (ce_in_flight e) = (fl, res)" by fastforce
  obtain run' job' where *:
    "settle cal c (ce_policy e) env now res (started_run env now job) job = (run', Some (Inr job'))" "settled now job job'"
    "dispatch_effect (ce_policy e) now res job job'" "jr_status run' = outcome_status res"
    "run_kept (started_run env now job) run'" "run_ok run'"
    using settle_ready [OF cal job(1) p y started_run_fields(3)] .
  have "jd_id job' = k" "jr_id run' = je_run_id env"
    using *(2, 5) job(2) by (simp_all add: settled_def run_kept_def started_run_fields)
  then have "run_job cal c env now job e =
      Some (e\<lparr>ce_jobs := hm_insert k job' (ce_jobs e), ce_runs := hm_insert (je_run_id env) run' (ce_runs e),
              ce_in_flight := fl\<rparr>, Inr (Some run'))"
    using fr *(1) e
    by (simp add: run_job_def persist_run_def job_dispatch_def Let_def finish_run_def persist_and_replace_job_def store_job_def)
  then show thesis using that [of run' job'] * fr by simp
qed

lemma defer_ready:
  assumes cal: "civil_calendar cal lo hi" and p: "policy_ready cal p now" and y: "years_ready cal lo hi now"
    and hold: "\<not> policy_should_run p pr now"
  obtains T where "defer_until cal p pr now = Some T" "now < T"
proof -
  obtain q where q: "sp_quiet_hours p = Some q" "held_back p pr q now"
    using hold by (auto simp: policy_should_run_def split: option.splits)
  then have quiet: "is_quiet q now" "east_opt q \<noteq> None" by (auto simp: held_back_def is_quiet_def split: option.splits)
  have qr: "qh_start_hour q \<noteq> qh_end_hour q" "unat (qh_end_hour q) < 24"
    using p q(1) by (auto simp: policy_ready_def quiet_ready_def)
  obtain T where T: "quiet_ends_at cal q now = Some T"
    using quiet_ends_some [OF cal quiet qr(2)] y by (auto simp: years_ready_def)
  then show thesis using that [of T] quiet_ends_search [OF cal qr(1) T] q by (simp add: defer_until_def)
qed

section \<open>A tick\<close>

lemma execute_job_ready:
  assumes cal: "civil_calendar cal lo hi" and jobs: "jobs_ready (ce_jobs e)" "get_job k e = Some job"
    and p: "policy_ready cal (ce_policy e) now" and y: "years_ready cal lo hi now" and e: "ce_persistence e = None"
  obtains e' r job' where "execute_job cal c env k now e = Some (e', Inr r)"
    "ce_jobs e' = hm_insert k job' (ce_jobs e)" "settled now job job'" "ce_policy e' = ce_policy e" "ce_persistence e' = None"
    "if policy_should_run (ce_policy e) (jd_priority job) now
     then \<exists>run. r = Some run \<and> jr_job_id run = k \<and> jr_id run = je_run_id env \<and> run_ok run \<and>
                ce_runs e' = hm_insert (jr_id run) run (ce_runs e)
     else r = None \<and> ce_runs e' = ce_runs e"
proof (cases "policy_should_run (ce_policy e) (jd_priority job) now")
  case True
  have job: "schedulable job" "jd_id job = k" using jobs by (auto simp: jobs_ready_def get_job_def)
  obtain run job' where *: "run_job cal c env now job e =
       Some (e\<lparr>ce_jobs := hm_insert k job' (ce_jobs e), ce_runs := hm_insert (je_run_id env) run (ce_runs e),
               ce_in_flight := fst (job_dispatch env now job (ce_in_flight e))\<rparr>, Inr (Some run))"
    "settled now job job'" "run_kept (started_run env now job) run" "run_ok run"
    using run_job_ready [OF cal job p y e] .
  have ex: "execute_job cal c env k now e =
       Some (e\<lparr>ce_jobs := hm_insert k job' (ce_jobs e), ce_runs := hm_insert (je_run_id env) run (ce_runs e),
               ce_in_flight := fst (job_dispatch env now job (ce_in_flight e))\<rparr>, Inr (Some run))"
    using True jobs(2) *(1) by (simp add: execute_job_def)
  have "jr_job_id run = k" "jr_id run = je_run_id env" using *(3) job(2) by (simp_all add: run_kept_def started_run_fields)
  then show thesis by (intro that [OF ex _ *(2)]) (simp_all add: True e *(4))
next
  case False
  obtain T where T: "defer_until cal (ce_policy e) (jd_priority job) now = Some T" "now < T"
    using defer_ready [OF cal p y False] .
  let ?job = "job\<lparr>jd_next_run_at := Some T, jd_updated_at := je_updated env\<rparr>"
  have "settled now job ?job" using T(2) by (simp add: settled_def job_should_run_at_def)
  moreover have "jd_id job = k" using jobs by (auto simp: jobs_ready_def get_job_def)
  ultimately show thesis
    using that [of "e\<lparr>ce_jobs := hm_insert k ?job (ce_jobs e)\<rparr>" None ?job] False T(1) jobs(2) e
    by (simp add: execute_job_def persist_and_replace_job_def store_job_def)
qed

lemma settled_ready: "settled now job job' \<Longrightarrow> schedulable job \<Longrightarrow> schedulable job'"
  by (simp add: settled_def schedulable_def)

text \<open>The jobs that a tick runs, out of a list of them.\<close>

definition runs_now :: "cron_engine \<Rightarrow> datetime \<Rightarrow> uuid \<Rightarrow> bool" where
  "runs_now e now k \<longleftrightarrow>
     (case get_job k e of None \<Rightarrow> False | Some job \<Rightarrow> policy_should_run (ce_policy e) (jd_priority job) now)"

lemma execute_all_ready:
  assumes "civil_calendar cal lo hi" "years_ready cal lo hi now"
    and "jobs_ready (ce_jobs e)" "policy_ready cal (ce_policy e) now" "ce_persistence e = None"
    and "distinct ids" "\<forall>k \<in> set ids. get_job k e \<noteq> None" "inj_on (\<lambda>k. je_run_id (envs k)) (set ids)"
  shows "\<exists>e' runs. execute_all cal c envs now ids acc e = Some (e', Inr (acc @ runs)) \<and>
    map jr_job_id runs = filter (runs_now e now) ids \<and> jobs_ready (ce_jobs e') \<and>
    (\<forall>k. if k \<in> set ids then \<exists>job job'. get_job k e = Some job \<and> get_job k e' = Some job' \<and> settled now job job'
         else get_job k e' = get_job k e) \<and>
    (\<forall>run \<in> set runs. jr_id run = je_run_id (envs (jr_job_id run)) \<and> hm_get (ce_runs e') (jr_id run) = Some run \<and> run_ok run) \<and>
    (\<forall>i. (\<forall>k \<in> set ids. je_run_id (envs k) \<noteq> i) \<longrightarrow> hm_get (ce_runs e') i = hm_get (ce_runs e) i)"
  using assms(3-)
proof (induction ids arbitrary: e acc)
  case (Cons k ids)
  obtain job where job: "get_job k e = Some job" using Cons.prems(5) by auto
  obtain e1 r job' where 1: "execute_job cal c (envs k) k now e = Some (e1, Inr r)"
    "ce_jobs e1 = hm_insert k job' (ce_jobs e)" "settled now job job'" "ce_policy e1 = ce_policy e" "ce_persistence e1 = None"
    "if policy_should_run (ce_policy e) (jd_priority job) now
     then \<exists>run. r = Some run \<and> jr_job_id run = k \<and> jr_id run = je_run_id (envs k) \<and> run_ok run \<and>
                ce_runs e1 = hm_insert (jr_id run) run (ce_runs e)
     else r = None \<and> ce_runs e1 = ce_runs e"
    using execute_job_ready [OF assms(1) Cons.prems(1) job Cons.prems(2) assms(2) Cons.prems(3)] .
  have get1: "get_job j e1 = (if j = k then Some job' else get_job j e)" for j by (simp add: get_job_def 1(2))
  have jk: "jd_id job = k" "schedulable job" using Cons.prems(1) job by (auto simp: jobs_ready_def get_job_def)
  then have "jd_id job' = k" "schedulable job'" using 1(3) settled_ready by (auto simp: settled_def)
  then have "jobs_ready (ce_jobs e1)" using Cons.prems(1) by (simp add: jobs_ready_def 1(2))
  moreover have "policy_ready cal (ce_policy e1) now" using Cons.prems(2) 1(4) by simp
  moreover have "distinct ids" "\<forall>j \<in> set ids. get_job j e1 \<noteq> None" "inj_on (\<lambda>k. je_run_id (envs k)) (set ids)"
    using Cons.prems(4-6) get1 by (auto simp: inj_on_def)
  ultimately obtain e2 runs where 2:
    "execute_all cal c envs now ids (acc @ (case r of None \<Rightarrow> [] | Some run \<Rightarrow> [run])) e1 =
       Some (e2, Inr ((acc @ (case r of None \<Rightarrow> [] | Some run \<Rightarrow> [run])) @ runs))"
    "map jr_job_id runs = filter (runs_now e1 now) ids" "jobs_ready (ce_jobs e2)"
    "\<forall>k. if k \<in> set ids then \<exists>job job'. get_job k e1 = Some job \<and> get_job k e2 = Some job' \<and> settled now job job'
         else get_job k e2 = get_job k e1"
    "\<forall>run \<in> set runs. jr_id run = je_run_id (envs (jr_job_id run)) \<and> hm_get (ce_runs e2) (jr_id run) = Some run \<and> run_ok run"
    "\<forall>i. (\<forall>k \<in> set ids. je_run_id (envs k) \<noteq> i) \<longrightarrow> hm_get (ce_runs e2) i = hm_get (ce_runs e1) i"
    using Cons.IH [of e1 "acc @ (case r of None \<Rightarrow> [] | Some run \<Rightarrow> [run])"] 1(5) by blast
  let ?rs = "(case r of None \<Rightarrow> [] | Some run \<Rightarrow> [run]) @ runs"
  have k: "k \<notin> set ids" using Cons.prems(4) by simp
  have fresh: "\<forall>j \<in> set ids. je_run_id (envs j) \<noteq> je_run_id (envs k)" using Cons.prems(6) k by (auto simp: inj_on_def)
  have "execute_all cal c envs now (k # ids) acc e = Some (e2, Inr (acc @ ?rs))"
    using 1(1) 2(1) by (cases r) simp_all
  moreover have "filter (runs_now e1 now) ids = filter (runs_now e now) ids"
    using k by (intro filter_cong refl) (auto simp: runs_now_def get1 1(4) split: option.splits)
  then have "map jr_job_id ?rs = filter (runs_now e now) (k # ids)"
    using 1(6) 2(2) job by (auto simp: runs_now_def split: if_splits)
  moreover have "if j \<in> set (k # ids) then \<exists>job job'. get_job j e = Some job \<and> get_job j e2 = Some job' \<and> settled now job job'
         else get_job j e2 = get_job j e" for j
    using spec [OF 2(4), of j] get1 [of j] k job 1(3) by (auto split: if_splits)
  moreover have "\<forall>run \<in> set ?rs. jr_id run = je_run_id (envs (jr_job_id run)) \<and> hm_get (ce_runs e2) (jr_id run) = Some run \<and> run_ok run"
    using 2(5) 2(6) fresh 1(6) by (auto split: if_splits)
  moreover have "(\<forall>j \<in> set (k # ids). je_run_id (envs j) \<noteq> i) \<longrightarrow> hm_get (ce_runs e2) i = hm_get (ce_runs e) i" for i
    using spec [OF 2(6), of i] 1(6) by (auto split: if_splits)
  ultimately show ?case using 2(3) by blast
qed simp

lemma set_due_ids:
  assumes "hash_iter it" "hm_wf (ce_jobs e)"
  shows "k \<in> set (due_job_ids it now e) \<longleftrightarrow> (\<exists>job. get_job k e = Some job \<and> job_should_run_at job now)"
    and "distinct (due_job_ids it now e)"
proof -
  show "k \<in> set (due_job_ids it now e) \<longleftrightarrow> (\<exists>job. get_job k e = Some job \<and> job_should_run_at job now)"
    unfolding due_job_ids_def get_job_def
    by (force simp: hash_iter_set [OF assms(1)] simp flip: hm_mem_iff [OF assms(2)])
  have "distinct (map fst (ce_jobs e))" using assms(2) by (simp add: hm_wf_def hm_keys_def)
  then have "distinct (map fst (it (ce_jobs e)))"
    using hash_iter_mset [OF assms(1), of "ce_jobs e"] by (metis mset_eq_imp_distinct_iff mset_map)
  then show "distinct (due_job_ids it now e)" unfolding due_job_ids_def by (rule distinct_map_filter)
qed

text \<open>
  C16: A tick executes every due job that the quiet hours do not hold back exactly once, in
  whatever order the hash map yields them, keeps each run, and leaves no job due at its time:
  a job that ran waits for its next recurrence or for its retry, a job that was held back for
  the end of the quiet hours. Jobs that were not due are untouched. This is for an engine
  without a store, whose jobs have valid expressions and whose retry delays are positive and
  within the calendar.
\<close>

theorem tick_runs_due_once:
  assumes "civil_calendar cal lo hi" "years_ready cal lo hi now" "jobs_ready (ce_jobs e)"
    and "policy_ready cal (ce_policy e) now" "ce_persistence e = None" "hash_iter it"
    and "inj_on (\<lambda>k. je_run_id (envs k)) (set (due_job_ids it now e))"
  shows "\<exists>e' runs. execute_due_jobs cal c it envs now e = Some (e', Inr runs) \<and>
    distinct (map jr_job_id runs) \<and>
    (\<forall>k. k \<in> jr_job_id ` set runs \<longleftrightarrow>
       (\<exists>job. get_job k e = Some job \<and> job_should_run_at job now \<and> policy_should_run (ce_policy e) (jd_priority job) now)) \<and>
    (\<forall>run \<in> set runs. hm_get (ce_runs e') (jr_id run) = Some run \<and> run_ok run) \<and>
    (\<forall>k job'. get_job k e' = Some job' \<longrightarrow> \<not> job_should_run_at job' now) \<and>
    (\<forall>k job. get_job k e = Some job \<and> \<not> job_should_run_at job now \<longrightarrow> get_job k e' = Some job)"
proof -
  have wf: "hm_wf (ce_jobs e)" using assms(3) by (simp add: jobs_ready_def)
  note due = set_due_ids [OF assms(6) wf, where now = now]
  have "\<forall>k \<in> set (due_job_ids it now e). get_job k e \<noteq> None" using due(1) by auto
  from execute_all_ready [OF assms(1, 2, 3, 4, 5) due(2) this assms(7), of c "[]"] obtain e' runs where
    *: "execute_due_jobs cal c it envs now e = Some (e', Inr runs)"
      "map jr_job_id runs = filter (runs_now e now) (due_job_ids it now e)"
      "\<forall>k. if k \<in> set (due_job_ids it now e)
           then \<exists>job job'. get_job k e = Some job \<and> get_job k e' = Some job' \<and> settled now job job'
           else get_job k e' = get_job k e"
      "\<forall>run \<in> set runs. jr_id run = je_run_id (envs (jr_job_id run)) \<and> hm_get (ce_runs e') (jr_id run) = Some run \<and> run_ok run"
    by (auto simp: execute_due_jobs_def)
  have "distinct (map jr_job_id runs)" using *(2) due(2) by simp
  moreover have "k \<in> jr_job_id ` set runs \<longleftrightarrow>
      (\<exists>job. get_job k e = Some job \<and> job_should_run_at job now \<and> policy_should_run (ce_policy e) (jd_priority job) now)" for k
    using arg_cong [OF *(2), of set] due(1) [of k] by (auto simp: runs_now_def)
  moreover have "\<not> job_should_run_at job' now" if "get_job k e' = Some job'" for k job'
    using spec [OF *(3), of k] that due(1) [of k] by (auto simp: settled_def split: if_splits)
  moreover have "get_job k e' = Some job" if "get_job k e = Some job" "\<not> job_should_run_at job now" for k job
    using spec [OF *(3), of k] that due(1) [of k] by (auto split: if_splits)
  ultimately show ?thesis using *(1, 4) by blast
qed

subsection \<open>A concrete engine\<close>

definition sample_job :: "string \<Rightarrow> job_definition" where
  "sample_job expr =
     \<lparr>jd_id = 5, jd_name = ''report'', jd_schedule_expression = expr, jd_enabled = True, jd_priority = JobNormal,
      jd_task = LocalCommand ''true'' None,
      jd_metadata = \<lparr>jm_description = None, jm_created_by = None, jm_tags = [], jm_labels = []\<rparr>,
      jd_retry = retry_policy_default,
      jd_ownership = \<lparr>jo_owner_node = None, jo_lease_expires_at = None, jo_claimed_by_run = None\<rparr>,
      jd_created_at = 0, jd_updated_at = 0, jd_last_run_at = None, jd_next_run_at = Some 0,
      jd_consecutive_failures = 0\<rparr>"

definition sample_env :: job_env where
  "sample_env =
     \<lparr>je_dispatch = \<lparr>dv_local_executor = (\<lambda>_ _. Inr ''ok''), dv_remote_submitter = Some (\<lambda>_ _. Inr 77), dv_duration_ms = 4,
        dv_agent_task_id = 76, dv_agent_task_now = 0, dv_queued_at = 0\<rparr>,
      je_run_id = 9, je_created = 0, je_started = 0, je_finished = 1, je_updated = 1, je_fault = (\<lambda>_. None)\<rparr>"

definition sample_engine :: "job_definition \<Rightarrow> cron_engine" where
  "sample_engine job = (cron_engine_new [] None scheduling_policy_default)\<lparr>ce_jobs := [(5, job)]\<rparr>"

lemma epoch_year: "year_of gregorian t = 1970" if "0 \<le> t" "t < day_ns"
  using that by (simp add: year_of_def day_of_def gregorian_def greg_ymd_def greg_year_def year_start_def Let_def)

lemma sample_ready:
  "years_ready gregorian (- 262143) 262142 0" "policy_ready gregorian scheduling_policy_default 0"
  "jobs_ready (ce_jobs (sample_engine (sample_job ''5 9 1 1 1'')))"
proof -
  show "years_ready gregorian (- 262143) 262142 0" by (simp add: years_ready_def epoch_year)
  show "policy_ready gregorian scheduling_policy_default 0"
    by (simp add: policy_ready_def scheduling_policy_default_def backoff_default_def
        checked_time_iff [OF greg.civil_calendar_axioms] epoch_year)
  show "jobs_ready (ce_jobs (sample_engine (sample_job ''5 9 1 1 1'')))"
    using new_year_parse
    by (auto simp: jobs_ready_def sample_engine_def schedulable_def sample_job_def hm_wf_def hm_keys_def hm_get_def)
qed

theorem tick_runs_due_once_witness:
  "\<exists>e' runs. execute_due_jobs gregorian dec_codec id (\<lambda>_. sample_env) 0 (sample_engine (sample_job ''5 9 1 1 1'')) =
     Some (e', Inr runs) \<and> 5 \<in> jr_job_id ` set runs"
proof -
  let ?e = "sample_engine (sample_job ''5 9 1 1 1'')"
  have "inj_on (\<lambda>k. je_run_id ((\<lambda>_. sample_env) k)) (set (due_job_ids id 0 ?e))"
    by (simp add: due_job_ids_def sample_engine_def inj_on_def)
  from tick_runs_due_once [OF greg.civil_calendar_axioms sample_ready(1) sample_ready(3) _ _ hash_iter_id this, of dec_codec]
  obtain e' runs where *: "execute_due_jobs gregorian dec_codec id (\<lambda>_. sample_env) 0 ?e = Some (e', Inr runs)"
    "\<forall>k. k \<in> jr_job_id ` set runs \<longleftrightarrow>
       (\<exists>job. get_job k ?e = Some job \<and> job_should_run_at job 0 \<and> policy_should_run (ce_policy ?e) (jd_priority job) 0)"
    using sample_ready(2) by (auto simp: sample_engine_def cron_engine_new_def)
  have "get_job 5 ?e = Some (sample_job ''5 9 1 1 1'')" by (simp add: get_job_def sample_engine_def hm_get_def)
  moreover have "job_should_run_at (sample_job ''5 9 1 1 1'') 0" by (simp add: sample_job_def job_should_run_at_def)
  moreover have "policy_should_run (ce_policy ?e) pr 0" for pr
    by (simp add: sample_engine_def cron_engine_new_def scheduling_policy_default_def policy_should_run_def)
  ultimately show ?thesis using * by blast
qed

section \<open>Jobs that break the tick\<close>

text \<open>
  A due job whose expression does not parse is executed and then fails the tick: the
  command has run, but neither the run nor a new time is recorded, so the job is due again
  at once, and the jobs that follow it in the tick are not executed at all.
\<close>

theorem unparsable_job_blocks:
  assumes "get_job k e = Some job" "ce_persistence e = None" "policy_should_run (ce_policy e) (jd_priority job) now"
    and "cron_parse (jd_schedule_expression job) = Inl err" "snd (job_dispatch (envs k) now job (ce_in_flight e)) = Inr out"
  shows "\<exists>e'. execute_all cal c envs now (k # ids) executed e = Some (e', Inl (ScheduleFailed err)) \<and>
    ce_jobs e' = ce_jobs e \<and> ce_runs e' = ce_runs e"
proof -
  obtain fl where d: "job_dispatch (envs k) now job (ce_in_flight e) = (fl, Inr out)"
    using assms(5) by (cases "job_dispatch (envs k) now job (ce_in_flight e)") auto
  obtain run where "settle cal c (ce_policy e) (envs k) now (Inr out) (started_run (envs k) now job) job = (run, Some (Inl err))"
    using assms(4) by (cases out) (simp_all add: settle_def note_success_def recompute_next_run_def validate_schedule_def)
  then have "execute_job cal c (envs k) k now e = Some (e\<lparr>ce_in_flight := fl\<rparr>, Inl (ScheduleFailed err))"
    using assms(1-3) d by (simp add: execute_job_def run_job_def persist_run_def job_dispatch_def Let_def)
  then show ?thesis by simp
qed

theorem unparsable_job_blocks_witness:
  "\<exists>e'. execute_all gregorian dec_codec (\<lambda>_. sample_env) 0 [5] [] (sample_engine (sample_job ''60 9 1 1'')) =
     Some (e', Inl (ScheduleFailed (InvalidFieldCount ''60 9 1 1''))) \<and>
     ce_jobs e' = ce_jobs (sample_engine (sample_job ''60 9 1 1''))"
proof -
  let ?e = "sample_engine (sample_job ''60 9 1 1'')"
  have "get_job 5 ?e = Some (sample_job ''60 9 1 1'')" by (simp add: get_job_def sample_engine_def hm_get_def)
  moreover have "ce_persistence ?e = None" by (simp add: sample_engine_def cron_engine_new_def)
  moreover have "policy_should_run (ce_policy ?e) pr 0" for pr
    by (simp add: sample_engine_def cron_engine_new_def scheduling_policy_default_def policy_should_run_def)
  moreover have "cron_parse (jd_schedule_expression (sample_job ''60 9 1 1'')) = Inl (InvalidFieldCount ''60 9 1 1'')"
    by (simp add: sample_job_def parse_eval)
  moreover have "snd (job_dispatch ((\<lambda>_. sample_env) 5) 0 (sample_job ''60 9 1 1'') (ce_in_flight ?e)) = Inr (LocalCompleted ''ok'' 4)"
    by (simp add: job_dispatch_def dispatch_def sample_job_def sample_env_def Let_def)
  ultimately show ?thesis using unparsable_job_blocks [where envs = "\<lambda>_. sample_env"] by blast
qed

end
