(* ===== verification/Cron_Machine.thy ===== *)
theory Cron_Machine
  imports Cron_Tick
begin

text \<open>
  The engine as a state machine: its operations as a step relation, the invariant they keep
  with and without a store and whatever fails, and an interleaving that loses a result.
\<close>

section \<open>What executing a job may change\<close>

definition job_step :: "job_definition \<Rightarrow> job_definition \<Rightarrow> bool" where
  "job_step job job' \<longleftrightarrow> jd_id job' = jd_id job \<and> jd_retry job' = jd_retry job \<and>
     (jd_consecutive_failures job' \<in> {0, jd_consecutive_failures job} \<or>
      can_retry job \<and> unat (jd_consecutive_failures job') = unat (jd_consecutive_failures job) + 1)"

lemma recompute_effect:
  "recompute_next_run cal upd start job = Some (Inr job') \<Longrightarrow> \<exists>nr. job' = job\<lparr>jd_next_run_at := nr, jd_updated_at := upd\<rparr>"
  by (auto simp: recompute_next_run_def split: sum.splits)

lemma settle_failure_effect: "settle_failure cal p upd now job = Some (Inr job') \<Longrightarrow> job_step job job'"
proof (cases "can_retry job")
  case True
  moreover assume "settle_failure cal p upd now job = Some (Inr job')"
  ultimately obtain t where "job' = note_failure_with_retry upd now t job" by (auto simp: settle_failure_def Let_def)
  then show ?thesis using note_failure_count [OF True] True by (simp add: job_step_def note_failure_with_retry_def)
next
  case False
  moreover assume "settle_failure cal p upd now job = Some (Inr job')"
  ultimately show ?thesis using recompute_effect by (fastforce simp: settle_failure_def job_step_def)
qed

lemma note_success_effect: "note_success cal upd now job = Some (Inr job') \<Longrightarrow> job_step job job'"
  unfolding note_success_def by (drule recompute_effect) (auto simp: job_step_def)

lemma settle_effect:
  assumes "settle cal c p env now res run job = (run', Some (Inr job'))" "jr_finished_at run = None"
  shows "job_step job job' \<and> run_ok run' \<and> run_kept run run'"
proof (cases res)
  case (Inl err)
  then show ?thesis
    using assms run_ok_marks(5) settle_failure_effect
    by (auto simp: settle_def run_kept_def mark_failure_def)
next
  case (Inr out)
  have "note_success cal (je_updated env) now job = Some (Inr job')"
    using assms(1) Inr by (cases out) (simp_all add: settle_def)
  moreover have "run_ok run' \<and> run_kept run run'"
    using assms Inr
    by (cases out) (auto simp: settle_def run_kept_def run_ok_def mark_success_def mark_dispatched_def)
  ultimately show ?thesis using note_success_effect by blast
qed

lemma store_frame:
  "persist_run c f run e = (e', r) \<Longrightarrow> ce_jobs e' = ce_jobs e \<and> ce_runs e' = ce_runs e \<and> ce_policy e' = ce_policy e"
  "store_job c f job e = (e', r) \<Longrightarrow> ce_jobs e' = ce_jobs e \<and> ce_runs e' = ce_runs e \<and> ce_policy e' = ce_policy e"
  by (auto simp: persist_run_def store_job_def split: option.splits sum.splits)

lemma replace_frame:
  "persist_and_replace_job c f job e = (e', r) \<Longrightarrow>
   ce_jobs e' = hm_insert (jd_id job) job (ce_jobs e) \<and> ce_runs e' = ce_runs e"
  unfolding persist_and_replace_job_def by (drule store_frame(2)) simp

definition jobs_stepped :: "job_definition \<Rightarrow> cron_engine \<Rightarrow> cron_engine \<Rightarrow> bool" where
  "jobs_stepped job e e' \<longleftrightarrow>
     ce_jobs e' = ce_jobs e \<or> (\<exists>job'. job_step job job' \<and> ce_jobs e' = hm_insert (jd_id job') job' (ce_jobs e))"

definition runs_stepped :: "job_definition \<Rightarrow> cron_engine \<Rightarrow> cron_engine \<Rightarrow> (job_run option, engine_error) result \<Rightarrow> bool" where
  "runs_stepped job e e' r \<longleftrightarrow>
     (case r of
        Inr (Some run) \<Rightarrow> run_ok run \<and> jr_attempt run = saturating_add (jd_consecutive_failures job) 1 \<and>
                          ce_runs e' = hm_insert (jr_id run) run (ce_runs e)
      | _ \<Rightarrow> ce_runs e' = ce_runs e)"

lemma finish_effect:
  assumes "finish_run c env run job' e = (e', r)" "job_step job job'" "run_ok run"
    and "jr_attempt run = saturating_add (jd_consecutive_failures job) 1"
  shows "jobs_stepped job e e' \<and> runs_stepped job e e' r"
proof -
  obtain e1 r1 where 1: "persist_and_replace_job c (je_fault env 1) job' e = (e1, r1)" by fastforce
  note f1 = replace_frame [OF 1]
  obtain e2 r2 where 2: "persist_run c (je_fault env 2) run e1 = (e2, r2)" by fastforce
  note f2 = store_frame(1) [OF 2]
  show ?thesis
    using assms f1 f2 unfolding finish_run_def 1 jobs_stepped_def runs_stepped_def
    by (cases r1; cases r2) (auto simp: 2)
qed

lemma execute_effect:
  assumes "execute_job cal c env k now e = Some (e', r)"
  shows "e' = e \<and> (\<forall>run. r \<noteq> Inr (Some run)) \<or> (\<exists>job. get_job k e = Some job \<and> jobs_stepped job e e' \<and> runs_stepped job e e' r)"
proof (cases "get_job k e")
  case (Some job)
  show ?thesis
  proof (cases "policy_should_run (ce_policy e) (jd_priority job) now")
    case False
    show ?thesis
    proof (cases "defer_until cal (ce_policy e) (jd_priority job) now")
      case None
      then show ?thesis using assms Some False by (auto simp: execute_job_def)
    next
      case (Some T)
      let ?job = "job\<lparr>jd_next_run_at := Some T, jd_updated_at := je_updated env\<rparr>"
      obtain e1 r1 where 1: "persist_and_replace_job c (je_fault env 0) ?job e = (e1, r1)" by fastforce
      have "e' = e1" "\<nexists>run. r = Inr (Some run)"
        using assms \<open>get_job k e = Some job\<close> False Some 1 by (auto simp: execute_job_def split: sum.splits)
      moreover have "job_step job ?job" by (simp add: job_step_def)
      ultimately show ?thesis
        using replace_frame [OF 1] \<open>get_job k e = Some job\<close> unfolding jobs_stepped_def runs_stepped_def
        by (auto split: sum.splits option.splits)
    qed
  next
    case True
    let ?run = "started_run env now job"
    have run_job: "run_job cal c env now job e = Some (e', r)" using assms Some True by (simp add: execute_job_def)
    obtain e1 r1 where 1: "persist_run c (je_fault env 0) ?run e = (e1, r1)" by fastforce
    note f1 = store_frame(1) [OF 1]
    have "jobs_stepped job e e' \<and> runs_stepped job e e' r"
    proof (cases r1)
      case (Inl err)
      then show ?thesis using run_job 1 f1 by (auto simp: run_job_def jobs_stepped_def runs_stepped_def)
    next
      case (Inr u)
      obtain fl res where d: "job_dispatch env now job (ce_in_flight e1) = (fl, res)" by fastforce
      obtain run' nxt where s: "settle cal c (ce_policy e1) env now res ?run job = (run', nxt)" by fastforce
      let ?e2 = "e1\<lparr>ce_in_flight := fl\<rparr>"
      have eq: "(case nxt of None \<Rightarrow> None | Some (Inl err) \<Rightarrow> Some (?e2, Inl (ScheduleFailed err))
          | Some (Inr job') \<Rightarrow> Some (finish_run c env run' job' ?e2)) = Some (e', r)"
        using run_job 1 Inr d s by (simp add: run_job_def Let_def job_dispatch_def)
      then consider err where "nxt = Some (Inl err)" "e' = ?e2" "r = Inl (ScheduleFailed err)"
        | job' where "nxt = Some (Inr job')" "finish_run c env run' job' ?e2 = (e', r)"
        by (auto split: option.splits sum.splits)
      then show ?thesis
      proof cases
        case 1
        then show ?thesis using f1 by (simp add: jobs_stepped_def runs_stepped_def)
      next
        case 2
        have "settle cal c (ce_policy e1) env now res ?run job = (run', Some (Inr job'))" using s 2(1) by simp
        from settle_effect [OF this started_run_fields(3)]
        have "job_step job job'" "run_ok run'" "run_kept ?run run'" by auto
        moreover from this(3) have "jr_attempt run' = saturating_add (jd_consecutive_failures job) 1"
          by (simp add: run_kept_def started_run_fields)
        ultimately show ?thesis using finish_effect [OF 2(2)] f1 by (auto simp: jobs_stepped_def runs_stepped_def split: sum.splits option.splits)
      qed
    qed
    then show ?thesis using Some by blast
  qed
qed (use assms in \<open>auto simp: execute_job_def\<close>)

section \<open>The engine as a machine\<close>

inductive engine_step :: "calendar \<Rightarrow> codec \<Rightarrow> cron_engine \<Rightarrow> cron_engine \<Rightarrow> bool" for cal c where
  add: "add_job cal c f now upd job e = Some (e', r) \<Longrightarrow> jd_consecutive_failures job = 0 \<Longrightarrow> engine_step cal c e e'"
| remove: "remove_job c f k e = (e', r) \<Longrightarrow> engine_step cal c e e'"
| execute: "execute_job cal c env k now e = Some (e', r) \<Longrightarrow> engine_step cal c e e'"
| cleanup: "cleanup_in_memory_runs it n e = (e', m) \<Longrightarrow> engine_step cal c e e'"
| remote: "e' = mark_remote_result c f now task_id status out err e \<Longrightarrow> status \<in> {RunSucceeded, RunFailed, RunSkipped} \<Longrightarrow>
    (status = RunFailed \<Longrightarrow> err \<noteq> None) \<Longrightarrow> engine_step cal c e e'"

definition job_ok :: "uuid \<Rightarrow> job_definition \<Rightarrow> bool" where
  "job_ok k job \<longleftrightarrow> jd_id job = k \<and> unat (jd_consecutive_failures job) < max 1 (unat (rp_max_attempts (jd_retry job)))"

definition stored_run_ok :: "uuid \<Rightarrow> job_run \<Rightarrow> bool" where
  "stored_run_ok k run \<longleftrightarrow> jr_id run = k \<and> run_ok run"

definition engine_ok :: "cron_engine \<Rightarrow> bool" where
  "engine_ok e \<longleftrightarrow>
     (\<forall>k job. hm_get (ce_jobs e) k = Some job \<longrightarrow> job_ok k job) \<and>
     (\<forall>k run. hm_get (ce_runs e) k = Some run \<longrightarrow> stored_run_ok k run)"

lemma engine_ok_insert:
  assumes "engine_ok e"
  shows "ce_jobs e' = hm_insert k job (ce_jobs e) \<Longrightarrow> ce_runs e' = ce_runs e \<Longrightarrow> job_ok k job \<Longrightarrow> engine_ok e'"
    and "ce_jobs e' = ce_jobs e \<Longrightarrow> ce_runs e' = hm_insert k run (ce_runs e) \<Longrightarrow> stored_run_ok k run \<Longrightarrow> engine_ok e'"
    and "ce_jobs e' = ce_jobs e \<Longrightarrow> ce_runs e' = ce_runs e \<Longrightarrow> engine_ok e'"
    and "ce_jobs e' = hm_insert k' job (ce_jobs e) \<Longrightarrow> ce_runs e' = hm_insert k run (ce_runs e) \<Longrightarrow> job_ok k' job \<Longrightarrow>
         stored_run_ok k run \<Longrightarrow> engine_ok e'"
  using assms by (auto simp: engine_ok_def)

lemma job_step_ok: "job_step job job' \<Longrightarrow> job_ok k job \<Longrightarrow> job_ok (jd_id job') job'"
  by (auto simp: job_step_def job_ok_def can_retry_iff)

lemma execute_ok:
  assumes "execute_job cal c env k now e = Some (e', r)" "engine_ok e"
  shows "engine_ok e'"
proof -
  from execute_effect [OF assms(1)] consider "e' = e"
    | job where "get_job k e = Some job" "jobs_stepped job e e'" "runs_stepped job e e' r" by blast
  then show ?thesis
  proof cases
    case (2 job)
    then have "job_ok k job" using assms(2) by (simp add: engine_ok_def get_job_def)
    note ok = job_step_ok [OF _ this]
    consider "ce_runs e' = ce_runs e" | run where "ce_runs e' = hm_insert (jr_id run) run (ce_runs e)" "stored_run_ok (jr_id run) run"
      using 2(3) by (auto simp: runs_stepped_def stored_run_ok_def split: sum.splits option.splits)
    then show ?thesis
      using 2(2) ok engine_ok_insert [OF assms(2)] unfolding jobs_stepped_def by cases metis+
  qed (use assms(2) in simp)
qed

lemma add_ok:
  assumes "add_job cal c f now upd job e = Some (e', r)" "jd_consecutive_failures job = 0" "engine_ok e"
  shows "engine_ok e'"
proof -
  have "e' = e \<or> (\<exists>job'. jd_consecutive_failures job' = 0 \<and> ce_jobs e' = hm_insert (jd_id job') job' (ce_jobs e) \<and> ce_runs e' = ce_runs e)"
  proof (cases "if jd_next_run_at job = None then recompute_next_run cal upd now job else Some (Inr job)")
    case (Some x)
    show ?thesis
    proof (cases x)
      case (Inr job')
      have "jd_consecutive_failures job' = 0"
        using Some Inr assms(2) recompute_effect by (fastforce split: if_splits)
      moreover obtain e1 r1 where 1: "store_job c f job' (e\<lparr>ce_jobs := hm_insert (jd_id job') job' (ce_jobs e)\<rparr>) = (e1, r1)"
        by fastforce
      moreover have "e' = e1" using assms(1) Some Inr 1 by (auto simp: add_job_def split: sum.splits)
      ultimately show ?thesis using store_frame(2) [OF 1] by auto
    qed (use assms(1) Some in \<open>auto simp: add_job_def\<close>)
  qed (use assms(1) in \<open>simp add: add_job_def\<close>)
  then show ?thesis
  proof (elim disjE exE conjE)
    fix job' assume *: "jd_consecutive_failures job' = 0" "ce_jobs e' = hm_insert (jd_id job') job' (ce_jobs e)" "ce_runs e' = ce_runs e"
    from *(1) have "job_ok (jd_id job') job'" by (simp add: job_ok_def)
    then show ?thesis by (rule engine_ok_insert(1) [OF assms(3) *(2, 3)])
  qed (use assms(3) in simp)
qed

lemma hm_remove_all_get: "hm_get (fold (\<lambda>x. hm_remove (f x)) xs m) k = Some v \<Longrightarrow> hm_get m k = Some v"
proof (induction xs arbitrary: m)
  case (Cons x xs)
  from Cons.prems have "hm_get (fold (\<lambda>x. hm_remove (f x)) xs (hm_remove (f x) m)) k = Some v" by simp
  from Cons.IH [OF this] have "hm_get (hm_remove (f x) m) k = Some v" .
  then show ?case by (simp split: if_splits)
qed simp

lemma engine_step_ok: "engine_step cal c e e' \<Longrightarrow> engine_ok e \<Longrightarrow> engine_ok e'"
proof (induction rule: engine_step.induct)
  case (remove f k e e' r)
  then have "ce_jobs e' = hm_remove k (ce_jobs e) \<and> ce_runs e' = ce_runs e"
    by (auto simp: remove_job_def Let_def split: bool.splits option.splits sum.splits)
  with remove(2) show ?case by (simp add: engine_ok_def)
next
  case (cleanup it n e e' m)
  have "ce_jobs e' = ce_jobs e" using cleanup(1) by (auto simp: cleanup_in_memory_runs_def Let_def split: if_splits)
  moreover have "hm_get (ce_runs e') k = Some run \<Longrightarrow> hm_get (ce_runs e) k = Some run" for k run
    using cleanup(1) by (auto simp: cleanup_in_memory_runs_def Let_def split: if_splits dest: hm_remove_all_get)
  ultimately show ?case using cleanup(2) by (simp add: engine_ok_def)
next
  case (remote e' f now task_id status out err e)
  show ?case
  proof (cases "hm_get (ce_in_flight e) task_id")
    case None
    then show ?thesis using remote by (simp add: mark_remote_result_def complete_remote_dispatch_def engine_ok_def)
  next
    case (Some rec)
    show ?thesis
    proof (cases "hm_get (ce_runs e) (rd_run_id rec)")
      case None
      then show ?thesis using remote Some by (simp add: mark_remote_result_def complete_remote_dispatch_def engine_ok_def)
    next
      case run: (Some run)
      let ?run = "run\<lparr>jr_status := status, jr_finished_at := Some now, jr_output := out, jr_error := err\<rparr>"
      have "ce_jobs e' = ce_jobs e \<and> ce_runs e' = hm_insert (rd_run_id rec) ?run (ce_runs e)"
        using remote(1) Some run
          store_frame(1) [where f = f and c = c and run = ?run and e = "e\<lparr>ce_in_flight := hm_remove task_id (ce_in_flight e),
            ce_runs := hm_insert (rd_run_id rec) ?run (ce_runs e)\<rparr>", OF surjective_pairing]
        by (simp add: mark_remote_result_def complete_remote_dispatch_def Let_def)
      moreover have "stored_run_ok (rd_run_id rec) ?run"
        using remote(2, 3, 4) run by (auto simp: run_ok_def engine_ok_def stored_run_ok_def)
      ultimately show ?thesis using engine_ok_insert(2) [OF remote(4)] by blast
    qed
  qed
qed (auto intro: add_ok execute_ok)

interpretation cron: invariant_machine "engine_step cal c" engine_ok
  by unfold_locales (rule engine_step_ok)

lemma cron_engine_new_ok: "engine_ok (cron_engine_new fl db p)"
  by (simp add: engine_ok_def cron_engine_new_def)

text \<open>
  In every state the engine reaches, through any sequence of additions, removals,
  executions, clean-ups and remote results, with any failure of the executor, the submitter
  or the store, a run that is made carries the attempt number after the failures counted so
  far, between 1 and the number of attempts the job allows, and every run in memory is
  consistent: finished exactly if its status is final, with an error if it failed.
\<close>

theorem retry_budget:
  assumes "(engine_step cal c)\<^sup>*\<^sup>* (cron_engine_new fl db p) e" "get_job k e = Some job"
    and "execute_job cal c env k now e = Some (e', Inr (Some run))"
  shows "unat (jr_attempt run) = unat (jd_consecutive_failures job) + 1 \<and>
    unat (jr_attempt run) \<le> max 1 (unat (rp_max_attempts (jd_retry job))) \<and>
    (\<forall>i r. hm_get (ce_runs e') i = Some r \<longrightarrow> jr_id r = i \<and> run_ok r)"
proof -
  have ok: "engine_ok e" using assms(1) cron_engine_new_ok by (rule cron.star_inv)
  have "engine_ok e'" by (rule execute_ok [OF assms(3) ok])
  have "job_ok k job" using ok assms(2) by (simp add: engine_ok_def get_job_def)
  then have "unat (jd_consecutive_failures job) < max 1 (unat (rp_max_attempts (jd_retry job)))" by (simp add: job_ok_def)
  moreover have "jr_attempt run = saturating_add (jd_consecutive_failures job) 1"
    using execute_effect [OF assms(3)] assms(2) by (auto simp: runs_stepped_def)
  ultimately have "unat (jr_attempt run) = unat (jd_consecutive_failures job) + 1"
    using max_attempts_less [of job] by (auto simp: unat_saturating_add)
  with \<open>unat (jd_consecutive_failures job) < _\<close> \<open>engine_ok e'\<close> show ?thesis
    by (auto simp: engine_ok_def stored_run_ok_def)
qed

text \<open>
  A remote result that arrives between the dispatch of its task and the moment the engine
  records the run is lost. The entry of the task is consumed, and the run recorded afterwards
  stays dispatched: no later call for the task can finish it.
\<close>

theorem early_result_lost:
  assumes "hm_get (ce_in_flight e) task_id = Some record" "rd_run_id record = jr_id run"
    and "hm_get (ce_runs e) (jr_id run) = None" "jr_status run = RunDispatched" "ce_persistence e = None"
    and "e1 = mark_remote_result c f now task_id status out err e" "finish_run c env run job e1 = (e2, r)"
    and "e3 = mark_remote_result c f' now' task_id status' out' err' e2"
  shows "hm_get (ce_runs e3) (jr_id run) = Some run \<and> hm_get (ce_in_flight e3) task_id = None"
proof -
  have e1: "e1 = e\<lparr>ce_in_flight := hm_remove task_id (ce_in_flight e)\<rparr>"
    using assms(1-3, 6) by (simp add: mark_remote_result_def complete_remote_dispatch_def)
  then have "e2 = e1\<lparr>ce_jobs := hm_insert (jd_id job) job (ce_jobs e1), ce_runs := hm_insert (jr_id run) run (ce_runs e1)\<rparr>"
    using assms(5, 7) by (simp add: finish_run_def persist_and_replace_job_def store_job_def persist_run_def)
  then show ?thesis using assms(8) e1 by (simp add: mark_remote_result_def complete_remote_dispatch_def)
qed

definition fleet_job :: job_definition where
  "fleet_job = (sample_job ''5 9 1 1 1'')\<lparr>jd_task := FleetTask ''shell_command'' (JObject [(''command'', JString ''true'')]) None\<rparr>"

definition lost_run :: job_run where
  "lost_run = mark_dispatched 1 None ''queued'' (started_run sample_env 0 fleet_job)"

definition flying_engine :: cron_engine where
  "flying_engine = (sample_engine fleet_job)\<lparr>ce_in_flight :=
     [(77, \<lparr>rd_task_id = 77, rd_job_id = 5, rd_run_id = 9, rd_worker_hint = None, rd_queued_at = 0\<rparr>)]\<rparr>"

theorem early_result_lost_witness:
  "\<exists>e3 :: cron_engine. hm_get (ce_runs e3) 9 = Some lost_run \<and> hm_get (ce_in_flight e3) 77 = None"
proof -
  let ?e1 = "mark_remote_result dec_codec None 5 77 RunSucceeded (Some ''ok'') None flying_engine"
  obtain e2 r where 2: "finish_run dec_codec sample_env lost_run fleet_job ?e1 = (e2, r)" by fastforce
  have run: "jr_id lost_run = 9" "jr_status lost_run = RunDispatched"
    by (simp_all add: lost_run_def mark_dispatched_def started_run_fields, simp add: sample_env_def)
  have e: "hm_get (ce_in_flight flying_engine) 77 = Some \<lparr>rd_task_id = 77, rd_job_id = 5, rd_run_id = 9, rd_worker_hint = None, rd_queued_at = 0\<rparr>"
    "hm_get (ce_runs flying_engine) 9 = None" "ce_persistence flying_engine = None"
    by (simp_all add: flying_engine_def sample_engine_def cron_engine_new_def hm_get_def)
  let ?e3 = "mark_remote_result dec_codec None 6 77 RunSucceeded None None e2"
  have "hm_get (ce_runs ?e3) 9 = Some lost_run \<and> hm_get (ce_in_flight ?e3) 77 = None"
    using early_result_lost [OF e(1) _ _ run(2) e(3) refl 2 refl, of None 6 RunSucceeded None None] run(1) e(2) by simp
  then show ?thesis by (rule exI)
qed

theorem retry_budget_witness:
  "\<exists>run. unat (jr_attempt run) = 1 \<and> run_ok run"
proof -
  let ?job = "sample_job ''5 9 1 1 1''" and ?e = "sample_engine (sample_job ''5 9 1 1 1'')"
  have "add_job gregorian dec_codec None 0 0 ?job (cron_engine_new [] None scheduling_policy_default) = Some (?e, Inr 5)"
    by (simp add: add_job_def sample_job_def store_job_def cron_engine_new_def sample_engine_def hm_insert_def)
  then have "engine_step gregorian dec_codec (cron_engine_new [] None scheduling_policy_default) ?e"
    by (rule engine_step.add) (simp add: sample_job_def)
  then have reach: "(engine_step gregorian dec_codec)\<^sup>*\<^sup>* (cron_engine_new [] None scheduling_policy_default) ?e" by blast
  have get: "get_job 5 ?e = Some ?job" by (simp add: get_job_def sample_engine_def hm_get_def)
  have p: "ce_policy ?e = scheduling_policy_default" "ce_persistence ?e = None" by (simp_all add: sample_engine_def cron_engine_new_def)
  obtain e' r job' where *: "execute_job gregorian dec_codec sample_env 5 0 ?e = Some (e', Inr r)"
    "if policy_should_run (ce_policy ?e) (jd_priority ?job) 0
     then \<exists>run. r = Some run \<and> jr_job_id run = 5 \<and> jr_id run = je_run_id sample_env \<and> run_ok run \<and>
                ce_runs e' = hm_insert (jr_id run) run (ce_runs ?e)
     else r = None \<and> ce_runs e' = ce_runs ?e"
    using execute_job_ready [OF greg.civil_calendar_axioms sample_ready(3) get _ sample_ready(1) p(2)] sample_ready(2) p(1) by metis
  have "policy_should_run (ce_policy ?e) (jd_priority ?job) 0"
    by (simp add: p(1) scheduling_policy_default_def policy_should_run_def)
  then obtain run where run: "r = Some run" "run_ok run" using *(2) by auto
  from retry_budget [OF reach get] *(1) run(1) have "unat (jr_attempt run) = unat (jd_consecutive_failures ?job) + 1" by blast
  then show ?thesis using run(2) by (auto simp: sample_job_def)
qed

end
