(* ===== verification/Session_Approval.thy ===== *)
theory Session_Approval
  imports Fleet_Text "HOL-Library.Sublist"
begin

text \<open>
  Approval of commands in agent sessions: \<^verbatim>\<open>crates/ff-sessions/src/approval.rs\<close>.

  Clock reads and fresh identifiers are arguments. The counters of a policy are \<open>u64\<close> words
  that wrap as in a release build. The reaper task only calls \<open>reap_completed_map\<close>
  periodically.
\<close>

section \<open>Policies and requests\<close>

datatype security_mode = SecFull | SecAllowlist | SecDeny

datatype ask_mode = AskOff | AskOnMiss | AskAlways

datatype approval_state = ApPending | ApApproved | ApDenied

record approval =
  ap_id :: uuid
  ap_session_id :: uuid
  ap_command :: string
  ap_state :: approval_state
  ap_reason :: string
  ap_requested_at :: datetime
  ap_decided_at :: "datetime option"

definition approval_pending :: "uuid \<Rightarrow> datetime \<Rightarrow> uuid \<Rightarrow> string \<Rightarrow> string \<Rightarrow> approval" where
  "approval_pending uid now session_id command reason =
     \<lparr>ap_id = uid, ap_session_id = session_id, ap_command = command, ap_state = ApPending, ap_reason = reason,
      ap_requested_at = now, ap_decided_at = None\<rparr>"

definition request_approve :: "datetime \<Rightarrow> approval \<Rightarrow> approval" where
  "request_approve now r = r\<lparr>ap_state := ApApproved, ap_decided_at := Some now\<rparr>"

definition request_deny :: "datetime \<Rightarrow> approval \<Rightarrow> approval" where
  "request_deny now r = r\<lparr>ap_state := ApDenied, ap_decided_at := Some now\<rparr>"

record approval_policy =
  pol_security_mode :: security_mode
  pol_ask_mode :: ask_mode
  pol_allowlist :: "string list"
  pol_total_checked :: u64
  pol_auto_allowed :: u64
  pol_auto_denied :: u64
  pol_pending_requests :: u64

definition approval_policy_default :: approval_policy where
  "approval_policy_default =
     \<lparr>pol_security_mode = SecAllowlist, pol_ask_mode = AskOnMiss, pol_allowlist = [], pol_total_checked = 0,
      pol_auto_allowed = 0, pol_auto_denied = 0, pol_pending_requests = 0\<rparr>"

record approval_decision =
  de_allowed :: bool
  de_needs_approval :: bool
  de_approval_id :: "uuid option"
  de_reason :: string

definition decision_allow :: "string \<Rightarrow> approval_decision" where
  "decision_allow reason = \<lparr>de_allowed = True, de_needs_approval = False, de_approval_id = None, de_reason = reason\<rparr>"

definition decision_deny :: "string \<Rightarrow> approval_decision" where
  "decision_deny reason = \<lparr>de_allowed = False, de_needs_approval = False, de_approval_id = None, de_reason = reason\<rparr>"

definition decision_pending :: "uuid \<Rightarrow> string \<Rightarrow> approval_decision" where
  "decision_pending uid reason =
     \<lparr>de_allowed = False, de_needs_approval = True, de_approval_id = Some uid, de_reason = reason\<rparr>"

section \<open>Patterns\<close>

fun parts_in_order :: "string list \<Rightarrow> string \<Rightarrow> bool" where
  "parts_in_order [] v = True"
| "parts_in_order (p # ps) v =
     (case str_find p v of None \<Rightarrow> False | Some pos \<Rightarrow> parts_in_order ps (drop (pos + length p) v))"

definition pattern_match :: "string \<Rightarrow> string \<Rightarrow> bool" where
  "pattern_match pattern v =
     (if pattern = ''*'' then True
      else if CHR ''*'' \<notin> set pattern then trim_ws pattern = trim_ws v
      else (case split_char (CHR ''*'') pattern of
              [pre, suf] \<Rightarrow>
                (if pre = [] then suffix suf v
                 else if suf = [] then prefix pre v
                 else prefix pre v \<and> suffix suf v)
            | parts \<Rightarrow> parts_in_order (filter (\<lambda>p. p \<noteq> []) parts) v))"

definition matches_allowlist :: "string list \<Rightarrow> string \<Rightarrow> bool" where
  "matches_allowlist allowlist command = list_ex (\<lambda>p. pattern_match p command) allowlist"

section \<open>The manager\<close>

record approval_manager =
  am_policies :: "(uuid, approval_policy) hmap"
  am_requests :: "(uuid, approval) hmap"

definition approval_manager_new :: approval_manager where
  "approval_manager_new = \<lparr>am_policies = [], am_requests = []\<rparr>"

text \<open>\<open>policies.entry(session_id).or_default()\<close>, then an update in place.\<close>

definition with_policy ::
  "uuid \<Rightarrow> (approval_policy \<Rightarrow> approval_policy) \<Rightarrow> approval_manager \<Rightarrow> approval_manager" where
  "with_policy s f m =
     m\<lparr>am_policies := hm_modify s f (hm_or_insert s approval_policy_default (am_policies m))\<rparr>"

definition policy_or_default :: "uuid \<Rightarrow> approval_manager \<Rightarrow> approval_policy" where
  "policy_or_default s m = (case hm_get (am_policies m) s of Some p \<Rightarrow> p | None \<Rightarrow> approval_policy_default)"

definition ensure_session :: "uuid \<Rightarrow> approval_manager \<Rightarrow> approval_manager \<times> approval_policy" where
  "ensure_session s m =
     (case hm_get (am_policies m) s of
        Some p \<Rightarrow> (m, p)
      | None \<Rightarrow> (m\<lparr>am_policies := hm_insert s approval_policy_default (am_policies m)\<rparr>, approval_policy_default))"

definition set_security_mode :: "uuid \<Rightarrow> security_mode \<Rightarrow> approval_manager \<Rightarrow> approval_manager" where
  "set_security_mode s mode m = with_policy s (\<lambda>p. p\<lparr>pol_security_mode := mode\<rparr>) m"

definition set_ask_mode :: "uuid \<Rightarrow> ask_mode \<Rightarrow> approval_manager \<Rightarrow> approval_manager" where
  "set_ask_mode s mode m = with_policy s (\<lambda>p. p\<lparr>pol_ask_mode := mode\<rparr>) m"

definition allowlist_add :: "uuid \<Rightarrow> string \<Rightarrow> approval_manager \<Rightarrow> approval_manager" where
  "allowlist_add s pattern m =
     with_policy s (\<lambda>p. if pattern \<in> set (pol_allowlist p) then p
                         else p\<lparr>pol_allowlist := pol_allowlist p @ [pattern]\<rparr>) m"

definition allowlist_remove :: "uuid \<Rightarrow> string \<Rightarrow> approval_manager \<Rightarrow> approval_manager \<times> bool" where
  "allowlist_remove s pattern m =
     (case hm_get (am_policies m) s of
        None \<Rightarrow> (m, False)
      | Some p \<Rightarrow>
         (let kept = filter (\<lambda>q. q \<noteq> pattern) (pol_allowlist p)
          in (m\<lparr>am_policies := hm_insert s (p\<lparr>pol_allowlist := kept\<rparr>) (am_policies m)\<rparr>,
              length kept \<noteq> length (pol_allowlist p))))"

definition allowlist_clear :: "uuid \<Rightarrow> approval_manager \<Rightarrow> approval_manager" where
  "allowlist_clear s m = with_policy s (\<lambda>p. p\<lparr>pol_allowlist := []\<rparr>) m"

definition create_pending ::
  "uuid \<Rightarrow> datetime \<Rightarrow> uuid \<Rightarrow> string \<Rightarrow> string \<Rightarrow> (uuid, approval) hmap \<Rightarrow> (uuid, approval) hmap \<times> approval_decision" where
  "create_pending uid now s command reason requests =
     (hm_insert uid (approval_pending uid now s command reason) requests, decision_pending uid reason)"

definition evaluate ::
  "uuid \<Rightarrow> datetime \<Rightarrow> uuid \<Rightarrow> string \<Rightarrow> approval_manager \<Rightarrow> approval_manager \<times> approval_decision" where
  "evaluate uid now s command m =
     (let p0 = policy_or_default s m;
          p1 = p0\<lparr>pol_total_checked := pol_total_checked p0 + 1\<rparr>;
          allowlisted = matches_allowlist (pol_allowlist p1) command;
          denied = p1\<lparr>pol_auto_denied := pol_auto_denied p1 + 1\<rparr>;
          allowed = p1\<lparr>pol_auto_allowed := pol_auto_allowed p1 + 1\<rparr>;
          keep = (\<lambda>p d. (p, am_requests m, d));
          pend = (\<lambda>reason. let (rs, d) = create_pending uid now s command reason (am_requests m) in (p1, rs, d));
          (p2, requests, decision) =
            (case (pol_security_mode p1, pol_ask_mode p1, allowlisted) of
               (SecDeny, _, _) \<Rightarrow> keep denied (decision_deny ''security_mode=deny blocks all commands'')
             | (SecFull, AskOff, _) \<Rightarrow> keep allowed (decision_allow ''security_mode=full with ask_mode=off'')
             | (SecFull, AskOnMiss, _) \<Rightarrow> keep allowed (decision_allow ''security_mode=full allows command'')
             | (SecFull, AskAlways, _) \<Rightarrow> pend ''ask_mode=always''
             | (SecAllowlist, AskAlways, _) \<Rightarrow> pend ''ask_mode=always''
             | (SecAllowlist, AskOff, True) \<Rightarrow> keep allowed (decision_allow ''command matched allowlist'')
             | (SecAllowlist, AskOnMiss, True) \<Rightarrow> keep allowed (decision_allow ''command matched allowlist'')
             | (SecAllowlist, AskOff, False) \<Rightarrow> keep denied (decision_deny ''command not in allowlist'')
             | (SecAllowlist, AskOnMiss, False) \<Rightarrow> pend ''command missed allowlist'');
          p3 = (if de_needs_approval decision then p2\<lparr>pol_pending_requests := pol_pending_requests p2 + 1\<rparr> else p2)
      in (m\<lparr>am_policies := hm_insert s p3 (am_policies m), am_requests := requests\<rparr>, decision))"

definition decide_request ::
  "(approval \<Rightarrow> approval) \<Rightarrow> uuid \<Rightarrow> approval_manager \<Rightarrow> approval_manager \<times> bool" where
  "decide_request f aid m =
     (case hm_get (am_requests m) aid of
        None \<Rightarrow> (m, False)
      | Some r \<Rightarrow>
         (if ap_state r = ApPending then (m\<lparr>am_requests := hm_insert aid (f r) (am_requests m)\<rparr>, True) else (m, False)))"

definition approve :: "datetime \<Rightarrow> uuid \<Rightarrow> approval_manager \<Rightarrow> approval_manager \<times> bool" where
  "approve now aid m = decide_request (request_approve now) aid m"

definition deny :: "datetime \<Rightarrow> uuid \<Rightarrow> approval_manager \<Rightarrow> approval_manager \<times> bool" where
  "deny now aid m = decide_request (request_deny now) aid m"

definition get_request :: "uuid \<Rightarrow> approval_manager \<Rightarrow> approval option" where
  "get_request aid m = hm_get (am_requests m) aid"

definition pending_for_session :: "(approval list \<Rightarrow> approval list) \<Rightarrow> uuid \<Rightarrow> approval_manager \<Rightarrow> approval list" where
  "pending_for_session it s m =
     filter (\<lambda>r. ap_session_id r = s \<and> ap_state r = ApPending) (it (hm_values (am_requests m)))"

definition is_approved :: "uuid \<Rightarrow> approval_manager \<Rightarrow> bool" where
  "is_approved aid m = (case hm_get (am_requests m) aid of None \<Rightarrow> False | Some r \<Rightarrow> ap_state r = ApApproved)"

definition completed_old :: "datetime \<Rightarrow> duration \<Rightarrow> approval \<Rightarrow> bool" where
  "completed_old now max_age r \<longleftrightarrow>
     ap_state r \<noteq> ApPending \<and> (case ap_decided_at r of None \<Rightarrow> False | Some t \<Rightarrow> max_age \<le> now - t)"

definition remove_requests ::
  "(approval \<Rightarrow> bool) \<Rightarrow> (approval list \<Rightarrow> approval list) \<Rightarrow> (uuid, approval) hmap \<Rightarrow> (uuid, approval) hmap \<times> nat" where
  "remove_requests P it requests =
     (let to_remove = map ap_id (filter P (it (hm_values requests)))
      in (fold hm_remove to_remove requests, length to_remove))"

definition cleanup_completed ::
  "(approval list \<Rightarrow> approval list) \<Rightarrow> datetime \<Rightarrow> uuid \<Rightarrow> duration \<Rightarrow> approval_manager \<Rightarrow> approval_manager \<times> nat" where
  "cleanup_completed it now s max_age m =
     (let (rs, n) = remove_requests (\<lambda>r. ap_session_id r = s \<and> completed_old now max_age r) it (am_requests m)
      in (m\<lparr>am_requests := rs\<rparr>, n))"

definition reap_completed_map ::
  "(approval list \<Rightarrow> approval list) \<Rightarrow> datetime \<Rightarrow> duration \<Rightarrow> (uuid, approval) hmap \<Rightarrow> (uuid, approval) hmap \<times> nat" where
  "reap_completed_map it now max_age requests = remove_requests (completed_old now max_age) it requests"

definition cleanup_all_completed ::
  "(approval list \<Rightarrow> approval list) \<Rightarrow> datetime \<Rightarrow> duration \<Rightarrow> approval_manager \<Rightarrow> approval_manager \<times> nat" where
  "cleanup_all_completed it now max_age m =
     (let (rs, n) = reap_completed_map it now max_age (am_requests m) in (m\<lparr>am_requests := rs\<rparr>, n))"

section \<open>Patterns as globs\<close>

text \<open>The reference: every star stands for any text, everything else for itself.\<close>

fun glob :: "string \<Rightarrow> string \<Rightarrow> bool" where
  "glob [] v = (v = [])"
| "glob (p # ps) [] = (p = CHR ''*'' \<and> glob ps [])"
| "glob (p # ps) (c # v) =
     (if p = CHR ''*'' then glob ps (c # v) \<or> glob (p # ps) v else p = c \<and> glob ps v)"

lemma glob_star: "glob (CHR ''*'' # ps) v \<longleftrightarrow> (\<exists>m w. v = m @ w \<and> glob ps w)"
proof (induction v)
  case IH: (Cons c v)
  show ?case
  proof
    assume "glob (CHR ''*'' # ps) (c # v)"
    then consider "glob ps (c # v)" | "glob (CHR ''*'' # ps) v" by auto
    then show "\<exists>m w. c # v = m @ w \<and> glob ps w"
    proof cases
      case 1
      then have "c # v = [] @ (c # v) \<and> glob ps (c # v)" by simp
      then show ?thesis by blast
    next
      case 2
      then obtain m w where "v = m @ w" "glob ps w" using IH by auto
      then have "c # v = (c # m) @ w \<and> glob ps w" by simp
      then show ?thesis by blast
    qed
  next
    assume "\<exists>m w. c # v = m @ w \<and> glob ps w"
    then obtain m w where mw: "c # v = m @ w" "glob ps w" by blast
    show "glob (CHR ''*'' # ps) (c # v)"
    proof (cases m)
      case (Cons x m')
      then have "v = m' @ w" using mw(1) by simp
      then have "glob (CHR ''*'' # ps) v" using IH mw(2) by blast
      then show ?thesis by simp
    qed (use mw glob.simps(3) [of "CHR ''*''" ps c v] in auto)
  qed
qed auto

lemma glob_plain: "CHR ''*'' \<notin> set a \<Longrightarrow> glob (a @ ps) v \<longleftrightarrow> (\<exists>w. v = a @ w \<and> glob ps w)"
proof (induction a arbitrary: v)
  case (Cons x a)
  then show ?case by (cases v) auto
qed simp

fun glob_parts :: "string list \<Rightarrow> string \<Rightarrow> bool" where
  "glob_parts [] v = (v = [])"
| "glob_parts [s] v = (v = s)"
| "glob_parts (s # t # ts) v = (\<exists>m w. v = s @ m @ w \<and> glob_parts (t # ts) w)"

lemma glob_split: "glob p v \<longleftrightarrow> glob_parts (split_char (CHR ''*'') p) v"
proof (induction "length p" arbitrary: p v rule: less_induct)
  case less
  show ?case
  proof (cases "CHR ''*'' \<in> set p")
    case False
    then show ?thesis using glob_plain [of p "[]" v] by (auto simp: split_char_plain)
  next
    case True
    then obtain a q where p: "p = a @ CHR ''*'' # q" "CHR ''*'' \<notin> set a" by (metis split_list_first)
    obtain t ts where ts: "split_char (CHR ''*'') q = t # ts" by (cases "split_char (CHR ''*'') q") auto
    have "glob p v \<longleftrightarrow> (\<exists>m w. v = a @ m @ w \<and> glob q w)"
      unfolding p(1) glob_plain [OF p(2)] glob_star by blast
    also have "\<dots> \<longleftrightarrow> glob_parts (split_char (CHR ''*'') p) v"
      using less [of q] by (simp add: p split_char_append ts)
    finally show ?thesis .
  qed
qed

text \<open>The parts of a pattern, found one after another.\<close>

fun occur :: "string list \<Rightarrow> string \<Rightarrow> bool" where
  "occur [] v = True"
| "occur (p # ps) v = (\<exists>x w. v = x @ p @ w \<and> occur ps w)"

lemma occur_append: "occur ps w \<Longrightarrow> occur ps (y @ w)"
proof (cases ps)
  case (Cons p qs)
  moreover assume "occur ps w"
  ultimately obtain x u where "w = x @ p @ u" "occur qs u" by auto
  then have "y @ w = (y @ x) @ p @ u \<and> occur qs u" by simp
  then show ?thesis using Cons by (metis occur.simps(2))
qed simp

lemma parts_in_order_iff: "parts_in_order ps v \<longleftrightarrow> occur ps v"
proof (induction ps arbitrary: v)
  case (Cons p ps)
  show ?case
  proof
    assume "parts_in_order (p # ps) v"
    then obtain n where n: "str_find p v = Some n" "occur ps (drop (n + length p) v)"
      using Cons by (auto split: option.splits)
    then show "occur (p # ps) v" using str_find_sound [OF n(1)] by auto
  next
    assume "occur (p # ps) v"
    then obtain x w where v: "v = x @ p @ w" "occur ps w" by auto
    obtain n where n: "str_find p v = Some n" "n \<le> length x" using str_find_leftmost [of p x w] v(1) by blast
    have "drop (n + length p) v = drop (n + length p) (x @ p) @ w" using n(2) by (simp add: v(1))
    then have "occur ps (drop (n + length p) v)" using occur_append [OF v(2)] by (simp only:)
    then show "parts_in_order (p # ps) v" using n(1) Cons by simp
  qed
qed simp

lemma glob_parts_occur: "glob_parts ps v \<Longrightarrow> occur (filter (\<lambda>p. p \<noteq> []) ps) v"
proof (induction ps v rule: glob_parts.induct)
  case (2 s v)
  then have "v = [] @ s @ [] \<and> occur [] []" by simp
  then have "occur [s] v" unfolding occur.simps(2) by blast
  then show ?case by simp
next
  case (3 s t ts v)
  then obtain m w where v: "v = s @ m @ w" "occur (filter (\<lambda>p. p \<noteq> []) (t # ts)) w" by auto
  then have "occur (filter (\<lambda>p. p \<noteq> []) (t # ts)) (m @ w)" by (intro occur_append)
  then have "s \<noteq> [] \<Longrightarrow> occur (s # filter (\<lambda>p. p \<noteq> []) (t # ts)) v" unfolding v(1) occur.simps(2) by (metis append_Nil)
  moreover have "s = [] \<Longrightarrow> occur (filter (\<lambda>p. p \<noteq> []) (t # ts)) v"
    using \<open>occur _ (m @ w)\<close> v(1) by simp
  ultimately show ?case by simp
qed simp

lemma one_star:
  assumes "split_char (CHR ''*'') p = [pre, suf]"
  shows "glob p v \<longleftrightarrow> prefix pre v \<and> suffix suf v \<and> length pre + length suf \<le> length v"
proof
  assume "glob p v"
  then obtain m where "v = pre @ m @ suf" using assms by (auto simp: glob_split)
  then show "prefix pre v \<and> suffix suf v \<and> length pre + length suf \<le> length v" by (auto simp: suffix_def)
next
  assume *: "prefix pre v \<and> suffix suf v \<and> length pre + length suf \<le> length v"
  obtain w where 1: "v = pre @ w" using * by (auto simp: prefix_def)
  obtain u where 2: "v = u @ suf" using * by (auto simp: suffix_def)
  note w = 1 2
  have "length pre \<le> length u" using * 2 by simp
  then have "v = pre @ drop (length pre) u @ suf" using w by (metis append_assoc append_eq_append_conv_if append_take_drop_id)
  then show "glob p v" using assms by (auto simp: glob_split)
qed

lemma split_length: "length (split_char c p) = count_list p c + 1"
  by (induction p) (auto split: list.splits)

lemma split_two_length: "split_char c p = [a, b] \<Longrightarrow> length p = length a + length b + 1"
  using str_join_split [of c p] by (metis (no_types, lifting) One_nat_def add.commute append.right_neutral append_assoc length_append list.size(3,4) plus_1_eq_Suc str_join.simps(2,3))

text \<open>
  C19: What an allowlist pattern lets through. Every command the pattern describes, with each
  star standing for any text, is matched. A pattern with one star matches nothing else as
  long as the command is at least as long as the pattern without it, and a pattern without
  stars matches exactly the command up to surrounding white space.
\<close>

theorem pattern_match_glob:
  "(glob p v \<longrightarrow> pattern_match p v) \<and>
   (count_list p (CHR ''*'') = 1 \<and> length p \<le> length v + 1 \<longrightarrow> (pattern_match p v \<longleftrightarrow> glob p v)) \<and>
   (CHR ''*'' \<notin> set p \<longrightarrow> (pattern_match p v \<longleftrightarrow> trim_ws p = trim_ws v))"
proof (intro conjI impI)
  assume "CHR ''*'' \<notin> set p"
  then show "pattern_match p v \<longleftrightarrow> trim_ws p = trim_ws v" by (auto simp: pattern_match_def)
next
  assume *: "count_list p (CHR ''*'') = 1 \<and> length p \<le> length v + 1"
  then obtain pre suf where ps: "split_char (CHR ''*'') p = [pre, suf]"
    using split_length [of "CHR ''*''" p] by (auto simp: length_Suc_conv numeral_eq_Suc)
  have "CHR ''*'' \<in> set p" using * by (metis count_list_0_iff zero_neq_one)
  then have "pattern_match p v \<longleftrightarrow> p = ''*'' \<or> prefix pre v \<and> suffix suf v"
    using ps by (auto simp: pattern_match_def)
  also have "\<dots> \<longleftrightarrow> glob p v"
    using * one_star [OF ps, of v] split_two_length [OF ps] glob_star [of "[]" v] by auto
  finally show "pattern_match p v \<longleftrightarrow> glob p v" .
next
  assume g: "glob p v"
  show "pattern_match p v"
  proof (cases "CHR ''*'' \<in> set p")
    case False
    then show ?thesis using g glob_plain [of p "[]" v] by (auto simp: pattern_match_def)
  next
    case True
    have o: "parts_in_order (filter (\<lambda>q. q \<noteq> []) (split_char (CHR ''*'') p)) v"
      using g glob_parts_occur by (simp add: parts_in_order_iff glob_split)
    show ?thesis
    proof (cases "\<exists>pre suf. split_char (CHR ''*'') p = [pre, suf]")
      case True
      then obtain pre suf where "split_char (CHR ''*'') p = [pre, suf]" by blast
      then show ?thesis using g \<open>CHR ''*'' \<in> set p\<close> by (simp add: pattern_match_def one_star)
    next
      case False
      then show ?thesis using o \<open>CHR ''*'' \<in> set p\<close>
        by (auto simp: pattern_match_def split: list.splits)
    qed
  qed
qed

theorem pattern_match_glob_witness: "pattern_match ''git *'' ''git status''"
proof -
  have "glob ''git *'' ''git status''" by simp
  then show ?thesis using pattern_match_glob by blast
qed

text \<open>
  Two ways in which a pattern lets through a command it does not describe. With one star,
  the text before and after it may overlap in the command. With several stars the pattern is
  not anchored: any command that contains its parts in order is matched, whatever stands
  before the first and after the last part.
\<close>

theorem pattern_match_too_wide:
  "pattern_match ''cat*t'' ''cat'' \<and> \<not> glob ''cat*t'' ''cat'' \<and>
   pattern_match ''git * -m *'' ''rm -rf x; git y -m z'' \<and> \<not> glob ''git * -m *'' ''rm -rf x; git y -m z''"
  by (simp add: pattern_match_def prefix_def suffix_def)

section \<open>Decisions\<close>

lemmas decision_defs = decision_allow_def decision_deny_def decision_pending_def create_pending_def approval_pending_def

text \<open>The three ways an evaluation ends.\<close>

datatype verdict = VAllow string | VDeny string | VAsk string

definition verdict_of :: "approval_policy \<Rightarrow> string \<Rightarrow> verdict" where
  "verdict_of p command =
     (case pol_security_mode p of
        SecDeny \<Rightarrow> VDeny ''security_mode=deny blocks all commands''
      | SecFull \<Rightarrow>
          (case pol_ask_mode p of
             AskOff \<Rightarrow> VAllow ''security_mode=full with ask_mode=off''
           | AskOnMiss \<Rightarrow> VAllow ''security_mode=full allows command''
           | AskAlways \<Rightarrow> VAsk ''ask_mode=always'')
      | SecAllowlist \<Rightarrow>
          (if pol_ask_mode p = AskAlways then VAsk ''ask_mode=always''
           else if matches_allowlist (pol_allowlist p) command then VAllow ''command matched allowlist''
           else if pol_ask_mode p = AskOff then VDeny ''command not in allowlist''
           else VAsk ''command missed allowlist''))"

definition apply_verdict ::
  "uuid \<Rightarrow> datetime \<Rightarrow> uuid \<Rightarrow> string \<Rightarrow> approval_manager \<Rightarrow> approval_policy \<Rightarrow> verdict \<Rightarrow> approval_manager \<times> approval_decision" where
  "apply_verdict uid now s command m p v =
     (let p1 = p\<lparr>pol_total_checked := pol_total_checked p + 1\<rparr>;
          upd = (\<lambda>p' rs. m\<lparr>am_policies := hm_insert s p' (am_policies m), am_requests := rs\<rparr>)
      in case v of
           VAllow reason \<Rightarrow> (upd (p1\<lparr>pol_auto_allowed := pol_auto_allowed p + 1\<rparr>) (am_requests m), decision_allow reason)
         | VDeny reason \<Rightarrow> (upd (p1\<lparr>pol_auto_denied := pol_auto_denied p + 1\<rparr>) (am_requests m), decision_deny reason)
         | VAsk reason \<Rightarrow>
             (upd (p1\<lparr>pol_pending_requests := pol_pending_requests p + 1\<rparr>)
                (hm_insert uid (approval_pending uid now s command reason) (am_requests m)),
              decision_pending uid reason))"

lemma evaluate_verdict:
  "evaluate uid now s command m =
     (let p = policy_or_default s m in apply_verdict uid now s command m p (verdict_of p command))"
proof -
  define p where "p = policy_or_default s m"
  show ?thesis
    unfolding evaluate_def p_def [symmetric] Let_def apply_verdict_def verdict_of_def
    by (cases "pol_security_mode p"; cases "pol_ask_mode p"; cases "matches_allowlist (pol_allowlist p) command")
      (simp_all add: create_pending_def decision_allow_def decision_deny_def decision_pending_def)
qed

text \<open>
  A command is let through exactly if the session's mode is full or it matches the
  allowlist, and not every command is to be asked about; deny mode lets nothing through and
  asks nobody. A command that needs approval gets a pending request of its own under the
  returned identifier; otherwise no request changes. Other sessions are unaffected.
\<close>

theorem evaluate_exact:
  assumes "evaluate uid now s command m = (m', d)" "p = policy_or_default s m"
  shows "(de_allowed d \<longleftrightarrow> pol_ask_mode p \<noteq> AskAlways \<and>
      (pol_security_mode p = SecFull \<or>
       pol_security_mode p = SecAllowlist \<and> matches_allowlist (pol_allowlist p) command)) \<and>
    (de_needs_approval d \<longleftrightarrow> pol_security_mode p \<noteq> SecDeny \<and>
      (pol_ask_mode p = AskAlways \<or>
       pol_security_mode p = SecAllowlist \<and> pol_ask_mode p = AskOnMiss \<and> \<not> matches_allowlist (pol_allowlist p) command)) \<and>
    (if de_needs_approval d
     then de_approval_id d = Some uid \<and>
          (\<exists>r. am_requests m' = hm_insert uid r (am_requests m) \<and> ap_state r = ApPending \<and> ap_session_id r = s \<and> ap_command r = command)
     else de_approval_id d = None \<and> am_requests m' = am_requests m) \<and>
    (\<forall>s'. s' \<noteq> s \<longrightarrow> hm_get (am_policies m') s' = hm_get (am_policies m) s')"
proof -
  have e: "apply_verdict uid now s command m p (verdict_of p command) = (m', d)"
    using assms by (simp add: evaluate_verdict Let_def)
  show ?thesis
  proof (cases "verdict_of p command")
    case (VAllow reason)
    moreover from this have "pol_ask_mode p \<noteq> AskAlways \<and> (pol_security_mode p = SecFull \<or>
        pol_security_mode p = SecAllowlist \<and> matches_allowlist (pol_allowlist p) command)"
      by (auto simp: verdict_of_def split: security_mode.splits ask_mode.splits if_splits)
    ultimately show ?thesis using e by (auto simp: apply_verdict_def decision_allow_def Let_def)
  next
    case (VDeny reason)
    moreover from this have "pol_security_mode p = SecDeny \<or> pol_security_mode p = SecAllowlist \<and>
        pol_ask_mode p = AskOff \<and> \<not> matches_allowlist (pol_allowlist p) command"
      by (auto simp: verdict_of_def split: security_mode.splits ask_mode.splits if_splits)
    ultimately show ?thesis using e by (auto simp: apply_verdict_def decision_deny_def Let_def)
  next
    case (VAsk reason)
    moreover from this have "pol_security_mode p \<noteq> SecDeny \<and> (pol_ask_mode p = AskAlways \<or>
        pol_security_mode p = SecAllowlist \<and> pol_ask_mode p = AskOnMiss \<and> \<not> matches_allowlist (pol_allowlist p) command)"
      by (auto simp: verdict_of_def split: security_mode.splits ask_mode.splits if_splits intro: ask_mode.exhaust)
    ultimately show ?thesis using e
      by (auto simp: apply_verdict_def decision_pending_def approval_pending_def Let_def)
  qed
qed

theorem evaluate_exact_witness:
  "\<not> de_allowed (snd (evaluate 1 0 2 ''rm -rf /'' approval_manager_new))"
  using evaluate_exact [of 1 0 2 "''rm -rf /''" approval_manager_new _ _ approval_policy_default]
  by (cases "evaluate 1 0 2 ''rm -rf /'' approval_manager_new")
    (auto simp: policy_or_default_def approval_manager_new_def approval_policy_default_def matches_allowlist_def)

section \<open>The life of a request\<close>

inductive approval_step :: "approval_manager \<Rightarrow> approval_manager \<Rightarrow> bool" where
  evaluated: "hm_get (am_requests m) uid = None \<Longrightarrow> evaluate uid now s command m = (m', d) \<Longrightarrow> approval_step m m'"
| approved: "approve now aid m = (m', b) \<Longrightarrow> approval_step m m'"
| denied: "deny now aid m = (m', b) \<Longrightarrow> approval_step m m'"
| cleaned: "hash_iter it \<Longrightarrow> cleanup_completed it now s max_age m = (m', n) \<Longrightarrow> approval_step m m'"
| reaped: "hash_iter it \<Longrightarrow> cleanup_all_completed it now max_age m = (m', n) \<Longrightarrow> approval_step m m'"
| ensured: "ensure_session s m = (m', p) \<Longrightarrow> approval_step m m'"
| security: "approval_step m (set_security_mode s mode m)"
| asked: "approval_step m (set_ask_mode s ask m)"
| added: "approval_step m (allowlist_add s pattern m)"
| removed: "allowlist_remove s pattern m = (m', b) \<Longrightarrow> approval_step m m'"
| cleared: "approval_step m (allowlist_clear s m)"

definition request_ok :: "uuid \<Rightarrow> approval \<Rightarrow> bool" where
  "request_ok k r \<longleftrightarrow> ap_id r = k \<and> (ap_decided_at r = None \<longleftrightarrow> ap_state r = ApPending)"

definition counters_ok :: "approval_policy \<Rightarrow> bool" where
  "counters_ok p \<longleftrightarrow> pol_total_checked p = pol_auto_allowed p + pol_auto_denied p + pol_pending_requests p"

definition manager_ok :: "approval_manager \<Rightarrow> bool" where
  "manager_ok m \<longleftrightarrow> hm_wf (am_requests m) \<and>
     (\<forall>k r. hm_get (am_requests m) k = Some r \<longrightarrow> request_ok k r) \<and>
     (\<forall>s p. hm_get (am_policies m) s = Some p \<longrightarrow> counters_ok p)"

text \<open>What one step does to one request.\<close>

definition request_step :: "approval option \<Rightarrow> approval option \<Rightarrow> bool" where
  "request_step x y \<longleftrightarrow>
     y = x \<or>
     (case x of
        None \<Rightarrow> (\<exists>r. y = Some r \<and> ap_state r = ApPending)
      | Some r \<Rightarrow>
         (if ap_state r = ApPending
          then \<exists>t. y = Some (request_approve t r) \<or> y = Some (request_deny t r)
          else y = None))"

lemma counters_default: "counters_ok approval_policy_default"
  by (simp add: counters_ok_def approval_policy_default_def)

lemma counters_policy: "manager_ok m \<Longrightarrow> counters_ok (policy_or_default s m)"
  using counters_default by (auto simp: manager_ok_def policy_or_default_def split: option.splits)

lemma with_policy_ok:
  assumes "manager_ok m" "\<And>p. counters_ok p \<Longrightarrow> counters_ok (f p)"
  shows "manager_ok (with_policy s f m) \<and> am_requests (with_policy s f m) = am_requests m"
  using assms counters_default
  by (auto simp: manager_ok_def with_policy_def hm_get_modify hm_get_or_insert split: if_splits)

lemma evaluate_ok:
  assumes "manager_ok m" "hm_get (am_requests m) uid = None" "evaluate uid now s command m = (m', d)"
  shows "manager_ok m' \<and> request_step (hm_get (am_requests m) k) (hm_get (am_requests m') k)"
proof -
  define p where "p = policy_or_default s m"
  have p: "counters_ok p" using counters_policy [OF assms(1)] by (simp add: p_def)
  have e: "apply_verdict uid now s command m p (verdict_of p command) = (m', d)"
    using assms(3) by (simp add: evaluate_verdict p_def Let_def)
  have "\<exists>p'. am_policies m' = hm_insert s p' (am_policies m) \<and> counters_ok p'"
    using e p by (cases "verdict_of p command") (auto simp: apply_verdict_def counters_ok_def Let_def)
  moreover have "am_requests m' = am_requests m \<or>
      (\<exists>r. am_requests m' = hm_insert uid r (am_requests m) \<and> ap_state r = ApPending \<and> request_ok uid r)"
    using e by (cases "verdict_of p command") (auto simp: apply_verdict_def approval_pending_def request_ok_def Let_def)
  ultimately show ?thesis using assms(1, 2) by (auto simp: manager_ok_def request_step_def split: if_splits)
qed

lemma decide_ok:
  assumes "manager_ok m" "decide_request f aid m = (m', b)" "f = request_approve now \<or> f = request_deny now"
  shows "manager_ok m' \<and> request_step (hm_get (am_requests m) k) (hm_get (am_requests m') k)"
proof -
  have "\<And>r. request_ok aid r \<Longrightarrow> request_ok aid (f r)"
    using assms(3) by (auto simp: request_ok_def request_approve_def request_deny_def)
  then show ?thesis using assms
    by (auto simp: manager_ok_def request_step_def decide_request_def split: option.splits if_splits)
qed

lemma remove_requests_ok:
  assumes "manager_ok m" "hash_iter it" "remove_requests P it (am_requests m) = (rs, n)" "\<And>r. P r \<Longrightarrow> ap_state r \<noteq> ApPending"
    and "am_policies m' = am_policies m" "am_requests m' = rs"
  shows "manager_ok m' \<and> request_step (hm_get (am_requests m) k) (hm_get rs k)"
proof -
  have wf: "hm_wf (am_requests m)" using assms(1) by (simp add: manager_ok_def)
  let ?ks = "map ap_id (filter P (it (hm_values (am_requests m))))"
  have rs: "rs = fold hm_remove ?ks (am_requests m)" using assms(3) by (simp add: remove_requests_def Let_def)
  have get: "hm_get rs j = (if j \<in> set ?ks then None else hm_get (am_requests m) j)" for j
    unfolding rs by (rule hm.get_del_all [OF wf])
  have "hm_wf rs" unfolding rs by (rule hm.invar_del_all [OF wf])
  moreover have "ap_state r \<noteq> ApPending" if h: "hm_get (am_requests m) k = Some r" "k \<in> set ?ks" for r
  proof -
    obtain r' where r': "r' \<in> set (hm_values (am_requests m))" "P r'" "ap_id r' = k"
      using h(2) hash_iter_set [OF assms(2)] by auto
    then obtain j where "hm_get (am_requests m) j = Some r'" using set_hm_values [OF wf] by auto
    then have "j = k" using assms(1) r'(3) by (auto simp: manager_ok_def request_ok_def)
    then have "r' = r" using \<open>hm_get (am_requests m) j = Some r'\<close> h(1) by simp
    then show ?thesis using assms(4) r'(2) by simp
  qed
  ultimately show ?thesis using assms(1, 5, 6) get by (auto simp: manager_ok_def request_step_def split: option.splits)
qed

lemma approval_step_ok:
  assumes "approval_step m m'" "manager_ok m"
  shows "manager_ok m' \<and> request_step (hm_get (am_requests m) k) (hm_get (am_requests m') k)"
  using assms
proof (cases rule: approval_step.cases)
  case (evaluated uid now s command d)
  then show ?thesis using evaluate_ok assms(2) by blast
next
  case (approved now aid b)
  then show ?thesis using decide_ok [OF assms(2)] unfolding approve_def by blast
next
  case (denied now aid b)
  then show ?thesis using decide_ok [OF assms(2)] unfolding deny_def by blast
next
  case (cleaned it now s max_age n)
  then obtain rs where "remove_requests (\<lambda>r. ap_session_id r = s \<and> completed_old now max_age r) it (am_requests m) = (rs, n)"
    "m' = m\<lparr>am_requests := rs\<rparr>" by (auto simp: cleanup_completed_def split: prod.splits)
  note m' = this
  have "ap_state r \<noteq> ApPending" if "ap_session_id r = s \<and> completed_old now max_age r" for r
    using that by (simp add: completed_old_def)
  from remove_requests_ok [where m' = m' and k = k, OF assms(2) cleaned(1) m'(1) this] m'(2) show ?thesis by simp
next
  case (reaped it now max_age n)
  then obtain rs where "remove_requests (completed_old now max_age) it (am_requests m) = (rs, n)"
    "m' = m\<lparr>am_requests := rs\<rparr>" by (auto simp: cleanup_all_completed_def reap_completed_map_def split: prod.splits)
  note m' = this
  have "ap_state r \<noteq> ApPending" if "completed_old now max_age r" for r
    using that by (simp add: completed_old_def)
  from remove_requests_ok [where m' = m' and k = k, OF assms(2) reaped(1) m'(1) this] m'(2) show ?thesis by simp
next
  case (ensured s p)
  then show ?thesis using assms(2) counters_default
    by (auto simp: ensure_session_def manager_ok_def request_step_def split: option.splits if_splits)
next
  case (security s mode)
  then show ?thesis using with_policy_ok [OF assms(2)] by (simp add: set_security_mode_def request_step_def counters_ok_def)
next
  case (asked s ask)
  then show ?thesis using with_policy_ok [OF assms(2)] by (simp add: set_ask_mode_def request_step_def counters_ok_def)
next
  case (added s pattern)
  then show ?thesis using with_policy_ok [OF assms(2)] by (simp add: allowlist_add_def request_step_def counters_ok_def)
next
  case (removed s pattern b)
  then show ?thesis using assms(2)
    by (auto simp: allowlist_remove_def manager_ok_def request_step_def counters_ok_def Let_def split: option.splits if_splits)
next
  case (cleared s)
  then show ?thesis using with_policy_ok [OF assms(2)] by (simp add: allowlist_clear_def request_step_def counters_ok_def)
qed

interpretation approvals: invariant_machine approval_step manager_ok
  by unfold_locales (use approval_step_ok in blast)

text \<open>
  Whatever sequence of operations led to it, a step of the manager changes a request only
  in these ways: a new request is pending, a pending one is approved or denied, and a decided
  one is removed. So no decision is ever revoked and no pending request is dropped. The
  counters of every session add up: commands checked are those allowed, denied and asked about.
\<close>

theorem approval_decided_once:
  assumes "approval_step\<^sup>*\<^sup>* approval_manager_new m" "approval_step m m'"
  shows "request_step (get_request k m) (get_request k m') \<and>
    (\<forall>s p. hm_get (am_policies m') s = Some p \<longrightarrow> counters_ok p)"
proof -
  have "manager_ok approval_manager_new" by (simp add: manager_ok_def approval_manager_new_def)
  with assms(1) have "manager_ok m" by (rule approvals.star_inv)
  from approval_step_ok [OF assms(2) this, of k] show ?thesis by (auto simp: get_request_def manager_ok_def)
qed

theorem approval_decided_once_witness:
  "request_step (get_request 1 approval_manager_new) (get_request 1 (fst (evaluate 1 0 2 ''ls'' approval_manager_new)))"
proof -
  obtain m' d where e: "evaluate 1 0 2 ''ls'' approval_manager_new = (m', d)" by fastforce
  have "hm_get (am_requests approval_manager_new) 1 = None" by (simp add: approval_manager_new_def)
  then have "approval_step approval_manager_new m'" using e by (rule approval_step.evaluated)
  then show ?thesis using approval_decided_once [of approval_manager_new m' 1] e by simp
qed

end
