(* ===== verification/Sub_Agents.thy ===== *)
theory Sub_Agents
  imports Fleet_Prelude
begin

text \<open>
  Sub-agents of a session: \<^verbatim>\<open>crates/ff-sessions/src/subagent.rs\<close>.

  Clock reads and fresh identifiers are arguments.
\<close>

section \<open>Sub-agents\<close>

datatype sub_agent_status = SaPending | SaRunning | SaCompleted | SaFailed | SaKilled | SaTimedOut

fun sub_agent_status_to_string :: "sub_agent_status \<Rightarrow> string" where
  "sub_agent_status_to_string SaPending = ''pending''"
| "sub_agent_status_to_string SaRunning = ''running''"
| "sub_agent_status_to_string SaCompleted = ''completed''"
| "sub_agent_status_to_string SaFailed = ''failed''"
| "sub_agent_status_to_string SaKilled = ''killed''"
| "sub_agent_status_to_string SaTimedOut = ''timed_out''"

definition sa_is_terminal :: "sub_agent_status \<Rightarrow> bool" where
  "sa_is_terminal st \<longleftrightarrow> st \<in> {SaCompleted, SaFailed, SaKilled, SaTimedOut}"

record steer_message =
  sm_message :: string
  sm_sent_at :: datetime

record sub_agent =
  sa_id :: uuid
  sa_parent_id :: uuid
  sa_label :: string
  sa_task :: string
  sa_model :: string
  sa_status :: sub_agent_status
  sa_result :: "string option"
  sa_error :: "string option"
  sa_steered :: "steer_message list"
  sa_created_at :: datetime
  sa_updated_at :: datetime

definition sub_agent_new :: "uuid \<Rightarrow> datetime \<Rightarrow> uuid \<Rightarrow> string \<Rightarrow> string \<Rightarrow> string \<Rightarrow> sub_agent" where
  "sub_agent_new uid now parent_id label task model =
     \<lparr>sa_id = uid, sa_parent_id = parent_id, sa_label = label, sa_task = task, sa_model = model,
      sa_status = SaPending, sa_result = None, sa_error = None, sa_steered = [],
      sa_created_at = now, sa_updated_at = now\<rparr>"

definition sa_mark_running :: "datetime \<Rightarrow> sub_agent \<Rightarrow> sub_agent" where
  "sa_mark_running now a = a\<lparr>sa_status := SaRunning, sa_updated_at := now\<rparr>"

definition sa_mark_completed :: "datetime \<Rightarrow> string \<Rightarrow> sub_agent \<Rightarrow> sub_agent" where
  "sa_mark_completed now res a = a\<lparr>sa_status := SaCompleted, sa_result := Some res, sa_updated_at := now\<rparr>"

definition sa_mark_failed :: "datetime \<Rightarrow> string \<Rightarrow> sub_agent \<Rightarrow> sub_agent" where
  "sa_mark_failed now err a = a\<lparr>sa_status := SaFailed, sa_error := Some err, sa_updated_at := now\<rparr>"

definition sa_mark_killed :: "datetime \<Rightarrow> sub_agent \<Rightarrow> sub_agent" where
  "sa_mark_killed now a = a\<lparr>sa_status := SaKilled, sa_updated_at := now\<rparr>"

definition sa_mark_timed_out :: "datetime \<Rightarrow> sub_agent \<Rightarrow> sub_agent" where
  "sa_mark_timed_out now a = a\<lparr>sa_status := SaTimedOut, sa_updated_at := now\<rparr>"

definition sa_steer :: "datetime \<Rightarrow> datetime \<Rightarrow> string \<Rightarrow> sub_agent \<Rightarrow> sub_agent" where
  "sa_steer sent now msg a =
     a\<lparr>sa_steered := sa_steered a @ [\<lparr>sm_message = msg, sm_sent_at = sent\<rparr>], sa_updated_at := now\<rparr>"

definition sa_elapsed :: "datetime \<Rightarrow> sub_agent \<Rightarrow> duration" where
  "sa_elapsed now a = now - sa_created_at a"

section \<open>The manager\<close>

record sub_agent_manager =
  sg_agents :: "(uuid, sub_agent) hmap"
  sg_parent_index :: "(uuid, uuid list) hmap"

definition sub_agents_new :: sub_agent_manager where
  "sub_agents_new = \<lparr>sg_agents = [], sg_parent_index = []\<rparr>"

definition spawn ::
  "uuid \<Rightarrow> datetime \<Rightarrow> uuid \<Rightarrow> string \<Rightarrow> string \<Rightarrow> string \<Rightarrow> sub_agent_manager \<Rightarrow> sub_agent_manager \<times> sub_agent" where
  "spawn uid now parent_id label task model m =
     (let a = sub_agent_new uid now parent_id label task model
      in (m\<lparr>sg_agents := hm_insert (sa_id a) a (sg_agents m),
            sg_parent_index := hm_modify parent_id (\<lambda>ids. ids @ [sa_id a]) (hm_or_insert parent_id [] (sg_parent_index m))\<rparr>,
          a))"

definition sg_get :: "uuid \<Rightarrow> sub_agent_manager \<Rightarrow> sub_agent option" where
  "sg_get aid m = hm_get (sg_agents m) aid"

definition sg_update :: "uuid \<Rightarrow> (sub_agent \<Rightarrow> sub_agent) \<Rightarrow> sub_agent_manager \<Rightarrow> sub_agent_manager \<times> bool" where
  "sg_update aid f m =
     (case hm_get (sg_agents m) aid of
        None \<Rightarrow> (m, False)
      | Some a \<Rightarrow> (m\<lparr>sg_agents := hm_insert aid (f a) (sg_agents m)\<rparr>, True))"

definition sg_mark_running :: "datetime \<Rightarrow> uuid \<Rightarrow> sub_agent_manager \<Rightarrow> sub_agent_manager \<times> bool" where
  "sg_mark_running now aid m = sg_update aid (sa_mark_running now) m"

definition sg_complete :: "datetime \<Rightarrow> uuid \<Rightarrow> string \<Rightarrow> sub_agent_manager \<Rightarrow> sub_agent_manager \<times> bool" where
  "sg_complete now aid res m = sg_update aid (sa_mark_completed now res) m"

definition sg_fail :: "datetime \<Rightarrow> uuid \<Rightarrow> string \<Rightarrow> sub_agent_manager \<Rightarrow> sub_agent_manager \<times> bool" where
  "sg_fail now aid err m = sg_update aid (sa_mark_failed now err) m"

definition sg_kill :: "datetime \<Rightarrow> uuid \<Rightarrow> sub_agent_manager \<Rightarrow> sub_agent_manager \<times> bool" where
  "sg_kill now aid m = sg_update aid (sa_mark_killed now) m"

definition sg_steer :: "datetime \<Rightarrow> datetime \<Rightarrow> uuid \<Rightarrow> string \<Rightarrow> sub_agent_manager \<Rightarrow> sub_agent_manager \<times> bool" where
  "sg_steer sent now aid msg m = sg_update aid (sa_steer sent now msg) m"

definition child_ids :: "uuid \<Rightarrow> sub_agent_manager \<Rightarrow> uuid list" where
  "child_ids parent_id m = (case hm_get (sg_parent_index m) parent_id of None \<Rightarrow> [] | Some ids \<Rightarrow> ids)"

definition children_of :: "uuid \<Rightarrow> sub_agent_manager \<Rightarrow> sub_agent list" where
  "children_of parent_id m = List.map_filter (\<lambda>i. hm_get (sg_agents m) i) (child_ids parent_id m)"

definition collect_results :: "uuid \<Rightarrow> sub_agent_manager \<Rightarrow> (string \<times> string) list" where
  "collect_results parent_id m =
     List.map_filter (\<lambda>a. map_option (\<lambda>r. (sa_label a, r)) (sa_result a))
       (filter (\<lambda>a. sa_status a = SaCompleted) (children_of parent_id m))"

definition sg_all_done :: "uuid \<Rightarrow> sub_agent_manager \<Rightarrow> bool" where
  "sg_all_done parent_id m = list_all (\<lambda>a. sa_is_terminal (sa_status a)) (children_of parent_id m)"

record sub_agent_counts =
  sc_total :: nat
  sc_pending :: nat
  sc_running :: nat
  sc_completed :: nat
  sc_failed :: nat
  sc_killed :: nat
  sc_timed_out :: nat

fun count_status_of :: "sub_agent \<Rightarrow> sub_agent_counts \<Rightarrow> sub_agent_counts" where
  "count_status_of a c =
     (case sa_status a of
        SaPending \<Rightarrow> c\<lparr>sc_pending := sc_pending c + 1\<rparr>
      | SaRunning \<Rightarrow> c\<lparr>sc_running := sc_running c + 1\<rparr>
      | SaCompleted \<Rightarrow> c\<lparr>sc_completed := sc_completed c + 1\<rparr>
      | SaFailed \<Rightarrow> c\<lparr>sc_failed := sc_failed c + 1\<rparr>
      | SaKilled \<Rightarrow> c\<lparr>sc_killed := sc_killed c + 1\<rparr>
      | SaTimedOut \<Rightarrow> c\<lparr>sc_timed_out := sc_timed_out c + 1\<rparr>)"

definition status_counts :: "uuid \<Rightarrow> sub_agent_manager \<Rightarrow> sub_agent_counts" where
  "status_counts parent_id m =
     (let children = children_of parent_id m;
          c = fold count_status_of children
                \<lparr>sc_total = 0, sc_pending = 0, sc_running = 0, sc_completed = 0, sc_failed = 0, sc_killed = 0, sc_timed_out = 0\<rparr>
      in c\<lparr>sc_total := length children\<rparr>)"

fun kill_children :: "datetime \<Rightarrow> sub_agent list \<Rightarrow> nat \<Rightarrow> sub_agent_manager \<Rightarrow> sub_agent_manager \<times> nat" where
  "kill_children now [] killed m = (m, killed)"
| "kill_children now (a # as) killed m =
     (if \<not> sa_is_terminal (sa_status a) then kill_children now as (killed + 1) (fst (sg_kill now (sa_id a) m))
      else kill_children now as killed m)"

definition kill_all :: "datetime \<Rightarrow> uuid \<Rightarrow> sub_agent_manager \<Rightarrow> sub_agent_manager \<times> nat" where
  "kill_all now parent_id m = kill_children now (children_of parent_id m) 0 m"

definition sg_cleanup :: "uuid \<Rightarrow> sub_agent_manager \<Rightarrow> sub_agent_manager" where
  "sg_cleanup parent_id m =
     (case hm_get (sg_parent_index m) parent_id of
        None \<Rightarrow> m
      | Some ids \<Rightarrow> m\<lparr>sg_parent_index := hm_remove parent_id (sg_parent_index m),
                       sg_agents := fold hm_remove ids (sg_agents m)\<rparr>)"

section \<open>The index\<close>

text \<open>The index of a parent lists its agents, each once.\<close>

definition sub_agents_ok :: "sub_agent_manager \<Rightarrow> bool" where
  "sub_agents_ok m \<longleftrightarrow> hm_wf (sg_agents m) \<and>
     (\<forall>i a. hm_get (sg_agents m) i = Some a \<longrightarrow> sa_id a = i) \<and>
     (\<forall>p. distinct (child_ids p m) \<and>
          set (child_ids p m) = {i. \<exists>a. hm_get (sg_agents m) i = Some a \<and> sa_parent_id a = p})"

inductive sub_agent_step :: "sub_agent_manager \<Rightarrow> sub_agent_manager \<Rightarrow> bool" where
  spawned: "hm_get (sg_agents m) uid = None \<Longrightarrow> spawn uid now p label task model m = (m', a) \<Longrightarrow> sub_agent_step m m'"
| running: "sg_mark_running now aid m = (m', b) \<Longrightarrow> sub_agent_step m m'"
| completed: "sg_complete now aid res m = (m', b) \<Longrightarrow> sub_agent_step m m'"
| failed: "sg_fail now aid err m = (m', b) \<Longrightarrow> sub_agent_step m m'"
| killed: "sg_kill now aid m = (m', b) \<Longrightarrow> sub_agent_step m m'"
| steered: "sg_steer sent now aid msg m = (m', b) \<Longrightarrow> sub_agent_step m m'"
| all_killed: "kill_all now p m = (m', n) \<Longrightarrow> sub_agent_step m m'"
| cleaned: "sub_agent_step m (sg_cleanup p m)"

definition keeps_identity :: "(sub_agent \<Rightarrow> sub_agent) \<Rightarrow> bool" where
  "keeps_identity f \<longleftrightarrow> (\<forall>a. sa_id (f a) = sa_id a \<and> sa_parent_id (f a) = sa_parent_id a)"

lemma keeps_identity_marks:
  "keeps_identity (sa_mark_running now)" "keeps_identity (sa_mark_completed now res)"
  "keeps_identity (sa_mark_failed now err)" "keeps_identity (sa_mark_killed now)" "keeps_identity (sa_steer sent now msg)"
  by (simp_all add: keeps_identity_def sa_mark_running_def sa_mark_completed_def sa_mark_failed_def
      sa_mark_killed_def sa_steer_def)

lemma sg_update_ok:
  assumes "sub_agents_ok m" "keeps_identity f" "sg_update aid f m = (m', b)"
  shows "sub_agents_ok m'" "sg_parent_index m' = sg_parent_index m"
    "hm_get (sg_agents m') i = (if i = aid then map_option f (hm_get (sg_agents m) i) else hm_get (sg_agents m) i)"
proof -
  show idx: "sg_parent_index m' = sg_parent_index m" using assms(3) by (auto simp: sg_update_def split: option.splits)
  have get: "hm_get (sg_agents m') i = (if i = aid then map_option f (hm_get (sg_agents m) i) else hm_get (sg_agents m) i)" for i
    using assms(3) by (auto simp: sg_update_def split: option.splits)
  then show "hm_get (sg_agents m') i = (if i = aid then map_option f (hm_get (sg_agents m) i) else hm_get (sg_agents m) i)" .
  have "hm_wf (sg_agents m')" using assms(1, 3) by (auto simp: sg_update_def sub_agents_ok_def split: option.splits)
  moreover have "child_ids p m' = child_ids p m" for p by (simp add: child_ids_def idx)
  moreover have "(\<exists>a. hm_get (sg_agents m') i = Some a \<and> sa_parent_id a = p) \<longleftrightarrow>
      (\<exists>a. hm_get (sg_agents m) i = Some a \<and> sa_parent_id a = p)" for i p
    using assms(2) by (auto simp: get keeps_identity_def)
  moreover have "sa_id a = i" if "hm_get (sg_agents m') i = Some a" for i a
    using that assms(1, 2) by (auto simp: get keeps_identity_def sub_agents_ok_def split: if_splits)
  ultimately show "sub_agents_ok m'" using assms(1) by (simp add: sub_agents_ok_def)
qed

definition kill_open :: "datetime \<Rightarrow> sub_agent \<Rightarrow> sub_agent" where
  "kill_open now a = (if sa_is_terminal (sa_status a) then a else sa_mark_killed now a)"

lemma kill_children_result:
  assumes "sub_agents_ok m" "\<forall>a \<in> set as. hm_get (sg_agents m) (sa_id a) = Some a" "distinct (map sa_id as)"
    and "kill_children now as k m = (m', n)"
  shows "sub_agents_ok m'" "sg_parent_index m' = sg_parent_index m"
    and "n = k + length (filter (\<lambda>a. \<not> sa_is_terminal (sa_status a)) as)"
    and "\<And>i. hm_get (sg_agents m') i =
       (if i \<in> sa_id ` set as then map_option (kill_open now) (hm_get (sg_agents m) i) else hm_get (sg_agents m) i)"
proof (atomize (full), insert assms, induction as arbitrary: k m)
  case (Cons a as)
  have a: "hm_get (sg_agents m) (sa_id a) = Some a" "sa_id a \<notin> sa_id ` set as" using Cons.prems(2, 3) by auto
  show ?case
  proof (cases "sa_is_terminal (sa_status a)")
    case True
    have ih: "sub_agents_ok m'" "sg_parent_index m' = sg_parent_index m"
      "n = k + length (filter (\<lambda>a. \<not> sa_is_terminal (sa_status a)) as)"
      "\<And>i. hm_get (sg_agents m') i =
         (if i \<in> sa_id ` set as then map_option (kill_open now) (hm_get (sg_agents m) i) else hm_get (sg_agents m) i)"
      using Cons.IH [of m k] Cons.prems True by simp_all
    have "hm_get (sg_agents m') i = (if i \<in> sa_id ` set (a # as) then map_option (kill_open now) (hm_get (sg_agents m) i)
        else hm_get (sg_agents m) i)" for i
      using a True by (cases "i = sa_id a") (simp_all add: ih(4) kill_open_def)
    then show ?thesis using ih(1-3) True by simp
  next
    case False
    obtain m1 b where m1: "sg_update (sa_id a) (sa_mark_killed now) m = (m1, b)" by fastforce
    note u = sg_update_ok [OF Cons.prems(1) keeps_identity_marks(4) m1]
    have "hm_get (sg_agents m1) (sa_id x) = Some x" if "x \<in> set as" for x
    proof -
      have "sa_id x \<noteq> sa_id a" using a(2) that by (metis imageI)
      then show ?thesis using Cons.prems(2) that by (simp add: u(3))
    qed
    then have "\<forall>x \<in> set as. hm_get (sg_agents m1) (sa_id x) = Some x" by blast
    moreover have "kill_children now as (k + 1) m1 = (m', n)" using Cons.prems(4) False m1 by (simp add: sg_kill_def)
    ultimately have ih: "sub_agents_ok m'" "sg_parent_index m' = sg_parent_index m1"
      "n = k + 1 + length (filter (\<lambda>a. \<not> sa_is_terminal (sa_status a)) as)"
      "\<And>i. hm_get (sg_agents m') i =
         (if i \<in> sa_id ` set as then map_option (kill_open now) (hm_get (sg_agents m1) i) else hm_get (sg_agents m1) i)"
      using Cons.IH [of m1 "k + 1"] u(1) Cons.prems(3) by simp_all
    have "hm_get (sg_agents m') i = (if i \<in> sa_id ` set (a # as) then map_option (kill_open now) (hm_get (sg_agents m) i)
        else hm_get (sg_agents m) i)" for i
      using a False by (cases "i = sa_id a") (simp_all add: ih(4) kill_open_def u(3))
    then show ?thesis using ih(1-3) u(2) False by simp
  qed
qed simp

lemma map_filter_ids: "\<forall>i \<in> set is. \<exists>a. g i = Some a \<and> f a = i \<Longrightarrow> map f (List.map_filter g is) = is"
  by (induction "is") (auto simp: map_filter_simps)

lemma children_members:
  assumes "sub_agents_ok m"
  shows "\<forall>a \<in> set (children_of p m). hm_get (sg_agents m) (sa_id a) = Some a \<and> sa_parent_id a = p"
    and "map sa_id (children_of p m) = child_ids p m"
proof -
  have ids: "\<forall>i \<in> set (child_ids p m). \<exists>a. hm_get (sg_agents m) i = Some a \<and> sa_parent_id a = p \<and> sa_id a = i"
    using assms by (auto simp: sub_agents_ok_def)
  then show "map sa_id (children_of p m) = child_ids p m"
    unfolding children_of_def by (intro map_filter_ids) blast
  show "\<forall>a \<in> set (children_of p m). hm_get (sg_agents m) (sa_id a) = Some a \<and> sa_parent_id a = p"
    using ids by (auto simp: children_of_def map_filter_def)
qed

lemma kill_all_result:
  assumes "sub_agents_ok m" "kill_all now p m = (m', n)"
  shows "sub_agents_ok m'" "sg_parent_index m' = sg_parent_index m"
    and "n = length (filter (\<lambda>a. \<not> sa_is_terminal (sa_status a)) (children_of p m))"
    and "hm_get (sg_agents m') i = (if i \<in> set (child_ids p m) then map_option (kill_open now) (hm_get (sg_agents m) i)
           else hm_get (sg_agents m) i)"
proof -
  note c = children_members [OF assms(1), of p]
  have d: "distinct (map sa_id (children_of p m))" using assms(1) c(2) by (simp add: sub_agents_ok_def)
  have "\<forall>a \<in> set (children_of p m). hm_get (sg_agents m) (sa_id a) = Some a" using c(1) by blast
  note k = kill_children_result [OF assms(1) this d assms(2) [unfolded kill_all_def]]
  show "sub_agents_ok m'" "sg_parent_index m' = sg_parent_index m"
    "n = length (filter (\<lambda>a. \<not> sa_is_terminal (sa_status a)) (children_of p m))"
    using k by simp_all
  have "sa_id ` set (children_of p m) = set (child_ids p m)" using arg_cong [OF c(2), of set] by simp
  then show "hm_get (sg_agents m') i = (if i \<in> set (child_ids p m) then map_option (kill_open now) (hm_get (sg_agents m) i)
      else hm_get (sg_agents m) i)" using k(4) by simp
qed

lemma spawn_ok:
  assumes "sub_agents_ok m" "hm_get (sg_agents m) uid = None" "spawn uid now p label task model m = (m', a)"
  shows "sub_agents_ok m'"
proof -
  let ?a = "sub_agent_new uid now p label task model"
  have m': "sg_agents m' = hm_insert uid ?a (sg_agents m)"
    "sg_parent_index m' = hm_modify p (\<lambda>ids. ids @ [uid]) (hm_or_insert p [] (sg_parent_index m))"
    using assms(3) by (auto simp: spawn_def Let_def sub_agent_new_def)
  have ids: "child_ids q m' = (if q = p then child_ids p m @ [uid] else child_ids q m)" for q
    by (auto simp: child_ids_def m'(2) hm_get_modify hm_get_or_insert split: option.splits)
  have get: "hm_get (sg_agents m') i = (if i = uid then Some ?a else hm_get (sg_agents m) i)" for i by (simp add: m'(1))
  have old: "distinct (child_ids q m)" "set (child_ids q m) = {i. \<exists>a. hm_get (sg_agents m) i = Some a \<and> sa_parent_id a = q}" for q
    using assms(1) by (simp_all add: sub_agents_ok_def)
  have "set (child_ids q m') = {i. \<exists>a. hm_get (sg_agents m') i = Some a \<and> sa_parent_id a = q}" for q
  proof (rule set_eqI)
    fix i
    show "i \<in> set (child_ids q m') \<longleftrightarrow> i \<in> {i. \<exists>a. hm_get (sg_agents m') i = Some a \<and> sa_parent_id a = q}"
      by (cases "i = uid"; cases "q = p") (simp_all add: get ids old(2) assms(2) sub_agent_new_def)
  qed
  moreover have "uid \<notin> set (child_ids p m)" using old(2) assms(2) by simp
  then have "distinct (child_ids q m')" for q using old(1) by (simp add: ids)
  moreover have "hm_get (sg_agents m') i = Some b \<Longrightarrow> sa_id b = i" for i b
    using assms(1) by (auto simp: get sub_agents_ok_def sub_agent_new_def split: if_splits)
  moreover have "hm_wf (sg_agents m')" using assms(1) by (simp add: sub_agents_ok_def m'(1))
  ultimately show ?thesis unfolding sub_agents_ok_def by blast
qed

lemma cleanup_ok:
  assumes "sub_agents_ok m"
  shows "sub_agents_ok (sg_cleanup p m)"
    and "hm_get (sg_agents (sg_cleanup p m)) i =
      (if i \<in> set (child_ids p m) then None else hm_get (sg_agents m) i)"
proof -
  have wf: "hm_wf (sg_agents m)" using assms by (simp add: sub_agents_ok_def)
  have get: "hm_get (sg_agents (sg_cleanup p m)) i = (if i \<in> set (child_ids p m) then None else hm_get (sg_agents m) i)" for i
    using hm.get_del_all [OF wf] by (auto simp: sg_cleanup_def child_ids_def split: option.splits)
  then show "hm_get (sg_agents (sg_cleanup p m)) i = (if i \<in> set (child_ids p m) then None else hm_get (sg_agents m) i)" .
  have ids: "child_ids q (sg_cleanup p m) = (if q = p then [] else child_ids q m)" for q
    by (auto simp: sg_cleanup_def child_ids_def split: option.splits)
  have "hm_wf (sg_agents (sg_cleanup p m))"
    using hm.invar_del_all [OF wf] wf by (auto simp: sg_cleanup_def split: option.splits)
  moreover have old: "set (child_ids q m) = {i. \<exists>a. hm_get (sg_agents m) i = Some a \<and> sa_parent_id a = q}" for q
    using assms by (simp add: sub_agents_ok_def)
  then have "set (child_ids q (sg_cleanup p m)) =
      {i. \<exists>a. hm_get (sg_agents (sg_cleanup p m)) i = Some a \<and> sa_parent_id a = q}" for q
    unfolding get ids by auto
  moreover have "distinct (child_ids q (sg_cleanup p m))" for q using assms by (simp add: ids sub_agents_ok_def)
  moreover have "hm_get (sg_agents (sg_cleanup p m)) i = Some b \<Longrightarrow> sa_id b = i" for i b
    using assms by (auto simp: get sub_agents_ok_def split: if_splits)
  ultimately show "sub_agents_ok (sg_cleanup p m)" unfolding sub_agents_ok_def by blast
qed

lemma sub_agent_step_ok: "sub_agent_step m m' \<Longrightarrow> sub_agents_ok m \<Longrightarrow> sub_agents_ok m'"
  by (induction rule: sub_agent_step.induct)
    (auto simp: sg_mark_running_def sg_complete_def sg_fail_def sg_kill_def sg_steer_def
      intro: spawn_ok cleanup_ok(1) kill_all_result(1) sg_update_ok(1) keeps_identity_marks)

interpretation sub_agents: invariant_machine sub_agent_step sub_agents_ok
  by unfold_locales (rule sub_agent_step_ok)

lemma sub_agents_new_ok: "sub_agents_ok sub_agents_new"
  by (simp add: sub_agents_ok_def sub_agents_new_def child_ids_def)

text \<open>
  In every state the manager of sub-agents reaches, the children of a parent are exactly
  the agents registered for it, each once, in the order they were spawned. Killing all of
  them kills and counts exactly those that were still open, leaves finished ones with their
  status and result, leaves the agents of other parents alone, and makes the parent done.
\<close>

theorem kill_all_exact:
  assumes "sub_agent_step\<^sup>*\<^sup>* sub_agents_new m" "kill_all now p m = (m', n)"
  shows "set (map sa_id (children_of p m)) = {i. \<exists>a. sg_get i m = Some a \<and> sa_parent_id a = p} \<and>
    distinct (map sa_id (children_of p m)) \<and>
    children_of p m' = map (kill_open now) (children_of p m) \<and> sg_all_done p m' \<and>
    n = length (filter (\<lambda>a. \<not> sa_is_terminal (sa_status a)) (children_of p m)) \<and>
    collect_results p m' = collect_results p m \<and>
    (\<forall>i a. sg_get i m = Some a \<and> sa_parent_id a \<noteq> p \<longrightarrow> sg_get i m' = Some a)"
proof -
  have ok: "sub_agents_ok m" using assms(1) sub_agents_new_ok by (rule sub_agents.star_inv)
  note c = children_members [OF ok, of p] and k = kill_all_result [OF ok assms(2)]
  have ids: "child_ids p m' = child_ids p m" by (simp add: child_ids_def k(2))
  have "List.map_filter (hm_get (sg_agents m')) is = map (kill_open now) (List.map_filter (hm_get (sg_agents m)) is)"
    if "set is \<subseteq> set (child_ids p m)" for "is"
    using that by (induction "is") (auto simp: map_filter_simps k(4) split: option.splits)
  then have children: "children_of p m' = map (kill_open now) (children_of p m)"
    by (simp add: children_of_def ids)
  moreover have "sg_all_done p m'"
    by (auto simp: sg_all_done_def children list_all_iff kill_open_def sa_mark_killed_def sa_is_terminal_def)
  moreover have "filter (\<lambda>a. sa_status a = SaCompleted) (map (kill_open now) as) = filter (\<lambda>a. sa_status a = SaCompleted) as" for as
    by (induction as) (auto simp: kill_open_def sa_mark_killed_def sa_is_terminal_def)
  then have "collect_results p m' = collect_results p m" by (simp add: collect_results_def children)
  moreover have "set (child_ids p m) = {i. \<exists>a. hm_get (sg_agents m) i = Some a \<and> sa_parent_id a = p}" "distinct (child_ids p m)"
    using ok by (simp_all add: sub_agents_ok_def)
  moreover have "\<forall>i a. sg_get i m = Some a \<and> sa_parent_id a \<noteq> p \<longrightarrow> sg_get i m' = Some a"
    using calculation(4) by (auto simp: sg_get_def k(4))
  ultimately show ?thesis using k(3) c(2) by (simp add: sg_get_def)
qed

definition one_agent :: sub_agent_manager where
  "one_agent = fst (spawn 7 0 1 ''writer'' ''write'' ''m'' sub_agents_new)"

theorem kill_all_exact_witness: "sg_all_done 1 (fst (kill_all 5 1 one_agent))"
proof -
  have "sub_agent_step sub_agents_new one_agent"
    by (rule sub_agent_step.spawned [of _ 7 0 1 "''writer''" "''write''" "''m''" _ "snd (spawn 7 0 1 ''writer'' ''write'' ''m'' sub_agents_new)"])
      (simp_all add: sub_agents_new_def one_agent_def)
  then have "sub_agent_step\<^sup>*\<^sup>* sub_agents_new one_agent" by blast
  from kill_all_exact [OF this, of 5 1] show ?thesis by (metis prod.collapse)
qed

text \<open>
  A finished sub-agent is not protected: killing one that has completed overwrites its
  status, and its result is no longer collected.
\<close>

theorem kill_drops_result:
  assumes "sg_get i m = Some a" "sa_status a = SaCompleted" "sg_kill now i m = (m', b)"
  shows "\<exists>a'. sg_get i m' = Some a' \<and> sa_status a' = SaKilled \<and> sa_result a' = sa_result a \<and>
    (\<forall>p. child_ids p m = [i] \<longrightarrow> collect_results p m' = [])"
proof -
  have m': "m' = m\<lparr>sg_agents := hm_insert i (sa_mark_killed now a) (sg_agents m)\<rparr>"
    using assms(1, 3) by (simp add: sg_kill_def sg_update_def sg_get_def)
  have "collect_results p m' = []" if "child_ids p m = [i]" for p
    using that by (simp add: collect_results_def children_of_def child_ids_def m' map_filter_simps sa_mark_killed_def)
  then show ?thesis by (simp add: m' sg_get_def sa_mark_killed_def)
qed

end
