(* ===== verification/Fleet_Metrics.thy ===== *)
theory Fleet_Metrics
  imports Fleet_Prelude Fleet_Text
begin

text \<open>
  Metric snapshots and their collector (\<^verbatim>\<open>ff-observability/src/metrics.rs\<close>): the newest
  snapshot of every node, model and process, the fleet-wide aggregate, the eviction of old
  snapshots and the labels of request paths. The fleet aggregate is shown not to depend on
  the order in which the maps are walked, and its averages to lie between the extremes of
  the nodes.
\<close>

section \<open>Snapshots\<close>

record process_metrics =
  pm_pid :: u32
  pm_cpu_percent :: rat
  pm_memory_mib :: rat
  pm_open_fds :: u64
  pm_threads :: u64
  pm_uptime_secs :: u64
  pm_sampled_at :: datetime

record node_metrics =
  nm_worker_name :: string
  nm_cpu_percent :: rat
  nm_memory_used_gib :: rat
  nm_memory_total_gib :: rat
  nm_gpu_percent :: "rat option"
  nm_gpu_memory_used_gib :: "rat option"
  nm_disk_percent :: rat
  nm_net_rx_bytes :: u64
  nm_net_tx_bytes :: u64
  nm_active_inference_count :: u32
  nm_load_avg_1m :: rat
  nm_sampled_at :: datetime

record model_metrics =
  mm_model_id :: string
  mm_worker_name :: string
  mm_total_requests :: u64
  mm_active_requests :: u32
  mm_avg_latency_ms :: rat
  mm_p95_latency_ms :: rat
  mm_p99_latency_ms :: rat
  mm_total_tokens_generated :: u64
  mm_avg_tokens_per_sec :: rat
  mm_error_count :: u64
  mm_sampled_at :: datetime

record fleet_metrics =
  fm_nodes_online :: u32
  fm_nodes_offline :: u32
  fm_models_loaded :: u32
  fm_total_requests :: u64
  fm_requests_last_minute :: u64
  fm_avg_cpu_percent :: rat
  fm_avg_memory_utilization :: rat
  fm_total_tokens_generated :: u64
  fm_sampled_at :: datetime

definition process_metrics_default :: "datetime \<Rightarrow> process_metrics" where
  "process_metrics_default now =
     \<lparr> pm_pid = 0, pm_cpu_percent = 0, pm_memory_mib = 0, pm_open_fds = 0, pm_threads = 0,
       pm_uptime_secs = 0, pm_sampled_at = now \<rparr>"

definition fleet_metrics_default :: "datetime \<Rightarrow> fleet_metrics" where
  "fleet_metrics_default now =
     \<lparr> fm_nodes_online = 0, fm_nodes_offline = 0, fm_models_loaded = 0, fm_total_requests = 0,
       fm_requests_last_minute = 0, fm_avg_cpu_percent = 0, fm_avg_memory_utilization = 0,
       fm_total_tokens_generated = 0, fm_sampled_at = now \<rparr>"

definition is_high_load :: "rat \<Rightarrow> rat \<Rightarrow> node_metrics \<Rightarrow> bool" where
  "is_high_load cpu_threshold mem_ratio_threshold nm \<longleftrightarrow>
     (let mem_ratio = (if nm_memory_total_gib nm > 0
                       then nm_memory_used_gib nm / nm_memory_total_gib nm else 0)
      in nm_cpu_percent nm \<ge> cpu_threshold \<or> mem_ratio \<ge> mem_ratio_threshold)"

definition memory_utilization :: "node_metrics \<Rightarrow> rat" where
  "memory_utilization nm =
     (if nm_memory_total_gib nm > 0 then nm_memory_used_gib nm / nm_memory_total_gib nm else 0)"

definition error_rate :: "model_metrics \<Rightarrow> rat" where
  "error_rate mm =
     (if mm_total_requests mm > 0
      then of_nat (unat (mm_error_count mm)) / of_nat (unat (mm_total_requests mm)) else 0)"

section \<open>The collector\<close>

record metrics_collector =
  mc_node_metrics :: "(string, node_metrics) hmap"
  mc_model_metrics :: "(string, model_metrics) hmap"
  mc_process_metrics :: "(string, process_metrics) hmap"

definition metrics_new :: metrics_collector where
  "metrics_new = \<lparr> mc_node_metrics = [], mc_model_metrics = [], mc_process_metrics = [] \<rparr>"

definition record_node :: "node_metrics \<Rightarrow> metrics_collector \<Rightarrow> metrics_collector" where
  "record_node nm c = c\<lparr> mc_node_metrics := hm_insert (nm_worker_name nm) nm (mc_node_metrics c) \<rparr>"

definition model_key :: "model_metrics \<Rightarrow> string" where
  "model_key mm = mm_model_id mm @ ''@'' @ mm_worker_name mm"

definition record_model :: "model_metrics \<Rightarrow> metrics_collector \<Rightarrow> metrics_collector" where
  "record_model mm c = c\<lparr> mc_model_metrics := hm_insert (model_key mm) mm (mc_model_metrics c) \<rparr>"

definition record_process :: "string \<Rightarrow> process_metrics \<Rightarrow> metrics_collector \<Rightarrow> metrics_collector" where
  "record_process worker_name pm c =
     (let key = worker_name @ '':'' @ show_nat (unat (pm_pid pm))
      in c\<lparr> mc_process_metrics := hm_insert key pm (mc_process_metrics c) \<rparr>)"

text \<open>The two loops of \<open>fleet_aggregate\<close>, with their accumulators in the order of the code.\<close>

definition node_totals :: "node_metrics list \<Rightarrow> u32 \<times> rat \<times> rat \<times> u32" where
  "node_totals nms =
     foldl (\<lambda>(online, total_cpu, total_mem_util, n) nm.
              (online + 1, total_cpu + nm_cpu_percent nm,
               total_mem_util + memory_utilization nm, n + 1)) (0, 0, 0, 0) nms"

definition model_totals :: "model_metrics list \<Rightarrow> u32 \<times> u64 \<times> u64" where
  "model_totals mms =
     foldl (\<lambda>(models_loaded, total_requests, total_tokens) mm.
              (models_loaded + 1, total_requests + mm_total_requests mm,
               total_tokens + mm_total_tokens_generated mm)) (0, 0, 0) mms"

definition fleet_aggregate ::
  "(node_metrics list \<Rightarrow> node_metrics list) \<Rightarrow> (model_metrics list \<Rightarrow> model_metrics list) \<Rightarrow>
   datetime \<Rightarrow> metrics_collector \<Rightarrow> fleet_metrics" where
  "fleet_aggregate itn itm now c =
     (let (online, total_cpu, total_mem_util, n) = node_totals (itn (hm_values (mc_node_metrics c)));
          (models_loaded, total_requests, total_tokens) =
            model_totals (itm (hm_values (mc_model_metrics c)))
      in \<lparr> fm_nodes_online = online, fm_nodes_offline = 0, fm_models_loaded = models_loaded,
           fm_total_requests = total_requests, fm_requests_last_minute = 0,
           fm_avg_cpu_percent = (if n > 0 then total_cpu / of_nat (unat n) else 0),
           fm_avg_memory_utilization = (if n > 0 then total_mem_util / of_nat (unat n) else 0),
           fm_total_tokens_generated = total_tokens, fm_sampled_at = now \<rparr>)"

definition all_node_metrics :: "(node_metrics list \<Rightarrow> node_metrics list) \<Rightarrow> metrics_collector \<Rightarrow> node_metrics list" where
  "all_node_metrics it c = it (hm_values (mc_node_metrics c))"

definition all_model_metrics :: "(model_metrics list \<Rightarrow> model_metrics list) \<Rightarrow> metrics_collector \<Rightarrow> model_metrics list" where
  "all_model_metrics it c = it (hm_values (mc_model_metrics c))"

definition hm_retain :: "('v \<Rightarrow> bool) \<Rightarrow> ('k, 'v) hmap \<Rightarrow> ('k, 'v) hmap" where
  "hm_retain p m = filter (\<lambda>e. p (snd e)) m"

definition evict_stale :: "datetime \<Rightarrow> int \<Rightarrow> metrics_collector \<Rightarrow> metrics_collector outcome" where
  "evict_stale now max_age_secs c =
     (case duration_seconds max_age_secs of
        Panics \<Rightarrow> Panics
      | Returns d \<Rightarrow>
        (case datetime_minus now d of
           Panics \<Rightarrow> Panics
         | Returns cutoff \<Rightarrow> Returns
             \<lparr> mc_node_metrics = hm_retain (\<lambda>v. nm_sampled_at v > cutoff) (mc_node_metrics c),
               mc_model_metrics = hm_retain (\<lambda>v. mm_sampled_at v > cutoff) (mc_model_metrics c),
               mc_process_metrics = hm_retain (\<lambda>v. pm_sampled_at v > cutoff) (mc_process_metrics c) \<rparr>))"

section \<open>Path labels\<close>

definition is_id_segment :: "string \<Rightarrow> bool" where
  "is_id_segment seg \<longleftrightarrow>
     (length seg = 36 \<and> length (filter (\<lambda>c. c = CHR ''-'') seg) = 4) \<or>
     (seg \<noteq> [] \<and> (\<forall>c \<in> set seg. digit_value c \<noteq> None))"

definition normalize_path :: "string \<Rightarrow> string" where
  "normalize_path path =
     str_join ''/'' (map (\<lambda>seg. if is_id_segment seg then '':id'' else seg) (split_char (CHR ''/'') path))"

section \<open>The collector keeps its keys\<close>

definition metrics_wf :: "metrics_collector \<Rightarrow> bool" where
  "metrics_wf c \<longleftrightarrow>
     hm_wf (mc_node_metrics c) \<and> hm_wf (mc_model_metrics c) \<and> hm_wf (mc_process_metrics c) \<and>
     (\<forall>(k, nm) \<in> set (mc_node_metrics c). k = nm_worker_name nm) \<and>
     (\<forall>(k, mm) \<in> set (mc_model_metrics c). k = model_key mm)"

lemma hm_wf_retain [simp]: "hm_wf m \<Longrightarrow> hm_wf (hm_retain p m)"
  by (auto simp: hm_wf_def hm_keys_def hm_retain_def intro: distinct_map_filter)

lemma hm_get_retain:
  "hm_wf m \<Longrightarrow> hm_get (hm_retain p m) k = Option.bind (hm_get m k) (\<lambda>v. if p v then Some v else None)"
proof (induction m)
  case (Cons e m)
  have "fst e \<notin> fst ` set (hm_retain p m)"
    using Cons.prems by (auto simp: hm_wf_def hm_keys_def hm_retain_def)
  then have "hm_get (hm_retain p m) (fst e) = None"
    by (simp add: hm_get_def map_of_eq_None_iff)
  with Cons show ?case by (simp add: hm_wf_def hm_keys_def hm_get_def hm_retain_def)
qed (simp add: hm_retain_def)

lemma set_hm_insert:
  fixes m :: "('a, 'b) hmap"
  shows "hm_wf m \<Longrightarrow> set (hm_insert k v m) = insert (k, v) {e \<in> set m. fst e \<noteq> k}"
proof (rule set_eqI)
  fix e :: "'a \<times> 'b" assume wf: "hm_wf m"
  obtain k' v' where e: "e = (k', v')" by (cases e)
  show "e \<in> set (hm_insert k v m) \<longleftrightarrow> e \<in> insert (k, v) {e \<in> set m. fst e \<noteq> k}"
    using wf by (auto simp: e hm_mem_iff)
qed

lemma metrics_wf_new: "metrics_wf metrics_new"
  by (simp add: metrics_wf_def metrics_new_def)

lemma metrics_wf_record:
  assumes "metrics_wf c"
  shows "metrics_wf (record_node nm c)" "metrics_wf (record_model mm c)" "metrics_wf (record_process w pm c)"
  using assms by (auto simp: metrics_wf_def record_node_def record_model_def record_process_def Let_def set_hm_insert)

lemma metrics_wf_evict:
  assumes "metrics_wf c" "evict_stale now n c = Returns c'"
  shows "metrics_wf c'"
proof -
  obtain cutoff where c': "c' = \<lparr> mc_node_metrics = hm_retain (\<lambda>v. nm_sampled_at v > cutoff) (mc_node_metrics c),
      mc_model_metrics = hm_retain (\<lambda>v. mm_sampled_at v > cutoff) (mc_model_metrics c),
      mc_process_metrics = hm_retain (\<lambda>v. pm_sampled_at v > cutoff) (mc_process_metrics c) \<rparr>"
    using assms(2) by (auto simp: evict_stale_def split: outcome.splits)
  have s: "set (hm_retain p m) \<subseteq> set m" for p and m :: "(string, 'v) hmap"
    by (auto simp: hm_retain_def)
  show ?thesis using assms(1) by (auto simp: c' metrics_wf_def dest!: subsetD [OF s])
qed

section \<open>The fleet aggregate\<close>

lemma node_totals_eq:
  "node_totals nms = (of_nat (length nms), sum_list (map nm_cpu_percent nms),
     sum_list (map memory_utilization nms), of_nat (length nms))"
proof -
  have "foldl (\<lambda>(online, total_cpu, total_mem_util, n) nm.
          (online + 1, total_cpu + nm_cpu_percent nm, total_mem_util + memory_utilization nm, n + 1))
        (a, b, c, d) nms =
      (a + of_nat (length nms), b + sum_list (map nm_cpu_percent nms),
       c + sum_list (map memory_utilization nms), d + of_nat (length nms))"
    for a d :: u32 and b c :: rat
    by (induction nms arbitrary: a b c d) (simp_all add: ac_simps)
  from this [of 0 0 0 0] show ?thesis by (simp add: node_totals_def)
qed

lemma model_totals_eq:
  "model_totals mms = (of_nat (length mms), sum_list (map mm_total_requests mms),
     sum_list (map mm_total_tokens_generated mms))"
proof -
  have "foldl (\<lambda>(models_loaded, total_requests, total_tokens) mm.
          (models_loaded + 1, total_requests + mm_total_requests mm,
           total_tokens + mm_total_tokens_generated mm)) (a, b, c) mms =
      (a + of_nat (length mms), b + sum_list (map mm_total_requests mms),
       c + sum_list (map mm_total_tokens_generated mms))"
    for a :: u32 and b c :: u64
    by (induction mms arbitrary: a b c) (simp_all add: ac_simps)
  from this [of 0 0 0] show ?thesis by (simp add: model_totals_def)
qed

lemma hash_iter_sum_list:
  "hash_iter it \<Longrightarrow> sum_list (map f (it xs)) = (sum_list (map f xs) :: 'b::comm_monoid_add)"
proof -
  assume "hash_iter it"
  then have "mset (map f (it xs)) = mset (map f xs)" by (simp add: hash_iter_mset)
  then show ?thesis by (simp only: sum_mset_sum_list [symmetric])
qed

text \<open>An average of rational values lies between any bounds of the values.\<close>

lemma average_bounds:
  fixes f :: "'a \<Rightarrow> rat"
  assumes "xs \<noteq> []" "\<forall>x \<in> set xs. lo \<le> f x \<and> f x \<le> hi"
  shows "lo \<le> sum_list (map f xs) / of_nat (length xs)" "sum_list (map f xs) / of_nat (length xs) \<le> hi"
proof -
  have "of_nat (length xs) * lo \<le> sum_list (map f xs) \<and> sum_list (map f xs) \<le> of_nat (length xs) * hi"
    using assms(2)
  proof (induction xs)
    case (Cons x xs)
    then have "of_nat (length xs) * lo \<le> sum_list (map f xs)" "sum_list (map f xs) \<le> of_nat (length xs) * hi"
      "lo \<le> f x" "f x \<le> hi" by simp_all
    then show ?case by (simp add: distrib_right add_mono)
  qed simp
  moreover have "0 < (of_nat (length xs) :: rat)" using assms(1) by simp
  ultimately show "lo \<le> sum_list (map f xs) / of_nat (length xs)"
    "sum_list (map f xs) / of_nat (length xs) \<le> hi"
    by (simp_all add: pos_le_divide_eq pos_divide_le_eq mult.commute)
qed

lemma memory_utilization_range:
  "0 \<le> nm_memory_used_gib nm \<Longrightarrow> nm_memory_used_gib nm \<le> nm_memory_total_gib nm \<Longrightarrow>
   0 \<le> memory_utilization nm \<and> memory_utilization nm \<le> 1"
  by (simp add: memory_utilization_def divide_le_eq_1)

lemma is_high_load_utilization:
  "is_high_load c r nm \<longleftrightarrow> nm_cpu_percent nm \<ge> c \<or> memory_utilization nm \<ge> r"
  by (simp add: is_high_load_def memory_utilization_def Let_def)

lemma fleet_aggregate_eq:
  assumes "hash_iter itn" "hash_iter itm"
    and "length (mc_node_metrics c) < 2 ^ 32"
  shows "fleet_aggregate itn itm now c =
    (let nms = hm_values (mc_node_metrics c); mms = hm_values (mc_model_metrics c)
     in \<lparr> fm_nodes_online = of_nat (length nms), fm_nodes_offline = 0,
          fm_models_loaded = of_nat (length mms),
          fm_total_requests = sum_list (map mm_total_requests mms), fm_requests_last_minute = 0,
          fm_avg_cpu_percent = sum_list (map nm_cpu_percent nms) / of_nat (length nms),
          fm_avg_memory_utilization = sum_list (map memory_utilization nms) / of_nat (length nms),
          fm_total_tokens_generated = sum_list (map mm_total_tokens_generated mms),
          fm_sampled_at = now \<rparr>)"
proof -
  have n: "unat (of_nat (length (mc_node_metrics c)) :: u32) = length (mc_node_metrics c)"
    using assms(3) by (simp add: unat_of_nat)
  then have pos: "(0 :: u32) < of_nat (length (mc_node_metrics c)) \<longleftrightarrow> mc_node_metrics c \<noteq> []"
    by (simp add: word_less_nat_alt)
  show ?thesis
    using assms(1,2)
    by (simp add: fleet_aggregate_def node_totals_eq model_totals_eq hash_iter_sum_list
        hash_iter_length hm_values_def Let_def n pos)
qed

section \<open>Path labels have a bounded vocabulary\<close>

lemma normalize_path_segments:
  assumes "CHR ''/'' \<notin> set seg"
  shows "normalize_path (seg @ ''/'' @ rest) =
    (if is_id_segment seg then '':id'' else seg) @ ''/'' @ normalize_path rest"
proof -
  obtain x xs where s: "split_char (CHR ''/'') rest = x # xs"
    by (cases "split_char (CHR ''/'') rest") simp_all
  show ?thesis
    using assms by (simp add: normalize_path_def split_char_append s)
qed

lemma split_char_join:
  "xs \<noteq> [] \<Longrightarrow> \<forall>x \<in> set xs. c \<notin> set x \<Longrightarrow> split_char c (str_join [c] xs) = xs"
proof (induction xs)
  case (Cons x xs)
  then show ?case by (cases xs) (simp_all add: split_char_append split_char_plain)
qed simp

lemma split_char_free: "x \<in> set (split_char c s) \<Longrightarrow> c \<notin> set x"
  by (induction c s arbitrary: x rule: split_char.induct) (auto split: list.splits if_splits)

text \<open>Normalising a label twice changes nothing more: \<open>:id\<close> is no identifier itself.\<close>

lemma normalize_path_idempotent: "normalize_path (normalize_path p) = normalize_path p"
proof -
  let ?f = "\<lambda>seg. if is_id_segment seg then '':id'' else seg"
  have "\<not> is_id_segment '':id''" by (simp add: is_id_segment_def digit_value_def)
  then have f: "?f (?f seg) = ?f seg" for seg by simp
  have "split_char (CHR ''/'') (normalize_path p) = map ?f (split_char (CHR ''/'') p)"
    unfolding normalize_path_def by (rule split_char_join) (auto dest: split_char_free)
  then show ?thesis
    using f by (simp add: normalize_path_def [of "normalize_path p"]) (simp add: normalize_path_def o_def)
qed

end
