(* ===== verification/Alerting.thy ===== *)
theory Alerting
  imports Fleet_Metrics
begin

text \<open>
  Alert rules and the alert engine (\<^verbatim>\<open>ff-observability/src/alerting.rs\<close>), its
  deduplication settings (\<^verbatim>\<open>ff-core/src/config.rs\<close>) and the tracker that forwards alerts to
  Telegram (\<^verbatim>\<open>ff-gateway/src/nats/consumer/alerts.rs\<close>). A fresh identifier and the two
  clock reads of an alert (\<open>fired_at\<close> and the \<open>now\<close> of \<open>record_alert\<close>) are drawn from a
  supply \<open>draw\<close>, indexed by the alerts created so far.
\<close>

section \<open>Severities, alerts, rules\<close>

datatype alert_severity = SevInfo | SevWarning | SevCritical

primrec severity_rank :: "alert_severity \<Rightarrow> nat" where
  "severity_rank SevInfo = 0"
| "severity_rank SevWarning = 1"
| "severity_rank SevCritical = 2"

instantiation alert_severity :: linorder
begin

definition less_eq_alert_severity :: "alert_severity \<Rightarrow> alert_severity \<Rightarrow> bool" where
  "less_eq_alert_severity a b \<longleftrightarrow> severity_rank a \<le> severity_rank b"

definition less_alert_severity :: "alert_severity \<Rightarrow> alert_severity \<Rightarrow> bool" where
  "less_alert_severity a b \<longleftrightarrow> severity_rank a < severity_rank b"

instance
proof
  fix x y :: alert_severity
  show "x \<le> y \<Longrightarrow> y \<le> x \<Longrightarrow> x = y"
    by (cases x; cases y) (simp_all add: less_eq_alert_severity_def)
qed (auto simp: less_eq_alert_severity_def less_alert_severity_def)

end

primrec severity_to_string :: "alert_severity \<Rightarrow> string" where
  "severity_to_string SevInfo = ''INFO''"
| "severity_to_string SevWarning = ''WARNING''"
| "severity_to_string SevCritical = ''CRITICAL''"

record alert =
  al_id :: uuid
  al_rule_id :: string
  al_severity :: alert_severity
  al_message :: string
  al_node :: "string option"
  al_model_id :: "string option"
  al_fired_at :: datetime
  al_resolved_at :: "datetime option"
  al_acknowledged :: bool
  al_count :: u64
  al_last_sent :: "datetime option"

definition al_is_active :: "alert \<Rightarrow> bool" where
  "al_is_active a \<longleftrightarrow> al_resolved_at a = None"

definition al_resolve :: "datetime \<Rightarrow> alert \<Rightarrow> alert" where
  "al_resolve now a = a\<lparr> al_resolved_at := Some now \<rparr>"

definition al_acknowledge :: "alert \<Rightarrow> alert" where
  "al_acknowledge a = a\<lparr> al_acknowledged := True \<rparr>"

datatype alert_condition =
    NodeDown u64
  | ModelDown
  | HighCpu rat
  | HighMemory rat
  | HighErrorRate rat
  | HighLatency rat

record alert_rule =
  ar_id :: string
  ar_name :: string
  ar_severity :: alert_severity
  ar_condition :: alert_condition
  ar_target_nodes :: "string list option"
  ar_target_models :: "string list option"
  ar_enabled :: bool

definition rule_node_down :: "u64 \<Rightarrow> alert_rule" where
  "rule_node_down timeout_secs =
     \<lparr> ar_id = ''node_down'', ar_name = ''Node Down'', ar_severity = SevCritical,
       ar_condition = NodeDown timeout_secs, ar_target_nodes = None, ar_target_models = None,
       ar_enabled = True \<rparr>"

definition rule_model_down :: alert_rule where
  "rule_model_down =
     \<lparr> ar_id = ''model_down'', ar_name = ''Model Down'', ar_severity = SevCritical,
       ar_condition = ModelDown, ar_target_nodes = None, ar_target_models = None,
       ar_enabled = True \<rparr>"

definition rule_high_cpu :: "rat \<Rightarrow> alert_rule" where
  "rule_high_cpu threshold_percent =
     \<lparr> ar_id = ''high_cpu'', ar_name = ''High CPU Usage'', ar_severity = SevWarning,
       ar_condition = HighCpu threshold_percent, ar_target_nodes = None, ar_target_models = None,
       ar_enabled = True \<rparr>"

definition rule_high_memory :: "rat \<Rightarrow> alert_rule" where
  "rule_high_memory threshold_ratio =
     \<lparr> ar_id = ''high_memory'', ar_name = ''High Memory Usage'', ar_severity = SevWarning,
       ar_condition = HighMemory threshold_ratio, ar_target_nodes = None, ar_target_models = None,
       ar_enabled = True \<rparr>"

definition rule_high_error_rate :: "rat \<Rightarrow> alert_rule" where
  "rule_high_error_rate threshold_ratio =
     \<lparr> ar_id = ''high_error_rate'', ar_name = ''High Model Error Rate'', ar_severity = SevWarning,
       ar_condition = HighErrorRate threshold_ratio, ar_target_nodes = None,
       ar_target_models = None, ar_enabled = True \<rparr>"

section \<open>The engine\<close>

record active_alert =
  aa_alert :: alert
  aa_last_seen_at :: datetime

record alert_engine =
  ae_rules :: "alert_rule list"
  ae_active_alerts :: "(string, active_alert) hmap"
  ae_history :: "(uuid, alert) hmap"
  ae_dedup_window :: duration
  ae_dedup_threshold_count :: u64

record dedup_config =
  dc_window_secs :: u64
  dc_threshold_count :: u64

definition dedup_config_default :: dedup_config where
  "dedup_config_default = \<lparr> dc_window_secs = 300, dc_threshold_count = 2 \<rparr>"

definition with_dedup_window :: "alert_rule list \<Rightarrow> duration \<Rightarrow> alert_engine" where
  "with_dedup_window rules window =
     \<lparr> ae_rules = rules, ae_active_alerts = [], ae_history = [],
       ae_dedup_window = window, ae_dedup_threshold_count = 2 \<rparr>"

definition alert_engine_new :: "alert_rule list \<Rightarrow> alert_engine" where
  "alert_engine_new rules = with_dedup_window rules (secs 300)"

text \<open>\<open>i64::try_from(window_secs).unwrap_or(i64::MAX)\<close> is handed to \<open>Duration::seconds\<close>.\<close>

definition with_deduplication_config :: "alert_rule list \<Rightarrow> dedup_config \<Rightarrow> alert_engine outcome" where
  "with_deduplication_config rules config =
     (let window_secs = (if unat (dc_window_secs config) < 2 ^ 63
                         then uint (dc_window_secs config) else 2 ^ 63 - 1)
      in case duration_seconds window_secs of
           Panics \<Rightarrow> Panics
         | Returns window \<Rightarrow>
             Returns ((with_dedup_window rules window)
               \<lparr> ae_dedup_threshold_count := max (dc_threshold_count config) 2 \<rparr>))"

definition alert_engine_with_defaults :: alert_engine where
  "alert_engine_with_defaults =
     alert_engine_new [rule_node_down 60, rule_model_down, rule_high_cpu 90,
       rule_high_memory (9 / 10), rule_high_error_rate (1 / 10)]"

definition add_rule :: "alert_rule \<Rightarrow> alert_engine \<Rightarrow> alert_engine" where
  "add_rule rule e = e\<lparr> ae_rules := ae_rules e @ [rule] \<rparr>"

definition record_alert ::
  "datetime \<Rightarrow> string \<Rightarrow> alert \<Rightarrow> alert_engine \<Rightarrow> (alert \<times> bool) \<times> alert_engine" where
  "record_alert now dedup_key a e =
     (let fresh = a\<lparr> al_last_sent := Some now \<rparr>;
          insert_fresh = ((fresh, True),
            e\<lparr> ae_active_alerts := hm_insert dedup_key
                  \<lparr> aa_alert = fresh, aa_last_seen_at = now \<rparr> (ae_active_alerts e),
               ae_history := hm_insert (al_id fresh) fresh (ae_history e) \<rparr>)
      in case hm_get (ae_active_alerts e) dedup_key of
           Some active \<Rightarrow>
             if now - aa_last_seen_at active \<le> ae_dedup_window e
             then (let b = (aa_alert active)\<lparr> al_count := saturating_add (al_count (aa_alert active)) 1 \<rparr>
                   in ((b, al_count b < ae_dedup_threshold_count e),
                       e\<lparr> ae_active_alerts := hm_insert dedup_key
                             \<lparr> aa_alert = b, aa_last_seen_at = now \<rparr> (ae_active_alerts e),
                          ae_history := hm_insert (al_id b) b (ae_history e) \<rparr>))
             else insert_fresh
         | None \<Rightarrow> insert_fresh)"

type_synonym alert_draw = "nat \<Rightarrow> uuid \<times> datetime \<times> datetime"

definition new_alert ::
  "uuid \<Rightarrow> datetime \<Rightarrow> string \<Rightarrow> alert_severity \<Rightarrow> string \<Rightarrow> string option \<Rightarrow> string option \<Rightarrow> alert" where
  "new_alert uid fired_at rule_id severity message node model_id =
     \<lparr> al_id = uid, al_rule_id = rule_id, al_severity = severity, al_message = message,
       al_node = node, al_model_id = model_id, al_fired_at = fired_at, al_resolved_at = None,
       al_acknowledged = False, al_count = 1, al_last_sent = None \<rparr>"

text \<open>
  What one rule finds in the metrics, in the order of the loop: the deduplication key, the
  message, the node and the model of every breach.
\<close>

type_synonym alert_hit = "string \<times> string \<times> string option \<times> string option"

definition targeted :: "string list option \<Rightarrow> string \<Rightarrow> bool" where
  "targeted targets x \<longleftrightarrow> (case targets of None \<Rightarrow> True | Some ts \<Rightarrow> x \<in> set ts)"

definition high_cpu_hits :: "alert_rule \<Rightarrow> rat \<Rightarrow> node_metrics list \<Rightarrow> alert_hit list" where
  "high_cpu_hits rule threshold_percent nms =
     [(ar_id rule @ '':'' @ nm_worker_name nm,
       ar_name rule @ '': CPU at '' @ fmt_fixed1 (nm_cpu_percent nm) @ ''% on '' @ nm_worker_name nm,
       Some (nm_worker_name nm), None).
      nm \<leftarrow> nms, targeted (ar_target_nodes rule) (nm_worker_name nm),
      nm_cpu_percent nm \<ge> threshold_percent]"

definition high_memory_hits :: "alert_rule \<Rightarrow> rat \<Rightarrow> node_metrics list \<Rightarrow> alert_hit list" where
  "high_memory_hits rule threshold_ratio nms =
     [(ar_id rule @ '':'' @ nm_worker_name nm,
       ar_name rule @ '': memory at '' @ fmt_fixed0 (memory_utilization nm * 100) @ ''% on '' @
         nm_worker_name nm,
       Some (nm_worker_name nm), None).
      nm \<leftarrow> nms, targeted (ar_target_nodes rule) (nm_worker_name nm),
      memory_utilization nm \<ge> threshold_ratio]"

definition high_error_rate_hits :: "alert_rule \<Rightarrow> rat \<Rightarrow> model_metrics list \<Rightarrow> alert_hit list" where
  "high_error_rate_hits rule threshold_ratio mms =
     [(ar_id rule @ '':'' @ mm_model_id mm @ ''@'' @ mm_worker_name mm,
       ar_name rule @ '': error rate '' @ fmt_fixed1 (error_rate mm * 100) @ ''% for '' @
         mm_model_id mm @ '' on '' @ mm_worker_name mm,
       Some (mm_worker_name mm), Some (mm_model_id mm)).
      mm \<leftarrow> mms, targeted (ar_target_models rule) (mm_model_id mm),
      error_rate mm \<ge> threshold_ratio]"

definition rule_hits ::
  "(node_metrics list \<Rightarrow> node_metrics list) \<Rightarrow> (model_metrics list \<Rightarrow> model_metrics list) \<Rightarrow>
   metrics_collector \<Rightarrow> alert_rule \<Rightarrow> alert_hit list" where
  "rule_hits itn itm metrics rule =
     (if \<not> ar_enabled rule then []
      else case ar_condition rule of
        HighCpu threshold \<Rightarrow> high_cpu_hits rule threshold (all_node_metrics itn metrics)
      | HighMemory threshold \<Rightarrow> high_memory_hits rule threshold (all_node_metrics itn metrics)
      | HighErrorRate threshold \<Rightarrow> high_error_rate_hits rule threshold (all_model_metrics itm metrics)
      | NodeDown _ \<Rightarrow> []
      | ModelDown \<Rightarrow> []
      | HighLatency _ \<Rightarrow> [])"

text \<open>The state of the loops: the engine, the alerts drawn so far and \<open>new_alerts\<close>.\<close>

type_synonym eval_state = "alert_engine \<times> nat \<times> alert list"

definition record_hit :: "alert_draw \<Rightarrow> alert_rule \<Rightarrow> alert_hit \<Rightarrow> eval_state \<Rightarrow> eval_state" where
  "record_hit draw rule hit st =
     (let (dedup_key, message, node, model_id) = hit;
          (e, n, new_alerts) = st;
          (uid, fired_at, now) = draw n;
          ((a, is_new), e') = record_alert now dedup_key
            (new_alert uid fired_at (ar_id rule) (ar_severity rule) message node model_id) e
      in (e', n + 1, if is_new then new_alerts @ [a] else new_alerts))"

definition alerts_evaluate ::
  "(node_metrics list \<Rightarrow> node_metrics list) \<Rightarrow> (model_metrics list \<Rightarrow> model_metrics list) \<Rightarrow>
   alert_draw \<Rightarrow> metrics_collector \<Rightarrow> nat \<Rightarrow> alert_engine \<Rightarrow> eval_state" where
  "alerts_evaluate itn itm draw metrics n e =
     fold (\<lambda>rule. fold (record_hit draw rule) (rule_hits itn itm metrics rule)) (ae_rules e) (e, n, [])"

definition fire_key :: "string \<Rightarrow> string option \<Rightarrow> string option \<Rightarrow> string" where
  "fire_key rule_id node model_id =
     rule_id @ '':'' @ (case node of None \<Rightarrow> ''*'' | Some x \<Rightarrow> x) @ '':'' @
     (case model_id of None \<Rightarrow> ''*'' | Some x \<Rightarrow> x)"

definition fire_alert ::
  "uuid \<times> datetime \<times> datetime \<Rightarrow> string \<Rightarrow> alert_severity \<Rightarrow> string \<Rightarrow> string option \<Rightarrow>
   string option \<Rightarrow> alert_engine \<Rightarrow> alert \<times> alert_engine" where
  "fire_alert drawn rule_id severity message node model_id e =
     (let (uid, fired_at, now) = drawn;
          ((a, _), e') = record_alert now (fire_key rule_id node model_id)
            (new_alert uid fired_at rule_id severity message node model_id) e
      in (a, e'))"

definition str_starts_with :: "string \<Rightarrow> string \<Rightarrow> bool" where
  "str_starts_with p s \<longleftrightarrow> take (length p) s = p"

definition resolve_key :: "datetime \<Rightarrow> string \<Rightarrow> alert_engine \<Rightarrow> alert_engine" where
  "resolve_key now key e =
     (case hm_get (ae_active_alerts e) key of
        None \<Rightarrow> e
      | Some active \<Rightarrow>
          let a = al_resolve now (aa_alert active)
          in e\<lparr> ae_active_alerts := hm_remove key (ae_active_alerts e),
                ae_history := hm_insert (al_id a) a (ae_history e) \<rparr>)"

text \<open>Every resolved alert reads the clock; \<open>clock key\<close> is what the alert of \<open>key\<close> reads.\<close>

definition resolve_by_prefix ::
  "(string list \<Rightarrow> string list) \<Rightarrow> (string \<Rightarrow> datetime) \<Rightarrow> string \<Rightarrow> alert_engine \<Rightarrow> alert_engine" where
  "resolve_by_prefix it clock pre e =
     fold (\<lambda>key. resolve_key (clock key) key)
       (filter (str_starts_with pre) (it (hm_keys (ae_active_alerts e)))) e"

definition active_alert_list :: "(active_alert list \<Rightarrow> active_alert list) \<Rightarrow> alert_engine \<Rightarrow> alert list" where
  "active_alert_list it e = map aa_alert (it (hm_values (ae_active_alerts e)))"

definition active_alerts_min_severity ::
  "(active_alert list \<Rightarrow> active_alert list) \<Rightarrow> alert_severity \<Rightarrow> alert_engine \<Rightarrow> alert list" where
  "active_alerts_min_severity it sev e =
     map aa_alert (filter (\<lambda>aa. al_severity (aa_alert aa) \<ge> sev) (it (hm_values (ae_active_alerts e))))"

definition alert_history :: "(alert list \<Rightarrow> alert list) \<Rightarrow> alert_engine \<Rightarrow> alert list" where
  "alert_history it e = it (hm_values (ae_history e))"

definition active_alert_count :: "alert_engine \<Rightarrow> nat" where
  "active_alert_count e = length (ae_active_alerts e)"

section \<open>Pruning the history\<close>

text \<open>\<open>if history.remove(&id).is_some() { removed += 1 }\<close>, for every identifier in turn.\<close>

fun remove_counting :: "uuid list \<Rightarrow> nat \<times> (uuid, alert) hmap \<Rightarrow> nat \<times> (uuid, alert) hmap" where
  "remove_counting [] st = st"
| "remove_counting (uid # ids) (removed, h) =
     remove_counting ids (if hm_contains h uid then removed + 1 else removed, hm_remove uid h)"

definition prune_history_map ::
  "((uuid \<times> alert) list \<Rightarrow> (uuid \<times> alert) list) \<Rightarrow> datetime \<Rightarrow> duration \<Rightarrow> nat \<Rightarrow>
   (uuid, alert) hmap \<Rightarrow> (nat \<times> (uuid, alert) hmap) outcome" where
  "prune_history_map it now max_age max_entries h =
     (case datetime_minus now max_age of
        Panics \<Rightarrow> Panics
      | Returns cutoff \<Rightarrow>
          let stale = map fst (filter (\<lambda>en. al_fired_at (snd en) < cutoff) (it h));
              (removed, h1) = remove_counting stale (0, h)
          in Returns
            (if length h1 > max_entries
             then (let by_age = sort_key snd (map (\<lambda>en. (fst en, al_fired_at (snd en))) (it h1));
                       overflow = length h1 - max_entries
                   in remove_counting (map fst (take overflow by_age)) (removed, h1))
             else (removed, h1)))"

definition prune_history ::
  "((uuid \<times> alert) list \<Rightarrow> (uuid \<times> alert) list) \<Rightarrow> datetime \<Rightarrow> duration \<Rightarrow> nat \<Rightarrow>
   alert_engine \<Rightarrow> (nat \<times> alert_engine) outcome" where
  "prune_history it now max_age max_entries e =
     (case prune_history_map it now max_age max_entries (ae_history e) of
        Panics \<Rightarrow> Panics
      | Returns (removed, h) \<Rightarrow> Returns (removed, e\<lparr> ae_history := h \<rparr>))"

section \<open>The Telegram tracker\<close>

record telegram_tracker =
  tt_engine :: alert_engine

definition telegram_tracker_new :: telegram_tracker where
  "telegram_tracker_new = \<lparr> tt_engine = alert_engine_new [] \<rparr>"

definition track_for_telegram ::
  "uuid \<times> datetime \<times> datetime \<Rightarrow> string \<Rightarrow> alert_severity \<Rightarrow> string \<Rightarrow> string option \<Rightarrow>
   string option \<Rightarrow> telegram_tracker \<Rightarrow> alert option \<times> telegram_tracker" where
  "track_for_telegram drawn metric severity message node model_id t =
     (let (a, e) = fire_alert drawn metric severity message node model_id (tt_engine t)
      in (if al_count a = 1 then Some a else None, t\<lparr> tt_engine := e \<rparr>))"

end
