(* ===== verification/Alert_Dedup.thy ===== *)
theory Alert_Dedup
  imports Alerting
begin

text \<open>
  What the alert engine promises. Per deduplication key the engine refines a small
  machine: occurrences of the key form bursts, a burst ends when the key is silent for
  longer than the window or is resolved, and the position of an occurrence in its burst
  decides whether it is emitted, whatever happens to other keys. The active alerts and the
  history stay consistent, and pruning keeps exactly the newest entries.
\<close>

section \<open>One occurrence\<close>

definition same_burst :: "alert_engine \<Rightarrow> string \<Rightarrow> datetime \<Rightarrow> active_alert option" where
  "same_burst e key now =
     (case hm_get (ae_active_alerts e) key of
        None \<Rightarrow> None
      | Some aa \<Rightarrow> if now - aa_last_seen_at aa \<le> ae_dedup_window e then Some aa else None)"

text \<open>The alert an occurrence leaves behind, and whether it is emitted.\<close>

definition occurrence :: "datetime \<Rightarrow> string \<Rightarrow> alert \<Rightarrow> alert_engine \<Rightarrow> alert \<times> bool" where
  "occurrence now key a e =
     (case same_burst e key now of
        Some aa \<Rightarrow>
          let b = (aa_alert aa)\<lparr> al_count := saturating_add (al_count (aa_alert aa)) 1 \<rparr>
          in (b, al_count b < ae_dedup_threshold_count e)
      | None \<Rightarrow> (a\<lparr> al_last_sent := Some now \<rparr>, True))"

lemma record_alert_eq:
  "record_alert now key a e =
     (let (b, emit) = occurrence now key a e
      in ((b, emit),
          e\<lparr> ae_active_alerts := hm_insert key \<lparr> aa_alert = b, aa_last_seen_at = now \<rparr> (ae_active_alerts e),
             ae_history := hm_insert (al_id b) b (ae_history e) \<rparr>))"
  by (simp add: record_alert_def occurrence_def same_burst_def Let_def split: option.splits)

section \<open>Sequences of operations\<close>

datatype alert_op =
    Occur string alert datetime
  | ResolveKeys "string list" "string \<Rightarrow> datetime"

fun run_alert_op :: "alert_op \<Rightarrow> alert_engine \<Rightarrow> (string \<times> alert \<times> bool) list \<times> alert_engine" where
  "run_alert_op (Occur key a now) e =
     (let ((b, emit), e') = record_alert now key a e in ([(key, b, emit)], e'))"
| "run_alert_op (ResolveKeys keys clock) e = ([], fold (\<lambda>key. resolve_key (clock key) key) keys e)"

fun run_alert_ops :: "alert_op list \<Rightarrow> alert_engine \<Rightarrow> (string \<times> alert \<times> bool) list \<times> alert_engine" where
  "run_alert_ops [] e = ([], e)"
| "run_alert_ops (p # ps) e =
     (let (out1, e1) = run_alert_op p e; (out2, e2) = run_alert_ops ps e1 in (out1 @ out2, e2))"

section \<open>The machine of one key\<close>

datatype key_event = Occurs datetime | Cleared

text \<open>The events of one key in a sequence of operations.\<close>

primrec key_events :: "string \<Rightarrow> alert_op list \<Rightarrow> key_event list" where
  "key_events key [] = []"
| "key_events key (p # ps) =
     (case p of
        Occur k a now \<Rightarrow> if k = key then [Occurs now] else []
      | ResolveKeys ks clock \<Rightarrow> if key \<in> set ks then [Cleared] else []) @ key_events key ps"

text \<open>The position of every occurrence in its burst, counted from 0.\<close>

fun burst_positions :: "duration \<Rightarrow> (nat \<times> datetime) option \<Rightarrow> key_event list \<Rightarrow> nat list" where
  "burst_positions w st [] = []"
| "burst_positions w st (Cleared # evs) = burst_positions w None evs"
| "burst_positions w st (Occurs t # evs) =
     (let p = (case st of None \<Rightarrow> 0 | Some (q, seen) \<Rightarrow> if t - seen \<le> w then q + 1 else 0)
      in p # burst_positions w (Some (p, t)) evs)"

text \<open>The engine's entry for a key against the state of the machine.\<close>

definition key_sim :: "alert_engine \<Rightarrow> string \<Rightarrow> (nat \<times> datetime) option \<Rightarrow> bool" where
  "key_sim e key st \<longleftrightarrow>
     map_option (\<lambda>aa. (unat (al_count (aa_alert aa)), aa_last_seen_at aa)) (hm_get (ae_active_alerts e) key) =
     map_option (\<lambda>(p, t). (min (p + 1) (2 ^ 64 - 1), t)) st"

definition dedup_settings :: "alert_engine \<Rightarrow> duration \<times> u64" where
  "dedup_settings e = (ae_dedup_window e, ae_dedup_threshold_count e)"

lemma resolve_key_active:
  "hm_get (ae_active_alerts (resolve_key now key e)) = (hm_get (ae_active_alerts e))(key := None)"
  by (auto simp: resolve_key_def Let_def split: option.splits)

lemma resolve_keys_active:
  "hm_get (ae_active_alerts (fold (\<lambda>key. resolve_key (clock key) key) keys e)) k =
     (if k \<in> set keys then None else hm_get (ae_active_alerts e) k)"
  by (induction keys arbitrary: e) (simp_all add: resolve_key_active)

lemma resolve_key_settings [simp]: "dedup_settings (resolve_key now key e) = dedup_settings e"
  by (simp add: resolve_key_def dedup_settings_def Let_def split: option.splits)

lemma resolve_keys_settings [simp]:
  "dedup_settings (fold (\<lambda>key. resolve_key (clock key) key) keys e) = dedup_settings e"
  by (induction keys arbitrary: e) simp_all

lemma run_alert_op_settings: "run_alert_op p e = (out, e') \<Longrightarrow> dedup_settings e' = dedup_settings e"
proof (cases p)
  case (Occur key a now)
  assume "run_alert_op p e = (out, e')"
  with Occur show ?thesis by (auto simp: record_alert_eq dedup_settings_def Let_def split: prod.splits)
qed auto

text \<open>The position an occurrence takes, from the state of its key.\<close>

definition burst_next :: "duration \<Rightarrow> (nat \<times> datetime) option \<Rightarrow> datetime \<Rightarrow> nat" where
  "burst_next w st t = (case st of None \<Rightarrow> 0 | Some (q, seen) \<Rightarrow> if t - seen \<le> w then q + 1 else 0)"

lemma burst_positions_Occurs:
  "burst_positions w st (Occurs t # evs) =
     burst_next w st t # burst_positions w (Some (burst_next w st t, t)) evs"
  by (simp add: burst_next_def Let_def)

lemma occurrence_sim:
  assumes "key_sim e key st" "al_count a = 1"
    and p: "p = burst_next (ae_dedup_window e) st now"
  shows "unat (al_count (fst (occurrence now key a e))) = min (p + 1) (2 ^ 64 - 1)"
    and "snd (occurrence now key a e) \<longleftrightarrow> p = 0 \<or> p + 1 < unat (ae_dedup_threshold_count e)"
proof -
  let ?thr = "unat (ae_dedup_threshold_count e)"
  have thr: "?thr \<le> 2 ^ 64 - 1" using unat_le_max [of "ae_dedup_threshold_count e"]
    by (simp add: unsigned_minus_1_eq_mask mask_eq_exp_minus_1)
  have *: "unat (al_count (fst (occurrence now key a e))) = min (p + 1) (2 ^ 64 - 1) \<and>
    (snd (occurrence now key a e) \<longleftrightarrow> p = 0 \<or> p + 1 < ?thr)"
  proof (cases "same_burst e key now")
    case None
    then have "p = 0" using assms(1)
      by (cases st) (auto simp: p same_burst_def key_sim_def burst_next_def split: option.splits if_splits)
    then show ?thesis using assms(2) by (simp add: occurrence_def None)
  next
    case (Some aa)
    then obtain q where q: "p = q + 1" "unat (al_count (aa_alert aa)) = min (q + 1) (2 ^ 64 - 1)"
      using assms(1)
      by (cases st) (auto simp: p same_burst_def key_sim_def burst_next_def split: option.splits if_splits)
    let ?c = "saturating_add (al_count (aa_alert aa)) 1"
    have c: "unat ?c = min (p + 1) (2 ^ 64 - 1)" by (simp add: unat_saturating_add q)
    moreover have "?c < ae_dedup_threshold_count e \<longleftrightarrow> p + 1 < ?thr"
      unfolding word_less_nat_alt c using thr by linarith
    ultimately show ?thesis using q(1) by (simp add: occurrence_def Some Let_def)
  qed
  then show "unat (al_count (fst (occurrence now key a e))) = min (p + 1) (2 ^ 64 - 1)"
    "snd (occurrence now key a e) \<longleftrightarrow> p = 0 \<or> p + 1 < ?thr" by blast+
qed

lemma key_sim_occur:
  assumes "key_sim e key st" "al_count a = 1" "record_alert now key a e = ((b, emit), e')"
  shows "key_sim e' key (Some (burst_next (ae_dedup_window e) st now, now))"
  using occurrence_sim(1) [OF assms(1,2) refl, of now] assms(3)
  by (auto simp: record_alert_eq key_sim_def Let_def split: prod.splits)

lemma key_sim_other:
  assumes "key_sim e key st" "k \<noteq> key" "record_alert now k a e = (r, e')"
  shows "key_sim e' key st"
  using assms by (auto simp: record_alert_eq key_sim_def Let_def split: prod.splits)

definition fresh_op :: "alert_op \<Rightarrow> bool" where
  "fresh_op p \<longleftrightarrow> (case p of Occur k a now \<Rightarrow> al_count a = 1 | ResolveKeys ks clock \<Rightarrow> True)"

definition observed :: "string \<Rightarrow> (string \<times> alert \<times> bool) list \<Rightarrow> (nat \<times> bool) list" where
  "observed key out = [(unat (al_count b), emit). (k, b, emit) \<leftarrow> out, k = key]"

lemma observed_append [simp]: "observed key (xs @ ys) = observed key xs @ observed key ys"
  by (simp add: observed_def)

lemma run_alert_ops_sim:
  assumes "run_alert_ops ps e = (out, e')" "key_sim e key st" "\<forall>p \<in> set ps. fresh_op p"
    and "dedup_settings e = (w, thr)"
  shows "observed key out =
    map (\<lambda>p. (min (p + 1) (2 ^ 64 - 1), p = 0 \<or> p + 1 < unat thr)) (burst_positions w st (key_events key ps))"
  using assms
proof (induction ps arbitrary: e out st)
  case Nil
  then show ?case by (simp add: observed_def)
next
  case (Cons p ps)
  obtain out1 e1 out2 where s: "run_alert_op p e = (out1, e1)" "run_alert_ops ps e1 = (out2, e')" "out = out1 @ out2"
    using Cons.prems(1) by (auto simp: Let_def split: prod.splits)
  have set1: "dedup_settings e1 = (w, thr)" using run_alert_op_settings [OF s(1)] Cons.prems(4) by simp
  have w: "ae_dedup_window e = w" "ae_dedup_threshold_count e = thr"
    using Cons.prems(4) by (simp_all add: dedup_settings_def)
  have fresh: "\<forall>p \<in> set ps. fresh_op p" using Cons.prems(3) by simp
  note IH = Cons.IH [OF s(2) _ fresh set1]
  show ?case
  proof (cases p)
    case (ResolveKeys keys clock)
    then have "key_sim e1 key (if key \<in> set keys then None else st)"
      using s(1) Cons.prems(2) by (auto simp: key_sim_def resolve_keys_active)
    from IH [OF this] show ?thesis using s ResolveKeys by (auto simp: observed_def)
  next
    case (Occur k a now)
    obtain b emit where r: "record_alert now k a e = ((b, emit), e1)" "out1 = [(k, b, emit)]"
      using s(1) Occur by (auto simp: Let_def split: prod.splits)
    have one: "al_count a = 1" using Cons.prems(3) Occur by (simp add: fresh_op_def)
    show ?thesis
    proof (cases "k = key")
      case True
      have "occurrence now k a e = (b, emit)"
        using r(1) by (auto simp: record_alert_eq Let_def split: prod.splits)
      with occurrence_sim [OF Cons.prems(2) one refl, of now] True w
      have "observed key out1 = [(min (burst_next w st now + 1) (2 ^ 64 - 1),
          burst_next w st now = 0 \<or> burst_next w st now + 1 < unat thr)]"
        by (simp add: observed_def r(2))
      with IH [OF key_sim_occur [OF Cons.prems(2) one r(1) [unfolded True]]] show ?thesis
        by (simp add: s(3) Occur True w burst_positions_Occurs del: burst_positions.simps)
    next
      case False
      from IH [OF key_sim_other [OF Cons.prems(2) False r(1)]] show ?thesis
        using False by (simp add: s(3) Occur r(2) observed_def)
    qed
  qed
qed

lemma resolve_by_prefix_op:
  "resolve_by_prefix it clock pre e = snd (run_alert_op
     (ResolveKeys (filter (str_starts_with pre) (it (hm_keys (ae_active_alerts e)))) clock) e)"
  by (simp add: resolve_by_prefix_def)

section \<open>Evaluation and firing as sequences of operations\<close>

definition rule_hit_list ::
  "(node_metrics list \<Rightarrow> node_metrics list) \<Rightarrow> (model_metrics list \<Rightarrow> model_metrics list) \<Rightarrow>
   metrics_collector \<Rightarrow> alert_rule list \<Rightarrow> (alert_rule \<times> alert_hit) list" where
  "rule_hit_list itn itm metrics rules =
     concat (map (\<lambda>rule. map (Pair rule) (rule_hits itn itm metrics rule)) rules)"

fun hit_op :: "alert_draw \<Rightarrow> nat \<Rightarrow> alert_rule \<times> alert_hit \<Rightarrow> alert_op" where
  "hit_op draw n (rule, key, message, node, model_id) =
     (case draw n of (uid, fired_at, now) \<Rightarrow>
        Occur key (new_alert uid fired_at (ar_id rule) (ar_severity rule) message node model_id) now)"

fun hit_ops :: "alert_draw \<Rightarrow> nat \<Rightarrow> (alert_rule \<times> alert_hit) list \<Rightarrow> alert_op list" where
  "hit_ops draw n [] = []"
| "hit_ops draw n (h # hs) = hit_op draw n h # hit_ops draw (n + 1) hs"

definition emitted :: "(string \<times> alert \<times> bool) list \<Rightarrow> alert list" where
  "emitted out = [b. (k, b, emit) \<leftarrow> out, emit]"

lemma record_hits_run:
  "fold (\<lambda>(rule, hit). record_hit draw rule hit) hs (e, n, acc) =
     (case run_alert_ops (hit_ops draw n hs) e of
        (out, e') \<Rightarrow> (e', n + length hs, acc @ emitted out))"
proof (induction hs arbitrary: e n acc)
  case (Cons h hs)
  obtain rule key message node model_id where h: "h = (rule, key, message, node, model_id)"
    by (cases h) auto
  obtain uid fired_at now where d: "draw n = (uid, fired_at, now)" by (cases "draw n") auto
  obtain b emit e1 where r: "record_alert now key (new_alert uid fired_at (ar_id rule) (ar_severity rule)
      message node model_id) e = ((b, emit), e1)"
    by (metis prod.exhaust_sel)
  have "record_hit draw rule (key, message, node, model_id) (e, n, acc) =
      (e1, n + 1, acc @ emitted [(key, b, emit)])"
    by (simp add: record_hit_def d r emitted_def)
  moreover obtain out2 e2 where run: "run_alert_ops (hit_ops draw (n + 1) hs) e1 = (out2, e2)" by force
  moreover have "emitted ((key, b, emit) # out2) = emitted [(key, b, emit)] @ emitted out2"
    by (simp add: emitted_def)
  ultimately show ?case
    using Cons.IH [of e1 "n + 1" "acc @ emitted [(key, b, emit)]"] by (simp add: h d r)
qed (simp add: emitted_def)

lemma fold_concat_pairs:
  "fold (\<lambda>r. fold (f r) (g r)) rs s = fold (\<lambda>(r, h). f r h) (concat (map (\<lambda>r. map (Pair r) (g r)) rs)) s"
proof (induction rs arbitrary: s)
  case (Cons r rs)
  have "fold (\<lambda>(r, h). f r h) (map (Pair r) hs) s = fold (f r) hs s" for hs s
    by (induction hs arbitrary: s) simp_all
  with Cons show ?case by simp
qed simp

lemma alerts_evaluate_run:
  "alerts_evaluate itn itm draw metrics n e =
     (let hs = rule_hit_list itn itm metrics (ae_rules e)
      in case run_alert_ops (hit_ops draw n hs) e of (out, e') \<Rightarrow> (e', n + length hs, emitted out))"
  by (simp add: alerts_evaluate_def fold_concat_pairs rule_hit_list_def [symmetric] record_hits_run Let_def
      split: prod.splits)

lemma fresh_hit_ops: "p \<in> set (hit_ops draw n hs) \<Longrightarrow> fresh_op p"
proof (induction hs arbitrary: n)
  case (Cons h hs)
  then show ?case by (cases h) (auto simp: fresh_op_def new_alert_def split: prod.splits)
qed simp

text \<open>Only the keys of a sequence change; every key that occurs is active afterwards.\<close>

lemma run_occurs_active:
  "run_alert_ops (hit_ops draw n hs) e = (out, e') \<Longrightarrow>
     (hm_contains (ae_active_alerts e') k \<longleftrightarrow>
        hm_contains (ae_active_alerts e) k \<or> k \<in> (fst \<circ> snd) ` set hs) \<and>
     (k \<notin> (fst \<circ> snd) ` set hs \<longrightarrow> hm_get (ae_active_alerts e') k = hm_get (ae_active_alerts e) k)"
proof (induction hs arbitrary: n e out)
  case (Cons h hs)
  obtain rule key message node model_id where h: "h = (rule, key, message, node, model_id)"
    by (cases h) auto
  obtain uid fired_at now where d: "draw n = (uid, fired_at, now)" by (cases "draw n") auto
  obtain r e1 out2 where s: "record_alert now key (new_alert uid fired_at (ar_id rule) (ar_severity rule)
      message node model_id) e = (r, e1)" "run_alert_ops (hit_ops draw (n + 1) hs) e1 = (out2, e')"
    using Cons.prems by (auto simp: h d Let_def split: prod.splits)
  have "hm_contains (ae_active_alerts e1) k \<longleftrightarrow> k = key \<or> hm_contains (ae_active_alerts e) k"
    "k \<noteq> key \<Longrightarrow> hm_get (ae_active_alerts e1) k = hm_get (ae_active_alerts e) k"
    using s(1) by (auto simp: record_alert_eq Let_def hm_contains_def split: prod.splits if_splits)
  with Cons.IH [OF s(2)] show ?case by (auto simp: h)
qed simp

text \<open>What it means for the metrics to breach a rule under a key.\<close>

definition breach :: "metrics_collector \<Rightarrow> alert_rule \<Rightarrow> string \<Rightarrow> bool" where
  "breach metrics rule key \<longleftrightarrow> ar_enabled rule \<and>
     (case ar_condition rule of
        HighCpu th \<Rightarrow> \<exists>nm \<in> set (hm_values (mc_node_metrics metrics)).
          targeted (ar_target_nodes rule) (nm_worker_name nm) \<and> nm_cpu_percent nm \<ge> th \<and>
          key = ar_id rule @ '':'' @ nm_worker_name nm
      | HighMemory th \<Rightarrow> \<exists>nm \<in> set (hm_values (mc_node_metrics metrics)).
          targeted (ar_target_nodes rule) (nm_worker_name nm) \<and> memory_utilization nm \<ge> th \<and>
          key = ar_id rule @ '':'' @ nm_worker_name nm
      | HighErrorRate th \<Rightarrow> \<exists>mm \<in> set (hm_values (mc_model_metrics metrics)).
          targeted (ar_target_models rule) (mm_model_id mm) \<and> error_rate mm \<ge> th \<and>
          key = ar_id rule @ '':'' @ model_key mm
      | _ \<Rightarrow> False)"

lemma hits_breach:
  assumes "hash_iter itn" "hash_iter itm"
  shows "key \<in> fst ` set (rule_hits itn itm metrics rule) \<longleftrightarrow> breach metrics rule key"
  using assms
  by (cases "ar_condition rule")
    (auto simp: rule_hits_def breach_def high_cpu_hits_def high_memory_hits_def high_error_rate_hits_def
      all_node_metrics_def all_model_metrics_def hash_iter_set model_key_def image_iff split: if_splits)

lemma hit_list_breach:
  assumes "hash_iter itn" "hash_iter itm"
  shows "key \<in> (fst \<circ> snd) ` set (rule_hit_list itn itm metrics rules) \<longleftrightarrow>
    (\<exists>rule \<in> set rules. breach metrics rule key)"
  using hits_breach [OF assms, of key metrics]
  by (force simp: rule_hit_list_def image_iff)

section \<open>Consistency of the engine\<close>

text \<open>
  Active alerts are unresolved, have been sent, count their occurrences and agree with the
  history (which may have been pruned); distinct keys have distinct alerts.
\<close>

definition active_ok :: "(uuid, alert) hmap \<Rightarrow> active_alert \<Rightarrow> bool" where
  "active_ok h aa \<longleftrightarrow> al_is_active (aa_alert aa) \<and> al_last_sent (aa_alert aa) \<noteq> None \<and>
     al_count (aa_alert aa) \<noteq> 0 \<and>
     hm_get h (al_id (aa_alert aa)) \<in> {None, Some (aa_alert aa)}"

definition alert_engine_wf :: "alert_engine \<Rightarrow> bool" where
  "alert_engine_wf e \<longleftrightarrow>
     hm_wf (ae_active_alerts e) \<and> hm_wf (ae_history e) \<and>
     (\<forall>k aa. hm_get (ae_active_alerts e) k = Some aa \<longrightarrow> active_ok (ae_history e) aa) \<and>
     (\<forall>k aa k' aa'. hm_get (ae_active_alerts e) k = Some aa \<longrightarrow> hm_get (ae_active_alerts e) k' = Some aa' \<longrightarrow>
        al_id (aa_alert aa) = al_id (aa_alert aa') \<longrightarrow> k = k') \<and>
     (\<forall>uid a. hm_get (ae_history e) uid = Some a \<longrightarrow> al_id a = uid)"

definition fresh_alert :: "alert_engine \<Rightarrow> alert \<Rightarrow> bool" where
  "fresh_alert e a \<longleftrightarrow> al_is_active a \<and> al_count a = 1 \<and> \<not> hm_contains (ae_history e) (al_id a) \<and>
     (\<forall>k aa. hm_get (ae_active_alerts e) k = Some aa \<longrightarrow> al_id (aa_alert aa) \<noteq> al_id a)"

inductive alert_step :: "alert_engine \<Rightarrow> alert_engine \<Rightarrow> bool" where
  step_occur: "fresh_alert e a \<Longrightarrow> record_alert now key a e = (r, e') \<Longrightarrow> alert_step e e'"
| step_resolve: "alert_step e (resolve_key now key e)"
| step_prune: "hash_iter it \<Longrightarrow> prune_history it now max_age max_entries e = Returns (n, e') \<Longrightarrow> alert_step e e'"
| step_rule: "alert_step e (add_rule rule e)"

end
