(* ===== verification/Alert_History.thy ===== *)
theory Alert_History
  imports Alert_Dedup
begin

text \<open>
  The history of the alert engine: pruning keeps exactly the newest entries, and every
  operation keeps the active alerts and the history consistent.
\<close>

section \<open>Pruning\<close>

lemma hm_remove_filter: "hm_remove k m = filter (\<lambda>en. fst en \<noteq> k) m"
  by (simp add: hm_remove_def AList.delete_eq split_def eq_commute)

lemma remove_counting_exact:
  "distinct ids \<Longrightarrow> set ids \<subseteq> set (hm_keys h) \<Longrightarrow>
   remove_counting ids (n, h) = (n + length ids, filter (\<lambda>en. fst en \<notin> set ids) h)"
proof (induction ids arbitrary: n h)
  case (Cons uid ids)
  have "hm_contains h uid" using Cons.prems(2) by (simp flip: hm_keys_iff)
  moreover have "set ids \<subseteq> set (hm_keys (hm_remove uid h))"
    using Cons.prems by (auto simp: hm_keys_remove)
  moreover have "filter (\<lambda>en. fst en \<notin> set ids) (hm_remove uid h) = filter (\<lambda>en. fst en \<notin> set (uid # ids)) h"
    by (simp add: hm_remove_filter conj_commute)
  ultimately show ?case using Cons.IH [of "hm_remove uid h" "n + 1"] Cons.prems(1) by simp
qed simp

lemma length_filter_keys:
  assumes "hm_wf h" "distinct ids" "set ids \<subseteq> set (hm_keys h)"
  shows "length (filter (\<lambda>en. fst en \<notin> set ids) h) + length ids = length h"
proof -
  have d: "distinct (filter (\<lambda>k. k \<in> set ids) (map fst h))"
    using assms(1) by (simp add: hm_wf_def hm_keys_def)
  have "set (filter (\<lambda>k. k \<in> set ids) (map fst h)) = set ids"
    using assms(3) by (auto simp: hm_keys_def)
  with d assms(2) have "length (filter (\<lambda>k. k \<in> set ids) (map fst h)) = length ids"
    by (metis distinct_card)
  then have "length (filter (\<lambda>en. fst en \<in> set ids) h) = length ids"
    by (simp add: filter_map o_def)
  then show ?thesis using sum_length_filter_compl [of "\<lambda>en. fst en \<in> set ids" h] by simp
qed

lemma sorted_take_drop:
  assumes "sorted (map f xs)" "x \<in> set (take n xs)" "y \<in> set (drop n xs)"
  shows "f x \<le> f y"
proof -
  have "sorted (map f (take n xs) @ map f (drop n xs))"
    using assms(1) by (simp flip: map_append)
  with assms(2,3) show ?thesis by (auto simp: sorted_append)
qed

text \<open>The entries that are not stale, and the ones dropped because there are too many.\<close>

definition young_entries :: "datetime \<Rightarrow> (uuid, alert) hmap \<Rightarrow> (uuid, alert) hmap" where
  "young_entries cutoff h = filter (\<lambda>en. cutoff \<le> al_fired_at (snd en)) h"

definition overflow_ids ::
  "((uuid \<times> alert) list \<Rightarrow> (uuid \<times> alert) list) \<Rightarrow> nat \<Rightarrow> (uuid, alert) hmap \<Rightarrow> uuid list" where
  "overflow_ids it cap h =
     map fst (take (length h - cap) (sort_key snd (map (\<lambda>en. (fst en, al_fired_at (snd en))) (it h))))"

lemma hm_wf_filter: "hm_wf h \<Longrightarrow> hm_wf (filter P h)"
  by (simp add: hm_wf_def hm_keys_def distinct_map_filter)

lemma stale_filter:
  assumes "hm_wf h" "hash_iter it"
  shows "filter (\<lambda>en. fst en \<notin> set (map fst (filter (\<lambda>en. al_fired_at (snd en) < cutoff) (it h)))) h =
    young_entries cutoff h"
  unfolding young_entries_def
proof (rule filter_cong [OF refl])
  fix en assume en: "en \<in> set h"
  have "fst en' = fst en \<Longrightarrow> en' = en" if "en' \<in> set h" for en'
    using assms(1) en that by (auto simp: hm_wf_def hm_keys_def distinct_map inj_on_def)
  then show "fst en \<notin> set (map fst (filter (\<lambda>en. al_fired_at (snd en) < cutoff) (it h))) \<longleftrightarrow>
      cutoff \<le> al_fired_at (snd en)"
    using en assms(2) by (force simp: hash_iter_set)
qed

lemma overflow_ids_facts:
  assumes "hm_wf h" "hash_iter it"
  shows "distinct (overflow_ids it cap h)" "set (overflow_ids it cap h) \<subseteq> set (hm_keys h)"
    "length (overflow_ids it cap h) = length h - cap"
proof -
  let ?by = "sort_key snd (map (\<lambda>en. (fst en, al_fired_at (snd en))) (it h))"
  have m: "mset (map fst ?by) = mset (hm_keys h)"
    using assms(2) by (simp add: hash_iter_mset hm_keys_def image_mset.compositionality o_def)
  have "distinct (map fst ?by)"
    unfolding mset_eq_imp_distinct_iff [OF m] using assms(1) by (simp add: hm_wf_def)
  then show "distinct (overflow_ids it cap h)"
    unfolding overflow_ids_def take_map [symmetric] by (rule distinct_take)
  have "set (map fst ?by) = set (hm_keys h)" using m by (rule mset_eq_setD)
  then show "set (overflow_ids it cap h) \<subseteq> set (hm_keys h)"
    unfolding overflow_ids_def take_map [symmetric] by (auto dest: in_set_takeD)
  show "length (overflow_ids it cap h) = length h - cap"
    using assms(2) by (simp add: overflow_ids_def hash_iter_length)
qed

lemma prune_history_map_eq:
  assumes "hm_wf h" "hash_iter it" "datetime_minus now max_age = Returns cutoff"
  shows "prune_history_map it now max_age cap h =
    (let y = young_entries cutoff h; h' = filter (\<lambda>en. fst en \<notin> set (overflow_ids it cap y)) y
     in Returns (length h - length h', h'))"
proof -
  let ?stale = "map fst (filter (\<lambda>en. al_fired_at (snd en) < cutoff) (it h))"
  let ?y = "young_entries cutoff h"
  have "distinct (map fst (it h))" "set (map fst (it h)) = set (hm_keys h)"
    using assms(1,2) hash_iter_mset [OF assms(2), of h]
    by (auto simp: hm_wf_def hm_keys_def hash_iter_set mset_map dest: mset_eq_setD)
      (metis mset_eq_imp_distinct_iff mset_map)
  then have st: "distinct ?stale" "set ?stale \<subseteq> set (hm_keys h)"
    by (auto intro: distinct_map_filter)
  have r1: "remove_counting ?stale (0, h) = (length ?stale, ?y)"
    using remove_counting_exact [OF st, of 0] stale_filter [OF assms(1,2)] by simp
  have n1: "length ?y + length ?stale = length h"
    using length_filter_keys [OF assms(1) st] stale_filter [OF assms(1,2)] by simp
  have wfy: "hm_wf ?y" unfolding young_entries_def by (rule hm_wf_filter [OF assms(1)])
  note ov = overflow_ids_facts [OF wfy assms(2)]
  have r2: "remove_counting (overflow_ids it cap ?y) (length ?stale, ?y) =
      (length ?stale + (length ?y - cap), filter (\<lambda>en. fst en \<notin> set (overflow_ids it cap ?y)) ?y)"
    using remove_counting_exact [OF ov(1,2)] by (simp add: ov(3))
  have n2: "length (filter (\<lambda>en. fst en \<notin> set (overflow_ids it cap ?y)) ?y) + (length ?y - cap) = length ?y"
    using length_filter_keys [OF wfy ov(1,2)] by (simp add: ov(3))
  show ?thesis
  proof (cases "length ?y > cap")
    case True
    then show ?thesis
      unfolding prune_history_map_def assms(3) outcome.case r1 Let_def prod.case
      unfolding overflow_ids_def [symmetric] using r2 n1 n2 by simp
  next
    case False
    then have "overflow_ids it cap ?y = []" by (simp add: overflow_ids_def)
    then show ?thesis
      unfolding prune_history_map_def assms(3) outcome.case r1 Let_def prod.case
      using False n1 by simp
  qed
qed

lemma overflow_oldest:
  assumes "hm_wf h" "hash_iter it" "(uid, a) \<in> set h" "uid \<in> set (overflow_ids it cap h)"
    and "(uid', a') \<in> set h" "uid' \<notin> set (overflow_ids it cap h)"
  shows "al_fired_at a \<le> al_fired_at a'"
proof -
  let ?by = "sort_key snd (map (\<lambda>en. (fst en, al_fired_at (snd en))) (it h))"
  let ?n = "length h - cap"
  have s: "set ?by = (\<lambda>en. (fst en, al_fired_at (snd en))) ` set h"
    using assms(2) by (simp add: hash_iter_set)
  have uniq: "en = en'" if "en \<in> set h" "en' \<in> set h" "fst en = fst en'" for en en'
    using assms(1) that by (auto simp: hm_wf_def hm_keys_def distinct_map inj_on_def)
  obtain t where t: "(uid, t) \<in> set (take ?n ?by)"
    using assms(4) by (auto simp: overflow_ids_def)
  then have "(uid, t) \<in> set ?by" by (rule in_set_takeD)
  then have "t = al_fired_at a" using assms(3) uniq s by fastforce
  moreover have "(uid', al_fired_at a') \<in> set ?by" using assms(5) unfolding s by force
  then have "(uid', al_fired_at a') \<in> set (drop ?n ?by)"
  proof -
    have "set ?by = set (take ?n ?by) \<union> set (drop ?n ?by)"
      using append_take_drop_id [of ?n ?by] set_append by metis
    moreover have "(uid', al_fired_at a') \<notin> set (take ?n ?by)"
      using assms(6) unfolding overflow_ids_def by force
    ultimately show ?thesis using \<open>(uid', al_fired_at a') \<in> set ?by\<close> by blast
  qed
  ultimately show ?thesis
    using sorted_take_drop [of snd ?by "(uid, t)" ?n "(uid', al_fired_at a')"] t by simp
qed

lemma prune_history_facts:
  assumes "hm_wf (ae_history e)" "hash_iter it"
    and "prune_history it now max_age max_entries e = Returns (removed, e')"
  shows "removed + length (ae_history e') = length (ae_history e)"
    and "length (ae_history e') = min max_entries (length (young_entries (now - max_age) (ae_history e)))"
    and "set (ae_history e') \<subseteq> set (young_entries (now - max_age) (ae_history e))"
    and "(uid, a) \<in> set (young_entries (now - max_age) (ae_history e)) \<Longrightarrow> (uid, a) \<notin> set (ae_history e') \<Longrightarrow>
         (uid', a') \<in> set (ae_history e') \<Longrightarrow> al_fired_at a \<le> al_fired_at a'"
proof -
  let ?y = "young_entries (now - max_age) (ae_history e)"
  have c: "datetime_minus now max_age = Returns (now - max_age)"
    using assms(3) by (auto simp: prune_history_def prune_history_map_def datetime_minus_def split: if_splits)
  have wfy: "hm_wf ?y" unfolding young_entries_def by (rule hm_wf_filter [OF assms(1)])
  note ov = overflow_ids_facts [OF wfy assms(2), of max_entries]
  have e': "ae_history e' = filter (\<lambda>en. fst en \<notin> set (overflow_ids it max_entries ?y)) ?y"
    "removed = length (ae_history e) - length (ae_history e')"
    using assms(3) prune_history_map_eq [OF assms(1,2) c, of max_entries]
    by (auto simp: prune_history_def Let_def)
  have "length (ae_history e') + (length ?y - max_entries) = length ?y"
    using length_filter_keys [OF wfy ov(1,2)] by (simp add: e'(1) ov(3))
  then show len: "length (ae_history e') = min max_entries (length ?y)" by linarith
  have "length ?y \<le> length (ae_history e)" by (simp add: young_entries_def)
  with len e'(2) show "removed + length (ae_history e') = length (ae_history e)" by simp
  show "set (ae_history e') \<subseteq> set ?y" by (simp add: e'(1))
  show "al_fired_at a \<le> al_fired_at a'"
    if "(uid, a) \<in> set ?y" "(uid, a) \<notin> set (ae_history e')" "(uid', a') \<in> set (ae_history e')"
    using that overflow_oldest [OF wfy assms(2), of uid a max_entries uid' a'] by (simp add: e'(1))
qed

section \<open>Consistency\<close>

lemma occurrence_cases:
  obtains (again) aa where "hm_get (ae_active_alerts e) key = Some aa"
    "fst (occurrence now key a e) = (aa_alert aa)\<lparr> al_count := saturating_add (al_count (aa_alert aa)) 1 \<rparr>"
  | (new) "fst (occurrence now key a e) = a\<lparr> al_last_sent := Some now \<rparr>"
proof (cases "same_burst e key now")
  case None
  then show thesis by (intro new) (simp add: occurrence_def)
next
  case (Some aa)
  then have "hm_get (ae_active_alerts e) key = Some aa"
    by (auto simp: same_burst_def split: option.splits if_splits)
  with Some show thesis by (intro again) (simp_all add: occurrence_def Let_def)
qed

lemma saturating_inc_nonzero: "saturating_add (x :: u64) 1 \<noteq> 0"
proof -
  have "unat (saturating_add x 1) \<noteq> 0" by (simp add: unat_saturating_add)
  then show ?thesis by (metis unat_0)
qed

lemma wf_occurrence:
  assumes "alert_engine_wf e" "fresh_alert e a" "b = fst (occurrence now key a e)"
  shows "al_is_active b" "al_last_sent b \<noteq> None" "al_count b \<noteq> 0"
    and "\<And>k aa. hm_get (ae_active_alerts e) k = Some aa \<Longrightarrow> k \<noteq> key \<Longrightarrow> al_id (aa_alert aa) \<noteq> al_id b"
proof -
  have *: "al_is_active b \<and> al_last_sent b \<noteq> None \<and> al_count b \<noteq> 0 \<and>
    (\<forall>k aa. hm_get (ae_active_alerts e) k = Some aa \<longrightarrow> k \<noteq> key \<longrightarrow> al_id (aa_alert aa) \<noteq> al_id b)"
  proof (cases rule: occurrence_cases [of e key now a])
    case (again aa)
    have ok: "active_ok (ae_history e) aa"
      using assms(1) again(1) unfolding alert_engine_wf_def by blast
    have "\<forall>k aa'. hm_get (ae_active_alerts e) k = Some aa' \<longrightarrow> k \<noteq> key \<longrightarrow> al_id (aa_alert aa') \<noteq> al_id (aa_alert aa)"
      using assms(1) again(1) unfolding alert_engine_wf_def by metis
    with ok show ?thesis
      by (simp add: assms(3) again(2) active_ok_def al_is_active_def saturating_inc_nonzero)
  next
    case new
    then show ?thesis using assms(2) by (auto simp: assms(3) fresh_alert_def al_is_active_def)
  qed
  then show "al_is_active b" "al_last_sent b \<noteq> None" "al_count b \<noteq> 0"
    "\<And>k aa. hm_get (ae_active_alerts e) k = Some aa \<Longrightarrow> k \<noteq> key \<Longrightarrow> al_id (aa_alert aa) \<noteq> al_id b"
    by blast+
qed

lemma wf_record_alert:
  assumes wf: "alert_engine_wf e" and fresh: "fresh_alert e a" and r: "record_alert now key a e = (r, e')"
  shows "alert_engine_wf e'"
proof -
  define b where "b = fst (occurrence now key a e)"
  note b = wf_occurrence [OF wf fresh b_def]
  have e': "ae_active_alerts e' = hm_insert key \<lparr> aa_alert = b, aa_last_seen_at = now \<rparr> (ae_active_alerts e)"
    "ae_history e' = hm_insert (al_id b) b (ae_history e)"
    using r by (simp_all add: record_alert_eq b_def split_def Let_def) auto
  have act: "active_ok (ae_history e') aa" if "hm_get (ae_active_alerts e') k = Some aa" for k aa
  proof (cases "k = key")
    case True
    then have "aa = \<lparr> aa_alert = b, aa_last_seen_at = now \<rparr>" using that by (simp add: e'(1))
    then show ?thesis using b(1-3) by (simp add: active_ok_def e'(2))
  next
    case False
    then have g: "hm_get (ae_active_alerts e) k = Some aa" using that by (simp add: e'(1))
    then have "active_ok (ae_history e) aa" using wf unfolding alert_engine_wf_def by blast
    with b(4) [OF g False] show ?thesis by (simp add: active_ok_def e'(2))
  qed
  have inj: "k = k'" if "hm_get (ae_active_alerts e') k = Some aa" "hm_get (ae_active_alerts e') k' = Some aa'"
    "al_id (aa_alert aa) = al_id (aa_alert aa')" for k aa k' aa'
  proof (cases "k = key \<or> k' = key")
    case True
    then show ?thesis using that b(4) [of k aa] b(4) [of k' aa'] by (auto simp: e'(1) split: if_splits)
  next
    case False
    then show ?thesis using that wf unfolding alert_engine_wf_def e'(1) hm_get_insert by (metis fun_upd_other)
  qed
  have ids: "al_id a' = uid" if "hm_get (ae_history e') uid = Some a'" for uid a'
    using that wf unfolding alert_engine_wf_def by (auto simp: e'(2) split: if_splits)
  show ?thesis
    using act inj ids wf unfolding alert_engine_wf_def e' by (intro conjI hm_wf_insert) blast+
qed

lemma wf_resolve_key:
  assumes wf: "alert_engine_wf e"
  shows "alert_engine_wf (resolve_key now key e)"
proof (cases "hm_get (ae_active_alerts e) key")
  case None
  then show ?thesis using wf by (simp add: resolve_key_def)
next
  case (Some aa)
  let ?b = "al_resolve now (aa_alert aa)"
  let ?e = "resolve_key now key e"
  have e': "ae_active_alerts ?e = hm_remove key (ae_active_alerts e)"
    "ae_history ?e = hm_insert (al_id (aa_alert aa)) ?b (ae_history e)" "al_id ?b = al_id (aa_alert aa)"
    by (simp_all add: resolve_key_def Some Let_def al_resolve_def)
  have g: "hm_get (ae_active_alerts e) k = Some aa' \<and> k \<noteq> key" if "hm_get (ae_active_alerts ?e) k = Some aa'" for k aa'
    using that by (simp add: e'(1) split: if_splits)
  have act: "active_ok (ae_history ?e) aa'" if "hm_get (ae_active_alerts ?e) k = Some aa'" for k aa'
  proof -
    have "active_ok (ae_history e) aa'" "al_id (aa_alert aa') \<noteq> al_id (aa_alert aa)"
      using g [OF that] Some wf unfolding alert_engine_wf_def by metis+
    then show ?thesis by (simp add: active_ok_def e'(2))
  qed
  have inj: "k = k'" if "hm_get (ae_active_alerts ?e) k = Some aa" "hm_get (ae_active_alerts ?e) k' = Some aa'"
    "al_id (aa_alert aa) = al_id (aa_alert aa')" for k aa k' aa'
    using g [OF that(1)] g [OF that(2)] that(3) wf unfolding alert_engine_wf_def by blast
  have ids: "al_id a' = uid" if "hm_get (ae_history ?e) uid = Some a'" for uid a'
    using that wf unfolding alert_engine_wf_def by (auto simp: e'(2,3) split: if_splits)
  have "hm_wf (ae_active_alerts ?e)" "hm_wf (ae_history ?e)"
    using wf by (simp_all add: e' alert_engine_wf_def)
  with act inj ids show ?thesis unfolding alert_engine_wf_def by blast
qed

lemma wf_prune_history:
  assumes wf: "alert_engine_wf e" and it: "hash_iter it"
    and r: "prune_history it now max_age cap e = Returns (n, e')"
  shows "alert_engine_wf e'"
proof -
  obtain P where h: "ae_history e' = filter P (ae_history e)" and a: "ae_active_alerts e' = ae_active_alerts e"
  proof -
    have c: "datetime_minus now max_age = Returns (now - max_age)"
      using r by (auto simp: prune_history_def prune_history_map_def datetime_minus_def split: if_splits)
    have "hm_wf (ae_history e)" using wf by (simp add: alert_engine_wf_def)
    from prune_history_map_eq [OF this it c, of cap] r show thesis
      by (auto simp: prune_history_def Let_def young_entries_def intro: that)
  qed
  have wfh: "hm_wf (ae_history e)" using wf by (simp add: alert_engine_wf_def)
  have sub: "hm_get (ae_history e) uid = Some x" if "hm_get (ae_history e') uid = Some x" for uid x
  proof -
    have "(uid, x) \<in> set (filter P (ae_history e))"
      using that unfolding hm_mem_iff [OF hm_wf_filter [OF wfh]] h by simp
    then have "(uid, x) \<in> set (ae_history e)" by simp
    then show ?thesis unfolding hm_mem_iff [OF wfh] .
  qed
  have act: "active_ok (ae_history e') aa" if "hm_get (ae_active_alerts e') k = Some aa" for k aa
  proof -
    have "active_ok (ae_history e) aa" using that wf unfolding a alert_engine_wf_def by blast
    with sub [of "al_id (aa_alert aa)"] show ?thesis
      by (cases "hm_get (ae_history e') (al_id (aa_alert aa))") (auto simp: active_ok_def)
  qed
  have "hm_wf (ae_history e')" unfolding h by (rule hm_wf_filter [OF wfh])
  with act sub wf show ?thesis unfolding alert_engine_wf_def a by blast
qed

interpretation alerts: invariant_machine alert_step alert_engine_wf
proof
  fix e e' assume "alert_step e e'" and wf: "alert_engine_wf e"
  then show "alert_engine_wf e'"
  proof (cases rule: alert_step.cases)
    case (step_occur a now key r)
    with wf show ?thesis by (blast intro: wf_record_alert)
  next
    case (step_prune it now max_age max_entries n)
    with wf show ?thesis by (blast intro: wf_prune_history)
  next
    case (step_resolve now key)
    with wf_resolve_key [OF wf] show ?thesis by blast
  next
    case (step_rule rule)
    with wf show ?thesis by (simp add: alert_engine_wf_def add_rule_def)
  qed
qed

lemma alert_engine_wf_new: "alert_engine_wf (with_dedup_window rules w)"
  by (simp add: alert_engine_wf_def with_dedup_window_def)

lemma alert_engine_facts:
  assumes "alert_step\<^sup>*\<^sup>* (with_dedup_window rules w) e"
    and "hm_get (ae_active_alerts e) key = Some aa"
  shows "al_is_active (aa_alert aa)" "al_count (aa_alert aa) \<noteq> 0" "al_last_sent (aa_alert aa) \<noteq> None"
    and "hm_contains (ae_history e) (al_id (aa_alert aa)) \<Longrightarrow>
         hm_get (ae_history e) (al_id (aa_alert aa)) = Some (aa_alert aa)"
    and "hm_get (ae_active_alerts e) key' = Some aa' \<Longrightarrow> key' \<noteq> key \<Longrightarrow>
         al_id (aa_alert aa') \<noteq> al_id (aa_alert aa)"
proof -
  have wf: "alert_engine_wf e" using alerts.star_inv [OF assms(1)] alert_engine_wf_new by blast
  then have ok: "active_ok (ae_history e) aa" using assms(2) unfolding alert_engine_wf_def by blast
  then show "al_is_active (aa_alert aa)" "al_count (aa_alert aa) \<noteq> 0" "al_last_sent (aa_alert aa) \<noteq> None"
    by (simp_all add: active_ok_def)
  show "hm_get (ae_history e) (al_id (aa_alert aa)) = Some (aa_alert aa)"
    if "hm_contains (ae_history e) (al_id (aa_alert aa))"
    using ok that by (auto simp: active_ok_def hm_contains_def)
  show "al_id (aa_alert aa') \<noteq> al_id (aa_alert aa)"
    if "hm_get (ae_active_alerts e) key' = Some aa'" "key' \<noteq> key"
    using wf that assms(2) unfolding alert_engine_wf_def by blast
qed

section \<open>Properties of the engine\<close>

definition sample_alert :: "uuid \<Rightarrow> datetime \<Rightarrow> alert" where
  "sample_alert uid t = new_alert uid t ''node_down'' SevCritical ''down'' (Some ''james'') None"

definition sample_alert_engine :: alert_engine where
  "sample_alert_engine = snd (run_alert_ops
     [Occur ''node_down:james:*'' (sample_alert 1 5) 5, Occur ''node_down:vinny:*'' (sample_alert 2 6) 6]
     (alert_engine_new []))"

lemmas alert_eval =
  sample_alert_engine_def sample_alert_def new_alert_def alert_engine_new_def with_dedup_window_def record_alert_def
  Let_def hash_eval saturating_add_def

lemma sample_fresh:
  "fresh_alert (with_dedup_window rules w) (sample_alert uid t)"
  "record_alert now key (sample_alert 1 t) (with_dedup_window rules w) = (r, e) \<Longrightarrow> fresh_alert e (sample_alert 2 t')"
  by (auto simp: record_alert_def with_dedup_window_def fresh_alert_def sample_alert_def new_alert_def
      al_is_active_def hm_contains_def Let_def split: if_splits)

text \<open>
  Pruning removes every entry fired before the cut-off and, if more than
  \<open>max_entries\<close> are left, the oldest ones: exactly \<open>min max_entries\<close> of the remaining
  entries survive unchanged, no survivor is older than an entry dropped for space, and the
  returned number is the number of entries that went.
\<close>

theorem prune_history_exact:
  assumes "hm_wf (ae_history e)" "hash_iter it"
    and "prune_history it now max_age max_entries e = Returns (removed, e')"
  shows "removed + length (ae_history e') = length (ae_history e) \<and>
    length (ae_history e') = min max_entries (length (young_entries (now - max_age) (ae_history e))) \<and>
    set (ae_history e') \<subseteq> set (young_entries (now - max_age) (ae_history e)) \<and>
    (\<forall>uid a uid' a'. (uid, a) \<in> set (young_entries (now - max_age) (ae_history e)) \<longrightarrow>
       (uid, a) \<notin> set (ae_history e') \<longrightarrow> (uid', a') \<in> set (ae_history e') \<longrightarrow>
       al_fired_at a \<le> al_fired_at a')"
  using prune_history_facts [OF assms] by blast

theorem prune_history_exact_witness:
  "\<exists>r e'. prune_history rev 10 20 1 sample_alert_engine = Returns (r, e') \<and> length (ae_history e') = 1"
proof -
  obtain r e' where r: "prune_history rev 10 20 1 sample_alert_engine = Returns (r, e')"
    by (cases "prune_history rev 10 20 1 sample_alert_engine")
      (auto simp: prune_history_def prune_history_map_def datetime_minus_def datetime_in_range_def split: prod.splits)
  have wf: "hm_wf (ae_history sample_alert_engine)" by (simp add: alert_eval hm_wf_def)
  have "length (young_entries (10 - 20) (ae_history sample_alert_engine)) = 2"
    by (simp add: alert_eval young_entries_def)
  with prune_history_exact [OF wf hash_iter_rev r] have "length (ae_history e') = 1" by simp
  with r show ?thesis by blast
qed

text \<open>
  C20: For every deduplication key, whatever other keys do in between: the occurrences of the
  key form bursts (a burst ends when the key has been silent for longer than the configured
  window, or is resolved), the alert recorded for an occurrence counts its place in the
  burst (saturating at \<open>u64::MAX\<close>), and the alert is emitted exactly for the first
  \<open>max(threshold, 2) - 1\<close> places.
\<close>

theorem alert_dedup_exact:
  assumes "with_deduplication_config rules config = Returns e0"
    and "run_alert_ops ps e0 = (out, e)" "\<forall>p \<in> set ps. fresh_op p"
  shows "observed key out =
    map (\<lambda>p. (min (p + 1) (2 ^ 64 - 1), p + 1 < max 2 (unat (dc_threshold_count config))))
      (burst_positions (secs (uint (dc_window_secs config))) None (key_events key ps))"
proof -
  let ?w = "if unat (dc_window_secs config) < 2 ^ 63 then uint (dc_window_secs config) else 2 ^ 63 - 1"
  have small: "?w \<le> (2 ^ 63 - 1) div 1000"
    using assms(1) by (auto simp: with_deduplication_config_def duration_seconds_def Let_def split: if_splits)
  then have w: "?w = uint (dc_window_secs config)" by (simp split: if_splits)
  have e0: "e0 = (with_dedup_window rules (secs (uint (dc_window_secs config))))
      \<lparr> ae_dedup_threshold_count := max (dc_threshold_count config) 2 \<rparr>"
    using assms(1) w by (auto simp: with_deduplication_config_def duration_seconds_def Let_def split: if_splits)
  have sim: "key_sim e0 key None" by (simp add: e0 key_sim_def with_dedup_window_def)
  have thr: "unat (max (dc_threshold_count config) 2) = max 2 (unat (dc_threshold_count config))"
    by (auto simp: max_def word_le_nat_alt)
  have "dedup_settings e0 = (secs (uint (dc_window_secs config)), max (dc_threshold_count config) 2)"
    by (simp add: e0 dedup_settings_def with_dedup_window_def)
  from run_alert_ops_sim [OF assms(2) sim assms(3) this] show ?thesis
    by (auto simp: thr intro!: map_cong)
qed

theorem alert_dedup_exact_witness:
  "observed ''k'' (fst (run_alert_ops
     [Occur ''k'' (sample_alert 1 0) 0, Occur ''k'' (sample_alert 2 0) (secs 299), Occur ''k'' (sample_alert 3 0) (secs 598),
      Occur ''k'' (sample_alert 4 0) (secs 899)]
     (case with_deduplication_config [] \<lparr> dc_window_secs = 300, dc_threshold_count = 3 \<rparr> of Returns e \<Rightarrow> e)))
   = [(1, True), (2, True), (3, False), (1, True)]"
proof -
  let ?ps = "[Occur ''k'' (sample_alert 1 0) 0, Occur ''k'' (sample_alert 2 0) (secs 299), Occur ''k'' (sample_alert 3 0) (secs 598),
      Occur ''k'' (sample_alert 4 0) (secs 899)]"
  obtain e0 where e0: "with_deduplication_config [] \<lparr> dc_window_secs = 300, dc_threshold_count = 3 \<rparr> = Returns e0"
    by (simp add: with_deduplication_config_def duration_seconds_def Let_def)
  obtain out e where run: "run_alert_ops ?ps e0 = (out, e)" by fastforce
  have "\<forall>p \<in> set ?ps. fresh_op p" by (simp add: fresh_op_def sample_alert_def new_alert_def)
  from alert_dedup_exact [OF e0 run this, of "''k''"] show ?thesis
    unfolding e0 outcome.case run by simp
qed

text \<open>
  A window that does not fit a chrono duration is not clamped to the largest one: the
  constructor panics, \<open>i64::MAX\<close> seconds being out of range as well.
\<close>

lemma dedup_window_panics:
  "(2 ^ 63 - 1) div 1000 < unat (dc_window_secs config) \<Longrightarrow> with_deduplication_config rules config = Panics"
proof -
  assume *: "(2 ^ 63 - 1) div 1000 < unat (dc_window_secs config)"
  then have "int ((2 ^ 63 - 1) div 1000) < int (unat (dc_window_secs config))" by (simp only: of_nat_less_iff)
  then show ?thesis by (simp add: with_deduplication_config_def duration_seconds_def Let_def)
qed

text \<open>A sequence of reports to the tracker: for each its key and whether it was forwarded.\<close>

record telegram_call =
  tc_drawn :: "uuid \<times> datetime \<times> datetime"
  tc_metric :: string
  tc_severity :: alert_severity
  tc_message :: string
  tc_node :: "string option"
  tc_model :: "string option"

definition tc_key :: "telegram_call \<Rightarrow> string" where
  "tc_key c = fire_key (tc_metric c) (tc_node c) (tc_model c)"

definition tc_time :: "telegram_call \<Rightarrow> datetime" where
  "tc_time c = snd (snd (tc_drawn c))"

fun track_all :: "telegram_call list \<Rightarrow> telegram_tracker \<Rightarrow> (string \<times> bool) list \<times> telegram_tracker" where
  "track_all [] t = ([], t)"
| "track_all (c # cs) t =
     (let (r, t1) = track_for_telegram (tc_drawn c) (tc_metric c) (tc_severity c) (tc_message c) (tc_node c) (tc_model c) t;
          (rs, t2) = track_all cs t1
      in ((tc_key c, r \<noteq> None) # rs, t2))"

definition call_op :: "telegram_call \<Rightarrow> alert_op" where
  "call_op c = Occur (tc_key c)
     (new_alert (fst (tc_drawn c)) (fst (snd (tc_drawn c))) (tc_metric c) (tc_severity c) (tc_message c) (tc_node c) (tc_model c))
     (tc_time c)"

lemma track_all_run:
  "track_all cs t = (case run_alert_ops (map call_op cs) (tt_engine t) of
     (out, e) \<Rightarrow> (map (\<lambda>(k, b, emit). (k, al_count b = 1)) out, t\<lparr> tt_engine := e \<rparr>))"
proof (induction cs arbitrary: t)
  case (Cons c cs)
  obtain b emit e1 where r: "record_alert (tc_time c) (tc_key c)
      (new_alert (fst (tc_drawn c)) (fst (snd (tc_drawn c))) (tc_metric c) (tc_severity c) (tc_message c) (tc_node c) (tc_model c))
      (tt_engine t) = ((b, emit), e1)" by (metis prod.exhaust_sel)
  have f: "track_for_telegram (tc_drawn c) (tc_metric c) (tc_severity c) (tc_message c) (tc_node c) (tc_model c) t =
      (if al_count b = 1 then Some b else None, t\<lparr> tt_engine := e1 \<rparr>)"
    using r by (simp add: track_for_telegram_def fire_alert_def tc_key_def tc_time_def split_def Let_def)
  obtain out e2 where run: "run_alert_ops (map call_op cs) e1 = (out, e2)" by force
  show ?case by (simp add: f r call_op_def Cons.IH run [unfolded call_op_def] Let_def)
qed simp

lemma key_events_calls:
  "key_events key (map call_op cs) = map (\<lambda>c. Occurs (tc_time c)) (filter (\<lambda>c. tc_key c = key) cs)"
  by (induction cs) (simp_all add: call_op_def)

text \<open>Forwarded reports of one key, from what the engine recorded.\<close>

lemma observed_forwarded:
  "map snd (filter (\<lambda>r. fst r = key) (map (\<lambda>(k, b, emit). (k, al_count b = 1)) out)) =
   map (\<lambda>r. fst r = 1) (observed key out)"
proof (induction out)
  case (Cons x out)
  obtain k b emit where x: "x = (k, b, emit)" by (cases x) auto
  have "al_count b = 1 \<longleftrightarrow> unat (al_count b) = 1" by (metis unat_1 word_unat_eq_iff)
  with Cons show ?case by (simp add: x observed_def)
qed (simp add: observed_def)

lemma telegram_bursts:
  "map snd (filter (\<lambda>r. fst r = key) (fst (track_all cs telegram_tracker_new))) =
     map (\<lambda>p. p = 0) (burst_positions (secs 300) None
       (map (\<lambda>c. Occurs (tc_time c)) (filter (\<lambda>c. tc_key c = key) cs)))"
proof -
  let ?e = "alert_engine_new []"
  obtain out e where run: "run_alert_ops (map call_op cs) ?e = (out, e)" by force
  have fresh: "\<forall>p \<in> set (map call_op cs). fresh_op p"
    by (simp add: fresh_op_def call_op_def new_alert_def)
  have sim: "key_sim ?e key None" by (simp add: key_sim_def alert_engine_new_def with_dedup_window_def)
  have "dedup_settings ?e = (secs 300, 2)"
    by (simp add: dedup_settings_def alert_engine_new_def with_dedup_window_def)
  from run_alert_ops_sim [OF run sim fresh this]
  have "map (\<lambda>r. fst r = 1) (observed key out) =
      map (\<lambda>p. p = 0) (burst_positions (secs 300) None (key_events key (map call_op cs)))"
    by (auto simp: min_def)
  then show ?thesis
    unfolding observed_forwarded [symmetric] key_events_calls [symmetric]
    by (simp add: track_all_run telegram_tracker_new_def run)
qed

text \<open>Reports no more than a window apart are one burst, so only the first is forwarded.\<close>

lemma steady_burst:
  assumes "\<forall>i. Suc i < length ts \<longrightarrow> ts ! Suc i - ts ! i \<le> w"
    and "\<forall>q seen. st = Some (q, seen) \<longrightarrow> ts \<noteq> [] \<longrightarrow> ts ! 0 - seen \<le> w"
  shows "burst_positions w st (map Occurs ts) =
    (let k = (case st of None \<Rightarrow> 0 | Some (q, seen) \<Rightarrow> q + 1) in [k..<k + length ts])"
  using assms
proof (induction ts arbitrary: st)
  case (Cons t ts)
  define k where "k = (case st of None \<Rightarrow> 0 | Some (q, seen) \<Rightarrow> q + 1)"
  have p: "burst_next w st t = k"
    using Cons.prems(2) by (auto simp: burst_next_def k_def split: option.splits)
  have steady: "\<forall>i. Suc i < length ts \<longrightarrow> ts ! Suc i - ts ! i \<le> w"
    using Cons.prems(1) by (metis Suc_less_eq length_Cons nth_Cons_Suc)
  have "\<forall>q seen. Some (k, t) = Some (q, seen) \<longrightarrow> ts \<noteq> [] \<longrightarrow> ts ! 0 - seen \<le> w"
    using Cons.prems(1) by (cases ts) auto
  from Cons.IH [OF steady this] have "burst_positions w (Some (k, t)) (map Occurs ts) = [Suc k..<k + length (t # ts)]"
    by (simp only: Let_def option.case prod.case) simp
  moreover have "[k..<k + length (t # ts)] = k # [Suc k..<k + length (t # ts)]" by (rule upt_conv_Cons) simp
  ultimately show ?case
    by (simp only: list.map burst_positions_Occurs p Let_def k_def [symmetric])
qed simp

lemma telegram_steady_reports:
  assumes "cs \<noteq> []" "\<forall>c \<in> set cs. tc_key c = key"
    and "\<forall>i. Suc i < length cs \<longrightarrow> tc_time (cs ! Suc i) - tc_time (cs ! i) \<le> secs 300"
  shows "map snd (filter (\<lambda>r. fst r = key) (fst (track_all cs telegram_tracker_new))) =
    True # replicate (length cs - 1) False"
proof -
  let ?ts = "map tc_time cs"
  have f: "filter (\<lambda>c. tc_key c = key) cs = cs" using assms(2) by simp
  have "burst_positions (secs 300) None (map Occurs ?ts) = [0..<length cs]"
    using steady_burst [of ?ts "secs 300" None] assms(3) by simp
  then have "burst_positions (secs 300) None (map (\<lambda>c. Occurs (tc_time c)) cs) = 0 # [1..<length cs]"
    using assms(1) by (simp add: upt_conv_Cons o_def)
  moreover have "map (\<lambda>p. p = 0) [1..<n] = replicate (n - 1) False" for n :: nat
    by (rule nth_equalityI) simp_all
  ultimately show ?thesis
    by (simp add: telegram_bursts f)
qed

text \<open>
  The Telegram tracker forwards exactly the first alert of every burst of its key: one
  that follows the previous report of the same metric, node and model within 300 seconds
  is never forwarded, however long the reports go on.
\<close>

theorem telegram_first_of_burst:
  "map snd (filter (\<lambda>r. fst r = key) (fst (track_all cs telegram_tracker_new))) =
     map (\<lambda>p. p = 0) (burst_positions (secs 300) None
       (map (\<lambda>c. Occurs (tc_time c)) (filter (\<lambda>c. tc_key c = key) cs)))"
  by (rule telegram_bursts)

lemma alerts_evaluate_facts:
  assumes "hash_iter itn" "hash_iter itm"
    and "alerts_evaluate itn itm draw metrics n e = (e', n', new_alerts)"
  shows "hm_contains (ae_active_alerts e') key \<longleftrightarrow>
      hm_contains (ae_active_alerts e) key \<or> (\<exists>rule \<in> set (ae_rules e). breach metrics rule key)"
    and "(\<nexists>rule. rule \<in> set (ae_rules e) \<and> breach metrics rule key) \<Longrightarrow>
      hm_get (ae_active_alerts e') key = hm_get (ae_active_alerts e) key"
proof -
  let ?hs = "rule_hit_list itn itm metrics (ae_rules e)"
  obtain out where run: "run_alert_ops (hit_ops draw n ?hs) e = (out, e')"
    using assms(3) by (auto simp: alerts_evaluate_run Let_def split: prod.splits)
  note a = run_occurs_active [OF run, of key] hit_list_breach [OF assms(1,2), of key metrics "ae_rules e"]
  show "hm_contains (ae_active_alerts e') key \<longleftrightarrow>
      hm_contains (ae_active_alerts e) key \<or> (\<exists>rule \<in> set (ae_rules e). breach metrics rule key)"
    using a by blast
  show "hm_get (ae_active_alerts e') key = hm_get (ae_active_alerts e) key"
    if "\<nexists>rule. rule \<in> set (ae_rules e) \<and> breach metrics rule key"
    using a that by blast
qed

definition hot_node :: "string \<Rightarrow> rat \<Rightarrow> node_metrics" where
  "hot_node name cpu =
     \<lparr> nm_worker_name = name, nm_cpu_percent = cpu, nm_memory_used_gib = 10, nm_memory_total_gib = 64,
       nm_gpu_percent = None, nm_gpu_memory_used_gib = None, nm_disk_percent = 50, nm_net_rx_bytes = 0,
       nm_net_tx_bytes = 0, nm_active_inference_count = 1, nm_load_avg_1m = cpu / 10, nm_sampled_at = 0 \<rparr>"

text \<open>
  Evaluating the rules makes a key active exactly when it was active before or a rule
  is breached under it now, leaves every other alert as it was, and never resolves
  one: an alert whose condition has gone stays active until it is resolved by hand.
\<close>

theorem alerts_evaluate_exact:
  assumes "hash_iter itn" "hash_iter itm"
    and "alerts_evaluate itn itm draw metrics n e = (e', n', new_alerts)"
  shows "(hm_contains (ae_active_alerts e') key \<longleftrightarrow>
      hm_contains (ae_active_alerts e) key \<or> (\<exists>rule \<in> set (ae_rules e). breach metrics rule key)) \<and>
    ((\<nexists>rule. rule \<in> set (ae_rules e) \<and> breach metrics rule key) \<longrightarrow>
      hm_get (ae_active_alerts e') key = hm_get (ae_active_alerts e) key)"
  using alerts_evaluate_facts [OF assms] by blast

theorem alerts_evaluate_exact_witness:
  "hm_contains (ae_active_alerts (fst (alerts_evaluate rev rev (\<lambda>n. (of_nat n, 0, 0))
     (record_node (hot_node ''vinny'' 95) (record_node (hot_node ''james'' 50) metrics_new)) 0
     (alert_engine_new [rule_high_cpu 90])))) ''high_cpu:vinny''"
proof -
  let ?m = "record_node (hot_node ''vinny'' 95) (record_node (hot_node ''james'' 50) metrics_new)"
  let ?e = "alert_engine_new [rule_high_cpu 90]"
  obtain e' n' new where ev: "alerts_evaluate rev rev (\<lambda>n. (of_nat n, 0, 0)) ?m 0 ?e = (e', n', new)"
    by (metis prod.exhaust_sel)
  have "breach ?m (rule_high_cpu 90) ''high_cpu:vinny''"
    by (simp add: breach_def rule_high_cpu_def record_node_def metrics_new_def hot_node_def hash_eval targeted_def)
  with alerts_evaluate_exact [OF hash_iter_rev hash_iter_rev ev, of "''high_cpu:vinny''"] have "hm_contains (ae_active_alerts e') ''high_cpu:vinny''"
    by (simp add: alert_engine_new_def with_dedup_window_def)
  then show ?thesis by (simp only: ev fst_conv)
qed

text \<open>
  C21: Whatever sequence of occurrences, resolutions, prunings and added rules an engine goes
  through, its active alerts are unresolved, counted, sent at least once, have distinct
  identifiers, and each is the very value the history holds under its identifier, unless
  that entry was pruned.
\<close>

theorem alert_engine_consistent:
  assumes "alert_step\<^sup>*\<^sup>* (with_dedup_window rules w) e"
    and "hm_get (ae_active_alerts e) key = Some aa"
  shows "al_is_active (aa_alert aa) \<and> al_count (aa_alert aa) \<noteq> 0 \<and> al_last_sent (aa_alert aa) \<noteq> None \<and>
    (hm_contains (ae_history e) (al_id (aa_alert aa)) \<longrightarrow>
       hm_get (ae_history e) (al_id (aa_alert aa)) = Some (aa_alert aa)) \<and>
    (\<forall>key' aa'. hm_get (ae_active_alerts e) key' = Some aa' \<longrightarrow> key' \<noteq> key \<longrightarrow>
       al_id (aa_alert aa') \<noteq> al_id (aa_alert aa))"
  using alert_engine_facts [OF assms] by blast

theorem alert_engine_consistent_witness:
  "al_is_active (aa_alert (the (hm_get (ae_active_alerts sample_alert_engine) ''node_down:james:*'')))"
proof -
  let ?e0 = "with_dedup_window [] (secs 300)"
  obtain r1 e1 where s1: "record_alert 5 ''node_down:james:*'' (sample_alert 1 5) ?e0 = (r1, e1)" by (metis surj_pair)
  obtain r2 e2 where s2: "record_alert 6 ''node_down:vinny:*'' (sample_alert 2 6) e1 = (r2, e2)" by (metis surj_pair)
  have e2: "sample_alert_engine = e2"
    using s1 s2 by (simp add: sample_alert_engine_def alert_engine_new_def split_def)
  have f1: "fresh_alert ?e0 (sample_alert 1 5)" by (rule sample_fresh(1))
  have f2: "fresh_alert e1 (sample_alert 2 6)" using sample_fresh(2) [OF s1] .
  have "alert_step\<^sup>*\<^sup>* ?e0 sample_alert_engine"
    unfolding e2 using step_occur [OF f1 s1] step_occur [OF f2 s2] by auto
  moreover obtain aa where aa: "hm_get (ae_active_alerts sample_alert_engine) ''node_down:james:*'' = Some aa"
    by (simp add: alert_eval)
  ultimately show ?thesis using alert_engine_consistent [of "[]" "secs 300" sample_alert_engine "''node_down:james:*''" aa] aa by simp
qed

text \<open>
  An alert that reappears after the window is replaced by a new one; the old one stays in
  the history unresolved, so the history shows two alerts as still active.
\<close>

lemma expired_alert_stays_unresolved:
  "\<exists>e. alert_step\<^sup>*\<^sup>* (with_dedup_window [] (secs 300)) e \<and> active_alert_count e = 1 \<and>
     length (filter al_is_active (alert_history id e)) = 2"
proof -
  let ?e0 = "with_dedup_window [] (secs 300)"
  obtain r1 e1 where s1: "record_alert 0 ''k'' (sample_alert 1 0) ?e0 = (r1, e1)" by (metis surj_pair)
  obtain r2 e2 where s2: "record_alert (secs 301) ''k'' (sample_alert 2 0) e1 = (r2, e2)" by (metis surj_pair)
  have f1: "fresh_alert ?e0 (sample_alert 1 0)" by (rule sample_fresh(1))
  have f2: "fresh_alert e1 (sample_alert 2 0)" using sample_fresh(2) [OF s1] .
  have "alert_step\<^sup>*\<^sup>* ?e0 e2" using step_occur [OF f1 s1] step_occur [OF f2 s2] by auto
  moreover have "active_alert_count e2 = 1" "length (filter al_is_active (alert_history id e2)) = 2"
    using s1 s2 by (auto simp: alert_eval al_is_active_def active_alert_count_def alert_history_def)
  ultimately show ?thesis by blast
qed

text \<open>Resolving the alerts of one node by its name also resolves those of every longer name.\<close>

lemma resolve_prefix_too_wide:
  assumes "hash_iter it" "hm_contains (ae_active_alerts e) (''high_cpu:'' @ name @ suf)"
  shows "\<not> hm_contains (ae_active_alerts (resolve_by_prefix it clock (''high_cpu:'' @ name) e))
    (''high_cpu:'' @ name @ suf)"
proof -
  have "(''high_cpu:'' @ name @ suf) \<in> set (hm_keys (ae_active_alerts e))"
    using assms(2) by (simp only: hm_keys_iff)
  then have "(''high_cpu:'' @ name @ suf) \<in>
      set (filter (str_starts_with (''high_cpu:'' @ name)) (it (hm_keys (ae_active_alerts e))))"
    using assms(1) by (simp add: hash_iter_set str_starts_with_def)
  then show ?thesis by (simp only: resolve_by_prefix_def hm_contains_def resolve_keys_active if_True) simp
qed

text \<open>A repeated alert that is emitted again keeps the time of its first emission.\<close>

lemma reemission_keeps_last_sent:
  assumes "record_alert now key a e = ((b, True), e')" "same_burst e key now = Some aa"
  shows "al_last_sent b = al_last_sent (aa_alert aa)"
  using assms by (auto simp: record_alert_eq occurrence_def Let_def)

end
