(* ===== verification/Sharding.thy ===== *)
theory Sharding
  imports Complex_Main Fleet_Prelude
begin

text \<open>
  The sharding map of very large models (\<^verbatim>\<open>ff-runtime/src/sharding.rs\<close>): decoder layers are
  split over a ring of Sparks. Layer numbers are \<open>u32\<close> and byte counts \<open>u64\<close>, as in the code;
  the product of the byte size is taken in \<open>u128\<close>, which cannot overflow, so it is a product of
  naturals here.
\<close>

section \<open>Quantisation, shards, links\<close>

datatype quant = Q4 | Q8 | F16 | UdTq1_8

primrec quant_tag :: "quant \<Rightarrow> string" where
  "quant_tag Q4 = ''q4''"
| "quant_tag Q8 = ''q8''"
| "quant_tag F16 = ''f16''"
| "quant_tag UdTq1_8 = ''ud-tq1''"

primrec bits_per_weight :: "quant \<Rightarrow> rat" where
  "bits_per_weight Q4 = 4"
| "bits_per_weight Q8 = 8"
| "bits_per_weight F16 = 16"
| "bits_per_weight UdTq1_8 = 18 / 10"

record spark_shard =
  ss_spark_index :: nat
  ss_first_layer :: u32
  ss_last_layer :: u32
  ss_layer_count :: u32
  ss_approx_bytes :: u64

definition owns_layer :: "spark_shard \<Rightarrow> u32 \<Rightarrow> bool" where
  "owns_layer s layer \<longleftrightarrow> ss_first_layer s \<le> layer \<and> layer \<le> ss_last_layer s"

record ring_link =
  rl_from_spark :: nat
  rl_to_spark :: nat
  rl_boundary_layer :: u32
  rl_wrap_around :: bool

record sharding_map =
  sm_model_id :: string
  sm_quant :: quant
  sm_total_layers :: u32
  sm_total_bytes :: u64
  sm_shards :: "spark_shard list"
  sm_ring_links :: "ring_link list"

section \<open>Building a map\<close>

text \<open>The loop of \<open>partition\<close> over the indices, with \<open>next_first\<close> and \<open>bytes_assigned\<close>.\<close>

fun shard_loop ::
  "u32 \<Rightarrow> u32 \<Rightarrow> u32 \<Rightarrow> u64 \<Rightarrow> nat \<Rightarrow> nat list \<Rightarrow> u32 \<Rightarrow> u64 \<Rightarrow> spark_shard list" where
  "shard_loop base remainder total_layers total_bytes ring_size [] next_first bytes_assigned = []"
| "shard_loop base remainder total_layers total_bytes ring_size (i # idx) next_first bytes_assigned =
     (let extra = (if (of_nat i :: u32) < remainder then 1 else 0);
          layer_count = base + extra;
          first_layer = next_first;
          last_layer = first_layer + layer_count - 1;
          next_first' = last_layer + 1;
          (approx_bytes, bytes_assigned') =
            (if i + 1 = ring_size then (total_bytes - bytes_assigned, bytes_assigned)
             else (let b = of_nat (unat total_bytes * unat layer_count div unat total_layers)
                   in (b, bytes_assigned + b)))
      in \<lparr> ss_spark_index = i, ss_first_layer = first_layer, ss_last_layer = last_layer,
           ss_layer_count = layer_count, ss_approx_bytes = approx_bytes \<rparr>
         # shard_loop base remainder total_layers total_bytes ring_size idx next_first' bytes_assigned')"

definition build_ring_links :: "spark_shard list \<Rightarrow> u32 \<Rightarrow> ring_link list" where
  "build_ring_links shards total_layers =
     (let ring_size = length shards
      in if ring_size < 2 then []
         else map (\<lambda>(i, shard).
                let to = (i + 1) mod ring_size;
                    wrap_around = (to = 0);
                    boundary_layer = (if wrap_around then total_layers - 1 else ss_last_layer shard)
                in \<lparr> rl_from_spark = ss_spark_index shard, rl_to_spark = to,
                     rl_boundary_layer = boundary_layer, rl_wrap_around = wrap_around \<rparr>)
              (List.enumerate 0 shards))"

definition shard_partition ::
  "string \<Rightarrow> quant \<Rightarrow> u32 \<Rightarrow> u64 \<Rightarrow> nat \<Rightarrow> sharding_map outcome" where
  "shard_partition model_id qt total_layers total_bytes ring_size =
     (if ring_size = 0 then Panics
      else if unat total_layers < ring_size then Panics
      else
        let ring_u32 = of_nat ring_size;
            base = total_layers div ring_u32;
            remainder = total_layers mod ring_u32;
            shards = shard_loop base remainder total_layers total_bytes ring_size [0..<ring_size] 0 0
        in Returns \<lparr> sm_model_id = model_id, sm_quant = qt, sm_total_layers = total_layers,
             sm_total_bytes = total_bytes, sm_shards = shards,
             sm_ring_links = build_ring_links shards total_layers \<rparr>)"

definition qwen3_coder_480b_q4 :: "sharding_map outcome" where
  "qwen3_coder_480b_q4 =
     shard_partition ''qwen3-coder-480b'' Q4 62 (276 * 1024 * 1024 * 1024) 3"

definition kimi_k2_thinking_ud_tq1 :: "sharding_map outcome" where
  "kimi_k2_thinking_ud_tq1 =
     shard_partition ''kimi-k2-thinking'' UdTq1_8 61 (245 * 1024 * 1024 * 1024) 3"

definition spark_for_layer :: "sharding_map \<Rightarrow> u32 \<Rightarrow> spark_shard option" where
  "spark_for_layer m layer = List.find (\<lambda>s. owns_layer s layer) (sm_shards m)"

definition wrap_link :: "sharding_map \<Rightarrow> ring_link option" where
  "wrap_link m = List.find rl_wrap_around (sm_ring_links m)"

fun contiguous_loop :: "nat \<Rightarrow> u32 \<Rightarrow> u64 \<Rightarrow> u32 \<Rightarrow> u64 \<Rightarrow> spark_shard list \<Rightarrow> bool" where
  "contiguous_loop i expected_first bytes total_layers total_bytes [] \<longleftrightarrow>
     expected_first = total_layers \<and> bytes = total_bytes"
| "contiguous_loop i expected_first bytes total_layers total_bytes (s # ss) \<longleftrightarrow>
     (if ss_spark_index s \<noteq> i \<or> ss_first_layer s \<noteq> expected_first \<or>
         ss_last_layer s < ss_first_layer s \<or>
         ss_layer_count s \<noteq> ss_last_layer s - ss_first_layer s + 1
      then False
      else contiguous_loop (i + 1) (ss_last_layer s + 1) (bytes + ss_approx_bytes s)
             total_layers total_bytes ss)"

definition is_contiguous :: "sharding_map \<Rightarrow> bool" where
  "is_contiguous m = contiguous_loop 0 0 0 (sm_total_layers m) (sm_total_bytes m) (sm_shards m)"

section \<open>The split in closed form\<close>

text \<open>For \<open>L\<close> layers on \<open>n\<close> Sparks: the count and the first layer of Spark \<open>i\<close>.\<close>

definition layers_of :: "nat \<Rightarrow> nat \<Rightarrow> nat \<Rightarrow> nat" where
  "layers_of L n i = L div n + (if i < L mod n then 1 else 0)"

definition first_of :: "nat \<Rightarrow> nat \<Rightarrow> nat \<Rightarrow> nat" where
  "first_of L n i = i * (L div n) + min i (L mod n)"

definition bytes_before :: "nat \<Rightarrow> nat \<Rightarrow> nat \<Rightarrow> nat \<Rightarrow> nat" where
  "bytes_before B L n i = (\<Sum>j<i. B * layers_of L n j div L)"

definition bytes_of :: "nat \<Rightarrow> nat \<Rightarrow> nat \<Rightarrow> nat \<Rightarrow> nat" where
  "bytes_of B L n i = (if i + 1 = n then B - bytes_before B L n i else B * layers_of L n i div L)"

lemma first_of_Suc: "first_of L n (Suc i) = first_of L n i + layers_of L n i"
  by (simp add: first_of_def layers_of_def)

lemma first_of_0 [simp]: "first_of L n 0 = 0"
  by (simp add: first_of_def)

lemma first_of_all: "0 < n \<Longrightarrow> first_of L n n = L"
  by (simp add: first_of_def min_absorb2 mod_less_divisor less_imp_le)

lemma first_of_mono: "i \<le> j \<Longrightarrow> first_of L n i \<le> first_of L n j"
  by (simp add: first_of_def add_mono)

lemma layers_of_pos: "0 < n \<Longrightarrow> n \<le> L \<Longrightarrow> 0 < layers_of L n i"
  by (simp add: layers_of_def div_greater_zero_iff)

lemma first_of_sum: "first_of L n i = (\<Sum>j<i. layers_of L n j)"
  by (induction i) (simp_all add: first_of_Suc)

lemma bytes_before_bound:
  assumes "0 < L" "0 < n" "i \<le> n"
  shows "L * bytes_before B L n i \<le> B * first_of L n i" "bytes_before B L n i \<le> B"
proof -
  have "L * bytes_before B L n i = (\<Sum>j<i. L * (B * layers_of L n j div L))"
    by (simp add: bytes_before_def sum_distrib_left)
  also have "\<dots> \<le> (\<Sum>j<i. B * layers_of L n j)" by (intro sum_mono) simp
  also have "\<dots> = B * first_of L n i" by (simp add: first_of_sum sum_distrib_left)
  finally show *: "L * bytes_before B L n i \<le> B * first_of L n i" .
  have "first_of L n i \<le> L" using first_of_mono [OF assms(3), of L n] first_of_all [OF assms(2), of L] by simp
  then have "B * first_of L n i \<le> L * B" by (simp add: mult.commute)
  with * have "L * bytes_before B L n i \<le> L * B" by linarith
  with assms(1) show "bytes_before B L n i \<le> B" by simp
qed

definition shard_at :: "u32 \<Rightarrow> u64 \<Rightarrow> nat \<Rightarrow> nat \<Rightarrow> spark_shard" where
  "shard_at total_layers total_bytes n i =
     (let L = unat total_layers; B = unat total_bytes
      in \<lparr> ss_spark_index = i, ss_first_layer = of_nat (first_of L n i),
           ss_last_layer = of_nat (first_of L n (Suc i) - 1),
           ss_layer_count = of_nat (layers_of L n i), ss_approx_bytes = of_nat (bytes_of B L n i) \<rparr>)"

lemma shard_loop_eq:
  assumes n: "0 < n" "n \<le> unat total_layers" and idx: "idx = [i..<n]" "i \<le> n"
  shows "shard_loop (total_layers div of_nat n) (total_layers mod of_nat n) total_layers total_bytes n idx
      (of_nat (first_of (unat total_layers) n i))
      (of_nat (bytes_before (unat total_bytes) (unat total_layers) n i)) =
    map (shard_at total_layers total_bytes n) idx"
  using idx
proof (induction idx arbitrary: i)
  case (Cons j js)
  let ?L = "unat total_layers" and ?B = "unat total_bytes"
  have i: "j = i" "js = [Suc i..<n]" "i < n"
    using Cons.prems by (cases "i < n"; simp add: upt_conv_Cons)+
  have L32: "?L < 2 ^ 32" using unsigned_less [of total_layers] by simp
  have nw: "unat (of_nat n :: u32) = n" using n(2) L32 by (simp add: unat_of_nat)
  have iw: "unat (of_nat i :: u32) = i" using i(3) n(2) L32 by (simp add: unat_of_nat)
  have cnt: "total_layers div of_nat n + (if (of_nat i :: u32) < total_layers mod of_nat n then 1 else 0) =
      of_nat (layers_of ?L n i)"
    by (simp add: layers_of_def word_less_nat_alt unat_mod nw iw word_arith_nat_div)
  have step: "(of_nat (first_of ?L n i) + of_nat (layers_of ?L n i) - 1 :: u32) = of_nat (first_of ?L n (Suc i) - 1)"
    using layers_of_pos [OF n] by (simp add: first_of_Suc of_nat_diff Suc_leI)
  have nextw: "(of_nat (first_of ?L n (Suc i) - 1) + 1 :: u32) = of_nat (first_of ?L n (Suc i))"
    using layers_of_pos [OF n, of i] by (simp add: first_of_Suc of_nat_diff Suc_leI)
  have bsmall: "bytes_of ?B ?L n i \<le> ?B"
    using bytes_before_bound(2) [of ?L n "Suc i" ?B] n i(3) by (auto simp: bytes_of_def bytes_before_def)
  have cu: "unat (of_nat (layers_of ?L n i) :: u32) = layers_of ?L n i"
  proof -
    have "layers_of ?L n i \<le> ?L"
      using first_of_mono [of "Suc i" n ?L n] first_of_all [OF n(1), of ?L] i(3) by (simp add: first_of_Suc)
    then show ?thesis using L32 by (simp add: unat_of_nat)
  qed
  have IH: "shard_loop (total_layers div of_nat n) (total_layers mod of_nat n) total_layers total_bytes n js
      (of_nat (first_of ?L n (Suc i))) (of_nat (bytes_before ?B ?L n (Suc i))) =
    map (shard_at total_layers total_bytes n) js"
    using Cons.IH [of "Suc i"] i by simp
  have hd: "shard_at total_layers total_bytes n i =
      \<lparr> ss_spark_index = i, ss_first_layer = of_nat (first_of ?L n i),
        ss_last_layer = of_nat (first_of ?L n (Suc i) - 1),
        ss_layer_count = of_nat (layers_of ?L n i), ss_approx_bytes = of_nat (bytes_of ?B ?L n i) \<rparr>"
    by (simp add: shard_at_def Let_def)
  show ?case
  proof (cases "i + 1 = n")
    case True
    have "js = []" using i True by simp
    moreover have "(total_bytes - of_nat (bytes_before ?B ?L n i)) = of_nat (bytes_of ?B ?L n i)"
      using bytes_before_bound(2) [of ?L n i ?B] n i(3) True by (simp add: bytes_of_def of_nat_diff)
    ultimately show ?thesis
      using True by (simp add: i(1) Let_def cnt step nextw [simplified] hd)
  next
    case False
    have "bytes_before ?B ?L n (Suc i) = bytes_before ?B ?L n i + bytes_of ?B ?L n i"
      "?B * layers_of ?L n i div ?L = bytes_of ?B ?L n i"
      using False by (simp_all add: bytes_before_def bytes_of_def)
    then show ?thesis
      using False IH by (simp add: i(1) Let_def cnt cu step nextw [simplified] hd first_of_Suc)
  qed
qed simp

lemma shards_eq:
  assumes "0 < n" "n \<le> unat total_layers"
  shows "shard_loop (total_layers div of_nat n) (total_layers mod of_nat n) total_layers total_bytes n [0..<n] 0 0 =
    map (shard_at total_layers total_bytes n) [0..<n]"
  using shard_loop_eq [OF assms refl, of 0 total_bytes] by (simp add: bytes_before_def)

lemma shard_partition_eq:
  assumes "0 < n" "n \<le> unat total_layers"
  shows "shard_partition model_id qt total_layers total_bytes n =
    (let shards = map (shard_at total_layers total_bytes n) [0..<n]
     in Returns \<lparr> sm_model_id = model_id, sm_quant = qt, sm_total_layers = total_layers,
          sm_total_bytes = total_bytes, sm_shards = shards, sm_ring_links = build_ring_links shards total_layers \<rparr>)"
  using assms by (simp add: shard_partition_def shards_eq Let_def)

text \<open>The numbers of a shard, read as naturals: nothing wraps.\<close>

lemma shard_at_unat:
  fixes total_layers :: u32 and total_bytes :: u64
  assumes n: "0 < n" "n \<le> unat total_layers" and i: "i < n"
  defines "s \<equiv> shard_at total_layers total_bytes n i"
  shows "unat (ss_first_layer s) = first_of (unat total_layers) n i"
    "unat (ss_last_layer s) = first_of (unat total_layers) n (Suc i) - 1"
    "unat (ss_layer_count s) = layers_of (unat total_layers) n i"
    "unat (ss_approx_bytes s) = bytes_of (unat total_bytes) (unat total_layers) n i"
proof -
  let ?L = "unat total_layers" and ?B = "unat total_bytes"
  have L32: "?L < 2 ^ 32" using unsigned_less [of total_layers] by simp
  have B64: "?B < 2 ^ 64" using unsigned_less [of total_bytes] by simp
  have le: "first_of ?L n (Suc i) \<le> ?L"
    using first_of_mono [of "Suc i" n ?L n] first_of_all [OF n(1), of ?L] i by simp
  have "bytes_of ?B ?L n i \<le> ?B"
    using bytes_before_bound(2) [of ?L n "Suc i" ?B] n i by (auto simp: bytes_of_def bytes_before_def)
  then show "unat (ss_approx_bytes s) = bytes_of ?B ?L n i"
    using B64 by (simp add: s_def shard_at_def Let_def unat_of_nat)
  show "unat (ss_first_layer s) = first_of ?L n i" "unat (ss_last_layer s) = first_of ?L n (Suc i) - 1"
    "unat (ss_layer_count s) = layers_of ?L n i"
    using le L32 by (simp_all add: s_def shard_at_def Let_def unat_of_nat first_of_Suc)
qed

lemma contiguous_loop_shards:
  assumes n: "0 < n" "n \<le> unat total_layers" and i: "i \<le> n"
  shows "contiguous_loop i (of_nat (first_of (unat total_layers) n i))
      (of_nat (\<Sum>j<i. bytes_of (unat total_bytes) (unat total_layers) n j))
      total_layers total_bytes (map (shard_at total_layers total_bytes n) [i..<n]) \<longleftrightarrow>
    of_nat (\<Sum>j<n. bytes_of (unat total_bytes) (unat total_layers) n j) = total_bytes"
  using i
proof (induction "n - i" arbitrary: i)
  case 0
  then show ?case using n by (simp add: first_of_all)
next
  case (Suc d)
  let ?L = "unat total_layers" and ?B = "unat total_bytes"
  let ?s = "shard_at total_layers total_bytes n i"
  from Suc.hyps(2) have i: "i < n" by simp
  note u = shard_at_unat [OF n i, of total_bytes]
  have pos: "0 < layers_of ?L n i" by (rule layers_of_pos [OF n])
  have ge: "\<not> ss_last_layer ?s < ss_first_layer ?s"
    using pos by (simp add: word_less_nat_alt u first_of_Suc)
  have nx: "ss_last_layer ?s + 1 = of_nat (first_of ?L n (Suc i))"
    using pos by (simp add: shard_at_def Let_def first_of_Suc of_nat_diff Suc_leI)
  have cnt: "ss_layer_count ?s = ss_last_layer ?s - ss_first_layer ?s + 1"
    using pos by (simp add: shard_at_def Let_def first_of_Suc of_nat_diff Suc_leI)
  have bts: "(of_nat (\<Sum>j<i. bytes_of ?B ?L n j) + ss_approx_bytes ?s) =
      of_nat (\<Sum>j<Suc i. bytes_of ?B ?L n j)"
    by (simp add: shard_at_def Let_def)
  have idx: "ss_spark_index ?s = i" "ss_first_layer ?s = of_nat (first_of ?L n i)"
    by (simp_all add: shard_at_def Let_def)
  have one: "contiguous_loop i (of_nat (first_of ?L n i)) b total_layers total_bytes (?s # ss) \<longleftrightarrow>
      contiguous_loop (Suc i) (of_nat (first_of ?L n (Suc i))) (b + ss_approx_bytes ?s) total_layers total_bytes ss" for b ss
    using ge cnt unfolding contiguous_loop.simps nx idx by simp
  have "[i..<n] = i # [Suc i..<n]" using i by (simp add: upt_conv_Cons)
  then have m: "map (shard_at total_layers total_bytes n) [i..<n] = ?s # map (shard_at total_layers total_bytes n) [Suc i..<n]"
    by simp
  show ?case unfolding m one bts by (rule Suc.hyps(1)) (use Suc.hyps(2) i in simp_all)
qed

section \<open>What a map promises\<close>

lemma bytes_total:
  assumes "0 < n" "0 < L"
  shows "(\<Sum>j<n. bytes_of B L n j) = B"
proof -
  obtain k where n: "n = Suc k" using assms(1) by (cases n) auto
  have "(\<Sum>j<k. bytes_of B L n j) = bytes_before B L n k"
    by (simp add: bytes_before_def bytes_of_def n)
  moreover have "bytes_before B L n k \<le> B" using bytes_before_bound(2) [OF assms(2,1), of k B] n by simp
  ultimately show ?thesis by (simp add: n bytes_of_def)
qed

text \<open>The bytes of a shard against its exact proportional part \<open>B * count / L\<close>.\<close>

lemma bytes_of_bounds:
  assumes n: "0 < n" and L: "0 < L" and i: "i < n"
  shows "B * layers_of L n i < L * bytes_of B L n i + L"
    and "L * bytes_of B L n i \<le> B * layers_of L n i + (n - 1) * L"
proof -
  have fl: "L * (B * x div L) \<le> B * x" "B * x < L * (B * x div L) + L" for x
    using L by (simp, metis div_mult_mod_eq mod_less_divisor mult.commute nat_add_left_cancel_less)
  have *: "B * layers_of L n i < L * bytes_of B L n i + L \<and>
    L * bytes_of B L n i \<le> B * layers_of L n i + (n - 1) * L"
  proof (cases "i + 1 = n")
    case False
    then show ?thesis using fl(2) [of "layers_of L n i"] trans_le_add1 [OF fl(1)] by (simp add: bytes_of_def)
  next
    case True
    let ?b = "bytes_before B L n i"
    have tot: "B * L = B * first_of L n i + B * layers_of L n i"
      using first_of_all [OF n, of L] True first_of_Suc [of L n i] by (metis Suc_eq_plus1 distrib_left)
    have lo: "L * ?b \<le> B * first_of L n i" "?b \<le> B"
      using bytes_before_bound [OF L n, of i B] i by simp_all
    have "B * first_of L n i \<le> L * ?b + i * L"
    proof -
      have "B * first_of L n i = (\<Sum>j<i. B * layers_of L n j)" by (simp add: first_of_sum sum_distrib_left)
      also have "\<dots> \<le> (\<Sum>j<i. L * (B * layers_of L n j div L) + L)"
        using fl(2) by (intro sum_mono) (simp add: less_imp_le)
      also have "\<dots> = L * ?b + i * L" by (simp add: bytes_before_def sum_distrib_left sum.distrib)
      finally show ?thesis .
    qed
    moreover have "L * bytes_of B L n i + L * ?b = B * L"
      using True lo(2) by (simp add: bytes_of_def diff_mult_distrib2 mult.commute)
    ultimately show ?thesis using tot lo(1) True L by auto
  qed
  then show "B * layers_of L n i < L * bytes_of B L n i + L"
    "L * bytes_of B L n i \<le> B * layers_of L n i + (n - 1) * L" by blast+
qed

lemma layer_owner:
  assumes "0 < n" "l < L"
  shows "\<exists>!i. i < n \<and> first_of L n i \<le> l \<and> l < first_of L n (Suc i)"
proof -
  have "\<exists>i<k. first_of L n i \<le> l \<and> l < first_of L n (Suc i)" if "l < first_of L n k" for k
    using that
  proof (induction k)
    case (Suc k)
    then show ?case by (cases "l < first_of L n k") (auto intro: less_SucI)
  qed simp
  then have ex: "\<exists>i<n. first_of L n i \<le> l \<and> l < first_of L n (Suc i)"
    using assms first_of_all [of n L] by simp
  have uniq: "i = j" if "first_of L n i \<le> l" "l < first_of L n (Suc i)" "first_of L n j \<le> l" "l < first_of L n (Suc j)" for i j
  proof (rule ccontr)
    assume "i \<noteq> j"
    then have "Suc i \<le> j \<or> Suc j \<le> i" by linarith
    then show False
      using that first_of_mono [of "Suc i" j L n] first_of_mono [of "Suc j" i L n] by linarith
  qed
  from ex uniq show ?thesis by blast
qed

lemma shard_owns:
  assumes "0 < n" "n \<le> unat total_layers" "i < n"
  shows "owns_layer (shard_at total_layers total_bytes n i) layer \<longleftrightarrow>
    first_of (unat total_layers) n i \<le> unat layer \<and> unat layer < first_of (unat total_layers) n (Suc i)"
  using shard_at_unat [OF assms, of total_bytes] layers_of_pos [OF assms(1,2), of i]
  by (auto simp: owns_layer_def word_le_nat_alt first_of_Suc)

lemma shard_partition_panics_iff:
  "shard_partition model_id qt total_layers total_bytes n = Panics \<longleftrightarrow> n = 0 \<or> unat total_layers < n"
  by (simp add: shard_partition_def Let_def)

lemma shard_partition_returns:
  assumes "shard_partition model_id qt total_layers total_bytes n = Returns m"
  shows "0 < n" "n \<le> unat total_layers" "sm_shards m = map (shard_at total_layers total_bytes n) [0..<n]"
    "sm_total_layers m = total_layers" "sm_total_bytes m = total_bytes"
    "sm_ring_links m = build_ring_links (sm_shards m) total_layers"
proof -
  show n: "0 < n" "n \<le> unat total_layers"
    using assms shard_partition_panics_iff [of model_id qt total_layers total_bytes n] by auto
  from assms show "sm_shards m = map (shard_at total_layers total_bytes n) [0..<n]"
    "sm_total_layers m = total_layers" "sm_total_bytes m = total_bytes"
    "sm_ring_links m = build_ring_links (sm_shards m) total_layers"
    by (auto simp: shard_partition_eq [OF n] Let_def)
qed

lemma shard_layer_owner:
  assumes "shard_partition model_id qt total_layers total_bytes n = Returns m" "layer < total_layers"
  shows "\<exists>s. spark_for_layer m layer = Some s \<and> {s' \<in> set (sm_shards m). owns_layer s' layer} = {s}"
proof -
  let ?L = "unat total_layers" and ?sh = "shard_at total_layers total_bytes n"
  note r = shard_partition_returns [OF assms(1)]
  note n = r(1,2)
  have "unat layer < ?L" using assms(2) by (simp add: word_less_nat_alt)
  from layer_owner [OF n(1) this] obtain i where
    own: "i < n \<and> first_of ?L n i \<le> unat layer \<and> unat layer < first_of ?L n (Suc i)"
    "\<And>j. j < n \<and> first_of ?L n j \<le> unat layer \<and> unat layer < first_of ?L n (Suc j) \<Longrightarrow> j = i"
    by (elim ex1E) blast
  have i: "i < n" using own(1) by blast
  have oi: "owns_layer (?sh i) layer" unfolding shard_owns [OF n i] using own(1) by blast
  have only: "j = i" if "j < n" "owns_layer (?sh j) layer" for j
    by (rule own(2)) (use that shard_owns [OF n that(1)] in blast)
  have one: "{s' \<in> set (sm_shards m). owns_layer s' layer} = {?sh i}"
  proof (intro equalityI subsetI)
    fix s assume "s \<in> {s' \<in> set (sm_shards m). owns_layer s' layer}"
    then obtain j where "j < n" "s = ?sh j" "owns_layer (?sh j) layer" by (auto simp: r(3))
    then show "s \<in> {?sh i}" using only by blast
  next
    fix s assume "s \<in> {?sh i}"
    then show "s \<in> {s' \<in> set (sm_shards m). owns_layer s' layer}" using i oi by (simp add: r(3))
  qed
  have "spark_for_layer m layer \<noteq> None" using one by (auto simp: spark_for_layer_def find_None_iff)
  then obtain s where s: "spark_for_layer m layer = Some s" by auto
  then have "s \<in> {s' \<in> set (sm_shards m). owns_layer s' layer}"
    by (auto simp: spark_for_layer_def find_Some_iff)
  with one s show ?thesis by auto
qed

text \<open>
  C22: A partition that does not panic passes the integrity check \<open>is_contiguous\<close>: it has one
  shard per Spark, their layer counts add up to the total and differ by at most one, their
  bytes add up to the total without wrapping, and every layer is owned by exactly one shard,
  the one that \<open>spark_for_layer\<close> finds.
\<close>

theorem shard_partition_correct:
  assumes "shard_partition model_id qt total_layers total_bytes n = Returns m"
  shows "is_contiguous m \<and> length (sm_shards m) = n \<and>
    (\<Sum>s\<leftarrow>sm_shards m. unat (ss_layer_count s)) = unat total_layers \<and>
    (\<Sum>s\<leftarrow>sm_shards m. unat (ss_approx_bytes s)) = unat total_bytes \<and>
    (\<forall>s t. s \<in> set (sm_shards m) \<longrightarrow> t \<in> set (sm_shards m) \<longrightarrow>
       unat (ss_layer_count s) \<le> unat (ss_layer_count t) + 1) \<and>
    (\<forall>layer. layer < total_layers \<longrightarrow>
       (\<exists>s. spark_for_layer m layer = Some s \<and> {s' \<in> set (sm_shards m). owns_layer s' layer} = {s}))"
proof -
  let ?L = "unat total_layers" and ?B = "unat total_bytes"
  let ?sh = "shard_at total_layers total_bytes n"
  note r = shard_partition_returns [OF assms]
  note n = r(1,2)
  have L: "0 < ?L" using n by linarith
  have u: "unat (ss_layer_count (?sh i)) = layers_of ?L n i" "unat (ss_approx_bytes (?sh i)) = bytes_of ?B ?L n i"
    if "i < n" for i using shard_at_unat [OF n that] by simp_all
  have sum: "(\<Sum>s\<leftarrow>sm_shards m. f s) = (\<Sum>i<n. f (?sh i))" for f :: "spark_shard \<Rightarrow> nat"
    by (simp add: r(3) o_def interv_sum_list_conv_sum_set_nat atLeast0LessThan)
  have "is_contiguous m"
    using contiguous_loop_shards [OF n, of 0 total_bytes] bytes_total [OF n(1) L, of ?B]
    by (simp add: is_contiguous_def r(3-5))
  moreover have "(\<Sum>s\<leftarrow>sm_shards m. unat (ss_layer_count s)) = ?L"
    using u(1) first_of_sum [of ?L n n] first_of_all [OF n(1), of ?L] by (simp add: sum)
  moreover have "(\<Sum>s\<leftarrow>sm_shards m. unat (ss_approx_bytes s)) = ?B"
    using u(2) bytes_total [OF n(1) L, of ?B] by (simp add: sum)
  moreover have "unat (ss_layer_count s) \<le> unat (ss_layer_count t) + 1"
    if "s \<in> set (sm_shards m)" "t \<in> set (sm_shards m)" for s t
    using that u(1) by (auto simp: r(3) layers_of_def)
  moreover note shard_layer_owner [OF assms]
  ultimately show ?thesis by (simp add: r(3))
qed

theorem shard_partition_correct_witness:
  "\<exists>m. qwen3_coder_480b_q4 = Returns m \<and> is_contiguous m \<and> length (sm_shards m) = 3"
proof -
  have "qwen3_coder_480b_q4 \<noteq> Panics"
    by (simp add: qwen3_coder_480b_q4_def shard_partition_panics_iff)
  then obtain m where m: "qwen3_coder_480b_q4 = Returns m" by (cases qwen3_coder_480b_q4) auto
  then have "is_contiguous m \<and> length (sm_shards m) = 3"
    using shard_partition_correct [of "''qwen3-coder-480b''" Q4 62 "276 * 1024 * 1024 * 1024" 3 m]
    unfolding qwen3_coder_480b_q4_def by blast
  with m show ?thesis by blast
qed

text \<open>
  The bytes of every shard are within its proportional share: at least its floor, and at
  most one byte per other Spark above it (the last shard absorbs the rounding).
\<close>

lemma shard_bytes_proportional:
  assumes "shard_partition model_id qt total_layers total_bytes n = Returns m" "s \<in> set (sm_shards m)"
  shows "unat total_bytes * unat (ss_layer_count s) < unat total_layers * unat (ss_approx_bytes s) + unat total_layers \<and>
    unat total_layers * unat (ss_approx_bytes s) \<le>
      unat total_bytes * unat (ss_layer_count s) + (n - 1) * unat total_layers"
proof -
  note r = shard_partition_returns [OF assms(1)]
  obtain i where i: "i < n" "s = shard_at total_layers total_bytes n i" using assms(2) by (auto simp: r(3))
  have "0 < unat total_layers" using r(1,2) by linarith
  with bytes_of_bounds [OF r(1) _ i(1), of "unat total_layers" "unat total_bytes"]
  show ?thesis using shard_at_unat [OF r(1,2) i(1), of total_bytes] by (simp add: i(2))
qed

text \<open>
  With at least two Sparks the links form one closed ring: Spark \<open>i\<close> sends to Spark
  \<open>i + 1\<close> after the last layer it owns, and the last Spark, and only it, wraps around to
  Spark 0, at the last layer of the model.
\<close>

theorem ring_closed:
  assumes "shard_partition model_id qt total_layers total_bytes n = Returns m" "2 \<le> n"
  shows "map rl_from_spark (sm_ring_links m) = [0..<n] \<and>
    map rl_to_spark (sm_ring_links m) = [1..<n] @ [0] \<and>
    map rl_boundary_layer (sm_ring_links m) = map ss_last_layer (sm_shards m) \<and>
    filter rl_wrap_around (sm_ring_links m) = [last (sm_ring_links m)] \<and>
    wrap_link m = Some (last (sm_ring_links m)) \<and>
    rl_boundary_layer (last (sm_ring_links m)) = total_layers - 1"
proof -
  let ?sh = "shard_at total_layers total_bytes n"
  note r = shard_partition_returns [OF assms(1)]
  define link where "link i = \<lparr> rl_from_spark = i, rl_to_spark = (if i + 1 = n then 0 else i + 1),
      rl_boundary_layer = ss_last_layer (?sh i), rl_wrap_around = (i + 1 = n) \<rparr>" for i
  have last_layer: "ss_last_layer (?sh (n - 1)) = total_layers - 1"
  proof -
    have "Suc (n - 1) = n" using r(1) by simp
    moreover have "first_of (unat total_layers) n n = unat total_layers" by (rule first_of_all [OF r(1)])
    ultimately show ?thesis using r(1,2) by (simp add: shard_at_def Let_def of_nat_diff)
  qed
  have links: "sm_ring_links m = map link [0..<n]"
  proof (rule nth_equalityI)
    show "length (sm_ring_links m) = length (map link [0..<n])"
      using assms(2) by (simp add: r(3,6) build_ring_links_def Let_def)
    fix i assume "i < length (sm_ring_links m)"
    then have i: "i < n" using assms(2) by (simp add: r(3,6) build_ring_links_def Let_def)
    have m0: "(i + 1) mod n = (if i + 1 = n then 0 else i + 1)" using i by auto
    have "sm_ring_links m ! i = \<lparr> rl_from_spark = ss_spark_index (?sh i), rl_to_spark = (i + 1) mod n,
        rl_boundary_layer = (if (i + 1) mod n = 0 then total_layers - 1 else ss_last_layer (?sh i)),
        rl_wrap_around = ((i + 1) mod n = 0) \<rparr>"
      using i assms(2) by (simp add: r(3,6) build_ring_links_def Let_def nth_enumerate_eq)
    moreover have "ss_spark_index (?sh i) = i" by (simp add: shard_at_def Let_def)
    ultimately show "sm_ring_links m ! i = map link [0..<n] ! i"
      using i last_layer by (auto simp: m0 link_def)
  qed
  obtain k where k: "n = Suc k" "0 < k" using assms(2) by (cases n) auto
  have body: "\<forall>i \<in> set [0..<k]. \<not> rl_wrap_around (link i)" by (simp add: link_def k)
  have lst: "sm_ring_links m = map link [0..<k] @ [link k]" by (simp add: links k)
  have wrap: "rl_wrap_around (link k)" by (simp add: link_def k)
  have flt: "filter rl_wrap_around (map link [0..<k]) = []" using body by (simp add: filter_empty_conv)
  have fnd: "wrap_link m = Some (link k)"
  proof -
    have "List.find P xs = (case filter P xs of [] \<Rightarrow> None | x # _ \<Rightarrow> Some x)" for P and xs :: "ring_link list"
      by (induction xs) simp_all
    then show ?thesis using flt wrap by (simp add: wrap_link_def lst)
  qed
  have to: "map rl_to_spark (sm_ring_links m) = [1..<n] @ [0]"
    by (rule nth_equalityI) (auto simp: links link_def nth_append k)
  show ?thesis
    using flt wrap fnd to last_layer
    by (simp add: lst) (simp add: links r(3) link_def k o_def)
qed

theorem ring_closed_witness:
  "\<exists>m. kimi_k2_thinking_ud_tq1 = Returns m \<and> map rl_to_spark (sm_ring_links m) = [1, 2, 0]"
proof -
  have "kimi_k2_thinking_ud_tq1 \<noteq> Panics"
    by (simp add: kimi_k2_thinking_ud_tq1_def shard_partition_panics_iff)
  then obtain m where m: "kimi_k2_thinking_ud_tq1 = Returns m" by (cases kimi_k2_thinking_ud_tq1) auto
  then have "map rl_to_spark (sm_ring_links m) = [1..<3] @ [0]"
    using ring_closed [of "''kimi-k2-thinking''" UdTq1_8 61 "245 * 1024 * 1024 * 1024" 3 m]
    unfolding kimi_k2_thinking_ud_tq1_def by simp
  then have "map rl_to_spark (sm_ring_links m) = [1, 2, 0]" by (simp add: upt_rec)
  then show ?thesis by (intro exI [of _ m] conjI m)
qed

end
