(* ===== verification/Slot_Allocation.thy ===== *)
theory Slot_Allocation
  imports Fleet_Prelude "HOL-Library.Char_ord" "HOL-Library.List_Lexorder"
    "HOL-Library.Product_Lexorder"
begin

text \<open>
  Slots of the fleet split over the active projects
  (\<^verbatim>\<open>ff-control/src/slot_allocation.rs\<close>): largest-remainder apportionment over \<open>u64\<close>
  arithmetic. Project names are ordered bytewise, as Rust orders strings.
\<close>

section \<open>Configuration\<close>

record slot_allocation_config =
  sac_default_weight :: u32
  sac_weights :: "(string, u32) btree"

definition weight_for :: "slot_allocation_config \<Rightarrow> string \<Rightarrow> u32" where
  "weight_for config project_id =
     (case bt_get (sac_weights config) project_id of
        Some w \<Rightarrow> w
      | None \<Rightarrow> sac_default_weight config)"

definition slot_allocation_default :: slot_allocation_config where
  "slot_allocation_default = \<lparr> sac_default_weight = 1, sac_weights = [] \<rparr>"

section \<open>Allocation\<close>

text \<open>\<open>.collect()\<close> into a \<open>BTreeMap\<close>: duplicates of a project collapse.\<close>

definition project_weights :: "slot_allocation_config \<Rightarrow> string list \<Rightarrow> (string, u64) btree" where
  "project_weights config active_projects =
     fold (\<lambda>p. bt_insert p (ucast (weight_for config p))) active_projects []"

text \<open>The first loop: floors, their sum and the remainders, in the order of the names.\<close>

type_synonym share_state = "u64 \<times> (string, u64) btree \<times> (u64 \<times> string) list"

definition floor_share :: "u64 \<Rightarrow> u64 \<Rightarrow> string \<times> u64 \<Rightarrow> share_state \<Rightarrow> share_state" where
  "floor_share total_slots total_weight entry st =
     (let (project, weight) = entry;
          (assigned, allocation, remainders) = st;
          exact = total_slots * weight;
          share = exact div total_weight
      in (assigned + share, bt_insert project share allocation,
          remainders @ [(exact mod total_weight, project)]))"

text \<open>The order of \<open>sort_by\<close>: larger remainders first, equal ones by name.\<close>

definition sort_remainders :: "(u64 \<times> string) list \<Rightarrow> (u64 \<times> string) list" where
  "sort_remainders rs = sort_key (\<lambda>r. (- int (unat (fst r)), snd r)) rs"

text \<open>The second loop hands out the leftover slots.\<close>

fun give_leftover :: "u64 \<Rightarrow> (u64 \<times> string) list \<Rightarrow> (string, u64) btree \<Rightarrow> (string, u64) btree outcome" where
  "give_leftover leftover [] allocation = Returns allocation"
| "give_leftover leftover ((remainder, project) # rs) allocation =
     (if leftover = 0 then Returns allocation
      else if remainder = 0 then give_leftover leftover rs allocation
      else case bt_get allocation project of
             None \<Rightarrow> Panics
           | Some n \<Rightarrow> give_leftover (leftover - 1) rs (bt_insert project (n + 1) allocation))"

definition allocate_slots ::
  "string list \<Rightarrow> u64 \<Rightarrow> slot_allocation_config \<Rightarrow> (string, u64) btree outcome" where
  "allocate_slots active_projects total_slots config =
     (let weights = project_weights config active_projects;
          total_weight = sum_list (map snd weights)
      in if total_weight = 0 then Returns (map (\<lambda>(p, _). (p, 0)) weights)
         else
           let (assigned, allocation, remainders) =
                 fold (floor_share total_slots total_weight) weights (0, [], []);
               leftover = total_slots - assigned
           in give_leftover leftover (sort_remainders remainders) allocation)"

section \<open>The weights\<close>

lemma unat_weight_u64: "unat (ucast (w :: u32) :: u64) = unat w"
  by (simp add: unsigned_ucast_eq take_bit_nat_eq_self_iff less_trans [OF unsigned_less])

lemma project_weights_wf: "bt_wf (project_weights config ps)"
  unfolding project_weights_def by (rule bt.invar_ins_all) (simp add: bt_wf_def)

lemma project_weights_get:
  "bt_get (project_weights config ps) p = (if p \<in> set ps then Some (ucast (weight_for config p)) else None)"
  unfolding project_weights_def by (subst bt.get_ins_all) (simp_all add: bt_wf_def)

lemma project_weights_keys: "set (map fst (project_weights config ps)) = set ps"
proof -
  have "p \<in> set (map fst (project_weights config ps)) \<longleftrightarrow> bt_get (project_weights config ps) p \<noteq> None" for p
    by (auto simp: bt_get_def map_of_eq_None_iff)
  then show ?thesis by (intro set_eqI) (simp add: project_weights_get)
qed

lemma bt_wf_distinct: "bt_wf m \<Longrightarrow> distinct (map fst m)"
  by (simp add: bt_wf_def strict_sorted_iff)

lemma project_weights_mem:
  "(p, w) \<in> set (project_weights config ps) \<longleftrightarrow> p \<in> set ps \<and> w = ucast (weight_for config p)"
  using project_weights_wf [of config ps] by (auto simp: project_weights_get simp flip: bt_get_mem split: if_splits)

text \<open>A sum over an ordered map as a sum over its keys.\<close>

lemma bt_sum_keys:
  assumes "bt_wf m" "\<And>p w. (p, w) \<in> set m \<Longrightarrow> f (p, w) = (g p :: nat)"
  shows "sum_list (map f m) = sum g (fst ` set m)"
proof -
  have "sum_list (map f m) = sum_list (map g (map fst m))"
    using assms(2) by (auto intro!: arg_cong [where f = sum_list])
  also have "\<dots> = sum g (set (map fst m))"
    using bt_wf_distinct [OF assms(1)] by (simp only: sum_list_distinct_conv_sum_set)
  finally show ?thesis by simp
qed

definition weight_total :: "slot_allocation_config \<Rightarrow> string list \<Rightarrow> nat" where
  "weight_total config ps = (\<Sum>p \<in> set ps. unat (weight_for config p))"

lemma weight_total_fits: "length ps \<le> 2 ^ 32 \<Longrightarrow> weight_total config ps < 2 ^ LENGTH(64)"
proof -
  assume len: "length ps \<le> 2 ^ 32"
  have "weight_total config ps \<le> (\<Sum>p \<in> set ps. 2 ^ 32 - 1)"
    unfolding weight_total_def
  proof (rule sum_mono)
    fix p
    have "unat (weight_for config p) < 2 ^ LENGTH(32)" by (rule unsigned_less)
    then show "unat (weight_for config p) \<le> 2 ^ 32 - 1" by simp
  qed
  also have "\<dots> \<le> 2 ^ 32 * (2 ^ 32 - 1)"
    using card_length [of ps] len by (simp add: mult_le_mono1)
  also have "\<dots> < 2 ^ LENGTH(64)" by simp
  finally show ?thesis .
qed

lemma weight_sum:
  assumes "length ps \<le> 2 ^ 32"
  shows "unat (sum_list (map snd (project_weights config ps))) = weight_total config ps"
proof -
  have "(\<Sum>e\<leftarrow>project_weights config ps. unat (snd e)) = weight_total config ps"
    unfolding weight_total_def project_weights_keys [of config ps, unfolded set_map, symmetric]
    by (rule bt_sum_keys [OF project_weights_wf]) (auto simp: project_weights_mem unat_weight_u64)
  then show ?thesis
    using unat_sum_list [of snd "project_weights config ps"] weight_total_fits [OF assms, of config] by simp
qed

lemma quota_floor_le: "w \<le> W \<Longrightarrow> T * w div W \<le> (T :: nat)"
  by (cases "W = 0") (simp_all add: div_le_mono2 [THEN order_trans] less_mult_imp_div_less mult_le_mono2 div_le_dividend
      order_trans [OF div_le_mono [of "T * w" "T * W" W]])

section \<open>The first loop\<close>

text \<open>Floor and remainder of the exact share of a weight \<open>w\<close> out of \<open>W\<close>.\<close>

definition quota_floor :: "nat \<Rightarrow> nat \<Rightarrow> nat \<Rightarrow> nat" where
  "quota_floor T W w = T * w div W"

definition quota_rem :: "nat \<Rightarrow> nat \<Rightarrow> nat \<Rightarrow> nat" where
  "quota_rem T W w = T * w mod W"

lemma floor_shares:
  fixes total_slots total_weight :: u64
  assumes "\<forall>e \<in> set ws. unat total_slots * unat (snd e) < 2 ^ 64" "bt_wf alloc"
  defines "T \<equiv> unat total_slots" and "W \<equiv> unat total_weight"
  shows "\<exists>alloc'. fold (floor_share total_slots total_weight) ws (assigned, alloc, rems) =
      (assigned + of_nat (\<Sum>e\<leftarrow>ws. quota_floor T W (unat (snd e))), alloc',
       rems @ map (\<lambda>e. (of_nat (quota_rem T W (unat (snd e))), fst e)) ws) \<and>
    bt_wf alloc' \<and>
    (\<forall>p. bt_get alloc' p = (case map_of (rev ws) p of
       Some w \<Rightarrow> Some (of_nat (quota_floor T W (unat w))) | None \<Rightarrow> bt_get alloc p))"
  using assms(1,2)
proof (induction ws arbitrary: assigned alloc rems)
  case (Cons e ws)
  obtain q v where e: "e = (q, v)" by (cases e)
  have fit: "unat total_slots * unat v < 2 ^ 64" using Cons.prems(1) by (simp add: e)
  have div: "total_slots * v div total_weight = of_nat (quota_floor T W (unat v))"
    "total_slots * v mod total_weight = of_nat (quota_rem T W (unat v))"
    using fit by (simp_all add: quota_floor_def quota_rem_def T_def W_def word_arith_nat_div word_arith_nat_mod
        unat_word_ariths)
  have step: "floor_share total_slots total_weight e (assigned, alloc, rems) =
      (assigned + of_nat (quota_floor T W (unat v)), bt_insert q (of_nat (quota_floor T W (unat v))) alloc,
       rems @ [(of_nat (quota_rem T W (unat v)), q)])"
    by (simp add: floor_share_def e div Let_def)
  from Cons.IH [of "bt_insert q (of_nat (quota_floor T W (unat v))) alloc"
      "assigned + of_nat (quota_floor T W (unat v))" "rems @ [(of_nat (quota_rem T W (unat v)), q)]"]
  obtain alloc' where IH: "fold (floor_share total_slots total_weight) ws
      (assigned + of_nat (quota_floor T W (unat v)), bt_insert q (of_nat (quota_floor T W (unat v))) alloc,
       rems @ [(of_nat (quota_rem T W (unat v)), q)]) =
      (assigned + of_nat (quota_floor T W (unat v)) + of_nat (\<Sum>e\<leftarrow>ws. quota_floor T W (unat (snd e))), alloc',
       (rems @ [(of_nat (quota_rem T W (unat v)), q)]) @ map (\<lambda>e. (of_nat (quota_rem T W (unat (snd e))), fst e)) ws)"
    "bt_wf alloc'" "\<And>p. bt_get alloc' p = (case map_of (rev ws) p of
       Some w \<Rightarrow> Some (of_nat (quota_floor T W (unat w)))
     | None \<Rightarrow> bt_get (bt_insert q (of_nat (quota_floor T W (unat v))) alloc) p)"
    using Cons.prems by auto
  have "bt_get alloc' p = (case map_of (rev (e # ws)) p of
      Some w \<Rightarrow> Some (of_nat (quota_floor T W (unat w))) | None \<Rightarrow> bt_get alloc p)" for p
    by (simp add: IH(3) e bt_get_insert [OF Cons.prems(2)] map_add_def split: option.splits)
  with IH(1,2) show ?case by (intro exI [of _ alloc']) (simp add: step, simp add: e ac_simps)
qed simp

section \<open>The second loop\<close>

lemma give_leftover_exact:
  assumes "bt_wf alloc" "distinct (map snd rs)" "k \<le> length rs" "k < 2 ^ 64"
    and "\<forall>e \<in> set (take k rs). fst e \<noteq> 0" "\<forall>e \<in> set rs. bt_get alloc (snd e) \<noteq> None"
  shows "\<exists>alloc'. give_leftover (of_nat k) rs alloc = Returns alloc' \<and> bt_wf alloc' \<and>
    (\<forall>p. bt_get alloc' p =
       (if p \<in> snd ` set (take k rs) then map_option (\<lambda>n. n + 1) (bt_get alloc p) else bt_get alloc p))"
  using assms
proof (induction rs arbitrary: k alloc)
  case (Cons e rs)
  obtain r q where e: "e = (r, q)" by (cases e)
  show ?case
  proof (cases k)
    case 0
    then show ?thesis using Cons.prems(1) by (auto simp: e)
  next
    case (Suc j)
    have r: "r \<noteq> 0" using Cons.prems(5) by (simp add: Suc e)
    obtain n where n: "bt_get alloc q = Some n" using Cons.prems(6) by (auto simp: e)
    let ?a = "bt_insert q (n + 1) alloc"
    have "unat (of_nat k :: u64) = k" using Cons.prems(4) by (simp add: unat_of_nat)
    then have k: "(of_nat k :: u64) \<noteq> 0" "(of_nat k - 1 :: u64) = of_nat j" using Suc by (metis nat.distinct(1) unat_0, simp)
    have get: "bt_get ?a p = (if p = q then Some (n + 1) else bt_get alloc p)" for p
      by (simp add: bt_get_insert [OF Cons.prems(1)])
    have "\<exists>alloc'. give_leftover (of_nat j) rs ?a = Returns alloc' \<and> bt_wf alloc' \<and>
      (\<forall>p. bt_get alloc' p =
         (if p \<in> snd ` set (take j rs) then map_option (\<lambda>n. n + 1) (bt_get ?a p) else bt_get ?a p))"
      using Cons.prems Suc by (intro Cons.IH) (auto simp: e get)
    then obtain alloc' where IH: "give_leftover (of_nat j) rs ?a = Returns alloc'" "bt_wf alloc'"
      "\<And>p. bt_get alloc' p = (if p \<in> snd ` set (take j rs) then map_option (\<lambda>n. n + 1) (bt_get ?a p) else bt_get ?a p)"
      by blast
    have q: "q \<notin> snd ` set (take j rs)" using Cons.prems(2) by (auto simp: e dest: in_set_takeD)
    have "bt_get alloc' p =
        (if p \<in> snd ` set (take k (e # rs)) then map_option (\<lambda>n. n + 1) (bt_get alloc p) else bt_get alloc p)" for p
      using q by (auto simp: IH(3) get Suc e n)
    with IH(1,2) show ?thesis by (simp add: e r k n)
  qed
qed simp

section \<open>Largest remainders\<close>

lemma sum_list_nonzero_bound:
  "\<forall>x \<in> set xs. f x \<le> (b :: nat) \<Longrightarrow> (\<Sum>x\<leftarrow>xs. f x) \<le> length (filter (\<lambda>x. f x \<noteq> 0) xs) * b"
  by (induction xs) auto

lemma take_nonzero:
  fixes f :: "'a \<Rightarrow> nat"
  assumes "\<And>x y. x \<in> set (take k xs) \<Longrightarrow> y \<in> set (drop k xs) \<Longrightarrow> f y \<le> f x"
    and "k \<le> length (filter (\<lambda>x. f x \<noteq> 0) xs)" "x \<in> set (take k xs)"
  shows "f x \<noteq> 0"
proof
  assume x: "f x = 0"
  have "filter (\<lambda>x. f x \<noteq> 0) (drop k xs) = []"
    using assms(1) [OF assms(3)] x by (auto simp: filter_empty_conv)
  then have "length (filter (\<lambda>x. f x \<noteq> 0) xs) = length (filter (\<lambda>x. f x \<noteq> 0) (take k xs))"
    by (metis append_Nil2 append_take_drop_id filter_append)
  also have "\<dots> < length (take k xs)" using assms(3) x by (intro length_filter_less) auto
  finally show False using assms(2) by simp
qed

text \<open>The leftover of the floors is covered by the non-zero remainders.\<close>

lemma leftover_count:
  fixes w :: "'a \<Rightarrow> nat" and T W :: nat
  assumes "0 < W" "(\<Sum>x\<leftarrow>xs. w x) = W"
  defines "F \<equiv> (\<Sum>x\<leftarrow>xs. quota_floor T W (w x))"
  shows "F \<le> T" "T - F \<le> length (filter (\<lambda>x. quota_rem T W (w x) \<noteq> 0) xs)"
proof -
  let ?R = "\<Sum>x\<leftarrow>xs. quota_rem T W (w x)" and ?m = "length (filter (\<lambda>x. quota_rem T W (w x) \<noteq> 0) xs)"
  have "F * W + ?R = (\<Sum>x\<leftarrow>xs. T * w x)"
    unfolding F_def by (induction xs) (simp_all add: quota_floor_def quota_rem_def algebra_simps)
  also have "\<dots> = T * W" using assms(2) by (simp add: sum_list_const_mult)
  finally have tot: "F * W + ?R = T * W" .
  have R: "?R \<le> ?m * W"
    using assms(1) by (intro sum_list_nonzero_bound) (simp add: quota_rem_def less_imp_le)
  show "F \<le> T" using tot assms(1) by (metis le_add1 mult_le_cancel2)
  have "T * W \<le> (F + ?m) * W" using tot R by (simp add: distrib_right)
  then have "T \<le> F + ?m" using assms(1) by simp
  then show "T - F \<le> ?m" by linarith
qed

text \<open>An allocation by largest remainders, as a specification.\<close>

definition hamilton ::
  "slot_allocation_config \<Rightarrow> string list \<Rightarrow> nat \<Rightarrow> (string \<Rightarrow> nat) \<Rightarrow> bool" where
  "hamilton config ps T a \<longleftrightarrow>
     (let W = weight_total config ps;
          q = (\<lambda>p. quota_floor T W (unat (weight_for config p)));
          r = (\<lambda>p. quota_rem T W (unat (weight_for config p)))
      in (\<Sum>p \<in> set ps. a p) = T \<and>
         (\<forall>p \<in> set ps. a p = q p \<or> a p = q p + 1 \<and> r p \<noteq> 0) \<and>
         (\<forall>p \<in> set ps. \<forall>p' \<in> set ps. a p = q p + 1 \<longrightarrow> a p' = q p' \<longrightarrow>
            r p' < r p \<or> r p' = r p \<and> p < p'))"

lemma insort_key_map: "insort_key f (g x) (map g ys) = map g (insort_key (\<lambda>x. f (g x)) x ys)"
  by (induction ys) simp_all

lemma sort_key_map: "sort_key f (map g xs) = map g (sort_key (\<lambda>x. f (g x)) xs)"
  by (induction xs) (simp_all add: insort_key_map)

lemma insort_key_agree:
  "f x = g x \<Longrightarrow> \<forall>y \<in> set ys. f y = g y \<Longrightarrow> insort_key f x ys = insort_key g x ys"
  by (induction ys) simp_all

lemma sort_key_agree: "\<forall>x \<in> set xs. f x = g x \<Longrightarrow> sort_key f xs = sort_key g xs"
proof (induction xs)
  case (Cons x xs)
  then have "sort_key f xs = sort_key g xs" by simp
  moreover have "insort_key f x (sort_key g xs) = insort_key g x (sort_key g xs)"
    using Cons.prems by (intro insort_key_agree) simp_all
  ultimately show ?case by simp
qed simp

text \<open>The projects in the order in which they claim a leftover slot.\<close>

definition claim_order :: "(string \<Rightarrow> nat) \<Rightarrow> string list \<Rightarrow> string list" where
  "claim_order r ns = sort_key (\<lambda>p. (- int (r p), p)) ns"

lemma claim_order_perm: "set (claim_order r ns) = set ns" "distinct (claim_order r ns) = distinct ns"
  "length (claim_order r ns) = length ns" "mset (claim_order r ns) = mset ns"
  by (simp_all add: claim_order_def distinct_sort)

lemma claim_order_before:
  assumes "p \<in> set (take k (claim_order r ns))" "p' \<in> set (drop k (claim_order r ns))"
  shows "r p' < r p \<or> r p' = r p \<and> p \<le> p'"
proof -
  let ?f = "\<lambda>p. (- int (r p), p)"
  have "sorted (map ?f (take k (claim_order r ns) @ drop k (claim_order r ns)))"
    unfolding append_take_drop_id claim_order_def by (rule sorted_sort_key)
  then have "?f p \<le> ?f p'" using assms unfolding map_append sorted_append by auto
  then show ?thesis by (auto simp: less_eq_prod_def less_prod_def)
qed

lemma sort_remainders_names:
  assumes "\<And>p. p \<in> set ns \<Longrightarrow> r p < 2 ^ 64"
  shows "sort_remainders (map (\<lambda>p. (of_nat (r p), p)) ns) = map (\<lambda>p. (of_nat (r p), p)) (claim_order r ns)"
proof -
  have "unat (of_nat (r p) :: u64) = r p" if "p \<in> set ns" for p using assms [OF that] by (simp add: unat_of_nat)
  then have "sort_key (\<lambda>p. (- int (unat (of_nat (r p) :: u64)), p)) ns = claim_order r ns"
    unfolding claim_order_def by (intro sort_key_agree) simp
  then show ?thesis by (simp add: sort_remainders_def sort_key_map)
qed

text \<open>The loops on the names, in natural numbers.\<close>

lemma allocate_slots_names:
  fixes total_slots :: u64 and config :: slot_allocation_config
  assumes "unat total_slots < 2 ^ 32" "length ps \<le> 2 ^ 32" "0 < weight_total config ps"
  defines "ns \<equiv> map fst (project_weights config ps)"
    and "q \<equiv> \<lambda>p. quota_floor (unat total_slots) (weight_total config ps) (unat (weight_for config p))"
    and "r \<equiv> \<lambda>p. quota_rem (unat total_slots) (weight_total config ps) (unat (weight_for config p))"
  shows "\<exists>alloc. bt_wf alloc \<and>
    (\<forall>p. bt_get alloc p = (if p \<in> set ps then Some (of_nat (q p)) else None)) \<and>
    allocate_slots ps total_slots config =
      give_leftover (of_nat (unat total_slots - (\<Sum>p\<leftarrow>ns. q p)))
        (map (\<lambda>p. (of_nat (r p), p)) (claim_order r ns)) alloc"
proof -
  define ws where "ws = project_weights config ps"
  have wt: "unat (weight_for config p) < 2 ^ 32" for p
    using unsigned_less [of "weight_for config p"] by simp
  have wu: "unat w = unat (weight_for config p)" if "(p, w) \<in> set ws" for p w
    using that by (auto simp: ws_def project_weights_mem unat_weight_u64)
  have Wt: "unat (sum_list (map snd ws)) = weight_total config ps"
    unfolding ws_def by (rule weight_sum [OF assms(2)])
  have fits: "unat total_slots * unat w < 2 ^ 64" if "(p, w) \<in> set ws" for p w
  proof -
    have "unat total_slots * unat w < 2 ^ 32 * 2 ^ 32"
      using assms(1) wt [of p] by (intro mult_strict_mono) (simp_all add: wu [OF that])
    then show ?thesis by simp
  qed
  have wf0: "bt_wf []" and fits': "\<forall>e \<in> set ws. unat total_slots * unat (snd e) < 2 ^ 64"
    using fits by (auto simp: bt_wf_def)
  obtain alloc where fl: "fold (floor_share total_slots (sum_list (map snd ws))) ws (0, [], []) =
      (of_nat (\<Sum>e\<leftarrow>ws. quota_floor (unat total_slots) (weight_total config ps) (unat (snd e))), alloc,
       map (\<lambda>e. (of_nat (quota_rem (unat total_slots) (weight_total config ps) (unat (snd e))), fst e)) ws)"
    and wf: "bt_wf alloc"
    and get: "\<And>p. bt_get alloc p = (case map_of (rev ws) p of
       Some w \<Rightarrow> Some (of_nat (quota_floor (unat total_slots) (weight_total config ps) (unat w))) | None \<Rightarrow> None)"
    using floor_shares [where ws = ws and total_weight = "sum_list (map snd ws)" and assigned = 0 and rems = "[]", OF fits' wf0]
    unfolding Wt bt_get_Nil by auto
  have qs: "map (\<lambda>e. quota_floor (unat total_slots) (weight_total config ps) (unat (snd e))) ws = map q ns"
    "map (\<lambda>e. (of_nat (quota_rem (unat total_slots) (weight_total config ps) (unat (snd e))) :: u64, fst e)) ws =
     map (\<lambda>p. (of_nat (r p), p)) ns"
    unfolding ns_def ws_def [symmetric] q_def r_def using wu by auto
  have "distinct (map fst ws)" unfolding ws_def by (rule bt_wf_distinct [OF project_weights_wf])
  then have "map_of (rev ws) = map_of ws" by (subst map_of_inject_set) (simp_all add: rev_map [symmetric])
  then have "map_of (rev ws) p = bt_get ws p" for p by (simp add: bt_get_def)
  then have get': "bt_get alloc p = (if p \<in> set ps then Some (of_nat (q p)) else None)" for p
    by (simp add: get q_def project_weights_get ws_def unat_weight_u64)
  have Wn: "(\<Sum>p\<leftarrow>ns. unat (weight_for config p)) = weight_total config ps"
    unfolding weight_total_def ns_def
    using sum_list_distinct_conv_sum_set [OF bt_wf_distinct [OF project_weights_wf]] project_weights_keys by metis
  have T: "(\<Sum>p\<leftarrow>ns. q p) \<le> unat total_slots"
    unfolding q_def by (rule leftover_count(1) [OF assms(3) Wn])
  have left: "total_slots - of_nat (\<Sum>p\<leftarrow>ns. q p) = of_nat (unat total_slots - (\<Sum>p\<leftarrow>ns. q p))"
    using T by (simp add: of_nat_diff)
  have rW: "r p < 2 ^ 64" for p
  proof -
    have "r p < weight_total config ps" using assms(3) by (simp add: r_def quota_rem_def)
    also have "\<dots> < 2 ^ 64" using weight_total_fits [OF assms(2)] by simp
    finally show ?thesis .
  qed
  have nz: "sum_list (map snd ws) \<noteq> 0" using Wt assms(3) by auto
  have "allocate_slots ps total_slots config =
      give_leftover (of_nat (unat total_slots - (\<Sum>p\<leftarrow>ns. q p)))
        (map (\<lambda>p. (of_nat (r p), p)) (claim_order r ns)) alloc"
    unfolding allocate_slots_def ws_def [symmetric] Let_def fl qs
    using nz by (simp add: left [simplified] sort_remainders_names [OF rW])
  with wf get' show ?thesis by blast
qed

text \<open>Floor and remainder of a project, the order of the claims and how many are met.\<close>

definition share_floor :: "slot_allocation_config \<Rightarrow> string list \<Rightarrow> nat \<Rightarrow> string \<Rightarrow> nat" where
  "share_floor config ps T p = quota_floor T (weight_total config ps) (unat (weight_for config p))"

definition share_rem :: "slot_allocation_config \<Rightarrow> string list \<Rightarrow> nat \<Rightarrow> string \<Rightarrow> nat" where
  "share_rem config ps T p = quota_rem T (weight_total config ps) (unat (weight_for config p))"

definition claims :: "slot_allocation_config \<Rightarrow> string list \<Rightarrow> nat \<Rightarrow> string list" where
  "claims config ps T = claim_order (share_rem config ps T) (map fst (project_weights config ps))"

definition claims_met :: "slot_allocation_config \<Rightarrow> string list \<Rightarrow> nat \<Rightarrow> nat" where
  "claims_met config ps T = T - (\<Sum>p\<leftarrow>map fst (project_weights config ps). share_floor config ps T p)"

lemma claims_perm: "set (claims config ps T) = set ps" "distinct (claims config ps T)"
  unfolding claims_def claim_order_perm
  by (rule project_weights_keys) (rule bt_wf_distinct [OF project_weights_wf])

lemma claims_met_facts:
  assumes "0 < weight_total config ps"
  shows "(\<Sum>p \<in> set ps. share_floor config ps T p) + claims_met config ps T = T"
    and "claims_met config ps T \<le> length (claims config ps T)"
    and "p \<in> set (take (claims_met config ps T) (claims config ps T)) \<Longrightarrow> share_rem config ps T p \<noteq> 0"
proof -
  let ?ns = "map fst (project_weights config ps)" and ?k = "claims_met config ps T" and ?cs = "claims config ps T"
  have ns: "set ?ns = set ps" "distinct ?ns"
    by (rule project_weights_keys) (rule bt_wf_distinct [OF project_weights_wf])
  have Wn: "(\<Sum>p\<leftarrow>?ns. unat (weight_for config p)) = weight_total config ps"
    unfolding weight_total_def using ns by (metis sum_list_distinct_conv_sum_set)
  note lc = leftover_count [OF assms Wn, of T, folded share_floor_def share_rem_def]
  have "(\<Sum>p \<in> set ps. share_floor config ps T p) = (\<Sum>p\<leftarrow>?ns. share_floor config ps T p)"
    using ns by (metis sum_list_distinct_conv_sum_set)
  then show "(\<Sum>p \<in> set ps. share_floor config ps T p) + ?k = T" using lc(1) by (simp add: claims_met_def)
  have "mset ?cs = mset ?ns" unfolding claims_def by (rule claim_order_perm)
  then have len: "length (filter P ?cs) = length (filter P ?ns)" for P by (metis mset_filter size_mset)
  have m: "?k \<le> length (filter (\<lambda>p. share_rem config ps T p \<noteq> 0) ?cs)"
    unfolding len using lc(2) by (simp add: claims_met_def)
  then show "?k \<le> length ?cs" by (rule le_trans) (rule length_filter_le)
  show "share_rem config ps T p \<noteq> 0" if "p \<in> set (take ?k ?cs)"
  proof (rule take_nonzero [OF _ m that])
  qed (use claim_order_before [of _ ?k "share_rem config ps T" ?ns] in \<open>fastforce simp: claims_def\<close>)
qed

text \<open>Floors plus one slot for every claim that is met are the apportionment.\<close>

lemma claims_hamilton:
  assumes "0 < weight_total config ps"
    and "\<And>p. p \<in> set ps \<Longrightarrow> a p = share_floor config ps T p +
      (if p \<in> set (take (claims_met config ps T) (claims config ps T)) then 1 else 0)"
  shows "hamilton config ps T a"
proof -
  let ?k = "claims_met config ps T" and ?cs = "claims config ps T"
  note f = claims_met_facts [OF assms(1), where T = T]
  have "(\<Sum>p \<in> set ps. a p) = (\<Sum>p \<in> set ps. share_floor config ps T p) + card (set ps \<inter> set (take ?k ?cs))"
    by (simp add: assms(2) sum.distrib sum.If_cases Int_commute)
  also have "set ps \<inter> set (take ?k ?cs) = set (take ?k ?cs)" using claims_perm(1) by (auto dest: in_set_takeD)
  also have "card (set (take ?k ?cs)) = ?k"
    using distinct_card [OF distinct_take [OF claims_perm(2)]] f(2) by (simp add: min_absorb2)
  finally have sum: "(\<Sum>p \<in> set ps. a p) = T" using f(1) by simp
  have order: "share_rem config ps T p' < share_rem config ps T p \<or>
      share_rem config ps T p' = share_rem config ps T p \<and> p < p'"
    if "p \<in> set (take ?k ?cs)" "p' \<in> set ps" "p' \<notin> set (take ?k ?cs)" for p p'
  proof -
    have "p' \<in> set (drop ?k ?cs)"
      using that(2,3) claims_perm(1) append_take_drop_id [of ?k ?cs] by (metis Un_iff set_append)
    moreover have "p \<noteq> p'" using that(1,3) by blast
    ultimately show ?thesis
      using claim_order_before [OF that(1) [unfolded claims_def], of p'] by (auto simp: claims_def order_less_le)
  qed
  show ?thesis
    unfolding hamilton_def Let_def share_floor_def [symmetric] share_rem_def [symmetric]
    using sum assms(2) f(3) order by (auto split: if_splits)
qed

lemma share_floor_le: "p \<in> set ps \<Longrightarrow> share_floor config ps T p \<le> T"
  unfolding share_floor_def quota_floor_def weight_total_def
  by (intro quota_floor_le member_le_sum) simp_all

lemma share_rem_word:
  assumes "length ps \<le> 2 ^ 32" "0 < weight_total config ps"
  shows "unat (of_nat (share_rem config ps T p) :: u64) = share_rem config ps T p"
proof -
  have "share_rem config ps T p < weight_total config ps" using assms(2) by (simp add: share_rem_def quota_rem_def)
  also have "\<dots> < 2 ^ 64" using weight_total_fits [OF assms(1), of config] by simp
  finally show ?thesis by (simp add: unat_of_nat)
qed

lemma allocate_slots_hamilton:
  assumes "unat total_slots < 2 ^ 32" "length ps \<le> 2 ^ 32" "0 < weight_total config ps"
  shows "\<exists>alloc. allocate_slots ps total_slots config = Returns alloc \<and> bt_wf alloc \<and>
    (\<forall>p. bt_get alloc p \<noteq> None \<longleftrightarrow> p \<in> set ps) \<and>
    hamilton config ps (unat total_slots) (\<lambda>p. unat (the (bt_get alloc p)))"
proof -
  let ?T = "unat total_slots"
  let ?k = "claims_met config ps ?T" and ?cs = "claims config ps ?T"
  let ?rs = "map (\<lambda>p. (of_nat (share_rem config ps ?T p) :: u64, p)) ?cs"
  note f = claims_met_facts [OF assms(3), where T = ?T]
  obtain alloc where al: "bt_wf alloc"
    "\<And>p. bt_get alloc p = (if p \<in> set ps then Some (of_nat (share_floor config ps ?T p)) else None)"
    "allocate_slots ps total_slots config = give_leftover (of_nat ?k) ?rs alloc"
    using allocate_slots_names [OF assms]
    unfolding share_floor_def [symmetric] share_rem_def [symmetric] claims_def claims_met_def by blast
  have k: "?k < 2 ^ 64" using assms(1) f(1) by simp
  have "(of_nat (share_rem config ps ?T p) :: u64) \<noteq> 0" if "p \<in> set (take ?k ?cs)" for p
    using f(3) [OF that] share_rem_word [OF assms(2,3), of ?T p] by (metis unat_0)
  then have nz: "\<forall>e \<in> set (take ?k ?rs). fst e \<noteq> 0" by (simp add: take_map)
  have "distinct (map snd ?rs)" "?k \<le> length ?rs" "\<forall>e \<in> set ?rs. bt_get alloc (snd e) \<noteq> None"
    using claims_perm [of config ps ?T] f(2) by (auto simp: o_def al(2))
  from give_leftover_exact [OF al(1) this(1,2) k nz this(3)] obtain alloc' where
    a: "allocate_slots ps total_slots config = Returns alloc'" "bt_wf alloc'"
    "\<And>p. bt_get alloc' p = (if p \<in> set (take ?k ?cs) then map_option (\<lambda>n. n + 1) (bt_get alloc p) else bt_get alloc p)"
    by (auto simp: al(3) take_map image_image)
  have "unat (the (bt_get alloc' p)) = share_floor config ps ?T p + (if p \<in> set (take ?k ?cs) then 1 else 0)"
    if "p \<in> set ps" for p
    using that assms(1) share_floor_le [OF that, of config ?T] by (auto simp: a(3) al(2) unat_of_nat unat_word_ariths)
  from claims_hamilton [OF assms(3) this] have "hamilton config ps ?T (\<lambda>p. unat (the (bt_get alloc' p)))" .
  moreover have "bt_get alloc' p \<noteq> None \<longleftrightarrow> p \<in> set ps" for p by (simp add: a(3) al(2))
  ultimately show ?thesis using a(1,2) by blast
qed

text \<open>
  C23: With fewer than \<open>2 ^ 32\<close> slots and projects and a positive total weight, the allocation
  returns (the \<open>expect\<close> never fails), lists exactly the active projects, and is the largest
  remainder apportionment: the slots add up to the total, every project gets the floor of
  its exact share or one more, and the extra slots go to the larger remainders, ties to the
  smaller name.
\<close>

theorem allocate_slots_exact:
  assumes "unat total_slots < 2 ^ 32" "length active_projects \<le> 2 ^ 32"
    and "0 < weight_total config active_projects"
  shows "\<exists>alloc. allocate_slots active_projects total_slots config = Returns alloc \<and> bt_wf alloc \<and>
    (\<forall>p. bt_get alloc p \<noteq> None \<longleftrightarrow> p \<in> set active_projects) \<and>
    hamilton config active_projects (unat total_slots) (\<lambda>p. unat (the (bt_get alloc p)))"
  by (rule allocate_slots_hamilton [OF assms])

theorem allocate_slots_exact_witness:
  "\<exists>alloc. allocate_slots [''gamma'', ''alpha'', ''beta''] 10 slot_allocation_default = Returns alloc \<and>
     hamilton slot_allocation_default [''gamma'', ''alpha'', ''beta''] 10 (\<lambda>p. unat (the (bt_get alloc p)))"
proof -
  have "0 < weight_total slot_allocation_default [''gamma'', ''alpha'', ''beta'']"
    by (simp add: weight_total_def weight_for_def slot_allocation_default_def)
  from allocate_slots_exact [OF _ _ this, of 10] show ?thesis by auto
qed

text \<open>With no weight at all every active project is listed with no slot.\<close>

lemma allocate_slots_no_weight:
  assumes "length ps \<le> 2 ^ 32" "weight_total config ps = 0"
  shows "allocate_slots ps total_slots config = Returns (map (\<lambda>(p, _). (p, 0)) (project_weights config ps))"
proof -
  have "sum_list (map snd (project_weights config ps)) = 0"
    using weight_sum [OF assms(1), of config] assms(2) by (simp add: unat_eq_0)
  then show ?thesis by (simp add: allocate_slots_def Let_def)
qed

text \<open>
  Beyond that bound the product \<open>total * weight\<close> wraps and the slots no longer add up: one
  project of weight 2 out of \<open>2 ^ 63\<close> slots gets none.
\<close>

lemma allocate_slots_wraps:
  "allocate_slots [''alpha''] (2 ^ 63) \<lparr> sac_default_weight = 2, sac_weights = [] \<rparr> = Returns [(''alpha'', 0)]"
  by (simp add: allocate_slots_def project_weights_def weight_for_def floor_share_def sort_remainders_def Let_def)

end
