(* ===== verification/Quarantine.thy ===== *)
theory Quarantine
  imports Fleet_Prelude
begin

text \<open>
  Quarantine of flaky nodes (\<^verbatim>\<open>ff-core/src/quarantine.rs\<close>). Every clock read of a call is an
  argument; the calls themselves run one after another. The manager is shown to refine a
  log of failures per node: a node is quarantined exactly when the failures it has had since
  its last clean slate reach the threshold within the window.
\<close>

section \<open>Policy, entries, trackers\<close>

record quarantine_policy =
  qp_failure_threshold :: u32
  qp_window :: std_duration
  qp_default_quarantine_duration :: std_duration

definition quarantine_policy_default :: quarantine_policy where
  "quarantine_policy_default =
     \<lparr> qp_failure_threshold = 5, qp_window = 5 * 60 * 1000000000,
       qp_default_quarantine_duration = 10 * 60 * 1000000000 \<rparr>"

record quarantine_entry =
  qe_node :: string
  qe_reason :: string
  qe_quarantined_at :: datetime
  qe_release_at :: datetime
  qe_auto :: bool

definition qe_is_expired :: "datetime \<Rightarrow> quarantine_entry \<Rightarrow> bool" where
  "qe_is_expired now e \<longleftrightarrow> now \<ge> qe_release_at e"

definition qe_remaining :: "datetime \<Rightarrow> quarantine_entry \<Rightarrow> std_duration" where
  "qe_remaining now e =
     (let delta = qe_release_at e - now
      in if trunc_div delta 1000000 \<le> 0 then 0 else nat delta)"

record failure_tracker =
  ft_timestamps :: "datetime list"

definition tracker_default :: failure_tracker where
  "tracker_default = \<lparr> ft_timestamps = [] \<rparr>"

definition window_or :: "int \<Rightarrow> std_duration \<Rightarrow> duration" where
  "window_or fallback_secs d = (case duration_from_std d of Some x \<Rightarrow> x | None \<Rightarrow> secs fallback_secs)"

definition ft_record :: "datetime \<Rightarrow> std_duration \<Rightarrow> failure_tracker \<Rightarrow> failure_tracker outcome" where
  "ft_record now window tr =
     (case datetime_minus now (window_or 300 window) of
        Panics \<Rightarrow> Panics
      | Returns cutoff \<Rightarrow>
          Returns (tr\<lparr> ft_timestamps := filter (\<lambda>t. t \<ge> cutoff) (ft_timestamps tr @ [now]) \<rparr>))"

definition ft_count :: "failure_tracker \<Rightarrow> u32" where
  "ft_count tr = of_nat (length (ft_timestamps tr))"

definition ft_clear :: "failure_tracker \<Rightarrow> failure_tracker" where
  "ft_clear tr = tr\<lparr> ft_timestamps := [] \<rparr>"

section \<open>The manager\<close>

record node_quarantine =
  nq_policy :: quarantine_policy
  nq_quarantined :: "(string, quarantine_entry) hmap"
  nq_trackers :: "(string, failure_tracker) hmap"

definition nq_new :: "quarantine_policy \<Rightarrow> node_quarantine" where
  "nq_new policy = \<lparr> nq_policy = policy, nq_quarantined = [], nq_trackers = [] \<rparr>"

definition nq_with_defaults :: node_quarantine where
  "nq_with_defaults = nq_new quarantine_policy_default"

definition quarantine_node ::
  "datetime \<Rightarrow> string \<Rightarrow> string \<Rightarrow> std_duration \<Rightarrow> node_quarantine \<Rightarrow> node_quarantine outcome" where
  "quarantine_node now name reason d q =
     (case datetime_plus now (window_or 600 d) of
        Panics \<Rightarrow> Panics
      | Returns release_at \<Rightarrow>
          Returns (q\<lparr> nq_quarantined := hm_insert name
            \<lparr> qe_node = name, qe_reason = reason, qe_quarantined_at = now,
              qe_release_at = release_at, qe_auto = False \<rparr> (nq_quarantined q) \<rparr>))"

definition nq_release_node :: "string \<Rightarrow> node_quarantine \<Rightarrow> bool \<times> node_quarantine" where
  "nq_release_node name q =
     (let removed = hm_contains (nq_quarantined q) name;
          q1 = q\<lparr> nq_quarantined := hm_remove name (nq_quarantined q) \<rparr>
      in if removed then (True, q1\<lparr> nq_trackers := hm_remove name (nq_trackers q1) \<rparr>) else (False, q1))"

text \<open>The clock is read before the write lock is taken (\<open>now1\<close>) and again under it (\<open>now2\<close>).\<close>

definition is_quarantined ::
  "datetime \<Rightarrow> datetime \<Rightarrow> string \<Rightarrow> node_quarantine \<Rightarrow> bool \<times> node_quarantine" where
  "is_quarantined now1 now2 name q =
     (case hm_get (nq_quarantined q) name of
        None \<Rightarrow> (False, q)
      | Some entry \<Rightarrow>
          if \<not> qe_is_expired now1 entry then (True, q)
          else if qe_is_expired now2 entry
          then (False, q\<lparr> nq_quarantined := hm_remove name (nq_quarantined q),
                          nq_trackers := hm_remove name (nq_trackers q) \<rparr>)
          else (True, q))"

definition nq_record_failure ::
  "datetime \<Rightarrow> datetime \<Rightarrow> datetime \<Rightarrow> string \<Rightarrow> node_quarantine \<Rightarrow> (bool \<times> node_quarantine) outcome" where
  "nq_record_failure now1 now2 now name q =
     (let (held, q1) = is_quarantined now1 now2 name q
      in if held then Returns (False, q1)
         else
           let tr = (case hm_get (nq_trackers q1) name of Some tr \<Rightarrow> tr | None \<Rightarrow> tracker_default)
           in case ft_record now (qp_window (nq_policy q1)) tr of
                Panics \<Rightarrow> Panics
              | Returns tr' \<Rightarrow>
                  if ft_count tr' \<ge> qp_failure_threshold (nq_policy q1)
                  then case datetime_plus now (window_or 600 (qp_default_quarantine_duration (nq_policy q1))) of
                         Panics \<Rightarrow> Panics
                       | Returns release_at \<Rightarrow>
                           let reason = ''auto: '' @ show_nat (unat (ft_count tr')) @ '' failures in '' @
                                 show_nat (qp_window (nq_policy q1) div 1000000000) @ ''s window''
                           in Returns (True, q1
                             \<lparr> nq_trackers := hm_insert name (ft_clear tr') (nq_trackers q1),
                               nq_quarantined := hm_insert name
                                 \<lparr> qe_node = name, qe_reason = reason, qe_quarantined_at = now,
                                   qe_release_at = release_at, qe_auto = True \<rparr> (nq_quarantined q1) \<rparr>)
                  else Returns (False, q1\<lparr> nq_trackers := hm_insert name tr' (nq_trackers q1) \<rparr>))"

definition nq_record_success :: "string \<Rightarrow> node_quarantine \<Rightarrow> node_quarantine" where
  "nq_record_success name q = q\<lparr> nq_trackers := hm_modify name ft_clear (nq_trackers q) \<rparr>"

definition prune_expired ::
  "((string \<times> quarantine_entry) list \<Rightarrow> (string \<times> quarantine_entry) list) \<Rightarrow>
   (string \<Rightarrow> datetime) \<Rightarrow> node_quarantine \<Rightarrow> node_quarantine" where
  "prune_expired it clock q =
     (let expired = map fst (filter (\<lambda>(name, e). qe_is_expired (clock name) e) (it (nq_quarantined q)))
      in q\<lparr> nq_quarantined := fold hm_remove expired (nq_quarantined q),
            nq_trackers := fold hm_remove expired (nq_trackers q) \<rparr>)"

definition list_quarantined ::
  "((string \<times> quarantine_entry) list \<Rightarrow> (string \<times> quarantine_entry) list) \<Rightarrow>
   (string \<Rightarrow> datetime) \<Rightarrow> node_quarantine \<Rightarrow> quarantine_entry list \<times> node_quarantine" where
  "list_quarantined it clock q =
     (let q1 = prune_expired it clock q in (map snd (it (nq_quarantined q1)), q1))"

definition quarantined_count ::
  "((string \<times> quarantine_entry) list \<Rightarrow> (string \<times> quarantine_entry) list) \<Rightarrow>
   (string \<Rightarrow> datetime) \<Rightarrow> node_quarantine \<Rightarrow> nat \<times> node_quarantine" where
  "quarantined_count it clock q =
     (let q1 = prune_expired it clock q in (length (nq_quarantined q1), q1))"

definition get_quarantine_info ::
  "datetime \<Rightarrow> datetime \<Rightarrow> string \<Rightarrow> node_quarantine \<Rightarrow> quarantine_entry option \<times> node_quarantine" where
  "get_quarantine_info now1 now2 name q =
     (let (held, q1) = is_quarantined now1 now2 name q
      in (if held then hm_get (nq_quarantined q1) name else None, q1))"

section \<open>The log of one node\<close>

text \<open>
  What a reader of the policy would keep for one node: until when it is held, and every
  failure since its last clean slate, however old.
\<close>

record node_log =
  nl_until :: "datetime option"
  nl_failures :: "datetime list"

definition log_expire :: "datetime \<Rightarrow> node_log \<Rightarrow> node_log" where
  "log_expire now s =
     (case nl_until s of Some u \<Rightarrow> if u \<le> now then \<lparr> nl_until = None, nl_failures = [] \<rparr> else s | None \<Rightarrow> s)"

definition log_fail :: "quarantine_policy \<Rightarrow> datetime \<Rightarrow> node_log \<Rightarrow> bool \<times> node_log" where
  "log_fail policy now s =
     (let w = window_or 300 (qp_window policy);
          fs = nl_failures s @ [now]
      in if unat (qp_failure_threshold policy) \<le> length (filter (\<lambda>t. now - w \<le> t) fs)
         then (True, \<lparr> nl_until = Some (now + window_or 600 (qp_default_quarantine_duration policy)), nl_failures = [] \<rparr>)
         else (False, s\<lparr> nl_failures := fs \<rparr>))"

datatype quarantine_op =
    QFail string datetime datetime datetime
  | QOk string
  | QManual string string std_duration datetime
  | QRelease string
  | QCheck string datetime datetime
  | QPrune "string \<Rightarrow> datetime"

fun log_op :: "quarantine_policy \<Rightarrow> string \<Rightarrow> quarantine_op \<Rightarrow> node_log \<Rightarrow> bool list \<times> node_log" where
  "log_op policy n (QFail name t1 t2 t) s =
     (if name \<noteq> n then ([], s)
      else let s1 = log_expire t1 s
           in if nl_until s1 \<noteq> None then ([False], s1)
              else let (b, s2) = log_fail policy t s1 in ([b], s2))"
| "log_op policy n (QOk name) s = ([], if name = n then s\<lparr> nl_failures := [] \<rparr> else s)"
| "log_op policy n (QManual name reason d t) s =
     ([], if name = n then s\<lparr> nl_until := Some (t + window_or 600 d) \<rparr> else s)"
| "log_op policy n (QRelease name) s =
     (if name = n
      then ([nl_until s \<noteq> None], if nl_until s \<noteq> None then \<lparr> nl_until = None, nl_failures = [] \<rparr> else s)
      else ([], s))"
| "log_op policy n (QCheck name t1 t2) s =
     (if name = n then ([nl_until (log_expire t1 s) \<noteq> None], log_expire t1 s) else ([], s))"
| "log_op policy n (QPrune clock) s = ([], log_expire (clock n) s)"

fun log_ops :: "quarantine_policy \<Rightarrow> string \<Rightarrow> quarantine_op list \<Rightarrow> node_log \<Rightarrow> bool list" where
  "log_ops policy n [] s = []"
| "log_ops policy n (p # ps) s = (let (bs, s') = log_op policy n p s in bs @ log_ops policy n ps s')"

text \<open>The same operations on the manager, with the answers that concern each node.\<close>

fun quarantine_op_run ::
  "((string \<times> quarantine_entry) list \<Rightarrow> (string \<times> quarantine_entry) list) \<Rightarrow>
   quarantine_op \<Rightarrow> node_quarantine \<Rightarrow> ((string \<times> bool) list \<times> node_quarantine) outcome" where
  "quarantine_op_run it (QFail name t1 t2 t) q =
     (case nq_record_failure t1 t2 t name q of Panics \<Rightarrow> Panics | Returns (b, q') \<Rightarrow> Returns ([(name, b)], q'))"
| "quarantine_op_run it (QOk name) q = Returns ([], nq_record_success name q)"
| "quarantine_op_run it (QManual name reason d t) q =
     (case quarantine_node t name reason d q of Panics \<Rightarrow> Panics | Returns q' \<Rightarrow> Returns ([], q'))"
| "quarantine_op_run it (QRelease name) q = (let (b, q') = nq_release_node name q in Returns ([(name, b)], q'))"
| "quarantine_op_run it (QCheck name t1 t2) q = (let (b, q') = is_quarantined t1 t2 name q in Returns ([(name, b)], q'))"
| "quarantine_op_run it (QPrune clock) q = Returns ([], prune_expired it clock q)"

fun quarantine_run ::
  "((string \<times> quarantine_entry) list \<Rightarrow> (string \<times> quarantine_entry) list) \<Rightarrow>
   quarantine_op list \<Rightarrow> node_quarantine \<Rightarrow> ((string \<times> bool) list \<times> node_quarantine) outcome" where
  "quarantine_run it [] q = Returns ([], q)"
| "quarantine_run it (p # ps) q =
     (case quarantine_op_run it p q of
        Panics \<Rightarrow> Panics
      | Returns (bs, q1) \<Rightarrow>
          (case quarantine_run it ps q1 of Panics \<Rightarrow> Panics | Returns (bs', q2) \<Rightarrow> Returns (bs @ bs', q2)))"

section \<open>The simulation\<close>

definition tracked :: "node_quarantine \<Rightarrow> string \<Rightarrow> datetime list" where
  "tracked q n = (case hm_get (nq_trackers q) n of None \<Rightarrow> [] | Some tr \<Rightarrow> ft_timestamps tr)"

definition held_until :: "node_quarantine \<Rightarrow> string \<Rightarrow> datetime option" where
  "held_until q n = map_option qe_release_at (hm_get (nq_quarantined q) n)"

text \<open>
  The tracker holds the failures of the log from some instant on, and never more of them
  than the threshold allows, so counting them in 32 bits is exact.
\<close>

definition log_sim :: "datetime \<Rightarrow> node_quarantine \<Rightarrow> string \<Rightarrow> node_log \<Rightarrow> bool" where
  "log_sim c q n s \<longleftrightarrow>
     held_until q n = nl_until s \<and> tracked q n = filter (\<lambda>t. c \<le> t) (nl_failures s) \<and>
     length (tracked q n) \<le> unat (qp_failure_threshold (nq_policy q)) - 1"

lemma is_quarantined_spec:
  assumes "is_quarantined t1 t2 name q = (b, q')" "t1 \<le> t2" "log_sim c q n s"
  shows "log_sim c q' n (if name = n then log_expire t1 s else s)" "nq_policy q' = nq_policy q"
    and "name = n \<Longrightarrow> b \<longleftrightarrow> nl_until (log_expire t1 s) \<noteq> None"
  using assms
  by (cases "nl_until s"; auto simp: is_quarantined_def log_sim_def held_until_def tracked_def log_expire_def qe_is_expired_def
      split: option.splits if_splits)+

lemma nq_record_failure_other:
  assumes "nq_record_failure t1 t2 t name q = Returns (b, q')" "name \<noteq> n" "t1 \<le> t2" "log_sim c q n s"
  shows "log_sim c q' n s" "nq_policy q' = nq_policy q"
proof -
  obtain held q1 where q1: "is_quarantined t1 t2 name q = (held, q1)" by force
  note sim = is_quarantined_spec [OF q1 assms(3,4)]
  have "log_sim c q1 n s" "nq_policy q1 = nq_policy q" using sim assms(2) by simp_all
  then show "log_sim c q' n s" "nq_policy q' = nq_policy q"
    using assms(1,2) unfolding nq_record_failure_def q1 prod.case Let_def
    by (auto simp: log_sim_def held_until_def tracked_def split: if_splits outcome.splits)
qed

lemma window_or_nonneg: "0 \<le> k \<Longrightarrow> 0 \<le> window_or k d"
  by (simp add: window_or_def duration_from_std_def)

text \<open>One failure of the node itself, once its quarantine has been looked at.\<close>

lemma log_fail_sim:
  assumes sim: "log_sim c q n s" and c: "c \<le> t - window_or 300 (qp_window (nq_policy q))"
    and u: "nl_until s = None"
    and tr': "ft_record t (qp_window (nq_policy q))
      (case hm_get (nq_trackers q) n of Some tr \<Rightarrow> tr | None \<Rightarrow> tracker_default) = Returns tr'"
  shows "ft_timestamps tr' = filter (\<lambda>x. t - window_or 300 (qp_window (nq_policy q)) \<le> x) (nl_failures s @ [t])"
    and "ft_count tr' \<ge> qp_failure_threshold (nq_policy q) \<longleftrightarrow> fst (log_fail (nq_policy q) t s)"
    and "\<not> fst (log_fail (nq_policy q) t s) \<Longrightarrow>
      length (ft_timestamps tr') \<le> unat (qp_failure_threshold (nq_policy q)) - 1"
proof -
  let ?w = "window_or 300 (qp_window (nq_policy q))" and ?thr = "unat (qp_failure_threshold (nq_policy q))"
  have old: "ft_timestamps (case hm_get (nq_trackers q) n of Some tr \<Rightarrow> tr | None \<Rightarrow> tracker_default) = tracked q n"
    by (simp add: tracked_def tracker_default_def split: option.splits)
  have "ft_timestamps tr' = filter (\<lambda>x. t - ?w \<le> x) (tracked q n @ [t])"
    using tr' by (auto simp: ft_record_def datetime_minus_def old split: if_splits)
  moreover have "filter (\<lambda>x. t - ?w \<le> x) (filter (\<lambda>x. c \<le> x) xs) = filter (\<lambda>x. t - ?w \<le> x) xs" for xs
    using c by (auto simp: filter_filter intro: filter_cong)
  ultimately show ts: "ft_timestamps tr' = filter (\<lambda>x. t - ?w \<le> x) (nl_failures s @ [t])"
    using sim by (simp add: log_sim_def)
  have "length (ft_timestamps tr') \<le> length (tracked q n) + 1"
    using \<open>ft_timestamps tr' = filter (\<lambda>x. t - ?w \<le> x) (tracked q n @ [t])\<close>
    by (metis length_append_singleton length_filter_le Suc_eq_plus1)
  also have "\<dots> \<le> max ?thr 1" using sim unfolding log_sim_def by linarith
  also have "\<dots> < 2 ^ 32" using unsigned_less [of "qp_failure_threshold (nq_policy q)"] by simp
  finally have "unat (ft_count tr') = length (ft_timestamps tr')" by (simp add: ft_count_def unat_of_nat)
  then show iff: "ft_count tr' \<ge> qp_failure_threshold (nq_policy q) \<longleftrightarrow> fst (log_fail (nq_policy q) t s)"
    by (simp add: word_le_nat_alt log_fail_def Let_def ts)
  show "length (ft_timestamps tr') \<le> ?thr - 1" if "\<not> fst (log_fail (nq_policy q) t s)"
    using that by (simp add: log_fail_def Let_def ts split: if_splits)
qed

lemma nq_record_failure_own:
  assumes r: "nq_record_failure t1 t2 t n q = Returns (b, q')" and t: "t1 \<le> t2" and sim: "log_sim c q n s"
    and c: "c \<le> t - window_or 300 (qp_window (nq_policy q))"
  shows "\<exists>s' c'. log_op (nq_policy q) n (QFail n t1 t2 t) s = ([b], s') \<and> log_sim c' q' n s' \<and>
    nq_policy q' = nq_policy q \<and> (c' = c \<or> c' = t - window_or 300 (qp_window (nq_policy q)))"
proof -
  let ?w = "window_or 300 (qp_window (nq_policy q))"
  obtain held q1 where q1: "is_quarantined t1 t2 n q = (held, q1)" by force
  define s1 where "s1 = log_expire t1 s"
  have s1: "log_sim c q1 n s1" "nq_policy q1 = nq_policy q" "held \<longleftrightarrow> nl_until s1 \<noteq> None"
    using is_quarantined_spec [OF q1 t sim] by (simp_all add: s1_def)
  show ?thesis
  proof (cases held)
    case True
    then have "b = False" "q' = q1" using r by (auto simp: nq_record_failure_def q1)
    moreover have "log_op (nq_policy q) n (QFail n t1 t2 t) s = ([False], s1)"
      using True s1(3) by (simp add: s1_def Let_def)
    ultimately show ?thesis using s1 by blast
  next
    case False
    then have u: "nl_until s1 = None" using s1(3) by simp
    obtain tr' where tr': "ft_record t (qp_window (nq_policy q1))
        (case hm_get (nq_trackers q1) n of Some tr \<Rightarrow> tr | None \<Rightarrow> tracker_default) = Returns tr'"
      using r False by (auto simp: nq_record_failure_def q1 Let_def split: outcome.splits)
    note f = log_fail_sim [OF s1(1) c [folded s1(2)] u tr', unfolded s1(2)]
    have op: "log_op (nq_policy q) n (QFail n t1 t2 t) s = (let (b, s2) = log_fail (nq_policy q) t s1 in ([b], s2))"
      using u by (simp add: s1_def Let_def)
    show ?thesis
    proof (cases "fst (log_fail (nq_policy q) t s1)")
      case True
      then have "b = True" "nq_trackers q' = hm_insert n (ft_clear tr') (nq_trackers q1)"
        "held_until q' n = Some (t + window_or 600 (qp_default_quarantine_duration (nq_policy q)))" "nq_policy q' = nq_policy q"
        using r False f(2) tr' s1(2)
        by (auto simp: nq_record_failure_def q1 Let_def datetime_plus_def held_until_def split: if_splits)
      with True op show ?thesis
        by (auto simp: log_fail_def Let_def log_sim_def tracked_def ft_clear_def split: if_splits)
    next
      case not: False
      then have "b = False" "nq_trackers q' = hm_insert n tr' (nq_trackers q1)"
        "held_until q' n = held_until q1 n" "nq_policy q' = nq_policy q"
        using r False f(2) tr' s1(2) by (auto simp: nq_record_failure_def q1 Let_def held_until_def)
      moreover have "log_sim (t - ?w) q' n (s1\<lparr> nl_failures := nl_failures s1 @ [t] \<rparr>)"
        using calculation f(1,3) not s1(1) by (simp add: log_sim_def tracked_def)
      moreover have "log_fail (nq_policy q) t s1 = (False, s1\<lparr> nl_failures := nl_failures s1 @ [t] \<rparr>)"
        using not by (simp add: log_fail_def Let_def split: if_splits)
      ultimately show ?thesis using op by auto
    qed
  qed
qed

lemma prune_expired_sim:
  assumes "hash_iter it" "hm_wf (nq_quarantined q)" "log_sim c q n s"
  shows "log_sim c (prune_expired it clock q) n (log_expire (clock n) s)"
proof -
  let ?ex = "map fst (filter (\<lambda>(name, e). qe_is_expired (clock name) e) (it (nq_quarantined q)))"
  have mem: "n \<in> set ?ex \<longleftrightarrow> (\<exists>e. hm_get (nq_quarantined q) n = Some e \<and> qe_release_at e \<le> clock n)"
    using assms(1) by (auto simp: hash_iter_set hm_mem_iff [OF assms(2)] qe_is_expired_def image_iff)
  have get: "hm_get (fold hm_remove ks m) n = (if n \<in> set ks then None else hm_get m n)" for ks and m :: "(string, 'v) hmap"
    by (induction ks arbitrary: m) simp_all
  show ?thesis
    using assms(3) mem
    by (cases "nl_until s"; cases "n \<in> set ?ex")
      (auto simp: prune_expired_def Let_def log_sim_def held_until_def tracked_def log_expire_def get)
qed

definition clock_ok :: "quarantine_op \<Rightarrow> bool" where
  "clock_ok p \<longleftrightarrow> (case p of QFail name t1 t2 t \<Rightarrow> t1 \<le> t2 | QCheck name t1 t2 \<Rightarrow> t1 \<le> t2 | _ \<Rightarrow> True)"

definition fail_time :: "string \<Rightarrow> quarantine_op \<Rightarrow> datetime list" where
  "fail_time n p = (case p of QFail name t1 t2 t \<Rightarrow> if name = n then [t] else [] | _ \<Rightarrow> [])"

definition answers :: "string \<Rightarrow> (string \<times> bool) list \<Rightarrow> bool list" where
  "answers n bs = map snd (filter (\<lambda>b. fst b = n) bs)"

lemma answers_append [simp]: "answers n (xs @ ys) = answers n xs @ answers n ys"
  by (simp add: answers_def)

lemma quarantine_wf:
  assumes "quarantine_op_run it p q = Returns (bs, q')" "hm_wf (nq_quarantined q)"
  shows "hm_wf (nq_quarantined q')" "nq_policy q' = nq_policy q"
proof -
  have iq: "hm_wf (nq_quarantined q2) \<and> nq_policy q2 = nq_policy q" if "is_quarantined t1 t2 name q = (b, q2)" for t1 t2 name b q2
    using that assms(2) by (auto simp: is_quarantined_def split: option.splits if_splits)
  have fr: "hm_wf m \<Longrightarrow> hm_wf (fold hm_remove ks m)" for ks and m :: "(string, quarantine_entry) hmap"
    by (rule hm.invar_del_all)
  have "hm_wf (nq_quarantined q') \<and> nq_policy q' = nq_policy q"
  proof (cases p)
    case (QFail name t1 t2 t)
    obtain held q1 where q1: "is_quarantined t1 t2 name q = (held, q1)" by force
    from iq [OF this] assms(1) show ?thesis
      by (auto simp: QFail nq_record_failure_def q1 Let_def split: outcome.splits if_splits)
  qed (use assms iq fr in \<open>auto simp: quarantine_node_def nq_release_node_def nq_record_success_def prune_expired_def Let_def
      split: outcome.splits if_splits prod.splits\<close>)
  then show "hm_wf (nq_quarantined q')" "nq_policy q' = nq_policy q" by blast+
qed

lemma quarantine_op_sim:
  assumes r: "quarantine_op_run it p q = Returns (bs, q')" and it: "hash_iter it"
    and wf: "hm_wf (nq_quarantined q)" and sim: "log_sim c q n s" and ok: "clock_ok p"
    and c: "\<forall>t \<in> set (fail_time n p). c \<le> t - window_or 300 (qp_window (nq_policy q))"
  shows "\<exists>s' c'. log_op (nq_policy q) n p s = (answers n bs, s') \<and> log_sim c' q' n s' \<and>
    (c' = c \<or> (\<exists>t \<in> set (fail_time n p). c' = t - window_or 300 (qp_window (nq_policy q))))"
proof (cases p)
  case (QFail name t1 t2 t)
  obtain b where b: "nq_record_failure t1 t2 t name q = Returns (b, q')" "bs = [(name, b)]"
    using r QFail by (auto split: outcome.splits)
  have t: "t1 \<le> t2" using ok QFail by (simp add: clock_ok_def)
  show ?thesis
  proof (cases "name = n")
    case True
    with nq_record_failure_own [OF b(1) [unfolded True] t sim] c show ?thesis
      by (auto simp: QFail b(2) answers_def fail_time_def)
  next
    case False
    with nq_record_failure_other [OF b(1) False t sim] show ?thesis by (auto simp: QFail b(2) answers_def)
  qed
next
  case (QCheck name t1 t2)
  obtain b where b: "is_quarantined t1 t2 name q = (b, q')" "bs = [(name, b)]"
    using r QCheck by (auto split: prod.splits)
  have t: "t1 \<le> t2" using ok QCheck by (simp add: clock_ok_def)
  from is_quarantined_spec [OF b(1) t sim] show ?thesis by (auto simp: QCheck b(2) answers_def)
next
  case (QPrune clock)
  with prune_expired_sim [OF it wf sim] r show ?thesis by (auto simp: answers_def)
next
  case (QOk name)
  have "log_sim c q' n (if name = n then s\<lparr> nl_failures := [] \<rparr> else s)"
    using r sim by (auto simp: QOk nq_record_success_def log_sim_def held_until_def tracked_def hm_get_modify ft_clear_def
        split: option.splits if_splits)
  then show ?thesis using r by (auto simp: QOk answers_def)
next
  case (QManual name reason d t)
  have "log_sim c q' n (if name = n then s\<lparr> nl_until := Some (t + window_or 600 d) \<rparr> else s) \<and> bs = []"
    using r sim by (auto simp: QManual quarantine_node_def log_sim_def held_until_def tracked_def datetime_plus_def
        split: outcome.splits if_splits)
  then show ?thesis by (auto simp: QManual answers_def)
next
  case (QRelease name)
  have "log_op (nq_policy q) n p s = (answers n bs, if name = n \<and> nl_until s \<noteq> None then \<lparr> nl_until = None, nl_failures = [] \<rparr> else s) \<and>
      log_sim c q' n (if name = n \<and> nl_until s \<noteq> None then \<lparr> nl_until = None, nl_failures = [] \<rparr> else s)"
    using r sim by (cases "nl_until s")
      (auto simp: QRelease nq_release_node_def log_sim_def held_until_def tracked_def Let_def hm_contains_def answers_def split: if_splits)
  then show ?thesis by blast
qed

lemma quarantine_run_sim:
  assumes "quarantine_run it ps q = Returns (bs, q')" "hash_iter it" "hm_wf (nq_quarantined q)" "log_sim c q n s"
    and "\<forall>p \<in> set ps. clock_ok p" "sorted (concat (map (fail_time n) ps))"
    and "\<forall>t \<in> set (concat (map (fail_time n) ps)). c \<le> t - window_or 300 (qp_window (nq_policy q))"
  shows "answers n bs = log_ops (nq_policy q) n ps s"
  using assms
proof (induction ps arbitrary: q bs c s)
  case Nil
  then show ?case by (simp add: answers_def)
next
  case (Cons p ps)
  obtain bs1 q1 bs2 where s: "quarantine_op_run it p q = Returns (bs1, q1)" "quarantine_run it ps q1 = Returns (bs2, q')" "bs = bs1 @ bs2"
    using Cons.prems(1) by (auto split: outcome.splits)
  have "\<forall>t \<in> set (fail_time n p). c \<le> t - window_or 300 (qp_window (nq_policy q))" "clock_ok p"
    using Cons.prems(5,7) by simp_all
  from quarantine_op_sim [OF s(1) Cons.prems(2,3,4) this(2,1)] obtain s' c' where
    o: "log_op (nq_policy q) n p s = (answers n bs1, s')" "log_sim c' q1 n s'"
    "c' = c \<or> (\<exists>t \<in> set (fail_time n p). c' = t - window_or 300 (qp_window (nq_policy q)))" by blast
  note wf = quarantine_wf [OF s(1) Cons.prems(3)]
  have "\<forall>t \<in> set (concat (map (fail_time n) ps)). c' \<le> t - window_or 300 (qp_window (nq_policy q))"
    using o(3) Cons.prems(6,7) by (auto simp: sorted_append)
  then have "answers n bs2 = log_ops (nq_policy q1) n ps s'"
    using Cons.prems(5,6) by (intro Cons.IH [OF s(2) Cons.prems(2) wf(1) o(2)]) (simp_all add: sorted_append wf(2))
  then show ?case by (simp add: s(3) o(1) wf(2))
qed

text \<open>
  C24: As long as no call panics, a clock read of a call never goes back within the call and
  the failures of a node are reported in order, every answer the manager gives about a node
  (was it just quarantined, is it held, was it released) is the answer of the plain log of
  that node, whatever happens to other nodes: a failure quarantines the node exactly when
  it is not held and the failures since its last clean slate that lie within the window
  reach the threshold.
\<close>

theorem quarantine_refines_log:
  assumes "quarantine_run it ps (nq_new policy) = Returns (bs, q)" "hash_iter it"
    and "\<forall>p \<in> set ps. clock_ok p" "sorted (concat (map (fail_time n) ps))"
  shows "answers n bs = log_ops policy n ps \<lparr> nl_until = None, nl_failures = [] \<rparr>"
proof -
  let ?ts = "concat (map (fail_time n) ps)" and ?w = "window_or 300 (qp_window policy)"
  define c where "c = (case ?ts of [] \<Rightarrow> 0 | t # _ \<Rightarrow> t - ?w)"
  have "\<forall>t \<in> set ?ts. c \<le> t - ?w"
    using assms(4) by (cases ?ts) (auto simp: c_def)
  moreover have "log_sim c (nq_new policy) n \<lparr> nl_until = None, nl_failures = [] \<rparr>"
    by (simp add: log_sim_def nq_new_def held_until_def tracked_def)
  ultimately show ?thesis
    using quarantine_run_sim [OF assms(1,2) _ _ assms(3,4), of c] by (simp add: nq_new_def)
qed

text \<open>Instants that stay in the range of \<open>DateTime\<close> never make a call panic.\<close>

definition op_safe :: "quarantine_policy \<Rightarrow> quarantine_op \<Rightarrow> bool" where
  "op_safe policy p \<longleftrightarrow> (case p of
     QFail name t1 t2 t \<Rightarrow> datetime_in_range (t - window_or 300 (qp_window policy)) \<and>
       datetime_in_range (t + window_or 600 (qp_default_quarantine_duration policy))
   | QManual name reason d t \<Rightarrow> datetime_in_range (t + window_or 600 d)
   | _ \<Rightarrow> True)"

lemma quarantine_op_returns:
  assumes "op_safe (nq_policy q) p"
  shows "\<exists>bs q'. quarantine_op_run it p q = Returns (bs, q')"
proof (cases p)
  case (QFail name t1 t2 t)
  obtain held q1 where q1: "is_quarantined t1 t2 name q = (held, q1)" by force
  then have "nq_policy q1 = nq_policy q" by (auto simp: is_quarantined_def split: option.splits if_splits)
  with assms show ?thesis
    by (auto simp: QFail op_safe_def nq_record_failure_def q1 Let_def ft_record_def datetime_minus_def datetime_plus_def)
qed (use assms in \<open>auto simp: op_safe_def quarantine_node_def datetime_plus_def split: prod.splits\<close>)

lemma quarantine_run_returns:
  "\<forall>p \<in> set ps. op_safe (nq_policy q) p \<Longrightarrow> hm_wf (nq_quarantined q) \<Longrightarrow>
   \<exists>bs q'. quarantine_run it ps q = Returns (bs, q')"
proof (induction ps arbitrary: q)
  case (Cons p ps)
  obtain bs q1 where o: "quarantine_op_run it p q = Returns (bs, q1)"
    using quarantine_op_returns Cons.prems(1) by (metis list.set_intros(1))
  with Cons.IH [of q1] quarantine_wf [OF o Cons.prems(2)] Cons.prems(1) show ?case by auto
qed simp

definition flaky_policy :: quarantine_policy where
  "flaky_policy = \<lparr> qp_failure_threshold = 2, qp_window = 10, qp_default_quarantine_duration = 100 \<rparr>"

theorem quarantine_refines_log_witness:
  "\<exists>bs q. quarantine_run id
     [QFail ''a'' 0 0 0, QFail ''b'' 0 0 0, QFail ''a'' 20 20 20, QFail ''a'' 25 25 25, QCheck ''a'' 30 30, QCheck ''a'' 125 125]
     (nq_new flaky_policy) = Returns (bs, q) \<and> answers ''a'' bs = [False, False, True, True, False]"
proof -
  let ?ps = "[QFail ''a'' 0 0 0, QFail ''b'' 0 0 0, QFail ''a'' 20 20 20, QFail ''a'' 25 25 25, QCheck ''a'' 30 30, QCheck ''a'' 125 125]"
  obtain bs q where run: "quarantine_run id ?ps (nq_new flaky_policy) = Returns (bs, q)"
    using quarantine_run_returns [of ?ps "nq_new flaky_policy" id]
    by (auto simp: op_safe_def nq_new_def flaky_policy_def window_or_def duration_from_std_def datetime_in_range_def)
  have "answers ''a'' bs = log_ops flaky_policy ''a'' ?ps \<lparr> nl_until = None, nl_failures = [] \<rparr>"
    by (rule quarantine_refines_log [OF run hash_iter_id]) (simp_all add: clock_ok_def fail_time_def)
  also have "\<dots> = [False, False, True, True, False]"
    by (simp add: log_expire_def log_fail_def flaky_policy_def window_or_def duration_from_std_def Let_def)
  finally show ?thesis using run by (intro exI conjI)
qed

text \<open>
  A manual quarantine longer than a chrono duration, such as \<open>Duration::MAX\<close>, ends after ten
  minutes, and one that only leaves the range of instants panics.
\<close>

lemma quarantine_longest_is_short:
  assumes "(2 ^ 63 - 1) * 1000000 < int d" "quarantine_node now name reason d q = Returns q'"
  shows "held_until q' name = Some (now + secs 600)"
  using assms by (auto simp: quarantine_node_def window_or_def duration_from_std_def datetime_plus_def held_until_def
      split: outcome.splits if_splits)

lemma quarantine_long_panics:
  assumes "int d \<le> (2 ^ 63 - 1) * 1000000" "secs 8210266876800 - now \<le> int d"
  shows "quarantine_node now name reason d q = Panics"
  using assms by (simp add: quarantine_node_def window_or_def duration_from_std_def datetime_plus_def datetime_in_range_def)

end
