(* ===== verification/Routing_Policy.thy ===== *)
theory Routing_Policy
  imports Fleet_Text "HOL-Library.Sublist" "HOL-Library.Product_Lexorder"
begin

text \<open>
  The routing policy (\<^verbatim>\<open>ff-routing-policy/src/lib.rs\<close>) over the read interface of the capacity
  snapshot (\<^verbatim>\<open>ff-capacity/src/lib.rs\<close>). The rows of the snapshot are what the database
  returned; the text form of an instant is the parameter \<open>show_time\<close>.
\<close>

section \<open>The capacity snapshot\<close>

text \<open>\<open>i16\<close> and \<open>i32\<close> arithmetic that wraps.\<close>

definition wrap_i16 :: "int \<Rightarrow> int" where
  "wrap_i16 x = (x + 2 ^ 15) mod 2 ^ 16 - 2 ^ 15"

definition wrap_i32 :: "int \<Rightarrow> int" where
  "wrap_i32 x = (x + 2 ^ 31) mod 2 ^ 32 - 2 ^ 31"

record capacity_row =
  cr_kind :: string
  cr_catalog_family :: "string option"
  cr_computer :: "string option"
  cr_provider :: "string option"
  cr_pool :: "string option"
  cr_port :: "int option"
  cr_health :: "string option"
  cr_free_slots :: "int option"
  cr_bucket :: "string option"
  cr_label :: "string option"

record inference_deployment =
  id_catalog_id :: string
  id_catalog_family :: "string option"
  id_computer :: string
  id_port :: int

record backend_capacity =
  bk_computer_id :: uuid
  bk_backend :: string
  bk_installed :: bool
  bk_authenticated :: bool
  bk_last_checked_at :: datetime
  bk_remaining_pct :: "rat option"
  bk_breaker_state :: string

record cloud_budget =
  cb_provider :: string
  cb_weekly_pct :: "int option"
  cb_monthly_pct :: "int option"
  cb_window_exhausted_until :: "datetime option"

record capacity_data =
  cd_rows :: "capacity_row list"
  cd_backends :: "backend_capacity list"
  cd_cloud_budgets :: "cloud_budget list"
  cd_loaded_at :: datetime

definition inference_pools :: "string \<Rightarrow> capacity_data \<Rightarrow> string list" where
  "inference_pools family d =
     List.map_filter cr_pool
       (filter (\<lambda>r. cr_catalog_family r = Some family)
         (filter (\<lambda>r. cr_kind r = ''inference_pool'') (cd_rows d)))"

definition row_deployment :: "capacity_row \<Rightarrow> inference_deployment option" where
  "row_deployment r =
     (case cr_pool r of None \<Rightarrow> None
      | Some catalog_id \<Rightarrow>
        (case cr_label r of None \<Rightarrow> None
         | Some computer \<Rightarrow>
           (case cr_port r of None \<Rightarrow> None
            | Some port \<Rightarrow> Some \<lparr> id_catalog_id = catalog_id, id_catalog_family = cr_catalog_family r,
                id_computer = computer, id_port = port \<rparr>)))"

definition inference_deployments :: "capacity_data \<Rightarrow> inference_deployment list" where
  "inference_deployments d =
     List.map_filter row_deployment
       (filter (\<lambda>r. cr_health r = Some ''healthy'')
         (filter (\<lambda>r. cr_kind r = ''inference_pool'') (cd_rows d)))"

definition free_build_slots :: "string \<Rightarrow> capacity_data \<Rightarrow> int" where
  "free_build_slots computer d =
     fold (\<lambda>x acc. wrap_i32 (acc + x))
       (List.map_filter cr_free_slots
         (filter (\<lambda>r. cr_computer r = Some computer)
           (filter (\<lambda>r. cr_kind r = ''free_build_slot'') (cd_rows d)))) 0"

definition cloud_bucket :: "string \<Rightarrow> capacity_data \<Rightarrow> string option" where
  "cloud_bucket provider d =
     (case List.find (\<lambda>r. cr_kind r = ''cloud_bucket'' \<and> cr_provider r = Some provider) (cd_rows d) of
        None \<Rightarrow> None
      | Some r \<Rightarrow> cr_bucket r)"

definition backend_capacity_of :: "uuid \<Rightarrow> capacity_data \<Rightarrow> backend_capacity list" where
  "backend_capacity_of computer_id d = filter (\<lambda>row. bk_computer_id row = computer_id) (cd_backends d)"

section \<open>Policy\<close>

datatype routing_tier = Local30B | Local480B | Cloud

primrec tier_rank :: "routing_tier \<Rightarrow> nat" where
  "tier_rank Local30B = 0"
| "tier_rank Local480B = 1"
| "tier_rank Cloud = 2"

record tier_budget =
  tb_tier :: routing_tier
  tb_cost_units :: u32
  tb_min_context_tokens :: u32
  tb_capability_tags :: "string list"

record policy_config =
  pc_budgets :: "tier_budget list"
  pc_backend_headroom_floor_pct :: rat
  pc_cloud_budget_headroom_floor_pct :: int
  pc_cloud_estimated_cost_usd :: rat
  pc_headroom_weight :: rat
  pc_preference_weight :: rat
  pc_health_weight :: rat
  pc_preferred_cloud_backstop :: "string option"

definition policy_config_default :: policy_config where
  "policy_config_default =
     \<lparr> pc_budgets =
         [\<lparr> tb_tier = Local30B, tb_cost_units = 0, tb_min_context_tokens = 32768,
            tb_capability_tags = [''code'', ''tool_calling''] \<rparr>,
          \<lparr> tb_tier = Local480B, tb_cost_units = 0, tb_min_context_tokens = 32768,
            tb_capability_tags = [''code'', ''tool_calling''] \<rparr>,
          \<lparr> tb_tier = Cloud, tb_cost_units = 1, tb_min_context_tokens = 32768,
            tb_capability_tags = [''code'', ''tool_calling'', ''cloud''] \<rparr>],
       pc_backend_headroom_floor_pct = 15, pc_cloud_budget_headroom_floor_pct = 15,
       pc_cloud_estimated_cost_usd = 0, pc_headroom_weight = 6 / 10, pc_preference_weight = 3 / 10,
       pc_health_weight = 1 / 10, pc_preferred_cloud_backstop = None \<rparr>"

record candidate_decision =
  cn_backend :: string
  cn_score :: "rat option"
  cn_estimated_cost_usd :: rat
  cn_rejected :: bool
  cn_rejection_code :: "string option"
  cn_rejection_reason :: "string option"

record route_decision =
  rd_schema_version :: u8
  rd_trace_id :: uuid
  rd_mode :: string
  rd_candidates :: "candidate_decision list"
  rd_chosen :: "string option"
  rd_estimated_cost_usd :: rat

record task_requirements =
  tq_capability_tags :: "string list"
  tq_min_context_tokens :: u32
  tq_budget_units :: "u32 option"
  tq_prior_failure_count :: u32

datatype ranked_backend =
    RbInference routing_tier inference_deployment
  | RbCloud string rat

definition tier_allowed :: "routing_tier \<Rightarrow> task_requirements \<Rightarrow> policy_config \<Rightarrow> bool" where
  "tier_allowed tier req config \<longleftrightarrow>
     (case List.find (\<lambda>b. tb_tier b = tier) (pc_budgets config) of
        None \<Rightarrow> False
      | Some budget \<Rightarrow>
          (case tq_budget_units req of None \<Rightarrow> True | Some limit \<Rightarrow> tb_cost_units budget \<le> limit) \<and>
          tb_min_context_tokens budget \<ge> tq_min_context_tokens req \<and>
          list_all (\<lambda>tag. list_ex (\<lambda>available. available = tag) (tb_capability_tags budget)) (tq_capability_tags req))"

definition str_contains :: "string \<Rightarrow> string \<Rightarrow> bool" where
  "str_contains part s \<longleftrightarrow> list_ex (prefix part) (suffixes s)"

definition deployment_tier :: "inference_deployment \<Rightarrow> routing_tier" where
  "deployment_tier d =
     (let identity = to_ascii_lowercase (id_catalog_id d @ '' '' @
            (case id_catalog_family d of None \<Rightarrow> [] | Some f \<Rightarrow> f))
      in if str_contains ''480b'' identity then Local480B else Local30B)"

definition backend_rank :: "string \<Rightarrow> nat" where
  "backend_rank backend =
     (if backend = ''codex'' then 0
      else if backend = ''claude'' then 1
      else if backend = ''kimi'' then 2
      else if backend = ''gemini'' then 3
      else if backend = ''grok'' then 4
      else 9)"

definition backend_score_with_config :: "string \<Rightarrow> rat option \<Rightarrow> string \<Rightarrow> policy_config \<Rightarrow> rat" where
  "backend_score_with_config backend remaining_pct breaker_state config =
     (let headroom = min (max ((case remaining_pct of None \<Rightarrow> 100 | Some p \<Rightarrow> p) / 100) 0) 1;
          preference = 1 - of_nat (backend_rank backend) / 9;
          health = (if breaker_state = ''half_open'' then 1 / 2 else if breaker_state = ''open'' then 0 else 1)
      in pc_headroom_weight config * headroom + pc_preference_weight config * preference +
         pc_health_weight config * health)"

definition backend_score :: "string \<Rightarrow> rat option \<Rightarrow> string \<Rightarrow> rat" where
  "backend_score backend remaining_pct breaker_state =
     backend_score_with_config backend remaining_pct breaker_state policy_config_default"

section \<open>Cloud routes\<close>

definition rejected_candidate :: "string \<Rightarrow> string \<Rightarrow> string \<Rightarrow> policy_config \<Rightarrow> candidate_decision" where
  "rejected_candidate backend code reason config =
     \<lparr> cn_backend = backend, cn_score = None, cn_estimated_cost_usd = pc_cloud_estimated_cost_usd config,
       cn_rejected = True, cn_rejection_code = Some code, cn_rejection_reason = Some reason \<rparr>"

definition capacity_rejection ::
  "backend_capacity \<Rightarrow> datetime \<Rightarrow> policy_config \<Rightarrow> (string \<times> string) option" where
  "capacity_rejection row fresh_after config =
     (if \<not> bk_installed row then Some (''not_installed'', ''backend is not installed'')
      else if \<not> bk_authenticated row then Some (''not_authenticated'', ''backend is not authenticated'')
      else if bk_last_checked_at row \<le> fresh_after then Some (''stale'', ''backend health check is stale'')
      else if bk_breaker_state row = ''open'' then Some (''breaker_open'', ''backend circuit breaker is open'')
      else if (case bk_remaining_pct row of None \<Rightarrow> 100 | Some p \<Rightarrow> p) < pc_backend_headroom_floor_pct config
      then Some (''provider_headroom'',
        ''provider headroom is below '' @ fmt_fixed0 (pc_backend_headroom_floor_pct config) @ ''%'')
      else None)"

definition budget_pct_rejection :: "cloud_budget \<Rightarrow> policy_config \<Rightarrow> (string \<times> string) option" where
  "budget_pct_rejection budget config =
     (let floor_pct = pc_cloud_budget_headroom_floor_pct config;
          max_used = wrap_i16 (100 - floor_pct);
          exceeds = (\<lambda>used. case used of None \<Rightarrow> False | Some u \<Rightarrow> u > max_used);
          msg = (\<lambda>period used. period @ '' budget is '' @ show_int (the used) @ ''% used, leaving less than '' @
            show_int floor_pct @ ''% headroom'')
      in if exceeds (cb_weekly_pct budget) then Some (''weekly_budget'', msg ''weekly'' (cb_weekly_pct budget))
         else if exceeds (cb_monthly_pct budget) then Some (''monthly_budget'', msg ''monthly'' (cb_monthly_pct budget))
         else None)"

definition budget_rejection ::
  "(datetime \<Rightarrow> string) \<Rightarrow> cloud_budget \<Rightarrow> datetime \<Rightarrow> policy_config \<Rightarrow> (string \<times> string) option" where
  "budget_rejection show_time budget now config =
     (case cb_window_exhausted_until budget of
        Some until \<Rightarrow>
          if until > now then Some (''window_exhausted'', ''quota window is exhausted until '' @ show_time until)
          else budget_pct_rejection budget config
      | None \<Rightarrow> budget_pct_rejection budget config)"

text \<open>Why a row is rejected: its own state first, then the first budget of its provider.\<close>

definition route_rejection ::
  "(datetime \<Rightarrow> string) \<Rightarrow> cloud_budget list \<Rightarrow> datetime \<Rightarrow> policy_config \<Rightarrow> datetime \<Rightarrow>
   backend_capacity \<Rightarrow> (string \<times> string) option" where
  "route_rejection show_time budgets fresh_after config now row =
     (case capacity_rejection row fresh_after config of
        Some r \<Rightarrow> Some r
      | None \<Rightarrow>
          (case List.find (\<lambda>b. to_ascii_lowercase (cb_provider b) = to_ascii_lowercase (bk_backend row)) budgets of
             None \<Rightarrow> None
           | Some budget \<Rightarrow> budget_rejection show_time budget now config))"

definition row_score :: "policy_config \<Rightarrow> backend_capacity \<Rightarrow> rat" where
  "row_score config row =
     backend_score_with_config (bk_backend row) (bk_remaining_pct row) (bk_breaker_state row) config"

definition cloud_candidate ::
  "(datetime \<Rightarrow> string) \<Rightarrow> cloud_budget list \<Rightarrow> datetime \<Rightarrow> policy_config \<Rightarrow> datetime \<Rightarrow>
   backend_capacity \<Rightarrow> candidate_decision" where
  "cloud_candidate show_time budgets fresh_after config now row =
     (let rejection = route_rejection show_time budgets fresh_after config now row
      in \<lparr> cn_backend = bk_backend row,
           cn_score = (if rejection = None then Some (row_score config row) else None),
           cn_estimated_cost_usd = pc_cloud_estimated_cost_usd config,
           cn_rejected = (rejection \<noteq> None), cn_rejection_code = map_option fst rejection,
           cn_rejection_reason = map_option snd rejection \<rparr>)"

text \<open>The order of \<open>sort_by\<close>, as a key: accepted first, higher scores first, then the rank.\<close>

definition candidate_key :: "candidate_decision \<Rightarrow> bool \<times> rat \<times> nat" where
  "candidate_key c =
     (cn_rejected c, - (case cn_score c of None \<Rightarrow> 0 | Some s \<Rightarrow> s), backend_rank (cn_backend c))"

text \<open>\<open>remove\<close> and \<open>insert(0, _)\<close> at a position.\<close>

definition move_to_front :: "('a \<Rightarrow> bool) \<Rightarrow> 'a list \<Rightarrow> 'a list" where
  "move_to_front p xs =
     (case position p xs of None \<Rightarrow> xs | Some i \<Rightarrow> xs ! i # take i xs @ drop (Suc i) xs)"

definition evaluate_cloud_route ::
  "(datetime \<Rightarrow> string) \<Rightarrow> backend_capacity list \<Rightarrow> cloud_budget list \<Rightarrow> datetime \<Rightarrow>
   task_requirements \<Rightarrow> policy_config \<Rightarrow> datetime \<Rightarrow> uuid \<Rightarrow> string \<Rightarrow> route_decision" where
  "evaluate_cloud_route show_time rows budgets fresh_after req config now trace_id mode =
     (if \<not> tier_allowed Cloud req config
      then \<lparr> rd_schema_version = 1, rd_trace_id = trace_id, rd_mode = mode,
             rd_candidates = map (\<lambda>row. rejected_candidate (bk_backend row) ''tier_budget''
               ''cloud tier is not allowed by task budget or capabilities'' config) rows,
             rd_chosen = None, rd_estimated_cost_usd = 0 \<rparr>
      else
        let candidates = sort_key candidate_key
              (map (cloud_candidate show_time budgets fresh_after config now) rows);
            candidates = (case pc_preferred_cloud_backstop config of
                None \<Rightarrow> candidates
              | Some preferred \<Rightarrow> move_to_front (\<lambda>c. \<not> cn_rejected c \<and> cn_backend c = preferred) candidates);
            chosen = map_option cn_backend (List.find (\<lambda>c. \<not> cn_rejected c) candidates)
        in \<lparr> rd_schema_version = 1, rd_trace_id = trace_id, rd_mode = mode, rd_candidates = candidates,
             rd_chosen = chosen,
             rd_estimated_cost_usd = (if chosen = None then 0 else pc_cloud_estimated_cost_usd config) \<rparr>)"

definition rank_cloud_backends ::
  "(datetime \<Rightarrow> string) \<Rightarrow> backend_capacity list \<Rightarrow> datetime \<Rightarrow> task_requirements \<Rightarrow> policy_config \<Rightarrow>
   datetime \<Rightarrow> uuid \<Rightarrow> (string \<times> rat) list" where
  "rank_cloud_backends show_time rows fresh_after req config now trace_id =
     map (\<lambda>c. (cn_backend c, case cn_score c of None \<Rightarrow> 0 | Some s \<Rightarrow> s))
       (filter (\<lambda>c. \<not> cn_rejected c)
         (rd_candidates (evaluate_cloud_route show_time rows [] fresh_after req config now trace_id ''legacy'')))"

definition promote_cloud_backstop :: "string list \<Rightarrow> policy_config \<Rightarrow> string list" where
  "promote_cloud_backstop backends config =
     (case pc_preferred_cloud_backstop config of
        None \<Rightarrow> backends
      | Some preferred \<Rightarrow> move_to_front (\<lambda>b. b = preferred) backends)"

section \<open>Local deployments\<close>

definition ranked_tier :: "ranked_backend \<Rightarrow> routing_tier" where
  "ranked_tier c = (case c of RbInference tier d \<Rightarrow> tier | RbCloud b s \<Rightarrow> Cloud)"

definition rank_inference_deployments ::
  "capacity_data \<Rightarrow> task_requirements \<Rightarrow> policy_config \<Rightarrow> ranked_backend list" where
  "rank_inference_deployments snapshot req config =
     (if tq_prior_failure_count req > 0 then []
      else sort_key (\<lambda>c. tier_rank (ranked_tier c))
        (List.map_filter (\<lambda>d. let tier = deployment_tier d
           in if tier_allowed tier req config then Some (RbInference tier d) else None)
          (inference_deployments snapshot)))"

definition local_lane_max_tries :: u32 where
  "local_lane_max_tries = 3"

definition use_local_30b :: "task_requirements \<Rightarrow> policy_config \<Rightarrow> bool" where
  "use_local_30b req config \<longleftrightarrow>
     tq_prior_failure_count req < local_lane_max_tries \<and> tier_allowed Local30B req config"

definition rank_backends ::
  "(datetime \<Rightarrow> string) \<Rightarrow> capacity_data \<Rightarrow> task_requirements \<Rightarrow> policy_config \<Rightarrow> uuid \<Rightarrow>
   datetime \<Rightarrow> datetime \<Rightarrow> uuid \<Rightarrow> ranked_backend list" where
  "rank_backends show_time snapshot req config computer_id fresh_after now trace_id =
     rank_inference_deployments snapshot req config @
     map (\<lambda>(b, s). RbCloud b s)
       (rank_cloud_backends show_time (backend_capacity_of computer_id snapshot) fresh_after req config now trace_id)"

section \<open>Laws of the choice\<close>

lemma mset_move_to_front: "mset (move_to_front p xs) = mset xs"
proof (cases "position p xs")
  case (Some i)
  then have "xs = take i xs @ xs ! i # drop (Suc i) xs" using position_Some [OF Some] by (simp add: id_take_nth_drop)
  then have "mset xs = mset (take i xs) + mset (xs ! i # drop (Suc i) xs)" by (metis mset_append)
  then show ?thesis by (simp add: move_to_front_def Some)
qed (simp add: move_to_front_def)

lemma move_to_front_hd: "\<exists>x \<in> set xs. p x \<Longrightarrow> \<exists>y ys. move_to_front p xs = y # ys \<and> p y \<and> y \<in> set xs"
  by (cases "position p xs") (auto simp: move_to_front_def position_None dest: position_Some)

lemma move_to_front_none: "\<forall>x \<in> set xs. \<not> p x \<Longrightarrow> move_to_front p xs = xs"
  by (simp add: move_to_front_def iffD2 [OF position_None])

text \<open>In a list sorted by a key with the rejected ones last, the first accepted one is the head.\<close>

lemma find_accepted_sorted:
  assumes "sorted (map candidate_key cs)" "\<exists>c \<in> set cs. \<not> cn_rejected c"
  shows "\<exists>c rest. cs = c # rest \<and> \<not> cn_rejected c \<and> (\<forall>x \<in> set cs. candidate_key c \<le> candidate_key x)"
proof (cases cs)
  case (Cons c rest)
  have le: "\<forall>x \<in> set cs. candidate_key c \<le> candidate_key x" using assms(1) by (auto simp: Cons)
  have "\<not> cn_rejected c"
  proof
    assume "cn_rejected c"
    with le assms(2) show False by (force simp: candidate_key_def less_eq_prod_def less_prod_def)
  qed
  with le Cons show ?thesis by blast
qed (use assms(2) in simp)

definition accepted_row ::
  "(datetime \<Rightarrow> string) \<Rightarrow> cloud_budget list \<Rightarrow> datetime \<Rightarrow> policy_config \<Rightarrow> datetime \<Rightarrow> backend_capacity \<Rightarrow> bool" where
  "accepted_row show_time budgets fresh_after config now row \<longleftrightarrow>
     route_rejection show_time budgets fresh_after config now row = None"

lemma cloud_candidate_simps [simp]:
  "cn_backend (cloud_candidate st bs f c n row) = bk_backend row"
  "cn_rejected (cloud_candidate st bs f c n row) \<longleftrightarrow> \<not> accepted_row st bs f c n row"
  "accepted_row st bs f c n row \<Longrightarrow> cn_score (cloud_candidate st bs f c n row) = Some (row_score c row)"
  by (simp_all add: cloud_candidate_def accepted_row_def Let_def)

text \<open>What the choice of a backend among the rows has to satisfy.\<close>

definition good_choice ::
  "policy_config \<Rightarrow> (backend_capacity \<Rightarrow> bool) \<Rightarrow> backend_capacity list \<Rightarrow> string option \<Rightarrow> bool" where
  "good_choice config ok rows chosen \<longleftrightarrow>
     (case chosen of
        None \<Rightarrow> \<forall>row \<in> set rows. \<not> ok row
      | Some b \<Rightarrow> \<exists>row \<in> set rows. ok row \<and> bk_backend row = b \<and>
          (if \<exists>r \<in> set rows. ok r \<and> pc_preferred_cloud_backstop config = Some (bk_backend r)
           then pc_preferred_cloud_backstop config = Some b
           else \<forall>r \<in> set rows. ok r \<longrightarrow> row_score config r < row_score config row \<or>
                  row_score config r = row_score config row \<and> backend_rank b \<le> backend_rank (bk_backend r)))"

lemma good_choice_candidates:
  assumes "cs = sort_key candidate_key (map (cloud_candidate st bs f config n) rows)"
    and "ok = accepted_row st bs f config n"
    and "cs' = (case pc_preferred_cloud_backstop config of None \<Rightarrow> cs
      | Some preferred \<Rightarrow> move_to_front (\<lambda>c. \<not> cn_rejected c \<and> cn_backend c = preferred) cs)"
  shows "good_choice config ok rows (map_option cn_backend (List.find (\<lambda>c. \<not> cn_rejected c) cs'))"
proof -
  have set_cs: "set cs = cloud_candidate st bs f config n ` set rows" by (simp add: assms(1))
  have sorted: "sorted (map candidate_key cs)" by (simp add: assms(1))
  show ?thesis
  proof (cases "\<exists>r \<in> set rows. ok r")
    case False
    have "set cs' = set cs"
      by (auto simp: assms(3) split: option.splits) (metis mset_move_to_front set_mset_mset)+
    with False have "List.find (\<lambda>c. \<not> cn_rejected c) cs' = None"
      by (auto simp: find_None_iff set_cs assms(2))
    with False show ?thesis by (auto simp: good_choice_def)
  next
    case True
    show ?thesis
    proof (cases "\<exists>r \<in> set rows. ok r \<and> pc_preferred_cloud_backstop config = Some (bk_backend r)")
      case pref: True
      then obtain b where b: "pc_preferred_cloud_backstop config = Some b" "\<exists>r \<in> set rows. ok r \<and> bk_backend r = b" by auto
      then have "\<exists>c \<in> set cs. \<not> cn_rejected c \<and> cn_backend c = b" by (auto simp: set_cs assms(2))
      from move_to_front_hd [OF this] obtain y ys where
        y: "cs' = y # ys" "\<not> cn_rejected y" "cn_backend y = b" "y \<in> set cs" by (auto simp: assms(3) b(1))
      then obtain r where "r \<in> set rows" "ok r" "bk_backend r = b" by (auto simp: set_cs assms(2))
      with y pref b(1) show ?thesis by (auto simp: good_choice_def)
    next
      case nopref: False
      have "cs' = cs"
        using nopref by (auto simp: assms(3) set_cs assms(2) intro!: move_to_front_none split: option.splits) blast
      moreover have "\<exists>c \<in> set cs. \<not> cn_rejected c" using True by (auto simp: set_cs assms(2))
      from find_accepted_sorted [OF sorted this] obtain c rest where
        c: "cs = c # rest" "\<not> cn_rejected c" "\<forall>x \<in> set cs. candidate_key c \<le> candidate_key x" by blast
      obtain r where r: "r \<in> set rows" "c = cloud_candidate st bs f config n r" using c(1) set_cs by auto
      have "row_score config r' < row_score config r \<or>
          row_score config r' = row_score config r \<and> backend_rank (bk_backend r) \<le> backend_rank (bk_backend r')"
        if "r' \<in> set rows" "ok r'" for r'
      proof -
        have "cloud_candidate st bs f config n r' \<in> set cs" using that(1) set_cs by blast
        with c(3) have "candidate_key c \<le> candidate_key (cloud_candidate st bs f config n r')" by blast
        then show ?thesis using that(2) c(2) r(2)
          by (auto simp: candidate_key_def assms(2) less_eq_prod_def less_prod_def)
      qed
      with r c nopref \<open>cs' = cs\<close> show ?thesis by (auto simp: good_choice_def assms(2))
    qed
  qed
qed

text \<open>
  A cloud route explains every row exactly once. If the tier is not allowed, nothing is
  chosen and every row is rejected. Otherwise something is chosen exactly if some row
  passes all gates; it is an accepted row, it is the configured backstop whenever that is
  accepted, and else no accepted row scores higher, nor equally with a better rank. The
  estimated cost is charged exactly if something is chosen.
\<close>

theorem cloud_route_exact:
  "let d = evaluate_cloud_route show_time rows budgets fresh_after req config now trace_id mode
    in mset (map cn_backend (rd_candidates d)) = mset (map bk_backend rows) \<and>
       good_choice config
         (\<lambda>row. tier_allowed Cloud req config \<and> accepted_row show_time budgets fresh_after config now row)
         rows (rd_chosen d) \<and>
       rd_estimated_cost_usd d = (if rd_chosen d = None then 0 else pc_cloud_estimated_cost_usd config)"
proof (cases "tier_allowed Cloud req config")
  case False
  then show ?thesis
    by (simp add: evaluate_cloud_route_def good_choice_def rejected_candidate_def o_def Let_def
        image_mset.compositionality)
next
  case True
  define cs where "cs = sort_key candidate_key (map (cloud_candidate show_time budgets fresh_after config now) rows)"
  define cs' where "cs' = (case pc_preferred_cloud_backstop config of None \<Rightarrow> cs
      | Some preferred \<Rightarrow> move_to_front (\<lambda>c. \<not> cn_rejected c \<and> cn_backend c = preferred) cs)"
  have ok: "(\<lambda>row. tier_allowed Cloud req config \<and> accepted_row show_time budgets fresh_after config now row) =
      accepted_row show_time budgets fresh_after config now" using True by simp
  have "mset cs' = mset cs" by (simp add: cs'_def mset_move_to_front split: option.splits)
  then have "mset (map cn_backend cs') = mset (map cn_backend cs)" by simp
  also have "\<dots> = mset (map bk_backend rows)" by (simp add: cs_def image_mset.compositionality o_def)
  finally have "mset (map cn_backend cs') = mset (map bk_backend rows)" .
  with good_choice_candidates [OF cs_def ok cs'_def] show ?thesis
    unfolding evaluate_cloud_route_def Let_def cs_def [symmetric] cs'_def [symmetric] by (simp add: True)
qed

lemma rank_cloud_nil: "\<not> tier_allowed Cloud req config \<Longrightarrow> rank_cloud_backends st rows f req config n tr = []"
  by (simp add: rank_cloud_backends_def evaluate_cloud_route_def rejected_candidate_def filter_empty_conv)

text \<open>
  The ranking of all backends is a ladder: no local 480B deployment before a 30B one and
  no cloud backend before a local one. After a failed attempt it holds cloud backends
  only, and it never holds a tier the task is not allowed.
\<close>

lemma rank_backends_laws:
  assumes "ranked = rank_backends show_time snapshot req config computer_id fresh_after now trace_id"
  shows "sorted (map (\<lambda>c. tier_rank (ranked_tier c)) ranked)"
    and "\<forall>c \<in> set ranked. tier_allowed (ranked_tier c) req config \<and>
       (ranked_tier c \<noteq> Cloud \<longrightarrow> tq_prior_failure_count req = 0)"
proof -
  let ?inf = "rank_inference_deployments snapshot req config"
  let ?cl = "rank_cloud_backends show_time (backend_capacity_of computer_id snapshot) fresh_after req config now trace_id"
  have r: "ranked = ?inf @ map (\<lambda>(b, s). RbCloud b s) ?cl" by (simp add: assms rank_backends_def)
  have inf: "sorted (map (\<lambda>c. tier_rank (ranked_tier c)) ?inf)" by (simp add: rank_inference_deployments_def)
  have mem: "tier_allowed (ranked_tier c) req config \<and> tq_prior_failure_count req = 0" if "c \<in> set ?inf" for c
    using that by (auto simp: rank_inference_deployments_def map_filter_def ranked_tier_def Let_def word_less_nat_alt
        unat_eq_0 split: if_splits)
  have le: "tier_rank t \<le> 2" for t by (cases t) simp_all
  have cl: "ranked_tier c = Cloud \<and> tier_allowed Cloud req config" if "c \<in> set (map (\<lambda>(b, s). RbCloud b s) ?cl)" for c
    using that rank_cloud_nil [of req config] by (cases "tier_allowed Cloud req config") (auto simp: ranked_tier_def)
  have "sorted (map (\<lambda>c. tier_rank (ranked_tier c)) (map (\<lambda>(b, s). RbCloud b s) ?cl))"
    by (simp add: o_def split_def ranked_tier_def) (simp add: sorted_iff_nth_mono)
  with inf cl le show "sorted (map (\<lambda>c. tier_rank (ranked_tier c)) ranked)"
    unfolding r by (auto simp: sorted_append)
  show "\<forall>c \<in> set ranked. tier_allowed (ranked_tier c) req config \<and>
       (ranked_tier c \<noteq> Cloud \<longrightarrow> tq_prior_failure_count req = 0)"
    unfolding r set_append using cl mem by (metis Un_iff)
qed

lemma backend_rank_le: "backend_rank b \<le> 9"
  by (simp add: backend_rank_def)

text \<open>With weights that are not negative a score lies between 0 and the sum of the weights.\<close>

lemma backend_score_range:
  assumes "0 \<le> pc_headroom_weight config" "0 \<le> pc_preference_weight config" "0 \<le> pc_health_weight config"
  shows "0 \<le> backend_score_with_config b r st config \<and>
    backend_score_with_config b r st config \<le> pc_headroom_weight config + pc_preference_weight config + pc_health_weight config"
proof -
  define h where "h = min (max ((case r of None \<Rightarrow> 100 | Some p \<Rightarrow> p) / 100) 0) (1 :: rat)"
  define p where "p = 1 - of_nat (backend_rank b) / (9 :: rat)"
  define q where "q = (if st = ''half_open'' then 1 / 2 else if st = ''open'' then 0 else (1 :: rat))"
  have "(of_nat (backend_rank b) :: rat) \<le> 9" using backend_rank_le [of b] by (metis of_nat_le_iff of_nat_numeral)
  then have b: "0 \<le> h" "h \<le> 1" "0 \<le> p" "p \<le> 1" "0 \<le> q" "q \<le> 1" by (simp_all add: h_def p_def q_def)
  have "backend_score_with_config b r st config =
      pc_headroom_weight config * h + pc_preference_weight config * p + pc_health_weight config * q"
    by (simp add: backend_score_with_config_def h_def p_def q_def Let_def)
  then show ?thesis using assms b by (auto intro!: add_nonneg_nonneg add_mono mult_left_le mult_nonneg_nonneg)
qed

text \<open>
  The local lane is still used after one or two failures, while the ranking has already
  dropped every local deployment.
\<close>

lemma local_lane_disagrees:
  assumes "tq_prior_failure_count req = 1" "tier_allowed Local30B req config"
  shows "use_local_30b req config" "rank_inference_deployments snapshot req config = []"
  using assms by (simp_all add: use_local_30b_def local_lane_max_tries_def rank_inference_deployments_def)

end
