(* ===== verification/Security_Policy.thy ===== *)
theory Security_Policy
  imports Fleet_Prelude "HOL-Library.Sublist"
begin

text \<open>
  Policy of \<^verbatim>\<open>ff-security\<close>: the rule engine (\<^verbatim>\<open>policy.rs\<close>), the autonomy matrix
  (\<^verbatim>\<open>autonomy_policy.rs\<close>) and approval requests with a time to live (\<^verbatim>\<open>approvals.rs\<close>).
\<close>

section \<open>Rules\<close>

datatype policy_effect = PeAllow | PeDeny

record policy_request =
  pr_user_id :: string
  pr_session_id :: string
  pr_tool :: string
  pr_path :: string

record policy_selectors =
  ps_users :: "string list"
  ps_sessions :: "string list"
  ps_tools :: "string list"
  ps_paths :: "string list"

definition selectors_any :: policy_selectors where
  "selectors_any = \<lparr> ps_users = [''*''], ps_sessions = [''*''], ps_tools = [''*''], ps_paths = [''*''] \<rparr>"

record policy_rule =
  pu_id :: uuid
  pu_name :: string
  pu_effect :: policy_effect
  pu_priority :: int
  pu_enabled :: bool
  pu_selectors :: policy_selectors

definition policy_rule_new ::
  "uuid \<Rightarrow> string \<Rightarrow> policy_effect \<Rightarrow> int \<Rightarrow> policy_selectors \<Rightarrow> policy_rule" where
  "policy_rule_new uid name effect priority selectors =
     \<lparr> pu_id = uid, pu_name = name, pu_effect = effect, pu_priority = priority, pu_enabled = True,
       pu_selectors = selectors \<rparr>"

definition matches_selector :: "string list \<Rightarrow> string \<Rightarrow> bool" where
  "matches_selector selector_values x \<longleftrightarrow>
     list_ex (\<lambda>candidate. candidate = ''*'' \<or> candidate = x) selector_values"

text \<open>\<open>pattern.strip_suffix("/**")\<close>.\<close>

definition strip_suffix :: "string \<Rightarrow> string \<Rightarrow> string option" where
  "strip_suffix suf s = (if suffix suf s then Some (take (length s - length suf) s) else None)"

definition path_matches :: "string \<Rightarrow> string \<Rightarrow> bool" where
  "path_matches pattern path \<longleftrightarrow>
     (if pattern = ''*'' then True
      else case strip_suffix ''/**'' pattern of
             Some pre \<Rightarrow> path = pre \<or> prefix (pre @ ''/'') path
           | None \<Rightarrow> pattern = path)"

definition matches_path_selector :: "string list \<Rightarrow> string \<Rightarrow> bool" where
  "matches_path_selector selector_values path \<longleftrightarrow>
     list_ex (\<lambda>pattern. path_matches pattern path) selector_values"

definition rule_matches :: "policy_rule \<Rightarrow> policy_request \<Rightarrow> bool" where
  "rule_matches rule req \<longleftrightarrow>
     pu_enabled rule \<and>
     matches_selector (ps_users (pu_selectors rule)) (pr_user_id req) \<and>
     matches_selector (ps_sessions (pu_selectors rule)) (pr_session_id req) \<and>
     matches_selector (ps_tools (pu_selectors rule)) (pr_tool req) \<and>
     matches_path_selector (ps_paths (pu_selectors rule)) (pr_path req)"

record policy_decision =
  pd_effect :: policy_effect
  pd_rule_id :: "uuid option"
  pd_rule_name :: "string option"
  pd_reason :: string

definition pd_allowed :: "policy_decision \<Rightarrow> bool" where
  "pd_allowed d \<longleftrightarrow> pd_effect d = PeAllow"

record policy_engine =
  pn_rules :: "policy_rule list"

definition sort_rules :: "policy_rule list \<Rightarrow> policy_rule list" where
  "sort_rules rules = sort_key (\<lambda>r. - pu_priority r) rules"

definition policy_engine_new :: "policy_rule list \<Rightarrow> policy_engine" where
  "policy_engine_new rules = \<lparr> pn_rules = sort_rules rules \<rparr>"

definition policy_add_rule :: "policy_rule \<Rightarrow> policy_engine \<Rightarrow> policy_engine" where
  "policy_add_rule rule e = e\<lparr> pn_rules := sort_rules (pn_rules e @ [rule]) \<rparr>"

fun evaluate_rules :: "policy_rule list \<Rightarrow> policy_request \<Rightarrow> policy_decision" where
  "evaluate_rules [] req =
     \<lparr> pd_effect = PeDeny, pd_rule_id = None, pd_rule_name = None,
       pd_reason = ''default deny (no matching rule)'' \<rparr>"
| "evaluate_rules (rule # rules) req =
     (if rule_matches rule req
      then \<lparr> pd_effect = pu_effect rule, pd_rule_id = Some (pu_id rule), pd_rule_name = Some (pu_name rule),
             pd_reason = ''matched rule '' @ [CHR 0x27] @ pu_name rule @ [CHR 0x27] \<rparr>
      else evaluate_rules rules req)"

definition policy_evaluate :: "policy_engine \<Rightarrow> policy_request \<Rightarrow> policy_decision" where
  "policy_evaluate e req = evaluate_rules (pn_rules e) req"

section \<open>Autonomy\<close>

datatype action_type = OperationalRead | MutatingOperation | DestructiveOperation | Administrative
datatype compliance_level = Standard | Elevated | ComplianceCritical
datatype risk_level = LowRisk | MediumRisk | HighRisk
datatype autonomy_decision = AutoAllow | RequireHumanApproval | DenyAction

primrec action_type_as_str :: "action_type \<Rightarrow> string" where
  "action_type_as_str OperationalRead = ''operational_read''"
| "action_type_as_str MutatingOperation = ''mutating_operation''"
| "action_type_as_str DestructiveOperation = ''destructive_operation''"
| "action_type_as_str Administrative = ''administrative''"

primrec compliance_as_str :: "compliance_level \<Rightarrow> string" where
  "compliance_as_str Standard = ''standard''"
| "compliance_as_str Elevated = ''elevated''"
| "compliance_as_str ComplianceCritical = ''compliance_critical''"

primrec risk_as_str :: "risk_level \<Rightarrow> string" where
  "risk_as_str LowRisk = ''low''"
| "risk_as_str MediumRisk = ''medium''"
| "risk_as_str HighRisk = ''high''"

primrec autonomy_decision_as_str :: "autonomy_decision \<Rightarrow> string" where
  "autonomy_decision_as_str AutoAllow = ''auto_allow''"
| "autonomy_decision_as_str RequireHumanApproval = ''require_human_approval''"
| "autonomy_decision_as_str DenyAction = ''deny''"

fun autonomy_decide :: "action_type \<Rightarrow> compliance_level \<Rightarrow> risk_level \<Rightarrow> autonomy_decision" where
  "autonomy_decide OperationalRead Standard LowRisk = AutoAllow"
| "autonomy_decide OperationalRead Standard MediumRisk = RequireHumanApproval"
| "autonomy_decide OperationalRead Standard HighRisk = RequireHumanApproval"
| "autonomy_decide OperationalRead Elevated LowRisk = AutoAllow"
| "autonomy_decide OperationalRead Elevated MediumRisk = RequireHumanApproval"
| "autonomy_decide OperationalRead Elevated HighRisk = RequireHumanApproval"
| "autonomy_decide OperationalRead ComplianceCritical LowRisk = RequireHumanApproval"
| "autonomy_decide OperationalRead ComplianceCritical MediumRisk = RequireHumanApproval"
| "autonomy_decide OperationalRead ComplianceCritical HighRisk = RequireHumanApproval"
| "autonomy_decide MutatingOperation Standard LowRisk = AutoAllow"
| "autonomy_decide MutatingOperation Standard MediumRisk = RequireHumanApproval"
| "autonomy_decide MutatingOperation Standard HighRisk = RequireHumanApproval"
| "autonomy_decide MutatingOperation Elevated LowRisk = AutoAllow"
| "autonomy_decide MutatingOperation Elevated MediumRisk = RequireHumanApproval"
| "autonomy_decide MutatingOperation Elevated HighRisk = RequireHumanApproval"
| "autonomy_decide MutatingOperation ComplianceCritical LowRisk = RequireHumanApproval"
| "autonomy_decide MutatingOperation ComplianceCritical MediumRisk = RequireHumanApproval"
| "autonomy_decide MutatingOperation ComplianceCritical HighRisk = RequireHumanApproval"
| "autonomy_decide DestructiveOperation Standard LowRisk = RequireHumanApproval"
| "autonomy_decide DestructiveOperation Standard MediumRisk = RequireHumanApproval"
| "autonomy_decide DestructiveOperation Standard HighRisk = DenyAction"
| "autonomy_decide DestructiveOperation Elevated LowRisk = RequireHumanApproval"
| "autonomy_decide DestructiveOperation Elevated MediumRisk = RequireHumanApproval"
| "autonomy_decide DestructiveOperation Elevated HighRisk = DenyAction"
| "autonomy_decide DestructiveOperation ComplianceCritical LowRisk = RequireHumanApproval"
| "autonomy_decide DestructiveOperation ComplianceCritical MediumRisk = RequireHumanApproval"
| "autonomy_decide DestructiveOperation ComplianceCritical HighRisk = DenyAction"
| "autonomy_decide Administrative Standard LowRisk = RequireHumanApproval"
| "autonomy_decide Administrative Standard MediumRisk = RequireHumanApproval"
| "autonomy_decide Administrative Standard HighRisk = RequireHumanApproval"
| "autonomy_decide Administrative Elevated LowRisk = RequireHumanApproval"
| "autonomy_decide Administrative Elevated MediumRisk = RequireHumanApproval"
| "autonomy_decide Administrative Elevated HighRisk = RequireHumanApproval"
| "autonomy_decide Administrative ComplianceCritical LowRisk = RequireHumanApproval"
| "autonomy_decide Administrative ComplianceCritical MediumRisk = RequireHumanApproval"
| "autonomy_decide Administrative ComplianceCritical HighRisk = RequireHumanApproval"

section \<open>Approvals\<close>

datatype ttl_status = TtlPending | TtlApproved | TtlDenied | TtlExpired

record ttl_request =
  tr_id :: uuid
  tr_requester :: string
  tr_action :: string
  tr_reason :: "string option"
  tr_status :: ttl_status
  tr_created_at :: datetime
  tr_expires_at :: datetime
  tr_decided_at :: "datetime option"
  tr_decided_by :: "string option"
  tr_decision_reason :: "string option"

definition tr_is_pending :: "ttl_request \<Rightarrow> bool" where
  "tr_is_pending r \<longleftrightarrow> tr_status r = TtlPending"

datatype ttl_error = TtlNotFound uuid | TtlAlreadyFinalized ttl_status | TtlExpiredError | TtlInvalidTtl

record ttl_manager =
  tm_requests :: "(uuid, ttl_request) hmap"

definition ttl_manager_new :: ttl_manager where
  "ttl_manager_new = \<lparr> tm_requests = [] \<rparr>"

definition ttl_request_approval ::
  "uuid \<Rightarrow> datetime \<Rightarrow> string \<Rightarrow> string \<Rightarrow> string option \<Rightarrow> duration \<Rightarrow> ttl_manager \<Rightarrow>
   ((ttl_request, ttl_error) result \<times> ttl_manager) outcome" where
  "ttl_request_approval uid now requester action reason ttl mgr =
     (if ttl \<le> 0 then Returns (Inl TtlInvalidTtl, mgr)
      else case datetime_plus now ttl of
             Panics \<Rightarrow> Panics
           | Returns expires_at \<Rightarrow>
               let r = \<lparr> tr_id = uid, tr_requester = requester, tr_action = action, tr_reason = reason,
                         tr_status = TtlPending, tr_created_at = now, tr_expires_at = expires_at,
                         tr_decided_at = None, tr_decided_by = None, tr_decision_reason = None \<rparr>
               in Returns (Inr r, mgr\<lparr> tm_requests := hm_insert uid r (tm_requests mgr) \<rparr>))"

definition expire_request :: "datetime \<Rightarrow> string \<Rightarrow> ttl_request \<Rightarrow> ttl_request" where
  "expire_request now why r =
     r\<lparr> tr_status := TtlExpired, tr_decided_at := Some now, tr_decided_by := Some ''system'',
        tr_decision_reason := Some why \<rparr>"

definition ttl_finalize ::
  "datetime \<Rightarrow> uuid \<Rightarrow> ttl_status \<Rightarrow> string \<Rightarrow> string option \<Rightarrow> ttl_manager \<Rightarrow>
   (ttl_request, ttl_error) result \<times> ttl_manager" where
  "ttl_finalize now uid new_status approver decision_reason mgr =
     (case hm_get (tm_requests mgr) uid of
        None \<Rightarrow> (Inl (TtlNotFound uid), mgr)
      | Some r \<Rightarrow>
          if tr_status r \<noteq> TtlPending then (Inl (TtlAlreadyFinalized (tr_status r)), mgr)
          else if tr_expires_at r \<le> now
          then (Inl TtlExpiredError,
                mgr\<lparr> tm_requests := hm_insert uid (expire_request now ''approval expired before decision'' r)
                       (tm_requests mgr) \<rparr>)
          else let r' = r\<lparr> tr_status := new_status, tr_decided_at := Some now, tr_decided_by := Some approver,
                           tr_decision_reason := decision_reason \<rparr>
               in (Inr r', mgr\<lparr> tm_requests := hm_insert uid r' (tm_requests mgr) \<rparr>))"

definition ttl_approve ::
  "datetime \<Rightarrow> uuid \<Rightarrow> string \<Rightarrow> string option \<Rightarrow> ttl_manager \<Rightarrow> (ttl_request, ttl_error) result \<times> ttl_manager" where
  "ttl_approve now uid approver decision_reason mgr = ttl_finalize now uid TtlApproved approver decision_reason mgr"

definition ttl_deny ::
  "datetime \<Rightarrow> uuid \<Rightarrow> string \<Rightarrow> string option \<Rightarrow> ttl_manager \<Rightarrow> (ttl_request, ttl_error) result \<times> ttl_manager" where
  "ttl_deny now uid approver decision_reason mgr = ttl_finalize now uid TtlDenied approver decision_reason mgr"

definition stale :: "datetime \<Rightarrow> ttl_request \<Rightarrow> bool" where
  "stale now r \<longleftrightarrow> tr_status r = TtlPending \<and> tr_expires_at r \<le> now"

text \<open>\<open>iter_mut\<close> over the map: every entry is rewritten in place and the expired ones counted.\<close>

fun expire_entries ::
  "datetime \<Rightarrow> (uuid, ttl_request) hmap \<Rightarrow> nat \<times> (uuid, ttl_request) hmap" where
  "expire_entries now [] = (0, [])"
| "expire_entries now ((k, r) # m) =
     (let (n, m') = expire_entries now m
      in if stale now r
         then (n + 1, (k, expire_request now ''approval expired due to timeout'' r) # m')
         else (n, (k, r) # m'))"

definition expire_stale :: "datetime \<Rightarrow> ttl_manager \<Rightarrow> nat \<times> ttl_manager" where
  "expire_stale now mgr =
     (let (n, m) = expire_entries now (tm_requests mgr) in (n, mgr\<lparr> tm_requests := m \<rparr>))"

definition ttl_get :: "uuid \<Rightarrow> ttl_manager \<Rightarrow> ttl_request option" where
  "ttl_get uid mgr = hm_get (tm_requests mgr) uid"

section \<open>The rule that wins\<close>

lemma sort_key_append_sorted: "sort_key f (sort_key f xs @ ys) = sort_key f (xs @ ys)"
proof (rule properties_for_sort_key [symmetric])
  show "mset (sort_key f (sort_key f xs @ ys)) = mset (xs @ ys)" by simp
  show "filter (\<lambda>x. f k = f x) (sort_key f (sort_key f xs @ ys)) = filter (\<lambda>x. f k = f x) (xs @ ys)" for k
    using sort_key_stable [of f "f k"] by (simp add: eq_commute)
  show "sorted (map f (sort_key f (sort_key f xs @ ys)))" by simp
qed

text \<open>Whatever way the rules were added, the engine holds the stable sort of all of them.\<close>

lemma policy_rules_sorted:
  "pn_rules (fold policy_add_rule zs (policy_engine_new ys)) = sort_rules (ys @ zs)"
proof (induction zs rule: rev_induct)
  case (snoc z zs)
  then show ?case using sort_key_append_sorted [of _ "ys @ zs" "[z]"] by (simp add: policy_add_rule_def sort_rules_def)
qed (simp add: policy_engine_new_def)

definition rule_decision :: "policy_rule \<Rightarrow> policy_decision" where
  "rule_decision rule =
     \<lparr> pd_effect = pu_effect rule, pd_rule_id = Some (pu_id rule), pd_rule_name = Some (pu_name rule),
       pd_reason = ''matched rule '' @ [CHR 0x27] @ pu_name rule @ [CHR 0x27] \<rparr>"

lemma evaluate_rules_filter:
  "evaluate_rules rules req =
     (case filter (\<lambda>r. rule_matches r req) rules of
        [] \<Rightarrow> \<lparr> pd_effect = PeDeny, pd_rule_id = None, pd_rule_name = None, pd_reason = ''default deny (no matching rule)'' \<rparr>
      | r # _ \<Rightarrow> rule_decision r)"
  by (induction rules) (simp_all add: rule_decision_def)

lemma hd_filter_nth:
  assumes "i < length xs" "P (xs ! i)" "\<forall>j < i. \<not> P (xs ! j)"
  shows "\<exists>ys. filter P xs = xs ! i # ys"
proof -
  have "filter P (take i xs) = []"
    using assms(1,3) by (auto simp: filter_empty_conv in_set_conv_nth)
  moreover have "filter P xs = filter P (take i xs) @ filter P (xs ! i # drop (Suc i) xs)"
    using id_take_nth_drop [OF assms(1)] filter_append by metis
  ultimately show ?thesis using assms(2) by auto
qed

text \<open>A stable sort starts with the first of the elements of least key.\<close>

lemma hd_sort_key:
  assumes "filter (\<lambda>x. f x = k) xs = y # ys" "\<forall>x \<in> set xs. k \<le> f x"
  shows "\<exists>zs. sort_key f xs = y # zs"
proof -
  have "y \<in> set (filter (\<lambda>x. f x = k) xs)" unfolding assms(1) by simp
  then have y: "y \<in> set xs" "f y = k" by simp_all
  then have "sort_key f xs \<noteq> []" by (metis empty_iff empty_set set_sort)
  then obtain z zs where s: "sort_key f xs = z # zs" by (cases "sort_key f xs") auto
  have "z \<in> set xs" using s by (metis list.set_intros(1) set_sort)
  moreover have "f z \<le> f y"
  proof -
    have "sorted (map f (z # zs))" "y \<in> set (z # zs)" using s y(1) by (metis sorted_sort_key, metis set_sort)
    then show ?thesis by auto
  qed
  ultimately have "f z = k" using assms(2) y(2) by (metis order_antisym)
  moreover have "filter (\<lambda>x. f x = k) (sort_key f xs) = y # ys" using assms(1) by (simp add: sort_key_stable)
  ultimately have "z = y" by (simp add: s)
  with s show ?thesis by blast
qed

lemma policy_winner:
  assumes "i < length rules" "rule_matches (rules ! i) req"
    and "\<forall>j < length rules. rule_matches (rules ! j) req \<longrightarrow>
      pu_priority (rules ! j) < pu_priority (rules ! i) \<or> pu_priority (rules ! j) = pu_priority (rules ! i) \<and> i \<le> j"
  shows "evaluate_rules (sort_rules rules) req = rule_decision (rules ! i)"
proof -
  let ?m = "\<lambda>r. rule_matches r req" and ?f = "\<lambda>r. - pu_priority r"
  have "\<forall>j < i. \<not> (?m (rules ! j) \<and> ?f (rules ! j) = ?f (rules ! i))"
  proof (intro allI impI notI)
    fix j assume "j < i" "?m (rules ! j) \<and> ?f (rules ! j) = ?f (rules ! i)"
    then show False using assms(1) spec [OF assms(3), of j] by simp
  qed
  from hd_filter_nth [OF assms(1) _ this] obtain ys where
    "filter (\<lambda>r. ?m r \<and> ?f r = ?f (rules ! i)) rules = rules ! i # ys" using assms(2) by auto
  then have "filter (\<lambda>r. ?f r = ?f (rules ! i)) (filter ?m rules) = rules ! i # ys"
    by (simp add: conj_commute)
  moreover have "\<forall>x \<in> set (filter ?m rules). ?f (rules ! i) \<le> ?f x"
    using assms(3) by (fastforce simp: in_set_conv_nth)
  ultimately obtain zs where "sort_key ?f (filter ?m rules) = rules ! i # zs" using hd_sort_key [of ?f "?f (rules ! i)" "filter ?m rules" "rules ! i" ys] by blast
  then show ?thesis by (simp add: evaluate_rules_filter sort_rules_def filter_sort)
qed

text \<open>
  C25: However the rules were added to the engine, the decision on a request is that of the
  matching rule of highest priority, the one added first among equals; a request that no
  rule matches is denied.
\<close>

theorem policy_decision_exact:
  fixes ys zs :: "policy_rule list"
  assumes "rules = ys @ zs" "e = fold policy_add_rule zs (policy_engine_new ys)"
  shows "((\<forall>r \<in> set rules. \<not> rule_matches r req) \<longrightarrow>
      pd_effect (policy_evaluate e req) = PeDeny \<and> pd_rule_id (policy_evaluate e req) = None) \<and>
    (\<forall>i < length rules. rule_matches (rules ! i) req \<longrightarrow>
      (\<forall>j < length rules. rule_matches (rules ! j) req \<longrightarrow>
         pu_priority (rules ! j) < pu_priority (rules ! i) \<or>
         pu_priority (rules ! j) = pu_priority (rules ! i) \<and> i \<le> j) \<longrightarrow>
      policy_evaluate e req = rule_decision (rules ! i))"
proof (intro conjI impI allI)
  have e: "policy_evaluate e req = evaluate_rules (sort_rules rules) req"
    using policy_rules_sorted [of zs ys] by (simp add: policy_evaluate_def assms)
  show "policy_evaluate e req = rule_decision (rules ! i)"
    if "i < length rules" "rule_matches (rules ! i) req"
      "\<forall>j < length rules. rule_matches (rules ! j) req \<longrightarrow>
         pu_priority (rules ! j) < pu_priority (rules ! i) \<or>
         pu_priority (rules ! j) = pu_priority (rules ! i) \<and> i \<le> j" for i
    unfolding e by (rule policy_winner [OF that])
  assume "\<forall>r \<in> set rules. \<not> rule_matches r req"
  then have "filter (\<lambda>r. rule_matches r req) (sort_rules rules) = []" by (simp add: sort_rules_def filter_empty_conv)
  then show "pd_effect (policy_evaluate e req) = PeDeny" "pd_rule_id (policy_evaluate e req) = None"
    by (simp_all add: e evaluate_rules_filter)
qed

definition deny_rm :: policy_rule where
  "deny_rm = policy_rule_new 2 ''deny rm tool'' PeDeny 100 (selectors_any\<lparr> ps_tools := [''rm''] \<rparr>)"

definition rm_request :: policy_request where
  "rm_request = \<lparr> pr_user_id = ''u1'', pr_session_id = ''s1'', pr_tool = ''rm'', pr_path = ''/tmp/a.txt'' \<rparr>"

theorem policy_decision_exact_witness:
  "policy_evaluate (fold policy_add_rule [deny_rm] (policy_engine_new [policy_rule_new 1 ''allow all'' PeAllow 10 selectors_any]))
     rm_request = rule_decision deny_rm"
  using policy_decision_exact [OF refl refl, of "[policy_rule_new 1 ''allow all'' PeAllow 10 selectors_any]" "[deny_rm]" rm_request]
  by (simp add: All_less_Suc deny_rm_def policy_rule_new_def rule_matches_def selectors_any_def rm_request_def matches_selector_def
      matches_path_selector_def path_matches_def)

text \<open>A path selector compares text: it lets a path climb out of its directory.\<close>

lemma path_selector_climbs:
  "path_matches ''/workspace/**'' (''/workspace/../'' @ rest)"
  by (simp add: path_matches_def strip_suffix_def suffix_def)

text \<open>What the autonomy matrix amounts to, and that more risk or sensitivity never permits more.\<close>

lemma autonomy_decide_exact:
  "autonomy_decide a c r = AutoAllow \<longleftrightarrow>
     (a = OperationalRead \<or> a = MutatingOperation) \<and> c \<noteq> ComplianceCritical \<and> r = LowRisk"
  "autonomy_decide a c r = DenyAction \<longleftrightarrow> a = DestructiveOperation \<and> r = HighRisk"
  by (cases a; cases c; cases r; simp)+

section \<open>The life of an approval\<close>

text \<open>A request is pending and undecided, or was decided in time, or was expired in time.\<close>

definition ttl_request_ok :: "ttl_request \<Rightarrow> bool" where
  "ttl_request_ok r \<longleftrightarrow>
     tr_created_at r < tr_expires_at r \<and>
     (case tr_status r of
        TtlPending \<Rightarrow> tr_decided_at r = None
      | TtlExpired \<Rightarrow> \<exists>t. tr_decided_at r = Some t \<and> tr_expires_at r \<le> t
      | _ \<Rightarrow> \<exists>t. tr_decided_at r = Some t \<and> t < tr_expires_at r)"

definition ttl_ok :: "ttl_manager \<Rightarrow> bool" where
  "ttl_ok mgr \<longleftrightarrow> hm_wf (tm_requests mgr) \<and> (\<forall>uid r. ttl_get uid mgr = Some r \<longrightarrow> ttl_request_ok r)"

text \<open>What later states keep of a request: its terms always, and all of it once decided.\<close>

definition ttl_keeps :: "ttl_request \<Rightarrow> ttl_request \<Rightarrow> bool" where
  "ttl_keeps r r' \<longleftrightarrow>
     (tr_id r', tr_requester r', tr_action r', tr_reason r', tr_created_at r', tr_expires_at r') =
     (tr_id r, tr_requester r, tr_action r, tr_reason r, tr_created_at r, tr_expires_at r) \<and>
     (\<not> tr_is_pending r \<longrightarrow> r' = r)"

definition ttl_extends :: "ttl_manager \<Rightarrow> ttl_manager \<Rightarrow> bool" where
  "ttl_extends m m' \<longleftrightarrow> (\<forall>uid r. ttl_get uid m = Some r \<longrightarrow> (\<exists>r'. ttl_get uid m' = Some r' \<and> ttl_keeps r r'))"

inductive ttl_step :: "ttl_manager \<Rightarrow> ttl_manager \<Rightarrow> bool" where
  ttl_requested: "ttl_get uid m = None \<Longrightarrow>
    ttl_request_approval uid now requester action reason ttl m = Returns (res, m') \<Longrightarrow> ttl_step m m'"
| ttl_approved: "ttl_approve now uid approver reason m = (res, m') \<Longrightarrow> ttl_step m m'"
| ttl_denied: "ttl_deny now uid approver reason m = (res, m') \<Longrightarrow> ttl_step m m'"
| ttl_swept: "expire_stale now m = (n, m') \<Longrightarrow> ttl_step m m'"

lemma ttl_keeps_refl [simp]: "ttl_keeps r r"
  by (simp add: ttl_keeps_def)

lemma ttl_keeps_trans: "ttl_keeps a b \<Longrightarrow> ttl_keeps b c \<Longrightarrow> ttl_keeps a c"
  by (auto simp: ttl_keeps_def)

lemma ttl_extends_trans: "ttl_extends a b \<Longrightarrow> ttl_extends b c \<Longrightarrow> ttl_extends a c"
  unfolding ttl_extends_def by (meson ttl_keeps_trans)

lemma expire_entries_eq:
  "expire_entries now m =
     (length (filter (\<lambda>e. stale now (snd e)) m),
      map (\<lambda>(k, r). (k, if stale now r then expire_request now ''approval expired due to timeout'' r else r)) m)"
  by (induction m) (auto simp: Let_def)

lemma hm_get_map_values: "hm_get (map (\<lambda>(k, v). (k, f v)) m) k = map_option f (hm_get m k)"
  by (simp add: hm_get_def map_of_map)

lemma expire_stale_get:
  "ttl_get uid (snd (expire_stale now m)) =
     map_option (\<lambda>r. if stale now r then expire_request now ''approval expired due to timeout'' r else r) (ttl_get uid m)"
  by (simp add: expire_stale_def expire_entries_eq ttl_get_def hm_get_map_values Let_def)

lemma expire_stale_wf: "hm_wf (tm_requests m) \<Longrightarrow> hm_wf (tm_requests (snd (expire_stale now m)))"
  by (simp add: expire_stale_def expire_entries_eq hm_wf_def hm_keys_def o_def split_def)

text \<open>A request changes only from pending, and then into a decided or an expired one.\<close>

lemma expire_request_ok:
  "ttl_request_ok r \<Longrightarrow> stale now r \<Longrightarrow> ttl_request_ok (expire_request now why r) \<and> ttl_keeps r (expire_request now why r)"
  by (auto simp: ttl_request_ok_def stale_def expire_request_def ttl_keeps_def tr_is_pending_def)

lemma ttl_finalize_step:
  assumes "ttl_ok m" "ttl_finalize now uid st approver reason m = (res, m')" "st = TtlApproved \<or> st = TtlDenied"
  shows "ttl_ok m' \<and> ttl_extends m m'"
proof (cases "hm_get (tm_requests m) uid")
  case None
  then have "m' = m" using assms(2) by (simp add: ttl_finalize_def)
  with assms(1) show ?thesis by (auto simp: ttl_extends_def)
next
  case (Some r)
  have r: "ttl_request_ok r" using assms(1) Some by (auto simp: ttl_ok_def ttl_get_def)
  consider "m' = m" | r' where "m' = m\<lparr> tm_requests := hm_insert uid r' (tm_requests m) \<rparr>" "ttl_request_ok r'" "ttl_keeps r r'"
  proof (cases "tr_status r = TtlPending")
    case True
    show ?thesis
    proof (cases "tr_expires_at r \<le> now")
      case late: True
      then have "stale now r" using True by (simp add: stale_def)
      from expire_request_ok [OF r this] show ?thesis
        using assms(2) True late Some that(2) by (auto simp: ttl_finalize_def)
    next
      case False
      let ?r = "r\<lparr> tr_status := st, tr_decided_at := Some now, tr_decided_by := Some approver, tr_decision_reason := reason \<rparr>"
      have "ttl_request_ok ?r" "ttl_keeps r ?r"
        using r assms(3) False True by (auto simp: ttl_request_ok_def ttl_keeps_def tr_is_pending_def)
      then show ?thesis using assms(2) True False Some that(2) by (auto simp: ttl_finalize_def Let_def)
    qed
  qed (use assms(2) Some in \<open>auto simp: ttl_finalize_def\<close>)
  then show ?thesis
  proof cases
    case 1
    with assms(1) show ?thesis by (auto simp: ttl_extends_def)
  next
    case 2
    then show ?thesis using assms(1) Some by (auto simp: ttl_ok_def ttl_extends_def ttl_get_def)
  qed
qed

lemma ttl_step_ok:
  assumes "ttl_step m m'" "ttl_ok m"
  shows "ttl_ok m' \<and> ttl_extends m m'"
  using assms(1)
proof cases
  case (ttl_requested uid now requester action reason ttl res)
  show ?thesis
  proof (cases "ttl \<le> 0")
    case True
    then have "m' = m" using ttl_requested(2) by (simp add: ttl_request_approval_def)
    with assms(2) show ?thesis by (auto simp: ttl_extends_def)
  next
    case False
    then obtain r where "m' = m\<lparr> tm_requests := hm_insert uid r (tm_requests m) \<rparr>" "ttl_request_ok r"
      using ttl_requested(2)
      by (auto simp: ttl_request_approval_def datetime_plus_def Let_def ttl_request_ok_def split: if_splits)
    with assms(2) ttl_requested(1) show ?thesis by (auto simp: ttl_ok_def ttl_extends_def ttl_get_def)
  qed
next
  case (ttl_approved now uid approver reason res)
  with ttl_finalize_step [OF assms(2)] show ?thesis by (simp add: ttl_approve_def)
next
  case (ttl_denied now uid approver reason res)
  with ttl_finalize_step [OF assms(2)] show ?thesis by (simp add: ttl_deny_def)
next
  case (ttl_swept now n)
  then have m': "m' = snd (expire_stale now m)" by simp
  have "ttl_request_ok r'" if "ttl_get uid m' = Some r'" for uid r'
    using that assms(2) expire_request_ok unfolding m' expire_stale_get by (auto simp: ttl_ok_def split: if_splits)
  moreover have "ttl_extends m m'"
    using assms(2) expire_request_ok unfolding ttl_extends_def m' expire_stale_get by (auto simp: ttl_ok_def)
  moreover have "hm_wf (tm_requests m')" using assms(2) expire_stale_wf unfolding m' ttl_ok_def by blast
  ultimately show ?thesis by (simp add: ttl_ok_def)
qed

interpretation ttl: invariant_machine ttl_step ttl_ok
  by unfold_locales (use ttl_step_ok in blast)

lemma ttl_star_extends: "ttl_step\<^sup>*\<^sup>* m m' \<Longrightarrow> ttl_ok m \<Longrightarrow> ttl_extends m m'"
proof (induction rule: rtranclp_induct)
  case base
  then show ?case by (auto simp: ttl_extends_def)
next
  case (step m1 m2)
  then have "ttl_ok m1" using ttl.star_inv by blast
  with step ttl_step_ok ttl_extends_trans show ?case by blast
qed

text \<open>
  In every reachable state a request that was approved or denied was decided before it
  expired, and one that expired was not decided in time; and from then on, under any
  further calls, no request disappears or changes its terms, and a decided or expired one
  never changes again.
\<close>

theorem ttl_decided_once:
  assumes "ttl_step\<^sup>*\<^sup>* ttl_manager_new m" "ttl_step\<^sup>*\<^sup>* m m'" "ttl_get uid m = Some r"
  shows "ttl_request_ok r \<and> (\<exists>r'. ttl_get uid m' = Some r' \<and> ttl_keeps r r')"
proof -
  have "ttl_ok ttl_manager_new" by (simp add: ttl_ok_def ttl_manager_new_def ttl_get_def)
  then have ok: "ttl_ok m" using ttl.star_inv [OF assms(1)] by blast
  with ttl_star_extends [OF assms(2)] assms(3) show ?thesis
    by (auto simp: ttl_ok_def ttl_extends_def)
qed

theorem ttl_decided_once_witness:
  "\<exists>m r. ttl_get 7 m = Some r \<and> tr_status r = TtlApproved \<and> ttl_request_ok r"
proof -
  let ?r = "\<lparr> tr_id = 7, tr_requester = ''u'', tr_action = ''a'', tr_reason = None, tr_status = TtlPending, tr_created_at = 0,
      tr_expires_at = 10, tr_decided_at = None, tr_decided_by = None, tr_decision_reason = None \<rparr>"
  let ?m1 = "\<lparr> tm_requests = [(7, ?r)] \<rparr>"
  have s1: "ttl_request_approval 7 0 ''u'' ''a'' None 10 ttl_manager_new = Returns (Inr ?r, ?m1)"
    by (simp add: ttl_request_approval_def datetime_plus_def datetime_in_range_def ttl_manager_new_def hash_eval Let_def)
  have "ttl_step ttl_manager_new ?m1"
    by (rule ttl_requested [OF _ s1]) (simp add: ttl_get_def ttl_manager_new_def)
  moreover obtain res m where s2: "ttl_approve 5 7 ''admin'' None ?m1 = (res, m)" by force
  then have "ttl_step ?m1 m" by (rule ttl_approved)
  ultimately have reach: "ttl_step\<^sup>*\<^sup>* ttl_manager_new m" by auto
  obtain r where r: "ttl_get 7 m = Some r" "tr_status r = TtlApproved"
    using s2 by (auto simp: ttl_approve_def ttl_finalize_def ttl_get_def hash_eval Let_def)
  from ttl_decided_once [OF reach rtranclp.rtrancl_refl r(1)] r show ?thesis by blast
qed

text \<open>A sweep leaves nothing stale and counts what it expired.\<close>

lemma expire_stale_count:
  "fst (expire_stale now m) = length (filter (\<lambda>e. stale now (snd e)) (tm_requests m))"
  by (simp add: expire_stale_def expire_entries_eq)

lemma expire_stale_none_left:
  assumes "ttl_get uid (snd (expire_stale now m)) = Some r"
  shows "\<not> stale now r"
proof -
  obtain r0 where "ttl_get uid m = Some r0"
    "r = (if stale now r0 then expire_request now ''approval expired due to timeout'' r0 else r0)"
    using assms unfolding expire_stale_get by auto
  then show ?thesis by (auto simp: stale_def expire_request_def)
qed

end
