(* ===== verification/Maintenance.thy ===== *)
theory Maintenance
  imports Fleet_Prelude
begin

text \<open>
  Maintenance mode (\<^verbatim>\<open>ff-core/src/maintenance.rs\<close>): entering and leaving, the drain of a
  node's tasks, and scheduled windows. Every clock read is an argument; a tick over the
  windows reads the clock up to three times per window and once more per window when it
  prunes, so it takes the clock as a function of the number of the read. Calls run one
  after another.
\<close>

section \<open>Entries and windows\<close>

datatype maintenance_phase = MpDraining | MpActive

primrec maintenance_phase_display :: "maintenance_phase \<Rightarrow> string" where
  "maintenance_phase_display MpDraining = ''Draining''"
| "maintenance_phase_display MpActive = ''Active (maintenance)''"

record maintenance_entry =
  me_node :: string
  me_phase :: maintenance_phase
  me_entered_at :: datetime
  me_drain_timeout :: std_duration
  me_drain_deadline :: datetime
  me_reason :: "string option"

definition drain_expired :: "datetime \<Rightarrow> maintenance_entry \<Rightarrow> bool" where
  "drain_expired now e \<longleftrightarrow> now \<ge> me_drain_deadline e"

definition drain_remaining :: "datetime \<Rightarrow> maintenance_entry \<Rightarrow> std_duration" where
  "drain_remaining now e =
     (let delta = me_drain_deadline e - now
      in if trunc_div delta 1000000 \<le> 0 then 0 else nat delta)"

record maintenance_window =
  mw_node :: string
  mw_start :: datetime
  mw_end :: datetime
  mw_drain_timeout :: std_duration
  mw_reason :: "string option"

definition mw_is_active :: "datetime \<Rightarrow> maintenance_window \<Rightarrow> bool" where
  "mw_is_active now w \<longleftrightarrow> now \<ge> mw_start w \<and> now < mw_end w"

definition mw_is_past :: "datetime \<Rightarrow> maintenance_window \<Rightarrow> bool" where
  "mw_is_past now w \<longleftrightarrow> now \<ge> mw_end w"

definition mw_is_upcoming :: "datetime \<Rightarrow> maintenance_window \<Rightarrow> bool" where
  "mw_is_upcoming now w \<longleftrightarrow> now < mw_start w"

section \<open>The manager\<close>

record maintenance_manager =
  mm_entries :: "(string, maintenance_entry) hmap"
  mm_windows :: "maintenance_window list"

definition maintenance_new :: maintenance_manager where
  "maintenance_new = \<lparr> mm_entries = [], mm_windows = [] \<rparr>"

definition drain_delta :: "std_duration \<Rightarrow> duration" where
  "drain_delta d = (case duration_from_std d of Some x \<Rightarrow> x | None \<Rightarrow> secs 300)"

definition maintenance_enter ::
  "datetime \<Rightarrow> string \<Rightarrow> std_duration \<Rightarrow> string option \<Rightarrow> maintenance_manager \<Rightarrow> maintenance_manager outcome" where
  "maintenance_enter now node drain_timeout reason mgr =
     (case datetime_plus now (drain_delta drain_timeout) of
        Panics \<Rightarrow> Panics
      | Returns drain_deadline \<Rightarrow>
          Returns (mgr\<lparr> mm_entries := hm_insert node
            \<lparr> me_node = node, me_phase = MpDraining, me_entered_at = now,
              me_drain_timeout = drain_timeout, me_drain_deadline = drain_deadline,
              me_reason = reason \<rparr> (mm_entries mgr) \<rparr>))"

definition maintenance_exit :: "string \<Rightarrow> maintenance_manager \<Rightarrow> bool \<times> maintenance_manager" where
  "maintenance_exit node mgr =
     (hm_contains (mm_entries mgr) node, mgr\<lparr> mm_entries := hm_remove node (mm_entries mgr) \<rparr>)"

definition is_in_maintenance :: "string \<Rightarrow> maintenance_manager \<Rightarrow> bool" where
  "is_in_maintenance node mgr = hm_contains (mm_entries mgr) node"

definition is_draining :: "datetime \<Rightarrow> string \<Rightarrow> maintenance_manager \<Rightarrow> bool" where
  "is_draining now node mgr =
     (case hm_get (mm_entries mgr) node of
        Some entry \<Rightarrow> me_phase entry = MpDraining \<and> \<not> drain_expired now entry
      | None \<Rightarrow> False)"

definition should_accept_work :: "string \<Rightarrow> maintenance_manager \<Rightarrow> bool" where
  "should_accept_work node mgr \<longleftrightarrow> \<not> is_in_maintenance node mgr"

definition maintenance_info :: "string \<Rightarrow> maintenance_manager \<Rightarrow> maintenance_entry option" where
  "maintenance_info node mgr = hm_get (mm_entries mgr) node"

definition list_maintenance ::
  "(maintenance_entry list \<Rightarrow> maintenance_entry list) \<Rightarrow> maintenance_manager \<Rightarrow> maintenance_entry list" where
  "list_maintenance it mgr = it (hm_values (mm_entries mgr))"

definition maintenance_count :: "maintenance_manager \<Rightarrow> nat" where
  "maintenance_count mgr = length (mm_entries mgr)"

text \<open>\<open>iter_mut\<close> visits every entry once, in any order, and may move it on.\<close>

definition drain_one ::
  "(string \<Rightarrow> datetime) \<Rightarrow> string \<times> maintenance_entry \<Rightarrow>
   string list \<times> (string, maintenance_entry) hmap \<Rightarrow> string list \<times> (string, maintenance_entry) hmap" where
  "drain_one clock ne acc =
     (case ne of (name, entry) \<Rightarrow>
        if me_phase entry = MpDraining \<and> drain_expired (clock name) entry
        then (fst acc @ [name], hm_insert name (entry\<lparr> me_phase := MpActive \<rparr>) (snd acc))
        else acc)"

definition tick_drain_progress ::
  "((string \<times> maintenance_entry) list \<Rightarrow> (string \<times> maintenance_entry) list) \<Rightarrow>
   (string \<Rightarrow> datetime) \<Rightarrow> maintenance_manager \<Rightarrow> string list \<times> maintenance_manager" where
  "tick_drain_progress it clock mgr =
     (let (transitioned, entries) = fold (drain_one clock) (it (mm_entries mgr)) ([], mm_entries mgr)
      in (transitioned, mgr\<lparr> mm_entries := entries \<rparr>))"

definition schedule_window :: "maintenance_window \<Rightarrow> maintenance_manager \<Rightarrow> maintenance_manager" where
  "schedule_window w mgr = mgr\<lparr> mm_windows := mm_windows mgr @ [w] \<rparr>"

text \<open>\<open>retain(|w| !w.is_past())\<close>, where the window at position \<open>j\<close> is tested at read \<open>k + j\<close>.\<close>

definition retain_windows ::
  "(nat \<Rightarrow> datetime) \<Rightarrow> nat \<Rightarrow> maintenance_window list \<Rightarrow> maintenance_window list" where
  "retain_windows clk k ws = map snd (filter (\<lambda>(j, w). \<not> mw_is_past (clk j) w) (enumerate k ws))"

definition list_windows ::
  "(nat \<Rightarrow> datetime) \<Rightarrow> maintenance_manager \<Rightarrow> maintenance_window list \<times> maintenance_manager" where
  "list_windows clk mgr =
     (let ws = retain_windows clk 0 (mm_windows mgr) in (ws, mgr\<lparr> mm_windows := ws \<rparr>))"

fun tick_windows ::
  "(nat \<Rightarrow> datetime) \<Rightarrow> nat \<Rightarrow> maintenance_window list \<Rightarrow> string list \<Rightarrow> string list \<Rightarrow> maintenance_manager \<Rightarrow>
   (string list \<times> string list \<times> maintenance_manager) outcome" where
  "tick_windows clk k [] entered exited mgr = Returns (entered, exited, mgr)"
| "tick_windows clk k (w # ws) entered exited mgr =
     (if mw_is_active (clk k) w \<and> \<not> is_in_maintenance (mw_node w) mgr
      then case maintenance_enter (clk (k + 1)) (mw_node w) (mw_drain_timeout w) (mw_reason w) mgr of
             Panics \<Rightarrow> Panics
           | Returns mgr1 \<Rightarrow> tick_windows clk (k + 3) ws (entered @ [mw_node w]) exited mgr1
      else if mw_is_past (clk (k + 2)) w \<and> is_in_maintenance (mw_node w) mgr
      then tick_windows clk (k + 3) ws entered (exited @ [mw_node w]) (snd (maintenance_exit (mw_node w) mgr))
      else tick_windows clk (k + 3) ws entered exited mgr)"

definition tick_scheduled_windows ::
  "(nat \<Rightarrow> datetime) \<Rightarrow> maintenance_manager \<Rightarrow> (string list \<times> string list \<times> maintenance_manager) outcome" where
  "tick_scheduled_windows clk mgr =
     (case tick_windows clk 0 (mm_windows mgr) [] [] mgr of
        Panics \<Rightarrow> Panics
      | Returns (entered, exited, mgr1) \<Rightarrow>
          Returns (entered, exited,
            mgr1\<lparr> mm_windows := retain_windows clk (3 * length (mm_windows mgr)) (mm_windows mgr1) \<rparr>))"

definition cancel_windows :: "string \<Rightarrow> maintenance_manager \<Rightarrow> nat \<times> maintenance_manager" where
  "cancel_windows node mgr =
     (let before = length (mm_windows mgr);
          ws = filter (\<lambda>w. mw_node w \<noteq> node) (mm_windows mgr)
      in (before - length ws, mgr\<lparr> mm_windows := ws \<rparr>))"

section \<open>A tick over the windows\<close>

text \<open>The windows of a node that a tick at \<open>now\<close> may act on, in the order they were scheduled.\<close>

definition due_windows :: "datetime \<Rightarrow> string \<Rightarrow> maintenance_window list \<Rightarrow> maintenance_window list" where
  "due_windows now n ws = filter (\<lambda>w. mw_node w = n \<and> (mw_is_active now w \<or> mw_is_past now w)) ws"

text \<open>No window starts or ends while the tick runs, and no drain deadline leaves the range of dates.\<close>

definition quiet_tick :: "(nat \<Rightarrow> datetime) \<Rightarrow> datetime \<Rightarrow> maintenance_window list \<Rightarrow> bool" where
  "quiet_tick clk now ws \<longleftrightarrow> (\<forall>w \<in> set ws. \<forall>k.
     mw_is_active (clk k) w = mw_is_active now w \<and> mw_is_past (clk k) w = mw_is_past now w \<and>
     datetime_in_range (clk k + drain_delta (mw_drain_timeout w)))"

lemma active_not_past: "mw_is_active now w \<Longrightarrow> \<not> mw_is_past now w"
  by (simp add: mw_is_active_def mw_is_past_def)

lemma in_maintenance_exit [simp]:
  "is_in_maintenance n (snd (maintenance_exit m mgr)) \<longleftrightarrow> n \<noteq> m \<and> is_in_maintenance n mgr"
  by (simp add: is_in_maintenance_def maintenance_exit_def hm_contains_def)

lemma maintenance_enter_returns:
  assumes "datetime_in_range (t + drain_delta d)"
  obtains mgr1 where "maintenance_enter t m d why mgr = Returns mgr1" "mm_windows mgr1 = mm_windows mgr"
    "\<And>n. is_in_maintenance n mgr1 \<longleftrightarrow> n = m \<or> is_in_maintenance n mgr"
    "\<And>n. n \<noteq> m \<Longrightarrow> hm_get (mm_entries mgr1) n = hm_get (mm_entries mgr) n"
  using assms by (simp add: maintenance_enter_def datetime_plus_def is_in_maintenance_def hm_contains_def)

text \<open>What a tick over \<open>ws\<close> makes of a node, and of the manager.\<close>

definition tick_node ::
  "datetime \<Rightarrow> maintenance_window list \<Rightarrow> maintenance_manager \<Rightarrow> string list \<Rightarrow> string list \<Rightarrow> maintenance_manager \<Rightarrow> string \<Rightarrow> bool" where
  "tick_node now ws mgr en ex mgr' n \<longleftrightarrow>
     is_in_maintenance n mgr' = (if due_windows now n ws = [] then is_in_maintenance n mgr
                                 else mw_is_active now (last (due_windows now n ws))) \<and>
     count_list en n + of_bool (is_in_maintenance n mgr) = count_list ex n + of_bool (is_in_maintenance n mgr') \<and>
     (due_windows now n ws = [] \<longrightarrow> hm_get (mm_entries mgr') n = hm_get (mm_entries mgr) n)"

definition tick_result ::
  "datetime \<Rightarrow> maintenance_window list \<Rightarrow> maintenance_manager \<Rightarrow> string list \<Rightarrow> string list \<Rightarrow> maintenance_manager \<Rightarrow> bool" where
  "tick_result now ws mgr en ex mgr' \<longleftrightarrow>
     mm_windows mgr' = mm_windows mgr \<and> (\<forall>n. tick_node now ws mgr en ex mgr' n)"

lemma due_windows_Cons:
  "due_windows now n (w # ws) =
     (if mw_node w = n \<and> (mw_is_active now w \<or> mw_is_past now w) then [w] else []) @ due_windows now n ws"
  by (simp add: due_windows_def)

lemma tick_result_skip:
  assumes "tick_result now ws mgr en ex mgr'"
    and "mw_is_active now w \<longrightarrow> is_in_maintenance (mw_node w) mgr"
    and "mw_is_past now w \<longrightarrow> \<not> is_in_maintenance (mw_node w) mgr"
  shows "tick_result now (w # ws) mgr en ex mgr'"
proof -
  have "tick_node now (w # ws) mgr en ex mgr' n" for n
    using assms active_not_past [of now w] by (cases "mw_node w = n") (auto simp: tick_result_def tick_node_def due_windows_Cons)
  then show ?thesis using assms(1) by (simp add: tick_result_def)
qed

lemma tick_result_enter:
  assumes "tick_result now ws mgr1 en ex mgr'" "mw_is_active now w" "\<not> is_in_maintenance (mw_node w) mgr"
    and "mm_windows mgr1 = mm_windows mgr"
    and "\<And>n. is_in_maintenance n mgr1 \<longleftrightarrow> n = mw_node w \<or> is_in_maintenance n mgr"
    and "\<And>n. n \<noteq> mw_node w \<Longrightarrow> hm_get (mm_entries mgr1) n = hm_get (mm_entries mgr) n"
  shows "tick_result now (w # ws) mgr (mw_node w # en) ex mgr'"
proof -
  have "tick_node now (w # ws) mgr (mw_node w # en) ex mgr' n" for n
  proof -
    have "tick_node now ws mgr1 en ex mgr' n" using assms(1) by (simp add: tick_result_def)
    with assms(2,3) assms(5,6) [of n] show ?thesis
      by (cases "mw_node w = n") (simp_all add: tick_node_def due_windows_Cons split: if_split_asm)
  qed
  then show ?thesis using assms(1,4) by (simp add: tick_result_def)
qed

lemma tick_result_exit:
  assumes "tick_result now ws (snd (maintenance_exit (mw_node w) mgr)) en ex mgr'"
    and "mw_is_past now w" "is_in_maintenance (mw_node w) mgr"
  shows "tick_result now (w # ws) mgr en (mw_node w # ex) mgr'"
proof -
  have "tick_node now (w # ws) mgr en (mw_node w # ex) mgr' n" for n
  proof -
    have "tick_node now ws (snd (maintenance_exit (mw_node w) mgr)) en ex mgr' n"
      using assms(1) by (simp add: tick_result_def)
    with assms(2,3) active_not_past [of now w] show ?thesis
      by (cases "mw_node w = n") (auto simp: tick_node_def due_windows_Cons maintenance_exit_def is_in_maintenance_def hm_contains_def split: if_split_asm)
  qed
  then show ?thesis using assms(1) by (simp add: tick_result_def maintenance_exit_def)
qed

lemma tick_windows_result:
  assumes "quiet_tick clk now ws"
  shows "\<exists>en ex mgr'. tick_windows clk k ws en0 ex0 mgr = Returns (en0 @ en, ex0 @ ex, mgr') \<and>
    tick_result now ws mgr en ex mgr'"
  using assms
proof (induction ws arbitrary: k en0 ex0 mgr)
  case Nil
  then show ?case by (simp add: tick_result_def tick_node_def due_windows_def)
next
  case (Cons w ws)
  have q: "quiet_tick clk now ws" using Cons.prems by (simp add: quiet_tick_def)
  have s: "mw_is_active (clk j) w = mw_is_active now w" "mw_is_past (clk j) w = mw_is_past now w"
    "datetime_in_range (clk j + drain_delta (mw_drain_timeout w))" for j
    using Cons.prems by (auto simp: quiet_tick_def)
  consider (enter) "mw_is_active now w" "\<not> is_in_maintenance (mw_node w) mgr"
    | (exit) "mw_is_past now w" "is_in_maintenance (mw_node w) mgr" "\<not> mw_is_active now w"
    | (skip) "mw_is_active now w \<longrightarrow> is_in_maintenance (mw_node w) mgr"
        "mw_is_past now w \<longrightarrow> \<not> is_in_maintenance (mw_node w) mgr"
    using active_not_past by blast
  then show ?case
  proof cases
    case enter
    obtain mgr1 where m1: "maintenance_enter (clk (k + 1)) (mw_node w) (mw_drain_timeout w) (mw_reason w) mgr = Returns mgr1"
      "mm_windows mgr1 = mm_windows mgr"
      "\<And>n. is_in_maintenance n mgr1 \<longleftrightarrow> n = mw_node w \<or> is_in_maintenance n mgr"
      "\<And>n. n \<noteq> mw_node w \<Longrightarrow> hm_get (mm_entries mgr1) n = hm_get (mm_entries mgr) n"
      using maintenance_enter_returns [OF s(3)] by metis
    obtain en ex mgr' where r: "tick_windows clk (k + 3) ws (en0 @ [mw_node w]) ex0 mgr1 =
        Returns ((en0 @ [mw_node w]) @ en, ex0 @ ex, mgr')" "tick_result now ws mgr1 en ex mgr'"
      using Cons.IH [OF q] by blast
    show ?thesis
      by (rule exI [of _ "mw_node w # en"], rule exI [of _ ex], rule exI [of _ mgr'])
        (use r(1) m1(1) enter s tick_result_enter [OF r(2) enter m1(2-4)] in simp)
  next
    case exit
    obtain en ex mgr' where r: "tick_windows clk (k + 3) ws en0 (ex0 @ [mw_node w]) (snd (maintenance_exit (mw_node w) mgr)) =
        Returns (en0 @ en, (ex0 @ [mw_node w]) @ ex, mgr')"
        "tick_result now ws (snd (maintenance_exit (mw_node w) mgr)) en ex mgr'"
      using Cons.IH [OF q] by blast
    show ?thesis
      by (rule exI [of _ en], rule exI [of _ "mw_node w # ex"], rule exI [of _ mgr'])
        (use r(1) exit s tick_result_exit [OF r(2) exit(1,2)] in simp)
  next
    case skip
    obtain en ex mgr' where r: "tick_windows clk (k + 3) ws en0 ex0 mgr = Returns (en0 @ en, ex0 @ ex, mgr')"
        "tick_result now ws mgr en ex mgr'"
      using Cons.IH [OF q] by blast
    show ?thesis
      by (rule exI [of _ en], rule exI [of _ ex], rule exI [of _ mgr'])
        (use r(1) skip s tick_result_skip [OF r(2) skip] in auto)
  qed
qed

lemma retain_windows_quiet:
  "\<forall>w \<in> set ws. \<forall>j. mw_is_past (clk j) w = mw_is_past now w \<Longrightarrow>
   retain_windows clk k ws = filter (\<lambda>w. \<not> mw_is_past now w) ws"
  by (induction ws arbitrary: k) (auto simp: retain_windows_def)

text \<open>
  A tick during which no window starts or ends returns (no deadline being out of range),
  drops the past windows and keeps the others. A node with a current or past window ends in
  maintenance exactly when the one scheduled last among these is current; any other node is
  left as it was, entry included. The names returned account for the change: a node enters as
  often more than it exits as its state says.
\<close>

theorem maintenance_tick_exact:
  assumes "quiet_tick clk now (mm_windows mgr)"
  shows "\<exists>entered exited mgr'. tick_scheduled_windows clk mgr = Returns (entered, exited, mgr') \<and>
    mm_windows mgr' = filter (\<lambda>w. \<not> mw_is_past now w) (mm_windows mgr) \<and>
    (\<forall>n. (due_windows now n (mm_windows mgr) \<noteq> [] \<longrightarrow>
           should_accept_work n mgr' = (\<not> mw_is_active now (last (due_windows now n (mm_windows mgr))))) \<and>
         (due_windows now n (mm_windows mgr) = [] \<longrightarrow> maintenance_info n mgr' = maintenance_info n mgr) \<and>
         count_list entered n + of_bool (is_in_maintenance n mgr) =
           count_list exited n + of_bool (is_in_maintenance n mgr'))"
proof -
  let ?ws = "mm_windows mgr"
  obtain en ex mgr1 where r: "tick_windows clk 0 ?ws [] [] mgr = Returns (en, ex, mgr1)"
    "tick_result now ?ws mgr en ex mgr1"
    using tick_windows_result [OF assms, of 0 "[]" "[]" mgr] by auto
  define mgr' where "mgr' = mgr1\<lparr> mm_windows := filter (\<lambda>w. \<not> mw_is_past now w) ?ws \<rparr>"
  have w1: "mm_windows mgr1 = ?ws" using r(2) by (simp add: tick_result_def)
  have "tick_scheduled_windows clk mgr = Returns (en, ex, mgr')"
    using r(1) w1 assms retain_windows_quiet [of ?ws clk now]
    by (simp add: tick_scheduled_windows_def mgr'_def quiet_tick_def)
  moreover have "tick_node now ?ws mgr en ex mgr1 n" for n using r(2) by (simp add: tick_result_def)
  moreover have "is_in_maintenance n mgr' = is_in_maintenance n mgr1" "maintenance_info n mgr' = maintenance_info n mgr1" for n
    by (simp_all add: mgr'_def is_in_maintenance_def maintenance_info_def)
  moreover have "mm_windows mgr' = filter (\<lambda>w. \<not> mw_is_past now w) ?ws" by (simp add: mgr'_def)
  ultimately show ?thesis
    by (intro exI [of _ en] exI [of _ ex] exI [of _ mgr'])
      (simp add: tick_node_def should_accept_work_def maintenance_info_def)
qed

definition plain_window :: "string \<Rightarrow> datetime \<Rightarrow> datetime \<Rightarrow> maintenance_window" where
  "plain_window n a b = \<lparr> mw_node = n, mw_start = a, mw_end = b, mw_drain_timeout = 0, mw_reason = None \<rparr>"

definition held_entry :: "string \<Rightarrow> datetime \<Rightarrow> maintenance_entry" where
  "held_entry n t = \<lparr> me_node = n, me_phase = MpActive, me_entered_at = t, me_drain_timeout = 0,
     me_drain_deadline = t, me_reason = None \<rparr>"

lemmas maintenance_eval =
  plain_window_def held_entry_def mw_is_active_def mw_is_past_def is_in_maintenance_def maintenance_info_def
  maintenance_enter_def maintenance_exit_def drain_delta_def duration_from_std_def datetime_plus_def
  datetime_in_range_def hash_eval hm_contains_def tick_scheduled_windows_def retain_windows_def
  should_accept_work_def

theorem maintenance_tick_exact_witness:
  "\<exists>entered exited mgr'. tick_scheduled_windows (\<lambda>_. 50)
      \<lparr> mm_entries = [(''b'', held_entry ''b'' 1)],
        mm_windows = [plain_window ''a'' 0 100, plain_window ''b'' 0 10] \<rparr> = Returns (entered, exited, mgr') \<and>
    \<not> should_accept_work ''a'' mgr' \<and> should_accept_work ''b'' mgr' \<and> count_list entered ''a'' = 1"
proof -
  let ?ws = "[plain_window ''a'' 0 100, plain_window ''b'' 0 10]"
  let ?m = "\<lparr> mm_entries = [(''b'', held_entry ''b'' 1)], mm_windows = ?ws \<rparr>"
  have q: "quiet_tick (\<lambda>_. 50) 50 (mm_windows ?m)"
    by (simp add: quiet_tick_def maintenance_eval)
  have due: "due_windows 50 ''a'' ?ws = [plain_window ''a'' 0 100]" "due_windows 50 ''b'' ?ws = [plain_window ''b'' 0 10]"
    by (simp_all add: due_windows_def maintenance_eval)
  have act: "mw_is_active 50 (plain_window ''a'' 0 100)" "\<not> mw_is_active 50 (plain_window ''b'' 0 10)"
    "\<not> is_in_maintenance ''a'' ?m"
    by (simp_all add: maintenance_eval)
  obtain en ex mgr' where r: "tick_scheduled_windows (\<lambda>_. 50) ?m = Returns (en, ex, mgr')"
    "\<forall>n. (due_windows 50 n ?ws \<noteq> [] \<longrightarrow> should_accept_work n mgr' = (\<not> mw_is_active 50 (last (due_windows 50 n ?ws)))) \<and>
       count_list en n + of_bool (is_in_maintenance n ?m) = count_list ex n + of_bool (is_in_maintenance n mgr')"
    using maintenance_tick_exact [OF q] by auto
  have "\<not> should_accept_work ''a'' mgr'" "should_accept_work ''b'' mgr'"
    using r(2) [rule_format, of "''a''"] r(2) [rule_format, of "''b''"] due act by simp_all
  moreover have "en = [''a'']" using r(1) by (auto simp: maintenance_eval)
  ultimately show ?thesis using r(1) by (intro exI [of _ en] exI [of _ ex] exI [of _ mgr']) simp
qed

text \<open>
  Two ways the windows fail their purpose. An older window that ends releases a node that a
  window scheduled before it still holds; and a window that ends between the loop of a tick and
  its pruning is forgotten while its node stays in maintenance, with no window left to
  release it.
\<close>

lemma past_window_releases_active:
  "tick_scheduled_windows (\<lambda>_. 50)
     \<lparr> mm_entries = [(''a'', held_entry ''a'' 1)],
       mm_windows = [plain_window ''a'' 0 100, plain_window ''a'' 0 10] \<rparr> =
   Returns ([], [''a''], \<lparr> mm_entries = [], mm_windows = [plain_window ''a'' 0 100] \<rparr>)"
  by (simp add: maintenance_eval)

lemma window_ending_during_tick_sticks:
  "tick_scheduled_windows (\<lambda>k. 98 + int k)
     \<lparr> mm_entries = [(''a'', held_entry ''a'' 1)], mm_windows = [plain_window ''a'' 0 101] \<rparr> =
   Returns ([], [], \<lparr> mm_entries = [(''a'', held_entry ''a'' 1)], mm_windows = [] \<rparr>)"
  by (simp add: maintenance_eval)

lemma no_windows_no_release:
  "mm_windows mgr = [] \<Longrightarrow> tick_scheduled_windows clk mgr = Returns ([], [], mgr)"
  by (simp add: tick_scheduled_windows_def retain_windows_def)

section \<open>The drain\<close>

text \<open>
  The manager with the latest clock read, under every call; the reads of a call lie between
  the latest read before it and the one after it.
\<close>

inductive maintenance_step :: "datetime \<times> maintenance_manager \<Rightarrow> datetime \<times> maintenance_manager \<Rightarrow> bool" where
  "now \<le> t \<Longrightarrow> maintenance_enter t n d why mgr = Returns mgr' \<Longrightarrow> maintenance_step (now, mgr) (t, mgr')"
| "now \<le> t \<Longrightarrow> maintenance_step (now, mgr) (t, snd (maintenance_exit n mgr))"
| "\<forall>n. now \<le> clock n \<and> clock n \<le> t \<Longrightarrow> now \<le> t \<Longrightarrow> hash_iter it \<Longrightarrow>
     maintenance_step (now, mgr) (t, snd (tick_drain_progress it clock mgr))"
| "now \<le> t \<Longrightarrow> maintenance_step (now, mgr) (t, schedule_window w mgr)"
| "now \<le> t \<Longrightarrow> maintenance_step (now, mgr) (t, snd (list_windows clk mgr))"
| "\<forall>k. now \<le> clk k \<and> clk k \<le> t \<Longrightarrow> now \<le> t \<Longrightarrow>
     tick_scheduled_windows clk mgr = Returns (entered, exited, mgr') \<Longrightarrow> maintenance_step (now, mgr) (t, mgr')"
| "now \<le> t \<Longrightarrow> maintenance_step (now, mgr) (t, snd (cancel_windows n mgr))"

definition entry_ok :: "datetime \<Rightarrow> string \<Rightarrow> maintenance_entry \<Rightarrow> bool" where
  "entry_ok now n e \<longleftrightarrow> me_node e = n \<and> me_entered_at e \<le> now \<and>
     me_drain_deadline e = me_entered_at e + drain_delta (me_drain_timeout e) \<and>
     (me_phase e = MpActive \<longrightarrow> me_drain_deadline e \<le> now)"

definition entries_ok :: "datetime \<Rightarrow> (string, maintenance_entry) hmap \<Rightarrow> bool" where
  "entries_ok now es \<longleftrightarrow> hm_wf es \<and> (\<forall>n e. hm_get es n = Some e \<longrightarrow> entry_ok now n e)"

definition maintenance_ok :: "datetime \<times> maintenance_manager \<Rightarrow> bool" where
  "maintenance_ok s = entries_ok (fst s) (mm_entries (snd s))"

lemma entry_ok_mono: "entry_ok now n e \<Longrightarrow> now \<le> t \<Longrightarrow> entry_ok t n e"
  by (auto simp: entry_ok_def)

lemma entries_ok_mono: "entries_ok now es \<Longrightarrow> now \<le> t \<Longrightarrow> entries_ok t es"
  by (auto simp: entries_ok_def intro: entry_ok_mono)

lemma entries_ok_enter:
  assumes "maintenance_enter t n d why mgr = Returns mgr'" "entries_ok u (mm_entries mgr)" "t \<le> u"
  shows "entries_ok u (mm_entries mgr')"
proof -
  let ?e = "\<lparr> me_node = n, me_phase = MpDraining, me_entered_at = t, me_drain_timeout = d,
              me_drain_deadline = t + drain_delta d, me_reason = why \<rparr>"
  have "mm_entries mgr' = hm_insert n ?e (mm_entries mgr)"
    using assms(1) by (auto simp: maintenance_enter_def datetime_plus_def split: if_splits)
  moreover have "entry_ok u n ?e" using assms(3) by (simp add: entry_ok_def)
  ultimately show ?thesis using assms(2) by (simp add: entries_ok_def)
qed

lemma entries_ok_exit: "entries_ok now (mm_entries mgr) \<Longrightarrow> entries_ok now (mm_entries (snd (maintenance_exit n mgr)))"
  by (simp add: entries_ok_def maintenance_exit_def)

lemma entries_ok_tick_windows:
  assumes "tick_windows clk k ws en ex mgr = Returns (en', ex', mgr')" "entries_ok now (mm_entries mgr)"
    "\<forall>k. now \<le> clk k \<and> clk k \<le> t"
  shows "entries_ok t (mm_entries mgr')"
proof -
  have "now \<le> t" using assms(3) order_trans by blast
  then have "entries_ok t (mm_entries mgr)" by (rule entries_ok_mono [OF assms(2)])
  with assms(1,3) show ?thesis
    by (induction clk k ws en ex mgr rule: tick_windows.induct)
      (auto simp: entries_ok_exit split: if_splits outcome.splits intro: entries_ok_enter)
qed

section \<open>Moving the drained nodes on\<close>

abbreviation drained :: "(string \<Rightarrow> datetime) \<Rightarrow> string \<times> maintenance_entry \<Rightarrow> bool" where
  "drained clock ne \<equiv> me_phase (snd ne) = MpDraining \<and> drain_expired (clock (fst ne)) (snd ne)"

lemma drain_fold:
  "fold (drain_one clock) l acc =
     (fst acc @ map fst (filter (drained clock) l),
      hm_iter_mut (\<lambda>n e. drained clock (n, e)) (\<lambda>n e. e\<lparr> me_phase := MpActive \<rparr>) l (snd acc))"
  by (induction l arbitrary: acc) (auto simp: drain_one_def hm_iter_mut_def)

lemma tick_drain_info:
  "hm_wf (mm_entries mgr) \<Longrightarrow> hash_iter it \<Longrightarrow>
   maintenance_info n (snd (tick_drain_progress it clock mgr)) =
     map_option (\<lambda>e. if drained clock (n, e) then e\<lparr> me_phase := MpActive \<rparr> else e) (maintenance_info n mgr)"
  by (simp add: tick_drain_progress_def maintenance_info_def drain_fold hm_get_iter_mut)

lemma tick_drain_names:
  assumes "hm_wf (mm_entries mgr)" "hash_iter it"
  shows "distinct (fst (tick_drain_progress it clock mgr)) \<and>
    set (fst (tick_drain_progress it clock mgr)) = {n. \<exists>e. maintenance_info n mgr = Some e \<and> drained clock (n, e)}"
proof
  let ?l = "filter (drained clock) (it (mm_entries mgr))"
  have f: "fst (tick_drain_progress it clock mgr) = map fst ?l"
    by (simp add: tick_drain_progress_def drain_fold)
  show "distinct (fst (tick_drain_progress it clock mgr))"
    unfolding f by (rule distinct_map_filter [OF hash_iter_keys [OF assms(2,1)]])
  show "set (fst (tick_drain_progress it clock mgr)) = {n. \<exists>e. maintenance_info n mgr = Some e \<and> drained clock (n, e)}"
    unfolding f maintenance_info_def hm_mem_iff [OF assms(1), symmetric]
    by (auto simp: hash_iter_set [OF assms(2)] image_iff)
qed

lemma entries_ok_tick_drain:
  assumes "entries_ok now (mm_entries mgr)" "hash_iter it" "\<forall>n. clock n \<le> t" "now \<le> t"
  shows "entries_ok t (mm_entries (snd (tick_drain_progress it clock mgr)))"
proof -
  have wf: "hm_wf (mm_entries mgr)" using assms(1) by (simp add: entries_ok_def)
  have ok: "entry_ok t n (if drained clock (n, e) then e\<lparr> me_phase := MpActive \<rparr> else e)" if "entry_ok t n e" for n e
    using that assms(3) by (auto simp: entry_ok_def drain_expired_def intro: order_trans)
  have "entry_ok t n e'" if "hm_get (mm_entries (snd (tick_drain_progress it clock mgr))) n = Some e'" for n e'
  proof -
    have "maintenance_info n (snd (tick_drain_progress it clock mgr)) = Some e'" using that by (simp add: maintenance_info_def)
    then obtain e where "maintenance_info n mgr = Some e" "e' = (if drained clock (n, e) then e\<lparr> me_phase := MpActive \<rparr> else e)"
      unfolding tick_drain_info [OF wf assms(2)] by auto
    moreover from this(1) have "entry_ok t n e"
      using entries_ok_mono [OF assms(1,4)] by (simp add: entries_ok_def maintenance_info_def)
    ultimately show ?thesis using ok by blast
  qed
  moreover have "hm_wf (mm_entries (snd (tick_drain_progress it clock mgr)))"
    using wf by (simp add: tick_drain_progress_def drain_fold hm_wf_iter_mut)
  ultimately show ?thesis by (simp add: entries_ok_def)
qed

lemma maintenance_step_ok: "maintenance_step s t \<Longrightarrow> maintenance_ok s \<Longrightarrow> maintenance_ok t"
proof (induction rule: maintenance_step.induct)
  case (6 now clk t mgr entered exited mgr')
  then show ?case
    by (auto simp: maintenance_ok_def tick_scheduled_windows_def split: outcome.splits
        dest: entries_ok_tick_windows)
qed (auto simp: maintenance_ok_def schedule_window_def list_windows_def cancel_windows_def Let_def
      intro: entries_ok_mono entries_ok_enter entries_ok_exit entries_ok_tick_drain)

interpretation maint: invariant_machine maintenance_step maintenance_ok
  by unfold_locales (rule maintenance_step_ok)

text \<open>
  However a manager was used, a node counts as draining exactly while its deadline is
  ahead; a drain tick reports every node whose drain is over once and no other, and
  afterwards the phase of each entry tells whether its deadline has passed, with all else
  unchanged.
\<close>

theorem maintenance_drain_exact:
  assumes "maintenance_step\<^sup>*\<^sup>* (t0, maintenance_new) (now, mgr)" "hash_iter it"
    and "tick_drain_progress it (\<lambda>_. now) mgr = (moved, mgr')"
  shows "(\<forall>n. is_draining now n mgr = (\<exists>e. maintenance_info n mgr = Some e \<and> now < me_drain_deadline e)) \<and>
    distinct moved \<and>
    set moved = {n. \<exists>e. maintenance_info n mgr = Some e \<and> me_phase e = MpDraining \<and> me_drain_deadline e \<le> now} \<and>
    (\<forall>n. maintenance_info n mgr' = map_option
       (\<lambda>e. e\<lparr> me_phase := (if now < me_drain_deadline e then MpDraining else MpActive) \<rparr>) (maintenance_info n mgr))"
proof -
  have "maintenance_ok (t0, maintenance_new)" by (simp add: maintenance_ok_def entries_ok_def maintenance_new_def)
  then have ok: "entries_ok now (mm_entries mgr)" using maint.star_inv [OF assms(1)] by (simp add: maintenance_ok_def)
  then have wf: "hm_wf (mm_entries mgr)" by (simp add: entries_ok_def)
  have ph: "me_phase e = MpDraining" if "maintenance_info n mgr = Some e" "now < me_drain_deadline e" for n e
  proof (cases "me_phase e")
    case MpActive
    have "entry_ok now n e" using ok that(1) by (simp add: entries_ok_def maintenance_info_def)
    with MpActive that(2) show ?thesis by (simp add: entry_ok_def)
  qed
  have phase: "(if drained (\<lambda>_. now) (n, e) then e\<lparr> me_phase := MpActive \<rparr> else e) =
      e\<lparr> me_phase := (if now < me_drain_deadline e then MpDraining else MpActive) \<rparr>"
    if "maintenance_info n mgr = Some e" for n e
    using ph [OF that] by (cases "me_phase e") (auto simp: drain_expired_def)
  have "is_draining now n mgr = (\<exists>e. maintenance_info n mgr = Some e \<and> now < me_drain_deadline e)" for n
    using ph by (auto simp: is_draining_def maintenance_info_def drain_expired_def split: option.splits)
  moreover have "maintenance_info n mgr' = map_option
      (\<lambda>e. e\<lparr> me_phase := (if now < me_drain_deadline e then MpDraining else MpActive) \<rparr>) (maintenance_info n mgr)" for n
    using tick_drain_info [OF wf assms(2), of n "\<lambda>_. now"] phase [of n] assms(3)
    by (cases "maintenance_info n mgr") simp_all
  moreover have "distinct moved" "set moved =
      {n. \<exists>e. maintenance_info n mgr = Some e \<and> me_phase e = MpDraining \<and> me_drain_deadline e \<le> now}"
    using tick_drain_names [OF wf assms(2), of "\<lambda>_. now"] assms(3) by (simp_all add: drain_expired_def)
  ultimately show ?thesis by blast
qed

definition drain_state :: "maintenance_phase \<Rightarrow> maintenance_manager" where
  "drain_state ph = \<lparr> mm_entries = [(''a'', \<lparr> me_node = ''a'', me_phase = ph, me_entered_at = 3,
     me_drain_timeout = 10, me_drain_deadline = 13, me_reason = None \<rparr>)], mm_windows = [] \<rparr>"

lemma drain_state_reachable:
  assumes "3 \<le> t"
  shows "maintenance_step\<^sup>*\<^sup>* (0, maintenance_new) (t, drain_state MpDraining)"
proof -
  have "maintenance_enter 3 ''a'' 10 None maintenance_new = Returns (drain_state MpDraining)"
    by (simp add: maintenance_eval maintenance_new_def drain_state_def)
  then have 1: "maintenance_step (0, maintenance_new) (3, drain_state MpDraining)" by (intro maintenance_step.intros(1)) auto
  have "snd (cancel_windows ''b'' (drain_state MpDraining)) = drain_state MpDraining"
    by (simp add: cancel_windows_def drain_state_def)
  with maintenance_step.intros(7) [OF assms, of "drain_state MpDraining" "''b''"]
  have "maintenance_step (3, drain_state MpDraining) (t, drain_state MpDraining)" by simp
  with 1 show ?thesis by (rule converse_rtranclp_into_rtranclp [OF _ r_into_rtranclp])
qed

theorem maintenance_drain_exact_witness:
  "is_draining 5 ''a'' (drain_state MpDraining) \<and>
   maintenance_info ''a'' (snd (tick_drain_progress rev (\<lambda>_. 20) (drain_state MpDraining))) =
     maintenance_info ''a'' (drain_state MpActive)"
proof
  obtain moved mgr' where "tick_drain_progress rev (\<lambda>_. 5) (drain_state MpDraining) = (moved, mgr')" by (rule prod.exhaust)
  then have "is_draining 5 ''a'' (drain_state MpDraining) =
      (\<exists>e. maintenance_info ''a'' (drain_state MpDraining) = Some e \<and> 5 < me_drain_deadline e)"
    using maintenance_drain_exact [OF drain_state_reachable [of 5] hash_iter_rev] by simp
  then show "is_draining 5 ''a'' (drain_state MpDraining)" by (simp add: drain_state_def maintenance_eval)
  obtain moved mgr' where t: "tick_drain_progress rev (\<lambda>_. 20) (drain_state MpDraining) = (moved, mgr')" by (rule prod.exhaust)
  then have "maintenance_info ''a'' mgr' = map_option
      (\<lambda>e. e\<lparr> me_phase := (if 20 < me_drain_deadline e then MpDraining else MpActive) \<rparr>)
      (maintenance_info ''a'' (drain_state MpDraining))"
    using maintenance_drain_exact [OF drain_state_reachable [of 20] hash_iter_rev] by simp
  with t show "maintenance_info ''a'' (snd (tick_drain_progress rev (\<lambda>_. 20) (drain_state MpDraining))) =
      maintenance_info ''a'' (drain_state MpActive)"
    by (simp add: drain_state_def maintenance_eval)
qed

end
