(* ===== verification/Deploy_Plan.thy ===== *)
theory Deploy_Plan
  imports Complex_Main Fleet_Prelude
begin

text \<open>
  Rollout strategies and rollout plans (\<^verbatim>\<open>ff-deploy/src/strategy.rs\<close>, \<^verbatim>\<open>rollout.rs\<close>). A
  percentage is a \<open>u8\<close> and a count of targets a \<open>usize\<close> of 64 bits, as in the source. The
  planner is shown to accept exactly the valid strategies and to plan counts that grow, reach
  every target and never fall short of the percentage of their step.
\<close>

section \<open>Strategies\<close>

record canary_strategy =
  cy_initial_percent :: u8
  cy_step_percent :: u8
  cy_pause_secs :: u64
  cy_max_error_rate :: rat

record staged_strategy =
  sg_progression :: "u8 list"
  sg_pause_secs :: u64
  sg_max_error_rate :: rat

record full_strategy =
  fl_pause_secs :: u64
  fl_max_error_rate :: rat

datatype rollout_strategy =
    CanaryRollout canary_strategy | StagedRollout staged_strategy | FullRollout full_strategy

datatype strategy_error =
    InvalidPercent string u8 | InvalidThreshold string rat
  | EmptyProgression | NonMonotonicProgression | MustEndAtOneHundred

definition canary_strategy_default :: canary_strategy where
  "canary_strategy_default =
     \<lparr> cy_initial_percent = 10, cy_step_percent = 20, cy_pause_secs = 60, cy_max_error_rate = 2 / 100 \<rparr>"

definition staged_strategy_default :: staged_strategy where
  "staged_strategy_default =
     \<lparr> sg_progression = [25, 50, 100], sg_pause_secs = 120, sg_max_error_rate = 3 / 100 \<rparr>"

definition full_strategy_default :: full_strategy where
  "full_strategy_default = \<lparr> fl_pause_secs = 0, fl_max_error_rate = 5 / 100 \<rparr>"

definition unit_interval :: "rat \<Rightarrow> bool" where
  "unit_interval x \<longleftrightarrow> 0 \<le> x \<and> x \<le> 1"

definition validate_canary :: "canary_strategy \<Rightarrow> (unit, strategy_error) result" where
  "validate_canary c =
     (if cy_initial_percent c = 0 \<or> cy_initial_percent c \<ge> 100
      then Inl (InvalidPercent ''canary.initial_percent'' (cy_initial_percent c))
      else if cy_step_percent c = 0 \<or> cy_step_percent c \<ge> 100
      then Inl (InvalidPercent ''canary.step_percent'' (cy_step_percent c))
      else if \<not> unit_interval (cy_max_error_rate c)
      then Inl (InvalidThreshold ''canary.max_error_rate'' (cy_max_error_rate c))
      else Inr ())"

fun validate_stages :: "u8 \<Rightarrow> u8 list \<Rightarrow> strategy_error option" where
  "validate_stages prev [] = None"
| "validate_stages prev (v # vs) =
     (if v = 0 \<or> v > 100 then Some (InvalidPercent ''staged.progression'' v)
      else if v \<le> prev then Some NonMonotonicProgression
      else validate_stages v vs)"

definition last_opt :: "'a list \<Rightarrow> 'a option" where
  "last_opt xs = (if xs = [] then None else Some (last xs))"

definition validate_staged :: "staged_strategy \<Rightarrow> (unit, strategy_error) result" where
  "validate_staged s =
     (if sg_progression s = [] then Inl EmptyProgression
      else case validate_stages 0 (sg_progression s) of
        Some err \<Rightarrow> Inl err
      | None \<Rightarrow>
          if last_opt (sg_progression s) \<noteq> Some 100 then Inl MustEndAtOneHundred
          else if \<not> unit_interval (sg_max_error_rate s)
          then Inl (InvalidThreshold ''staged.max_error_rate'' (sg_max_error_rate s))
          else Inr ())"

definition validate_full :: "full_strategy \<Rightarrow> (unit, strategy_error) result" where
  "validate_full f =
     (if \<not> unit_interval (fl_max_error_rate f)
      then Inl (InvalidThreshold ''full.max_error_rate'' (fl_max_error_rate f)) else Inr ())"

lemma saturating_step: "pct < 100 \<Longrightarrow> unat (min (saturating_add pct step) (100 :: u8)) = min (unat pct + unat step) 100"
  by (auto simp: min_def unat_saturating_add word_le_nat_alt word_less_nat_alt)

text \<open>
  The \<open>while\<close> loop of a canary: the percentage grows by the step, saturating, up to 100, and
  a step that adds nothing leaves the loop.
\<close>

function canary_loop :: "u8 \<Rightarrow> u8 \<Rightarrow> u8 list \<Rightarrow> u8 list" where
  "canary_loop step pct prog =
     (if pct < 100
      then let pct' = min (saturating_add pct step) 100
           in if last_opt prog \<noteq> Some pct' then canary_loop step pct' (prog @ [pct']) else prog
      else prog)"
  by pat_completeness auto

termination
proof (relation "measure (\<lambda>(step, pct, prog). 2 * (256 - unat pct) + of_bool (last_opt prog \<noteq> Some pct))", simp)
  fix step pct :: u8 and prog pct'
  assume lt: "pct < 100" and p: "pct' = min (saturating_add pct step) 100" and n: "last_opt prog \<noteq> Some pct'"
  have "unat pct \<le> unat pct'" "unat pct' \<le> 100"
    using lt saturating_step [OF lt, of step] by (auto simp: p word_less_nat_alt)
  then show "((step, pct', prog @ [pct']), (step, pct, prog))
      \<in> measure (\<lambda>(step, pct, prog). 2 * (256 - unat pct) + of_bool (last_opt prog \<noteq> Some pct))"
    using n by (cases "unat pct = unat pct'") (auto simp: last_opt_def word_unat_eq_iff)
qed

declare canary_loop.simps [simp del]

definition canary_progression :: "canary_strategy \<Rightarrow> u8 list" where
  "canary_progression c =
     (let pct = cy_initial_percent c;
          prog = canary_loop (cy_step_percent c) pct [pct]
      in if last_opt prog \<noteq> Some 100 then prog @ [100] else prog)"

primrec strategy_name :: "rollout_strategy \<Rightarrow> string" where
  "strategy_name (CanaryRollout c) = ''canary''"
| "strategy_name (StagedRollout s) = ''staged''"
| "strategy_name (FullRollout f) = ''full''"

primrec validate_strategy :: "rollout_strategy \<Rightarrow> (unit, strategy_error) result" where
  "validate_strategy (CanaryRollout c) = validate_canary c"
| "validate_strategy (StagedRollout s) = validate_staged s"
| "validate_strategy (FullRollout f) = validate_full f"

primrec strategy_progression :: "rollout_strategy \<Rightarrow> u8 list" where
  "strategy_progression (CanaryRollout c) = canary_progression c"
| "strategy_progression (StagedRollout s) = sg_progression s"
| "strategy_progression (FullRollout f) = [100]"

primrec strategy_pause_secs :: "rollout_strategy \<Rightarrow> u64" where
  "strategy_pause_secs (CanaryRollout c) = cy_pause_secs c"
| "strategy_pause_secs (StagedRollout s) = sg_pause_secs s"
| "strategy_pause_secs (FullRollout f) = fl_pause_secs f"

primrec strategy_max_error_rate :: "rollout_strategy \<Rightarrow> rat" where
  "strategy_max_error_rate (CanaryRollout c) = cy_max_error_rate c"
| "strategy_max_error_rate (StagedRollout s) = sg_max_error_rate s"
| "strategy_max_error_rate (FullRollout f) = fl_max_error_rate f"

section \<open>Plans\<close>

datatype deploy_phase = CanaryPhase | StagePhase nat | FullPhase

record deploy_step =
  ds_index :: nat
  ds_phase :: deploy_phase
  ds_target_percent :: u8
  ds_target_count :: u64
  ds_pause_after_secs :: u64

record deploy_plan =
  dp_id :: uuid
  dp_strategy :: rollout_strategy
  dp_total_targets :: u64
  dp_steps :: "deploy_step list"
  dp_created_at :: datetime

datatype deploy_plan_error = InvalidStrategy strategy_error | InvalidTargetCount u64

definition final_percent :: "deploy_plan \<Rightarrow> u8 option" where
  "final_percent p = map_option ds_target_percent (last_opt (dp_steps p))"

definition phase_for :: "rollout_strategy \<Rightarrow> nat \<Rightarrow> u8 \<Rightarrow> deploy_phase" where
  "phase_for strategy idx pct =
     (case strategy of
        CanaryRollout _ \<Rightarrow> if pct = 100 then FullPhase else CanaryPhase
      | StagedRollout _ \<Rightarrow> if pct = 100 then FullPhase else StagePhase (idx + 1)
      | FullRollout _ \<Rightarrow> FullPhase)"

definition div_ceil :: "u64 \<Rightarrow> u64 \<Rightarrow> u64" where
  "div_ceil a b = (if a mod b > 0 then a div b + 1 else a div b)"

definition ceil_percent :: "u64 \<Rightarrow> u8 \<Rightarrow> u64" where
  "ceil_percent targets percent = (if percent = 0 then 0 else div_ceil (targets * ucast percent) 100)"

definition step_count :: "u64 \<Rightarrow> u64 \<Rightarrow> u8 \<Rightarrow> u64" where
  "step_count targets last_count pct =
     (let c0 = ceil_percent targets pct;
          c1 = (if c0 \<le> last_count \<and> last_count < targets then min (last_count + 1) targets else c0)
      in if pct = 100 then targets else c1)"

fun plan_steps :: "rollout_strategy \<Rightarrow> u64 \<Rightarrow> u64 \<Rightarrow> nat \<Rightarrow> u64 \<Rightarrow> u8 list \<Rightarrow> deploy_step list" where
  "plan_steps strategy targets pause idx last_count [] = []"
| "plan_steps strategy targets pause idx last_count (pct # pcts) =
     (let target_count = step_count targets last_count pct
      in \<lparr> ds_index = idx, ds_phase = phase_for strategy idx pct, ds_target_percent = pct,
           ds_target_count = target_count, ds_pause_after_secs = (if pct < 100 then pause else 0) \<rparr>
         # plan_steps strategy targets pause (idx + 1) target_count pcts)"

definition build_plan :: "uuid \<Rightarrow> datetime \<Rightarrow> rollout_strategy \<Rightarrow> u64 \<Rightarrow> (deploy_plan, deploy_plan_error) result" where
  "build_plan uid now strategy total_targets =
     (case validate_strategy strategy of
        Inl err \<Rightarrow> Inl (InvalidStrategy err)
      | Inr _ \<Rightarrow>
          if total_targets = 0 then Inl (InvalidTargetCount total_targets)
          else Inr \<lparr> dp_id = uid, dp_strategy = strategy, dp_total_targets = total_targets,
                     dp_steps = plan_steps strategy total_targets (strategy_pause_secs strategy) 0 0
                                  (strategy_progression strategy),
                     dp_created_at = now \<rparr>)"

section \<open>Progressions\<close>

text \<open>What a valid progression of percentages is.\<close>

definition progression_ok :: "u8 list \<Rightarrow> bool" where
  "progression_ok ps \<longleftrightarrow> ps \<noteq> [] \<and> sorted_wrt (<) ps \<and> (\<forall>p \<in> set ps. 0 < p \<and> p \<le> 100) \<and> last ps = 100"

definition strategy_ok :: "rollout_strategy \<Rightarrow> bool" where
  "strategy_ok s \<longleftrightarrow> unit_interval (strategy_max_error_rate s) \<and>
     (case s of
        CanaryRollout c \<Rightarrow> 0 < cy_initial_percent c \<and> cy_initial_percent c < 100 \<and>
                           0 < cy_step_percent c \<and> cy_step_percent c < 100
      | StagedRollout g \<Rightarrow> progression_ok (sg_progression g)
      | FullRollout f \<Rightarrow> True)"

lemma validate_stages_None:
  "validate_stages prev vs = None \<longleftrightarrow>
     sorted_wrt (<) vs \<and> (\<forall>v \<in> set vs. 0 < v \<and> v \<le> 100) \<and> (\<forall>v \<in> set vs. prev < v)"
proof (induction prev vs rule: validate_stages.induct)
  case (2 prev v vs)
  then show ?case
    by (auto simp: word_greater_zero_iff intro: less_trans)
qed simp

lemma validate_staged_iff:
  "(validate_staged g = Inr ()) \<longleftrightarrow> progression_ok (sg_progression g) \<and> unit_interval (sg_max_error_rate g)"
proof (cases "sg_progression g = []")
  case False
  show ?thesis
  proof (cases "validate_stages 0 (sg_progression g)")
    case None
    with validate_stages_None [of 0 "sg_progression g"] False show ?thesis
      by (simp add: validate_staged_def progression_ok_def last_opt_def)
  next
    case (Some e)
    then have "\<not> progression_ok (sg_progression g)"
      using validate_stages_None [of 0 "sg_progression g"] by (simp add: progression_ok_def) blast
    with Some False show ?thesis by (simp add: validate_staged_def)
  qed
qed (simp add: validate_staged_def progression_ok_def)

lemma validate_strategy_iff: "(validate_strategy s = Inr ()) = strategy_ok s"
  by (cases s) (auto simp: validate_staged_iff strategy_ok_def validate_canary_def validate_full_def
      word_greater_zero_iff not_le)

text \<open>The percentages a canary goes through: the initial one plus multiples of the step, up to 100.\<close>

definition canary_stages :: "u8 \<Rightarrow> u8 \<Rightarrow> u8 list \<Rightarrow> bool" where
  "canary_stages init step ps \<longleftrightarrow> ps \<noteq> [] \<and> (\<forall>i < length ps. unat (ps ! i) = min (unat init + i * unat step) 100) \<and>
     (\<forall>i. Suc i < length ps \<longrightarrow> ps ! i < 100)"

lemma canary_stages_snoc:
  assumes "canary_stages init step ps" "last ps < 100" "0 < step"
  shows "canary_stages init step (ps @ [min (saturating_add (last ps) step) 100])"
proof -
  let ?n = "length ps"
  have n: "ps \<noteq> []" using assms(1) by (simp add: canary_stages_def)
  have l: "last ps = ps ! (?n - 1)" by (rule last_conv_nth [OF n])
  have v: "unat (last ps) = min (unat init + (?n - 1) * unat step) 100"
    using assms(1) n by (simp add: canary_stages_def l)
  then have "unat (last ps) + unat step = unat init + ?n * unat step"
    using assms(2) n by (cases ?n) (auto simp: word_less_nat_alt)
  then have last_one: "unat (min (saturating_add (last ps) step) 100) = min (unat init + ?n * unat step) 100"
    by (simp add: saturating_step [OF assms(2)])
  have "ps ! i < 100" if "Suc i < length (ps @ [x])" for i x
  proof (cases "Suc i < ?n")
    case True
    then show ?thesis using assms(1) by (simp add: canary_stages_def)
  next
    case False
    with that have "i = ?n - 1" by simp
    then show ?thesis using assms(2) by (simp add: l)
  qed
  then show ?thesis
    using assms(1) last_one by (simp add: canary_stages_def nth_append less_Suc_eq)
qed

lemma canary_loop_stages:
  assumes "canary_stages init step prog" "last prog = pct" "0 < step"
  shows "canary_stages init step (canary_loop step pct prog) \<and> last (canary_loop step pct prog) \<ge> 100"
  using assms
proof (induction step pct prog rule: canary_loop.induct)
  case (1 step pct prog)
  have n: "prog \<noteq> []" using 1(2) by (simp add: canary_stages_def)
  show ?case
  proof (cases "pct < 100")
    case True
    let ?p = "min (saturating_add pct step) 100"
    have "unat step > 0" using 1(4) by (simp add: word_less_nat_alt)
    then have "unat ?p \<noteq> unat pct" using True by (auto simp: saturating_step [OF True] word_less_nat_alt)
    then have "last_opt prog \<noteq> Some ?p" using n 1(3) by (auto simp: last_opt_def)
    moreover have "canary_stages init step (prog @ [?p])"
      using canary_stages_snoc [OF 1(2) _ 1(4)] True 1(3) by simp
    moreover have "canary_loop step pct prog = canary_loop step ?p (prog @ [?p])"
      using True calculation(1) by (subst canary_loop.simps) (simp only: Let_def if_True simp_thms)
    ultimately show ?thesis using 1(1) [OF True refl _ _ _ 1(4)] by simp
  next
    case False
    then show ?thesis using 1(2,3) by (simp add: canary_loop.simps [of step pct prog])
  qed
qed

lemma canary_stages_progression:
  assumes "canary_stages init step ps" "last ps \<ge> 100" "0 < init" "init < 100" "0 < step"
  shows "progression_ok ps \<and> last_opt ps = Some 100"
proof -
  have n: "ps \<noteq> []" and v: "\<And>i. i < length ps \<Longrightarrow> unat (ps ! i) = min (unat init + i * unat step) 100"
    and b: "\<And>i. Suc i < length ps \<Longrightarrow> ps ! i < 100"
    using assms(1) by (auto simp: canary_stages_def)
  have "last ps = ps ! (length ps - 1)" by (rule last_conv_nth [OF n])
  then have "unat (last ps) \<le> 100" using v [of "length ps - 1"] n by simp
  then have l: "last ps = 100" using assms(2) by (simp add: word_le_nat_alt word_unat_eq_iff)
  have "0 < p \<and> p \<le> 100" if "p \<in> set ps" for p
    using that v assms(3) by (auto simp: in_set_conv_nth word_less_nat_alt word_le_nat_alt)
  moreover have "ps ! i < ps ! j" if "i < j" "j < length ps" for i j
  proof -
    have "ps ! i < 100" using b [of i] that by simp
    moreover have "i * unat step < j * unat step" using that(1) assms(5) by (simp add: word_less_nat_alt)
    ultimately show ?thesis using v [of i] v [of j] that by (simp add: word_less_nat_alt)
  qed
  ultimately show ?thesis using n l by (auto simp: progression_ok_def sorted_wrt_iff_nth_less last_opt_def)
qed

lemma canary_progression_ok:
  assumes "0 < cy_initial_percent c" "cy_initial_percent c < 100" "0 < cy_step_percent c"
  shows "progression_ok (canary_progression c) \<and>
    canary_stages (cy_initial_percent c) (cy_step_percent c) (canary_progression c)"
proof -
  let ?i = "cy_initial_percent c" and ?s = "cy_step_percent c"
  have "canary_stages ?i ?s [?i]" using assms(2) by (simp add: canary_stages_def word_less_nat_alt)
  from canary_loop_stages [OF this _ assms(3), of ?i]
  have st: "canary_stages ?i ?s (canary_loop ?s ?i [?i])" "last (canary_loop ?s ?i [?i]) \<ge> 100" by simp_all
  with canary_stages_progression [OF st assms] show ?thesis
    by (simp add: canary_progression_def Let_def)
qed

lemma strategy_progression_ok: "strategy_ok s \<Longrightarrow> progression_ok (strategy_progression s)"
  by (cases s) (auto simp: strategy_ok_def canary_progression_ok, simp add: progression_ok_def)

section \<open>Counts\<close>

text \<open>No count overflows: a hundred times the targets fits in a \<open>usize\<close>.\<close>

definition targets_fit :: "u64 \<Rightarrow> bool" where
  "targets_fit targets \<longleftrightarrow> unat targets * 100 < 2 ^ 64"

lemma unat_ceil_percent:
  assumes "targets_fit targets" "pct \<le> 100"
  shows "unat (ceil_percent targets pct) = (unat targets * unat pct + 99) div 100"
proof -
  have p: "unat pct \<le> 100" using assms(2) by (simp add: word_le_nat_alt)
  have u: "unat (ucast pct :: u64) = unat pct"
    by (simp add: unsigned_ucast_eq take_bit_nat_eq_self_iff less_trans [OF unsigned_less])
  have fit: "unat targets * unat pct < 2 ^ 64"
    using assms(1) mult_le_mono2 [OF p, of "unat targets"] unfolding targets_fit_def by (rule order_le_less_trans [rotated])
  then have m: "unat (targets * ucast pct) = unat targets * unat pct" by (simp add: unat_word_ariths u)
  let ?n = "unat targets * unat pct"
  have d: "unat (targets * ucast pct div 100) = ?n div 100" "unat (targets * ucast pct mod 100) = ?n mod 100"
    using m by (simp_all add: unat_div unat_mod)
  have s: "unat (targets * ucast pct div 100 + 1) = ?n div 100 + 1"
    using d(1) fit by (simp add: unat_word_ariths)
  have "?n mod 100 > 0 \<Longrightarrow> (?n + 99) div 100 = ?n div 100 + 1" "?n mod 100 = 0 \<Longrightarrow> (?n + 99) div 100 = ?n div 100"
    using div_mult_mod_eq [of ?n 100] div_mult_mod_eq [of "?n + 99" 100]
      mod_less_divisor [of 100 ?n] mod_less_divisor [of 100 "?n + 99"] by linarith+
  then show ?thesis
    using d s by (auto simp: ceil_percent_def div_ceil_def word_less_nat_alt)
qed

lemma step_count_bounds:
  assumes "targets_fit targets" "pct \<le> 100" "0 < pct" "0 < targets" "last_count \<le> targets"
  shows "0 < step_count targets last_count pct" "step_count targets last_count pct \<le> targets"
    "unat targets * unat pct \<le> 100 * unat (step_count targets last_count pct)"
    "last_count < step_count targets last_count pct \<or> last_count = targets"
    "last_count < ceil_percent targets pct \<Longrightarrow> step_count targets last_count pct = ceil_percent targets pct"
proof -
  let ?T = "unat targets" and ?p = "unat pct" and ?c = "unat (ceil_percent targets pct)" and ?l = "unat last_count"
  have c: "?c = (?T * ?p + 99) div 100" by (rule unat_ceil_percent [OF assms(1,2)])
  have p: "?p \<le> 100" "0 < ?p" "0 < ?T" "?l \<le> ?T"
    using assms(2-5) by (simp_all add: word_le_nat_alt word_less_nat_alt)
  have tp: "?T * ?p \<le> ?T * 100" "0 < ?T * ?p" using p by simp_all
  have dm: "?T * ?p + 99 = 100 * ?c + (?T * ?p + 99) mod 100" "(?T * ?p + 99) mod 100 < 100"
    unfolding c by simp_all
  have cT: "?c \<le> ?T" "?T * ?p \<le> 100 * ?c" and c0: "0 < ?c" using dm tp by linarith+
  have inc: "unat (last_count + 1) = ?l + 1" if "last_count < targets"
    using that unat_inc_below [of last_count targets] by (simp add: word_less_nat_alt)
  have n: "unat (step_count targets last_count pct) =
      (if pct = 100 then ?T else if ?c \<le> ?l \<and> ?l < ?T then ?l + 1 else ?c)"
    using inc by (auto simp: step_count_def Let_def min_def word_le_nat_alt word_less_nat_alt)
  show "0 < step_count targets last_count pct" "step_count targets last_count pct \<le> targets"
    using n cT(1) c0 p by (auto simp: word_less_nat_alt word_le_nat_alt)
  show "?T * ?p \<le> 100 * unat (step_count targets last_count pct)"
    using n cT(2) p by auto
  show "last_count < step_count targets last_count pct \<or> last_count = targets"
    using n cT(1) p by (auto simp: word_less_nat_alt word_unat_eq_iff)
  show "step_count targets last_count pct = ceil_percent targets pct" if "last_count < ceil_percent targets pct"
    using that n c by (auto simp: word_less_nat_alt word_unat_eq_iff)
qed

lemma step_count_hundred: "step_count targets last_count 100 = targets"
  by (simp add: step_count_def)

definition prev_count :: "deploy_step list \<Rightarrow> u64 \<Rightarrow> nat \<Rightarrow> u64" where
  "prev_count steps last_count i = (if i = 0 then last_count else ds_target_count (steps ! (i - 1)))"

lemma length_plan_steps [simp]: "length (plan_steps st targets pause idx last_count ps) = length ps"
  by (induction st targets pause idx last_count ps rule: plan_steps.induct) (simp_all add: Let_def)

lemma plan_steps_nth:
  "i < length ps \<Longrightarrow> plan_steps st targets pause idx last_count ps ! i =
     \<lparr> ds_index = idx + i, ds_phase = phase_for st (idx + i) (ps ! i), ds_target_percent = ps ! i,
       ds_target_count = step_count targets (prev_count (plan_steps st targets pause idx last_count ps) last_count i) (ps ! i),
       ds_pause_after_secs = (if ps ! i < 100 then pause else 0) \<rparr>"
proof (induction ps arbitrary: idx last_count i)
  case (Cons p ps)
  then show ?case
    by (cases i) (auto simp: Let_def prev_count_def nth_Cons' split: if_splits)
qed simp

lemma plan_counts:
  assumes "progression_ok ps" "targets_fit targets" "0 < targets" "i < length ps"
    and "steps = plan_steps st targets pause 0 0 ps"
  shows "0 < ds_target_count (steps ! i) \<and> ds_target_count (steps ! i) \<le> targets \<and>
    unat targets * unat (ps ! i) \<le> 100 * unat (ds_target_count (steps ! i)) \<and>
    (prev_count steps 0 i < ds_target_count (steps ! i) \<or> prev_count steps 0 i = targets)"
  using assms(4)
proof (induction i)
  case 0
  have "0 < ps ! 0" "ps ! 0 \<le> 100" using assms(1) 0 by (auto simp: progression_ok_def)
  from step_count_bounds [OF assms(2) this(2,1) assms(3), of 0] show ?case
    using 0 by (simp add: assms(5) plan_steps_nth prev_count_def)
next
  case (Suc i)
  have "0 < ps ! Suc i" "ps ! Suc i \<le> 100" using assms(1) Suc.prems by (auto simp: progression_ok_def)
  moreover have "ds_target_count (steps ! i) \<le> targets" using Suc by simp
  ultimately show ?case
    using step_count_bounds [OF assms(2) _ _ assms(3), of "ps ! Suc i" "ds_target_count (steps ! i)"] Suc.prems
    by (simp add: assms(5) plan_steps_nth [of "Suc i"] prev_count_def)
qed

lemma ceil_percent_strict:
  assumes "targets_fit targets" "100 \<le> targets" "p < q" "q \<le> 100"
  shows "ceil_percent targets p < ceil_percent targets q"
proof -
  let ?T = "unat targets"
  have "unat p + 1 \<le> unat q" "100 \<le> ?T" using assms(2,3) by (simp_all add: word_less_nat_alt word_le_nat_alt)
  then have "?T * (unat p + 1) \<le> ?T * unat q" "100 \<le> ?T" by (simp_all only: mult_le_mono2)
  then have "?T * unat p + 99 + 100 \<le> ?T * unat q + 99" by simp
  then have "(?T * unat p + 99 + 100) div 100 \<le> (?T * unat q + 99) div 100" by (rule div_le_mono)
  then have "(?T * unat p + 99) div 100 < (?T * unat q + 99) div 100" by linarith
  moreover have "p \<le> 100" using assms(3,4) by (rule less_le_trans [THEN less_imp_le])
  ultimately show ?thesis
    unfolding word_less_nat_alt unat_ceil_percent [OF assms(1) \<open>p \<le> 100\<close>] unat_ceil_percent [OF assms(1,4)] by blast
qed

lemma plan_counts_ceil:
  assumes "progression_ok ps" "targets_fit targets" "100 \<le> targets" "i < length ps"
    and "steps = plan_steps st targets pause 0 0 ps"
  shows "ds_target_count (steps ! i) = ceil_percent targets (ps ! i)"
  using assms(4)
proof (induction i)
  have pos: "0 < targets" using assms(3) by (simp add: word_less_nat_alt word_le_nat_alt)
  have in_range: "0 < ps ! j" "ps ! j \<le> 100" if "j < length ps" for j using assms(1) that by (auto simp: progression_ok_def)
  {
    case 0
    have "ceil_percent targets 0 < ceil_percent targets (ps ! 0)"
      using ceil_percent_strict [OF assms(2,3)] in_range 0 by simp
    then show ?case
      using step_count_bounds(5) [OF assms(2) in_range(2,1) pos, of 0 0] 0
      by (simp add: assms(5) plan_steps_nth prev_count_def ceil_percent_def)
  next
    case (Suc i)
    have "ps ! i < ps ! Suc i" using assms(1) Suc.prems by (simp add: progression_ok_def sorted_wrt_iff_nth_less)
    then have "ceil_percent targets (ps ! i) < ceil_percent targets (ps ! Suc i)"
      using ceil_percent_strict [OF assms(2,3)] in_range Suc.prems by simp
    moreover have "ds_target_count (steps ! i) = ceil_percent targets (ps ! i)" using Suc by simp
    moreover have "ds_target_count (steps ! i) \<le> targets"
      using plan_counts [OF assms(1,2) pos _ assms(5), of i] Suc.prems by simp
    ultimately have "step_count targets (ds_target_count (steps ! i)) (ps ! Suc i) = ceil_percent targets (ps ! Suc i)"
      using step_count_bounds(5) [OF assms(2) in_range(2,1) pos, of "Suc i"] Suc.prems by simp
    then show ?case
      using Suc.prems by (simp add: assms(5) plan_steps_nth [of "Suc i"] prev_count_def)
  }
qed

text \<open>
  C26: A plan is built exactly for a valid strategy and at least one target. Its percentages
  are those of the strategy, strictly increasing and ending at 100. Every step plans at least
  one target and no more than there are, never fewer than its percentage asks; the count grows
  from step to step until every target is planned, and the last step plans every one. From a
  hundred targets on each count is the percentage rounded up.
\<close>

theorem deploy_plan_exact:
  "((\<exists>p. build_plan uid now strategy targets = Inr p) \<longleftrightarrow> strategy_ok strategy \<and> targets \<noteq> 0) \<and>
   (\<forall>p. build_plan uid now strategy targets = Inr p \<and> targets_fit targets \<longrightarrow>
     (let steps = dp_steps p; count = (\<lambda>i. ds_target_count (steps ! i)) in
      map ds_target_percent steps = strategy_progression strategy \<and>
      progression_ok (map ds_target_percent steps) \<and>
      map ds_index steps = [0..<length steps] \<and>
      count (length steps - 1) = targets \<and>
      (\<forall>i < length steps. 0 < count i \<and> count i \<le> targets \<and>
         unat targets * unat (ds_target_percent (steps ! i)) \<le> 100 * unat (count i) \<and>
         (100 \<le> targets \<longrightarrow> unat (count i) = (unat targets * unat (ds_target_percent (steps ! i)) + 99) div 100)) \<and>
      (\<forall>i. Suc i < length steps \<longrightarrow> count i < count (Suc i) \<or> count i = targets)))"
proof (intro conjI allI impI, goal_cases)
  case 1
  show ?case
    using validate_strategy_iff [of strategy] by (cases "validate_strategy strategy") (auto simp: build_plan_def)
next
  case (2 p)
  define ps where "ps = strategy_progression strategy"
  define steps where "steps = plan_steps strategy targets (strategy_pause_secs strategy) 0 0 ps"
  have ok: "strategy_ok strategy" "targets \<noteq> 0" and st: "dp_steps p = steps" and fit: "targets_fit targets"
    using 2 validate_strategy_iff [of strategy]
    by (cases "validate_strategy strategy"; auto simp: build_plan_def steps_def ps_def split: if_splits)+
  have pos: "0 < targets" using ok(2) by (simp add: word_greater_zero_iff)
  have pr: "progression_ok ps" unfolding ps_def by (rule strategy_progression_ok [OF ok(1)])
  then have ne: "ps \<noteq> []" and l: "last ps = 100" by (simp_all add: progression_ok_def)
  have len: "length steps = length ps" by (simp add: steps_def)
  have pct: "ds_target_percent (steps ! i) = ps ! i" "ds_index (steps ! i) = i" if "i < length ps" for i
    using that by (simp_all add: steps_def plan_steps_nth)
  have m: "map ds_target_percent steps = ps" "map ds_index steps = [0..<length steps]"
    using pct by (auto intro: nth_equalityI simp: len)
  have "ds_target_count (steps ! (length steps - 1)) = targets"
    using ne l by (simp add: steps_def plan_steps_nth last_conv_nth step_count_hundred)
  moreover note c = plan_counts [OF pr fit pos _ steps_def]
  moreover have "ds_target_count (steps ! i) < ds_target_count (steps ! Suc i) \<or> ds_target_count (steps ! i) = targets"
    if "Suc i < length steps" for i
    using c [of "Suc i"] that by (simp add: len prev_count_def)
  moreover have "unat (ds_target_count (steps ! i)) = (unat targets * unat (ps ! i) + 99) div 100"
    if "i < length steps" "100 \<le> targets" for i
    using plan_counts_ceil [OF pr fit that(2) _ steps_def, of i] that pr unat_ceil_percent [OF fit, of "ps ! i"]
    by (simp add: len progression_ok_def)
  ultimately show ?case
    unfolding Let_def st using m pr pct by (simp add: len ps_def [symmetric])
qed

theorem deploy_plan_exact_witness:
  "\<exists>p. build_plan 1 0 (StagedRollout staged_strategy_default) 200 = Inr p \<and>
     map ds_target_percent (dp_steps p) = [25, 50, 100] \<and>
     unat (ds_target_count (dp_steps p ! 0)) = 50 \<and> ds_target_count (dp_steps p ! 2) = 200"
proof -
  let ?s = "StagedRollout staged_strategy_default"
  have ok: "strategy_ok ?s"
    by (simp add: strategy_ok_def staged_strategy_default_def progression_ok_def unit_interval_def word_less_nat_alt word_le_nat_alt)
  have fit: "targets_fit 200" by (simp add: targets_fit_def)
  obtain p where p: "build_plan 1 0 ?s 200 = Inr p"
    using deploy_plan_exact [of 1 0 ?s 200] ok by auto
  note ex = deploy_plan_exact [of 1 0 ?s 200, THEN conjunct2, THEN spec, of p, THEN mp, OF conjI [OF p fit], unfolded Let_def]
  then have m: "map ds_target_percent (dp_steps p) = [25, 50, 100]" by (simp add: staged_strategy_default_def)
  then obtain a b c where steps: "dp_steps p = [a, b, c]" by (auto simp: map_eq_Cons_conv)
  then have len: "length (dp_steps p) = 3" and p0: "ds_target_percent (dp_steps p ! 0) = 25" using m by simp_all
  have "ds_target_count (dp_steps p ! 2) = 200"
    using ex [THEN conjunct2, THEN conjunct2, THEN conjunct2, THEN conjunct1] by (simp add: len)
  moreover have "unat (ds_target_count (dp_steps p ! 0)) = 50"
  proof -
    have big: "(100 :: u64) \<le> 200" and zero: "0 < length (dp_steps p)" by (simp_all add: len)
    have "unat (ds_target_count (dp_steps p ! 0)) =
        (unat (200 :: u64) * unat (ds_target_percent (dp_steps p ! 0)) + 99) div 100"
      by (rule ex [THEN conjunct2, THEN conjunct2, THEN conjunct2, THEN conjunct2, THEN conjunct1, THEN spec, THEN mp,
            OF zero, THEN conjunct2, THEN conjunct2, THEN conjunct2, THEN mp, OF big])
    then show ?thesis unfolding p0 by simp
  qed
  moreover note p m
  ultimately show ?thesis by (intro exI [of _ p] conjI)
qed

text \<open>
  Below a hundred targets the count can fall: once an early step has been raised to all
  targets, a later one goes back to its own percentage.
\<close>

lemma small_plan_falls:
  "map_sum id (map ds_target_count \<circ> dp_steps)
     (build_plan 1 0 (CanaryRollout canary_strategy_default) 2) = Inr [1, 2, 1, 2, 2, 2]"
  by code_simp

end
