(* ===== verification/Deploy_Run.thy ===== *)
theory Deploy_Run
  imports Deploy_Plan Fleet_Text
begin

text \<open>
  Running a release (\<^verbatim>\<open>ff-deploy/src/health_gate.rs\<close>, \<^verbatim>\<open>rollback.rs\<close>, \<^verbatim>\<open>release.rs\<close>,
  \<^verbatim>\<open>deployer.rs\<close>). The adapter that touches the machines is an argument: a record of
  functions, each called at most once per argument in a run. The orchestrator also returns
  the calls it made, in order.
\<close>

section \<open>The health gate\<close>

record health_snapshot =
  hp_success_rate :: rat
  hp_error_rate :: rat
  hp_p95_latency_ms :: u64
  hp_availability :: rat
  hp_sample_size :: u64
  hp_measured_at :: datetime

record gate_config =
  gf_min_success_rate :: rat
  gf_max_error_rate :: rat
  gf_max_p95_latency_ms :: u64
  gf_min_availability :: rat
  gf_min_sample_size :: u64

definition gate_config_default :: gate_config where
  "gate_config_default =
     \<lparr> gf_min_success_rate = 97 / 100, gf_max_error_rate = 3 / 100, gf_max_p95_latency_ms = 2000,
       gf_min_availability = 995 / 1000, gf_min_sample_size = 100 \<rparr>"

datatype gate_status = GatePass | GateFail

record gate_evaluation =
  gv_status :: gate_status
  gv_reasons :: "string list"
  gv_snapshot :: health_snapshot
  gv_config :: gate_config

definition gate_passed :: "gate_evaluation \<Rightarrow> bool" where
  "gate_passed g \<longleftrightarrow> gv_status g = GatePass"

definition show_word :: "u64 \<Rightarrow> string" where
  "show_word w = show_nat (unat w)"

definition gate_evaluate :: "gate_config \<Rightarrow> health_snapshot \<Rightarrow> gate_evaluation" where
  "gate_evaluate config snapshot =
     (let r1 = (if hp_sample_size snapshot < gf_min_sample_size config
                then [''insufficient sample size: '' @ show_word (hp_sample_size snapshot) @ '' < '' @
                      show_word (gf_min_sample_size config)] else []);
          r2 = (if hp_success_rate snapshot < gf_min_success_rate config
                then [''success rate below threshold: '' @ fmt_fixed4 (hp_success_rate snapshot) @ '' < '' @
                      fmt_fixed4 (gf_min_success_rate config)] else []);
          r3 = (if hp_error_rate snapshot > gf_max_error_rate config
                then [''error rate above threshold: '' @ fmt_fixed4 (hp_error_rate snapshot) @ '' > '' @
                      fmt_fixed4 (gf_max_error_rate config)] else []);
          r4 = (if hp_p95_latency_ms snapshot > gf_max_p95_latency_ms config
                then [''p95 latency above threshold: '' @ show_word (hp_p95_latency_ms snapshot) @ ''ms > '' @
                      show_word (gf_max_p95_latency_ms config) @ ''ms''] else []);
          r5 = (if hp_availability snapshot < gf_min_availability config
                then [''availability below threshold: '' @ fmt_fixed4 (hp_availability snapshot) @ '' < '' @
                      fmt_fixed4 (gf_min_availability config)] else []);
          reasons = r1 @ r2 @ r3 @ r4 @ r5
      in \<lparr> gv_status = (if reasons = [] then GatePass else GateFail), gv_reasons = reasons,
           gv_snapshot = snapshot, gv_config = config \<rparr>)"

section \<open>Rollback\<close>

datatype rollback_cause = ManualRollback | HealthGateFailed | DeploymentError
datatype rollback_severity = LowSeverity | MediumSeverity | HighSeverity | CriticalSeverity

record rollback_context =
  rx_release_id :: uuid
  rx_service :: string
  rx_from_version :: string
  rx_to_version :: "string option"
  rx_deployed_percent :: u8
  rx_health :: "gate_evaluation option"
  rx_deployment_error :: "string option"
  rx_manual_rollback :: bool

record rollback_decision =
  rd_should_rollback :: bool
  rd_severity :: rollback_severity
  rd_causes :: "rollback_cause list"
  rd_reasons :: "string list"

definition no_rollback :: rollback_decision where
  "no_rollback = \<lparr> rd_should_rollback = False, rd_severity = LowSeverity, rd_causes = [], rd_reasons = [] \<rparr>"

datatype rollback_action = DisableCandidateTraffic | RestoreStableVersion | VerifyHealth

record rollback_step =
  rk_order :: nat
  rk_action :: rollback_action
  rk_description :: string

record rollback_plan =
  rb_id :: uuid
  rb_release_id :: uuid
  rb_service :: string
  rb_from_version :: string
  rb_to_version :: string
  rb_steps :: "rollback_step list"
  rb_created_at :: datetime

record rollback_decider =
  rr_high_risk_percent :: u8

definition rollback_decider_default :: rollback_decider where
  "rollback_decider_default = \<lparr> rr_high_risk_percent = 50 \<rparr>"

definition rollback_decide :: "rollback_decider \<Rightarrow> rollback_context \<Rightarrow> rollback_decision" where
  "rollback_decide decider ctx =
     (let (causes, reasons, severity) = ([], [], LowSeverity);
          (causes, reasons, severity) =
            (if rx_manual_rollback ctx
             then (causes @ [ManualRollback], reasons @ [''manual rollback requested by operator''], HighSeverity)
             else (causes, reasons, severity));
          (causes, reasons, severity) =
            (case rx_deployment_error ctx of
               Some err \<Rightarrow> (causes @ [DeploymentError], reasons @ [''deployment execution error: '' @ err], CriticalSeverity)
             | None \<Rightarrow> (causes, reasons, severity));
          (causes, reasons, severity) =
            (case rx_health ctx of
               Some health \<Rightarrow>
                 if \<not> gate_passed health
                 then (causes @ [HealthGateFailed], reasons @ gv_reasons health,
                       if rx_deployed_percent ctx \<ge> rr_high_risk_percent decider then CriticalSeverity else HighSeverity)
                 else (causes, reasons, severity)
             | None \<Rightarrow> (causes, reasons, severity))
      in if causes = [] then no_rollback
         else \<lparr> rd_should_rollback = True, rd_severity = severity, rd_causes = causes, rd_reasons = reasons \<rparr>)"

definition rollback_build :: "uuid \<Rightarrow> datetime \<Rightarrow> rollback_context \<Rightarrow> rollback_decision \<Rightarrow> rollback_plan option" where
  "rollback_build uid now ctx decision =
     (if \<not> rd_should_rollback decision then None
      else let target_version = (case rx_to_version ctx of Some v \<Rightarrow> v | None \<Rightarrow> ''unknown-stable'')
           in Some \<lparr> rb_id = uid, rb_release_id = rx_release_id ctx, rb_service = rx_service ctx,
                rb_from_version = rx_from_version ctx, rb_to_version = target_version,
                rb_steps =
                  [\<lparr> rk_order = 0, rk_action = DisableCandidateTraffic,
                     rk_description = ''disable traffic to candidate version '' @ rx_from_version ctx @ '' at '' @
                       show_nat (unat (rx_deployed_percent ctx)) @ ''% rollout'' \<rparr>,
                   \<lparr> rk_order = 1, rk_action = RestoreStableVersion,
                     rk_description = ''restore stable version '' @ target_version @ '' for service '' @ rx_service ctx \<rparr>,
                   \<lparr> rk_order = 2, rk_action = VerifyHealth,
                     rk_description = ''run health checks and confirm rollback stability'' \<rparr>],
                rb_created_at = now \<rparr>)"

section \<open>Releases\<close>

datatype release_channel = Dev | Staging | Production
datatype release_state = ReleaseDraft | RollingOut | ReleaseSucceeded | ReleaseFailed | RolledBack

record release_manifest =
  rm_id :: uuid
  rm_service :: string
  rm_version :: string
  rm_previous_version :: "string option"
  rm_channel :: release_channel
  rm_requested_by :: string
  rm_created_at :: datetime

definition release_manifest_new ::
  "uuid \<Rightarrow> datetime \<Rightarrow> string \<Rightarrow> string \<Rightarrow> string option \<Rightarrow> release_channel \<Rightarrow> string \<Rightarrow> release_manifest" where
  "release_manifest_new uid now service version previous_version channel requested_by =
     \<lparr> rm_id = uid, rm_service = service, rm_version = version, rm_previous_version = previous_version,
       rm_channel = channel, rm_requested_by = requested_by, rm_created_at = now \<rparr>"

record release_record =
  rl_manifest :: release_manifest
  rl_strategy :: rollout_strategy
  rl_state :: release_state
  rl_failure_reason :: "string option"
  rl_started_at :: "datetime option"
  rl_completed_at :: "datetime option"
  rl_notes :: "string list"

definition release_record_new :: "release_manifest \<Rightarrow> rollout_strategy \<Rightarrow> release_record" where
  "release_record_new manifest strategy =
     \<lparr> rl_manifest = manifest, rl_strategy = strategy, rl_state = ReleaseDraft, rl_failure_reason = None,
       rl_started_at = None, rl_completed_at = None, rl_notes = [] \<rparr>"

definition mark_started :: "datetime \<Rightarrow> release_record \<Rightarrow> release_record" where
  "mark_started now r = r\<lparr> rl_state := RollingOut, rl_started_at := Some now \<rparr>"

definition mark_succeeded :: "datetime \<Rightarrow> release_record \<Rightarrow> release_record" where
  "mark_succeeded now r = r\<lparr> rl_state := ReleaseSucceeded, rl_completed_at := Some now \<rparr>"

definition mark_failed :: "datetime \<Rightarrow> string \<Rightarrow> release_record \<Rightarrow> release_record" where
  "mark_failed now reason r =
     r\<lparr> rl_state := ReleaseFailed, rl_failure_reason := Some reason, rl_completed_at := Some now \<rparr>"

definition release_rolled_back :: "datetime \<Rightarrow> string \<Rightarrow> release_record \<Rightarrow> release_record" where
  "release_rolled_back now reason r =
     r\<lparr> rl_state := RolledBack, rl_failure_reason := Some reason, rl_completed_at := Some now \<rparr>"

definition add_note :: "string \<Rightarrow> release_record \<Rightarrow> release_record" where
  "add_note note r = r\<lparr> rl_notes := rl_notes r @ [note] \<rparr>"

section \<open>The orchestrator\<close>

record 'e deploy_adapter =
  da_begin :: "release_record \<Rightarrow> deploy_plan \<Rightarrow> (unit, 'e) result"
  da_apply_step :: "release_record \<Rightarrow> deploy_step \<Rightarrow> (health_snapshot, 'e) result"
  da_finalize :: "release_record \<Rightarrow> (unit, 'e) result"
  da_rollback :: "release_record \<Rightarrow> rollback_plan \<Rightarrow> (unit, 'e) result"

datatype deploy_call = CallBegin | CallApply nat | CallFinalize | CallRollback rollback_plan

datatype 'e deploy_error =
    PlanFailed deploy_plan_error | BeginFailed 'e | StepFailed nat 'e | RollbackFailed 'e | FinalizeFailed 'e

record step_outcome =
  so_step :: deploy_step
  so_health :: gate_evaluation

record deployment_report =
  dr_final_state :: release_state
  dr_rollout_plan :: deploy_plan
  dr_step_outcomes :: "step_outcome list"
  dr_rollback_decision :: "rollback_decision option"
  dr_rollback_plan :: "rollback_plan option"
  dr_started_at :: datetime
  dr_finished_at :: datetime

record deployment_orchestrator =
  do_health_config :: gate_config
  do_rollback_decider :: rollback_decider

text \<open>How the loop over the steps ends: with an error of the adapter, with a failed gate, or through.\<close>

datatype 'e deploy_loop_exit = LoopError nat 'e | LoopGateFailed deploy_step gate_evaluation | LoopDone

fun deploy_loop ::
  "gate_config \<Rightarrow> 'e deploy_adapter \<Rightarrow> release_record \<Rightarrow> deploy_step list \<Rightarrow> deploy_call list \<Rightarrow> step_outcome list \<Rightarrow>
   deploy_call list \<times> step_outcome list \<times> 'e deploy_loop_exit" where
  "deploy_loop config adapter release [] calls outcomes = (calls, outcomes, LoopDone)"
| "deploy_loop config adapter release (step # steps) calls outcomes =
     (let calls1 = calls @ [CallApply (ds_index step)]
      in case da_apply_step adapter release step of
           Inl e \<Rightarrow> (calls1, outcomes, LoopError (ds_index step) e)
         | Inr snapshot \<Rightarrow>
             let gate = gate_evaluate config snapshot;
                 outcomes1 = outcomes @ [\<lparr> so_step = step, so_health = gate \<rparr>]
             in if \<not> gate_passed gate then (calls1, outcomes1, LoopGateFailed step gate)
                else deploy_loop config adapter release steps calls1 outcomes1)"

definition failed_gate_context :: "release_record \<Rightarrow> deploy_step \<Rightarrow> gate_evaluation \<Rightarrow> rollback_context" where
  "failed_gate_context release step gate =
     \<lparr> rx_release_id = rm_id (rl_manifest release), rx_service = rm_service (rl_manifest release),
       rx_from_version = rm_version (rl_manifest release), rx_to_version = rm_previous_version (rl_manifest release),
       rx_deployed_percent = ds_target_percent step, rx_health = Some gate, rx_deployment_error = None,
       rx_manual_rollback = False \<rparr>"

text \<open>
  The whole run. The \<open>k\<close>-th read of the clock is \<open>clk k\<close>: the start, the plan, the mark of
  the start, the rollback plan, the mark of the end and the report; the identifiers of the plan
  and the rollback plan are \<open>uid1\<close> and \<open>uid2\<close>.
\<close>

definition deploy_execute ::
  "uuid \<Rightarrow> uuid \<Rightarrow> (nat \<Rightarrow> datetime) \<Rightarrow> deployment_orchestrator \<Rightarrow> 'e deploy_adapter \<Rightarrow> u64 \<Rightarrow> release_record \<Rightarrow>
   (deployment_report, 'e deploy_error) result \<times> deploy_call list \<times> release_record" where
  "deploy_execute uid1 uid2 clk orch adapter total_targets release0 =
     (case build_plan uid1 (clk 1) (rl_strategy release0) total_targets of
        Inl err \<Rightarrow> (Inl (PlanFailed err), [], release0)
      | Inr plan \<Rightarrow>
          let release = mark_started (clk 2) release0
          in case da_begin adapter release plan of
               Inl e \<Rightarrow> (Inl (BeginFailed e), [CallBegin], release)
             | Inr _ \<Rightarrow>
                 case deploy_loop (do_health_config orch) adapter release (dp_steps plan) [CallBegin] [] of
                   (calls, outcomes, LoopError idx e) \<Rightarrow> (Inl (StepFailed idx e), calls, release)
                 | (calls, outcomes, LoopGateFailed step gate) \<Rightarrow>
                     let ctx = failed_gate_context release step gate;
                         decision = rollback_decide (do_rollback_decider orch) ctx;
                         rollback = rollback_build uid2 (clk 3) ctx decision;
                         report = (\<lambda>r. \<lparr> dr_final_state = rl_state r, dr_rollout_plan = plan, dr_step_outcomes = outcomes,
                             dr_rollback_decision = Some decision, dr_rollback_plan = rollback,
                             dr_started_at = clk 0, dr_finished_at = clk 5 \<rparr>)
                     in (case rollback of
                           Some rplan \<Rightarrow>
                             (case da_rollback adapter release rplan of
                                Inl e \<Rightarrow> (Inl (RollbackFailed e), calls @ [CallRollback rplan], release)
                              | Inr _ \<Rightarrow>
                                  let r = release_rolled_back (clk 4) ''rollback executed due to failed health gate'' release
                                  in (Inr (report r), calls @ [CallRollback rplan], r))
                         | None \<Rightarrow>
                             let r = mark_failed (clk 4) ''health gate failed and rollback plan was unavailable'' release
                             in (Inr (report r), calls, r))
                 | (calls, outcomes, LoopDone) \<Rightarrow>
                     case da_finalize adapter release of
                       Inl e \<Rightarrow> (Inl (FinalizeFailed e), calls @ [CallFinalize], release)
                     | Inr _ \<Rightarrow>
                         let r = mark_succeeded (clk 4) release
                         in (Inr \<lparr> dr_final_state = rl_state r, dr_rollout_plan = plan, dr_step_outcomes = outcomes,
                                   dr_rollback_decision = None, dr_rollback_plan = None,
                                   dr_started_at = clk 0, dr_finished_at = clk 5 \<rparr>, calls @ [CallFinalize], r))"

section \<open>Gates and decisions\<close>

lemma gate_passed_iff:
  "gate_passed (gate_evaluate config s) \<longleftrightarrow>
     gf_min_sample_size config \<le> hp_sample_size s \<and> gf_min_success_rate config \<le> hp_success_rate s \<and>
     hp_error_rate s \<le> gf_max_error_rate config \<and> hp_p95_latency_ms s \<le> gf_max_p95_latency_ms config \<and>
     gf_min_availability config \<le> hp_availability s"
  by (auto simp: gate_passed_def gate_evaluate_def Let_def not_less)

definition health_failed :: "rollback_context \<Rightarrow> bool" where
  "health_failed ctx \<longleftrightarrow> (\<exists>h. rx_health ctx = Some h \<and> \<not> gate_passed h)"

lemma rollback_decide_exact:
  "rd_should_rollback (rollback_decide d ctx) \<longleftrightarrow>
     rx_manual_rollback ctx \<or> rx_deployment_error ctx \<noteq> None \<or> health_failed ctx"
  "set (rd_causes (rollback_decide d ctx)) =
     (if rx_manual_rollback ctx then {ManualRollback} else {}) \<union>
     (if rx_deployment_error ctx \<noteq> None then {DeploymentError} else {}) \<union>
     (if health_failed ctx then {HealthGateFailed} else {})"
  by (auto simp: rollback_decide_def no_rollback_def health_failed_def Let_def split: option.splits)

text \<open>
  The severity is that of the last condition found, not of the worst: a failed gate at a low
  percentage turns the critical severity of a deployment error into a high one.
\<close>

lemma failed_gate_lowers_severity:
  assumes "rx_deployment_error ctx = Some err"
  shows "rd_severity (rollback_decide d ctx) =
    (if health_failed ctx \<and> rx_deployed_percent ctx < rr_high_risk_percent d then HighSeverity else CriticalSeverity)"
  using assms by (auto simp: rollback_decide_def health_failed_def Let_def split: option.splits)

lemma rollback_always_planned:
  "\<not> gate_passed gate \<Longrightarrow>
   \<exists>plan. rollback_build uid now (failed_gate_context r step gate)
            (rollback_decide d (failed_gate_context r step gate)) = Some plan \<and>
          rb_to_version plan = (case rm_previous_version (rl_manifest r) of Some v \<Rightarrow> v | None \<Rightarrow> ''unknown-stable'')"
  by (simp add: rollback_build_def rollback_decide_exact(1) health_failed_def failed_gate_context_def Let_def)

section \<open>The run of a release\<close>

definition step_ok :: "gate_config \<Rightarrow> 'e deploy_adapter \<Rightarrow> release_record \<Rightarrow> deploy_step \<Rightarrow> bool" where
  "step_ok config adapter r step =
     (case da_apply_step adapter r step of Inl _ \<Rightarrow> False | Inr snap \<Rightarrow> gate_passed (gate_evaluate config snap))"

definition outcome_of :: "gate_config \<Rightarrow> 'e deploy_adapter \<Rightarrow> release_record \<Rightarrow> deploy_step \<Rightarrow> step_outcome" where
  "outcome_of config adapter r step =
     \<lparr> so_step = step, so_health = gate_evaluate config (projr (da_apply_step adapter r step)) \<rparr>"

lemma step_outcome_of [simp]: "so_step \<circ> outcome_of config adapter r = id"
  by (simp add: fun_eq_iff outcome_of_def)

lemma deploy_loop_spec:
  "deploy_loop config adapter r steps calls outs =
     (let good = takeWhile (step_ok config adapter r) steps;
          calls' = (\<lambda>ss. calls @ map (\<lambda>s. CallApply (ds_index s)) ss);
          outs' = outs @ map (outcome_of config adapter r) good
      in case dropWhile (step_ok config adapter r) steps of
           [] \<Rightarrow> (calls' good, outs', LoopDone)
         | s # _ \<Rightarrow>
             (case da_apply_step adapter r s of
                Inl e \<Rightarrow> (calls' (good @ [s]), outs', LoopError (ds_index s) e)
              | Inr snap \<Rightarrow> (calls' (good @ [s]), outs' @ [outcome_of config adapter r s],
                             LoopGateFailed s (gate_evaluate config snap))))"
proof (induction steps arbitrary: calls outs)
  case (Cons s steps)
  have ok: "step_ok config adapter r s \<longleftrightarrow>
      (\<exists>snap. da_apply_step adapter r s = Inr snap \<and> gate_passed (gate_evaluate config snap))"
    by (auto simp: step_ok_def split: sum.splits)
  show ?case
  proof (cases "step_ok config adapter r s")
    case True
    then obtain snap where "da_apply_step adapter r s = Inr snap" "gate_passed (gate_evaluate config snap)" using ok by blast
    with True show ?thesis
      by (simp add: Cons.IH outcome_of_def Let_def del: dropWhile_eq_Nil_conv split: list.split sum.split)
  next
    case False
    then show ?thesis using ok by (cases "da_apply_step adapter r s") (simp_all add: outcome_of_def Let_def)
  qed
qed simp

lemma plan_indices: "map ds_index (plan_steps st targets pause 0 c ps) = [0..<length ps]"
  by (rule nth_equalityI) (auto simp: plan_steps_nth)

lemma build_plan_indices:
  "build_plan uid now st targets = Inr plan \<Longrightarrow> map ds_index (dp_steps plan) = [0..<length (dp_steps plan)]"
  by (auto simp: build_plan_def plan_indices split: sum.splits if_splits)

lemma applied_calls:
  assumes "map ds_index steps = [0..<length steps]" "k \<le> length steps"
  shows "map (\<lambda>s. CallApply (ds_index s)) (take k steps) = map CallApply [0..<k]"
proof -
  have "map ds_index (take k steps) = [0..<k]" using assms by (simp add: take_map [symmetric] take_upt)
  then have "map CallApply (map ds_index (take k steps)) = map CallApply [0..<k]" by simp
  then show ?thesis by (simp add: comp_def)
qed

text \<open>The loop by the number \<open>k\<close> of steps applied with a passing gate.\<close>

lemma deploy_loop_cases:
  assumes "map ds_index steps = [0..<length steps]"
    and "k = length (takeWhile (step_ok config adapter r) steps)"
  shows "k = length steps \<Longrightarrow> deploy_loop config adapter r steps [CallBegin] [] =
      (CallBegin # map CallApply [0..<k], map (outcome_of config adapter r) steps, LoopDone)"
    "k < length steps \<Longrightarrow> da_apply_step adapter r (steps ! k) = Inl e \<Longrightarrow>
      deploy_loop config adapter r steps [CallBegin] [] =
        (CallBegin # map CallApply [0..<Suc k], map (outcome_of config adapter r) (take k steps), LoopError k e)"
    "k < length steps \<Longrightarrow> da_apply_step adapter r (steps ! k) = Inr snap \<Longrightarrow>
      deploy_loop config adapter r steps [CallBegin] [] =
        (CallBegin # map CallApply [0..<Suc k], map (outcome_of config adapter r) (take (Suc k) steps),
         LoopGateFailed (steps ! k) (gate_evaluate config snap)) \<and> \<not> gate_passed (gate_evaluate config snap)"
proof -
  let ?ok = "step_ok config adapter r"
  have kle: "k \<le> length steps" unfolding assms(2) by (rule length_takeWhile_le)
  have good: "takeWhile ?ok steps = take k steps" unfolding assms(2) by (rule takeWhile_eq_take)
  have rest: "dropWhile ?ok steps = drop k steps" unfolding assms(2) by (rule dropWhile_eq_drop)
  show "deploy_loop config adapter r steps [CallBegin] [] =
      (CallBegin # map CallApply [0..<k], map (outcome_of config adapter r) steps, LoopDone)" if "k = length steps"
    using applied_calls [OF assms(1) kle] by (simp add: deploy_loop_spec good rest that Let_def)
  assume k: "k < length steps"
  let ?s = "steps ! k"
  have d: "drop k steps = ?s # drop (Suc k) steps" using k by (rule Cons_nth_drop_Suc [symmetric])
  have t: "take (Suc k) steps = take k steps @ [?s]" using k by (rule take_Suc_conv_app_nth)
  have applied: "map (\<lambda>s. CallApply (ds_index s)) (take k steps @ [?s]) = map CallApply [0..<Suc k]"
    using applied_calls [OF assms(1), of "Suc k"] k by (simp add: t)
  have sk: "ds_index ?s = k" using arg_cong [OF assms(1), of "\<lambda>xs. xs ! k"] k by simp
  have bad: "\<not> ?ok ?s" using d rest hd_dropWhile [of ?ok steps] by simp
  show "deploy_loop config adapter r steps [CallBegin] [] =
      (CallBegin # map CallApply [0..<Suc k], map (outcome_of config adapter r) (take k steps), LoopError k e)"
    if "da_apply_step adapter r ?s = Inl e"
    using that applied by (simp add: deploy_loop_spec good rest d sk Let_def)
  show "deploy_loop config adapter r steps [CallBegin] [] =
      (CallBegin # map CallApply [0..<Suc k], map (outcome_of config adapter r) (take (Suc k) steps),
       LoopGateFailed ?s (gate_evaluate config snap)) \<and> \<not> gate_passed (gate_evaluate config snap)"
    if "da_apply_step adapter r ?s = Inr snap"
    using that applied bad by (simp add: deploy_loop_spec good rest d sk t step_ok_def Let_def)
qed

text \<open>
  C27: With a plan and a begun release, let \<open>k\<close> be the first step that is not applied with a
  passing gate. The steps before it are applied in order, none after it is. Without such a
  step the release is finalized and succeeds; if step \<open>k\<close> fails its gate the previous version
  is always restored and the release is marked rolled back; if the adapter fails, in this step,
  in the rollback or in the end, the error is returned and the release stays rolling out, with
  nothing undone.
\<close>

theorem deploy_execute_exact:
  fixes adapter :: "'e deploy_adapter"
  assumes "build_plan uid1 (clk 1) (rl_strategy rel0) targets = Inr plan"
    and "rel = mark_started (clk 2) rel0" "da_begin adapter rel plan = Inr ()"
    and "deploy_execute uid1 uid2 clk orch adapter targets rel0 = (res, calls, rel')"
    and "k = length (takeWhile (step_ok (do_health_config orch) adapter rel) (dp_steps plan))"
  shows "(k = length (dp_steps plan) \<longrightarrow>
      calls = CallBegin # map CallApply [0..<k] @ [CallFinalize] \<and>
      (case da_finalize adapter rel of
         Inl e \<Rightarrow> res = Inl (FinalizeFailed e) \<and> rel' = rel
       | Inr _ \<Rightarrow> rl_state rel' = ReleaseSucceeded \<and>
           (\<exists>rep. res = Inr rep \<and> map so_step (dr_step_outcomes rep) = dp_steps plan))) \<and>
    (k < length (dp_steps plan) \<longrightarrow>
      (case da_apply_step adapter rel (dp_steps plan ! k) of
         Inl e \<Rightarrow> calls = CallBegin # map CallApply [0..<Suc k] \<and> res = Inl (StepFailed k e) \<and> rel' = rel
       | Inr snap \<Rightarrow> \<exists>rplan.
           calls = CallBegin # map CallApply [0..<Suc k] @ [CallRollback rplan] \<and>
           rb_to_version rplan = (case rm_previous_version (rl_manifest rel) of Some v \<Rightarrow> v | None \<Rightarrow> ''unknown-stable'') \<and>
           (case da_rollback adapter rel rplan of
              Inl e \<Rightarrow> res = Inl (RollbackFailed e) \<and> rel' = rel
            | Inr _ \<Rightarrow> rl_state rel' = RolledBack \<and>
                (\<exists>rep. res = Inr rep \<and> map so_step (dr_step_outcomes rep) = take (Suc k) (dp_steps plan)))))"
proof (intro conjI impI)
  note loop = deploy_loop_cases [OF build_plan_indices [OF assms(1)] assms(5)]
  assume k: "k = length (dp_steps plan)"
  show "calls = CallBegin # map CallApply [0..<k] @ [CallFinalize]"
    and "case da_finalize adapter rel of
         Inl e \<Rightarrow> res = Inl (FinalizeFailed e) \<and> rel' = rel
       | Inr _ \<Rightarrow> rl_state rel' = ReleaseSucceeded \<and>
           (\<exists>rep. res = Inr rep \<and> map so_step (dr_step_outcomes rep) = dp_steps plan)"
    using assms(1-4) loop(1) [OF k] by (auto simp: deploy_execute_def mark_succeeded_def Let_def split: sum.splits)
next
  note loop = deploy_loop_cases [OF build_plan_indices [OF assms(1)] assms(5)]
  assume k: "k < length (dp_steps plan)"
  let ?s = "dp_steps plan ! k"
  show "case da_apply_step adapter rel ?s of
         Inl e \<Rightarrow> calls = CallBegin # map CallApply [0..<Suc k] \<and> res = Inl (StepFailed k e) \<and> rel' = rel
       | Inr snap \<Rightarrow> \<exists>rplan.
           calls = CallBegin # map CallApply [0..<Suc k] @ [CallRollback rplan] \<and>
           rb_to_version rplan = (case rm_previous_version (rl_manifest rel) of Some v \<Rightarrow> v | None \<Rightarrow> ''unknown-stable'') \<and>
           (case da_rollback adapter rel rplan of
              Inl e \<Rightarrow> res = Inl (RollbackFailed e) \<and> rel' = rel
            | Inr _ \<Rightarrow> rl_state rel' = RolledBack \<and>
                (\<exists>rep. res = Inr rep \<and> map so_step (dr_step_outcomes rep) = take (Suc k) (dp_steps plan)))"
  proof (cases "da_apply_step adapter rel ?s")
    case (Inl e)
    with assms(1-4) loop(2) [OF k Inl] show ?thesis by (simp add: deploy_execute_def Let_def)
  next
    case (Inr snap)
    let ?ctx = "failed_gate_context rel ?s (gate_evaluate (do_health_config orch) snap)"
    obtain rplan where r: "rollback_build uid2 (clk 3) ?ctx (rollback_decide (do_rollback_decider orch) ?ctx) = Some rplan"
      "rb_to_version rplan = (case rm_previous_version (rl_manifest rel) of Some v \<Rightarrow> v | None \<Rightarrow> ''unknown-stable'')"
      using rollback_always_planned loop(3) [OF k Inr] by blast
    show ?thesis
      using assms(1-4) Inr loop(3) [OF k Inr] r(1)
      by (simp, intro exI [of _ rplan])
        (auto simp: deploy_execute_def release_rolled_back_def r(2) Let_def split: sum.splits)
  qed
qed

text \<open>A release whose second step serves errors: the version before it is restored.\<close>

definition snapshot_with :: "rat \<Rightarrow> health_snapshot" where
  "snapshot_with err = \<lparr> hp_success_rate = 1 - err, hp_error_rate = err, hp_p95_latency_ms = 10,
     hp_availability = 1, hp_sample_size = 500, hp_measured_at = 0 \<rparr>"

definition failing_adapter :: "string deploy_adapter" where
  "failing_adapter = \<lparr> da_begin = \<lambda>_ _. Inr (),
     da_apply_step = \<lambda>_ step. Inr (snapshot_with (if ds_index step = 0 then 0 else 1 / 2)),
     da_finalize = \<lambda>_. Inr (), da_rollback = \<lambda>_ _. Inr () \<rparr>"

definition sample_release :: release_record where
  "sample_release = release_record_new
     (release_manifest_new 7 0 ''gateway'' ''v2'' (Some ''v1'') Production ''ops'') (StagedRollout staged_strategy_default)"

definition sample_orchestrator :: deployment_orchestrator where
  "sample_orchestrator = \<lparr> do_health_config = gate_config_default, do_rollback_decider = rollback_decider_default \<rparr>"

theorem deploy_execute_exact_witness:
  "\<exists>res calls rel' rplan.
     deploy_execute 1 2 (\<lambda>_. 0) sample_orchestrator failing_adapter 8 sample_release = (res, calls, rel') \<and>
     rl_state rel' = RolledBack \<and> calls = [CallBegin, CallApply 0, CallApply 1, CallRollback rplan] \<and>
     rb_to_version rplan = ''v1''"
proof -
  let ?rel = "mark_started 0 sample_release" and ?cfg = "do_health_config sample_orchestrator"
  let ?ok = "step_ok ?cfg failing_adapter ?rel"
  obtain plan where p: "build_plan 1 0 (rl_strategy sample_release) 8 = Inr plan"
    by (simp add: build_plan_def sample_release_def release_record_new_def staged_strategy_default_def
        validate_staged_def unit_interval_def last_opt_def word_less_nat_alt word_le_nat_alt)
  have idx: "map ds_index (dp_steps plan) = [0, 1, 2]"
    using p by (auto simp: build_plan_def sample_release_def release_record_new_def staged_strategy_default_def
        Let_def split: sum.splits if_splits)
  then obtain a b c where st: "dp_steps plan = [a, b, c]" "ds_index a = 0" "ds_index b = 1" by auto
  have ok: "?ok a" "\<not> ?ok b"
    using st by (simp_all add: step_ok_def failing_adapter_def gate_passed_iff sample_orchestrator_def
        gate_config_default_def snapshot_with_def word_le_nat_alt)
  obtain res calls rel' where e: "deploy_execute 1 2 (\<lambda>_. 0) sample_orchestrator failing_adapter 8 sample_release = (res, calls, rel')"
    by (rule prod_cases3)
  have b: "da_begin failing_adapter ?rel plan = Inr ()" by (simp add: failing_adapter_def)
  have k: "Suc 0 = length (takeWhile ?ok (dp_steps plan))" using ok st by simp
  from deploy_execute_exact [OF p refl b e k]
  have "case da_apply_step failing_adapter ?rel b of
         Inl e \<Rightarrow> False
       | Inr snap \<Rightarrow> \<exists>rplan.
           calls = CallBegin # map CallApply [0..<Suc (Suc 0)] @ [CallRollback rplan] \<and>
           rb_to_version rplan = (case rm_previous_version (rl_manifest ?rel) of Some v \<Rightarrow> v | None \<Rightarrow> ''unknown-stable'') \<and>
           (case da_rollback failing_adapter ?rel rplan of Inl e \<Rightarrow> False | Inr _ \<Rightarrow> rl_state rel' = RolledBack)"
    by (simp add: st failing_adapter_def split: sum.splits) blast
  then have "\<exists>rplan. calls = [CallBegin, CallApply 0, CallApply 1, CallRollback rplan] \<and>
      rb_to_version rplan = ''v1'' \<and> rl_state rel' = RolledBack"
    by (simp add: failing_adapter_def sample_release_def release_record_new_def release_manifest_new_def mark_started_def upt_rec)
  with e show ?thesis by blast
qed

text \<open>
  An adapter that fails in the middle leaves the release rolling out: nothing is undone and no
  end is recorded, though the rollback decider has a cause for exactly this case.
\<close>

lemma failed_step_left_rolling_out:
  assumes "build_plan uid1 (clk 1) (rl_strategy rel0) targets = Inr plan" "rel = mark_started (clk 2) rel0"
    and "da_begin adapter rel plan = Inr ()" "dp_steps plan = s0 # s1 # ss" "step_ok (do_health_config orch) adapter rel s0"
    and "da_apply_step adapter rel s1 = Inl e"
  shows "fst (snd (deploy_execute uid1 uid2 clk orch adapter targets rel0)) =
      [CallBegin, CallApply (ds_index s0), CallApply (ds_index s1)] \<and>
    rl_state (snd (snd (deploy_execute uid1 uid2 clk orch adapter targets rel0))) = RollingOut"
  using assms by (simp add: deploy_execute_def deploy_loop_spec step_ok_def mark_started_def Let_def)

end
