(* ===== verification/Deploy_Target.thy ===== *)
theory Deploy_Target
  imports Fleet_Text
begin

text \<open>
  Finding deploy targets and waiting for leases (\<^verbatim>\<open>ff-deploy/src/resolution.rs\<close>,
  \<^verbatim>\<open>config.rs\<close>, \<^verbatim>\<open>deploy.rs\<close>, \<^verbatim>\<open>daemon.rs\<close>). The lookup, the lease query and the clock are
  sequences: the result of the \<open>i\<close>-th call. The retry loops return with what they return also
  the number of lookups and the delays slept.
\<close>

section \<open>Targets and the retry policy\<close>

record resolved_target =
  rt_name :: string
  rt_primary_ip :: string
  rt_ram_gb :: int

definition rt_is_complete :: "resolved_target \<Rightarrow> bool" where
  "rt_is_complete t \<longleftrightarrow> trim_ws (rt_primary_ip t) \<noteq> [] \<and> rt_ram_gb t > 0"

text \<open>The trait \<open>TargetLike\<close>: its three accessors, with the default \<open>is_complete\<close>.\<close>

record 't target_like =
  tl_name :: "'t \<Rightarrow> string"
  tl_primary_ip :: "'t \<Rightarrow> string"
  tl_ram_gb :: "'t \<Rightarrow> int"

definition tl_is_complete :: "'t target_like \<Rightarrow> 't \<Rightarrow> bool" where
  "tl_is_complete L t \<longleftrightarrow> trim_ws (tl_primary_ip L t) \<noteq> [] \<and> tl_ram_gb L t > 0"

definition resolved_target_like :: "resolved_target target_like" where
  "resolved_target_like = \<lparr> tl_name = rt_name, tl_primary_ip = rt_primary_ip, tl_ram_gb = rt_ram_gb \<rparr>"

record resolution_policy =
  ry_max_attempts :: u32
  ry_initial_delay :: std_duration
  ry_backoff_multiplier :: u32

definition resolution_policy_default :: resolution_policy where
  "resolution_policy_default = \<lparr> ry_max_attempts = 5, ry_initial_delay = 1000000000, ry_backoff_multiplier = 2 \<rparr>"

text \<open>\<open>u32::saturating_pow\<close> and \<open>Duration::saturating_mul\<close>, whose largest value is \<open>Duration::MAX\<close>.\<close>

definition saturating_pow :: "u32 \<Rightarrow> nat \<Rightarrow> nat" where
  "saturating_pow b n = min (unat b ^ n) (2 ^ 32 - 1)"

definition duration_max :: std_duration where
  "duration_max = 2 ^ 64 * 1000000000 - 1"

definition delay_after_attempt :: "resolution_policy \<Rightarrow> nat \<Rightarrow> std_duration" where
  "delay_after_attempt p attempt =
     min (ry_initial_delay p * saturating_pow (ry_backoff_multiplier p) (attempt - 1)) duration_max"

datatype 'e resolution_error =
    CircuitOpen nat "'e resolution_error"
  | LookupFailed nat 'e
  | Retryable nat string string int string

fun is_retryable :: "'e resolution_error \<Rightarrow> bool" where
  "is_retryable (Retryable _ _ _ _ _) = True"
| "is_retryable _ = False"

definition retryable_error :: "'t target_like \<Rightarrow> 't \<Rightarrow> nat \<Rightarrow> 'e resolution_error" where
  "retryable_error L t attempts =
     (let missing = (if trim_ws (tl_primary_ip L t) = [] then [''primary_ip''] else []) @
                    (if tl_ram_gb L t \<le> 0 then [''ram''] else [])
      in Retryable attempts (tl_name L t) (tl_primary_ip L t) (tl_ram_gb L t) (str_join '', '' missing))"

definition open_circuit :: "'t target_like \<Rightarrow> 't \<Rightarrow> nat \<Rightarrow> 'e resolution_error" where
  "open_circuit L t attempts = CircuitOpen attempts (retryable_error L t attempts)"

section \<open>The retry loop\<close>

text \<open>
  The \<open>for\<close> loop the three resolvers share, with the test \<open>ok\<close> of the lookup's value: the
  value of an early return, or the last result when the attempts are spent.
\<close>

function retry_loop ::
  "('a \<Rightarrow> bool) \<Rightarrow> resolution_policy \<Rightarrow> nat \<Rightarrow> (nat \<Rightarrow> ('a, 'e) result) \<Rightarrow> nat \<Rightarrow> ('a, 'e) result option \<Rightarrow>
   std_duration list \<Rightarrow> ('a, ('a, 'e) result option) result \<times> nat \<times> std_duration list" where
  "retry_loop ok policy max_attempts lookup attempt seen delays =
     (if attempt \<le> max_attempts
      then (let res = lookup attempt;
                delays1 = (if attempt < max_attempts then delays @ [delay_after_attempt policy attempt] else delays)
            in case res of
                 Inr t \<Rightarrow> if ok t then (Inr t, attempt, delays)
                          else retry_loop ok policy max_attempts lookup (attempt + 1) (Some res) delays1
               | Inl e \<Rightarrow> retry_loop ok policy max_attempts lookup (attempt + 1) (Some res) delays1)
      else (Inl seen, max_attempts, delays))"
  by pat_completeness auto
termination
  by (relation "measure (\<lambda>(ok, policy, m, lookup, attempt, seen, delays). m + 1 - attempt)") auto

declare retry_loop.simps [simp del]

definition attempts_of :: "resolution_policy \<Rightarrow> nat" where
  "attempts_of policy = unat (max (ry_max_attempts policy) 1)"

definition resolve_with_retry_async ::
  "'t target_like \<Rightarrow> resolution_policy \<Rightarrow> (nat \<Rightarrow> ('t, 'e) result) \<Rightarrow>
   (('t, 'e resolution_error) result \<times> nat \<times> std_duration list) outcome" where
  "resolve_with_retry_async L policy lookup =
     (let m = attempts_of policy
      in case retry_loop (tl_is_complete L) policy m lookup 1 None [] of
           (Inr t, n, ds) \<Rightarrow> Returns (Inr t, n, ds)
         | (Inl None, n, ds) \<Rightarrow> Panics
         | (Inl (Some (Inr t)), n, ds) \<Rightarrow> Returns (Inl (open_circuit L t m), n, ds)
         | (Inl (Some (Inl e)), n, ds) \<Rightarrow> Returns (Inl (LookupFailed m e), n, ds))"

definition resolve_with_retry ::
  "resolution_policy \<Rightarrow> (nat \<Rightarrow> (resolved_target, 'e) result) \<Rightarrow>
   ((resolved_target, 'e resolution_error) result \<times> nat \<times> std_duration list) outcome" where
  "resolve_with_retry policy lookup =
     (let m = attempts_of policy
      in case retry_loop rt_is_complete policy m lookup 1 None [] of
           (Inr t, n, ds) \<Rightarrow> Returns (Inr t, n, ds)
         | (Inl None, n, ds) \<Rightarrow> Panics
         | (Inl (Some (Inr t)), n, ds) \<Rightarrow> Returns (Inl (open_circuit resolved_target_like t m), n, ds)
         | (Inl (Some (Inl e)), n, ds) \<Rightarrow> Returns (Inl (LookupFailed m e), n, ds))"

definition resolve_all_with_retry_async ::
  "'t target_like \<Rightarrow> resolution_policy \<Rightarrow> (nat \<Rightarrow> ('t list, 'e) result) \<Rightarrow>
   (('t list, 'e resolution_error) result \<times> nat \<times> std_duration list) outcome" where
  "resolve_all_with_retry_async L policy lookup =
     (let m = attempts_of policy
      in case retry_loop (list_all (tl_is_complete L)) policy m lookup 1 None [] of
           (Inr ts, n, ds) \<Rightarrow> Returns (Inr ts, n, ds)
         | (Inl None, n, ds) \<Rightarrow> Panics
         | (Inl (Some (Inr ts)), n, ds) \<Rightarrow>
             (case find (\<lambda>t. \<not> tl_is_complete L t) ts of
                None \<Rightarrow> Panics
              | Some t \<Rightarrow> Returns (Inl (open_circuit L t m), n, ds))
         | (Inl (Some (Inl e)), n, ds) \<Rightarrow> Returns (Inl (LookupFailed m e), n, ds))"

section \<open>Draining leases before a restart\<close>

record deploy_config =
  dc_drain_timeout :: std_duration

definition deploy_config_default :: deploy_config where
  "deploy_config_default = \<lparr> dc_drain_timeout = 300 * 1000000000 \<rparr>"

record restart_coordinator =
  rc_drain_timeout :: std_duration
  rc_poll_interval :: std_duration

definition restart_coordinator_default :: restart_coordinator where
  "restart_coordinator_default = \<lparr> rc_drain_timeout = 300 * 1000000000, rc_poll_interval = 5 * 1000000000 \<rparr>"

definition coordinator_from_config :: "deploy_config \<Rightarrow> restart_coordinator" where
  "coordinator_from_config config =
     \<lparr> rc_drain_timeout = dc_drain_timeout config, rc_poll_interval = 5 * 1000000000 \<rparr>"

definition coordinator_new :: "std_duration \<Rightarrow> std_duration \<Rightarrow> restart_coordinator" where
  "coordinator_new timeout poll = \<lparr> rc_drain_timeout = timeout, rc_poll_interval = poll \<rparr>"

datatype 'e restart_error = QueryFailed 'e | DrainTimedOut std_duration nat | RestartFailed 'e

text \<open>
  The polling loop. In its \<open>i\<close>-th round the time since the start is read up to three times, as
  \<open>elapsed (3 * i)\<close> and the two reads that follow; no value means it polls for ever.
\<close>

partial_function (option) restart_loop ::
  "restart_coordinator \<Rightarrow> (nat \<Rightarrow> (nat, 'e) result) \<Rightarrow> (nat \<Rightarrow> std_duration) \<Rightarrow> nat \<Rightarrow> std_duration list \<Rightarrow>
   ((unit, 'e restart_error) result \<times> std_duration list) option" where
  "restart_loop c leases elapsed i sleeps =
     (case leases i of
        Inl e \<Rightarrow> Some (Inl (QueryFailed e), sleeps)
      | Inr active \<Rightarrow>
          if active = 0 then Some (Inr (), sleeps)
          else if elapsed (3 * i) \<ge> rc_drain_timeout c
          then Some (Inl (DrainTimedOut (rc_drain_timeout c) active), sleeps)
          else restart_loop c leases elapsed (i + 1)
                 (sleeps @ [min (rc_poll_interval c) (rc_drain_timeout c - elapsed (3 * i + 2))]))"

definition coordinator_restart ::
  "restart_coordinator \<Rightarrow> (nat \<Rightarrow> (nat, 'e) result) \<Rightarrow> (nat \<Rightarrow> std_duration) \<Rightarrow> (unit, 'e) result \<Rightarrow>
   ((unit, 'e restart_error) result \<times> bool) option" where
  "coordinator_restart c leases elapsed perform_restart =
     (case restart_loop c leases elapsed 0 [] of
        None \<Rightarrow> None
      | Some (Inl err, _) \<Rightarrow> Some (Inl err, False)
      | Some (Inr _, _) \<Rightarrow>
          Some (case perform_restart of Inl e \<Rightarrow> Inl (RestartFailed e) | Inr _ \<Rightarrow> Inr (), True))"

record active_lease =
  al_lease_id :: string
  al_work_item_ids :: "string list"

record restart_report =
  rp_drained :: bool
  rp_requeued_item_ids :: "string list"

datatype 'e lease_error = LeaseQueryFailed 'e | RequeueFailed 'e

text \<open>
  The handler that requeues. The instants are counted from some origin; \<open>clk 0\<close> fixes the
  deadline and round \<open>i\<close> reads \<open>clk (2 * i + 1)\<close>, and once more for its log line.
\<close>

partial_function (option) lease_drain_loop ::
  "std_duration \<Rightarrow> (nat \<Rightarrow> (active_lease list, 'e) result) \<Rightarrow> (active_lease list \<Rightarrow> (unit, 'e) result) \<Rightarrow>
   (nat \<Rightarrow> std_duration) \<Rightarrow> nat \<Rightarrow> (restart_report, 'e lease_error) result option" where
  "lease_drain_loop deadline active_leases requeue_items clk i =
     (case active_leases i of
        Inl e \<Rightarrow> Some (Inl (LeaseQueryFailed e))
      | Inr leases \<Rightarrow>
          if leases = [] then Some (Inr \<lparr> rp_drained = True, rp_requeued_item_ids = [] \<rparr>)
          else if clk (2 * i + 1) \<ge> deadline
          then (let requeued = concat (map al_work_item_ids leases)
                in case requeue_items leases of
                     Inl e \<Rightarrow> Some (Inl (RequeueFailed e))
                   | Inr _ \<Rightarrow> Some (Inr \<lparr> rp_drained = False, rp_requeued_item_ids = requeued \<rparr>))
          else lease_drain_loop deadline active_leases requeue_items clk (i + 1))"

definition restart_with_lease_drain ::
  "deploy_config \<Rightarrow> (nat \<Rightarrow> (active_lease list, 'e) result) \<Rightarrow> (active_lease list \<Rightarrow> (unit, 'e) result) \<Rightarrow>
   (nat \<Rightarrow> std_duration) \<Rightarrow> (restart_report, 'e lease_error) result option" where
  "restart_with_lease_drain config active_leases requeue_items clk =
     lease_drain_loop (clk 0 + dc_drain_timeout config) active_leases requeue_items clk 0"

section \<open>What the retries return\<close>

definition found :: "('a \<Rightarrow> bool) \<Rightarrow> ('a, 'e) result \<Rightarrow> bool" where
  "found ok res = (case res of Inr t \<Rightarrow> ok t | Inl _ \<Rightarrow> False)"

lemma retry_loop_miss:
  assumes "attempt \<le> m" "\<not> found ok (lookup attempt)"
  shows "retry_loop ok policy m lookup attempt seen ds =
    retry_loop ok policy m lookup (attempt + 1) (Some (lookup attempt))
      (if attempt < m then ds @ [delay_after_attempt policy attempt] else ds)"
  using assms by (subst retry_loop.simps) (auto simp: found_def Let_def split: sum.splits)

lemma retry_loop_found:
  assumes "attempt \<le> k" "k \<le> m" "\<forall>j. attempt \<le> j \<and> j < k \<longrightarrow> \<not> found ok (lookup j)" "lookup k = Inr t" "ok t"
  shows "retry_loop ok policy m lookup attempt seen ds = (Inr t, k, ds @ map (delay_after_attempt policy) [attempt..<k])"
  using assms
proof (induction "k - attempt" arbitrary: attempt seen ds)
  case 0
  then show ?case by (subst retry_loop.simps) simp
next
  case (Suc n)
  then have lt: "attempt < k" by simp
  have "\<not> found ok (lookup attempt)" using Suc.prems(3) lt by blast
  then have "retry_loop ok policy m lookup attempt seen ds =
      retry_loop ok policy m lookup (attempt + 1) (Some (lookup attempt)) (ds @ [delay_after_attempt policy attempt])"
    using retry_loop_miss [of attempt m ok lookup policy seen ds] lt Suc.prems(2) by simp
  also have "\<dots> = (Inr t, k, (ds @ [delay_after_attempt policy attempt]) @ map (delay_after_attempt policy) [attempt + 1..<k])"
    by (rule Suc.hyps(1)) (use Suc lt in auto)
  finally show ?case using lt by (simp add: upt_conv_Cons)
qed

lemma retry_loop_spent:
  assumes "attempt \<le> m" "\<forall>j. attempt \<le> j \<and> j \<le> m \<longrightarrow> \<not> found ok (lookup j)"
  shows "retry_loop ok policy m lookup attempt seen ds =
    (Inl (Some (lookup m)), m, ds @ map (delay_after_attempt policy) [attempt..<m])"
  using assms
proof (induction "m - attempt" arbitrary: attempt seen ds)
  case 0
  then have "attempt = m" by simp
  then show ?case using retry_loop_miss [of m m ok lookup policy seen ds] 0
    by (simp add: retry_loop.simps [of ok policy m lookup "Suc m"])
next
  case (Suc n)
  then have lt: "attempt < m" by simp
  have "\<not> found ok (lookup attempt)" using Suc.prems(2) lt by simp
  then have "retry_loop ok policy m lookup attempt seen ds =
      retry_loop ok policy m lookup (attempt + 1) (Some (lookup attempt)) (ds @ [delay_after_attempt policy attempt])"
    using retry_loop_miss [of attempt m ok lookup policy seen ds] lt by simp
  also have "\<dots> = (Inl (Some (lookup m)), m, (ds @ [delay_after_attempt policy attempt]) @ map (delay_after_attempt policy) [attempt + 1..<m])"
    by (rule Suc.hyps(1)) (use Suc lt in auto)
  finally show ?case using lt by (simp add: upt_conv_Cons)
qed

lemma attempts_positive: "1 \<le> attempts_of policy"
  by (simp add: attempts_of_def word_le_nat_alt max_def)

text \<open>
  A resolution never panics and makes at most the allowed number of lookups, at least one.
  It returns the first complete target, having slept the delays of the attempts before it; if
  no attempt finds one, all are made, and the error names what the last one lacked or carries
  the error of the last one. Resolving many targets is the same with a batch of which every
  target is complete, and names the first incomplete target of the last batch.
\<close>

theorem resolve_exact:
  fixes lookup :: "nat \<Rightarrow> ('t, 'e) result" and lookups :: "nat \<Rightarrow> ('t list, 'e) result"
  assumes "m = attempts_of policy"
  shows "(\<forall>k t. 1 \<le> k \<and> k \<le> m \<and> lookup k = Inr t \<and> tl_is_complete L t \<and>
        (\<forall>j. 1 \<le> j \<and> j < k \<longrightarrow> \<not> found (tl_is_complete L) (lookup j)) \<longrightarrow>
      resolve_with_retry_async L policy lookup = Returns (Inr t, k, map (delay_after_attempt policy) [1..<k])) \<and>
    ((\<forall>j. 1 \<le> j \<and> j \<le> m \<longrightarrow> \<not> found (tl_is_complete L) (lookup j)) \<longrightarrow>
      resolve_with_retry_async L policy lookup =
        Returns (case lookup m of Inr t \<Rightarrow> Inl (open_circuit L t m) | Inl e \<Rightarrow> Inl (LookupFailed m e),
                 m, map (delay_after_attempt policy) [1..<m])) \<and>
    (\<forall>k ts. 1 \<le> k \<and> k \<le> m \<and> lookups k = Inr ts \<and> (\<forall>t \<in> set ts. tl_is_complete L t) \<and>
        (\<forall>j. 1 \<le> j \<and> j < k \<longrightarrow> \<not> found (list_all (tl_is_complete L)) (lookups j)) \<longrightarrow>
      resolve_all_with_retry_async L policy lookups = Returns (Inr ts, k, map (delay_after_attempt policy) [1..<k])) \<and>
    ((\<forall>j. 1 \<le> j \<and> j \<le> m \<longrightarrow> \<not> found (list_all (tl_is_complete L)) (lookups j)) \<longrightarrow>
      resolve_all_with_retry_async L policy lookups =
        Returns (case lookups m of
                   Inr ts \<Rightarrow> Inl (open_circuit L (hd (filter (\<lambda>t. \<not> tl_is_complete L t) ts)) m)
                 | Inl e \<Rightarrow> Inl (LookupFailed m e),
                 m, map (delay_after_attempt policy) [1..<m]))"
proof (intro conjI allI impI, goal_cases)
  case (1 k t)
  then show ?case
    using retry_loop_found [of 1 k m "tl_is_complete L" lookup t policy None "[]"]
    by (simp add: resolve_with_retry_async_def assms)
next
  case 2
  then show ?case
    using retry_loop_spent [of 1 m "tl_is_complete L" lookup policy None "[]"] attempts_positive [of policy]
    by (simp add: resolve_with_retry_async_def assms Let_def split: sum.splits)
next
  case (3 k ts)
  then show ?case
    using retry_loop_found [of 1 k m "list_all (tl_is_complete L)" lookups ts policy None "[]"]
    by (simp add: resolve_all_with_retry_async_def assms list_all_iff)
next
  case 4
  have one: "1 \<le> m" using attempts_positive [of policy] by (simp add: assms)
  have loop: "retry_loop (list_all (tl_is_complete L)) policy m lookups 1 None [] =
      (Inl (Some (lookups m)), m, map (delay_after_attempt policy) [1..<m])"
    using retry_loop_spent [OF one 4, of policy None "[]"] by simp
  show ?case
  proof (cases "lookups m")
    case (Inl e)
    then show ?thesis using loop by (simp add: resolve_all_with_retry_async_def assms Let_def)
  next
    case (Inr ts)
    then have "\<not> list_all (tl_is_complete L) ts" using 4 one by (auto simp: found_def)
    then have "find (\<lambda>t. \<not> tl_is_complete L t) ts = Some (hd (filter (\<lambda>t. \<not> tl_is_complete L t) ts))"
      by (induction ts) auto
    then show ?thesis using loop Inr by (simp add: resolve_all_with_retry_async_def assms Let_def)
  qed
qed

definition host :: "string \<Rightarrow> resolved_target" where
  "host ip = \<lparr> rt_name = ''vinny'', rt_primary_ip = ip, rt_ram_gb = 64 \<rparr>"

theorem resolve_exact_witness:
  "resolve_with_retry_async resolved_target_like resolution_policy_default
     (\<lambda>k. if k = 1 then Inl ''down'' else if k = 2 then Inr (host []) else Inr (host ''10.0.0.1'')) =
   Returns (Inr (host ''10.0.0.1''), 3, [1000000000, 2000000000])"
proof -
  let ?lookup = "\<lambda>k :: nat. if k = 1 then Inl ''down'' else if k = 2 then Inr (host []) else Inr (host ''10.0.0.1'')"
  have "attempts_of resolution_policy_default = 5" by (simp add: attempts_of_def resolution_policy_default_def)
  moreover have "tl_is_complete resolved_target_like (host ''10.0.0.1'')" "\<not> tl_is_complete resolved_target_like (host [])"
    by (simp_all add: tl_is_complete_def resolved_target_like_def host_def trim_ws_def is_ws_def)
  moreover have "\<forall>j. 1 \<le> j \<and> j < 3 \<longrightarrow> \<not> found (tl_is_complete resolved_target_like) (?lookup j)"
    using calculation(3) by (auto simp: found_def)
  ultimately have "resolve_with_retry_async resolved_target_like resolution_policy_default ?lookup =
      Returns (Inr (host ''10.0.0.1''), 3, map (delay_after_attempt resolution_policy_default) [1..<3])"
    using resolve_exact [OF refl, of resolution_policy_default ?lookup resolved_target_like,
        THEN conjunct1, THEN spec, of 3, THEN spec, of "host ''10.0.0.1''"] by simp
  moreover have "map (delay_after_attempt resolution_policy_default) [1..<3] = [1000000000, 2000000000]"
    by (simp add: delay_after_attempt_def resolution_policy_default_def saturating_pow_def duration_max_def upt_rec)
  ultimately show ?thesis by simp
qed

lemma resolve_sync_async: "resolve_with_retry policy lookup = resolve_with_retry_async resolved_target_like policy lookup"
proof -
  have "rt_is_complete = tl_is_complete resolved_target_like"
    by (simp add: fun_eq_iff rt_is_complete_def tl_is_complete_def resolved_target_like_def)
  then show ?thesis by (simp add: resolve_with_retry_def resolve_with_retry_async_def)
qed

text \<open>
  The error does not tell that every attempt failed, as it says: one failed lookup in the last
  attempt is enough, whatever the others returned. And no error returned is ever retryable.
\<close>

lemma lookup_failed_by_last_attempt:
  assumes "attempts_of policy = 2" "lookup 1 = Inr t" "\<not> tl_is_complete L t" "lookup 2 = Inl e"
  shows "resolve_with_retry_async L policy lookup = Returns (Inl (LookupFailed 2 e), 2, [delay_after_attempt policy 1])"
  using assms by (simp add: resolve_with_retry_async_def retry_loop.simps numeral_2_eq_2)

lemma resolve_error_not_retryable:
  "resolve_with_retry_async L policy lookup = Returns (Inl err, n, ds) \<Longrightarrow> \<not> is_retryable err"
  by (auto simp: resolve_with_retry_async_def open_circuit_def Let_def split: prod.splits sum.splits option.splits)

lemma delay_mono:
  assumes "1 \<le> ry_backoff_multiplier p" "a \<le> b"
  shows "delay_after_attempt p a \<le> delay_after_attempt p b"
proof -
  have "unat (ry_backoff_multiplier p) ^ (a - 1) \<le> unat (ry_backoff_multiplier p) ^ (b - 1)"
    using assms by (intro power_increasing) (auto simp: word_le_nat_alt)
  then have "saturating_pow (ry_backoff_multiplier p) (a - 1) \<le> saturating_pow (ry_backoff_multiplier p) (b - 1)"
    by (simp add: saturating_pow_def min_def)
  then show ?thesis unfolding delay_after_attempt_def by (intro min.mono mult_le_mono2 order_refl)
qed

section \<open>When a restart happens\<close>

text \<open>The rounds that decide: the query fails, no lease is left, or the time is up.\<close>

definition restart_decides :: "restart_coordinator \<Rightarrow> (nat \<Rightarrow> (nat, 'e) result) \<Rightarrow> (nat \<Rightarrow> std_duration) \<Rightarrow> nat \<Rightarrow> bool" where
  "restart_decides c leases elapsed i =
     (case leases i of Inl _ \<Rightarrow> True | Inr n \<Rightarrow> n = 0 \<or> rc_drain_timeout c \<le> elapsed (3 * i))"

lemma restart_loop_decides:
  assumes "restart_decides c leases elapsed k" "\<forall>j. i \<le> j \<and> j < k \<longrightarrow> \<not> restart_decides c leases elapsed j" "i \<le> k"
  shows "\<exists>sleeps'. restart_loop c leases elapsed i sleeps = Some (case leases k of
      Inl e \<Rightarrow> Inl (QueryFailed e)
    | Inr n \<Rightarrow> if n = 0 then Inr () else Inl (DrainTimedOut (rc_drain_timeout c) n), sleeps')"
  using assms(2,3)
proof (induction "k - i" arbitrary: i sleeps)
  case 0
  then have "i = k" by simp
  then show ?case
    using assms(1) by (subst restart_loop.simps) (auto simp: restart_decides_def split: sum.splits)
next
  case (Suc n)
  have lt: "i < k" using Suc.hyps(2) by simp
  then have nd: "\<not> restart_decides c leases elapsed i" using Suc.prems(1) by blast
  have "restart_loop c leases elapsed i sleeps = restart_loop c leases elapsed (i + 1)
      (sleeps @ [min (rc_poll_interval c) (rc_drain_timeout c - elapsed (3 * i + 2))])"
    using nd by (subst restart_loop.simps) (auto simp: restart_decides_def split: sum.splits)
  moreover have "\<exists>sleeps'. restart_loop c leases elapsed (i + 1)
      (sleeps @ [min (rc_poll_interval c) (rc_drain_timeout c - elapsed (3 * i + 2))]) = Some (case leases k of
        Inl e \<Rightarrow> Inl (QueryFailed e)
      | Inr n \<Rightarrow> if n = 0 then Inr () else Inl (DrainTimedOut (rc_drain_timeout c) n), sleeps')"
    by (rule Suc.hyps(1)) (use Suc lt in auto)
  ultimately show ?case by simp
qed

text \<open>
  Once a clock reaches the timeout the coordinator comes to an end, in the first round
  that decides: it restarts, exactly once, if and only if that round sees no lease; a failed
  query or leases that outlast the timeout give an error and no restart.
\<close>

theorem restart_only_after_drain:
  assumes "rc_drain_timeout c \<le> elapsed (3 * i)"
  shows "\<exists>k \<le> i. restart_decides c leases elapsed k \<and> (\<forall>j < k. \<not> restart_decides c leases elapsed j) \<and>
    coordinator_restart c leases elapsed perform = Some (case leases k of
      Inl e \<Rightarrow> (Inl (QueryFailed e), False)
    | Inr n \<Rightarrow>
        if n = 0 then (case perform of Inl e \<Rightarrow> Inl (RestartFailed e) | Inr _ \<Rightarrow> Inr (), True)
        else (Inl (DrainTimedOut (rc_drain_timeout c) n), False))"
proof -
  have "restart_decides c leases elapsed i" using assms by (simp add: restart_decides_def split: sum.splits)
  define k where "k = (LEAST k. restart_decides c leases elapsed k)"
  have k: "restart_decides c leases elapsed k" "k \<le> i" "\<forall>j < k. \<not> restart_decides c leases elapsed j"
    using \<open>restart_decides c leases elapsed i\<close> unfolding k_def by (auto intro: LeastI Least_le dest: not_less_Least)
  obtain sl where "restart_loop c leases elapsed 0 [] = Some (case leases k of
      Inl e \<Rightarrow> Inl (QueryFailed e)
    | Inr n \<Rightarrow> if n = 0 then Inr () else Inl (DrainTimedOut (rc_drain_timeout c) n), sl)"
    using restart_loop_decides [OF k(1), of 0 "[]"] k(3) by auto
  then show ?thesis
    by (intro exI [of _ k] conjI k) (auto simp: coordinator_restart_def split: sum.splits)
qed

theorem restart_only_after_drain_witness:
  "\<exists>k \<le> 4. coordinator_restart restart_coordinator_default (\<lambda>i. Inr (3 - i) :: (nat, string) result)
     (\<lambda>i. i * 100000000000) (Inr ()) = Some (Inl (DrainTimedOut 300000000000 (3 - k)), False)"
proof -
  let ?c = restart_coordinator_default and ?l = "\<lambda>i :: nat. Inr (3 - i) :: (nat, string) result"
    and ?e = "\<lambda>i :: nat. i * 100000000000"
  have "rc_drain_timeout ?c \<le> ?e (3 * 1)" by (simp add: restart_coordinator_default_def)
  from restart_only_after_drain [of ?c ?e 1, OF this, of ?l "Inr ()"]
  obtain k where k: "k \<le> 1" "coordinator_restart ?c ?l ?e (Inr ()) = Some (case ?l k of
      Inl e \<Rightarrow> (Inl (QueryFailed e), False)
    | Inr n \<Rightarrow>
        if n = 0 then (case Inr () of Inl e \<Rightarrow> Inl (RestartFailed e) | Inr _ \<Rightarrow> Inr (), True)
        else (Inl (DrainTimedOut (rc_drain_timeout ?c) n), False))" by blast
  then show ?thesis
    by (intro exI [of _ k]) (simp add: restart_coordinator_default_def)
qed

text \<open>The handler of the daemon never loses a leased item: it drains, or it hands back every one.\<close>

definition lease_verdict ::
  "(active_lease list \<Rightarrow> (unit, 'e) result) \<Rightarrow> (active_lease list, 'e) result \<Rightarrow> (restart_report, 'e lease_error) result" where
  "lease_verdict requeue res =
     (case res of
        Inl e \<Rightarrow> Inl (LeaseQueryFailed e)
      | Inr ls \<Rightarrow>
          if ls = [] then Inr \<lparr> rp_drained = True, rp_requeued_item_ids = [] \<rparr>
          else (case requeue ls of
                  Inl e \<Rightarrow> Inl (RequeueFailed e)
                | Inr _ \<Rightarrow> Inr \<lparr> rp_drained = False, rp_requeued_item_ids = concat (map al_work_item_ids ls) \<rparr>))"

lemma lease_drain_round:
  "lease_drain_loop deadline leases requeue clk i =
     (if (case leases i of Inl _ \<Rightarrow> True | Inr ls \<Rightarrow> ls = [] \<or> deadline \<le> clk (2 * i + 1))
      then Some (lease_verdict requeue (leases i))
      else lease_drain_loop deadline leases requeue clk (i + 1))"
  by (subst lease_drain_loop.simps) (simp add: lease_verdict_def Let_def split: sum.split)

lemma lease_drain_returns:
  assumes "deadline \<le> clk (2 * k + 1)" "i \<le> k"
  shows "\<exists>j. i \<le> j \<and> j \<le> k \<and> lease_drain_loop deadline leases requeue clk i = Some (lease_verdict requeue (leases j))"
  using assms(2)
proof (induction "k - i" arbitrary: i)
  case 0
  then have "i = k" by simp
  then show ?case
    using assms(1) by (intro exI [of _ k]) (subst lease_drain_round, simp split: sum.split)
next
  case (Suc n)
  show ?case
  proof (cases "case leases i of Inl _ \<Rightarrow> True | Inr ls \<Rightarrow> ls = [] \<or> deadline \<le> clk (2 * i + 1)")
    case True
    then show ?thesis using Suc.prems by (intro exI [of _ i]) (subst lease_drain_round, simp)
  next
    case False
    then have "lease_drain_loop deadline leases requeue clk i = lease_drain_loop deadline leases requeue clk (i + 1)"
      by (subst lease_drain_round) simp
    moreover have "n = k - (i + 1)" "i + 1 \<le> k" using Suc.hyps(2) Suc.prems by simp_all
    then obtain j where "i + 1 \<le> j" "j \<le> k"
      "lease_drain_loop deadline leases requeue clk (i + 1) = Some (lease_verdict requeue (leases j))"
      using Suc.hyps(1) [of "i + 1"] by blast
    ultimately show ?thesis by (intro exI [of _ j]) simp
  qed
qed

end
