(* ===== verification/Deploy_Tick.thy ===== *)
theory Deploy_Tick
  imports Fleet_Text "HOL-Library.Char_ord" "HOL-Library.List_Lexorder"
begin

text \<open>
  One tick of the native deployment (\<^verbatim>\<open>ff-deploy/src/lib.rs\<close>): targets are grouped by
  architecture, each group builds once, and every target gets the artifact, a cleanup and a
  restart. The operations are arguments, numbered by the calls made before them, so that two
  calls may answer differently; the tick also returns its calls with their answers.
\<close>

section \<open>Targets, operations, reports\<close>

record native_target =
  nt_name :: string
  nt_architecture :: string

datatype native_outcome =
    NativeRestarted | BuildFailed string | TransferFailed string | CleanupFailed string | NativeRestartFailed string

record native_result =
  nr_target :: native_target
  nr_outcome :: native_outcome

record native_report =
  nx_results :: "native_result list"

definition converged :: "native_report \<Rightarrow> bool" where
  "converged report = list_all (\<lambda>r. nr_outcome r = NativeRestarted) (nx_results report)"

record 'a native_operations =
  no_build :: "nat \<Rightarrow> native_target \<Rightarrow> ('a, string) result"
  no_transfer :: "nat \<Rightarrow> 'a \<Rightarrow> native_target \<Rightarrow> (unit, string) result"
  no_cleanup :: "nat \<Rightarrow> 'a \<Rightarrow> native_target \<Rightarrow> (unit, string) result"
  no_restart_with_drain :: "nat \<Rightarrow> native_target \<Rightarrow> (unit, string) result"

datatype native_call =
    CallBuild native_target "string option"
  | CallTransfer native_target "(unit, string) result"
  | CallCleanup native_target "(unit, string) result"
  | CallRestart native_target "(unit, string) result"

section \<open>The tick\<close>

definition arch_key :: "native_target \<Rightarrow> string" where
  "arch_key t = to_ascii_lowercase (trim_ws (nt_architecture t))"

definition group_push ::
  "native_target \<Rightarrow> (string, native_target list) btree \<Rightarrow> (string, native_target list) btree" where
  "group_push t m =
     bt_insert (arch_key t) ((case bt_get m (arch_key t) of Some ts \<Rightarrow> ts | None \<Rightarrow> []) @ [t]) m"

definition group_targets :: "native_target list \<Rightarrow> (string, native_target list) btree" where
  "group_targets targets = fold group_push targets []"

definition deploy_target ::
  "'a native_operations \<Rightarrow> 'a \<Rightarrow> native_target \<Rightarrow> native_call list \<Rightarrow> native_call list \<times> native_outcome" where
  "deploy_target ops artifact target calls =
     (let transfer = no_transfer ops (length calls) artifact target;
          calls1 = calls @ [CallTransfer target transfer];
          cleanup = no_cleanup ops (length calls1) artifact target;
          calls2 = calls1 @ [CallCleanup target cleanup]
      in case (transfer, cleanup) of
           (Inl err, _) \<Rightarrow> (calls2, TransferFailed err)
         | (Inr _, Inl err) \<Rightarrow> (calls2, CleanupFailed err)
         | (Inr _, Inr _) \<Rightarrow>
             let restart = no_restart_with_drain ops (length calls2) target;
                 calls3 = calls2 @ [CallRestart target restart]
             in (case restart of
                   Inr _ \<Rightarrow> (calls3, NativeRestarted)
                 | Inl err \<Rightarrow> (calls3, NativeRestartFailed err)))"

fun deploy_targets ::
  "'a native_operations \<Rightarrow> 'a \<Rightarrow> native_target list \<Rightarrow> native_call list \<times> native_result list \<Rightarrow>
   native_call list \<times> native_result list" where
  "deploy_targets ops artifact [] acc = acc"
| "deploy_targets ops artifact (target # targets) acc =
     (case deploy_target ops artifact target (fst acc) of
        (calls, outcome) \<Rightarrow>
          deploy_targets ops artifact targets (calls, snd acc @ [\<lparr> nr_target = target, nr_outcome = outcome \<rparr>]))"

definition deploy_group ::
  "'a native_operations \<Rightarrow> native_target list \<Rightarrow> native_call list \<times> native_result list \<Rightarrow>
   (native_call list \<times> native_result list) outcome" where
  "deploy_group ops grp acc =
     (let targets = sort_key nt_name grp
      in case targets of
           [] \<Rightarrow> Panics
         | builder # _ \<Rightarrow>
             (case no_build ops (length (fst acc)) builder of
                Inl err \<Rightarrow>
                  Returns (fst acc @ [CallBuild builder (Some err)],
                           snd acc @ map (\<lambda>t. \<lparr> nr_target = t, nr_outcome = BuildFailed err \<rparr>) targets)
              | Inr artifact \<Rightarrow>
                  Returns (deploy_targets ops artifact targets (fst acc @ [CallBuild builder None], snd acc))))"

fun deploy_groups ::
  "'a native_operations \<Rightarrow> native_target list list \<Rightarrow> native_call list \<times> native_result list \<Rightarrow>
   (native_call list \<times> native_result list) outcome" where
  "deploy_groups ops [] acc = Returns acc"
| "deploy_groups ops (g # gs) acc =
     (case deploy_group ops g acc of Panics \<Rightarrow> Panics | Returns acc1 \<Rightarrow> deploy_groups ops gs acc1)"

definition run_native_deploy_tick ::
  "native_target list \<Rightarrow> 'a native_operations \<Rightarrow> (native_call list \<times> native_report) outcome" where
  "run_native_deploy_tick targets ops =
     (case deploy_groups ops (map snd (group_targets targets)) ([], []) of
        Panics \<Rightarrow> Panics
      | Returns (calls, results) \<Rightarrow> Returns (calls, \<lparr> nx_results = results \<rparr>))"

section \<open>The groups\<close>

lemma group_targets_get:
  "bt_wf (group_targets targets) \<and>
   bt_get (group_targets targets) k =
     (let ts = filter (\<lambda>t. arch_key t = k) targets in if ts = [] then None else Some ts)"
proof (induction targets arbitrary: k rule: rev_induct)
  case Nil
  then show ?case by (simp add: group_targets_def bt_wf_def)
next
  case (snoc t ts)
  have s: "group_targets (ts @ [t]) = group_push t (group_targets ts)" by (simp add: group_targets_def)
  have wf: "bt_wf (group_targets ts)" using snoc by blast
  show ?case unfolding s group_push_def
    using wf snoc [of k] snoc [of "arch_key t"] by (simp add: bt_get_insert Let_def)
qed

text \<open>The groups in the order of the map: by architecture, each in the order of its names.\<close>

definition arch_groups :: "native_target list \<Rightarrow> native_target list list" where
  "arch_groups targets =
     map (\<lambda>k. filter (\<lambda>t. arch_key t = k) targets) (sorted_list_of_set (arch_key ` set targets))"

lemma group_targets_arch: "map snd (group_targets targets) = arch_groups targets"
proof -
  let ?m = "group_targets targets"
  have wf: "bt_wf ?m" and get: "\<And>k. bt_get ?m k =
      (let ts = filter (\<lambda>t. arch_key t = k) targets in if ts = [] then None else Some ts)"
    using group_targets_get by blast+
  have mem: "(k, v) \<in> set ?m \<longleftrightarrow> k \<in> arch_key ` set targets \<and> v = filter (\<lambda>t. arch_key t = k) targets" for k v
    unfolding bt_get_mem [OF wf, symmetric] get by (auto simp: Let_def filter_empty_conv)
  have "set (map fst ?m) = arch_key ` set targets"
    by (rule set_eqI) (simp add: image_iff Bex_def mem split_paired_Ex)
  moreover have "sorted (map fst ?m)" "distinct (map fst ?m)"
    using wf by (simp_all add: bt_wf_def strict_sorted_iff)
  ultimately have keys: "map fst ?m = sorted_list_of_set (arch_key ` set targets)"
    by (metis sorted_list_of_set.idem_if_sorted_distinct)
  have "map snd ?m = map ((\<lambda>k. filter (\<lambda>t. arch_key t = k) targets) \<circ> fst) ?m"
    using mem by (intro map_cong) (auto simp: split_paired_all)
  then show ?thesis by (simp add: arch_groups_def keys [symmetric])
qed

lemma arch_groups_nonempty: "[] \<notin> set (arch_groups targets)"
proof
  assume "[] \<in> set (arch_groups targets)"
  then obtain t where t: "t \<in> set targets" and e: "[] = filter (\<lambda>u. arch_key u = arch_key t) targets"
    by (auto simp: arch_groups_def)
  show False using t e [symmetric] by (auto simp: filter_empty_conv)
qed

lemma mset_arch_groups: "mset (concat (arch_groups targets)) = mset targets"
proof -
  have parts: "mset (concat (map (\<lambda>k. filter (\<lambda>t. f t = k) ts) ks)) = mset (filter (\<lambda>t. f t \<in> set ks) ts)"
    if "distinct ks" for f :: "native_target \<Rightarrow> string" and ks ts
    using that
  proof (induction ks)
    case (Cons k ks)
    have "mset (filter (\<lambda>t. f t \<in> set (k # ks)) ts) =
        mset (filter (\<lambda>t. f t = k) ts) + mset (filter (\<lambda>t. f t \<in> set ks) ts)"
      using Cons.prems by (induction ts) auto
    with Cons show ?case by simp
  qed simp
  have "mset (concat (arch_groups targets)) = mset (filter (\<lambda>t. arch_key t \<in> arch_key ` set targets) targets)"
    unfolding arch_groups_def
    using parts [where f = arch_key and ts = targets and ks = "sorted_list_of_set (arch_key ` set targets)"] by simp
  also have "filter (\<lambda>t. arch_key t \<in> arch_key ` set targets) targets = targets" by (simp add: filter_id_conv)
  finally show ?thesis .
qed

section \<open>The calls\<close>

text \<open>The calls that belong to the result of a target, and to the results of a group.\<close>

fun target_trace :: "native_target \<Rightarrow> native_outcome \<Rightarrow> native_call list \<Rightarrow> bool" where
  "target_trace t (BuildFailed err) cs = False"
| "target_trace t (TransferFailed err) cs = (\<exists>c. cs = [CallTransfer t (Inl err), CallCleanup t c])"
| "target_trace t (CleanupFailed err) cs = (cs = [CallTransfer t (Inr ()), CallCleanup t (Inl err)])"
| "target_trace t NativeRestarted cs =
     (cs = [CallTransfer t (Inr ()), CallCleanup t (Inr ()), CallRestart t (Inr ())])"
| "target_trace t (NativeRestartFailed err) cs =
     (cs = [CallTransfer t (Inr ()), CallCleanup t (Inr ()), CallRestart t (Inl err)])"

definition group_trace :: "native_result list \<Rightarrow> native_call list \<Rightarrow> bool" where
  "group_trace rs cs \<longleftrightarrow> rs \<noteq> [] \<and>
     ((\<exists>err. cs = [CallBuild (nr_target (hd rs)) (Some err)] \<and> (\<forall>r \<in> set rs. nr_outcome r = BuildFailed err)) \<or>
      (\<exists>css. cs = CallBuild (nr_target (hd rs)) None # concat css \<and>
             list_all2 (\<lambda>r c. target_trace (nr_target r) (nr_outcome r) c) rs css))"

lemma deploy_target_trace:
  "\<exists>cs outcome. deploy_target ops artifact t calls = (calls @ cs, outcome) \<and> target_trace t outcome cs"
  by (auto simp: deploy_target_def Let_def split: sum.split prod.split)

lemma deploy_targets_trace:
  "\<exists>css rs. deploy_targets ops artifact ts (calls, results) = (calls @ concat css, results @ rs) \<and>
     map nr_target rs = ts \<and> list_all2 (\<lambda>r c. target_trace (nr_target r) (nr_outcome r) c) rs css"
proof (induction ts arbitrary: calls results)
  case (Cons t ts)
  obtain cs outcome where t: "deploy_target ops artifact t calls = (calls @ cs, outcome)" "target_trace t outcome cs"
    using deploy_target_trace [of ops artifact t calls] by (elim exE conjE)
  let ?r = "\<lparr> nr_target = t, nr_outcome = outcome \<rparr>"
  obtain css rs where "deploy_targets ops artifact ts (calls @ cs, results @ [?r]) =
      ((calls @ cs) @ concat css, (results @ [?r]) @ rs)"
    "map nr_target rs = ts" "list_all2 (\<lambda>r c. target_trace (nr_target r) (nr_outcome r) c) rs css"
    using Cons.IH [of "calls @ cs" "results @ [?r]"] by (elim exE conjE)
  with t show ?case
    by (intro exI [of _ "cs # css"] exI [of _ "?r # rs"]) simp
qed simp

lemma deploy_group_trace:
  assumes "ts \<noteq> []"
  shows "\<exists>cs rs. deploy_group ops ts (calls, results) = Returns (calls @ cs, results @ rs) \<and>
    map nr_target rs = sort_key nt_name ts \<and> group_trace rs cs"
proof -
  obtain b bs where s: "sort_key nt_name ts = b # bs"
    using assms by (cases "sort_key nt_name ts") (auto dest: arg_cong [of _ _ length])
  show ?thesis
  proof (cases "no_build ops (length calls) b")
    case (Inl err)
    then show ?thesis
      by (intro exI [of _ "[CallBuild b (Some err)]"] exI [of _ "map (\<lambda>t. \<lparr> nr_target = t, nr_outcome = BuildFailed err \<rparr>) (b # bs)"])
        (simp add: deploy_group_def s group_trace_def comp_def)
  next
    case (Inr artifact)
    obtain css rs where d: "deploy_targets ops artifact (b # bs) (calls @ [CallBuild b None], results) =
        ((calls @ [CallBuild b None]) @ concat css, results @ rs)"
      "map nr_target rs = b # bs" "list_all2 (\<lambda>r c. target_trace (nr_target r) (nr_outcome r) c) rs css"
      using deploy_targets_trace [of ops artifact "b # bs" "calls @ [CallBuild b None]" results] by (elim exE conjE)
    have "rs \<noteq> []" "nr_target (hd rs) = b" using d(2) by (cases rs; simp)+
    with d(3) have "group_trace rs (CallBuild b None # concat css)" unfolding group_trace_def by blast
    then show ?thesis using Inr d
      by (intro exI [of _ "CallBuild b None # concat css"] exI [of _ rs])
        (simp add: deploy_group_def s del: deploy_targets.simps)
  qed
qed

lemma deploy_groups_trace:
  assumes "[] \<notin> set gs"
  shows "\<exists>css rss. deploy_groups ops gs (calls, results) = Returns (calls @ concat css, results @ concat rss) \<and>
    map (map nr_target) rss = map (sort_key nt_name) gs \<and> list_all2 group_trace rss css"
  using assms
proof (induction gs arbitrary: calls results)
  case (Cons g gs)
  obtain cs rs where g: "deploy_group ops g (calls, results) = Returns (calls @ cs, results @ rs)"
    "map nr_target rs = sort_key nt_name g" "group_trace rs cs"
    using deploy_group_trace [of g ops calls results] Cons.prems by auto
  obtain css rss where "deploy_groups ops gs (calls @ cs, results @ rs) =
      Returns ((calls @ cs) @ concat css, (results @ rs) @ concat rss)"
    "map (map nr_target) rss = map (sort_key nt_name) gs" "list_all2 group_trace rss css"
    using Cons.IH [of "calls @ cs" "results @ rs"] Cons.prems by auto
  with g show ?case by (intro exI [of _ "cs # css"] exI [of _ "rs # rss"]) simp
qed simp

text \<open>
  C28: A tick never panics and reports on every target exactly once, group by group in the
  order of the architectures and within a group by name. Each group is built once, by its
  first target. If the build fails nothing else is done for the group; otherwise every target
  is sent the artifact and cleaned up, and it is restarted exactly when both succeeded; its
  outcome tells the first of these that failed.
\<close>

theorem native_tick_exact:
  "\<exists>css rss. run_native_deploy_tick targets ops = Returns (concat css, \<lparr> nx_results = concat rss \<rparr>) \<and>
     mset (map nr_target (concat rss)) = mset targets \<and>
     map (map nr_target) rss = map (sort_key nt_name) (arch_groups targets) \<and>
     list_all2 group_trace rss css"
proof -
  obtain css rss where r: "deploy_groups ops (arch_groups targets) ([], []) = Returns (concat css, concat rss)"
    "map (map nr_target) rss = map (sort_key nt_name) (arch_groups targets)" "list_all2 group_trace rss css"
    using deploy_groups_trace [OF arch_groups_nonempty [of targets], of ops "[]" "[]"] by auto
  have "map nr_target (concat rss) = concat (map (sort_key nt_name) (arch_groups targets))"
    by (simp add: map_concat r(2))
  moreover have "mset (concat (map (sort_key f) gs)) = mset (concat gs)" for f :: "native_target \<Rightarrow> string" and gs
    by (induction gs) auto
  ultimately have "mset (map nr_target (concat rss)) = mset targets" by (simp only: mset_arch_groups)
  with r show ?thesis
    by (intro exI [of _ css] exI [of _ rss]) (simp add: run_native_deploy_tick_def group_targets_arch)
qed

end
