(* ===== verification/Node_Registry.thy ===== *)
theory Node_Registry
  imports Fleet_Prelude
begin

text \<open>
  The node registry of discovery (\<^verbatim>\<open>ff-discovery/src/registry.rs\<close>, with the data of
  \<^verbatim>\<open>scanner.rs\<close> and \<^verbatim>\<open>health.rs\<close>). A node is stored once and found through two indices, by
  address and by configured name. Hardware profiles and model cards are opaque; printing and
  reading an address are arguments (\<open>ip_codec\<close>); calls run one after another. The registry is
  shown to keep its address index exact under every sequence of calls, and to mark stale
  exactly the nodes not seen for longer than the limit.
\<close>

section \<open>Addresses, scans, health\<close>

datatype ip_addr = IpV4 u32 | IpV6 "128 word"

text \<open>The order of \<open>IpAddr\<close>: every IPv4 address before every IPv6 address, then by value.\<close>

primrec ip_rank :: "ip_addr \<Rightarrow> nat" where
  "ip_rank (IpV4 a) = unat a"
| "ip_rank (IpV6 a) = 2 ^ 32 + unat a"

record ip_codec =
  ip_show :: "ip_addr \<Rightarrow> string"
  ip_parse :: "string \<Rightarrow> ip_addr option"

datatype node_health_status = NodeHealthy | NodeDegraded | NodeUnreachable

record health_check_result =
  hc_name :: string
  hc_host :: string
  hc_port :: u16
  hc_checked_at :: datetime
  hc_latency_ms :: nat
  hc_tcp_ok :: bool
  hc_http_ok :: "bool option"
  hc_http_status :: "u16 option"
  hc_status :: node_health_status
  hc_error :: "string option"

record discovered_node =
  dn_ip :: ip_addr
  dn_open_ports :: "u16 list"
  dn_discovered_at :: datetime

datatype node_scan_status = ScanOnline | ScanDegraded | ScanOffline

record node_scan_result =
  ns_name :: string
  ns_host :: string
  ns_port :: u16
  ns_status :: node_scan_status
  ns_latency_ms :: nat
  ns_scanned_at :: datetime
  ns_http_status :: "u16 option"
  ns_error :: "string option"

section \<open>Nodes\<close>

record ('h, 'm) registry_node =
  fc_id :: uuid
  fc_ip :: ip_addr
  fc_hostname :: "string option"
  fc_config_name :: "string option"
  fc_election_priority :: "u32 option"
  fc_api_port :: "u16 option"
  fc_open_ports :: "u16 list"
  fc_discovered_at :: datetime
  fc_last_seen :: datetime
  fc_hardware :: "'h option"
  fc_health :: "health_check_result option"
  fc_models :: "'m list"

definition from_discovery :: "uuid \<Rightarrow> discovered_node \<Rightarrow> ('h, 'm) registry_node" where
  "from_discovery uid d =
     \<lparr> fc_id = uid, fc_ip = dn_ip d, fc_hostname = None, fc_config_name = None, fc_election_priority = None,
       fc_api_port = None, fc_open_ports = dn_open_ports d, fc_discovered_at = dn_discovered_at d,
       fc_last_seen = dn_discovered_at d, fc_hardware = None, fc_health = None, fc_models = [] \<rparr>"

definition computer_from_config ::
  "uuid \<Rightarrow> datetime \<Rightarrow> string \<Rightarrow> ip_addr \<Rightarrow> u16 \<Rightarrow> u32 \<Rightarrow> ('h, 'm) registry_node" where
  "computer_from_config uid now name ip port priority =
     \<lparr> fc_id = uid, fc_ip = ip, fc_hostname = None, fc_config_name = Some name,
       fc_election_priority = Some priority, fc_api_port = Some port, fc_open_ports = [port],
       fc_discovered_at = now, fc_last_seen = now, fc_hardware = None, fc_health = None, fc_models = [] \<rparr>"

definition fc_is_healthy :: "('h, 'm) registry_node \<Rightarrow> bool" where
  "fc_is_healthy n =
     (case fc_health n of Some h \<Rightarrow> hc_status h = NodeHealthy \<or> hc_status h = NodeDegraded | None \<Rightarrow> False)"

definition fc_is_online :: "('h, 'm) registry_node \<Rightarrow> bool" where
  "fc_is_online n = (case fc_health n of Some h \<Rightarrow> hc_status h = NodeHealthy | None \<Rightarrow> False)"

definition fc_is_stale :: "datetime \<Rightarrow> int \<Rightarrow> ('h, 'm) registry_node \<Rightarrow> bool" where
  "fc_is_stale now stale_after_secs n \<longleftrightarrow> num_seconds (now - fc_last_seen n) > stale_after_secs"

section \<open>The registry\<close>

record ('h, 'm) node_registry =
  rg_nodes :: "(uuid, ('h, 'm) registry_node) hmap"
  rg_ip_index :: "(ip_addr, uuid) hmap"
  rg_name_index :: "(string, uuid) hmap"
  rg_current_leader :: "string option"

definition node_registry_new :: "('h, 'm) node_registry" where
  "node_registry_new = \<lparr> rg_nodes = [], rg_ip_index = [], rg_name_index = [], rg_current_leader = None \<rparr>"

definition registry_len :: "('h, 'm) node_registry \<Rightarrow> nat" where
  "registry_len reg = length (rg_nodes reg)"

definition list_nodes ::
  "((uuid \<times> ('h, 'm) registry_node) list \<Rightarrow> (uuid \<times> ('h, 'm) registry_node) list) \<Rightarrow>
   ('h, 'm) node_registry \<Rightarrow> ('h, 'm) registry_node list" where
  "list_nodes it reg = sort_key (ip_rank \<circ> fc_ip) (map snd (it (rg_nodes reg)))"

definition registry_get :: "uuid \<Rightarrow> ('h, 'm) node_registry \<Rightarrow> ('h, 'm) registry_node option" where
  "registry_get uid reg = hm_get (rg_nodes reg) uid"

definition get_node_by_ip :: "ip_addr \<Rightarrow> ('h, 'm) node_registry \<Rightarrow> ('h, 'm) registry_node option" where
  "get_node_by_ip ip reg = Option.bind (hm_get (rg_ip_index reg) ip) (\<lambda>uid. registry_get uid reg)"

definition get_node_by_name :: "string \<Rightarrow> ('h, 'm) node_registry \<Rightarrow> ('h, 'm) registry_node option" where
  "get_node_by_name name reg = Option.bind (hm_get (rg_name_index reg) name) (\<lambda>uid. registry_get uid reg)"

text \<open>\<open>get_mut\<close>: a change of one stored node, if it exists.\<close>

abbreviation update_node ::
  "uuid \<Rightarrow> (('h, 'm) registry_node \<Rightarrow> ('h, 'm) registry_node) \<Rightarrow> ('h, 'm) node_registry \<Rightarrow> ('h, 'm) node_registry" where
  "update_node uid f reg \<equiv> reg\<lparr> rg_nodes := hm_modify uid f (rg_nodes reg) \<rparr>"

definition add_port :: "u16 \<Rightarrow> u16 list \<Rightarrow> u16 list" where
  "add_port port ports = (if port \<in> set ports then ports else ports @ [port])"

definition upsert_config_node ::
  "uuid \<Rightarrow> datetime \<Rightarrow> string \<Rightarrow> ip_addr \<Rightarrow> u16 \<Rightarrow> u32 \<Rightarrow> ('h, 'm) node_registry \<Rightarrow> uuid \<times> ('h, 'm) node_registry" where
  "upsert_config_node uid now name ip port priority reg =
     (case hm_get (rg_ip_index reg) ip of
        Some existing \<Rightarrow>
          let reg1 = update_node existing (\<lambda>n. n\<lparr> fc_config_name := Some name, fc_election_priority := Some priority,
                       fc_api_port := Some port, fc_open_ports := add_port port (fc_open_ports n) \<rparr>) reg
          in (existing, reg1\<lparr> rg_name_index := hm_insert name existing (rg_name_index reg1) \<rparr>)
      | None \<Rightarrow>
          (case hm_get (rg_name_index reg) name of
             Some existing \<Rightarrow>
               (case hm_get (rg_nodes reg) existing of
                  None \<Rightarrow> (existing, reg)
                | Some node \<Rightarrow>
                    let old_ip = fc_ip node;
                        reg1 = update_node existing (\<lambda>n. n\<lparr> fc_ip := ip, fc_election_priority := Some priority,
                                 fc_api_port := Some port, fc_open_ports := add_port port (fc_open_ports n) \<rparr>) reg
                    in (existing,
                        if old_ip \<noteq> ip
                        then reg1\<lparr> rg_ip_index := hm_insert ip existing (hm_remove old_ip (rg_ip_index reg1)) \<rparr>
                        else reg1))
           | None \<Rightarrow>
               (uid, reg\<lparr> rg_ip_index := hm_insert ip uid (rg_ip_index reg),
                          rg_name_index := hm_insert name uid (rg_name_index reg),
                          rg_nodes := hm_insert uid (computer_from_config uid now name ip port priority) (rg_nodes reg) \<rparr>)))"

definition upsert_discovered_node ::
  "uuid \<Rightarrow> discovered_node \<Rightarrow> ('h, 'm) node_registry \<Rightarrow> uuid \<times> ('h, 'm) node_registry" where
  "upsert_discovered_node uid d reg =
     (case hm_get (rg_ip_index reg) (dn_ip d) of
        Some existing \<Rightarrow>
          (existing, update_node existing
             (\<lambda>n. n\<lparr> fc_open_ports := dn_open_ports d, fc_last_seen := dn_discovered_at d \<rparr>) reg)
      | None \<Rightarrow>
          (uid, reg\<lparr> rg_nodes := hm_insert uid (from_discovery uid d) (rg_nodes reg),
                     rg_ip_index := hm_insert (dn_ip d) uid (rg_ip_index reg) \<rparr>))"

text \<open>The batch draws one identifier per node, used or not.\<close>

fun upsert_many_discovered ::
  "(uuid \<times> discovered_node) list \<Rightarrow> ('h, 'm) node_registry \<Rightarrow> uuid list \<times> ('h, 'm) node_registry" where
  "upsert_many_discovered [] reg = ([], reg)"
| "upsert_many_discovered ((uid, d) # ds) reg =
     (let (k, reg1) = upsert_discovered_node uid d reg; (ks, reg2) = upsert_many_discovered ds reg1
      in (k # ks, reg2))"

definition remove_registry_node ::
  "uuid \<Rightarrow> ('h, 'm) node_registry \<Rightarrow> ('h, 'm) registry_node option \<times> ('h, 'm) node_registry" where
  "remove_registry_node uid reg =
     (case hm_get (rg_nodes reg) uid of
        None \<Rightarrow> (None, reg)
      | Some node \<Rightarrow>
          let reg1 = reg\<lparr> rg_nodes := hm_remove uid (rg_nodes reg), rg_ip_index := hm_remove (fc_ip node) (rg_ip_index reg) \<rparr>
          in (Some node,
              case fc_config_name node of
                Some name \<Rightarrow> reg1\<lparr> rg_name_index := hm_remove name (rg_name_index reg1) \<rparr>
              | None \<Rightarrow> reg1))"

definition touch_node :: "datetime \<Rightarrow> uuid \<Rightarrow> ('h, 'm) node_registry \<Rightarrow> ('h, 'm) node_registry" where
  "touch_node now uid reg = update_node uid (\<lambda>n. n\<lparr> fc_last_seen := now \<rparr>) reg"

definition touch_by_name :: "datetime \<Rightarrow> string \<Rightarrow> ('h, 'm) node_registry \<Rightarrow> ('h, 'm) node_registry" where
  "touch_by_name now name reg =
     (case hm_get (rg_name_index reg) name of Some uid \<Rightarrow> touch_node now uid reg | None \<Rightarrow> reg)"

definition set_hostname :: "uuid \<Rightarrow> string \<Rightarrow> ('h, 'm) node_registry \<Rightarrow> bool \<times> ('h, 'm) node_registry" where
  "set_hostname uid hostname reg =
     (hm_contains (rg_nodes reg) uid, update_node uid (\<lambda>n. n\<lparr> fc_hostname := Some hostname \<rparr>) reg)"

definition update_hardware :: "datetime \<Rightarrow> uuid \<Rightarrow> 'h \<Rightarrow> ('h, 'm) node_registry \<Rightarrow> bool \<times> ('h, 'm) node_registry" where
  "update_hardware now uid hardware reg =
     (hm_contains (rg_nodes reg) uid,
      update_node uid (\<lambda>n. n\<lparr> fc_hardware := Some hardware, fc_last_seen := now \<rparr>) reg)"

definition update_health_by_ip ::
  "datetime \<Rightarrow> ip_addr \<Rightarrow> health_check_result \<Rightarrow> ('h, 'm) node_registry \<Rightarrow> bool \<times> ('h, 'm) node_registry" where
  "update_health_by_ip now ip health reg =
     (case hm_get (rg_ip_index reg) ip of
        None \<Rightarrow> (False, reg)
      | Some uid \<Rightarrow>
          (hm_contains (rg_nodes reg) uid,
           update_node uid (\<lambda>n. n\<lparr> fc_health := Some health, fc_last_seen := now \<rparr>) reg))"

definition update_models_by_ip ::
  "datetime \<Rightarrow> ip_addr \<Rightarrow> 'm list \<Rightarrow> ('h, 'm) node_registry \<Rightarrow> bool \<times> ('h, 'm) node_registry" where
  "update_models_by_ip now ip models reg =
     (case hm_get (rg_ip_index reg) ip of
        None \<Rightarrow> (False, reg)
      | Some uid \<Rightarrow>
          (hm_contains (rg_nodes reg) uid,
           update_node uid (\<lambda>n. n\<lparr> fc_models := models, fc_last_seen := now \<rparr>) reg))"

primrec scan_health :: "node_scan_status \<Rightarrow> node_health_status" where
  "scan_health ScanOnline = NodeHealthy"
| "scan_health ScanDegraded = NodeDegraded"
| "scan_health ScanOffline = NodeUnreachable"

definition scan_check :: "node_scan_result \<Rightarrow> health_check_result" where
  "scan_check r =
     \<lparr> hc_name = ns_name r, hc_host = ns_host r, hc_port = ns_port r, hc_checked_at = ns_scanned_at r,
       hc_latency_ms = ns_latency_ms r, hc_tcp_ok = (ns_status r \<noteq> ScanOffline),
       hc_http_ok = map_option (\<lambda>s. s < 400) (ns_http_status r), hc_http_status = ns_http_status r,
       hc_status = scan_health (ns_status r), hc_error = ns_error r \<rparr>"

definition apply_scan_result :: "ip_codec \<Rightarrow> node_scan_result \<Rightarrow> ('h, 'm) node_registry \<Rightarrow> ('h, 'm) node_registry" where
  "apply_scan_result ipc r reg =
     (let by_name = hm_get (rg_name_index reg) (ns_name r);
          uid = (case by_name of Some u \<Rightarrow> Some u
                 | None \<Rightarrow> Option.bind (ip_parse ipc (ns_host r)) (hm_get (rg_ip_index reg)))
      in case uid of
           None \<Rightarrow> reg
         | Some u \<Rightarrow> update_node u (\<lambda>n. n\<lparr> fc_health := Some (scan_check r), fc_last_seen := ns_scanned_at r \<rparr>) reg)"

definition apply_scan_results :: "ip_codec \<Rightarrow> node_scan_result list \<Rightarrow> ('h, 'm) node_registry \<Rightarrow> ('h, 'm) node_registry" where
  "apply_scan_results ipc rs reg = fold (apply_scan_result ipc) rs reg"

definition stale_health :: "ip_codec \<Rightarrow> datetime \<Rightarrow> ('h, 'm) registry_node \<Rightarrow> health_check_result" where
  "stale_health ipc now n =
     (case fc_health n of
        Some h \<Rightarrow> h\<lparr> hc_status := NodeUnreachable \<rparr>
      | None \<Rightarrow>
          \<lparr> hc_name = (case fc_config_name n of Some name \<Rightarrow> name | None \<Rightarrow> ip_show ipc (fc_ip n)),
            hc_host = ip_show ipc (fc_ip n), hc_port = (case fc_api_port n of Some p \<Rightarrow> p | None \<Rightarrow> 0),
            hc_checked_at = now, hc_latency_ms = 0, hc_tcp_ok = False, hc_http_ok = None, hc_http_status = None,
            hc_status = NodeUnreachable,
            hc_error = Some (''stale: no heartbeat for '' @ show_int (num_seconds (now - fc_last_seen n)) @ ''s'') \<rparr>)"

definition mark_stale_one ::
  "ip_codec \<Rightarrow> datetime \<Rightarrow> int \<Rightarrow> uuid \<times> ('h, 'm) registry_node \<Rightarrow>
   string list \<times> (uuid, ('h, 'm) registry_node) hmap \<Rightarrow> string list \<times> (uuid, ('h, 'm) registry_node) hmap" where
  "mark_stale_one ipc now limit e acc =
     (case e of (uid, n) \<Rightarrow>
        if fc_is_stale now limit n
        then (case fc_config_name n of
                Some name \<Rightarrow> if fc_is_healthy n then fst acc @ [name] else fst acc
              | None \<Rightarrow> fst acc,
              hm_insert uid (n\<lparr> fc_health := Some (stale_health ipc now n) \<rparr>) (snd acc))
        else acc)"

definition mark_stale_nodes ::
  "((uuid \<times> ('h, 'm) registry_node) list \<Rightarrow> (uuid \<times> ('h, 'm) registry_node) list) \<Rightarrow>
   ip_codec \<Rightarrow> datetime \<Rightarrow> int \<Rightarrow> ('h, 'm) node_registry \<Rightarrow> string list \<times> ('h, 'm) node_registry" where
  "mark_stale_nodes it ipc now stale_after_secs reg =
     (let (names, nodes) = fold (mark_stale_one ipc now stale_after_secs) (it (rg_nodes reg)) ([], rg_nodes reg)
      in (names, reg\<lparr> rg_nodes := nodes \<rparr>))"

definition node_health_for_election ::
  "((uuid \<times> ('h, 'm) registry_node) list \<Rightarrow> (uuid \<times> ('h, 'm) registry_node) list) \<Rightarrow>
   ('h, 'm) node_registry \<Rightarrow> (string \<times> bool \<times> bool) list" where
  "node_health_for_election it reg =
     List.map_filter (\<lambda>(uid, n). map_option (\<lambda>name. (name, fc_is_healthy n, False)) (fc_config_name n)) (it (rg_nodes reg))"

definition online_node_names ::
  "((uuid \<times> ('h, 'm) registry_node) list \<Rightarrow> (uuid \<times> ('h, 'm) registry_node) list) \<Rightarrow>
   ('h, 'm) node_registry \<Rightarrow> string list" where
  "online_node_names it reg =
     List.map_filter (\<lambda>(uid, n). if fc_is_healthy n then fc_config_name n else None) (it (rg_nodes reg))"

definition set_leader :: "string \<Rightarrow> ('h, 'm) node_registry \<Rightarrow> ('h, 'm) node_registry" where
  "set_leader name reg = reg\<lparr> rg_current_leader := Some name \<rparr>"

definition registry_leader :: "('h, 'm) node_registry \<Rightarrow> string option" where
  "registry_leader reg = rg_current_leader reg"

section \<open>The address index\<close>

definition nodes_match ::
  "(uuid, ('h, 'm) registry_node) hmap \<Rightarrow> (ip_addr, uuid) hmap \<Rightarrow> bool" where
  "nodes_match ns ips \<longleftrightarrow> hm_wf ns \<and> hm_wf ips \<and>
     (\<forall>uid n. hm_get ns uid = Some n \<longrightarrow> fc_id n = uid \<and> hm_get ips (fc_ip n) = Some uid) \<and>
     (\<forall>ip uid. hm_get ips ip = Some uid \<longrightarrow> (\<exists>n. hm_get ns uid = Some n \<and> fc_ip n = ip))"

definition registry_ok :: "('h, 'm) node_registry \<Rightarrow> bool" where
  "registry_ok reg = nodes_match (rg_nodes reg) (rg_ip_index reg)"

lemma nodes_matchI:
  assumes "hm_wf ns" "hm_wf ips"
    and "\<And>uid n. hm_get ns uid = Some n \<Longrightarrow> fc_id n = uid \<and> hm_get ips (fc_ip n) = Some uid"
    and "\<And>ip uid. hm_get ips ip = Some uid \<Longrightarrow> \<exists>n. hm_get ns uid = Some n \<and> fc_ip n = ip"
  shows "nodes_match ns ips"
  using assms by (auto simp: nodes_match_def)

lemma nodes_matchD:
  assumes "nodes_match ns ips"
  shows "hm_wf ns" "hm_wf ips" "hm_get ns uid = Some n \<Longrightarrow> fc_id n = uid"
    "hm_get ns uid = Some n \<Longrightarrow> hm_get ips (fc_ip n) = Some uid"
    "hm_get ips ip = Some uid \<Longrightarrow> \<exists>n. hm_get ns uid = Some n \<and> fc_ip n = ip"
  using assms by (auto simp: nodes_match_def)

text \<open>A change of the nodes that keeps their identities and addresses keeps the index exact.\<close>

lemma nodes_match_update:
  assumes "nodes_match ns ips" "hm_wf ns'" "\<And>u. hm_get ns' u = map_option (g u) (hm_get ns u)"
    and "\<And>u n. fc_id (g u n) = fc_id n" "\<And>u n. fc_ip (g u n) = fc_ip n"
  shows "nodes_match ns' ips"
proof (rule nodes_matchI [OF assms(2) nodes_matchD(2) [OF assms(1)]])
  note D = nodes_matchD [OF assms(1)]
  show "fc_id n = uid \<and> hm_get ips (fc_ip n) = Some uid" if "hm_get ns' uid = Some n" for uid n
    using that D(3,4) [of uid] assms(4,5) by (auto simp: assms(3))
  show "\<exists>n. hm_get ns' uid = Some n \<and> fc_ip n = ip" if "hm_get ips ip = Some uid" for ip uid
    using D(5) [OF that] assms(5) by (auto simp: assms(3))
qed

lemma nodes_match_modify:
  assumes "nodes_match ns ips" "\<And>n. fc_id (f n) = fc_id n" "\<And>n. fc_ip (f n) = fc_ip n"
  shows "nodes_match (hm_modify uid f ns) ips"
  by (rule nodes_match_update [OF assms(1), where g = "\<lambda>u. if u = uid then f else id"])
    (use assms nodes_matchD(1) [OF assms(1)] in \<open>auto simp: hm_get_modify option.map_id\<close>)

lemma nodes_match_iter_mut:
  assumes "nodes_match ns ips" "hash_iter it" "\<And>u n. fc_id (f u n) = fc_id n" "\<And>u n. fc_ip (f u n) = fc_ip n"
  shows "nodes_match (hm_iter_mut P f (it ns) ns) ips"
  by (rule nodes_match_update [OF assms(1), where g = "\<lambda>u n. if P u n then f u n else n"])
    (use assms nodes_matchD(1) [OF assms(1)] in \<open>simp_all add: hm_wf_iter_mut hm_get_iter_mut\<close>)

lemma nodes_match_insert:
  assumes "nodes_match ns ips" "hm_get ns uid = None" "hm_get ips ip = None" "fc_id n = uid" "fc_ip n = ip"
  shows "nodes_match (hm_insert uid n ns) (hm_insert ip uid ips)"
proof (rule nodes_matchI)
  note D = nodes_matchD [OF assms(1)]
  show "hm_wf (hm_insert uid n ns)" "hm_wf (hm_insert ip uid ips)" using D(1,2) by simp_all
  show "fc_id m = u \<and> hm_get (hm_insert ip uid ips) (fc_ip m) = Some u" if "hm_get (hm_insert uid n ns) u = Some m" for u m
    using that D(3,4) [of u m] assms by (cases "u = uid"; cases "fc_ip m = ip") auto
  show "\<exists>m. hm_get (hm_insert uid n ns) u = Some m \<and> fc_ip m = a" if "hm_get (hm_insert ip uid ips) a = Some u" for a u
    using that D(5) [of a u] assms by (cases "a = ip"; cases "u = uid") auto
qed

lemma nodes_match_remove:
  assumes "nodes_match ns ips" "hm_get ns uid = Some n"
  shows "nodes_match (hm_remove uid ns) (hm_remove (fc_ip n) ips)"
proof (rule nodes_matchI)
  note D = nodes_matchD [OF assms(1)]
  show "hm_wf (hm_remove uid ns)" "hm_wf (hm_remove (fc_ip n) ips)" using D(1,2) by simp_all
  show "fc_id m = u \<and> hm_get (hm_remove (fc_ip n) ips) (fc_ip m) = Some u" if "hm_get (hm_remove uid ns) u = Some m" for u m
    using that D(3,4) [of u m] D(4) [OF assms(2)] by (cases "u = uid"; cases "fc_ip m = fc_ip n") auto
  show "\<exists>m. hm_get (hm_remove uid ns) u = Some m \<and> fc_ip m = a" if "hm_get (hm_remove (fc_ip n) ips) a = Some u" for a u
    using that D(5) [of a u] assms(2) by (cases "a = fc_ip n"; cases "u = uid") auto
qed

lemma nodes_match_move:
  assumes "nodes_match ns ips" "hm_get ns uid = Some n" "hm_get ips ip = None"
    and "\<And>m. fc_id (f m) = fc_id m" "\<And>m. fc_ip (f m) = ip"
  shows "nodes_match (hm_modify uid f ns) (hm_insert ip uid (hm_remove (fc_ip n) ips))" (is "nodes_match ?ns ?ips")
proof (rule nodes_matchI)
  note D = nodes_matchD [OF assms(1)]
  show "hm_wf ?ns" "hm_wf ?ips" using D(1,2) by simp_all
  show "fc_id m = u \<and> hm_get ?ips (fc_ip m) = Some u" if "hm_get ?ns u = Some m" for u m
  proof (cases "u = uid")
    case True
    then show ?thesis using that assms(2,4,5) D(3) [OF assms(2)] by (auto simp: hm_get_modify)
  next
    case False
    then have m: "hm_get ns u = Some m" using that by (simp add: hm_get_modify)
    have "fc_ip m \<noteq> ip" "fc_ip m \<noteq> fc_ip n" using D(4) [OF m] D(4) [OF assms(2)] assms(3) False by auto
    then show ?thesis using D(3,4) [OF m] by simp
  qed
  show "\<exists>m. hm_get ?ns u = Some m \<and> fc_ip m = a" if "hm_get ?ips a = Some u" for a u
  proof (cases "a = ip")
    case True
    then show ?thesis using that assms(2,5) by (simp add: hm_get_modify)
  next
    case False
    then have "a \<noteq> fc_ip n" "hm_get ips a = Some u" using that by (auto split: if_splits)
    moreover from D(5) [OF this(2)] obtain m where "hm_get ns u = Some m" "fc_ip m = a" by blast
    ultimately show ?thesis using assms(2) by (cases "u = uid") (simp_all add: hm_get_modify)
  qed
qed

lemma mark_stale_fold:
  "fold (mark_stale_one ipc now limit) l acc =
     (fst acc @ List.map_filter (\<lambda>e. if fc_is_stale now limit (snd e) \<and> fc_is_healthy (snd e)
                                     then fc_config_name (snd e) else None) l,
      hm_iter_mut (\<lambda>u n. fc_is_stale now limit n) (\<lambda>u n. n\<lparr> fc_health := Some (stale_health ipc now n) \<rparr>) l (snd acc))"
  by (induction l arbitrary: acc)
    (auto simp: mark_stale_one_def hm_iter_mut_def List.map_filter_simps split: option.splits)

section \<open>Every sequence of calls\<close>

text \<open>A fresh identifier is one that no stored node has.\<close>

inductive registry_step :: "('h, 'm) node_registry \<Rightarrow> ('h, 'm) node_registry \<Rightarrow> bool" where
  config: "hm_get (rg_nodes reg) uid = None \<Longrightarrow>
    registry_step reg (snd (upsert_config_node uid now name ip port priority reg))"
| discovered: "hm_get (rg_nodes reg) uid = None \<Longrightarrow> registry_step reg (snd (upsert_discovered_node uid d reg))"
| remove: "registry_step reg (snd (remove_registry_node uid reg))"
| touch: "registry_step reg (touch_node now uid reg)"
| touch_name: "registry_step reg (touch_by_name now name reg)"
| hostname: "registry_step reg (snd (set_hostname uid hostname reg))"
| hardware: "registry_step reg (snd (update_hardware now uid hw reg))"
| health: "registry_step reg (snd (update_health_by_ip now ip h reg))"
| models: "registry_step reg (snd (update_models_by_ip now ip ms reg))"
| scan: "registry_step reg (apply_scan_result ipc r reg)"
| stale: "hash_iter it \<Longrightarrow> registry_step reg (snd (mark_stale_nodes it ipc now limit reg))"
| leader: "registry_step reg (set_leader name reg)"

lemma registry_config_ok:
  assumes "registry_ok reg" "hm_get (rg_nodes reg) uid = None"
  shows "registry_ok (snd (upsert_config_node uid now name ip port priority reg))"
proof (cases "hm_get (rg_ip_index reg) ip")
  case (Some existing)
  then show ?thesis
    using assms(1) by (simp add: upsert_config_node_def registry_ok_def nodes_match_modify Let_def)
next
  case None
  show ?thesis
  proof (cases "hm_get (rg_name_index reg) name")
    case n: None
    then show ?thesis
      using None assms by (simp add: upsert_config_node_def registry_ok_def nodes_match_insert computer_from_config_def)
  next
    case (Some existing)
    show ?thesis
    proof (cases "hm_get (rg_nodes reg) existing")
      case n: None
      then show ?thesis using None Some assms(1) by (simp add: upsert_config_node_def)
    next
      case n: (Some node)
      then have "fc_ip node \<noteq> ip" using None assms(1) by (auto simp: registry_ok_def nodes_match_def)
      then show ?thesis
        using None Some n assms(1) by (simp add: upsert_config_node_def registry_ok_def nodes_match_move Let_def)
    qed
  qed
qed

lemma registry_step_ok: "registry_step reg reg' \<Longrightarrow> registry_ok reg \<Longrightarrow> registry_ok reg'"
proof (induction rule: registry_step.induct)
  case (config reg uid now name ip port priority)
  then show ?case by (simp add: registry_config_ok)
next
  case (discovered reg uid d)
  then show ?case
    by (auto simp: upsert_discovered_node_def registry_ok_def nodes_match_modify nodes_match_insert from_discovery_def
        split: option.split)
next
  case (remove reg uid)
  then show ?case
    by (auto simp: remove_registry_node_def registry_ok_def nodes_match_remove Let_def split: option.split)
next
  case (stale it reg ipc now limit)
  then show ?case
    by (simp add: mark_stale_nodes_def registry_ok_def mark_stale_fold nodes_match_iter_mut)
qed (auto simp: registry_ok_def nodes_match_modify touch_node_def touch_by_name_def set_hostname_def update_hardware_def
    update_health_by_ip_def update_models_by_ip_def apply_scan_result_def set_leader_def Let_def split: option.split)

interpretation reg: invariant_machine registry_step registry_ok
  by unfold_locales (rule registry_step_ok)

lemma node_registry_new_ok: "registry_ok node_registry_new"
  unfolding registry_ok_def node_registry_new_def by (rule nodes_matchI) simp_all

lemma registry_reachable_ok: "registry_step\<^sup>*\<^sup>* node_registry_new reg \<Longrightarrow> registry_ok reg"
  by (rule reg.star_inv [OF _ node_registry_new_ok])

lemma ip_rank_inj: "ip_rank a = ip_rank b \<longleftrightarrow> a = b"
proof (cases a; cases b)
  fix x y assume "a = IpV4 x" "b = IpV6 y"
  moreover have "unat x < 2 ^ LENGTH(32)" by (rule unsigned_less)
  ultimately show ?thesis by simp
next
  fix x y assume "a = IpV6 x" "b = IpV4 y"
  moreover have "unat y < 2 ^ LENGTH(32)" by (rule unsigned_less)
  ultimately show ?thesis by simp
qed (simp_all add: word_unat_eq_iff)

lemma registry_same_ip:
  assumes "registry_ok reg" "registry_get u reg = Some n" "registry_get v reg = Some m" "fc_ip n = fc_ip m"
  shows "u = v"
proof -
  note D = nodes_matchD(4) [OF assms(1) [unfolded registry_ok_def]]
  have "hm_get (rg_ip_index reg) (fc_ip n) = Some u" using D assms(2) by (simp add: registry_get_def)
  moreover have "hm_get (rg_ip_index reg) (fc_ip m) = Some v" using D assms(3) by (simp add: registry_get_def)
  ultimately show ?thesis using assms(4) by simp
qed

lemma list_nodes_strict:
  assumes "registry_ok reg" "hash_iter it"
  shows "sorted_wrt (\<lambda>a b. ip_rank (fc_ip a) < ip_rank (fc_ip b)) (list_nodes it reg)"
    "set (list_nodes it reg) = {n. \<exists>uid. registry_get uid reg = Some n}"
proof -
  note D = nodes_matchD [OF assms(1) [unfolded registry_ok_def]]
  have key: "(u, n) \<in> set (it (rg_nodes reg)) \<longleftrightarrow> registry_get u reg = Some n" for u n
    by (simp add: hash_iter_set [OF assms(2)] hm_mem_iff [OF D(1)] registry_get_def)
  have keys: "distinct (map fst (it (rg_nodes reg)))" by (rule hash_iter_keys [OF assms(2) D(1)])
  have "inj_on (ip_rank \<circ> fc_ip \<circ> snd) (set (it (rg_nodes reg)))"
  proof (rule inj_onI)
    fix e e' assume e: "e \<in> set (it (rg_nodes reg))" "e' \<in> set (it (rg_nodes reg))"
      and eq: "(ip_rank \<circ> fc_ip \<circ> snd) e = (ip_rank \<circ> fc_ip \<circ> snd) e'"
    have g: "registry_get (fst e) reg = Some (snd e)" "registry_get (fst e') reg = Some (snd e')" using e by (simp_all add: key [symmetric])
    have "fc_ip (snd e) = fc_ip (snd e')" using eq by (simp add: ip_rank_inj)
    from registry_same_ip [OF assms(1) g this] g show "e = e'" by (simp add: prod_eq_iff)
  qed
  moreover have "distinct (it (rg_nodes reg))" using keys by (simp add: distinct_map)
  ultimately have "distinct (map (ip_rank \<circ> fc_ip \<circ> snd) (it (rg_nodes reg)))" by (simp add: distinct_map)
  then have "distinct (map (ip_rank \<circ> fc_ip) (map snd (it (rg_nodes reg))))" by (simp add: comp_def)
  then have "distinct (map (ip_rank \<circ> fc_ip) (list_nodes it reg))"
    unfolding list_nodes_def by (metis mset_eq_imp_distinct_iff mset_map mset_sort)
  moreover have "sorted (map (ip_rank \<circ> fc_ip) (list_nodes it reg))" by (simp add: list_nodes_def)
  ultimately have "sorted_wrt (<) (map (ip_rank \<circ> fc_ip) (list_nodes it reg))" by (simp add: strict_sorted_iff)
  then show "sorted_wrt (\<lambda>a b. ip_rank (fc_ip a) < ip_rank (fc_ip b)) (list_nodes it reg)" by (simp add: sorted_wrt_map)
  show "set (list_nodes it reg) = {n. \<exists>uid. registry_get uid reg = Some n}"
    unfolding list_nodes_def by (force simp: key [symmetric])
qed

text \<open>
  C30: However the registry was used, a lookup by address finds a node exactly when one with
  this address is stored, and never two nodes share an address; the listing has every stored
  node once, in the order of the addresses, whatever order the map is visited in.
\<close>

theorem registry_exact:
  fixes reg :: "('h, 'm) node_registry"
  assumes "registry_step\<^sup>*\<^sup>* node_registry_new reg" "hash_iter it"
  shows "(\<forall>ip n. get_node_by_ip ip reg = Some n \<longleftrightarrow> (\<exists>uid. registry_get uid reg = Some n \<and> fc_ip n = ip)) \<and>
    (\<forall>u v n m. registry_get u reg = Some n \<and> registry_get v reg = Some m \<and> fc_ip n = fc_ip m \<longrightarrow> u = v) \<and>
    sorted_wrt (\<lambda>a b. ip_rank (fc_ip a) < ip_rank (fc_ip b)) (list_nodes it reg) \<and>
    set (list_nodes it reg) = {n. \<exists>uid. registry_get uid reg = Some n}"
proof -
  have ok: "registry_ok reg" by (rule registry_reachable_ok [OF assms(1)])
  note D = nodes_matchD [OF ok [unfolded registry_ok_def]]
  have "get_node_by_ip ip reg = Some n \<longleftrightarrow> (\<exists>uid. registry_get uid reg = Some n \<and> fc_ip n = ip)" for ip n
  proof
    assume "get_node_by_ip ip reg = Some n"
    then obtain uid where u: "hm_get (rg_ip_index reg) ip = Some uid" "registry_get uid reg = Some n"
      by (auto simp: get_node_by_ip_def bind_eq_Some_conv)
    with D(5) [OF u(1)] show "\<exists>uid. registry_get uid reg = Some n \<and> fc_ip n = ip" by (auto simp: registry_get_def)
  next
    assume "\<exists>uid. registry_get uid reg = Some n \<and> fc_ip n = ip"
    then obtain uid where u: "registry_get uid reg = Some n" "fc_ip n = ip" by blast
    then have "hm_get (rg_ip_index reg) ip = Some uid" using D(4) [of uid n] by (simp add: registry_get_def)
    with u show "get_node_by_ip ip reg = Some n" by (simp add: get_node_by_ip_def)
  qed
  moreover have "\<forall>u v n m. registry_get u reg = Some n \<and> registry_get v reg = Some m \<and> fc_ip n = fc_ip m \<longrightarrow> u = v"
    using registry_same_ip [OF ok] by blast
  ultimately show ?thesis using list_nodes_strict [OF ok assms(2)] by blast
qed

definition demo_registry :: "(unit, unit) node_registry" where
  "demo_registry = snd (upsert_config_node 2 0 ''james'' (IpV4 101) 51800 2
     (snd (upsert_config_node 1 0 ''vinny'' (IpV4 100) 51800 1 node_registry_new)))"

lemmas registry_eval = upsert_config_node_def node_registry_new_def computer_from_config_def remove_registry_node_def
  registry_get_def get_node_by_ip_def get_node_by_name_def hash_eval Let_def

lemma demo_registry_reachable: "registry_step\<^sup>*\<^sup>* node_registry_new demo_registry"
  unfolding demo_registry_def
  by (rule rtranclp.rtrancl_into_rtrancl [OF r_into_rtranclp]; rule registry_step.config; simp add: registry_eval)

theorem registry_exact_witness:
  "(\<exists>uid. registry_get uid demo_registry = get_node_by_ip (IpV4 101) demo_registry) \<and>
   sorted_wrt (\<lambda>a b. ip_rank (fc_ip a) < ip_rank (fc_ip b)) (list_nodes rev demo_registry)"
proof
  have "get_node_by_ip (IpV4 101) demo_registry \<noteq> None" by (simp add: demo_registry_def registry_eval)
  then obtain n where n: "get_node_by_ip (IpV4 101) demo_registry = Some n" by auto
  with registry_exact [OF demo_registry_reachable hash_iter_rev]
  have "\<exists>uid. registry_get uid demo_registry = Some n \<and> fc_ip n = IpV4 101" by blast
  with n show "\<exists>uid. registry_get uid demo_registry = get_node_by_ip (IpV4 101) demo_registry" by auto
  show "sorted_wrt (\<lambda>a b. ip_rank (fc_ip a) < ip_rank (fc_ip b)) (list_nodes rev demo_registry)"
    using registry_exact [OF demo_registry_reachable hash_iter_rev] by blast
qed

text \<open>
  The name index is not exact. Configuring a second name for an address leaves the first
  name behind; once the node is removed, configuring the first name again returns the
  identifier of the removed node and stores nothing.
\<close>

lemma renamed_node_lost:
  fixes reg :: "(unit, unit) node_registry"
  defines "reg \<equiv> snd (remove_registry_node 1 (snd (upsert_config_node 2 0 ''b'' (IpV4 100) 51800 1
     (snd (upsert_config_node 1 0 ''a'' (IpV4 100) 51800 1 node_registry_new)))))"
  shows "fst (upsert_config_node 3 0 ''a'' (IpV4 101) 51800 1 reg) = 1 \<and>
    snd (upsert_config_node 3 0 ''a'' (IpV4 101) 51800 1 reg) = reg \<and> rg_nodes reg = []"
  by (simp add: reg_def registry_eval)

section \<open>Stale nodes\<close>

definition marked_stale :: "ip_codec \<Rightarrow> datetime \<Rightarrow> int \<Rightarrow> ('h, 'm) registry_node \<Rightarrow> ('h, 'm) registry_node" where
  "marked_stale ipc now limit n =
     (if fc_is_stale now limit n then n\<lparr> fc_health := Some (stale_health ipc now n) \<rparr> else n)"

lemma marked_stale_unhealthy: "fc_is_stale now limit n \<Longrightarrow> \<not> fc_is_healthy (marked_stale ipc now limit n)"
  by (auto simp: marked_stale_def fc_is_healthy_def stale_health_def split: option.splits)

lemma marked_stale_kept: "\<not> fc_is_stale now limit n \<Longrightarrow> marked_stale ipc now limit n = n"
  by (simp add: marked_stale_def)

lemma marked_stale_same [simp]:
  "fc_config_name (marked_stale ipc now limit n) = fc_config_name n"
  "fc_last_seen (marked_stale ipc now limit n) = fc_last_seen n"
  by (simp_all add: marked_stale_def)

lemma mark_stale_get:
  assumes "hm_wf (rg_nodes reg)" "hash_iter it"
  shows "registry_get uid (snd (mark_stale_nodes it ipc now limit reg)) = map_option (marked_stale ipc now limit) (registry_get uid reg)"
  unfolding registry_get_def mark_stale_nodes_def mark_stale_fold
  by (simp add: hm_get_iter_mut [OF assms(2,1)] marked_stale_def cong: if_cong) (rule option.map_cong; simp add: marked_stale_def)

lemma mark_stale_wf: "hm_wf (rg_nodes reg) \<Longrightarrow> hm_wf (rg_nodes (snd (mark_stale_nodes it ipc now limit reg)))"
  by (simp add: mark_stale_nodes_def mark_stale_fold hm_wf_iter_mut)

lemma election_report_iff:
  assumes "hm_wf (rg_nodes reg)" "hash_iter it"
  shows "(name, healthy, yielding) \<in> set (node_health_for_election it reg) \<longleftrightarrow>
    (\<exists>uid n. registry_get uid reg = Some n \<and> fc_config_name n = Some name \<and> healthy = fc_is_healthy n \<and> \<not> yielding)"
proof -
  have "(name, healthy, yielding) \<in> set (node_health_for_election it reg) \<longleftrightarrow>
      (\<exists>e \<in> set (it (rg_nodes reg)). fc_config_name (snd e) = Some name \<and> healthy = fc_is_healthy (snd e) \<and> \<not> yielding)"
    unfolding node_health_for_election_def mem_map_filter case_prod_beta by auto
  also have "\<dots> \<longleftrightarrow> (\<exists>uid n. (uid, n) \<in> set (rg_nodes reg) \<and> fc_config_name n = Some name \<and>
      healthy = fc_is_healthy n \<and> \<not> yielding)"
    unfolding hash_iter_set [OF assms(2)] by (simp add: Bex_def split_paired_Ex)
  finally show ?thesis by (simp add: hm_mem_iff [OF assms(1)] registry_get_def)
qed

end
