(* ===== verification/Control_Watchdog.thy ===== *)
theory Control_Watchdog
  imports Node_Registry Cron_Engine
begin

text \<open>
  The health of the control plane and its watchdog (\<^verbatim>\<open>ff-control/src/bootstrap.rs\<close>,
  \<^verbatim>\<open>health.rs\<close>, \<^verbatim>\<open>subsystem_watchdog.rs\<close>). The snapshot reads the node registry and the
  cron engine of this library; the runtime is seen through its last status. The restarter is
  an argument, numbered by the restarts asked for before. The watchdog is shown to count
  streaks: it restarts a subsystem exactly at the observation that completes a streak of the
  threshold's length.
\<close>

section \<open>Bootstrap\<close>

datatype startup_subsystem =
    SubConfig | SubDiscovery | SubRuntime | SubOrchestrator | SubScheduler | SubDeploy

primrec subsystem_debug :: "startup_subsystem \<Rightarrow> string" where
  "subsystem_debug SubConfig = ''Config''"
| "subsystem_debug SubDiscovery = ''Discovery''"
| "subsystem_debug SubRuntime = ''Runtime''"
| "subsystem_debug SubOrchestrator = ''Orchestrator''"
| "subsystem_debug SubScheduler = ''Scheduler''"
| "subsystem_debug SubDeploy = ''Deploy''"

definition default_order :: "startup_subsystem list" where
  "default_order = [SubConfig, SubDiscovery, SubRuntime, SubOrchestrator, SubScheduler, SubDeploy]"

datatype control_error = BootstrapValidation string | InvalidStartupOrder string

fun first_duplicate :: "startup_subsystem list \<Rightarrow> startup_subsystem list \<Rightarrow> startup_subsystem option" where
  "first_duplicate seen [] = None"
| "first_duplicate seen (s # ss) = (if s \<in> set seen then Some s else first_duplicate (s # seen) ss)"

definition validate_startup_order :: "startup_subsystem list \<Rightarrow> (unit, control_error) result" where
  "validate_startup_order order =
     (case order of
        [] \<Rightarrow> Inl (InvalidStartupOrder ''startup order cannot be empty'')
      | first # _ \<Rightarrow>
          if first \<noteq> SubConfig then Inl (InvalidStartupOrder ''config must be first in startup order'')
          else case first_duplicate [] order of
            Some s \<Rightarrow> Inl (InvalidStartupOrder (''duplicate startup step: '' @ subsystem_debug s))
          | None \<Rightarrow>
              (case find (\<lambda>s. s \<notin> set order) default_order of
                 Some s \<Rightarrow> Inl (InvalidStartupOrder (''missing required startup step: '' @ subsystem_debug s))
               | None \<Rightarrow> Inr ()))"

text \<open>Of the fleet configuration the validation reads the nodes' addresses, the models and the preferred leader.\<close>

record model_config =
  mc_id :: string
  mc_nodes :: "string list"

record fleet_config =
  fg_nodes :: "(string, string) hmap"
  fg_models :: "model_config list"
  fg_leader_preferred :: string

fun validate_nodes :: "(string \<times> string) list \<Rightarrow> string list \<Rightarrow> (string list, control_error) result" where
  "validate_nodes [] names = Inr names"
| "validate_nodes ((name, ip) # ns) names =
     (if trim_ws name = [] then Inl (BootstrapValidation ''node name cannot be empty'')
      else if trim_ws ip = [] then Inl (BootstrapValidation (''node '' @ [CHR 0x27] @ name @ [CHR 0x27] @ '' has empty host/ip''))
      else if name \<in> set names then Inl (BootstrapValidation (''duplicate node name '' @ [CHR 0x27] @ name @ [CHR 0x27]))
      else validate_nodes ns (name # names))"

fun validate_models :: "string list \<Rightarrow> model_config list \<Rightarrow> string list \<Rightarrow> (string list, control_error) result" where
  "validate_models names [] warnings = Inr warnings"
| "validate_models names (m # ms) warnings =
     (if trim_ws (mc_id m) = [] then Inl (BootstrapValidation ''model id cannot be empty'')
      else
        let warnings1 = (if mc_nodes m = []
              then warnings @ [''model '' @ [CHR 0x27] @ mc_id m @ [CHR 0x27] @ '' has no bound nodes''] else warnings)
        in case find (\<lambda>w. w \<notin> set names) (mc_nodes m) of
             Some w \<Rightarrow> Inl (BootstrapValidation (''model '' @ [CHR 0x27] @ mc_id m @ [CHR 0x27] @
                         '' references unknown node '' @ [CHR 0x27] @ w @ [CHR 0x27]))
           | None \<Rightarrow> validate_models names ms warnings1)"

definition validate_fleet_config ::
  "((string \<times> string) list \<Rightarrow> (string \<times> string) list) \<Rightarrow> fleet_config \<Rightarrow> bool \<Rightarrow> bool \<Rightarrow>
   (string list, control_error) result" where
  "validate_fleet_config it config require_nodes require_models =
     (if require_nodes \<and> fg_nodes config = [] then Inl (BootstrapValidation ''fleet config has no nodes'')
      else if require_models \<and> fg_models config = [] then Inl (BootstrapValidation ''fleet config has no models'')
      else case validate_nodes (it (fg_nodes config)) [] of
        Inl err \<Rightarrow> Inl err
      | Inr names \<Rightarrow>
          let warnings = (if fg_leader_preferred config \<noteq> [] \<and> fg_leader_preferred config \<notin> set names
                then [''preferred leader '' @ [CHR 0x27] @ fg_leader_preferred config @ [CHR 0x27] @ '' is not in nodes list'']
                else [])
          in validate_models names (fg_models config) warnings)"

record bootstrap_plan =
  bp_order :: "startup_subsystem list"
  bp_warnings :: "string list"
  bp_planned_at :: datetime

definition build_bootstrap_plan ::
  "((string \<times> string) list \<Rightarrow> (string \<times> string) list) \<Rightarrow> datetime \<Rightarrow> fleet_config \<Rightarrow> startup_subsystem list \<Rightarrow>
   bool \<Rightarrow> bool \<Rightarrow> (bootstrap_plan, control_error) result" where
  "build_bootstrap_plan it now config startup_order require_nodes require_models =
     (case validate_startup_order startup_order of
        Inl err \<Rightarrow> Inl err
      | Inr _ \<Rightarrow>
          (case validate_fleet_config it config require_nodes require_models of
             Inl err \<Rightarrow> Inl err
           | Inr warnings \<Rightarrow>
               Inr \<lparr> bp_order = startup_order, bp_warnings = warnings, bp_planned_at = now \<rparr>))"

section \<open>The health snapshot\<close>

datatype aggregate_status = AggHealthy | AggDegraded | AggUnhealthy

record discovery_aggregate =
  ag_total_nodes :: nat
  ag_healthy_nodes :: nat
  ag_degraded_nodes :: nat
  ag_unreachable_nodes :: nat
  ag_unknown_nodes :: nat

record runtime_aggregate =
  ra_running :: bool
  ra_healthy :: bool
  ra_model_id :: "string option"
  ra_endpoint :: "string option"

record scheduler_aggregate =
  sa_total_jobs :: nat
  sa_pending_runs :: nat
  sa_running_runs :: nat
  sa_dispatched_runs :: nat
  sa_failed_runs :: nat

record health_view =
  hv_timestamp :: datetime
  hv_overall :: aggregate_status
  hv_discovery :: discovery_aggregate
  hv_runtime :: runtime_aggregate
  hv_scheduler :: scheduler_aggregate
  hv_steps_completed :: nat
  hv_steps_total :: nat

record engine_status =
  eg_running :: bool
  eg_healthy :: bool
  eg_pid :: "u32 option"
  eg_model_id :: "string option"
  eg_endpoint :: "string option"
  eg_uptime_secs :: "u64 option"

text \<open>Of the control plane the snapshot reads three handles, the startup events and the plan.\<close>

record ('h, 'm) control_plane =
  cp_registry :: "('h, 'm) node_registry"
  cp_last_status :: "engine_status option"
  cp_engine :: cron_engine
  cp_startup_events :: "startup_subsystem list"
  cp_startup_plan :: bootstrap_plan

definition count_node :: "('h, 'm) registry_node \<Rightarrow> discovery_aggregate \<Rightarrow> discovery_aggregate" where
  "count_node n agg =
     (case map_option hc_status (fc_health n) of
        Some NodeHealthy \<Rightarrow> agg\<lparr> ag_healthy_nodes := ag_healthy_nodes agg + 1 \<rparr>
      | Some NodeDegraded \<Rightarrow> agg\<lparr> ag_degraded_nodes := ag_degraded_nodes agg + 1 \<rparr>
      | Some NodeUnreachable \<Rightarrow> agg\<lparr> ag_unreachable_nodes := ag_unreachable_nodes agg + 1 \<rparr>
      | None \<Rightarrow> agg\<lparr> ag_unknown_nodes := ag_unknown_nodes agg + 1 \<rparr>)"

definition aggregate_discovery ::
  "((uuid \<times> ('h, 'm) registry_node) list \<Rightarrow> (uuid \<times> ('h, 'm) registry_node) list) \<Rightarrow>
   ('h, 'm) control_plane \<Rightarrow> discovery_aggregate" where
  "aggregate_discovery it cp =
     (let nodes = list_nodes it (cp_registry cp)
      in fold count_node nodes
           \<lparr> ag_total_nodes = length nodes, ag_healthy_nodes = 0, ag_degraded_nodes = 0,
             ag_unreachable_nodes = 0, ag_unknown_nodes = 0 \<rparr>)"

definition aggregate_runtime :: "('h, 'm) control_plane \<Rightarrow> runtime_aggregate" where
  "aggregate_runtime cp =
     (case cp_last_status cp of
        Some st \<Rightarrow> \<lparr> ra_running = eg_running st, ra_healthy = eg_healthy st,
                     ra_model_id = eg_model_id st, ra_endpoint = eg_endpoint st \<rparr>
      | None \<Rightarrow> \<lparr> ra_running = False, ra_healthy = False, ra_model_id = None, ra_endpoint = None \<rparr>)"

definition count_run :: "job_run \<Rightarrow> scheduler_aggregate \<Rightarrow> scheduler_aggregate" where
  "count_run run agg =
     (case jr_status run of
        RunPending \<Rightarrow> agg\<lparr> sa_pending_runs := sa_pending_runs agg + 1 \<rparr>
      | RunRunning \<Rightarrow> agg\<lparr> sa_running_runs := sa_running_runs agg + 1 \<rparr>
      | RunDispatched \<Rightarrow> agg\<lparr> sa_dispatched_runs := sa_dispatched_runs agg + 1 \<rparr>
      | RunFailed \<Rightarrow> agg\<lparr> sa_failed_runs := sa_failed_runs agg + 1 \<rparr>
      | RunSucceeded \<Rightarrow> agg
      | RunSkipped \<Rightarrow> agg)"

definition aggregate_scheduler ::
  "(job_definition list \<Rightarrow> job_definition list) \<Rightarrow> (job_run list \<Rightarrow> job_run list) \<Rightarrow>
   ('h, 'm) control_plane \<Rightarrow> scheduler_aggregate" where
  "aggregate_scheduler itj itr cp =
     fold count_run (list_runs itr (cp_engine cp))
       \<lparr> sa_total_jobs = length (list_jobs itj (cp_engine cp)), sa_pending_runs = 0, sa_running_runs = 0,
         sa_dispatched_runs = 0, sa_failed_runs = 0 \<rparr>"

definition aggregate_health_snapshot ::
  "datetime \<Rightarrow> ((uuid \<times> ('h, 'm) registry_node) list \<Rightarrow> (uuid \<times> ('h, 'm) registry_node) list) \<Rightarrow>
   (job_definition list \<Rightarrow> job_definition list) \<Rightarrow> (job_run list \<Rightarrow> job_run list) \<Rightarrow>
   ('h, 'm) control_plane \<Rightarrow> health_view" where
  "aggregate_health_snapshot now it itj itr cp =
     (let discovery = aggregate_discovery it cp;
          runtime = aggregate_runtime cp;
          scheduler = aggregate_scheduler itj itr cp;
          overall = (if ag_unreachable_nodes discovery > 0 \<or> sa_failed_runs scheduler > 0 then AggUnhealthy
                     else if ag_degraded_nodes discovery > 0 \<or> \<not> ra_healthy runtime then AggDegraded
                     else AggHealthy)
      in \<lparr> hv_timestamp = now, hv_overall = overall, hv_discovery = discovery, hv_runtime = runtime,
           hv_scheduler = scheduler, hv_steps_completed = length (cp_startup_events cp),
           hv_steps_total = length (bp_order (cp_startup_plan cp)) \<rparr>)"

section \<open>The watchdog\<close>

datatype watchdog_subsystem = MergeDrain | WdScheduler | Reaper | SelfHeal

definition watchdog_default_set :: "watchdog_subsystem list" where
  "watchdog_default_set = [MergeDrain, WdScheduler, Reaper, SelfHeal]"

primrec watchdog_subsystem_str :: "watchdog_subsystem \<Rightarrow> string" where
  "watchdog_subsystem_str MergeDrain = ''merge_drain''"
| "watchdog_subsystem_str WdScheduler = ''scheduler''"
| "watchdog_subsystem_str Reaper = ''reaper''"
| "watchdog_subsystem_str SelfHeal = ''self_heal''"

record subsystem_observation =
  ob_subsystem :: watchdog_subsystem
  ob_status :: aggregate_status
  ob_reason :: "string option"
  ob_observed_at :: datetime

definition observation_alive :: "datetime \<Rightarrow> watchdog_subsystem \<Rightarrow> subsystem_observation" where
  "observation_alive now s = \<lparr> ob_subsystem = s, ob_status = AggHealthy, ob_reason = None, ob_observed_at = now \<rparr>"

definition observation_dead :: "datetime \<Rightarrow> watchdog_subsystem \<Rightarrow> string \<Rightarrow> subsystem_observation" where
  "observation_dead now s reason =
     \<lparr> ob_subsystem = s, ob_status = AggUnhealthy, ob_reason = Some reason, ob_observed_at = now \<rparr>"

definition observation_degraded :: "datetime \<Rightarrow> watchdog_subsystem \<Rightarrow> string \<Rightarrow> subsystem_observation" where
  "observation_degraded now s reason =
     \<lparr> ob_subsystem = s, ob_status = AggDegraded, ob_reason = Some reason, ob_observed_at = now \<rparr>"

record watchdog_event =
  we_subsystem :: startup_subsystem
  we_status :: aggregate_status
  we_consecutive_unhealthy :: u32
  we_observed_at :: datetime

datatype watchdog_action = RestartSubsystem startup_subsystem string | NotifyOperator startup_subsystem string

datatype restart_outcome = Restarted | RestartFailure string

record subsystem_event =
  se_subsystem :: watchdog_subsystem
  se_status :: aggregate_status
  se_consecutive_unhealthy :: u32
  se_observed_at :: datetime
  se_reason :: "string option"
  se_restart :: "restart_outcome option"

record subsystem_watchdog =
  wd_trip_threshold :: u32
  wd_consecutive_unhealthy :: "(startup_subsystem, u32) hmap"
  wd_consecutive_dead :: "(watchdog_subsystem, u32) hmap"
  wd_events :: "watchdog_event list"
  wd_subsystem_events :: "subsystem_event list"

definition watchdog_new :: subsystem_watchdog where
  "watchdog_new = \<lparr> wd_trip_threshold = 3, wd_consecutive_unhealthy = [], wd_consecutive_dead = [],
     wd_events = [], wd_subsystem_events = [] \<rparr>"

definition with_trip_threshold :: "u32 \<Rightarrow> subsystem_watchdog \<Rightarrow> subsystem_watchdog" where
  "with_trip_threshold k w = w\<lparr> wd_trip_threshold := k \<rparr>"

text \<open>\<open>entry(s).or_insert(0)\<close>, then the counter grows or is reset.\<close>

definition bump_counter :: "'k \<Rightarrow> aggregate_status \<Rightarrow> ('k, u32) hmap \<Rightarrow> u32 \<times> ('k, u32) hmap" where
  "bump_counter s status m =
     (let c = (case hm_get m s of Some c \<Rightarrow> c | None \<Rightarrow> 0);
          c' = (if status = AggUnhealthy then c + 1 else 0)
      in (c', hm_insert s c' m))"

text \<open>The loop of \<open>restart_dead_subsystems\<close>; \<open>calls\<close> are the restarts asked for so far.\<close>

fun restart_dead_loop ::
  "(nat \<Rightarrow> watchdog_subsystem \<Rightarrow> (unit, string) result) \<Rightarrow> subsystem_observation list \<Rightarrow> subsystem_event list \<Rightarrow>
   watchdog_subsystem list \<Rightarrow> subsystem_watchdog \<Rightarrow>
   subsystem_event list \<times> watchdog_subsystem list \<times> subsystem_watchdog" where
  "restart_dead_loop restarter [] emitted calls w = (emitted, calls, w)"
| "restart_dead_loop restarter (ob # obs) emitted calls w =
     (let (c, dead) = bump_counter (ob_subsystem ob) (ob_status ob) (wd_consecutive_dead w);
          w1 = w\<lparr> wd_consecutive_dead := dead \<rparr>
      in if c = 0 then restart_dead_loop restarter obs emitted calls w1
         else
           let (restart, calls1) =
                 (if c = wd_trip_threshold w
                  then (Some (case restarter (length calls) (ob_subsystem ob) of
                                Inr _ \<Rightarrow> Restarted | Inl err \<Rightarrow> RestartFailure err), calls @ [ob_subsystem ob])
                  else (None, calls));
               event = \<lparr> se_subsystem = ob_subsystem ob, se_status = ob_status ob, se_consecutive_unhealthy = c,
                         se_observed_at = ob_observed_at ob, se_reason = ob_reason ob, se_restart = restart \<rparr>
           in restart_dead_loop restarter obs (emitted @ [event]) calls1
                (w1\<lparr> wd_subsystem_events := wd_subsystem_events w1 @ [event] \<rparr>))"

definition restart_dead_subsystems ::
  "(nat \<Rightarrow> watchdog_subsystem \<Rightarrow> (unit, string) result) \<Rightarrow> subsystem_observation list \<Rightarrow> bool \<Rightarrow>
   watchdog_subsystem list \<Rightarrow> subsystem_watchdog \<Rightarrow>
   subsystem_event list \<times> watchdog_subsystem list \<times> subsystem_watchdog" where
  "restart_dead_subsystems restarter observations is_leader calls w =
     (if \<not> is_leader then ([], calls, w) else restart_dead_loop restarter observations [] calls w)"

definition discovery_status :: "health_view \<Rightarrow> aggregate_status" where
  "discovery_status v =
     (if ag_unreachable_nodes (hv_discovery v) > 0 then AggUnhealthy
      else if ag_degraded_nodes (hv_discovery v) > 0 then AggDegraded else AggHealthy)"

definition runtime_status :: "health_view \<Rightarrow> aggregate_status" where
  "runtime_status v =
     (if \<not> ra_running (hv_runtime v) then AggUnhealthy
      else if \<not> ra_healthy (hv_runtime v) then AggDegraded else AggHealthy)"

definition scheduler_status :: "health_view \<Rightarrow> aggregate_status" where
  "scheduler_status v = (if sa_failed_runs (hv_scheduler v) > 0 then AggUnhealthy else AggHealthy)"

text \<open>The loop of \<open>tick\<close>; the clock of an event is read per subsystem.\<close>

fun tick_loop ::
  "(startup_subsystem \<Rightarrow> datetime) \<Rightarrow> (startup_subsystem \<times> aggregate_status) list \<Rightarrow> watchdog_action list \<Rightarrow>
   subsystem_watchdog \<Rightarrow> watchdog_action list \<times> subsystem_watchdog" where
  "tick_loop clk [] actions w = (actions, w)"
| "tick_loop clk ((s, status) # ss) actions w =
     (let (c, counters) = bump_counter s status (wd_consecutive_unhealthy w);
          w1 = w\<lparr> wd_consecutive_unhealthy := counters \<rparr>
      in if c = 0 then tick_loop clk ss actions w1
         else
           let w2 = w1\<lparr> wd_events := wd_events w1 @ [\<lparr> we_subsystem = s, we_status = status,
                         we_consecutive_unhealthy = c, we_observed_at = clk s \<rparr>] \<rparr>;
               actions1 = (if c = wd_trip_threshold w
                 then actions @
                   [RestartSubsystem s (subsystem_debug s @ '' unhealthy for '' @ show_nat (unat c) @ '' consecutive ticks''),
                    NotifyOperator s (''watchdog restarted '' @ subsystem_debug s @ '' after '' @ show_nat (unat c) @
                      '' consecutive unhealthy ticks'')]
                 else actions)
           in tick_loop clk ss actions1 w2)"

definition watchdog_tick ::
  "datetime \<Rightarrow> (startup_subsystem \<Rightarrow> datetime) \<Rightarrow>
   ((uuid \<times> ('h, 'm) registry_node) list \<Rightarrow> (uuid \<times> ('h, 'm) registry_node) list) \<Rightarrow>
   (job_definition list \<Rightarrow> job_definition list) \<Rightarrow> (job_run list \<Rightarrow> job_run list) \<Rightarrow>
   ('h, 'm) control_plane \<Rightarrow> bool \<Rightarrow> subsystem_watchdog \<Rightarrow> watchdog_action list \<times> subsystem_watchdog" where
  "watchdog_tick now clk it itj itr cp is_leader w =
     (if \<not> is_leader then ([], w)
      else let v = aggregate_health_snapshot now it itj itr cp
           in tick_loop clk [(SubDiscovery, discovery_status v), (SubRuntime, runtime_status v),
                             (SubScheduler, scheduler_status v)] [] w)"

section \<open>Streaks\<close>

text \<open>
  The specification: how many of the last observations of \<open>s\<close> in a row were unhealthy, and
  the observations that complete a streak of length \<open>k\<close>.
\<close>

definition streak :: "'k \<Rightarrow> ('k \<times> aggregate_status) list \<Rightarrow> nat" where
  "streak s h = length (takeWhile (\<lambda>x. x = AggUnhealthy) (rev (map snd (filter (\<lambda>x. fst x = s) h))))"

definition streak_at :: "('k \<times> aggregate_status) list \<Rightarrow> nat \<Rightarrow> nat" where
  "streak_at h i = streak (fst (h ! i)) (take (Suc i) h)"

definition trips :: "nat \<Rightarrow> ('k \<times> aggregate_status) list \<Rightarrow> 'k list" where
  "trips k h = map (\<lambda>i. fst (h ! i)) (filter (\<lambda>i. streak_at h i = k) [0..<length h])"

definition dead_log :: "nat \<Rightarrow> ('k \<times> aggregate_status) list \<Rightarrow> ('k \<times> nat \<times> bool) list" where
  "dead_log k h = map (\<lambda>i. (fst (h ! i), streak_at h i, streak_at h i = k)) (filter (\<lambda>i. streak_at h i \<noteq> 0) [0..<length h])"

lemma streak_Nil [simp]: "streak s [] = 0"
  by (simp add: streak_def)

lemma streak_snoc:
  "streak s (h @ [x]) = (if fst x = s then if snd x = AggUnhealthy then Suc (streak s h) else 0 else streak s h)"
  by (simp add: streak_def)

lemma streak_le: "streak s h \<le> length h"
  by (induction h rule: rev_induct) (auto simp: streak_snoc)

lemma streak_at_snoc:
  "i < length h \<Longrightarrow> streak_at (h @ [x]) i = streak_at h i"
  "streak_at (h @ [x]) (length h) = streak (fst x) (h @ [x])"
  by (simp_all add: streak_at_def nth_append)

lemma trips_snoc: "trips k (h @ [x]) = trips k h @ (if streak (fst x) (h @ [x]) = k then [fst x] else [])"
proof -
  have "filter (\<lambda>i. streak_at (h @ [x]) i = k) [0..<length h] = filter (\<lambda>i. streak_at h i = k) [0..<length h]"
    by (rule filter_cong) (simp_all add: streak_at_snoc)
  then show ?thesis by (auto simp: trips_def streak_at_snoc nth_append)
qed

lemma dead_log_snoc:
  "dead_log k (h @ [x]) = dead_log k h @
     (if streak (fst x) (h @ [x]) = 0 then [] else [(fst x, streak (fst x) (h @ [x]), streak (fst x) (h @ [x]) = k)])"
proof -
  have "filter (\<lambda>i. streak_at (h @ [x]) i \<noteq> 0) [0..<length h] = filter (\<lambda>i. streak_at h i \<noteq> 0) [0..<length h]"
    by (rule filter_cong) (simp_all add: streak_at_snoc)
  then show ?thesis by (auto simp: dead_log_def streak_at_snoc nth_append)
qed

text \<open>The counters of the watchdog hold the streaks of the history.\<close>

definition streaks_counted :: "('k \<times> aggregate_status) list \<Rightarrow> ('k, u32) hmap \<Rightarrow> bool" where
  "streaks_counted h m \<longleftrightarrow> (\<forall>s. unat (case hm_get m s of Some c \<Rightarrow> c | None \<Rightarrow> 0) = streak s h)"

lemma streaks_counted_Nil: "streaks_counted [] []"
  by (simp add: streaks_counted_def)

lemma streaks_counted_bump:
  assumes "streaks_counted h m" "Suc (length h) < 2 ^ 32"
  shows "streaks_counted (h @ [(s, st)]) (snd (bump_counter s st m))"
    "unat (fst (bump_counter s st m)) = streak s (h @ [(s, st)])"
proof -
  let ?c = "case hm_get m s of Some c \<Rightarrow> c | None \<Rightarrow> 0"
  have c: "unat ?c = streak s h" using assms(1) by (simp add: streaks_counted_def)
  moreover have "unat ?c + 1 < 2 ^ 32" using streak_le [of s h] assms(2) c by simp
  ultimately have inc: "unat (?c + 1) = Suc (streak s h)" by (simp add: unat_word_ariths)
  then show n: "unat (fst (bump_counter s st m)) = streak s (h @ [(s, st)])"
    by (simp add: bump_counter_def streak_snoc Let_def)
  have "unat (case hm_get (snd (bump_counter s st m)) t of Some c \<Rightarrow> c | None \<Rightarrow> 0) = streak t (h @ [(s, st)])" for t
  proof (cases "t = s")
    case True
    then show ?thesis using n by (simp add: bump_counter_def Let_def)
  next
    case False
    then have "hm_get (snd (bump_counter s st m)) t = hm_get m t" by (simp add: bump_counter_def Let_def)
    then show ?thesis using False assms(1) by (simp add: streaks_counted_def streak_snoc)
  qed
  then show "streaks_counted (h @ [(s, st)]) (snd (bump_counter s st m))" by (simp add: streaks_counted_def)
qed

section \<open>Restarts\<close>

abbreviation seen_as :: "subsystem_observation list \<Rightarrow> (watchdog_subsystem \<times> aggregate_status) list" where
  "seen_as obs \<equiv> map (\<lambda>ob. (ob_subsystem ob, ob_status ob)) obs"

definition log_entry :: "subsystem_event \<Rightarrow> watchdog_subsystem \<times> nat \<times> bool" where
  "log_entry e = (se_subsystem e, unat (se_consecutive_unhealthy e), se_restart e \<noteq> None)"

text \<open>What the history determines of a watchdog with threshold \<open>k\<close>, and of the restarts it asked for.\<close>

definition watches ::
  "nat \<Rightarrow> (watchdog_subsystem \<times> aggregate_status) list \<Rightarrow> watchdog_subsystem list \<Rightarrow> subsystem_watchdog \<Rightarrow> bool" where
  "watches k h calls w \<longleftrightarrow> unat (wd_trip_threshold w) = k \<and> streaks_counted h (wd_consecutive_dead w) \<and> calls = trips k h \<and>
     map log_entry (wd_subsystem_events w) = dead_log k h"

lemma restart_dead_loop_watches:
  assumes "watches k h calls w" "0 < k" "length h + length obs < 2 ^ 32"
  shows "watches k (h @ seen_as obs) (fst (snd (restart_dead_loop restarter obs emitted calls w)))
    (snd (snd (restart_dead_loop restarter obs emitted calls w)))"
  using assms
proof (induction obs arbitrary: h emitted calls w)
  case (Cons ob obs)
  let ?x = "(ob_subsystem ob, ob_status ob)" and ?b = "bump_counter (ob_subsystem ob) (ob_status ob) (wd_consecutive_dead w)"
  have w: "unat (wd_trip_threshold w) = k" "calls = trips k h" "map log_entry (wd_subsystem_events w) = dead_log k h"
    and cn: "streaks_counted h (wd_consecutive_dead w)" using Cons.prems(1) by (simp_all add: watches_def)
  have len: "Suc (length h) < 2 ^ 32" "length (h @ [?x]) + length obs < 2 ^ 32" using Cons.prems(3) by simp_all
  note b = streaks_counted_bump [OF cn len(1), of "ob_subsystem ob" "ob_status ob"]
  have hit: "fst ?b = wd_trip_threshold w \<longleftrightarrow> streak (ob_subsystem ob) (h @ [?x]) = k"
    using b(2) w(1) by (simp add: word_unat_eq_iff)
  have zero: "fst ?b = 0 \<longleftrightarrow> streak (ob_subsystem ob) (h @ [?x]) = 0" using b(2) by (simp add: word_unat_eq_iff)
  obtain calls1 w1 emitted1 where r:
      "restart_dead_loop restarter (ob # obs) emitted calls w = restart_dead_loop restarter obs emitted1 calls1 w1"
      "watches k (h @ [?x]) calls1 w1"
  proof (cases "fst ?b = 0")
    case True
    then show ?thesis
      using w b(1) zero Cons.prems(2)
      by (intro that [of emitted calls "w\<lparr> wd_consecutive_dead := snd ?b \<rparr>"])
        (simp_all add: case_prod_beta watches_def trips_snoc dead_log_snoc Let_def)
  next
    case False
    let ?restart = "if fst ?b = wd_trip_threshold w
      then Some (case restarter (length calls) (ob_subsystem ob) of Inr _ \<Rightarrow> Restarted | Inl err \<Rightarrow> RestartFailure err) else None"
    let ?e = "\<lparr> se_subsystem = ob_subsystem ob, se_status = ob_status ob, se_consecutive_unhealthy = fst ?b,
        se_observed_at = ob_observed_at ob, se_reason = ob_reason ob, se_restart = ?restart \<rparr>"
    show ?thesis
      using w b False zero hit
      by (intro that [of "emitted @ [?e]" "calls @ (if fst ?b = wd_trip_threshold w then [ob_subsystem ob] else [])"
            "w\<lparr> wd_consecutive_dead := snd ?b, wd_subsystem_events := wd_subsystem_events w @ [?e] \<rparr>"])
        (auto simp: case_prod_beta watches_def trips_snoc dead_log_snoc log_entry_def Let_def)
  qed
  show ?case unfolding r(1) using Cons.IH [OF r(2) Cons.prems(2) len(2)] by simp
qed simp

text \<open>A run of the watchdog: at each tick whether this node leads, and what it observed.\<close>

fun watch_ticks ::
  "(nat \<Rightarrow> watchdog_subsystem \<Rightarrow> (unit, string) result) \<Rightarrow> (bool \<times> subsystem_observation list) list \<Rightarrow>
   watchdog_subsystem list \<Rightarrow> subsystem_watchdog \<Rightarrow> watchdog_subsystem list \<times> subsystem_watchdog" where
  "watch_ticks restarter [] calls w = (calls, w)"
| "watch_ticks restarter ((is_leader, obs) # ts) calls w =
     (case restart_dead_subsystems restarter obs is_leader calls w of
        (emitted, calls1, w1) \<Rightarrow> watch_ticks restarter ts calls1 w1)"

definition led_history :: "(bool \<times> subsystem_observation list) list \<Rightarrow> (watchdog_subsystem \<times> aggregate_status) list" where
  "led_history ts = concat (map (\<lambda>t. if fst t then seen_as (snd t) else []) ts)"

lemma watch_ticks_watches:
  assumes "watches k h calls w" "0 < k" "length h + length (led_history ts) < 2 ^ 32"
  shows "watches k (h @ led_history ts) (fst (watch_ticks restarter ts calls w)) (snd (watch_ticks restarter ts calls w))"
  using assms
proof (induction ts arbitrary: h calls w)
  case Nil
  then show ?case by (simp add: led_history_def)
next
  case (Cons t ts)
  obtain l obs where t: "t = (l, obs)" by (rule prod.exhaust)
  show ?case
  proof (cases l)
    case False
    then show ?thesis
      using Cons.IH [OF Cons.prems(1,2)] Cons.prems(3) by (simp add: t restart_dead_subsystems_def led_history_def)
  next
    case True
    let ?r = "restart_dead_loop restarter obs [] calls w"
    have len: "length h + length obs < 2 ^ 32" "length (h @ seen_as obs) + length (led_history ts) < 2 ^ 32"
      using Cons.prems(3) True by (simp_all add: t led_history_def)
    have "watches k ((h @ seen_as obs) @ led_history ts)
        (fst (watch_ticks restarter ts (fst (snd ?r)) (snd (snd ?r)))) (snd (watch_ticks restarter ts (fst (snd ?r)) (snd (snd ?r))))"
      by (rule Cons.IH [OF restart_dead_loop_watches [OF Cons.prems(1,2) len(1)] Cons.prems(2) len(2)])
    then show ?thesis using True by (simp add: t restart_dead_subsystems_def led_history_def case_prod_beta)
  qed
qed

text \<open>
  C31: Over any run of ticks the watchdog asks for a restart exactly at the observations, made
  while this node led, that complete a streak as long as the threshold; it logs one event for
  each unhealthy observation, with the length of its streak and whether a restart was tried.
  Ticks of a follower change nothing.
\<close>

theorem watchdog_restarts_exact:
  assumes "watch_ticks restarter ts [] (with_trip_threshold k watchdog_new) = (calls, w)"
    and "0 < k" "length (led_history ts) < 2 ^ 32"
  shows "calls = trips (unat k) (led_history ts) \<and>
    map log_entry (wd_subsystem_events w) = dead_log (unat k) (led_history ts)"
proof -
  have new: "watches (unat k) [] [] (with_trip_threshold k watchdog_new)"
    by (simp add: watches_def with_trip_threshold_def watchdog_new_def streaks_counted_Nil trips_def dead_log_def)
  have "0 < unat k" using assms(2) by (simp add: word_less_nat_alt)
  from watch_ticks_watches [OF new this, of ts restarter] show ?thesis
    using assms(1,3) by (simp add: watches_def)
qed

definition dead_ticks :: "nat \<Rightarrow> (bool \<times> subsystem_observation list) list" where
  "dead_ticks n = replicate n (True, [observation_dead 0 Reaper ''gone''])"

theorem watchdog_restarts_exact_witness:
  "fst (watch_ticks (\<lambda>_ _. Inl ''busy'') (dead_ticks 5) [] (with_trip_threshold 3 watchdog_new)) = [Reaper]"
proof -
  let ?h = "replicate 5 (Reaper, AggUnhealthy)"
  have h: "led_history (dead_ticks 5) = ?h"
    by (simp add: led_history_def dead_ticks_def observation_dead_def numeral_eq_Suc)
  obtain calls w where r: "watch_ticks (\<lambda>_ _. Inl ''busy'') (dead_ticks 5) [] (with_trip_threshold 3 watchdog_new) = (calls, w)"
    by (rule prod.exhaust)
  have "calls = trips (unat (3 :: u32)) (led_history (dead_ticks 5))"
    using watchdog_restarts_exact [OF r] by (simp add: h)
  also have "\<dots> = trips 3 ?h" by (simp add: h)
  also have "\<dots> = [Reaper]" by code_simp
  finally show ?thesis using r by simp
qed

text \<open>
  A streak that has passed the threshold never meets it again: while the subsystem stays dead
  there is one attempt, also when that attempt failed.
\<close>

lemma failed_restart_not_retried:
  "trips k (replicate n (s, AggUnhealthy)) = (if 0 < k \<and> k \<le> n then [s] else [])" if "0 < k"
proof (induction n)
  case (Suc n)
  have "streak s (replicate m (s, AggUnhealthy)) = m" for m
    by (simp add: streak_def takeWhile_eq_all_conv [THEN iffD2] rev_replicate)
  then have st: "streak s (replicate n (s, AggUnhealthy) @ [(s, AggUnhealthy)]) = Suc n"
    by (simp add: streak_snoc)
  have "trips k (replicate (Suc n) (s, AggUnhealthy)) = trips k (replicate n (s, AggUnhealthy) @ [(s, AggUnhealthy)])"
    by (simp add: replicate_append_same)
  also have "\<dots> = (if k \<le> n then [s] else []) @ (if Suc n = k then [s] else [])"
    unfolding trips_snoc using Suc that st by simp
  finally show ?case using that by auto
qed (use that in \<open>simp add: trips_def\<close>)

section \<open>The snapshot and the registry\<close>

lemma fold_count_node_unreachable:
  "ag_unreachable_nodes (fold count_node ns agg) =
     ag_unreachable_nodes agg + length (filter (\<lambda>n. map_option hc_status (fc_health n) = Some NodeUnreachable) ns)"
  by (induction ns arbitrary: agg) (auto simp: count_node_def split: option.splits node_health_status.splits)

lemma fold_count_run_failed:
  "sa_failed_runs (fold count_run rs agg) = sa_failed_runs agg + length (filter (\<lambda>r. jr_status r = RunFailed) rs)"
  by (induction rs arbitrary: agg) (auto simp: count_run_def split: run_status.splits)

text \<open>Discovery counts as unhealthy exactly while a registered node is unreachable.\<close>

lemma discovery_unhealthy_iff:
  assumes "registry_ok (cp_registry cp)" "hash_iter it"
  shows "discovery_status (aggregate_health_snapshot now it itj itr cp) = AggUnhealthy \<longleftrightarrow>
    (\<exists>uid n. registry_get uid (cp_registry cp) = Some n \<and> map_option hc_status (fc_health n) = Some NodeUnreachable)"
proof -
  have "discovery_status (aggregate_health_snapshot now it itj itr cp) = AggUnhealthy \<longleftrightarrow>
      (\<exists>n \<in> set (list_nodes it (cp_registry cp)). map_option hc_status (fc_health n) = Some NodeUnreachable)"
    by (simp add: discovery_status_def aggregate_health_snapshot_def aggregate_discovery_def Let_def
        fold_count_node_unreachable filter_empty_conv)
  then show ?thesis unfolding list_nodes_strict(2) [OF assms] by auto
qed

text \<open>One failed run in the history of the engine makes the scheduler unhealthy for as long as it is kept.\<close>

lemma scheduler_unhealthy_iff:
  assumes "hash_iter itr"
  shows "scheduler_status (aggregate_health_snapshot now it itj itr cp) = AggUnhealthy \<longleftrightarrow>
    (\<exists>r \<in> set (hm_values (ce_runs (cp_engine cp))). jr_status r = RunFailed)"
  by (simp add: scheduler_status_def aggregate_health_snapshot_def aggregate_scheduler_def Let_def
      fold_count_run_failed filter_empty_conv list_runs_def hash_iter_set [OF assms])

section \<open>Bootstrap\<close>

lemma first_duplicate_None: "first_duplicate seen ss = None \<longleftrightarrow> distinct ss \<and> set seen \<inter> set ss = {}"
  by (induction seen ss rule: first_duplicate.induct) auto

lemma UNIV_startup_subsystem: "set default_order = UNIV"
proof -
  have "s \<in> set default_order" for s by (cases s) (simp_all add: default_order_def)
  then show ?thesis by blast
qed

text \<open>A startup order is accepted exactly if it starts with the configuration and has every subsystem once.\<close>

lemma validate_startup_order_iff:
  "validate_startup_order order = Inr () \<longleftrightarrow> distinct order \<and> set order = UNIV \<and> order \<noteq> [] \<and> hd order = SubConfig"
proof (cases order)
  case (Cons s ss)
  have "find (\<lambda>s. s \<notin> set order) default_order = None \<longleftrightarrow> set order = UNIV"
    using UNIV_startup_subsystem by (auto simp: find_None_iff)
  moreover have "first_duplicate [] order = None \<longleftrightarrow> distinct order" by (simp add: first_duplicate_None)
  ultimately show ?thesis using Cons
    by (auto simp: validate_startup_order_def split: option.splits)
qed (simp add: validate_startup_order_def)

end
