(* ===== verification/Session_Store.thy ===== *)
theory Session_Store
  imports Fleet_Prelude
begin

text \<open>
  The life of a conversation: \<^verbatim>\<open>crates/ff-sessions/src/session.rs\<close>.

  The two concurrent maps of the store are hash maps. A guard that \<^verbatim>\<open>DashMap::get\<close> hands out
  keeps the key's shard locked while it lives, and a \<^verbatim>\<open>remove\<close> of the same key waits for it:
  \<open>get_or_create\<close>, which removes the key while it still holds the guard, never returns
  there, which is the value \<open>None\<close>. Clock reads and fresh identifiers are arguments; the
  workspace of a session is opaque.
\<close>

section \<open>Sessions\<close>

datatype session_state = SsActive | SsPaused | SsEnded | SsTimedOut | SsError

fun session_state_str :: "session_state \<Rightarrow> string" where
  "session_state_str SsActive = ''active''"
| "session_state_str SsPaused = ''paused''"
| "session_state_str SsEnded = ''ended''"
| "session_state_str SsTimedOut = ''timed_out''"
| "session_state_str SsError = ''error''"

record 'w session =
  se_id :: uuid
  se_channel :: string
  se_user :: string
  se_model :: string
  se_state :: session_state
  se_label :: "string option"
  se_parent_id :: "uuid option"
  se_workspace :: "'w option"
  se_created_at :: datetime
  se_last_active :: datetime
  se_message_count :: u64

definition session_new :: "uuid \<Rightarrow> datetime \<Rightarrow> string \<Rightarrow> string \<Rightarrow> string \<Rightarrow> 'w session" where
  "session_new uid now channel user model =
     \<lparr> se_id = uid, se_channel = channel, se_user = user, se_model = model, se_state = SsActive,
       se_label = None, se_parent_id = None, se_workspace = None, se_created_at = now,
       se_last_active = now, se_message_count = 0 \<rparr>"

definition session_new_child ::
  "uuid \<Rightarrow> datetime \<Rightarrow> uuid \<Rightarrow> string \<Rightarrow> string \<Rightarrow> string \<Rightarrow> string option \<Rightarrow> 'w session" where
  "session_new_child uid now parent channel user model label =
     (session_new uid now channel user model)\<lparr> se_parent_id := Some parent, se_label := label \<rparr>"

definition session_touch :: "datetime \<Rightarrow> 'w session \<Rightarrow> 'w session" where
  "session_touch now s = s\<lparr> se_last_active := now, se_message_count := se_message_count s + 1 \<rparr>"

text \<open>A negative difference has no standard duration and counts as zero.\<close>

definition session_timed_out :: "datetime \<Rightarrow> std_duration \<Rightarrow> 'w session \<Rightarrow> bool" where
  "session_timed_out now timeout s \<longleftrightarrow> timeout < nat (now - se_last_active s)"


definition session_is_child :: "'w session \<Rightarrow> bool" where
  "session_is_child s \<longleftrightarrow> se_parent_id s \<noteq> None"

section \<open>The store\<close>

record 'w session_store =
  ss_sessions :: "(uuid, 'w session) hmap"
  ss_channel_index :: "(string, uuid) hmap"
  ss_timeout :: std_duration

definition session_store_new :: "std_duration \<Rightarrow> 'w session_store" where
  "session_store_new timeout = \<lparr> ss_sessions = [], ss_channel_index = [], ss_timeout = timeout \<rparr>"

definition channel_key :: "string \<Rightarrow> string \<Rightarrow> string" where
  "channel_key channel user = channel @ '':'' @ user"

definition session_key :: "'w session \<Rightarrow> string" where
  "session_key s = channel_key (se_channel s) (se_user s)"

definition session_create ::
  "uuid \<Rightarrow> datetime \<Rightarrow> string \<Rightarrow> string \<Rightarrow> string \<Rightarrow> 'w session_store \<Rightarrow> 'w session \<times> 'w session_store" where
  "session_create uid now channel user model st =
     (let s = session_new uid now channel user model
      in (s, st\<lparr> ss_channel_index := hm_insert (session_key s) uid (ss_channel_index st),
                 ss_sessions := hm_insert uid s (ss_sessions st) \<rparr>))"

text \<open>The clock is read for the time-out and again for the touch.\<close>

definition session_resume ::
  "(nat \<Rightarrow> datetime) \<Rightarrow> uuid \<Rightarrow> 'w session_store \<Rightarrow> 'w session option \<times> 'w session_store" where
  "session_resume clk uid st =
     (case hm_get (ss_sessions st) uid of
        None \<Rightarrow> (None, st)
      | Some s \<Rightarrow>
          if session_timed_out (clk 0) (ss_timeout st) s
          then (None, st\<lparr> ss_sessions := hm_insert uid (s\<lparr> se_state := SsTimedOut \<rparr>) (ss_sessions st) \<rparr>)
          else if se_state s \<noteq> SsActive \<and> se_state s \<noteq> SsPaused then (None, st)
          else let s' = session_touch (clk 1) (s\<lparr> se_state := SsActive \<rparr>)
               in (Some s', st\<lparr> ss_sessions := hm_insert uid s' (ss_sessions st) \<rparr>))"

definition session_get_or_create ::
  "(nat \<Rightarrow> datetime) \<Rightarrow> uuid \<Rightarrow> string \<Rightarrow> string \<Rightarrow> string \<Rightarrow> 'w session_store \<Rightarrow>
   ('w session \<times> 'w session_store) option" where
  "session_get_or_create clk uid channel user model st =
     (case hm_get (ss_channel_index st) (channel_key channel user) of
        Some sid \<Rightarrow>
          (case session_resume clk sid st of
             (Some s, st') \<Rightarrow> Some (s, st')
           | (None, _) \<Rightarrow> None)
      | None \<Rightarrow> Some (session_create uid (clk 0) channel user model st))"

definition session_end :: "uuid \<Rightarrow> 'w session_store \<Rightarrow> 'w session option \<times> 'w session_store" where
  "session_end uid st =
     (case hm_get (ss_sessions st) uid of
        None \<Rightarrow> (None, st)
      | Some s \<Rightarrow>
          let s' = s\<lparr> se_state := SsEnded \<rparr>
          in (Some s', st\<lparr> ss_sessions := hm_insert uid s' (ss_sessions st),
                           ss_channel_index := hm_remove (session_key s') (ss_channel_index st) \<rparr>))"

definition session_get :: "uuid \<Rightarrow> 'w session_store \<Rightarrow> 'w session option" where
  "session_get uid st = hm_get (ss_sessions st) uid"

definition session_store_touch :: "datetime \<Rightarrow> uuid \<Rightarrow> 'w session_store \<Rightarrow> bool \<times> 'w session_store" where
  "session_store_touch now uid st =
     (case hm_get (ss_sessions st) uid of
        Some s \<Rightarrow> (True, st\<lparr> ss_sessions := hm_insert uid (session_touch now s) (ss_sessions st) \<rparr>)
      | None \<Rightarrow> (False, st))"

definition session_list ::
  "((uuid \<times> 'w session) list \<Rightarrow> (uuid \<times> 'w session) list) \<Rightarrow> session_state option \<Rightarrow> 'w session_store \<Rightarrow> 'w session list" where
  "session_list it flt st =
     filter (\<lambda>s. case flt of None \<Rightarrow> True | Some f \<Rightarrow> se_state s = f) (map snd (it (ss_sessions st)))"

definition session_children_of ::
  "((uuid \<times> 'w session) list \<Rightarrow> (uuid \<times> 'w session) list) \<Rightarrow> uuid \<Rightarrow> 'w session_store \<Rightarrow> 'w session list" where
  "session_children_of it parent st =
     filter (\<lambda>s. se_parent_id s = Some parent) (map snd (it (ss_sessions st)))"

definition session_active_count ::
  "((uuid \<times> 'w session) list \<Rightarrow> (uuid \<times> 'w session) list) \<Rightarrow> 'w session_store \<Rightarrow> nat" where
  "session_active_count it st = length (filter (\<lambda>e. se_state (snd e) = SsActive) (it (ss_sessions st)))"

definition session_store_len :: "'w session_store \<Rightarrow> nat" where
  "session_store_len st = length (ss_sessions st)"

section \<open>The sweep\<close>

text \<open>Entry \<open>k\<close> of the iteration reads the clock as \<open>clk k\<close>, and does so only when it is active.\<close>

definition sweep_expired :: "(nat \<Rightarrow> datetime) \<Rightarrow> 'w session_store \<Rightarrow> nat \<times> uuid \<times> 'w session \<Rightarrow> bool" where
  "sweep_expired clk st e =
     (case e of (k, _, s) \<Rightarrow> se_state s = SsActive \<and> session_timed_out (clk k) (ss_timeout st) s)"

definition sweep_orphan :: "(nat \<Rightarrow> datetime) \<Rightarrow> 'w session_store \<Rightarrow> nat \<times> uuid \<times> 'w session \<Rightarrow> bool" where
  "sweep_orphan clk st e =
     (case e of (k, _, s) \<Rightarrow>
        \<not> sweep_expired clk st e \<and> se_state s \<in> {SsEnded, SsTimedOut, SsError} \<and>
        hm_get (ss_channel_index st) (session_key s) = Some (se_id s))"

definition sweep_expire_one :: "uuid \<Rightarrow> 'w session_store \<Rightarrow> 'w session_store" where
  "sweep_expire_one uid st =
     (case hm_get (ss_sessions st) uid of
        None \<Rightarrow> st
      | Some s \<Rightarrow>
          st\<lparr> ss_sessions := hm_insert uid (s\<lparr> se_state := SsTimedOut \<rparr>) (ss_sessions st),
              ss_channel_index := hm_remove (session_key s) (ss_channel_index st) \<rparr>)"

definition sweep_timed_out ::
  "((uuid \<times> 'w session) list \<Rightarrow> (uuid \<times> 'w session) list) \<Rightarrow> (nat \<Rightarrow> datetime) \<Rightarrow>
   'w session_store \<Rightarrow> nat \<times> 'w session_store" where
  "sweep_timed_out it clk st =
     (let entries = enumerate 0 (it (ss_sessions st));
          expired = map (\<lambda>e. fst (snd e)) (filter (sweep_expired clk st) entries);
          orphan_keys = map (\<lambda>e. session_key (snd (snd e))) (filter (sweep_orphan clk st) entries);
          st1 = fold sweep_expire_one expired st
      in (length expired,
          st1\<lparr> ss_channel_index := fold hm_remove orphan_keys (ss_channel_index st1) \<rparr>))"

section \<open>Reachable stores\<close>

inductive session_step :: "'w session_store \<Rightarrow> 'w session_store \<Rightarrow> bool" where
  step_create: "hm_get (ss_sessions st) uid = None \<Longrightarrow>
    session_step st (snd (session_create uid now channel user model st))"
| step_resume: "session_step st (snd (session_resume clk uid st))"
| step_get_or_create: "hm_get (ss_sessions st) uid = None \<Longrightarrow>
    session_get_or_create clk uid channel user model st = Some (s, st') \<Longrightarrow> session_step st st'"
| step_end: "session_step st (snd (session_end uid st))"
| step_touch: "session_step st (snd (session_store_touch now uid st))"
| step_sweep: "hash_iter it \<Longrightarrow> session_step st (snd (sweep_timed_out it clk st))"

text \<open>
  Well-formed: sessions are stored under their own identifier, none has a parent, none is
  paused or in error (no operation leads there), and the index points to stored sessions
  under their own key.
\<close>

definition session_store_ok :: "'w session_store \<Rightarrow> bool" where
  "session_store_ok st \<longleftrightarrow>
     hm_wf (ss_sessions st) \<and> hm_wf (ss_channel_index st) \<and>
     (\<forall>uid s. hm_get (ss_sessions st) uid = Some s \<longrightarrow>
        se_id s = uid \<and> se_parent_id s = None \<and> se_state s \<in> {SsActive, SsEnded, SsTimedOut}) \<and>
     (\<forall>key uid. hm_get (ss_channel_index st) key = Some uid \<longrightarrow>
        (\<exists>s. hm_get (ss_sessions st) uid = Some s \<and> session_key s = key))"

lemma session_store_okD:
  assumes "session_store_ok st"
  shows "hm_wf (ss_sessions st)" "hm_wf (ss_channel_index st)"
    and "hm_get (ss_sessions st) uid = Some s \<Longrightarrow>
      se_id s = uid \<and> se_parent_id s = None \<and> se_state s \<in> {SsActive, SsEnded, SsTimedOut}"
    and "hm_get (ss_channel_index st) key = Some uid \<Longrightarrow> \<exists>s. hm_get (ss_sessions st) uid = Some s \<and> session_key s = key"
  using assms unfolding session_store_ok_def by blast+

lemma session_store_okI:
  assumes "hm_wf (ss_sessions st)" "hm_wf (ss_channel_index st)"
    and "\<And>uid s. hm_get (ss_sessions st) uid = Some s \<Longrightarrow>
      se_id s = uid \<and> se_parent_id s = None \<and> se_state s \<in> {SsActive, SsEnded, SsTimedOut}"
    and "\<And>key uid. hm_get (ss_channel_index st) key = Some uid \<Longrightarrow> \<exists>s. hm_get (ss_sessions st) uid = Some s \<and> session_key s = key"
  shows "session_store_ok st"
  using assms unfolding session_store_ok_def by blast

text \<open>Every operation on one session rewrites it in place, keeping its identity, and only removes from the index.\<close>

lemma session_store_ok_rewrite:
  assumes ok: "session_store_ok st" and s: "hm_get (ss_sessions st) uid = Some s"
    and s': "se_id s' = se_id s" "se_parent_id s' = se_parent_id s" "session_key s' = session_key s"
      "se_state s' \<in> {SsActive, SsEnded, SsTimedOut}"
    and ix: "hm_wf ix" "\<And>key u. hm_get ix key = Some u \<Longrightarrow> hm_get (ss_channel_index st) key = Some u"
  shows "session_store_ok (st\<lparr> ss_sessions := hm_insert uid s' (ss_sessions st), ss_channel_index := ix \<rparr>)"
proof (rule session_store_okI)
  fix key u assume "hm_get (ss_channel_index (st\<lparr> ss_sessions := hm_insert uid s' (ss_sessions st), ss_channel_index := ix \<rparr>)) key = Some u"
  then obtain r where "hm_get (ss_sessions st) u = Some r" "session_key r = key"
    using ix(2) session_store_okD(4) [OF ok] by fastforce
  then show "\<exists>r. hm_get (ss_sessions (st\<lparr> ss_sessions := hm_insert uid s' (ss_sessions st), ss_channel_index := ix \<rparr>)) u = Some r \<and> session_key r = key"
    using s s'(3) by (cases "u = uid") auto
qed (use ok s s' ix(1) session_store_okD(1,3) [OF ok] in \<open>auto split: if_splits\<close>)

lemmas session_store_ok_rewrite_sessions =
  session_store_ok_rewrite [where ix = "ss_channel_index st" and st = st for st, simplified]

lemma session_create_ok:
  assumes "session_store_ok st" "hm_get (ss_sessions st) uid = None"
  shows "session_store_ok (snd (session_create uid now channel user model st))"
  using assms(2) session_store_okD [OF assms(1)]
  by (intro session_store_okI) (auto simp: session_create_def session_new_def Let_def split: if_splits, metis option.distinct(1))


lemma session_key_update [simp]:
  "session_key (s\<lparr> se_state := x \<rparr>) = session_key s" "session_key (session_touch now s) = session_key s"
  by (simp_all add: session_key_def session_touch_def)

lemma session_touch_kept [simp]:
  "se_id (session_touch now s) = se_id s" "se_parent_id (session_touch now s) = se_parent_id s"
  "se_state (session_touch now s) = se_state s" "se_channel (session_touch now s) = se_channel s"
  "se_user (session_touch now s) = se_user s"
  by (simp_all add: session_touch_def)

lemma session_resume_ok:
  assumes ok: "session_store_ok st"
  shows "session_store_ok (snd (session_resume clk uid st))"
  using ok session_store_okD(2) [OF ok]
  by (auto simp: session_resume_def Let_def split: option.split intro!: session_store_ok_rewrite_sessions [OF ok])

lemma session_end_ok:
  assumes ok: "session_store_ok st"
  shows "session_store_ok (snd (session_end uid st))"
  using ok session_store_okD(2) [OF ok]
  by (auto simp: session_end_def Let_def split: option.split if_splits intro!: session_store_ok_rewrite [OF ok])

lemma session_store_touch_ok:
  assumes ok: "session_store_ok st"
  shows "session_store_ok (snd (session_store_touch now uid st))"
proof (cases "hm_get (ss_sessions st) uid")
  case (Some s)
  then show ?thesis
    using session_store_okD(3) [OF ok Some] session_store_ok_rewrite_sessions [OF ok Some, of "session_touch now s"]
      session_store_okD(2) [OF ok] by (simp add: session_store_touch_def)
qed (simp add: session_store_touch_def ok)

lemma sweep_expire_one_ok:
  assumes ok: "session_store_ok st"
  shows "session_store_ok (sweep_expire_one uid st)"
  using ok session_store_okD(2) [OF ok]
  by (auto simp: sweep_expire_one_def split: option.split if_splits intro!: session_store_ok_rewrite [OF ok])

lemma fold_hm_remove_get: "hm_get (fold hm_remove ks m) k = (if k \<in> set ks then None else hm_get m k)"
  by (induction ks arbitrary: m) auto

lemma fold_hm_remove_wf: "hm_wf m \<Longrightarrow> hm_wf (fold hm_remove ks m)"
  by (induction ks arbitrary: m) auto

lemma session_store_ok_unindex:
  assumes "session_store_ok st"
  shows "session_store_ok (st\<lparr> ss_channel_index := fold hm_remove ks (ss_channel_index st) \<rparr>)"
  using session_store_okD [OF assms]
  by (intro session_store_okI) (auto simp: fold_hm_remove_get fold_hm_remove_wf split: if_splits)

lemma sweep_expire_ok: "session_store_ok st \<Longrightarrow> session_store_ok (fold sweep_expire_one us st)"
  by (induction us arbitrary: st) (simp_all add: sweep_expire_one_ok)

lemma sweep_ok: "session_store_ok st \<Longrightarrow> session_store_ok (snd (sweep_timed_out it clk st))"
  by (simp add: sweep_timed_out_def Let_def session_store_ok_unindex sweep_expire_ok)

lemma get_or_create_ok:
  assumes "session_store_ok st" "hm_get (ss_sessions st) uid = None"
    and "session_get_or_create clk uid channel user model st = Some (s, st')"
  shows "session_store_ok st'"
proof (cases "hm_get (ss_channel_index st) (channel_key channel user)")
  case None
  then show ?thesis
    using assms(3) session_create_ok [OF assms(1,2), of "clk 0" channel user model] by (simp add: session_get_or_create_def)
next
  case (Some sid)
  then show ?thesis
    using assms(3) session_resume_ok [OF assms(1), of clk sid]
    by (auto simp: session_get_or_create_def split: prod.splits option.splits)
qed

lemma session_step_ok: "session_step st st' \<Longrightarrow> session_store_ok st \<Longrightarrow> session_store_ok st'"
  by (induction rule: session_step.induct)
    (simp_all add: session_create_ok session_resume_ok session_end_ok session_store_touch_ok sweep_ok get_or_create_ok)

interpretation sess: invariant_machine session_step session_store_ok
  by unfold_locales (rule session_step_ok)

lemma session_store_new_ok: "session_store_ok (session_store_new timeout)"
  by (simp add: session_store_ok_def session_store_new_def)

lemma sessions_reachable_ok: "session_step\<^sup>*\<^sup>* (session_store_new timeout) st \<Longrightarrow> session_store_ok st"
  by (rule sess.star_inv [OF _ session_store_new_ok])

text \<open>No operation stores a child: the list of the children of a session is always empty.\<close>

lemma no_children:
  assumes "session_step\<^sup>*\<^sup>* (session_store_new timeout) st" "hash_iter it"
  shows "session_children_of it parent st = []"
proof -
  note ok = sessions_reachable_ok [OF assms(1)]
  have "se_parent_id s = None" if "(u, s) \<in> set (ss_sessions st)" for u s
    using that session_store_okD(3) [OF ok, of u s] hm_mem_iff [OF session_store_okD(1) [OF ok]] by blast
  then show ?thesis
    by (auto simp: session_children_of_def filter_empty_conv hash_iter_set [OF assms(2)])
qed

section \<open>What the sweep does\<close>

lemma sweep_expire_one_get:
  "hm_get (ss_sessions (sweep_expire_one u st)) v =
     (if v = u then map_option (\<lambda>s. s\<lparr> se_state := SsTimedOut \<rparr>) (hm_get (ss_sessions st) u) else hm_get (ss_sessions st) v)"
  "hm_get (ss_channel_index (sweep_expire_one u st)) key =
     (if map_option session_key (hm_get (ss_sessions st) u) = Some key then None else hm_get (ss_channel_index st) key)"
  by (auto simp: sweep_expire_one_def split: option.split)

lemma sweep_expire_one_keys:
  "map_option session_key (hm_get (ss_sessions (sweep_expire_one u st)) v) = map_option session_key (hm_get (ss_sessions st) v)"
  by (simp add: sweep_expire_one_get option.map_comp comp_def)

lemma sweep_expire_get:
  "hm_get (ss_sessions (fold sweep_expire_one us st)) v =
     map_option (\<lambda>s. if v \<in> set us then s\<lparr> se_state := SsTimedOut \<rparr> else s) (hm_get (ss_sessions st) v)"
  "hm_get (ss_channel_index (fold sweep_expire_one us st)) key =
     (if \<exists>u \<in> set us. map_option session_key (hm_get (ss_sessions st) u) = Some key then None
      else hm_get (ss_channel_index st) key)"
proof (induction us arbitrary: st)
  case (Cons u us)
  { case 1 show ?case using Cons.IH(1) [of "sweep_expire_one u st"]
      by (auto simp: sweep_expire_one_get option.map_comp comp_def intro!: map_option_cong) }
  { case 2 show ?case
      by (simp add: Cons.IH(2) sweep_expire_one_keys sweep_expire_one_get(2) del: map_option_eq_Some) }
qed (auto simp: option.map_ident)


lemma mem_enumerate_snd: "(\<exists>k. (k, x) \<in> set (enumerate n xs)) \<longleftrightarrow> x \<in> set xs"
proof -
  have "set xs = snd ` set (enumerate n xs)" by (metis list.set_map map_snd_enumerate)
  then show ?thesis by force
qed

text \<open>A sweep whose clock reads \<open>t\<close> marks the active sessions that timed out, and leaves the index to live sessions only.\<close>

lemma sweep_sessions:
  assumes ok: "session_store_ok st" and it: "hash_iter it"
  shows "session_get v (snd (sweep_timed_out it (\<lambda>_. t) st)) =
    map_option (\<lambda>s. if se_state s = SsActive \<and> session_timed_out t (ss_timeout st) s then s\<lparr> se_state := SsTimedOut \<rparr> else s)
      (session_get v st)"
proof -
  let ?us = "map (\<lambda>e. fst (snd e)) (filter (sweep_expired (\<lambda>_. t) st) (enumerate 0 (it (ss_sessions st))))"
  have "v \<in> set ?us \<longleftrightarrow> se_state s = SsActive \<and> session_timed_out t (ss_timeout st) s"
    if s: "hm_get (ss_sessions st) v = Some s" for s
  proof -
    have "(\<exists>k. (k, v, r) \<in> set (enumerate 0 (it (ss_sessions st)))) \<longleftrightarrow> r = s" for r
      using s by (auto simp: mem_enumerate_snd hash_iter_set [OF it] hm_mem_iff [OF session_store_okD(1) [OF ok]])
    then show ?thesis by (fastforce simp: sweep_expired_def image_iff)
  qed
  then show ?thesis
    by (cases "hm_get (ss_sessions st) v")
      (simp_all add: session_get_def sweep_timed_out_def Let_def sweep_expire_get(1))
qed

lemma sweep_index:
  assumes ok: "session_store_ok st" and it: "hash_iter it"
    and key: "hm_get (ss_channel_index (snd (sweep_timed_out it (\<lambda>_. t) st))) key = Some u"
  shows "\<exists>s. session_get u st = Some s \<and> se_state s = SsActive \<and> \<not> session_timed_out t (ss_timeout st) s"
proof -
  let ?en = "enumerate 0 (it (ss_sessions st))"
  let ?us = "map (\<lambda>e. fst (snd e)) (filter (sweep_expired (\<lambda>_. t) st) ?en)"
  let ?ks = "map (\<lambda>e. session_key (snd (snd e))) (filter (sweep_orphan (\<lambda>_. t) st) ?en)"
  have k: "key \<notin> set ?ks" and e: "\<not> (\<exists>u \<in> set ?us. map_option session_key (hm_get (ss_sessions st) u) = Some key)"
    and u: "hm_get (ss_channel_index st) key = Some u"
    using key by (auto simp: sweep_timed_out_def Let_def fold_hm_remove_get sweep_expire_get(2) simp del: set_map split: if_splits)
  obtain s where s: "hm_get (ss_sessions st) u = Some s" "session_key s = key"
    using session_store_okD(4) [OF ok u] by blast
  obtain i where i: "(i, u, s) \<in> set ?en"
    using s(1) mem_enumerate_snd [of "(u, s)" 0 "it (ss_sessions st)"] hm_mem_iff [OF session_store_okD(1) [OF ok]]
    by (auto simp: hash_iter_set [OF it])
  have sid: "se_id s = u" "se_state s \<in> {SsActive, SsEnded, SsTimedOut}" using session_store_okD(3) [OF ok s(1)] by simp_all
  have "\<not> sweep_expired (\<lambda>_. t) st (i, u, s)"
  proof
    assume "sweep_expired (\<lambda>_. t) st (i, u, s)"
    then have "u \<in> set ?us" using i by (force simp: image_iff)
    moreover have "map_option session_key (hm_get (ss_sessions st) u) = Some key" using s by simp
    ultimately show False using e by blast
  qed
  moreover have "\<not> sweep_orphan (\<lambda>_. t) st (i, u, s)"
  proof
    assume "sweep_orphan (\<lambda>_. t) st (i, u, s)"
    then have "key \<in> set ?ks" using i s(2) by (force simp: image_iff)
    then show False using k by simp
  qed
  ultimately show ?thesis using s u sid by (auto simp: sweep_expired_def sweep_orphan_def session_get_def)
qed

section \<open>Looking a session up\<close>

definition session_live :: "datetime \<Rightarrow> std_duration \<Rightarrow> 'w session \<Rightarrow> bool" where
  "session_live t timeout s \<longleftrightarrow> se_state s = SsActive \<and> \<not> session_timed_out t timeout s"

lemma get_or_create_blocks_iff:
  assumes ok: "session_store_ok st"
  shows "session_get_or_create clk uid channel user model st = None \<longleftrightarrow>
    (\<exists>sid s. hm_get (ss_channel_index st) (channel_key channel user) = Some sid \<and> session_get sid st = Some s \<and>
       \<not> session_live (clk 0) (ss_timeout st) s)"
proof (cases "hm_get (ss_channel_index st) (channel_key channel user)")
  case (Some sid)
  obtain s where s: "hm_get (ss_sessions st) sid = Some s" using session_store_okD(4) [OF ok Some] by blast
  show ?thesis
    using session_store_okD(3) [OF ok s] s
    by (auto simp: Some session_get_or_create_def session_resume_def session_live_def session_get_def Let_def)
qed (simp add: session_get_or_create_def)





text \<open>A sweep restores the service: at the same instant no lookup is stuck.\<close>

lemma sweep_unblocks:
  assumes "session_step\<^sup>*\<^sup>* (session_store_new timeout) st" "hash_iter it"
  shows "session_get_or_create (\<lambda>_. t) uid channel user model (snd (sweep_timed_out it (\<lambda>_. t) st)) \<noteq> None"
proof -
  note ok = sessions_reachable_ok [OF assms(1)]
  let ?st = "snd (sweep_timed_out it (\<lambda>_. t) st)"
  have tm: "ss_timeout (fold sweep_expire_one us st) = ss_timeout st" for us
    by (induction us arbitrary: st) (auto simp: sweep_expire_one_def split: option.split)
  have "ss_timeout ?st = ss_timeout st" by (simp add: sweep_timed_out_def Let_def tm)
  then have "session_live t (ss_timeout ?st) s"
    if "hm_get (ss_channel_index ?st) key = Some sid" "session_get sid ?st = Some s" for key sid s
    using sweep_index [OF ok assms(2) that(1)] that(2)
    by (auto simp: sweep_sessions [OF ok assms(2)] session_live_def)
  then show ?thesis using get_or_create_blocks_iff [OF sweep_ok [OF ok, of it "\<lambda>_. t"], of "\<lambda>_. t"] by blast
qed

text \<open>When channel names have no colon the key is one user's only; otherwise two users can share a session.\<close>

lemma channel_key_inj:
  assumes "CHR '':'' \<notin> set c" "CHR '':'' \<notin> set c'" "channel_key c u = channel_key c' u'"
  shows "c = c' \<and> u = u'"
proof -
  have "takeWhile (\<lambda>x. x \<noteq> CHR '':'') (c @ CHR '':'' # u) = c"
    if "CHR '':'' \<notin> set c" for c u :: string
    using that by (subst takeWhile_append2) auto
  then have "c = c'" using assms by (metis append_Cons append_Nil channel_key_def)
  then show ?thesis using assms(3) by (simp add: channel_key_def)
qed

lemma channel_key_collision: "channel_key ''web:a'' ''b'' = channel_key ''web'' ''a:b''"
  by (simp add: channel_key_def)

text \<open>Ending an older session of a user removes the index entry of the newer one, which stays active.\<close>

lemma end_unindexes_newer:
  "let st = snd (session_create 2 0 ''web'' ''u'' ''m'' (snd (session_create 1 0 ''web'' ''u'' ''m'' (session_store_new 9 :: unit session_store))));
       st' = snd (session_end 1 st)
   in hm_get (ss_channel_index st) (channel_key ''web'' ''u'') = Some 2 \<and>
      hm_get (ss_channel_index st') (channel_key ''web'' ''u'') = None \<and>
      map_option se_state (session_get 2 st') = Some SsActive"
  by code_simp

end
