(* ===== verification/Session_History.thy ===== *)
theory Session_History
  imports Fleet_Text
begin

text \<open>
  The messages of a session: \<^verbatim>\<open>crates/ff-sessions/src/history.rs\<close>.

  Text is UTF-8 bytes: cutting a string inside a character panics, which is the value
  \<open>Panics\<close>. Token counts are natural numbers; scores, \<open>f32\<close> sums of counts, too. Clock reads
  and fresh identifiers are arguments, and so is the date format of a transcript. The JSON
  export, a call of \<^verbatim>\<open>serde_json\<close>, is not modelled.
\<close>

section \<open>UTF-8\<close>

definition utf8_continuation :: "char \<Rightarrow> bool" where
  "utf8_continuation c \<longleftrightarrow> (let n = of_char c :: nat in 128 \<le> n \<and> n < 192)"

definition is_char_boundary :: "string \<Rightarrow> nat \<Rightarrow> bool" where
  "is_char_boundary s i \<longleftrightarrow> i = 0 \<or> i = length s \<or> i < length s \<and> \<not> utf8_continuation (s ! i)"

definition chars_count :: "string \<Rightarrow> nat" where
  "chars_count s = length (filter (\<lambda>c. \<not> utf8_continuation c) s)"

text \<open>\<open>chars().take(n)\<close>: a character is a first byte with the continuation bytes after it.\<close>

fun chars_take :: "nat \<Rightarrow> string \<Rightarrow> string" where
  "chars_take n [] = []"
| "chars_take n (c # s) =
     (if utf8_continuation c then c # chars_take n s
      else case n of 0 \<Rightarrow> [] | Suc m \<Rightarrow> c # chars_take m s)"

text \<open>\<open>text[start..end]\<close>\<close>

definition str_slice :: "string \<Rightarrow> nat \<Rightarrow> nat \<Rightarrow> string outcome" where
  "str_slice s i j =
     (if i \<le> j \<and> is_char_boundary s i \<and> is_char_boundary s j then Returns (drop i (take j s)) else Panics)"

definition utf8_ellipsis :: string where
  "utf8_ellipsis = [CHR 0xE2, CHR 0x80, CHR 0xA6]"

section \<open>Messages\<close>

datatype message_role = RoleSystem | RoleUser | RoleAssistant | RoleTool | RoleSubAgent | RoleDeveloper

fun message_role_str :: "message_role \<Rightarrow> string" where
  "message_role_str RoleSystem = ''system''"
| "message_role_str RoleUser = ''user''"
| "message_role_str RoleAssistant = ''assistant''"
| "message_role_str RoleTool = ''tool''"
| "message_role_str RoleSubAgent = ''subagent''"
| "message_role_str RoleDeveloper = ''developer''"

record message_entry =
  me_id :: uuid
  me_role :: message_role
  me_content :: string
  me_metadata :: json
  me_tokens :: nat
  me_created_at :: datetime

definition estimate_tokens :: "string \<Rightarrow> nat" where
  "estimate_tokens s = max (chars_count s div 4) 1"

definition message_new :: "uuid \<Rightarrow> datetime \<Rightarrow> message_role \<Rightarrow> string \<Rightarrow> message_entry" where
  "message_new uid now role content =
     \<lparr> me_id = uid, me_role = role, me_content = content, me_metadata = JObject [],
       me_tokens = estimate_tokens content, me_created_at = now \<rparr>"

record search_hit =
  sh_message_id :: uuid
  sh_role :: message_role
  sh_score :: nat
  sh_snippet :: string
  sh_created_at :: datetime

record history_stats =
  hs_message_count :: nat
  hs_total_tokens :: nat
  hs_oldest :: "datetime option"
  hs_newest :: "datetime option"

record history_store =
  hi_sessions :: "(uuid, message_entry list) hmap"
  hi_max_messages :: nat

definition history_new :: "nat \<Rightarrow> history_store" where
  "history_new n = \<lparr> hi_sessions = [], hi_max_messages = n \<rparr>"

definition history_default :: history_store where
  "history_default = history_new 300"

definition history_entries :: "uuid \<Rightarrow> history_store \<Rightarrow> message_entry list" where
  "history_entries sid h = (case hm_get (hi_sessions h) sid of Some es \<Rightarrow> es | None \<Rightarrow> [])"

definition history_len :: "uuid \<Rightarrow> history_store \<Rightarrow> nat" where
  "history_len sid h = (case hm_get (hi_sessions h) sid of Some es \<Rightarrow> length es | None \<Rightarrow> 0)"

definition history_total_tokens :: "uuid \<Rightarrow> history_store \<Rightarrow> nat" where
  "history_total_tokens sid h =
     (case hm_get (hi_sessions h) sid of Some es \<Rightarrow> sum_list (map me_tokens es) | None \<Rightarrow> 0)"

section \<open>Compaction\<close>

definition highlight_line :: "message_entry \<Rightarrow> string outcome" where
  "highlight_line msg =
     (let line = map (\<lambda>c. if c = CHR 0x0A then CHR '' '' else c) (me_content msg);
          out = (\<lambda>l. Returns (''- '' @ message_role_str (me_role msg) @ '': '' @ l))
      in if length line > 180
         then (if is_char_boundary line 180 then out (take 180 line @ utf8_ellipsis) else Panics)
         else out line)"

fun highlight_lines :: "message_entry list \<Rightarrow> string list outcome" where
  "highlight_lines [] = Returns []"
| "highlight_lines (m # ms) =
     (case highlight_line m of
        Panics \<Rightarrow> Panics
      | Returns l \<Rightarrow> (case highlight_lines ms of Panics \<Rightarrow> Panics | Returns ls \<Rightarrow> Returns (l # ls)))"

definition compaction_content :: "nat \<Rightarrow> nat \<Rightarrow> string list \<Rightarrow> string" where
  "compaction_content old_count old_tokens ls =
     ''Compacted '' @ show_nat old_count @ '' earlier messages ('' @ show_nat old_tokens @ '' estimated tokens).'' @
     [CHR 0x0A, CHR 0x0A] @ ''Recent highlights:'' @ [CHR 0x0A] @ str_join [CHR 0x0A] ls"

definition compaction_summary :: "uuid \<Rightarrow> datetime \<Rightarrow> message_entry list \<Rightarrow> message_entry outcome" where
  "compaction_summary uid now old =
     (let old_count = length old; old_tokens = sum_list (map me_tokens old)
      in case highlight_lines (drop (length old - 24) old) of
           Panics \<Rightarrow> Panics
         | Returns ls \<Rightarrow>
             Returns ((message_new uid now RoleSystem (compaction_content old_count old_tokens ls))
               \<lparr> me_metadata := JObject [(''compacted'', JBool True), (''compacted_count'', JNumber (int old_count)),
                                         (''compacted_tokens'', JNumber (int old_tokens))] \<rparr>))"

definition history_compact ::
  "uuid \<Rightarrow> datetime \<Rightarrow> uuid \<Rightarrow> nat \<Rightarrow> history_store \<Rightarrow> (message_entry option \<times> history_store) outcome" where
  "history_compact uid now sid keep_last h =
     (case hm_get (hi_sessions h) sid of
        None \<Rightarrow> Returns (None, h)
      | Some entries \<Rightarrow>
          if length entries \<le> keep_last \<or> keep_last = 0 then Returns (None, h)
          else let split = length entries - keep_last
               in case compaction_summary uid now (take split entries) of
                    Panics \<Rightarrow> Panics
                  | Returns summary \<Rightarrow>
                      Returns (Some summary, h\<lparr> hi_sessions := hm_insert sid (summary # drop split entries) (hi_sessions h) \<rparr>))"

definition compact_to_token_budget ::
  "uuid \<Rightarrow> datetime \<Rightarrow> uuid \<Rightarrow> nat \<Rightarrow> nat \<Rightarrow> history_store \<Rightarrow> (bool \<times> history_store) outcome" where
  "compact_to_token_budget uid now sid max_tokens keep_last_min h =
     (if history_total_tokens sid h \<le> max_tokens then Returns (False, h)
      else case history_compact uid now sid (max keep_last_min 1) h of
             Panics \<Rightarrow> Panics
           | Returns (r, h') \<Rightarrow> Returns (r \<noteq> None, h'))"

section \<open>Appending\<close>

text \<open>The identifier and the instant are those of the summary, should there be one.\<close>

definition append_entry :: "uuid \<Rightarrow> datetime \<Rightarrow> uuid \<Rightarrow> message_entry \<Rightarrow> history_store \<Rightarrow> history_store outcome" where
  "append_entry uid now sid entry h =
     (let h1 = h\<lparr> hi_sessions := hm_insert sid (history_entries sid h @ [entry]) (hi_sessions h) \<rparr>
      in if history_len sid h1 > hi_max_messages h1
         then (case history_compact uid now sid (hi_max_messages h1 div 2) h1 of
                 Panics \<Rightarrow> Panics | Returns (_, h2) \<Rightarrow> Returns h2)
         else Returns h1)"

definition append_message ::
  "uuid \<Rightarrow> datetime \<Rightarrow> uuid \<Rightarrow> datetime \<Rightarrow> uuid \<Rightarrow> message_role \<Rightarrow> string \<Rightarrow> json option \<Rightarrow> history_store \<Rightarrow>
   (message_entry \<times> history_store) outcome" where
  "append_message uid now uid' now' sid role content metadata h =
     (let entry = message_new uid now role content;
          entry' = (case metadata of Some m \<Rightarrow> entry\<lparr> me_metadata := m \<rparr> | None \<Rightarrow> entry)
      in case append_entry uid' now' sid entry' h of Panics \<Rightarrow> Panics | Returns h' \<Rightarrow> Returns (entry', h'))"

section \<open>Reading\<close>

text \<open>
  \<open>offset + limit\<close> is a sum of machine words: when it overflows, a checked build panics there
  and an unchecked one at the slice, whose end has wrapped below its start.
\<close>

definition get_paginated :: "uuid \<Rightarrow> nat \<Rightarrow> nat \<Rightarrow> history_store \<Rightarrow> message_entry list outcome" where
  "get_paginated sid offset limit h =
     (case hm_get (hi_sessions h) sid of
        None \<Rightarrow> Returns []
      | Some entries \<Rightarrow>
          if offset \<ge> length entries then Returns []
          else if offset + limit \<ge> 2 ^ 64 then Panics
          else Returns (drop offset (take (min (offset + limit) (length entries)) entries)))"

definition history_recent :: "uuid \<Rightarrow> nat \<Rightarrow> history_store \<Rightarrow> message_entry list" where
  "history_recent sid limit h =
     (case hm_get (hi_sessions h) sid of
        None \<Rightarrow> []
      | Some entries \<Rightarrow> if limit \<ge> length entries then entries else drop (length entries - limit) entries)"

text \<open>\<open>str::matches\<close> counts occurrences from left to right that do not overlap.\<close>

function matches_count :: "string \<Rightarrow> string \<Rightarrow> nat" where
  "matches_count term s =
     (if term = [] then chars_count s + 1
      else case str_find term s of
             None \<Rightarrow> 0
           | Some i \<Rightarrow> Suc (matches_count term (drop (i + length term) s)))"
  by pat_completeness auto
termination
proof (relation "measure (\<lambda>(term, s). length s)")
  fix "term" s :: string and i
  assume "term \<noteq> []" "str_find term s = Some i"
  then have "s \<noteq> []" by (cases s) auto
  with \<open>term \<noteq> []\<close> show "((term, drop (i + length term) s), term, s) \<in> measure (\<lambda>(term, s). length s)"
    by simp
qed simp

definition make_snippet :: "string \<Rightarrow> string \<Rightarrow> nat \<Rightarrow> string outcome" where
  "make_snippet txt needle_lc max_chars =
     (case str_find needle_lc (to_ascii_lowercase txt) of
        Some idx \<Rightarrow>
          let start = idx - max_chars div 4
          in str_slice txt start (min (start + max_chars) (length txt))
      | None \<Rightarrow> Returns (chars_take max_chars txt))"

definition search_score :: "string list \<Rightarrow> message_entry \<Rightarrow> nat" where
  "search_score terms msg =
     sum_list (map (\<lambda>t. matches_count t (to_ascii_lowercase (me_content msg))) terms)"

fun search_hits :: "string list \<Rightarrow> message_entry list \<Rightarrow> search_hit list outcome" where
  "search_hits terms [] = Returns []"
| "search_hits terms (msg # ms) =
     (let score = search_score terms msg
      in if score > 0
         then (case make_snippet (me_content msg) (hd terms) 160 of
                 Panics \<Rightarrow> Panics
               | Returns snippet \<Rightarrow>
                   (case search_hits terms ms of
                      Panics \<Rightarrow> Panics
                    | Returns hs \<Rightarrow>
                        Returns (\<lparr> sh_message_id = me_id msg, sh_role = me_role msg, sh_score = score,
                                   sh_snippet = snippet, sh_created_at = me_created_at msg \<rparr> # hs)))
         else search_hits terms ms)"

definition history_search :: "uuid \<Rightarrow> string \<Rightarrow> nat \<Rightarrow> history_store \<Rightarrow> search_hit list outcome" where
  "history_search sid query limit h =
     (case hm_get (hi_sessions h) sid of
        None \<Rightarrow> Returns []
      | Some entries \<Rightarrow>
          let terms = filter (\<lambda>s. s \<noteq> []) (map to_ascii_lowercase (split_whitespace query))
          in if terms = [] then Returns []
             else case search_hits terms entries of
                    Panics \<Rightarrow> Panics
                  | Returns hits \<Rightarrow> Returns (take limit (sort_key (\<lambda>hit. - int (sh_score hit)) hits)))"

definition export_markdown :: "(datetime \<Rightarrow> string) \<Rightarrow> uuid \<Rightarrow> history_store \<Rightarrow> string" where
  "export_markdown rfc3339 sid h =
     concat (map (\<lambda>msg. ''## ['' @ message_role_str (me_role msg) @ ''] '' @ rfc3339 (me_created_at msg) @
                     [CHR 0x0A, CHR 0x0A] @ me_content msg @ [CHR 0x0A, CHR 0x0A]) (history_entries sid h))"

definition history_clear :: "uuid \<Rightarrow> history_store \<Rightarrow> bool \<times> history_store" where
  "history_clear sid h = (hm_contains (hi_sessions h) sid, h\<lparr> hi_sessions := hm_remove sid (hi_sessions h) \<rparr>)"

definition history_stats_of :: "uuid \<Rightarrow> history_store \<Rightarrow> history_stats" where
  "history_stats_of sid h =
     (case hm_get (hi_sessions h) sid of
        None \<Rightarrow> \<lparr> hs_message_count = 0, hs_total_tokens = 0, hs_oldest = None, hs_newest = None \<rparr>
      | Some es \<Rightarrow>
          \<lparr> hs_message_count = length es, hs_total_tokens = sum_list (map me_tokens es),
            hs_oldest = (case es of [] \<Rightarrow> None | e # _ \<Rightarrow> Some (me_created_at e)),
            hs_newest = (if es = [] then None else Some (me_created_at (last es))) \<rparr>)"

definition history_session_count :: "history_store \<Rightarrow> nat" where
  "history_session_count h = length (hi_sessions h)"

section \<open>The window of a history\<close>

text \<open>Text whose first \<open>n\<close> bytes are ASCII can be cut before any of them.\<close>

definition ascii_prefix :: "nat \<Rightarrow> string \<Rightarrow> bool" where
  "ascii_prefix n s \<longleftrightarrow> list_all (\<lambda>c. (of_char c :: nat) < 128) (take n s)"

lemma ascii_prefix_append: "ascii_prefix n a \<Longrightarrow> ascii_prefix n b \<Longrightarrow> ascii_prefix n (a @ b)"
  using set_take_subset_set_take [of "n - length a" n b] by (auto simp: ascii_prefix_def list_all_iff)

lemma ascii_prefix_take: "ascii_prefix n s \<Longrightarrow> m \<le> n \<Longrightarrow> ascii_prefix n (take m s)"
  using set_take_subset_set_take [of m n s] by (auto simp: ascii_prefix_def list_all_iff min_def)

lemma ascii_prefix_boundary: "ascii_prefix (Suc n) s \<Longrightarrow> n \<le> length s \<Longrightarrow> is_char_boundary s n"
proof (cases "n = length s")
  case False
  assume a: "ascii_prefix (Suc n) s" "n \<le> length s"
  then have "take (Suc n) s = take n s @ [s ! n]" using False by (simp add: take_Suc_conv_app_nth)
  then show ?thesis using a False by (simp add: ascii_prefix_def is_char_boundary_def utf8_continuation_def Let_def)
qed (simp add: is_char_boundary_def)

lemma ascii_prefix_map:
  "ascii_prefix n s \<Longrightarrow> (\<And>c. (of_char c :: nat) < 128 \<Longrightarrow> (of_char (f c) :: nat) < 128) \<Longrightarrow> ascii_prefix n (map f s)"
  by (auto simp: ascii_prefix_def list_all_iff take_map)

lemma ascii_prefix_show [simp]: "ascii_prefix n (show_nat k)"
proof -
  have "(of_char c :: nat) < 128" if "c \<in> set (show_nat k)" for c
    using that set_show_nat [of k] by (auto simp del: show_nat.simps)
  then show ?thesis by (auto simp: ascii_prefix_def list_all_iff dest: in_set_takeD)
qed

lemma ascii_prefix_Nil [simp]: "ascii_prefix n []"
  by (simp add: ascii_prefix_def)

lemma ascii_prefix_Cons [simp]: "(of_char c :: nat) < 128 \<Longrightarrow> ascii_prefix n s \<Longrightarrow> ascii_prefix n (c # s)"
  using ascii_prefix_append [of n "[c]" s] by (cases n) (auto simp: ascii_prefix_def)

lemma ascii_prefix_join: "\<forall>l \<in> set ls. ascii_prefix n l \<Longrightarrow> ascii_prefix n (str_join [CHR 0x0A] ls)"
  by (induction "[CHR 0x0A]" ls rule: str_join.induct) (auto intro!: ascii_prefix_append)

lemma role_ascii [simp]: "ascii_prefix n (message_role_str r)"
  by (cases r) simp_all

lemma highlight_line_returns:
  assumes "ascii_prefix 181 (me_content msg)"
  obtains l where "highlight_line msg = Returns l" "ascii_prefix 181 l"
proof -
  let ?line = "map (\<lambda>c. if c = CHR 0x0A then CHR '' '' else c) (me_content msg)"
  have a: "ascii_prefix 181 ?line" by (rule ascii_prefix_map [OF assms]) auto
  have head: "ascii_prefix 181 (''- '' @ message_role_str (me_role msg) @ '': '' @ l)" if "ascii_prefix 181 l" for l
    using that by (intro ascii_prefix_append) simp_all
  show thesis
  proof (cases "length ?line > 180")
    case True
    have b: "is_char_boundary ?line 180" using a True by (intro ascii_prefix_boundary) simp_all
    let ?x = "''- '' @ message_role_str (me_role msg) @ '': '' @ take 180 ?line"
    have "181 \<le> length ?x" using True by simp
    then have t: "take 181 (?x @ utf8_ellipsis) = take 181 ?x" by (simp only: take_append diff_is_0_eq' take_0 append_Nil2)
    have "ascii_prefix 181 (take 180 ?line)" by (rule ascii_prefix_take [OF a]) simp
    then have "ascii_prefix 181 (?x @ utf8_ellipsis)"
      using head [of "take 180 ?line"] by (simp only: ascii_prefix_def t)
    then show thesis using True b by (intro that) (simp_all add: highlight_line_def Let_def)
  next
    case False
    then show thesis using head [OF a] by (intro that) (simp_all add: highlight_line_def Let_def)
  qed
qed

lemma highlight_lines_return:
  "\<forall>m \<in> set ms. ascii_prefix 181 (me_content m) \<Longrightarrow>
   \<exists>ls. highlight_lines ms = Returns ls \<and> (\<forall>l \<in> set ls. ascii_prefix 181 l)"
proof (induction ms)
  case (Cons m ms)
  then obtain l ls where "highlight_line m = Returns l" "ascii_prefix 181 l" "highlight_lines ms = Returns ls"
    "\<forall>l \<in> set ls. ascii_prefix 181 l" by (auto elim: highlight_line_returns)
  then show ?case by auto
qed simp

lemma compaction_summary_returns:
  assumes "\<forall>m \<in> set old. ascii_prefix 181 (me_content m)"
  obtains s where "compaction_summary uid now old = Returns s" "me_role s = RoleSystem" "ascii_prefix 181 (me_content s)"
proof -
  obtain ls where ls: "highlight_lines (drop (length old - 24) old) = Returns ls" "\<forall>l \<in> set ls. ascii_prefix 181 l"
    using highlight_lines_return [of "drop (length old - 24) old"] assms by (auto dest: in_set_dropD)
  have "ascii_prefix 181 (compaction_content k n ls)" for k n
    unfolding compaction_content_def by (intro ascii_prefix_append ascii_prefix_join ls(2)) simp_all
  then have "\<exists>s. compaction_summary uid now old = Returns s \<and> me_role s = RoleSystem \<and> ascii_prefix 181 (me_content s)"
    by (simp add: compaction_summary_def ls(1) message_new_def Let_def)
  then show thesis using that by blast
qed


text \<open>A compaction replaces everything but the newest messages by one summary.\<close>

lemma history_compact_returns:
  assumes "hm_get (hi_sessions h) sid = Some es" "\<forall>m \<in> set es. ascii_prefix 181 (me_content m)"
    and "0 < keep" "keep < length es"
  obtains s where
    "history_compact uid now sid keep h =
       Returns (Some s, h\<lparr> hi_sessions := hm_insert sid (s # drop (length es - keep) es) (hi_sessions h) \<rparr>)"
    "me_role s = RoleSystem" "ascii_prefix 181 (me_content s)"
proof -
  obtain s where s: "compaction_summary uid now (take (length es - keep) es) = Returns s" "me_role s = RoleSystem"
    "ascii_prefix 181 (me_content s)"
    by (rule compaction_summary_returns [of "take (length es - keep) es" uid now]) (use assms(2) in \<open>auto dest: in_set_takeD\<close>)
  show thesis by (rule that [OF _ s(2,3)]) (use assms(1,3,4) s(1) in \<open>simp add: history_compact_def Let_def\<close>)
qed

text \<open>The history of a log of at most \<open>n\<close> messages is the log, or a summary and its newest messages.\<close>

definition window_of :: "nat \<Rightarrow> message_entry list \<Rightarrow> message_entry list \<Rightarrow> bool" where
  "window_of n msgs es \<longleftrightarrow>
     length es \<le> n \<and>
     (es = msgs \<or>
      (\<exists>s k. es = s # drop k msgs \<and> k \<le> length msgs \<and> n div 2 \<le> length msgs - k \<and>
         me_role s = RoleSystem \<and> ascii_prefix 181 (me_content s)))"

fun append_all ::
  "(nat \<Rightarrow> uuid \<times> datetime) \<Rightarrow> nat \<Rightarrow> uuid \<Rightarrow> message_entry list \<Rightarrow> history_store \<Rightarrow> history_store outcome" where
  "append_all ids k sid [] h = Returns h"
| "append_all ids k sid (m # ms) h =
     (case append_entry (fst (ids k)) (snd (ids k)) sid m h of
        Panics \<Rightarrow> Panics
      | Returns h' \<Rightarrow> append_all ids (Suc k) sid ms h')"

lemma window_ascii:
  "window_of n msgs es \<Longrightarrow> \<forall>m \<in> set msgs. ascii_prefix 181 (me_content m) \<Longrightarrow> \<forall>m \<in> set es. ascii_prefix 181 (me_content m)"
  by (auto simp: window_of_def) (metis in_set_dropD)

lemma window_grow:
  assumes "window_of n msgs es" "length es < n"
  shows "window_of n (msgs @ [m]) (es @ [m])"
proof (cases "es = msgs")
  case False
  then obtain s k where s: "es = s # drop k msgs" "k \<le> length msgs" "n div 2 \<le> length msgs - k"
    "me_role s = RoleSystem" "ascii_prefix 181 (me_content s)"
    using assms(1) by (auto simp: window_of_def)
  then have "es @ [m] = s # drop k (msgs @ [m])" "k \<le> length (msgs @ [m])" "n div 2 \<le> length (msgs @ [m]) - k"
    by simp_all
  then show ?thesis using s(4,5) assms(2) unfolding window_of_def by (metis Suc_leI length_append_singleton)
qed (use assms in \<open>simp add: window_of_def\<close>)

lemma window_slide:
  assumes w: "window_of n msgs es" and n: "2 \<le> n" "\<not> length es < n"
    and s: "me_role s = RoleSystem" "ascii_prefix 181 (me_content s)"
  shows "window_of n (msgs @ [m]) (s # drop (length (es @ [m]) - n div 2) (es @ [m]))"
proof -
  have len: "length es = n" using w n(2) by (simp add: window_of_def)
  have "\<exists>k \<le> length (msgs @ [m]). drop (length (es @ [m]) - n div 2) (es @ [m]) = drop k (msgs @ [m]) \<and>
      n div 2 \<le> length (msgs @ [m]) - k"
  proof (cases "es = msgs")
    case True
    then show ?thesis using len by (intro exI [of _ "Suc n - n div 2"]) auto
  next
    case False
    then obtain r k where r: "es = r # drop k msgs" "k \<le> length msgs" using w by (auto simp: window_of_def)
    then have c: "n = Suc (length msgs - k)" using len by simp
    have "drop (length (es @ [m]) - n div 2) (es @ [m]) = drop (k + (n - n div 2)) (msgs @ [m])"
      using r c n(1) by (simp add: Suc_diff_le add.commute)
    then show ?thesis using r(2) c n(1) by (intro exI [of _ "k + (n - n div 2)"]) auto
  qed
  then obtain k where "k \<le> length (msgs @ [m])" "drop (length (es @ [m]) - n div 2) (es @ [m]) = drop k (msgs @ [m])"
      "n div 2 \<le> length (msgs @ [m]) - k" by blast
  moreover have "length (s # drop (length (es @ [m]) - n div 2) (es @ [m])) \<le> n" using len n(1) by simp
  ultimately show ?thesis unfolding window_of_def using s by metis
qed

lemma append_entry_window:
  assumes w: "window_of (hi_max_messages h) msgs (history_entries sid h)" and n: "2 \<le> hi_max_messages h"
    and a: "\<forall>m \<in> set (msgs @ [m]). ascii_prefix 181 (me_content m)"
  obtains h' where "append_entry uid now sid m h = Returns h'" "hi_max_messages h' = hi_max_messages h"
    "window_of (hi_max_messages h) (msgs @ [m]) (history_entries sid h')"
proof -
  let ?es = "history_entries sid h @ [m]"
  let ?h = "h\<lparr> hi_sessions := hm_insert sid ?es (hi_sessions h) \<rparr>"
  show thesis
  proof (cases "length (history_entries sid h) < hi_max_messages h")
    case True
    then show thesis using window_grow [OF w True, of m]
      by (intro that [of ?h]) (simp_all add: append_entry_def history_len_def history_entries_def)
  next
    case False
    have es: "hm_get (hi_sessions ?h) sid = Some ?es" by simp
    have asc: "\<forall>m \<in> set ?es. ascii_prefix 181 (me_content m)" using window_ascii [OF w] a by auto
    have "0 < hi_max_messages h div 2" "hi_max_messages h div 2 < length ?es" using n False by simp_all
    then obtain s where s: "history_compact uid now sid (hi_max_messages h div 2) ?h =
        Returns (Some s, ?h\<lparr> hi_sessions := hm_insert sid (s # drop (length ?es - hi_max_messages h div 2) ?es) (hi_sessions ?h) \<rparr>)"
        "me_role s = RoleSystem" "ascii_prefix 181 (me_content s)"
      by (rule history_compact_returns [OF es asc])
    have "append_entry uid now sid m h =
        Returns (?h\<lparr> hi_sessions := hm_insert sid (s # drop (length ?es - hi_max_messages h div 2) ?es) (hi_sessions ?h) \<rparr>)"
      using False s(1) by (simp add: append_entry_def history_len_def)
    then show thesis
      by (rule that) (use window_slide [OF w n False s(2,3), of m] in \<open>simp_all add: history_entries_def\<close>)
  qed
qed

lemma append_all_window:
  assumes "window_of (hi_max_messages h) msgs (history_entries sid h)" "2 \<le> hi_max_messages h"
    and "\<forall>m \<in> set (msgs @ ms). ascii_prefix 181 (me_content m)"
  shows "\<exists>h'. append_all ids k sid ms h = Returns h' \<and> window_of (hi_max_messages h) (msgs @ ms) (history_entries sid h')"
  using assms
proof (induction ms arbitrary: k h msgs)
  case (Cons m ms)
  from Cons.prems(3) have a: "\<forall>x \<in> set (msgs @ [m]). ascii_prefix 181 (me_content x)" by simp
  obtain h' where h': "append_entry (fst (ids k)) (snd (ids k)) sid m h = Returns h'"
    "hi_max_messages h' = hi_max_messages h" "window_of (hi_max_messages h) (msgs @ [m]) (history_entries sid h')"
    by (rule append_entry_window [OF Cons.prems(1,2) a])
  then show ?case using Cons.IH [of h' "msgs @ [m]" "Suc k"] Cons.prems by simp
qed simp

text \<open>
  C33: Appending to a history with a limit \<open>n\<close> of two messages or more never exceeds the limit
  and never loses a recent message: what is stored is the whole log, or one summary followed
  by the newest messages of the log, at least \<open>n / 2\<close> of them, unchanged and in order. No
  append panics as long as the first 181 bytes of every message are ASCII.
\<close>

theorem history_window:
  assumes "2 \<le> n" "\<forall>m \<in> set msgs. ascii_prefix 181 (me_content m)"
  shows "\<exists>h. append_all ids 0 sid msgs (history_new n) = Returns h \<and> history_len sid h \<le> n \<and>
    (history_entries sid h = msgs \<or>
     (\<exists>s k. history_entries sid h = s # drop k msgs \<and> k \<le> length msgs \<and> n div 2 \<le> length msgs - k \<and>
        me_role s = RoleSystem))"
proof -
  have "window_of n [] (history_entries sid (history_new n))"
    by (simp add: window_of_def history_entries_def history_new_def)
  then obtain h where h: "append_all ids 0 sid msgs (history_new n) = Returns h" "window_of n msgs (history_entries sid h)"
    using append_all_window [of "history_new n" "[]" sid msgs ids 0] assms by (auto simp: history_new_def)
  have "history_len sid h = length (history_entries sid h)"
    by (simp add: history_len_def history_entries_def split: option.split)
  then show ?thesis using h unfolding window_of_def by auto
qed


theorem history_window_witness:
  "\<exists>h. append_all (\<lambda>k. (of_nat k, 0)) 0 1 (replicate 3 (message_new 7 0 RoleUser ''hello'')) (history_new 2) = Returns h \<and>
     history_len 1 h \<le> 2"
proof -
  have a: "\<forall>m \<in> set (replicate 3 (message_new 7 0 RoleUser ''hello'')). ascii_prefix 181 (me_content m)"
    by (simp add: message_new_def)
  have "(2::nat) \<le> 2" by simp
  from history_window [OF this a, of "\<lambda>k. (of_nat k, 0)" 1] show ?thesis by blast
qed

text \<open>With a limit below two the history is never compacted: it keeps every message.\<close>

lemma tiny_limit_grows:
  assumes "n < 2"
  shows "\<exists>h. append_all ids 0 sid msgs (history_new n) = Returns h \<and> history_entries sid h = msgs"
proof -
  have "\<exists>h'. append_all ids k sid ms h = Returns h' \<and> history_entries sid h' = history_entries sid h @ ms"
    if "hi_max_messages h = n" for k ms h
    using that
  proof (induction ms arbitrary: k h)
    case (Cons m ms)
    have d: "hi_max_messages h div 2 = 0" using assms Cons.prems by simp
    let ?h = "h\<lparr> hi_sessions := hm_insert sid (history_entries sid h @ [m]) (hi_sessions h) \<rparr>"
    have "append_entry (fst (ids k)) (snd (ids k)) sid m h = Returns ?h"
      using d by (simp add: append_entry_def history_compact_def Let_def)
    then show ?case using Cons.IH [of ?h "Suc k"] Cons.prems by (simp add: history_entries_def)
  qed simp
  from this [of "history_new n" 0 msgs] show ?thesis by (simp add: history_new_def history_entries_def)
qed

text \<open>A character across byte 180 of a message that is compacted away makes the append panic.\<close>

lemma split_character_panics:
  assumes "length (me_content m) > 180" "utf8_continuation (me_content m ! 180)" "CHR 0x0A \<notin> set (me_content m)"
  shows "highlight_line m = Panics" "compaction_summary uid now [m] = Panics"
proof -
  have "map (\<lambda>c. if c = CHR 0x0A then CHR '' '' else c) (me_content m) = me_content m"
    using assms(3) by (intro map_idI) auto
  then show "highlight_line m = Panics" using assms(1,2) by (simp add: highlight_line_def is_char_boundary_def Let_def)
  then show "compaction_summary uid now [m] = Panics" by (simp add: compaction_summary_def Let_def)
qed

text \<open>Reading back.\<close>

lemma history_recent_entries:
  "history_recent sid limit h = drop (length (history_entries sid h) - limit) (history_entries sid h)"
  by (simp add: history_recent_def history_entries_def split: option.split)

lemma get_paginated_exact:
  assumes "offset + limit < 2 ^ 64"
  shows "get_paginated sid offset limit h = Returns (take limit (drop offset (history_entries sid h)))"
  using assms by (auto simp: get_paginated_def history_entries_def min_def take_drop add.commute split: option.split)

lemma get_paginated_rest_panics:
  "0 < offset \<Longrightarrow> offset < history_len sid h \<Longrightarrow> get_paginated sid offset (2 ^ 64 - 1) h = Panics"
  by (auto simp: get_paginated_def history_len_def split: option.splits)

end
