(* ===== verification/Session_Context.thy ===== *)
theory Session_Context
  imports Session_History
begin

text \<open>
  The context window of a session: \<^verbatim>\<open>crates/ff-sessions/src/context.rs\<close>, over the histories of
  \<^verbatim>\<open>history.rs\<close>.

  Ratios and the \<open>f32\<close> arithmetic of the target are exact rationals. Token counts are natural
  numbers; the two saturating sums stop at the largest \<open>usize\<close>.
\<close>

section \<open>Budgets\<close>

record context_budget =
  cx_max_tokens :: nat
  cx_reserve_for_output :: nat
  cx_compaction_threshold :: rat
  cx_min_messages :: nat

definition context_budget_default :: context_budget where
  "context_budget_default =
     \<lparr> cx_max_tokens = 128000, cx_reserve_for_output = 4096, cx_compaction_threshold = 8 / 10, cx_min_messages = 24 \<rparr>"

definition max_input_tokens :: "context_budget \<Rightarrow> nat" where
  "max_input_tokens b = cx_max_tokens b - cx_reserve_for_output b"

record context_stats =
  cs_used_tokens :: nat
  cs_available_tokens :: nat
  cs_usage_ratio :: rat
  cs_message_count :: nat
  cs_compaction_count :: u64
  cs_last_compacted_at :: "datetime option"

record context_state =
  ct_budget :: context_budget
  ct_used_tokens :: nat
  ct_compaction_count :: u64
  ct_last_compacted_at :: "datetime option"
  ct_system_prompts :: "string list"

definition context_state_new :: "context_budget \<Rightarrow> context_state" where
  "context_state_new b =
     \<lparr> ct_budget = b, ct_used_tokens = 0, ct_compaction_count = 0, ct_last_compacted_at = None, ct_system_prompts = [] \<rparr>"

definition usage_ratio :: "context_state \<Rightarrow> rat" where
  "usage_ratio s =
     (let cap = of_nat (max_input_tokens (ct_budget s)) :: rat
      in if cap \<le> 0 then 1 else max 0 (min 1 (of_nat (ct_used_tokens s) / cap)))"

definition state_should_compact :: "context_state \<Rightarrow> bool" where
  "state_should_compact s \<longleftrightarrow> cx_compaction_threshold (ct_budget s) \<le> usage_ratio s"

section \<open>The manager\<close>

record context_manager =
  cm_sessions :: "(uuid, context_state) hmap"
  cm_default_budget :: context_budget

definition context_manager_new :: "context_budget \<Rightarrow> context_manager" where
  "context_manager_new b = \<lparr> cm_sessions = [], cm_default_budget = b \<rparr>"

definition context_manager_default :: context_manager where
  "context_manager_default = context_manager_new context_budget_default"

text \<open>The state of \<open>entry(id).or_insert_with(..)\<close>, and the manager after writing it back.\<close>

definition context_entry :: "uuid \<Rightarrow> context_manager \<Rightarrow> context_state" where
  "context_entry sid mgr =
     (case hm_get (cm_sessions mgr) sid of Some s \<Rightarrow> s | None \<Rightarrow> context_state_new (cm_default_budget mgr))"

definition context_put :: "uuid \<Rightarrow> context_state \<Rightarrow> context_manager \<Rightarrow> context_manager" where
  "context_put sid s mgr = mgr\<lparr> cm_sessions := hm_insert sid s (cm_sessions mgr) \<rparr>"

definition register_session :: "uuid \<Rightarrow> context_budget option \<Rightarrow> context_manager \<Rightarrow> context_manager" where
  "register_session sid b mgr =
     context_put sid (context_state_new (case b of Some b \<Rightarrow> b | None \<Rightarrow> cm_default_budget mgr)) mgr"

definition remove_session_context :: "uuid \<Rightarrow> context_manager \<Rightarrow> bool \<times> context_manager" where
  "remove_session_context sid mgr =
     (hm_contains (cm_sessions mgr) sid, mgr\<lparr> cm_sessions := hm_remove sid (cm_sessions mgr) \<rparr>)"

definition set_context_budget :: "uuid \<Rightarrow> context_budget \<Rightarrow> context_manager \<Rightarrow> context_manager" where
  "set_context_budget sid b mgr = context_put sid ((context_entry sid mgr)\<lparr> ct_budget := b \<rparr>) mgr"

definition context_budget_of :: "uuid \<Rightarrow> context_manager \<Rightarrow> context_budget" where
  "context_budget_of sid mgr =
     (case hm_get (cm_sessions mgr) sid of Some s \<Rightarrow> ct_budget s | None \<Rightarrow> cm_default_budget mgr)"

definition inject_system_prompt :: "uuid \<Rightarrow> string \<Rightarrow> context_manager \<Rightarrow> context_manager" where
  "inject_system_prompt sid prompt mgr =
     (let s = context_entry sid mgr in context_put sid (s\<lparr> ct_system_prompts := ct_system_prompts s @ [prompt] \<rparr>) mgr)"

definition set_system_prompts :: "uuid \<Rightarrow> string list \<Rightarrow> context_manager \<Rightarrow> context_manager" where
  "set_system_prompts sid prompts mgr = context_put sid ((context_entry sid mgr)\<lparr> ct_system_prompts := prompts \<rparr>) mgr"

definition clear_system_prompts :: "uuid \<Rightarrow> context_manager \<Rightarrow> context_manager" where
  "clear_system_prompts sid mgr =
     mgr\<lparr> cm_sessions := hm_modify sid (\<lambda>s. s\<lparr> ct_system_prompts := [] \<rparr>) (cm_sessions mgr) \<rparr>"

definition system_prompts :: "uuid \<Rightarrow> context_manager \<Rightarrow> string list" where
  "system_prompts sid mgr = (case hm_get (cm_sessions mgr) sid of Some s \<Rightarrow> ct_system_prompts s | None \<Rightarrow> [])"

definition sync_from_history :: "uuid \<Rightarrow> history_store \<Rightarrow> context_manager \<Rightarrow> context_manager" where
  "sync_from_history sid h mgr =
     context_put sid ((context_entry sid mgr)\<lparr> ct_used_tokens := history_total_tokens sid h \<rparr>) mgr"

definition usize_saturating_add :: "nat \<Rightarrow> nat \<Rightarrow> nat" where
  "usize_saturating_add a b = min (a + b) (2 ^ 64 - 1)"

definition record_tokens :: "uuid \<Rightarrow> nat \<Rightarrow> context_manager \<Rightarrow> context_manager" where
  "record_tokens sid tokens mgr =
     (let s = context_entry sid mgr
      in context_put sid (s\<lparr> ct_used_tokens := usize_saturating_add (ct_used_tokens s) tokens \<rparr>) mgr)"

definition should_compact :: "uuid \<Rightarrow> context_manager \<Rightarrow> bool" where
  "should_compact sid mgr =
     (case hm_get (cm_sessions mgr) sid of Some s \<Rightarrow> state_should_compact s | None \<Rightarrow> False)"

text \<open>\<open>f32::round\<close> of a value that is not negative.\<close>

definition compaction_target :: "context_budget \<Rightarrow> nat" where
  "compaction_target b = nat \<lfloor>(of_nat (max_input_tokens b) :: rat) * (55 / 100) + 1 / 2\<rfloor>"

definition compact_if_needed ::
  "uuid \<Rightarrow> datetime \<Rightarrow> datetime \<Rightarrow> uuid \<Rightarrow> history_store \<Rightarrow> context_manager \<Rightarrow>
   (bool \<times> context_manager \<times> history_store) outcome" where
  "compact_if_needed uid now now' sid h mgr =
     (let mgr1 = sync_from_history sid h mgr
      in if \<not> should_compact sid mgr1 then Returns (False, mgr1, h)
         else let s = context_entry sid mgr1
              in case compact_to_token_budget uid now sid (compaction_target (ct_budget s)) (cx_min_messages (ct_budget s)) h of
                   Panics \<Rightarrow> Panics
                 | Returns (compacted, h') \<Rightarrow>
                     Returns (compacted,
                       if compacted
                       then context_put sid (s\<lparr> ct_used_tokens := history_total_tokens sid h',
                              ct_compaction_count := ct_compaction_count s + 1, ct_last_compacted_at := Some now' \<rparr>) mgr1
                       else context_put sid s mgr1, h'))"

section \<open>Building a context\<close>




definition context_stats_of :: "uuid \<Rightarrow> history_store \<Rightarrow> context_manager \<Rightarrow> context_stats" where
  "context_stats_of sid h mgr =
     (let used = history_total_tokens sid h;
          s = context_entry sid mgr;
          cap = max_input_tokens (ct_budget s)
      in \<lparr> cs_used_tokens = used, cs_available_tokens = cap - used,
           cs_usage_ratio = (if cap = 0 then 1 else max 0 (min 1 (of_nat used / of_nat cap))),
           cs_message_count = history_len sid h, cs_compaction_count = ct_compaction_count s,
           cs_last_compacted_at = ct_last_compacted_at s \<rparr>)"

definition context_manager_len :: "context_manager \<Rightarrow> nat" where
  "context_manager_len mgr = length (cm_sessions mgr)"

section \<open>What fits\<close>

lemma context_put_entry [simp]: "context_entry sid (context_put sid s mgr) = s"
  by (simp add: context_entry_def context_put_def)

lemma sync_entry:
  "context_entry sid (sync_from_history sid h mgr) = (context_entry sid mgr)\<lparr> ct_used_tokens := history_total_tokens sid h \<rparr>"
  by (simp add: sync_from_history_def)





definition chatty_manager :: context_manager where
  "chatty_manager = context_manager_new
     \<lparr> cx_max_tokens = 4, cx_reserve_for_output = 2, cx_compaction_threshold = 1 / 2, cx_min_messages = 1 \<rparr>"

definition chatty_history :: history_store where
  "chatty_history = \<lparr> hi_sessions = [(1, [message_new 2 0 RoleUser ''hello'', message_new 3 0 RoleUser ''again''])], hi_max_messages = 9 \<rparr>"

lemma chatty_facts:
  "history_entries 1 chatty_history = [message_new 2 0 RoleUser ''hello'', message_new 3 0 RoleUser ''again'']"
  "history_len 1 chatty_history = 2" "history_total_tokens 1 chatty_history = 2"
  "ct_budget (context_entry 1 chatty_manager) =
     \<lparr> cx_max_tokens = 4, cx_reserve_for_output = 2, cx_compaction_threshold = 1 / 2, cx_min_messages = 1 \<rparr>"
  "ct_system_prompts (context_entry 1 chatty_manager) = []"
  by (simp_all add: history_entries_def history_len_def history_total_tokens_def chatty_history_def hm_get_def
      message_new_def estimate_tokens_def chars_count_def utf8_continuation_def
      chatty_manager_def context_manager_new_def context_entry_def context_state_new_def)


section \<open>When a context is compacted\<close>

text \<open>The three tests of \<open>compact_if_needed\<close>: the threshold, the target, and something old enough to drop.\<close>

definition compaction_due :: "uuid \<Rightarrow> history_store \<Rightarrow> context_manager \<Rightarrow> bool" where
  "compaction_due sid h mgr \<longleftrightarrow>
     (let s = (context_entry sid mgr)\<lparr> ct_used_tokens := history_total_tokens sid h \<rparr>
      in state_should_compact s \<and> compaction_target (ct_budget s) < history_total_tokens sid h \<and>
         max (cx_min_messages (ct_budget s)) 1 < history_len sid h)"

lemma should_compact_synced:
  "should_compact sid (sync_from_history sid h mgr) \<longleftrightarrow>
   state_should_compact ((context_entry sid mgr)\<lparr> ct_used_tokens := history_total_tokens sid h \<rparr>)"
  by (simp add: should_compact_def sync_from_history_def context_put_def)

lemma compact_if_needed_idle:
  assumes "\<not> compaction_due sid h mgr"
  shows "\<exists>mgr'. compact_if_needed uid now now' sid h mgr = Returns (False, mgr', h) \<and>
    context_entry sid mgr' = (context_entry sid mgr)\<lparr> ct_used_tokens := history_total_tokens sid h \<rparr>"
proof -
  have "history_compact uid now sid (max k 1) h = Returns (None, h)" if "history_len sid h \<le> max k 1" for k
    using that by (auto simp: history_compact_def history_len_def split: option.split)
  then show ?thesis
    using assms by (auto simp: compact_if_needed_def compaction_due_def should_compact_synced sync_entry
        compact_to_token_budget_def Let_def not_less)
qed

text \<open>
  With messages that start in ASCII a session is compacted exactly when it is due: its
  share of the budget has reached the threshold, its tokens exceed the target, and it has
  more messages than must be kept. Then the history becomes a summary and the newest
  messages, and the tokens and the count of compactions are updated; otherwise nothing is
  dropped.
\<close>

theorem compact_if_needed_exact:
  assumes "\<forall>m \<in> set (history_entries sid h). ascii_prefix 181 (me_content m)"
  shows "\<exists>mgr' h'. compact_if_needed uid now now' sid h mgr = Returns (compaction_due sid h mgr, mgr', h') \<and>
    ct_used_tokens (context_entry sid mgr') = history_total_tokens sid h' \<and>
    (if compaction_due sid h mgr
     then (\<exists>s. history_entries sid h' =
             s # drop (history_len sid h - max (cx_min_messages (ct_budget (context_entry sid mgr))) 1) (history_entries sid h) \<and>
             me_role s = RoleSystem) \<and>
          ct_compaction_count (context_entry sid mgr') = ct_compaction_count (context_entry sid mgr) + 1
     else h' = h \<and> ct_compaction_count (context_entry sid mgr') = ct_compaction_count (context_entry sid mgr))"
proof (cases "compaction_due sid h mgr")
  case False
  obtain mgr' where "compact_if_needed uid now now' sid h mgr = Returns (False, mgr', h)"
    "context_entry sid mgr' = (context_entry sid mgr)\<lparr> ct_used_tokens := history_total_tokens sid h \<rparr>"
    using compact_if_needed_idle [OF False] by blast
  then show ?thesis using False by (intro exI [of _ mgr'] exI [of _ h]) simp
next
  case True
  let ?b = "ct_budget (context_entry sid mgr)"
  let ?keep = "max (cx_min_messages ?b) 1"
  note due = True [unfolded compaction_due_def Let_def, simplified]
  obtain es where es: "hm_get (hi_sessions h) sid = Some es"
    using due by (auto simp: history_len_def split: option.splits)
  have a: "\<forall>m \<in> set es. ascii_prefix 181 (me_content m)" using assms es by (simp add: history_entries_def)
  have len: "0 < ?keep" "?keep < length es" using due es by (simp_all add: history_len_def)
  obtain s where s: "history_compact uid now sid ?keep h =
      Returns (Some s, h\<lparr> hi_sessions := hm_insert sid (s # drop (length es - ?keep) es) (hi_sessions h) \<rparr>)"
      "me_role s = RoleSystem"
    by (rule history_compact_returns [OF es a len, where uid = uid and now = now])
  have b: "compact_to_token_budget uid now sid (compaction_target ?b) (cx_min_messages ?b) h =
      Returns (True, h\<lparr> hi_sessions := hm_insert sid (s # drop (length es - ?keep) es) (hi_sessions h) \<rparr>)"
    using due s(1) by (simp add: compact_to_token_budget_def)
  show ?thesis
    using True due b s(2) es
    by (simp add: compact_if_needed_def should_compact_synced sync_entry Let_def history_entries_def history_len_def)
qed

theorem compact_if_needed_exact_witness:
  "\<exists>mgr' h'. compact_if_needed 7 0 0 1 chatty_history chatty_manager = Returns (True, mgr', h') \<and>
     (\<exists>s. history_entries 1 h' = [s, message_new 3 0 RoleUser ''again''])"
proof -
  have a: "\<forall>m \<in> set (history_entries 1 chatty_history). ascii_prefix 181 (me_content m)"
    by (simp add: chatty_facts message_new_def)
  have "\<lfloor>8 / 5 :: rat\<rfloor> = 1" by (rule floor_unique) simp_all
  then have due: "compaction_due 1 chatty_history chatty_manager"
    by (simp add: compaction_due_def chatty_facts state_should_compact_def usage_ratio_def max_input_tokens_def compaction_target_def Let_def)
  from compact_if_needed_exact [OF a, of 7 0 0 chatty_manager] show ?thesis
    by (auto simp: due chatty_facts)
qed

text \<open>
  One pass is made, not one after the other until the target is met: when the messages that
  are kept exceed the budget, compaction reports success and the total still exceeds it.
\<close>

lemma compaction_can_miss_budget:
  assumes "hm_get (hi_sessions h) sid = Some es" "\<forall>m \<in> set es. ascii_prefix 181 (me_content m)" "max keep 1 < length es"
    and "max_tokens < sum_list (map me_tokens (drop (length es - max keep 1) es))"
  shows "\<exists>h'. compact_to_token_budget uid now sid max_tokens keep h = Returns (True, h') \<and> max_tokens < history_total_tokens sid h'"
proof -
  have pos: "0 < max keep 1" by simp
  obtain s where s: "history_compact uid now sid (max keep 1) h =
      Returns (Some s, h\<lparr> hi_sessions := hm_insert sid (s # drop (length es - max keep 1) es) (hi_sessions h) \<rparr>)"
    by (rule history_compact_returns [OF assms(1,2) pos assms(3), where uid = uid and now = now])
  have "sum_list (map me_tokens es) =
      sum_list (map me_tokens (take (length es - max keep 1) es)) + sum_list (map me_tokens (drop (length es - max keep 1) es))"
    by (metis append_take_drop_id map_append sum_list_append)
  then have "max_tokens < history_total_tokens sid h"
    using assms(1,4) by (simp add: history_total_tokens_def)
  then show ?thesis using s assms(4) by (simp add: compact_to_token_budget_def history_total_tokens_def)
qed

end
