(* ===== verification/Workspace_Scope.thy ===== *)
theory Workspace_Scope
  imports Fleet_Text
begin

text \<open>
  Workspaces of sessions and the confinement of their paths: \<^verbatim>\<open>crates/ff-sessions/src/workspace.rs\<close>.

  A path is the list of its components on Unix. The file system is an argument: what
  \<^verbatim>\<open>canonicalize\<close>, \<^verbatim>\<open>exists\<close> and \<^verbatim>\<open>is_dir\<close> answer. The key of a workspace is its path
  itself, its names being UTF-8.
\<close>

section \<open>Paths\<close>

datatype path_component = RootDir | CurDir | ParentDir | Normal string

type_synonym path = "path_component list"

definition path_is_absolute :: "path \<Rightarrow> bool" where
  "path_is_absolute p \<longleftrightarrow> (case p of RootDir # _ \<Rightarrow> True | _ \<Rightarrow> False)"

text \<open>Components of a joined path: \<open>.\<close> is only kept at the start of a path.\<close>

definition path_join :: "path \<Rightarrow> path \<Rightarrow> path" where
  "path_join p q = (if path_is_absolute q then q else if p = [] then q else p @ filter (\<lambda>c. c \<noteq> CurDir) q)"

definition path_pop :: "path \<Rightarrow> path" where
  "path_pop p = (if p = [] \<or> last p = RootDir then p else butlast p)"

fun component_str :: "path_component \<Rightarrow> string" where
  "component_str RootDir = []"
| "component_str CurDir = ''.''"
| "component_str ParentDir = ''..''"
| "component_str (Normal s) = s"

definition path_display :: "path \<Rightarrow> string" where
  "path_display p = (if p = [RootDir] then ''/'' else str_join ''/'' (map component_str p))"

record file_system =
  fs_canonicalize :: "path \<Rightarrow> path option"
  fs_exists :: "path \<Rightarrow> bool"
  fs_is_dir :: "path \<Rightarrow> bool"

fun normalize_step :: "path_component \<Rightarrow> path \<Rightarrow> path" where
  "normalize_step CurDir out = out"
| "normalize_step ParentDir out = path_pop out"
| "normalize_step RootDir out = [RootDir]"
| "normalize_step (Normal s) out = out @ [Normal s]"

definition normalize_workspace_path :: "file_system \<Rightarrow> path \<Rightarrow> path" where
  "normalize_workspace_path fs p =
     (case fs_canonicalize fs p of
        Some canon \<Rightarrow> canon
      | None \<Rightarrow> let out = fold normalize_step p [] in if out = [] then [CurDir] else out)"

section \<open>Workspaces\<close>

record workspace_config =
  wc_root :: path
  wc_name :: "string option"
  wc_read_only :: bool
  wc_metadata :: json

definition workspace_config_new :: "path \<Rightarrow> workspace_config" where
  "workspace_config_new base = \<lparr> wc_root = base, wc_name = None, wc_read_only = False, wc_metadata = JObject [] \<rparr>"

definition normalized_root :: "file_system \<Rightarrow> workspace_config \<Rightarrow> path" where
  "normalized_root fs c = normalize_workspace_path fs (wc_root c)"

record workspace_binding =
  wb_config :: workspace_config
  wb_bound_at :: datetime

record workspace_manager =
  wm_session_workspaces :: "(uuid, workspace_binding) hmap"
  wm_workspace_sessions :: "(path, uuid list) hmap"

definition workspace_manager_new :: workspace_manager where
  "workspace_manager_new = \<lparr> wm_session_workspaces = [], wm_workspace_sessions = [] \<rparr>"

definition workspace_key :: "file_system \<Rightarrow> path \<Rightarrow> path" where
  "workspace_key fs p = normalize_workspace_path fs p"

definition remove_session_from_workspace_index :: "path \<Rightarrow> uuid \<Rightarrow> workspace_manager \<Rightarrow> workspace_manager" where
  "remove_session_from_workspace_index key sid mgr =
     (case hm_get (wm_workspace_sessions mgr) key of
        None \<Rightarrow> mgr
      | Some sessions \<Rightarrow>
          let rest = filter (\<lambda>u. u \<noteq> sid) sessions
          in mgr\<lparr> wm_workspace_sessions :=
                   (if rest = [] then hm_remove key (wm_workspace_sessions mgr)
                    else hm_insert key rest (wm_workspace_sessions mgr)) \<rparr>)"

definition workspace_unbind :: "file_system \<Rightarrow> uuid \<Rightarrow> workspace_manager \<Rightarrow> bool \<times> workspace_manager" where
  "workspace_unbind fs sid mgr =
     (case hm_get (wm_session_workspaces mgr) sid of
        None \<Rightarrow> (False, mgr)
      | Some b \<Rightarrow>
          (True, remove_session_from_workspace_index (workspace_key fs (wc_root (wb_config b))) sid
             (mgr\<lparr> wm_session_workspaces := hm_remove sid (wm_session_workspaces mgr) \<rparr>)))"

definition workspace_bind ::
  "file_system \<Rightarrow> datetime \<Rightarrow> uuid \<Rightarrow> workspace_config \<Rightarrow> workspace_manager \<Rightarrow>
   (workspace_config, string) result \<times> workspace_manager" where
  "workspace_bind fs now sid config mgr =
     (let config = config\<lparr> wc_root := normalize_workspace_path fs (wc_root config) \<rparr>
      in if \<not> fs_exists fs (wc_root config)
         then (Inl (''workspace root does not exist: '' @ path_display (wc_root config)), mgr)
         else if \<not> fs_is_dir fs (wc_root config)
         then (Inl (''workspace root is not a directory: '' @ path_display (wc_root config)), mgr)
         else
           let mgr1 = snd (workspace_unbind fs sid mgr);
               key = workspace_key fs (wc_root config);
               sessions = (case hm_get (wm_workspace_sessions mgr1) key of Some l \<Rightarrow> l | None \<Rightarrow> [])
           in (Inr config,
               mgr1\<lparr> wm_workspace_sessions := hm_insert key (sessions @ [sid]) (wm_workspace_sessions mgr1),
                     wm_session_workspaces := hm_insert sid \<lparr> wb_config = config, wb_bound_at = now \<rparr> (wm_session_workspaces mgr1) \<rparr>))"

definition workspace_get :: "uuid \<Rightarrow> workspace_manager \<Rightarrow> workspace_config option" where
  "workspace_get sid mgr = map_option wb_config (hm_get (wm_session_workspaces mgr) sid)"

definition workspace_bound_at :: "uuid \<Rightarrow> workspace_manager \<Rightarrow> datetime option" where
  "workspace_bound_at sid mgr = map_option wb_bound_at (hm_get (wm_session_workspaces mgr) sid)"

definition resolve_path :: "file_system \<Rightarrow> uuid \<Rightarrow> path \<Rightarrow> workspace_manager \<Rightarrow> path option" where
  "resolve_path fs sid requested mgr =
     (case hm_get (wm_session_workspaces mgr) sid of
        None \<Rightarrow> None
      | Some b \<Rightarrow>
          let base = wc_root (wb_config b);
              candidate = (if path_is_absolute requested then normalize_workspace_path fs requested
                           else normalize_workspace_path fs (path_join base requested))
          in if prefix base candidate then Some candidate else None)"

definition path_is_allowed :: "file_system \<Rightarrow> uuid \<Rightarrow> path \<Rightarrow> workspace_manager \<Rightarrow> bool" where
  "path_is_allowed fs sid requested mgr \<longleftrightarrow> resolve_path fs sid requested mgr \<noteq> None"

definition session_is_read_only :: "uuid \<Rightarrow> workspace_manager \<Rightarrow> bool" where
  "session_is_read_only sid mgr =
     (case hm_get (wm_session_workspaces mgr) sid of Some b \<Rightarrow> wc_read_only (wb_config b) | None \<Rightarrow> False)"

definition sessions_in_workspace :: "file_system \<Rightarrow> path \<Rightarrow> workspace_manager \<Rightarrow> uuid list" where
  "sessions_in_workspace fs base mgr =
     (case hm_get (wm_workspace_sessions mgr) (workspace_key fs base) of Some l \<Rightarrow> l | None \<Rightarrow> [])"

definition same_workspace :: "file_system \<Rightarrow> uuid \<Rightarrow> uuid \<Rightarrow> workspace_manager \<Rightarrow> bool" where
  "same_workspace fs a b mgr =
     (case (workspace_get a mgr, workspace_get b mgr) of
        (Some wa, Some wb) \<Rightarrow> normalized_root fs wa = normalized_root fs wb
      | _ \<Rightarrow> False)"

definition workspace_manager_len :: "workspace_manager \<Rightarrow> nat" where
  "workspace_manager_len mgr = length (wm_session_workspaces mgr)"

section \<open>Normal paths\<close>

text \<open>
  What \<^verbatim>\<open>canonicalize\<close> documents of its answers: absolute, without \<open>.\<close>, \<open>..\<close> or links, so
  that canonicalizing again changes nothing.
\<close>

fun is_normal :: "path_component \<Rightarrow> bool" where
  "is_normal (Normal s) = True"
| "is_normal _ = False"

definition fs_ok :: "file_system \<Rightarrow> bool" where
  "fs_ok fs \<longleftrightarrow>
     (\<forall>p c. fs_canonicalize fs p = Some c \<longrightarrow>
        c \<noteq> [] \<and> hd c = RootDir \<and> list_all is_normal (tl c) \<and> fs_canonicalize fs c = Some c)"

definition plain_path :: "path \<Rightarrow> bool" where
  "plain_path p \<longleftrightarrow> p \<noteq> [] \<and> hd p \<noteq> ParentDir \<and> list_all is_normal (tl p)"

lemma is_normal_iff: "is_normal c \<longleftrightarrow> (\<exists>s. c = Normal s)"
  by (cases c) simp_all

definition lexical :: "path \<Rightarrow> bool" where
  "lexical p \<longleftrightarrow> (\<exists>ns. p = map Normal ns \<or> p = RootDir # map Normal ns)"

lemma lexical_pop: "lexical p \<Longrightarrow> lexical (path_pop p)"
proof -
  assume "lexical p"
  then obtain ns where "p = map Normal ns \<or> p = RootDir # map Normal ns" by (auto simp: lexical_def)
  then show ?thesis
    by (cases ns rule: rev_cases) (auto simp: path_pop_def lexical_def butlast_append)
qed

lemma lexical_step: "lexical p \<Longrightarrow> lexical (normalize_step c p)"
proof (cases c)
  case (Normal s)
  assume "lexical p"
  then obtain ns where "p = map Normal ns \<or> p = RootDir # map Normal ns" by (auto simp: lexical_def)
  then have "p @ [Normal s] = map Normal (ns @ [s]) \<or> p @ [Normal s] = RootDir # map Normal (ns @ [s])" by auto
  then show ?thesis unfolding lexical_def using Normal by (metis normalize_step.simps(4))
next
  case RootDir
  then show ?thesis by (auto simp: lexical_def intro: exI [of _ "[]"])
qed (simp_all add: lexical_pop)

lemma lexical_fold: "lexical p \<Longrightarrow> lexical (fold normalize_step q p)"
  by (induction q arbitrary: p) (simp_all add: lexical_step)

lemma lexical_plain: "lexical p \<Longrightarrow> p \<noteq> [] \<Longrightarrow> plain_path p"
proof -
  assume "lexical p" "p \<noteq> []"
  then obtain ns where "p = map Normal ns \<or> p = RootDir # map Normal ns" by (auto simp: lexical_def)
  then show ?thesis using \<open>p \<noteq> []\<close> by (cases ns) (auto simp: plain_path_def list_all_iff)
qed

lemma normalize_plain:
  assumes "fs_ok fs"
  shows "plain_path (normalize_workspace_path fs p)"
proof (cases "fs_canonicalize fs p")
  case None
  have "lexical []" by (simp add: lexical_def)
  then have "lexical (fold normalize_step p [])" by (rule lexical_fold)
  then show ?thesis using lexical_plain by (auto simp: normalize_workspace_path_def None Let_def) (simp add: plain_path_def)
next
  case (Some c)
  then show ?thesis using assms by (auto simp: normalize_workspace_path_def fs_ok_def plain_path_def)
qed

lemma plain_suffix: "plain_path (a @ b) \<Longrightarrow> a \<noteq> [] \<Longrightarrow> \<exists>names. b = map Normal names"
proof -
  assume "plain_path (a @ b)" "a \<noteq> []"
  then have "list_all is_normal b" by (simp add: plain_path_def)
  then show ?thesis by (induction b) (auto simp: is_normal_iff intro: exI [of _ "_ # _"])
qed


section \<open>Reachable managers\<close>

inductive workspace_step :: "file_system \<Rightarrow> workspace_manager \<Rightarrow> workspace_manager \<Rightarrow> bool" for fs where
  step_bind: "workspace_step fs mgr (snd (workspace_bind fs now sid config mgr))"
| step_unbind: "workspace_step fs mgr (snd (workspace_unbind fs sid mgr))"

text \<open>The file system may change between two steps.\<close>

definition workspace_any_step :: "workspace_manager \<Rightarrow> workspace_manager \<Rightarrow> bool" where
  "workspace_any_step mgr mgr' \<longleftrightarrow> (\<exists>fs. fs_ok fs \<and> workspace_step fs mgr mgr')"

definition roots_plain :: "workspace_manager \<Rightarrow> bool" where
  "roots_plain mgr \<longleftrightarrow> (\<forall>sid b. hm_get (wm_session_workspaces mgr) sid = Some b \<longrightarrow> plain_path (wc_root (wb_config b)))"

lemma unbind_workspaces:
  "hm_get (wm_session_workspaces (snd (workspace_unbind fs sid mgr))) = (hm_get (wm_session_workspaces mgr))(sid := None)"
  by (auto simp: workspace_unbind_def remove_session_from_workspace_index_def Let_def fun_upd_def fun_eq_iff split: option.split)

lemma bind_workspaces:
  "hm_get (wm_session_workspaces (snd (workspace_bind fs now sid config mgr))) u = Some b \<Longrightarrow>
   hm_get (wm_session_workspaces mgr) u = Some b \<or> wc_root (wb_config b) = normalize_workspace_path fs (wc_root config)"
  by (auto simp: workspace_bind_def Let_def unbind_workspaces split: if_splits)

lemma workspace_any_step_plain: "workspace_any_step mgr mgr' \<Longrightarrow> roots_plain mgr \<Longrightarrow> roots_plain mgr'"
proof -
  assume "workspace_any_step mgr mgr'" and plain: "roots_plain mgr"
  then obtain fs where fs: "fs_ok fs" "workspace_step fs mgr mgr'" by (auto simp: workspace_any_step_def)
  from fs(2) show ?thesis
  proof cases
    case (step_bind now sid config)
    then show ?thesis using plain normalize_plain [OF fs(1)] unfolding roots_plain_def by (metis bind_workspaces)
  next
    case (step_unbind sid)
    then show ?thesis using plain by (simp add: roots_plain_def unbind_workspaces)
  qed
qed

interpretation ws: invariant_machine workspace_any_step roots_plain
  by unfold_locales (rule workspace_any_step_plain)

lemma roots_plain_reachable: "workspace_any_step\<^sup>*\<^sup>* workspace_manager_new mgr \<Longrightarrow> roots_plain mgr"
  by (erule ws.star_inv) (simp add: roots_plain_def workspace_manager_new_def)

section \<open>Confinement\<close>

text \<open>
  C35: However the sessions were bound, a request resolves to a path exactly when that path
  lies below the root of the session's workspace with nothing but names after the root: no
  \<open>..\<close> is left to climb out. It is the canonical path when the requested file exists, and the
  request with \<open>.\<close> and \<open>..\<close> removed when it does not.
\<close>

theorem resolve_path_confined:
  assumes "workspace_any_step\<^sup>*\<^sup>* workspace_manager_new mgr" "fs_ok fs"
  shows "resolve_path fs sid requested mgr = Some p \<longleftrightarrow>
    (\<exists>cfg names. workspace_get sid mgr = Some cfg \<and> p = wc_root cfg @ map Normal names \<and>
       p = normalize_workspace_path fs (path_join (wc_root cfg) requested) \<and>
       (fs_canonicalize fs p = Some p \<or> fs_canonicalize fs (path_join (wc_root cfg) requested) = None))"
proof (cases "hm_get (wm_session_workspaces mgr) sid")
  case None
  then show ?thesis by (simp add: resolve_path_def workspace_get_def)
next
  case (Some b)
  let ?base = "wc_root (wb_config b)"
  let ?q = "path_join ?base requested"
  have base: "?base \<noteq> []"
    using roots_plain_reachable [OF assms(1)] Some by (auto simp: roots_plain_def plain_path_def)
  have r: "resolve_path fs sid requested mgr = (if prefix ?base (normalize_workspace_path fs ?q) then Some (normalize_workspace_path fs ?q) else None)"
    by (simp add: resolve_path_def Some path_join_def Let_def)
  have canon: "fs_canonicalize fs (normalize_workspace_path fs ?q) = Some (normalize_workspace_path fs ?q) \<or> fs_canonicalize fs ?q = None"
    using assms(2) by (auto simp: normalize_workspace_path_def fs_ok_def split: option.split)
  have below: "\<exists>names. normalize_workspace_path fs ?q = ?base @ map Normal names" if "prefix ?base (normalize_workspace_path fs ?q)"
  proof -
    obtain zs where zs: "normalize_workspace_path fs ?q = ?base @ zs" using \<open>prefix ?base _\<close> by (auto simp: prefix_def)
    then have "plain_path (?base @ zs)" using normalize_plain [OF assms(2), of ?q] by simp
    then obtain names where "zs = map Normal names" using plain_suffix [OF _ base] by blast
    then show ?thesis using zs by blast
  qed
  show ?thesis using r canon below by (auto simp: workspace_get_def Some)
qed

definition link_fs :: file_system where
  "link_fs = \<lparr> fs_canonicalize =
       (\<lambda>p. if p \<in> {[RootDir, Normal ''etc''], [RootDir, Normal ''w'', Normal ''link'']} then Some [RootDir, Normal ''etc'']
            else if p = [RootDir, Normal ''w''] then Some [RootDir, Normal ''w''] else None),
     fs_exists = (\<lambda>p. True), fs_is_dir = (\<lambda>p. True) \<rparr>"

definition linked_manager :: workspace_manager where
  "linked_manager = snd (workspace_bind link_fs 0 1 (workspace_config_new [RootDir, Normal ''w'']) workspace_manager_new)"

lemma link_fs_ok: "fs_ok link_fs"
  by (simp add: fs_ok_def link_fs_def)

lemma linked_manager_get: "workspace_get 1 linked_manager = Some (workspace_config_new [RootDir, Normal ''w''])"
  by (simp add: workspace_get_def linked_manager_def workspace_bind_def workspace_config_new_def normalize_workspace_path_def link_fs_def Let_def)

lemma linked_manager_reachable: "workspace_any_step\<^sup>*\<^sup>* workspace_manager_new linked_manager"
  unfolding linked_manager_def
  by (rule r_into_rtranclp [where r = workspace_any_step]) (auto simp: workspace_any_step_def intro: link_fs_ok step_bind)

theorem resolve_path_confined_witness:
  "resolve_path link_fs 1 [Normal ''a'', ParentDir, Normal ''b''] linked_manager = Some [RootDir, Normal ''w'', Normal ''b'']"
proof -
  have "\<exists>names. [RootDir, Normal ''w'', Normal ''b''] = [RootDir, Normal ''w''] @ map Normal names"
    by (rule exI [of _ "[''b'']"]) simp
  then show ?thesis
    unfolding resolve_path_confined [OF linked_manager_reachable link_fs_ok]
    by (simp add: linked_manager_get workspace_config_new_def normalize_workspace_path_def path_join_def path_is_absolute_def link_fs_def
        path_pop_def Let_def)
qed

text \<open>
  Links are only followed when the requested file exists: below a link that leads out of the
  workspace a file to be created resolves, while the directory it is created in is outside.
\<close>

lemma new_file_below_link_escapes:
  "resolve_path link_fs 1 [Normal ''link'', Normal ''new''] linked_manager =
     Some [RootDir, Normal ''w'', Normal ''link'', Normal ''new'']"
  "fs_canonicalize link_fs [RootDir, Normal ''w'', Normal ''link''] = Some [RootDir, Normal ''etc'']"
proof -
  show "resolve_path link_fs 1 [Normal ''link'', Normal ''new''] linked_manager =
     Some [RootDir, Normal ''w'', Normal ''link'', Normal ''new'']"
    by (simp add: resolve_path_def linked_manager_def workspace_bind_def workspace_config_new_def normalize_workspace_path_def
        path_join_def path_is_absolute_def link_fs_def Let_def)
qed (simp add: link_fs_def)

section \<open>The index of workspaces\<close>

text \<open>While the file system does not change, the index lists every bound session once, under the key of its workspace.\<close>

definition workspace_index_ok :: "file_system \<Rightarrow> workspace_manager \<Rightarrow> bool" where
  "workspace_index_ok fs mgr \<longleftrightarrow>
     (\<forall>key l. hm_get (wm_workspace_sessions mgr) key = Some l \<longrightarrow> distinct l) \<and>
     (\<forall>key sid. (\<exists>l. hm_get (wm_workspace_sessions mgr) key = Some l \<and> sid \<in> set l) \<longleftrightarrow>
        (\<exists>b. hm_get (wm_session_workspaces mgr) sid = Some b \<and> workspace_key fs (wc_root (wb_config b)) = key))"

lemma workspace_index_okD:
  assumes "workspace_index_ok fs mgr"
  shows "hm_get (wm_workspace_sessions mgr) key = Some l \<Longrightarrow> distinct l"
    and "(\<exists>l. hm_get (wm_workspace_sessions mgr) key = Some l \<and> sid \<in> set l) \<longleftrightarrow>
        (\<exists>b. hm_get (wm_session_workspaces mgr) sid = Some b \<and> workspace_key fs (wc_root (wb_config b)) = key)"
  using assms unfolding workspace_index_ok_def by blast+

lemma unbind_index_ok:
  assumes ok: "workspace_index_ok fs mgr"
  shows "workspace_index_ok fs (snd (workspace_unbind fs sid mgr))"
proof (cases "hm_get (wm_session_workspaces mgr) sid")
  case None
  then show ?thesis using ok by (simp add: workspace_unbind_def)
next
  case (Some b)
  let ?key = "workspace_key fs (wc_root (wb_config b))"
  obtain l where l: "hm_get (wm_workspace_sessions mgr) ?key = Some l" "sid \<in> set l"
    using workspace_index_okD(2) [OF ok, of ?key sid] Some by blast
  let ?mgr = "snd (workspace_unbind fs sid mgr)"
  have get: "hm_get (wm_workspace_sessions ?mgr) key =
      (if key = ?key then (if filter (\<lambda>u. u \<noteq> sid) l = [] then None else Some (filter (\<lambda>u. u \<noteq> sid) l))
       else hm_get (wm_workspace_sessions mgr) key)" for key
    using l(1) by (simp add: workspace_unbind_def Some remove_session_from_workspace_index_def Let_def)
  have mem: "(\<exists>l'. hm_get (wm_workspace_sessions ?mgr) key = Some l' \<and> u \<in> set l') \<longleftrightarrow>
      u \<noteq> sid \<and> (\<exists>l'. hm_get (wm_workspace_sessions mgr) key = Some l' \<and> u \<in> set l')" for key u
  proof (cases "key = ?key")
    case True
    then show ?thesis using l(1) by (auto simp: get filter_empty_conv)
  next
    case False
    have "\<not> (\<exists>l'. hm_get (wm_workspace_sessions mgr) key = Some l' \<and> sid \<in> set l')"
      using workspace_index_okD(2) [OF ok, of key sid] Some False by auto
    then show ?thesis using False by (auto simp: get)
  qed
  have dist: "distinct l'" if "hm_get (wm_workspace_sessions ?mgr) key = Some l'" for key l'
    using that workspace_index_okD(1) [OF ok] l(1) by (auto simp: get split: if_splits)
  show ?thesis
    unfolding workspace_index_ok_def mem workspace_index_okD(2) [OF ok] unbind_workspaces
    using dist by auto
qed

lemma bind_index_ok:
  assumes ok: "workspace_index_ok fs mgr"
  shows "workspace_index_ok fs (snd (workspace_bind fs now sid config mgr))"
proof -
  let ?base = "normalize_workspace_path fs (wc_root config)"
  let ?mgr1 = "snd (workspace_unbind fs sid mgr)"
  note ok1 = unbind_index_ok [OF ok, of sid]
  let ?l = "case hm_get (wm_workspace_sessions ?mgr1) (workspace_key fs ?base) of Some l \<Rightarrow> l | None \<Rightarrow> []"
  let ?b = "\<lparr> wb_config = config\<lparr> wc_root := ?base \<rparr>, wb_bound_at = now \<rparr>"
  let ?mgr = "?mgr1\<lparr> wm_workspace_sessions := hm_insert (workspace_key fs ?base) (?l @ [sid]) (wm_workspace_sessions ?mgr1),
     wm_session_workspaces := hm_insert sid ?b (wm_session_workspaces ?mgr1) \<rparr>"
  have gone: "\<not> (\<exists>l. hm_get (wm_workspace_sessions ?mgr1) key = Some l \<and> sid \<in> set l)" for key
    unfolding workspace_index_okD(2) [OF ok1] by (simp add: unbind_workspaces)
  have "distinct (?l @ [sid])"
    using workspace_index_okD(1) [OF ok1] gone by (auto split: option.split)
  then have d: "distinct l" if "hm_get (wm_workspace_sessions ?mgr) key = Some l" for key l
    using that workspace_index_okD(1) [OF ok1] by (auto split: if_splits)
  have m: "(\<exists>l. hm_get (wm_workspace_sessions ?mgr) key = Some l \<and> u \<in> set l) \<longleftrightarrow>
      (u = sid \<and> key = workspace_key fs ?base) \<or> (\<exists>l. hm_get (wm_workspace_sessions ?mgr1) key = Some l \<and> u \<in> set l)" for key u
    by (auto split: option.split)
  have "workspace_index_ok fs ?mgr"
    unfolding workspace_index_ok_def m workspace_index_okD(2) [OF ok1]
    using d by (auto simp: unbind_workspaces)
  then show ?thesis using ok by (simp add: workspace_bind_def Let_def)
qed

lemma workspace_step_index: "workspace_step fs mgr mgr' \<Longrightarrow> workspace_index_ok fs mgr \<Longrightarrow> workspace_index_ok fs mgr'"
  by (induction rule: workspace_step.induct) (simp_all add: bind_index_ok unbind_index_ok)

interpretation wsix: invariant_machine "workspace_step fs" "workspace_index_ok fs" for fs
  by unfold_locales (rule workspace_step_index)

lemma workspace_index_exact:
  assumes "(workspace_step fs)\<^sup>*\<^sup>* workspace_manager_new mgr"
  shows "set (sessions_in_workspace fs base mgr) =
      {sid. \<exists>cfg. workspace_get sid mgr = Some cfg \<and> normalized_root fs cfg = normalize_workspace_path fs base}"
    and "distinct (sessions_in_workspace fs base mgr)"
proof -
  have ok: "workspace_index_ok fs mgr"
    by (rule wsix.star_inv [OF assms]) (simp add: workspace_index_ok_def workspace_manager_new_def)
  have "u \<in> set (sessions_in_workspace fs base mgr) \<longleftrightarrow>
      (\<exists>cfg. workspace_get u mgr = Some cfg \<and> normalized_root fs cfg = normalize_workspace_path fs base)" for u
    using workspace_index_okD(2) [OF ok, of "workspace_key fs base" u]
    by (auto simp: sessions_in_workspace_def workspace_get_def normalized_root_def workspace_key_def split: option.splits)
  then show "set (sessions_in_workspace fs base mgr) =
      {sid. \<exists>cfg. workspace_get sid mgr = Some cfg \<and> normalized_root fs cfg = normalize_workspace_path fs base}" by blast
  show "distinct (sessions_in_workspace fs base mgr)"
    using workspace_index_okD(1) [OF ok] by (auto simp: sessions_in_workspace_def split: option.split)
qed

end
