(* ===== verification/Update_Files.thy ===== *)
theory Update_Files
  imports Canary Fleet_Text
begin

text \<open>
  Replacing the running binary and restoring the old one:
  \<^verbatim>\<open>crates/ff-updater/src/swapper.rs\<close> and \<^verbatim>\<open>rollback.rs\<close>.

  The disk is a map from paths to files. A call of the file system may fail for any reason:
  \<open>fault n\<close> is the error of call \<open>n\<close>, if it fails. A copy that fails may have written
  something, the argument \<open>partial\<close>; a copy that succeeds carries over the mode, as
  \<^verbatim>\<open>fs::copy\<close> does.
\<close>

section \<open>The disk\<close>

record 'b disk_file =
  df_content :: 'b
  df_size :: u64
  df_mode :: u32

type_synonym 'b disk = "(string, 'b disk_file) hmap"

text \<open>The disk and the number of calls that can fail made so far.\<close>

type_synonym 'b io = "'b disk \<times> nat"

type_synonym faults = "nat \<Rightarrow> string option"

definition no_such_file :: string where
  "no_such_file = ''No such file or directory (os error 2)''"

definition io_exists :: "string \<Rightarrow> 'b io \<Rightarrow> bool" where
  "io_exists p s = hm_contains (fst s) p"

definition io_call :: "faults \<Rightarrow> ('b disk \<Rightarrow> (string \<times> 'b disk, 'a \<times> 'b disk) sum) \<Rightarrow> 'b disk \<Rightarrow> 'b io \<Rightarrow> ('a, string) result \<times> 'b io" where
  "io_call fault act broken s =
     (case fault (snd s) of
        Some e \<Rightarrow> (Inl e, (broken, Suc (snd s)))
      | None \<Rightarrow> (case act (fst s) of
                   Inl (e, d) \<Rightarrow> (Inl e, (d, Suc (snd s)))
                 | Inr (x, d) \<Rightarrow> (Inr x, (d, Suc (snd s)))))"

definition io_len :: "faults \<Rightarrow> string \<Rightarrow> 'b io \<Rightarrow> (u64, string) result \<times> 'b io" where
  "io_len fault p s =
     io_call fault (\<lambda>d. case hm_get d p of None \<Rightarrow> Inl (no_such_file, d) | Some f \<Rightarrow> Inr (df_size f, d)) (fst s) s"

definition io_remove :: "faults \<Rightarrow> string \<Rightarrow> 'b io \<Rightarrow> (unit, string) result \<times> 'b io" where
  "io_remove fault p s =
     io_call fault (\<lambda>d. case hm_get d p of None \<Rightarrow> Inl (no_such_file, d) | Some _ \<Rightarrow> Inr ((), hm_remove p d)) (fst s) s"

definition io_rename :: "faults \<Rightarrow> string \<Rightarrow> string \<Rightarrow> 'b io \<Rightarrow> (unit, string) result \<times> 'b io" where
  "io_rename fault p q s =
     io_call fault (\<lambda>d. case hm_get d p of
         None \<Rightarrow> Inl (no_such_file, d)
       | Some f \<Rightarrow> Inr ((), if p = q then d else hm_insert q f (hm_remove p d))) (fst s) s"

definition io_copy :: "faults \<Rightarrow> 'b disk_file option \<Rightarrow> string \<Rightarrow> string \<Rightarrow> 'b io \<Rightarrow> (unit, string) result \<times> 'b io" where
  "io_copy fault partial p q s =
     io_call fault (\<lambda>d. case hm_get d p of None \<Rightarrow> Inl (no_such_file, d) | Some f \<Rightarrow> Inr ((), hm_insert q f d))
       (case partial of None \<Rightarrow> fst s | Some f \<Rightarrow> hm_insert q f (fst s)) s"

definition io_chmod :: "faults \<Rightarrow> u32 \<Rightarrow> string \<Rightarrow> 'b io \<Rightarrow> (unit, string) result \<times> 'b io" where
  "io_chmod fault mode p s =
     io_call fault (\<lambda>d. case hm_get d p of
         None \<Rightarrow> Inl (no_such_file, d)
       | Some f \<Rightarrow> Inr ((), hm_insert p (f\<lparr> df_mode := mode \<rparr>) d)) (fst s) s"

section \<open>The swapper\<close>

record swapper_config =
  sw_current_binary :: string
  sw_backup_suffix :: string
  sw_keep_backup :: bool
  sw_binary_permissions :: u32

definition swapper_config_default :: swapper_config where
  "swapper_config_default =
     \<lparr> sw_current_binary = ''/usr/local/bin/forgefleet'', sw_backup_suffix = ''.bak'', sw_keep_backup = True,
       sw_binary_permissions = 493 \<rparr>"

record swap_result =
  sr_success :: bool
  sr_backup_path :: "string option"
  sr_old_size :: u64
  sr_new_size :: u64
  sr_rolled_back :: bool
  sr_swapped_at :: datetime
  sr_summary :: string

definition swap_backup_path :: "swapper_config \<Rightarrow> string" where
  "swap_backup_path c = sw_current_binary c @ sw_backup_suffix c"

definition has_backup :: "swapper_config \<Rightarrow> 'b io \<Rightarrow> bool" where
  "has_backup c s = io_exists (swap_backup_path c) s"

definition swap_set_permissions :: "faults \<Rightarrow> swapper_config \<Rightarrow> string \<Rightarrow> 'b io \<Rightarrow> (unit, string) result \<times> 'b io" where
  "swap_set_permissions fault c p s = io_chmod fault (sw_binary_permissions c) p s"

text \<open>Step 1: the old backup goes, the current binary becomes the backup.\<close>

definition swap_backup :: "faults \<Rightarrow> swapper_config \<Rightarrow> 'b io \<Rightarrow> (bool, update_error) result \<times> 'b io" where
  "swap_backup fault c s =
     (let current = sw_current_binary c; backup = swap_backup_path c
      in if \<not> io_exists current s then (Inr False, s)
         else case (if io_exists backup s then io_remove fault backup s else (Inr (), s)) of
           (Inl e, s1) \<Rightarrow> (Inl (BackupFailed (''could not remove old backup: '' @ e)), s1)
         | (Inr _, s1) \<Rightarrow>
             (case io_rename fault current backup s1 of
                (Inl e, s2) \<Rightarrow> (Inl (BackupFailed (''rename failed: '' @ e)), s2)
              | (Inr _, s2) \<Rightarrow> (Inr True, s2)))"

definition swap_rolled_back :: "datetime \<Rightarrow> swapper_config \<Rightarrow> bool \<Rightarrow> u64 \<Rightarrow> u64 \<Rightarrow> string \<Rightarrow> swap_result" where
  "swap_rolled_back now c backup_created old_size new_size summary =
     \<lparr> sr_success = False, sr_backup_path = (if backup_created then Some (swap_backup_path c) else None),
       sr_old_size = old_size, sr_new_size = new_size, sr_rolled_back = True, sr_swapped_at = now, sr_summary = summary \<rparr>"

text \<open>Steps 2 and 3, after the backup: the copy, then the permissions.\<close>

definition swap_install ::
  "faults \<Rightarrow> 'b disk_file option \<Rightarrow> datetime \<Rightarrow> swapper_config \<Rightarrow> string \<Rightarrow> bool \<Rightarrow> u64 \<Rightarrow> u64 \<Rightarrow> 'b io \<Rightarrow>
   (swap_result, update_error) result \<times> 'b io" where
  "swap_install fault partial now c new_binary backup_created old_size new_size s =
     (let current = sw_current_binary c; backup = swap_backup_path c
      in case io_copy fault partial new_binary current s of
           (Inl e, s1) \<Rightarrow>
             (case (if backup_created then io_rename fault backup current s1 else (Inr (), s1)) of
                (Inl rb, s2) \<Rightarrow>
                  (Inl (CopyFailed (''copy failed ('' @ e @ '') AND rollback failed ('' @ rb @ '') '' @ utf8_em_dash @
                                    '' manual intervention needed'')), s2)
              | (Inr _, s2) \<Rightarrow>
                  (Inr (swap_rolled_back now c backup_created old_size new_size (''copy failed, rolled back: '' @ e)), s2))
         | (Inr _, s1) \<Rightarrow>
             (case swap_set_permissions fault c current s1 of
                (Inl e, s2) \<Rightarrow>
                  (case (if backup_created then io_rename fault backup current (snd (io_remove fault current s2)) else (Inr (), s2)) of
                     (Inl rb, s3) \<Rightarrow> (Inl (PermissionFailed (''chmod failed (swap failed: permission fix failed: '' @ e @
                                          '') AND rollback failed ('' @ rb @ '')'')), s3)
                   | (Inr _, s3) \<Rightarrow>
                       (Inr (swap_rolled_back now c backup_created old_size new_size
                          (''permission set failed, rolled back: swap failed: permission fix failed: '' @ e)), s3))
              | (Inr _, s2) \<Rightarrow>
                  (Inr \<lparr> sr_success = True,
                         sr_backup_path = (if backup_created \<and> sw_keep_backup c then Some backup else None),
                         sr_old_size = old_size, sr_new_size = new_size, sr_rolled_back = False, sr_swapped_at = now,
                         sr_summary = ''swapped '' @ show_nat (unat old_size) @ [CHR '' '', CHR 0xE2, CHR 0x86, CHR 0x92, CHR '' ''] @
                           show_nat (unat new_size) @ '' bytes'' \<rparr>, s2)))"

definition swap_binary ::
  "faults \<Rightarrow> 'b disk_file option \<Rightarrow> datetime \<Rightarrow> swapper_config \<Rightarrow> string \<Rightarrow> 'b io \<Rightarrow>
   (swap_result, update_error) result \<times> 'b io" where
  "swap_binary fault partial now c new_binary s =
     (if \<not> io_exists new_binary s then (Inl (BinaryNotFound new_binary), s)
      else case io_len fault new_binary s of
        (Inl e, s1) \<Rightarrow> (Inl (UpdateIo e), s1)
      | (Inr new_size, s1) \<Rightarrow>
          (case (if io_exists (sw_current_binary c) s1 then io_len fault (sw_current_binary c) s1 else (Inr 0, s1)) of
             (Inl e, s2) \<Rightarrow> (Inl (UpdateIo e), s2)
           | (Inr old_size, s2) \<Rightarrow>
               (case swap_backup fault c s2 of
                  (Inl e, s3) \<Rightarrow> (Inl e, s3)
                | (Inr backup_created, s3) \<Rightarrow> swap_install fault partial now c new_binary backup_created old_size new_size s3)))"

section \<open>The rollback\<close>

record rollback_config =
  rb_binary_path :: string
  rb_backup_suffix :: string
  rb_health_check_url :: "string option"
  rb_health_check_timeout_secs :: u64
  rb_health_check_retries :: u32
  rb_retry_delay_secs :: u64
  rb_binary_permissions :: u32

definition rollback_config_default :: rollback_config where
  "rollback_config_default =
     \<lparr> rb_binary_path = ''/usr/local/bin/forgefleet'', rb_backup_suffix = ''.bak'', rb_health_check_url = None,
       rb_health_check_timeout_secs = 30, rb_health_check_retries = 5, rb_retry_delay_secs = 3,
       rb_binary_permissions = 493 \<rparr>"

record rollback_result =
  rr_success :: bool
  rr_health_check_passed :: "bool option"
  rr_rolled_back_from :: "string option"
  rr_rolled_back_at :: datetime
  rr_summary :: string

definition rollback_backup_path :: "rollback_config \<Rightarrow> string" where
  "rollback_backup_path c = rb_binary_path c @ rb_backup_suffix c"

definition can_rollback :: "rollback_config \<Rightarrow> 'b io \<Rightarrow> bool" where
  "can_rollback c s = io_exists (rollback_backup_path c) s"

definition rollback_binary ::
  "faults \<Rightarrow> datetime \<Rightarrow> rollback_config \<Rightarrow> 'b io \<Rightarrow> (rollback_result, update_error) result \<times> 'b io" where
  "rollback_binary fault now c s =
     (let binary = rb_binary_path c; backup = rollback_backup_path c
      in if \<not> io_exists backup s then (Inl (NoBackup backup), s)
         else case (if io_exists binary s then io_remove fault binary s else (Inr (), s)) of
           (Inl e, s1) \<Rightarrow> (Inl (RollbackFailed (''could not remove current binary: '' @ e)), s1)
         | (Inr _, s1) \<Rightarrow>
             (case io_rename fault backup binary s1 of
                (Inl e, s2) \<Rightarrow> (Inl (RollbackFailed (''could not rename backup to current: '' @ e)), s2)
              | (Inr _, s2) \<Rightarrow>
                  (case io_chmod fault (rb_binary_permissions c) binary s2 of
                     (Inl e, s3) \<Rightarrow> (Inl (RollbackFailed (''could not set permissions: '' @ e)), s3)
                   | (Inr _, s3) \<Rightarrow>
                       (Inr \<lparr> rr_success = True, rr_health_check_passed = None, rr_rolled_back_from = None,
                              rr_rolled_back_at = now, rr_summary = ''rolled back to previous binary'' \<rparr>, s3))))"

text \<open>
  The health check asks at most \<open>retries\<close> times; \<open>reply n\<close> tells whether attempt \<open>n\<close> got a
  success status.
\<close>

fun health_attempts :: "(nat \<Rightarrow> bool) \<Rightarrow> nat \<Rightarrow> nat \<Rightarrow> bool" where
  "health_attempts reply attempt 0 = False"
| "health_attempts reply attempt (Suc n) = (if reply attempt then True else health_attempts reply (Suc attempt) n)"

definition rollback_health_check :: "(nat \<Rightarrow> bool) \<Rightarrow> rollback_config \<Rightarrow> bool" where
  "rollback_health_check reply c = health_attempts reply 1 (unat (rb_health_check_retries c))"

definition rollback_and_verify ::
  "faults \<Rightarrow> (nat \<Rightarrow> bool) \<Rightarrow> datetime \<Rightarrow> rollback_config \<Rightarrow> 'b io \<Rightarrow> (rollback_result, update_error) result \<times> 'b io" where
  "rollback_and_verify fault reply now c s =
     (case rollback_binary fault now c s of
        (Inl e, s1) \<Rightarrow> (Inl e, s1)
      | (Inr r, s1) \<Rightarrow>
          (Inr (case rb_health_check_url c of
                  None \<Rightarrow> r
                | Some url \<Rightarrow>
                    let healthy = rollback_health_check reply c;
                        r1 = r\<lparr> rr_health_check_passed := Some healthy \<rparr>
                    in if \<not> healthy
                       then r1\<lparr> rr_success := False, rr_summary := ''rollback binary restored but health check failed at '' @ url \<rparr>
                       else r1\<lparr> rr_summary := ''rolled back and health check passed'' \<rparr>), s1))"


section \<open>What a swap leaves on the disk\<close>

lemmas io_defs = io_call_def io_len_def io_remove_def io_rename_def io_copy_def io_chmod_def io_exists_def hm_contains_def

lemma io_len_disk: "io_len fault p s = (r, s') \<Longrightarrow> fst s' = fst s"
  by (auto simp: io_defs split: option.splits)

lemma backup_path_other: "sw_backup_suffix c \<noteq> [] \<Longrightarrow> swap_backup_path c \<noteq> sw_current_binary c"
  by (simp add: swap_backup_path_def)

lemma swap_backup_disk:
  assumes "sw_backup_suffix c \<noteq> []" "hm_get (fst s) (sw_current_binary c) = Some old" "swap_backup fault c s = (r, s')"
  shows "case r of
      Inr created \<Rightarrow> created \<and> hm_get (fst s') (swap_backup_path c) = Some old \<and> hm_get (fst s') (sw_current_binary c) = None
    | Inl _ \<Rightarrow> hm_get (fst s') (sw_current_binary c) = Some old"
    and "p \<notin> {sw_current_binary c, swap_backup_path c} \<Longrightarrow> hm_get (fst s') p = hm_get (fst s) p"
  using assms backup_path_other [OF assms(1)]
  by (auto simp: swap_backup_def io_defs Let_def split: option.splits if_splits)

lemma swap_install_disk:
  assumes "sw_backup_suffix c \<noteq> []" "new \<notin> {sw_current_binary c, swap_backup_path c}"
    and "hm_get (fst s) (swap_backup_path c) = Some old" "hm_get (fst s) (sw_current_binary c) = None"
    and "swap_install fault partial now c new True old_size new_size s = (r, s')"
  shows "case r of
      Inr sr \<Rightarrow>
        if sr_success sr
        then (\<exists>f. hm_get (fst s) new = Some f \<and>
                hm_get (fst s') (sw_current_binary c) = Some (f\<lparr> df_mode := sw_binary_permissions c \<rparr>)) \<and>
             hm_get (fst s') (swap_backup_path c) = Some old
        else sr_rolled_back sr \<and> hm_get (fst s') (sw_current_binary c) = Some old
    | Inl _ \<Rightarrow> hm_get (fst s') (swap_backup_path c) = Some old"
    and "p \<notin> {sw_current_binary c, swap_backup_path c} \<Longrightarrow> hm_get (fst s') p = hm_get (fst s) p"
  using assms backup_path_other [OF assms(1)]
  by (auto simp: swap_install_def swap_set_permissions_def swap_rolled_back_def io_defs Let_def split: option.splits if_splits)


lemma swap_binary_disk:
  assumes "sw_backup_suffix c \<noteq> []" "new \<notin> {sw_current_binary c, swap_backup_path c}"
    and "hm_get (fst s) (sw_current_binary c) = Some old" "swap_binary fault partial now c new s = (r, s')"
  shows "(case r of
      Inr sr \<Rightarrow>
        if sr_success sr
        then (\<exists>f. hm_get (fst s) new = Some f \<and>
                hm_get (fst s') (sw_current_binary c) = Some (f\<lparr> df_mode := sw_binary_permissions c \<rparr>)) \<and>
             hm_get (fst s') (swap_backup_path c) = Some old
        else sr_rolled_back sr \<and> hm_get (fst s') (sw_current_binary c) = Some old
    | Inl _ \<Rightarrow> hm_get (fst s') (sw_current_binary c) = Some old \<or> hm_get (fst s') (swap_backup_path c) = Some old) \<and>
    (\<forall>p. p \<notin> {sw_current_binary c, swap_backup_path c} \<longrightarrow> hm_get (fst s') p = hm_get (fst s) p)"
proof (cases "io_exists new s")
  case False
  then show ?thesis using assms(3,4) by (auto simp: swap_binary_def)
next
  case True
  obtain l1 s1 where 1: "io_len fault new s = (l1, s1)" by (rule prod.exhaust)
  note d1 = io_len_disk [OF 1]
  show ?thesis
  proof (cases l1)
    case (Inl e)
    then show ?thesis using assms(3,4) True 1 d1 by (auto simp: swap_binary_def)
  next
    case new: (Inr new_size)
    have ex: "io_exists (sw_current_binary c) s1" using assms(3) by (simp add: io_exists_def hm_contains_def d1)
    obtain l2 s2 where 2: "io_len fault (sw_current_binary c) s1 = (l2, s2)" by (rule prod.exhaust)
    note d2 = io_len_disk [OF 2]
    show ?thesis
    proof (cases l2)
      case (Inl e)
      then show ?thesis using assms(3,4) True 1 2 new ex d1 d2 by (auto simp: swap_binary_def)
    next
      case old: (Inr old_size)
      obtain b s3 where 3: "swap_backup fault c s2 = (b, s3)" by (rule prod.exhaust)
      have cur: "hm_get (fst s2) (sw_current_binary c) = Some old" using assms(3) d1 d2 by simp
      note bk = swap_backup_disk [OF assms(1) cur 3]
      have other3: "hm_get (fst s3) p = hm_get (fst s) p" if "p \<notin> {sw_current_binary c, swap_backup_path c}" for p
        using bk(2) [OF that] d1 d2 by simp
      have r: "(case b of Inl e \<Rightarrow> (Inl e, s3)
          | Inr created \<Rightarrow> swap_install fault partial now c new created old_size new_size s3) = (r, s')"
        using assms(4) True 1 2 3 new old ex by (simp add: swap_binary_def)
      show ?thesis
      proof (cases b)
        case (Inl e)
        then show ?thesis using r bk(1) other3 by auto
      next
        case (Inr created)
        then have c: created "hm_get (fst s3) (swap_backup_path c) = Some old" "hm_get (fst s3) (sw_current_binary c) = None"
          using bk(1) by simp_all
        have i: "swap_install fault partial now c new True old_size new_size s3 = (r, s')" using r Inr c(1) by simp
        note inst = swap_install_disk [OF assms(1,2) c(2,3) i]
        have rest: "\<forall>p. p \<notin> {sw_current_binary c, swap_backup_path c} \<longrightarrow> hm_get (fst s') p = hm_get (fst s) p"
          using inst(2) other3 by simp
        show ?thesis
          using inst(1) other3 [OF assms(2)] rest by (cases r) (auto split: if_splits)
      qed
    qed
  qed
qed


definition small_disk :: "string io" where
  "small_disk = ([(''/bin/ff'', \<lparr> df_content = ''old'', df_size = 3, df_mode = 493 \<rparr>),
                  (''/build/ff'', \<lparr> df_content = ''new'', df_size = 4, df_mode = 420 \<rparr>)], 0)"

definition small_swapper :: swapper_config where
  "small_swapper = swapper_config_default\<lparr> sw_current_binary := ''/bin/ff'' \<rparr>"


section \<open>What a rollback leaves on the disk\<close>

lemma rollback_keeps_backup:
  assumes "rb_backup_suffix c \<noteq> []" "hm_get (fst s) (rollback_backup_path c) = Some old"
    and "rollback_binary fault now c s = (r, s')"
  shows "case r of
      Inr rr \<Rightarrow> rr_success rr \<and> hm_get (fst s') (rb_binary_path c) = Some (old\<lparr> df_mode := rb_binary_permissions c \<rparr>) \<and>
               hm_get (fst s') (rollback_backup_path c) = None
    | Inl _ \<Rightarrow> hm_get (fst s') (rb_binary_path c) = Some old \<or> hm_get (fst s') (rollback_backup_path c) = Some old"
proof -
  have "rollback_backup_path c \<noteq> rb_binary_path c" using assms(1) by (simp add: rollback_backup_path_def)
  then show ?thesis
    using assms(2,3) by (auto simp: rollback_binary_def io_defs Let_def split: option.splits if_splits)
qed

lemma rollback_returns:
  assumes "rb_backup_suffix c \<noteq> []" "hm_get (fst s) (rollback_backup_path c) = Some old" "\<And>n. fault n = None"
  shows "\<exists>rr s'. rollback_binary fault now c s = (Inr rr, s')"
proof -
  have "rollback_backup_path c \<noteq> rb_binary_path c" using assms(1) by (simp add: rollback_backup_path_def)
  then show ?thesis
    using assms(2,3) by (auto simp: rollback_binary_def io_defs Let_def split: option.split)
qed

text \<open>
  C38: A rollback undoes a successful swap: it puts the binary that the swap replaced back in
  place, with the configured mode, and it does return when no call fails; when it returns an
  error the old binary is still in place or still the backup.
\<close>

theorem rollback_undoes_swap:
  assumes "sw_backup_suffix c \<noteq> []" "new \<notin> {sw_current_binary c, swap_backup_path c}"
    and "hm_get (fst s) (sw_current_binary c) = Some old"
    and "swap_binary fault partial now c new s = (Inr sr, s1)" "sr_success sr"
    and "rb_binary_path rc = sw_current_binary c" "rb_backup_suffix rc = sw_backup_suffix c"
    and "rollback_binary fault' now' rc s1 = (r, s2)"
  shows "(case r of
      Inr rr \<Rightarrow> hm_get (fst s2) (sw_current_binary c) = Some (old\<lparr> df_mode := rb_binary_permissions rc \<rparr>)
    | Inl _ \<Rightarrow> hm_get (fst s2) (sw_current_binary c) = Some old \<or> hm_get (fst s2) (swap_backup_path c) = Some old) \<and>
    ((\<forall>n. fault' n = None) \<longrightarrow> \<not> isl r)"
proof -
  have path: "rollback_backup_path rc = swap_backup_path c"
    using assms(6,7) by (simp add: rollback_backup_path_def swap_backup_path_def)
  have b: "hm_get (fst s1) (rollback_backup_path rc) = Some old"
    using swap_binary_disk [OF assms(1-4)] assms(5) by (simp add: path)
  have suf: "rb_backup_suffix rc \<noteq> []" using assms(1,7) by simp
  have "(\<forall>n. fault' n = None) \<longrightarrow> \<not> isl r"
    using rollback_returns [OF suf b, of fault' now'] assms(8) by auto
  then show ?thesis using rollback_keeps_backup [OF suf b assms(8)] assms(6) path by (cases r) simp_all
qed


theorem rollback_undoes_swap_witness:
  "hm_get (fst (snd (rollback_binary (\<lambda>_. None) 0 (rollback_config_default\<lparr> rb_binary_path := ''/bin/ff'' \<rparr>)
      (snd (swap_binary (\<lambda>_. None) None 0 small_swapper ''/build/ff'' small_disk))))) ''/bin/ff''
    = Some \<lparr> df_content = ''old'', df_size = 3, df_mode = 493 \<rparr>"
proof -
  let ?swap = "swap_binary (\<lambda>_. None) None 0 small_swapper ''/build/ff'' small_disk"
  let ?rc = "rollback_config_default\<lparr> rb_binary_path := ''/bin/ff'' \<rparr>"
  let ?undo = "rollback_binary (\<lambda>_. None) 0 ?rc (snd ?swap)"
  note ev = small_swapper_def swapper_config_default_def swap_backup_path_def rollback_config_default_def
  have suf: "sw_backup_suffix small_swapper \<noteq> []" by (simp add: ev)
  have new: "''/build/ff'' \<notin> {sw_current_binary small_swapper, swap_backup_path small_swapper}" by (simp add: ev)
  have old: "hm_get (fst small_disk) (sw_current_binary small_swapper) = Some \<lparr> df_content = ''old'', df_size = 3, df_mode = 493 \<rparr>"
    by (simp add: ev small_disk_def hm_get_def)
  have "(case fst ?swap of Inr sr \<Rightarrow> sr_success sr | Inl _ \<Rightarrow> False)" by code_simp
  then obtain sr where sr: "?swap = (Inr sr, snd ?swap)" "sr_success sr" by (cases ?swap) (auto split: sum.splits)
  have rc: "rb_binary_path ?rc = sw_current_binary small_swapper" "rb_backup_suffix ?rc = sw_backup_suffix small_swapper"
    by (simp_all add: ev)
  have rb: "?undo = (fst ?undo, snd ?undo)" by simp
  from rollback_undoes_swap [OF suf new old sr rc rb]
  show ?thesis by (cases "fst ?undo") (auto simp: ev)
qed

end
