(* ===== verification/Update_Build.thy ===== *)
theory Update_Build
  imports Canary Fleet_Text
begin

text \<open>
  Looking for an update, building it and checking the result:
  \<^verbatim>\<open>crates/ff-updater/src/checker.rs\<close>, \<^verbatim>\<open>builder.rs\<close>, \<^verbatim>\<open>verifier.rs\<close> and the messages of
  \<^verbatim>\<open>error.rs\<close>.

  The commands that are run are the outside world: \<open>run n program args\<close> is what command \<open>n\<close>
  of an operation answers, its exit status and its output, or the error of starting it. How
  long command \<open>n\<close> took, the reply of the GitHub API and what the file system says of a
  path are arguments as well.
\<close>

section \<open>Commands and messages\<close>

record cmd_output =
  out_success :: bool
  out_code :: "int option"
  out_stdout :: string
  out_stderr :: string

type_synonym runner = "nat \<Rightarrow> string \<Rightarrow> string list \<Rightarrow> (cmd_output, string) result"

definition exit_code :: "cmd_output \<Rightarrow> int" where
  "exit_code out = (case out_code out of Some c \<Rightarrow> c | None \<Rightarrow> - 1)"

definition combined_output :: "cmd_output \<Rightarrow> string" where
  "combined_output out = out_stdout out @ [CHR 0x0A] @ out_stderr out"

fun update_error_str :: "update_error \<Rightarrow> string" where
  "update_error_str (CheckFailed reason) = ''update check failed: '' @ reason"
| "update_error_str (GitCommand command err) = ''git command failed: '' @ command @ '' '' @ utf8_em_dash @ '' '' @ err"
| "update_error_str (GitPullFailed err) = ''git pull failed: '' @ err"
| "update_error_str (BuildFailed code err) = ''cargo build failed (exit '' @ show_int (sint code) @ ''): '' @ err"
| "update_error_str (TestFailed code err) = ''cargo test failed (exit '' @ show_int (sint code) @ ''): '' @ err"
| "update_error_str (BinaryNotFound p) = ''binary not found at '' @ p"
| "update_error_str (BinaryTooSmall nbytes least) =
     ''binary too small ('' @ show_nat (unat nbytes) @ '' bytes, min '' @ show_nat (unat least) @ '')''"
| "update_error_str (VersionCheckFailed reason) = ''binary version check failed: '' @ reason"
| "update_error_str (SmokeTestFailed command err) = ''smoke test failed: '' @ command @ '' '' @ utf8_em_dash @ '' '' @ err"
| "update_error_str (BackupFailed reason) = ''swap failed: could not rename current binary to .bak: '' @ reason"
| "update_error_str (CopyFailed reason) = ''swap failed: could not copy new binary into place: '' @ reason"
| "update_error_str (PermissionFailed reason) = ''swap failed: permission fix failed: '' @ reason"
| "update_error_str (NoBackup p) = ''rollback failed: no .bak file at '' @ p"
| "update_error_str (RollbackFailed reason) = ''rollback failed: '' @ reason"
| "update_error_str (HealthCheckFailed reason) = ''health check failed after rollback: '' @ reason"
| "update_error_str (AlreadyInProgress st) = ''update already in progress (state: '' @ st @ '')''"
| "update_error_str (FleetCoordination reason) = ''fleet coordination error: '' @ reason"
| "update_error_str (UpdateIo e) = ''IO error: '' @ e"
| "update_error_str (UpdateHttp e) = ''HTTP error: '' @ e"
| "update_error_str (UpdateOther e) = e"

section \<open>The checker\<close>

record checker_config =
  ck_repo_path :: string
  ck_remote :: string
  ck_branch :: string
  ck_check_interval_secs :: u64
  ck_github_repo :: "string option"
  ck_github_token :: "string option"

definition checker_config_default :: checker_config where
  "checker_config_default =
     \<lparr> ck_repo_path = ''.'', ck_remote = ''origin'', ck_branch = ''main'', ck_check_interval_secs = 3600,
       ck_github_repo = None, ck_github_token = None \<rparr>"

record check_result =
  kr_update_available :: bool
  kr_local_sha :: string
  kr_remote_sha :: string
  kr_commits_behind :: u64
  kr_checked_at :: datetime

record update_checker =
  uc_config :: checker_config
  uc_last_check :: "check_result option"

definition update_checker_new :: "checker_config \<Rightarrow> update_checker" where
  "update_checker_new c = \<lparr> uc_config = c, uc_last_check = None \<rparr>"

definition checker_interval :: "update_checker \<Rightarrow> std_duration" where
  "checker_interval uc = unat (ck_check_interval_secs (uc_config uc)) * 1000000000"

definition checker_should_check :: "datetime \<Rightarrow> update_checker \<Rightarrow> bool" where
  "checker_should_check now uc =
     (case uc_last_check uc of
        None \<Rightarrow> True
      | Some r \<Rightarrow> sint (ck_check_interval_secs (uc_config uc)) \<le> num_seconds (now - kr_checked_at r))"

text \<open>A fetch that fails is not fatal: the references fetched before are compared.\<close>

definition git_fetch :: "runner \<Rightarrow> nat \<Rightarrow> string \<Rightarrow> (unit, update_error) result" where
  "git_fetch run n remote =
     (case run n ''git'' [''fetch'', remote, ''--quiet''] of
        Inl e \<Rightarrow> Inl (GitCommand (''git fetch '' @ remote) e)
      | Inr _ \<Rightarrow> Inr ())"

definition git_remote_ref_exists :: "runner \<Rightarrow> nat \<Rightarrow> string \<Rightarrow> string \<Rightarrow> (bool, update_error) result" where
  "git_remote_ref_exists run n remote branch =
     (let remote_ref = ''refs/remotes/'' @ remote @ ''/'' @ branch
      in case run n ''git'' [''show-ref'', ''--verify'', ''--quiet'', remote_ref] of
           Inl e \<Rightarrow> Inl (GitCommand (''git show-ref --verify --quiet '' @ remote_ref) e)
         | Inr out \<Rightarrow> Inr (out_success out))"

definition git_rev_parse :: "runner \<Rightarrow> nat \<Rightarrow> string \<Rightarrow> (string, update_error) result" where
  "git_rev_parse run n rev_name =
     (case run n ''git'' [''rev-parse'', rev_name] of
        Inl e \<Rightarrow> Inl (GitCommand (''git rev-parse '' @ rev_name) e)
      | Inr out \<Rightarrow>
          if \<not> out_success out then Inl (GitCommand (''git rev-parse '' @ rev_name) (out_stderr out))
          else Inr (trim_ws (out_stdout out)))"

definition parse_u64 :: "string \<Rightarrow> u64 option" where
  "parse_u64 s =
     (case parse_nat (if s \<noteq> [] \<and> hd s = CHR ''+'' then tl s else s) of
        None \<Rightarrow> None | Some n \<Rightarrow> if n < 2 ^ 64 then Some (of_nat n) else None)"

definition git_rev_list_count :: "runner \<Rightarrow> nat \<Rightarrow> string \<Rightarrow> string \<Rightarrow> (u64, update_error) result" where
  "git_rev_list_count run n from_ref to_ref =
     (let range = from_ref @ ''..'' @ to_ref; command = ''git rev-list '' @ range @ '' --count''
      in case run n ''git'' [''rev-list'', range, ''--count''] of
           Inl e \<Rightarrow> Inl (GitCommand command e)
         | Inr out \<Rightarrow>
             if \<not> out_success out then Inr 0
             else let count_str = trim_ws (out_stdout out)
                  in case parse_u64 count_str of
                       Some k \<Rightarrow> Inr k
                     | None \<Rightarrow> Inl (GitCommand command (''could not parse count: '' @ count_str)))"

definition check_git :: "runner \<Rightarrow> datetime \<Rightarrow> update_checker \<Rightarrow> (check_result, update_error) result \<times> update_checker" where
  "check_git run now uc =
     (let c = uc_config uc; remote_ref = ck_remote c @ ''/'' @ ck_branch c;
          finish = (\<lambda>r. (Inr r, uc\<lparr> uc_last_check := Some r \<rparr>))
      in case git_fetch run 0 (ck_remote c) of
           Inl e \<Rightarrow> (Inl e, uc)
         | Inr _ \<Rightarrow>
             (case git_rev_parse run 1 ''HEAD'' of
                Inl e \<Rightarrow> (Inl e, uc)
              | Inr local_sha \<Rightarrow>
                  (case git_remote_ref_exists run 2 (ck_remote c) (ck_branch c) of
                     Inl e \<Rightarrow> (Inl e, uc)
                   | Inr found \<Rightarrow>
                       if \<not> found
                       then finish \<lparr> kr_update_available = False, kr_local_sha = local_sha, kr_remote_sha = local_sha,
                                     kr_commits_behind = 0, kr_checked_at = now \<rparr>
                       else
                         (case git_rev_parse run 3 remote_ref of
                            Inl e \<Rightarrow> (Inl e, uc)
                          | Inr remote_sha \<Rightarrow>
                              (case git_rev_list_count run 4 ''HEAD'' remote_ref of
                                 Inl e \<Rightarrow> (Inl e, uc)
                               | Inr behind \<Rightarrow>
                                   finish \<lparr> kr_update_available = (local_sha \<noteq> remote_sha), kr_local_sha = local_sha,
                                            kr_remote_sha = remote_sha, kr_commits_behind = behind, kr_checked_at = now \<rparr>)))))"

text \<open>The reply of the API: its printed status, whether that is a success, and its body or why it has none.\<close>

record api_reply =
  ar_status :: string
  ar_success :: bool
  ar_body :: "(json, string) result"

definition check_github_api ::
  "runner \<Rightarrow> (string \<Rightarrow> (api_reply, string) result) \<Rightarrow> datetime \<Rightarrow> update_checker \<Rightarrow>
   (check_result, update_error) result \<times> update_checker" where
  "check_github_api run http now uc =
     (case ck_github_repo (uc_config uc) of
        None \<Rightarrow> (Inl (CheckFailed ''github_repo not configured''), uc)
      | Some repo \<Rightarrow>
          (case git_rev_parse run 0 ''HEAD'' of
             Inl e \<Rightarrow> (Inl e, uc)
           | Inr local_sha \<Rightarrow>
               (case http (''https://api.github.com/repos/'' @ repo @ ''/commits/'' @ ck_branch (uc_config uc)) of
                  Inl e \<Rightarrow> (Inl (CheckFailed (''GitHub API request failed: '' @ e)), uc)
                | Inr reply \<Rightarrow>
                    if \<not> ar_success reply then (Inl (CheckFailed (''GitHub API returned '' @ ar_status reply)), uc)
                    else
                      (case ar_body reply of
                         Inl e \<Rightarrow> (Inl (CheckFailed (''failed to parse GitHub response: '' @ e)), uc)
                       | Inr body \<Rightarrow>
                           (case Option.bind (json_get ''sha'' body) json_as_str of
                              None \<Rightarrow> (Inl (CheckFailed ''no 'sha' field in GitHub response''), uc)
                            | Some remote_sha \<Rightarrow>
                                let r = \<lparr> kr_update_available = (local_sha \<noteq> remote_sha), kr_local_sha = local_sha,
                                          kr_remote_sha = remote_sha, kr_commits_behind = 0, kr_checked_at = now \<rparr>
                                in (Inr r, uc\<lparr> uc_last_check := Some r \<rparr>))))))"

section \<open>The builder\<close>

record builder_config =
  bc_repo_path :: string
  bc_remote :: string
  bc_branch :: string
  bc_binary_name :: string
  bc_extra_build_flags :: "string list"
  bc_run_tests :: bool
  bc_build_timeout_secs :: u64
  bc_test_timeout_secs :: u64

definition builder_config_default :: builder_config where
  "builder_config_default =
     \<lparr> bc_repo_path = ''.'', bc_remote = ''origin'', bc_branch = ''main'', bc_binary_name = ''forgefleet'',
       bc_extra_build_flags = [], bc_run_tests = True, bc_build_timeout_secs = 1800, bc_test_timeout_secs = 600 \<rparr>"

record build_result =
  br_success :: bool
  br_binary_path :: "string option"
  br_built_sha :: string
  br_pull_duration :: std_duration
  br_build_duration :: std_duration
  br_test_duration :: "std_duration option"
  br_pull_log :: string
  br_build_log :: string
  br_test_log :: "string option"
  br_completed_at :: datetime

definition git_pull :: "runner \<Rightarrow> nat \<Rightarrow> builder_config \<Rightarrow> (string, update_error) result" where
  "git_pull run n c =
     (case run n ''git'' [''pull'', bc_remote c, bc_branch c] of
        Inl e \<Rightarrow> Inl (GitPullFailed e)
      | Inr out \<Rightarrow> if \<not> out_success out then Inl (GitPullFailed (out_stderr out)) else Inr (combined_output out))"

definition git_head_sha :: "runner \<Rightarrow> nat \<Rightarrow> (string, update_error) result" where
  "git_head_sha run n =
     (case run n ''git'' [''rev-parse'', ''HEAD''] of
        Inl e \<Rightarrow> Inl (GitCommand ''git rev-parse HEAD'' e)
      | Inr out \<Rightarrow>
          if \<not> out_success out then Inl (GitCommand ''git rev-parse HEAD'' (out_stderr out))
          else Inr (trim_ws (out_stdout out)))"

definition cargo_build :: "runner \<Rightarrow> nat \<Rightarrow> builder_config \<Rightarrow> (string, update_error) result" where
  "cargo_build run n c =
     (case run n ''cargo'' ([''build'', ''--release''] @ bc_extra_build_flags c) of
        Inl e \<Rightarrow> Inl (BuildFailed (- 1) e)
      | Inr out \<Rightarrow>
          if \<not> out_success out then Inl (BuildFailed (word_of_int (exit_code out)) (out_stderr out))
          else Inr (combined_output out))"

definition cargo_test :: "runner \<Rightarrow> nat \<Rightarrow> (string, update_error) result" where
  "cargo_test run n =
     (case run n ''cargo'' [''test'', ''--workspace'', ''--lib''] of
        Inl e \<Rightarrow> Inl (TestFailed (- 1) e)
      | Inr out \<Rightarrow>
          if \<not> out_success out then Inl (TestFailed (word_of_int (exit_code out)) (out_stderr out))
          else Inr (combined_output out))"

text \<open>\<open>Path::join\<close> on the printed paths.\<close>

definition path_str_join :: "string \<Rightarrow> string \<Rightarrow> string" where
  "path_str_join a b =
     (if b \<noteq> [] \<and> hd b = CHR ''/'' then b
      else if a = [] \<or> last a = CHR ''/'' then a @ b else a @ ''/'' @ b)"

definition built_binary_path :: "builder_config \<Rightarrow> string" where
  "built_binary_path c = path_str_join (path_str_join (path_str_join (bc_repo_path c) ''target'') ''release'') (bc_binary_name c)"

definition build_source ::
  "runner \<Rightarrow> (nat \<Rightarrow> std_duration) \<Rightarrow> (string \<Rightarrow> bool) \<Rightarrow> datetime \<Rightarrow> builder_config \<Rightarrow> (build_result, update_error) result" where
  "build_source run took exists now c =
     (case git_pull run 0 c of
        Inl e \<Rightarrow> Inl e
      | Inr pull_log \<Rightarrow>
          (case git_head_sha run 1 of
             Inl e \<Rightarrow> Inl e
           | Inr sha \<Rightarrow>
               (case cargo_build run 2 c of
                  Inl e \<Rightarrow>
                    Inr \<lparr> br_success = False, br_binary_path = None, br_built_sha = sha, br_pull_duration = took 0,
                          br_build_duration = 0, br_test_duration = None, br_pull_log = pull_log,
                          br_build_log = update_error_str e, br_test_log = None, br_completed_at = now \<rparr>
                | Inr build_log \<Rightarrow>
                    (case (if bc_run_tests c then map_sum id Some (cargo_test run 3) else Inr None) of
                       Inl e \<Rightarrow>
                         Inr \<lparr> br_success = False, br_binary_path = None, br_built_sha = sha, br_pull_duration = took 0,
                               br_build_duration = took 2, br_test_duration = Some 0, br_pull_log = pull_log,
                               br_build_log = build_log, br_test_log = Some (update_error_str e), br_completed_at = now \<rparr>
                     | Inr test_log \<Rightarrow>
                         let p = built_binary_path c; there = exists p
                         in Inr \<lparr> br_success = there, br_binary_path = (if there then Some p else None), br_built_sha = sha,
                                  br_pull_duration = took 0, br_build_duration = took 2,
                                  br_test_duration = map_option (\<lambda>_. took 3) test_log, br_pull_log = pull_log,
                                  br_build_log = build_log, br_test_log = test_log, br_completed_at = now \<rparr>))))"

section \<open>The verifier\<close>

record verifier_config =
  vc_min_binary_size :: u64
  vc_max_binary_size :: u64
  vc_version_flag :: string
  vc_smoke_tests :: "string list"
  vc_verify_timeout_secs :: u64

definition verifier_config_default :: verifier_config where
  "verifier_config_default =
     \<lparr> vc_min_binary_size = 1048576, vc_max_binary_size = 524288000, vc_version_flag = ''--version'',
       vc_smoke_tests = [], vc_verify_timeout_secs = 30 \<rparr>"

record smoke_test_result =
  st_command :: string
  st_passed :: bool
  st_output :: string

record verify_result =
  vr_passed :: bool
  vr_binary_size :: u64
  vr_version_output :: "string option"
  vr_smoke_test_results :: "smoke_test_result list"
  vr_summary :: string

definition check_version :: "runner \<Rightarrow> nat \<Rightarrow> string \<Rightarrow> verifier_config \<Rightarrow> (string, update_error) result" where
  "check_version run n binary_path c =
     (case run n binary_path [vc_version_flag c] of
        Inl e \<Rightarrow> Inl (VersionCheckFailed (''failed to execute: '' @ e))
      | Inr out \<Rightarrow>
          if \<not> out_success out
          then Inl (VersionCheckFailed (''exit code '' @ show_int (exit_code out) @ '': '' @ out_stderr out))
          else if trim_ws (out_stdout out) = []
          then (if trim_ws (out_stderr out) = [] then Inl (VersionCheckFailed ''no output from --version'')
                else Inr (out_stderr out))
          else Inr (out_stdout out))"

text \<open>\<open>str::replace\<close>, for a pattern that is not empty.\<close>

function str_replace :: "string \<Rightarrow> string \<Rightarrow> string \<Rightarrow> string" where
  "str_replace pat by_str s =
     (case str_find pat s of
        None \<Rightarrow> s
      | Some i \<Rightarrow> if pat = [] then s else take i s @ by_str @ str_replace pat by_str (drop (i + length pat) s))"
  by pat_completeness auto
termination
proof (relation "measure (\<lambda>(pat, by_str, s). length s)")
  fix pat by_str s :: string and i
  assume "str_find pat s = Some i" "pat \<noteq> []"
  then have "s \<noteq> []" by (cases s) auto
  with \<open>pat \<noteq> []\<close> show "((pat, by_str, drop (i + length pat) s), pat, by_str, s) \<in> measure (\<lambda>(pat, by_str, s). length s)"
    by simp
qed simp

definition run_smoke_test :: "runner \<Rightarrow> nat \<Rightarrow> string \<Rightarrow> string \<Rightarrow> smoke_test_result" where
  "run_smoke_test run n binary_path template =
     (let command = str_replace ''{binary}'' binary_path template
      in case split_whitespace command of
           [] \<Rightarrow> \<lparr> st_command = command, st_passed = False, st_output = ''empty command'' \<rparr>
         | program # args \<Rightarrow>
             (case run n program args of
                Inr out \<Rightarrow> \<lparr> st_command = command, st_passed = out_success out, st_output = combined_output out \<rparr>
              | Inl e \<Rightarrow> \<lparr> st_command = command, st_passed = False, st_output = e \<rparr>))"

text \<open>The version check is command 0, smoke test \<open>k\<close> is command \<open>k + 1\<close>.\<close>

definition smoke_results :: "runner \<Rightarrow> string \<Rightarrow> verifier_config \<Rightarrow> smoke_test_result list" where
  "smoke_results run binary_path c =
     map (\<lambda>(k, t). run_smoke_test run (Suc k) binary_path t) (enumerate 0 (vc_smoke_tests c))"

definition verify_issues :: "u64 \<Rightarrow> (string, update_error) result \<Rightarrow> smoke_test_result list \<Rightarrow> verifier_config \<Rightarrow> string list" where
  "verify_issues nbytes version results c =
     (if nbytes > vc_max_binary_size c
      then [''binary is unusually large ('' @ show_nat (unat nbytes) @ '' bytes, max '' @ show_nat (unat (vc_max_binary_size c)) @ '')'']
      else []) @
     (case version of Inl e \<Rightarrow> [''version check failed: '' @ update_error_str e] | Inr _ \<Rightarrow> []) @
     map (\<lambda>(t, r). ''smoke test failed: '' @ t) (filter (\<lambda>(t, r). \<not> st_passed r) (zip (vc_smoke_tests c) results))"

definition verify_binary ::
  "runner \<Rightarrow> (string \<Rightarrow> bool) \<Rightarrow> (string \<Rightarrow> (u64, string) result) \<Rightarrow> string \<Rightarrow> verifier_config \<Rightarrow> (verify_result, update_error) result" where
  "verify_binary run exists metadata_len binary_path c =
     (if \<not> exists binary_path then Inl (BinaryNotFound binary_path)
      else case metadata_len binary_path of
        Inl e \<Rightarrow> Inl (UpdateIo e)
      | Inr nbytes \<Rightarrow>
          if nbytes < vc_min_binary_size c then Inl (BinaryTooSmall nbytes (vc_min_binary_size c))
          else
            let version = check_version run 0 binary_path c;
                version_output = (case version of Inl _ \<Rightarrow> None | Inr v \<Rightarrow> Some v);
                results = smoke_results run binary_path c;
                issues = verify_issues nbytes version results c;
                passed = (issues = [] \<and> version_output \<noteq> None);
                summary = (if passed
                  then ''All checks passed. Binary: '' @ show_nat (unat nbytes) @ '' bytes, '' @ show_nat (length results) @ '' smoke tests OK.''
                  else ''Verification issues: '' @ str_join ''; '' issues)
            in Inr \<lparr> vr_passed = passed, vr_binary_size = nbytes, vr_version_output = version_output,
                     vr_smoke_test_results = results, vr_summary = summary \<rparr>)"

text \<open>The version of a binary that was rolled back to (\<^verbatim>\<open>rollback.rs\<close>).\<close>

definition check_restored_version :: "runner \<Rightarrow> string \<Rightarrow> (string, update_error) result" where
  "check_restored_version run binary =
     (case run 0 binary [''--version''] of
        Inl e \<Rightarrow> Inl (HealthCheckFailed (''could not execute restored binary: '' @ e))
      | Inr out \<Rightarrow>
          if \<not> out_success out
          then Inl (HealthCheckFailed (''restored binary --version failed with exit code '' @ show_int (exit_code out)))
          else Inr (trim_ws (out_stdout out)))"

section \<open>What a success means\<close>

text \<open>A build succeeds exactly when every command does and the binary is there; then, and only then, it names it.\<close>

lemma build_success_iff:
  "build_source run took exists now c = Inr b \<Longrightarrow>
   br_success b \<longleftrightarrow> \<not> isl (cargo_build run 2 c) \<and> (bc_run_tests c \<longrightarrow> \<not> isl (cargo_test run 3)) \<and> exists (built_binary_path c)"
  "build_source run took exists now c = Inr b \<Longrightarrow>
   br_binary_path b = (if br_success b then Some (built_binary_path c) else None)"
  by (cases "cargo_test run 3"; auto simp: build_source_def Let_def split: sum.splits if_splits)+

text \<open>A binary passes exactly when its size is in bounds, it states its version and every smoke test succeeds.\<close>

lemma verify_passed_iff:
  assumes "verify_binary run exists metadata_len p c = Inr v"
  shows "vr_passed v \<longleftrightarrow>
    vr_binary_size v \<le> vc_max_binary_size c \<and> \<not> isl (check_version run 0 p c) \<and>
    (\<forall>k < length (vc_smoke_tests c). st_passed (run_smoke_test run (Suc k) p (vc_smoke_tests c ! k)))"
    and "exists p \<and> metadata_len p = Inr (vr_binary_size v) \<and> vc_min_binary_size c \<le> vr_binary_size v"
proof -
  let ?rs = "smoke_results run p c"
  have rs: "length ?rs = length (vc_smoke_tests c)" "k < length ?rs \<Longrightarrow> ?rs ! k = run_smoke_test run (Suc k) p (vc_smoke_tests c ! k)" for k
    by (simp_all add: smoke_results_def nth_enumerate_eq)
  have tests: "(\<forall>e \<in> set (zip (vc_smoke_tests c) ?rs). st_passed (snd e)) \<longleftrightarrow>
      (\<forall>k < length (vc_smoke_tests c). st_passed (run_smoke_test run (Suc k) p (vc_smoke_tests c ! k)))"
    using rs by (simp add: all_set_conv_all_nth)
  have "filter (\<lambda>(t, r). \<not> st_passed r) (zip (vc_smoke_tests c) ?rs) = [] \<longleftrightarrow>
      (\<forall>e \<in> set (zip (vc_smoke_tests c) ?rs). st_passed (snd e))"
    by (auto simp: filter_empty_conv)
  then show "vr_passed v \<longleftrightarrow>
    vr_binary_size v \<le> vc_max_binary_size c \<and> \<not> isl (check_version run 0 p c) \<and>
    (\<forall>k < length (vc_smoke_tests c). st_passed (run_smoke_test run (Suc k) p (vc_smoke_tests c ! k)))"
    using assms tests by (auto simp: verify_binary_def verify_issues_def Let_def isl_def not_less split: if_splits sum.splits)
  show "exists p \<and> metadata_len p = Inr (vr_binary_size v) \<and> vc_min_binary_size c \<le> vr_binary_size v"
    using assms by (auto simp: verify_binary_def Let_def split: if_splits sum.splits)
qed

text \<open>Local commits that were never pushed count as an update although the clone is behind by none.\<close>

lemma ahead_counts_as_update:
  assumes "check_git run now uc = (Inr r, uc')" "git_remote_ref_exists run 2 (ck_remote (uc_config uc)) (ck_branch (uc_config uc)) = Inr True"
  shows "kr_update_available r \<longleftrightarrow> kr_local_sha r \<noteq> kr_remote_sha r"
  using assms by (auto simp: check_git_def Let_def split: sum.splits if_splits)

end
