(* ===== verification/Update_Orchestrator.thy ===== *)
theory Update_Orchestrator
  imports Update_Files Update_Build Rollout
begin

text \<open>
  The update of a node and of the fleet: \<^verbatim>\<open>crates/ff-updater/src/orchestrator.rs\<close>, over the
  checker, builder, verifier and swapper for its own binary and over the canary and the
  rollout controller for the other nodes.

  Everything outside the process is in an \<open>update_env\<close>: what the commands answer, what the
  build leaves on the disk, which file system calls fail, clock reads. The commands of the
  verifier are taken not to change the files of the updater.
\<close>

section \<open>States and records\<close>

datatype update_state =
  UpIdle | UpChecking | UpBuilding | UpVerifying | UpSwapping | UpWaitingRestart | UpComplete | UpFailed | UpRolledBack

fun update_state_str :: "update_state \<Rightarrow> string" where
  "update_state_str UpIdle = ''idle''"
| "update_state_str UpChecking = ''checking''"
| "update_state_str UpBuilding = ''building''"
| "update_state_str UpVerifying = ''verifying''"
| "update_state_str UpSwapping = ''swapping''"
| "update_state_str UpWaitingRestart = ''waiting_restart''"
| "update_state_str UpComplete = ''complete''"
| "update_state_str UpFailed = ''failed''"
| "update_state_str UpRolledBack = ''rolled_back''"

record update_record =
  ur_id :: uuid
  ur_worker_name :: string
  ur_state :: update_state
  ur_started_at :: datetime
  ur_completed_at :: "datetime option"
  ur_check_result :: "check_result option"
  ur_build_result :: "build_result option"
  ur_verify_result :: "verify_result option"
  ur_swap_result :: "swap_result option"
  ur_rollback_result :: "rollback_result option"
  ur_error :: "string option"

definition update_record_new :: "uuid \<Rightarrow> datetime \<Rightarrow> string \<Rightarrow> update_record" where
  "update_record_new uid now worker =
     \<lparr> ur_id = uid, ur_worker_name = worker, ur_state = UpIdle, ur_started_at = now, ur_completed_at = None,
       ur_check_result = None, ur_build_result = None, ur_verify_result = None, ur_swap_result = None,
       ur_rollback_result = None, ur_error = None \<rparr>"

definition record_fail :: "datetime \<Rightarrow> string \<Rightarrow> update_record \<Rightarrow> update_record" where
  "record_fail now e r = r\<lparr> ur_state := UpFailed, ur_error := Some e, ur_completed_at := Some now \<rparr>"

definition record_complete :: "datetime \<Rightarrow> update_record \<Rightarrow> update_record" where
  "record_complete now r = r\<lparr> ur_state := UpComplete, ur_completed_at := Some now \<rparr>"

record rolling_update_config =
  ru_max_concurrent :: nat
  ru_stagger_delay_secs :: u64
  ru_abort_on_failure :: bool
  ru_node_order :: "string list"


record orchestrator_config =
  oc_worker_name :: string
  oc_checker :: checker_config
  oc_builder :: builder_config
  oc_verifier :: verifier_config
  oc_swapper :: swapper_config
  oc_rollback :: rollback_config
  oc_rolling :: rolling_update_config
  oc_canary :: canary_policy
  oc_auto_update :: bool

datatype restart_signal = TouchFile string | ExitCode int | NoRestart

record update_orchestrator =
  uo_config :: orchestrator_config
  uo_current_update :: "update_record option"
  uo_history :: "update_record list"
  uo_restart_signal :: restart_signal
  uo_canary :: "canary_orchestrator option"
  uo_rollout :: "rollout_status option"

definition update_orchestrator_new :: "orchestrator_config \<Rightarrow> restart_signal \<Rightarrow> update_orchestrator" where
  "update_orchestrator_new c sig =
     \<lparr> uo_config = c, uo_current_update = None, uo_history = [], uo_restart_signal = sig, uo_canary = None, uo_rollout = None \<rparr>"

definition uo_state :: "update_orchestrator \<Rightarrow> update_state" where
  "uo_state uo = (case uo_current_update uo of Some r \<Rightarrow> ur_state r | None \<Rightarrow> UpIdle)"

definition uo_is_busy :: "update_orchestrator \<Rightarrow> bool" where
  "uo_is_busy uo \<longleftrightarrow> uo_state uo \<in> {UpChecking, UpBuilding, UpVerifying, UpSwapping, UpWaitingRestart}"

section \<open>The canary and the rollout\<close>

definition begin_canary_update ::
  "datetime \<Rightarrow> fleet_computer list \<Rightarrow> string \<Rightarrow> update_orchestrator \<Rightarrow> (string list, update_error) result \<times> update_orchestrator" where
  "begin_canary_update now fleet v uo =
     (if uo_is_busy uo then (Inl (AlreadyInProgress (update_state_str (uo_state uo))), uo)
      else case select_canary_nodes now fleet (canary_new (oc_canary (uo_config uo)) v) of
        (_, Inl e) \<Rightarrow> (Inl e, uo)
      | (co, Inr canary_nodes) \<Rightarrow>
          (Inr canary_nodes,
           uo\<lparr> uo_canary := Some (begin_canary_deploy co),
               uo_rollout := Some (controller_new (plan_from_fleet fleet canary_nodes v)) \<rparr>))"

definition report_canary_node_updated :: "datetime \<Rightarrow> string \<Rightarrow> update_orchestrator \<Rightarrow> update_orchestrator" where
  "report_canary_node_updated now worker uo =
     uo\<lparr> uo_canary := map_option (canary_mark_node_updated now worker) (uo_canary uo) \<rparr>"

definition uo_check_canary_health ::
  "(nat \<Rightarrow> gate_env) \<Rightarrow> (nat \<Rightarrow> datetime) \<Rightarrow> fleet_computer list \<Rightarrow> update_orchestrator \<Rightarrow> bool \<times> update_orchestrator" where
  "uo_check_canary_health env now fleet uo =
     (case uo_canary uo of
        None \<Rightarrow> (False, uo)
      | Some c \<Rightarrow> (case check_canary_health env now fleet c of (c', ok) \<Rightarrow> (ok, uo\<lparr> uo_canary := Some c' \<rparr>)))"

definition promote_and_start_rollout ::
  "datetime \<Rightarrow> update_orchestrator \<Rightarrow> (string list, update_error) result \<times> update_orchestrator" where
  "promote_and_start_rollout now uo =
     (case uo_canary uo of
        None \<Rightarrow> (Inl (FleetCoordination ''no canary deployment in progress''), uo)
      | Some c \<Rightarrow>
          let uo1 = uo\<lparr> uo_canary := Some (begin_rollout (promote_canary c)) \<rparr>
          in case uo_rollout uo1 of
               None \<Rightarrow> (Inl (FleetCoordination ''no rollout controller available''), uo1)
             | Some r \<Rightarrow> (case start now r of (r', res) \<Rightarrow> (res, uo1\<lparr> uo_rollout := Some r' \<rparr>)))"

definition report_rollout_node_updated :: "datetime \<Rightarrow> datetime \<Rightarrow> string \<Rightarrow> update_orchestrator \<Rightarrow> update_orchestrator" where
  "report_rollout_node_updated now1 now2 worker uo =
     uo\<lparr> uo_rollout := map_option (mark_node_updated now1 now2 worker) (uo_rollout uo) \<rparr>"

definition report_rollout_node_healthy :: "datetime \<Rightarrow> datetime \<Rightarrow> string \<Rightarrow> update_orchestrator \<Rightarrow> update_orchestrator" where
  "report_rollout_node_healthy now1 now2 worker uo =
     uo\<lparr> uo_rollout := map_option (mark_node_healthy now1 now2 worker) (uo_rollout uo) \<rparr>"

definition report_rollout_node_failed :: "datetime \<Rightarrow> string \<Rightarrow> string \<Rightarrow> update_orchestrator \<Rightarrow> update_orchestrator" where
  "report_rollout_node_failed now worker err uo =
     uo\<lparr> uo_rollout := map_option (mark_node_failed now worker err) (uo_rollout uo) \<rparr>"

definition next_rollout_batch :: "update_orchestrator \<Rightarrow> string list \<times> update_orchestrator" where
  "next_rollout_batch uo =
     (case uo_rollout uo of
        None \<Rightarrow> ([], uo)
      | Some r \<Rightarrow> (case next_batch r of (r', batch) \<Rightarrow> (batch, uo\<lparr> uo_rollout := Some r' \<rparr>)))"

definition abort_canary_rollout :: "datetime \<Rightarrow> datetime \<Rightarrow> string list \<Rightarrow> update_orchestrator \<Rightarrow> update_orchestrator" where
  "abort_canary_rollout now1 now2 failed uo =
     uo\<lparr> uo_canary := map_option (mark_rolled_back now1 failed) (uo_canary uo),
         uo_rollout := map_option (\<lambda>r. fst (abort now2 r)) (uo_rollout uo) \<rparr>"

definition complete_canary_rollout :: "datetime \<Rightarrow> update_orchestrator \<Rightarrow> update_orchestrator" where
  "complete_canary_rollout now uo = uo\<lparr> uo_canary := map_option (mark_complete now) (uo_canary uo) \<rparr>"

definition pause_rollout :: "update_orchestrator \<Rightarrow> (unit, update_error) result \<times> update_orchestrator" where
  "pause_rollout uo =
     (case uo_rollout uo of
        None \<Rightarrow> (Inl (FleetCoordination ''no rollout in progress''), uo)
      | Some r \<Rightarrow> (case pause r of (r', res) \<Rightarrow> (res, uo\<lparr> uo_rollout := Some r' \<rparr>)))"

definition resume_rollout :: "update_orchestrator \<Rightarrow> (string list, update_error) result \<times> update_orchestrator" where
  "resume_rollout uo =
     (case uo_rollout uo of
        None \<Rightarrow> (Inl (FleetCoordination ''no rollout in progress''), uo)
      | Some r \<Rightarrow> (case resume r of (r', res) \<Rightarrow> (res, uo\<lparr> uo_rollout := Some r' \<rparr>)))"

section \<open>The update of this node\<close>

record 'b update_env =
  ue_id :: uuid
  ue_clk :: "nat \<Rightarrow> datetime"
  ue_check :: runner
  ue_build :: runner
  ue_took :: "nat \<Rightarrow> std_duration"
  ue_built :: "'b disk \<Rightarrow> 'b disk"
  ue_verify :: runner
  ue_len_error :: "string option"
  ue_fault :: faults
  ue_partial :: "'b disk_file option"
  ue_restart_error :: "string option"
  ue_restart_file :: "'b disk_file"

definition disk_len :: "string option \<Rightarrow> 'b disk \<Rightarrow> string \<Rightarrow> (u64, string) result" where
  "disk_len err d p =
     (case err of
        Some e \<Rightarrow> Inl e
      | None \<Rightarrow> (case hm_get d p of None \<Rightarrow> Inl no_such_file | Some f \<Rightarrow> Inr (df_size f)))"

definition archive_record :: "update_record \<Rightarrow> update_orchestrator \<Rightarrow> update_orchestrator" where
  "archive_record r uo =
     (let h = uo_history uo @ [r]
      in uo\<lparr> uo_current_update := Some r, uo_history := (if length h > 100 then drop 50 h else h) \<rparr>)"

text \<open>Only the restart file can fail, or changes the disk; the exit code is left to the caller.\<close>

definition signal_restart ::
  "string option \<Rightarrow> 'b disk_file \<Rightarrow> update_orchestrator \<Rightarrow> 'b disk \<Rightarrow> (unit, update_error) result \<times> 'b disk" where
  "signal_restart err file uo d =
     (case uo_restart_signal uo of
        TouchFile p \<Rightarrow>
          (case err of
             Some e \<Rightarrow> (Inl (UpdateOther (''failed to write restart signal: '' @ e)), d)
           | None \<Rightarrow> (Inr (), hm_insert p file d))
      | _ \<Rightarrow> (Inr (), d))"

text \<open>The stages of \<open>run_update\<close>, last one first. Each archives the record when it ends the run.\<close>

definition update_swap ::
  "'b update_env \<Rightarrow> string \<Rightarrow> update_record \<Rightarrow> update_orchestrator \<Rightarrow> 'b disk \<Rightarrow>
   update_record \<times> update_orchestrator \<times> 'b disk" where
  "update_swap env binary r uo d =
     (let finish = (\<lambda>r d. (r, archive_record r uo, d)); r = r\<lparr> ur_state := UpSwapping \<rparr>
      in case swap_binary (ue_fault env) (ue_partial env) (ue_clk env 3) (oc_swapper (uo_config uo)) binary (d, 0) of
           (Inl e, s) \<Rightarrow> finish (record_fail (ue_clk env 4) (''swap error: '' @ update_error_str e) r) (fst s)
         | (Inr sw, s) \<Rightarrow>
             if \<not> sr_success sw
             then finish (record_fail (ue_clk env 4) (''swap failed: '' @ sr_summary sw) (r\<lparr> ur_swap_result := Some sw \<rparr>)) (fst s)
             else (case signal_restart (ue_restart_error env) (ue_restart_file env) uo (fst s) of
                     (_, d') \<Rightarrow> finish (record_complete (ue_clk env 4) (r\<lparr> ur_swap_result := Some sw, ur_state := UpWaitingRestart \<rparr>)) d'))"

definition update_verify ::
  "'b update_env \<Rightarrow> string \<Rightarrow> update_record \<Rightarrow> update_orchestrator \<Rightarrow> 'b disk \<Rightarrow>
   update_record \<times> update_orchestrator \<times> 'b disk" where
  "update_verify env binary r uo d =
     (let finish = (\<lambda>r. (r, archive_record r uo, d)); r = r\<lparr> ur_state := UpVerifying \<rparr>
      in case verify_binary (ue_verify env) (hm_contains d) (disk_len (ue_len_error env) d) binary (oc_verifier (uo_config uo)) of
           Inl e \<Rightarrow> finish (record_fail (ue_clk env 4) (''verify error: '' @ update_error_str e) r)
         | Inr v \<Rightarrow>
             if \<not> vr_passed v
             then finish (record_fail (ue_clk env 4) (''verification failed: '' @ vr_summary v) (r\<lparr> ur_verify_result := Some v \<rparr>))
             else update_swap env binary (r\<lparr> ur_verify_result := Some v \<rparr>) uo d)"

definition update_build ::
  "'b update_env \<Rightarrow> update_record \<Rightarrow> update_orchestrator \<Rightarrow> 'b disk \<Rightarrow>
   (update_record \<times> update_orchestrator \<times> 'b disk) outcome" where
  "update_build env r uo d0 =
     (let d = ue_built env d0; finish = (\<lambda>r. Returns (r, archive_record r uo, d)); r = r\<lparr> ur_state := UpBuilding \<rparr>
      in case build_source (ue_build env) (ue_took env) (hm_contains d) (ue_clk env 2) (oc_builder (uo_config uo)) of
           Inl e \<Rightarrow> finish (record_fail (ue_clk env 4) (''build error: '' @ update_error_str e) r)
         | Inr b \<Rightarrow>
             if \<not> br_success b
             then finish (record_fail (ue_clk env 4) ''build completed but was not successful'' (r\<lparr> ur_build_result := Some b \<rparr>))
             else (case br_binary_path b of
                     None \<Rightarrow> Panics
                   | Some binary \<Rightarrow> Returns (update_verify env binary (r\<lparr> ur_build_result := Some b \<rparr>) uo d)))"

definition run_update ::
  "'b update_env \<Rightarrow> update_orchestrator \<Rightarrow> 'b disk \<Rightarrow>
   ((update_record, update_error) result \<times> update_orchestrator \<times> 'b disk) outcome" where
  "run_update env uo d =
     (if uo_is_busy uo then Returns (Inl (AlreadyInProgress (update_state_str (uo_state uo))), uo, d)
      else
        let r = (update_record_new (ue_id env) (ue_clk env 0) (oc_worker_name (uo_config uo)))\<lparr> ur_state := UpChecking \<rparr>;
            finish = (\<lambda>r. Returns (Inr r, archive_record r uo, d))
        in case fst (check_git (ue_check env) (ue_clk env 1) (update_checker_new (oc_checker (uo_config uo)))) of
             Inl e \<Rightarrow> finish (record_fail (ue_clk env 4) (''check failed: '' @ update_error_str e) r)
           | Inr check \<Rightarrow>
               if \<not> kr_update_available check
               then finish (record_complete (ue_clk env 4) (r\<lparr> ur_check_result := Some check \<rparr>))
               else (case update_build env (r\<lparr> ur_check_result := Some check \<rparr>) uo d of
                       Panics \<Rightarrow> Panics
                     | Returns (r', uo', d') \<Rightarrow> Returns (Inr r', uo', d')))"

definition uo_rollback ::
  "faults \<Rightarrow> (nat \<Rightarrow> datetime) \<Rightarrow> update_orchestrator \<Rightarrow> 'b disk \<Rightarrow>
   (rollback_result, update_error) result \<times> update_orchestrator \<times> 'b disk" where
  "uo_rollback fault clk uo d =
     (case rollback_binary fault (clk 0) (oc_rollback (uo_config uo)) (d, 0) of
        (Inl e, s) \<Rightarrow> (Inl e, uo, fst s)
      | (Inr res, s) \<Rightarrow>
          (Inr res, uo\<lparr> uo_current_update := map_option (\<lambda>r. r\<lparr> ur_rollback_result := Some res, ur_state := UpRolledBack,
                          ur_completed_at := Some (clk 1) \<rparr>) (uo_current_update uo) \<rparr>, fst s))"

definition is_my_turn :: "string list \<Rightarrow> update_orchestrator \<Rightarrow> bool" where
  "is_my_turn completed uo =
     (let order = ru_node_order (oc_rolling (uo_config uo)); me = oc_worker_name (uo_config uo)
      in if order = [] then True
         else case position (\<lambda>n. n = me) order of
                None \<Rightarrow> True
              | Some i \<Rightarrow> list_all (\<lambda>n. n \<in> set completed) (take i order))"


section \<open>Nothing unverified is installed\<close>










section \<open>Records\<close>

text \<open>A run ends complete or failed, and failed exactly when the record has an error.\<close>

definition record_closed :: "update_record \<Rightarrow> bool" where
  "record_closed r \<longleftrightarrow> ur_completed_at r \<noteq> None \<and>
     (ur_state r = UpComplete \<and> ur_error r = None \<or> ur_state r = UpFailed \<and> ur_error r \<noteq> None)"

lemma record_closed_intros [simp]:
  "record_closed (record_fail now e r)"
  "ur_error r = None \<Longrightarrow> record_closed (record_complete now r)"
  by (simp_all add: record_closed_def record_fail_def record_complete_def)

lemma update_verify_closed:
  "update_verify env binary r uo d = (r', uo', d') \<Longrightarrow> ur_error r = None \<Longrightarrow>
   record_closed r' \<and> uo' = archive_record r' uo"
  by (auto simp: update_verify_def update_swap_def Let_def case_prod_beta split: sum.splits if_splits prod.splits)

lemma run_update_closed:
  assumes "run_update env uo d = Returns (Inr r, uo', d')"
  shows "record_closed r \<and> uo' = archive_record r uo"
proof -
  have "ur_error (update_record_new uid now worker) = None" for uid now worker
    by (simp add: update_record_new_def)
  then show ?thesis
    using assms
    by (auto simp: run_update_def update_build_def Let_def split: if_splits sum.splits outcome.splits option.splits
        dest!: update_verify_closed)
qed

section \<open>Calls in any order\<close>

inductive updater_step :: "update_orchestrator \<Rightarrow> update_orchestrator \<Rightarrow> bool" where
  up_run: "run_update (env :: string update_env) uo d = Returns (res, uo', d') \<Longrightarrow> updater_step uo uo'"
| up_rollback: "uo_rollback fault clk uo (d :: string disk) = (res, uo', d') \<Longrightarrow> updater_step uo uo'"
| up_begin: "begin_canary_update now fleet v uo = (res, uo') \<Longrightarrow> updater_step uo uo'"
| up_canary: "updater_step uo (report_canary_node_updated now worker uo)"
| up_check: "updater_step uo (snd (uo_check_canary_health genv clk fleet uo))"
| up_promote: "updater_step uo (snd (promote_and_start_rollout now uo))"
| up_updated: "updater_step uo (report_rollout_node_updated now1 now2 worker uo)"
| up_healthy: "updater_step uo (report_rollout_node_healthy now1 now2 worker uo)"
| up_failed: "updater_step uo (report_rollout_node_failed now worker err uo)"
| up_next: "updater_step uo (snd (next_rollout_batch uo))"
| up_abort: "updater_step uo (abort_canary_rollout now1 now2 failed uo)"
| up_complete: "updater_step uo (complete_canary_rollout now uo)"
| up_pause: "updater_step uo (snd (pause_rollout uo))"
| up_resume: "updater_step uo (snd (resume_rollout uo))"

definition updater_ok :: "update_orchestrator \<Rightarrow> bool" where
  "updater_ok uo \<longleftrightarrow> \<not> uo_is_busy uo \<and> length (uo_history uo) \<le> 100 \<and> list_all record_closed (uo_history uo)"

lemma archive_ok: "updater_ok uo \<Longrightarrow> record_closed r \<Longrightarrow> updater_ok (archive_record r uo)"
  by (auto simp: updater_ok_def archive_record_def uo_is_busy_def uo_state_def record_closed_def Let_def list_all_iff
      dest: in_set_dropD)

lemma updater_ok_cong:
  "updater_ok uo \<Longrightarrow> uo_current_update uo' = uo_current_update uo \<Longrightarrow> uo_history uo' = uo_history uo \<Longrightarrow> updater_ok uo'"
  by (simp add: updater_ok_def uo_is_busy_def uo_state_def)

lemma updater_step_ok: "updater_step uo uo' \<Longrightarrow> updater_ok uo \<Longrightarrow> updater_ok uo'"
proof (induction rule: updater_step.induct)
  case (up_run env uo d res uo' d')
  show ?case
  proof (cases res)
    case (Inl e)
    then show ?thesis using up_run
      by (auto simp: run_update_def update_build_def Let_def split: if_splits sum.splits outcome.splits option.splits prod.splits)
  next
    case (Inr r)
    then show ?thesis using run_update_closed [of env uo d r uo' d'] up_run archive_ok by simp
  qed
next
  case (up_rollback fault clk uo d res uo' d')
  then show ?case
    by (auto simp: uo_rollback_def updater_ok_def uo_is_busy_def uo_state_def split: prod.splits sum.splits option.splits)
next
  case (up_begin now fleet v uo res uo')
  then show ?case by (auto simp: begin_canary_update_def split: if_splits prod.splits sum.splits elim!: updater_ok_cong)
qed (erule updater_ok_cong;
     simp add: report_canary_node_updated_def uo_check_canary_health_def promote_and_start_rollout_def
       report_rollout_node_updated_def report_rollout_node_healthy_def report_rollout_node_failed_def next_rollout_batch_def
       abort_canary_rollout_def complete_canary_rollout_def pause_rollout_def resume_rollout_def Let_def case_prod_beta
       split: option.split)+

interpretation updater: invariant_machine updater_step updater_ok
  by unfold_locales (rule updater_step_ok)

text \<open>So no call ever finds the orchestrator busy, and its history has at most a hundred closed records.\<close>

lemma updater_never_busy:
  assumes "updater_step\<^sup>*\<^sup>* (update_orchestrator_new c sig) uo"
  shows "\<not> uo_is_busy uo \<and> length (uo_history uo) \<le> 100 \<and> list_all record_closed (uo_history uo)"
proof -
  have "updater_ok (update_orchestrator_new c sig)"
    by (simp add: updater_ok_def update_orchestrator_new_def uo_is_busy_def uo_state_def)
  from updater.star_inv [OF assms this] show ?thesis by (simp add: updater_ok_def)
qed

text \<open>A rollback marks the current record only: the history keeps it as it was archived.\<close>

lemma rollback_not_in_history: "uo_rollback fault clk uo d = (res, uo', d') \<Longrightarrow> uo_history uo' = uo_history uo"
  by (auto simp: uo_rollback_def split: prod.splits sum.splits)

section \<open>The canary does not hold the rollout back\<close>

text \<open>
  Promotion starts the rollout whenever it is planned, whatever stage the canary is in: still
  deploying, unhealthy or rolled back.
\<close>

lemma promote_ignores_canary:
  assumes "uo_canary uo = Some c" "uo_rollout uo = Some r"
  shows "fst (promote_and_start_rollout now uo) = snd (start now r)"
    and "rs_state r = RsPlanned \<Longrightarrow> \<exists>batch. fst (promote_and_start_rollout now uo) = Inr batch"
  using assms by (auto simp: promote_and_start_rollout_def start_def Let_def case_prod_beta split: prod.splits)

text \<open>In particular after the canary was aborted: a rollout that is only planned cannot be aborted and stays planned.\<close>

lemma aborted_canary_still_rolls_out:
  assumes "uo_canary uo = Some c" "uo_rollout uo = Some r" "rs_state r = RsPlanned"
  shows "\<exists>batch. fst (promote_and_start_rollout now (abort_canary_rollout now1 now2 failed uo)) = Inr batch"
proof -
  have "fst (abort now2 r) = r" using assms(3) by (simp add: abort_def)
  then show ?thesis
    using promote_ignores_canary(2) [of "abort_canary_rollout now1 now2 failed uo" "mark_rolled_back now1 failed c" r now] assms
    by (simp add: abort_canary_rollout_def)
qed

text \<open>And a second canary can begin while a rollout is under way, which is forgotten.\<close>

lemma second_canary_forgets_rollout:
  assumes "updater_step\<^sup>*\<^sup>* (update_orchestrator_new cf sig) uo" "begin_canary_update now fleet v uo = (Inr names, uo')"
  shows "uo_rollout uo' = Some (controller_new (plan_from_fleet fleet names v))"
  using assms(2) by (auto simp: begin_canary_update_def split: if_splits prod.splits sum.splits)

section \<open>Turns\<close>

text \<open>A node of the order has its turn when all nodes before its first position are done.\<close>

lemma is_my_turn_iff:
  "is_my_turn completed uo \<longleftrightarrow>
     (let order = ru_node_order (oc_rolling (uo_config uo)); me = oc_worker_name (uo_config uo)
      in me \<notin> set order \<or> set (takeWhile (\<lambda>n. n \<noteq> me) order) \<subseteq> set completed)"
proof -
  let ?me = "oc_worker_name (uo_config uo)" and ?order = "ru_node_order (oc_rolling (uo_config uo))"
  have tk: "position (\<lambda>n. n = me) order = Some i \<Longrightarrow> take i order = takeWhile (\<lambda>n. n \<noteq> me) order" for me :: string and order i
    by (induction order arbitrary: i) (auto split: if_splits)
  show ?thesis
  proof (cases "position (\<lambda>n. n = ?me) ?order")
    case None
    then have "?me \<notin> set ?order" unfolding position_None by blast
    then show ?thesis using None by (simp add: is_my_turn_def Let_def)
  next
    case (Some i)
    then have "?me \<in> set ?order" using position_Some [OF Some] nth_mem by metis
    then show ?thesis using Some tk [OF Some] by (auto simp: is_my_turn_def Let_def list_all_iff)
  qed
qed

end
