(* ===== verification/Bash_Scan.thy ===== *)
theory Bash_Scan
  imports Fleet_Text
begin

text \<open>
  The scan of a shell command before it runs (\<open>crates/ff-agent/src/bash_security.rs\<close>): the
  detectors, each a list of the threats it pushes, the score and the action, the refusal
  of the bash tool and the check of the paths a command names. A command is the list of
  the UTF-8 bytes of the \<open>&str\<close>; the detectors look for ASCII parts, so that a search for
  bytes finds what the search in the string finds, and the one that looks at characters
  decodes them. The counters of the source are \<open>u32\<close>.
\<close>

section \<open>Threats\<close>

datatype threat_category =
    CommandInjection | ProcessSubstitution | CommandSubstitution | IFSPoisoning | UnicodeAttack
  | HeredocInjection | QuoteDesync | GlobExpansion | PipeInjection | BacktickExecution
  | EnvironmentManipulation | PathTraversal | NetworkExfiltration | PrivilegeEscalation
  | DestructiveOperation | FileSystemAttack | GitInjection | SedInjection | HistoryManipulation
  | SignalManipulation | ResourceExhaustion | SymlinkAttack | RaceCondition | EncodingAttack
  | ShellBuiltinAbuse

datatype threat_severity = ThreatLow | ThreatMedium | ThreatHigh | ThreatCritical

datatype security_action = ActAllow | ActWarn | ActBlock

record security_threat =
  st_category :: threat_category
  st_description :: string
  st_severity :: threat_severity
  st_matched :: string

record security_scan =
  sc_safe :: bool
  sc_risk_score :: u32
  sc_threats :: "security_threat list"
  sc_action :: security_action

definition mk_threat :: "threat_category \<Rightarrow> string \<Rightarrow> threat_severity \<Rightarrow> string \<Rightarrow> security_threat" where
  "mk_threat cat desc sev pat =
     \<lparr> st_category = cat, st_description = desc, st_severity = sev, st_matched = pat \<rparr>"

section \<open>Strings\<close>

abbreviation sq :: char where "sq \<equiv> CHR 0x27"
abbreviation dq :: char where "dq \<equiv> CHR 0x22"
abbreviation bs :: char where "bs \<equiv> CHR 0x5C"
abbreviation bq :: char where "bq \<equiv> CHR 0x60"

text \<open>\<open>str::split\<close> by a set of characters and by a (nonempty) string, \<open>str::strip_prefix\<close>.\<close>

fun split_when :: "(char \<Rightarrow> bool) \<Rightarrow> string \<Rightarrow> string list" where
  "split_when p [] = [[]]"
| "split_when p (x # xs) =
     (if p x then [] # split_when p xs
      else (case split_when p xs of [] \<Rightarrow> [[x]] | q # qs \<Rightarrow> (x # q) # qs))"

function split_str :: "string \<Rightarrow> string \<Rightarrow> string list" where
  "split_str sep s =
     (if sep = [] then [s]
      else (case str_find sep s of
              None \<Rightarrow> [s]
            | Some n \<Rightarrow> take n s # split_str sep (drop (n + length sep) s)))"
  by pat_completeness auto
termination
proof (relation "measure (\<lambda>(sep, s). length s)", goal_cases)
  case (2 sep s n)
  then obtain x where "s = x @ sep @ drop (n + length sep) s" using str_find_sound by blast
  then have "length s = length x + length sep + (length s - (n + length sep))"
    by (metis add.assoc length_append length_drop)
  moreover have "0 < length sep" using 2(1) by simp
  ultimately have "length (drop (n + length sep) s) < length s" unfolding length_drop by linarith
  then show ?case by simp
qed simp

definition strip_start :: "string \<Rightarrow> string \<Rightarrow> string option" where
  "strip_start p s = (if prefix p s then Some (drop (length p) s) else None)"

definition trim_start :: "string \<Rightarrow> string" where
  "trim_start s = dropWhile is_ws s"

definition trim_matches :: "(char \<Rightarrow> bool) \<Rightarrow> string \<Rightarrow> string" where
  "trim_matches p s = rev (dropWhile p (rev (dropWhile p s)))"

text \<open>\<open>char as u32\<close> of the characters of a UTF-8 string, and \<open>{:04X}\<close>.\<close>

fun utf8_chars :: "string \<Rightarrow> nat list" where
  "utf8_chars [] = []"
| "utf8_chars (a # s) =
     (let n = of_char a in
      if n < 128 then n # utf8_chars s
      else if n < 224 then
        (case s of b # t \<Rightarrow> ((n - 192) * 64 + (of_char b - 128)) # utf8_chars t | [] \<Rightarrow> [n])
      else if n < 240 then
        (case s of b # c # t \<Rightarrow>
           ((n - 224) * 4096 + (of_char b - 128) * 64 + (of_char c - 128)) # utf8_chars t
         | _ \<Rightarrow> [n])
      else
        (case s of b # c # d # t \<Rightarrow>
           ((n - 240) * 262144 + (of_char b - 128) * 4096 + (of_char c - 128) * 64 + (of_char d - 128))
             # utf8_chars t
         | _ \<Rightarrow> [n]))"

fun hex_upper :: "nat \<Rightarrow> string" where
  "hex_upper n = (if n < 16 then [''0123456789ABCDEF'' ! n]
                  else hex_upper (n div 16) @ [''0123456789ABCDEF'' ! (n mod 16)])"

declare hex_upper.simps [simp del]

definition fmt_04X :: "nat \<Rightarrow> string" where
  "fmt_04X n = (let h = hex_upper n in replicate (4 - length h) (CHR ''0'') @ h)"

section \<open>Helpers of the detectors\<close>

text \<open>The loop \<open>for (pat, desc) in &patterns { if text.contains(pat) { threats.push(...) } }\<close>.\<close>

definition pattern_threats ::
  "threat_category \<Rightarrow> (string \<Rightarrow> threat_severity) \<Rightarrow> string \<Rightarrow> (string \<times> string) list \<Rightarrow> security_threat list"
  where
  "pattern_threats cat sev t pats =
     map (\<lambda>(pat, desc). mk_threat cat desc (sev pat) pat) (filter (\<lambda>(pat, desc). sublist pat t) pats)"

definition is_inside_single_quotes :: "string \<Rightarrow> nat \<Rightarrow> bool" where
  "is_inside_single_quotes cmd pos = (length (filter (\<lambda>c. c = sq) (take pos cmd)) mod 2 = 1)"

definition is_suspicious_unicode :: "nat \<Rightarrow> bool" where
  "is_suspicious_unicode n \<longleftrightarrow>
     0x200B \<le> n \<and> n \<le> 0x200F \<or> 0x2028 \<le> n \<and> n \<le> 0x2029 \<or> 0x202A \<le> n \<and> n \<le> 0x202E \<or>
     0x2060 \<le> n \<and> n \<le> 0x2064 \<or> n = 0xFEFF \<or> n = 0x00AD \<or> n = 0x034F \<or>
     0x115F \<le> n \<and> n \<le> 0x1160 \<or> 0x17B4 \<le> n \<and> n \<le> 0x17B5 \<or> n = 0x180E"

definition appears_as_command :: "string \<Rightarrow> string \<Rightarrow> bool" where
  "appears_as_command cmd_lower needle =
     list_ex (\<lambda>seg. seg = needle \<or>
                (case strip_start needle seg of
                   None \<Rightarrow> False
                 | Some rest \<Rightarrow> rest \<noteq> [] \<and> (hd rest = CHR '' '' \<or> hd rest = CHR 0x09)))
       (map (\<lambda>seg. case strip_start ''sudo '' seg of
                      Some r \<Rightarrow> trim_start r
                    | None \<Rightarrow> (case strip_start ''doas '' seg of Some r \<Rightarrow> trim_start r | None \<Rightarrow> seg))
          (map trim_start
             (split_when (\<lambda>c. c \<in> {CHR '';'', CHR ''|'', CHR ''&'', CHR 0x0A}) cmd_lower)))"

definition block_prefixes :: "string list" where
  "block_prefixes = [''sd'', ''nvme'', ''vd'', ''xvd'', ''hd'', ''mmcblk'', ''loop'', ''dm-'']"

definition dev_name :: "string \<Rightarrow> string" where
  "dev_name after =
     hd (split_when (\<lambda>c. c \<in> {CHR ''/'', CHR '' '', CHR 0x09, CHR '';'', CHR ''|'', CHR ''&'',
                              CHR ''>'', sq, dq}) after)"

definition is_block :: "string \<Rightarrow> bool" where
  "is_block dev = list_ex (\<lambda>p. prefix p dev) block_prefixes"

definition writes_to_block_device :: "string \<Rightarrow> bool" where
  "writes_to_block_device lower \<longleftrightarrow>
     list_ex (\<lambda>seg. is_block (dev_name seg)) (drop 1 (split_str ''of=/dev/'' lower)) \<or>
     list_ex (\<lambda>seg. case strip_start ''/dev/'' (trim_start (dropWhile (\<lambda>c. c = CHR ''>'') seg)) of
                       None \<Rightarrow> False | Some rest \<Rightarrow> is_block (dev_name rest))
       (drop 1 (split_char (CHR ''>'') lower))"

section \<open>Detectors\<close>

text \<open>Each detector is the list of the threats it pushes, in the order of its pushes.\<close>

definition detect_command_substitution :: "string \<Rightarrow> security_threat list" where
  "detect_command_substitution cmd =
     List.map_filter
       (\<lambda>pat. case str_find pat cmd of
          None \<Rightarrow> None
        | Some pos \<Rightarrow>
            if \<not> is_inside_single_quotes cmd pos
            then Some (mk_threat CommandSubstitution (''Command substitution detected: '' @ pat) ThreatHigh pat)
            else None)
       [''$('', ''${'', ''$['']"

definition detect_process_substitution :: "string \<Rightarrow> security_threat list" where
  "detect_process_substitution cmd =
     List.map_filter
       (\<lambda>pat. case str_find pat cmd of
          None \<Rightarrow> None
        | Some pos \<Rightarrow>
            if \<not> is_inside_single_quotes cmd pos
            then Some (mk_threat ProcessSubstitution (''Process substitution detected: '' @ pat) ThreatHigh pat)
            else None)
       [''<('', ''>('', ''=('']"

definition detect_backtick_execution :: "string \<Rightarrow> security_threat list" where
  "detect_backtick_execution cmd =
     (case str_find [bq] cmd of
        None \<Rightarrow> []
      | Some pos \<Rightarrow>
          if \<not> is_inside_single_quotes cmd pos
          then [mk_threat BacktickExecution ''Backtick command execution detected'' ThreatHigh [bq]]
          else [])"

definition detect_ifs_poisoning :: "string \<Rightarrow> security_threat list" where
  "detect_ifs_poisoning cmd =
     (let lower = to_ascii_lowercase cmd
      in if sublist ''ifs='' lower \<or> sublist ''ifs ='' lower
         then [mk_threat IFSPoisoning
                 (''IFS variable manipulation detected '' @ [CHR 0xE2, CHR 0x80, CHR 0x94]
                    @ '' can alter command parsing'')
                 ThreatCritical ''IFS='']
         else [])"

definition detect_unicode_attacks :: "string \<Rightarrow> security_threat list" where
  "detect_unicode_attacks cmd =
     (case find is_suspicious_unicode (utf8_chars cmd) of
        None \<Rightarrow> []
      | Some ch \<Rightarrow>
          [mk_threat UnicodeAttack (''Suspicious unicode character U+'' @ fmt_04X ch @ '' detected'')
             ThreatHigh (''U+'' @ fmt_04X ch)])"

definition detect_heredoc_injection :: "string \<Rightarrow> security_threat list" where
  "detect_heredoc_injection cmd =
     (if sublist ''<<'' cmd \<and> (sublist ''$('' cmd \<or> sublist [bq] cmd)
      then [mk_threat HeredocInjection ''Heredoc with embedded command execution detected''
              ThreatHigh ''<<...$(...)'']
      else [])"

text \<open>The loop over the characters carries the two counters and the previous character.\<close>

definition quote_step :: "u32 \<times> u32 \<times> char \<Rightarrow> char \<Rightarrow> u32 \<times> u32 \<times> char" where
  "quote_step st ch =
     (case st of (single_count, double_count, prev) \<Rightarrow>
        (if ch = sq \<and> prev \<noteq> bs then single_count + 1 else single_count,
         if ch = dq \<and> prev \<noteq> bs then double_count + 1 else double_count,
         ch))"

definition detect_quote_desync :: "string \<Rightarrow> security_threat list" where
  "detect_quote_desync cmd =
     (case foldl quote_step (0, 0, CHR '' '') cmd of (single_count, double_count, _) \<Rightarrow>
        if unat single_count mod 2 \<noteq> 0 \<or> unat double_count mod 2 \<noteq> 0
        then [mk_threat QuoteDesync
                (''Unmatched quotes detected '' @ [CHR 0xE2, CHR 0x80, CHR 0x94]
                   @ '' possible injection vector'')
                ThreatMedium
                (''single:'' @ show_nat (unat single_count) @ '' double:''
                   @ show_nat (unat double_count))]
        else [])"

definition detect_glob_expansion :: "string \<Rightarrow> security_threat list" where
  "detect_glob_expansion cmd =
     pattern_threats GlobExpansion (\<lambda>_. ThreatMedium) cmd
       [(''/*'', ''Root filesystem glob''),
        (''/../'', ''Parent directory traversal glob''),
        (''{,}'', ''Brace expansion (can multiply commands)'')]"

definition interpreters :: "string list" where
  "interpreters =
     [''sh'', ''bash'', ''zsh'', ''dash'', ''ksh'', ''eval'', ''exec'', ''python'', ''python2'',
      ''python3'', ''perl'', ''ruby'', ''node'']"

definition detect_pipe_injection :: "string \<Rightarrow> security_threat list" where
  "detect_pipe_injection cmd =
     List.map_filter
       (\<lambda>seg. let seg' = trim_start seg;
                  tok = hd (split_when (\<lambda>c. c \<in> {CHR '' '', CHR 0x09}) seg')
              in if tok \<in> set interpreters
                 then Some (mk_threat PipeInjection
                              (''Pipe to executable shell/interpreter: '' @ tok) ThreatHigh (''| '' @ tok))
                 else None)
       (drop 1 (split_char (CHR ''|'') (to_ascii_lowercase cmd)))"

definition detect_environment_manipulation :: "string \<Rightarrow> security_threat list" where
  "detect_environment_manipulation cmd =
     map (\<lambda>var. mk_threat EnvironmentManipulation (''Environment variable manipulation: '' @ var)
                  (if prefix ''LD_'' var \<or> prefix ''DYLD_'' var then ThreatCritical else ThreatMedium)
                  var)
       (filter (\<lambda>var. sublist var cmd)
          [''LD_PRELOAD='', ''LD_LIBRARY_PATH='', ''DYLD_INSERT_LIBRARIES='', ''DYLD_LIBRARY_PATH='',
           ''PATH='', ''SHELL='', ''HOME='', ''PYTHONPATH='', ''NODE_PATH='', ''RUBYLIB=''])"

definition detect_path_traversal :: "string \<Rightarrow> security_threat list" where
  "detect_path_traversal cmd =
     (if sublist ''../../../'' cmd
         \<or> sublist (''..'' @ [bs] @ ''..'' @ [bs] @ ''..'' @ [bs]) cmd
      then [mk_threat PathTraversal ''Deep path traversal detected'' ThreatMedium ''../../../'']
      else [])"

definition detect_network_exfiltration :: "string \<Rightarrow> security_threat list" where
  "detect_network_exfiltration cmd =
     (let lower = to_ascii_lowercase cmd;
          flag = (\<lambda>desc pat. mk_threat NetworkExfiltration desc ThreatHigh pat);
          has_curl = sublist ''curl'' lower;
          has_wget = sublist ''wget'' lower
      in pattern_threats NetworkExfiltration (\<lambda>_. ThreatHigh) lower
           [(''nc '', ''netcat connection''), (''ncat '', ''ncat connection''),
            (''/dev/tcp/'', ''bash TCP device''), (''/dev/udp/'', ''bash UDP device'')]
         @ (if has_curl \<and> list_ex (\<lambda>f. sublist f lower)
                             ['' -d '', '' -d@'', '' --data'', '' --form'', '' --upload-file'']
            then [flag ''curl data upload'' ''curl --data/--form/--upload-file''] else [])
         @ (if has_wget \<and> list_ex (\<lambda>f. sublist f lower)
                             [''--post-data'', ''--post-file'', ''--body-data'', ''--body-file'']
            then [flag ''wget POST upload'' ''wget --post*''] else [])
         @ (if (has_curl \<or> has_wget) \<and> CHR ''|'' \<in> set lower
            then [flag ''download piped to a command''
                    (''curl|wget | '' @ [CHR 0xE2, CHR 0x80, CHR 0xA6])] else []))"

definition detect_privilege_escalation :: "string \<Rightarrow> security_threat list" where
  "detect_privilege_escalation cmd =
     pattern_threats PrivilegeEscalation (\<lambda>_. ThreatHigh) (to_ascii_lowercase cmd)
       [(''sudo '', ''sudo execution''), (''su -'', ''switch user''), (''chmod +s'', ''setuid bit''),
        (''chmod u+s'', ''setuid bit''), (''chown root'', ''change owner to root''),
        (''doas '', ''doas execution'')]"

definition detect_destructive_operations :: "string \<Rightarrow> security_threat list" where
  "detect_destructive_operations cmd =
     (let lower = to_ascii_lowercase cmd
      in pattern_threats DestructiveOperation (\<lambda>_. ThreatCritical) lower
           [(''rm -rf /'', ''Delete root filesystem''), (''rm -rf /*'', ''Delete all root contents''),
            (''mkfs.'', ''Format filesystem''), ('':(){ :|:& };:'', ''Fork bomb''),
            (''systemctl poweroff'', ''Systemd power off''), (''systemctl reboot'', ''Systemd reboot'')]
         @ (if writes_to_block_device lower
            then [mk_threat DestructiveOperation ''Overwrite raw block device'' ThreatCritical
                    ''/dev/<disk>''] else [])
         @ map (\<lambda>(word, desc). mk_threat DestructiveOperation desc ThreatCritical word)
             (filter (\<lambda>(word, desc). appears_as_command lower word)
                [(''shutdown'', ''System shutdown''), (''reboot'', ''System reboot''),
                 (''halt'', ''System halt''), (''poweroff'', ''System power off''),
                 (''init 0'', ''System halt via init''), (''init 6'', ''System reboot via init'')])
         @ pattern_threats DestructiveOperation (\<lambda>_. ThreatHigh) lower
             [(''rm -rf'', ''Recursive force delete''), (''rm -r'', ''Recursive delete''),
              (''truncate '', ''Truncate file''), (''shred '', ''Secure delete''),
              (''wipefs'', ''Wipe filesystem signatures'')])"

definition detect_filesystem_attacks :: "string \<Rightarrow> security_threat list" where
  "detect_filesystem_attacks cmd =
     pattern_threats FileSystemAttack (\<lambda>_. ThreatHigh) (to_ascii_lowercase cmd)
       [(''mount '', ''Filesystem mount''), (''umount '', ''Filesystem unmount''),
        (''losetup'', ''Loop device setup''), (''fdisk'', ''Partition manipulation''),
        (''parted'', ''Partition manipulation'')]"

definition detect_git_injection :: "string \<Rightarrow> security_threat list" where
  "detect_git_injection cmd =
     pattern_threats GitInjection (\<lambda>_. ThreatHigh) (to_ascii_lowercase cmd)
       [(''git filter-branch'', ''Git history rewrite with code execution''),
        (''git config.*alias'', ''Git alias injection''),
        (''git config.*core.hooksPath'', ''Git hooks path manipulation''),
        (''git config.*core.sshCommand'', ''Git SSH command injection''),
        (''.git/hooks/'', ''Direct git hook manipulation'')]"

definition detect_sed_injection :: "string \<Rightarrow> security_threat list" where
  "detect_sed_injection cmd =
     (let lower = to_ascii_lowercase cmd
      in (if sublist ''sed'' lower \<and> (sublist ''/e'' cmd \<or> sublist (bs # ''e'') cmd)
          then [mk_threat SedInjection
                  (''Sed execute command detected '' @ [CHR 0xE2, CHR 0x80, CHR 0x94]
                     @ '' can run arbitrary shell commands'')
                  ThreatHigh ''sed /e''] else [])
         @ (if sublist ''sed'' lower \<and> (sublist ''/etc/'' lower \<or> sublist ''/usr/'' lower)
            then [mk_threat SedInjection ''Sed targeting system files'' ThreatMedium
                    ''sed + system path''] else []))"

definition detect_history_manipulation :: "string \<Rightarrow> security_threat list" where
  "detect_history_manipulation cmd =
     (let lower = to_ascii_lowercase cmd
      in if sublist ''history -c'' lower \<or> sublist ''history -w'' lower
            \<or> sublist ''unset histfile'' lower
         then [mk_threat HistoryManipulation ''Shell history manipulation detected'' ThreatMedium
                 ''history manipulation''] else [])"

definition detect_signal_manipulation :: "string \<Rightarrow> security_threat list" where
  "detect_signal_manipulation cmd =
     (let lower = to_ascii_lowercase cmd
      in (if sublist ''trap '' lower
             \<and> (sublist ''exit'' lower \<or> sublist ''err'' lower \<or> sublist ''int'' lower)
          then [mk_threat SignalManipulation ''Signal trap manipulation detected'' ThreatMedium
                  ''trap''] else [])
         @ (if sublist ''kill -9'' lower \<or> sublist ''killall'' lower \<or> sublist ''pkill'' lower
            then [mk_threat SignalManipulation ''Process killing detected'' ThreatMedium ''kill'']
            else []))"

definition detect_resource_exhaustion :: "string \<Rightarrow> security_threat list" where
  "detect_resource_exhaustion cmd =
     pattern_threats ResourceExhaustion (\<lambda>_. ThreatMedium) (to_ascii_lowercase cmd)
       [(''yes |'', ''Infinite output''), (''/dev/zero'', ''Zero device read''),
        (''while true'', ''Infinite loop''), (''for (( ;; ))'', ''Infinite loop''),
        (''ulimit -'', ''Resource limit change'')]"

definition detect_symlink_attacks :: "string \<Rightarrow> security_threat list" where
  "detect_symlink_attacks cmd =
     (let lower = to_ascii_lowercase cmd
      in if sublist ''ln -s'' lower
            \<and> (sublist ''/etc/'' lower \<or> sublist ''/usr/'' lower \<or> sublist ''/var/'' lower)
         then [mk_threat SymlinkAttack ''Symlink to system directory detected'' ThreatHigh
                 ''ln -s + system path''] else [])"

definition detect_encoding_attacks :: "string \<Rightarrow> security_threat list" where
  "detect_encoding_attacks cmd =
     pattern_threats EncodingAttack (\<lambda>_. ThreatHigh) (to_ascii_lowercase cmd)
       [(bs # ''x'', ''Hex-encoded characters''), (bs # ''0'', ''Octal-encoded characters''),
        (''base64 -d'', ''Base64 decode execution''), (''base64 --decode'', ''Base64 decode execution''),
        (''xxd -r'', ''Hex decode execution''),
        (''printf '' @ [sq, bs] @ ''x'', ''Printf hex injection'')]"

definition detect_shell_builtin_abuse :: "string \<Rightarrow> security_threat list" where
  "detect_shell_builtin_abuse cmd =
     pattern_threats ShellBuiltinAbuse
       (\<lambda>pat. if sublist ''eval'' pat \<or> sublist ''exec'' pat \<or> sublist ''zmodload'' pat
              then ThreatCritical else ThreatHigh)
       (to_ascii_lowercase cmd)
       [(''eval '', ''eval execution''), (''exec '', ''exec replacement''),
        (''source '', ''source execution''), (''. /'', ''dot-source execution''),
        (''zmodload'', ''Zsh module loading''), (''emulate '', ''Zsh emulation mode''),
        (''sysopen'', ''Zsh sysopen''), (''ztcp'', ''Zsh TCP socket''), (''zselect'', ''Zsh select''),
        (''enable -f'', ''Bash dynamic loading''), (''builtin '', ''Builtin bypass''),
        (''command '', ''Command bypass'')]"

section \<open>The scan\<close>

primrec severity_weight :: "threat_severity \<Rightarrow> u32" where
  "severity_weight ThreatLow = 5"
| "severity_weight ThreatMedium = 15"
| "severity_weight ThreatHigh = 35"
| "severity_weight ThreatCritical = 60"

definition scan_threats :: "string \<Rightarrow> security_threat list" where
  "scan_threats command =
     detect_command_substitution command @ detect_process_substitution command @
     detect_backtick_execution command @ detect_ifs_poisoning command @
     detect_unicode_attacks command @ detect_heredoc_injection command @
     detect_quote_desync command @ detect_glob_expansion command @
     detect_pipe_injection command @ detect_environment_manipulation command @
     detect_path_traversal command @ detect_network_exfiltration command @
     detect_privilege_escalation command @ detect_destructive_operations command @
     detect_filesystem_attacks command @ detect_git_injection command @
     detect_sed_injection command @ detect_history_manipulation command @
     detect_signal_manipulation command @ detect_resource_exhaustion command @
     detect_symlink_attacks command @ detect_encoding_attacks command @
     detect_shell_builtin_abuse command"

definition scan_command :: "string \<Rightarrow> security_scan" where
  "scan_command command =
     (let threats = scan_threats command;
          risk_score = min (sum_list (map (\<lambda>t. severity_weight (st_severity t)) threats)) 100;
          action = (if list_ex (\<lambda>t. st_severity t = ThreatCritical) threats \<or> risk_score > 50
                    then ActBlock else if risk_score > 20 then ActWarn else ActAllow)
      in \<lparr> sc_safe = (action = ActAllow), sc_risk_score = risk_score, sc_threats = threats,
           sc_action = action \<rparr>)"

text \<open>The name of a category, as \<open>{:?}\<close> writes it.\<close>

fun category_debug :: "threat_category \<Rightarrow> string" where
  "category_debug CommandInjection = ''CommandInjection''"
| "category_debug ProcessSubstitution = ''ProcessSubstitution''"
| "category_debug CommandSubstitution = ''CommandSubstitution''"
| "category_debug IFSPoisoning = ''IFSPoisoning''"
| "category_debug UnicodeAttack = ''UnicodeAttack''"
| "category_debug HeredocInjection = ''HeredocInjection''"
| "category_debug QuoteDesync = ''QuoteDesync''"
| "category_debug GlobExpansion = ''GlobExpansion''"
| "category_debug PipeInjection = ''PipeInjection''"
| "category_debug BacktickExecution = ''BacktickExecution''"
| "category_debug EnvironmentManipulation = ''EnvironmentManipulation''"
| "category_debug PathTraversal = ''PathTraversal''"
| "category_debug NetworkExfiltration = ''NetworkExfiltration''"
| "category_debug PrivilegeEscalation = ''PrivilegeEscalation''"
| "category_debug DestructiveOperation = ''DestructiveOperation''"
| "category_debug FileSystemAttack = ''FileSystemAttack''"
| "category_debug GitInjection = ''GitInjection''"
| "category_debug SedInjection = ''SedInjection''"
| "category_debug HistoryManipulation = ''HistoryManipulation''"
| "category_debug SignalManipulation = ''SignalManipulation''"
| "category_debug ResourceExhaustion = ''ResourceExhaustion''"
| "category_debug SymlinkAttack = ''SymlinkAttack''"
| "category_debug RaceCondition = ''RaceCondition''"
| "category_debug EncodingAttack = ''EncodingAttack''"
| "category_debug ShellBuiltinAbuse = ''ShellBuiltinAbuse''"

definition hard_block_reason :: "security_scan \<Rightarrow> string option" where
  "hard_block_reason scan =
     (let reasons = map (\<lambda>t. category_debug (st_category t) @ '': '' @ st_description t)
                      (filter (\<lambda>t. st_severity t = ThreatCritical \<or> st_category t = PipeInjection)
                         (sc_threats scan))
      in if reasons = [] then None else Some (str_join ''; '' reasons))"

definition block_reason :: "string \<Rightarrow> string option" where
  "block_reason command = hard_block_reason (scan_command command)"

text \<open>
  The check of the paths: \<open>it\<close> is the order in which the hash set of blocked paths is
  visited. The last test of the loop, on absolute paths outside the working directory, has
  an empty body.
\<close>

definition validate_command_paths ::
  "(string list \<Rightarrow> string list) \<Rightarrow> string \<Rightarrow> string list \<Rightarrow> string \<Rightarrow> security_threat list"
  where
  "validate_command_paths it command blocked_paths working_dir =
     concat (map (\<lambda>token.
        let path_str = trim_matches (\<lambda>c. c = sq \<or> c = dq) token
        in map (\<lambda>blocked. mk_threat PathTraversal (''Access to blocked path: '' @ path_str)
                            ThreatHigh blocked)
             (filter (\<lambda>blocked. sublist blocked path_str) (it blocked_paths)))
      (split_whitespace command))"

end
