(* ===== verification/Spec2Isabelle.thy ===== *)
theory Spec2Isabelle
  imports Pipeline_Run Scheduler Task_Queue Circuit_Breaker Rate_Limit Rollout Leader_Election Ha_Coordinator
    Cron_Machine Session_Approval Sub_Agents Alert_History
    Sharding Slot_Allocation Quarantine Routing_Policy
    Security_Policy Maintenance Deploy_Run Deploy_Target Deploy_Tick
    Control_Watchdog Session_Store Session_Context Workspace_Scope
    Update_Orchestrator Bash_Verdict
begin

text \<open>
  A verification library for ForgeFleet, a fleet of machines that run language models and
  agent work. The Rust workspace under \<^verbatim>\<open>crates/\<close> has about thirty crates; this library
  models the ones whose logic is their own rather than SQL, HTTP, processes or prompts.

  \<^bold>\<open>Parts and theories.\<close>

  \<^item> \<^bold>\<open>Foundations.\<close> \<open>Fleet_Prelude\<close>: machine integers, time, hash maps and sets, ordered
    maps, the locales \<open>map_interface\<close>, \<open>invariant_machine\<close> and \<open>terminating_machine\<close>.
    \<open>Fleet_Text\<close>: splitting, trimming and reading text, JSON values. \<open>Civil_Calendar\<close>: the
    calendar interface and its Gregorian instance.

  \<^item> \<^bold>\<open>Pipelines\<close> (\<^verbatim>\<open>ff-pipeline\<close>). \<open>Pipeline_Step\<close> (\<^verbatim>\<open>step.rs\<close>, \<^verbatim>\<open>error.rs\<close>),
    \<open>Pipeline_Graph\<close> (\<^verbatim>\<open>graph.rs\<close>: the graph, cycle search, topological sort),
    \<open>Pipeline_Runtime\<close> (\<^verbatim>\<open>registry.rs\<close> and one step of \<^verbatim>\<open>executor.rs\<close>) and
    \<open>Pipeline_Executor\<close> (the executor as a step relation between the main loop and its
    tasks). \<open>Pipeline_Dag\<close> and \<open>Pipeline_Topo\<close> show that the graph stays acyclic, that an
    edge closing a cycle is refused and rolled back, and that the sort is a topological
    order. \<open>Pipeline_Run\<close> shows that under every interleaving steps start only after their
    dependencies, the permits are kept, a run takes at most \<open>6 n + 1\<close> steps and returns, and
    what its results are; also how a panicking task hangs it and which steps get no result.

  \<^item> \<^bold>\<open>Scheduling\<close> (\<^verbatim>\<open>ff-orchestrator\<close>). \<open>Scheduler_Types\<close>, \<open>Placement\<close>, \<open>Scheduler\<close>
    (\<^verbatim>\<open>scheduler.rs\<close>, \<^verbatim>\<open>placement.rs\<close>): resources are conserved on every node, a task goes
    to a best fitting node, preemption only for critical tasks. \<open>Task_Queue\<close> (\<^verbatim>\<open>queue.rs\<close>):
    the index and the buckets agree, dequeue takes the first task of the highest priority,
    reservations and boosts.

  \<^item> \<^bold>\<open>Protection.\<close> \<open>Circuit_Breaker\<close> (\<^verbatim>\<open>ff-core/circuit_breaker.rs\<close>) and \<open>Rate_Limit\<close>
    (\<^verbatim>\<open>ff-security/rate_limit.rs\<close>): admission, thresholds, the bound over two windows, and
    the interleaving of two calls that exceeds it.

  \<^item> \<^bold>\<open>Security\<close> (\<^verbatim>\<open>ff-security\<close>). \<open>Security_Policy\<close> (\<^verbatim>\<open>policy.rs\<close>,
    \<^verbatim>\<open>autonomy_policy.rs\<close>, \<^verbatim>\<open>approvals.rs\<close>): which rule decides a request, and that an
    approval is decided once and in time. \<open>Bash_Scan\<close> and \<open>Bash_Verdict\<close>
    (\<^verbatim>\<open>ff-agent/bash_security.rs\<close>): the scan of a shell command, exactly which commands the
    bash tool refuses, and the forms its patterns miss.

  \<^item> \<^bold>\<open>Updates\<close> (\<^verbatim>\<open>ff-updater\<close>). \<open>Canary\<close> (\<^verbatim>\<open>canary.rs\<close>) and \<open>Rollout\<close>
    (\<^verbatim>\<open>rollout.rs\<close>): the health gate, the bound on unavailable nodes, completion and the
    ways a rollout never ends. \<open>Update_Files\<close> (\<^verbatim>\<open>swapper.rs\<close>, \<^verbatim>\<open>rollback.rs\<close>: a disk whose
    calls can fail, on which the old binary is never lost), \<open>Update_Build\<close> (\<^verbatim>\<open>checker.rs\<close>,
    \<^verbatim>\<open>builder.rs\<close>, \<^verbatim>\<open>verifier.rs\<close>) and \<open>Update_Orchestrator\<close> (\<^verbatim>\<open>orchestrator.rs\<close>: nothing
    unverified is installed; the rollout does not wait for the canary).

  \<^item> \<^bold>\<open>Deployment\<close> (\<^verbatim>\<open>ff-deploy\<close>). \<open>Deploy_Plan\<close> (\<^verbatim>\<open>strategy.rs\<close>, \<^verbatim>\<open>rollout.rs\<close>: which
    plans are built and how their counts grow), \<open>Deploy_Run\<close> (\<^verbatim>\<open>health_gate.rs\<close>,
    \<^verbatim>\<open>rollback.rs\<close>, \<^verbatim>\<open>release.rs\<close>, \<^verbatim>\<open>deployer.rs\<close>: a run applies steps up to the first that
    fails), \<open>Deploy_Target\<close> (\<^verbatim>\<open>resolution.rs\<close>, \<^verbatim>\<open>deploy.rs\<close>, \<^verbatim>\<open>daemon.rs\<close>: retries and lease
    drains) and \<open>Deploy_Tick\<close> (\<^verbatim>\<open>lib.rs\<close>: one tick over a fleet of targets).

  \<^item> \<^bold>\<open>Leadership.\<close> \<open>Leader_Election\<close> (\<^verbatim>\<open>ff-core/leader.rs\<close>) and \<open>Ha_Coordinator\<close>
    (\<^verbatim>\<open>ff-control/ha_coordinator.rs\<close>): who is elected, when failover settles, and that the
    events and actions follow the cluster.

  \<^item> \<^bold>\<open>Discovery and control.\<close> \<open>Node_Registry\<close> (\<^verbatim>\<open>ff-discovery/registry.rs\<close>: the address
    index stays exact) and \<open>Control_Watchdog\<close> (\<^verbatim>\<open>ff-control/bootstrap.rs\<close>, \<^verbatim>\<open>health.rs\<close>,
    \<^verbatim>\<open>subsystem_watchdog.rs\<close>: restarts at completed streaks). This theory joins the registry
    with the election and with the watchdog: a silent node never leads, and makes discovery
    unhealthy.

  \<^item> \<^bold>\<open>Cron\<close> (\<^verbatim>\<open>ff-cron\<close>). \<open>Cron_Schedule\<close>, \<open>Cron_Next\<close> (\<^verbatim>\<open>schedule.rs\<close>: parsing and the
    first matching minute), \<open>Cron_Policy\<close> (\<^verbatim>\<open>policy.rs\<close>), \<open>Cron_Job\<close> (\<^verbatim>\<open>job.rs\<close>),
    \<open>Cron_Store\<close> (\<^verbatim>\<open>persistence.rs\<close>), \<open>Cron_Engine\<close> (\<^verbatim>\<open>dispatcher.rs\<close>, \<^verbatim>\<open>engine.rs\<close>);
    \<open>Cron_Tick\<close> (a tick runs each due job once and leaves none due, or is stopped by an
    expression that does not parse) and \<open>Cron_Machine\<close> (the engine as a machine: the retry
    budget, and a remote result that comes too early).

  \<^item> \<^bold>\<open>Sessions\<close> (\<^verbatim>\<open>ff-sessions\<close>). \<open>Session_Approval\<close> (\<^verbatim>\<open>approval.rs\<close>: allowlist patterns
    against globs, the decision table, the life of a request), \<open>Sub_Agents\<close>
    (\<^verbatim>\<open>subagent.rs\<close>), \<open>Session_Store\<close> (\<^verbatim>\<open>session.rs\<close>: lookup by user, time-outs, the call
    that blocks), \<open>Session_History\<close> (\<^verbatim>\<open>history.rs\<close>: the window that compaction keeps),
    \<open>Session_Context\<close> (\<^verbatim>\<open>context.rs\<close>: what fits in the budget) and \<open>Workspace_Scope\<close>
    (\<^verbatim>\<open>workspace.rs\<close>: paths stay below the root).

  \<^item> \<^bold>\<open>Observability\<close> (\<^verbatim>\<open>ff-observability\<close>). \<open>Fleet_Metrics\<close> (\<^verbatim>\<open>metrics.rs\<close>), \<open>Alerting\<close>
    (\<^verbatim>\<open>alerting.rs\<close> and the Telegram tracker of the gateway); \<open>Alert_Dedup\<close> (per key the
    engine refines a machine of bursts) and \<open>Alert_History\<close> (consistency, pruning,
    evaluation, what is forwarded).

  \<^item> \<^bold>\<open>Capacity and routing.\<close> \<open>Sharding\<close> (\<^verbatim>\<open>ff-runtime/sharding.rs\<close>: layers over a ring of
    machines), \<open>Maintenance\<close> (\<^verbatim>\<open>ff-core/maintenance.rs\<close>: drains and scheduled
    windows), \<open>Slot_Allocation\<close> (\<^verbatim>\<open>ff-control/slot_allocation.rs\<close>: apportionment by largest
    remainders), \<open>Quarantine\<close> (\<^verbatim>\<open>ff-core/quarantine.rs\<close>: per node a log of failures) and
    \<open>Routing_Policy\<close> (\<^verbatim>\<open>ff-routing-policy\<close> over \<^verbatim>\<open>ff-capacity\<close>: gates, scores, the choice).

  \<^bold>\<open>How code becomes definitions.\<close> A struct is a record with a prefix on its fields, an enum
  a datatype, a method a function that takes the object and returns it updated. A
  \<open>Result\<close> is a sum whose left side is the error, a panic is \<open>Panics\<close> or, where a call may
  also not end, the value \<open>None\<close>. Clock reads, fresh identifiers, process exits, HTTP replies
  and database failures are arguments, and so are the adapters of a deployment; a call
  sequence such as a poll is a function of the number of the call. A hash map is an association list; every loop over one
  runs over an arbitrary permutation \<open>it\<close> of it. Concurrent code is a step relation whose
  steps are the atomic accesses of the source.

  \<^bold>\<open>Bounds.\<close> Loops that recursion cannot see to end are functions with a measure, or partial
  functions that are proved to return (the search for the next run). The rank \<open>6 n + 1\<close> of
  the executor counts six moves for each of \<open>n\<close> steps; the rounds of \<open>drive\<close> are the nodes of
  the plan, and one node at least is finished per round. Machine integers keep their width.

  \<^bold>\<open>Idealisations.\<close> An \<open>f64\<close> is a rational number. Text is a list of bytes; white space and
  letter case are ASCII. The calendar is a parameter with the laws of \<open>civil_calendar\<close>,
  instantiated by the proleptic Gregorian calendar. UUIDs, timestamps and the JSON form of a
  job are a codec with the laws of \<open>run_codec\<close>.

  \<^bold>\<open>Not modelled.\<close> The agent loop and its tools, the gateway, the terminal and command-line
  programs, the database layer, the knowledge base and the other crates that consist of
  prompts, SQL, HTTP, processes or rendering; within the modelled crates the modules that
  only do such work. 
\<close>

section \<open>Discovery and leadership\<close>

lemma healthy_report:
  assumes "healthy_node fleet hs name"
  obtains y where "(name, True, y) \<in> set hs"
proof -
  have "fst (health_of hs name)" using assms by (simp add: healthy_node_def)
  then obtain y where "map_of (rev hs) name = Some (True, y)"
    by (auto simp: health_of_def hm_get_health_map split: option.splits)
  then show thesis using that map_of_SomeD by fastforce
qed

text \<open>
  C29: After a stale check of the registry, whoever is elected from its health report was
  healthy before and was seen within the limit: a node that has fallen silent never leads.
\<close>

theorem silent_node_never_leads:
  fixes reg :: "('h, 'm) node_registry"
  assumes "registry_step\<^sup>*\<^sup>* node_registry_new reg" "hash_iter it" "hash_iter it'" "hash_iter itn" "hm_wf fleet"
    and "reg' = snd (mark_stale_nodes it ipc now limit reg)"
    and "er_elected (elect_leader t itn fleet (node_health_for_election it' reg')) = Some name"
  shows "\<exists>uid n. registry_get uid reg = Some n \<and> fc_config_name n = Some name \<and> fc_is_healthy n \<and>
    num_seconds (now - fc_last_seen n) \<le> limit"
proof -
  have wf: "hm_wf (rg_nodes reg)"
    using registry_reachable_ok [OF assms(1)] by (simp add: registry_ok_def nodes_matchD(1))
  have "healthy_node fleet (node_health_for_election it' reg') name"
    by (rule elected_healthy(1) [OF assms(4,5,7)])
  then obtain y where "(name, True, y) \<in> set (node_health_for_election it' reg')" by (rule healthy_report)
  then obtain uid m where m: "registry_get uid reg' = Some m" "fc_config_name m = Some name" "fc_is_healthy m"
    using election_report_iff [OF mark_stale_wf [OF wf] assms(3)] by (auto simp: assms(6))
  then obtain n where n: "registry_get uid reg = Some n" "m = marked_stale ipc now limit n"
    by (auto simp: assms(6) mark_stale_get [OF wf assms(2)])
  have "\<not> fc_is_stale now limit n" using m(3) marked_stale_unhealthy [of now limit n ipc] n(2) by blast
  then have "m = n" "num_seconds (now - fc_last_seen n) \<le> limit"
    using n(2) by (simp_all add: marked_stale_kept fc_is_stale_def)
  then show ?thesis using m n(1) by blast
qed

definition seen_registry :: "(unit, unit) node_registry" where
  "seen_registry = apply_scan_result \<lparr> ip_show = \<lambda>_. [], ip_parse = \<lambda>_. None \<rparr>
     \<lparr> ns_name = ''james'', ns_host = ''10.0.0.2'', ns_port = 51800, ns_status = ScanOnline, ns_latency_ms = 3,
       ns_scanned_at = secs 200, ns_http_status = Some 200, ns_error = None \<rparr> demo_registry"

theorem silent_node_never_leads_witness:
  "\<exists>uid n. registry_get uid seen_registry = Some n \<and> fc_config_name n = Some ''james'' \<and> fc_is_healthy n \<and>
    num_seconds (secs 210 - fc_last_seen n) \<le> 90"
proof -
  let ?ipc = "\<lparr> ip_show = \<lambda>_. [], ip_parse = \<lambda>_. None \<rparr>"
  let ?fleet = "[(''vinny'', \<lparr> en_election_priority = Some 1 \<rparr>), (''james'', \<lparr> en_election_priority = Some 2 \<rparr>)]"
  let ?reg' = "snd (mark_stale_nodes id ?ipc (secs 210) 90 seen_registry)"
  have reach: "registry_step\<^sup>*\<^sup>* node_registry_new seen_registry"
    unfolding seen_registry_def by (rule rtranclp.rtrancl_into_rtrancl [OF demo_registry_reachable registry_step.scan])
  have wf: "hm_wf ?fleet" by (simp add: hm_wf_def hm_keys_def)
  have "er_elected (elect_leader 0 id ?fleet (node_health_for_election id ?reg')) = Some ''james''"
    by code_simp
  from silent_node_never_leads [OF reach hash_iter_id hash_iter_id hash_iter_id wf refl this]
  show ?thesis .
qed

text \<open>And while it is silent the watchdog finds discovery unhealthy.\<close>

lemma silent_node_unhealthy_discovery:
  assumes "registry_step\<^sup>*\<^sup>* node_registry_new reg" "hash_iter it" "registry_get uid reg = Some n"
    and "limit < num_seconds (now - fc_last_seen n)"
    and "cp_registry cp = snd (mark_stale_nodes it ipc now limit reg)"
  shows "discovery_status (aggregate_health_snapshot t it itj itr cp) = AggUnhealthy"
proof -
  have ok: "registry_ok reg" by (rule registry_reachable_ok [OF assms(1)])
  have ok': "registry_ok (cp_registry cp)" unfolding assms(5) by (rule registry_step_ok [OF registry_step.stale [OF assms(2)] ok])
  have wf: "hm_wf (rg_nodes reg)" using ok by (simp add: registry_ok_def nodes_matchD(1))
  have "registry_get uid (cp_registry cp) = Some (marked_stale ipc now limit n)"
    by (simp add: assms(3,5) mark_stale_get [OF wf assms(2)])
  moreover have "map_option hc_status (fc_health (marked_stale ipc now limit n)) = Some NodeUnreachable"
    using assms(4) by (simp add: marked_stale_def fc_is_stale_def stale_health_def split: option.split)
  ultimately show ?thesis using discovery_unhealthy_iff [OF ok' assms(2)] by blast
qed

end
